(* ===== verification/Prelude.thy ===== *)
theory Prelude
  imports Complex_Main "HOL-Library.AList" "HOL-Library.Multiset" "HOL-Library.List_Lexorder"
    "HOL-Library.Char_ord"
begin

text \<open>
  The vocabulary every component shares.

  \<^item> \<open>jsmap\<close>: a JavaScript \<^verbatim>\<open>Map\<close>. Iteration order is observable in the code (pages are cut
    from the insertion order, evictions walk it), so a map is an association list in insertion
    order: \<open>jm_set\<close> replaces in place or appends, \<open>jm_delete\<close> removes, \<open>jm_get\<close> looks up.
    A \<^verbatim>\<open>Set\<close> is the list of its members in insertion order.
  \<^item> \<open>jsopt\<close>: a property that is absent, explicitly \<^verbatim>\<open>null\<close>, or present; \<open>'a option\<close> is used
    where the code makes no difference between the first two.
  \<^item> \<open>page\<close>: \<^verbatim>\<open>rows.slice(offset, offset + limit)\<close> for non-negative integers.
  \<^item> \<open>js_sort\<close>: \<^verbatim>\<open>Array.prototype.sort\<close> with a comparator: a stable sort. What it guarantees
    needs a lawful comparator, which is the locale \<open>js_comparator\<close>.
  \<^item> instants are milliseconds since the epoch (\<open>int\<close>). The code stores them as the ISO strings
    \<^verbatim>\<open>toISOString\<close> prints, which are fixed-width and in UTC, so string order is time order.
  \<^item> a JavaScript string is a \<open>string\<close> of 8-bit code units, on which code-unit order and
    code-point order coincide.
\<close>

section \<open>Named collections\<close>

named_theorems jm_simps \<open>lookup, key and membership laws of insertion-ordered maps\<close>
named_theorems wf_intro \<open>well-formedness is kept by the map operations\<close>
named_theorems frame_simps \<open>what an operation leaves unchanged\<close>

section \<open>Basic types\<close>

type_synonym ident = string
type_synonym instant = int

datatype 'a jsopt = Undefined | Null | Value 'a

fun jsopt_to_option :: "'a jsopt \<Rightarrow> 'a option" where
  "jsopt_to_option (Value v) = Some v"
| "jsopt_to_option Undefined = None"
| "jsopt_to_option Null = None"

definition or_default :: "'a option \<Rightarrow> 'a \<Rightarrow> 'a" where
  "or_default x d = (case x of None \<Rightarrow> d | Some v \<Rightarrow> v)"

lemma or_default_simps [simp]:
  "or_default None d = d"
  "or_default (Some v) d = v"
  by (simp_all add: or_default_def)

section \<open>Insertion-ordered maps\<close>

type_synonym ('k, 'v) jsmap = "('k \<times> 'v) list"

abbreviation jm_get :: "('k, 'v) jsmap \<Rightarrow> 'k \<Rightarrow> 'v option" where
  "jm_get m k \<equiv> map_of m k"

abbreviation jm_set :: "'k \<Rightarrow> 'v \<Rightarrow> ('k, 'v) jsmap \<Rightarrow> ('k, 'v) jsmap" where
  "jm_set k v m \<equiv> AList.update k v m"

abbreviation jm_delete :: "'k \<Rightarrow> ('k, 'v) jsmap \<Rightarrow> ('k, 'v) jsmap" where
  "jm_delete k m \<equiv> AList.delete k m"

definition jm_has :: "('k, 'v) jsmap \<Rightarrow> 'k \<Rightarrow> bool" where
  "jm_has m k = (case map_of m k of None \<Rightarrow> False | Some _ \<Rightarrow> True)"

abbreviation jm_values :: "('k, 'v) jsmap \<Rightarrow> 'v list" where
  "jm_values m \<equiv> map snd m"

abbreviation jm_keys :: "('k, 'v) jsmap \<Rightarrow> 'k list" where
  "jm_keys m \<equiv> map fst m"

abbreviation jm_wf :: "('k, 'v) jsmap \<Rightarrow> bool" where
  "jm_wf m \<equiv> distinct (map fst m)"

lemma jm_has_iff: "jm_has m k \<longleftrightarrow> (\<exists>v. map_of m k = Some v)"
  by (simp add: jm_has_def split: option.split)

lemma jm_has_dom [jm_simps]: "jm_has m k \<longleftrightarrow> k \<in> fst ` set m"
  by (simp add: jm_has_iff image_iff) (metis map_of_SomeD weak_map_of_SomeI fst_conv prod.collapse)

lemma jm_get_set [jm_simps]: "map_of (AList.update k v m) k' = (if k' = k then Some v else map_of m k')"
  by (simp add: update_conv')

lemma jm_get_delete [jm_simps]: "map_of (AList.delete k m) k' = (if k' = k then None else map_of m k')"
  by (simp add: delete_conv')

lemma jm_keys_set [jm_simps]: "fst ` set (AList.update k v m) = insert k (fst ` set m)"
  by (simp add: dom_update)

lemma jm_keys_delete [jm_simps]: "fst ` set (AList.delete k m) = fst ` set m - {k}"
  by (auto simp: AList.delete_eq image_iff)

lemma jm_has_set [jm_simps]: "jm_has (AList.update k v m) k' \<longleftrightarrow> k' = k \<or> jm_has m k'"
  by (auto simp: jm_has_dom dom_update)

lemma jm_has_delete [jm_simps]: "jm_has (AList.delete k m) k' \<longleftrightarrow> k' \<noteq> k \<and> jm_has m k'"
  by (auto simp: jm_has_dom jm_keys_delete)

lemma jm_wf_set [wf_intro]: "jm_wf m \<Longrightarrow> jm_wf (AList.update k v m)"
  by (rule distinct_update)

lemma jm_wf_delete [wf_intro]: "jm_wf m \<Longrightarrow> jm_wf (AList.delete k m)"
  by (rule distinct_delete)

lemma jm_wf_filter [wf_intro]: "jm_wf m \<Longrightarrow> jm_wf (filter P m)"
  by (induction m) auto

lemma jm_wf_Nil [wf_intro]: "jm_wf []"
  by simp

lemma jm_get_in: "jm_wf m \<Longrightarrow> (k, v) \<in> set m \<longleftrightarrow> map_of m k = Some v"
  by (meson map_of_SomeD map_of_is_SomeI)

lemma jm_values_get: "jm_wf m \<Longrightarrow> v \<in> set (map snd m) \<longleftrightarrow> (\<exists>k. map_of m k = Some v)"
  by (force simp: jm_get_in [symmetric])

lemma jm_get_filter:
  "jm_wf m \<Longrightarrow> map_of (filter P m) k =
     (case map_of m k of None \<Rightarrow> None | Some v \<Rightarrow> if P (k, v) then Some v else None)"
  by (induction m) (auto split: option.splits simp: map_of_eq_None_iff image_iff)

lemma jm_set_new: "k \<notin> fst ` set m \<Longrightarrow> AList.update k v m = m @ [(k, v)]"
  by (induction m) auto

lemma jm_set_length: "length (AList.update k v m) = (if k \<in> fst ` set m then length m else Suc (length m))"
  by (induction m) auto

section \<open>Sets in insertion order\<close>

text \<open>\<open>[...new Set(xs)]\<close>: the first of equals stays.\<close>

fun js_unique :: "'a list \<Rightarrow> 'a list" where
  "js_unique [] = []"
| "js_unique (x # xs) = x # js_unique (filter (\<lambda>y. y \<noteq> x) xs)"

lemma js_unique_set [simp]: "set (js_unique xs) = set xs"
  by (induction xs rule: js_unique.induct) auto

lemma js_unique_distinct [simp]: "distinct (js_unique xs)"
  by (induction xs rule: js_unique.induct) auto

section \<open>Pages\<close>

definition page :: "'a list \<Rightarrow> nat \<Rightarrow> nat \<Rightarrow> 'a list" where
  "page rows offset limit = take limit (drop offset rows)"

lemma page_length_le: "length (page rows offset limit) \<le> limit"
  by (simp add: page_def)

lemma set_page_subset: "set (page rows offset limit) \<subseteq> set rows"
  using set_take_subset set_drop_subset unfolding page_def by fast

lemma page_all: "page rows 0 (length rows) = rows"
  by (simp add: page_def)

lemma sorted_wrt_page: "sorted_wrt R rows \<Longrightarrow> sorted_wrt R (page rows offset limit)"
  by (simp add: page_def sorted_wrt_take sorted_wrt_drop)

text \<open>Consecutive pages of one listing tile it: nothing is lost or repeated between them.\<close>

lemma page_consecutive:
  "page rows offset limit @ page rows (offset + limit) limit' = page rows offset (limit + limit')"
proof -
  have "drop (offset + limit) rows = drop limit (drop offset rows)"
    by (simp add: add.commute)
  then show ?thesis unfolding page_def by (simp only: take_add)
qed

section \<open>Sorting with a comparator\<close>

fun js_insert :: "('a \<Rightarrow> 'a \<Rightarrow> int) \<Rightarrow> 'a \<Rightarrow> 'a list \<Rightarrow> 'a list" where
  "js_insert cmp x [] = [x]"
| "js_insert cmp x (y # ys) = (if cmp x y \<le> 0 then x # y # ys else y # js_insert cmp x ys)"

fun js_sort :: "('a \<Rightarrow> 'a \<Rightarrow> int) \<Rightarrow> 'a list \<Rightarrow> 'a list" where
  "js_sort cmp [] = []"
| "js_sort cmp (x # xs) = js_insert cmp x (js_sort cmp xs)"

lemma mset_js_insert: "mset (js_insert cmp x xs) = add_mset x (mset xs)"
  by (induction xs) auto

lemma mset_js_sort [simp]: "mset (js_sort cmp xs) = mset xs"
  by (induction xs) (simp_all add: mset_js_insert)

lemma set_js_insert: "set (js_insert cmp x xs) = insert x (set xs)"
  by (metis mset_js_insert set_mset_add_mset_insert set_mset_mset)

lemma set_js_sort [simp]: "set (js_sort cmp xs) = set xs"
  by (metis mset_js_sort set_mset_mset)

lemma length_js_sort [simp]: "length (js_sort cmp xs) = length xs"
  by (metis mset_js_sort size_mset)

text \<open>
  The contract a comparator passed to \<^verbatim>\<open>sort\<close> has to meet, and what sorting then gives: an
  ordered permutation, stable, and unique where only equal rows compare as equal.
\<close>

locale js_comparator =
  fixes cmp :: "'a \<Rightarrow> 'a \<Rightarrow> int"
  assumes cmp_swap: "0 < cmp x y \<longleftrightarrow> cmp y x < 0"
    and cmp_trans: "cmp x y \<le> 0 \<Longrightarrow> cmp y z \<le> 0 \<Longrightarrow> cmp x z \<le> 0"
begin

lemma cmp_total: "cmp x y \<le> 0 \<or> cmp y x \<le> 0"
  using cmp_swap [of x y] by linarith

lemma insert_sorted:
  "sorted_wrt (\<lambda>a b. cmp a b \<le> 0) xs \<Longrightarrow> sorted_wrt (\<lambda>a b. cmp a b \<le> 0) (js_insert cmp x xs)"
proof (induction xs)
  case Nil
  then show ?case by simp
next
  case (Cons y ys)
  show ?case
  proof (cases "cmp x y \<le> 0")
    case True
    with Cons.prems show ?thesis by (auto intro: cmp_trans)
  next
    case False
    then have "cmp y x \<le> 0" using cmp_total by blast
    with Cons False show ?thesis by (auto simp: set_js_insert)
  qed
qed

lemma sort_sorted: "sorted_wrt (\<lambda>a b. cmp a b \<le> 0) (js_sort cmp xs)"
  by (induction xs) (auto intro: insert_sorted)

lemma insert_filter_eq:
  assumes "sorted_wrt (\<lambda>a b. cmp a b \<le> 0) xs"
  shows "filter (\<lambda>y. cmp a y = 0) (js_insert cmp x xs) =
           (if cmp a x = 0 then x # filter (\<lambda>y. cmp a y = 0) xs else filter (\<lambda>y. cmp a y = 0) xs)"
  using assms
proof (induction xs)
  case Nil
  then show ?case by simp
next
  case (Cons y ys)
  have "cmp a y \<noteq> 0" if "cmp a x = 0" "\<not> cmp x y \<le> 0"
  proof
    assume "cmp a y = 0"
    have "cmp x a \<le> 0" using that(1) cmp_swap [of x a] by linarith
    with \<open>cmp a y = 0\<close> have "cmp x y \<le> 0" using cmp_trans by force
    with that(2) show False by simp
  qed
  with Cons show ?case by auto
qed

lemma sort_stable: "filter (\<lambda>y. cmp a y = 0) (js_sort cmp xs) = filter (\<lambda>y. cmp a y = 0) xs"
  by (induction xs) (simp_all add: insert_filter_eq sort_sorted)

lemma sorted_unique:
  assumes "\<And>x y. x \<in> set xs \<Longrightarrow> y \<in> set xs \<Longrightarrow> cmp x y = 0 \<Longrightarrow> x = y"
    and "sorted_wrt (\<lambda>a b. cmp a b \<le> 0) xs" "sorted_wrt (\<lambda>a b. cmp a b \<le> 0) ys"
    and "mset xs = mset ys"
  shows "xs = ys"
  using assms
proof (induction xs arbitrary: ys)
  case Nil
  then show ?case by simp
next
  case (Cons x xs)
  then obtain y ys' where ys: "ys = y # ys'" by (cases ys) auto
  have x_in: "x \<in> set ys" and y_in: "y \<in> set (x # xs)"
    using Cons.prems(4) ys by (metis list.set_intros(1) set_mset_mset)+
  have "cmp x y \<le> 0 \<and> cmp y x \<le> 0" if "x \<noteq> y"
    using that Cons.prems(2,3) x_in y_in ys by auto
  then have "x = y"
    using Cons.prems(1) [of x y] y_in cmp_swap [of y x] by (cases "x = y") auto
  with Cons.prems ys have "xs = ys'" by (intro Cons.IH) auto
  with \<open>x = y\<close> ys show ?case by simp
qed

lemma sort_permutation_invariant:
  assumes "\<And>x y. x \<in> set xs \<Longrightarrow> y \<in> set xs \<Longrightarrow> cmp x y = 0 \<Longrightarrow> x = y"
    and "mset xs = mset ys"
  shows "js_sort cmp xs = js_sort cmp ys"
  by (rule sorted_unique) (use assms in \<open>auto simp: sort_sorted\<close>)

lemma sort_idem:
  assumes "\<And>x y. x \<in> set xs \<Longrightarrow> y \<in> set xs \<Longrightarrow> cmp x y = 0 \<Longrightarrow> x = y"
  shows "js_sort cmp (js_sort cmp xs) = js_sort cmp xs"
  by (rule sort_permutation_invariant) (use assms in auto)

end

section \<open>Comparing strings and numbers as the code does\<close>

definition compare_of :: "'a::linorder \<Rightarrow> 'a \<Rightarrow> int" where
  "compare_of a b = (if a < b then - 1 else if b < a then 1 else 0)"

lemma compare_of_simps:
  "compare_of a b \<le> 0 \<longleftrightarrow> a \<le> b"
  "compare_of a b < 0 \<longleftrightarrow> a < b"
  "0 < compare_of a b \<longleftrightarrow> b < a"
  "compare_of a b = 0 \<longleftrightarrow> a = b"
  by (auto simp: compare_of_def)

interpretation code_unit: js_comparator "compare_of :: 'a::linorder \<Rightarrow> 'a \<Rightarrow> int"
  by unfold_locales (auto simp: compare_of_simps)

text \<open>A comparator that decides by a first key and breaks ties by a second is lawful when both are.\<close>

definition then_by :: "('a \<Rightarrow> 'a \<Rightarrow> int) \<Rightarrow> ('a \<Rightarrow> 'a \<Rightarrow> int) \<Rightarrow> 'a \<Rightarrow> 'a \<Rightarrow> int" where
  "then_by f g a b = (if f a b \<noteq> 0 then f a b else g a b)"

definition directed :: "int \<Rightarrow> ('a \<Rightarrow> 'a \<Rightarrow> int) \<Rightarrow> 'a \<Rightarrow> 'a \<Rightarrow> int" where
  "directed d f a b = d * f a b"

lemma js_comparator_then_by:
  assumes "js_comparator f" "js_comparator g"
  shows "js_comparator (then_by f g)"
proof
  fix x y z
  note f_swap = js_comparator.cmp_swap [OF assms(1)] and g_swap = js_comparator.cmp_swap [OF assms(2)]
  note f_trans = js_comparator.cmp_trans [OF assms(1)] and g_trans = js_comparator.cmp_trans [OF assms(2)]
  show "0 < then_by f g x y \<longleftrightarrow> then_by f g y x < 0"
    using f_swap [of x y] f_swap [of y x] g_swap [of x y] by (auto simp: then_by_def)
  assume xy: "then_by f g x y \<le> 0" and yz: "then_by f g y z \<le> 0"
  have "f x y \<le> 0" "f y z \<le> 0"
    using xy yz by (auto simp: then_by_def split: if_splits)
  then have "f x z \<le> 0" by (rule f_trans)
  moreover have "g x z \<le> 0" if "f x z = 0"
  proof -
    have "f z x \<le> 0" using that f_swap [of z x] by linarith
    have "f y x \<le> 0" using f_trans [OF \<open>f y z \<le> 0\<close> \<open>f z x \<le> 0\<close>] .
    then have "f x y = 0" using \<open>f x y \<le> 0\<close> f_swap [of y x] by linarith
    have "f z y \<le> 0" using f_trans [OF \<open>f z x \<le> 0\<close> \<open>f x y \<le> 0\<close>] .
    then have "f y z = 0" using \<open>f y z \<le> 0\<close> f_swap [of z y] by linarith
    with xy yz \<open>f x y = 0\<close> show ?thesis by (auto simp: then_by_def intro: g_trans)
  qed
  ultimately show "then_by f g x z \<le> 0" by (auto simp: then_by_def)
qed

lemma js_comparator_on:
  assumes "js_comparator f"
  shows "js_comparator (\<lambda>a b. f (key a) (key b))"
  by unfold_locales
    (auto simp: js_comparator.cmp_swap [OF assms] intro: js_comparator.cmp_trans [OF assms])

lemma js_comparator_flip:
  assumes "js_comparator f"
  shows "js_comparator (\<lambda>a b. f b a)"
  using js_comparator.cmp_swap [OF assms] js_comparator.cmp_trans [OF assms]
  by unfold_locales blast+

lemma js_comparator_directed:
  assumes "js_comparator f" "d = 1 \<or> d = - 1"
  shows "js_comparator (directed d f)"
proof
  fix x y z
  note swap = js_comparator.cmp_swap [OF assms(1)] and trans = js_comparator.cmp_trans [OF assms(1)]
  show "0 < directed d f x y \<longleftrightarrow> directed d f y x < 0"
    using assms(2) swap [of x y] swap [of y x] by (auto simp: directed_def)
  assume "directed d f x y \<le> 0" "directed d f y z \<le> 0"
  then show "directed d f x z \<le> 0"
    using assms(2) swap [of x y] swap [of y x] swap [of y z] swap [of z y] swap [of x z] swap [of z x]
      trans [of x y z] trans [of z y x]
    by (auto simp: directed_def not_less [symmetric])
qed

lemma js_comparator_compare_of: "js_comparator (compare_of :: 'a::linorder \<Rightarrow> 'a \<Rightarrow> int)"
  by (rule code_unit.js_comparator_axioms)

lemmas js_comparator_intros =
  js_comparator_then_by js_comparator_on js_comparator_flip js_comparator_directed
  js_comparator_compare_of

section \<open>White space\<close>

text \<open>What \<^verbatim>\<open>trim\<close> removes and \<^verbatim>\<open>\s\<close> matches, among 8-bit code units.\<close>

definition js_space :: "char \<Rightarrow> bool" where
  "js_space c \<longleftrightarrow> (of_char c :: nat) \<in> {9, 10, 11, 12, 13, 32, 160}"

end
