(* ===== verification/JsValue.thy ===== *)
theory JsValue
  imports Prelude
begin

text \<open>
  JavaScript values as the store handles them, and the two pure routines of
  \<^verbatim>\<open>packages/core\<close> that work on them.

  \<^item> \<open>jsval\<close>: the values a resource can carry before and after serialisation. A
    \<^verbatim>\<open>BaseMessage\<close> (any object with a \<^verbatim>\<open>toDict\<close> method) is \<open>JMessage type data\<close>; it only occurs
    before serialisation. Numbers are the extended reals a double can hold, without rounding.
  \<^item> \<open>serialize_wire_json\<close>: \<^verbatim>\<open>wire/serialize-wire-json.ts\<close> followed by \<^verbatim>\<open>JSON.parse\<close>, the
    normalisation every persisted payload goes through.
  \<^item> \<open>is_metadata_subset\<close>: \<^verbatim>\<open>store/metadata-match.ts\<close>, the containment behind every metadata
    filter and every ownership scope.

  Objects are lists of own properties; the prototype chain (which \<^verbatim>\<open>key in row\<close> also consults)
  and cyclic values are not modelled.
\<close>

datatype jsnum = NaN | MinusInf | PlusInf | Fin rat

datatype jsval =
    JUndef
  | JNull
  | JBool bool
  | JNum jsnum
  | JBig int
  | JStr string
  | JArr "jsval list"
  | JObj "(string \<times> jsval) list"
  | JMessage string "(string \<times> jsval) list"

type_synonym jsobj = "(string, jsval) jsmap"

section \<open>Equality\<close>

text \<open>\<^verbatim>\<open>a === b\<close>: \<^verbatim>\<open>NaN\<close> differs from itself; two object references that are not the same object differ.\<close>

fun js_strict_eq :: "jsval \<Rightarrow> jsval \<Rightarrow> bool" where
  "js_strict_eq JUndef JUndef = True"
| "js_strict_eq JNull JNull = True"
| "js_strict_eq (JBool a) (JBool b) = (a = b)"
| "js_strict_eq (JNum a) (JNum b) = (a = b \<and> a \<noteq> NaN)"
| "js_strict_eq (JBig a) (JBig b) = (a = b)"
| "js_strict_eq (JStr a) (JStr b) = (a = b)"
| "js_strict_eq _ _ = False"

text \<open>\<^verbatim>\<open>Array.prototype.includes\<close> compares with SameValueZero, which finds \<^verbatim>\<open>NaN\<close>.\<close>

definition same_value_zero :: "jsval \<Rightarrow> jsval \<Rightarrow> bool" where
  "same_value_zero a b = (js_strict_eq a b \<or> a = JNum NaN \<and> b = JNum NaN)"

fun is_js_scalar :: "jsval \<Rightarrow> bool" where
  "is_js_scalar (JArr _) = False"
| "is_js_scalar (JObj _) = False"
| "is_js_scalar (JMessage _ _) = False"
| "is_js_scalar _ = True"

text \<open>\<^verbatim>\<open>if (v)\<close>.\<close>

fun js_truthy :: "jsval \<Rightarrow> bool" where
  "js_truthy JUndef = False"
| "js_truthy JNull = False"
| "js_truthy (JBool b) = b"
| "js_truthy (JNum n) = (n \<noteq> NaN \<and> n \<noteq> Fin 0)"
| "js_truthy (JBig i) = (i \<noteq> 0)"
| "js_truthy (JStr text) = (text \<noteq> [])"
| "js_truthy _ = True"

text \<open>\<^verbatim>\<open>v?.name\<close>.\<close>

fun js_field :: "jsval \<Rightarrow> string \<Rightarrow> jsval" where
  "js_field (JObj ps) name = or_default (map_of ps name) JUndef"
| "js_field _ name = JUndef"

lemma js_strict_eq_imp_eq: "js_strict_eq a b \<Longrightarrow> a = b"
  by (induction a b rule: js_strict_eq.induct) auto

lemma js_strict_eq_sym: "js_strict_eq a b = js_strict_eq b a"
  by (induction a b rule: js_strict_eq.induct) auto

lemma js_strict_eq_trans: "js_strict_eq a b \<Longrightarrow> js_strict_eq b c \<Longrightarrow> js_strict_eq a c"
  using js_strict_eq_imp_eq by blast

section \<open>Wire serialisation\<close>

text \<open>
  \<^verbatim>\<open>JSON.stringify\<close> with the replacer of \<^verbatim>\<open>serializeWireJson\<close>, read back by \<^verbatim>\<open>JSON.parse\<close>: a
  value is written (\<open>Written\<close>), left out of its object (\<open>Omitted\<close>, for \<^verbatim>\<open>undefined\<close>; in an array
  it becomes \<^verbatim>\<open>null\<close>), or the call throws (\<open>Throws\<close>, for a BigInt). A message is replaced by
  \<^verbatim>\<open>{ ...data, type }\<close>, whose own properties are then visited.
\<close>

datatype wire_result = Written jsval | Omitted | Throws

definition with_type :: "string \<Rightarrow> (string \<times> jsval) list \<Rightarrow> (string \<times> jsval) list \<Rightarrow> (string \<times> jsval) list" where
  "with_type ty data out = (if ''type'' \<in> fst ` set data then out else out @ [(''type'', JStr ty)])"

fun wire_value :: "jsval \<Rightarrow> wire_result"
  and wire_items :: "jsval list \<Rightarrow> jsval list option"
  and wire_props :: "string option \<Rightarrow> (string \<times> jsval) list \<Rightarrow> (string \<times> jsval) list option" where
  "wire_value JUndef = Omitted"
| "wire_value JNull = Written JNull"
| "wire_value (JBool b) = Written (JBool b)"
| "wire_value (JNum (Fin q)) = Written (JNum (Fin q))"
| "wire_value (JNum _) = Written JNull"
| "wire_value (JBig _) = Throws"
| "wire_value (JStr s) = Written (JStr s)"
| "wire_value (JArr xs) = (case wire_items xs of None \<Rightarrow> Throws | Some ys \<Rightarrow> Written (JArr ys))"
| "wire_value (JObj ps) = (case wire_props None ps of None \<Rightarrow> Throws | Some qs \<Rightarrow> Written (JObj qs))"
| "wire_value (JMessage ty ps) =
     (case wire_props (Some ty) ps of
        None \<Rightarrow> Throws
      | Some qs \<Rightarrow> Written (JObj (with_type ty ps qs)))"
| "wire_items [] = Some []"
| "wire_items (x # xs) =
     (case wire_value x of
        Throws \<Rightarrow> None
      | Omitted \<Rightarrow> map_option ((#) JNull) (wire_items xs)
      | Written y \<Rightarrow> map_option ((#) y) (wire_items xs))"
| "wire_props ov [] = Some []"
| "wire_props ov ((k, v) # ps) =
     (case (case ov of
              Some ty \<Rightarrow> if k = ''type'' then Written (JStr ty) else wire_value v
            | None \<Rightarrow> wire_value v) of
        Throws \<Rightarrow> None
      | Omitted \<Rightarrow> wire_props ov ps
      | Written y \<Rightarrow> map_option ((#) (k, y)) (wire_props ov ps))"

text \<open>\<^verbatim>\<open>JSON.parse(serializeWireJson(value))\<close>; \<open>None\<close> when either call throws.\<close>

definition serialize_wire_json :: "jsval \<Rightarrow> jsval option" where
  "serialize_wire_json v = (case wire_value v of Written w \<Rightarrow> Some w | _ \<Rightarrow> None)"

text \<open>What \<^verbatim>\<open>JSON.parse\<close> can return.\<close>

fun is_wire_json :: "jsval \<Rightarrow> bool" where
  "is_wire_json JNull = True"
| "is_wire_json (JBool _) = True"
| "is_wire_json (JNum n) = (case n of Fin _ \<Rightarrow> True | _ \<Rightarrow> False)"
| "is_wire_json (JStr _) = True"
| "is_wire_json (JArr xs) = (\<forall>x \<in> set xs. is_wire_json x)"
| "is_wire_json (JObj ps) = (\<forall>p \<in> set ps. is_wire_json (snd p))"
| "is_wire_json _ = False"

lemma wire_value_is_wire:
  "wire_value v = Written w \<Longrightarrow> is_wire_json w"
  "wire_items vs = Some ws \<Longrightarrow> \<forall>w \<in> set ws. is_wire_json w"
  "wire_props ov ps = Some qs \<Longrightarrow> \<forall>q \<in> set qs. is_wire_json (snd q)"
proof (induction v and vs and ov ps arbitrary: w and ws and qs
    rule: wire_value_wire_items_wire_props.induct)
  case (12 x xs)
  then show ?case by (fastforce split: wire_result.splits)
next
  case (14 ov k v ps)
  then show ?case
    by (fastforce split: wire_result.splits option.splits if_splits)
next
  case (10 ty ps)
  then show ?case by (auto simp: with_type_def split: option.splits if_splits)
qed (auto split: option.splits)

lemma wire_value_id:
  "is_wire_json v \<Longrightarrow> wire_value v = Written v"
  "\<forall>v \<in> set vs. is_wire_json v \<Longrightarrow> wire_items vs = Some vs"
  "ov = None \<Longrightarrow> \<forall>p \<in> set ps. is_wire_json (snd p) \<Longrightarrow> wire_props ov ps = Some ps"
  by (induction v and vs and ov ps rule: wire_value_wire_items_wire_props.induct) auto

lemma serialize_wire_json_is_wire: "serialize_wire_json v = Some w \<Longrightarrow> is_wire_json w"
  by (auto simp: serialize_wire_json_def wire_value_is_wire split: wire_result.splits)

lemma serialize_wire_json_id: "is_wire_json v \<Longrightarrow> serialize_wire_json v = Some v"
  by (simp add: serialize_wire_json_def wire_value_id)

section \<open>Metadata containment\<close>

fun jsonb_contains :: "jsval \<Rightarrow> jsval \<Rightarrow> bool" where
  "jsonb_contains subject (JArr wanteds) =
     (case subject of
        JArr candidates \<Rightarrow>
          list_all (\<lambda>wanted. list_ex (\<lambda>candidate. jsonb_contains candidate wanted) candidates) wanteds
      | _ \<Rightarrow> False)"
| "jsonb_contains subject (JObj entries) =
     (if entries = [] then True
      else (case subject of
              JObj row \<Rightarrow>
                list_all (\<lambda>entry.
                  case jm_get row (fst entry) of
                    None \<Rightarrow> False
                  | Some v \<Rightarrow> jsonb_contains v (snd entry)) entries
            | _ \<Rightarrow> False))"
| "jsonb_contains subject scalar = js_strict_eq subject scalar"

definition is_metadata_subset :: "jsval \<Rightarrow> jsval option \<Rightarrow> bool" where
  "is_metadata_subset subject flt =
     (case flt of
        None \<Rightarrow> True
      | Some JUndef \<Rightarrow> True
      | Some JNull \<Rightarrow> True
      | Some f \<Rightarrow> jsonb_contains subject f)"

text \<open>Values whose objects have distinct keys and that carry no \<^verbatim>\<open>NaN\<close> or message object.\<close>

fun jsval_plain :: "jsval \<Rightarrow> bool" where
  "jsval_plain (JNum n) = (n \<noteq> NaN)"
| "jsval_plain (JArr xs) = (\<forall>x \<in> set xs. jsval_plain x)"
| "jsval_plain (JObj ps) = (jm_wf ps \<and> (\<forall>p \<in> set ps. jsval_plain (snd p)))"
| "jsval_plain (JMessage _ _) = False"
| "jsval_plain _ = True"

lemma jsonb_contains_refl: "jsval_plain v \<Longrightarrow> jsonb_contains v v"
proof (induction v rule: jsval_plain.induct)
  case (2 xs)
  then show ?case by (auto simp: list_all_iff list_ex_iff)
next
  case (3 ps)
  have "map_of ps (fst p) = Some (snd p)" if "p \<in> set ps" for p
    using that 3(2) by simp
  with 3 show ?case by (auto simp: list_all_iff)
qed auto

lemma jsonb_contains_trans:
  "jsonb_contains a b \<Longrightarrow> jsonb_contains b c \<Longrightarrow> jsonb_contains a c"
proof (induction b c arbitrary: a rule: jsonb_contains.induct)
  case (1 b ws)
  from "1.prems"(2) obtain bs where b: "b = JArr bs"
    and bw: "\<forall>w \<in> set ws. \<exists>x \<in> set bs. jsonb_contains x w"
    by (auto simp: list_all_iff list_ex_iff split: jsval.splits)
  from "1.prems"(1) b obtain as where a: "a = JArr as"
    and ab: "\<forall>x \<in> set bs. \<exists>y \<in> set as. jsonb_contains y x"
    by (auto simp: list_all_iff list_ex_iff split: jsval.splits)
  have "\<exists>y \<in> set as. jsonb_contains y w" if "w \<in> set ws" for w
    using that ab bw "1.IH" [OF b that] by blast
  then show ?case by (simp add: a list_all_iff list_ex_iff)
next
  case (2 b es)
  show ?case
  proof (cases "es = []")
    case True
    then show ?thesis by simp
  next
    case False
    with "2.prems"(2) obtain brow where b: "b = JObj brow"
      and be: "\<forall>e \<in> set es. \<exists>v. map_of brow (fst e) = Some v \<and> jsonb_contains v (snd e)"
      by (fastforce simp: list_all_iff split: jsval.splits option.splits)
    from be False have "brow \<noteq> []" by (cases es) auto
    with "2.prems"(1) b obtain arow where a: "a = JObj arow"
      and ab: "\<forall>e \<in> set brow. \<exists>v. map_of arow (fst e) = Some v \<and> jsonb_contains v (snd e)"
      by (fastforce simp: list_all_iff split: jsval.splits option.splits)
    have "\<exists>v. map_of arow (fst e) = Some v \<and> jsonb_contains v (snd e)" if e: "e \<in> set es" for e
    proof -
      obtain y where y: "map_of brow (fst e) = Some y" "jsonb_contains y (snd e)"
        using be e by blast
      then have "(fst e, y) \<in> set brow" by (meson map_of_SomeD)
      then obtain x where "map_of arow (fst e) = Some x" "jsonb_contains x y"
        using ab by fastforce
      with y False b e "2.IH" show ?thesis by blast
    qed
    with False show ?thesis by (fastforce simp: a list_all_iff split: option.splits)
  qed
qed (auto dest: js_strict_eq_imp_eq)

end
