(* ===== verification/Resources.thy ===== *)
theory Resources
  imports JsValue
begin

text \<open>
  The rows and inputs of the resource store, as \<^verbatim>\<open>packages/core/src/store\<close> and
  \<^verbatim>\<open>packages/core/src/wire\<close> declare them, and the error type of
  \<^verbatim>\<open>packages/core/src/errors/skein-http-error.ts\<close>. Field names are the code's with a prefix per
  record; payloads skein never looks into are \<open>jsval\<close>. Error messages are not modelled, only the
  HTTP status and the machine-readable code.
\<close>

section \<open>Errors\<close>

record http_error =
  he_status :: nat
  he_code :: "string option"

datatype thrown = Http http_error | SerializationError | Aborted | TypeError

definition conflict :: "string option \<Rightarrow> thrown" where
  "conflict code = Http \<lparr>he_status = 409, he_code = code\<rparr>"

definition unprocessable :: "string option \<Rightarrow> thrown" where
  "unprocessable code = Http \<lparr>he_status = 422, he_code = code\<rparr>"

definition not_found :: thrown where
  "not_found = Http \<lparr>he_status = 404, he_code = None\<rparr>"

section \<open>Statuses\<close>

datatype run_status = Pending | Running | Success | Errored | TimedOut | Interrupted | Cancelled

datatype thread_status = Idle | Busy | ThreadInterrupted | ThreadErrored

definition TERMINAL_RUN_STATUSES :: "run_status list" where
  "TERMINAL_RUN_STATUSES = [Success, Errored, TimedOut, Interrupted, Cancelled]"

definition is_terminal_run_status :: "run_status \<Rightarrow> bool" where
  "is_terminal_run_status status = (status \<in> set TERMINAL_RUN_STATUSES)"

definition INFLIGHT_RUN_STATUSES :: "run_status list" where
  "INFLIGHT_RUN_STATUSES = [Pending, Running]"

lemma terminal_simps [simp]:
  "\<not> is_terminal_run_status Pending"
  "\<not> is_terminal_run_status Running"
  "is_terminal_run_status Success"
  "is_terminal_run_status Errored"
  "is_terminal_run_status TimedOut"
  "is_terminal_run_status Interrupted"
  "is_terminal_run_status Cancelled"
  by (simp_all add: is_terminal_run_status_def TERMINAL_RUN_STATUSES_def)

lemma terminal_iff_not_inflight: "is_terminal_run_status st \<longleftrightarrow> st \<notin> set INFLIGHT_RUN_STATUSES"
  by (cases st) (auto simp: INFLIGHT_RUN_STATUSES_def)

datatype multitask_strategy = MReject | MEnqueue | MInterrupt | MRollback

datatype ttl_strategy = DeleteThread | KeepLatest

section \<open>Run errors and results\<close>

datatype run_error = RunError
  (re_error: string) (re_name: string) (re_message: string)
  (re_cause: "run_error option") (re_errors: "run_error list") (re_stack: "string option")

record run_result =
  rr_values :: jsval
  rr_interrupts :: "jsval option"
  rr_reply :: "jsval option"
  rr_checkpoint :: "jsval option"

section \<open>Deliveries\<close>

datatype delivery_status = DPending | Delivering | Delivered | Dead

record delivery =
  dl_delivery_id :: ident
  dl_run_id :: ident
  dl_thread_id :: ident
  dl_url :: string
  dl_payload :: jsval
  dl_payload_truncated :: bool
  dl_run_status :: run_status
  dl_status :: delivery_status
  dl_attempt :: nat
  dl_next_attempt_at :: instant
  dl_last_error :: "string option"
  dl_created_at :: instant
  dl_updated_at :: instant
  dl_expires_at :: instant

record delivery_create =
  dc_delivery_id :: "ident option"
  dc_thread_id :: ident
  dc_url :: string
  dc_payload :: jsval
  dc_payload_truncated :: "bool option"
  dc_next_attempt_at :: instant
  dc_expires_at :: instant

datatype delivery_attempt_result =
    AttemptDelivered "nat option"
  | AttemptRetrying instant string "nat option"
  | AttemptDead string "nat option"

section \<open>Runs\<close>

record run =
  r_run_id :: ident
  r_thread_id :: ident
  r_assistant_id :: ident
  r_created_at :: instant
  r_updated_at :: instant
  r_status :: run_status
  r_metadata :: jsval
  r_multitask_strategy :: "multitask_strategy option"
  r_error :: "run_error option"

text \<open>
  \<^verbatim>\<open>RunKwargs\<close>: the properties the store and the engine read have a field each; every other one
  (input, command, config, context, checkpoint, ...) is in \<open>kw_rest\<close>.
\<close>

record run_kwargs =
  kw_timeout_ms :: "int option"
  kw_terminal_delivery :: "delivery_create option"
  kw_native_origin :: "jsval option"
  kw_queue_not_before :: "instant option"
  kw_webhook :: "string option"
  kw_base_checkpoint_id :: "ident jsopt"
  kw_delete_thread_on_completion :: bool
  kw_rest :: jsobj

definition empty_kwargs :: run_kwargs where
  "empty_kwargs = \<lparr>kw_timeout_ms = None, kw_terminal_delivery = None, kw_native_origin = None,
     kw_queue_not_before = None, kw_webhook = None, kw_base_checkpoint_id = Undefined,
     kw_delete_thread_on_completion = False, kw_rest = []\<rparr>"

record run_create =
  rc_thread_id :: ident
  rc_assistant_id :: ident
  rc_run_id :: "ident option"
  rc_status :: "run_status option"
  rc_metadata :: "jsval option"
  rc_multitask_strategy :: "multitask_strategy option"
  rc_kwargs :: "run_kwargs option"

record run_create_guard =
  rg_require_no_active_run :: bool
  rg_thread_status_in :: "thread_status list option"

datatype guarded_run_create =
    GuardedRun run
  | RefusedThreadBusy
  | RefusedStatusMismatch thread_status

record run_settlement =
  se_status :: run_status
  se_error :: "run_error option"
  se_result :: "run_result option"
  se_delivery :: "delivery_create option"

section \<open>Threads\<close>

record thread =
  t_thread_id :: ident
  t_created_at :: instant
  t_updated_at :: instant
  t_state_updated_at :: instant
  t_metadata :: jsval
  t_status :: thread_status
  t_values :: jsval
  t_interrupts :: jsval
  t_error :: "string option"

text \<open>What a read returns: the row and its retention, projected from the store's own maps.\<close>

record thread_view = thread +
  tv_ttl :: "int option"
  tv_ttl_strategy :: ttl_strategy
  tv_expires_at :: "instant option"

record thread_create =
  tc_thread_id :: "ident option"
  tc_metadata :: "jsval option"
  tc_status :: "thread_status option"
  tc_ttl :: "int jsopt"
  tc_ttl_strategy :: "ttl_strategy option"

record thread_update =
  tu_metadata :: "jsval option"
  tu_status :: "thread_status option"
  tu_ttl :: "int jsopt"
  tu_ttl_strategy :: "ttl_strategy option"
  tu_values :: "jsval option"
  tu_interrupts :: "jsval option"
  tu_error :: "string jsopt"

definition empty_thread_update :: thread_update where
  "empty_thread_update = \<lparr>tu_metadata = None, tu_status = None, tu_ttl = Undefined,
     tu_ttl_strategy = None, tu_values = None, tu_interrupts = None, tu_error = Undefined\<rparr>"

record thread_retention =
  tr_ttl :: "int jsopt"
  tr_strategy :: ttl_strategy

record thread_ttl_config =
  tt_strategy :: "ttl_strategy option"
  tt_default_ttl :: "int option"

section \<open>Assistants\<close>

record assistant =
  a_assistant_id :: ident
  a_graph_id :: ident
  a_config :: jsval
  a_context :: jsval
  a_created_at :: instant
  a_updated_at :: instant
  a_metadata :: jsval
  a_version :: nat
  a_name :: string
  a_description :: "string option"

record assistant_version =
  av_assistant_id :: ident
  av_graph_id :: ident
  av_config :: jsval
  av_context :: jsval
  av_created_at :: instant
  av_metadata :: jsval
  av_version :: nat
  av_name :: string
  av_description :: "string option"

section \<open>Crons\<close>

datatype on_run_completed = KeepThread | RemoveThread

record cron =
  c_cron_id :: ident
  c_assistant_id :: ident
  c_thread_id :: "ident option"
  c_schedule :: string
  c_timezone :: "string option"
  c_end_time :: "instant option"
  c_next_run_date :: "instant option"
  c_enabled :: bool
  c_payload :: jsval
  c_metadata :: jsval
  c_user_id :: "ident option"
  c_created_at :: instant
  c_updated_at :: instant
  c_on_run_completed :: "on_run_completed option"

record cron_auth =
  ca_user :: jsval
  ca_scopes :: "string list option"

record cron_claim =
  cc_expected_seq :: nat
  cc_next_run_date :: "instant option"

section \<open>Items\<close>

record item =
  it_namespace :: "string list"
  it_key :: string
  it_value :: jsobj
  it_created_at :: instant
  it_updated_at :: instant

record item_view = item +
  iv_ttl :: "int option"
  iv_expires_at :: "instant option"
  iv_score :: "int option"

datatype item_index = NotIndexed | IndexedFields "string list"

record item_expiry =
  ie_expires_at :: "instant option"
  ie_ttl_minutes :: "int option"

record store_ttl_config =
  st_default_ttl :: "int option"
  st_refresh_on_read :: "bool option"

section \<open>Idempotency\<close>

datatype idempotency_status = InFlight | Done

record recorded_response =
  rs_status :: nat
  rs_body :: jsval
  rs_headers :: "(string \<times> string) list option"

record idempotency_record =
  ir_key :: string
  ir_scope :: string
  ir_fingerprint :: string
  ir_claim_id :: ident
  ir_status :: idempotency_status
  ir_response :: "recorded_response option"
  ir_run_id :: "ident option"
  ir_thread_id :: "ident option"
  ir_created_at :: instant
  ir_updated_at :: instant
  ir_expires_at :: instant

section \<open>Admission\<close>

datatype dispatch_kind = DispatchRun | DispatchCancel

datatype cancel_action = ActionInterrupt | ActionRollback

record dispatch =
  dp_run_id :: ident
  dp_thread_id :: ident
  dp_token :: string
  dp_kind :: dispatch_kind
  dp_not_before :: instant
  dp_action :: "cancel_action option"
  dp_lease_until :: "instant option"
  dp_dispatched :: bool

record admission_receipt =
  ar_idempotency_key :: string
  ar_run_id :: ident
  ar_thread_id :: ident

section \<open>Object spread\<close>

text \<open>\<^verbatim>\<open>{ ...a, ...b }\<close>: the entries of \<open>b\<close> are written over those of \<open>a\<close>.\<close>

fun spread_over :: "jsobj \<Rightarrow> jsobj \<Rightarrow> jsobj" where
  "spread_over a [] = a"
| "spread_over a ((k, v) # b) = spread_over (jm_set k v a) b"

fun js_entries :: "jsval \<Rightarrow> jsobj" where
  "js_entries (JObj ps) = ps"
| "js_entries (JMessage _ ps) = ps"
| "js_entries _ = []"

definition js_spread :: "jsval \<Rightarrow> jsval \<Rightarrow> jsval" where
  "js_spread a b = JObj (spread_over (spread_over [] (js_entries a)) (js_entries b))"

lemma spread_over_get:
  "jm_wf b \<Longrightarrow> map_of (spread_over a b) k = (case map_of b k of Some v \<Rightarrow> Some v | None \<Rightarrow> map_of a k)"
proof (induction a b rule: spread_over.induct)
  case (2 a k' v b)
  then have "map_of b k' = None" by (simp add: map_of_eq_None_iff)
  with 2 show ?case by (auto simp: jm_simps split: option.split)
qed simp

lemma js_spread_get:
  assumes "jm_wf (js_entries a)" "jm_wf (js_entries b)"
  shows "map_of (js_entries (js_spread a b)) k =
           (case map_of (js_entries b) k of Some v \<Rightarrow> Some v | None \<Rightarrow> map_of (js_entries a) k)"
  using assms by (simp add: js_spread_def spread_over_get split: option.split)

end
