(* ===== verification/JsonText.thy ===== *)
theory JsonText
  imports JsValue
begin

text \<open>
  The text \<^verbatim>\<open>JSON.stringify\<close> produces for arrays of strings and for a string paired with a
  non-negative integer. The store uses these texts as map keys (\<^verbatim>\<open>itemKey\<close>, \<^verbatim>\<open>versionKey\<close>,
  \<^verbatim>\<open>idempotencyKey\<close> and the key of \<^verbatim>\<open>listNamespaces\<close>), relying on them being collision-free; the
  lemmas here prove that they are. The proof decodes: a quoted string is never a proper prefix of
  what another one continues as.
\<close>

section \<open>Quoted strings\<close>

definition hex_digit :: "nat \<Rightarrow> char" where
  "hex_digit n = char_of (if n < 10 then 48 + n else 87 + n)"

fun json_escape :: "char \<Rightarrow> string" where
  "json_escape c =
     (let n = of_char c :: nat in
      if n = 34 then [CHR 0x5C, CHR 0x22]
      else if n = 92 then [CHR 0x5C, CHR 0x5C]
      else if n = 8 then [CHR 0x5C, CHR ''b'']
      else if n = 9 then [CHR 0x5C, CHR ''t'']
      else if n = 10 then [CHR 0x5C, CHR ''n'']
      else if n = 12 then [CHR 0x5C, CHR ''f'']
      else if n = 13 then [CHR 0x5C, CHR ''r'']
      else if n < 32 then [CHR 0x5C, CHR ''u'', CHR ''0'', CHR ''0'', hex_digit (n div 16), hex_digit (n mod 16)]
      else [c])"

definition json_quote :: "string \<Rightarrow> string" where
  "json_quote s = CHR 0x22 # concat (map json_escape s) @ [CHR 0x22]"

fun json_commas :: "string list \<Rightarrow> string" where
  "json_commas [] = ''''"
| "json_commas [x] = x"
| "json_commas (x # y # ys) = x @ CHR '','' # json_commas (y # ys)"

definition json_strings :: "string list \<Rightarrow> string" where
  "json_strings xs = CHR ''['' # json_commas (map json_quote xs) @ [CHR '']'']"

fun decimal :: "nat \<Rightarrow> string" where
  "decimal n = (if n < 10 then [char_of (48 + n)] else decimal (n div 10) @ [char_of (48 + n mod 10)])"

declare decimal.simps [simp del]

section \<open>Decoding\<close>

definition hex_value :: "char \<Rightarrow> nat" where
  "hex_value c = (let n = of_char c in if n < 58 then n - 48 else n - 87)"

fun json_unescape :: "string \<Rightarrow> (char \<times> string) option" where
  "json_unescape [] = None"
| "json_unescape (c # cs) =
     (if c = CHR 0x22 then None
      else if c \<noteq> CHR 0x5C then Some (c, cs)
      else (case cs of
              [] \<Rightarrow> None
            | d # ds \<Rightarrow>
                if d = CHR 0x22 then Some (CHR 0x22, ds)
                else if d = CHR 0x5C then Some (CHR 0x5C, ds)
                else if d = CHR ''b'' then Some (char_of (8::nat), ds)
                else if d = CHR ''t'' then Some (char_of (9::nat), ds)
                else if d = CHR ''n'' then Some (char_of (10::nat), ds)
                else if d = CHR ''f'' then Some (char_of (12::nat), ds)
                else if d = CHR ''r'' then Some (char_of (13::nat), ds)
                else (case ds of
                        z # z' # h # l # es \<Rightarrow> Some (char_of (16 * hex_value h + hex_value l), es)
                      | _ \<Rightarrow> None)))"

lemma of_char_hex_digit: "n < 16 \<Longrightarrow> of_char (hex_digit n) = (if n < 10 then 48 + n else 87 + n)"
  by (simp add: hex_digit_def)

lemma hex_value_digit: "n < 16 \<Longrightarrow> hex_value (hex_digit n) = n"
  by (simp add: hex_value_def of_char_hex_digit Let_def)

lemma char_of_quote: "char_of (34::nat) = CHR 0x22" "char_of (92::nat) = CHR 0x5C"
  by code_simp+

lemma char_eq_of_nat: "of_char c = (n::nat) \<Longrightarrow> c = char_of n"
  by auto

lemma json_unescape_escape: "json_unescape (json_escape c @ r) = Some (c, r)"
proof -
  let ?n = "of_char c :: nat"
  have c: "c = char_of ?n" by simp
  consider "?n = 34" | "?n = 92" | "?n = 8" | "?n = 9" | "?n = 10" | "?n = 12" | "?n = 13"
    | (ctl) "?n < 32" "?n \<notin> {8, 9, 10, 12, 13}"
    | (plain) "32 \<le> ?n" "?n \<noteq> 34" "?n \<noteq> 92"
    by force
  then show ?thesis
  proof cases
    case ctl
    have "hex_value (hex_digit (?n div 16)) = ?n div 16"
      by (rule hex_value_digit) (use ctl in simp)
    moreover have "hex_value (hex_digit (?n mod 16)) = ?n mod 16"
      by (rule hex_value_digit) simp
    ultimately have "char_of (16 * hex_value (hex_digit (?n div 16)) + hex_value (hex_digit (?n mod 16))) = c"
      using c by simp
    with ctl show ?thesis by (simp add: Let_def)
  next
    case plain
    then have "c \<noteq> CHR 0x22" "c \<noteq> CHR 0x5C" by auto
    with plain show ?thesis by (simp add: Let_def)
  qed (auto simp: Let_def char_of_quote dest!: char_eq_of_nat)
qed

lemma json_escape_not_quote: "json_escape c @ r \<noteq> CHR 0x22 # s"
  using json_unescape_escape [of c r] by (metis json_unescape.simps(2) option.distinct(1))

lemma escaped_split:
  "concat (map json_escape s) @ CHR 0x22 # r = concat (map json_escape s') @ CHR 0x22 # r' \<Longrightarrow>
     s = s' \<and> r = r'"
proof (induction s arbitrary: s')
  case Nil
  then show ?case
    using json_escape_not_quote by (cases s') (auto simp del: json_escape.simps, metis append_assoc)
next
  case (Cons c s)
  show ?case
  proof (cases s')
    case Nil
    with Cons.prems show ?thesis
      using json_escape_not_quote by (auto simp del: json_escape.simps)
  next
    case (Cons c' t)
    from Cons.prems Cons have
      "json_escape c @ (concat (map json_escape s) @ CHR 0x22 # r) =
       json_escape c' @ (concat (map json_escape t) @ CHR 0x22 # r')"
      by (simp del: json_escape.simps)
    then have "Some (c, concat (map json_escape s) @ CHR 0x22 # r) =
               Some (c', concat (map json_escape t) @ CHR 0x22 # r')"
      by (metis json_unescape_escape)
    with Cons Cons.IH show ?thesis by (simp del: json_escape.simps)
  qed
qed

lemma json_quote_split: "json_quote s @ r = json_quote s' @ r' \<Longrightarrow> s = s' \<and> r = r'"
  by (rule escaped_split) (simp add: json_quote_def del: json_escape.simps)

lemma json_quote_nonempty: "json_quote s \<noteq> []" "hd (json_quote s) = CHR 0x22"
  by (simp_all add: json_quote_def)

section \<open>Arrays of strings\<close>

text \<open>
  The array of the namespace is followed by a comma, and inside it every string is followed by a
  comma or by the closing bracket: reading quoted strings off the front decides both.
\<close>

lemma json_commas_split_bracket:
  "json_commas (map json_quote xs) @ CHR '']'' # r = json_commas (map json_quote ys) @ CHR '']'' # r' \<Longrightarrow>
     xs = ys \<and> r = r'"
proof (induction xs arbitrary: ys)
  case Nil
  then show ?case
    by (cases ys rule: json_commas.cases) (auto simp: json_quote_def)
next
  case (Cons x xs)
  show ?case
  proof (cases ys)
    case Nil
    with Cons.prems show ?thesis
      by (cases xs) (auto simp: json_quote_def)
  next
    case ys: (Cons y ys')
    let ?t = "\<lambda>zs r. if zs = [] then CHR '']'' # r else CHR '','' # json_commas (map json_quote zs) @ CHR '']'' # r"
    have unfold: "json_commas (map json_quote (z # zs)) @ CHR '']'' # r = json_quote z @ ?t zs r" for z zs r
      by (cases zs) simp_all
    have "json_quote x @ ?t xs r = json_quote y @ ?t ys' r'"
      using Cons.prems ys unfold by metis
    then have "x = y" "?t xs r = ?t ys' r'" using json_quote_split by blast+
    then have "xs = ys' \<and> r = r'"
      by (cases "xs = []"; cases "ys' = []") (auto intro: Cons.IH dest: Cons.IH)
    with \<open>x = y\<close> ys show ?thesis by simp
  qed
qed

lemma json_quote_inject [simp]: "json_quote s = json_quote s' \<longleftrightarrow> s = s'"
  using json_quote_split [of s "[]" s' "[]"] by auto

lemma json_strings_inject [simp]: "json_strings xs = json_strings ys \<longleftrightarrow> xs = ys"
  using json_commas_split_bracket [of xs "[]" ys "[]"] by (auto simp: json_strings_def)

section \<open>Numbers\<close>

lemma decimal_digit: "m < 10 \<Longrightarrow> of_char (char_of (48 + m)) = (48 + m :: nat)"
  by simp

lemma decimal_inject: "decimal m = decimal n \<Longrightarrow> m = n"
proof (induction m arbitrary: n rule: decimal.induct)
  case (1 m)
  have ne: "decimal k \<noteq> []" for k by (subst decimal.simps) simp
  have last_digit: "last (decimal k) = char_of (48 + k mod 10)" for k
    by (subst decimal.simps) simp
  have init: "butlast (decimal k) = (if k < 10 then [] else decimal (k div 10))" for k
    by (subst decimal.simps) simp
  have "of_char (char_of (48 + m mod 10)) = (of_char (char_of (48 + n mod 10)) :: nat)"
    using "1.prems" last_digit by metis
  then have digit: "m mod 10 = n mod 10" by (simp add: decimal_digit)
  have rest: "(if m < 10 then [] else decimal (m div 10)) = (if n < 10 then [] else decimal (n div 10))"
    using "1.prems" init by metis
  show ?case
  proof (cases "m < 10")
    case True
    with rest ne have "n < 10" by (metis (full_types))
    with True digit show ?thesis by simp
  next
    case False
    with rest ne have n: "\<not> n < 10" by (metis (full_types))
    with rest False have "m div 10 = n div 10" using "1.IH" by simp
    with digit show ?thesis by (metis mult_div_mod_eq)
  qed
qed

section \<open>The store's keys\<close>

text \<open>\<^verbatim>\<open>JSON.stringify([namespace, key])\<close>\<close>

definition item_key :: "string list \<Rightarrow> string \<Rightarrow> string" where
  "item_key ns key = CHR ''['' # json_strings ns @ CHR '','' # json_quote key @ [CHR '']'']"

text \<open>\<^verbatim>\<open>JSON.stringify([assistantId, version])\<close>\<close>

definition version_key :: "ident \<Rightarrow> nat \<Rightarrow> string" where
  "version_key assistant_id version =
     CHR ''['' # json_quote assistant_id @ CHR '','' # decimal version @ [CHR '']'']"

text \<open>\<^verbatim>\<open>JSON.stringify([scope, key])\<close>\<close>

definition idempotency_key :: "string \<Rightarrow> string \<Rightarrow> string" where
  "idempotency_key scope key = json_strings [scope, key]"

lemma idempotency_key_inject [simp]:
  "idempotency_key s k = idempotency_key s' k' \<longleftrightarrow> s = s' \<and> k = k'"
  by (simp add: idempotency_key_def)

lemma version_key_inject [simp]:
  "version_key a v = version_key b w \<longleftrightarrow> a = b \<and> v = w"
  by (auto simp: version_key_def dest!: json_quote_split dest: decimal_inject)

lemma item_key_inject [simp]: "item_key ns k = item_key ns' k' \<longleftrightarrow> ns = ns' \<and> k = k'"
proof
  assume "item_key ns k = item_key ns' k'"
  then have "json_commas (map json_quote ns) @ CHR '']'' # CHR '','' # json_quote k @ [CHR '']''] =
             json_commas (map json_quote ns') @ CHR '']'' # CHR '','' # json_quote k' @ [CHR '']'']"
    by (simp add: item_key_def json_strings_def)
  from json_commas_split_bracket [OF this] show "ns = ns' \<and> k = k'"
    by (auto dest: json_quote_split)
qed simp

section \<open>Property\<close>

text \<open>
  The store's map keys are collision-free, whatever separators or quotes the parts contain: two
  items share a slot exactly when namespace and key agree, two assistant versions exactly when
  assistant and number agree, two idempotency records exactly when scope and key agree.
\<close>

theorem store_keys_collision_free:
  "(item_key ns k = item_key ns' k' \<longleftrightarrow> ns = ns' \<and> k = k') \<and>
   (version_key a v = version_key b w \<longleftrightarrow> a = b \<and> v = w) \<and>
   (idempotency_key s i = idempotency_key s' i' \<longleftrightarrow> s = s' \<and> i = i')"
  by simp

end
