(* ===== verification/Namespaces.thy ===== *)
theory Namespaces
  imports JsonText
begin

text \<open>
  \<^verbatim>\<open>packages/core/src/store/namespace-match.ts\<close> and \<^verbatim>\<open>pagination.ts\<close>: positional namespace
  matching with a one-segment wildcard, depth truncation, the ascending order of namespaces, and
  the check of a driver's page bound.
\<close>

type_synonym namespace = "string list"

section \<open>Safe integers and page bounds\<close>

definition js_safe_integer :: "jsnum \<Rightarrow> bool" where
  "js_safe_integer n =
     (case n of Fin q \<Rightarrow> of_int \<lfloor>q\<rfloor> = q \<and> \<bar>q\<bar> \<le> 9007199254740991 | _ \<Rightarrow> False)"

definition jsnum_at_least :: "rat \<Rightarrow> jsnum \<Rightarrow> bool" where
  "jsnum_at_least q n = (case n of Fin p \<Rightarrow> q \<le> p | PlusInf \<Rightarrow> True | _ \<Rightarrow> False)"

definition jsnum_at_most :: "rat \<Rightarrow> jsnum \<Rightarrow> bool" where
  "jsnum_at_most q n = (case n of Fin p \<Rightarrow> p \<le> q | MinusInf \<Rightarrow> True | _ \<Rightarrow> False)"

definition MAX_NAMESPACE_DEPTH :: rat where
  "MAX_NAMESPACE_DEPTH = 1000"

definition is_valid_namespace_depth :: "jsnum \<Rightarrow> bool" where
  "is_valid_namespace_depth depth =
     (js_safe_integer depth \<and> jsnum_at_least 1 depth \<and> jsnum_at_most MAX_NAMESPACE_DEPTH depth)"

definition DEFAULT_MAX_PAGE_SIZE :: nat where
  "DEFAULT_MAX_PAGE_SIZE = 1000"

text \<open>\<open>None\<close> is the \<^verbatim>\<open>RangeError\<close>; an accepted value is a positive integer.\<close>

definition require_valid_max_page_size :: "jsnum \<Rightarrow> nat option" where
  "require_valid_max_page_size value =
     (if \<not> js_safe_integer value \<or> jsnum_at_most 0 value then None
      else (case value of Fin q \<Rightarrow> Some (nat \<lfloor>q\<rfloor>) | _ \<Rightarrow> None))"

lemma require_valid_max_page_size_bounds:
  assumes "require_valid_max_page_size v = Some n"
  shows "v = Fin (of_nat n) \<and> 0 < n \<and> n \<le> 9007199254740991"
proof -
  from assms obtain k where q: "v = Fin (of_int k)" "\<bar>rat_of_int k\<bar> \<le> 9007199254740991" "0 < rat_of_int k" "n = nat k"
    by (auto simp: require_valid_max_page_size_def js_safe_integer_def jsnum_at_most_def
        split: jsnum.splits if_splits)
  then show ?thesis by simp
qed

lemma valid_namespace_depth_iff:
  "is_valid_namespace_depth (Fin (of_int k)) \<longleftrightarrow> 1 \<le> k \<and> k \<le> 1000"
  by (auto simp: is_valid_namespace_depth_def js_safe_integer_def jsnum_at_least_def jsnum_at_most_def
      MAX_NAMESPACE_DEPTH_def)

section \<open>Matching\<close>

definition NAMESPACE_WILDCARD :: string where
  "NAMESPACE_WILDCARD = ''*''"

record namespace_query =
  nq_prefix :: "namespace option"
  nq_suffix :: "namespace option"
  nq_max_depth :: "nat option"
  nq_limit :: "nat option"
  nq_offset :: "nat option"

definition has_namespace_wildcard :: "namespace \<Rightarrow> bool" where
  "has_namespace_wildcard path = list_ex (\<lambda>segment. segment = NAMESPACE_WILDCARD) path"

definition segments_match :: "namespace \<Rightarrow> namespace \<Rightarrow> bool" where
  "segments_match path ns = list_all (\<lambda>(segment, s). segment = NAMESPACE_WILDCARD \<or> s = segment) (zip path ns)"

definition matches_namespace_prefix :: "namespace \<Rightarrow> namespace \<Rightarrow> bool" where
  "matches_namespace_prefix ns path =
     (if length ns < length path then False else segments_match path ns)"

definition matches_namespace_suffix :: "namespace \<Rightarrow> namespace \<Rightarrow> bool" where
  "matches_namespace_suffix ns path =
     (if length ns < length path then False
      else segments_match path (drop (length ns - length path) ns))"

definition matches_namespace_query :: "namespace \<Rightarrow> namespace_query option \<Rightarrow> bool" where
  "matches_namespace_query ns query =
     (case query of
        None \<Rightarrow> True
      | Some q \<Rightarrow>
          (case nq_prefix q of
             Some p \<Rightarrow> p = [] \<or> matches_namespace_prefix ns p
           | None \<Rightarrow> True) \<and>
          (case nq_suffix q of
             Some p \<Rightarrow> p = [] \<or> matches_namespace_suffix ns p
           | None \<Rightarrow> True))"

text \<open>A path whose every segment matches is a pattern: wildcards cover one segment each.\<close>

definition segment_ok :: "string \<Rightarrow> string \<Rightarrow> bool" where
  "segment_ok segment s \<longleftrightarrow> segment = NAMESPACE_WILDCARD \<or> s = segment"

lemma segments_match_all2:
  "length path = length ns \<Longrightarrow> segments_match path ns \<longleftrightarrow> list_all2 segment_ok path ns"
  by (induction path ns rule: list_induct2) (auto simp: segments_match_def segment_ok_def)

lemma segments_match_take: "segments_match path ns \<longleftrightarrow> segments_match path (take (length path) ns)"
proof (induction path arbitrary: ns)
  case Nil
  then show ?case by (simp add: segments_match_def)
next
  case (Cons s path)
  then show ?case by (cases ns) (simp_all add: segments_match_def)
qed

lemma matches_prefix_iff:
  "matches_namespace_prefix ns path \<longleftrightarrow>
     (\<exists>pre post. ns = pre @ post \<and> list_all2 segment_ok path pre)"
proof
  assume match: "matches_namespace_prefix ns path"
  then have len: "length path \<le> length ns"
    by (simp add: matches_namespace_prefix_def split: if_splits)
  then have "list_all2 segment_ok path (take (length path) ns)"
    using match segments_match_take segments_match_all2 [of path "take (length path) ns"]
    by (simp add: matches_namespace_prefix_def)
  then show "\<exists>pre post. ns = pre @ post \<and> list_all2 segment_ok path pre"
    by (metis append_take_drop_id)
next
  assume "\<exists>pre post. ns = pre @ post \<and> list_all2 segment_ok path pre"
  then obtain pre post where ns: "ns = pre @ post" and ok: "list_all2 segment_ok path pre"
    by blast
  have len: "length path = length pre" using ok by (rule list_all2_lengthD)
  then have "segments_match path ns"
    using ok ns segments_match_take [of path ns] segments_match_all2 [of path pre] by simp
  then show "matches_namespace_prefix ns path"
    using ns len by (simp add: matches_namespace_prefix_def)
qed

lemma matches_suffix_iff:
  "matches_namespace_suffix ns path \<longleftrightarrow>
     (\<exists>pre post. ns = pre @ post \<and> list_all2 segment_ok path post)"
proof
  assume match: "matches_namespace_suffix ns path"
  then have len: "length path \<le> length ns"
    by (simp add: matches_namespace_suffix_def split: if_splits)
  then have "list_all2 segment_ok path (drop (length ns - length path) ns)"
    using match segments_match_all2 [of path "drop (length ns - length path) ns"]
    by (simp add: matches_namespace_suffix_def)
  then show "\<exists>pre post. ns = pre @ post \<and> list_all2 segment_ok path post"
    by (metis append_take_drop_id)
next
  assume "\<exists>pre post. ns = pre @ post \<and> list_all2 segment_ok path post"
  then obtain pre post where ns: "ns = pre @ post" and ok: "list_all2 segment_ok path post"
    by blast
  have len: "length path = length post" using ok by (rule list_all2_lengthD)
  then show "matches_namespace_suffix ns path"
    using ok ns segments_match_all2 [of path post] by (simp add: matches_namespace_suffix_def)
qed

lemma segment_ok_literal: "\<not> has_namespace_wildcard path \<Longrightarrow> list_all2 segment_ok path ns \<longleftrightarrow> path = ns"
proof (induction path arbitrary: ns)
  case Nil
  then show ?case by (cases ns) simp_all
next
  case (Cons s path)
  then show ?case by (cases ns) (auto simp: has_namespace_wildcard_def segment_ok_def)
qed

section \<open>Truncation\<close>

fun truncate_into :: "(string, namespace) jsmap \<Rightarrow> nat \<Rightarrow> namespace list \<Rightarrow> (string, namespace) jsmap" where
  "truncate_into seen depth [] = seen"
| "truncate_into seen depth (ns # nss) =
     truncate_into (jm_set (json_strings (take depth ns)) (take depth ns) seen) depth nss"

definition truncate_namespace_depth :: "namespace list \<Rightarrow> nat \<Rightarrow> namespace list" where
  "truncate_namespace_depth nss depth = jm_values (truncate_into [] depth nss)"

text \<open>The map behind the de-duplication is keyed by the text of its value.\<close>

definition self_keyed :: "(string, namespace) jsmap \<Rightarrow> bool" where
  "self_keyed seen \<longleftrightarrow> (\<forall>e \<in> set seen. fst e = json_strings (snd e))"

lemma self_keyed_Nil: "self_keyed []"
  by (simp add: self_keyed_def)

lemma self_keyed_set: "self_keyed seen \<Longrightarrow> self_keyed (jm_set (json_strings ns) ns seen)"
  unfolding self_keyed_def
proof
  fix e
  assume keyed: "\<forall>e \<in> set seen. fst e = json_strings (snd e)"
    and "e \<in> set (jm_set (json_strings ns) ns seen)"
  then show "fst e = json_strings (snd e)"
    by (induction seen) (auto split: if_splits)
qed

lemma truncate_into_keeps:
  "jm_wf seen \<Longrightarrow> self_keyed seen \<Longrightarrow>
     jm_wf (truncate_into seen depth nss) \<and> self_keyed (truncate_into seen depth nss) \<and>
     fst ` set (truncate_into seen depth nss) =
       fst ` set seen \<union> (\<lambda>ns. json_strings (take depth ns)) ` set nss"
proof (induction nss arbitrary: seen)
  case Nil
  then show ?case by simp
next
  case (Cons ns nss)
  have "jm_wf (jm_set (json_strings (take depth ns)) (take depth ns) seen)"
    "self_keyed (jm_set (json_strings (take depth ns)) (take depth ns) seen)"
    using Cons.prems by (auto intro: wf_intro self_keyed_set)
  from Cons.IH [OF this] show ?case by (auto simp: jm_simps)
qed

lemma self_keyed_values:
  assumes "self_keyed seen"
  shows "jm_keys seen = map json_strings (jm_values seen)"
  using assms by (induction seen) (auto simp: self_keyed_def)

lemma truncate_namespace_depth_distinct: "distinct (truncate_namespace_depth nss depth)"
proof -
  have *: "jm_wf (truncate_into [] depth nss)" "self_keyed (truncate_into [] depth nss)"
    using truncate_into_keeps [of "[]" depth nss] self_keyed_Nil by auto
  then have "distinct (map json_strings (jm_values (truncate_into [] depth nss)))"
    using self_keyed_values by metis
  then show ?thesis
    by (metis distinct_map truncate_namespace_depth_def)
qed

lemma set_truncate_namespace_depth:
  "set (truncate_namespace_depth nss depth) = take depth ` set nss"
proof -
  let ?m = "truncate_into [] depth nss"
  have keyed: "self_keyed ?m" and
    keys: "fst ` set ?m = (\<lambda>ns. json_strings (take depth ns)) ` set nss"
    using truncate_into_keeps [of "[]" depth nss] self_keyed_Nil by auto
  have "json_strings ` set (jm_values ?m) = json_strings ` take depth ` set nss"
    using self_keyed_values [OF keyed] keys by (metis image_image list.set_map)
  then show ?thesis
    unfolding truncate_namespace_depth_def by (rule inj_image_eq_iff [THEN iffD1, rotated]) (simp add: inj_def)
qed

section \<open>Order\<close>

text \<open>The loop over the shared positions, then the difference of the lengths.\<close>

fun compare_namespaces :: "namespace \<Rightarrow> namespace \<Rightarrow> int" where
  "compare_namespaces (left # a) (right # b) =
     (if left \<noteq> right then (if left < right then - 1 else 1) else compare_namespaces a b)"
| "compare_namespaces a b = int (length a) - int (length b)"

lemma compare_namespaces_eq: "compare_namespaces a b = 0 \<longleftrightarrow> a = b"
  by (induction a b rule: compare_namespaces.induct) auto

lemma compare_namespaces_Nil:
  "compare_namespaces [] b \<le> 0 \<and> [] \<le> b"
  "compare_namespaces a [] \<le> 0 \<longleftrightarrow> a \<le> []"
  by (cases b; simp) (cases a; simp)

lemma compare_namespaces_lex: "compare_namespaces a b \<le> 0 \<longleftrightarrow> a \<le> b"
proof (induction a arbitrary: b)
  case Nil
  show ?case by (simp add: compare_namespaces_Nil)
next
  case (Cons left a)
  then show ?case by (cases b) (auto simp: compare_namespaces_Nil)
qed

lemma compare_namespaces_swap: "compare_namespaces a b = - compare_namespaces b a"
  by (induction a b rule: compare_namespaces.induct) auto

interpretation namespaces: js_comparator compare_namespaces
proof
  fix x y z
  show "0 < compare_namespaces x y \<longleftrightarrow> compare_namespaces y x < 0"
    using compare_namespaces_swap [of x y] by linarith
  show "compare_namespaces x y \<le> 0 \<Longrightarrow> compare_namespaces y z \<le> 0 \<Longrightarrow> compare_namespaces x z \<le> 0"
    by (simp add: compare_namespaces_lex)
qed

end
