(* ===== verification/ItemFilter.thy ===== *)
theory ItemFilter
  imports JsValue
begin

text \<open>
  \<^verbatim>\<open>packages/core/src/store/item-filter.ts\<close>: the value filter of the long-term store. A filter maps
  top-level keys of an item's value to a scalar (compared with \<^verbatim>\<open>===\<close>) or to a bag of operators.
  \<open>store_item_filter_problem\<close> is the one gate both entry points run through; the lemmas show what a
  filter that passed it can and cannot express, and that the operators come in complementary pairs.
\<close>

section \<open>Operators\<close>

definition STORE_FILTER_OPERATORS :: "string list" where
  "STORE_FILTER_OPERATORS =
     [''$eq'', ''$ne'', ''$gt'', ''$gte'', ''$lt'', ''$lte'', ''$in'', ''$nin'']"

text \<open>
  \<^verbatim>\<open>Object.keys(condition).every(...)\<close>. The keys of an array are its indexes, so only the empty
  array passes for a bag.
\<close>

definition is_store_filter_operators :: "jsval \<Rightarrow> bool" where
  "is_store_filter_operators condition =
     (case condition of
        JObj bag \<Rightarrow> list_all (\<lambda>e. fst e \<in> set STORE_FILTER_OPERATORS) bag
      | JArr xs \<Rightarrow> xs = []
      | _ \<Rightarrow> False)"

fun is_store_filter_scalar :: "jsval \<Rightarrow> bool" where
  "is_store_filter_scalar JNull = True"
| "is_store_filter_scalar (JStr _) = True"
| "is_store_filter_scalar (JNum _) = True"
| "is_store_filter_scalar (JBool _) = True"
| "is_store_filter_scalar _ = False"

section \<open>Validation\<close>

datatype filter_problem =
    FilterNotAnObject
  | ConditionNotScalarOrBag string
  | UnknownOperator string string
  | OperandNotScalarArray string string
  | OperandNotScalar string string
  | OperandNotNumber string string

definition operand_problem :: "string \<Rightarrow> string \<Rightarrow> jsval \<Rightarrow> filter_problem option" where
  "operand_problem key operator operand =
     (if operator \<notin> set STORE_FILTER_OPERATORS then Some (UnknownOperator key operator)
      else if operator = ''$in'' \<or> operator = ''$nin'' then
        (case operand of
           JArr xs \<Rightarrow> if list_all is_store_filter_scalar xs then None
                     else Some (OperandNotScalarArray key operator)
         | _ \<Rightarrow> Some (OperandNotScalarArray key operator))
      else if operator = ''$eq'' \<or> operator = ''$ne'' then
        (if is_store_filter_scalar operand then None else Some (OperandNotScalar key operator))
      else
        (case operand of
           JNum n \<Rightarrow> if n = NaN then Some (OperandNotNumber key operator) else None
         | _ \<Rightarrow> Some (OperandNotNumber key operator)))"

fun first_problem :: "('a \<Rightarrow> 'b option) \<Rightarrow> 'a list \<Rightarrow> 'b option" where
  "first_problem f [] = None"
| "first_problem f (x # xs) = (case f x of Some p \<Rightarrow> Some p | None \<Rightarrow> first_problem f xs)"

definition condition_problem :: "string \<Rightarrow> jsval \<Rightarrow> filter_problem option" where
  "condition_problem key condition =
     (if is_store_filter_scalar condition then None
      else (case condition of
              JObj bag \<Rightarrow>
                if bag \<noteq> [] \<and> \<not> list_ex (\<lambda>e. take 1 (fst e) = ''$'') bag
                then Some (ConditionNotScalarOrBag key)
                else first_problem (\<lambda>e. operand_problem key (fst e) (snd e)) bag
            | _ \<Rightarrow> Some (ConditionNotScalarOrBag key)))"

definition store_item_filter_problem :: "jsval \<Rightarrow> filter_problem option" where
  "store_item_filter_problem value =
     (case value of
        JObj entries \<Rightarrow> first_problem (\<lambda>e. condition_problem (fst e) (snd e)) entries
      | _ \<Rightarrow> Some FilterNotAnObject)"

lemma first_problem_None: "first_problem f xs = None \<longleftrightarrow> (\<forall>x \<in> set xs. f x = None)"
  by (induction xs) (auto split: option.splits)

section \<open>Matching\<close>

fun jsnum_less :: "jsnum \<Rightarrow> jsnum \<Rightarrow> bool" where
  "jsnum_less NaN _ = False"
| "jsnum_less _ NaN = False"
| "jsnum_less (Fin p) (Fin q) = (p < q)"
| "jsnum_less MinusInf b = (b \<noteq> MinusInf)"
| "jsnum_less a MinusInf = False"
| "jsnum_less a PlusInf = (a \<noteq> PlusInf)"
| "jsnum_less PlusInf b = False"

definition jsnum_le :: "jsnum \<Rightarrow> jsnum \<Rightarrow> bool" where
  "jsnum_le a b = (jsnum_less a b \<or> a = b \<and> a \<noteq> NaN)"

definition compare_numbers :: "jsval \<Rightarrow> jsval \<Rightarrow> (jsnum \<Rightarrow> jsnum \<Rightarrow> bool) \<Rightarrow> bool" where
  "compare_numbers actual operand holds =
     (case actual of
        JNum a \<Rightarrow> (if a = NaN then False
                   else (case operand of JNum b \<Rightarrow> (if b = NaN then False else holds a b) | _ \<Rightarrow> False))
      | _ \<Rightarrow> False)"

definition js_includes :: "jsval list \<Rightarrow> jsval \<Rightarrow> bool" where
  "js_includes xs v = list_ex (\<lambda>x. same_value_zero x v) xs"

definition matches_operator :: "jsval \<Rightarrow> string \<Rightarrow> jsval \<Rightarrow> bool" where
  "matches_operator actual operator operand =
     (if operator = ''$eq'' then js_strict_eq actual operand
      else if operator = ''$ne'' then \<not> js_strict_eq actual operand
      else if operator = ''$gt'' then compare_numbers actual operand (\<lambda>l r. jsnum_less r l)
      else if operator = ''$gte'' then compare_numbers actual operand (\<lambda>l r. jsnum_le r l)
      else if operator = ''$lt'' then compare_numbers actual operand jsnum_less
      else if operator = ''$lte'' then compare_numbers actual operand jsnum_le
      else if operator = ''$in'' then (case operand of JArr xs \<Rightarrow> js_includes xs actual | _ \<Rightarrow> False)
      else if operator = ''$nin'' then (case operand of JArr xs \<Rightarrow> \<not> js_includes xs actual | _ \<Rightarrow> False)
      else False)"

definition matches_condition :: "jsval \<Rightarrow> jsval \<Rightarrow> bool" where
  "matches_condition actual condition =
     (if is_store_filter_operators condition then
        (case condition of
           JObj bag \<Rightarrow> list_all (\<lambda>e. matches_operator actual (fst e) (snd e)) bag
         | _ \<Rightarrow> True)
      else js_strict_eq actual condition)"

text \<open>\<^verbatim>\<open>value[key]\<close>: an absent key reads as \<^verbatim>\<open>undefined\<close>.\<close>

definition js_prop :: "jsobj \<Rightarrow> string \<Rightarrow> jsval" where
  "js_prop value key = (case jm_get value key of None \<Rightarrow> JUndef | Some v \<Rightarrow> v)"

definition matches_item_filter :: "jsobj \<Rightarrow> jsobj option \<Rightarrow> bool" where
  "matches_item_filter value flt =
     (case flt of
        None \<Rightarrow> True
      | Some entries \<Rightarrow> list_all (\<lambda>e. matches_condition (js_prop value (fst e)) (snd e)) entries)"

section \<open>What a validated filter means\<close>

lemma accepted_condition:
  assumes "condition_problem key condition = None"
  shows "is_store_filter_scalar condition \<or> is_store_filter_operators condition"
  using assms
  by (auto simp: condition_problem_def is_store_filter_operators_def operand_problem_def list_all_iff
      first_problem_None split: if_splits jsval.splits option.splits)

lemma accepted_bag:
  assumes "condition_problem key (JObj bag) = None" "e \<in> set bag"
  shows "operand_problem key (fst e) (snd e) = None"
  using assms by (auto simp: condition_problem_def first_problem_None split: if_splits)

lemma scalar_not_operators: "is_store_filter_scalar c \<Longrightarrow> \<not> is_store_filter_operators c"
  by (cases c) (auto simp: is_store_filter_operators_def)

lemma compare_numbers_JNum:
  "compare_numbers v w holds \<longleftrightarrow>
     (\<exists>a b. v = JNum a \<and> w = JNum b \<and> a \<noteq> NaN \<and> b \<noteq> NaN \<and> holds a b)"
  by (auto simp: compare_numbers_def split: jsval.splits if_splits)

lemma jsnum_le_total: "a \<noteq> NaN \<Longrightarrow> b \<noteq> NaN \<Longrightarrow> jsnum_le a b \<longleftrightarrow> \<not> jsnum_less b a"
  by (cases a; cases b) (auto simp: jsnum_le_def)

lemma jsnum_less_trans: "jsnum_less a b \<Longrightarrow> jsnum_less b c \<Longrightarrow> jsnum_less a c"
  by (cases a; cases b; cases c) auto

lemma matches_operator_simps:
  "matches_operator v ''$eq'' w = js_strict_eq v w"
  "matches_operator v ''$ne'' w = (\<not> js_strict_eq v w)"
  "matches_operator v ''$gt'' w = compare_numbers v w (\<lambda>l r. jsnum_less r l)"
  "matches_operator v ''$gte'' w = compare_numbers v w (\<lambda>l r. jsnum_le r l)"
  "matches_operator v ''$lt'' w = compare_numbers v w jsnum_less"
  "matches_operator v ''$lte'' w = compare_numbers v w jsnum_le"
  "matches_operator v ''$in'' (JArr xs) = js_includes xs v"
  "matches_operator v ''$nin'' (JArr xs) = (\<not> js_includes xs v)"
  by (simp_all add: matches_operator_def)

text \<open>
  The ordering operators only ever hold of a stored number, and on numbers \<^verbatim>\<open>$lte\<close> is the negation
  of \<^verbatim>\<open>$gt\<close> and \<^verbatim>\<open>$gte\<close> of \<^verbatim>\<open>$lt\<close>: a range filter and its complement split the numeric items.
\<close>

lemma ordering_needs_number:
  assumes "matches_operator v op w" "op \<in> {''$gt'', ''$gte'', ''$lt'', ''$lte''}"
  obtains n where "v = JNum n" "n \<noteq> NaN"
  using assms by (auto simp: matches_operator_simps compare_numbers_JNum)

lemma ordering_complement:
  assumes "a \<noteq> NaN" "b \<noteq> NaN"
  shows "matches_operator (JNum a) ''$lte'' (JNum b) \<longleftrightarrow> \<not> matches_operator (JNum a) ''$gt'' (JNum b)"
    and "matches_operator (JNum a) ''$gte'' (JNum b) \<longleftrightarrow> \<not> matches_operator (JNum a) ''$lt'' (JNum b)"
  using assms by (auto simp: matches_operator_simps compare_numbers_JNum jsnum_le_total)

lemma includes_absent: "list_all is_store_filter_scalar xs \<Longrightarrow> \<not> js_includes xs JUndef"
proof
  assume scalars: "list_all is_store_filter_scalar xs" and "js_includes xs JUndef"
  then obtain x where "x \<in> set xs" "js_strict_eq x JUndef"
    by (auto simp: js_includes_def list_ex_iff same_value_zero_def)
  moreover from this have "x = JUndef" by (blast dest: js_strict_eq_imp_eq)
  ultimately show False using scalars by (auto simp: list_all_iff)
qed

text \<open>An absent key satisfies exactly the negative operators of an accepted bag.\<close>

lemma absent_matches_operator:
  assumes "operand_problem key op operand = None"
  shows "matches_operator JUndef op operand \<longleftrightarrow> op = ''$ne'' \<or> op = ''$nin''"
proof -
  have "op \<in> set STORE_FILTER_OPERATORS"
    using assms by (simp add: operand_problem_def split: if_splits)
  then consider "op = ''$eq''" | "op = ''$ne''" | "op = ''$in''" | "op = ''$nin''"
    | "op \<in> {''$gt'', ''$gte'', ''$lt'', ''$lte''}"
    by (auto simp: STORE_FILTER_OPERATORS_def)
  then show ?thesis
  proof cases
    case 1
    with assms show ?thesis
      by (cases operand) (auto simp: operand_problem_def matches_operator_simps STORE_FILTER_OPERATORS_def)
  next
    case 2
    with assms show ?thesis
      by (cases operand) (auto simp: operand_problem_def matches_operator_simps STORE_FILTER_OPERATORS_def)
  next
    case 3
    with assms show ?thesis
      by (cases operand)
        (auto simp: operand_problem_def matches_operator_simps STORE_FILTER_OPERATORS_def
          includes_absent split: if_splits)
  next
    case 4
    with assms show ?thesis
      by (cases operand)
        (auto simp: operand_problem_def matches_operator_simps STORE_FILTER_OPERATORS_def
          includes_absent split: if_splits)
  next
    case 5
    then show ?thesis by (auto simp: matches_operator_simps compare_numbers_JNum)
  qed
qed

lemma absent_matches_condition:
  assumes "condition_problem key condition = None"
  shows "matches_condition JUndef condition \<longleftrightarrow>
           (\<exists>bag. condition = JObj bag \<and> (\<forall>e \<in> set bag. fst e = ''$ne'' \<or> fst e = ''$nin''))"
proof (cases "is_store_filter_scalar condition")
  case True
  then show ?thesis
    by (cases condition) (auto simp: matches_condition_def is_store_filter_operators_def)
next
  case False
  with assms obtain bag where bag: "condition = JObj bag"
    by (auto simp: condition_problem_def split: jsval.splits)
  have "is_store_filter_operators condition"
    using accepted_condition [OF assms] False by blast
  then have "matches_condition JUndef condition \<longleftrightarrow>
      (\<forall>e \<in> set bag. matches_operator JUndef (fst e) (snd e))"
    by (simp add: matches_condition_def bag list_all_iff)
  also have "\<dots> \<longleftrightarrow> (\<forall>e \<in> set bag. fst e = ''$ne'' \<or> fst e = ''$nin'')"
    using accepted_bag assms bag absent_matches_operator by blast
  finally show ?thesis using bag by simp
qed

end
