(* ===== verification/MemoryStore.thy ===== *)
theory MemoryStore
  imports Resources Namespaces ItemFilter
begin

text \<open>
  The state of \<^verbatim>\<open>MemorySkeinStore\<close> (\<^verbatim>\<open>packages/storage-memory/src/memory-skein-store.ts\<close>) and
  the helpers its repositories share. Each private map of the class is a field; \<open>store_inv\<close> is
  what every repository keeps of it.

  Conventions for all the \<^verbatim>\<open>Store*\<close> theories: an operation takes its arguments, the ids
  \<^verbatim>\<open>randomUUID\<close> would return, the current instant, and the store, and returns its outcome
  (\<open>Inl\<close> what it throws) and the new store. \<^verbatim>\<open>structuredClone\<close> at the boundary is the identity:
  HOL values cannot be mutated. An \<^verbatim>\<open>async\<close> method of this driver has no suspension point before
  its last write, so one operation is one indivisible step. Clock reads within one operation give
  one instant.
\<close>

record mem_store =
  ms_dispatches :: "(ident, dispatch) jsmap"
  ms_resume_reservations :: "(ident, ident) jsmap"
  ms_admitted_run_ids :: "ident list"
  ms_assistants :: "(ident, assistant) jsmap"
  ms_assistant_versions :: "(string, assistant_version) jsmap"
  ms_threads :: "(ident, thread) jsmap"
  ms_runs :: "(ident, run) jsmap"
  ms_run_results :: "(ident, run_result) jsmap"
  ms_run_kwargs :: "(ident, run_kwargs) jsmap"
  ms_crons :: "(ident, cron) jsmap"
  ms_cron_auth :: "(ident, cron_auth) jsmap"
  ms_cron_seq :: "(ident, nat) jsmap"
  ms_items :: "(string, item) jsmap"
  ms_item_indexes :: "(string, item_index) jsmap"
  ms_item_expiry :: "(string, item_expiry) jsmap"
  ms_ttl :: "store_ttl_config option"
  ms_idempotency :: "(string, idempotency_record) jsmap"
  ms_deliveries :: "(ident, delivery) jsmap"
  ms_thread_retention :: "(ident, thread_retention) jsmap"
  ms_thread_expiry :: "(ident, instant) jsmap"
  ms_thread_ttl :: "thread_ttl_config option"
  ms_max_page_size :: nat

type_synonym 'a outcome = "(thrown + 'a) \<times> mem_store"

definition new_memory_store ::
  "store_ttl_config option \<Rightarrow> thread_ttl_config option \<Rightarrow> jsnum option \<Rightarrow> mem_store option" where
  "new_memory_store ttl thread_ttl max_page_size =
     map_option
       (\<lambda>size. \<lparr>ms_dispatches = [], ms_resume_reservations = [], ms_admitted_run_ids = [],
          ms_assistants = [], ms_assistant_versions = [], ms_threads = [], ms_runs = [],
          ms_run_results = [], ms_run_kwargs = [], ms_crons = [], ms_cron_auth = [],
          ms_cron_seq = [], ms_items = [], ms_item_indexes = [], ms_item_expiry = [],
          ms_ttl = ttl, ms_idempotency = [], ms_deliveries = [], ms_thread_retention = [],
          ms_thread_expiry = [], ms_thread_ttl = thread_ttl, ms_max_page_size = size\<rparr>)
       (require_valid_max_page_size (or_default max_page_size (Fin (of_nat DEFAULT_MAX_PAGE_SIZE))))"

section \<open>Shared helpers\<close>

definition page_limit :: "mem_store \<Rightarrow> nat option \<Rightarrow> nat" where
  "page_limit s limit = min (or_default limit (ms_max_page_size s)) (ms_max_page_size s)"

text \<open>\<^verbatim>\<open>sortByCreatedAtThenId\<close>: \<open>lc\<close> is \<^verbatim>\<open>String.prototype.localeCompare\<close>.\<close>

definition sort_by_created_at_then_id ::
  "(string \<Rightarrow> string \<Rightarrow> int) \<Rightarrow> ('a \<Rightarrow> instant) \<Rightarrow> ('a \<Rightarrow> string) \<Rightarrow> 'a list \<Rightarrow> 'a list" where
  "sort_by_created_at_then_id lc created id_of rows =
     js_sort (\<lambda>a b. if created a = created b then lc (id_of a) (id_of b)
                    else compare_of (created a) (created b)) rows"

definition has_prefix :: "namespace \<Rightarrow> namespace option \<Rightarrow> bool" where
  "has_prefix ns pre =
     (case pre of
        None \<Rightarrow> True
      | Some p \<Rightarrow> if p = [] then True else matches_namespace_prefix ns p)"

definition minutes_ms :: "int \<Rightarrow> int" where
  "minutes_ms minutes = minutes * 60000"

lemma page_limit_le: "page_limit s limit \<le> ms_max_page_size s"
  by (simp add: page_limit_def)

lemma js_comparator_created:
  assumes "js_comparator lc"
  shows "js_comparator (\<lambda>a b. if created a = created b then lc (id_of a) (id_of b)
                              else compare_of (created a :: int) (created b))"
proof -
  have "(\<lambda>a b. if created a = created b then lc (id_of a) (id_of b) else compare_of (created a) (created b)) =
        then_by (\<lambda>a b. compare_of (created a) (created b)) (\<lambda>a b. lc (id_of a) (id_of b))"
    by (auto simp: then_by_def compare_of_simps fun_eq_iff)
  then show ?thesis using assms by (simp add: js_comparator_intros)
qed

section \<open>Admission bookkeeping\<close>

definition forget_admission :: "ident \<Rightarrow> mem_store \<Rightarrow> mem_store" where
  "forget_admission run_id s =
     s\<lparr>ms_admitted_run_ids := removeAll run_id (ms_admitted_run_ids s),
       ms_dispatches := jm_delete run_id (ms_dispatches s),
       ms_resume_reservations :=
         filter (\<lambda>(expected, admitted). expected \<noteq> run_id \<and> admitted \<noteq> run_id)
           (ms_resume_reservations s)\<rparr>"

section \<open>Thread retention\<close>

text \<open>
  \<^verbatim>\<open>#setThreadExpiry\<close>: an absent ttl keeps the thread's own one, or the configured default when
  it has none recorded; \<^verbatim>\<open>null\<close> pins the thread.
\<close>

definition set_thread_expiry ::
  "ident \<Rightarrow> int jsopt \<Rightarrow> ttl_strategy option \<Rightarrow> instant \<Rightarrow> mem_store \<Rightarrow> mem_store" where
  "set_thread_expiry thread_id ttl_minutes strategy now s =
     (let current = jm_get (ms_thread_retention s) thread_id;
          configured = (case ms_thread_ttl s of
                          None \<Rightarrow> Undefined
                        | Some c \<Rightarrow> (case tt_default_ttl c of None \<Rightarrow> Undefined | Some m \<Rightarrow> Value m));
          minutes = (case ttl_minutes of
                       Undefined \<Rightarrow> (case current of Some r \<Rightarrow> tr_ttl r | None \<Rightarrow> configured)
                     | _ \<Rightarrow> ttl_minutes);
          chosen = (case strategy of
                      Some st \<Rightarrow> st
                    | None \<Rightarrow> (case current of
                                 Some r \<Rightarrow> tr_strategy r
                               | None \<Rightarrow> (case ms_thread_ttl s of
                                            Some c \<Rightarrow> or_default (tt_strategy c) DeleteThread
                                          | None \<Rightarrow> DeleteThread)));
          s1 = s\<lparr>ms_thread_retention :=
                   jm_set thread_id \<lparr>tr_ttl = minutes, tr_strategy = chosen\<rparr> (ms_thread_retention s)\<rparr>
      in case minutes of
           Value m \<Rightarrow> s1\<lparr>ms_thread_expiry := jm_set thread_id (now + minutes_ms m) (ms_thread_expiry s1)\<rparr>
         | _ \<Rightarrow> s1\<lparr>ms_thread_expiry := jm_delete thread_id (ms_thread_expiry s1)\<rparr>)"

definition project_thread :: "mem_store \<Rightarrow> thread \<Rightarrow> thread_view" where
  "project_thread s t =
     (let retention = jm_get (ms_thread_retention s) (t_thread_id t) in
      thread.extend t
        \<lparr>tv_ttl = (case retention of Some r \<Rightarrow> jsopt_to_option (tr_ttl r) | None \<Rightarrow> None),
         tv_ttl_strategy =
           (case retention of
              Some r \<Rightarrow> tr_strategy r
            | None \<Rightarrow> (case ms_thread_ttl s of
                         Some c \<Rightarrow> or_default (tt_strategy c) DeleteThread
                       | None \<Rightarrow> DeleteThread)),
         tv_expires_at = jm_get (ms_thread_expiry s) (t_thread_id t)\<rparr>)"

section \<open>Item expiry\<close>

definition set_expiry :: "string \<Rightarrow> int option \<Rightarrow> instant \<Rightarrow> mem_store \<Rightarrow> mem_store" where
  "set_expiry k ttl_minutes now s =
     (case ttl_minutes of
        None \<Rightarrow> s\<lparr>ms_item_expiry := jm_delete k (ms_item_expiry s)\<rparr>
      | Some m \<Rightarrow>
          s\<lparr>ms_item_expiry :=
              jm_set k \<lparr>ie_expires_at = Some (now + minutes_ms m), ie_ttl_minutes = Some m\<rparr>
                (ms_item_expiry s)\<rparr>)"

definition is_expired :: "mem_store \<Rightarrow> instant \<Rightarrow> string \<Rightarrow> bool" where
  "is_expired s now k =
     (case jm_get (ms_item_expiry s) k of
        None \<Rightarrow> False
      | Some entry \<Rightarrow> (case ie_expires_at entry of None \<Rightarrow> False | Some due \<Rightarrow> due \<le> now))"

definition maybe_refresh :: "string \<Rightarrow> bool option \<Rightarrow> instant \<Rightarrow> mem_store \<Rightarrow> mem_store" where
  "maybe_refresh k refresh now s =
     (if \<not> or_default refresh
            (case ms_ttl s of None \<Rightarrow> False | Some c \<Rightarrow> st_refresh_on_read c \<noteq> Some False)
      then s
      else (case jm_get (ms_item_expiry s) k of
              None \<Rightarrow> s
            | Some entry \<Rightarrow>
                (case ie_ttl_minutes entry of
                   None \<Rightarrow> s
                 | Some m \<Rightarrow>
                     s\<lparr>ms_item_expiry :=
                         jm_set k (entry\<lparr>ie_expires_at := Some (now + minutes_ms m)\<rparr>)
                           (ms_item_expiry s)\<rparr>)))"

definition project_item :: "mem_store \<Rightarrow> int option \<Rightarrow> item \<Rightarrow> item_view" where
  "project_item s score i =
     (let expiry = jm_get (ms_item_expiry s) (item_key (it_namespace i) (it_key i)) in
      item.extend i
        \<lparr>iv_ttl = (case expiry of Some e \<Rightarrow> ie_ttl_minutes e | None \<Rightarrow> None),
         iv_expires_at = (case expiry of Some e \<Rightarrow> ie_expires_at e | None \<Rightarrow> None),
         iv_score = score\<rparr>)"

section \<open>The store invariant\<close>

text \<open>
  Every map has one entry per key; every row sits under its own id; what is kept beside a run
  (kwargs, result, dispatch intent, admission mark) belongs to a run that exists; a thread's
  expiry belongs to a recorded retention, which belongs to a thread; the live row of an assistant
  is one of its recorded versions; a cron has a claim token.
\<close>

definition keyed_by :: "('v \<Rightarrow> 'k) \<Rightarrow> ('k, 'v) jsmap \<Rightarrow> bool" where
  "keyed_by f m \<longleftrightarrow> jm_wf m \<and> (\<forall>e \<in> set m. fst e = f (snd e))"

definition beside :: "('k, 'v) jsmap \<Rightarrow> ('k, 'w) jsmap \<Rightarrow> bool" where
  "beside m rows \<longleftrightarrow> jm_wf m \<and> fst ` set m \<subseteq> fst ` set rows"

definition run_inv :: "mem_store \<Rightarrow> bool" where
  "run_inv s \<longleftrightarrow>
     keyed_by r_run_id (ms_runs s) \<and>
     beside (ms_run_kwargs s) (ms_runs s) \<and>
     beside (ms_run_results s) (ms_runs s) \<and>
     beside (ms_dispatches s) (ms_runs s) \<and>
     set (ms_admitted_run_ids s) \<subseteq> fst ` set (ms_runs s) \<and>
     jm_wf (ms_resume_reservations s)"

definition thread_inv :: "mem_store \<Rightarrow> bool" where
  "thread_inv s \<longleftrightarrow>
     keyed_by t_thread_id (ms_threads s) \<and>
     beside (ms_thread_retention s) (ms_threads s) \<and>
     beside (ms_thread_expiry s) (ms_thread_retention s)"

definition assistant_inv :: "mem_store \<Rightarrow> bool" where
  "assistant_inv s \<longleftrightarrow>
     keyed_by a_assistant_id (ms_assistants s) \<and>
     keyed_by (\<lambda>v. version_key (av_assistant_id v) (av_version v)) (ms_assistant_versions s) \<and>
     (\<forall>e \<in> set (ms_assistants s).
        version_key (fst e) (a_version (snd e)) \<in> fst ` set (ms_assistant_versions s))"

definition cron_inv :: "mem_store \<Rightarrow> bool" where
  "cron_inv s \<longleftrightarrow>
     keyed_by c_cron_id (ms_crons s) \<and>
     beside (ms_cron_auth s) (ms_crons s) \<and>
     jm_wf (ms_cron_seq s) \<and>
     fst ` set (ms_crons s) \<subseteq> fst ` set (ms_cron_seq s)"

definition item_inv :: "mem_store \<Rightarrow> bool" where
  "item_inv s \<longleftrightarrow>
     keyed_by (\<lambda>i. item_key (it_namespace i) (it_key i)) (ms_items s) \<and>
     beside (ms_item_expiry s) (ms_items s) \<and>
     jm_wf (ms_item_indexes s)"

definition ledger_inv :: "mem_store \<Rightarrow> bool" where
  "ledger_inv s \<longleftrightarrow>
     keyed_by (\<lambda>r. idempotency_key (ir_scope r) (ir_key r)) (ms_idempotency s) \<and>
     keyed_by dl_delivery_id (ms_deliveries s)"

definition store_inv :: "mem_store \<Rightarrow> bool" where
  "store_inv s \<longleftrightarrow>
     run_inv s \<and> thread_inv s \<and> assistant_inv s \<and> cron_inv s \<and> item_inv s \<and> ledger_inv s \<and>
     0 < ms_max_page_size s"

lemmas inv_defs = run_inv_def thread_inv_def assistant_inv_def cron_inv_def item_inv_def ledger_inv_def

subsection \<open>How map updates keep it\<close>

lemma in_jm_set: "e \<in> set (jm_set k v m) \<Longrightarrow> e = (k, v) \<or> e \<in> set m"
  by (induction m) (auto split: if_splits)

lemma in_jm_delete: "e \<in> set (jm_delete k m) \<longleftrightarrow> e \<in> set m \<and> fst e \<noteq> k"
  by (cases e) (auto simp: AList.delete_eq)

lemma keyed_by_set [wf_intro]: "keyed_by f m \<Longrightarrow> f v = k \<Longrightarrow> keyed_by f (jm_set k v m)"
  unfolding keyed_by_def by (auto intro: jm_wf_set dest!: in_jm_set)

lemma keyed_by_delete [wf_intro]: "keyed_by f m \<Longrightarrow> keyed_by f (jm_delete k m)"
  unfolding keyed_by_def by (auto intro: jm_wf_delete simp: in_jm_delete)

lemma keyed_by_filter [wf_intro]: "keyed_by f m \<Longrightarrow> keyed_by f (filter P m)"
  unfolding keyed_by_def by (auto intro: jm_wf_filter)

lemma keyed_by_Nil [wf_intro]: "keyed_by f []"
  by (simp add: keyed_by_def)

lemma keyed_by_wf: "keyed_by f m \<Longrightarrow> jm_wf m"
  by (simp add: keyed_by_def)

lemma keyed_by_get: "keyed_by f m \<Longrightarrow> map_of m k = Some v \<Longrightarrow> f v = k"
  unfolding keyed_by_def by (force dest: map_of_SomeD)

lemma keyed_values_distinct:
  assumes "keyed_by f m"
  shows "distinct (map f (jm_values m))"
proof -
  have "map f (map snd m) = map fst m"
    using assms by (auto simp: keyed_by_def)
  then show ?thesis using assms by (simp only: keyed_by_def)
qed

lemma keyed_value_get:
  assumes "keyed_by f m" "v \<in> set (jm_values m)"
  shows "map_of m (f v) = Some v"
  using assms by (force simp: keyed_by_def)

lemma beside_set [wf_intro]: "beside m rows \<Longrightarrow> k \<in> fst ` set rows \<Longrightarrow> beside (jm_set k v m) rows"
  unfolding beside_def by (auto intro: jm_wf_set simp: jm_keys_set)

lemma beside_set_both [wf_intro]: "beside m rows \<Longrightarrow> beside (jm_set k v m) (jm_set k w rows)"
  unfolding beside_def by (auto intro: jm_wf_set simp: jm_keys_set)

lemma beside_rows_set [wf_intro]: "beside m rows \<Longrightarrow> beside m (jm_set k w rows)"
  unfolding beside_def by (auto simp: jm_keys_set)

lemma beside_delete [wf_intro]: "beside m rows \<Longrightarrow> beside (jm_delete k m) rows"
  unfolding beside_def by (auto intro: jm_wf_delete simp: jm_keys_delete)

lemma beside_delete_both [wf_intro]: "beside m rows \<Longrightarrow> beside (jm_delete k m) (jm_delete k rows)"
  unfolding beside_def by (auto intro: jm_wf_delete simp: jm_keys_delete)

lemma beside_Nil [wf_intro]: "beside [] rows"
  by (simp add: beside_def)

lemma beside_wf: "beside m rows \<Longrightarrow> jm_wf m"
  by (simp add: beside_def)

lemma new_memory_store_inv:
  assumes "new_memory_store ttl thread_ttl max_size = Some s"
  shows "store_inv s"
  using assms require_valid_max_page_size_bounds
  by (auto simp: new_memory_store_def store_inv_def inv_defs intro: wf_intro)

text \<open>The store a server starts with when nothing is configured.\<close>

definition empty_store :: mem_store where
  "empty_store = \<lparr>ms_dispatches = [], ms_resume_reservations = [], ms_admitted_run_ids = [],
     ms_assistants = [], ms_assistant_versions = [], ms_threads = [], ms_runs = [],
     ms_run_results = [], ms_run_kwargs = [], ms_crons = [], ms_cron_auth = [],
     ms_cron_seq = [], ms_items = [], ms_item_indexes = [], ms_item_expiry = [],
     ms_ttl = None, ms_idempotency = [], ms_deliveries = [], ms_thread_retention = [],
     ms_thread_expiry = [], ms_thread_ttl = None, ms_max_page_size = 1000\<rparr>"

lemma empty_store_new: "new_memory_store None None None = Some empty_store"
  by (simp add: new_memory_store_def empty_store_def require_valid_max_page_size_def
      js_safe_integer_def jsnum_at_most_def DEFAULT_MAX_PAGE_SIZE_def)

lemma empty_store_inv: "store_inv empty_store"
  by (rule new_memory_store_inv [OF empty_store_new])

section \<open>Frames of the helpers\<close>

text \<open>The parts of the store, as one projection each helper leaves alone or not.\<close>

lemma forget_admission_frame [frame_simps]:
  "ms_assistants (forget_admission r s) = ms_assistants s"
  "ms_assistant_versions (forget_admission r s) = ms_assistant_versions s"
  "ms_threads (forget_admission r s) = ms_threads s"
  "ms_runs (forget_admission r s) = ms_runs s"
  "ms_run_results (forget_admission r s) = ms_run_results s"
  "ms_run_kwargs (forget_admission r s) = ms_run_kwargs s"
  "ms_crons (forget_admission r s) = ms_crons s"
  "ms_cron_auth (forget_admission r s) = ms_cron_auth s"
  "ms_cron_seq (forget_admission r s) = ms_cron_seq s"
  "ms_items (forget_admission r s) = ms_items s"
  "ms_item_indexes (forget_admission r s) = ms_item_indexes s"
  "ms_item_expiry (forget_admission r s) = ms_item_expiry s"
  "ms_ttl (forget_admission r s) = ms_ttl s"
  "ms_idempotency (forget_admission r s) = ms_idempotency s"
  "ms_deliveries (forget_admission r s) = ms_deliveries s"
  "ms_thread_retention (forget_admission r s) = ms_thread_retention s"
  "ms_thread_expiry (forget_admission r s) = ms_thread_expiry s"
  "ms_thread_ttl (forget_admission r s) = ms_thread_ttl s"
  "ms_max_page_size (forget_admission r s) = ms_max_page_size s"
  "ms_admitted_run_ids (forget_admission r s) = removeAll r (ms_admitted_run_ids s)"
  "ms_dispatches (forget_admission r s) = jm_delete r (ms_dispatches s)"
  by (simp_all add: forget_admission_def)

lemma set_thread_expiry_frame [frame_simps]:
  "ms_assistants (set_thread_expiry t ttl st now s) = ms_assistants s"
  "ms_assistant_versions (set_thread_expiry t ttl st now s) = ms_assistant_versions s"
  "ms_threads (set_thread_expiry t ttl st now s) = ms_threads s"
  "ms_runs (set_thread_expiry t ttl st now s) = ms_runs s"
  "ms_run_results (set_thread_expiry t ttl st now s) = ms_run_results s"
  "ms_run_kwargs (set_thread_expiry t ttl st now s) = ms_run_kwargs s"
  "ms_crons (set_thread_expiry t ttl st now s) = ms_crons s"
  "ms_cron_auth (set_thread_expiry t ttl st now s) = ms_cron_auth s"
  "ms_cron_seq (set_thread_expiry t ttl st now s) = ms_cron_seq s"
  "ms_items (set_thread_expiry t ttl st now s) = ms_items s"
  "ms_item_indexes (set_thread_expiry t ttl st now s) = ms_item_indexes s"
  "ms_item_expiry (set_thread_expiry t ttl st now s) = ms_item_expiry s"
  "ms_ttl (set_thread_expiry t ttl st now s) = ms_ttl s"
  "ms_idempotency (set_thread_expiry t ttl st now s) = ms_idempotency s"
  "ms_deliveries (set_thread_expiry t ttl st now s) = ms_deliveries s"
  "ms_thread_ttl (set_thread_expiry t ttl st now s) = ms_thread_ttl s"
  "ms_max_page_size (set_thread_expiry t ttl st now s) = ms_max_page_size s"
  "ms_dispatches (set_thread_expiry t ttl st now s) = ms_dispatches s"
  "ms_resume_reservations (set_thread_expiry t ttl st now s) = ms_resume_reservations s"
  "ms_admitted_run_ids (set_thread_expiry t ttl st now s) = ms_admitted_run_ids s"
  by (auto simp: set_thread_expiry_def Let_def split: jsopt.split)

lemma set_thread_expiry_retention [frame_simps]:
  "fst ` set (ms_thread_retention (set_thread_expiry t ttl st now s)) = insert t (fst ` set (ms_thread_retention s))"
  by (auto simp: set_thread_expiry_def Let_def jm_simps split: jsopt.split)

text \<open>The helper keeps the retention maps consistent for a thread about to be, or already, in the table.\<close>

lemma set_thread_expiry_beside:
  assumes "jm_wf (ms_thread_retention s)" "beside (ms_thread_expiry s) (ms_thread_retention s)"
  shows "jm_wf (ms_thread_retention (set_thread_expiry t ttl st now s))"
    and "beside (ms_thread_expiry (set_thread_expiry t ttl st now s))
           (ms_thread_retention (set_thread_expiry t ttl st now s))"
  using assms
  by (auto simp: set_thread_expiry_def Let_def split: jsopt.split
      intro: wf_intro beside_set_both beside_rows_set beside_delete)

end
