(* ===== verification/Contracts.thy ===== *)
theory Contracts
  imports Prelude
begin

text \<open>
  The two contracts concurrent clients of the store rely on: a compare-and-swap token, and a lease.
  Both are stated for any system whose operations are one indivisible step each, so they speak of
  every interleaving of the clients' operations.
\<close>

section \<open>Runs of operations\<close>

fun run_steps :: "('op \<Rightarrow> 's \<Rightarrow> 's) \<Rightarrow> 'op list \<Rightarrow> 's \<Rightarrow> 's" where
  "run_steps step [] s = s"
| "run_steps step (oper # ops) s = run_steps step ops (step oper s)"

lemma run_steps_append: "run_steps step (xs @ ys) s = run_steps step ys (run_steps step xs s)"
  by (induction xs arbitrary: s) simp_all

text \<open>An invariant of the steps that respect a side condition is one of their runs.\<close>

lemma run_steps_invariant:
  assumes "\<And>oper s. I s \<Longrightarrow> ok oper \<Longrightarrow> I (step oper s)" "I s" "list_all ok ops"
  shows "I (run_steps step ops s)"
  using assms(2,3) by (induction ops arbitrary: s) (auto intro: assms(1))

section \<open>Compare-and-swap\<close>

text \<open>An occurrence, that is one value of the token, is won at most once.\<close>

locale cas_token =
  fixes step :: "'op \<Rightarrow> 's \<Rightarrow> 's"
    and token :: "'s \<Rightarrow> nat"
    and allowed :: "'op \<Rightarrow> bool"
    and wins :: "'op \<Rightarrow> nat \<Rightarrow> 's \<Rightarrow> bool"
  assumes win_needs_token: "wins oper n s \<Longrightarrow> token s = n"
    and win_advances: "wins oper n s \<Longrightarrow> n < token (step oper s)"
    and token_monotone: "allowed oper \<Longrightarrow> token s \<le> token (step oper s)"
begin

lemma run_monotone: "list_all allowed ops \<Longrightarrow> token s \<le> token (run_steps step ops s)"
proof (induction ops arbitrary: s)
  case (Cons oper ops)
  then have "token s \<le> token (step oper s)" using token_monotone by simp
  also have "\<dots> \<le> token (run_steps step ops (step oper s))" using Cons by simp
  finally show ?case by simp
qed simp

lemma lost_behind:
  assumes "n < token s" "list_all allowed ops"
  shows "\<not> wins oper n (run_steps step ops s)"
  using win_needs_token run_monotone [OF assms(2), of s] assms(1) by fastforce

lemma won_once:
  assumes "wins oper n s" "list_all allowed ops"
  shows "\<not> wins again n (run_steps step ops (step oper s))"
  by (rule lost_behind [OF win_advances [OF assms(1)] assms(2)])

end

section \<open>Leases\<close>

text \<open>
  \<open>held\<close> says that the resource is leased; \<open>allowed\<close> are the operations that may happen while the
  lease runs (those of other clients before it ends); \<open>acquires\<close> that the operation hands the
  resource out. A lease that every allowed operation keeps is exclusive for as long as it runs.
\<close>

locale lease_contract =
  fixes step :: "'op \<Rightarrow> 's \<Rightarrow> 's"
    and held :: "'s \<Rightarrow> bool"
    and allowed :: "'op \<Rightarrow> bool"
    and acquires :: "'op \<Rightarrow> 's \<Rightarrow> bool"
  assumes held_kept: "held s \<Longrightarrow> allowed oper \<Longrightarrow> held (step oper s)"
    and held_excludes: "held s \<Longrightarrow> allowed oper \<Longrightarrow> \<not> acquires oper s"
begin

lemma held_throughout: "held s \<Longrightarrow> list_all allowed ops \<Longrightarrow> held (run_steps step ops s)"
  by (rule run_steps_invariant [where ok = allowed]) (auto intro: held_kept)

lemma exclusive:
  assumes "held s" "list_all allowed before" "allowed oper"
  shows "\<not> acquires oper (run_steps step before s)"
  by (rule held_excludes [OF held_throughout [OF assms(1,2)] assms(3)])

end

end
