(* ===== verification/StoreDeliveries.thy ===== *)
theory StoreDeliveries
  imports MemoryStore Contracts
begin

text \<open>
  The outbox of run-completion callbacks: \<^verbatim>\<open>#insertDelivery\<close>, \<^verbatim>\<open>#dueDeliveries\<close> and the
  \<^verbatim>\<open>deliveries\<close> repository of \<^verbatim>\<open>memory-skein-store.ts\<close>. A worker leases due rows with
  \<open>claim_due\<close>, posts them, and reports with \<open>record_attempt\<close>.
\<close>

section \<open>Operations\<close>

text \<open>\<open>js_nullish v\<close>: what \<^verbatim>\<open>v ?? null\<close> turns into \<^verbatim>\<open>null\<close>.\<close>

fun null_if_nullish :: "jsval \<Rightarrow> jsval" where
  "null_if_nullish JUndef = JNull"
| "null_if_nullish v = v"

definition insert_delivery ::
  "ident \<Rightarrow> run_status \<Rightarrow> delivery_create \<Rightarrow> bool \<Rightarrow> ident \<Rightarrow> instant \<Rightarrow> mem_store \<Rightarrow> delivery \<times> mem_store" where
  "insert_delivery run_id status input claimed uuid now s =
     (let d = \<lparr>dl_delivery_id = or_default (dc_delivery_id input) uuid,
               dl_run_id = run_id,
               dl_thread_id = dc_thread_id input,
               dl_url = dc_url input,
               dl_payload = null_if_nullish (dc_payload input),
               dl_payload_truncated = or_default (dc_payload_truncated input) False,
               dl_run_status = status,
               dl_status = (if claimed then Delivering else DPending),
               dl_attempt = (if claimed then 1 else 0),
               dl_next_attempt_at = dc_next_attempt_at input,
               dl_last_error = None,
               dl_created_at = now,
               dl_updated_at = now,
               dl_expires_at = dc_expires_at input\<rparr>
      in (d, s\<lparr>ms_deliveries := jm_set (dl_delivery_id d) d (ms_deliveries s)\<rparr>))"

definition is_due :: "instant \<Rightarrow> delivery \<Rightarrow> bool" where
  "is_due now d \<longleftrightarrow> (dl_status d = DPending \<or> dl_status d = Delivering) \<and> dl_next_attempt_at d \<le> now"

definition due_deliveries :: "(string \<Rightarrow> string \<Rightarrow> int) \<Rightarrow> instant \<Rightarrow> mem_store \<Rightarrow> delivery list" where
  "due_deliveries lc now s =
     js_sort (\<lambda>a b. if dl_next_attempt_at a = dl_next_attempt_at b
                    then lc (dl_delivery_id a) (dl_delivery_id b)
                    else compare_of (dl_next_attempt_at a) (dl_next_attempt_at b))
       (filter (is_due now) (jm_values (ms_deliveries s)))"

definition delivery_get :: "ident \<Rightarrow> mem_store \<Rightarrow> delivery option" where
  "delivery_get delivery_id s = jm_get (ms_deliveries s) delivery_id"

definition list_by_run ::
  "(string \<Rightarrow> string \<Rightarrow> int) \<Rightarrow> ident \<Rightarrow> delivery_status option \<Rightarrow> nat option \<Rightarrow> nat option \<Rightarrow>
     mem_store \<Rightarrow> delivery list" where
  "list_by_run lc run_id status offset limit s =
     page
       (js_sort (\<lambda>a b. if dl_created_at a = dl_created_at b
                       then lc (dl_delivery_id b) (dl_delivery_id a)
                       else compare_of (dl_created_at b) (dl_created_at a))
          (filter (\<lambda>d. dl_run_id d = run_id \<and> (case status of None \<Rightarrow> True | Some st \<Rightarrow> dl_status d = st))
             (jm_values (ms_deliveries s))))
       (or_default offset 0) (page_limit s limit)"

definition list_due ::
  "(string \<Rightarrow> string \<Rightarrow> int) \<Rightarrow> instant \<Rightarrow> nat option \<Rightarrow> mem_store \<Rightarrow> delivery list" where
  "list_due lc now limit s = page (due_deliveries lc now s) 0 (page_limit s limit)"

definition leased :: "instant \<Rightarrow> instant \<Rightarrow> delivery \<Rightarrow> delivery" where
  "leased lease_until at_time d =
     d\<lparr>dl_status := Delivering, dl_attempt := dl_attempt d + 1,
       dl_next_attempt_at := lease_until, dl_updated_at := at_time\<rparr>"

fun claim_each :: "instant \<Rightarrow> instant \<Rightarrow> delivery list \<Rightarrow> mem_store \<Rightarrow> delivery list \<times> mem_store" where
  "claim_each lease_until at_time [] s = ([], s)"
| "claim_each lease_until at_time (d # ds) s =
     (let row = leased lease_until at_time d;
          (rows, s') = claim_each lease_until at_time ds
                         (s\<lparr>ms_deliveries := jm_set (dl_delivery_id d) row (ms_deliveries s)\<rparr>)
      in (row # rows, s'))"

definition claim_due ::
  "(string \<Rightarrow> string \<Rightarrow> int) \<Rightarrow> instant \<Rightarrow> instant \<Rightarrow> nat option \<Rightarrow> instant \<Rightarrow> mem_store \<Rightarrow>
     delivery list \<times> mem_store" where
  "claim_due lc now lease_until limit at_time s =
     claim_each lease_until at_time (page (due_deliveries lc now s) 0 (page_limit s limit)) s"

fun attempt_of :: "delivery_attempt_result \<Rightarrow> nat option" where
  "attempt_of (AttemptDelivered a) = a"
| "attempt_of (AttemptRetrying _ _ a) = a"
| "attempt_of (AttemptDead _ a) = a"

fun settled_delivery :: "delivery_attempt_result \<Rightarrow> delivery \<Rightarrow> delivery" where
  "settled_delivery (AttemptDelivered a) d =
     d\<lparr>dl_status := Delivered, dl_payload := JNull, dl_last_error := None,
       dl_attempt := or_default a (dl_attempt d)\<rparr>"
| "settled_delivery (AttemptDead err a) d =
     d\<lparr>dl_status := Dead, dl_last_error := Some err, dl_attempt := or_default a (dl_attempt d)\<rparr>"
| "settled_delivery (AttemptRetrying next_at err a) d =
     d\<lparr>dl_status := DPending, dl_last_error := Some err, dl_next_attempt_at := next_at,
       dl_attempt := or_default a (dl_attempt d)\<rparr>"

definition record_attempt ::
  "ident \<Rightarrow> delivery_attempt_result \<Rightarrow> instant \<Rightarrow> mem_store \<Rightarrow> delivery option \<times> mem_store" where
  "record_attempt delivery_id result now s =
     (case jm_get (ms_deliveries s) delivery_id of
        None \<Rightarrow> (None, s)
      | Some existing \<Rightarrow>
          let row = settled_delivery result existing\<lparr>dl_updated_at := now\<rparr>
          in (Some row, s\<lparr>ms_deliveries := jm_set delivery_id row (ms_deliveries s)\<rparr>))"

definition retry_now ::
  "ident \<Rightarrow> instant \<Rightarrow> instant \<Rightarrow> mem_store \<Rightarrow> delivery option \<times> mem_store" where
  "retry_now delivery_id next_attempt_at now s =
     (case jm_get (ms_deliveries s) delivery_id of
        None \<Rightarrow> (None, s)
      | Some existing \<Rightarrow>
          if dl_payload existing = JNull then (None, s)
          else let row = existing\<lparr>dl_status := DPending, dl_next_attempt_at := next_attempt_at,
                                  dl_updated_at := now\<rparr>
               in (Some row, s\<lparr>ms_deliveries := jm_set delivery_id row (ms_deliveries s)\<rparr>))"

definition sweepable :: "instant \<Rightarrow> delivery \<Rightarrow> bool" where
  "sweepable now d \<longleftrightarrow> (dl_status d = Delivered \<or> dl_status d = Dead) \<and> dl_expires_at d \<le> now"

definition deliveries_sweep_expired :: "instant \<Rightarrow> mem_store \<Rightarrow> nat \<times> mem_store" where
  "deliveries_sweep_expired now s =
     (length (filter (\<lambda>e. sweepable now (snd e)) (ms_deliveries s)),
      s\<lparr>ms_deliveries := filter (\<lambda>e. \<not> sweepable now (snd e)) (ms_deliveries s)\<rparr>)"

section \<open>Only the outbox changes\<close>

lemma claim_each_only_deliveries:
  "\<exists>m. snd (claim_each lease at_time ds s) = s\<lparr>ms_deliveries := m\<rparr>"
proof (induction ds arbitrary: s)
  case Nil
  have "s = s\<lparr>ms_deliveries := ms_deliveries s\<rparr>" by simp
  then show ?case by (metis claim_each.simps(1) snd_conv)
next
  case (Cons d ds)
  obtain m where "snd (claim_each lease at_time ds
      (s\<lparr>ms_deliveries := jm_set (dl_delivery_id d) (leased lease at_time d) (ms_deliveries s)\<rparr>)) =
      s\<lparr>ms_deliveries := jm_set (dl_delivery_id d) (leased lease at_time d) (ms_deliveries s)\<rparr>\<lparr>ms_deliveries := m\<rparr>"
    using Cons.IH by blast
  then show ?case by (auto simp: Let_def split: prod.splits)
qed

lemma deliveries_only:
  "\<exists>m. snd (insert_delivery r st input claimed uuid now s) = s\<lparr>ms_deliveries := m\<rparr>"
  "\<exists>m. snd (claim_due lc now lease limit at_time s) = s\<lparr>ms_deliveries := m\<rparr>"
  "\<exists>m. snd (record_attempt i res now s) = s\<lparr>ms_deliveries := m\<rparr>"
  "\<exists>m. snd (retry_now i next_at now s) = s\<lparr>ms_deliveries := m\<rparr>"
  "\<exists>m. snd (deliveries_sweep_expired now s) = s\<lparr>ms_deliveries := m\<rparr>"
proof -
  have self: "\<exists>m. s = s\<lparr>ms_deliveries := m\<rparr>" by (rule exI [of _ "ms_deliveries s"]) simp
  show "\<exists>m. snd (insert_delivery r st input claimed uuid now s) = s\<lparr>ms_deliveries := m\<rparr>"
    by (auto simp: insert_delivery_def Let_def)
  show "\<exists>m. snd (claim_due lc now lease limit at_time s) = s\<lparr>ms_deliveries := m\<rparr>"
    by (simp add: claim_due_def claim_each_only_deliveries)
  show "\<exists>m. snd (record_attempt i res now s) = s\<lparr>ms_deliveries := m\<rparr>"
    using self by (auto simp: record_attempt_def Let_def split: option.split)
  show "\<exists>m. snd (retry_now i next_at now s) = s\<lparr>ms_deliveries := m\<rparr>"
    using self by (auto simp: retry_now_def Let_def split: option.split)
  show "\<exists>m. snd (deliveries_sweep_expired now s) = s\<lparr>ms_deliveries := m\<rparr>"
    by (auto simp: deliveries_sweep_expired_def)
qed

section \<open>The claim\<close>

lemma leased_simps [simp]:
  "dl_delivery_id (leased lease at_time d) = dl_delivery_id d"
  "dl_status (leased lease at_time d) = Delivering"
  "dl_attempt (leased lease at_time d) = dl_attempt d + 1"
  "dl_next_attempt_at (leased lease at_time d) = lease"
  "dl_payload (leased lease at_time d) = dl_payload d"
  by (simp_all add: leased_def)

lemma claim_each_rows: "fst (claim_each lease at_time ds s) = map (leased lease at_time) ds"
  by (induction ds arbitrary: s) (auto simp: Let_def split: prod.splits dest: arg_cong [of _ _ fst])

lemma claim_each_snd:
  "snd (claim_each lease at_time (d # ds) s) =
     snd (claim_each lease at_time ds
       (s\<lparr>ms_deliveries := jm_set (dl_delivery_id d) (leased lease at_time d) (ms_deliveries s)\<rparr>))"
  by (simp add: Let_def split: prod.split)

lemma claim_each_get:
  assumes "distinct (map dl_delivery_id ds)"
  shows "map_of (ms_deliveries (snd (claim_each lease at_time ds s))) i =
           (case find (\<lambda>d. dl_delivery_id d = i) ds of
              Some d \<Rightarrow> Some (leased lease at_time d)
            | None \<Rightarrow> map_of (ms_deliveries s) i)"
  using assms
proof (induction ds arbitrary: s)
  case Nil
  then show ?case by simp
next
  case (Cons d ds)
  have none: "find (\<lambda>e. dl_delivery_id e = dl_delivery_id d) ds = None"
    using Cons.prems by (auto simp: find_None_iff image_iff)
  have IH: "map_of (ms_deliveries (snd (claim_each lease at_time ds s'))) i =
      (case find (\<lambda>d. dl_delivery_id d = i) ds of
         Some d \<Rightarrow> Some (leased lease at_time d) | None \<Rightarrow> map_of (ms_deliveries s') i)" for s'
    using Cons by simp
  show ?case
    unfolding claim_each_snd IH
    by (cases "dl_delivery_id d = i") (auto simp: none jm_simps split: option.split)
qed

lemma claim_each_inv:
  "keyed_by dl_delivery_id (ms_deliveries s) \<Longrightarrow>
     keyed_by dl_delivery_id (ms_deliveries (snd (claim_each lease at_time ds s)))"
proof (induction ds arbitrary: s)
  case (Cons d ds)
  show ?case unfolding claim_each_snd
    by (rule Cons.IH) (use Cons.prems in \<open>auto intro: wf_intro\<close>)
qed simp

lemma set_due_deliveries: "d \<in> set (due_deliveries lc now s) \<longleftrightarrow> is_due now d \<and> d \<in> set (jm_values (ms_deliveries s))"
  by (auto simp: due_deliveries_def)

lemma distinct_due_deliveries:
  assumes "keyed_by dl_delivery_id (ms_deliveries s)"
  shows "distinct (map dl_delivery_id (due_deliveries lc now s))"
proof -
  have "distinct (map dl_delivery_id (filter (is_due now) (jm_values (ms_deliveries s))))"
    by (rule distinct_map_filter [OF keyed_values_distinct [OF assms]])
  then show ?thesis
    unfolding due_deliveries_def
    by (metis (no_types, lifting) mset_js_sort mset_eq_imp_distinct_iff mset_map)
qed

lemma claim_due_rows:
  "fst (claim_due lc now lease limit at_time s) =
     map (leased lease at_time) (page (due_deliveries lc now s) 0 (page_limit s limit))"
  by (simp add: claim_due_def claim_each_rows)

lemma claim_due_get:
  assumes keyed: "keyed_by dl_delivery_id (ms_deliveries s)"
  shows "map_of (ms_deliveries (snd (claim_due lc now lease limit at_time s))) i =
           (case map_of (ms_deliveries s) i of
              None \<Rightarrow> None
            | Some d \<Rightarrow> Some (if d \<in> set (page (due_deliveries lc now s) 0 (page_limit s limit))
                               then leased lease at_time d else d))"
proof -
  let ?picked = "page (due_deliveries lc now s) 0 (page_limit s limit)"
  have dist: "distinct (map dl_delivery_id ?picked)"
    using distinct_due_deliveries [OF keyed] by (simp add: page_def take_map [symmetric])
  have stored: "map_of (ms_deliveries s) (dl_delivery_id d) = Some d" if "d \<in> set ?picked" for d
    using that set_page_subset keyed_value_get [OF keyed] by (fastforce simp: set_due_deliveries)
  show ?thesis
  proof (cases "find (\<lambda>d. dl_delivery_id d = i) ?picked")
    case None
    then have "d \<notin> set ?picked" if "map_of (ms_deliveries s) i = Some d" for d
      using that keyed_by_get [OF keyed] by (auto simp: find_None_iff)
    with None show ?thesis
      by (auto simp: claim_due_def claim_each_get [OF dist] split: option.split)
  next
    case (Some d)
    then have "d \<in> set ?picked" "dl_delivery_id d = i"
      by (auto simp: find_Some_iff)
    with stored have "map_of (ms_deliveries s) i = Some d" by blast
    with Some \<open>d \<in> set ?picked\<close> show ?thesis
      by (simp add: claim_due_def claim_each_get [OF dist])
  qed
qed

lemma claim_due_inv:
  "keyed_by dl_delivery_id (ms_deliveries s) \<Longrightarrow>
     keyed_by dl_delivery_id (ms_deliveries (snd (claim_due lc now lease limit at_time s)))"
  by (simp add: claim_due_def claim_each_inv)

lemma settled_delivery_id [simp]: "dl_delivery_id (settled_delivery res d) = dl_delivery_id d"
  by (cases res) simp_all

lemma deliveries_inv:
  assumes "keyed_by dl_delivery_id (ms_deliveries s)"
  shows "keyed_by dl_delivery_id (ms_deliveries (snd (insert_delivery r st input claimed uuid now s)))"
    and "keyed_by dl_delivery_id (ms_deliveries (snd (record_attempt i res now s)))"
    and "keyed_by dl_delivery_id (ms_deliveries (snd (retry_now i next_at now s)))"
    and "keyed_by dl_delivery_id (ms_deliveries (snd (deliveries_sweep_expired now s)))"
  using assms keyed_by_get [OF assms]
  by (auto simp: insert_delivery_def record_attempt_def retry_now_def deliveries_sweep_expired_def Let_def
      intro!: wf_intro split: option.split)

section \<open>Leases over a history\<close>

datatype delivery_op =
    OpClaimDue instant instant "nat option" instant
  | OpRecordAttempt ident delivery_attempt_result instant
  | OpRetryNow ident instant instant
  | OpSweepDeliveries instant
  | OpInsertDelivery ident run_status delivery_create bool ident instant

text \<open>One operation of any client of the outbox, and the rows a claim hands out.\<close>

fun delivery_step ::
  "(string \<Rightarrow> string \<Rightarrow> int) \<Rightarrow> delivery_op \<Rightarrow> mem_store \<Rightarrow> delivery list \<times> mem_store" where
  "delivery_step lc (OpClaimDue now lease limit at_time) s = claim_due lc now lease limit at_time s"
| "delivery_step lc (OpRecordAttempt i res now) s = ([], snd (record_attempt i res now s))"
| "delivery_step lc (OpRetryNow i next_at now) s = ([], snd (retry_now i next_at now s))"
| "delivery_step lc (OpSweepDeliveries now) s = ([], snd (deliveries_sweep_expired now s))"
| "delivery_step lc (OpInsertDelivery r st input claimed uuid now) s =
     ([], snd (insert_delivery r st input claimed uuid now s))"

text \<open>
  What may happen while a delivery is leased: claims by any worker whose clock is before the
  lease's end, and anything on other rows; but no report, replay or re-insert of this one.
\<close>

fun under_lease :: "instant \<Rightarrow> ident \<Rightarrow> delivery_op \<Rightarrow> bool" where
  "under_lease lease i (OpClaimDue now _ _ _) \<longleftrightarrow> now < lease"
| "under_lease lease i (OpRecordAttempt j _ _) \<longleftrightarrow> j \<noteq> i"
| "under_lease lease i (OpRetryNow j _ _) \<longleftrightarrow> j \<noteq> i"
| "under_lease lease i (OpSweepDeliveries _) \<longleftrightarrow> True"
| "under_lease lease i (OpInsertDelivery _ _ input _ uuid _) \<longleftrightarrow> or_default (dc_delivery_id input) uuid \<noteq> i"

lemma delivery_step_inv:
  "keyed_by dl_delivery_id (ms_deliveries s) \<Longrightarrow>
     keyed_by dl_delivery_id (ms_deliveries (snd (delivery_step lc oper s)))"
  by (cases oper) (simp_all add: claim_due_inv deliveries_inv)

lemma leased_step:
  assumes keyed: "keyed_by dl_delivery_id (ms_deliveries s)"
    and row: "map_of (ms_deliveries s) i = Some d"
    and held: "dl_status d = Delivering" "dl_next_attempt_at d = lease"
    and step: "under_lease lease i oper"
  shows "i \<notin> dl_delivery_id ` set (fst (delivery_step lc oper s)) \<and>
         map_of (ms_deliveries (snd (delivery_step lc oper s))) i = Some d"
proof (cases oper)
  case (OpClaimDue now lease' limit at_time)
  have not_due: "d \<notin> set (due_deliveries lc now s)"
    using OpClaimDue step held by (simp add: set_due_deliveries is_due_def)
  have "dl_delivery_id e \<noteq> i" if "e \<in> set (due_deliveries lc now s)" for e
    using that not_due row keyed_value_get [OF keyed] by (force simp: set_due_deliveries)
  moreover have "d \<notin> set (page (due_deliveries lc now s) 0 n)" for n
    using not_due set_page_subset [of "due_deliveries lc now s" 0 n] by blast
  ultimately show ?thesis
    using OpClaimDue row set_page_subset
    by (fastforce simp: claim_due_rows claim_due_get [OF keyed])
next
  case (OpSweepDeliveries now)
  then show ?thesis
    using row held keyed_by_wf [OF keyed]
    by (simp add: deliveries_sweep_expired_def jm_get_filter sweepable_def)
qed (use row step in \<open>auto simp: record_attempt_def retry_now_def insert_delivery_def Let_def jm_simps
      split: option.split\<close>)

text \<open>The outbox with one row leased.\<close>

definition lease_held :: "delivery \<Rightarrow> instant \<Rightarrow> mem_store \<Rightarrow> bool" where
  "lease_held d lease s \<longleftrightarrow>
     keyed_by dl_delivery_id (ms_deliveries s) \<and>
     map_of (ms_deliveries s) (dl_delivery_id d) = Some d \<and>
     dl_status d = Delivering \<and> dl_next_attempt_at d = lease"

definition hands_out :: "(string \<Rightarrow> string \<Rightarrow> int) \<Rightarrow> ident \<Rightarrow> delivery_op \<Rightarrow> mem_store \<Rightarrow> bool" where
  "hands_out lc i oper s \<longleftrightarrow> i \<in> dl_delivery_id ` set (fst (delivery_step lc oper s))"

interpretation delivery_lease: lease_contract
  "\<lambda>oper s. snd (delivery_step lc oper s)" "lease_held d t"
  "under_lease t (dl_delivery_id d)" "hands_out lc (dl_delivery_id d)"
proof
  fix s oper
  assume "lease_held d t s" "under_lease t (dl_delivery_id d) oper"
  then show "lease_held d t (snd (delivery_step lc oper s))" "\<not> hands_out lc (dl_delivery_id d) oper s"
    using leased_step [of s "dl_delivery_id d" d t oper lc] delivery_step_inv [of s lc oper]
    by (simp_all add: lease_held_def hands_out_def)
qed

lemma claimed_row_stored:
  assumes keyed: "keyed_by dl_delivery_id (ms_deliveries s)"
    and row: "d \<in> set (fst (claim_due lc now lease limit at_time s))"
  shows "map_of (ms_deliveries (snd (claim_due lc now lease limit at_time s))) (dl_delivery_id d) = Some d"
    and "dl_status d = Delivering" and "dl_next_attempt_at d = lease"
proof -
  obtain e where e: "e \<in> set (page (due_deliveries lc now s) 0 (page_limit s limit))"
    "d = leased lease at_time e"
    using row by (auto simp: claim_due_rows)
  then have "e \<in> set (jm_values (ms_deliveries s))"
    using set_page_subset by (fastforce simp: set_due_deliveries)
  then have "map_of (ms_deliveries s) (dl_delivery_id d) = Some e"
    using e keyed_value_get [OF keyed] by simp
  with e show "map_of (ms_deliveries (snd (claim_due lc now lease limit at_time s))) (dl_delivery_id d) = Some d"
    by (simp add: claim_due_get [OF keyed])
  show "dl_status d = Delivering" "dl_next_attempt_at d = lease" using e by simp_all
qed

section \<open>Properties\<close>

text \<open>
  What a claim does, row by row. The rows handed out are the leased forms of \<open>n\<close> distinct due rows,
  \<open>n\<close> the bound or all of them, none of them due later than a due row left out; every other row is
  as it was.
\<close>

lemma due_deliveries_sorted:
  assumes "js_comparator lc"
  shows "sorted_wrt (\<lambda>a b. dl_next_attempt_at a \<le> dl_next_attempt_at b) (due_deliveries lc now s)"
proof -
  have "sorted_wrt (\<lambda>a b. (if dl_next_attempt_at a = dl_next_attempt_at b
          then lc (dl_delivery_id a) (dl_delivery_id b)
          else compare_of (dl_next_attempt_at a) (dl_next_attempt_at b)) \<le> 0) (due_deliveries lc now s)"
    unfolding due_deliveries_def
    by (rule js_comparator.sort_sorted [OF js_comparator_created [OF assms]])
  then show ?thesis
    by (rule sorted_wrt_mono_rel [rotated]) (auto simp: compare_of_simps split: if_splits)
qed

lemma sorted_wrt_page_before:
  assumes "sorted_wrt R rows" "a \<in> set (page rows 0 n)" "b \<in> set rows" "b \<notin> set (page rows 0 n)"
  shows "R a b"
proof -
  have "b \<in> set (drop n rows)"
    using assms(3,4) by (metis Un_iff append_take_drop_id drop_0 page_def set_append)
  moreover have "sorted_wrt R (take n rows @ drop n rows)" using assms(1) by simp
  ultimately show ?thesis
    using assms(2) unfolding sorted_wrt_append by (simp add: page_def)
qed

text \<open>
  A claim leases exactly the soonest due deliveries, up to the page bound, counts one more
  attempt on each and leaves every other row of the outbox alone.
\<close>

theorem claim_due_effect:
  assumes "js_comparator lc" and "ledger_inv s"
  shows "\<exists>picked.
           fst (claim_due lc now lease limit at_time s) = map (leased lease at_time) picked \<and>
           distinct (map dl_delivery_id picked) \<and>
           length picked = min (page_limit s limit)
                             (length (filter (is_due now) (jm_values (ms_deliveries s)))) \<and>
           (\<forall>d \<in> set picked. is_due now d \<and> delivery_get (dl_delivery_id d) s = Some d) \<and>
           (\<forall>d \<in> set picked. \<forall>e \<in> set (jm_values (ms_deliveries s)) - set picked.
              is_due now e \<longrightarrow> dl_next_attempt_at d \<le> dl_next_attempt_at e) \<and>
           (\<forall>i. delivery_get i (snd (claim_due lc now lease limit at_time s)) =
                  (if i \<in> dl_delivery_id ` set picked
                   then map_option (leased lease at_time) (delivery_get i s)
                   else delivery_get i s))"
proof -
  have keyed: "keyed_by dl_delivery_id (ms_deliveries s)"
    using assms(2) by (simp add: ledger_inv_def)
  let ?picked = "page (due_deliveries lc now s) 0 (page_limit s limit)"
  have stored: "is_due now d \<and> delivery_get (dl_delivery_id d) s = Some d" if "d \<in> set ?picked" for d
    using that set_page_subset keyed_value_get [OF keyed]
    by (fastforce simp: set_due_deliveries delivery_get_def)
  have sorted: "\<forall>d \<in> set ?picked. \<forall>e \<in> set (jm_values (ms_deliveries s)) - set ?picked.
      is_due now e \<longrightarrow> dl_next_attempt_at d \<le> dl_next_attempt_at e"
    using sorted_wrt_page_before [OF due_deliveries_sorted [OF assms(1)]] by (simp add: set_due_deliveries)
  have others: "delivery_get i (snd (claim_due lc now lease limit at_time s)) =
      (if i \<in> dl_delivery_id ` set ?picked
       then map_option (leased lease at_time) (delivery_get i s) else delivery_get i s)" for i
    using stored keyed_by_get [OF keyed]
    by (auto simp: delivery_get_def claim_due_get [OF keyed] split: option.split)
  have len: "length ?picked = min (page_limit s limit)
      (length (filter (is_due now) (jm_values (ms_deliveries s))))"
    by (simp add: page_def due_deliveries_def min.commute)
  have dist: "distinct (map dl_delivery_id ?picked)"
    using distinct_due_deliveries [OF keyed] by (simp add: page_def take_map [symmetric])
  from stored sorted others len dist show ?thesis
    by (intro exI [of _ ?picked]) (simp add: claim_due_rows)
qed

text \<open>
  A lease is exclusive and survivable: whatever the other workers, sweeps, inserts and reports on
  other rows do while it runs, nobody else is handed the delivery, its row stays as it was claimed,
  and from the lease's end on it is due again, so a worker that died mid-POST loses nothing.
\<close>

theorem lease_exclusive:
  assumes "ledger_inv s"
    and "d \<in> set (fst (claim_due lc now lease limit at_time s))"
    and "list_all (under_lease lease (dl_delivery_id d)) (before @ [oper])"
    and "s' = run_steps (\<lambda>oper s. snd (delivery_step lc oper s)) before
                (snd (claim_due lc now lease limit at_time s))"
  shows "dl_delivery_id d \<notin> dl_delivery_id ` set (fst (delivery_step lc oper s')) \<and>
         delivery_get (dl_delivery_id d) s' = Some d \<and>
         (\<forall>t. is_due t d \<longleftrightarrow> lease \<le> t)"
proof -
  have keyed: "keyed_by dl_delivery_id (ms_deliveries s)"
    using assms(1) by (simp add: ledger_inv_def)
  note row = claimed_row_stored [OF keyed assms(2)]
  have held: "lease_held d lease (snd (claim_due lc now lease limit at_time s))"
    using row claim_due_inv [OF keyed] by (simp add: lease_held_def)
  have ops: "list_all (under_lease lease (dl_delivery_id d)) before" "under_lease lease (dl_delivery_id d) oper"
    using assms(3) by simp_all
  show ?thesis
    using delivery_lease.exclusive [OF held ops] delivery_lease.held_throughout [OF held ops(1), of lc] row(2,3)
    unfolding assms(4) by (simp add: hands_out_def lease_held_def delivery_get_def is_due_def)
qed

text \<open>
  The report of an attempt is unconditional. A \<^verbatim>\<open>retrying\<close> report that arrives after the
  delivery was reported \<^verbatim>\<open>delivered\<close> puts the row back in the outbox: pending and due again from
  the reported instant, with the payload already dropped.
\<close>

theorem late_retry_resurrects_delivered:
  assumes "delivery_get i s = Some d"
  shows "\<exists>row. delivery_get i (snd (record_attempt i (AttemptRetrying next_at err b) t2
                  (snd (record_attempt i (AttemptDelivered a) t1 s)))) = Some row \<and>
           dl_status row = DPending \<and> dl_payload row = JNull \<and>
           (\<forall>t. is_due t row \<longleftrightarrow> next_at \<le> t)"
  using assms by (simp add: delivery_get_def record_attempt_def jm_simps Let_def is_due_def)

subsection \<open>Witnesses\<close>

definition sample_callback :: delivery_create where
  "sample_callback = \<lparr>dc_delivery_id = Some ''d1'', dc_thread_id = ''t1'', dc_url = ''http://h/cb'',
     dc_payload = JObj [(''status'', JStr ''success'')], dc_payload_truncated = None,
     dc_next_attempt_at = 5, dc_expires_at = 1000\<rparr>"

definition sample_outbox :: mem_store where
  "sample_outbox = snd (insert_delivery ''r1'' Success sample_callback False ''d0'' 0 empty_store)"

lemmas sample_outbox_simps = sample_outbox_def empty_store_def insert_delivery_def sample_callback_def Let_def

lemma sample_outbox_inv: "ledger_inv sample_outbox"
  by (simp add: sample_outbox_simps
      ledger_inv_def keyed_by_def)

lemma sample_outbox_claim:
  "claim_due compare_of 10 40 None 10 sample_outbox =
     ([leased 40 10 (the (delivery_get ''d1'' sample_outbox))],
      sample_outbox\<lparr>ms_deliveries := [(''d1'', leased 40 10 (the (delivery_get ''d1'' sample_outbox)))]\<rparr>)"
  by (simp add: claim_due_def due_deliveries_def sample_outbox_simps is_due_def page_def page_limit_def delivery_get_def)

theorem claim_due_effect_witness:
  "ledger_inv sample_outbox \<and>
   (\<exists>picked. length picked = 1 \<and>
      fst (claim_due compare_of 10 40 None 10 sample_outbox) = map (leased 40 10) picked)"
proof -
  have "length (filter (is_due 10) (jm_values (ms_deliveries sample_outbox))) = 1"
    by (simp add: sample_outbox_simps is_due_def)
  moreover have "page_limit sample_outbox None = 1000"
    by (simp add: sample_outbox_simps page_limit_def)
  ultimately show ?thesis
    using claim_due_effect [OF js_comparator_compare_of sample_outbox_inv, of 10 40 None 10] sample_outbox_inv
    by auto
qed

theorem lease_exclusive_witness:
  "\<exists>d. d \<in> set (fst (claim_due compare_of 10 40 None 10 sample_outbox)) \<and>
     dl_delivery_id d \<notin> dl_delivery_id ` set (fst (delivery_step compare_of (OpClaimDue 12 50 None 12)
       (run_steps (\<lambda>oper s. snd (delivery_step compare_of oper s))
          [OpSweepDeliveries 30, OpRecordAttempt ''d2'' (AttemptDelivered None) 30]
          (snd (claim_due compare_of 10 40 None 10 sample_outbox))))) \<and>
     is_due 40 d"
proof -
  let ?d = "leased 40 10 (the (delivery_get ''d1'' sample_outbox))"
  have claimed: "?d \<in> set (fst (claim_due compare_of 10 40 None 10 sample_outbox))"
    by (simp add: sample_outbox_claim)
  have "dl_delivery_id ?d = ''d1''" by (simp add: sample_outbox_simps delivery_get_def)
  then have ops: "list_all (under_lease 40 (dl_delivery_id ?d))
      ([OpSweepDeliveries 30, OpRecordAttempt ''d2'' (AttemptDelivered None) 30] @ [OpClaimDue 12 50 None 12])"
    by simp
  from lease_exclusive [OF sample_outbox_inv claimed ops refl] claimed show ?thesis by blast
qed

theorem late_retry_resurrects_delivered_witness:
  "\<exists>row. delivery_get ''d1'' (snd (record_attempt ''d1'' (AttemptRetrying 60 ''timeout'' None) 50
            (snd (record_attempt ''d1'' (AttemptDelivered None) 45 sample_outbox)))) = Some row \<and>
         dl_status row = DPending \<and> dl_payload row = JNull"
proof -
  obtain d where "delivery_get ''d1'' sample_outbox = Some d"
    by (simp add: sample_outbox_simps delivery_get_def)
  from late_retry_resurrects_delivered [OF this] show ?thesis by blast
qed

end
