(* ===== verification/StoreWire.thy ===== *)
theory StoreWire
  imports Resources "HOL-Library.Monad_Syntax"
begin

text \<open>
  \<^verbatim>\<open>JSON.parse(serializeWireJson(x))\<close> on the typed inputs the store normalises before it commits
  them: settlements, results, run payloads and callbacks. Each opaque payload field goes through
  \<open>wire_value\<close>; \<open>None\<close> is the exception \<^verbatim>\<open>JSON.stringify\<close> throws.
\<close>

definition wire_field :: "jsval \<Rightarrow> jsval option" where
  "wire_field v = (case wire_value v of Written w \<Rightarrow> Some w | Omitted \<Rightarrow> Some JUndef | Throws \<Rightarrow> None)"

definition wire_optional :: "jsval option \<Rightarrow> jsval option option" where
  "wire_optional x =
     (case x of
        None \<Rightarrow> Some None
      | Some v \<Rightarrow> (case wire_value v of Written w \<Rightarrow> Some (Some w) | Omitted \<Rightarrow> Some None | Throws \<Rightarrow> None))"

fun wire_maybe :: "('a \<Rightarrow> 'b option) \<Rightarrow> 'a option \<Rightarrow> 'b option option" where
  "wire_maybe f None = Some None"
| "wire_maybe f (Some x) = map_option Some (f x)"

definition wire_run_result :: "run_result \<Rightarrow> run_result option" where
  "wire_run_result r = do {
     values \<leftarrow> wire_field (rr_values r);
     interrupts \<leftarrow> wire_optional (rr_interrupts r);
     reply \<leftarrow> wire_optional (rr_reply r);
     checkpoint \<leftarrow> wire_optional (rr_checkpoint r);
     Some \<lparr>rr_values = values, rr_interrupts = interrupts, rr_reply = reply, rr_checkpoint = checkpoint\<rparr>
   }"

definition wire_delivery_create :: "delivery_create \<Rightarrow> delivery_create option" where
  "wire_delivery_create d =
     map_option (\<lambda>payload. d\<lparr>dc_payload := payload\<rparr>) (wire_field (dc_payload d))"

definition wire_settlement :: "run_settlement \<Rightarrow> run_settlement option" where
  "wire_settlement input = do {
     result \<leftarrow> wire_maybe wire_run_result (se_result input);
     delivery \<leftarrow> wire_maybe wire_delivery_create (se_delivery input);
     Some (input\<lparr>se_result := result, se_delivery := delivery\<rparr>)
   }"

definition wire_run_kwargs :: "run_kwargs \<Rightarrow> run_kwargs option" where
  "wire_run_kwargs k = do {
     delivery \<leftarrow> wire_maybe wire_delivery_create (kw_terminal_delivery k);
     origin \<leftarrow> wire_optional (kw_native_origin k);
     rest \<leftarrow> wire_props None (kw_rest k);
     Some (k\<lparr>kw_terminal_delivery := delivery, kw_native_origin := origin, kw_rest := rest\<rparr>)
   }"

definition wire_run_create :: "run_create \<Rightarrow> run_create option" where
  "wire_run_create input = do {
     metadata \<leftarrow> wire_optional (rc_metadata input);
     kwargs \<leftarrow> wire_maybe wire_run_kwargs (rc_kwargs input);
     Some (input\<lparr>rc_metadata := metadata, rc_kwargs := kwargs\<rparr>)
   }"

text \<open>\<^verbatim>\<open>input.displacements\<close>, an array of pairs of a run id and its settlement.\<close>

fun wire_displacements :: "(ident \<times> run_settlement) list \<Rightarrow> (ident \<times> run_settlement) list option" where
  "wire_displacements [] = Some []"
| "wire_displacements ((run_id, settlement) # rest) = do {
     settlement' \<leftarrow> wire_settlement settlement;
     rest' \<leftarrow> wire_displacements rest;
     Some ((run_id, settlement') # rest')
   }"

section \<open>Normal forms are normalised once\<close>

lemma wire_value_again: "wire_value v = Written w \<Longrightarrow> wire_value w = Written w"
  by (simp add: wire_value_id wire_value_is_wire)

lemma wire_field_again: "wire_field v = Some w \<Longrightarrow> wire_field w = Some w"
  by (cases "wire_value v") (auto simp: wire_field_def wire_value_again)

lemma wire_optional_again: "wire_optional x = Some y \<Longrightarrow> wire_optional y = Some y"
  by (auto simp: wire_optional_def wire_value_again split: wire_result.splits option.splits)

lemma wire_maybe_again:
  "(\<And>a b. f a = Some b \<Longrightarrow> f b = Some b) \<Longrightarrow> wire_maybe f x = Some y \<Longrightarrow> wire_maybe f y = Some y"
  by (cases x) auto

lemma wire_run_result_again: "wire_run_result r = Some r' \<Longrightarrow> wire_run_result r' = Some r'"
  by (auto simp: wire_run_result_def split: bind_splits dest: wire_field_again wire_optional_again)

lemma wire_delivery_create_again: "wire_delivery_create d = Some d' \<Longrightarrow> wire_delivery_create d' = Some d'"
  by (auto simp: wire_delivery_create_def dest: wire_field_again)

lemma wire_delivery_create_keeps:
  assumes "wire_delivery_create d = Some d'"
  shows "dc_delivery_id d' = dc_delivery_id d"
  using assms by (auto simp: wire_delivery_create_def)

lemmas wire_settlement_parts_again =
  wire_maybe_again [of wire_run_result, OF wire_run_result_again]
  wire_maybe_again [of wire_delivery_create, OF wire_delivery_create_again]

lemma wire_settlement_again: "wire_settlement x = Some y \<Longrightarrow> wire_settlement y = Some y"
  by (auto simp: wire_settlement_def wire_settlement_parts_again split: bind_splits)

lemma wire_settlement_status: "wire_settlement x = Some y \<Longrightarrow> se_status y = se_status x \<and> se_error y = se_error x"
  by (auto simp: wire_settlement_def split: bind_splits)

lemma wire_run_create_keeps:
  assumes "wire_run_create input = Some prepared"
  shows "rc_thread_id prepared = rc_thread_id input" "rc_run_id prepared = rc_run_id input"
    "rc_assistant_id prepared = rc_assistant_id input" "rc_status prepared = rc_status input"
    "rc_multitask_strategy prepared = rc_multitask_strategy input"
  using assms by (auto simp: wire_run_create_def split: bind_splits)

end
