(* ===== verification/StoreRuns.thy ===== *)
theory StoreRuns
  imports StoreDeliveries StoreWire
begin

text \<open>
  The \<^verbatim>\<open>runs\<close> repository of \<^verbatim>\<open>memory-skein-store.ts\<close>, with \<^verbatim>\<open>#createRun\<close>, \<^verbatim>\<open>#settle\<close> and
  \<^verbatim>\<open>compare-run-creation.ts\<close>. A run row is created once, moves through its statuses, and is
  settled at most once by \<open>settle\<close>; its kwargs and its result live beside it.
\<close>

section \<open>Creation order\<close>

text \<open>Newest first; equal instants by id, code point by code point, descending.\<close>

fun compare_ids_desc :: "string \<Rightarrow> string \<Rightarrow> int" where
  "compare_ids_desc (a # as) (b # bs) =
     (if of_char b - of_char a \<noteq> (0 :: int) then of_char b - of_char a else compare_ids_desc as bs)"
| "compare_ids_desc as bs = int (length bs) - int (length as)"

definition compare_run_creation :: "run \<Rightarrow> run \<Rightarrow> int" where
  "compare_run_creation a b =
     (if r_created_at a \<noteq> r_created_at b then (if r_created_at a < r_created_at b then 1 else - 1)
      else compare_ids_desc (r_run_id a) (r_run_id b))"

section \<open>Operations\<close>

definition is_active_on :: "ident \<Rightarrow> run \<Rightarrow> bool" where
  "is_active_on thread_id r \<longleftrightarrow> r_thread_id r = thread_id \<and> \<not> is_terminal_run_status (r_status r)"

definition create_run :: "run_create \<Rightarrow> ident \<Rightarrow> instant \<Rightarrow> mem_store \<Rightarrow> run outcome" where
  "create_run input uuid now s =
     (let r = \<lparr>r_run_id = or_default (rc_run_id input) uuid,
               r_thread_id = rc_thread_id input,
               r_assistant_id = rc_assistant_id input,
               r_created_at = now,
               r_updated_at = now,
               r_status = or_default (rc_status input) Pending,
               r_metadata = or_default (rc_metadata input) (JObj []),
               r_multitask_strategy = rc_multitask_strategy input,
               r_error = None\<rparr>
      in if jm_has (ms_runs s) (r_run_id r) then (Inl (conflict None), s)
         else
           let s1 = s\<lparr>ms_runs := jm_set (r_run_id r) r (ms_runs s)\<rparr>
           in (Inr r,
               case rc_kwargs input of
                 None \<Rightarrow> s1
               | Some kwargs \<Rightarrow> s1\<lparr>ms_run_kwargs := jm_set (r_run_id r) kwargs (ms_run_kwargs s1)\<rparr>))"

definition settled_run :: "run_settlement \<Rightarrow> instant \<Rightarrow> run \<Rightarrow> run" where
  "settled_run final now r =
     r\<lparr>r_status := se_status final, r_updated_at := now, r_error := se_error final\<rparr>"

text \<open>
  The delivery a settlement asks for: an existing row with the given id is reused, otherwise one is
  inserted unclaimed.
\<close>

definition settle_delivery ::
  "ident \<Rightarrow> run_status \<Rightarrow> delivery_create option \<Rightarrow> ident \<Rightarrow> instant \<Rightarrow> mem_store \<Rightarrow>
     delivery option \<times> mem_store" where
  "settle_delivery run_id status prepared uuid now s =
     (case prepared of
        None \<Rightarrow> (None, s)
      | Some input \<Rightarrow>
          (case (case dc_delivery_id input of
                   None \<Rightarrow> None
                 | Some i \<Rightarrow> if i = [] then None else jm_get (ms_deliveries s) i) of
             Some d \<Rightarrow> (Some d, s)
           | None \<Rightarrow>
               let (d, s') = insert_delivery run_id status input False uuid now s in (Some d, s')))"

definition settle_row :: "ident \<Rightarrow> run_settlement \<Rightarrow> instant \<Rightarrow> mem_store \<Rightarrow> run option \<times> mem_store" where
  "settle_row run_id final now s =
     (case jm_get (ms_runs s) run_id of
        None \<Rightarrow> (None, s)
      | Some existing \<Rightarrow>
          if is_terminal_run_status (r_status existing) then (Some existing, s)
          else let r = settled_run final now existing
               in (Some r, s\<lparr>ms_runs := jm_set run_id r (ms_runs s)\<rparr>))"

definition settle_result :: "ident \<Rightarrow> run_settlement \<Rightarrow> run option \<Rightarrow> mem_store \<Rightarrow> mem_store" where
  "settle_result run_id final row s =
     (case (row, se_result final) of
        (Some r, Some result) \<Rightarrow>
          if r_status r = se_status final \<and> \<not> jm_has (ms_run_results s) run_id
          then s\<lparr>ms_run_results := jm_set run_id result (ms_run_results s)\<rparr>
          else s
      | _ \<Rightarrow> s)"

definition settle ::
  "ident \<Rightarrow> run_settlement \<Rightarrow> ident \<Rightarrow> instant \<Rightarrow> mem_store \<Rightarrow> (run option \<times> delivery option) outcome" where
  "settle run_id input uuid now s =
     (case wire_settlement input of
        None \<Rightarrow> (Inl SerializationError, s)
      | Some final \<Rightarrow>
          let (row, s1) = settle_row run_id final now s;
              s2 = settle_result run_id final row s1;
              (delivery, s3) =
                settle_delivery run_id (case row of Some r \<Rightarrow> r_status r | None \<Rightarrow> se_status final)
                  (se_delivery final) uuid now s2
          in (Inr (row, delivery), s3))"

record run_search_query =
  rq_status :: "run_status option"
  rq_assistant_id :: "ident option"
  rq_thread_id :: "ident option"
  rq_created_after :: "instant option"
  rq_created_before :: "instant option"
  rq_updated_after :: "instant option"
  rq_updated_before :: "instant option"
  rq_enforced_metadata :: "jsval option"
  rq_limit :: "nat option"
  rq_offset :: "nat option"

text \<open>\<open>unconstrained x P\<close>: an absent filter constrains nothing.\<close>

definition unconstrained :: "'a option \<Rightarrow> ('a \<Rightarrow> bool) \<Rightarrow> bool" where
  "unconstrained x P = (case x of None \<Rightarrow> True | Some v \<Rightarrow> P v)"

definition run_matches :: "run_search_query \<Rightarrow> run \<Rightarrow> bool" where
  "run_matches q r \<longleftrightarrow>
     unconstrained (rq_status q) (\<lambda>st. r_status r = st) \<and>
     unconstrained (rq_assistant_id q) (\<lambda>i. r_assistant_id r = i) \<and>
     unconstrained (rq_thread_id q) (\<lambda>i. r_thread_id r = i) \<and>
     unconstrained (rq_created_after q) (\<lambda>t. t \<le> r_created_at r) \<and>
     unconstrained (rq_created_before q) (\<lambda>t. r_created_at r < t) \<and>
     unconstrained (rq_updated_after q) (\<lambda>t. t \<le> r_updated_at r) \<and>
     unconstrained (rq_updated_before q) (\<lambda>t. r_updated_at r < t) \<and>
     is_metadata_subset (r_metadata r) (rq_enforced_metadata q)"

definition runs_search :: "run_search_query \<Rightarrow> mem_store \<Rightarrow> run list" where
  "runs_search q s =
     page (js_sort compare_run_creation (filter (run_matches q) (jm_values (ms_runs s))))
       (or_default (rq_offset q) 0)
       (page_limit s (Some (min (or_default (rq_limit q) 100) DEFAULT_MAX_PAGE_SIZE)))"

definition record_result :: "ident \<Rightarrow> run_result \<Rightarrow> mem_store \<Rightarrow> unit outcome" where
  "record_result run_id result s =
     (if jm_has (ms_runs s) run_id \<and> \<not> jm_has (ms_run_results s) run_id
      then (case wire_run_result result of
              None \<Rightarrow> (Inl SerializationError, s)
            | Some normal \<Rightarrow> (Inr (), s\<lparr>ms_run_results := jm_set run_id normal (ms_run_results s)\<rparr>))
      else (Inr (), s))"

definition get_result :: "ident \<Rightarrow> mem_store \<Rightarrow> run_result option" where
  "get_result run_id s =
     (if jm_has (ms_runs s) run_id then jm_get (ms_run_results s) run_id else None)"

definition run_get :: "ident \<Rightarrow> mem_store \<Rightarrow> run option" where
  "run_get run_id s = jm_get (ms_runs s) run_id"

definition list_by_thread ::
  "ident \<Rightarrow> run_status option \<Rightarrow> nat option \<Rightarrow> nat option \<Rightarrow> mem_store \<Rightarrow> run list" where
  "list_by_thread thread_id status offset limit s =
     (let matched = filter (\<lambda>r. r_thread_id r = thread_id \<and> unconstrained status (\<lambda>st. r_status r = st))
                      (jm_values (ms_runs s))
      in page matched (or_default offset 0) (or_default limit (length matched)))"

fun latest_loop :: "ident \<Rightarrow> run option \<Rightarrow> run list \<Rightarrow> run option" where
  "latest_loop thread_id latest [] = latest"
| "latest_loop thread_id latest (r # rs) =
     (if r_thread_id r \<noteq> thread_id then latest_loop thread_id latest rs
      else (case latest of
              None \<Rightarrow> latest_loop thread_id (Some r) rs
            | Some best \<Rightarrow>
                if r_created_at best < r_created_at r \<or>
                   r_created_at r = r_created_at best \<and> r_run_id best < r_run_id r
                then latest_loop thread_id (Some r) rs
                else latest_loop thread_id latest rs))"

definition latest_for_thread :: "ident \<Rightarrow> mem_store \<Rightarrow> run option" where
  "latest_for_thread thread_id s = latest_loop thread_id None (jm_values (ms_runs s))"

definition create_if_thread_idle :: "run_create \<Rightarrow> ident \<Rightarrow> instant \<Rightarrow> mem_store \<Rightarrow> run option outcome" where
  "create_if_thread_idle input uuid now s =
     (if \<not> jm_has (ms_threads s) (rc_thread_id input) then (Inr None, s)
      else if list_ex (is_active_on (rc_thread_id input)) (jm_values (ms_runs s)) then (Inr None, s)
      else (case create_run input uuid now s of
              (Inl e, s') \<Rightarrow> (Inl e, s')
            | (Inr r, s') \<Rightarrow> (Inr (Some r), s')))"

definition create_if_thread_matches ::
  "run_create \<Rightarrow> run_create_guard \<Rightarrow> ident \<Rightarrow> instant \<Rightarrow> mem_store \<Rightarrow> guarded_run_create outcome" where
  "create_if_thread_matches input guard uuid now s =
     (case jm_get (ms_threads s) (rc_thread_id input) of
        None \<Rightarrow> (Inl not_found, s)
      | Some t \<Rightarrow>
          if \<not> unconstrained (rg_thread_status_in guard) (\<lambda>sts. t_status t \<in> set sts)
          then (Inr (RefusedStatusMismatch (t_status t)), s)
          else if rg_require_no_active_run guard \<and>
                  list_ex (is_active_on (rc_thread_id input)) (jm_values (ms_runs s))
          then (Inr RefusedThreadBusy, s)
          else (case create_run input uuid now s of
                  (Inl e, s') \<Rightarrow> (Inl e, s')
                | (Inr r, s') \<Rightarrow> (Inr (GuardedRun r), s')))"

definition set_status ::
  "ident \<Rightarrow> run_status \<Rightarrow> run_error option \<Rightarrow> instant \<Rightarrow> mem_store \<Rightarrow> run outcome" where
  "set_status run_id status err now s =
     (case jm_get (ms_runs s) run_id of
        None \<Rightarrow> (Inl not_found, s)
      | Some existing \<Rightarrow>
          if status = Running \<and> run_id \<in> set (ms_admitted_run_ids s) \<and>
             is_terminal_run_status (r_status existing)
          then (Inr existing, s)
          else
            let r = existing\<lparr>r_status := status, r_updated_at := now, r_error := err\<rparr>
            in (Inr r, s\<lparr>ms_runs := jm_set run_id r (ms_runs s)\<rparr>))"

definition run_delete :: "ident \<Rightarrow> mem_store \<Rightarrow> mem_store" where
  "run_delete run_id s =
     forget_admission run_id
       (s\<lparr>ms_runs := jm_delete run_id (ms_runs s),
          ms_run_kwargs := jm_delete run_id (ms_run_kwargs s),
          ms_run_results := jm_delete run_id (ms_run_results s)\<rparr>)"

definition get_kwargs :: "ident \<Rightarrow> mem_store \<Rightarrow> run_kwargs option" where
  "get_kwargs run_id s = jm_get (ms_run_kwargs s) run_id"

definition record_base_checkpoint :: "ident \<Rightarrow> ident jsopt \<Rightarrow> mem_store \<Rightarrow> mem_store" where
  "record_base_checkpoint run_id base s =
     (if \<not> jm_has (ms_runs s) run_id then s
      else s\<lparr>ms_run_kwargs :=
               jm_set run_id
                 (or_default (jm_get (ms_run_kwargs s) run_id) empty_kwargs\<lparr>kw_base_checkpoint_id := base\<rparr>)
                 (ms_run_kwargs s)\<rparr>)"

definition has_active_run :: "ident \<Rightarrow> mem_store \<Rightarrow> bool" where
  "has_active_run thread_id s = list_ex (is_active_on thread_id) (jm_values (ms_runs s))"

definition list_active_runs :: "ident option \<Rightarrow> mem_store \<Rightarrow> run list" where
  "list_active_runs thread_id s =
     page (filter (\<lambda>r. unconstrained thread_id (\<lambda>i. r_thread_id r = i) \<and>
                        \<not> is_terminal_run_status (r_status r)) (jm_values (ms_runs s)))
       0 (page_limit s None)"

definition finalize_with_delivery ::
  "ident \<Rightarrow> run_status \<Rightarrow> run_error option \<Rightarrow> delivery_create \<Rightarrow> ident \<Rightarrow> instant \<Rightarrow> mem_store \<Rightarrow>
     (run option \<times> delivery) \<times> mem_store" where
  "finalize_with_delivery run_id status err input uuid now s =
     (case jm_get (ms_runs s) run_id of
        None \<Rightarrow>
          let (d, s') = insert_delivery run_id status input True uuid now s in ((None, d), s')
      | Some existing \<Rightarrow>
          if is_terminal_run_status (r_status existing)
          then let (d, s') = insert_delivery run_id (r_status existing) input True uuid now s
               in ((Some existing, d), s')
          else
            let r = existing\<lparr>r_status := status, r_updated_at := now, r_error := err\<rparr>;
                s1 = s\<lparr>ms_runs := jm_set run_id r (ms_runs s)\<rparr>;
                (d, s2) = insert_delivery run_id status input True uuid now s1
            in ((Some r, d), s2))"

section \<open>The creation order is lawful\<close>

lemma compare_ids_desc_swap: "compare_ids_desc a b = - compare_ids_desc b a"
  by (induction a b rule: compare_ids_desc.induct) auto

lemma compare_ids_desc_Nil:
  "compare_ids_desc [] b = int (length b)" "compare_ids_desc a [] = - int (length a)"
  by (cases b; simp) (cases a; simp)

lemma compare_ids_desc_trans:
  "compare_ids_desc a b \<le> 0 \<Longrightarrow> compare_ids_desc b c \<le> 0 \<Longrightarrow> compare_ids_desc a c \<le> 0"
proof (induction a b arbitrary: c rule: compare_ids_desc.induct)
  case (1 a as b bs)
  show ?case
  proof (cases c)
    case Nil
    then show ?thesis by (simp add: compare_ids_desc_Nil)
  next
    case (Cons d ds)
    with 1 show ?thesis by (auto split: if_splits)
  qed
qed (auto simp: compare_ids_desc_Nil)

lemma compare_ids_desc_eq: "compare_ids_desc a b = 0 \<longleftrightarrow> a = b"
  by (induction a b rule: compare_ids_desc.induct) auto

interpretation ids_desc: js_comparator compare_ids_desc
proof
  fix x y z
  show "0 < compare_ids_desc x y \<longleftrightarrow> compare_ids_desc y x < 0"
    using compare_ids_desc_swap [of x y] by linarith
  show "compare_ids_desc x y \<le> 0 \<Longrightarrow> compare_ids_desc y z \<le> 0 \<Longrightarrow> compare_ids_desc x z \<le> 0"
    by (rule compare_ids_desc_trans)
qed

lemma compare_run_creation_then_by:
  "compare_run_creation =
     then_by (\<lambda>a b. compare_of (r_created_at b) (r_created_at a))
             (\<lambda>a b. compare_ids_desc (r_run_id a) (r_run_id b))"
  by (auto simp: compare_run_creation_def then_by_def compare_of_def fun_eq_iff)

interpretation run_creation: js_comparator compare_run_creation
  unfolding compare_run_creation_then_by
  by (intro js_comparator_then_by js_comparator_on [OF ids_desc.js_comparator_axioms]
      js_comparator_flip [OF js_comparator_on [OF js_comparator_compare_of]])

section \<open>What the operations do to the run table\<close>

text \<open>Relations between the stores before and after, each reflexive and transitive.\<close>

definition no_new_active :: "mem_store \<Rightarrow> mem_store \<Rightarrow> bool" where
  "no_new_active s s' \<longleftrightarrow>
     (\<forall>i r'. map_of (ms_runs s') i = Some r' \<and> \<not> is_terminal_run_status (r_status r') \<longrightarrow>
        (\<exists>r. map_of (ms_runs s) i = Some r \<and> \<not> is_terminal_run_status (r_status r) \<and>
             r_thread_id r = r_thread_id r'))"

definition terminal_kept :: "mem_store \<Rightarrow> mem_store \<Rightarrow> bool" where
  "terminal_kept s s' \<longleftrightarrow>
     (\<forall>i r. map_of (ms_runs s) i = Some r \<and> is_terminal_run_status (r_status r) \<longrightarrow>
        map_of (ms_runs s') i = Some r)"

definition results_kept :: "mem_store \<Rightarrow> mem_store \<Rightarrow> bool" where
  "results_kept s s' \<longleftrightarrow>
     (\<forall>i x. map_of (ms_run_results s) i = Some x \<longrightarrow> map_of (ms_run_results s') i = Some x)"

text \<open>A thread has at most one run that is not terminal.\<close>

definition single_active :: "mem_store \<Rightarrow> bool" where
  "single_active s \<longleftrightarrow>
     (\<forall>i j r r'. map_of (ms_runs s) i = Some r \<and> map_of (ms_runs s) j = Some r' \<and>
        is_active_on (r_thread_id r') r \<and> is_active_on (r_thread_id r') r' \<longrightarrow> i = j)"

lemma run_relations_refl [simp]: "no_new_active s s" "terminal_kept s s" "results_kept s s"
  by (simp_all add: no_new_active_def terminal_kept_def results_kept_def)

lemma no_new_active_trans: "no_new_active s s' \<Longrightarrow> no_new_active s' s'' \<Longrightarrow> no_new_active s s''"
  unfolding no_new_active_def by (metis (no_types, opaque_lifting))

lemma terminal_kept_trans: "terminal_kept s s' \<Longrightarrow> terminal_kept s' s'' \<Longrightarrow> terminal_kept s s''"
  unfolding terminal_kept_def by blast

lemma results_kept_trans: "results_kept s s' \<Longrightarrow> results_kept s' s'' \<Longrightarrow> results_kept s s''"
  unfolding results_kept_def by blast

lemma single_active_mono: "single_active s \<Longrightarrow> no_new_active s s' \<Longrightarrow> single_active s'"
  unfolding single_active_def no_new_active_def is_active_on_def by metis

lemma has_active_run_iff:
  assumes "run_inv s"
  shows "has_active_run t s \<longleftrightarrow> (\<exists>i r. map_of (ms_runs s) i = Some r \<and> is_active_on t r)"
proof -
  have "jm_wf (ms_runs s)" using assms by (simp add: run_inv_def keyed_by_def)
  then show ?thesis
    by (force simp: has_active_run_def list_ex_iff jm_get_in [symmetric])
qed

text \<open>The outbox is no part of these relations, nor of the invariant of the rest.\<close>

lemma deliveries_update_run_relations [simp]:
  "no_new_active s (s'\<lparr>ms_deliveries := m\<rparr>) = no_new_active s s'"
  "terminal_kept s (s'\<lparr>ms_deliveries := m\<rparr>) = terminal_kept s s'"
  "results_kept s (s'\<lparr>ms_deliveries := m\<rparr>) = results_kept s s'"
  by (simp_all add: no_new_active_def terminal_kept_def results_kept_def)

lemma store_inv_deliveries:
  "store_inv s \<Longrightarrow> keyed_by dl_delivery_id m \<Longrightarrow> store_inv (s\<lparr>ms_deliveries := m\<rparr>)"
  by (simp add: store_inv_def inv_defs)

lemma insert_delivery_snd:
  "snd (insert_delivery r st input claimed uuid now s) =
     s\<lparr>ms_deliveries := jm_set (dl_delivery_id (fst (insert_delivery r st input claimed uuid now s)))
         (fst (insert_delivery r st input claimed uuid now s)) (ms_deliveries s)\<rparr>"
  by (simp add: insert_delivery_def Let_def)

lemma insert_delivery_only:
  "\<exists>m. snd (insert_delivery r st input claimed uuid now s) = s\<lparr>ms_deliveries := m\<rparr> \<and>
       (keyed_by dl_delivery_id (ms_deliveries s) \<longrightarrow> keyed_by dl_delivery_id m)"
  unfolding insert_delivery_snd by (blast intro: keyed_by_set)

lemma settle_delivery_only:
  "\<exists>m. snd (settle_delivery r st prepared uuid now s) = s\<lparr>ms_deliveries := m\<rparr> \<and>
       (keyed_by dl_delivery_id (ms_deliveries s) \<longrightarrow> keyed_by dl_delivery_id m)"
proof -
  have "snd (settle_delivery r st prepared uuid now s) = s \<or>
        (\<exists>input. snd (settle_delivery r st prepared uuid now s) =
                   snd (insert_delivery r st input False uuid now s))"
    by (auto simp: settle_delivery_def split: option.split prod.split) (metis snd_conv)+
  moreover have "\<exists>m. s = s\<lparr>ms_deliveries := m\<rparr> \<and>
      (keyed_by dl_delivery_id (ms_deliveries s) \<longrightarrow> keyed_by dl_delivery_id m)"
    by (rule exI [of _ "ms_deliveries s"]) simp
  ultimately show ?thesis using insert_delivery_only by metis
qed

lemma settle_decompose:
  assumes "wire_settlement input = Some final"
  shows "\<exists>m d. settle run_id input uuid now s =
      (Inr (fst (settle_row run_id final now s), d),
       (settle_result run_id final (fst (settle_row run_id final now s))
          (snd (settle_row run_id final now s)))\<lparr>ms_deliveries := m\<rparr>) \<and>
      (keyed_by dl_delivery_id (ms_deliveries s) \<longrightarrow> keyed_by dl_delivery_id m)"
proof -
  obtain row s1 where row: "settle_row run_id final now s = (row, s1)" by fastforce
  let ?s2 = "settle_result run_id final row s1"
  let ?st = "case row of Some r \<Rightarrow> r_status r | None \<Rightarrow> se_status final"
  have "ms_deliveries ?s2 = ms_deliveries s"
    using row by (auto simp: settle_result_def settle_row_def Let_def split: option.splits if_splits)
  then obtain m where m: "snd (settle_delivery run_id ?st (se_delivery final) uuid now ?s2) = ?s2\<lparr>ms_deliveries := m\<rparr>"
    "keyed_by dl_delivery_id (ms_deliveries s) \<longrightarrow> keyed_by dl_delivery_id m"
    using settle_delivery_only by metis
  then show ?thesis
    using assms row by (auto simp: settle_def Let_def split: prod.split)
qed

lemma settle_row_get:
  "map_of (ms_runs (snd (settle_row run_id final now s))) i =
     (case map_of (ms_runs s) i of
        None \<Rightarrow> None
      | Some r \<Rightarrow> Some (if i = run_id \<and> \<not> is_terminal_run_status (r_status r)
                         then settled_run final now r else r))"
  by (auto simp: settle_row_def Let_def jm_simps split: option.split)

lemma settle_row_fst: "fst (settle_row run_id final now s) = map_of (ms_runs (snd (settle_row run_id final now s))) run_id"
  by (auto simp: settle_row_def Let_def jm_simps split: option.split)

lemma settle_result_frame [frame_simps]:
  "ms_runs (settle_result run_id final row s) = ms_runs s"
  by (auto simp: settle_result_def split: option.split)

lemma settle_row_frame [frame_simps]:
  "ms_run_results (snd (settle_row run_id final now s)) = ms_run_results s"
  by (auto simp: settle_row_def Let_def split: option.split)

lemma settle_fail: "wire_settlement input = None \<Longrightarrow> settle run_id input uuid now s = (Inl SerializationError, s)"
  by (simp add: settle_def)

lemma settle_terminal_kept: "terminal_kept s (snd (settle run_id input uuid now s))"
proof (cases "wire_settlement input")
  case None
  then show ?thesis by (simp add: settle_fail)
next
  case (Some final)
  from settle_decompose [OF this, of run_id uuid now s] show ?thesis
    by (auto simp: terminal_kept_def frame_simps settle_row_get)
qed

lemma settle_results_kept: "results_kept s (snd (settle run_id input uuid now s))"
proof (cases "wire_settlement input")
  case None
  then show ?thesis by (simp add: settle_fail)
next
  case (Some final)
  have "results_kept s1 (settle_result run_id final row s1)" for row s1
    by (auto simp: results_kept_def settle_result_def jm_get_set jm_has_iff split: option.split)
  moreover have "results_kept s (snd (settle_row run_id final now s))"
    by (simp add: results_kept_def frame_simps)
  ultimately have "results_kept s (settle_result run_id final (fst (settle_row run_id final now s))
                     (snd (settle_row run_id final now s)))"
    using results_kept_trans by blast
  with settle_decompose [OF Some, of run_id uuid now s] show ?thesis by auto
qed

lemma settle_no_new_active:
  assumes "is_terminal_run_status (se_status input)"
  shows "no_new_active s (snd (settle run_id input uuid now s))"
proof (cases "wire_settlement input")
  case None
  then show ?thesis by (simp add: settle_fail)
next
  case (Some final)
  with assms have "is_terminal_run_status (se_status final)" by (simp add: wire_settlement_status)
  with settle_decompose [OF Some, of run_id uuid now s] show ?thesis
    by (auto simp: no_new_active_def frame_simps settle_row_get settled_run_def split: option.splits if_splits)
qed

lemma store_inv_set_run:
  "store_inv s \<Longrightarrow> r_run_id r = i \<Longrightarrow> store_inv (s\<lparr>ms_runs := jm_set i r (ms_runs s)\<rparr>)"
  by (auto simp: store_inv_def inv_defs jm_keys_set intro!: wf_intro)

lemma store_inv_set_result:
  "store_inv s \<Longrightarrow> i \<in> fst ` set (ms_runs s) \<Longrightarrow>
     store_inv (s\<lparr>ms_run_results := jm_set i x (ms_run_results s)\<rparr>)"
  by (simp add: store_inv_def inv_defs beside_set)

lemma store_inv_set_kwargs:
  "store_inv s \<Longrightarrow> i \<in> fst ` set (ms_runs s) \<Longrightarrow>
     store_inv (s\<lparr>ms_run_kwargs := jm_set i x (ms_run_kwargs s)\<rparr>)"
  by (simp add: store_inv_def inv_defs beside_set)

lemma store_inv_run_id: "store_inv s \<Longrightarrow> map_of (ms_runs s) i = Some r \<Longrightarrow> r_run_id r = i"
  by (auto simp: store_inv_def run_inv_def dest: keyed_by_get)

lemma get_in_keys: "map_of m i = Some v \<Longrightarrow> i \<in> fst ` set m"
  by (force dest: map_of_SomeD)

lemma store_inv_run_wf: "store_inv s \<Longrightarrow> jm_wf (ms_runs s)"
  by (simp add: store_inv_def run_inv_def keyed_by_def)

lemma settle_store_inv: "store_inv s \<Longrightarrow> store_inv (snd (settle run_id input uuid now s))"
proof (cases "wire_settlement input")
  case None
  then show "store_inv s \<Longrightarrow> ?thesis" by (simp add: settle_fail)
next
  case (Some final)
  assume inv: "store_inv s"
  have row: "store_inv (snd (settle_row run_id final now s))"
    using inv store_inv_run_id [OF inv]
    by (auto simp: settle_row_def Let_def settled_run_def intro!: store_inv_set_run split: option.split)
  have "store_inv (settle_result run_id final row s1)"
    if "store_inv s1" "row = map_of (ms_runs s1) run_id" for row s1
    using that by (auto simp: settle_result_def intro!: store_inv_set_result get_in_keys split: option.split)
  with row settle_row_fst
  have "store_inv (settle_result run_id final (fst (settle_row run_id final now s))
          (snd (settle_row run_id final now s)))"
    by blast
  moreover have "keyed_by dl_delivery_id (ms_deliveries s)"
    using inv by (simp add: store_inv_def ledger_inv_def)
  ultimately show ?thesis
    using settle_decompose [OF Some, of run_id uuid now s] by (auto intro: store_inv_deliveries)
qed

section \<open>Creating runs\<close>

definition new_run :: "run_create \<Rightarrow> ident \<Rightarrow> instant \<Rightarrow> run" where
  "new_run input uuid now =
     \<lparr>r_run_id = or_default (rc_run_id input) uuid, r_thread_id = rc_thread_id input,
      r_assistant_id = rc_assistant_id input, r_created_at = now, r_updated_at = now,
      r_status = or_default (rc_status input) Pending,
      r_metadata = or_default (rc_metadata input) (JObj []),
      r_multitask_strategy = rc_multitask_strategy input, r_error = None\<rparr>"

lemma new_run_simps [simp]:
  "r_run_id (new_run input uuid now) = or_default (rc_run_id input) uuid"
  "r_thread_id (new_run input uuid now) = rc_thread_id input"
  "r_status (new_run input uuid now) = or_default (rc_status input) Pending"
  "r_created_at (new_run input uuid now) = now"
  by (simp_all add: new_run_def)

definition with_new_run :: "run_create \<Rightarrow> ident \<Rightarrow> instant \<Rightarrow> mem_store \<Rightarrow> mem_store" where
  "with_new_run input uuid now s =
     s\<lparr>ms_runs := jm_set (r_run_id (new_run input uuid now)) (new_run input uuid now) (ms_runs s),
       ms_run_kwargs :=
         (case rc_kwargs input of
            None \<Rightarrow> ms_run_kwargs s
          | Some k \<Rightarrow> jm_set (r_run_id (new_run input uuid now)) k (ms_run_kwargs s))\<rparr>"

lemma create_run_eq:
  "create_run input uuid now s =
     (if jm_has (ms_runs s) (or_default (rc_run_id input) uuid) then (Inl (conflict None), s)
      else (Inr (new_run input uuid now), with_new_run input uuid now s))"
  by (auto simp: create_run_def new_run_def with_new_run_def Let_def split: option.split)

lemma with_new_run_frame [frame_simps]:
  "ms_runs (with_new_run input uuid now s) =
     jm_set (or_default (rc_run_id input) uuid) (new_run input uuid now) (ms_runs s)"
  "ms_run_results (with_new_run input uuid now s) = ms_run_results s"
  "ms_threads (with_new_run input uuid now s) = ms_threads s"
  "ms_dispatches (with_new_run input uuid now s) = ms_dispatches s"
  "ms_admitted_run_ids (with_new_run input uuid now s) = ms_admitted_run_ids s"
  "ms_resume_reservations (with_new_run input uuid now s) = ms_resume_reservations s"
  "ms_idempotency (with_new_run input uuid now s) = ms_idempotency s"
  "ms_deliveries (with_new_run input uuid now s) = ms_deliveries s"
  by (simp_all add: with_new_run_def)

lemma with_new_run_inv: "store_inv s \<Longrightarrow> store_inv (with_new_run input uuid now s)"
proof -
  assume inv: "store_inv s"
  let ?r = "new_run input uuid now"
  have rows: "store_inv (s\<lparr>ms_runs := jm_set (r_run_id ?r) ?r (ms_runs s)\<rparr>)"
    using inv by (intro store_inv_set_run) simp_all
  show ?thesis
  proof (cases "rc_kwargs input")
    case None
    with rows show ?thesis by (simp add: with_new_run_def)
  next
    case (Some k)
    have "store_inv (s\<lparr>ms_runs := jm_set (r_run_id ?r) ?r (ms_runs s)\<rparr>
            \<lparr>ms_run_kwargs := jm_set (r_run_id ?r) k
               (ms_run_kwargs (s\<lparr>ms_runs := jm_set (r_run_id ?r) ?r (ms_runs s)\<rparr>))\<rparr>)"
      by (rule store_inv_set_kwargs [OF rows]) (simp add: jm_keys_set)
    with Some show ?thesis by (simp add: with_new_run_def)
  qed
qed

lemma create_run_store_inv: "store_inv s \<Longrightarrow> store_inv (snd (create_run input uuid now s))"
  by (simp add: create_run_eq with_new_run_inv)

lemma create_run_kept:
  "terminal_kept s (snd (create_run input uuid now s))"
  "results_kept s (snd (create_run input uuid now s))"
  by (auto simp: create_run_eq terminal_kept_def results_kept_def frame_simps jm_get_set jm_has_iff)

lemma create_if_thread_idle_cases:
  "snd (create_if_thread_idle input uuid now s) = s \<or>
   snd (create_if_thread_idle input uuid now s) = snd (create_run input uuid now s) \<and>
     \<not> has_active_run (rc_thread_id input) s"
  by (auto simp: create_if_thread_idle_def has_active_run_def split: prod.splits sum.splits)

lemma create_if_thread_matches_cases:
  "snd (create_if_thread_matches input guard uuid now s) = s \<or>
   snd (create_if_thread_matches input guard uuid now s) = snd (create_run input uuid now s) \<and>
     (rg_require_no_active_run guard \<longrightarrow> \<not> has_active_run (rc_thread_id input) s)"
  by (auto simp: create_if_thread_matches_def has_active_run_def split: prod.splits sum.splits option.splits)

lemma with_new_run_single_active:
  assumes inv: "run_inv s" and single: "single_active s" and idle: "\<not> has_active_run (rc_thread_id input) s"
  shows "single_active (with_new_run input uuid now s)"
proof -
  have none: "\<not> is_active_on (rc_thread_id input) r" if "map_of (ms_runs s) i = Some r" for i r
    using that idle has_active_run_iff [OF inv] by blast
  show ?thesis
    unfolding single_active_def
  proof (intro allI impI, elim conjE)
    fix i j r r'
    assume rows: "map_of (ms_runs (with_new_run input uuid now s)) i = Some r"
      "map_of (ms_runs (with_new_run input uuid now s)) j = Some r'"
      and act: "is_active_on (r_thread_id r') r" "is_active_on (r_thread_id r') r'"
    let ?new = "or_default (rc_run_id input) uuid"
    consider "i = ?new" "j = ?new" | "i = ?new" "j \<noteq> ?new" | "i \<noteq> ?new" "j = ?new"
      | "i \<noteq> ?new" "j \<noteq> ?new" by blast
    then show "i = j"
    proof cases
      case 2
      with rows have "map_of (ms_runs s) j = Some r'" "r = new_run input uuid now"
        by (simp_all add: frame_simps jm_get_set)
      with act none [of j r'] show ?thesis by (auto simp: is_active_on_def)
    next
      case 3
      with rows have "map_of (ms_runs s) i = Some r" "r' = new_run input uuid now"
        by (simp_all add: frame_simps jm_get_set)
      with act none [of i r] show ?thesis by (auto simp: is_active_on_def)
    next
      case 4
      with rows act single show ?thesis
        unfolding single_active_def by (simp add: frame_simps jm_get_set)
    qed simp
  qed
qed

lemma create_run_single_active:
  "run_inv s \<Longrightarrow> single_active s \<Longrightarrow> \<not> has_active_run (rc_thread_id input) s \<Longrightarrow>
     single_active (snd (create_run input uuid now s))"
  by (simp add: create_run_eq with_new_run_single_active)

section \<open>The other writes\<close>

lemma set_status_store_inv: "store_inv s \<Longrightarrow> store_inv (snd (set_status i st err now s))"
  using store_inv_run_id [of s i]
  by (auto simp: set_status_def Let_def intro!: store_inv_set_run split: option.split)

lemma set_status_no_new_active:
  assumes "is_terminal_run_status st \<or>
           (\<exists>r. map_of (ms_runs s) i = Some r \<and> \<not> is_terminal_run_status (r_status r))"
  shows "no_new_active s (snd (set_status i st err now s))"
  using assms
  by (auto simp: set_status_def Let_def no_new_active_def jm_get_set split: option.split if_splits)

lemma set_status_results_kept: "results_kept s (snd (set_status i st err now s))"
  by (auto simp: set_status_def Let_def results_kept_def split: option.split)

lemma finalize_store_inv:
  assumes inv: "store_inv s"
  shows "store_inv (snd (finalize_with_delivery i st err input uuid now s))"
proof -
  have ins: "store_inv (snd (insert_delivery i st' input True uuid now s'))" if "store_inv s'" for st' s'
  proof -
    obtain m where "snd (insert_delivery i st' input True uuid now s') = s'\<lparr>ms_deliveries := m\<rparr>"
      "keyed_by dl_delivery_id (ms_deliveries s') \<longrightarrow> keyed_by dl_delivery_id m"
      using insert_delivery_only by blast
    with that show ?thesis
      by (auto simp: store_inv_def ledger_inv_def intro: store_inv_deliveries [unfolded store_inv_def])
         (simp_all add: inv_defs)
  qed
  have upd: "store_inv (s\<lparr>ms_runs := jm_set i (r\<lparr>r_status := st, r_updated_at := now, r_error := err\<rparr>) (ms_runs s)\<rparr>)"
    if "map_of (ms_runs s) i = Some r" for r
    using store_inv_run_id [OF inv that] by (intro store_inv_set_run [OF inv]) simp
  show ?thesis
    using ins inv upd
    by (auto simp: finalize_with_delivery_def Let_def split: option.split prod.split) (metis snd_conv)+
qed

lemma finalize_runs:
  "ms_runs (snd (finalize_with_delivery i st err input uuid now s)) =
     (case map_of (ms_runs s) i of
        None \<Rightarrow> ms_runs s
      | Some r \<Rightarrow> if is_terminal_run_status (r_status r) then ms_runs s
                  else jm_set i (r\<lparr>r_status := st, r_updated_at := now, r_error := err\<rparr>) (ms_runs s))"
  "ms_run_results (snd (finalize_with_delivery i st err input uuid now s)) = ms_run_results s"
  by (auto simp: finalize_with_delivery_def insert_delivery_def Let_def split: option.split)

lemma finalize_kept:
  "terminal_kept s (snd (finalize_with_delivery i st err input uuid now s))"
  "results_kept s (snd (finalize_with_delivery i st err input uuid now s))"
  "is_terminal_run_status st \<Longrightarrow> no_new_active s (snd (finalize_with_delivery i st err input uuid now s))"
  by (auto simp: terminal_kept_def results_kept_def no_new_active_def finalize_runs jm_get_set
      split: option.split option.splits if_splits)

lemma record_result_kept:
  "terminal_kept s (snd (record_result i res s))"
  "results_kept s (snd (record_result i res s))"
  "no_new_active s (snd (record_result i res s))"
  "store_inv s \<Longrightarrow> store_inv (snd (record_result i res s))"
  by (auto simp: record_result_def terminal_kept_def results_kept_def no_new_active_def jm_get_set
      jm_has_iff intro!: store_inv_set_result get_in_keys split: option.split)

lemma record_base_checkpoint_kept:
  "terminal_kept s (record_base_checkpoint i base s)"
  "results_kept s (record_base_checkpoint i base s)"
  "no_new_active s (record_base_checkpoint i base s)"
  "store_inv s \<Longrightarrow> store_inv (record_base_checkpoint i base s)"
  by (auto simp: record_base_checkpoint_def terminal_kept_def results_kept_def no_new_active_def
      jm_has_dom intro!: store_inv_set_kwargs)

lemma forget_admission_inv_pieces:
  "jm_wf (ms_resume_reservations s) \<Longrightarrow> jm_wf (ms_resume_reservations (forget_admission i s))"
  by (simp add: forget_admission_def jm_wf_filter)

lemma run_delete_store_inv: "store_inv s \<Longrightarrow> store_inv (run_delete i s)"
  unfolding run_delete_def store_inv_def inv_defs
  by (simp add: frame_simps forget_admission_inv_pieces jm_keys_delete keyed_by_delete
      beside_delete_both Let_def) auto

lemma run_delete_no_new_active: "no_new_active s (run_delete i s)"
  by (auto simp: run_delete_def no_new_active_def frame_simps jm_get_delete split: if_splits)

end
