(* ===== verification/StoreAdmission.thy ===== *)
theory StoreAdmission
  imports StoreRuns JsonText
begin

text \<open>
  The \<^verbatim>\<open>admission\<close> repository of \<^verbatim>\<open>memory-skein-store.ts\<close>: one mutation accepts a run (or a
  cancel), displaces the runs it replaces, records what must be dispatched to the queue, and stores
  the receipt under the caller's idempotency key.

  \<^verbatim>\<open>input.signal\<close> is the flag it has during the call: nothing suspends inside, so both
  \<^verbatim>\<open>throwIfAborted\<close> see the same one. \<open>fresh\<close> gives the ids \<^verbatim>\<open>randomUUID\<close> returns: \<open>fresh 0\<close>
  for the run, \<open>fresh 1\<close> for the record's claim, the later ones for deliveries and tokens.
\<close>

section \<open>Inputs\<close>

record admission_key =
  ak_scope :: string
  ak_key :: string
  ak_fingerprint :: string
  ak_now :: instant
  ak_expires_at :: instant

record run_admission = admission_key +
  ra_aborted :: bool
  ra_run :: run_create
  ra_guard :: run_create_guard
  ra_expected_run_id :: "ident option"
  ra_displacements :: "(ident \<times> run_settlement) list"

record cancel_admission = admission_key +
  cl_run_id :: ident
  cl_action :: "cancel_action option"
  cl_delivery :: "delivery_create option"

text \<open>\<^verbatim>\<open>if (id)\<close>: an empty string counts as absent.\<close>

definition truthy_id :: "ident option \<Rightarrow> ident option" where
  "truthy_id x = (case x of None \<Rightarrow> None | Some i \<Rightarrow> if i = [] then None else Some i)"

section \<open>Receipts\<close>

definition receipt_of :: "string \<Rightarrow> ident \<Rightarrow> ident \<Rightarrow> admission_receipt" where
  "receipt_of key run_id thread_id =
     \<lparr>ar_idempotency_key = key, ar_run_id = run_id, ar_thread_id = thread_id\<rparr>"

definition replay_admission ::
  "('a admission_key_scheme) \<Rightarrow> mem_store \<Rightarrow> thrown + admission_receipt option" where
  "replay_admission input s =
     (case jm_get (ms_idempotency s) (idempotency_key (ak_scope input) (ak_key input)) of
        None \<Rightarrow> Inr None
      | Some rec \<Rightarrow>
          if ir_expires_at rec \<le> ak_now input then Inr None
          else if ir_fingerprint rec \<noteq> ak_fingerprint input
          then Inl (conflict (Some ''idempotency_key_reused''))
          else (case (truthy_id (ir_run_id rec), truthy_id (ir_thread_id rec)) of
                  (Some r, Some t) \<Rightarrow> Inr (Some (receipt_of (ak_key input) r t))
                | _ \<Rightarrow> Inl (conflict (Some ''idempotency_key_in_flight''))))"

definition receipt_json :: "admission_receipt \<Rightarrow> jsval" where
  "receipt_json receipt =
     JObj [(''idempotencyKey'', JStr (ar_idempotency_key receipt)), (''runId'', JStr (ar_run_id receipt)),
           (''threadId'', JStr (ar_thread_id receipt))]"

definition record_admission ::
  "('a admission_key_scheme) \<Rightarrow> run \<Rightarrow> ident \<Rightarrow> mem_store \<Rightarrow> admission_receipt \<times> mem_store" where
  "record_admission input r claim_id s =
     (let receipt = receipt_of (ak_key input) (r_run_id r) (r_thread_id r)
      in (receipt,
          s\<lparr>ms_idempotency :=
              jm_set (idempotency_key (ak_scope input) (ak_key input))
                \<lparr>ir_key = ak_key input, ir_scope = ak_scope input, ir_fingerprint = ak_fingerprint input,
                 ir_claim_id = claim_id, ir_status = Done,
                 ir_response = Some \<lparr>rs_status = 202, rs_body = receipt_json receipt, rs_headers = None\<rparr>,
                 ir_run_id = Some (r_run_id r), ir_thread_id = Some (r_thread_id r),
                 ir_created_at = ak_now input, ir_updated_at = ak_now input,
                 ir_expires_at = ak_expires_at input\<rparr>
                (ms_idempotency s)\<rparr>))"

section \<open>Dispatch intents\<close>

text \<open>\<^verbatim>\<open>Set.add\<close>\<close>

definition set_add :: "'a \<Rightarrow> 'a list \<Rightarrow> 'a list" where
  "set_add x xs = (if x \<in> set xs then xs else xs @ [x])"

definition dispatch_run ::
  "run \<Rightarrow> dispatch_kind \<Rightarrow> cancel_action option \<Rightarrow> instant \<Rightarrow> mem_store \<Rightarrow> mem_store" where
  "dispatch_run r kind action now s =
     s\<lparr>ms_admitted_run_ids := set_add (r_run_id r) (ms_admitted_run_ids s),
       ms_dispatches :=
         jm_set (r_run_id r)
           \<lparr>dp_run_id = r_run_id r, dp_thread_id = r_thread_id r, dp_token = [], dp_kind = kind,
            dp_not_before =
              (case kind of
                 DispatchRun \<Rightarrow>
                   (case jm_get (ms_run_kwargs s) (r_run_id r) of
                      None \<Rightarrow> now
                    | Some k \<Rightarrow> or_default (kw_queue_not_before k) now)
               | DispatchCancel \<Rightarrow> now),
            dp_action = action, dp_lease_until = None, dp_dispatched = False\<rparr>
           (ms_dispatches s)\<rparr>"

section \<open>Admitting a run\<close>

definition active_runs_on :: "ident \<Rightarrow> mem_store \<Rightarrow> run list" where
  "active_runs_on thread_id s = filter (is_active_on thread_id) (jm_values (ms_runs s))"

text \<open>The active runs are exactly as many as the displaced ones, and each is among them.\<close>

definition displacements_current :: "(ident \<times> run_settlement) list \<Rightarrow> run list \<Rightarrow> bool" where
  "displacements_current displaced active \<longleftrightarrow>
     length active = length displaced \<and>
     list_all (\<lambda>r. list_ex (\<lambda>item. fst item = r_run_id r) displaced) active"

text \<open>The check of a resume target; a reservation whose run is gone is dropped on the way.\<close>

definition check_resume :: "ident option \<Rightarrow> ident \<Rightarrow> mem_store \<Rightarrow> unit outcome" where
  "check_resume expected_id thread_id s =
     (case truthy_id expected_id of
        None \<Rightarrow> (Inr (), s)
      | Some e \<Rightarrow>
          let s1 = (case truthy_id (jm_get (ms_resume_reservations s) e) of
                      None \<Rightarrow> s
                    | Some reservation \<Rightarrow>
                        if jm_has (ms_runs s) reservation then s
                        else s\<lparr>ms_resume_reservations := jm_delete e (ms_resume_reservations s)\<rparr>);
              ok = (case jm_get (ms_runs s) e of
                      None \<Rightarrow> False
                    | Some r \<Rightarrow> r_thread_id r = thread_id \<and> r_status r = Interrupted \<and>
                                \<not> jm_has (ms_resume_reservations s1) e)
          in (if ok then Inr () else Inl (conflict (Some ''stale_resume'')), s1))"

text \<open>The loop that settles each displaced run and records its cancel intent.\<close>

fun settle_displaced ::
  "cancel_action \<Rightarrow> (nat \<Rightarrow> ident) \<Rightarrow> nat \<Rightarrow> instant \<Rightarrow> (ident \<times> run_settlement) list \<Rightarrow>
     mem_store \<Rightarrow> unit outcome" where
  "settle_displaced action fresh n now [] s = (Inr (), s)"
| "settle_displaced action fresh n now ((run_id, settlement) # rest) s =
     (case settle run_id settlement (fresh n) now s of
        (Inl e, s1) \<Rightarrow> (Inl e, s1)
      | (Inr (None, _), s1) \<Rightarrow> settle_displaced action fresh (Suc n) now rest s1
      | (Inr (Some r, _), s1) \<Rightarrow>
          settle_displaced action fresh (Suc n) now rest
            (dispatch_run r DispatchCancel (Some action) now s1))"

definition settlement_serializes :: "run_settlement \<Rightarrow> bool" where
  "settlement_serializes settlement \<longleftrightarrow>
     wire_maybe wire_run_result (se_result settlement) \<noteq> None \<and>
     wire_maybe wire_delivery_create (se_delivery settlement) \<noteq> None"

text \<open>Everything that can refuse the admission, in the code's order; \<open>Inr\<close> is what it goes on with.\<close>

definition admit_checks ::
  "run_admission \<Rightarrow> mem_store \<Rightarrow> (run_create \<times> (ident \<times> run_settlement) list) outcome" where
  "admit_checks input s =
     (case wire_run_create (ra_run input) of
        None \<Rightarrow> (Inl SerializationError, s)
      | Some prepared \<Rightarrow>
          if (case truthy_id (rc_run_id prepared) of None \<Rightarrow> False | Some i \<Rightarrow> jm_has (ms_runs s) i)
          then (Inl (conflict None), s)
          else (case jm_get (ms_threads s) (rc_thread_id prepared) of
            None \<Rightarrow> (Inl not_found, s)
          | Some t \<Rightarrow>
              if \<not> unconstrained (rg_thread_status_in (ra_guard input)) (\<lambda>sts. t_status t \<in> set sts)
              then (Inl (conflict (Some ''thread_status_mismatch'')), s)
              else (case wire_displacements (ra_displacements input) of
                None \<Rightarrow> (Inl SerializationError, s)
              | Some displaced \<Rightarrow>
                  if displaced \<noteq> [] \<and>
                     \<not> displacements_current displaced (active_runs_on (t_thread_id t) s)
                  then (Inl (conflict (Some ''thread_busy'')), s)
                  else if rg_require_no_active_run (ra_guard input) \<and> active_runs_on (t_thread_id t) s \<noteq> []
                  then (Inl (conflict (Some ''thread_busy'')), s)
                  else (case check_resume (ra_expected_run_id input) (t_thread_id t) s of
                    (Inl e, s1) \<Rightarrow> (Inl e, s1)
                  | (Inr _, s1) \<Rightarrow>
                      if \<not> list_all (\<lambda>item. settlement_serializes (snd item)) displaced
                      then (Inl SerializationError, s1)
                      else if ra_aborted input then (Inl Aborted, s1)
                      else (Inr (prepared, displaced), s1)))))"

definition displace_action :: "run_create \<Rightarrow> cancel_action" where
  "displace_action prepared =
     (if rc_multitask_strategy prepared = Some MRollback then ActionRollback else ActionInterrupt)"

text \<open>The committing half: settle, create, reserve, dispatch, record.\<close>

definition admit_commit ::
  "run_admission \<Rightarrow> run_create \<Rightarrow> (ident \<times> run_settlement) list \<Rightarrow> (nat \<Rightarrow> ident) \<Rightarrow> instant \<Rightarrow>
     mem_store \<Rightarrow> admission_receipt outcome" where
  "admit_commit input prepared displaced fresh now s =
     (case settle_displaced (displace_action prepared) fresh 2 now displaced s of
        (Inl e, s1) \<Rightarrow> (Inl e, s1)
      | (Inr _, s1) \<Rightarrow>
          (case create_run prepared (fresh 0) now s1 of
             (Inl e, s2) \<Rightarrow> (Inl e, s2)
           | (Inr r, s2) \<Rightarrow>
               let s3 = (case truthy_id (ra_expected_run_id input) of
                           None \<Rightarrow> s2
                         | Some e \<Rightarrow>
                             s2\<lparr>ms_resume_reservations :=
                                  jm_set e (r_run_id r) (ms_resume_reservations s2)\<rparr>);
                   s4 = dispatch_run r DispatchRun None now s3;
                   (receipt, s5) = record_admission input r (fresh 1) s4
               in (Inr receipt, s5)))"

definition admit_run ::
  "run_admission \<Rightarrow> (nat \<Rightarrow> ident) \<Rightarrow> instant \<Rightarrow> mem_store \<Rightarrow> admission_receipt outcome" where
  "admit_run input fresh now s =
     (if ra_aborted input then (Inl Aborted, s)
      else (case replay_admission input s of
              Inl e \<Rightarrow> (Inl e, s)
            | Inr (Some receipt) \<Rightarrow> (Inr receipt, s)
            | Inr None \<Rightarrow>
                (case admit_checks input s of
                   (Inl e, s1) \<Rightarrow> (Inl e, s1)
                 | (Inr (prepared, displaced), s1) \<Rightarrow> admit_commit input prepared displaced fresh now s1)))"

section \<open>Admitting a cancel\<close>

definition admit_cancel ::
  "cancel_admission \<Rightarrow> (nat \<Rightarrow> ident) \<Rightarrow> instant \<Rightarrow> mem_store \<Rightarrow> admission_receipt outcome" where
  "admit_cancel input fresh now s =
     (case replay_admission input s of
        Inl e \<Rightarrow> (Inl e, s)
      | Inr (Some receipt) \<Rightarrow> (Inr receipt, s)
      | Inr None \<Rightarrow>
          (case jm_get (ms_runs s) (cl_run_id input) of
             None \<Rightarrow> (Inl not_found, s)
           | Some existing \<Rightarrow>
               if wire_maybe wire_delivery_create (cl_delivery input) = None
               then (Inl SerializationError, s)
               else if is_terminal_run_status (r_status existing)
               then (let (receipt, s') = record_admission input existing (fresh 1) s in (Inr receipt, s'))
               else (case settle (cl_run_id input)
                            \<lparr>se_status = Cancelled, se_error = None, se_result = None,
                             se_delivery = cl_delivery input\<rparr> (fresh 2) now s of
                       (Inr (Some r, _), s1) \<Rightarrow>
                         let (receipt, s') =
                               record_admission input r (fresh 1)
                                 (dispatch_run r DispatchCancel (cl_action input) now s1)
                         in (Inr receipt, s')
                     | (Inr (None, _), s1) \<Rightarrow> (Inl not_found, s1)
                     | (Inl e, s1) \<Rightarrow> (Inl e, s1))))"

section \<open>Handing out the intents\<close>

text \<open>
  The loop over the intents, with the in-place updates of the ones it leases: the claims, and the
  entries left in the map. Once the bound is reached the rest stays untouched.
\<close>

fun claim_intents ::
  "instant \<Rightarrow> instant \<Rightarrow> nat \<Rightarrow> (nat \<Rightarrow> ident) \<Rightarrow> (ident, run) jsmap \<Rightarrow> nat \<Rightarrow>
     (ident, dispatch) jsmap \<Rightarrow> dispatch list \<times> (ident, dispatch) jsmap" where
  "claim_intents now lease cap fresh runs n [] = ([], [])"
| "claim_intents now lease cap fresh runs n ((run_id, intent) # rest) =
     (case jm_get runs run_id of
        None \<Rightarrow> claim_intents now lease cap fresh runs n rest
      | Some r \<Rightarrow>
          if dp_kind intent = DispatchRun \<and> is_terminal_run_status (r_status r) \<or>
             dp_kind intent = DispatchCancel \<and> dp_dispatched intent
          then claim_intents now lease cap fresh runs n rest
          else if (case dp_lease_until intent of None \<Rightarrow> False | Some l \<Rightarrow> now < l)
          then (let (claims, kept) = claim_intents now lease cap fresh runs n rest
                in (claims, (run_id, intent) # kept))
          else if cap \<le> n then ([], (run_id, intent) # rest)
          else
            let intent' = intent\<lparr>dp_token := fresh n, dp_lease_until := Some lease\<rparr>;
                (claims, kept) = claim_intents now lease cap fresh runs (Suc n) rest
            in (intent' # claims, (run_id, intent') # kept))"

definition claim_dispatches ::
  "instant \<Rightarrow> instant \<Rightarrow> nat option \<Rightarrow> (nat \<Rightarrow> ident) \<Rightarrow> mem_store \<Rightarrow> dispatch list \<times> mem_store" where
  "claim_dispatches now lease limit fresh s =
     (let (claims, kept) = claim_intents now lease (max 1 (min (page_limit s limit) 1000)) fresh
                             (ms_runs s) 0 (ms_dispatches s)
      in (claims, s\<lparr>ms_dispatches := kept\<rparr>))"

definition mark_dispatched :: "ident \<Rightarrow> string \<Rightarrow> mem_store \<Rightarrow> mem_store" where
  "mark_dispatched run_id token s =
     (case jm_get (ms_dispatches s) run_id of
        None \<Rightarrow> s
      | Some intent \<Rightarrow>
          if dp_token intent = token
          then s\<lparr>ms_dispatches := jm_set run_id (intent\<lparr>dp_dispatched := True\<rparr>) (ms_dispatches s)\<rparr>
          else s)"

section \<open>Frames\<close>

lemma settle_only:
  "\<exists>a b c. snd (settle run_id input uuid now s) =
     s\<lparr>ms_runs := a, ms_run_results := b, ms_deliveries := c\<rparr>"
proof (cases "wire_settlement input")
  case None
  have "s = s\<lparr>ms_runs := ms_runs s, ms_run_results := ms_run_results s, ms_deliveries := ms_deliveries s\<rparr>"
    by simp
  with None show ?thesis unfolding settle_fail [OF None] by (metis snd_conv)
next
  case (Some final)
  let ?row = "settle_row run_id final now s"
  let ?res = "settle_result run_id final (fst ?row)"
  have row: "snd ?row = s\<lparr>ms_runs := ms_runs (snd ?row)\<rparr>"
    by (auto simp: settle_row_def Let_def split: option.split)
  have res: "?res s1 = s1\<lparr>ms_run_results := ms_run_results (?res s1)\<rparr>" for s1
    by (auto simp: settle_result_def split: option.split)
  from settle_decompose [OF Some, of run_id uuid now s] obtain m where
    "snd (settle run_id input uuid now s) = (?res (snd ?row))\<lparr>ms_deliveries := m\<rparr>" by auto
  also have "\<dots> = (snd ?row)\<lparr>ms_run_results := ms_run_results (?res (snd ?row)), ms_deliveries := m\<rparr>"
    by (rule arg_cong [OF res, of "\<lambda>x. x\<lparr>ms_deliveries := m\<rparr>"])
  also have "\<dots> = s\<lparr>ms_runs := ms_runs (snd ?row), ms_run_results := ms_run_results (?res (snd ?row)),
                      ms_deliveries := m\<rparr>"
    by (rule arg_cong [OF row, of "\<lambda>x. x\<lparr>ms_run_results := ms_run_results (?res (snd ?row)), ms_deliveries := m\<rparr>"])
  finally show ?thesis by blast
qed

lemma settle_frame [frame_simps]:
  "ms_threads (snd (settle i input uuid now s)) = ms_threads s"
  "ms_idempotency (snd (settle i input uuid now s)) = ms_idempotency s"
  "ms_dispatches (snd (settle i input uuid now s)) = ms_dispatches s"
  "ms_admitted_run_ids (snd (settle i input uuid now s)) = ms_admitted_run_ids s"
  "ms_resume_reservations (snd (settle i input uuid now s)) = ms_resume_reservations s"
  "ms_run_kwargs (snd (settle i input uuid now s)) = ms_run_kwargs s"
  "ms_max_page_size (snd (settle i input uuid now s)) = ms_max_page_size s"
  using settle_only [of i input uuid now s] by auto

lemma dispatch_run_frame [frame_simps]:
  "ms_runs (dispatch_run r k a now s) = ms_runs s"
  "ms_run_results (dispatch_run r k a now s) = ms_run_results s"
  "ms_run_kwargs (dispatch_run r k a now s) = ms_run_kwargs s"
  "ms_threads (dispatch_run r k a now s) = ms_threads s"
  "ms_idempotency (dispatch_run r k a now s) = ms_idempotency s"
  "ms_deliveries (dispatch_run r k a now s) = ms_deliveries s"
  "ms_resume_reservations (dispatch_run r k a now s) = ms_resume_reservations s"
  by (simp_all add: dispatch_run_def)

lemma record_admission_frame [frame_simps]:
  "ms_runs (snd (record_admission input r c s)) = ms_runs s"
  "ms_run_results (snd (record_admission input r c s)) = ms_run_results s"
  "ms_run_kwargs (snd (record_admission input r c s)) = ms_run_kwargs s"
  "ms_threads (snd (record_admission input r c s)) = ms_threads s"
  "ms_dispatches (snd (record_admission input r c s)) = ms_dispatches s"
  "ms_admitted_run_ids (snd (record_admission input r c s)) = ms_admitted_run_ids s"
  "ms_resume_reservations (snd (record_admission input r c s)) = ms_resume_reservations s"
  "ms_deliveries (snd (record_admission input r c s)) = ms_deliveries s"
  by (simp_all add: record_admission_def Let_def)

lemma settle_keys: "fst ` set (ms_runs (snd (settle i input uuid now s))) = fst ` set (ms_runs s)"
proof (cases "wire_settlement input")
  case None
  then show ?thesis by (simp add: settle_fail)
next
  case (Some final)
  have "fst ` set (ms_runs (snd (settle_row i final now s))) = fst ` set (ms_runs s)"
    by (auto simp: settle_row_def Let_def jm_keys_set get_in_keys split: option.split dest: get_in_keys)
  moreover obtain m d where "settle i input uuid now s =
      (Inr (fst (settle_row i final now s), d),
       (settle_result i final (fst (settle_row i final now s)) (snd (settle_row i final now s)))
         \<lparr>ms_deliveries := m\<rparr>)"
    using settle_decompose [OF Some, of i uuid now s] by blast
  ultimately show ?thesis by (simp add: frame_simps)
qed

section \<open>The displacement loop\<close>

lemma settle_ok:
  "wire_settlement input = Some final \<Longrightarrow>
     \<exists>d. fst (settle i input uuid now s) = Inr (map_of (ms_runs (snd (settle i input uuid now s))) i, d)"
  using settle_decompose [of input final i uuid now s] by (auto simp: frame_simps settle_row_fst)

lemma settle_get:
  assumes "wire_settlement input = Some final"
  shows "map_of (ms_runs (snd (settle run_id input uuid now s))) i =
           (case map_of (ms_runs s) i of
              None \<Rightarrow> None
            | Some r \<Rightarrow> Some (if i = run_id \<and> \<not> is_terminal_run_status (r_status r)
                               then settled_run final now r else r))"
  using settle_decompose [OF assms, of run_id uuid now s] by (auto simp: frame_simps settle_row_get)

text \<open>What the loop does to the run table, as one function on rows.\<close>

lemma wire_displacements_fixed:
  "wire_displacements xs = Some ys \<Longrightarrow> list_all (\<lambda>item. wire_settlement (snd item) = Some (snd item)) ys"
  by (induction xs arbitrary: ys rule: wire_displacements.induct)
     (auto split: bind_splits dest: wire_settlement_again)

lemma wire_displacements_ids: "wire_displacements xs = Some ys \<Longrightarrow> map fst ys = map fst xs"
  by (induction xs arbitrary: ys rule: wire_displacements.induct) (auto split: bind_splits)

lemma wire_displacements_statuses:
  "wire_displacements xs = Some ys \<Longrightarrow> map (se_status \<circ> snd) ys = map (se_status \<circ> snd) xs"
  by (induction xs arbitrary: ys rule: wire_displacements.induct)
     (auto split: bind_splits dest: wire_settlement_status)

lemma wire_fixed_serializes: "wire_settlement x = Some x \<Longrightarrow> settlement_serializes x"
  by (auto simp: wire_settlement_def settlement_serializes_def split: bind_splits)

lemma settle_displaced_step:
  assumes "wire_settlement settlement = Some settlement"
  shows "\<exists>s1. settle_displaced action fresh n now ((i, settlement) # rest) s =
                settle_displaced action fresh (Suc n) now rest s1 \<and>
              (s1 = snd (settle i settlement (fresh n) now s) \<or>
               (\<exists>r. map_of (ms_runs s1) i = Some r \<and>
                  s1 = dispatch_run r DispatchCancel (Some action) now (snd (settle i settlement (fresh n) now s))))"
proof -
  obtain d s1 where st: "settle i settlement (fresh n) now s = (Inr (map_of (ms_runs s1) i, d), s1)"
    using settle_ok [OF assms, of i "fresh n" now s] by (metis prod.collapse)
  show ?thesis
    using st by (cases "map_of (ms_runs s1) i") (auto simp: frame_simps)
qed

text \<open>What each displaced run, and every other one, has become.\<close>

lemma settle_displaced_facts:
  assumes "list_all (\<lambda>item. wire_settlement (snd item) = Some (snd item)) ds"
  shows "fst (settle_displaced action fresh n now ds s) = Inr () \<and>
         fst ` set (ms_runs (snd (settle_displaced action fresh n now ds s))) = fst ` set (ms_runs s) \<and>
         ms_threads (snd (settle_displaced action fresh n now ds s)) = ms_threads s \<and>
         ms_idempotency (snd (settle_displaced action fresh n now ds s)) = ms_idempotency s \<and>
         ms_resume_reservations (snd (settle_displaced action fresh n now ds s)) = ms_resume_reservations s \<and>
         ms_run_kwargs (snd (settle_displaced action fresh n now ds s)) = ms_run_kwargs s \<and>
         terminal_kept s (snd (settle_displaced action fresh n now ds s)) \<and>
         results_kept s (snd (settle_displaced action fresh n now ds s)) \<and>
         (list_all (\<lambda>item. is_terminal_run_status (se_status (snd item))) ds \<longrightarrow>
            no_new_active s (snd (settle_displaced action fresh n now ds s)))"
  using assms
proof (induction ds arbitrary: n s)
  case Nil
  then show ?case by simp
next
  case (Cons item ds)
  obtain i settlement where item: "item = (i, settlement)" by fastforce
  have fixed: "wire_settlement settlement = Some settlement" using Cons.prems item by simp
  from settle_displaced_step [OF this, of action fresh n now i ds s] obtain s1 where
    step: "settle_displaced action fresh n now ((i, settlement) # ds) s =
             settle_displaced action fresh (Suc n) now ds s1"
    and s1: "s1 = snd (settle i settlement (fresh n) now s) \<or>
       (\<exists>r. s1 = dispatch_run r DispatchCancel (Some action) now (snd (settle i settlement (fresh n) now s)))"
    by blast
  have frame: "ms_runs s1 = ms_runs (snd (settle i settlement (fresh n) now s))"
    "ms_run_results s1 = ms_run_results (snd (settle i settlement (fresh n) now s))"
    "ms_threads s1 = ms_threads s" "ms_idempotency s1 = ms_idempotency s"
    "ms_resume_reservations s1 = ms_resume_reservations s" "ms_run_kwargs s1 = ms_run_kwargs s"
    using s1 by (auto simp: frame_simps)
  have kept: "terminal_kept s s1" "results_kept s s1"
    using settle_terminal_kept [of s i settlement "fresh n" now]
      settle_results_kept [of s i settlement "fresh n" now] frame
    by (simp_all add: terminal_kept_def results_kept_def)
  have act: "is_terminal_run_status (se_status settlement) \<Longrightarrow> no_new_active s s1"
    using settle_no_new_active [of settlement s i "fresh n" now] frame by (simp add: no_new_active_def)
  have keys: "fst ` set (ms_runs s1) = fst ` set (ms_runs s)"
    using frame settle_keys by simp
  show ?case
    using Cons.IH [of "Suc n" s1] Cons.prems frame(3-6) keys kept act
    unfolding item step
    by (auto intro: terminal_kept_trans results_kept_trans no_new_active_trans)
qed

lemma settle_displaced_terminal:
  assumes "list_all (\<lambda>item. wire_settlement (snd item) = Some (snd item)) ds"
    and "list_all (\<lambda>item. is_terminal_run_status (se_status (snd item))) ds"
    and "i \<in> fst ` set ds"
    and "map_of (ms_runs (snd (settle_displaced action fresh n now ds s))) i = Some r"
  shows "is_terminal_run_status (r_status r)"
  using assms
proof (induction ds arbitrary: n s)
  case Nil
  then show ?case by simp
next
  case (Cons item ds)
  obtain j settlement where item: "item = (j, settlement)" by fastforce
  have fixed: "wire_settlement settlement = Some settlement" using Cons.prems item by simp
  from settle_displaced_step [OF this, of action fresh n now j ds s] obtain s1 where
    step: "settle_displaced action fresh n now ((j, settlement) # ds) s =
             settle_displaced action fresh (Suc n) now ds s1"
    and s1: "s1 = snd (settle j settlement (fresh n) now s) \<or>
       (\<exists>r. s1 = dispatch_run r DispatchCancel (Some action) now (snd (settle j settlement (fresh n) now s)))"
    by blast
  show ?case
  proof (cases "i \<in> fst ` set ds")
    case True
    with Cons.IH [of "Suc n" s1] Cons.prems item step show ?thesis by auto
  next
    case False
    with Cons.prems item have "i = j" by auto
    have facts: "terminal_kept s1 (snd (settle_displaced action fresh (Suc n) now ds s1))"
      "fst ` set (ms_runs (snd (settle_displaced action fresh (Suc n) now ds s1))) = fst ` set (ms_runs s1)"
      using settle_displaced_facts [of ds action fresh "Suc n" now s1] Cons.prems by auto
    have "i \<in> fst ` set (ms_runs s1)"
      using Cons.prems(4) item step facts(2) get_in_keys by metis
    then obtain r1 where r1: "map_of (ms_runs s1) i = Some r1"
      by (metis jm_has_dom jm_has_iff)
    then have "map_of (ms_runs (snd (settle j settlement (fresh n) now s))) i = Some r1"
      using s1 by (auto simp: frame_simps)
    then have "is_terminal_run_status (r_status r1)"
      using settle_get [OF fixed, of j "fresh n" now s i] Cons.prems(2) item \<open>i = j\<close>
      by (auto simp: settled_run_def split: option.splits if_splits)
    then show ?thesis
      using facts(1) r1 Cons.prems(4) item step by (auto simp: terminal_kept_def)
  qed
qed

section \<open>The two halves of an admission\<close>

definition reserve :: "ident option \<Rightarrow> ident \<Rightarrow> mem_store \<Rightarrow> mem_store" where
  "reserve expected run_id s =
     (case truthy_id expected of
        None \<Rightarrow> s
      | Some e \<Rightarrow> s\<lparr>ms_resume_reservations := jm_set e run_id (ms_resume_reservations s)\<rparr>)"

lemma reserve_frame [frame_simps]:
  "ms_runs (reserve e i s) = ms_runs s"
  "ms_run_results (reserve e i s) = ms_run_results s"
  "ms_run_kwargs (reserve e i s) = ms_run_kwargs s"
  "ms_threads (reserve e i s) = ms_threads s"
  "ms_dispatches (reserve e i s) = ms_dispatches s"
  "ms_idempotency (reserve e i s) = ms_idempotency s"
  "ms_admitted_run_ids (reserve e i s) = ms_admitted_run_ids s"
  by (auto simp: reserve_def split: option.split)

text \<open>The store an admission commits.\<close>

definition committed ::
  "run_admission \<Rightarrow> run_create \<Rightarrow> (ident \<times> run_settlement) list \<Rightarrow> (nat \<Rightarrow> ident) \<Rightarrow> instant \<Rightarrow>
     mem_store \<Rightarrow> mem_store" where
  "committed input prepared displaced fresh now s =
     snd (record_admission input (new_run prepared (fresh 0) now) (fresh 1)
       (dispatch_run (new_run prepared (fresh 0) now) DispatchRun None now
         (reserve (ra_expected_run_id input) (or_default (rc_run_id prepared) (fresh 0))
           (with_new_run prepared (fresh 0) now
             (snd (settle_displaced (displace_action prepared) fresh 2 now displaced s))))))"

lemma admit_commit_eq:
  assumes "list_all (\<lambda>item. wire_settlement (snd item) = Some (snd item)) displaced"
    and "or_default (rc_run_id prepared) (fresh 0) \<notin> fst ` set (ms_runs s)"
  shows "admit_commit input prepared displaced fresh now s =
           (Inr (receipt_of (ak_key input) (or_default (rc_run_id prepared) (fresh 0)) (rc_thread_id prepared)),
            committed input prepared displaced fresh now s)"
proof -
  obtain s1 where loop: "settle_displaced (displace_action prepared) fresh 2 now displaced s = (Inr (), s1)"
    "fst ` set (ms_runs s1) = fst ` set (ms_runs s)"
    using settle_displaced_facts [OF assms(1), of "displace_action prepared" fresh 2 now s]
    by (metis prod.collapse)
  have "create_run prepared (fresh 0) now s1 = (Inr (new_run prepared (fresh 0) now), with_new_run prepared (fresh 0) now s1)"
    using assms(2) loop(2) by (simp add: create_run_eq jm_has_dom)
  then show ?thesis
    using loop(1)
    by (simp add: admit_commit_def committed_def reserve_def Let_def record_admission_def split: option.split)
qed

lemma check_resume_store:
  "snd (check_resume expected t s) = s \<or>
   (\<exists>e r. truthy_id expected = Some e \<and> map_of (ms_resume_reservations s) e = Some r \<and>
      r \<notin> fst ` set (ms_runs s) \<and>
      snd (check_resume expected t s) =
        s\<lparr>ms_resume_reservations := jm_delete e (ms_resume_reservations s)\<rparr>)"
  by (auto simp: check_resume_def Let_def jm_has_dom truthy_id_def split: option.splits if_splits)

text \<open>What is known once every check has passed.\<close>

lemma admit_checks_ok:
  assumes "admit_checks input s = (Inr (prepared, displaced), s1)"
  shows "wire_run_create (ra_run input) = Some prepared"
    and "wire_displacements (ra_displacements input) = Some displaced"
    and "\<exists>t. map_of (ms_threads s) (rc_thread_id prepared) = Some t \<and>
           unconstrained (rg_thread_status_in (ra_guard input)) (\<lambda>sts. t_status t \<in> set sts) \<and>
           (displaced \<noteq> [] \<longrightarrow> displacements_current displaced (active_runs_on (t_thread_id t) s)) \<and>
           (rg_require_no_active_run (ra_guard input) \<longrightarrow> active_runs_on (t_thread_id t) s = []) \<and>
           check_resume (ra_expected_run_id input) (t_thread_id t) s = (Inr (), s1)"
    and "\<And>i. truthy_id (rc_run_id prepared) = Some i \<Longrightarrow> i \<notin> fst ` set (ms_runs s)"
  using assms
  by (auto simp: admit_checks_def jm_has_dom split: option.splits if_splits prod.splits sum.splits)

lemma admit_checks_store:
  assumes "admit_checks input s = (res, s1)"
  shows "s1 = s \<or>
     (\<exists>e r. truthy_id (ra_expected_run_id input) = Some e \<and>
        map_of (ms_resume_reservations s) e = Some r \<and> r \<notin> fst ` set (ms_runs s) \<and>
        s1 = s\<lparr>ms_resume_reservations := jm_delete e (ms_resume_reservations s)\<rparr>)"
proof -
  have "s1 = s \<or> (\<exists>t. s1 = snd (check_resume (ra_expected_run_id input) t s))"
    using assms
    by (auto simp: admit_checks_def split: option.splits if_splits prod.splits sum.splits)
       (metis snd_conv)+
  then show ?thesis using check_resume_store by metis
qed

lemma admit_checks_frame:
  assumes "admit_checks input s = (res, s1)"
  shows "ms_runs s1 = ms_runs s" "ms_idempotency s1 = ms_idempotency s" "ms_threads s1 = ms_threads s"
    "ms_run_results s1 = ms_run_results s"
  using admit_checks_store [OF assms] by auto

text \<open>
  Every way an admission can end: refused or replayed before anything is written, or committed in
  full. The caller's run id is not the empty string, and \<^verbatim>\<open>randomUUID\<close> gives one not in use.
\<close>

lemma admit_run_cases:
  assumes "admit_run input fresh now s = (res, s')"
    and fresh: "fresh 0 \<notin> fst ` set (ms_runs s)" "rc_run_id (ra_run input) \<noteq> Some []"
  obtains (replayed) receipt where "replay_admission input s = Inr (Some receipt)" "res = Inr receipt" "s' = s"
    | (refused) e res0 where "res = Inl e" "s' = s \<or> admit_checks input s = (res0, s')"
    | (committed) prepared displaced s1 where
        "replay_admission input s = Inr None" "\<not> ra_aborted input"
        "admit_checks input s = (Inr (prepared, displaced), s1)"
        "list_all (\<lambda>item. wire_settlement (snd item) = Some (snd item)) displaced"
        "or_default (rc_run_id prepared) (fresh 0) \<notin> fst ` set (ms_runs s)"
        "res = Inr (receipt_of (ak_key input) (or_default (rc_run_id prepared) (fresh 0)) (rc_thread_id prepared))"
        "s' = committed input prepared displaced fresh now s1"
proof (cases "ra_aborted input")
  case True
  with assms(1) have "res = Inl Aborted" "s' = s" by (simp_all add: admit_run_def)
  then show ?thesis by (intro refused) simp_all
next
  case running: False
  show ?thesis
  proof (cases "replay_admission input s")
    case (Inl e)
    with running assms(1) have "res = Inl e" "s' = s" by (simp_all add: admit_run_def)
    then show ?thesis by (intro refused) simp_all
  next
    case (Inr found)
    show ?thesis
    proof (cases found)
      case (Some receipt)
      with running Inr assms(1) have "res = Inr receipt" "s' = s" by (simp_all add: admit_run_def)
      with Inr Some show ?thesis by (intro replayed) simp_all
    next
      case None
      obtain checked s1 where checks: "admit_checks input s = (checked, s1)" by fastforce
      show ?thesis
      proof (cases checked)
        case (Inl e)
        with running Inr None checks assms(1) have "res = Inl e" "s' = s1"
          by (simp_all add: admit_run_def)
        with checks show ?thesis by (intro refused [of e checked]) simp_all
      next
        case ok: (Inr pd)
        obtain prepared displaced where pd: "pd = (prepared, displaced)" by fastforce
        note ok_facts = admit_checks_ok [OF checks [unfolded ok pd]]
        have fixed: "list_all (\<lambda>item. wire_settlement (snd item) = Some (snd item)) displaced"
          using ok_facts(2) by (rule wire_displacements_fixed)
        have "rc_run_id prepared = rc_run_id (ra_run input)"
          using wire_run_create_keeps [OF ok_facts(1)] by simp
        then have new: "or_default (rc_run_id prepared) (fresh 0) \<notin> fst ` set (ms_runs s)"
          using fresh ok_facts(4)
          by (cases "rc_run_id (ra_run input)") (simp_all add: truthy_id_def)
        have "admit_commit input prepared displaced fresh now s1 = (res, s')"
          using running Inr None checks ok pd assms(1) by (simp add: admit_run_def)
        moreover have "or_default (rc_run_id prepared) (fresh 0) \<notin> fst ` set (ms_runs s1)"
          using new admit_checks_frame(1) [OF checks] by simp
        ultimately have out: "res = Inr (receipt_of (ak_key input)
              (or_default (rc_run_id prepared) (fresh 0)) (rc_thread_id prepared))"
          "s' = committed input prepared displaced fresh now s1"
          using admit_commit_eq [OF fixed, of prepared fresh s1 input now] by simp_all
        show ?thesis
        proof (rule committed [of prepared displaced s1])
          show "replay_admission input s = Inr None" using Inr None by simp
          show "admit_checks input s = (Inr (prepared, displaced), s1)" using checks ok pd by simp
        qed (use running fixed new out in simp_all)
      qed
    qed
  qed
qed

section \<open>The invariant\<close>

lemma dispatch_run_store_inv:
  "store_inv s \<Longrightarrow> r_run_id r \<in> fst ` set (ms_runs s) \<Longrightarrow> store_inv (dispatch_run r k a now s)"
  by (auto simp: dispatch_run_def store_inv_def inv_defs set_add_def intro: beside_set)

lemma record_admission_store_inv: "store_inv s \<Longrightarrow> store_inv (snd (record_admission input r c s))"
  by (auto simp: record_admission_def Let_def store_inv_def inv_defs intro: keyed_by_set)

lemma store_inv_reservations: "store_inv s \<Longrightarrow> jm_wf m \<Longrightarrow> store_inv (s\<lparr>ms_resume_reservations := m\<rparr>)"
  by (simp add: store_inv_def inv_defs)

lemma store_inv_reservations_wf: "store_inv s \<Longrightarrow> jm_wf (ms_resume_reservations s)"
  by (simp add: store_inv_def run_inv_def)

lemma reserve_store_inv: "store_inv s \<Longrightarrow> store_inv (reserve e i s)"
  by (auto simp: reserve_def split: option.split
      intro!: store_inv_reservations jm_wf_set store_inv_reservations_wf)

lemma admit_checks_store_inv: "admit_checks input s = (res, s1) \<Longrightarrow> store_inv s \<Longrightarrow> store_inv s1"
  using admit_checks_store [of input s res s1]
  by (auto intro!: store_inv_reservations jm_wf_delete store_inv_reservations_wf)

lemma settle_displaced_store_inv: "store_inv s \<Longrightarrow> store_inv (snd (settle_displaced action fresh n now ds s))"
proof (induction action fresh n now ds s rule: settle_displaced.induct)
  case (1 action fresh n now s)
  then show ?case by simp
next
  case (2 action fresh n now run_id settlement rest s)
  obtain out s1 where st: "settle run_id settlement (fresh n) now s = (out, s1)" by fastforce
  have inv: "store_inv s1"
    using settle_store_inv [OF 2(3), of run_id settlement "fresh n" now] st by simp
  have "store_inv (dispatch_run r DispatchCancel (Some action) now s1)"
    if out: "out = Inr (Some r, d)" for r d
  proof (rule dispatch_run_store_inv [OF inv])
    obtain final where "wire_settlement settlement = Some final"
      using st out by (cases "wire_settlement settlement") (auto simp: settle_fail)
    from settle_ok [OF this, of run_id "fresh n" now s] st out
    have row: "map_of (ms_runs s1) run_id = Some r" by auto
    with store_inv_run_id [OF inv] get_in_keys show "r_run_id r \<in> fst ` set (ms_runs s1)" by metis
  qed
  with inv 2(1,2) st show ?case by (auto split: sum.split prod.split option.split)
qed

lemma committed_store_inv: "store_inv s \<Longrightarrow> store_inv (committed input prepared displaced fresh now s)"
  unfolding committed_def
  by (intro record_admission_store_inv dispatch_run_store_inv reserve_store_inv with_new_run_inv
      settle_displaced_store_inv) (simp_all add: frame_simps jm_keys_set)

lemma admit_run_store_inv:
  assumes inv: "store_inv s" and "fresh 0 \<notin> fst ` set (ms_runs s)" "rc_run_id (ra_run input) \<noteq> Some []"
  shows "store_inv (snd (admit_run input fresh now s))"
proof -
  obtain res s' where run: "admit_run input fresh now s = (res, s')" by fastforce
  have "store_inv s'"
  proof (rule admit_run_cases [OF run assms(2,3)])
    fix e res0 assume "s' = s \<or> admit_checks input s = (res0, s')"
    then show ?thesis using inv admit_checks_store_inv by blast
  next
    fix prepared displaced s1
    assume "admit_checks input s = (Inr (prepared, displaced), s1)"
      "s' = committed input prepared displaced fresh now s1"
    then show ?thesis using inv admit_checks_store_inv committed_store_inv by blast
  qed (use inv in simp)
  with run show ?thesis by simp
qed

lemma admit_cancel_store_inv:
  assumes inv: "store_inv s"
  shows "store_inv (snd (admit_cancel input fresh now s))"
proof -
  have "store_inv s1 \<and> (\<forall>r d. out = Inr (Some r, d) \<longrightarrow>
      store_inv (dispatch_run r DispatchCancel (cl_action input) now s1))"
    if st: "settle i settlement u now s = (out, s1)" for i settlement u out s1
  proof -
    have s1: "store_inv s1" using settle_store_inv [OF inv, of i settlement u now] st by simp
    moreover have "store_inv (dispatch_run r DispatchCancel (cl_action input) now s1)"
      if out: "out = Inr (Some r, d)" for r d
    proof (rule dispatch_run_store_inv [OF s1])
      obtain final where "wire_settlement settlement = Some final"
        using st out by (cases "wire_settlement settlement") (auto simp: settle_fail)
      from settle_ok [OF this, of i u now s] st out
      have "map_of (ms_runs s1) i = Some r" by auto
      with store_inv_run_id [OF s1] get_in_keys show "r_run_id r \<in> fst ` set (ms_runs s1)" by metis
    qed
    ultimately show ?thesis by blast
  qed
  note settled = this
  obtain out s1 where st: "settle (cl_run_id input)
      \<lparr>se_status = Cancelled, se_error = None, se_result = None, se_delivery = cl_delivery input\<rparr>
      (fresh 2) now s = (out, s1)" by fastforce
  show ?thesis
    using inv settled [OF st]
    by (auto simp: admit_cancel_def Let_def st split_beta intro: record_admission_store_inv
        split: sum.split option.split prod.split)
qed

lemma claim_intents_keys:
  "fst ` set (snd (claim_intents now lease cap fresh runs n m)) \<subseteq> fst ` set m"
proof (induction m arbitrary: n)
  case (Cons e m)
  obtain i intent where "e = (i, intent)" by fastforce
  with Cons.IH [of n] Cons.IH [of "Suc n"] show ?case
    by (cases "map_of runs i") (auto simp: Let_def split_beta)
qed simp

lemma claim_intents_wf:
  "jm_wf m \<Longrightarrow> jm_wf (snd (claim_intents now lease cap fresh runs n m))"
proof (induction m arbitrary: n)
  case (Cons e m)
  obtain i intent where e: "e = (i, intent)" by fastforce
  have "i \<notin> fst ` set (snd (claim_intents now lease cap fresh runs k m))" for k
    using Cons.prems e claim_intents_keys [of now lease cap fresh runs k m] by auto
  with Cons e show ?case
    by (cases "map_of runs i") (auto simp: Let_def split_beta)
qed simp

lemma claim_dispatches_store_inv:
  assumes "store_inv s"
  shows "store_inv (snd (claim_dispatches now lease limit fresh s))"
proof -
  let ?kept = "snd (claim_intents now lease (max 1 (min (page_limit s limit) 1000)) fresh
                 (ms_runs s) 0 (ms_dispatches s))"
  have "beside (ms_dispatches s) (ms_runs s)"
    using assms by (simp add: store_inv_def run_inv_def)
  then have "beside ?kept (ms_runs s)"
    using claim_intents_keys claim_intents_wf unfolding beside_def by (meson subset_trans)
  with assms show ?thesis
    by (simp add: claim_dispatches_def store_inv_def inv_defs split_beta)
qed

lemma store_inv_set_dispatch:
  "store_inv s \<Longrightarrow> i \<in> fst ` set (ms_runs s) \<Longrightarrow> store_inv (s\<lparr>ms_dispatches := jm_set i d (ms_dispatches s)\<rparr>)"
  by (simp add: store_inv_def inv_defs beside_set)

lemma store_inv_dispatch_run:
  assumes "store_inv s" "map_of (ms_dispatches s) i = Some d"
  shows "i \<in> fst ` set (ms_runs s)"
proof -
  have "fst ` set (ms_dispatches s) \<subseteq> fst ` set (ms_runs s)"
    using assms(1) by (simp add: store_inv_def run_inv_def beside_def)
  with get_in_keys [OF assms(2)] show ?thesis by blast
qed

lemma mark_dispatched_store_inv: "store_inv s \<Longrightarrow> store_inv (mark_dispatched i token s)"
  by (auto simp: mark_dispatched_def intro: store_inv_set_dispatch store_inv_dispatch_run split: option.split)

section \<open>What any admission leaves in place\<close>

lemma settle_displaced_frame [frame_simps]:
  "ms_idempotency (snd (settle_displaced action fresh n now ds s)) = ms_idempotency s"
  "ms_resume_reservations (snd (settle_displaced action fresh n now ds s)) = ms_resume_reservations s"
  "fst ` set (ms_runs (snd (settle_displaced action fresh n now ds s))) = fst ` set (ms_runs s)"
proof -
  let ?same = "\<lambda>s'. ms_idempotency s' = ms_idempotency s \<and>
    ms_resume_reservations s' = ms_resume_reservations s \<and> fst ` set (ms_runs s') = fst ` set (ms_runs s)"
  have "?same (snd (settle_displaced action fresh n now ds s))"
  proof (induction ds arbitrary: n s)
    case (Cons item ds)
    obtain i settlement where item: "item = (i, settlement)" by fastforce
    obtain out s1 where st: "settle i settlement (fresh n) now s = (out, s1)" by fastforce
    have s1: "ms_idempotency s1 = ms_idempotency s" "ms_resume_reservations s1 = ms_resume_reservations s"
      "fst ` set (ms_runs s1) = fst ` set (ms_runs s)"
      using settle_frame(2,5) [of i settlement "fresh n" now s] settle_keys [of i settlement "fresh n" now s] st
      by auto
    show ?case
      using Cons.IH [of "Suc n" s1] Cons.IH [of "Suc n" "dispatch_run r DispatchCancel (Some action) now s1" for r] s1
      by (auto simp: item st frame_simps split: sum.split prod.split option.split)
  qed simp
  then show "ms_idempotency (snd (settle_displaced action fresh n now ds s)) = ms_idempotency s"
    "ms_resume_reservations (snd (settle_displaced action fresh n now ds s)) = ms_resume_reservations s"
    "fst ` set (ms_runs (snd (settle_displaced action fresh n now ds s))) = fst ` set (ms_runs s)"
    by simp_all
qed

lemma create_run_frame [frame_simps]:
  "ms_idempotency (snd (create_run input uuid now s)) = ms_idempotency s"
  "ms_resume_reservations (snd (create_run input uuid now s)) = ms_resume_reservations s"
  "ms_threads (snd (create_run input uuid now s)) = ms_threads s"
  "fst ` set (ms_runs s) \<subseteq> fst ` set (ms_runs (snd (create_run input uuid now s)))"
  by (auto simp: create_run_eq frame_simps jm_keys_set)

lemma admit_commit_frame:
  assumes "admit_commit input prepared displaced fresh now s = (res, s')"
  shows "fst ` set (ms_runs s) \<subseteq> fst ` set (ms_runs s')"
    and "ms_idempotency s' = ms_idempotency s \<or>
         (\<exists>rec. ms_idempotency s' = jm_set (idempotency_key (ak_scope input) (ak_key input)) rec (ms_idempotency s))"
    and "\<And>e. truthy_id (ra_expected_run_id input) \<noteq> Some e \<Longrightarrow>
           map_of (ms_resume_reservations s') e = map_of (ms_resume_reservations s) e"
proof -
  obtain out1 s1 where loop: "settle_displaced (displace_action prepared) fresh 2 now displaced s = (out1, s1)"
    by fastforce
  obtain out2 s2 where made: "create_run prepared (fresh 0) now s1 = (out2, s2)" by fastforce
  have s1: "ms_idempotency s1 = ms_idempotency s" "ms_resume_reservations s1 = ms_resume_reservations s"
    "fst ` set (ms_runs s1) = fst ` set (ms_runs s)"
    using settle_displaced_frame [of "displace_action prepared" fresh 2 now displaced s] loop by simp_all
  have s2: "ms_idempotency s2 = ms_idempotency s1" "ms_resume_reservations s2 = ms_resume_reservations s1"
    "fst ` set (ms_runs s1) \<subseteq> fst ` set (ms_runs s2)"
    using create_run_frame [where input = prepared and uuid = "fresh 0" and now = now and s = s1] made by simp_all
  have shape: "s' = s1 \<or> s' = s2 \<or> (\<exists>r c. s' = snd (record_admission input r c
      (dispatch_run r DispatchRun None now (reserve (ra_expected_run_id input) (r_run_id r) s2))))"
    using assms loop made
    by (auto simp: admit_commit_def reserve_def Let_def split_beta split: sum.splits option.splits)
  show "fst ` set (ms_runs s) \<subseteq> fst ` set (ms_runs s')"
    using shape s1(3) s2(3) by (elim disjE exE) (simp_all add: frame_simps)
  show "ms_idempotency s' = ms_idempotency s \<or>
      (\<exists>rec. ms_idempotency s' = jm_set (idempotency_key (ak_scope input) (ak_key input)) rec (ms_idempotency s))"
    using shape s1(1) s2(1) by (auto simp: record_admission_def Let_def frame_simps)
  show "map_of (ms_resume_reservations s') e = map_of (ms_resume_reservations s) e"
    if "truthy_id (ra_expected_run_id input) \<noteq> Some e" for e
    using that shape s1(2) s2(2) by (auto simp: frame_simps reserve_def jm_get_set split: option.split)
qed

text \<open>A live ledger entry: the request is replayed while it lasts.\<close>

definition receipt_live :: "('a admission_key_scheme) \<Rightarrow> admission_receipt \<Rightarrow> instant \<Rightarrow> mem_store \<Rightarrow> bool" where
  "receipt_live input receipt until s \<longleftrightarrow>
     (\<exists>rec. map_of (ms_idempotency s) (idempotency_key (ak_scope input) (ak_key input)) = Some rec \<and>
        ir_expires_at rec = until \<and> ir_fingerprint rec = ak_fingerprint input \<and>
        ir_run_id rec = Some (ar_run_id receipt) \<and> ir_thread_id rec = Some (ar_thread_id receipt) \<and>
        ar_run_id receipt \<noteq> [] \<and> ar_thread_id receipt \<noteq> [] \<and>
        ar_idempotency_key receipt = ak_key input)"

lemma receipt_live_replay:
  assumes "receipt_live input receipt until s" "ak_now input' < until"
    "ak_scope input' = ak_scope input" "ak_key input' = ak_key input"
    "ak_fingerprint input' = ak_fingerprint input"
  shows "replay_admission input' s = Inr (Some receipt)"
  using assms by (auto simp: receipt_live_def replay_admission_def truthy_id_def receipt_of_def)

lemma replay_none_other_key:
  assumes "receipt_live input receipt until s" "ak_now input' < until" "replay_admission input' s = Inr None"
  shows "idempotency_key (ak_scope input') (ak_key input') \<noteq> idempotency_key (ak_scope input) (ak_key input)"
  using assms by (auto simp: receipt_live_def replay_admission_def split: if_splits option.splits prod.splits)

text \<open>A reservation of an interrupted run by a run that exists.\<close>

definition consumed_by :: "ident \<Rightarrow> ident \<Rightarrow> mem_store \<Rightarrow> bool" where
  "consumed_by e i s \<longleftrightarrow>
     map_of (ms_resume_reservations s) e = Some i \<and> i \<noteq> [] \<and> i \<in> fst ` set (ms_runs s)"

lemma consumed_check:
  assumes "consumed_by e i s"
  shows "consumed_by e i (snd (check_resume x t s))"
    and "truthy_id x = Some e \<Longrightarrow> fst (check_resume x t s) = Inl (conflict (Some ''stale_resume''))"
proof -
  show "consumed_by e i (snd (check_resume x t s))"
    using check_resume_store [of x t s] assms
    by (auto simp: consumed_by_def jm_get_delete del: imageE)
  show "fst (check_resume x t s) = Inl (conflict (Some ''stale_resume''))" if "truthy_id x = Some e"
  proof -
    have held: "map_of (ms_resume_reservations s) e = Some i" "truthy_id (Some i) = Some i"
      "jm_has (ms_runs s) i" "jm_has (ms_resume_reservations s) e"
      using assms by (auto simp: consumed_by_def truthy_id_def jm_has_dom get_in_keys)
    then show ?thesis
      using that by (simp add: check_resume_def Let_def split: option.split)
  qed
qed

lemma admit_run_keeps:
  assumes "admit_run input fresh now s = (res, s')"
  shows "consumed_by e i s \<Longrightarrow> consumed_by e i s'"
    and "receipt_live other receipt until s \<Longrightarrow> ak_now input < until \<Longrightarrow> receipt_live other receipt until s'"
proof -
  obtain checked s1 where checks: "admit_checks input s = (checked, s1)" by fastforce
  note store1 = admit_checks_store [OF checks]
  have cases: "s' = s \<or> s' = s1 \<or> (replay_admission input s = Inr None \<and>
      (\<exists>prepared displaced. checked = Inr (prepared, displaced) \<and>
         admit_commit input prepared displaced fresh now s1 = (res, s')))"
    using assms checks by (auto simp: admit_run_def split: if_splits sum.splits option.splits prod.splits)
  show "consumed_by e i s'" if held: "consumed_by e i s"
  proof -
    have s1: "consumed_by e i s1"
      using store1 held by (auto simp: consumed_by_def jm_get_delete del: imageE)
    have "consumed_by e i s'"
      if "checked = Inr (prepared, displaced)" "admit_commit input prepared displaced fresh now s1 = (res, s')"
      for prepared displaced
    proof -
      have "truthy_id (ra_expected_run_id input) \<noteq> Some e"
        using admit_checks_ok(3) [OF checks [unfolded that(1)]] consumed_check(2) [OF held]
        by (metis fst_conv Inl_Inr_False)
      then show ?thesis
        using admit_commit_frame(1,3) [OF that(2)] s1 by (auto simp: consumed_by_def)
    qed
    with cases held s1 show ?thesis by blast
  qed
  show "receipt_live other receipt until s'"
    if held: "receipt_live other receipt until s" and early: "ak_now input < until"
  proof -
    have s1: "receipt_live other receipt until s1"
      using admit_checks_frame(2) [OF checks] held by (simp add: receipt_live_def)
    have "receipt_live other receipt until s'"
      if "replay_admission input s = Inr None" "admit_commit input prepared displaced fresh now s1 = (res, s')"
      for prepared displaced
      using admit_commit_frame(2) [OF that(2)] replay_none_other_key [OF held early that(1)] s1
      by (auto simp: receipt_live_def jm_get_set)
    with cases held s1 show ?thesis by blast
  qed
qed

end
