(* ===== verification/AdmissionHistory.thy ===== *)
theory AdmissionHistory
  imports StoreAdmission
begin

text \<open>
  What holds over any interleaving of admissions, cancels, dispatch claims and acknowledgements:
  refused admissions leave no trace, accepted ones commit at once, an idempotency key admits once,
  and a run that was resumed stays reserved by the run that resumes it.
\<close>

section \<open>Histories of admissions\<close>

datatype admission_op =
    OpAdmitRun run_admission "nat \<Rightarrow> ident" instant
  | OpAdmitCancel cancel_admission "nat \<Rightarrow> ident" instant
  | OpClaimDispatches instant instant "nat option" "nat \<Rightarrow> ident"
  | OpMarkDispatched ident string

fun admission_step :: "admission_op \<Rightarrow> mem_store \<Rightarrow> mem_store" where
  "admission_step (OpAdmitRun input fresh now) s = snd (admit_run input fresh now s)"
| "admission_step (OpAdmitCancel input fresh now) s = snd (admit_cancel input fresh now s)"
| "admission_step (OpClaimDispatches now lease limit fresh) s = snd (claim_dispatches now lease limit fresh s)"
| "admission_step (OpMarkDispatched run_id token) s = mark_dispatched run_id token s"

fun admission_trace :: "admission_op list \<Rightarrow> mem_store \<Rightarrow> mem_store" where
  "admission_trace [] s = s"
| "admission_trace (oper # ops) s = admission_trace ops (admission_step oper s)"

fun admission_before :: "instant \<Rightarrow> admission_op \<Rightarrow> bool" where
  "admission_before until (OpAdmitRun input _ _) \<longleftrightarrow> ak_now input < until"
| "admission_before until (OpAdmitCancel input _ _) \<longleftrightarrow> ak_now input < until"
| "admission_before until _ \<longleftrightarrow> True"

lemma admit_cancel_keeps:
  assumes "admit_cancel input fresh now s = (res, s')"
  shows "consumed_by e i s \<Longrightarrow> consumed_by e i s'"
    and "receipt_live other receipt until s \<Longrightarrow> ak_now input < until \<Longrightarrow> receipt_live other receipt until s'"
proof -
  let ?final = "\<lparr>se_status = Cancelled, se_error = None, se_result = None, se_delivery = cl_delivery input\<rparr>"
  obtain out s1 where st: "settle (cl_run_id input) ?final (fresh 2) now s = (out, s1)" by fastforce
  have s1: "ms_idempotency s1 = ms_idempotency s" "ms_resume_reservations s1 = ms_resume_reservations s"
    "fst ` set (ms_runs s1) = fst ` set (ms_runs s)"
    using settle_frame(2,5) [of "cl_run_id input" ?final "fresh 2" now s]
      settle_keys [of "cl_run_id input" ?final "fresh 2" now s] st by auto
  have cases: "s' = s \<or> s' = s1 \<or> (replay_admission input s = Inr None \<and>
      (\<exists>r c k a. s' = snd (record_admission input r c s) \<or>
                 s' = snd (record_admission input r c (dispatch_run r k a now s1))))"
    using assms
    by (auto simp: admit_cancel_def Let_def st split_beta split: sum.splits option.splits if_splits prod.splits)
  show "consumed_by e i s \<Longrightarrow> consumed_by e i s'"
    using cases s1 by (elim disjE conjE exE) (simp_all add: consumed_by_def frame_simps)
  show "receipt_live other receipt until s'"
    if held: "receipt_live other receipt until s" and early: "ak_now input < until"
  proof -
    have rec: "receipt_live other receipt until (snd (record_admission input r c s0))"
      if "replay_admission input s = Inr None" "ms_idempotency s0 = ms_idempotency s" for r c s0
      using held replay_none_other_key [OF held early that(1)] that(2)
      by (auto simp: receipt_live_def record_admission_def Let_def jm_get_set)
    have "receipt_live other receipt until s1" using held s1 by (simp add: receipt_live_def)
    with cases held rec show ?thesis
      by (elim disjE conjE exE) (simp_all add: frame_simps s1)
  qed
qed

lemma intents_only:
  "\<exists>m. snd (claim_dispatches now lease limit fresh s) = s\<lparr>ms_dispatches := m\<rparr>"
  "\<exists>m. mark_dispatched i token s = s\<lparr>ms_dispatches := m\<rparr>"
proof -
  show "\<exists>m. snd (claim_dispatches now lease limit fresh s) = s\<lparr>ms_dispatches := m\<rparr>"
    by (auto simp: claim_dispatches_def split_beta)
  have "\<exists>m. s = s\<lparr>ms_dispatches := m\<rparr>" by (rule exI [of _ "ms_dispatches s"]) simp
  then show "\<exists>m. mark_dispatched i token s = s\<lparr>ms_dispatches := m\<rparr>"
    by (auto simp: mark_dispatched_def split: option.split)
qed

lemma intents_irrelevant:
  "consumed_by e i (s\<lparr>ms_dispatches := m\<rparr>) = consumed_by e i s"
  "receipt_live other receipt until (s\<lparr>ms_dispatches := m\<rparr>) = receipt_live other receipt until s"
  by (simp_all add: consumed_by_def receipt_live_def)

lemma admission_step_cases:
  obtains (admit) input fresh now res where "oper = OpAdmitRun input fresh now"
      "admit_run input fresh now s = (res, admission_step oper s)"
    | (cancel) input fresh now res where "oper = OpAdmitCancel input fresh now"
      "admit_cancel input fresh now s = (res, admission_step oper s)"
    | (intents) m where "admission_step oper s = s\<lparr>ms_dispatches := m\<rparr>"
proof (cases oper)
  case (OpAdmitRun input fresh now)
  then show ?thesis using admit by (cases "admit_run input fresh now s") simp
next
  case (OpAdmitCancel input fresh now)
  then show ?thesis using cancel by (cases "admit_cancel input fresh now s") simp
next
  case (OpClaimDispatches now lease limit fresh)
  then show ?thesis using intents intents_only(1) [of now lease limit fresh s] by auto
next
  case (OpMarkDispatched i token)
  then show ?thesis using intents intents_only(2) [of i token s] by auto
qed

lemma admission_step_keeps:
  "consumed_by e i s \<Longrightarrow> consumed_by e i (admission_step oper s)"
  "receipt_live other receipt until s \<Longrightarrow> admission_before until oper \<Longrightarrow>
     receipt_live other receipt until (admission_step oper s)"
proof -
  show "consumed_by e i s \<Longrightarrow> consumed_by e i (admission_step oper s)"
    by (cases rule: admission_step_cases [of oper s])
       (metis admit_run_keeps(1), metis admit_cancel_keeps(1), simp add: intents_irrelevant)
  show "receipt_live other receipt until s \<Longrightarrow> admission_before until oper \<Longrightarrow>
     receipt_live other receipt until (admission_step oper s)"
    by (cases rule: admission_step_cases [of oper s])
       (auto simp: intents_irrelevant dest: admit_run_keeps(2) admit_cancel_keeps(2))
qed

lemma admission_trace_keeps:
  "consumed_by e i s \<Longrightarrow> consumed_by e i (admission_trace ops s)"
  "receipt_live other receipt until s \<Longrightarrow> list_all (admission_before until) ops \<Longrightarrow>
     receipt_live other receipt until (admission_trace ops s)"
  by (induction ops arbitrary: s) (simp_all add: admission_step_keeps)

lemma committed_receipt_live:
  assumes "or_default (rc_run_id prepared) (fresh 0) \<noteq> []" "rc_thread_id prepared \<noteq> []"
  shows "receipt_live input
           (receipt_of (ak_key input) (or_default (rc_run_id prepared) (fresh 0)) (rc_thread_id prepared))
           (ak_expires_at input) (committed input prepared displaced fresh now s)"
  using assms
  by (simp add: committed_def receipt_live_def record_admission_def Let_def jm_get_set receipt_of_def)

lemma committed_runs:
  "ms_runs (committed input prepared displaced fresh now s) =
     jm_set (or_default (rc_run_id prepared) (fresh 0)) (new_run prepared (fresh 0) now)
       (ms_runs (snd (settle_displaced (displace_action prepared) fresh 2 now displaced s)))"
  "ms_run_results (committed input prepared displaced fresh now s) =
     ms_run_results (snd (settle_displaced (displace_action prepared) fresh 2 now displaced s))"
  by (simp_all add: committed_def frame_simps)

lemma committed_dispatch:
  "\<exists>d. map_of (ms_dispatches (committed input prepared displaced fresh now s))
          (or_default (rc_run_id prepared) (fresh 0)) = Some d \<and>
       dp_kind d = DispatchRun \<and> \<not> dp_dispatched d \<and> dp_lease_until d = None"
  by (simp add: committed_def frame_simps) (simp add: dispatch_run_def jm_get_set)

section \<open>Properties\<close>

text \<open>
  C3. A refused admission changes nothing, whatever the error: no run is created or settled, no
  intent, delivery or receipt is written and nothing is reserved. The one exception is the clean-up
  of a stale reservation: where the run to be resumed was reserved by a run that no longer exists,
  that reservation, and only that one, is dropped.
\<close>

theorem admit_run_error_atomic:
  assumes "admit_run input fresh now s = (Inl e, s')"
    and "fresh 0 \<notin> fst ` set (ms_runs s)" and "rc_run_id (ra_run input) \<noteq> Some []"
  shows "s' = s \<or>
         (\<exists>x r. truthy_id (ra_expected_run_id input) = Some x \<and>
            map_of (ms_resume_reservations s) x = Some r \<and> r \<notin> fst ` set (ms_runs s) \<and>
            s' = s\<lparr>ms_resume_reservations := jm_delete x (ms_resume_reservations s)\<rparr>)"
proof -
  have "s' = s \<or> (\<exists>res0. admit_checks input s = (res0, s'))"
    by (rule admit_run_cases [OF assms]) auto
  then show ?thesis using admit_checks_store by blast
qed

subsection \<open>What a committed admission leaves of the run table\<close>

lemma checked_displacements:
  assumes "wire_displacements xs = Some displaced"
    and "list_all (\<lambda>item. is_terminal_run_status (se_status (snd item))) xs"
  shows "list_all (\<lambda>item. is_terminal_run_status (se_status (snd item))) displaced"
    and "fst ` set displaced = fst ` set xs"
proof -
  have "list_all (\<lambda>st. is_terminal_run_status st) (map (se_status \<circ> snd) displaced)"
    using assms(2) wire_displacements_statuses [OF assms(1)] by (simp add: list.pred_map comp_def)
  then show "list_all (\<lambda>item. is_terminal_run_status (se_status (snd item))) displaced"
    by (simp add: list.pred_map comp_def)
  show "fst ` set displaced = fst ` set xs"
    using wire_displacements_ids [OF assms(1)] by (metis list.set_map)
qed

lemma committed_kept:
  assumes checks: "admit_checks input s = (Inr (prepared, displaced), s1)"
    and new: "or_default (rc_run_id prepared) (fresh 0) \<notin> fst ` set (ms_runs s)"
  shows "terminal_kept s (committed input prepared displaced fresh now s1)"
    and "results_kept s (committed input prepared displaced fresh now s1)"
proof -
  let ?s2 = "snd (settle_displaced (displace_action prepared) fresh 2 now displaced s1)"
  note fixed = wire_displacements_fixed [OF admit_checks_ok(2) [OF checks]]
    and same = admit_checks_frame [OF checks]
  have loop: "terminal_kept s1 ?s2" "results_kept s1 ?s2"
    using settle_displaced_facts [OF fixed, of "displace_action prepared" fresh 2 now s1] by simp_all
  have "i \<noteq> or_default (rc_run_id prepared) (fresh 0)" if "map_of (ms_runs s) i = Some r" for i r
    using that new get_in_keys by metis
  with loop(1) same(1) show "terminal_kept s (committed input prepared displaced fresh now s1)"
    unfolding terminal_kept_def committed_runs by (simp add: jm_get_set)
  show "results_kept s (committed input prepared displaced fresh now s1)"
    using loop(2) same(4) by (simp add: results_kept_def committed_runs)
qed

lemma committed_displaced_ended:
  assumes checks: "admit_checks input s = (Inr (prepared, displaced), s1)"
    and terminal: "list_all (\<lambda>item. is_terminal_run_status (se_status (snd item))) (ra_displacements input)"
    and displaced: "i \<in> fst ` set (ra_displacements input)"
    and row: "run_get i (committed input prepared displaced fresh now s1) = Some r"
  shows "is_terminal_run_status (r_status r) \<or> i = or_default (rc_run_id prepared) (fresh 0)"
proof (cases "i = or_default (rc_run_id prepared) (fresh 0)")
  case False
  note wired = admit_checks_ok(2) [OF checks]
  have "map_of (ms_runs (snd (settle_displaced (displace_action prepared) fresh 2 now displaced s1))) i = Some r"
    using False row by (simp add: run_get_def committed_runs jm_get_set)
  then show ?thesis
    using settle_displaced_terminal [OF wire_displacements_fixed [OF wired] checked_displacements(1) [OF wired terminal]]
      displaced checked_displacements(2) [OF wired terminal] by metis
qed simp

text \<open>
  An accepted admission commits everything at once: the run is new and exactly the requested one,
  its dispatch intent waits unleased, every displaced run is terminal afterwards, runs that had
  already ended and recorded results are untouched, and the receipt can be replayed.
\<close>

theorem admit_run_commits:
  assumes "admit_run input fresh now s = (Inr receipt, s')" and "replay_admission input s = Inr None"
    and "fresh 0 \<notin> fst ` set (ms_runs s)" and "rc_run_id (ra_run input) \<noteq> Some []"
    and "fresh 0 \<noteq> []" and "rc_thread_id (ra_run input) \<noteq> []"
    and "list_all (\<lambda>item. is_terminal_run_status (se_status (snd item))) (ra_displacements input)"
  shows "run_get (ar_run_id receipt) s = None \<and>
         (\<exists>prepared. wire_run_create (ra_run input) = Some prepared \<and>
            run_get (ar_run_id receipt) s' = Some (new_run prepared (fresh 0) now)) \<and>
         (\<exists>d. map_of (ms_dispatches s') (ar_run_id receipt) = Some d \<and>
            dp_kind d = DispatchRun \<and> \<not> dp_dispatched d \<and> dp_lease_until d = None) \<and>
         (\<forall>i \<in> fst ` set (ra_displacements input).
            \<forall>r. run_get i s' = Some r \<longrightarrow> is_terminal_run_status (r_status r) \<or> i = ar_run_id receipt) \<and>
         terminal_kept s s' \<and> results_kept s s' \<and>
         receipt_live input receipt (ak_expires_at input) s'"
proof (rule admit_run_cases [OF assms(1,3,4)])
  fix prepared displaced s1
  assume checks: "admit_checks input s = (Inr (prepared, displaced), s1)"
    and fixed: "list_all (\<lambda>item. wire_settlement (snd item) = Some (snd item)) displaced"
    and new: "or_default (rc_run_id prepared) (fresh 0) \<notin> fst ` set (ms_runs s)"
    and res: "Inr receipt = Inr (receipt_of (ak_key input)
                (or_default (rc_run_id prepared) (fresh 0)) (rc_thread_id prepared))"
    and s': "s' = committed input prepared displaced fresh now s1"
  note ok = admit_checks_ok [OF checks]
  let ?id = "or_default (rc_run_id prepared) (fresh 0)"
  have id: "ar_run_id receipt = ?id" and tid: "ar_thread_id receipt = rc_thread_id prepared"
    using res by (simp_all add: receipt_of_def)
  note keeps = wire_run_create_keeps [OF ok(1)]
  have nonempty: "?id \<noteq> []" "rc_thread_id prepared \<noteq> []"
    using keeps assms(4,5,6) by (auto simp: or_default_def split: option.split)
  have displaced_ended: "\<forall>i \<in> fst ` set (ra_displacements input). \<forall>r. run_get i s' = Some r \<longrightarrow>
      is_terminal_run_status (r_status r) \<or> i = ?id"
    using committed_displaced_ended [OF checks assms(7)] s' by blast
  have kept: "terminal_kept s s'" "results_kept s s'"
    unfolding s' using new by (rule committed_kept [OF checks])+
  have absent: "run_get ?id s = None"
    using new by (simp add: run_get_def map_of_eq_None_iff)
  have made: "\<exists>prepared. wire_run_create (ra_run input) = Some prepared \<and>
      run_get ?id s' = Some (new_run prepared (fresh 0) now)"
    using ok(1) by (auto simp: s' run_get_def committed_runs jm_get_set)
  have live: "receipt_live input receipt (ak_expires_at input) s'"
    using committed_receipt_live [of prepared fresh input displaced now s1, OF nonempty] res s' by simp
  show ?thesis
    unfolding id
    by (intro conjI absent made displaced_ended kept live
        committed_dispatch [of input prepared displaced fresh now s1, folded s'])
qed (use assms(2) in simp_all)

text \<open>
  C1. Admission is exactly-once per idempotency key. After a request was accepted, whatever further
  admissions, cancels, dispatch claims and acknowledgements run before the receipt expires, the same
  request returns the same receipt and changes nothing, and its run is still there.
\<close>

theorem admission_exactly_once:
  assumes "admit_run input fresh now s = (Inr receipt, s1)" and "replay_admission input s = Inr None"
    and "fresh 0 \<notin> fst ` set (ms_runs s)" and "rc_run_id (ra_run input) \<noteq> Some []"
    and "fresh 0 \<noteq> []" and "rc_thread_id (ra_run input) \<noteq> []"
    and "list_all (admission_before (ak_expires_at input)) ops"
    and "ak_scope retry = ak_scope input" "ak_key retry = ak_key input"
        "ak_fingerprint retry = ak_fingerprint input" "ak_now retry < ak_expires_at input"
        "\<not> ra_aborted retry"
  shows "admit_run retry fresh' now' (admission_trace ops s1) = (Inr receipt, admission_trace ops s1)"
proof -
  have "receipt_live input receipt (ak_expires_at input) s1"
  proof (rule admit_run_cases [OF assms(1,3,4)])
    fix prepared displaced s0
    assume checks: "admit_checks input s = (Inr (prepared, displaced), s0)"
      and res: "Inr receipt = Inr (receipt_of (ak_key input)
                (or_default (rc_run_id prepared) (fresh 0)) (rc_thread_id prepared))"
      and s1: "s1 = committed input prepared displaced fresh now s0"
    note keeps = wire_run_create_keeps [OF admit_checks_ok(1) [OF checks]]
    have "or_default (rc_run_id prepared) (fresh 0) \<noteq> []" "rc_thread_id prepared \<noteq> []"
      using keeps assms(4-6) by (auto simp: or_default_def split: option.split)
    from committed_receipt_live [of prepared fresh input displaced now s0, OF this]
    show ?thesis using res s1 by simp
  qed (use assms(2) in simp_all)
  then have "receipt_live input receipt (ak_expires_at input) (admission_trace ops s1)"
    using assms(7) by (rule admission_trace_keeps(2))
  from receipt_live_replay [OF this assms(11,8,9,10)] assms(12) show ?thesis
    by (simp add: admit_run_def)
qed

text \<open>
  An interrupted run is reserved by the run whose admission named it, and while both exist a later
  admission that names it is refused, or is a replay of an earlier receipt; it writes nothing.
\<close>

lemma admitted_consumes:
  assumes "admit_run input fresh now s = (Inr receipt, s1)" and "replay_admission input s = Inr None"
    and "fresh 0 \<notin> fst ` set (ms_runs s)" and "rc_run_id (ra_run input) \<noteq> Some []"
    and "fresh 0 \<noteq> []" and "truthy_id (ra_expected_run_id input) = Some e"
  shows "consumed_by e (ar_run_id receipt) s1"
proof (rule admit_run_cases [OF assms(1,3,4)])
  fix prepared displaced s0
  assume checks: "admit_checks input s = (Inr (prepared, displaced), s0)"
    and res: "Inr receipt = Inr (receipt_of (ak_key input)
              (or_default (rc_run_id prepared) (fresh 0)) (rc_thread_id prepared))"
    and s1: "s1 = committed input prepared displaced fresh now s0"
  note keeps = wire_run_create_keeps [OF admit_checks_ok(1) [OF checks]]
  have "or_default (rc_run_id prepared) (fresh 0) \<noteq> []"
    using keeps assms(4,5) by (auto simp: or_default_def split: option.split)
  then show ?thesis
    using res assms(6)
    by (simp add: s1 consumed_by_def receipt_of_def committed_runs jm_keys_set)
       (simp add: committed_def frame_simps reserve_def jm_get_set)
qed (use assms(2) in simp_all)

lemma consumed_refuses:
  assumes held: "consumed_by e i s" and wants: "truthy_id (ra_expected_run_id later) = Some e"
    and run: "admit_run later fresh now s = (res, s')"
  shows "s' = s \<and>
         ((\<exists>err. res = Inl err) \<or> (\<exists>old. replay_admission later s = Inr (Some old) \<and> res = Inr old))"
proof -
  obtain checked s3 where checks: "admit_checks later s = (checked, s3)" by fastforce
  have "checked \<noteq> Inr pd" for pd
  proof
    assume "checked = Inr pd"
    then obtain prepared displaced where "admit_checks later s = (Inr (prepared, displaced), s3)"
      using checks by (metis prod.collapse)
    from admit_checks_ok(3) [OF this] consumed_check(2) [OF held wants] show False
      by (metis fst_conv Inl_Inr_False)
  qed
  then obtain err where "checked = Inl err" by (cases checked) auto
  moreover have "s3 = s"
    using admit_checks_store [OF checks] held wants by (auto simp: consumed_by_def)
  ultimately show ?thesis
    using run checks by (auto simp: admit_run_def split: if_splits sum.splits option.splits)
qed

subsection \<open>Witnesses\<close>

definition sample_thread :: thread where
  "sample_thread = \<lparr>t_thread_id = ''t1'', t_created_at = 0, t_updated_at = 0, t_state_updated_at = 0,
     t_metadata = JObj [], t_status = Idle, t_values = JObj [], t_interrupts = JObj [], t_error = None\<rparr>"

definition sample_run :: "ident \<Rightarrow> run_status \<Rightarrow> run" where
  "sample_run i st = \<lparr>r_run_id = i, r_thread_id = ''t1'', r_assistant_id = ''a1'', r_created_at = 0,
     r_updated_at = 0, r_status = st, r_metadata = JObj [], r_multitask_strategy = None, r_error = None\<rparr>"

definition sample_store :: mem_store where
  "sample_store = empty_store\<lparr>ms_threads := [(''t1'', sample_thread)],
     ms_runs := [(''r0'', sample_run ''r0'' Interrupted), (''r1'', sample_run ''r1'' Running)]\<rparr>"

definition sample_fresh :: "nat \<Rightarrow> ident" where
  "sample_fresh n = (if n = 0 then ''r2'' else if n = 1 then ''c1'' else ''u'')"

definition sample_create :: run_create where
  "sample_create = \<lparr>rc_thread_id = ''t1'', rc_assistant_id = ''a1'', rc_run_id = None, rc_status = None,
     rc_metadata = None, rc_multitask_strategy = Some MInterrupt, rc_kwargs = None\<rparr>"

definition sample_admission :: run_admission where
  "sample_admission = \<lparr>ak_scope = ''s'', ak_key = ''k'', ak_fingerprint = ''f'', ak_now = 10, ak_expires_at = 100,
     ra_aborted = False, ra_run = sample_create,
     ra_guard = \<lparr>rg_require_no_active_run = False, rg_thread_status_in = None\<rparr>,
     ra_expected_run_id = Some ''r0'',
     ra_displacements = [(''r1'', \<lparr>se_status = Interrupted, se_error = None, se_result = None, se_delivery = None\<rparr>)]\<rparr>"

lemmas sample_simps =
  sample_thread_def sample_run_def sample_store_def empty_store_def sample_fresh_def sample_create_def
  sample_admission_def

lemma sample_replay: "replay_admission sample_admission sample_store = Inr None"
  by (simp add: replay_admission_def sample_simps)

lemma sample_checks:
  "admit_checks sample_admission sample_store =
     (Inr (sample_create, ra_displacements sample_admission), sample_store)"
  by (simp add: admit_checks_def check_resume_def Let_def truthy_id_def sample_simps wire_run_create_def
      wire_optional_def wire_settlement_def displacements_current_def active_runs_on_def is_active_on_def
      unconstrained_def settlement_serializes_def jm_has_def)

lemma sample_admitted:
  "admit_run sample_admission sample_fresh 10 sample_store =
     (Inr (receipt_of ''k'' ''r2'' ''t1''),
      committed sample_admission sample_create (ra_displacements sample_admission) sample_fresh 10 sample_store)"
proof -
  have "admit_commit sample_admission sample_create (ra_displacements sample_admission) sample_fresh 10 sample_store =
      (Inr (receipt_of ''k'' ''r2'' ''t1''),
       committed sample_admission sample_create (ra_displacements sample_admission) sample_fresh 10 sample_store)"
    by (subst admit_commit_eq) (simp_all add: sample_simps wire_settlement_def)
  then show ?thesis
    by (simp add: admit_run_def sample_replay sample_checks) (simp add: sample_simps)
qed

lemma sample_new:
  "sample_fresh 0 \<notin> fst ` set (ms_runs sample_store)" "rc_run_id (ra_run sample_admission) \<noteq> Some []"
  "sample_fresh 0 \<noteq> []" "rc_thread_id (ra_run sample_admission) \<noteq> []"
  by (simp_all add: sample_simps)

theorem admit_run_error_atomic_witness:
  "\<exists>e s'. admit_run sample_admission sample_fresh 10 empty_store = (Inl e, s') \<and> s' = empty_store"
proof -
  have "admit_run sample_admission sample_fresh 10 empty_store = (Inl not_found, empty_store)"
    by (simp add: admit_run_def replay_admission_def admit_checks_def wire_run_create_def wire_optional_def
        truthy_id_def sample_simps)
  moreover have "sample_fresh 0 \<notin> fst ` set (ms_runs empty_store)" by (simp add: empty_store_def)
  ultimately show ?thesis
    using admit_run_error_atomic [of sample_admission sample_fresh 10 empty_store not_found empty_store]
      sample_new by (auto simp: empty_store_def)
qed

theorem admit_run_commits_witness:
  "\<exists>s' r. admit_run sample_admission sample_fresh 10 sample_store = (Inr (receipt_of ''k'' ''r2'' ''t1''), s') \<and>
     run_get ''r2'' s' = Some (new_run sample_create ''r2'' 10) \<and>
     run_get ''r1'' s' = Some r \<and> is_terminal_run_status (r_status r)"
proof -
  let ?s = "committed sample_admission sample_create (ra_displacements sample_admission) sample_fresh 10 sample_store"
  have "list_all (\<lambda>item. is_terminal_run_status (se_status (snd item))) (ra_displacements sample_admission)"
    by (simp add: sample_simps)
  note facts = admit_run_commits [OF sample_admitted sample_replay sample_new this]
  have id: "ar_run_id (receipt_of ''k'' ''r2'' ''t1'') = ''r2''" by (simp add: receipt_of_def)
  have "wire_run_create (ra_run sample_admission) = Some sample_create"
    by (simp add: wire_run_create_def wire_optional_def sample_simps)
  with facts have made: "run_get ''r2'' ?s = Some (new_run sample_create ''r2'' 10)"
    unfolding id by (auto simp: sample_fresh_def)
  have "''r1'' \<in> fst ` set (ms_runs ?s)"
    by (simp add: committed_runs jm_keys_set frame_simps) (simp add: sample_simps)
  then obtain r where r: "run_get ''r1'' ?s = Some r"
    by (metis jm_has_dom jm_has_iff run_get_def)
  with facts have "is_terminal_run_status (r_status r)"
    unfolding id by (auto simp: sample_admission_def)
  with made r sample_admitted show ?thesis by blast
qed

theorem admission_exactly_once_witness:
  "\<exists>s1. fst (admit_run sample_admission sample_fresh 10 sample_store) = Inr (receipt_of ''k'' ''r2'' ''t1'') \<and>
     admit_run (sample_admission\<lparr>ak_now := 50\<rparr>) sample_fresh 50
       (admission_trace [OpClaimDispatches 20 30 None sample_fresh, OpMarkDispatched ''r2'' ''r2''] s1) =
     (Inr (receipt_of ''k'' ''r2'' ''t1''),
      admission_trace [OpClaimDispatches 20 30 None sample_fresh, OpMarkDispatched ''r2'' ''r2''] s1)"
  using admission_exactly_once [OF sample_admitted sample_replay sample_new,
      of "[OpClaimDispatches 20 30 None sample_fresh, OpMarkDispatched ''r2'' ''r2'']"
         "sample_admission\<lparr>ak_now := 50\<rparr>" sample_fresh 50] sample_admitted
  by (auto simp: sample_admission_def)

end
