(* ===== verification/StoreThreads.thy ===== *)
theory StoreThreads
  imports StoreRuns
begin

text \<open>
  The \<^verbatim>\<open>threads\<close> repository of \<^verbatim>\<open>memory-skein-store.ts\<close>, with \<^verbatim>\<open>#matchingThreads\<close>. A thread's
  retention policy and its deadline live beside the row; deleting a thread takes its runs, what is
  kept beside them, and its crons with it.
\<close>

section \<open>Searching\<close>

datatype thread_sort = SortThreadId | SortStatus | SortCreatedAt | SortUpdatedAt | SortStateUpdatedAt

datatype sort_order = Asc | Desc

record thread_search_query =
  tq_metadata :: "jsval option"
  tq_enforced_metadata :: "jsval option"
  tq_exclude_metadata :: "jsval list"
  tq_values :: "jsval option"
  tq_status :: "thread_status option"
  tq_ids :: "ident list option"
  tq_limit :: "nat option"
  tq_offset :: "nat option"
  tq_sort_by :: "thread_sort option"
  tq_sort_order :: "sort_order option"

fun thread_status_text :: "thread_status \<Rightarrow> string" where
  "thread_status_text Idle = ''idle''"
| "thread_status_text Busy = ''busy''"
| "thread_status_text ThreadInterrupted = ''interrupted''"
| "thread_status_text ThreadErrored = ''error''"

fun compare_threads_by :: "thread_sort \<Rightarrow> thread \<Rightarrow> thread \<Rightarrow> int" where
  "compare_threads_by SortThreadId a b = compare_of (t_thread_id a) (t_thread_id b)"
| "compare_threads_by SortStatus a b =
     compare_of (thread_status_text (t_status a)) (thread_status_text (t_status b))"
| "compare_threads_by SortCreatedAt a b = compare_of (t_created_at a) (t_created_at b)"
| "compare_threads_by SortUpdatedAt a b = compare_of (t_updated_at a) (t_updated_at b)"
| "compare_threads_by SortStateUpdatedAt a b = compare_of (t_state_updated_at a) (t_state_updated_at b)"

definition sort_direction :: "sort_order option \<Rightarrow> int" where
  "sort_direction order = (if order = Some Asc then 1 else - 1)"

definition thread_matches :: "thread_search_query \<Rightarrow> thread \<Rightarrow> bool" where
  "thread_matches q t \<longleftrightarrow>
     unconstrained (tq_ids q) (\<lambda>ids. t_thread_id t \<in> set ids) \<and>
     unconstrained (tq_status q) (\<lambda>st. t_status t = st) \<and>
     is_metadata_subset (t_metadata t) (tq_metadata q) \<and>
     \<not> list_ex (\<lambda>excluded. is_metadata_subset (t_metadata t) (Some excluded)) (tq_exclude_metadata q) \<and>
     is_metadata_subset (t_metadata t) (tq_enforced_metadata q) \<and>
     is_metadata_subset (t_values t) (tq_values q)"

definition matching_threads :: "thread_search_query \<Rightarrow> mem_store \<Rightarrow> thread list" where
  "matching_threads q s =
     js_sort
       (directed (sort_direction (tq_sort_order q))
          (then_by (compare_threads_by (or_default (tq_sort_by q) SortCreatedAt))
             (\<lambda>a b. compare_of (t_thread_id a) (t_thread_id b))))
       (filter (thread_matches q) (jm_values (ms_threads s)))"

section \<open>Operations\<close>

definition threads_get_ttl :: "ident \<Rightarrow> mem_store \<Rightarrow> thread_retention" where
  "threads_get_ttl thread_id s =
     (case jm_get (ms_thread_retention s) thread_id of
        Some r \<Rightarrow> r
      | None \<Rightarrow>
          \<lparr>tr_ttl = (case ms_thread_ttl s of
                       None \<Rightarrow> Undefined
                     | Some c \<Rightarrow> (case tt_default_ttl c of None \<Rightarrow> Undefined | Some m \<Rightarrow> Value m)),
           tr_strategy = (case ms_thread_ttl s of
                            None \<Rightarrow> DeleteThread
                          | Some c \<Rightarrow> or_default (tt_strategy c) DeleteThread)\<rparr>)"

definition threads_list :: "(string \<Rightarrow> string \<Rightarrow> int) \<Rightarrow> mem_store \<Rightarrow> thread_view list" where
  "threads_list lc s =
     map (project_thread s)
       (page (sort_by_created_at_then_id lc t_created_at t_thread_id (jm_values (ms_threads s)))
          0 (page_limit s None))"

definition threads_search :: "thread_search_query \<Rightarrow> mem_store \<Rightarrow> thread_view list" where
  "threads_search q s =
     map (project_thread s)
       (page (matching_threads q s) (or_default (tq_offset q) 0) (page_limit s (tq_limit q)))"

definition threads_count :: "thread_search_query \<Rightarrow> mem_store \<Rightarrow> nat" where
  "threads_count q s = length (matching_threads q s)"

definition thread_get :: "ident \<Rightarrow> mem_store \<Rightarrow> thread_view option" where
  "thread_get thread_id s = map_option (project_thread s) (jm_get (ms_threads s) thread_id)"

definition thread_create_op :: "thread_create \<Rightarrow> ident \<Rightarrow> instant \<Rightarrow> mem_store \<Rightarrow> thread_view outcome" where
  "thread_create_op input uuid now s =
     (let thread_id = or_default (tc_thread_id input) uuid
      in if jm_has (ms_threads s) thread_id then (Inl (conflict None), s)
         else
           let t = \<lparr>t_thread_id = thread_id, t_created_at = now, t_updated_at = now,
                    t_state_updated_at = now, t_metadata = or_default (tc_metadata input) (JObj []),
                    t_status = or_default (tc_status input) Idle, t_values = JObj [],
                    t_interrupts = JObj [], t_error = None\<rparr>;
               s1 = set_thread_expiry thread_id (tc_ttl input) (tc_ttl_strategy input) now s;
               s2 = s1\<lparr>ms_threads := jm_set thread_id t (ms_threads s1)\<rparr>
           in (Inr (project_thread s2 t), s2))"

definition patched_thread :: "thread_update \<Rightarrow> instant \<Rightarrow> thread \<Rightarrow> thread" where
  "patched_thread patch now t =
     t\<lparr>t_metadata := or_default (tu_metadata patch) (t_metadata t),
       t_status := or_default (tu_status patch) (t_status t),
       t_values := or_default (tu_values patch) (t_values t),
       t_interrupts := or_default (tu_interrupts patch) (t_interrupts t),
       t_updated_at := now,
       t_state_updated_at := (if tu_values patch \<noteq> None then now else t_state_updated_at t),
       t_error := (case tu_error patch of Undefined \<Rightarrow> t_error t | Null \<Rightarrow> None | Value e \<Rightarrow> Some e)\<rparr>"

definition restarts_expiry :: "ident \<Rightarrow> thread_update \<Rightarrow> mem_store \<Rightarrow> bool" where
  "restarts_expiry thread_id patch s \<longleftrightarrow>
     tu_ttl patch \<noteq> Undefined \<or> tu_ttl_strategy patch \<noteq> None \<or>
     tu_values patch \<noteq> None \<and>
     (case jm_get (ms_thread_retention s) thread_id of
        Some r \<Rightarrow> Some (tr_strategy r)
      | None \<Rightarrow> (case ms_thread_ttl s of None \<Rightarrow> None | Some c \<Rightarrow> tt_strategy c)) = Some KeepLatest"

definition thread_update_op ::
  "ident \<Rightarrow> thread_update \<Rightarrow> instant \<Rightarrow> mem_store \<Rightarrow> thread_view outcome" where
  "thread_update_op thread_id patch now s =
     (case jm_get (ms_threads s) thread_id of
        None \<Rightarrow> (Inl not_found, s)
      | Some existing \<Rightarrow>
          let t = patched_thread patch now existing;
              s1 = (if restarts_expiry thread_id patch s
                    then set_thread_expiry thread_id (tu_ttl patch) (tu_ttl_strategy patch) now s
                    else s);
              s2 = s1\<lparr>ms_threads := jm_set thread_id t (ms_threads s1)\<rparr>
          in (Inr (project_thread s2 t), s2))"

definition thread_copy :: "ident \<Rightarrow> ident \<Rightarrow> instant \<Rightarrow> mem_store \<Rightarrow> thread_view outcome" where
  "thread_copy thread_id uuid now s =
     (case jm_get (ms_threads s) thread_id of
        None \<Rightarrow> (Inl not_found, s)
      | Some existing \<Rightarrow>
          let t = existing\<lparr>t_thread_id := uuid, t_created_at := now, t_updated_at := now,
                           t_state_updated_at := now\<rparr>;
              s1 = set_thread_expiry uuid Undefined None now s;
              s2 = s1\<lparr>ms_threads := jm_set uuid t (ms_threads s1)\<rparr>
          in (Inr (project_thread s2 t), s2))"

definition expired_entry :: "instant \<Rightarrow> mem_store \<Rightarrow> ident \<times> instant \<Rightarrow> bool" where
  "expired_entry now s entry \<longleftrightarrow>
     snd entry \<le> now \<and> jm_has (ms_threads s) (fst entry) \<and>
     ((case jm_get (ms_thread_retention s) (fst entry) of
         None \<Rightarrow> None | Some r \<Rightarrow> Some (tr_strategy r)) \<noteq> Some KeepLatest \<or>
      \<not> list_ex (is_active_on (fst entry)) (jm_values (ms_runs s)))"

definition threads_list_expired :: "instant \<Rightarrow> nat \<Rightarrow> mem_store \<Rightarrow> ident list" where
  "threads_list_expired now limit s =
     map fst
       (page (js_sort (\<lambda>a b. snd a - snd b) (filter (expired_entry now s) (ms_thread_expiry s)))
          0 (min limit (ms_max_page_size s)))"

text \<open>The two loops of the cascade, over the entries as they were.\<close>

fun delete_runs_of :: "ident \<Rightarrow> (ident, run) jsmap \<Rightarrow> mem_store \<Rightarrow> mem_store" where
  "delete_runs_of thread_id [] s = s"
| "delete_runs_of thread_id ((run_id, r) # rest) s =
     delete_runs_of thread_id rest (if r_thread_id r = thread_id then run_delete run_id s else s)"

fun delete_crons_of :: "ident \<Rightarrow> (ident, cron) jsmap \<Rightarrow> mem_store \<Rightarrow> mem_store" where
  "delete_crons_of thread_id [] s = s"
| "delete_crons_of thread_id ((cron_id, c) # rest) s =
     delete_crons_of thread_id rest
       (if c_thread_id c = Some thread_id
        then s\<lparr>ms_crons := jm_delete cron_id (ms_crons s),
               ms_cron_auth := jm_delete cron_id (ms_cron_auth s)\<rparr>
        else s)"

definition thread_delete :: "ident \<Rightarrow> mem_store \<Rightarrow> mem_store" where
  "thread_delete thread_id s =
     (let s1 = s\<lparr>ms_threads := jm_delete thread_id (ms_threads s),
                 ms_thread_expiry := jm_delete thread_id (ms_thread_expiry s),
                 ms_thread_retention := jm_delete thread_id (ms_thread_retention s)\<rparr>;
          s2 = delete_runs_of thread_id (ms_runs s1) s1
      in delete_crons_of thread_id (ms_crons s2) s2)"

section \<open>The invariant\<close>

lemma set_thread_expiry_store_inv:
  assumes "store_inv s" "t_thread_id t = i"
  shows "store_inv ((set_thread_expiry i ttl st now s)\<lparr>ms_threads := jm_set i t (ms_threads s)\<rparr>)"
proof -
  have inv: "jm_wf (ms_thread_retention s)" "beside (ms_thread_expiry s) (ms_thread_retention s)"
    "fst ` set (ms_thread_retention s) \<subseteq> fst ` set (ms_threads s)" "keyed_by t_thread_id (ms_threads s)"
    using assms by (simp_all add: store_inv_def thread_inv_def beside_def)
  note expiry = set_thread_expiry_beside [OF inv(1,2), of i ttl st now]
  have "thread_inv ((set_thread_expiry i ttl st now s)\<lparr>ms_threads := jm_set i t (ms_threads s)\<rparr>)"
    using expiry inv(3,4) assms(2)
    by (auto simp: thread_inv_def beside_def frame_simps set_thread_expiry_retention jm_keys_set
        intro: keyed_by_set)
  with assms(1) show ?thesis
    by (simp add: store_inv_def run_inv_def assistant_inv_def cron_inv_def item_inv_def ledger_inv_def
        frame_simps)
qed

lemma thread_create_store_inv: "store_inv s \<Longrightarrow> store_inv (snd (thread_create_op input uuid now s))"
  using set_thread_expiry_store_inv [of s]
  by (simp add: thread_create_op_def Let_def set_thread_expiry_frame)

lemma thread_copy_store_inv: "store_inv s \<Longrightarrow> store_inv (snd (thread_copy i uuid now s))"
  using set_thread_expiry_store_inv [of s]
  by (simp add: thread_copy_def Let_def set_thread_expiry_frame split: option.split)

lemma store_inv_set_thread:
  assumes "store_inv s" "t_thread_id t = i"
  shows "store_inv (s\<lparr>ms_threads := jm_set i t (ms_threads s)\<rparr>)"
  using assms
  by (auto simp: store_inv_def thread_inv_def run_inv_def assistant_inv_def cron_inv_def item_inv_def
      ledger_inv_def beside_def jm_keys_set intro: keyed_by_set)

lemma thread_update_store_inv:
  assumes inv: "store_inv s"
  shows "store_inv (snd (thread_update_op i patch now s))"
proof (cases "map_of (ms_threads s) i")
  case None
  with inv show ?thesis by (simp add: thread_update_op_def)
next
  case (Some t)
  then have "t_thread_id (patched_thread patch now t) = i"
    using inv by (auto simp: store_inv_def thread_inv_def patched_thread_def dest: keyed_by_get)
  from set_thread_expiry_store_inv [OF inv this] store_inv_set_thread [OF inv this] Some show ?thesis
    by (simp add: thread_update_op_def Let_def set_thread_expiry_frame)
qed

section \<open>The cascade\<close>

lemma delete_runs_of_facts:
  "ms_runs (delete_runs_of t rows s) =
     filter (\<lambda>e. \<not> (\<exists>r. (fst e, r) \<in> set rows \<and> r_thread_id r = t)) (ms_runs s)"
  "ms_crons (delete_runs_of t rows s) = ms_crons s"
  "ms_cron_auth (delete_runs_of t rows s) = ms_cron_auth s"
  "ms_threads (delete_runs_of t rows s) = ms_threads s"
  "ms_thread_retention (delete_runs_of t rows s) = ms_thread_retention s"
  "ms_thread_expiry (delete_runs_of t rows s) = ms_thread_expiry s"
  "ms_items (delete_runs_of t rows s) = ms_items s"
  "ms_deliveries (delete_runs_of t rows s) = ms_deliveries s"
  by (induction t rows s rule: delete_runs_of.induct)
     (auto simp: run_delete_def frame_simps AList.delete_eq intro!: filter_cong)

lemma delete_runs_of_store_inv: "store_inv s \<Longrightarrow> store_inv (delete_runs_of t rows s)"
  by (induction t rows s rule: delete_runs_of.induct) (simp_all add: run_delete_store_inv)

lemma delete_crons_of_facts:
  "ms_crons (delete_crons_of t rows s) =
     filter (\<lambda>e. \<not> (\<exists>c. (fst e, c) \<in> set rows \<and> c_thread_id c = Some t)) (ms_crons s)"
  "ms_runs (delete_crons_of t rows s) = ms_runs s"
  "ms_run_kwargs (delete_crons_of t rows s) = ms_run_kwargs s"
  "ms_run_results (delete_crons_of t rows s) = ms_run_results s"
  "ms_dispatches (delete_crons_of t rows s) = ms_dispatches s"
  "ms_threads (delete_crons_of t rows s) = ms_threads s"
  "ms_thread_retention (delete_crons_of t rows s) = ms_thread_retention s"
  "ms_thread_expiry (delete_crons_of t rows s) = ms_thread_expiry s"
  "ms_items (delete_crons_of t rows s) = ms_items s"
  "ms_deliveries (delete_crons_of t rows s) = ms_deliveries s"
  by (induction t rows s rule: delete_crons_of.induct) (auto simp: AList.delete_eq intro!: filter_cong)

lemma cron_delete_rows_store_inv:
  assumes "store_inv s"
  shows "store_inv (s\<lparr>ms_crons := jm_delete i (ms_crons s), ms_cron_auth := jm_delete i (ms_cron_auth s)\<rparr>)"
  using assms
  by (auto simp: store_inv_def inv_defs jm_keys_delete intro: keyed_by_delete beside_delete_both)

lemma delete_crons_of_store_inv: "store_inv s \<Longrightarrow> store_inv (delete_crons_of t rows s)"
  by (induction t rows s rule: delete_crons_of.induct) (simp_all add: cron_delete_rows_store_inv)

lemma thread_delete_rows_store_inv:
  assumes "store_inv s"
  shows "store_inv (s\<lparr>ms_threads := jm_delete i (ms_threads s),
                      ms_thread_expiry := jm_delete i (ms_thread_expiry s),
                      ms_thread_retention := jm_delete i (ms_thread_retention s)\<rparr>)"
  using assms
  by (simp add: store_inv_def run_inv_def thread_inv_def assistant_inv_def cron_inv_def item_inv_def
      ledger_inv_def keyed_by_delete beside_delete_both)

lemma thread_delete_store_inv: "store_inv s \<Longrightarrow> store_inv (thread_delete i s)"
  by (simp add: thread_delete_def Let_def thread_delete_rows_store_inv delete_runs_of_store_inv
      delete_crons_of_store_inv)

section \<open>Properties\<close>

lemma run_absent_beside:
  assumes "store_inv s" "map_of (ms_runs s) i = None"
  shows "map_of (ms_run_kwargs s) i = None" "map_of (ms_run_results s) i = None"
    "map_of (ms_dispatches s) i = None"
  using assms by (auto simp: store_inv_def run_inv_def beside_def map_of_eq_None_iff)

text \<open>
  Deleting a thread removes exactly what belongs to it: the thread with its retention and
  deadline, its runs with their payloads, results and dispatch intents, and its crons with their
  credentials. Every other thread, run and cron, and all items and callbacks, stay as they were.
\<close>

theorem thread_delete_cascades:
  assumes inv: "store_inv s" and s': "s' = thread_delete t s"
  shows "jm_get (ms_threads s') t = None \<and> jm_get (ms_thread_retention s') t = None \<and>
         jm_get (ms_thread_expiry s') t = None \<and>
         (\<forall>i. run_get i s' = (case run_get i s of
                None \<Rightarrow> None | Some r \<Rightarrow> if r_thread_id r = t then None else Some r)) \<and>
         (\<forall>i. run_get i s' = None \<longrightarrow>
                get_kwargs i s' = None \<and> jm_get (ms_run_results s') i = None \<and> jm_get (ms_dispatches s') i = None) \<and>
         (\<forall>i. jm_get (ms_crons s') i = (case jm_get (ms_crons s) i of
                None \<Rightarrow> None | Some c \<Rightarrow> if c_thread_id c = Some t then None else Some c)) \<and>
         (\<forall>u. u \<noteq> t \<longrightarrow> jm_get (ms_threads s') u = jm_get (ms_threads s) u) \<and>
         ms_items s' = ms_items s \<and> ms_deliveries s' = ms_deliveries s"
proof -
  have wf: "jm_wf (ms_runs s)" "jm_wf (ms_crons s)"
    using inv by (simp_all add: store_inv_def run_inv_def cron_inv_def keyed_by_def)
  have runs: "ms_runs s' = filter (\<lambda>e. \<not> (\<exists>r. (fst e, r) \<in> set (ms_runs s) \<and> r_thread_id r = t)) (ms_runs s)"
    by (simp add: s' thread_delete_def Let_def delete_crons_of_facts delete_runs_of_facts)
  have crons: "ms_crons s' = filter (\<lambda>e. \<not> (\<exists>c. (fst e, c) \<in> set (ms_crons s) \<and> c_thread_id c = Some t)) (ms_crons s)"
    by (simp add: s' thread_delete_def Let_def delete_crons_of_facts delete_runs_of_facts)
  have run: "run_get i s' = (case run_get i s of None \<Rightarrow> None | Some r \<Rightarrow> if r_thread_id r = t then None else Some r)"
    for i
    by (simp add: run_get_def runs jm_get_filter [OF wf(1)] jm_get_in [OF wf(1)] split: option.split)
  have cron: "jm_get (ms_crons s') i =
      (case jm_get (ms_crons s) i of None \<Rightarrow> None | Some c \<Rightarrow> if c_thread_id c = Some t then None else Some c)" for i
    by (simp add: crons jm_get_filter [OF wf(2)] jm_get_in [OF wf(2)] split: option.split)
  have inv': "store_inv s'" using inv by (simp add: s' thread_delete_store_inv)
  have gone: "get_kwargs i s' = None \<and> jm_get (ms_run_results s') i = None \<and> jm_get (ms_dispatches s') i = None"
    if "run_get i s' = None" for i
    using run_absent_beside [OF inv'] that by (simp add: run_get_def get_kwargs_def)
  have rest: "jm_get (ms_threads s') t = None" "jm_get (ms_thread_retention s') t = None"
    "jm_get (ms_thread_expiry s') t = None" "ms_items s' = ms_items s" "ms_deliveries s' = ms_deliveries s"
    "u \<noteq> t \<Longrightarrow> jm_get (ms_threads s') u = jm_get (ms_threads s) u" for u
    by (simp_all add: s' thread_delete_def Let_def delete_crons_of_facts delete_runs_of_facts jm_get_delete)
  show ?thesis by (intro conjI allI impI run cron gone rest)
qed

text \<open>
  The sweep of expired threads lists exactly the threads whose deadline has passed, soonest
  first, and never a \<^verbatim>\<open>keep_latest\<close> thread that still has an active run.
\<close>

theorem list_expired_exact:
  assumes inv: "store_inv s" and room: "length (ms_thread_expiry s) \<le> min limit (ms_max_page_size s)"
  shows "(\<forall>t. t \<in> set (threads_list_expired now limit s) \<longleftrightarrow>
            (\<exists>due. jm_get (ms_thread_expiry s) t = Some due \<and> due \<le> now) \<and>
            \<not> (tr_strategy (threads_get_ttl t s) = KeepLatest \<and> has_active_run t s)) \<and>
         sorted (map (\<lambda>t. the (jm_get (ms_thread_expiry s) t)) (threads_list_expired now limit s))"
proof -
  let ?rows = "js_sort (\<lambda>a b. snd a - snd b) (filter (expired_entry now s) (ms_thread_expiry s))"
  have wf: "jm_wf (ms_thread_expiry s)"
    and in_retention: "fst ` set (ms_thread_expiry s) \<subseteq> fst ` set (ms_thread_retention s)"
    and "fst ` set (ms_thread_retention s) \<subseteq> fst ` set (ms_threads s)"
    using inv by (simp_all add: store_inv_def thread_inv_def beside_def)
  then have in_threads: "fst ` set (ms_thread_expiry s) \<subseteq> fst ` set (ms_threads s)"
    by (rule_tac subset_trans)
  have "length ?rows \<le> min limit (ms_max_page_size s)"
    by (rule order_trans [OF _ room]) simp
  then have listed: "threads_list_expired now limit s = map fst ?rows"
    by (simp add: threads_list_expired_def page_def)
  have entry: "expired_entry now s (u, due) \<longleftrightarrow>
      due \<le> now \<and> \<not> (tr_strategy (threads_get_ttl u s) = KeepLatest \<and> has_active_run u s)"
    if "jm_get (ms_thread_expiry s) u = Some due" for u due
  proof -
    have "u \<in> fst ` set (ms_thread_expiry s)" using that by (rule get_in_keys)
    then have "jm_has (ms_threads s) u" "jm_has (ms_thread_retention s) u"
      using in_threads in_retention unfolding jm_has_dom by blast+
    moreover from this(2) obtain r where "jm_get (ms_thread_retention s) u = Some r"
      by (auto simp: jm_has_iff)
    ultimately show ?thesis
      by (simp add: expired_entry_def threads_get_ttl_def has_active_run_def)
  qed
  have exact: "t \<in> set (threads_list_expired now limit s) \<longleftrightarrow>
      (\<exists>due. jm_get (ms_thread_expiry s) t = Some due \<and> due \<le> now) \<and>
      \<not> (tr_strategy (threads_get_ttl t s) = KeepLatest \<and> has_active_run t s)" for t
  proof -
    have "t \<in> set (threads_list_expired now limit s) \<longleftrightarrow>
        (\<exists>due. (t, due) \<in> set (ms_thread_expiry s) \<and> expired_entry now s (t, due))"
      unfolding listed by force
    also have "\<dots> \<longleftrightarrow> (\<exists>due. jm_get (ms_thread_expiry s) t = Some due \<and> expired_entry now s (t, due))"
      by (simp only: jm_get_in [OF wf])
    also have "\<dots> \<longleftrightarrow> (\<exists>due. jm_get (ms_thread_expiry s) t = Some due \<and> due \<le> now \<and>
        \<not> (tr_strategy (threads_get_ttl t s) = KeepLatest \<and> has_active_run t s))"
      using entry by (metis (no_types, lifting))
    finally show ?thesis by blast
  qed
  have cmp: "js_comparator (\<lambda>a b :: ident \<times> int. snd a - snd b)" by unfold_locales auto
  have "sorted_wrt (\<lambda>a b. snd a \<le> snd b) ?rows"
    by (rule sorted_wrt_mono_rel [rotated, OF js_comparator.sort_sorted [OF cmp]]) simp
  then have "sorted (map snd ?rows)" by (simp add: sorted_map)
  moreover have "map (\<lambda>t. the (jm_get (ms_thread_expiry s) t)) (map fst ?rows) = map snd ?rows"
    by (auto simp: map_of_is_SomeI [OF wf])
  ultimately have sorted: "sorted (map (\<lambda>t. the (jm_get (ms_thread_expiry s) t)) (threads_list_expired now limit s))"
    by (simp only: listed)
  show ?thesis by (intro conjI allI exact sorted)
qed

subsection \<open>Witnesses\<close>

definition two_threads :: mem_store where
  "two_threads = snd (create_run \<lparr>rc_thread_id = ''t1'', rc_assistant_id = ''a'', rc_run_id = Some ''r1'',
       rc_status = None, rc_metadata = None, rc_multitask_strategy = None, rc_kwargs = None\<rparr> ''u'' 6
     (snd (thread_create_op \<lparr>tc_thread_id = Some ''t1'', tc_metadata = None, tc_status = None,
        tc_ttl = Value 1, tc_ttl_strategy = None\<rparr> ''u'' 5
       (snd (thread_create_op \<lparr>tc_thread_id = Some ''t2'', tc_metadata = None, tc_status = None,
          tc_ttl = Undefined, tc_ttl_strategy = None\<rparr> ''u'' 4 empty_store)))))"

lemma two_threads_inv: "store_inv two_threads"
  unfolding two_threads_def
  by (intro create_run_store_inv thread_create_store_inv empty_store_inv)

lemmas two_threads_simps =
  two_threads_def thread_create_op_def create_run_def set_thread_expiry_def minutes_ms_def empty_store_def
  Let_def jm_has_def

theorem thread_delete_cascades_witness:
  "store_inv two_threads \<and> run_get ''r1'' two_threads \<noteq> None \<and>
   run_get ''r1'' (thread_delete ''t1'' two_threads) = None \<and>
   jm_get (ms_threads (thread_delete ''t1'' two_threads)) ''t2'' \<noteq> None"
proof -
  have "run_get ''r1'' two_threads \<noteq> None" "jm_get (ms_threads two_threads) ''t2'' \<noteq> None"
    "\<And>r. run_get ''r1'' two_threads = Some r \<Longrightarrow> r_thread_id r = ''t1''"
    by (auto simp: two_threads_simps run_get_def)
  with thread_delete_cascades [OF two_threads_inv refl, of "''t1''"] two_threads_inv show ?thesis
    by (auto split: option.splits)
qed

theorem list_expired_exact_witness:
  "''t1'' \<in> set (threads_list_expired 70000 10 two_threads) \<and>
   ''t2'' \<notin> set (threads_list_expired 70000 10 two_threads)"
proof -
  have "length (ms_thread_expiry two_threads) \<le> min 10 (ms_max_page_size two_threads)"
    by (simp add: two_threads_simps)
  note exact = list_expired_exact [OF two_threads_inv this, THEN conjunct1]
  have "jm_get (ms_thread_expiry two_threads) ''t1'' = Some 60005"
    "jm_get (ms_thread_expiry two_threads) ''t2'' = None"
    "tr_strategy (threads_get_ttl ''t1'' two_threads) = DeleteThread"
    by (simp_all add: two_threads_simps threads_get_ttl_def)
  with exact show ?thesis by simp
qed

end
