(* ===== verification/JsText.thy ===== *)
theory JsText
  imports Prelude
begin

text \<open>
  The string methods the store's text searches use, on 8-bit code units: \<^verbatim>\<open>toLowerCase\<close> (ASCII and
  Latin-1 letters) and \<^verbatim>\<open>includes\<close>.
\<close>

definition lower_unit :: "char \<Rightarrow> char" where
  "lower_unit c =
     (let n = of_char c :: nat
      in if 65 \<le> n \<and> n \<le> 90 \<or> 192 \<le> n \<and> n \<le> 222 \<and> n \<noteq> 215 then char_of (n + 32) else c)"

definition to_lower_case :: "string \<Rightarrow> string" where
  "to_lower_case s = map lower_unit s"

fun text_includes :: "string \<Rightarrow> string \<Rightarrow> bool" where
  "text_includes [] needle = (needle = [])"
| "text_includes (c # cs) needle =
     (take (length needle) (c # cs) = needle \<or> text_includes cs needle)"

lemma text_includes_iff: "text_includes s needle \<longleftrightarrow> (\<exists>before after. s = before @ needle @ after)"
proof (induction s)
  case Nil
  then show ?case by simp
next
  case (Cons c cs)
  have "take (length needle) (c # cs) = needle \<longleftrightarrow> (\<exists>after. c # cs = [] @ needle @ after)"
    by (metis append_Nil append_eq_conv_conj append_take_drop_id)
  moreover have "text_includes cs needle \<longleftrightarrow> (\<exists>before after. c # cs = (c # before) @ needle @ after)"
    by (simp add: Cons.IH)
  ultimately have "text_includes (c # cs) needle \<longleftrightarrow>
      (\<exists>after. c # cs = [] @ needle @ after) \<or> (\<exists>before after. c # cs = (c # before) @ needle @ after)"
    by (simp only: text_includes.simps)
  also have "\<dots> \<longleftrightarrow> (\<exists>before after. c # cs = before @ needle @ after)"
    by (metis append_Cons list.inject neq_Nil_conv)
  finally show ?case .
qed

lemma text_includes_refl: "text_includes s s"
  unfolding text_includes_iff by (rule exI [of _ "[]"], rule exI [of _ "[]"]) simp

end
