(* ===== verification/StoreAssistants.thy ===== *)
theory StoreAssistants
  imports MemoryStore JsonText JsText
begin

text \<open>
  The \<^verbatim>\<open>assistants\<close> repository of \<^verbatim>\<open>memory-skein-store.ts\<close>. The live row of an assistant is the
  active version; every version ever minted is kept as an immutable snapshot, so a rollback
  (\<open>set_latest\<close>) only moves the live row.
\<close>

section \<open>Operations\<close>

definition to_version :: "assistant \<Rightarrow> instant option \<Rightarrow> assistant_version" where
  "to_version a created_at =
     \<lparr>av_assistant_id = a_assistant_id a, av_graph_id = a_graph_id a, av_config = a_config a,
      av_context = a_context a, av_created_at = or_default created_at (a_created_at a),
      av_metadata = a_metadata a, av_version = a_version a, av_name = a_name a,
      av_description = a_description a\<rparr>"

fun max_version_loop :: "ident \<Rightarrow> nat \<Rightarrow> assistant_version list \<Rightarrow> nat" where
  "max_version_loop assistant_id best [] = best"
| "max_version_loop assistant_id best (v # vs) =
     max_version_loop assistant_id
       (if av_assistant_id v = assistant_id \<and> best < av_version v then av_version v else best) vs"

definition max_version_of :: "ident \<Rightarrow> mem_store \<Rightarrow> nat" where
  "max_version_of assistant_id s = max_version_loop assistant_id 0 (jm_values (ms_assistant_versions s))"

definition delete_versions_of :: "ident \<Rightarrow> mem_store \<Rightarrow> mem_store" where
  "delete_versions_of assistant_id s =
     s\<lparr>ms_assistant_versions :=
         filter (\<lambda>e. av_assistant_id (snd e) \<noteq> assistant_id) (ms_assistant_versions s)\<rparr>"

datatype assistant_sort = SortAssistantId | SortGraphId | SortName | SortACreatedAt | SortAUpdatedAt

record assistant_search_query =
  aq_graph_id :: "ident option"
  aq_name :: "string option"
  aq_substring :: bool
  aq_metadata :: "jsval option"
  aq_limit :: "nat option"
  aq_offset :: "nat option"
  aq_sort_by :: "assistant_sort option"
  aq_ascending :: bool

fun compare_assistants_by :: "assistant_sort \<Rightarrow> assistant \<Rightarrow> assistant \<Rightarrow> int" where
  "compare_assistants_by SortAssistantId a b = compare_of (a_assistant_id a) (a_assistant_id b)"
| "compare_assistants_by SortGraphId a b = compare_of (a_graph_id a) (a_graph_id b)"
| "compare_assistants_by SortName a b = compare_of (a_name a) (a_name b)"
| "compare_assistants_by SortACreatedAt a b = compare_of (a_created_at a) (a_created_at b)"
| "compare_assistants_by SortAUpdatedAt a b = compare_of (a_updated_at a) (a_updated_at b)"

definition assistant_matches :: "assistant_search_query \<Rightarrow> assistant \<Rightarrow> bool" where
  "assistant_matches q a \<longleftrightarrow>
     (case aq_graph_id q of None \<Rightarrow> True | Some g \<Rightarrow> a_graph_id a = g) \<and>
     (case aq_name q of
        None \<Rightarrow> True
      | Some n \<Rightarrow> if aq_substring q then text_includes (to_lower_case (a_name a)) (to_lower_case n)
                  else a_name a = n) \<and>
     is_metadata_subset (a_metadata a) (aq_metadata q)"

definition matching_assistants :: "assistant_search_query \<Rightarrow> mem_store \<Rightarrow> assistant list" where
  "matching_assistants q s =
     js_sort
       (directed (if aq_ascending q then 1 else - 1)
          (then_by (compare_assistants_by (or_default (aq_sort_by q) SortACreatedAt))
             (\<lambda>a b. compare_of (a_assistant_id a) (a_assistant_id b))))
       (filter (assistant_matches q) (jm_values (ms_assistants s)))"

definition assistants_list :: "(string \<Rightarrow> string \<Rightarrow> int) \<Rightarrow> mem_store \<Rightarrow> assistant list" where
  "assistants_list lc s =
     page (sort_by_created_at_then_id lc a_created_at a_assistant_id (jm_values (ms_assistants s)))
       0 (page_limit s None)"

definition assistants_search :: "assistant_search_query \<Rightarrow> mem_store \<Rightarrow> assistant list" where
  "assistants_search q s =
     page (matching_assistants q s) (or_default (aq_offset q) 0) (page_limit s (aq_limit q))"

definition assistants_count :: "assistant_search_query \<Rightarrow> mem_store \<Rightarrow> nat" where
  "assistants_count q s = length (matching_assistants q s)"

definition assistant_get :: "ident \<Rightarrow> mem_store \<Rightarrow> assistant option" where
  "assistant_get assistant_id s = jm_get (ms_assistants s) assistant_id"

record assistant_create =
  ac_assistant_id :: "ident option"
  ac_graph_id :: ident
  ac_config :: "jsval option"
  ac_context :: "jsval option"
  ac_metadata :: "jsval option"
  ac_name :: "string option"
  ac_description :: "string option"

record assistant_patch =
  ap_graph_id :: "ident option"
  ap_name :: "string option"
  ap_description :: "string option"
  ap_config :: "jsval option"
  ap_context :: "jsval option"
  ap_metadata :: "jsval option"

definition new_assistant :: "assistant_create \<Rightarrow> ident \<Rightarrow> instant \<Rightarrow> assistant" where
  "new_assistant input assistant_id now =
     \<lparr>a_assistant_id = assistant_id, a_graph_id = ac_graph_id input,
      a_config = or_default (ac_config input) (JObj []),
      a_context = or_default (ac_context input) (JObj []),
      a_created_at = now, a_updated_at = now,
      a_metadata = or_default (ac_metadata input) (JObj []), a_version = 1,
      a_name = or_default (ac_name input) (ac_graph_id input),
      a_description = ac_description input\<rparr>"

definition assistant_create_op ::
  "assistant_create \<Rightarrow> ident \<Rightarrow> instant \<Rightarrow> mem_store \<Rightarrow> assistant outcome" where
  "assistant_create_op input uuid now s =
     (let assistant_id = or_default (ac_assistant_id input) uuid
      in if jm_has (ms_assistants s) assistant_id then (Inl (conflict None), s)
         else
           let a = new_assistant input assistant_id now
           in (Inr a,
               s\<lparr>ms_assistant_versions :=
                   jm_set (version_key assistant_id 1) (to_version a None) (ms_assistant_versions s),
                 ms_assistants := jm_set assistant_id a (ms_assistants s)\<rparr>))"

definition patched_assistant :: "assistant_patch \<Rightarrow> nat \<Rightarrow> instant \<Rightarrow> assistant \<Rightarrow> assistant" where
  "patched_assistant patch next now a =
     a\<lparr>a_graph_id := or_default (ap_graph_id patch) (a_graph_id a),
       a_name := or_default (ap_name patch) (a_name a),
       a_description := (case ap_description patch of Some d \<Rightarrow> Some d | None \<Rightarrow> a_description a),
       a_config := or_default (ap_config patch) (a_config a),
       a_context := or_default (ap_context patch) (a_context a),
       a_metadata := (case ap_metadata patch of Some m \<Rightarrow> js_spread (a_metadata a) m | None \<Rightarrow> a_metadata a),
       a_version := next,
       a_updated_at := now\<rparr>"

definition assistant_update_op ::
  "ident \<Rightarrow> assistant_patch \<Rightarrow> instant \<Rightarrow> mem_store \<Rightarrow> assistant outcome" where
  "assistant_update_op assistant_id patch now s =
     (case jm_get (ms_assistants s) assistant_id of
        None \<Rightarrow> (Inl not_found, s)
      | Some existing \<Rightarrow>
          let next = max_version_of assistant_id s + 1;
              a = patched_assistant patch next now existing
          in (Inr a,
              s\<lparr>ms_assistant_versions :=
                  jm_set (version_key assistant_id next) (to_version a (Some now)) (ms_assistant_versions s),
                ms_assistants := jm_set assistant_id a (ms_assistants s)\<rparr>))"

definition list_versions ::
  "ident \<Rightarrow> jsval option \<Rightarrow> nat option \<Rightarrow> nat option \<Rightarrow> mem_store \<Rightarrow> assistant_version list" where
  "list_versions assistant_id metadata offset limit s =
     page
       (js_sort (\<lambda>a b. int (av_version b) - int (av_version a))
          (filter (\<lambda>v. av_assistant_id v = assistant_id \<and> is_metadata_subset (av_metadata v) metadata)
             (jm_values (ms_assistant_versions s))))
       (or_default offset 0) (page_limit s limit)"

definition rolled_back :: "assistant_version \<Rightarrow> instant \<Rightarrow> assistant \<Rightarrow> assistant" where
  "rolled_back v now a =
     a\<lparr>a_graph_id := av_graph_id v, a_name := av_name v, a_description := av_description v,
       a_config := av_config v, a_context := av_context v, a_metadata := av_metadata v,
       a_version := av_version v, a_updated_at := now\<rparr>"

definition set_latest :: "ident \<Rightarrow> nat \<Rightarrow> instant \<Rightarrow> mem_store \<Rightarrow> assistant outcome" where
  "set_latest assistant_id version now s =
     (case jm_get (ms_assistants s) assistant_id of
        None \<Rightarrow> (Inl not_found, s)
      | Some existing \<Rightarrow>
          (case jm_get (ms_assistant_versions s) (version_key assistant_id version) of
             None \<Rightarrow> (Inl not_found, s)
           | Some target \<Rightarrow>
               let a = rolled_back target now existing
               in (Inr a, s\<lparr>ms_assistants := jm_set assistant_id a (ms_assistants s)\<rparr>)))"

definition assistant_delete :: "ident \<Rightarrow> mem_store \<Rightarrow> mem_store" where
  "assistant_delete assistant_id s =
     delete_versions_of assistant_id
       (s\<lparr>ms_assistants := jm_delete assistant_id (ms_assistants s)\<rparr>)"

section \<open>The invariant\<close>

lemma to_version_simps [simp]:
  "av_assistant_id (to_version a c) = a_assistant_id a"
  "av_version (to_version a c) = a_version a"
  by (simp_all add: to_version_def)

lemma new_assistant_simps [simp]:
  "a_assistant_id (new_assistant input i now) = i" "a_version (new_assistant input i now) = 1"
  by (simp_all add: new_assistant_def)

lemma patched_assistant_simps [simp]:
  "a_assistant_id (patched_assistant patch next now a) = a_assistant_id a"
  "a_version (patched_assistant patch next now a) = next"
  by (simp_all add: patched_assistant_def)

lemma rolled_back_simps [simp]:
  "a_assistant_id (rolled_back v now a) = a_assistant_id a"
  "a_version (rolled_back v now a) = av_version v"
  by (simp_all add: rolled_back_def)

lemma assistant_inv_set:
  assumes "assistant_inv s" "a_assistant_id a = i" "av_assistant_id v = i" "av_version v = a_version a"
  shows "assistant_inv (s\<lparr>ms_assistant_versions := jm_set (version_key i (a_version a)) v (ms_assistant_versions s),
                          ms_assistants := jm_set i a (ms_assistants s)\<rparr>)"
  using assms
  by (auto simp: assistant_inv_def jm_keys_set intro!: keyed_by_set dest!: in_jm_set)

lemma assistant_inv_move:
  assumes "assistant_inv s" "a_assistant_id a = i"
    "version_key i (a_version a) \<in> fst ` set (ms_assistant_versions s)"
  shows "assistant_inv (s\<lparr>ms_assistants := jm_set i a (ms_assistants s)\<rparr>)"
  using assms by (auto simp: assistant_inv_def intro!: keyed_by_set dest!: in_jm_set simp del: image_iff del: imageE)

lemma assistant_only_inv:
  "store_inv s \<Longrightarrow> assistant_inv (s\<lparr>ms_assistant_versions := vs, ms_assistants := as\<rparr>) \<Longrightarrow>
     store_inv (s\<lparr>ms_assistant_versions := vs, ms_assistants := as\<rparr>)"
  "store_inv s \<Longrightarrow> assistant_inv (s\<lparr>ms_assistants := as\<rparr>) \<Longrightarrow> store_inv (s\<lparr>ms_assistants := as\<rparr>)"
  by (simp_all add: store_inv_def run_inv_def thread_inv_def cron_inv_def item_inv_def ledger_inv_def)

lemma assistant_row_id: "store_inv s \<Longrightarrow> map_of (ms_assistants s) i = Some a \<Longrightarrow> a_assistant_id a = i"
  by (auto simp: store_inv_def assistant_inv_def dest: keyed_by_get)

lemma store_inv_assistant: "store_inv s \<Longrightarrow> assistant_inv s"
  by (simp add: store_inv_def)

lemma assistant_create_store_inv:
  assumes inv: "store_inv s"
  shows "store_inv (snd (assistant_create_op input uuid now s))"
proof -
  let ?i = "or_default (ac_assistant_id input) uuid"
  let ?a = "new_assistant input ?i now"
  have "assistant_inv (s\<lparr>ms_assistant_versions :=
          jm_set (version_key ?i (a_version ?a)) (to_version ?a None) (ms_assistant_versions s),
        ms_assistants := jm_set ?i ?a (ms_assistants s)\<rparr>)"
    by (rule assistant_inv_set) (simp_all add: store_inv_assistant inv)
  with inv show ?thesis
    by (simp add: assistant_create_op_def Let_def assistant_only_inv)
qed

lemma assistant_update_store_inv:
  assumes inv: "store_inv s"
  shows "store_inv (snd (assistant_update_op i patch now s))"
proof (cases "map_of (ms_assistants s) i")
  case None
  with inv show ?thesis by (simp add: assistant_update_op_def)
next
  case (Some a)
  let ?a = "patched_assistant patch (max_version_of i s + 1) now a"
  have "assistant_inv (s\<lparr>ms_assistant_versions :=
          jm_set (version_key i (a_version ?a)) (to_version ?a (Some now)) (ms_assistant_versions s),
        ms_assistants := jm_set i ?a (ms_assistants s)\<rparr>)"
    by (rule assistant_inv_set) (simp_all add: assistant_row_id [OF inv Some] store_inv_assistant inv)
  with inv Some show ?thesis
    by (simp add: assistant_update_op_def Let_def assistant_only_inv)
qed

lemma set_latest_store_inv:
  assumes inv: "store_inv s"
  shows "store_inv (snd (set_latest i v now s))"
proof (cases "map_of (ms_assistants s) i")
  case None
  with inv show ?thesis by (simp add: set_latest_def)
next
  case row: (Some a)
  show ?thesis
  proof (cases "map_of (ms_assistant_versions s) (version_key i v)")
    case None
    with inv row show ?thesis by (simp add: set_latest_def)
  next
    case (Some target)
    have key: "version_key (av_assistant_id target) (av_version target) = version_key i v"
      using inv Some by (auto simp: store_inv_def assistant_inv_def dest: keyed_by_get)
    have "version_key i v \<in> fst ` set (ms_assistant_versions s)"
      using Some by (force dest: map_of_SomeD)
    with key have "assistant_inv (s\<lparr>ms_assistants := jm_set i (rolled_back target now a) (ms_assistants s)\<rparr>)"
      by (intro assistant_inv_move) (simp_all add: assistant_row_id [OF inv row] store_inv_assistant inv)
    with inv row Some show ?thesis
      by (simp add: set_latest_def Let_def assistant_only_inv)
  qed
qed

lemma assistant_delete_store_inv:
  assumes inv: "store_inv s"
  shows "store_inv (assistant_delete i s)"
proof -
  have versions: "keyed_by (\<lambda>v. version_key (av_assistant_id v) (av_version v)) (ms_assistant_versions s)"
    and live: "\<forall>e \<in> set (ms_assistants s). version_key (fst e) (a_version (snd e)) \<in> fst ` set (ms_assistant_versions s)"
    using inv by (simp_all add: store_inv_def assistant_inv_def)
  have "version_key (fst e) (a_version (snd e)) \<in>
          fst ` set (filter (\<lambda>e. av_assistant_id (snd e) \<noteq> i) (ms_assistant_versions s))"
    if "e \<in> set (jm_delete i (ms_assistants s))" for e
  proof -
    from that live obtain x where x: "x \<in> set (ms_assistant_versions s)"
      "fst x = version_key (fst e) (a_version (snd e))" "fst e \<noteq> i"
      by (auto simp: in_jm_delete)
    then have "av_assistant_id (snd x) = fst e"
      using versions by (auto simp: keyed_by_def)
    with x show ?thesis by (intro image_eqI [of _ _ x]) simp_all
  qed
  then show ?thesis
    using inv
    by (auto simp: assistant_delete_def delete_versions_of_def store_inv_def run_inv_def thread_inv_def
        cron_inv_def item_inv_def ledger_inv_def assistant_inv_def intro: keyed_by_delete keyed_by_filter)
qed

section \<open>Version history\<close>

lemma max_version_loop_start: "best \<le> max_version_loop i best vs"
proof (induction vs arbitrary: best)
  case (Cons w vs)
  show ?case using Cons.IH [of best] Cons.IH [of "av_version w"] by auto
qed simp

lemma max_version_loop_upper:
  "v \<in> set vs \<Longrightarrow> av_assistant_id v = i \<Longrightarrow> av_version v \<le> max_version_loop i best vs"
proof (induction vs arbitrary: best)
  case (Cons w vs)
  then show ?case
    using max_version_loop_start [of "av_version w" i vs] max_version_loop_start [of best i vs] by auto
qed simp

lemma max_version_loop_attained:
  "max_version_loop i best vs = best \<or>
     (\<exists>v \<in> set vs. av_assistant_id v = i \<and> av_version v = max_version_loop i best vs)"
proof (induction vs arbitrary: best)
  case (Cons w vs)
  show ?case using Cons.IH [of best] Cons.IH [of "av_version w"] by auto
qed simp

definition mirrors :: "assistant \<Rightarrow> assistant_version \<Rightarrow> bool" where
  "mirrors a v \<longleftrightarrow>
     av_graph_id v = a_graph_id a \<and> av_config v = a_config a \<and> av_context v = a_context a \<and>
     av_metadata v = a_metadata a \<and> av_name v = a_name a \<and> av_description v = a_description a"

text \<open>
  The snapshots of an assistant are numbered 1 to some \<open>n\<close> without a gap, only existing assistants
  have any, and the live row equals the snapshot of its own version.
\<close>

definition numbered :: "ident \<Rightarrow> nat \<Rightarrow> mem_store \<Rightarrow> bool" where
  "numbered i n s \<longleftrightarrow> (\<forall>v. jm_has (ms_assistant_versions s) (version_key i v) \<longleftrightarrow> 1 \<le> v \<and> v \<le> n)"

definition assistant_history :: "mem_store \<Rightarrow> bool" where
  "assistant_history s \<longleftrightarrow>
     assistant_inv s \<and>
     (\<forall>k v. map_of (ms_assistant_versions s) k = Some v \<longrightarrow> jm_has (ms_assistants s) (av_assistant_id v)) \<and>
     (\<forall>i a. map_of (ms_assistants s) i = Some a \<longrightarrow>
        (\<exists>n. numbered i n s) \<and>
        (\<exists>x. map_of (ms_assistant_versions s) (version_key i (a_version a)) = Some x \<and> mirrors a x))"

lemma version_row:
  assumes "assistant_inv s" "map_of (ms_assistant_versions s) (version_key i v) = Some x"
  shows "av_assistant_id x = i" "av_version x = v"
  using assms by (auto simp: assistant_inv_def dest: keyed_by_get)

lemma max_version_numbered:
  assumes inv: "assistant_inv s" and num: "numbered i n s"
  shows "max_version_of i s = n"
proof -
  let ?vs = "jm_values (ms_assistant_versions s)"
  have keyed: "keyed_by (\<lambda>v. version_key (av_assistant_id v) (av_version v)) (ms_assistant_versions s)"
    using inv by (simp add: assistant_inv_def)
  have "av_version v \<le> n" if "v \<in> set ?vs" "av_assistant_id v = i" for v
    using keyed_value_get [OF keyed that(1)] that(2) num by (auto simp: numbered_def jm_has_iff)
  then have upper: "max_version_loop i 0 ?vs \<le> n"
    using max_version_loop_attained [of i 0 ?vs] by (metis le0)
  show ?thesis
  proof (cases "n = 0")
    case False
    with num have "jm_has (ms_assistant_versions s) (version_key i n)" by (simp add: numbered_def)
    then obtain x where x: "map_of (ms_assistant_versions s) (version_key i n) = Some x"
      by (auto simp: jm_has_iff)
    then have "x \<in> set ?vs" by (force dest: map_of_SomeD)
    then have "n \<le> max_version_loop i 0 ?vs"
      using version_row [OF inv x] max_version_loop_upper by metis
    with upper show ?thesis by (simp add: max_version_of_def)
  qed (use upper in \<open>simp add: max_version_of_def\<close>)
qed

lemma assistant_history_row:
  assumes "assistant_history s" "map_of (ms_assistants s) i = Some a"
  shows "\<exists>n. numbered i n s"
    and "\<exists>x. map_of (ms_assistant_versions s) (version_key i (a_version a)) = Some x \<and> mirrors a x"
  using assms unfolding assistant_history_def by blast+

lemma assistant_create_history:
  assumes "assistant_history s"
  shows "assistant_history (snd (assistant_create_op input uuid now s))"
proof (cases "jm_has (ms_assistants s) (or_default (ac_assistant_id input) uuid)")
  case True
  with assms show ?thesis by (simp add: assistant_create_op_def Let_def)
next
  case False
  let ?i = "or_default (ac_assistant_id input) uuid"
  let ?a = "new_assistant input ?i now"
  have inv: "assistant_inv s" using assms by (simp add: assistant_history_def)
  have none: "\<not> jm_has (ms_assistant_versions s) (version_key ?i v)" for v
  proof
    assume "jm_has (ms_assistant_versions s) (version_key ?i v)"
    then obtain x where x: "map_of (ms_assistant_versions s) (version_key ?i v) = Some x"
      by (auto simp: jm_has_iff)
    with assms have "jm_has (ms_assistants s) (av_assistant_id x)" by (simp add: assistant_history_def)
    with version_row(1) [OF inv x] False show False by simp
  qed
  have new_inv: "assistant_inv (s\<lparr>ms_assistant_versions :=
        jm_set (version_key ?i (a_version ?a)) (to_version ?a None) (ms_assistant_versions s),
      ms_assistants := jm_set ?i ?a (ms_assistants s)\<rparr>)"
    by (rule assistant_inv_set) (simp_all add: inv)
  let ?s' = "s\<lparr>ms_assistant_versions := jm_set (version_key ?i 1) (to_version ?a None) (ms_assistant_versions s),
      ms_assistants := jm_set ?i ?a (ms_assistants s)\<rparr>"
  have "numbered ?i 1 ?s'"
    using none by (auto simp: numbered_def jm_has_set)
  moreover have "numbered j n s \<Longrightarrow> j \<noteq> ?i \<Longrightarrow> numbered j n ?s'" for j n
    by (simp add: numbered_def jm_has_set)
  moreover have "mirrors ?a (to_version ?a None)" by (simp add: mirrors_def to_version_def)
  ultimately show ?thesis
    using assms False new_inv
    by (auto simp: assistant_create_op_def Let_def assistant_history_def jm_get_set jm_has_set
        split: if_splits) blast+
qed

lemma assistant_update_shape:
  assumes hist: "assistant_history s" and row: "map_of (ms_assistants s) i = Some a" and num: "numbered i n s"
  shows "assistant_update_op i patch now s =
           (Inr (patched_assistant patch (n + 1) now a),
            s\<lparr>ms_assistant_versions := jm_set (version_key i (n + 1))
                (to_version (patched_assistant patch (n + 1) now a) (Some now)) (ms_assistant_versions s),
              ms_assistants := jm_set i (patched_assistant patch (n + 1) now a) (ms_assistants s)\<rparr>)"
  using max_version_numbered [of s i n] assms
  by (simp add: assistant_update_op_def Let_def assistant_history_def)

lemma assistant_update_history:
  assumes hist: "assistant_history s"
  shows "assistant_history (snd (assistant_update_op i patch now s))"
proof (cases "map_of (ms_assistants s) i")
  case None
  with hist show ?thesis by (simp add: assistant_update_op_def)
next
  case (Some a)
  then obtain n where num: "numbered i n s" using assistant_history_row(1) [OF hist] by blast
  have inv: "assistant_inv s" using hist by (simp add: assistant_history_def)
  then have id: "a_assistant_id a = i"
    using Some by (auto simp: assistant_inv_def dest: keyed_by_get)
  let ?a = "patched_assistant patch (n + 1) now a"
  let ?s' = "s\<lparr>ms_assistant_versions := jm_set (version_key i (n + 1)) (to_version ?a (Some now)) (ms_assistant_versions s),
      ms_assistants := jm_set i ?a (ms_assistants s)\<rparr>"
  have "assistant_inv (s\<lparr>ms_assistant_versions :=
        jm_set (version_key i (a_version ?a)) (to_version ?a (Some now)) (ms_assistant_versions s),
      ms_assistants := jm_set i ?a (ms_assistants s)\<rparr>)"
    by (rule assistant_inv_set) (simp_all add: inv id)
  then have inv': "assistant_inv ?s'" by simp
  have own: "numbered i (n + 1) ?s'"
    unfolding numbered_def
  proof
    fix v
    have "jm_has (ms_assistant_versions ?s') (version_key i v) \<longleftrightarrow> v = n + 1 \<or> 1 \<le> v \<and> v \<le> n"
      using num by (simp add: numbered_def jm_has_set)
    then show "jm_has (ms_assistant_versions ?s') (version_key i v) \<longleftrightarrow> 1 \<le> v \<and> v \<le> n + 1"
      by linarith
  qed
  have others: "numbered j m s \<Longrightarrow> j \<noteq> i \<Longrightarrow> numbered j m ?s'" for j m
    by (simp add: numbered_def jm_has_set)
  have mirror: "mirrors ?a (to_version ?a (Some now))" by (simp add: mirrors_def to_version_def)
  have owner: "jm_has (ms_assistants ?s') (av_assistant_id v)"
    if "map_of (ms_assistant_versions ?s') k = Some v" for k v
  proof (cases "k = version_key i (n + 1)")
    case True
    with that id show ?thesis by (auto simp: jm_get_set jm_has_set)
  next
    case False
    with that have "map_of (ms_assistant_versions s) k = Some v" by (simp add: jm_get_set)
    with hist have "jm_has (ms_assistants s) (av_assistant_id v)" by (simp add: assistant_history_def)
    then show ?thesis by (simp add: jm_has_set)
  qed
  have live: "(\<exists>m. numbered j m ?s') \<and>
      (\<exists>x. map_of (ms_assistant_versions ?s') (version_key j (a_version b)) = Some x \<and> mirrors b x)"
    if b: "map_of (ms_assistants ?s') j = Some b" for j b
  proof (cases "j = i")
    case True
    with b have "b = ?a" by (simp add: jm_get_set)
    with True own mirror show ?thesis by (auto simp: jm_get_set)
  next
    case False
    with b have "map_of (ms_assistants s) j = Some b" by (simp add: jm_get_set)
    from assistant_history_row [OF hist this] obtain m x where "numbered j m s"
      "map_of (ms_assistant_versions s) (version_key j (a_version b)) = Some x" "mirrors b x" by blast
    with False others [of j m] show ?thesis by (intro conjI exI [of _ m] exI [of _ x]) (simp_all add: jm_get_set)
  qed
  have "assistant_history ?s'"
    unfolding assistant_history_def by (intro conjI [OF inv'] conjI allI impI owner live)
  with assistant_update_shape [OF hist Some num] show ?thesis by simp
qed

lemma set_latest_shape:
  assumes "map_of (ms_assistants s) i = Some a"
    "map_of (ms_assistant_versions s) (version_key i v) = Some x"
  shows "set_latest i v now s =
           (Inr (rolled_back x now a), s\<lparr>ms_assistants := jm_set i (rolled_back x now a) (ms_assistants s)\<rparr>)"
  using assms by (simp add: set_latest_def Let_def)

lemma set_latest_history:
  assumes hist: "assistant_history s"
  shows "assistant_history (snd (set_latest i v now s))"
proof (cases "map_of (ms_assistants s) i")
  case None
  with hist show ?thesis by (simp add: set_latest_def)
next
  case row: (Some a)
  show ?thesis
  proof (cases "map_of (ms_assistant_versions s) (version_key i v)")
    case None
    with hist row show ?thesis by (simp add: set_latest_def)
  next
    case (Some x)
    have inv: "assistant_inv s" using hist by (simp add: assistant_history_def)
    then have id: "a_assistant_id a = i"
      using row by (auto simp: assistant_inv_def dest: keyed_by_get)
    note x = version_row [OF inv Some]
    let ?s' = "s\<lparr>ms_assistants := jm_set i (rolled_back x now a) (ms_assistants s)\<rparr>"
    have "version_key i v \<in> fst ` set (ms_assistant_versions s)"
      using Some by (force dest: map_of_SomeD)
    then have "assistant_inv ?s'"
      using x by (intro assistant_inv_move) (simp_all add: inv id)
    moreover have "mirrors (rolled_back x now a) x" by (simp add: mirrors_def rolled_back_def)
    moreover have "numbered j m ?s' = numbered j m s" for j m by (simp add: numbered_def)
    ultimately have "assistant_history ?s'"
      using hist row Some x id
      by (auto simp: assistant_history_def jm_get_set jm_has_set split: if_splits)
    with set_latest_shape [OF row Some] show ?thesis by simp
  qed
qed

lemma assistant_delete_get:
  assumes "assistant_inv s"
  shows "map_of (ms_assistant_versions (assistant_delete i s)) (version_key j v) =
           (if j = i then None else map_of (ms_assistant_versions s) (version_key j v))"
proof -
  have wf: "jm_wf (ms_assistant_versions s)"
    using assms by (simp add: assistant_inv_def keyed_by_def)
  show ?thesis
    using version_row(1) [OF assms]
    by (simp add: assistant_delete_def delete_versions_of_def jm_get_filter [OF wf] split: option.split)
qed

lemma assistant_delete_history:
  assumes hist: "assistant_history s"
  shows "assistant_history (assistant_delete i s)"
proof -
  have inv: "assistant_inv s" using hist by (simp add: assistant_history_def)
  have wf: "jm_wf (ms_assistant_versions s)" using inv by (simp add: assistant_inv_def keyed_by_def)
  let ?s' = "assistant_delete i s"
  have rows: "map_of (ms_assistants ?s') j = (if j = i then None else map_of (ms_assistants s) j)" for j
    by (simp add: assistant_delete_def delete_versions_of_def jm_get_delete)
  have "numbered j n ?s' = numbered j n s" if "j \<noteq> i" for j n
    using that by (simp add: numbered_def jm_has_iff assistant_delete_get [OF inv])
  moreover have "jm_has (ms_assistants ?s') (av_assistant_id v)"
    if "map_of (ms_assistant_versions ?s') k = Some v" for k v
  proof -
    from that have "map_of (ms_assistant_versions s) k = Some v" "av_assistant_id v \<noteq> i"
      by (auto simp: assistant_delete_def delete_versions_of_def jm_get_filter [OF wf] split: option.splits if_splits)
    with hist show ?thesis by (auto simp: assistant_history_def jm_has_iff rows)
  qed
  moreover have "assistant_inv ?s'"
  proof -
    have "version_key j (a_version a) \<in> fst ` set (ms_assistant_versions ?s')"
      if "(j, a) \<in> set (jm_delete i (ms_assistants s))" for j a
    proof -
      from that have "(j, a) \<in> set (ms_assistants s)" "j \<noteq> i" by (simp_all add: in_jm_delete)
      moreover have "jm_wf (ms_assistants s)" using inv by (simp add: assistant_inv_def keyed_by_def)
      ultimately have "map_of (ms_assistants s) j = Some a" by simp
      then obtain x where "map_of (ms_assistant_versions s) (version_key j (a_version a)) = Some x"
        using assistant_history_row(2) [OF hist] by blast
      then have "map_of (ms_assistant_versions ?s') (version_key j (a_version a)) = Some x"
        using \<open>j \<noteq> i\<close> by (simp add: assistant_delete_get [OF inv])
      then show ?thesis by (force dest: map_of_SomeD)
    qed
    with inv show ?thesis
      unfolding assistant_inv_def
      by (auto simp: assistant_delete_def delete_versions_of_def intro: keyed_by_delete keyed_by_filter
          simp del: image_iff del: imageE)
  qed
  ultimately show ?thesis
    using hist by (auto simp: assistant_history_def rows assistant_delete_get [OF inv] split: if_splits)
qed

section \<open>Histories\<close>

datatype assistant_op =
    OpAssistantCreate assistant_create ident instant
  | OpAssistantUpdate ident assistant_patch instant
  | OpSetLatest ident nat instant
  | OpAssistantDelete ident

fun assistant_step :: "assistant_op \<Rightarrow> mem_store \<Rightarrow> mem_store" where
  "assistant_step (OpAssistantCreate input uuid now) s = snd (assistant_create_op input uuid now s)"
| "assistant_step (OpAssistantUpdate i patch now) s = snd (assistant_update_op i patch now s)"
| "assistant_step (OpSetLatest i v now) s = snd (set_latest i v now s)"
| "assistant_step (OpAssistantDelete i) s = assistant_delete i s"

fun assistant_trace :: "assistant_op list \<Rightarrow> mem_store \<Rightarrow> mem_store" where
  "assistant_trace [] s = s"
| "assistant_trace (oper # ops) s = assistant_trace ops (assistant_step oper s)"

lemma assistant_step_history: "assistant_history s \<Longrightarrow> assistant_history (assistant_step oper s)"
  by (cases oper) (simp_all add: assistant_create_history assistant_update_history set_latest_history
      assistant_delete_history)

lemma assistant_step_keeps:
  assumes hist: "assistant_history s" and row: "map_of (ms_assistant_versions s) (version_key i v) = Some x"
    and not_deleted: "oper \<noteq> OpAssistantDelete i"
  shows "map_of (ms_assistant_versions (assistant_step oper s)) (version_key i v) = Some x"
proof (cases oper)
  case (OpAssistantCreate input uuid now)
  have inv: "assistant_inv s" using hist by (simp add: assistant_history_def)
  have "jm_has (ms_assistants s) (av_assistant_id x)" using hist row by (simp add: assistant_history_def)
  then have "jm_has (ms_assistants s) i" using version_row(1) [OF inv row] by simp
  with OpAssistantCreate row show ?thesis
    by (auto simp: assistant_create_op_def Let_def jm_get_set)
next
  case (OpAssistantUpdate j patch now)
  show ?thesis
  proof (cases "map_of (ms_assistants s) j")
    case None
    with OpAssistantUpdate row show ?thesis by (simp add: assistant_update_op_def)
  next
    case (Some a)
    then obtain n where num: "numbered j n s" using assistant_history_row(1) [OF hist] by blast
    have "jm_has (ms_assistant_versions s) (version_key i v)" using row by (simp add: jm_has_iff)
    then have "i = j \<longrightarrow> v \<le> n" using num unfolding numbered_def by blast
    then have "\<not> (i = j \<and> v = n + 1)" by auto
    with OpAssistantUpdate row assistant_update_shape [OF hist Some num] show ?thesis
      by (auto simp: jm_get_set)
  qed
next
  case (OpSetLatest j w now)
  with row show ?thesis by (simp add: set_latest_def Let_def split: option.split)
next
  case (OpAssistantDelete j)
  have "assistant_inv s" using hist by (simp add: assistant_history_def)
  with OpAssistantDelete row not_deleted show ?thesis by (auto simp: assistant_delete_get)
qed

lemma assistant_trace_history: "assistant_history s \<Longrightarrow> assistant_history (assistant_trace ops s)"
  by (induction ops arbitrary: s) (simp_all add: assistant_step_history)

lemma assistant_trace_keeps:
  "assistant_history s \<Longrightarrow> map_of (ms_assistant_versions s) (version_key i v) = Some x \<Longrightarrow>
     OpAssistantDelete i \<notin> set ops \<Longrightarrow>
     map_of (ms_assistant_versions (assistant_trace ops s)) (version_key i v) = Some x"
  by (induction ops arbitrary: s) (auto simp: assistant_step_history assistant_step_keeps)

lemma empty_store_history: "assistant_history empty_store"
  using empty_store_inv by (simp add: assistant_history_def store_inv_def empty_store_def)

section \<open>Properties\<close>

text \<open>
  C26. Over any history of creates, updates, rollbacks and deletes of any assistants: the versions of
  every live assistant are numbered from 1 without a gap, its live row equals the snapshot of its own
  version, and a snapshot, once minted, never changes until its assistant is deleted.
\<close>

theorem assistant_versions_immutable:
  assumes "s = assistant_trace before empty_store" and "s' = assistant_trace later s"
    and "jm_get (ms_assistants s) i = Some a" and "OpAssistantDelete i \<notin> set later"
  shows "(\<exists>n. numbered i n s) \<and>
         (\<exists>x. jm_get (ms_assistant_versions s) (version_key i (a_version a)) = Some x \<and> mirrors a x) \<and>
         (\<forall>v x. jm_get (ms_assistant_versions s) (version_key i v) = Some x \<longrightarrow>
            jm_get (ms_assistant_versions s') (version_key i v) = Some x)"
proof -
  have hist: "assistant_history s"
    unfolding assms(1) by (rule assistant_trace_history [OF empty_store_history])
  show ?thesis
    using assistant_history_row [OF hist assms(3)] assistant_trace_keeps [OF hist _ assms(4)] assms(2)
    by blast
qed

text \<open>
  Rolling back to version \<open>v\<close> makes the live row equal to that snapshot without touching any
  snapshot, and the next update then mints a number above every recorded one instead of overwriting
  a version.
\<close>

theorem rollback_then_update_mints_new_version:
  assumes "assistant_history s" and "jm_get (ms_assistants s) i = Some a"
    and "jm_get (ms_assistant_versions s) (version_key i v) = Some x"
    and "set_latest i v now s = (res, s1)" and "assistant_update_op i patch later s1 = (res2, s2)"
  shows "\<exists>row row2.
           res = Inr row \<and> a_version row = v \<and> mirrors row x \<and>
           ms_assistant_versions s1 = ms_assistant_versions s \<and>
           res2 = Inr row2 \<and> jm_get (ms_assistants s2) i = Some row2 \<and>
           (\<forall>w. jm_has (ms_assistant_versions s) (version_key i w) \<longrightarrow> w < a_version row2) \<and>
           (\<forall>w y. jm_get (ms_assistant_versions s) (version_key i w) = Some y \<longrightarrow>
              jm_get (ms_assistant_versions s2) (version_key i w) = Some y)"
proof -
  obtain n where num: "numbered i n s" using assistant_history_row(1) [OF assms(1,2)] by blast
  have inv: "assistant_inv s" using assms(1) by (simp add: assistant_history_def)
  note shape = set_latest_shape [OF assms(2,3), of now]
  let ?row = "rolled_back x now a"
  have s1: "res = Inr ?row" "s1 = s\<lparr>ms_assistants := jm_set i ?row (ms_assistants s)\<rparr>"
    using shape assms(4) by simp_all
  have hist1: "assistant_history s1" using set_latest_history [OF assms(1), of i v now] assms(4) by simp
  have row1: "jm_get (ms_assistants s1) i = Some ?row" and num1: "numbered i n s1"
    using num by (simp_all add: s1 jm_get_set numbered_def)
  let ?row2 = "patched_assistant patch (n + 1) later ?row"
  have s2: "res2 = Inr ?row2" "jm_get (ms_assistants s2) i = Some ?row2"
    "jm_get (ms_assistant_versions s2) (version_key i w) =
       (if w = n + 1 then Some (to_version ?row2 (Some later))
        else jm_get (ms_assistant_versions s) (version_key i w))" for w
    using assistant_update_shape [OF hist1 row1 num1, of patch later] assms(5)
    by (auto simp: jm_get_set s1(2))
  have below: "w \<le> n" if "jm_has (ms_assistant_versions s) (version_key i w)" for w
    using that num by (simp add: numbered_def)
  have kept: "jm_get (ms_assistant_versions s2) (version_key i w) = Some y"
    if "jm_get (ms_assistant_versions s) (version_key i w) = Some y" for w y
    using that below [of w] s2(3) [of w] by (auto simp: jm_has_iff)
  show ?thesis
    using s1 s2(1,2) below kept version_row(2) [OF inv assms(3)]
    by (intro exI [of _ ?row] exI [of _ ?row2])
       (auto simp: mirrors_def rolled_back_def less_Suc_eq_le)
qed

subsection \<open>Witnesses\<close>

definition sample_assistant_ops :: "assistant_op list" where
  "sample_assistant_ops =
     [OpAssistantCreate \<lparr>ac_assistant_id = Some ''a'', ac_graph_id = ''g'', ac_config = None, ac_context = None,
        ac_metadata = None, ac_name = None, ac_description = None\<rparr> ''u'' 1,
      OpAssistantUpdate ''a'' \<lparr>ap_graph_id = None, ap_name = Some ''n2'', ap_description = None, ap_config = None,
        ap_context = None, ap_metadata = None\<rparr> 2]"

lemma sample_assistants:
  "\<exists>a x. jm_get (ms_assistants (assistant_trace sample_assistant_ops empty_store)) ''a'' = Some a \<and>
         jm_get (ms_assistant_versions (assistant_trace sample_assistant_ops empty_store)) (version_key ''a'' 1) = Some x"
  by (simp add: sample_assistant_ops_def assistant_create_op_def assistant_update_op_def Let_def
      empty_store_def jm_has_def max_version_of_def)

theorem assistant_versions_immutable_witness:
  "\<exists>n. numbered ''a'' n (assistant_trace sample_assistant_ops empty_store) \<and>
     (\<forall>v x. jm_get (ms_assistant_versions (assistant_trace sample_assistant_ops empty_store)) (version_key ''a'' v) = Some x \<longrightarrow>
        jm_get (ms_assistant_versions (assistant_trace [OpSetLatest ''a'' 1 5, OpAssistantDelete ''b'']
          (assistant_trace sample_assistant_ops empty_store))) (version_key ''a'' v) = Some x)"
proof -
  obtain a where "jm_get (ms_assistants (assistant_trace sample_assistant_ops empty_store)) ''a'' = Some a"
    using sample_assistants by blast
  from assistant_versions_immutable [OF refl refl this, of "[OpSetLatest ''a'' 1 5, OpAssistantDelete ''b'']"]
  show ?thesis by auto
qed

theorem rollback_then_update_mints_new_version_witness:
  "\<exists>row x. fst (set_latest ''a'' 1 5 (assistant_trace sample_assistant_ops empty_store)) = Inr row \<and>
     a_version row = 1 \<and> mirrors row x"
proof -
  let ?s = "assistant_trace sample_assistant_ops empty_store"
  obtain a x where rows: "jm_get (ms_assistants ?s) ''a'' = Some a"
    "jm_get (ms_assistant_versions ?s) (version_key ''a'' 1) = Some x"
    using sample_assistants by blast
  obtain res s1 where back_to: "set_latest ''a'' 1 5 ?s = (res, s1)" by fastforce
  obtain res2 s2 where again: "assistant_update_op ''a'' \<lparr>ap_graph_id = None, ap_name = None,
      ap_description = None, ap_config = None, ap_context = None, ap_metadata = None\<rparr> 6 s1 = (res2, s2)"
    by fastforce
  from rollback_then_update_mints_new_version
    [OF assistant_trace_history [OF empty_store_history] rows back_to again]
  show ?thesis using back_to by auto
qed

end
