(* ===== verification/StoreCrons.thy ===== *)
theory StoreCrons
  imports StoreRuns Contracts
begin

text \<open>
  The \<^verbatim>\<open>crons\<close> repository of \<^verbatim>\<open>memory-skein-store.ts\<close>, with \<^verbatim>\<open>#bumpCronSeq\<close>, \<^verbatim>\<open>#claimCron\<close> and
  \<^verbatim>\<open>#matchingCrons\<close>. Each cron has a claim token beside it; a scheduler fires an occurrence only if
  its compare-and-swap on the token wins.
\<close>

section \<open>Searching\<close>

datatype cron_sort =
    SortCronId | SortCAssistantId | SortCThreadId | SortCCreatedAt | SortCUpdatedAt | SortNextRunDate
  | SortEndTime

record cron_search_query =
  cq_assistant_id :: "ident option"
  cq_thread_id :: "ident option"
  cq_enabled :: "bool option"
  cq_metadata :: "jsval option"
  cq_enforced_metadata :: "jsval option"
  cq_limit :: "nat option"
  cq_offset :: "nat option"
  cq_sort_by :: "cron_sort option"
  cq_ascending :: bool

definition cron_matches :: "cron_search_query \<Rightarrow> cron \<Rightarrow> bool" where
  "cron_matches q c \<longleftrightarrow>
     unconstrained (cq_assistant_id q) (\<lambda>i. c_assistant_id c = i) \<and>
     unconstrained (cq_thread_id q) (\<lambda>i. c_thread_id c = Some i) \<and>
     unconstrained (cq_enabled q) (\<lambda>b. c_enabled c = b) \<and>
     is_metadata_subset (c_metadata c) (cq_metadata q) \<and>
     is_metadata_subset (c_metadata c) (cq_enforced_metadata q)"

text \<open>\<^verbatim>\<open>null\<close> comes out last whatever the direction, which is applied to the result.\<close>

fun compare_nullable :: "int \<Rightarrow> 'a::linorder option \<Rightarrow> 'a option \<Rightarrow> int" where
  "compare_nullable direction None None = 0"
| "compare_nullable direction None (Some _) = direction"
| "compare_nullable direction (Some _) None = - direction"
| "compare_nullable direction (Some a) (Some b) = compare_of a b"

fun compare_crons_by :: "int \<Rightarrow> cron_sort \<Rightarrow> cron \<Rightarrow> cron \<Rightarrow> int" where
  "compare_crons_by direction SortCronId a b = compare_of (c_cron_id a) (c_cron_id b)"
| "compare_crons_by direction SortCAssistantId a b = compare_of (c_assistant_id a) (c_assistant_id b)"
| "compare_crons_by direction SortCThreadId a b = compare_nullable direction (c_thread_id a) (c_thread_id b)"
| "compare_crons_by direction SortCCreatedAt a b = compare_of (c_created_at a) (c_created_at b)"
| "compare_crons_by direction SortCUpdatedAt a b = compare_of (c_updated_at a) (c_updated_at b)"
| "compare_crons_by direction SortNextRunDate a b = compare_nullable direction (c_next_run_date a) (c_next_run_date b)"
| "compare_crons_by direction SortEndTime a b = compare_nullable direction (c_end_time a) (c_end_time b)"

definition matching_crons :: "cron_search_query \<Rightarrow> mem_store \<Rightarrow> cron list" where
  "matching_crons q s =
     (let direction = (if cq_ascending q then 1 else - 1)
      in js_sort
           (directed direction
              (then_by (compare_crons_by direction (or_default (cq_sort_by q) SortCCreatedAt))
                 (\<lambda>a b. compare_of (c_cron_id a) (c_cron_id b))))
           (filter (cron_matches q) (jm_values (ms_crons s))))"

section \<open>Operations\<close>

definition cron_seq :: "ident \<Rightarrow> mem_store \<Rightarrow> nat" where
  "cron_seq cron_id s = or_default (jm_get (ms_cron_seq s) cron_id) 0"

definition bump_cron_seq :: "ident \<Rightarrow> mem_store \<Rightarrow> mem_store" where
  "bump_cron_seq cron_id s = s\<lparr>ms_cron_seq := jm_set cron_id (cron_seq cron_id s + 1) (ms_cron_seq s)\<rparr>"

definition claim_cron :: "ident \<Rightarrow> cron_claim \<Rightarrow> instant \<Rightarrow> mem_store \<Rightarrow> cron option \<times> mem_store" where
  "claim_cron cron_id claim now s =
     (case jm_get (ms_crons s) cron_id of
        None \<Rightarrow> (None, s)
      | Some existing \<Rightarrow>
          if \<not> c_enabled existing then (None, s)
          else if cron_seq cron_id s \<noteq> cc_expected_seq claim then (None, s)
          else
            let s1 = bump_cron_seq cron_id s;
                c = existing\<lparr>c_next_run_date := cc_next_run_date claim, c_updated_at := now\<rparr>
            in (Some c, s1\<lparr>ms_crons := jm_set cron_id c (ms_crons s1)\<rparr>))"

definition cron_get :: "ident \<Rightarrow> mem_store \<Rightarrow> cron option" where
  "cron_get cron_id s = jm_get (ms_crons s) cron_id"

definition crons_search :: "cron_search_query \<Rightarrow> mem_store \<Rightarrow> cron list" where
  "crons_search q s = page (matching_crons q s) (or_default (cq_offset q) 0) (page_limit s (cq_limit q))"

definition crons_count :: "cron_search_query \<Rightarrow> mem_store \<Rightarrow> nat" where
  "crons_count q s = length (matching_crons q s)"

record cron_create =
  cn_cron_id :: "ident option"
  cn_assistant_id :: ident
  cn_thread_id :: "ident option"
  cn_schedule :: string
  cn_timezone :: "string option"
  cn_end_time :: "instant option"
  cn_next_run_date :: "instant option"
  cn_enabled :: "bool option"
  cn_payload :: "jsval option"
  cn_metadata :: "jsval option"
  cn_user_id :: "ident option"
  cn_on_run_completed :: "on_run_completed option"
  cn_auth :: "cron_auth option"

definition new_cron :: "cron_create \<Rightarrow> ident \<Rightarrow> instant \<Rightarrow> cron" where
  "new_cron input cron_id now =
     \<lparr>c_cron_id = cron_id, c_assistant_id = cn_assistant_id input, c_thread_id = cn_thread_id input,
      c_schedule = cn_schedule input, c_timezone = cn_timezone input, c_end_time = cn_end_time input,
      c_next_run_date = cn_next_run_date input, c_enabled = or_default (cn_enabled input) True,
      c_payload = or_default (cn_payload input) (JObj []),
      c_metadata = or_default (cn_metadata input) (JObj []), c_user_id = cn_user_id input,
      c_created_at = now, c_updated_at = now, c_on_run_completed = cn_on_run_completed input\<rparr>"

definition cron_create_op :: "cron_create \<Rightarrow> ident \<Rightarrow> instant \<Rightarrow> mem_store \<Rightarrow> cron outcome" where
  "cron_create_op input uuid now s =
     (let cron_id = or_default (cn_cron_id input) uuid
      in if jm_has (ms_crons s) cron_id then (Inl (conflict None), s)
         else
           let c = new_cron input cron_id now;
               s1 = (case cn_auth input of
                       None \<Rightarrow> s
                     | Some auth \<Rightarrow> s\<lparr>ms_cron_auth := jm_set cron_id auth (ms_cron_auth s)\<rparr>)
           in (Inr c, s1\<lparr>ms_cron_seq := jm_set cron_id 0 (ms_cron_seq s1),
                         ms_crons := jm_set cron_id c (ms_crons s1)\<rparr>))"

record cron_patch =
  cp_schedule :: "string option"
  cp_timezone :: "string jsopt"
  cp_end_time :: "instant jsopt"
  cp_next_run_date :: "instant jsopt"
  cp_enabled :: "bool option"
  cp_payload :: "jsval option"
  cp_metadata :: "jsval option"
  cp_on_run_completed :: "on_run_completed option"

text \<open>A tri-state patch: absent keeps, \<^verbatim>\<open>null\<close> clears, a value replaces.\<close>

fun tri_state :: "'a jsopt \<Rightarrow> 'a option \<Rightarrow> 'a option" where
  "tri_state Undefined old = old"
| "tri_state Null old = None"
| "tri_state (Value v) old = Some v"

definition patched_cron :: "cron_patch \<Rightarrow> instant \<Rightarrow> cron \<Rightarrow> cron" where
  "patched_cron patch now c =
     c\<lparr>c_schedule := or_default (cp_schedule patch) (c_schedule c),
       c_timezone := tri_state (cp_timezone patch) (c_timezone c),
       c_end_time := tri_state (cp_end_time patch) (c_end_time c),
       c_next_run_date := tri_state (cp_next_run_date patch) (c_next_run_date c),
       c_enabled := or_default (cp_enabled patch) (c_enabled c),
       c_payload := or_default (cp_payload patch) (c_payload c),
       c_metadata := (case cp_metadata patch of Some m \<Rightarrow> js_spread (c_metadata c) m | None \<Rightarrow> c_metadata c),
       c_updated_at := now,
       c_on_run_completed := (case cp_on_run_completed patch of Some v \<Rightarrow> Some v | None \<Rightarrow> c_on_run_completed c)\<rparr>"

definition cron_update_op :: "ident \<Rightarrow> cron_patch \<Rightarrow> instant \<Rightarrow> mem_store \<Rightarrow> cron outcome" where
  "cron_update_op cron_id patch now s =
     (case jm_get (ms_crons s) cron_id of
        None \<Rightarrow> (Inl not_found, s)
      | Some existing \<Rightarrow>
          let c = patched_cron patch now existing;
              s1 = bump_cron_seq cron_id s
          in (Inr c, s1\<lparr>ms_crons := jm_set cron_id c (ms_crons s1)\<rparr>))"

definition cron_delete :: "ident \<Rightarrow> mem_store \<Rightarrow> mem_store" where
  "cron_delete cron_id s =
     s\<lparr>ms_crons := jm_delete cron_id (ms_crons s),
       ms_cron_auth := jm_delete cron_id (ms_cron_auth s),
       ms_cron_seq := jm_delete cron_id (ms_cron_seq s)\<rparr>"

text \<open>The lexicographic default of the search, restricted to enabled crons.\<close>

definition enabled_query :: cron_search_query where
  "enabled_query = \<lparr>cq_assistant_id = None, cq_thread_id = None, cq_enabled = Some True,
     cq_metadata = None, cq_enforced_metadata = None, cq_limit = None, cq_offset = None,
     cq_sort_by = None, cq_ascending = False\<rparr>"

definition due_by :: "instant \<Rightarrow> cron \<Rightarrow> bool" where
  "due_by due_at c \<longleftrightarrow> (case c_next_run_date c of None \<Rightarrow> False | Some t \<Rightarrow> t \<le> due_at)"

definition crons_list_due ::
  "(string \<Rightarrow> string \<Rightarrow> int) \<Rightarrow> instant \<Rightarrow> nat option \<Rightarrow> mem_store \<Rightarrow> (cron \<times> nat) list" where
  "crons_list_due lc due_at limit s =
     map (\<lambda>c. (c, cron_seq (c_cron_id c) s))
       (page
          (js_sort
             (then_by (\<lambda>a b. compare_of (or_default (c_next_run_date a) 0) (or_default (c_next_run_date b) 0))
                (\<lambda>a b. lc (c_cron_id a) (c_cron_id b)))
             (filter (due_by due_at) (matching_crons enabled_query s)))
          0 (page_limit s limit))"

definition claim_and_create_run ::
  "ident \<Rightarrow> cron_claim \<Rightarrow> run_create \<Rightarrow> ident \<Rightarrow> instant \<Rightarrow> mem_store \<Rightarrow> (cron \<times> run) option outcome" where
  "claim_and_create_run cron_id claim input uuid now s =
     (case claim_cron cron_id claim now s of
        (None, s1) \<Rightarrow> (Inr None, s1)
      | (Some advanced, s1) \<Rightarrow>
          (case create_run input uuid now s1 of
             (Inl e, s2) \<Rightarrow> (Inl e, s2)
           | (Inr r, s2) \<Rightarrow> (Inr (Some (advanced, r)), s2)))"

definition cron_get_auth :: "ident \<Rightarrow> mem_store \<Rightarrow> cron_auth option" where
  "cron_get_auth cron_id s = jm_get (ms_cron_auth s) cron_id"

fun overdue_loop :: "instant \<Rightarrow> int option \<Rightarrow> cron list \<Rightarrow> int option" where
  "overdue_loop now worst [] = worst"
| "overdue_loop now worst (c # cs) =
     (case c_next_run_date c of
        None \<Rightarrow> overdue_loop now worst cs
      | Some next \<Rightarrow>
          if \<not> c_enabled c then overdue_loop now worst cs
          else if 0 \<le> now - next \<and> (case worst of None \<Rightarrow> True | Some w \<Rightarrow> w < now - next)
          then overdue_loop now (Some (now - next)) cs
          else overdue_loop now worst cs)"

definition max_overdue_ms :: "instant \<Rightarrow> mem_store \<Rightarrow> int option" where
  "max_overdue_ms now s = overdue_loop now None (jm_values (ms_crons s))"

section \<open>The invariant\<close>

lemma store_inv_crons:
  assumes "store_inv s"
    "cron_inv (s\<lparr>ms_crons := cs, ms_cron_auth := auth, ms_cron_seq := seqs\<rparr>)"
  shows "store_inv (s\<lparr>ms_crons := cs, ms_cron_auth := auth, ms_cron_seq := seqs\<rparr>)"
  using assms
  by (simp add: store_inv_def run_inv_def thread_inv_def assistant_inv_def item_inv_def ledger_inv_def)

lemma cron_inv_set:
  assumes "cron_inv s" "c_cron_id c = i"
  shows "cron_inv (s\<lparr>ms_crons := jm_set i c (ms_crons s), ms_cron_seq := jm_set i n (ms_cron_seq s)\<rparr>)"
  using assms by (auto simp: cron_inv_def jm_keys_set beside_rows_set intro: keyed_by_set jm_wf_set)

lemma store_inv_set_cron:
  assumes "store_inv s" "c_cron_id c = i"
  shows "store_inv (s\<lparr>ms_crons := jm_set i c (ms_crons s), ms_cron_seq := jm_set i n (ms_cron_seq s)\<rparr>)"
  using store_inv_crons [OF assms(1), where cs = "jm_set i c (ms_crons s)" and auth = "ms_cron_auth s"
      and seqs = "jm_set i n (ms_cron_seq s)"]
    cron_inv_set [of s c i n] assms
  by (simp add: store_inv_def)

text \<open>Updates of different fields commute.\<close>

lemma cron_updates_commute:
  "s\<lparr>ms_cron_seq := b, ms_crons := a\<rparr> = s\<lparr>ms_crons := a, ms_cron_seq := b\<rparr>"
  "s\<lparr>ms_cron_auth := d, ms_crons := a\<rparr> = s\<lparr>ms_crons := a, ms_cron_auth := d\<rparr>"
  by simp_all

lemma cron_row_id: "store_inv s \<Longrightarrow> map_of (ms_crons s) i = Some c \<Longrightarrow> c_cron_id c = i"
  by (auto simp: store_inv_def cron_inv_def dest: keyed_by_get)

lemma claim_cron_store:
  "snd (claim_cron i claim now s) =
     (case fst (claim_cron i claim now s) of
        None \<Rightarrow> s
      | Some c \<Rightarrow> s\<lparr>ms_crons := jm_set i c (ms_crons s),
                     ms_cron_seq := jm_set i (cron_seq i s + 1) (ms_cron_seq s)\<rparr>)"
  by (auto simp: claim_cron_def bump_cron_seq_def Let_def split: option.split)

lemma claim_cron_row:
  assumes "fst (claim_cron i claim now s) = Some c"
  shows "\<exists>old. map_of (ms_crons s) i = Some old \<and> c_enabled old \<and>
           cron_seq i s = cc_expected_seq claim \<and>
           c = old\<lparr>c_next_run_date := cc_next_run_date claim, c_updated_at := now\<rparr>"
  using assms by (auto simp: claim_cron_def Let_def split: option.splits if_splits)

lemma claim_cron_store_inv:
  assumes inv: "store_inv s"
  shows "store_inv (snd (claim_cron i claim now s))"
proof (cases "fst (claim_cron i claim now s)")
  case None
  with inv show ?thesis by (simp add: claim_cron_store)
next
  case (Some c)
  then have "c_cron_id c = i" using claim_cron_row [OF Some] cron_row_id [OF inv] by auto
  with Some inv show ?thesis by (simp add: claim_cron_store store_inv_set_cron)
qed

lemma claim_and_create_run_store:
  "snd (claim_and_create_run i claim input uuid now s) = snd (claim_cron i claim now s) \<or>
   snd (claim_and_create_run i claim input uuid now s) =
     snd (create_run input uuid now (snd (claim_cron i claim now s)))"
  by (auto simp: claim_and_create_run_def split: prod.splits option.splits sum.splits)

lemma claim_and_create_run_store_inv:
  assumes "store_inv s"
  shows "store_inv (snd (claim_and_create_run i claim input uuid now s))"
  using claim_and_create_run_store [of i claim input uuid now s]
    claim_cron_store_inv [OF assms, of i claim now] create_run_store_inv
  by auto

lemma cron_update_store_inv:
  assumes inv: "store_inv s"
  shows "store_inv (snd (cron_update_op i patch now s))"
proof (cases "map_of (ms_crons s) i")
  case None
  with inv show ?thesis by (simp add: cron_update_op_def)
next
  case (Some c)
  then have "c_cron_id (patched_cron patch now c) = i"
    using cron_row_id [OF inv] by (simp add: patched_cron_def)
  with Some inv show ?thesis
    by (simp add: cron_update_op_def Let_def bump_cron_seq_def cron_updates_commute store_inv_set_cron)
qed

lemma cron_create_store_inv:
  assumes inv: "store_inv s"
  shows "store_inv (snd (cron_create_op input uuid now s))"
proof -
  let ?i = "or_default (cn_cron_id input) uuid"
  let ?c = "new_cron input ?i now"
  let ?auth = "case cn_auth input of None \<Rightarrow> ms_cron_auth s | Some a \<Rightarrow> jm_set ?i a (ms_cron_auth s)"
  have "cron_inv s" using inv by (simp add: store_inv_def)
  then have "cron_inv (s\<lparr>ms_crons := jm_set ?i ?c (ms_crons s), ms_cron_auth := ?auth,
                        ms_cron_seq := jm_set ?i 0 (ms_cron_seq s)\<rparr>)"
    by (auto simp: cron_inv_def new_cron_def jm_keys_set beside_rows_set beside_set_both
        intro: keyed_by_set jm_wf_set split: option.split)
  from store_inv_crons [OF inv this] inv show ?thesis
    by (auto simp: cron_create_op_def Let_def cron_updates_commute split: option.split)
qed

lemma cron_delete_store_inv:
  assumes inv: "store_inv s"
  shows "store_inv (cron_delete i s)"
proof -
  have "cron_inv s" using inv by (simp add: store_inv_def)
  then have "cron_inv (s\<lparr>ms_crons := jm_delete i (ms_crons s), ms_cron_auth := jm_delete i (ms_cron_auth s),
                        ms_cron_seq := jm_delete i (ms_cron_seq s)\<rparr>)"
    by (auto simp: cron_inv_def jm_keys_delete beside_delete_both intro: keyed_by_delete jm_wf_delete)
  from store_inv_crons [OF inv this] show ?thesis by (simp add: cron_delete_def)
qed

section \<open>Compare-and-swap claims\<close>

text \<open>The operations that touch a cron's claim token.\<close>

datatype cron_op =
    OpCronCreate cron_create ident instant
  | OpCronUpdate ident cron_patch instant
  | OpCronDelete ident
  | OpClaimNextRun ident cron_claim instant
  | OpClaimAndCreateRun ident cron_claim run_create ident instant

fun cron_step :: "cron_op \<Rightarrow> mem_store \<Rightarrow> mem_store" where
  "cron_step (OpCronCreate input uuid now) s = snd (cron_create_op input uuid now s)"
| "cron_step (OpCronUpdate i patch now) s = snd (cron_update_op i patch now s)"
| "cron_step (OpCronDelete i) s = cron_delete i s"
| "cron_step (OpClaimNextRun i claim now) s = snd (claim_cron i claim now s)"
| "cron_step (OpClaimAndCreateRun i claim input uuid now) s = snd (claim_and_create_run i claim input uuid now s)"

text \<open>\<open>fires i oper n s\<close>: the operation wins occurrence \<open>n\<close> of cron \<open>i\<close>.\<close>

fun fires :: "ident \<Rightarrow> cron_op \<Rightarrow> nat \<Rightarrow> mem_store \<Rightarrow> bool" where
  "fires i (OpClaimNextRun j claim now) n s \<longleftrightarrow>
     j = i \<and> cc_expected_seq claim = n \<and> fst (claim_cron j claim now s) \<noteq> None"
| "fires i (OpClaimAndCreateRun j claim input uuid now) n s \<longleftrightarrow>
     j = i \<and> cc_expected_seq claim = n \<and> fst (claim_cron j claim now s) \<noteq> None"
| "fires i _ n s \<longleftrightarrow> False"

text \<open>
  Anything but deleting the cron, or creating its id anew: both restart the token at 0.
\<close>

fun keeps_cron :: "ident \<Rightarrow> cron_op \<Rightarrow> bool" where
  "keeps_cron i (OpCronCreate input uuid _) \<longleftrightarrow> or_default (cn_cron_id input) uuid \<noteq> i"
| "keeps_cron i (OpCronDelete j) \<longleftrightarrow> j \<noteq> i"
| "keeps_cron i _ \<longleftrightarrow> True"

lemma create_run_crons [frame_simps]:
  "ms_crons (snd (create_run input uuid now s)) = ms_crons s"
  "ms_cron_seq (snd (create_run input uuid now s)) = ms_cron_seq s"
  by (auto simp: create_run_eq with_new_run_def)

lemma claim_and_create_run_crons:
  "ms_crons (snd (claim_and_create_run i claim input uuid now s)) = ms_crons (snd (claim_cron i claim now s))"
  "ms_cron_seq (snd (claim_and_create_run i claim input uuid now s)) = ms_cron_seq (snd (claim_cron i claim now s))"
  using claim_and_create_run_store [of i claim input uuid now s] by (auto simp: frame_simps)

lemma claim_cron_seq:
  "cron_seq j (snd (claim_cron i claim now s)) =
     (if j = i \<and> fst (claim_cron i claim now s) \<noteq> None then cron_seq j s + 1 else cron_seq j s)"
  by (auto simp: claim_cron_store cron_seq_def jm_get_set split: option.split)

lemma claim_and_create_run_seq:
  "cron_seq j (snd (claim_and_create_run i claim input uuid now s)) = cron_seq j (snd (claim_cron i claim now s))"
  by (simp add: cron_seq_def claim_and_create_run_crons)

lemma cron_step_seq:
  "cron_seq i (cron_step (OpCronUpdate j patch now) s) \<ge> cron_seq i s"
  "or_default (cn_cron_id input) uuid \<noteq> i \<Longrightarrow> cron_seq i (cron_step (OpCronCreate input uuid now) s) = cron_seq i s"
  "j \<noteq> i \<Longrightarrow> cron_seq i (cron_step (OpCronDelete j) s) = cron_seq i s"
  by (auto simp: cron_update_op_def cron_create_op_def cron_delete_def bump_cron_seq_def Let_def
      cron_seq_def jm_get_set jm_get_delete split: option.split)

interpretation cron_cas: cas_token cron_step "cron_seq i" "keeps_cron i" "fires i"
proof
  fix oper n s
  show "cron_seq i s = n" if "fires i oper n s"
    using that claim_cron_row by (cases oper) fastforce+
  show "n < cron_seq i (cron_step oper s)" if "fires i oper n s"
    using that claim_cron_row
    by (cases oper) (fastforce simp: claim_cron_seq claim_and_create_run_seq)+
  show "cron_seq i s \<le> cron_seq i (cron_step oper s)" if "keeps_cron i oper"
    using that by (cases oper) (simp_all add: cron_step_seq claim_cron_seq claim_and_create_run_seq del: cron_step.simps(1-3))
qed

section \<open>Properties\<close>

text \<open>
  C25. An occurrence of a cron fires at most once: when one scheduler's claim at a token has won, no
  later claim at the same token wins, whatever claims, updates and other crons' changes come between,
  as long as the cron is not deleted. A patch of the cron also makes every claim already in flight
  lose.
\<close>

theorem cron_occurrence_fires_once:
  assumes "fires i oper n s \<or> (\<exists>patch now. oper = OpCronUpdate i patch now \<and> jm_has (ms_crons s) i \<and> n \<le> cron_seq i s)"
    and "list_all (keeps_cron i) ops"
  shows "\<not> fires i again n (run_steps cron_step ops (cron_step oper s))"
  using assms(1)
proof
  assume "fires i oper n s"
  from cron_cas.won_once [OF this assms(2)] show ?thesis .
next
  assume "\<exists>patch now. oper = OpCronUpdate i patch now \<and> jm_has (ms_crons s) i \<and> n \<le> cron_seq i s"
  then have "n < cron_seq i (cron_step oper s)"
    by (auto simp: cron_update_op_def bump_cron_seq_def Let_def cron_seq_def jm_get_set jm_has_iff)
  from cron_cas.lost_behind [OF this assms(2)] show ?thesis .
qed

text \<open>
  Every occurrence the due scan lists is enabled, due, and can be claimed with the token listed
  beside it; the claim advances exactly that cron. With room on the page the scan misses none.
\<close>

theorem listed_occurrence_claimable:
  assumes inv: "store_inv s"
  shows "(\<forall>c n. (c, n) \<in> set (crons_list_due lc due_at limit s) \<longrightarrow>
            c_enabled c \<and> due_by due_at c \<and> cron_get (c_cron_id c) s = Some c \<and>
            (\<forall>next now. claim_cron (c_cron_id c) \<lparr>cc_expected_seq = n, cc_next_run_date = next\<rparr> now s =
               (Some (c\<lparr>c_next_run_date := next, c_updated_at := now\<rparr>),
                s\<lparr>ms_crons := jm_set (c_cron_id c) (c\<lparr>c_next_run_date := next, c_updated_at := now\<rparr>) (ms_crons s),
                  ms_cron_seq := jm_set (c_cron_id c) (n + 1) (ms_cron_seq s)\<rparr>))) \<and>
         (length (ms_crons s) \<le> page_limit s limit \<longrightarrow>
            (\<forall>i c. cron_get i s = Some c \<and> c_enabled c \<and> due_by due_at c \<longrightarrow>
               (c, cron_seq i s) \<in> set (crons_list_due lc due_at limit s)))"
proof -
  have keyed: "keyed_by c_cron_id (ms_crons s)" using inv by (simp add: store_inv_def cron_inv_def)
  let ?rows = "js_sort (then_by (\<lambda>a b. compare_of (or_default (c_next_run_date a) 0) (or_default (c_next_run_date b) 0))
                  (\<lambda>a b. lc (c_cron_id a) (c_cron_id b)))
                (filter (due_by due_at) (matching_crons enabled_query s))"
  have rows: "c \<in> set ?rows \<longleftrightarrow> c \<in> set (jm_values (ms_crons s)) \<and> c_enabled c \<and> due_by due_at c" for c
    by (auto simp: matching_crons_def cron_matches_def enabled_query_def unconstrained_def
        is_metadata_subset_def Let_def)
  have sound: "c_enabled c \<and> due_by due_at c \<and> cron_get (c_cron_id c) s = Some c \<and> n = cron_seq (c_cron_id c) s"
    if listed: "(c, n) \<in> set (crons_list_due lc due_at limit s)" for c n
  proof -
    have shown: "c \<in> set (page ?rows 0 (page_limit s limit))" and "n = cron_seq (c_cron_id c) s"
      using listed by (auto simp: crons_list_due_def)
    have "c \<in> set ?rows" by (rule subsetD [OF set_page_subset shown])
    with \<open>n = cron_seq (c_cron_id c) s\<close> show ?thesis using rows keyed_value_get [OF keyed] by (simp add: cron_get_def)
  qed
  have claim: "claim_cron (c_cron_id c) \<lparr>cc_expected_seq = n, cc_next_run_date = next\<rparr> now s =
      (Some (c\<lparr>c_next_run_date := next, c_updated_at := now\<rparr>),
       s\<lparr>ms_crons := jm_set (c_cron_id c) (c\<lparr>c_next_run_date := next, c_updated_at := now\<rparr>) (ms_crons s),
         ms_cron_seq := jm_set (c_cron_id c) (n + 1) (ms_cron_seq s)\<rparr>)"
    if "(c, n) \<in> set (crons_list_due lc due_at limit s)" for c n "next" now
    using sound [OF that] by (simp add: claim_cron_def cron_get_def bump_cron_seq_def Let_def)
  have complete: "(c, cron_seq i s) \<in> set (crons_list_due lc due_at limit s)"
    if room: "length (ms_crons s) \<le> page_limit s limit"
      and row: "cron_get i s = Some c" "c_enabled c" "due_by due_at c" for i c
  proof -
    have "length (matching_crons enabled_query s) \<le> length (ms_crons s)"
      by (auto simp: matching_crons_def Let_def filter_map)
    then have "length ?rows \<le> length (ms_crons s)"
      unfolding length_js_sort by (rule order_trans [OF length_filter_le])
    then have "page ?rows 0 (page_limit s limit) = ?rows" using room by (simp add: page_def)
    moreover have "c \<in> set (jm_values (ms_crons s))" "c_cron_id c = i"
      using row(1) keyed_by_get [OF keyed] by (auto simp: cron_get_def dest: map_of_SomeD intro!: image_eqI)
    ultimately show ?thesis using rows row by (auto simp: crons_list_due_def simp del: js_sort.simps)
  qed
  show ?thesis using sound claim complete by blast
qed

text \<open>
  Claiming an occurrence and creating its run are not one transaction here: when the run's id is
  already taken the call throws, but the cron has been advanced and its token spent, so the
  occurrence is never fired.
\<close>

theorem claim_and_create_run_loses_occurrence:
  assumes "fst (claim_cron i claim now s) = Some advanced"
    and "jm_has (ms_runs s) (or_default (rc_run_id input) uuid)"
  shows "\<exists>s'. claim_and_create_run i claim input uuid now s = (Inl (conflict None), s') \<and>
           cron_get i s' = Some advanced \<and> cron_seq i s' = cc_expected_seq claim + 1 \<and> ms_runs s' = ms_runs s"
proof -
  obtain s1 where claimed: "claim_cron i claim now s = (Some advanced, s1)"
    using assms(1) by (metis prod.collapse)
  have s1: "s1 = s\<lparr>ms_crons := jm_set i advanced (ms_crons s), ms_cron_seq := jm_set i (cron_seq i s + 1) (ms_cron_seq s)\<rparr>"
    using claim_cron_store [of i claim now s] claimed by simp
  obtain old where "cron_seq i s = cc_expected_seq claim" using claim_cron_row [OF assms(1)] by blast
  then show ?thesis
    using claimed assms(2)
    by (simp add: claim_and_create_run_def create_run_eq s1 cron_get_def cron_seq_def jm_get_set)
qed

subsection \<open>Witnesses\<close>

definition sample_cron_create :: cron_create where
  "sample_cron_create = \<lparr>cn_cron_id = Some ''c1'', cn_assistant_id = ''a'', cn_thread_id = None,
     cn_schedule = ''* * * * *'', cn_timezone = None, cn_end_time = None, cn_next_run_date = Some 60,
     cn_enabled = None, cn_payload = None, cn_metadata = None, cn_user_id = None,
     cn_on_run_completed = None, cn_auth = None\<rparr>"

definition sample_cron_run :: run_create where
  "sample_cron_run = \<lparr>rc_thread_id = ''t1'', rc_assistant_id = ''a'', rc_run_id = Some ''r1'', rc_status = None,
     rc_metadata = None, rc_multitask_strategy = None, rc_kwargs = None\<rparr>"

definition cron_store :: mem_store where
  "cron_store = snd (create_run sample_cron_run ''u'' 1 (snd (cron_create_op sample_cron_create ''u'' 0 empty_store)))"

definition sample_claim :: cron_claim where
  "sample_claim = \<lparr>cc_expected_seq = 0, cc_next_run_date = Some 120\<rparr>"

lemmas cron_store_simps =
  cron_store_def sample_cron_create_def sample_cron_run_def sample_claim_def empty_store_def cron_create_op_def
  create_run_def new_cron_def Let_def jm_has_def

lemma cron_store_inv: "store_inv cron_store"
  unfolding cron_store_def by (intro create_run_store_inv cron_create_store_inv empty_store_inv)

lemma cron_store_claim: "\<exists>c. fst (claim_cron ''c1'' sample_claim 60 cron_store) = Some c"
  by (simp add: claim_cron_def cron_seq_def cron_store_simps)

theorem cron_occurrence_fires_once_witness:
  "fires ''c1'' (OpClaimNextRun ''c1'' sample_claim 60) 0 cron_store \<and>
   \<not> fires ''c1'' (OpClaimAndCreateRun ''c1'' sample_claim sample_cron_run ''u'' 61) 0
       (run_steps cron_step [OpCronDelete ''c2''] (cron_step (OpClaimNextRun ''c1'' sample_claim 60) cron_store))"
proof -
  have won: "fires ''c1'' (OpClaimNextRun ''c1'' sample_claim 60) 0 cron_store"
    using cron_store_claim by (auto simp: sample_claim_def)
  have "list_all (keeps_cron ''c1'') [OpCronDelete ''c2'']" by simp
  with won cron_occurrence_fires_once [OF disjI1 [OF won]] show ?thesis by blast
qed

theorem listed_occurrence_claimable_witness:
  "\<exists>c. (c, cron_seq ''c1'' cron_store) \<in> set (crons_list_due compare_of 60 None cron_store) \<and>
     fst (claim_cron (c_cron_id c) \<lparr>cc_expected_seq = cron_seq ''c1'' cron_store, cc_next_run_date = None\<rparr> 60 cron_store) \<noteq> None"
proof -
  have "length (ms_crons cron_store) \<le> page_limit cron_store None"
    by (simp add: cron_store_simps page_limit_def)
  moreover obtain c where "cron_get ''c1'' cron_store = Some c" "c_enabled c" "due_by 60 c"
    by (simp add: cron_store_simps cron_get_def due_by_def)
  ultimately have "(c, cron_seq ''c1'' cron_store) \<in> set (crons_list_due compare_of 60 None cron_store)"
    using listed_occurrence_claimable [OF cron_store_inv, of compare_of 60 None] by blast
  with listed_occurrence_claimable [OF cron_store_inv, of compare_of 60 None] show ?thesis by fastforce
qed

theorem claim_and_create_run_loses_occurrence_witness:
  "\<exists>s'. claim_and_create_run ''c1'' sample_claim sample_cron_run ''u'' 60 cron_store = (Inl (conflict None), s') \<and>
     cron_seq ''c1'' s' = 1 \<and> ms_runs s' = ms_runs cron_store"
proof -
  obtain c where claimed: "fst (claim_cron ''c1'' sample_claim 60 cron_store) = Some c"
    using cron_store_claim by blast
  have "jm_has (ms_runs cron_store) (or_default (rc_run_id sample_cron_run) ''u'')"
    by (simp add: cron_store_simps)
  from claim_and_create_run_loses_occurrence [OF claimed this] show ?thesis by (auto simp: sample_claim_def)
qed

end
