(* ===== verification/StoreItems.thy ===== *)
theory StoreItems
  imports MemoryStore JsonText JsText
begin

text \<open>
  The long-term \<^verbatim>\<open>store\<close> repository of \<^verbatim>\<open>memory-skein-store.ts\<close>: namespaced items with a time to
  live, searched by prefix, filter and text, and listed by namespace. An expired item reads as
  absent from the instant it expires, whether or not the sweep has removed it.
\<close>

section \<open>Operations\<close>

definition item_get ::
  "namespace \<Rightarrow> string \<Rightarrow> bool option \<Rightarrow> instant \<Rightarrow> mem_store \<Rightarrow> item_view option \<times> mem_store" where
  "item_get ns key refresh now s =
     (let i = item_key ns key
      in case jm_get (ms_items s) i of
           None \<Rightarrow> (None, s)
         | Some found \<Rightarrow>
             if is_expired s now i
             then (None, s\<lparr>ms_items := jm_delete i (ms_items s), ms_item_expiry := jm_delete i (ms_item_expiry s)\<rparr>)
             else let s1 = maybe_refresh i refresh now s in (Some (project_item s1 None found), s1))"

text \<open>A per-put ttl wins; otherwise the configured default; \<open>None\<close> never expires.\<close>

definition effective_ttl :: "int jsopt \<Rightarrow> mem_store \<Rightarrow> int option" where
  "effective_ttl ttl s =
     (case ttl of
        Undefined \<Rightarrow> (case ms_ttl s of None \<Rightarrow> None | Some c \<Rightarrow> st_default_ttl c)
      | Null \<Rightarrow> None
      | Value m \<Rightarrow> Some m)"

definition item_put_with_options ::
  "namespace \<Rightarrow> string \<Rightarrow> jsobj \<Rightarrow> int jsopt \<Rightarrow> item_index option \<Rightarrow> instant \<Rightarrow> mem_store \<Rightarrow>
     item_view \<times> mem_store" where
  "item_put_with_options ns key val ttl index now s =
     (let i = item_key ns key;
          stored = \<lparr>it_namespace = ns, it_key = key, it_value = val,
                    it_created_at = (case jm_get (ms_items s) i of Some e \<Rightarrow> it_created_at e | None \<Rightarrow> now),
                    it_updated_at = now\<rparr>;
          s1 = s\<lparr>ms_items := jm_set i stored (ms_items s)\<rparr>;
          s2 = set_expiry i (effective_ttl ttl s1) now s1;
          s3 = s2\<lparr>ms_item_indexes :=
                    (case index of
                       None \<Rightarrow> jm_delete i (ms_item_indexes s2)
                     | Some ix \<Rightarrow> jm_set i ix (ms_item_indexes s2))\<rparr>
      in (project_item s3 None stored, s3))"

definition item_delete :: "namespace \<Rightarrow> string \<Rightarrow> mem_store \<Rightarrow> mem_store" where
  "item_delete ns key s =
     (let i = item_key ns key
      in s\<lparr>ms_items := jm_delete i (ms_items s), ms_item_expiry := jm_delete i (ms_item_expiry s),
           ms_item_indexes := jm_delete i (ms_item_indexes s)\<rparr>)"

record item_search_query =
  sq_prefix :: "namespace option"
  sq_filter :: "jsobj option"
  sq_query :: "string option"
  sq_limit :: "nat option"
  sq_offset :: "nat option"
  sq_refresh_ttl :: "bool option"

text \<open>\<^verbatim>\<open>Object.fromEntries(index.map((field) => [field, item.value[field]]))\<close>\<close>

definition indexed_fields :: "string list \<Rightarrow> jsobj \<Rightarrow> jsobj" where
  "indexed_fields names val = foldl (\<lambda>obj name. jm_set name (js_prop val name) obj) [] names"

text \<open>\<open>json\<close> is \<^verbatim>\<open>JSON.stringify\<close>.\<close>

definition text_matches ::
  "(jsval \<Rightarrow> string) \<Rightarrow> string \<Rightarrow> mem_store \<Rightarrow> item \<Rightarrow> bool" where
  "text_matches json needle s i =
     (case jm_get (ms_item_indexes s) (item_key (it_namespace i) (it_key i)) of
        Some NotIndexed \<Rightarrow> False
      | Some (IndexedFields []) \<Rightarrow> False
      | Some (IndexedFields names) \<Rightarrow>
          text_includes
            (to_lower_case (json (JObj (if ''$'' \<in> set names then it_value i
                                        else indexed_fields names (it_value i))))) needle
      | None \<Rightarrow> text_includes (to_lower_case (json (JObj (it_value i)))) needle)"

definition needle_of :: "item_search_query \<Rightarrow> string option" where
  "needle_of q = (case sq_query q of
                    None \<Rightarrow> None
                  | Some text \<Rightarrow> if to_lower_case text = [] then None else Some (to_lower_case text))"

definition live_items :: "instant \<Rightarrow> mem_store \<Rightarrow> item list" where
  "live_items now s = map snd (filter (\<lambda>e. \<not> is_expired s now (fst e)) (ms_items s))"

definition items_matching ::
  "(jsval \<Rightarrow> string) \<Rightarrow> item_search_query \<Rightarrow> instant \<Rightarrow> mem_store \<Rightarrow> item list" where
  "items_matching json q now s =
     filter (\<lambda>i. has_prefix (it_namespace i) (sq_prefix q) \<and>
                 matches_item_filter (it_value i) (sq_filter q) \<and>
                 (case needle_of q of None \<Rightarrow> True | Some needle \<Rightarrow> text_matches json needle s i))
       (live_items now s)"

fun refresh_each :: "bool option \<Rightarrow> instant \<Rightarrow> item list \<Rightarrow> mem_store \<Rightarrow> mem_store" where
  "refresh_each refresh now [] s = s"
| "refresh_each refresh now (i # is) s =
     refresh_each refresh now is (maybe_refresh (item_key (it_namespace i) (it_key i)) refresh now s)"

definition items_search ::
  "(jsval \<Rightarrow> string) \<Rightarrow> item_search_query \<Rightarrow> instant \<Rightarrow> mem_store \<Rightarrow> item_view list \<times> mem_store" where
  "items_search json q now s =
     (let rows = page (items_matching json q now s) (or_default (sq_offset q) 0) (page_limit s (sq_limit q));
          s1 = refresh_each (sq_refresh_ttl q) now rows s;
          score = (case needle_of q of None \<Rightarrow> None | Some _ \<Rightarrow> Some 1)
      in (map (project_item s1 score) rows, s1))"

fun namespaces_seen ::
  "namespace_query option \<Rightarrow> (string, namespace) jsmap \<Rightarrow> item list \<Rightarrow> (string, namespace) jsmap" where
  "namespaces_seen q seen [] = seen"
| "namespaces_seen q seen (i # is) =
     namespaces_seen q
       (if matches_namespace_query (it_namespace i) q
        then jm_set (json_strings (it_namespace i)) (it_namespace i) seen else seen) is"

definition list_namespaces :: "namespace_query option \<Rightarrow> instant \<Rightarrow> mem_store \<Rightarrow> namespace list" where
  "list_namespaces q now s =
     (let found = jm_values (namespaces_seen q [] (live_items now s));
          truncated = (case (case q of None \<Rightarrow> None | Some nq \<Rightarrow> nq_max_depth nq) of
                         None \<Rightarrow> found
                       | Some depth \<Rightarrow> truncate_namespace_depth found depth)
      in page (js_sort compare_namespaces truncated)
           (case q of None \<Rightarrow> 0 | Some nq \<Rightarrow> or_default (nq_offset nq) 0)
           (page_limit s (case q of None \<Rightarrow> None | Some nq \<Rightarrow> nq_limit nq)))"

text \<open>The sweep, over the expiry keys as they were.\<close>

fun sweep_items :: "instant \<Rightarrow> string list \<Rightarrow> mem_store \<Rightarrow> nat \<times> mem_store" where
  "sweep_items now [] s = (0, s)"
| "sweep_items now (i # is) s =
     (if is_expired s now i
      then (let (n, s') = sweep_items now is
                  (s\<lparr>ms_items := jm_delete i (ms_items s), ms_item_expiry := jm_delete i (ms_item_expiry s)\<rparr>)
            in (n + 1, s'))
      else sweep_items now is s)"

definition items_sweep_expired :: "instant \<Rightarrow> mem_store \<Rightarrow> nat \<times> mem_store" where
  "items_sweep_expired now s = sweep_items now (jm_keys (ms_item_expiry s)) s"

section \<open>The invariant\<close>

lemma store_inv_items:
  assumes "store_inv s" "item_inv (s\<lparr>ms_items := items, ms_item_expiry := expiry\<rparr>)"
  shows "store_inv (s\<lparr>ms_items := items, ms_item_expiry := expiry\<rparr>)"
  using assms
  by (simp add: store_inv_def run_inv_def thread_inv_def assistant_inv_def cron_inv_def ledger_inv_def)

lemma store_inv_item_drop:
  assumes "store_inv s"
  shows "store_inv (s\<lparr>ms_items := jm_delete i (ms_items s), ms_item_expiry := jm_delete i (ms_item_expiry s)\<rparr>)"
proof (rule store_inv_items [OF assms])
  show "item_inv (s\<lparr>ms_items := jm_delete i (ms_items s), ms_item_expiry := jm_delete i (ms_item_expiry s)\<rparr>)"
    using assms by (simp add: store_inv_def item_inv_def keyed_by_delete beside_delete_both)
qed

lemma store_inv_expiry:
  assumes "store_inv s" "beside m (ms_items s)"
  shows "store_inv (s\<lparr>ms_item_expiry := m\<rparr>)"
  using assms
  by (simp add: store_inv_def run_inv_def thread_inv_def assistant_inv_def cron_inv_def ledger_inv_def item_inv_def)

lemma store_inv_indexes:
  assumes "store_inv s" "jm_wf m"
  shows "store_inv (s\<lparr>ms_item_indexes := m\<rparr>)"
  using assms
  by (simp add: store_inv_def run_inv_def thread_inv_def assistant_inv_def cron_inv_def ledger_inv_def item_inv_def)

lemma store_inv_expiry_beside: "store_inv s \<Longrightarrow> beside (ms_item_expiry s) (ms_items s)"
  by (simp add: store_inv_def item_inv_def)

lemma map_of_in_keys: "map_of m i = Some v \<Longrightarrow> i \<in> fst ` set m"
  by (force dest: map_of_SomeD)

lemma maybe_refresh_store_inv:
  assumes "store_inv s"
  shows "store_inv (maybe_refresh i refresh now s)"
proof -
  have "store_inv (s\<lparr>ms_item_expiry := jm_set i e' (ms_item_expiry s)\<rparr>)"
    if "map_of (ms_item_expiry s) i = Some e" for e e'
  proof (rule store_inv_expiry [OF assms])
    have old: "beside (ms_item_expiry s) (ms_items s)" by (rule store_inv_expiry_beside [OF assms])
    moreover have "i \<in> fst ` set (ms_items s)"
      using old map_of_in_keys [OF that] by (auto simp: beside_def)
    ultimately show "beside (jm_set i e' (ms_item_expiry s)) (ms_items s)" by (rule beside_set)
  qed
  with assms show ?thesis by (auto simp: maybe_refresh_def split: option.split)
qed

lemma item_get_store_inv: "store_inv s \<Longrightarrow> store_inv (snd (item_get ns key refresh now s))"
  by (auto simp: item_get_def Let_def store_inv_item_drop maybe_refresh_store_inv split: option.split)

lemma item_put_store_inv:
  assumes inv: "store_inv s"
  shows "store_inv (snd (item_put_with_options ns key val ttl index now s))"
proof -
  let ?i = "item_key ns key"
  have row: "store_inv (s\<lparr>ms_items := jm_set ?i st (ms_items s)\<rparr>)"
    if "it_namespace st = ns" "it_key st = key" for st
    using inv that
    by (simp add: store_inv_def run_inv_def thread_inv_def assistant_inv_def cron_inv_def ledger_inv_def
        item_inv_def keyed_by_set beside_rows_set)
  have expiry: "store_inv (set_expiry ?i m now s1)" if "store_inv s1" "?i \<in> fst ` set (ms_items s1)" for s1 m
    using that store_inv_expiry_beside
    by (auto simp: set_expiry_def intro!: store_inv_expiry beside_delete beside_set split: option.split)
  have indexed: "store_inv (s2\<lparr>ms_item_indexes := (case index of None \<Rightarrow> jm_delete ?i (ms_item_indexes s2)
      | Some ix \<Rightarrow> jm_set ?i ix (ms_item_indexes s2))\<rparr>)" if "store_inv s2" for s2
  proof (rule store_inv_indexes [OF that])
    have "jm_wf (ms_item_indexes s2)" using that by (simp add: store_inv_def item_inv_def)
    then show "jm_wf (case index of None \<Rightarrow> jm_delete ?i (ms_item_indexes s2)
      | Some ix \<Rightarrow> jm_set ?i ix (ms_item_indexes s2))"
      by (simp add: jm_wf_set jm_wf_delete split: option.split)
  qed
  show ?thesis
    unfolding item_put_with_options_def Let_def snd_conv
    by (intro indexed expiry row) (simp_all add: jm_keys_set)
qed

lemma item_delete_store_inv:
  assumes "store_inv s"
  shows "store_inv (item_delete ns key s)"
proof -
  have "jm_wf (ms_item_indexes s)" using assms by (simp add: store_inv_def item_inv_def)
  with store_inv_indexes [OF store_inv_item_drop [OF assms, of "item_key ns key"]] show ?thesis
    by (simp add: item_delete_def Let_def jm_wf_delete)
qed

lemma refresh_each_store_inv: "store_inv s \<Longrightarrow> store_inv (refresh_each refresh now is s)"
  by (induction "is" arbitrary: s) (simp_all add: maybe_refresh_store_inv)

lemma items_search_store_inv: "store_inv s \<Longrightarrow> store_inv (snd (items_search json q now s))"
  by (simp add: items_search_def Let_def refresh_each_store_inv)

lemma sweep_items_store_inv: "store_inv s \<Longrightarrow> store_inv (snd (sweep_items now is s))"
proof (induction "is" arbitrary: s)
  case (Cons i "is")
  from Cons.IH [OF store_inv_item_drop [OF Cons.prems, of i]] Cons.IH [OF Cons.prems] show ?case
    by (auto simp: split_beta Let_def)
qed simp

lemma items_sweep_store_inv: "store_inv s \<Longrightarrow> store_inv (snd (items_sweep_expired now s))"
  by (simp add: items_sweep_expired_def sweep_items_store_inv)

section \<open>The sweep\<close>

lemma is_expired_drop:
  "is_expired (s\<lparr>ms_items := a, ms_item_expiry := jm_delete i (ms_item_expiry s)\<rparr>) now j \<longleftrightarrow>
     j \<noteq> i \<and> is_expired s now j"
  by (simp add: is_expired_def jm_get_delete)

lemma filter_after_drop:
  assumes "is_expired s now i"
  shows "filter (\<lambda>e. \<not> (fst e \<in> set is \<and> fst e \<noteq> i \<and> is_expired s now (fst e))) (jm_delete i m) =
         filter (\<lambda>e. \<not> ((fst e = i \<or> fst e \<in> set is) \<and> is_expired s now (fst e))) m"
  using assms by (auto simp: AList.delete_eq intro!: filter_cong)

lemma sweep_items_maps:
  "ms_items (snd (sweep_items now is s)) =
     filter (\<lambda>e. \<not> (fst e \<in> set is \<and> is_expired s now (fst e))) (ms_items s) \<and>
   ms_item_expiry (snd (sweep_items now is s)) =
     filter (\<lambda>e. \<not> (fst e \<in> set is \<and> is_expired s now (fst e))) (ms_item_expiry s) \<and>
   ms_item_indexes (snd (sweep_items now is s)) = ms_item_indexes s \<and>
   ms_ttl (snd (sweep_items now is s)) = ms_ttl s \<and>
   ms_max_page_size (snd (sweep_items now is s)) = ms_max_page_size s"
proof (induction "is" arbitrary: s)
  case (Cons i "is")
  show ?case
  proof (cases "is_expired s now i")
    case True
    let ?s1 = "s\<lparr>ms_items := jm_delete i (ms_items s), ms_item_expiry := jm_delete i (ms_item_expiry s)\<rparr>"
    from Cons.IH [of ?s1] True show ?thesis
      by (simp add: split_beta Let_def is_expired_drop filter_after_drop [OF True] del: de_Morgan_conj)
  next
    case False
    with Cons.IH [of s] show ?thesis by (auto intro!: filter_cong)
  qed
qed simp

lemma items_sweep_maps:
  assumes "item_inv s"
  shows "ms_items (snd (items_sweep_expired now s)) = filter (\<lambda>e. \<not> is_expired s now (fst e)) (ms_items s)"
    and "ms_item_expiry (snd (items_sweep_expired now s)) = filter (\<lambda>e. \<not> is_expired s now (fst e)) (ms_item_expiry s)"
    and "ms_item_indexes (snd (items_sweep_expired now s)) = ms_item_indexes s"
    and "ms_ttl (snd (items_sweep_expired now s)) = ms_ttl s"
    and "ms_max_page_size (snd (items_sweep_expired now s)) = ms_max_page_size s"
proof -
  have known: "is_expired s now i \<Longrightarrow> i \<in> set (jm_keys (ms_item_expiry s))" for i
    by (auto simp: is_expired_def split: option.splits dest: map_of_in_keys)
  have same: "fst e \<in> set (jm_keys (ms_item_expiry s)) \<and> is_expired s now (fst e) \<longleftrightarrow> is_expired s now (fst e)" for e :: "string \<times> 'c"
    using known by blast
  note maps = sweep_items_maps [of now "jm_keys (ms_item_expiry s)" s]
  show "ms_items (snd (items_sweep_expired now s)) = filter (\<lambda>e. \<not> is_expired s now (fst e)) (ms_items s)"
    using maps known by (auto simp: items_sweep_expired_def intro!: filter_cong)
  show "ms_item_expiry (snd (items_sweep_expired now s)) = filter (\<lambda>e. \<not> is_expired s now (fst e)) (ms_item_expiry s)"
    using maps known by (auto simp: items_sweep_expired_def intro!: filter_cong)
  show "ms_item_indexes (snd (items_sweep_expired now s)) = ms_item_indexes s"
    "ms_ttl (snd (items_sweep_expired now s)) = ms_ttl s"
    "ms_max_page_size (snd (items_sweep_expired now s)) = ms_max_page_size s"
    using maps by (simp_all add: items_sweep_expired_def)
qed

lemma swept_expiry:
  assumes "item_inv s"
  shows "map_of (ms_item_expiry (snd (items_sweep_expired now s))) i =
           (if is_expired s now i then None else map_of (ms_item_expiry s) i)"
proof -
  have "jm_wf (ms_item_expiry s)" using assms by (simp add: item_inv_def beside_def)
  then show ?thesis
    unfolding items_sweep_maps(2) [OF assms] by (simp add: jm_get_filter split: option.split)
qed

lemma swept_live:
  assumes "item_inv s"
  shows "live_items now (snd (items_sweep_expired now s)) = live_items now s"
    and "is_expired (snd (items_sweep_expired now s)) now i \<longleftrightarrow> False"
proof -
  have none: "\<not> is_expired (snd (items_sweep_expired now s)) now i" for i
    using swept_expiry [OF assms, of now i] by (auto simp: is_expired_def split: option.splits)
  then show "is_expired (snd (items_sweep_expired now s)) now i \<longleftrightarrow> False" by simp
  show "live_items now (snd (items_sweep_expired now s)) = live_items now s"
    by (simp add: live_items_def none items_sweep_maps(1) [OF assms])
qed

text \<open>What one read shows of an item depends on the expiry of that item only.\<close>

lemma maybe_refresh_expiry:
  "map_of (ms_item_expiry (maybe_refresh i refresh now s)) j =
     (if j = i \<and> or_default refresh (case ms_ttl s of None \<Rightarrow> False | Some c \<Rightarrow> st_refresh_on_read c \<noteq> Some False)
      then (case map_of (ms_item_expiry s) i of
              None \<Rightarrow> None
            | Some e \<Rightarrow> Some (case ie_ttl_minutes e of
                                None \<Rightarrow> e | Some m \<Rightarrow> e\<lparr>ie_expires_at := Some (now + minutes_ms m)\<rparr>))
      else map_of (ms_item_expiry s) j)"
  "ms_ttl (maybe_refresh i refresh now s) = ms_ttl s"
  "ms_items (maybe_refresh i refresh now s) = ms_items s"
  "ms_item_indexes (maybe_refresh i refresh now s) = ms_item_indexes s"
  by (auto simp: maybe_refresh_def jm_get_set split: option.split)

lemma maybe_refresh_expiry_cong:
  assumes "map_of (ms_item_expiry s) j = map_of (ms_item_expiry s') j" "ms_ttl s = ms_ttl s'"
  shows "map_of (ms_item_expiry (maybe_refresh i refresh now s)) j =
         map_of (ms_item_expiry (maybe_refresh i refresh now s')) j"
  unfolding maybe_refresh_expiry(1) assms(2) using assms(1) by (cases "j = i") simp_all

lemma refresh_each_expiry_cong:
  "map_of (ms_item_expiry s) j = map_of (ms_item_expiry s') j \<Longrightarrow> ms_ttl s = ms_ttl s' \<Longrightarrow>
     map_of (ms_item_expiry (refresh_each refresh now rows s)) j =
     map_of (ms_item_expiry (refresh_each refresh now rows s')) j"
proof (induction rows arbitrary: s s')
  case (Cons i rows)
  let ?k = "item_key (it_namespace i) (it_key i)"
  have "ms_ttl (maybe_refresh ?k refresh now s) = ms_ttl (maybe_refresh ?k refresh now s')"
    unfolding maybe_refresh_expiry(2) by (rule Cons.prems(2))
  from Cons.IH [OF maybe_refresh_expiry_cong [OF Cons.prems] this] show ?case
    by (simp only: refresh_each.simps)
qed simp

lemma project_item_cong:
  "map_of (ms_item_expiry s) (item_key (it_namespace i) (it_key i)) =
     map_of (ms_item_expiry s') (item_key (it_namespace i) (it_key i)) \<Longrightarrow>
   project_item s score i = project_item s' score i"
  by (simp add: project_item_def)

lemma live_item_key:
  assumes "item_inv s" "i \<in> set (live_items now s)"
  shows "\<not> is_expired s now (item_key (it_namespace i) (it_key i))"
  using assms by (auto simp: live_items_def item_inv_def keyed_by_def)

section \<open>Properties\<close>

text \<open>
  The sweep is invisible: at the instant it runs, every get, search and namespace listing
  answers the same before and after it, since expired items already read as absent.
\<close>

theorem sweep_invisible:
  assumes inv: "item_inv s"
  shows "fst (item_get ns key refresh now (snd (items_sweep_expired now s))) = fst (item_get ns key refresh now s) \<and>
         fst (items_search json q now (snd (items_sweep_expired now s))) = fst (items_search json q now s) \<and>
         list_namespaces nq now (snd (items_sweep_expired now s)) = list_namespaces nq now s"
proof (intro conjI)
  let ?s' = "snd (items_sweep_expired now s)"
  note maps = items_sweep_maps [OF inv] and live = swept_live [OF inv] and expiry = swept_expiry [OF inv]
  have wf: "jm_wf (ms_items s)" using inv by (simp add: item_inv_def keyed_by_def)
  have lim: "page_limit ?s' n = page_limit s n" for n by (simp add: page_limit_def maps)
  show "list_namespaces nq now ?s' = list_namespaces nq now s"
    by (simp add: list_namespaces_def live lim)
  show "fst (items_search json q now ?s') = fst (items_search json q now s)"
  proof -
    have "text_matches json needle ?s' i = text_matches json needle s i" for needle i
      by (simp add: text_matches_def maps)
    then have rows: "items_matching json q now ?s' = items_matching json q now s"
      unfolding items_matching_def live by (simp cong: option.case_cong)
    let ?rows = "page (items_matching json q now s) (or_default (sq_offset q) 0) (page_limit s (sq_limit q))"
    have "project_item (refresh_each r now ?rows ?s') score i = project_item (refresh_each r now ?rows s) score i"
      if "i \<in> set ?rows" for i r score
    proof (intro project_item_cong refresh_each_expiry_cong)
      have "i \<in> set (live_items now s)"
        using subsetD [OF set_page_subset that] by (simp add: items_matching_def)
      from live_item_key [OF inv this]
      show "map_of (ms_item_expiry ?s') (item_key (it_namespace i) (it_key i)) =
            map_of (ms_item_expiry s) (item_key (it_namespace i) (it_key i))"
        by (simp add: expiry)
      show "ms_ttl ?s' = ms_ttl s" by (rule maps(4))
    qed
    then show ?thesis by (simp add: items_search_def Let_def rows lim)
  qed
  show "fst (item_get ns key refresh now ?s') = fst (item_get ns key refresh now s)"
  proof -
    let ?i = "item_key ns key"
    have row: "map_of (ms_items ?s') ?i = (if is_expired s now ?i then None else map_of (ms_items s) ?i)"
      by (simp add: maps(1) jm_get_filter [OF wf] split: option.split)
    have "project_item (maybe_refresh ?i refresh now ?s') None x = project_item (maybe_refresh ?i refresh now s) None x"
      if "map_of (ms_items s) ?i = Some x" "\<not> is_expired s now ?i" for x
    proof -
      have "item_key (it_namespace x) (it_key x) = ?i"
        using keyed_by_get [OF _ that(1)] inv unfolding item_inv_def by blast
      then show ?thesis
        using that(2) by (intro project_item_cong) (simp add: maybe_refresh_expiry expiry maps(4))
    qed
    then show ?thesis
      by (auto simp: item_get_def Let_def row live(2) split: option.split)
  qed
qed

lemma set_expiry_get:
  "map_of (ms_item_expiry (set_expiry k m now s)) j =
     (if j = k then map_option (\<lambda>v. \<lparr>ie_expires_at = Some (now + minutes_ms v), ie_ttl_minutes = Some v\<rparr>) m
      else map_of (ms_item_expiry s) j)"
  "ms_items (set_expiry k m now s) = ms_items s"
  "ms_ttl (set_expiry k m now s) = ms_ttl s"
  by (auto simp: set_expiry_def jm_get_set jm_get_delete split: option.split)

lemma item_put_maps:
  assumes "s1 = snd (item_put_with_options ns key val ttl index now s)"
  shows "map_of (ms_items s1) j =
           (if j = item_key ns key
            then Some \<lparr>it_namespace = ns, it_key = key, it_value = val,
                       it_created_at = (case jm_get (ms_items s) (item_key ns key) of
                                          Some e \<Rightarrow> it_created_at e | None \<Rightarrow> now),
                       it_updated_at = now\<rparr>
            else map_of (ms_items s) j)"
    and "map_of (ms_item_expiry s1) j =
           (if j = item_key ns key
            then map_option (\<lambda>v. \<lparr>ie_expires_at = Some (now + minutes_ms v), ie_ttl_minutes = Some v\<rparr>) (effective_ttl ttl s)
            else map_of (ms_item_expiry s) j)"
    and "ms_ttl s1 = ms_ttl s"
proof -
  have "effective_ttl ttl (s\<lparr>ms_items := x\<rparr>) = effective_ttl ttl s" for x
    by (simp add: effective_ttl_def cong: jsopt.case_cong)
  then show "map_of (ms_items s1) j =
           (if j = item_key ns key
            then Some \<lparr>it_namespace = ns, it_key = key, it_value = val,
                       it_created_at = (case jm_get (ms_items s) (item_key ns key) of
                                          Some e \<Rightarrow> it_created_at e | None \<Rightarrow> now),
                       it_updated_at = now\<rparr>
            else map_of (ms_items s) j)"
    "map_of (ms_item_expiry s1) j =
           (if j = item_key ns key
            then map_option (\<lambda>v. \<lparr>ie_expires_at = Some (now + minutes_ms v), ie_ttl_minutes = Some v\<rparr>) (effective_ttl ttl s)
            else map_of (ms_item_expiry s) j)"
    "ms_ttl s1 = ms_ttl s"
    by (simp_all add: assms item_put_with_options_def Let_def set_expiry_get jm_get_set)
qed

text \<open>
  What is put is what is got, until it expires: a get at a later instant returns the value with
  the time of the put, and nothing once the effective time to live has passed; no other item is
  affected.
\<close>

theorem item_put_get:
  assumes "s1 = snd (item_put_with_options ns key val ttl index now s)"
  shows "(case fst (item_get ns key refresh later s1) of
            None \<Rightarrow> (\<exists>m. effective_ttl ttl s = Some m \<and> now + minutes_ms m \<le> later)
          | Some v \<Rightarrow> \<not> (\<exists>m. effective_ttl ttl s = Some m \<and> now + minutes_ms m \<le> later) \<and>
              it_namespace v = ns \<and> it_key v = key \<and> it_value v = val \<and> it_updated_at v = now \<and>
              it_created_at v = (case jm_get (ms_items s) (item_key ns key) of
                                   Some e \<Rightarrow> it_created_at e | None \<Rightarrow> now)) \<and>
         (\<forall>ns' key'. (ns', key') \<noteq> (ns, key) \<longrightarrow> item_inv s \<longrightarrow>
            fst (item_get ns' key' refresh later s1) = fst (item_get ns' key' refresh later s))"
proof
  note maps = item_put_maps [OF assms]
  let ?i = "item_key ns key"
  have "is_expired s1 later ?i \<longleftrightarrow> (\<exists>m. effective_ttl ttl s = Some m \<and> now + minutes_ms m \<le> later)"
    by (auto simp: is_expired_def maps(2) split: option.split)
  then show "case fst (item_get ns key refresh later s1) of
            None \<Rightarrow> (\<exists>m. effective_ttl ttl s = Some m \<and> now + minutes_ms m \<le> later)
          | Some v \<Rightarrow> \<not> (\<exists>m. effective_ttl ttl s = Some m \<and> now + minutes_ms m \<le> later) \<and>
              it_namespace v = ns \<and> it_key v = key \<and> it_value v = val \<and> it_updated_at v = now \<and>
              it_created_at v = (case jm_get (ms_items s) (item_key ns key) of
                                   Some e \<Rightarrow> it_created_at e | None \<Rightarrow> now)"
    by (cases "is_expired s1 later ?i")
       (simp_all add: item_get_def Let_def maps(1) project_item_def item.extend_def)
  show "\<forall>ns' key'. (ns', key') \<noteq> (ns, key) \<longrightarrow> item_inv s \<longrightarrow>
      fst (item_get ns' key' refresh later s1) = fst (item_get ns' key' refresh later s)"
  proof (intro allI impI)
    fix ns' key'
    assume other: "(ns', key') \<noteq> (ns, key)" and inv: "item_inv s"
    let ?j = "item_key ns' key'"
    have j: "?j \<noteq> ?i" using other by simp
    have "is_expired s1 later ?j = is_expired s later ?j"
      using j unfolding is_expired_def maps(2) by (simp del: item_key_inject)
    moreover have "project_item (maybe_refresh ?j refresh later s1) None x = project_item (maybe_refresh ?j refresh later s) None x"
      if "map_of (ms_items s) ?j = Some x" for x
    proof (intro project_item_cong maybe_refresh_expiry_cong)
      have "item_key (it_namespace x) (it_key x) = ?j"
        using keyed_by_get [OF _ that] inv unfolding item_inv_def by blast
      then show "map_of (ms_item_expiry s1) (item_key (it_namespace x) (it_key x)) =
          map_of (ms_item_expiry s) (item_key (it_namespace x) (it_key x))"
        using j by (auto simp: maps(2))
      show "ms_ttl s1 = ms_ttl s" by (rule maps(3))
    qed
    ultimately show "fst (item_get ns' key' refresh later s1) = fst (item_get ns' key' refresh later s)"
      using j by (auto simp: item_get_def Let_def maps(1) split: option.split)
  qed
qed

lemma namespaces_seen_keeps:
  "jm_wf seen \<Longrightarrow> self_keyed seen \<Longrightarrow>
     jm_wf (namespaces_seen q seen is) \<and> self_keyed (namespaces_seen q seen is) \<and>
     fst ` set (namespaces_seen q seen is) =
       fst ` set seen \<union> (\<lambda>i. json_strings (it_namespace i)) ` {i \<in> set is. matches_namespace_query (it_namespace i) q}"
proof (induction "is" arbitrary: seen)
  case (Cons i "is")
  let ?seen = "if matches_namespace_query (it_namespace i) q
    then jm_set (json_strings (it_namespace i)) (it_namespace i) seen else seen"
  have "jm_wf ?seen" "self_keyed ?seen"
    using Cons.prems by (auto intro: wf_intro self_keyed_set)
  from Cons.IH [OF this] show ?case by (auto simp: jm_simps)
qed simp

lemma namespaces_seen_values:
  "set (jm_values (namespaces_seen q [] is)) = it_namespace ` {i \<in> set is. matches_namespace_query (it_namespace i) q}"
  "distinct (jm_values (namespaces_seen q [] is))"
proof -
  let ?m = "namespaces_seen q [] is"
  have m: "jm_wf ?m" "self_keyed ?m"
    "fst ` set ?m = (\<lambda>i. json_strings (it_namespace i)) ` {i \<in> set is. matches_namespace_query (it_namespace i) q}"
    using namespaces_seen_keeps [of "[]" q "is"] self_keyed_Nil by auto
  have keys: "map json_strings (jm_values ?m) = jm_keys ?m" using self_keyed_values [OF m(2)] by simp
  then have "json_strings ` set (jm_values ?m) =
      json_strings ` it_namespace ` {i \<in> set is. matches_namespace_query (it_namespace i) q}"
    using m(3) by (metis image_image list.set_map)
  then show "set (jm_values ?m) = it_namespace ` {i \<in> set is. matches_namespace_query (it_namespace i) q}"
    by (rule inj_image_eq_iff [THEN iffD1, rotated]) (simp add: inj_def)
  show "distinct (jm_values ?m)" using m(1) keys by (metis distinct_map)
qed

text \<open>
  A namespace listing is the page of the strictly ascending list of the distinct namespaces,
  cut to the asked depth, of the items that are live and match the query: none twice, none missing,
  none of an expired item.
\<close>

theorem list_namespaces_exact:
  "\<exists>full. list_namespaces (Some q) now s = page full (or_default (nq_offset q) 0) (page_limit s (nq_limit q)) \<and>
     sorted_wrt (<) full \<and>
     set full = (case nq_max_depth q of None \<Rightarrow> (\<lambda>ns. ns) | Some d \<Rightarrow> take d) `
                  it_namespace ` {i \<in> set (live_items now s). matches_namespace_query (it_namespace i) (Some q)}"
proof -
  let ?found = "jm_values (namespaces_seen (Some q) [] (live_items now s))"
  let ?cut = "case nq_max_depth q of None \<Rightarrow> ?found | Some d \<Rightarrow> truncate_namespace_depth ?found d"
  let ?full = "js_sort compare_namespaces ?cut"
  have "distinct ?cut"
    by (simp add: truncate_namespace_depth_distinct namespaces_seen_values(2) split: option.split)
  then have dist: "distinct ?full" by (metis mset_js_sort mset_eq_imp_distinct_iff)
  have "sorted ?full"
    using namespaces.sort_sorted [of ?cut] by (simp add: compare_namespaces_lex)
  with dist have "sorted_wrt (<) ?full" by (simp add: strict_sorted_iff)
  moreover have "set ?full = (case nq_max_depth q of None \<Rightarrow> (\<lambda>ns. ns) | Some d \<Rightarrow> take d) `
      it_namespace ` {i \<in> set (live_items now s). matches_namespace_query (it_namespace i) (Some q)}"
    by (cases "nq_max_depth q") (simp_all only: set_js_sort set_truncate_namespace_depth
        namespaces_seen_values(1) option.case image_ident)
  ultimately show ?thesis
    by (intro exI [of _ ?full]) (simp add: list_namespaces_def Let_def)
qed

subsection \<open>Witnesses\<close>

definition one_item :: mem_store where
  "one_item = snd (item_put_with_options [''a''] ''k'' [(''x'', JNull)] (Value 1) None 0 empty_store)"

theorem sweep_invisible_witness:
  "item_inv one_item \<and>
   fst (item_get [''a''] ''k'' None 60000 (snd (items_sweep_expired 60000 one_item))) =
   fst (item_get [''a''] ''k'' None 60000 one_item)"
proof -
  have "store_inv one_item" unfolding one_item_def by (rule item_put_store_inv [OF empty_store_inv])
  then have "item_inv one_item" by (simp add: store_inv_def)
  with sweep_invisible [OF this] show ?thesis by blast
qed

theorem item_put_get_witness:
  "\<exists>v. fst (item_get [''a''] ''k'' None 59999 one_item) = Some v \<and> it_value v = [(''x'', JNull)] \<and>
       fst (item_get [''a''] ''k'' None 60000 one_item) = None"
proof -
  have ttl: "effective_ttl (Value 1) empty_store = Some 1" by (simp add: effective_ttl_def)
  show ?thesis
    using item_put_get [where ns = "[''a'']" and key = "''k''" and val = "[(''x'', JNull)]" and ttl = "Value 1"
        and index = None and now = 0 and s = empty_store and refresh = None and later = 59999, OF one_item_def]
      item_put_get [where ns = "[''a'']" and key = "''k''" and val = "[(''x'', JNull)]" and ttl = "Value 1"
        and index = None and now = 0 and s = empty_store and refresh = None and later = 60000, OF one_item_def] ttl
    by (auto simp: minutes_ms_def split: option.splits)
qed

end
