(* ===== verification/StoreIdempotency.thy ===== *)
theory StoreIdempotency
  imports MemoryStore Contracts
begin

text \<open>
  The \<^verbatim>\<open>idempotency\<close> repository of \<^verbatim>\<open>memory-skein-store.ts\<close>: recorded responses keyed on
  (scope, key), behind the \<^verbatim>\<open>Idempotency-Key\<close> header. A request claims its key with a token, and
  either records its response or releases the claim; both need the token still to be the row's.
\<close>

section \<open>Operations\<close>

record idempotency_claim =
  ic_key :: string
  ic_scope :: string
  ic_fingerprint :: string
  ic_claim_id :: ident
  ic_now :: instant
  ic_expires_at :: instant

record idempotency_claim_result =
  icr_claimed :: bool
  icr_record :: idempotency_record

record recorded_response_input =
  ri_response :: recorded_response
  ri_expires_at :: instant
  ri_run_id :: "ident option"
  ri_thread_id :: "ident option"

definition claimed_record :: "idempotency_claim \<Rightarrow> idempotency_record option \<Rightarrow> instant \<Rightarrow> idempotency_record" where
  "claimed_record c existing at_time =
     \<lparr>ir_key = ic_key c, ir_scope = ic_scope c, ir_fingerprint = ic_fingerprint c,
      ir_claim_id = ic_claim_id c, ir_status = InFlight, ir_response = None, ir_run_id = None,
      ir_thread_id = None,
      ir_created_at = (case existing of Some r \<Rightarrow> ir_created_at r | None \<Rightarrow> at_time),
      ir_updated_at = at_time, ir_expires_at = ic_expires_at c\<rparr>"

definition idempotency_get :: "string \<Rightarrow> string \<Rightarrow> mem_store \<Rightarrow> idempotency_record option" where
  "idempotency_get scope key s = jm_get (ms_idempotency s) (idempotency_key scope key)"

text \<open>\<^verbatim>\<open>claim\<close>: an incumbent that has not expired is reported; otherwise the row is reset and owned.\<close>

definition idempotency_claim_op ::
  "idempotency_claim \<Rightarrow> instant \<Rightarrow> mem_store \<Rightarrow> idempotency_claim_result \<times> mem_store" where
  "idempotency_claim_op c at_time s =
     (let i = idempotency_key (ic_scope c) (ic_key c);
          existing = jm_get (ms_idempotency s) i;
          fresh = claimed_record c existing at_time;
          won = (\<lparr>icr_claimed = True, icr_record = fresh\<rparr>,
                 s\<lparr>ms_idempotency := jm_set i fresh (ms_idempotency s)\<rparr>)
      in case existing of
           Some r \<Rightarrow> if ic_now c < ir_expires_at r then (\<lparr>icr_claimed = False, icr_record = r\<rparr>, s) else won
         | None \<Rightarrow> won)"

definition recorded_over ::
  "recorded_response_input \<Rightarrow> instant \<Rightarrow> idempotency_record \<Rightarrow> idempotency_record" where
  "recorded_over input now r =
     r\<lparr>ir_status := Done, ir_response := Some (ri_response input),
       ir_run_id := (case ri_run_id input of Some i \<Rightarrow> Some i | None \<Rightarrow> ir_run_id r),
       ir_thread_id := (case ri_thread_id input of Some i \<Rightarrow> Some i | None \<Rightarrow> ir_thread_id r),
       ir_updated_at := now, ir_expires_at := ri_expires_at input\<rparr>"

definition idempotency_record_op ::
  "string \<Rightarrow> string \<Rightarrow> ident \<Rightarrow> recorded_response_input \<Rightarrow> instant \<Rightarrow> mem_store \<Rightarrow> mem_store" where
  "idempotency_record_op scope key claim_id input now s =
     (let i = idempotency_key scope key in
      case jm_get (ms_idempotency s) i of
        None \<Rightarrow> s
      | Some r \<Rightarrow>
          if ir_claim_id r \<noteq> claim_id then s
          else s\<lparr>ms_idempotency := jm_set i (recorded_over input now r) (ms_idempotency s)\<rparr>)"

definition idempotency_release :: "string \<Rightarrow> string \<Rightarrow> ident \<Rightarrow> mem_store \<Rightarrow> mem_store" where
  "idempotency_release scope key claim_id s =
     (let i = idempotency_key scope key in
      case jm_get (ms_idempotency s) i of
        None \<Rightarrow> s
      | Some r \<Rightarrow>
          if ir_claim_id r \<noteq> claim_id then s
          else s\<lparr>ms_idempotency := jm_delete i (ms_idempotency s)\<rparr>)"

text \<open>The three bulk deletions: the number of the rows they remove, and the others.\<close>

definition idempotency_remove_where ::
  "(idempotency_record \<Rightarrow> bool) \<Rightarrow> mem_store \<Rightarrow> nat \<times> mem_store" where
  "idempotency_remove_where doomed s =
     (length (filter (\<lambda>e. doomed (snd e)) (ms_idempotency s)),
      s\<lparr>ms_idempotency := filter (\<lambda>e. \<not> doomed (snd e)) (ms_idempotency s)\<rparr>)"

definition idempotency_delete_by_thread :: "ident \<Rightarrow> mem_store \<Rightarrow> nat \<times> mem_store" where
  "idempotency_delete_by_thread thread_id = idempotency_remove_where (\<lambda>r. ir_thread_id r = Some thread_id)"

definition idempotency_delete_by_run :: "ident \<Rightarrow> mem_store \<Rightarrow> nat \<times> mem_store" where
  "idempotency_delete_by_run run_id = idempotency_remove_where (\<lambda>r. ir_run_id r = Some run_id)"

definition idempotency_sweep_expired :: "instant \<Rightarrow> mem_store \<Rightarrow> nat \<times> mem_store" where
  "idempotency_sweep_expired now = idempotency_remove_where (\<lambda>r. ir_expires_at r \<le> now)"

lemmas idempotency_delete_defs =
  idempotency_delete_by_thread_def idempotency_delete_by_run_def idempotency_sweep_expired_def
  idempotency_remove_where_def

lemmas idempotency_op_defs =
  idempotency_claim_op_def idempotency_record_op_def idempotency_release_def idempotency_delete_defs

section \<open>Invariant\<close>

definition idempotency_keyed :: "mem_store \<Rightarrow> bool" where
  "idempotency_keyed s \<longleftrightarrow> keyed_by (\<lambda>r. idempotency_key (ir_scope r) (ir_key r)) (ms_idempotency s)"

lemma idempotency_ops_inv:
  assumes "store_inv s"
  shows "store_inv (snd (idempotency_claim_op c at_time s))"
    and "store_inv (idempotency_record_op scope key claim_id input now s)"
    and "store_inv (idempotency_release scope key claim_id s)"
    and "store_inv (snd (idempotency_delete_by_thread t s))"
    and "store_inv (snd (idempotency_delete_by_run r s))"
    and "store_inv (snd (idempotency_sweep_expired now s))"
  using assms keyed_by_get [of "\<lambda>r. idempotency_key (ir_scope r) (ir_key r)" "ms_idempotency s"]
  by (auto simp: idempotency_op_defs store_inv_def inv_defs Let_def claimed_record_def recorded_over_def
      intro!: wf_intro split: option.split)

lemma store_inv_idempotency_keyed: "store_inv s \<Longrightarrow> idempotency_keyed s"
  by (simp add: store_inv_def ledger_inv_def idempotency_keyed_def)

section \<open>Histories\<close>

datatype idempotency_op =
    OpClaimKey idempotency_claim instant
  | OpRecordResponse string string ident recorded_response_input instant
  | OpReleaseKey string string ident
  | OpDeleteByThread ident
  | OpDeleteByRun ident
  | OpSweepKeys instant

fun idempotency_step :: "idempotency_op \<Rightarrow> mem_store \<Rightarrow> mem_store" where
  "idempotency_step (OpClaimKey c at_time) s = snd (idempotency_claim_op c at_time s)"
| "idempotency_step (OpRecordResponse scope key i input now) s = idempotency_record_op scope key i input now s"
| "idempotency_step (OpReleaseKey scope key i) s = idempotency_release scope key i s"
| "idempotency_step (OpDeleteByThread t) s = snd (idempotency_delete_by_thread t s)"
| "idempotency_step (OpDeleteByRun r) s = snd (idempotency_delete_by_run r s)"
| "idempotency_step (OpSweepKeys now) s = snd (idempotency_sweep_expired now s)"

text \<open>
  What may happen while a row is live: claims and sweeps before it expires, reports and releases of
  its key under other tokens, erasures of other threads and runs, and anything on other keys.
\<close>

fun before_expiry :: "idempotency_record \<Rightarrow> idempotency_op \<Rightarrow> bool" where
  "before_expiry row (OpClaimKey c _) \<longleftrightarrow>
     (ic_scope c = ir_scope row \<and> ic_key c = ir_key row \<longrightarrow> ic_now c < ir_expires_at row)"
| "before_expiry row (OpRecordResponse scope key i _ _) \<longleftrightarrow>
     (scope = ir_scope row \<and> key = ir_key row \<longrightarrow> i \<noteq> ir_claim_id row)"
| "before_expiry row (OpReleaseKey scope key i) \<longleftrightarrow>
     (scope = ir_scope row \<and> key = ir_key row \<longrightarrow> i \<noteq> ir_claim_id row)"
| "before_expiry row (OpDeleteByThread t) \<longleftrightarrow> ir_thread_id row \<noteq> Some t"
| "before_expiry row (OpDeleteByRun r) \<longleftrightarrow> ir_run_id row \<noteq> Some r"
| "before_expiry row (OpSweepKeys now) \<longleftrightarrow> now < ir_expires_at row"

definition row_held :: "idempotency_record \<Rightarrow> mem_store \<Rightarrow> bool" where
  "row_held row s \<longleftrightarrow> idempotency_keyed s \<and> idempotency_get (ir_scope row) (ir_key row) s = Some row"

fun wins_key :: "idempotency_record \<Rightarrow> idempotency_op \<Rightarrow> mem_store \<Rightarrow> bool" where
  "wins_key row (OpClaimKey c at_time) s \<longleftrightarrow>
     ic_scope c = ir_scope row \<and> ic_key c = ir_key row \<and> icr_claimed (fst (idempotency_claim_op c at_time s))"
| "wins_key row _ s \<longleftrightarrow> False"

lemma idempotency_step_keyed: "idempotency_keyed s \<Longrightarrow> idempotency_keyed (idempotency_step oper s)"
  using keyed_by_get [of "\<lambda>r. idempotency_key (ir_scope r) (ir_key r)" "ms_idempotency s"]
  by (cases oper) (auto simp: idempotency_op_defs idempotency_keyed_def Let_def claimed_record_def
      recorded_over_def intro!: wf_intro split: option.split)

lemma held_claim_refused:
  assumes "row_held row s" "ic_scope c = ir_scope row" "ic_key c = ir_key row" "ic_now c < ir_expires_at row"
  shows "idempotency_claim_op c at_time s = (\<lparr>icr_claimed = False, icr_record = row\<rparr>, s)"
  using assms by (simp add: row_held_def idempotency_get_def idempotency_claim_op_def)

lemma live_row_step:
  assumes held: "row_held row s" and step: "before_expiry row oper"
  shows "idempotency_get (ir_scope row) (ir_key row) (idempotency_step oper s) = Some row"
proof -
  have wf: "jm_wf (ms_idempotency s)" and row: "map_of (ms_idempotency s) (idempotency_key (ir_scope row) (ir_key row)) = Some row"
    using held keyed_by_wf by (auto simp: row_held_def idempotency_keyed_def idempotency_get_def)
  show ?thesis
    using step row
    by (cases oper)
      (auto simp: idempotency_op_defs idempotency_get_def Let_def jm_simps jm_get_filter [OF wf]
         idempotency_key_inject split: option.split)
qed

interpretation key_lease: lease_contract idempotency_step "row_held row" "before_expiry row" "wins_key row"
proof
  fix s oper
  assume *: "row_held row s" "before_expiry row oper"
  then show "row_held row (idempotency_step oper s)"
    using live_row_step idempotency_step_keyed by (auto simp: row_held_def)
  from * show "\<not> wins_key row oper s"
    by (cases oper) (auto simp: held_claim_refused)
qed

section \<open>Properties\<close>

lemma claim_won:
  assumes "idempotency_keyed s" "icr_claimed (fst (idempotency_claim_op c at_time s))"
  shows "fst (idempotency_claim_op c at_time s) =
           \<lparr>icr_claimed = True,
            icr_record = claimed_record c (idempotency_get (ic_scope c) (ic_key c) s) at_time\<rparr>"
    and "row_held (icr_record (fst (idempotency_claim_op c at_time s))) (snd (idempotency_claim_op c at_time s))"
  using assms idempotency_step_keyed [OF assms(1), of "OpClaimKey c at_time"]
  by (auto simp: idempotency_claim_op_def idempotency_get_def row_held_def Let_def jm_simps claimed_record_def
      split: option.splits if_splits)

text \<open>
  A key is claimed once. After one request won the claim, every other claim of the key before
  the claim expires, after any history of claims, sweeps, erasures and of reports and releases under
  other tokens, is refused and shown the incumbent, in flight and without a response.
\<close>

theorem key_claimed_once:
  assumes "store_inv s"
    and "icr_claimed (fst (idempotency_claim_op c at_time s))"
    and "row = icr_record (fst (idempotency_claim_op c at_time s))"
    and "list_all (before_expiry row) history"
    and "s' = run_steps idempotency_step history (snd (idempotency_claim_op c at_time s))"
    and "ic_scope other = ic_scope c" "ic_key other = ic_key c" "ic_now other < ic_expires_at c"
  shows "idempotency_claim_op other at' s' = (\<lparr>icr_claimed = False, icr_record = row\<rparr>, s') \<and>
         ir_claim_id row = ic_claim_id c \<and> ir_status row = InFlight \<and> ir_response row = None"
proof -
  note won = claim_won [OF store_inv_idempotency_keyed [OF assms(1)] assms(2)]
  have "row_held row s'"
    unfolding assms(5) using key_lease.held_throughout assms(3,4) won(2) by blast
  with won(1) assms(3,6-8) show ?thesis
    using held_claim_refused [of row s' other at'] by (simp add: claimed_record_def)
qed

text \<open>
  A recorded response is what every retry gets. Once the owner of a key recorded its response,
  every claim of the key within the retention, after any history in which the run and the thread it
  names are not erased, is refused and shown exactly that response.
\<close>

theorem recorded_response_replayed:
  assumes "store_inv s"
    and "idempotency_get scope key s = Some r"
    and "row = recorded_over input now r"
    and "list_all (before_expiry row) history"
    and "s' = run_steps idempotency_step history (idempotency_record_op scope key (ir_claim_id r) input now s)"
    and "ic_scope retry = scope" "ic_key retry = key" "ic_now retry < ri_expires_at input"
  shows "idempotency_claim_op retry at' s' = (\<lparr>icr_claimed = False, icr_record = row\<rparr>, s') \<and>
         ir_status row = Done \<and> ir_response row = Some (ri_response input)"
proof -
  have keyed: "idempotency_keyed s" by (rule store_inv_idempotency_keyed [OF assms(1)])
  then have names: "ir_scope r = scope" "ir_key r = key"
    using assms(2) keyed_by_get [of "\<lambda>r. idempotency_key (ir_scope r) (ir_key r)" "ms_idempotency s"
      "idempotency_key scope key" r]
    by (simp_all add: idempotency_keyed_def idempotency_get_def)
  have "row_held row (idempotency_step (OpRecordResponse scope key (ir_claim_id r) input now) s)"
    using idempotency_step_keyed [OF keyed] assms(2,3) names
    by (simp add: row_held_def idempotency_get_def idempotency_record_op_def Let_def jm_simps recorded_over_def
        del: idempotency_step.simps) (simp add: idempotency_record_op_def Let_def jm_simps recorded_over_def)
  then have "row_held row s'"
    unfolding assms(5) using key_lease.held_throughout assms(4) by simp
  with names assms(3,6-8) show ?thesis
    using held_claim_refused [of row s' retry at'] by (simp add: recorded_over_def)
qed

text \<open>
  A claimant that lost its key cannot touch the new owner's row: once another request has taken
  the key over, the late report and the late release under the old token change nothing, however
  much happens in between, and the new owner's report is still written.
\<close>

theorem stale_claimant_fenced:
  assumes "store_inv s"
    and "icr_claimed (fst (idempotency_claim_op c at_time s))"
    and "row = icr_record (fst (idempotency_claim_op c at_time s))"
    and "list_all (before_expiry row) history"
    and "s' = run_steps idempotency_step history (snd (idempotency_claim_op c at_time s))"
    and "stale \<noteq> ic_claim_id c"
  shows "idempotency_record_op (ic_scope c) (ic_key c) stale input now s' = s' \<and>
         idempotency_release (ic_scope c) (ic_key c) stale s' = s' \<and>
         idempotency_get (ic_scope c) (ic_key c)
           (idempotency_record_op (ic_scope c) (ic_key c) (ic_claim_id c) input now s') =
           Some (recorded_over input now row)"
proof -
  note won = claim_won [OF store_inv_idempotency_keyed [OF assms(1)] assms(2)]
  have "row_held row s'"
    unfolding assms(5) using key_lease.held_throughout assms(3,4) won(2) by blast
  with won(1) assms(3,6) show ?thesis
    by (simp add: row_held_def claimed_record_def idempotency_get_def idempotency_record_op_def
        idempotency_release_def Let_def jm_simps)
qed

subsection \<open>Witnesses\<close>

definition sample_key_claim :: "ident \<Rightarrow> instant \<Rightarrow> idempotency_claim" where
  "sample_key_claim token now = \<lparr>ic_key = ''k'', ic_scope = ''POST /runs'', ic_fingerprint = ''f'',
     ic_claim_id = token, ic_now = now, ic_expires_at = now + 100\<rparr>"

definition sample_response :: recorded_response_input where
  "sample_response = \<lparr>ri_response = \<lparr>rs_status = 200, rs_body = JObj [], rs_headers = None\<rparr>,
     ri_expires_at = 5000, ri_run_id = Some ''r1'', ri_thread_id = Some ''t1''\<rparr>"

lemmas sample_key_simps = sample_key_claim_def sample_response_def idempotency_claim_op_def
  idempotency_record_op_def idempotency_get_def claimed_record_def recorded_over_def empty_store_def
  idempotency_delete_defs Let_def

text \<open>A second client's claim and a sweep while the first request runs; a third claim is refused.\<close>

theorem key_claimed_once_witness:
  "\<not> icr_claimed (fst (idempotency_claim_op (sample_key_claim ''c3'' 60) 60
      (run_steps idempotency_step [OpClaimKey (sample_key_claim ''c2'' 50) 50, OpSweepKeys 55]
         (snd (idempotency_claim_op (sample_key_claim ''c1'' 0) 0 empty_store)))))"
  using key_claimed_once [OF empty_store_inv, of "sample_key_claim ''c1'' 0" 0 _
      "[OpClaimKey (sample_key_claim ''c2'' 50) 50, OpSweepKeys 55]" _ "sample_key_claim ''c3'' 60" 60,
      OF _ refl _ refl]
  by (simp add: sample_key_simps del: idempotency_step.simps run_steps.simps)

definition claimed_store :: mem_store where
  "claimed_store = snd (idempotency_claim_op (sample_key_claim ''c1'' 0) 0 empty_store)"

lemma claimed_store_inv: "store_inv claimed_store"
  unfolding claimed_store_def by (rule idempotency_ops_inv(1) [OF empty_store_inv])

theorem recorded_response_replayed_witness:
  "ir_response (icr_record (fst (idempotency_claim_op (sample_key_claim ''c2'' 400) 400
      (run_steps idempotency_step [OpSweepKeys 300, OpDeleteByRun ''r2'']
         (idempotency_record_op ''POST /runs'' ''k'' ''c1'' sample_response 10 claimed_store)))))
   = Some (ri_response sample_response)"
proof -
  let ?r = "claimed_record (sample_key_claim ''c1'' 0) None 0"
  have "idempotency_get ''POST /runs'' ''k'' claimed_store = Some ?r"
    by (simp add: claimed_store_def sample_key_simps)
  from recorded_response_replayed [OF claimed_store_inv this refl, where now = 10 and input = sample_response
      and history = "[OpSweepKeys 300, OpDeleteByRun ''r2'']" and retry = "sample_key_claim ''c2'' 400",
      OF _ refl]
  show ?thesis by (simp add: sample_key_simps del: idempotency_step.simps run_steps.simps)
qed

text \<open>The claim \<open>c1\<close> expires at 100; \<open>c2\<close> takes the key over at 150; \<open>c1\<close> reports at 160.\<close>

theorem stale_claimant_fenced_witness:
  "idempotency_record_op ''POST /runs'' ''k'' ''c1'' sample_response 160
     (snd (idempotency_claim_op (sample_key_claim ''c2'' 150) 150 claimed_store))
   = snd (idempotency_claim_op (sample_key_claim ''c2'' 150) 150 claimed_store)"
proof -
  have "icr_claimed (fst (idempotency_claim_op (sample_key_claim ''c2'' 150) 150 claimed_store))"
    by (simp add: claimed_store_def sample_key_simps)
  from stale_claimant_fenced [OF claimed_store_inv this refl, of "[]" _ "''c1''" sample_response 160, OF _ refl]
  show ?thesis by (simp add: sample_key_claim_def)
qed

end
