(* ===== verification/StoreSnapshot.thy ===== *)
theory StoreSnapshot
  imports StoreAssistants StoreThreads StoreRuns
begin

text \<open>
  \<^verbatim>\<open>snapshot\<close>, \<^verbatim>\<open>hydrate\<close> and \<^verbatim>\<open>restore\<close> of \<^verbatim>\<open>memory-skein-store.ts\<close> (the type is
  \<^verbatim>\<open>SkeinStoreSnapshot\<close> of \<^verbatim>\<open>core/src/store/skein-store.ts\<close>): the dump \<^verbatim>\<open>skein dev\<close> writes to
  disk, its full replacement of a store, and the additive import. A property an older snapshot
  lacks is \<open>None\<close>.
\<close>

record snapshot_retention =
  sr_ttl :: "int jsopt"
  sr_strategy :: ttl_strategy
  sr_expires_at :: "instant option"

record snapshot_item_options =
  so_index :: "item_index option"
  so_ttl_minutes :: "int option"
  so_expires_at :: "instant option"

record store_snapshot =
  sn_assistants :: "(ident \<times> assistant) list"
  sn_assistant_versions :: "(string \<times> assistant_version) list option"
  sn_threads :: "(ident \<times> thread) list"
  sn_thread_retention :: "(ident \<times> snapshot_retention) list option"
  sn_runs :: "(ident \<times> run) list"
  sn_run_kwargs :: "(ident \<times> run_kwargs) list"
  sn_run_results :: "(ident \<times> run_result) list option"
  sn_items :: "(string \<times> item) list"
  sn_item_options :: "(string \<times> snapshot_item_options) list option"
  sn_crons :: "(ident \<times> cron) list option"

section \<open>Taking a snapshot\<close>

fun js_truthy :: "jsval \<Rightarrow> bool" where
  "js_truthy JUndef = False"
| "js_truthy JNull = False"
| "js_truthy (JBool b) = b"
| "js_truthy (JNum n) = (n \<noteq> NaN \<and> n \<noteq> Fin 0)"
| "js_truthy (JBig i) = (i \<noteq> 0)"
| "js_truthy (JStr s) = (s \<noteq> [])"
| "js_truthy _ = True"

definition snapshot_run_kwargs :: "run_kwargs \<Rightarrow> run_kwargs" where
  "snapshot_run_kwargs k =
     k\<lparr>kw_native_origin := None, kw_terminal_delivery := None,
       kw_webhook :=
         (if (case kw_native_origin k of None \<Rightarrow> False | Some v \<Rightarrow> js_truthy v) \<or> kw_terminal_delivery k \<noteq> None
          then None
          else (case kw_webhook k of None \<Rightarrow> None | Some url \<Rightarrow> if url = [] then None else Some url))\<rparr>"

definition snapshot_store :: "mem_store \<Rightarrow> store_snapshot" where
  "snapshot_store s =
     \<lparr>sn_assistants = ms_assistants s,
      sn_assistant_versions = Some (ms_assistant_versions s),
      sn_threads = ms_threads s,
      sn_thread_retention =
        Some (map (\<lambda>(i, policy). (i, \<lparr>sr_ttl = tr_ttl policy, sr_strategy = tr_strategy policy,
                                       sr_expires_at = jm_get (ms_thread_expiry s) i\<rparr>))
                (ms_thread_retention s)),
      sn_runs = ms_runs s,
      sn_run_kwargs = map (\<lambda>(i, k). (i, snapshot_run_kwargs k)) (ms_run_kwargs s),
      sn_run_results = Some (ms_run_results s),
      sn_items = ms_items s,
      sn_item_options =
        Some (map (\<lambda>i. (i, \<lparr>so_index = jm_get (ms_item_indexes s) i,
                             so_ttl_minutes = (case jm_get (ms_item_expiry s) i of
                                                 None \<Rightarrow> None | Some e \<Rightarrow> ie_ttl_minutes e),
                             so_expires_at = (case jm_get (ms_item_expiry s) i of
                                                None \<Rightarrow> None | Some e \<Rightarrow> ie_expires_at e)\<rparr>))
                (jm_keys (ms_items s))),
      sn_crons = Some (ms_crons s)\<rparr>"

section \<open>Replacing a store\<close>

text \<open>\<^verbatim>\<open>fill\<close>: the map built by setting the entries in order.\<close>

definition fill :: "('k \<times> 'v) list \<Rightarrow> ('k, 'v) jsmap" where
  "fill rows = fold (\<lambda>(i, row) m. jm_set i row m) rows []"

definition restore_retention :: "ident \<times> snapshot_retention \<Rightarrow> mem_store \<Rightarrow> mem_store" where
  "restore_retention e s =
     (let (i, policy) = e;
          s1 = s\<lparr>ms_thread_retention :=
                   jm_set i \<lparr>tr_ttl = sr_ttl policy, tr_strategy = sr_strategy policy\<rparr> (ms_thread_retention s)\<rparr>
      in case sr_expires_at policy of
           Some t \<Rightarrow> s1\<lparr>ms_thread_expiry := jm_set i t (ms_thread_expiry s1)\<rparr>
         | None \<Rightarrow> s1\<lparr>ms_thread_expiry := jm_delete i (ms_thread_expiry s1)\<rparr>)"

definition backfill_version :: "assistant \<Rightarrow> mem_store \<Rightarrow> mem_store" where
  "backfill_version a s =
     (if max_version_of (a_assistant_id a) s = 0
      then s\<lparr>ms_assistant_versions :=
               jm_set (version_key (a_assistant_id a) (a_version a)) (to_version a None) (ms_assistant_versions s)\<rparr>
      else s)"

definition restore_item_options :: "string \<times> snapshot_item_options \<Rightarrow> mem_store \<Rightarrow> mem_store" where
  "restore_item_options e s =
     (let (i, options) = e;
          s1 = (case so_index options of
                  None \<Rightarrow> s
                | Some index \<Rightarrow> s\<lparr>ms_item_indexes := jm_set i index (ms_item_indexes s)\<rparr>)
      in case (so_expires_at options, so_ttl_minutes options) of
           (Some t, Some m) \<Rightarrow>
             s1\<lparr>ms_item_expiry :=
                 jm_set i \<lparr>ie_expires_at = Some t, ie_ttl_minutes = Some m\<rparr> (ms_item_expiry s1)\<rparr>
         | _ \<Rightarrow> s1)"

definition hydrate_rows :: "store_snapshot \<Rightarrow> mem_store \<Rightarrow> mem_store" where
  "hydrate_rows snap s =
     (let runs = fill (sn_runs snap);
          crons = fill (or_default (sn_crons snap) [])
      in s\<lparr>ms_dispatches := [], ms_resume_reservations := [], ms_admitted_run_ids := [],
           ms_assistants := fill (sn_assistants snap),
           ms_assistant_versions := fill (or_default (sn_assistant_versions snap) []),
           ms_threads := fill (sn_threads snap),
           ms_runs := runs,
           ms_run_results := fill (filter (\<lambda>(i, _). jm_has runs i) (or_default (sn_run_results snap) [])),
           ms_run_kwargs := fill (map (\<lambda>(i, k). (i, snapshot_run_kwargs k)) (sn_run_kwargs snap)),
           ms_crons := crons,
           ms_cron_auth := [],
           ms_cron_seq := fill (map (\<lambda>i. (i, 0)) (jm_keys crons)),
           ms_items := fill (sn_items snap),
           ms_item_indexes := [], ms_item_expiry := [],
           ms_thread_retention := [], ms_thread_expiry := []\<rparr>)"

definition hydrate :: "store_snapshot \<Rightarrow> instant \<Rightarrow> mem_store \<Rightarrow> mem_store" where
  "hydrate snap now s =
     (let s1 = hydrate_rows snap s;
          s2 = fold (\<lambda>i. set_thread_expiry i Undefined None now) (jm_keys (ms_threads s1)) s1;
          s3 = fold restore_retention (or_default (sn_thread_retention snap) []) s2;
          s4 = fold backfill_version (jm_values (ms_assistants s3)) s3
      in fold restore_item_options (or_default (sn_item_options snap) []) s4)"

section \<open>Importing into a store\<close>

text \<open>\<^verbatim>\<open>add\<close>: insert if absent.\<close>

definition add_rows :: "('k \<times> 'v) list \<Rightarrow> ('k, 'v) jsmap \<Rightarrow> ('k, 'v) jsmap" where
  "add_rows rows m = fold (\<lambda>(i, row) m. if jm_has m i then m else jm_set i row m) rows m"

definition import_retention :: "ident list \<Rightarrow> ident \<times> snapshot_retention \<Rightarrow> mem_store \<Rightarrow> mem_store" where
  "import_retention new_ids e s =
     (let (i, policy) = e in
      if i \<notin> set new_ids then s
      else let s1 = s\<lparr>ms_thread_retention :=
                        jm_set i \<lparr>tr_ttl = sr_ttl policy, tr_strategy = sr_strategy policy\<rparr>
                          (ms_thread_retention s)\<rparr>
           in (case sr_expires_at policy of
                 Some t \<Rightarrow> s1\<lparr>ms_thread_expiry := jm_set i t (ms_thread_expiry s1)\<rparr>
               | None \<Rightarrow> s1))"

fun import_results :: "(ident \<times> run_result) list \<Rightarrow> mem_store \<Rightarrow> unit outcome" where
  "import_results [] s = (Inr (), s)"
| "import_results ((i, result) # rows) s =
     (case record_result i result s of
        (Inl err, s1) \<Rightarrow> (Inl err, s1)
      | (Inr _, s1) \<Rightarrow> import_results rows s1)"

definition import_rows :: "store_snapshot \<Rightarrow> mem_store \<Rightarrow> mem_store" where
  "import_rows snap s =
     (let new_threads = map fst (filter (\<lambda>(i, _). \<not> jm_has (ms_threads s) i) (sn_threads snap));
          s1 = s\<lparr>ms_assistants := add_rows (sn_assistants snap) (ms_assistants s),
                 ms_assistant_versions :=
                   add_rows (or_default (sn_assistant_versions snap) []) (ms_assistant_versions s),
                 ms_threads := add_rows (sn_threads snap) (ms_threads s)\<rparr>;
          s2 = fold (import_retention new_threads) (or_default (sn_thread_retention snap) []) s1
      in s2\<lparr>ms_runs := add_rows (sn_runs snap) (ms_runs s2),
            ms_run_kwargs :=
              add_rows (map (\<lambda>(i, k). (i, snapshot_run_kwargs k)) (sn_run_kwargs snap)) (ms_run_kwargs s2)\<rparr>)"

definition import_item_options :: "string list \<Rightarrow> string \<times> snapshot_item_options \<Rightarrow> mem_store \<Rightarrow> mem_store" where
  "import_item_options new_ids e s = (if fst e \<in> set new_ids then restore_item_options e s else s)"

definition import_items :: "store_snapshot \<Rightarrow> mem_store \<Rightarrow> mem_store" where
  "import_items snap s =
     (let new_items = map fst (filter (\<lambda>(i, _). \<not> jm_has (ms_items s) i) (sn_items snap))
      in fold (import_item_options new_items) (or_default (sn_item_options snap) [])
           (s\<lparr>ms_items := add_rows (sn_items snap) (ms_items s)\<rparr>))"

definition cron_fits :: "(ident, thread) jsmap \<Rightarrow> ident \<times> cron \<Rightarrow> bool" where
  "cron_fits threads e = (case c_thread_id (snd e) of None \<Rightarrow> True | Some t \<Rightarrow> jm_has threads t)"

definition import_crons :: "store_snapshot \<Rightarrow> mem_store \<Rightarrow> mem_store" where
  "import_crons snap s =
     (let crons = add_rows (filter (cron_fits (ms_threads s)) (or_default (sn_crons snap) [])) (ms_crons s)
      in s\<lparr>ms_crons := crons, ms_cron_seq := add_rows (map (\<lambda>i. (i, 0)) (jm_keys crons)) (ms_cron_seq s)\<rparr>)"

text \<open>\<^verbatim>\<open>restore\<close>: a result that cannot be serialised stops the import half-way.\<close>

definition restore :: "store_snapshot \<Rightarrow> mem_store \<Rightarrow> unit outcome" where
  "restore snap s =
     (case import_results (or_default (sn_run_results snap) []) (import_rows snap s) of
        (Inl err, s1) \<Rightarrow> (Inl err, s1)
      | (Inr _, s1) \<Rightarrow> (Inr (), import_crons snap (import_items snap s1)))"

section \<open>Filling and adding\<close>

lemma fold_set_new:
  assumes "distinct (map fst rows)" "fst ` set m \<inter> fst ` set rows = {}"
  shows "fold (\<lambda>(i, row) m. jm_set i row m) rows m = m @ rows"
  using assms
proof (induction rows arbitrary: m)
  case (Cons e rows)
  obtain i v where e: "e = (i, v)" by (cases e)
  with Cons.prems have "i \<notin> fst ` set m" by auto
  then show ?case using Cons e by (simp add: jm_set_new)
qed simp

lemma fill_wf: "jm_wf rows \<Longrightarrow> fill rows = rows"
  by (simp add: fill_def fold_set_new)

lemma add_rows_get:
  "map_of (add_rows rows m) k = (case map_of m k of Some v \<Rightarrow> Some v | None \<Rightarrow> map_of rows k)"
proof (induction rows arbitrary: m)
  case (Cons e rows)
  obtain i v where e: "e = (i, v)" by (cases e)
  have step: "add_rows (e # rows) m = add_rows rows (if jm_has m i then m else jm_set i v m)"
    by (simp add: add_rows_def e)
  show ?case
    unfolding step Cons.IH by (auto simp: e jm_has_iff jm_simps split: option.split)
qed (simp add: add_rows_def split: option.split)

lemma add_rows_again:
  assumes "\<And>k. k \<in> fst ` set rows \<Longrightarrow> jm_has m k"
  shows "add_rows rows m = m"
proof -
  have "fold (\<lambda>(i, row) m. if jm_has m i then m else jm_set i row m) rows m = m"
    using assms by (induction rows) (auto simp: jm_has_dom)
  then show ?thesis by (simp add: add_rows_def)
qed

lemma map_keeps_keys: "map fst (map (\<lambda>(i, x). (i, f i x)) rows) = map fst rows"
  by (induction rows) auto

lemma map_of_key_table: "map_of (map (\<lambda>i. (i, f i)) is) k = (if k \<in> set is then Some (f k) else None)"
  by (induction "is") auto

lemma map_of_mapped: "map_of (map (\<lambda>(i, x). (i, f i x)) rows) k = map_option (f k) (map_of rows k)"
  by (induction rows) auto

section \<open>What each step touches\<close>

lemma restore_retention_shape:
  "\<exists>x y. fold restore_retention rows s = s\<lparr>ms_thread_retention := x, ms_thread_expiry := y\<rparr>"
proof (induction rows arbitrary: s)
  case Nil
  have "s = s\<lparr>ms_thread_retention := ms_thread_retention s, ms_thread_expiry := ms_thread_expiry s\<rparr>" by simp
  then show ?case unfolding fold_simps by blast
next
  case (Cons e rows)
  obtain x y where "fold restore_retention rows (restore_retention e s) =
      (restore_retention e s)\<lparr>ms_thread_retention := x, ms_thread_expiry := y\<rparr>" using Cons by blast
  then have "fold restore_retention (e # rows) s = s\<lparr>ms_thread_retention := x, ms_thread_expiry := y\<rparr>"
    by (auto simp: restore_retention_def Let_def split: prod.splits option.splits)
  then show ?case by blast
qed

lemma set_thread_expiry_shape:
  "\<exists>x y. fold (\<lambda>i. set_thread_expiry i Undefined None now) is s =
     s\<lparr>ms_thread_retention := x, ms_thread_expiry := y\<rparr>"
proof (induction "is" arbitrary: s)
  case Nil
  have "s = s\<lparr>ms_thread_retention := ms_thread_retention s, ms_thread_expiry := ms_thread_expiry s\<rparr>" by simp
  then show ?case unfolding fold_simps by blast
next
  case (Cons i "is")
  obtain x y where "fold (\<lambda>i. set_thread_expiry i Undefined None now) is (set_thread_expiry i Undefined None now s) =
      (set_thread_expiry i Undefined None now s)\<lparr>ms_thread_retention := x, ms_thread_expiry := y\<rparr>"
    using Cons by blast
  then have "fold (\<lambda>i. set_thread_expiry i Undefined None now) (i # is) s =
      s\<lparr>ms_thread_retention := x, ms_thread_expiry := y\<rparr>"
    by (auto simp: set_thread_expiry_def Let_def split: jsopt.splits)
  then show ?case by blast
qed

lemma restore_item_options_shape:
  "\<exists>x y. fold restore_item_options rows s = s\<lparr>ms_item_indexes := x, ms_item_expiry := y\<rparr>"
proof (induction rows arbitrary: s)
  case Nil
  have "s = s\<lparr>ms_item_indexes := ms_item_indexes s, ms_item_expiry := ms_item_expiry s\<rparr>" by simp
  then show ?case unfolding fold_simps by blast
next
  case (Cons e rows)
  obtain x y where "fold restore_item_options rows (restore_item_options e s) =
      (restore_item_options e s)\<lparr>ms_item_indexes := x, ms_item_expiry := y\<rparr>" using Cons by blast
  then have "fold restore_item_options (e # rows) s = s\<lparr>ms_item_indexes := x, ms_item_expiry := y\<rparr>"
    by (auto simp: restore_item_options_def Let_def split: prod.splits option.splits)
  then show ?case by blast
qed

text \<open>A step that changes one table at its own key only: what a run of such steps leaves there.\<close>

lemma fold_lookup:
  assumes step: "\<And>e s k. look (step e s) k = (if k = fst e then upd (snd e) (look s k) else look s k)"
    and "jm_wf rows"
  shows "look (fold step rows s) i = (case map_of rows i of Some p \<Rightarrow> upd p (look s i) | None \<Rightarrow> look s i)"
  using assms(2)
proof (induction rows arbitrary: s)
  case (Cons e rows)
  then have "map_of rows (fst e) = None" by (simp add: map_of_eq_None_iff)
  moreover have "jm_wf rows" using Cons.prems by simp
  note Cons.IH [OF this, of "step e s"]
  ultimately show ?case
    using step [of e s i] by (cases e) (auto split: option.split)
qed simp

lemma restored_retention:
  assumes "jm_wf rows"
  shows "map_of (ms_thread_retention (fold restore_retention rows s)) i =
           (case map_of rows i of
              Some p \<Rightarrow> Some \<lparr>tr_ttl = sr_ttl p, tr_strategy = sr_strategy p\<rparr>
            | None \<Rightarrow> map_of (ms_thread_retention s) i)"
    and "map_of (ms_thread_expiry (fold restore_retention rows s)) i =
           (case map_of rows i of Some p \<Rightarrow> sr_expires_at p | None \<Rightarrow> map_of (ms_thread_expiry s) i)"
  by (rule fold_lookup [OF _ assms, where look = "\<lambda>s. map_of (ms_thread_retention s)"]
        fold_lookup [OF _ assms, where look = "\<lambda>s. map_of (ms_thread_expiry s)"];
      simp add: restore_retention_def Let_def jm_simps split: prod.split option.split)+

lemma restored_options:
  assumes "jm_wf rows"
  shows "map_of (ms_item_indexes (fold restore_item_options rows s)) i =
           (case map_of rows i of
              Some p \<Rightarrow> (case so_index p of None \<Rightarrow> map_of (ms_item_indexes s) i | Some x \<Rightarrow> Some x)
            | None \<Rightarrow> map_of (ms_item_indexes s) i)"
    and "map_of (ms_item_expiry (fold restore_item_options rows s)) i =
           (case map_of rows i of
              Some p \<Rightarrow>
                (case (so_expires_at p, so_ttl_minutes p) of
                   (Some t, Some m) \<Rightarrow> Some \<lparr>ie_expires_at = Some t, ie_ttl_minutes = Some m\<rparr>
                 | _ \<Rightarrow> map_of (ms_item_expiry s) i)
            | None \<Rightarrow> map_of (ms_item_expiry s) i)"
  by (rule fold_lookup [OF _ assms, where look = "\<lambda>s. map_of (ms_item_indexes s)"]
        fold_lookup [OF _ assms, where look = "\<lambda>s. map_of (ms_item_expiry s)"];
      simp add: restore_item_options_def Let_def jm_simps split: prod.split option.split)+

lemma backfill_none:
  assumes "\<And>a. a \<in> set as \<Longrightarrow> max_version_of (a_assistant_id a) s \<noteq> 0"
  shows "fold backfill_version as s = s"
  using assms
proof (induction "as")
  case (Cons a "as")
  have "0 < max_version_of (a_assistant_id a) s" using Cons.prems [of a] by simp
  then have "backfill_version a s = s" by (simp add: backfill_version_def)
  with Cons show ?case by simp
qed simp

section \<open>The store a snapshot comes from\<close>

text \<open>What a live store adds to its invariant: versions are positive, an expiry has both its parts.\<close>

definition snapshot_ready :: "mem_store \<Rightarrow> bool" where
  "snapshot_ready s \<longleftrightarrow>
     store_inv s \<and>
     (\<forall>e \<in> set (ms_assistants s). 0 < a_version (snd e)) \<and>
     (\<forall>e \<in> set (ms_item_expiry s). ie_expires_at (snd e) \<noteq> None \<and> ie_ttl_minutes (snd e) \<noteq> None)"

lemma live_versions_numbered:
  assumes "assistant_inv s" "e \<in> set (ms_assistants s)" "0 < a_version (snd e)"
  shows "0 < max_version_of (a_assistant_id (snd e)) s"
proof -
  let ?k = "version_key (fst e) (a_version (snd e))"
  have id: "a_assistant_id (snd e) = fst e" using assms(1,2) by (simp add: assistant_inv_def keyed_by_def)
  obtain v where v: "(?k, v) \<in> set (ms_assistant_versions s)"
    using assms(1,2) unfolding assistant_inv_def by fastforce
  then have "version_key (av_assistant_id v) (av_version v) = ?k"
    using assms(1) by (auto simp: assistant_inv_def keyed_by_def)
  then have "av_assistant_id v = a_assistant_id (snd e)" "av_version v = a_version (snd e)"
    by (simp_all add: id)
  moreover have "v \<in> set (jm_values (ms_assistant_versions s))" using v by force
  ultimately have "a_version (snd e) \<le> max_version_of (a_assistant_id (snd e)) s"
    using max_version_loop_upper unfolding max_version_of_def by metis
  with assms(3) show ?thesis by simp
qed

lemma snapshot_run_kwargs_idem: "snapshot_run_kwargs (snapshot_run_kwargs k) = snapshot_run_kwargs k"
  by (cases "kw_webhook k") (auto simp: snapshot_run_kwargs_def)

text \<open>The rows a live store's own snapshot hydrates to, before the retention and the item options.\<close>

definition rehydrated_rows :: "mem_store \<Rightarrow> mem_store \<Rightarrow> mem_store" where
  "rehydrated_rows s s0 =
     s0\<lparr>ms_dispatches := [], ms_resume_reservations := [], ms_admitted_run_ids := [],
        ms_assistants := ms_assistants s, ms_assistant_versions := ms_assistant_versions s,
        ms_threads := ms_threads s, ms_runs := ms_runs s, ms_run_results := ms_run_results s,
        ms_run_kwargs := map (\<lambda>(i, k). (i, snapshot_run_kwargs k)) (ms_run_kwargs s),
        ms_crons := ms_crons s, ms_cron_auth := [],
        ms_cron_seq := map (\<lambda>i. (i, 0)) (jm_keys (ms_crons s)),
        ms_items := ms_items s, ms_item_indexes := [], ms_item_expiry := [],
        ms_thread_retention := [], ms_thread_expiry := []\<rparr>"

lemma store_inv_wf:
  assumes "store_inv s"
  shows "jm_wf (ms_runs s)" "jm_wf (ms_run_kwargs s)" "jm_wf (ms_run_results s)" "jm_wf (ms_threads s)"
    "jm_wf (ms_thread_retention s)" "jm_wf (ms_assistants s)" "jm_wf (ms_assistant_versions s)"
    "jm_wf (ms_crons s)" "jm_wf (ms_items s)"
  using assms by (simp_all add: store_inv_def inv_defs keyed_by_def beside_def)

lemma mapped_kwargs_again:
  "map (\<lambda>(i, k). (i, snapshot_run_kwargs k)) (map (\<lambda>(i, k). (i, snapshot_run_kwargs k)) m) =
   map (\<lambda>(i, k). (i, snapshot_run_kwargs k)) (m :: (ident, run_kwargs) jsmap)"
  by (auto simp: snapshot_run_kwargs_idem)

lemma hydrate_snapshot_rows:
  assumes inv: "store_inv s"
  shows "hydrate_rows (snapshot_store s) s0 = rehydrated_rows s s0"
proof -
  note wfs = store_inv_wf [OF inv]
  have filled: "fill (map (\<lambda>(i, k). (i, snapshot_run_kwargs k)) (ms_run_kwargs s)) =
      map (\<lambda>(i, k). (i, snapshot_run_kwargs k)) (ms_run_kwargs s)"
    "fill (map (\<lambda>i. (i, 0)) (jm_keys (ms_crons s))) = map (\<lambda>i. (i, 0 :: nat)) (jm_keys (ms_crons s))"
    subgoal by (rule fill_wf) (simp only: map_keeps_keys wfs)
    subgoal by (rule fill_wf) (simp add: comp_def wfs)
    done
  have "fst ` set (ms_run_results s) \<subseteq> fst ` set (ms_runs s)"
    using inv by (simp add: store_inv_def run_inv_def beside_def)
  then have results: "filter (\<lambda>(i, _). jm_has (ms_runs s) i) (ms_run_results s) = ms_run_results s"
    by (force simp: filter_id_conv jm_has_dom)
  show ?thesis
    unfolding hydrate_rows_def rehydrated_rows_def Let_def snapshot_store_def store_snapshot.simps
      or_default_simps mapped_kwargs_again filled
    by (simp only: fill_wf wfs results filled)
qed

lemma no_backfill:
  assumes "snapshot_ready s" "ms_assistants s' = ms_assistants s"
    "ms_assistant_versions s' = ms_assistant_versions s"
  shows "fold backfill_version (jm_values (ms_assistants s')) s' = s'"
proof (rule backfill_none)
  fix a
  assume "a \<in> set (jm_values (ms_assistants s'))"
  then show "max_version_of (a_assistant_id a) s' \<noteq> 0"
    using live_versions_numbered [of s] assms
    by (fastforce simp: snapshot_ready_def store_inv_def max_version_of_def)
qed

lemma snapshot_tables_wf:
  assumes "store_inv s"
  shows "jm_wf (or_default (sn_thread_retention (snapshot_store s)) [])"
    and "jm_wf (or_default (sn_item_options (snapshot_store s)) [])"
  using store_inv_wf [OF assms]
  by (simp_all add: snapshot_store_def map_keeps_keys del: map_map) (simp add: comp_def)

lemma snapshot_options_at:
  "map_of (or_default (sn_item_options (snapshot_store s)) []) i =
     (if i \<in> fst ` set (ms_items s)
      then Some \<lparr>so_index = map_of (ms_item_indexes s) i,
              so_ttl_minutes = (case map_of (ms_item_expiry s) i of None \<Rightarrow> None | Some e \<Rightarrow> ie_ttl_minutes e),
              so_expires_at = (case map_of (ms_item_expiry s) i of None \<Rightarrow> None | Some e \<Rightarrow> ie_expires_at e)\<rparr>
      else None)"
  by (simp add: snapshot_store_def map_of_key_table del: map_map)

lemma snapshot_expiry_complete:
  assumes "snapshot_ready s" "map_of (ms_item_expiry s) i = Some e"
  shows "\<exists>t m. e = \<lparr>ie_expires_at = Some t, ie_ttl_minutes = Some m\<rparr>"
  using assms map_of_SomeD [of "ms_item_expiry s" i e] by (cases e) (force simp: snapshot_ready_def)

text \<open>The store a hydrate of a live store's own snapshot gives, field by field.\<close>

lemma hydrate_snapshot_shape:
  assumes ready: "snapshot_ready s"
  obtains x y u w where
    "hydrate (snapshot_store s) now s0 =
       (rehydrated_rows s s0)
         \<lparr>ms_item_indexes := u, ms_item_expiry := w, ms_thread_retention := x, ms_thread_expiry := y\<rparr>"
    "\<And>i. i \<in> fst ` set (ms_thread_retention s) \<Longrightarrow> map_of x i = map_of (ms_thread_retention s) i"
    "\<And>i. i \<in> fst ` set (ms_thread_retention s) \<Longrightarrow> map_of y i = map_of (ms_thread_expiry s) i"
    "\<And>i. i \<in> fst ` set (ms_items s) \<Longrightarrow> map_of u i = map_of (ms_item_indexes s) i"
    "\<And>i. i \<in> fst ` set (ms_items s) \<Longrightarrow> map_of w i = map_of (ms_item_expiry s) i"
proof -
  have inv: "store_inv s" using ready by (simp add: snapshot_ready_def)
  let ?snap = "snapshot_store s" and ?rows = "rehydrated_rows s s0"
  let ?policies = "or_default (sn_thread_retention ?snap) []" and ?options = "or_default (sn_item_options ?snap) []"
  have fields: "ms_threads ?rows = ms_threads s" "ms_assistants ?rows = ms_assistants s"
    "ms_assistant_versions ?rows = ms_assistant_versions s"
    "ms_item_indexes ?rows = []" "ms_item_expiry ?rows = []"
    by (simp_all add: rehydrated_rows_def)
  obtain x1 y1 where s2: "fold (\<lambda>i. set_thread_expiry i Undefined None now) (jm_keys (ms_threads s)) ?rows =
      ?rows\<lparr>ms_thread_retention := x1, ms_thread_expiry := y1\<rparr>"
    using set_thread_expiry_shape by blast
  let ?s2 = "?rows\<lparr>ms_thread_retention := x1, ms_thread_expiry := y1\<rparr>"
  obtain x y where s3: "fold restore_retention ?policies ?s2 =
      ?s2\<lparr>ms_thread_retention := x, ms_thread_expiry := y\<rparr>"
    using restore_retention_shape by blast
  let ?s3 = "?s2\<lparr>ms_thread_retention := x, ms_thread_expiry := y\<rparr>"
  have s4: "fold backfill_version (jm_values (ms_assistants ?s3)) ?s3 = ?s3"
    by (rule no_backfill [OF ready]) (simp_all add: fields)
  obtain u w where s5: "fold restore_item_options ?options ?s3 = ?s3\<lparr>ms_item_indexes := u, ms_item_expiry := w\<rparr>"
    using restore_item_options_shape by blast
  note s5_at = restored_options [OF snapshot_tables_wf(2) [OF inv], of ?s3, unfolded s5]
    and s3_at = restored_retention [OF snapshot_tables_wf(1) [OF inv], of ?s2, unfolded s3]
  show ?thesis
  proof (rule that)
    show "hydrate ?snap now s0 =
        ?rows\<lparr>ms_item_indexes := u, ms_item_expiry := w, ms_thread_retention := x, ms_thread_expiry := y\<rparr>"
      unfolding hydrate_def Let_def hydrate_snapshot_rows [OF inv] fields s2 s3 s4 s5 by simp
  next
    fix i
    assume "i \<in> fst ` set (ms_thread_retention s)"
    then obtain p where p: "map_of (ms_thread_retention s) i = Some p" by (metis jm_has_dom jm_has_iff)
    then have "map_of ?policies i = Some \<lparr>sr_ttl = tr_ttl p, sr_strategy = tr_strategy p,
        sr_expires_at = map_of (ms_thread_expiry s) i\<rparr>"
      by (simp add: snapshot_store_def map_of_mapped)
    with s3_at [of i] p show "map_of x i = map_of (ms_thread_retention s) i"
      "map_of y i = map_of (ms_thread_expiry s) i"
      by simp_all
  next
    fix i
    assume "i \<in> fst ` set (ms_items s)"
    with s5_at [of i] snapshot_options_at [of s i] fields
    show "map_of u i = map_of (ms_item_indexes s) i" "map_of w i = map_of (ms_item_expiry s) i"
      by (auto split: option.split dest!: snapshot_expiry_complete [OF ready])
  qed
qed

section \<open>The invariant of a hydrated store\<close>

lemma restore_retention_inv:
  assumes "store_inv s" "fst e \<in> fst ` set (ms_threads s)"
  shows "store_inv (restore_retention e s)"
  using assms
  by (cases e)
    (auto simp: restore_retention_def Let_def store_inv_def inv_defs beside_def jm_keys_set jm_keys_delete
       split: option.split intro: jm_wf_set jm_wf_delete del: imageE)

lemma restore_item_options_inv:
  assumes "store_inv s" "fst e \<in> fst ` set (ms_items s)"
  shows "store_inv (restore_item_options e s)"
  using assms
  by (cases e)
    (auto simp: restore_item_options_def Let_def store_inv_def inv_defs beside_def jm_keys_set
       split: option.split intro: jm_wf_set del: imageE)

lemma set_thread_expiry_inv:
  assumes "store_inv s" "i \<in> fst ` set (ms_threads s)"
  shows "store_inv (set_thread_expiry i ttl st now s)"
  using assms set_thread_expiry_beside [of s i ttl st now]
  by (simp add: store_inv_def inv_defs frame_simps beside_def)

lemma rehydrated_rows_inv:
  assumes "store_inv s" "store_inv s0"
  shows "store_inv (rehydrated_rows s s0)"
  using assms
  by (auto simp: rehydrated_rows_def store_inv_def inv_defs beside_def map_keeps_keys comp_def keyed_by_wf
      image_image case_prod_unfold)

lemma restore_steps_frame [frame_simps]:
  "ms_threads (restore_retention e s) = ms_threads s"
  "ms_items (restore_retention e s) = ms_items s"
  "ms_assistants (restore_retention e s) = ms_assistants s"
  "ms_assistant_versions (restore_retention e s) = ms_assistant_versions s"
  "ms_threads (restore_item_options e' s) = ms_threads s"
  "ms_items (restore_item_options e' s) = ms_items s"
  "ms_assistants (restore_item_options e' s) = ms_assistants s"
  "ms_assistant_versions (restore_item_options e' s) = ms_assistant_versions s"
  by (simp_all add: restore_retention_def restore_item_options_def Let_def split: prod.split option.split)

text \<open>The tables a step may add retention or options for, and the invariant, as one fold invariant.\<close>

definition sound_over :: "mem_store \<Rightarrow> mem_store \<Rightarrow> bool" where
  "sound_over s s' \<longleftrightarrow>
     store_inv s' \<and> ms_threads s' = ms_threads s \<and> ms_items s' = ms_items s \<and>
     ms_assistants s' = ms_assistants s \<and> ms_assistant_versions s' = ms_assistant_versions s"

lemma sound_steps:
  assumes "sound_over s s'"
  shows "i \<in> fst ` set (ms_threads s) \<Longrightarrow> sound_over s (set_thread_expiry i ttl st now s')"
    and "fst e \<in> fst ` set (ms_threads s) \<Longrightarrow> sound_over s (restore_retention e s')"
    and "fst e' \<in> fst ` set (ms_items s) \<Longrightarrow> sound_over s (restore_item_options e' s')"
  using assms
  by (simp_all add: sound_over_def frame_simps set_thread_expiry_inv restore_retention_inv restore_item_options_inv)

lemma hydrate_snapshot_inv:
  assumes ready: "snapshot_ready s" and inv0: "store_inv s0"
  shows "store_inv (hydrate (snapshot_store s) now s0)"
proof -
  have inv: "store_inv s" using ready by (simp add: snapshot_ready_def)
  let ?snap = "snapshot_store s" and ?rows = "rehydrated_rows s s0"
  have rows: "sound_over s ?rows"
    using rehydrated_rows_inv [OF inv inv0] by (simp add: sound_over_def rehydrated_rows_def)
  let ?s2 = "fold (\<lambda>i. set_thread_expiry i Undefined None now) (jm_keys (ms_threads ?rows)) ?rows"
  have s2: "sound_over s ?s2"
  proof (rule fold_invariant [where Q = "\<lambda>i. i \<in> fst ` set (ms_threads s)" and P = "sound_over s", OF _ rows])
    show "i \<in> fst ` set (ms_threads s)" if "i \<in> set (jm_keys (ms_threads ?rows))" for i
      using that by (simp add: rehydrated_rows_def)
  qed (rule sound_steps)
  let ?policies = "or_default (sn_thread_retention ?snap) []" and ?options = "or_default (sn_item_options ?snap) []"
  let ?s3 = "fold restore_retention ?policies ?s2"
  have s3: "sound_over s ?s3"
  proof (rule fold_invariant [where Q = "\<lambda>e. fst e \<in> fst ` set (ms_threads s)" and P = "sound_over s", OF _ s2])
    show "fst e \<in> fst ` set (ms_threads s)" if "e \<in> set ?policies" for e
      using that inv by (force simp: snapshot_store_def store_inv_def thread_inv_def beside_def)
  qed (rule sound_steps)
  have s4: "fold backfill_version (jm_values (ms_assistants ?s3)) ?s3 = ?s3"
    by (rule no_backfill [OF ready]) (use s3 in \<open>simp_all add: sound_over_def\<close>)
  have "sound_over s (fold restore_item_options ?options ?s3)"
  proof (rule fold_invariant [where Q = "\<lambda>e. fst e \<in> fst ` set (ms_items s)" and P = "sound_over s", OF _ s3])
    show "fst e \<in> fst ` set (ms_items s)" if "e \<in> set ?options" for e
      using that by (force simp: snapshot_store_def)
  qed (rule sound_steps)
  then show ?thesis
    unfolding hydrate_def Let_def hydrate_snapshot_rows [OF inv] s4 by (simp add: sound_over_def)
qed

section \<open>The additive import\<close>

text \<open>Every entry of a table is still there, unchanged.\<close>

definition extends_map :: "('k, 'v) jsmap \<Rightarrow> ('k, 'v) jsmap \<Rightarrow> bool" where
  "extends_map m m' \<longleftrightarrow> (\<forall>k v. map_of m k = Some v \<longrightarrow> map_of m' k = Some v)"

definition extends_store :: "mem_store \<Rightarrow> mem_store \<Rightarrow> bool" where
  "extends_store s s' \<longleftrightarrow>
     extends_map (ms_assistants s) (ms_assistants s') \<and>
     extends_map (ms_assistant_versions s) (ms_assistant_versions s') \<and>
     extends_map (ms_threads s) (ms_threads s') \<and>
     extends_map (ms_runs s) (ms_runs s') \<and>
     extends_map (ms_run_kwargs s) (ms_run_kwargs s') \<and>
     extends_map (ms_run_results s) (ms_run_results s') \<and>
     extends_map (ms_items s) (ms_items s') \<and>
     extends_map (ms_crons s) (ms_crons s') \<and>
     extends_map (ms_cron_seq s) (ms_cron_seq s') \<and>
     (\<forall>i. jm_has (ms_threads s) i \<longrightarrow>
        map_of (ms_thread_retention s') i = map_of (ms_thread_retention s) i \<and>
        map_of (ms_thread_expiry s') i = map_of (ms_thread_expiry s) i) \<and>
     (\<forall>i. jm_has (ms_items s) i \<longrightarrow>
        map_of (ms_item_indexes s') i = map_of (ms_item_indexes s) i \<and>
        map_of (ms_item_expiry s') i = map_of (ms_item_expiry s) i)"

lemma extends_map_refl [simp]: "extends_map m m"
  by (simp add: extends_map_def)

lemma extends_map_trans: "extends_map a b \<Longrightarrow> extends_map b c \<Longrightarrow> extends_map a c"
  by (simp add: extends_map_def)

lemma extends_store_refl [simp]: "extends_store s s"
  by (simp add: extends_store_def)

lemma extends_store_trans: "extends_store a b \<Longrightarrow> extends_store b c \<Longrightarrow> extends_store a c"
  unfolding extends_store_def
  by (intro conjI; (elim conjE)?; (blast intro: extends_map_trans | (simp add: extends_map_def jm_has_iff; metis)))

lemma extends_add_rows [simp]: "extends_map m (add_rows rows m)"
  by (simp add: extends_map_def add_rows_get)

lemma import_retention_step:
  "\<exists>x y. import_retention is e s = s\<lparr>ms_thread_retention := x, ms_thread_expiry := y\<rparr> \<and>
     (\<forall>i. i \<notin> set is \<longrightarrow> map_of x i = map_of (ms_thread_retention s) i \<and>
                          map_of y i = map_of (ms_thread_expiry s) i)"
  by (intro exI [of _ "ms_thread_retention (import_retention is e s)"]
        exI [of _ "ms_thread_expiry (import_retention is e s)"])
    (auto simp: import_retention_def Let_def jm_get_set split: prod.split option.split)

lemma import_item_options_step:
  "\<exists>x y. import_item_options is e s = s\<lparr>ms_item_indexes := x, ms_item_expiry := y\<rparr> \<and>
     (\<forall>i. i \<notin> set is \<longrightarrow> map_of x i = map_of (ms_item_indexes s) i \<and>
                          map_of y i = map_of (ms_item_expiry s) i)"
  by (intro exI [of _ "ms_item_indexes (import_item_options is e s)"]
        exI [of _ "ms_item_expiry (import_item_options is e s)"])
    (auto simp: import_item_options_def restore_item_options_def Let_def jm_get_set
       split: prod.split option.split)

lemma import_retention_shape:
  "\<exists>x y. fold (import_retention is) rows s = s\<lparr>ms_thread_retention := x, ms_thread_expiry := y\<rparr> \<and>
     (\<forall>i. i \<notin> set is \<longrightarrow> map_of x i = map_of (ms_thread_retention s) i \<and>
                          map_of y i = map_of (ms_thread_expiry s) i)"
proof (induction rows arbitrary: s)
  case Nil
  show ?case
    by (intro exI [of _ "ms_thread_retention s"] exI [of _ "ms_thread_expiry s"]) simp
next
  case (Cons e rows)
  obtain x y where step: "import_retention is e s = s\<lparr>ms_thread_retention := x, ms_thread_expiry := y\<rparr>"
      and same: "\<forall>i. i \<notin> set is \<longrightarrow> map_of x i = map_of (ms_thread_retention s) i \<and> map_of y i = map_of (ms_thread_expiry s) i"
    using import_retention_step by blast
  obtain x' y' where rest: "fold (import_retention is) rows (import_retention is e s) =
        (import_retention is e s)\<lparr>ms_thread_retention := x', ms_thread_expiry := y'\<rparr>"
      and same': "\<forall>i. i \<notin> set is \<longrightarrow> map_of x' i = map_of (ms_thread_retention (import_retention is e s)) i \<and>
        map_of y' i = map_of (ms_thread_expiry (import_retention is e s)) i"
    using Cons.IH by blast
  have "fold (import_retention is) (e # rows) s = s\<lparr>ms_thread_retention := x', ms_thread_expiry := y'\<rparr>"
    using rest by (simp add: step)
  moreover have "\<forall>i. i \<notin> set is \<longrightarrow> map_of x' i = map_of (ms_thread_retention s) i \<and> map_of y' i = map_of (ms_thread_expiry s) i"
    using same same' by (simp add: step)
  ultimately show ?case by blast
qed

lemma import_item_options_shape:
  "\<exists>x y. fold (import_item_options is) rows s = s\<lparr>ms_item_indexes := x, ms_item_expiry := y\<rparr> \<and>
     (\<forall>i. i \<notin> set is \<longrightarrow> map_of x i = map_of (ms_item_indexes s) i \<and>
                          map_of y i = map_of (ms_item_expiry s) i)"
proof (induction rows arbitrary: s)
  case Nil
  show ?case
    by (intro exI [of _ "ms_item_indexes s"] exI [of _ "ms_item_expiry s"]) simp
next
  case (Cons e rows)
  obtain x y where step: "import_item_options is e s = s\<lparr>ms_item_indexes := x, ms_item_expiry := y\<rparr>"
      and same: "\<forall>i. i \<notin> set is \<longrightarrow> map_of x i = map_of (ms_item_indexes s) i \<and> map_of y i = map_of (ms_item_expiry s) i"
    using import_item_options_step by blast
  obtain x' y' where rest: "fold (import_item_options is) rows (import_item_options is e s) =
        (import_item_options is e s)\<lparr>ms_item_indexes := x', ms_item_expiry := y'\<rparr>"
      and same': "\<forall>i. i \<notin> set is \<longrightarrow> map_of x' i = map_of (ms_item_indexes (import_item_options is e s)) i \<and>
        map_of y' i = map_of (ms_item_expiry (import_item_options is e s)) i"
    using Cons.IH by blast
  have "fold (import_item_options is) (e # rows) s = s\<lparr>ms_item_indexes := x', ms_item_expiry := y'\<rparr>"
    using rest by (simp add: step)
  moreover have "\<forall>i. i \<notin> set is \<longrightarrow> map_of x' i = map_of (ms_item_indexes s) i \<and> map_of y' i = map_of (ms_item_expiry s) i"
    using same same' by (simp add: step)
  ultimately show ?case by blast
qed

lemma not_new: "jm_has m i \<Longrightarrow> i \<notin> set (map fst (filter (\<lambda>(i, _). \<not> jm_has m i) rows))"
  by auto

lemma import_rows_extends: "extends_store s (import_rows snap s)"
proof -
  let ?new = "map fst (filter (\<lambda>(i, _). \<not> jm_has (ms_threads s) i) (sn_threads snap))"
  let ?s1 = "s\<lparr>ms_assistants := add_rows (sn_assistants snap) (ms_assistants s),
      ms_assistant_versions := add_rows (or_default (sn_assistant_versions snap) []) (ms_assistant_versions s),
      ms_threads := add_rows (sn_threads snap) (ms_threads s)\<rparr>"
  obtain x y where shape: "fold (import_retention ?new) (or_default (sn_thread_retention snap) []) ?s1 =
      ?s1\<lparr>ms_thread_retention := x, ms_thread_expiry := y\<rparr>"
    and same: "\<forall>i. i \<notin> set ?new \<longrightarrow> map_of x i = map_of (ms_thread_retention ?s1) i \<and>
        map_of y i = map_of (ms_thread_expiry ?s1) i"
    using import_retention_shape by blast
  show ?thesis
    using same not_new [of "ms_threads s" _ "sn_threads snap"]
    by (simp add: import_rows_def Let_def extends_store_def shape)
qed

lemma import_results_extends: "extends_store s (snd (import_results rows s))"
proof (induction rows arbitrary: s)
  case (Cons e rows)
  obtain i result where e: "e = (i, result)" by (cases e)
  have first: "extends_store s (snd (record_result i result s))"
    by (auto simp: record_result_def extends_store_def extends_map_def jm_get_set jm_has_iff
        split: option.split)
  show ?case
  proof (cases "record_result i result s")
    case (Pair r s1)
    with first Cons.IH [of s1] show ?thesis
      by (cases r) (auto simp: e intro: extends_store_trans)
  qed
qed simp

lemma import_items_extends: "extends_store s (import_items snap s)"
proof -
  let ?new = "map fst (filter (\<lambda>(i, _). \<not> jm_has (ms_items s) i) (sn_items snap))"
  let ?s1 = "s\<lparr>ms_items := add_rows (sn_items snap) (ms_items s)\<rparr>"
  obtain x y where shape: "fold (import_item_options ?new) (or_default (sn_item_options snap) []) ?s1 =
      ?s1\<lparr>ms_item_indexes := x, ms_item_expiry := y\<rparr>"
    and same: "\<forall>i. i \<notin> set ?new \<longrightarrow> map_of x i = map_of (ms_item_indexes ?s1) i \<and>
        map_of y i = map_of (ms_item_expiry ?s1) i"
    using import_item_options_shape by blast
  show ?thesis
    using same not_new [of "ms_items s" _ "sn_items snap"]
    by (simp add: import_items_def Let_def extends_store_def shape)
qed

lemma import_crons_extends: "extends_store s (import_crons snap s)"
  by (simp add: import_crons_def Let_def extends_store_def)

lemma restore_extends: "extends_store s (snd (restore snap s))"
proof -
  note steps = import_rows_extends [of s snap]
    import_results_extends [of "import_rows snap s" "or_default (sn_run_results snap) []"]
  show ?thesis
  proof (cases "import_results (or_default (sn_run_results snap) []) (import_rows snap s)")
    case (Pair r s1)
    with steps have "extends_store s s1" by (auto intro: extends_store_trans)
    then show ?thesis
      using import_items_extends [of s1 snap] import_crons_extends [of "import_items snap s1" snap] Pair
      by (cases r) (auto simp: restore_def intro: extends_store_trans)
  qed
qed

text \<open>A second import of the same snapshot finds everything there.\<close>

lemma add_rows_has: "i \<in> fst ` set rows \<Longrightarrow> jm_has (add_rows rows m) i"
  by (auto simp: jm_has_iff add_rows_get image_iff map_of_eq_None_iff split: option.split dest: weak_map_of_SomeI)

lemma add_rows_keeps: "jm_has m i \<Longrightarrow> jm_has (add_rows rows m) i"
  by (auto simp: jm_has_iff add_rows_get)

lemma extends_map_has: "extends_map m m' \<Longrightarrow> jm_has m i \<Longrightarrow> jm_has m' i"
  by (auto simp: extends_map_def jm_has_iff)

lemma no_new_rows: "\<forall>e \<in> set rows. jm_has m (fst e) \<Longrightarrow> filter (\<lambda>(i, _). \<not> jm_has m i) rows = []"
  by (force simp: filter_empty_conv)

lemma add_rows_present: "\<forall>e \<in> set rows. jm_has m (fst e) \<Longrightarrow> add_rows rows m = m"
  by (rule add_rows_again) auto

lemma import_nothing_new:
  "fold (import_retention []) rows s = s" "fold (import_item_options []) options s = s"
  by (induction rows, simp_all add: import_retention_def split: prod.split)
    (induction options, simp_all add: import_item_options_def)

definition holds_rows :: "store_snapshot \<Rightarrow> mem_store \<Rightarrow> bool" where
  "holds_rows snap s \<longleftrightarrow>
     (\<forall>i \<in> fst ` set (sn_assistants snap). jm_has (ms_assistants s) i) \<and>
     (\<forall>i \<in> fst ` set (or_default (sn_assistant_versions snap) []). jm_has (ms_assistant_versions s) i) \<and>
     (\<forall>i \<in> fst ` set (sn_threads snap). jm_has (ms_threads s) i) \<and>
     (\<forall>i \<in> fst ` set (sn_runs snap). jm_has (ms_runs s) i) \<and>
     (\<forall>i \<in> fst ` set (sn_run_kwargs snap). jm_has (ms_run_kwargs s) i)"

lemma import_rows_holds: "holds_rows snap (import_rows snap s)"
proof -
  let ?new = "map fst (filter (\<lambda>(i, _). \<not> jm_has (ms_threads s) i) (sn_threads snap))"
  let ?s1 = "s\<lparr>ms_assistants := add_rows (sn_assistants snap) (ms_assistants s),
      ms_assistant_versions := add_rows (or_default (sn_assistant_versions snap) []) (ms_assistant_versions s),
      ms_threads := add_rows (sn_threads snap) (ms_threads s)\<rparr>"
  obtain x y where shape: "fold (import_retention ?new) (or_default (sn_thread_retention snap) []) ?s1 =
      ?s1\<lparr>ms_thread_retention := x, ms_thread_expiry := y\<rparr>"
    using import_retention_shape by blast
  have "jm_has (add_rows (map (\<lambda>(i, k). (i, snapshot_run_kwargs k)) (sn_run_kwargs snap)) m) i"
    if "i \<in> fst ` set (sn_run_kwargs snap)" for i m
    using that by (intro add_rows_has) force
  then show ?thesis
    by (simp add: holds_rows_def import_rows_def Let_def shape add_rows_has)
qed

lemma import_rows_again: "holds_rows snap s \<Longrightarrow> import_rows snap s = s"
  by (simp add: holds_rows_def import_rows_def Let_def no_new_rows import_nothing_new add_rows_present
      case_prod_beta)

lemma holds_rows_extends:
  assumes "holds_rows snap s" "extends_store s s'"
  shows "holds_rows snap s'"
proof -
  have m: "extends_map (ms_assistants s) (ms_assistants s')"
    "extends_map (ms_assistant_versions s) (ms_assistant_versions s')"
    "extends_map (ms_threads s) (ms_threads s')" "extends_map (ms_runs s) (ms_runs s')"
    "extends_map (ms_run_kwargs s) (ms_run_kwargs s')"
    using assms(2) by (simp_all add: extends_store_def)
  show ?thesis
    using assms(1) m [THEN extends_map_has] by (simp add: holds_rows_def)
qed

lemma record_result_done:
  assumes "record_result i result s = (Inr u, s1)"
  shows "ms_runs s1 = ms_runs s" "jm_has (ms_runs s) i \<Longrightarrow> jm_has (ms_run_results s1) i"
  using assms by (auto simp: record_result_def jm_has_set split: if_splits option.splits)

lemma import_results_holds:
  "import_results rows s = (Inr (), s') \<Longrightarrow>
     ms_runs s' = ms_runs s \<and> (\<forall>i \<in> fst ` set rows. jm_has (ms_runs s) i \<longrightarrow> jm_has (ms_run_results s') i)"
proof (induction rows arbitrary: s)
  case (Cons e rows)
  obtain i result where e: "e = (i, result)" by (cases e)
  obtain r s1 where r: "record_result i result s = (r, s1)" by fastforce
  have r': "r = Inr ()" and rest: "import_results rows s1 = (Inr (), s')"
    using Cons.prems r e by (cases r; simp)+
  note recorded = record_result_done [OF r [unfolded r']]
  have "extends_map (ms_run_results s1) (ms_run_results s')"
    using import_results_extends [of s1 rows] rest by (simp add: extends_store_def)
  with recorded(2) have "jm_has (ms_runs s) i \<longrightarrow> jm_has (ms_run_results s') i"
    by (blast intro: extends_map_has)
  then show ?case using Cons.IH [OF rest] by (simp add: e recorded(1))
qed simp

lemma import_results_again:
  assumes "\<forall>i \<in> fst ` set rows. jm_has (ms_runs s) i \<longrightarrow> jm_has (ms_run_results s) i"
  shows "import_results rows s = (Inr (), s)"
  using assms by (induction rows) (auto simp: record_result_def)

lemma import_items_again:
  assumes "\<forall>i \<in> fst ` set (sn_items snap). jm_has (ms_items s) i"
  shows "import_items snap s = s"
  using assms by (simp add: import_items_def Let_def no_new_rows import_nothing_new add_rows_present)

lemma import_items_holds:
  "(\<forall>i \<in> fst ` set (sn_items snap). jm_has (ms_items (import_items snap s)) i) \<and>
   ms_runs (import_items snap s) = ms_runs s \<and> ms_run_results (import_items snap s) = ms_run_results s \<and>
   ms_threads (import_items snap s) = ms_threads s"
proof -
  let ?new = "map fst (filter (\<lambda>(i, _). \<not> jm_has (ms_items s) i) (sn_items snap))"
  let ?s1 = "s\<lparr>ms_items := add_rows (sn_items snap) (ms_items s)\<rparr>"
  obtain x y where shape: "fold (import_item_options ?new) (or_default (sn_item_options snap) []) ?s1 =
      ?s1\<lparr>ms_item_indexes := x, ms_item_expiry := y\<rparr>"
    using import_item_options_shape by blast
  show ?thesis by (simp add: import_items_def Let_def shape add_rows_has)
qed

lemma import_crons_again: "import_crons snap (import_crons snap s) = import_crons snap s"
proof -
  let ?crons = "add_rows (filter (cron_fits (ms_threads s)) (or_default (sn_crons snap) [])) (ms_crons s)"
  let ?zeros = "map (\<lambda>i. (i, 0)) (jm_keys ?crons)"
  have "add_rows (filter (cron_fits (ms_threads s)) (or_default (sn_crons snap) [])) ?crons = ?crons"
    by (rule add_rows_again) (rule add_rows_has)
  moreover have "add_rows ?zeros (add_rows ?zeros (ms_cron_seq s)) = add_rows ?zeros (ms_cron_seq s)"
    by (rule add_rows_again) (rule add_rows_has)
  ultimately show ?thesis by (simp add: import_crons_def Let_def del: map_map)
qed

section \<open>Properties\<close>

text \<open>
  C27. What a restart keeps: hydrating any store from the snapshot of a live one gives back its
  assistants with their versions, threads with their retention, runs, results, items with their
  expiry and index settings, and crons; the run payloads lose exactly what a snapshot withholds.
  Dispatch intents and cron credentials are gone, claim tokens start at zero, and the ledgers a
  snapshot does not carry are those of the store hydrated. The result satisfies the store invariant.
\<close>

theorem hydrate_snapshot_roundtrip:
  assumes ready: "snapshot_ready s" and "store_inv s0"
    and s': "s' = hydrate (snapshot_store s) now s0"
  shows "store_inv s' \<and>
         ms_assistants s' = ms_assistants s \<and> ms_assistant_versions s' = ms_assistant_versions s \<and>
         ms_threads s' = ms_threads s \<and> ms_runs s' = ms_runs s \<and> ms_run_results s' = ms_run_results s \<and>
         ms_items s' = ms_items s \<and> ms_crons s' = ms_crons s \<and>
         (\<forall>i. get_kwargs i s' = map_option snapshot_run_kwargs (get_kwargs i s)) \<and>
         (\<forall>i \<in> fst ` set (ms_thread_retention s). thread_get i s' = thread_get i s) \<and>
         (\<forall>i \<in> fst ` set (ms_items s). map_of (ms_item_expiry s') i = map_of (ms_item_expiry s) i \<and>
            map_of (ms_item_indexes s') i = map_of (ms_item_indexes s) i) \<and>
         (\<forall>i \<in> fst ` set (ms_crons s). map_of (ms_cron_seq s') i = Some 0) \<and>
         ms_dispatches s' = [] \<and> ms_cron_auth s' = [] \<and>
         ms_idempotency s' = ms_idempotency s0 \<and> ms_deliveries s' = ms_deliveries s0"
proof -
  obtain x y u w where shape: "s' = (rehydrated_rows s s0)
         \<lparr>ms_item_indexes := u, ms_item_expiry := w, ms_thread_retention := x, ms_thread_expiry := y\<rparr>"
    and at: "\<And>i. i \<in> fst ` set (ms_thread_retention s) \<Longrightarrow> map_of x i = map_of (ms_thread_retention s) i"
    "\<And>i. i \<in> fst ` set (ms_thread_retention s) \<Longrightarrow> map_of y i = map_of (ms_thread_expiry s) i"
    "\<And>i. i \<in> fst ` set (ms_items s) \<Longrightarrow> map_of u i = map_of (ms_item_indexes s) i"
    "\<And>i. i \<in> fst ` set (ms_items s) \<Longrightarrow> map_of w i = map_of (ms_item_expiry s) i"
    using hydrate_snapshot_shape [OF ready, of now s0] unfolding s' by metis
  have threads: "thread_get i s' = thread_get i s" if kept: "i \<in> fst ` set (ms_thread_retention s)" for i
  proof -
    obtain p where p: "map_of (ms_thread_retention s) i = Some p" using kept by (metis jm_has_dom jm_has_iff)
    have id: "t_thread_id t = i" if "map_of (ms_threads s) i = Some t" for t
      using that ready keyed_by_get [of t_thread_id "ms_threads s" i t]
      by (simp add: snapshot_ready_def store_inv_def thread_inv_def)
    have "ms_threads s' = ms_threads s" "map_of (ms_thread_retention s') i = Some p"
      "map_of (ms_thread_expiry s') i = map_of (ms_thread_expiry s) i"
      using at(1,2) [OF kept] p by (simp_all add: shape rehydrated_rows_def)
    then show ?thesis
      by (cases "map_of (ms_threads s) i") (simp_all add: thread_get_def project_thread_def Let_def id p)
  qed
  have "map_of (ms_cron_seq s') i = Some 0" if "i \<in> fst ` set (ms_crons s)" for i
    using that by (simp add: shape rehydrated_rows_def map_of_key_table del: map_map)
  moreover have "store_inv s'" unfolding s' by (rule hydrate_snapshot_inv [OF assms(1,2)])
  ultimately show ?thesis
    using at(3,4) threads by (simp add: shape rehydrated_rows_def get_kwargs_def map_of_mapped)
qed

text \<open>
  An import only adds: whatever the snapshot holds, and even when a result that cannot be
  serialised stops it half-way, every assistant, version, thread, run, payload, result, item, cron and
  claim token of the store is still there unchanged, with the retention of the threads and the expiry
  and index settings of the items it had.
\<close>

theorem restore_only_adds: "extends_store s (snd (restore snap s))"
  by (rule restore_extends)

text \<open>An import that succeeded is idempotent: running it again changes nothing.\<close>

theorem restore_idempotent:
  assumes "restore snap s = (Inr (), s')"
  shows "restore snap s' = (Inr (), s')"
proof -
  let ?results = "or_default (sn_run_results snap) []"
  obtain s1 where s1: "import_results ?results (import_rows snap s) = (Inr (), s1)"
    and s': "s' = import_crons snap (import_items snap s1)"
    using assms by (auto simp: restore_def split: prod.splits sum.splits)
  have "extends_store (import_rows snap s) s'"
    using import_results_extends [of "import_rows snap s" ?results] import_items_extends [of s1 snap]
      import_crons_extends [of "import_items snap s1" snap] s1
    by (auto simp: s' intro: extends_store_trans)
  then have rows: "import_rows snap s' = s'"
    using holds_rows_extends [OF import_rows_holds] import_rows_again by blast
  have "\<forall>i \<in> fst ` set ?results. jm_has (ms_runs s') i \<longrightarrow> jm_has (ms_run_results s') i"
    using import_results_holds [OF s1] import_items_holds [of snap s1]
    by (simp add: s' import_crons_def Let_def)
  then have results: "import_results ?results s' = (Inr (), s')" by (rule import_results_again)
  have "import_items snap s' = s'"
    by (rule import_items_again) (use import_items_holds [of snap s1] in \<open>simp add: s' import_crons_def Let_def\<close>)
  then show ?thesis
    using rows results import_crons_again by (simp add: restore_def s')
qed

subsection \<open>Witnesses\<close>

lemma two_threads_ready: "snapshot_ready two_threads"
  using two_threads_inv
  by (simp add: snapshot_ready_def two_threads_simps)

theorem hydrate_snapshot_roundtrip_witness:
  "thread_get ''t1'' (hydrate (snapshot_store two_threads) 100 empty_store) = thread_get ''t1'' two_threads \<and>
   run_get ''r1'' (hydrate (snapshot_store two_threads) 100 empty_store) = run_get ''r1'' two_threads"
  using hydrate_snapshot_roundtrip [OF two_threads_ready empty_store_inv refl, of 100]
  by (simp add: run_get_def two_threads_simps)

theorem restore_idempotent_witness:
  "restore (snapshot_store two_threads) (snd (restore (snapshot_store two_threads) empty_store)) =
     (Inr (), snd (restore (snapshot_store two_threads) empty_store))"
proof (rule restore_idempotent)
  have "fst (restore (snapshot_store two_threads) empty_store) = Inr ()"
    by (simp add: restore_def snapshot_store_def two_threads_simps)
  then show "restore (snapshot_store two_threads) empty_store =
      (Inr (), snd (restore (snapshot_store two_threads) empty_store))"
    by (simp add: prod_eq_iff)
qed

end
