(* ===== verification/RunEventBus.thy ===== *)
theory RunEventBus
  imports JsValue Namespaces
begin

text \<open>
  \<^verbatim>\<open>MemoryRunEventBus\<close> of \<^verbatim>\<open>packages/storage-memory/src/memory-queue.ts\<close>: the fan-out of a
  run's frames to its subscribers.

  A channel is an object that generators hold a reference to while the map may drop it, so channels
  live in a heap and the map goes from run ids to object numbers. A reader's position object is an
  entry of \<open>ch_readers\<close> under the number of its subscription; the resolver a parked generator left
  in \<^verbatim>\<open>waiters\<close> is that number too. One publish, close, or stretch of a generator between two
  suspensions is one step.
\<close>

record run_frame =
  fr_seq :: nat
  fr_event :: string
  fr_namespace :: "string list option"
  fr_data :: jsval

record channel =
  ch_frames :: "run_frame list"
  ch_closed :: bool
  ch_waiters :: "nat list"
  ch_subscribers :: nat
  ch_readers :: "(nat, int) jsmap"

record event_bus =
  eb_heap :: "nat \<Rightarrow> channel"
  eb_next :: nat
  eb_channels :: "(ident, nat) jsmap"
  eb_closed_order :: "ident list"
  eb_finished :: "(ident, instant) jsmap"
  eb_max_retained_runs :: nat
  eb_max_frames_per_run :: nat
  eb_finished_id_ttl_ms :: nat

section \<open>Construction\<close>

definition DEFAULT_MEMORY_BUS_MAX_RETAINED_RUNS :: jsnum where
  "DEFAULT_MEMORY_BUS_MAX_RETAINED_RUNS = Fin 50"

definition DEFAULT_MEMORY_BUS_MAX_FRAMES_PER_RUN :: jsnum where
  "DEFAULT_MEMORY_BUS_MAX_FRAMES_PER_RUN = Fin 10000"

definition DEFAULT_FINISHED_ID_TTL_MS :: jsnum where
  "DEFAULT_FINISHED_ID_TTL_MS = Fin (24 * 60 * 60 * 1000)"

definition MAX_FINISHED_RUN_IDS :: nat where
  "MAX_FINISHED_RUN_IDS = 100000"

definition empty_channel :: channel where
  "empty_channel = \<lparr>ch_frames = [], ch_closed = False, ch_waiters = [], ch_subscribers = 0, ch_readers = []\<rparr>"

text \<open>\<^verbatim>\<open>requirePositiveInteger\<close>: \<open>None\<close> is its \<^verbatim>\<open>RangeError\<close>.\<close>

definition require_positive_integer :: "jsnum \<Rightarrow> nat option" where
  "require_positive_integer value =
     (case value of
        Fin q \<Rightarrow> if of_int \<lfloor>q\<rfloor> \<noteq> q \<or> q \<le> 0 then None else Some (nat \<lfloor>q\<rfloor>)
      | _ \<Rightarrow> None)"

definition new_event_bus :: "jsnum option \<Rightarrow> jsnum option \<Rightarrow> jsnum option \<Rightarrow> event_bus option" where
  "new_event_bus max_retained max_frames ttl =
     (case require_positive_integer (or_default max_retained DEFAULT_MEMORY_BUS_MAX_RETAINED_RUNS) of
        None \<Rightarrow> None
      | Some retained \<Rightarrow>
          (case require_positive_integer (or_default max_frames DEFAULT_MEMORY_BUS_MAX_FRAMES_PER_RUN) of
             None \<Rightarrow> None
           | Some per_run \<Rightarrow>
               (case require_positive_integer (or_default ttl DEFAULT_FINISHED_ID_TTL_MS) of
                  None \<Rightarrow> None
                | Some ttl_ms \<Rightarrow>
                    Some \<lparr>eb_heap = (\<lambda>_. empty_channel), eb_next = 0, eb_channels = [],
                          eb_closed_order = [], eb_finished = [],
                          eb_max_retained_runs = retained, eb_max_frames_per_run = per_run,
                          eb_finished_id_ttl_ms = ttl_ms\<rparr>)))"

section \<open>Channels\<close>

definition bus_tracked_channel_count :: "event_bus \<Rightarrow> nat" where
  "bus_tracked_channel_count b = length (eb_channels b)"

definition bus_buffered_frame_count :: "event_bus \<Rightarrow> nat" where
  "bus_buffered_frame_count b =
     sum_list (map (\<lambda>i. length (ch_frames (eb_heap b i))) (jm_values (eb_channels b)))"

definition bus_channel :: "ident \<Rightarrow> event_bus \<Rightarrow> nat \<times> event_bus" where
  "bus_channel run_id b =
     (case jm_get (eb_channels b) run_id of
        Some i \<Rightarrow> (i, b)
      | None \<Rightarrow>
          (eb_next b,
           b\<lparr>eb_heap := (eb_heap b)(eb_next b := empty_channel), eb_next := Suc (eb_next b),
             eb_channels := jm_set run_id (eb_next b) (eb_channels b)\<rparr>))"

definition bus_wake :: "channel \<Rightarrow> channel" where
  "bus_wake ch = ch\<lparr>ch_waiters := []\<rparr>"

definition bus_trim :: "nat \<Rightarrow> channel \<Rightarrow> channel" where
  "bus_trim cap ch =
     (let over = length (ch_frames ch) - cap in
      if over = 0 then ch
      else ch\<lparr>ch_frames := drop over (ch_frames ch),
              ch_readers := map (\<lambda>(i, cursor). (i, cursor - int over)) (ch_readers ch)\<rparr>)"

definition bus_publish :: "ident \<Rightarrow> run_frame \<Rightarrow> event_bus \<Rightarrow> event_bus" where
  "bus_publish run_id frame b =
     (let (i, b1) = bus_channel run_id b;
          ch = eb_heap b1 i
      in b1\<lparr>eb_heap := (eb_heap b1)
              (i := bus_wake (bus_trim (eb_max_frames_per_run b1) (ch\<lparr>ch_frames := ch_frames ch @ [frame]\<rparr>)))\<rparr>)"

section \<open>Retention\<close>

text \<open>The sweep stops at the first live entry: ids are kept in the order they finished.\<close>

fun sweep_loop :: "instant \<Rightarrow> (ident, instant) jsmap \<Rightarrow> (ident, instant) jsmap" where
  "sweep_loop cutoff [] = []"
| "sweep_loop cutoff ((run_id, closed_at) # rest) =
     (if MAX_FINISHED_RUN_IDS < Suc (length rest) then sweep_loop cutoff rest
      else if cutoff \<le> closed_at then (run_id, closed_at) # rest
      else sweep_loop cutoff rest)"

definition sweep_finished_ids :: "instant \<Rightarrow> event_bus \<Rightarrow> event_bus" where
  "sweep_finished_ids now b =
     b\<lparr>eb_finished := sweep_loop (now - int (eb_finished_id_ttl_ms b)) (eb_finished b)\<rparr>"

definition bus_release :: "ident \<Rightarrow> instant \<Rightarrow> event_bus \<Rightarrow> event_bus" where
  "bus_release run_id now b =
     sweep_finished_ids now
       (b\<lparr>eb_channels := jm_delete run_id (eb_channels b),
          eb_closed_order := removeAll run_id (eb_closed_order b),
          eb_finished := jm_set run_id now (jm_delete run_id (eb_finished b))\<rparr>)"

definition subscriber_count :: "ident \<Rightarrow> event_bus \<Rightarrow> nat" where
  "subscriber_count run_id b =
     (case jm_get (eb_channels b) run_id of None \<Rightarrow> 0 | Some i \<Rightarrow> ch_subscribers (eb_heap b i))"

fun evict_loop :: "ident list \<Rightarrow> instant \<Rightarrow> event_bus \<Rightarrow> event_bus" where
  "evict_loop [] now b = b"
| "evict_loop (run_id # rest) now b =
     (if length (eb_closed_order b) \<le> eb_max_retained_runs b then b
      else if 0 < subscriber_count run_id b then evict_loop rest now b
      else evict_loop rest now (bus_release run_id now b))"

definition evict_closed_beyond_cap :: "instant \<Rightarrow> event_bus \<Rightarrow> event_bus" where
  "evict_closed_beyond_cap now b = evict_loop (eb_closed_order b) now b"

definition bus_close :: "ident \<Rightarrow> instant \<Rightarrow> event_bus \<Rightarrow> event_bus" where
  "bus_close run_id now b =
     (if \<not> jm_has (eb_channels b) run_id \<and> jm_has (eb_finished b) run_id then b
      else
        let (i, b1) = bus_channel run_id b;
            ch = bus_wake ((eb_heap b1 i)\<lparr>ch_closed := True\<rparr>);
            b2 = b1\<lparr>eb_heap := (eb_heap b1)(i := ch),
                    eb_closed_order := (if run_id \<in> set (eb_closed_order b1) then eb_closed_order b1
                                        else eb_closed_order b1 @ [run_id])\<rparr>
        in if ch_frames ch = [] \<and> ch_subscribers ch = 0 then bus_release run_id now b2
           else evict_closed_beyond_cap now b2)"

section \<open>Subscribing\<close>

text \<open>
  The start of the generator: \<open>None\<close> when the run is known to have finished and its channel is gone.
\<close>

definition bus_attach :: "nat \<Rightarrow> ident \<Rightarrow> event_bus \<Rightarrow> nat option \<times> event_bus" where
  "bus_attach reader run_id b =
     (if \<not> jm_has (eb_channels b) run_id \<and> jm_has (eb_finished b) run_id then (None, b)
      else
        let (i, b1) = bus_channel run_id b;
            ch = eb_heap b1 i
        in (Some i,
            b1\<lparr>eb_heap := (eb_heap b1)
                 (i := ch\<lparr>ch_subscribers := Suc (ch_subscribers ch),
                         ch_readers := jm_set reader 0 (ch_readers ch)\<rparr>)\<rparr>))"

text \<open>The read loop up to its next suspension or its end.\<close>

datatype read_outcome = Yields run_frame | Parks | EndsClosed | EndsOverrun

fun scan_frames :: "nat \<Rightarrow> run_frame list \<Rightarrow> int \<Rightarrow> run_frame option \<times> int" where
  "scan_frames after_seq [] cursor = (None, cursor)"
| "scan_frames after_seq (f # fs) cursor =
     (if after_seq < fr_seq f then (Some f, cursor + 1) else scan_frames after_seq fs (cursor + 1))"

definition bus_read :: "nat \<Rightarrow> nat \<Rightarrow> channel \<Rightarrow> read_outcome \<times> channel" where
  "bus_read reader after_seq ch =
     (let cursor = or_default (jm_get (ch_readers ch) reader) 0 in
      if cursor < 0 then (EndsOverrun, ch)
      else
        let (found, cursor') = scan_frames after_seq (drop (nat cursor) (ch_frames ch)) cursor;
            ch' = ch\<lparr>ch_readers := jm_set reader cursor' (ch_readers ch)\<rparr>
        in case found of
             Some f \<Rightarrow> (Yields f, ch')
           | None \<Rightarrow>
               if ch_closed ch' then (EndsClosed, ch')
               else (Parks, ch'\<lparr>ch_waiters := ch_waiters ch' @ [reader]\<rparr>))"

text \<open>The \<^verbatim>\<open>finally\<close> block, for a generator over object \<open>i\<close>.\<close>

definition bus_detach :: "nat \<Rightarrow> ident \<Rightarrow> nat \<Rightarrow> instant \<Rightarrow> event_bus \<Rightarrow> event_bus" where
  "bus_detach reader run_id i now b =
     (let ch = (eb_heap b i)\<lparr>ch_subscribers := ch_subscribers (eb_heap b i) - 1,
                             ch_readers := jm_delete reader (ch_readers (eb_heap b i))\<rparr>;
          b1 = b\<lparr>eb_heap := (eb_heap b)(i := ch)\<rparr>
      in if ch_subscribers ch \<noteq> 0 then b1
         else if ch_frames ch = [] then
           (if ch_closed ch then bus_release run_id now b1
            else b1\<lparr>eb_channels := jm_delete run_id (eb_channels b1)\<rparr>)
         else if ch_closed ch then evict_closed_beyond_cap now b1
         else b1)"

section \<open>Laws of the parts\<close>

lemma require_positive_integer_pos: "require_positive_integer v = Some n \<Longrightarrow> 0 < n"
  by (auto simp: require_positive_integer_def split: jsnum.splits if_splits)

lemma trim_frames: "ch_frames (bus_trim cap ch) = drop (length (ch_frames ch) - cap) (ch_frames ch)"
  by (simp add: bus_trim_def Let_def)

lemma trim_bound: "length (ch_frames (bus_trim cap ch)) \<le> cap"
  by (simp add: trim_frames)

lemma trim_fields [simp]:
  "ch_closed (bus_trim cap ch) = ch_closed ch" "ch_waiters (bus_trim cap ch) = ch_waiters ch"
  "ch_subscribers (bus_trim cap ch) = ch_subscribers ch"
  "map fst (ch_readers (bus_trim cap ch)) = map fst (ch_readers ch)"
  by (auto simp: bus_trim_def Let_def case_prod_beta)

lemma trim_reader:
  "map_of (ch_readers (bus_trim cap ch)) i =
     map_option (\<lambda>c. c - int (length (ch_frames ch) - cap)) (map_of (ch_readers ch) i)"
proof -
  have "map_of (map (\<lambda>(i, cursor). (i, cursor - k)) rs) i = map_option (\<lambda>c. c - k) (map_of rs i)" for k :: int and rs
    by (induction rs) auto
  then show ?thesis by (simp add: bus_trim_def Let_def option.map_ident)
qed

lemma wake_fields [simp]:
  "ch_frames (bus_wake ch) = ch_frames ch" "ch_closed (bus_wake ch) = ch_closed ch"
  "ch_subscribers (bus_wake ch) = ch_subscribers ch" "ch_readers (bus_wake ch) = ch_readers ch"
  "ch_waiters (bus_wake ch) = []"
  by (simp_all add: bus_wake_def)

lemma scan_frames_spec:
  "scan_frames a fs c = (found, c') \<Longrightarrow>
     c \<le> c' \<and> c' \<le> c + int (length fs) \<and>
     filter (\<lambda>f. a < fr_seq f) (take (nat (c' - c)) fs) = (case found of None \<Rightarrow> [] | Some f \<Rightarrow> [f]) \<and>
     (found = None \<longrightarrow> c' = c + int (length fs))"
proof (induction a fs c rule: scan_frames.induct)
  case (2 a f fs c)
  show ?case
  proof (cases "a < fr_seq f")
    case False
    with 2 have IH: "c + 1 \<le> c' \<and> c' \<le> c + 1 + int (length fs) \<and>
        filter (\<lambda>f. a < fr_seq f) (take (nat (c' - (c + 1))) fs) = (case found of None \<Rightarrow> [] | Some f \<Rightarrow> [f]) \<and>
        (found = None \<longrightarrow> c' = c + 1 + int (length fs))" by simp
    then have "nat (c' - c) = Suc (nat (c' - (c + 1)))" by linarith
    with IH False show ?thesis by auto
  qed (use 2 in auto)
qed auto

lemma sweep_loop_suffix: "\<exists>n. sweep_loop cutoff m = drop n m"
proof (induction cutoff m rule: sweep_loop.induct)
  case (2 cutoff run_id closed_at rest)
  then obtain n where "sweep_loop cutoff ((run_id, closed_at) # rest) = drop n ((run_id, closed_at) # rest)"
    by (cases "MAX_FINISHED_RUN_IDS < Suc (length rest)"; cases "cutoff \<le> closed_at")
      (auto intro: that [of 0] that [of "Suc _"])
  then show ?case by blast
qed simp

lemma sweep_loop_bound: "length (sweep_loop cutoff m) \<le> MAX_FINISHED_RUN_IDS"
  by (induction cutoff m rule: sweep_loop.induct) simp_all

lemma release_fields [simp]:
  "eb_heap (bus_release r now b) = eb_heap b" "eb_next (bus_release r now b) = eb_next b"
  "eb_channels (bus_release r now b) = jm_delete r (eb_channels b)"
  "eb_closed_order (bus_release r now b) = removeAll r (eb_closed_order b)"
  "eb_max_retained_runs (bus_release r now b) = eb_max_retained_runs b"
  "eb_max_frames_per_run (bus_release r now b) = eb_max_frames_per_run b"
  by (simp_all add: bus_release_def sweep_finished_ids_def)

lemma release_finished_bound: "length (eb_finished (bus_release r now b)) \<le> MAX_FINISHED_RUN_IDS"
  by (simp add: bus_release_def sweep_finished_ids_def sweep_loop_bound)

lemma release_subscribers: "r' \<noteq> r \<Longrightarrow> subscriber_count r' (bus_release r now b) = subscriber_count r' b"
  by (simp add: subscriber_count_def jm_simps split: option.split)

end
