(* ===== verification/RunEventHistory.thy ===== *)
theory RunEventHistory
  imports RunEventBus
begin

text \<open>
  The run event bus with its subscribers, over every interleaving: publishes, closes, and each
  subscriber's steps between two suspensions. \<open>sy_log\<close> and \<open>sb_delivered\<close> are history variables:
  what was ever published on a channel object, and what a subscriber was given.
\<close>

datatype sub_state = AtYield | Waiting | DoneClosed | DoneOverrun | DoneFinished | Returned

record bus_sub =
  sb_run :: ident
  sb_after :: nat
  sb_object :: nat
  sb_start :: nat
  sb_delivered :: "run_frame list"
  sb_state :: sub_state

record bus_system =
  sy_bus :: event_bus
  sy_subs :: "nat \<Rightarrow> bus_sub option"
  sy_log :: "nat \<Rightarrow> run_frame list"

abbreviation obj :: "bus_system \<Rightarrow> nat \<Rightarrow> channel" where
  "obj S i \<equiv> eb_heap (sy_bus S) i"

definition sub_attached :: "bus_sub \<Rightarrow> bool" where
  "sub_attached u \<longleftrightarrow> sb_state u = AtYield \<or> sb_state u = Waiting"

definition sys_publish :: "ident \<Rightarrow> run_frame \<Rightarrow> bus_system \<Rightarrow> bus_system" where
  "sys_publish run_id f S =
     (let i = fst (bus_channel run_id (sy_bus S)) in
      S\<lparr>sy_bus := bus_publish run_id f (sy_bus S), sy_log := (sy_log S)(i := sy_log S i @ [f])\<rparr>)"

definition sys_close :: "ident \<Rightarrow> instant \<Rightarrow> bus_system \<Rightarrow> bus_system" where
  "sys_close run_id now S = S\<lparr>sy_bus := bus_close run_id now (sy_bus S)\<rparr>"

text \<open>The generator runs from where it is suspended to the next suspension, or to its end.\<close>

definition sys_read :: "nat \<Rightarrow> bus_sub \<Rightarrow> instant \<Rightarrow> bus_system \<Rightarrow> bus_system" where
  "sys_read k u now S =
     (let b = sy_bus S;
          (out, ch) = bus_read k (sb_after u) (eb_heap b (sb_object u));
          b1 = b\<lparr>eb_heap := (eb_heap b)(sb_object u := ch)\<rparr>
      in case out of
           Yields f \<Rightarrow>
             S\<lparr>sy_bus := b1,
               sy_subs := (sy_subs S)(k \<mapsto> u\<lparr>sb_state := AtYield, sb_delivered := sb_delivered u @ [f]\<rparr>)\<rparr>
         | Parks \<Rightarrow> S\<lparr>sy_bus := b1, sy_subs := (sy_subs S)(k \<mapsto> u\<lparr>sb_state := Waiting\<rparr>)\<rparr>
         | EndsClosed \<Rightarrow>
             S\<lparr>sy_bus := bus_detach k (sb_run u) (sb_object u) now b1,
               sy_subs := (sy_subs S)(k \<mapsto> u\<lparr>sb_state := DoneClosed\<rparr>)\<rparr>
         | EndsOverrun \<Rightarrow>
             S\<lparr>sy_bus := bus_detach k (sb_run u) (sb_object u) now b1,
               sy_subs := (sy_subs S)(k \<mapsto> u\<lparr>sb_state := DoneOverrun\<rparr>)\<rparr>)"

definition new_sub :: "ident \<Rightarrow> nat \<Rightarrow> nat \<Rightarrow> nat \<Rightarrow> bus_sub" where
  "new_sub run_id after_seq i start =
     \<lparr>sb_run = run_id, sb_after = after_seq, sb_object = i, sb_start = start, sb_delivered = [], sb_state = AtYield\<rparr>"

definition sys_subscribe :: "nat \<Rightarrow> ident \<Rightarrow> nat \<Rightarrow> instant \<Rightarrow> bus_system \<Rightarrow> bus_system" where
  "sys_subscribe k run_id after_seq now S =
     (case bus_attach k run_id (sy_bus S) of
        (None, b) \<Rightarrow>
          S\<lparr>sy_bus := b,
            sy_subs := (sy_subs S)(k \<mapsto> (new_sub run_id after_seq 0 0)\<lparr>sb_state := DoneFinished\<rparr>)\<rparr>
      | (Some i, b) \<Rightarrow>
          (let u = new_sub run_id after_seq i (length (sy_log S i) - length (ch_frames (eb_heap b i)))
           in sys_read k u now (S\<lparr>sy_bus := b, sy_subs := (sy_subs S)(k \<mapsto> u)\<rparr>)))"

definition sys_return :: "nat \<Rightarrow> bus_sub \<Rightarrow> instant \<Rightarrow> bus_system \<Rightarrow> bus_system" where
  "sys_return k u now S =
     S\<lparr>sy_bus := bus_detach k (sb_run u) (sb_object u) now (sy_bus S),
       sy_subs := (sy_subs S)(k \<mapsto> u\<lparr>sb_state := Returned\<rparr>)\<rparr>"

text \<open>
  A reader at a yield goes on when its consumer asks for more; a parked one once its resolver was
  called, that is, once it is no longer among the channel's waiters. A consumer that breaks off does
  so at a yield.
\<close>

definition runnable :: "nat \<Rightarrow> bus_system \<Rightarrow> bool" where
  "runnable k S =
     (case sy_subs S k of
        None \<Rightarrow> False
      | Some u \<Rightarrow>
          sb_state u = AtYield \<or>
          (sb_state u = Waiting \<and> k \<notin> set (ch_waiters (obj S (sb_object u)))))"

inductive bus_step :: "bus_system \<Rightarrow> bus_system \<Rightarrow> bool" where
  publishes: "bus_step S (sys_publish run_id f S)"
| closes: "bus_step S (sys_close run_id now S)"
| subscribes: "sy_subs S k = None \<Longrightarrow> bus_step S (sys_subscribe k run_id after_seq now S)"
| resumes: "sy_subs S k = Some u \<Longrightarrow> runnable k S \<Longrightarrow> bus_step S (sys_read k u now S)"
| returns: "sy_subs S k = Some u \<Longrightarrow> sb_state u = AtYield \<Longrightarrow> bus_step S (sys_return k u now S)"

definition bus_initial :: "bus_system \<Rightarrow> bool" where
  "bus_initial S \<longleftrightarrow>
     (\<exists>retained per_run ttl. new_event_bus retained per_run ttl = Some (sy_bus S)) \<and>
     sy_subs S = Map.empty \<and> sy_log S = (\<lambda>_. [])"

inductive bus_reachable :: "bus_system \<Rightarrow> bool" where
  initial: "bus_initial S \<Longrightarrow> bus_reachable S"
| step: "bus_reachable S \<Longrightarrow> bus_step S S' \<Longrightarrow> bus_reachable S'"

section \<open>The invariant\<close>

text \<open>The number of frames a channel object has dropped, and the delivered part of a log.\<close>

definition dropped :: "bus_system \<Rightarrow> nat \<Rightarrow> nat" where
  "dropped S i = length (sy_log S i) - length (ch_frames (obj S i))"

definition wanted :: "bus_sub \<Rightarrow> run_frame list \<Rightarrow> nat \<Rightarrow> run_frame list" where
  "wanted u published n = filter (\<lambda>f. sb_after u < fr_seq f) (drop (sb_start u) (take n published))"

text \<open>Each channel's buffer is a bounded suffix of its log.\<close>

definition buffers_ok :: "bus_system \<Rightarrow> bool" where
  "buffers_ok S \<longleftrightarrow>
     (\<forall>i. length (ch_frames (obj S i)) \<le> eb_max_frames_per_run (sy_bus S) \<and>
          length (ch_frames (obj S i)) \<le> length (sy_log S i) \<and>
          ch_frames (obj S i) = drop (dropped S i) (sy_log S i))"

text \<open>
  The map and the heap agree: a map entry is an allocated object of its own; the readers of a
  channel are the attached subscriptions of that object, and it is the object the map has for them.
\<close>

definition objects_ok :: "bus_system \<Rightarrow> bool" where
  "objects_ok S \<longleftrightarrow>
     jm_wf (eb_channels (sy_bus S)) \<and>
     inj_on snd (set (eb_channels (sy_bus S))) \<and>
     (\<forall>e \<in> set (eb_channels (sy_bus S)). snd e < eb_next (sy_bus S)) \<and>
     (\<forall>i \<ge> eb_next (sy_bus S). sy_log S i = [] \<and> obj S i = empty_channel)"

definition readers_ok :: "bus_system \<Rightarrow> bool" where
  "readers_ok S \<longleftrightarrow>
     (\<forall>i. jm_wf (ch_readers (obj S i)) \<and>
          ch_subscribers (obj S i) = length (ch_readers (obj S i)) \<and>
          (\<forall>k \<in> fst ` set (ch_readers (obj S i)).
             \<exists>u. sy_subs S k = Some u \<and> sub_attached u \<and> sb_object u = i))"

text \<open>An attached subscription: its channel, its position, and what it was given so far.\<close>

definition reader_position :: "bus_system \<Rightarrow> nat \<Rightarrow> bus_sub \<Rightarrow> int \<Rightarrow> bool" where
  "reader_position S k u c \<longleftrightarrow>
     map_of (eb_channels (sy_bus S)) (sb_run u) = Some (sb_object u) \<and>
     map_of (ch_readers (obj S (sb_object u))) k = Some c \<and>
     int (sb_start u) \<le> int (dropped S (sb_object u)) + c \<and>
     int (dropped S (sb_object u)) + c \<le> int (length (sy_log S (sb_object u))) \<and>
     sb_delivered u = wanted u (sy_log S (sb_object u)) (nat (int (dropped S (sb_object u)) + c))"

definition sub_ok :: "bus_system \<Rightarrow> nat \<Rightarrow> bus_sub \<Rightarrow> bool" where
  "sub_ok S k u \<longleftrightarrow>
     (if sub_attached u then \<exists>c. reader_position S k u c
      else \<exists>n \<le> length (sy_log S (sb_object u)). sb_delivered u = wanted u (sy_log S (sb_object u)) n)"

definition subs_ok :: "bus_system \<Rightarrow> bool" where
  "subs_ok S \<longleftrightarrow> (\<forall>k u. sy_subs S k = Some u \<longrightarrow> sub_ok S k u)"

text \<open>No lost wake-up: a reader still among the waiters has read everything of an open channel.\<close>

definition waiters_ok :: "bus_system \<Rightarrow> bool" where
  "waiters_ok S \<longleftrightarrow>
     (\<forall>i. \<forall>k \<in> set (ch_waiters (obj S i)).
        \<not> ch_closed (obj S i) \<and>
        map_of (ch_readers (obj S i)) k = Some (int (length (ch_frames (obj S i)))) \<and>
        (\<exists>u. sy_subs S k = Some u \<and> sb_state u = Waiting \<and> sb_object u = i))"

text \<open>The closed channels in the map are those in close order, and there are few without a reader.\<close>

definition order_ok :: "event_bus \<Rightarrow> bool" where
  "order_ok b \<longleftrightarrow>
     distinct (eb_closed_order b) \<and>
     (\<forall>r. r \<in> set (eb_closed_order b) \<longleftrightarrow>
        (\<exists>i. map_of (eb_channels b) r = Some i \<and> ch_closed (eb_heap b i))) \<and>
     length (eb_finished b) \<le> MAX_FINISHED_RUN_IDS"

definition cap_ok :: "event_bus \<Rightarrow> bool" where
  "cap_ok b \<longleftrightarrow>
     length (eb_closed_order b) \<le> eb_max_retained_runs b \<or>
     (\<forall>r \<in> set (eb_closed_order b). 0 < subscriber_count r b)"

definition bus_core :: "bus_system \<Rightarrow> bool" where
  "bus_core S \<longleftrightarrow>
     buffers_ok S \<and> objects_ok S \<and> readers_ok S \<and> subs_ok S \<and> waiters_ok S \<and> order_ok (sy_bus S)"

lemmas core_defs = bus_core_def buffers_ok_def objects_ok_def readers_ok_def waiters_ok_def order_ok_def dropped_def

section \<open>Releasing channels\<close>

lemma core_sub: "bus_core S \<Longrightarrow> sy_subs S k = Some u \<Longrightarrow> sub_ok S k u"
  by (simp add: bus_core_def subs_ok_def)

lemma core_waiter:
  assumes "bus_core S" "k \<in> set (ch_waiters (obj S i))"
  shows "\<not> ch_closed (obj S i)"
    and "map_of (ch_readers (obj S i)) k = Some (int (length (ch_frames (obj S i))))"
    and "\<exists>u. sy_subs S k = Some u \<and> sb_state u = Waiting \<and> sb_object u = i"
  using assms by (simp_all add: bus_core_def waiters_ok_def)

lemma core_reader:
  assumes "bus_core S" "sy_subs S k = Some u" "sub_attached u"
  obtains c where "reader_position S k u c"
  using core_sub [OF assms(1,2)] assms(3) by (auto simp: sub_ok_def)

text \<open>A reader keeps its run's channel in the map.\<close>

lemma attached_subscribed:
  assumes "bus_core S" "sy_subs S k = Some u" "sub_attached u"
  shows "0 < subscriber_count (sb_run u) (sy_bus S)"
proof -
  obtain c where "reader_position S k u c" by (rule core_reader [OF assms])
  then have c: "map_of (eb_channels (sy_bus S)) (sb_run u) = Some (sb_object u)"
    "ch_readers (obj S (sb_object u)) \<noteq> []"
    by (auto simp: reader_position_def)
  have "ch_subscribers (obj S (sb_object u)) = length (ch_readers (obj S (sb_object u)))"
    using assms(1) by (simp add: bus_core_def readers_ok_def)
  with c show ?thesis by (simp add: subscriber_count_def)
qed

text \<open>Dropping the channel of a run without readers leaves everything else as it was.\<close>

lemma drop_channel_core:
  assumes core: "bus_core S" and none: "subscriber_count r (sy_bus S) = 0"
    and b: "eb_heap b = eb_heap (sy_bus S)" "eb_next b = eb_next (sy_bus S)"
      "eb_channels b = jm_delete r (eb_channels (sy_bus S))"
      "eb_max_frames_per_run b = eb_max_frames_per_run (sy_bus S)"
    and order: "order_ok b"
  shows "bus_core (S\<lparr>sy_bus := b\<rparr>)"
proof -
  have "sub_ok (S\<lparr>sy_bus := b\<rparr>) k u" if u: "sy_subs S k = Some u" for k u
  proof -
    have "sb_run u \<noteq> r" if "sub_attached u"
      using attached_subscribed [OF core u that] none by force
    then show ?thesis
      using core_sub [OF core u] b by (auto simp: sub_ok_def reader_position_def dropped_def jm_get_delete)
  qed
  then have "subs_ok (S\<lparr>sy_bus := b\<rparr>)" by (simp add: subs_ok_def)
  moreover have "objects_ok (S\<lparr>sy_bus := b\<rparr>)"
    using core b by (auto simp: bus_core_def objects_ok_def AList.delete_eq intro: jm_wf_filter inj_on_subset)
  ultimately show ?thesis
    using core b order by (simp add: bus_core_def buffers_ok_def dropped_def readers_ok_def waiters_ok_def)
qed

lemma release_core:
  assumes core: "bus_core S" and none: "subscriber_count r (sy_bus S) = 0"
  shows "bus_core (S\<lparr>sy_bus := bus_release r now (sy_bus S)\<rparr>)"
proof (rule drop_channel_core [OF core none])
  show "order_ok (bus_release r now (sy_bus S))"
    using core release_finished_bound [of r now "sy_bus S"]
    by (auto simp: bus_core_def order_ok_def jm_get_delete distinct_removeAll)
qed simp_all

lemma evict_loop_core:
  assumes "bus_core S"
  shows "bus_core (S\<lparr>sy_bus := evict_loop rs now (sy_bus S)\<rparr>)"
  using assms
proof (induction rs arbitrary: S)
  case (Cons r rs)
  show ?case
    using Cons.prems Cons.IH [OF Cons.prems] Cons.IH [OF release_core [OF Cons.prems, of r now]]
    by auto
qed simp

lemma evict_loop_cap:
  assumes "eb_closed_order b = seen @ rs" "distinct (seen @ rs)" "\<forall>r \<in> set seen. 0 < subscriber_count r b"
  shows "cap_ok (evict_loop rs now b)"
  using assms
proof (induction rs arbitrary: seen b)
  case Nil
  then show ?case by (simp add: cap_ok_def)
next
  case (Cons r rs)
  have kept: "eb_closed_order (bus_release r now b) = seen @ rs"
    using Cons.prems(1,2) by (simp add: removeAll_append)
  have "0 < subscriber_count q (bus_release r now b)" if "q \<in> set seen" for q
  proof -
    have "q \<noteq> r" using Cons.prems(2) that by auto
    then show ?thesis using Cons.prems(3) that by (simp add: release_subscribers)
  qed
  then show ?case
    using Cons.IH [OF kept] Cons.IH [of b "seen @ [r]"] Cons.prems by (auto simp: cap_ok_def)
qed

lemma evict_core:
  assumes "bus_core S"
  shows "bus_core (S\<lparr>sy_bus := evict_closed_beyond_cap now (sy_bus S)\<rparr>)"
    and "cap_ok (evict_closed_beyond_cap now (sy_bus S))"
  using evict_loop_core [OF assms] evict_loop_cap [of "sy_bus S" "[]"] assms
  by (simp_all add: evict_closed_beyond_cap_def bus_core_def order_ok_def)

text \<open>Releasing a channel of the close order keeps the cap.\<close>

lemma release_cap:
  assumes "cap_ok b" "\<And>q. q \<noteq> r \<Longrightarrow> subscriber_count q b' = subscriber_count q b"
    "removeAll r (eb_closed_order b') = removeAll r (eb_closed_order b)"
    "eb_max_retained_runs b' = eb_max_retained_runs b"
  shows "cap_ok (bus_release r now b')"
proof -
  have "length (removeAll r (eb_closed_order b)) \<le> length (eb_closed_order b)"
    by (simp add: removeAll_filter_not_eq)
  moreover have "0 < subscriber_count q (bus_release r now b')"
    if "\<forall>q \<in> set (eb_closed_order b). 0 < subscriber_count q b" "q \<in> set (removeAll r (eb_closed_order b))" for q
    using that assms(2) by (simp add: release_subscribers)
  ultimately show ?thesis
    using assms(1) unfolding cap_ok_def release_fields assms(3,4) by (meson order_trans)
qed

section \<open>Creating a channel\<close>

lemma channel_core:
  assumes core: "bus_core S"
  shows "bus_core (S\<lparr>sy_bus := snd (bus_channel r (sy_bus S))\<rparr>)"
proof (cases "map_of (eb_channels (sy_bus S)) r")
  case None
  let ?b = "snd (bus_channel r (sy_bus S))" and ?n = "eb_next (sy_bus S)"
  have new: "r \<notin> fst ` set (eb_channels (sy_bus S))" using None by (simp add: map_of_eq_None_iff)
  have b: "eb_heap ?b = (eb_heap (sy_bus S))(?n := empty_channel)" "eb_next ?b = Suc ?n"
    "eb_channels ?b = eb_channels (sy_bus S) @ [(r, ?n)]"
    "eb_max_frames_per_run ?b = eb_max_frames_per_run (sy_bus S)"
    "eb_closed_order ?b = eb_closed_order (sy_bus S)" "eb_finished ?b = eb_finished (sy_bus S)"
    using None new by (simp_all add: bus_channel_def jm_set_new)
  have same: "eb_heap ?b = eb_heap (sy_bus S)"
    using core b(1) by (auto simp: bus_core_def objects_ok_def fun_eq_iff)
  have "order_ok ?b"
    using core b same None by (auto simp: bus_core_def order_ok_def objects_ok_def empty_channel_def split: if_splits)
  moreover have "objects_ok (S\<lparr>sy_bus := ?b\<rparr>)"
    using core b same new by (fastforce simp: bus_core_def objects_ok_def inj_on_def)
  moreover have "sub_ok (S\<lparr>sy_bus := ?b\<rparr>) k u" if "sy_subs S k = Some u" for k u
    using core_sub [OF core that] b same None
    by (fastforce simp: sub_ok_def reader_position_def dropped_def map_add_def split: option.split)
  ultimately show ?thesis
    using core same b by (simp add: bus_core_def buffers_ok_def dropped_def readers_ok_def waiters_ok_def subs_ok_def)
qed (use core in \<open>simp add: bus_channel_def\<close>)

lemma channel_allocated: "bus_core S \<Longrightarrow> map_of (eb_channels (sy_bus S)) r = Some i \<Longrightarrow> i < eb_next (sy_bus S)"
  by (fastforce simp: bus_core_def objects_ok_def dest: map_of_SomeD)

lemma channel_cap:
  assumes core: "bus_core S" and cap: "cap_ok (sy_bus S)"
  shows "cap_ok (snd (bus_channel r (sy_bus S)))"
proof (cases "map_of (eb_channels (sy_bus S)) r")
  case None
  have "subscriber_count q (snd (bus_channel r (sy_bus S))) = subscriber_count q (sy_bus S)"
    if "q \<in> set (eb_closed_order (sy_bus S))" for q
  proof -
    have "order_ok (sy_bus S)" using core by (simp add: bus_core_def)
    with that obtain i where i: "map_of (eb_channels (sy_bus S)) q = Some i" unfolding order_ok_def by metis
    then have "i < eb_next (sy_bus S)" "q \<noteq> r" using channel_allocated [OF core] None by auto
    with i None show ?thesis by (simp add: bus_channel_def subscriber_count_def jm_get_set)
  qed
  then show ?thesis using cap None by (auto simp: cap_ok_def bus_channel_def)
qed (use cap in \<open>simp add: bus_channel_def\<close>)

lemma channel_mapped:
  "map_of (eb_channels (snd (bus_channel r b))) r = Some (fst (bus_channel r b))"
  by (simp add: bus_channel_def jm_get_set split: option.split)

section \<open>Publishing\<close>

lemma wanted_append: "n \<le> length xs \<Longrightarrow> wanted u (xs @ ys) n = wanted u xs n"
  by (simp add: wanted_def)

definition push_frame :: "nat \<Rightarrow> run_frame \<Rightarrow> bus_system \<Rightarrow> bus_system" where
  "push_frame i f S =
     S\<lparr>sy_bus := (sy_bus S)\<lparr>eb_heap := (eb_heap (sy_bus S))
           (i := bus_wake (bus_trim (eb_max_frames_per_run (sy_bus S))
                   ((obj S i)\<lparr>ch_frames := ch_frames (obj S i) @ [f]\<rparr>)))\<rparr>,
       sy_log := (sy_log S)(i := sy_log S i @ [f])\<rparr>"

lemma push_frame_buffer:
  assumes "buffers_ok S"
  shows "buffers_ok (push_frame i f S)"
    and "dropped (push_frame i f S) i =
           dropped S i + (Suc (length (ch_frames (obj S i))) - eb_max_frames_per_run (sy_bus S))"
proof -
  let ?fs = "ch_frames (obj S i)" and ?log = "sy_log S i" and ?cap = "eb_max_frames_per_run (sy_bus S)"
  have fs: "?fs = drop (length ?log - length ?fs) ?log" "length ?fs \<le> length ?log" "length ?fs \<le> ?cap"
    using assms by (auto simp: buffers_ok_def dropped_def)
  have frames: "ch_frames (obj (push_frame i f S) i) = drop (Suc (length ?fs) - ?cap) (?fs @ [f])"
    by (simp add: push_frame_def trim_frames)
  then show drop: "dropped (push_frame i f S) i = dropped S i + (Suc (length ?fs) - ?cap)"
    using fs(2,3) by (simp add: dropped_def push_frame_def)
  have "?fs @ [f] = drop (dropped S i) (?log @ [f])"
    using fs by (simp add: dropped_def)
  then have "ch_frames (obj (push_frame i f S) i) = drop (dropped (push_frame i f S) i) (?log @ [f])"
    unfolding frames drop by (metis add.commute drop_drop)
  moreover have log: "sy_log (push_frame i f S) i = ?log @ [f]" by (simp add: push_frame_def)
  moreover have "length (ch_frames (obj (push_frame i f S) i)) \<le> ?cap"
    using trim_bound by (simp add: push_frame_def)
  moreover have "length (ch_frames (obj (push_frame i f S) i)) \<le> length (sy_log (push_frame i f S) i)"
    using fs(2) by (simp add: frames log)
  ultimately have at_i: "ch_frames (obj (push_frame i f S) i) =
      drop (dropped (push_frame i f S) i) (sy_log (push_frame i f S) i)"
    "length (ch_frames (obj (push_frame i f S) i)) \<le> ?cap"
    "length (ch_frames (obj (push_frame i f S) i)) \<le> length (sy_log (push_frame i f S) i)"
    by (simp_all only:)
  show "buffers_ok (push_frame i f S)"
    unfolding buffers_ok_def
  proof (intro allI)
    fix j
    have "eb_max_frames_per_run (sy_bus (push_frame i f S)) = ?cap" by (simp add: push_frame_def)
    moreover have "obj (push_frame i f S) j = obj S j" "sy_log (push_frame i f S) j = sy_log S j"
      "dropped (push_frame i f S) j = dropped S j" if "j \<noteq> i"
      using that by (simp_all add: push_frame_def dropped_def)
    ultimately show "length (ch_frames (obj (push_frame i f S) j)) \<le> eb_max_frames_per_run (sy_bus (push_frame i f S)) \<and>
        length (ch_frames (obj (push_frame i f S) j)) \<le> length (sy_log (push_frame i f S) j) \<and>
        ch_frames (obj (push_frame i f S) j) = drop (dropped (push_frame i f S) j) (sy_log (push_frame i f S) j)"
      using at_i assms unfolding buffers_ok_def by (metis (no_types, lifting))
  qed
qed

lemma push_frame_core:
  assumes core: "bus_core S" and alloc: "i < eb_next (sy_bus S)"
  shows "bus_core (push_frame i f S)"
proof -
  let ?S = "push_frame i f S" and ?over = "Suc (length (ch_frames (obj S i))) - eb_max_frames_per_run (sy_bus S)"
  have buf: "buffers_ok S" using core by (simp add: bus_core_def)
  have same: "sy_subs ?S = sy_subs S" "eb_channels (sy_bus ?S) = eb_channels (sy_bus S)"
    "eb_next (sy_bus ?S) = eb_next (sy_bus S)" "eb_closed_order (sy_bus ?S) = eb_closed_order (sy_bus S)"
    "eb_finished (sy_bus ?S) = eb_finished (sy_bus S)"
    "\<And>j. ch_closed (obj ?S j) = ch_closed (obj S j)"
    "\<And>j. ch_subscribers (obj ?S j) = ch_subscribers (obj S j)"
    "\<And>j. map fst (ch_readers (obj ?S j)) = map fst (ch_readers (obj S j))"
    "\<And>j. j \<noteq> i \<Longrightarrow> obj ?S j = obj S j" "\<And>j. j \<noteq> i \<Longrightarrow> sy_log ?S j = sy_log S j"
    "ch_waiters (obj ?S i) = []" "sy_log ?S i = sy_log S i @ [f]"
    "\<And>k. map_of (ch_readers (obj ?S i)) k = map_option (\<lambda>c. c - int ?over) (map_of (ch_readers (obj S i)) k)"
    by (auto simp: push_frame_def trim_reader)
  have keys: "fst ` set (ch_readers (obj ?S j)) = fst ` set (ch_readers (obj S j))"
    "length (ch_readers (obj ?S j)) = length (ch_readers (obj S j))"
    "jm_wf (ch_readers (obj ?S j)) = jm_wf (ch_readers (obj S j))" for j
    using same(8) [of j] by (metis list.set_map, metis length_map, metis)
  have "sub_ok ?S k u" if u: "sy_subs S k = Some u" for k u
  proof (cases "sub_attached u")
    case True
    obtain c where c: "reader_position S k u c" by (rule core_reader [OF core u True])
    show ?thesis
    proof (cases "sb_object u = i")
      case obj: True
      have over: "dropped ?S i = dropped S i + ?over" using push_frame_buffer(2) [OF buf] by simp
      have "nat (int (dropped S i) + c) \<le> length (sy_log S i)"
        using c obj by (simp add: reader_position_def nat_le_iff)
      then have "reader_position ?S k u (c - int ?over)"
        using c obj by (simp add: reader_position_def same over wanted_append)
      then show ?thesis using True by (auto simp: sub_ok_def)
    next
      case False
      then have "reader_position ?S k u c" using c by (simp add: reader_position_def same dropped_def)
      then show ?thesis using True by (auto simp: sub_ok_def)
    qed
  next
    case False
    then obtain n where "n \<le> length (sy_log S (sb_object u))" "sb_delivered u = wanted u (sy_log S (sb_object u)) n"
      using core_sub [OF core u] by (auto simp: sub_ok_def)
    with False show ?thesis
      by (cases "sb_object u = i") (auto simp: sub_ok_def same wanted_append intro!: exI [of _ n])
  qed
  then have "subs_ok ?S" by (simp add: subs_ok_def same)
  moreover have "objects_ok ?S"
    using core alloc by (auto simp: bus_core_def objects_ok_def same)
  moreover have "readers_ok ?S"
    using core by (simp add: bus_core_def readers_ok_def same keys)
  moreover have "waiters_ok ?S"
    unfolding waiters_ok_def
  proof (intro allI)
    fix j
    show "\<forall>k \<in> set (ch_waiters (obj ?S j)). \<not> ch_closed (obj ?S j) \<and>
        map_of (ch_readers (obj ?S j)) k = Some (int (length (ch_frames (obj ?S j)))) \<and>
        (\<exists>u. sy_subs ?S k = Some u \<and> sb_state u = Waiting \<and> sb_object u = j)"
      using core by (cases "j = i") (simp_all add: same bus_core_def waiters_ok_def)
  qed
  moreover have "order_ok (sy_bus ?S)"
    using core by (simp add: bus_core_def order_ok_def same)
  ultimately show ?thesis using push_frame_buffer(1) [OF buf] by (simp add: bus_core_def)
qed

lemma sys_publish_eq:
  "sys_publish r f S = push_frame (fst (bus_channel r (sy_bus S))) f (S\<lparr>sy_bus := snd (bus_channel r (sy_bus S))\<rparr>)"
  by (simp add: sys_publish_def push_frame_def bus_publish_def case_prod_beta Let_def)

lemma push_frame_cap: "cap_ok (sy_bus (push_frame i f S)) = cap_ok (sy_bus S)"
proof -
  have "subscriber_count q (sy_bus (push_frame i f S)) = subscriber_count q (sy_bus S)" for q
    by (simp add: subscriber_count_def push_frame_def split: option.split)
  then show ?thesis by (simp add: cap_ok_def) (simp add: push_frame_def)
qed

section \<open>Closing\<close>

definition mark_closed :: "ident \<Rightarrow> nat \<Rightarrow> event_bus \<Rightarrow> event_bus" where
  "mark_closed r i b =
     b\<lparr>eb_heap := (eb_heap b)(i := bus_wake ((eb_heap b i)\<lparr>ch_closed := True\<rparr>)),
       eb_closed_order := (if r \<in> set (eb_closed_order b) then eb_closed_order b else eb_closed_order b @ [r])\<rparr>"

lemma mark_closed_fields:
  "eb_channels (mark_closed r i b) = eb_channels b" "eb_next (mark_closed r i b) = eb_next b"
  "eb_finished (mark_closed r i b) = eb_finished b"
  "eb_max_frames_per_run (mark_closed r i b) = eb_max_frames_per_run b"
  "eb_max_retained_runs (mark_closed r i b) = eb_max_retained_runs b"
  "ch_frames (eb_heap (mark_closed r i b) j) = ch_frames (eb_heap b j)"
  "ch_readers (eb_heap (mark_closed r i b) j) = ch_readers (eb_heap b j)"
  "ch_subscribers (eb_heap (mark_closed r i b) j) = ch_subscribers (eb_heap b j)"
  "ch_closed (eb_heap (mark_closed r i b) j) \<longleftrightarrow> j = i \<or> ch_closed (eb_heap b j)"
  "ch_waiters (eb_heap (mark_closed r i b) j) = (if j = i then [] else ch_waiters (eb_heap b j))"
  "subscriber_count q (mark_closed r i b) = subscriber_count q b"
  by (simp_all add: mark_closed_def subscriber_count_def split: option.split)

lemma mapped_once:
  assumes "bus_core S" "map_of (eb_channels (sy_bus S)) r = Some i" "map_of (eb_channels (sy_bus S)) q = Some i"
  shows "q = r"
  using assms by (auto simp: bus_core_def objects_ok_def inj_on_def dest!: map_of_SomeD) fastforce

lemma mark_closed_core:
  assumes core: "bus_core S" and i: "map_of (eb_channels (sy_bus S)) r = Some i"
  shows "bus_core (S\<lparr>sy_bus := mark_closed r i (sy_bus S)\<rparr>)"
proof -
  let ?S = "S\<lparr>sy_bus := mark_closed r i (sy_bus S)\<rparr>"
  have alloc: "i < eb_next (sy_bus S)" by (rule channel_allocated [OF core i])
  have same: "dropped ?S = dropped S"
    by (simp add: dropped_def fun_eq_iff mark_closed_fields)
  have "reader_position ?S k u = reader_position S k u" for k u
    by (simp add: fun_eq_iff reader_position_def mark_closed_fields same)
  then have "sub_ok ?S k u = sub_ok S k u" for k u by (simp add: sub_ok_def)
  then have "subs_ok ?S" using core by (simp add: bus_core_def subs_ok_def)
  moreover have "objects_ok ?S"
  proof -
    have "eb_heap (sy_bus ?S) j = eb_heap (sy_bus S) j" if "eb_next (sy_bus S) \<le> j" for j
      using that alloc by (simp add: mark_closed_def)
    then show ?thesis using core by (simp add: bus_core_def objects_ok_def mark_closed_fields)
  qed
  moreover have "order_ok (sy_bus ?S)"
  proof -
    have "distinct (eb_closed_order (sy_bus ?S))" "set (eb_closed_order (sy_bus ?S)) = insert r (set (eb_closed_order (sy_bus S)))"
      using core by (auto simp: bus_core_def order_ok_def mark_closed_def)
    moreover have "(q = r \<or> q \<in> set (eb_closed_order (sy_bus S))) \<longleftrightarrow>
        (\<exists>j. map_of (eb_channels (sy_bus S)) q = Some j \<and> (j = i \<or> ch_closed (obj S j)))" for q
    proof (cases "q = r")
      case False
      then have "map_of (eb_channels (sy_bus S)) q \<noteq> Some i" using mapped_once [OF core i] by blast
      with False show ?thesis using core unfolding bus_core_def order_ok_def by metis
    qed (use i in simp)
    ultimately show ?thesis
      using core by (simp add: bus_core_def order_ok_def mark_closed_fields)
  qed
  moreover have "buffers_ok ?S = buffers_ok S" unfolding buffers_ok_def by (simp add: mark_closed_fields same)
  moreover have "waiters_ok ?S" using core by (simp add: bus_core_def waiters_ok_def mark_closed_fields)
  moreover have "readers_ok ?S = readers_ok S" unfolding readers_ok_def by (simp add: mark_closed_fields)
  ultimately show ?thesis
    using core by (simp add: bus_core_def)
qed

lemma bus_close_eq:
  "bus_close r now b =
     (if \<not> jm_has (eb_channels b) r \<and> jm_has (eb_finished b) r then b
      else let b2 = mark_closed r (fst (bus_channel r b)) (snd (bus_channel r b));
               ch = eb_heap b2 (fst (bus_channel r b))
           in if ch_frames ch = [] \<and> ch_subscribers ch = 0 then bus_release r now b2
              else evict_closed_beyond_cap now b2)"
  by (simp add: bus_close_def mark_closed_def Let_def case_prod_beta)

lemma sys_close_inv:
  assumes core: "bus_core S" and cap: "cap_ok (sy_bus S)"
  shows "bus_core (sys_close r now S) \<and> cap_ok (sy_bus (sys_close r now S))"
proof (cases "\<not> jm_has (eb_channels (sy_bus S)) r \<and> jm_has (eb_finished (sy_bus S)) r")
  case False
  let ?i = "fst (bus_channel r (sy_bus S))" and ?b1 = "snd (bus_channel r (sy_bus S))"
  let ?b2 = "mark_closed r ?i ?b1"
  have core1: "bus_core (S\<lparr>sy_bus := ?b1\<rparr>)" by (rule channel_core [OF core])
  have i: "map_of (eb_channels ?b1) r = Some ?i" by (rule channel_mapped)
  have core2: "bus_core (S\<lparr>sy_bus := ?b2\<rparr>)" using mark_closed_core [OF core1] i by simp
  have count: "subscriber_count r ?b2 = ch_subscribers (eb_heap ?b2 ?i)"
    by (simp add: subscriber_count_def i mark_closed_fields)
  have "removeAll r (eb_closed_order ?b2) = removeAll r (eb_closed_order ?b1)"
    by (simp add: mark_closed_def)
  then have cap2: "cap_ok (bus_release r now ?b2)"
    using channel_cap [OF core cap, of r] by (intro release_cap [of ?b1]) (simp_all add: mark_closed_fields)
  show ?thesis
  proof (cases "ch_frames (eb_heap ?b2 ?i) = [] \<and> ch_subscribers (eb_heap ?b2 ?i) = 0")
    case True
    have "bus_core (S\<lparr>sy_bus := bus_release r now ?b2\<rparr>)"
      using release_core [OF core2, of r now] True count by simp
    with cap2 True show ?thesis unfolding sys_close_def bus_close_eq if_not_P [OF False] Let_def by simp
  next
    case gone: False
    have "bus_core (S\<lparr>sy_bus := evict_closed_beyond_cap now ?b2\<rparr>)" "cap_ok (evict_closed_beyond_cap now ?b2)"
      using evict_core [OF core2, of now] by simp_all
    then show ?thesis
      unfolding sys_close_def bus_close_eq if_not_P [OF False] Let_def if_not_P [OF gone] by simp
  qed
qed (use assms in \<open>simp add: sys_close_def bus_close_eq\<close>)

section \<open>Attaching\<close>

definition attach_reader :: "nat \<Rightarrow> nat \<Rightarrow> event_bus \<Rightarrow> event_bus" where
  "attach_reader k i b =
     b\<lparr>eb_heap := (eb_heap b)
         (i := (eb_heap b i)\<lparr>ch_subscribers := Suc (ch_subscribers (eb_heap b i)),
                            ch_readers := jm_set k 0 (ch_readers (eb_heap b i))\<rparr>)\<rparr>"

lemma attach_reader_fields:
  "eb_channels (attach_reader k i b) = eb_channels b" "eb_next (attach_reader k i b) = eb_next b"
  "eb_finished (attach_reader k i b) = eb_finished b" "eb_closed_order (attach_reader k i b) = eb_closed_order b"
  "eb_max_frames_per_run (attach_reader k i b) = eb_max_frames_per_run b"
  "eb_max_retained_runs (attach_reader k i b) = eb_max_retained_runs b"
  "ch_frames (eb_heap (attach_reader k i b) j) = ch_frames (eb_heap b j)"
  "ch_waiters (eb_heap (attach_reader k i b) j) = ch_waiters (eb_heap b j)"
  "ch_closed (eb_heap (attach_reader k i b) j) = ch_closed (eb_heap b j)"
  "ch_readers (eb_heap (attach_reader k i b) j) =
     (if j = i then jm_set k 0 (ch_readers (eb_heap b i)) else ch_readers (eb_heap b j))"
  "ch_subscribers (eb_heap (attach_reader k i b) j) =
     (if j = i then Suc (ch_subscribers (eb_heap b i)) else ch_subscribers (eb_heap b j))"
  by (simp_all add: attach_reader_def)

lemma bus_attach_eq:
  "bus_attach k r b =
     (if \<not> jm_has (eb_channels b) r \<and> jm_has (eb_finished b) r then (None, b)
      else (Some (fst (bus_channel r b)), attach_reader k (fst (bus_channel r b)) (snd (bus_channel r b))))"
  by (simp add: bus_attach_def attach_reader_def Let_def case_prod_beta)

lemma unknown_not_reading:
  assumes "bus_core S" "sy_subs S k = None"
  shows "k \<notin> fst ` set (ch_readers (obj S i))" "k \<notin> set (ch_waiters (obj S i))"
  using assms by (auto simp: bus_core_def readers_ok_def waiters_ok_def) fastforce+

lemma attach_core:
  assumes core: "bus_core S" and i: "map_of (eb_channels (sy_bus S)) r = Some i" and k: "sy_subs S k = None"
  shows "bus_core (S\<lparr>sy_bus := attach_reader k i (sy_bus S),
                    sy_subs := (sy_subs S)(k \<mapsto> new_sub r a i (dropped S i))\<rparr>)"
proof -
  let ?u = "new_sub r a i (dropped S i)"
  let ?S = "S\<lparr>sy_bus := attach_reader k i (sy_bus S), sy_subs := (sy_subs S)(k \<mapsto> ?u)\<rparr>"
  have alloc: "i < eb_next (sy_bus S)" by (rule channel_allocated [OF core i])
  have same: "dropped ?S = dropped S" by (simp add: dropped_def fun_eq_iff attach_reader_fields)
  note not_reading = unknown_not_reading [OF core k]
  have "reader_position ?S k ?u 0"
    by (simp add: reader_position_def new_sub_def attach_reader_fields i jm_get_set same wanted_def)
      (simp add: dropped_def attach_reader_fields)
  then have "sub_ok ?S k ?u" by (auto simp: sub_ok_def sub_attached_def new_sub_def)
  moreover have "sub_ok ?S j u" if "sy_subs S j = Some u" for j u
  proof -
    have "j \<noteq> k" using that k by auto
    then have "reader_position ?S j u = reader_position S j u"
      by (simp add: fun_eq_iff reader_position_def attach_reader_fields jm_get_set same)
    then show ?thesis using core_sub [OF core that] by (simp add: sub_ok_def)
  qed
  ultimately have "subs_ok ?S" by (simp add: subs_ok_def)
  moreover have "objects_ok ?S"
  proof -
    have "eb_heap (attach_reader k i (sy_bus S)) j = obj S j" if "eb_next (sy_bus S) \<le> j" for j
      using that alloc by (simp add: attach_reader_def)
    then show ?thesis using core by (simp add: bus_core_def objects_ok_def attach_reader_fields)
  qed
  moreover have "readers_ok ?S"
    unfolding readers_ok_def
  proof (intro allI)
    fix j
    have old: "jm_wf (ch_readers (obj S j))" "ch_subscribers (obj S j) = length (ch_readers (obj S j))"
      "\<forall>q \<in> fst ` set (ch_readers (obj S j)). q \<noteq> k \<and> (\<exists>u. sy_subs S q = Some u \<and> sub_attached u \<and> sb_object u = j)"
      using core unknown_not_reading(1) [OF core k] by (auto simp: bus_core_def readers_ok_def)
    show "jm_wf (ch_readers (obj ?S j)) \<and> ch_subscribers (obj ?S j) = length (ch_readers (obj ?S j)) \<and>
        (\<forall>q \<in> fst ` set (ch_readers (obj ?S j)). \<exists>u. sy_subs ?S q = Some u \<and> sub_attached u \<and> sb_object u = j)"
      using old not_reading(1) [of j]
      by (cases "j = i") (simp_all add: attach_reader_fields jm_set_new new_sub_def sub_attached_def)
  qed
  moreover have "waiters_ok ?S"
    unfolding waiters_ok_def
  proof (intro allI ballI)
    fix j q
    assume "q \<in> set (ch_waiters (obj ?S j))"
    then have q: "q \<in> set (ch_waiters (obj S j))" by (simp add: attach_reader_fields)
    then have "q \<noteq> k" using not_reading(2) by blast
    with core_waiter [OF core q] show "\<not> ch_closed (obj ?S j) \<and>
        map_of (ch_readers (obj ?S j)) q = Some (int (length (ch_frames (obj ?S j)))) \<and>
        (\<exists>u. sy_subs ?S q = Some u \<and> sb_state u = Waiting \<and> sb_object u = j)"
      by (auto simp: attach_reader_fields jm_get_set)
  qed
  moreover have "buffers_ok ?S = buffers_ok S" unfolding buffers_ok_def by (simp add: attach_reader_fields same)
  moreover have "order_ok (sy_bus ?S) = order_ok (sy_bus S)" unfolding order_ok_def by (simp add: attach_reader_fields)
  ultimately show ?thesis
    using core by (simp add: bus_core_def)
qed

lemma attach_cap: "cap_ok b \<Longrightarrow> cap_ok (attach_reader k i b)"
  by (auto simp: cap_ok_def subscriber_count_def attach_reader_fields split: option.splits)

section \<open>Reading\<close>

lemma wanted_extend:
  assumes "sb_start u \<le> n" "n \<le> length xs"
  shows "wanted u xs (n + m) = wanted u xs n @ filter (\<lambda>f. sb_after u < fr_seq f) (take m (drop n xs))"
  using assms by (simp add: wanted_def take_add)

text \<open>A reader's position moves forward, and the reader may join the waiters at the end of an open buffer.\<close>

definition move_reader :: "nat \<Rightarrow> nat \<Rightarrow> int \<Rightarrow> bool \<Rightarrow> event_bus \<Rightarrow> event_bus" where
  "move_reader k i c parks b =
     b\<lparr>eb_heap := (eb_heap b)
         (i := (eb_heap b i)\<lparr>ch_readers := jm_set k c (ch_readers (eb_heap b i)),
                            ch_waiters := ch_waiters (eb_heap b i) @ (if parks then [k] else [])\<rparr>)\<rparr>"

lemma move_reader_fields:
  "eb_channels (move_reader k i c parks b) = eb_channels b" "eb_next (move_reader k i c parks b) = eb_next b"
  "eb_finished (move_reader k i c parks b) = eb_finished b"
  "eb_closed_order (move_reader k i c parks b) = eb_closed_order b"
  "eb_max_frames_per_run (move_reader k i c parks b) = eb_max_frames_per_run b"
  "eb_max_retained_runs (move_reader k i c parks b) = eb_max_retained_runs b"
  "ch_frames (eb_heap (move_reader k i c parks b) j) = ch_frames (eb_heap b j)"
  "ch_closed (eb_heap (move_reader k i c parks b) j) = ch_closed (eb_heap b j)"
  "ch_subscribers (eb_heap (move_reader k i c parks b) j) = ch_subscribers (eb_heap b j)"
  "ch_readers (eb_heap (move_reader k i c parks b) j) =
     (if j = i then jm_set k c (ch_readers (eb_heap b i)) else ch_readers (eb_heap b j))"
  "ch_waiters (eb_heap (move_reader k i c parks b) j) =
     (if j = i \<and> parks then ch_waiters (eb_heap b i) @ [k] else ch_waiters (eb_heap b j))"
  "subscriber_count q (move_reader k i c parks b) = subscriber_count q b"
  by (simp_all add: move_reader_def subscriber_count_def split: option.split)

lemma move_reader_cap: "cap_ok (move_reader k i c parks b) = cap_ok b"
  by (simp add: cap_ok_def move_reader_fields)

lemma jm_set_same_keys:
  assumes "map_of m k = Some v"
  shows "fst ` set (jm_set k w m) = fst ` set m" "length (jm_set k w m) = length m"
proof -
  have "k \<in> fst ` set m" using assms by (metis jm_has_dom jm_has_iff)
  then show "fst ` set (jm_set k w m) = fst ` set m" "length (jm_set k w m) = length m"
    by (auto simp: jm_keys_set jm_set_length)
qed

lemma move_reader_core:
  assumes core: "bus_core S" and u: "sy_subs S k = Some u"
    and at: "reader_position S k u c" and free: "k \<notin> set (ch_waiters (obj S (sb_object u)))"
    and u': "sub_attached u'" "sb_run u' = sb_run u" "sb_object u' = sb_object u" "sb_start u' = sb_start u"
      "sb_after u' = sb_after u"
    and moves: "0 \<le> c" "c \<le> c'" "c' \<le> int (length (ch_frames (obj S (sb_object u))))"
      "sb_delivered u' = sb_delivered u @ filter (\<lambda>f. sb_after u < fr_seq f)
          (take (nat (c' - c)) (drop (nat c) (ch_frames (obj S (sb_object u)))))"
    and parks: "parks \<Longrightarrow> sb_state u' = Waiting \<and> \<not> ch_closed (obj S (sb_object u)) \<and>
        c' = int (length (ch_frames (obj S (sb_object u))))"
  shows "bus_core (S\<lparr>sy_bus := move_reader k (sb_object u) c' parks (sy_bus S), sy_subs := (sy_subs S)(k \<mapsto> u')\<rparr>)"
proof -
  let ?i = "sb_object u" and ?b = "move_reader k (sb_object u) c' parks (sy_bus S)"
  let ?S = "S\<lparr>sy_bus := ?b, sy_subs := (sy_subs S)(k \<mapsto> u')\<rparr>"
  let ?fs = "ch_frames (obj S ?i)" and ?log = "sy_log S ?i"
  have same: "dropped ?S = dropped S" by (simp add: dropped_def fun_eq_iff move_reader_fields)
  have fs: "?fs = drop (dropped S ?i) ?log" "length ?fs \<le> length ?log"
    using core by (auto simp: bus_core_def buffers_ok_def)
  have lens: "dropped S ?i + length ?fs = length ?log" using fs(2) by (simp add: dropped_def)
  have pos: "map_of (eb_channels (sy_bus S)) (sb_run u) = Some ?i" "map_of (ch_readers (obj S ?i)) k = Some c"
    "int (sb_start u) \<le> int (dropped S ?i) + c" "sb_delivered u = wanted u ?log (nat (int (dropped S ?i) + c))"
    using at by (simp_all add: reader_position_def)
  have wanted': "wanted u' = wanted u" using u' by (simp add: wanted_def fun_eq_iff)
  have "wanted u ?log (nat (int (dropped S ?i) + c')) = sb_delivered u'"
  proof -
    have split: "nat (int (dropped S ?i) + c') = nat (int (dropped S ?i) + c) + nat (c' - c)"
      "nat (int (dropped S ?i) + c) = dropped S ?i + nat c"
      using moves by linarith+
    have "sb_start u \<le> nat (int (dropped S ?i) + c)" "nat (int (dropped S ?i) + c) \<le> length ?log"
      using pos(3) moves lens by linarith+
    moreover have "drop (nat (int (dropped S ?i) + c)) ?log = drop (nat c) ?fs"
      unfolding split(2) by (subst fs(1)) (simp add: add.commute)
    ultimately show ?thesis
      unfolding split(1) by (subst wanted_extend) (simp_all add: moves(4) pos(4))
  qed
  then have "reader_position ?S k u' c'"
    using pos moves lens by (simp add: reader_position_def u' wanted' same move_reader_fields jm_get_set)
  then have "sub_ok ?S k u'" using u'(1) by (auto simp: sub_ok_def)
  moreover have "sub_ok ?S j w" if "sy_subs S j = Some w" "j \<noteq> k" for j w
  proof -
    have "reader_position ?S j w = reader_position S j w"
      using that(2) by (simp add: fun_eq_iff reader_position_def move_reader_fields jm_get_set same)
    then show ?thesis using core_sub [OF core that(1)] by (simp add: sub_ok_def)
  qed
  ultimately have "subs_ok ?S" by (simp add: subs_ok_def)
  moreover have "objects_ok ?S"
  proof -
    have "eb_heap ?b j = obj S j" if "eb_next (sy_bus S) \<le> j" for j
      using that channel_allocated [OF core pos(1)] by (simp add: move_reader_def)
    then show ?thesis using core by (simp add: bus_core_def objects_ok_def move_reader_fields)
  qed
  moreover have "readers_ok ?S"
    unfolding readers_ok_def
  proof (intro allI)
    fix j
    have old: "jm_wf (ch_readers (obj S j))" "ch_subscribers (obj S j) = length (ch_readers (obj S j))"
      "\<forall>q \<in> fst ` set (ch_readers (obj S j)). \<exists>w. sy_subs S q = Some w \<and> sub_attached w \<and> sb_object w = j"
      using core by (auto simp: bus_core_def readers_ok_def)
    have keys: "fst ` set (ch_readers (obj ?S j)) = fst ` set (ch_readers (obj S j))"
      "length (ch_readers (obj ?S j)) = length (ch_readers (obj S j))" "jm_wf (ch_readers (obj ?S j))"
      using jm_set_same_keys [OF pos(2), of c'] old(1) by (auto simp: move_reader_fields intro: jm_wf_set)
    show "jm_wf (ch_readers (obj ?S j)) \<and> ch_subscribers (obj ?S j) = length (ch_readers (obj ?S j)) \<and>
        (\<forall>q \<in> fst ` set (ch_readers (obj ?S j)). \<exists>w. sy_subs ?S q = Some w \<and> sub_attached w \<and> sb_object w = j)"
      using keys old u u' by (auto simp: move_reader_fields)
  qed
  moreover have "waiters_ok ?S"
    unfolding waiters_ok_def
  proof (intro allI ballI)
    fix j q
    assume q: "q \<in> set (ch_waiters (obj ?S j))"
    show "\<not> ch_closed (obj ?S j) \<and>
        map_of (ch_readers (obj ?S j)) q = Some (int (length (ch_frames (obj ?S j)))) \<and>
        (\<exists>w. sy_subs ?S q = Some w \<and> sb_state w = Waiting \<and> sb_object w = j)"
    proof (cases "q = k")
      case False
      then have "q \<in> set (ch_waiters (obj S j))" using q by (auto simp: move_reader_fields split: if_splits)
      from core_waiter [OF core this] False show ?thesis by (auto simp: move_reader_fields jm_get_set)
    next
      case True
      have "j = ?i \<and> parks"
      proof (rule ccontr)
        assume "\<not> (j = ?i \<and> parks)"
        then have in_j: "k \<in> set (ch_waiters (obj S j))" using q True by (auto simp: move_reader_fields split: if_splits)
        then have "sb_object u = j" using core_waiter(3) [OF core] u by fastforce
        with in_j free show False by simp
      qed
      with parks u' True show ?thesis by (simp add: move_reader_fields jm_get_set)
    qed
  qed
  moreover have "buffers_ok ?S = buffers_ok S" unfolding buffers_ok_def by (simp add: move_reader_fields same)
  moreover have "order_ok (sy_bus ?S) = order_ok (sy_bus S)" unfolding order_ok_def by (simp add: move_reader_fields)
  ultimately show ?thesis using core by (simp add: bus_core_def)
qed

section \<open>Detaching\<close>

definition remove_reader :: "nat \<Rightarrow> nat \<Rightarrow> event_bus \<Rightarrow> event_bus" where
  "remove_reader k i b =
     b\<lparr>eb_heap := (eb_heap b)
         (i := (eb_heap b i)\<lparr>ch_subscribers := ch_subscribers (eb_heap b i) - 1,
                            ch_readers := jm_delete k (ch_readers (eb_heap b i))\<rparr>)\<rparr>"

lemma remove_reader_fields:
  "eb_channels (remove_reader k i b) = eb_channels b" "eb_next (remove_reader k i b) = eb_next b"
  "eb_finished (remove_reader k i b) = eb_finished b" "eb_closed_order (remove_reader k i b) = eb_closed_order b"
  "eb_max_frames_per_run (remove_reader k i b) = eb_max_frames_per_run b"
  "eb_max_retained_runs (remove_reader k i b) = eb_max_retained_runs b"
  "ch_frames (eb_heap (remove_reader k i b) j) = ch_frames (eb_heap b j)"
  "ch_waiters (eb_heap (remove_reader k i b) j) = ch_waiters (eb_heap b j)"
  "ch_closed (eb_heap (remove_reader k i b) j) = ch_closed (eb_heap b j)"
  "ch_readers (eb_heap (remove_reader k i b) j) =
     (if j = i then jm_delete k (ch_readers (eb_heap b i)) else ch_readers (eb_heap b j))"
  "ch_subscribers (eb_heap (remove_reader k i b) j) =
     (if j = i then ch_subscribers (eb_heap b i) - 1 else ch_subscribers (eb_heap b j))"
  by (simp_all add: remove_reader_def)

lemma bus_detach_eq:
  "bus_detach k r i now b =
     (let b1 = remove_reader k i b; ch = eb_heap b1 i
      in if ch_subscribers ch \<noteq> 0 then b1
         else if ch_frames ch = [] then
           (if ch_closed ch then bus_release r now b1
            else b1\<lparr>eb_channels := jm_delete r (eb_channels b1)\<rparr>)
         else if ch_closed ch then evict_closed_beyond_cap now b1
         else b1)"
  by (simp add: bus_detach_def remove_reader_def Let_def)

lemma jm_delete_length:
  assumes "jm_wf m" "k \<in> fst ` set m"
  shows "length (jm_delete k m) = length m - 1"
proof -
  have "length (jm_delete k m) = card (fst ` set (jm_delete k m))" "length m = card (fst ` set m)"
    using assms(1) by (metis distinct_card jm_wf_delete length_map list.set_map)+
  then show ?thesis using assms(2) by (simp add: jm_keys_delete)
qed

lemma remove_reader_core:
  assumes core: "bus_core S" and u: "sy_subs S k = Some u"
    and at: "reader_position S k u c" and free: "k \<notin> set (ch_waiters (obj S (sb_object u)))"
    and u': "\<not> sub_attached u'" "sb_object u' = sb_object u" "sb_start u' = sb_start u" "sb_after u' = sb_after u"
      "sb_delivered u' = sb_delivered u"
  shows "bus_core (S\<lparr>sy_bus := remove_reader k (sb_object u) (sy_bus S), sy_subs := (sy_subs S)(k \<mapsto> u')\<rparr>)"
proof -
  let ?i = "sb_object u" and ?b = "remove_reader k (sb_object u) (sy_bus S)"
  let ?S = "S\<lparr>sy_bus := ?b, sy_subs := (sy_subs S)(k \<mapsto> u')\<rparr>"
  have same: "dropped ?S = dropped S" by (simp add: dropped_def fun_eq_iff remove_reader_fields)
  have pos: "map_of (eb_channels (sy_bus S)) (sb_run u) = Some ?i" "map_of (ch_readers (obj S ?i)) k = Some c"
    using at by (simp_all add: reader_position_def)
  have wanted': "wanted u' = wanted u" using u' by (simp add: wanted_def fun_eq_iff)
  have "\<exists>n \<le> length (sy_log S ?i). sb_delivered u = wanted u (sy_log S ?i) n"
    using at by (intro exI [of _ "nat (int (dropped S ?i) + c)"]) (simp add: reader_position_def nat_le_iff)
  then have "sub_ok ?S k u'" using u' by (simp add: sub_ok_def wanted')
  moreover have "sub_ok ?S j w" if "sy_subs S j = Some w" "j \<noteq> k" for j w
  proof -
    have "reader_position ?S j w = reader_position S j w"
      using that(2) by (simp add: fun_eq_iff reader_position_def remove_reader_fields jm_get_delete same)
    then show ?thesis using core_sub [OF core that(1)] by (simp add: sub_ok_def)
  qed
  ultimately have "subs_ok ?S" by (simp add: subs_ok_def)
  moreover have "objects_ok ?S"
  proof -
    have "eb_heap ?b j = obj S j" if "eb_next (sy_bus S) \<le> j" for j
      using that channel_allocated [OF core pos(1)] by (simp add: remove_reader_def)
    then show ?thesis using core by (simp add: bus_core_def objects_ok_def remove_reader_fields)
  qed
  moreover have "readers_ok ?S"
    unfolding readers_ok_def
  proof (intro allI)
    fix j
    have old: "jm_wf (ch_readers (obj S j))" "ch_subscribers (obj S j) = length (ch_readers (obj S j))"
      "\<forall>q \<in> fst ` set (ch_readers (obj S j)). \<exists>w. sy_subs S q = Some w \<and> sub_attached w \<and> sb_object w = j"
      using core by (auto simp: bus_core_def readers_ok_def)
    have elsewhere: "k \<notin> fst ` set (ch_readers (obj S j))" if "j \<noteq> ?i"
      using old(3) u that by fastforce
    have present: "k \<in> fst ` set (ch_readers (obj S ?i))" using pos(2) by (metis jm_has_dom jm_has_iff)
    have "jm_wf (ch_readers (obj ?S j))" "ch_subscribers (obj ?S j) = length (ch_readers (obj ?S j))"
      "fst ` set (ch_readers (obj ?S j)) = fst ` set (ch_readers (obj S j)) - {k}"
      using old(1,2) elsewhere present
      by (cases "j = ?i"; simp add: remove_reader_fields jm_delete_length jm_keys_delete jm_wf_delete)+
    with old(3) show "jm_wf (ch_readers (obj ?S j)) \<and> ch_subscribers (obj ?S j) = length (ch_readers (obj ?S j)) \<and>
        (\<forall>q \<in> fst ` set (ch_readers (obj ?S j)). \<exists>w. sy_subs ?S q = Some w \<and> sub_attached w \<and> sb_object w = j)"
      by (intro conjI ballI) auto
  qed
  moreover have "waiters_ok ?S"
    unfolding waiters_ok_def
  proof (intro allI ballI)
    fix j q
    assume "q \<in> set (ch_waiters (obj ?S j))"
    then have q: "q \<in> set (ch_waiters (obj S j))" by (simp add: remove_reader_fields)
    have "q \<noteq> k" using core_waiter(3) [OF core q] u free q by auto
    with core_waiter [OF core q] show "\<not> ch_closed (obj ?S j) \<and>
        map_of (ch_readers (obj ?S j)) q = Some (int (length (ch_frames (obj ?S j)))) \<and>
        (\<exists>w. sy_subs ?S q = Some w \<and> sb_state w = Waiting \<and> sb_object w = j)"
      by (auto simp: remove_reader_fields jm_get_delete)
  qed
  moreover have "buffers_ok ?S = buffers_ok S" unfolding buffers_ok_def by (simp add: remove_reader_fields same)
  moreover have "order_ok (sy_bus ?S) = order_ok (sy_bus S)" unfolding order_ok_def by (simp add: remove_reader_fields)
  ultimately show ?thesis using core by (simp add: bus_core_def)
qed

lemma remove_reader_counts:
  assumes core: "bus_core S" and i: "map_of (eb_channels (sy_bus S)) r = Some i" and "q \<noteq> r"
  shows "subscriber_count q (remove_reader k i (sy_bus S)) = subscriber_count q (sy_bus S)"
proof -
  have "map_of (eb_channels (sy_bus S)) q \<noteq> Some i" using mapped_once [OF core i] assms(3) by blast
  then show ?thesis by (simp add: subscriber_count_def remove_reader_fields split: option.split)
qed

text \<open>The end of a generator, after its last step left it at position \<open>c\<close>.\<close>

lemma detach_inv:
  assumes core: "bus_core S" and cap: "cap_ok (sy_bus S)" and u: "sy_subs S k = Some u"
    and at: "reader_position S k u c" and free: "k \<notin> set (ch_waiters (obj S (sb_object u)))"
    and u': "\<not> sub_attached u'" "sb_object u' = sb_object u" "sb_start u' = sb_start u" "sb_after u' = sb_after u"
      "sb_delivered u' = sb_delivered u"
    and S': "S' = S\<lparr>sy_bus := bus_detach k (sb_run u) (sb_object u) now (sy_bus S), sy_subs := (sy_subs S)(k \<mapsto> u')\<rparr>"
  shows "bus_core S' \<and> cap_ok (sy_bus S')"
proof -
  let ?r = "sb_run u" and ?i = "sb_object u"
  let ?b1 = "remove_reader k ?i (sy_bus S)"
  let ?S1 = "S\<lparr>sy_bus := ?b1, sy_subs := (sy_subs S)(k \<mapsto> u')\<rparr>" and ?ch = "eb_heap ?b1 ?i"
  have i: "map_of (eb_channels (sy_bus S)) ?r = Some ?i" using at by (simp add: reader_position_def)
  have core1: "bus_core ?S1" by (rule remove_reader_core [OF core u at free u'])
  have count: "subscriber_count ?r ?b1 = ch_subscribers ?ch"
    by (simp add: subscriber_count_def remove_reader_fields i)
  note others = remove_reader_counts [OF core i]
  have cap_if: "cap_ok ?b1" if "?r \<in> set (eb_closed_order (sy_bus S)) \<Longrightarrow> ch_subscribers ?ch \<noteq> 0"
  proof -
    have "0 < subscriber_count q ?b1"
      if "q \<in> set (eb_closed_order (sy_bus S))" "0 < subscriber_count q (sy_bus S)" for q
      using that count \<open>?r \<in> set (eb_closed_order (sy_bus S)) \<Longrightarrow> ch_subscribers ?ch \<noteq> 0\<close> others [of q k]
      by (cases "q = ?r") auto
    then show ?thesis using cap by (auto simp: cap_ok_def remove_reader_fields)
  qed
  have open_not_ordered: "?r \<notin> set (eb_closed_order (sy_bus S))" if "\<not> ch_closed ?ch"
    using that core i by (auto simp: bus_core_def order_ok_def remove_reader_fields)
  consider (readers) "ch_subscribers ?ch \<noteq> 0"
    | (release) "ch_subscribers ?ch = 0" "ch_frames ?ch = []" "ch_closed ?ch"
    | (forget) "ch_subscribers ?ch = 0" "ch_frames ?ch = []" "\<not> ch_closed ?ch"
    | (evict) "ch_subscribers ?ch = 0" "ch_frames ?ch \<noteq> []" "ch_closed ?ch"
    | (keep) "ch_subscribers ?ch = 0" "ch_frames ?ch \<noteq> []" "\<not> ch_closed ?ch"
    by blast
  then show ?thesis
  proof cases
    case readers
    then have "S' = ?S1" by (simp add: S' bus_detach_eq Let_def)
    with core1 cap_if readers show ?thesis by simp
  next
    case release
    then have eq: "S' = ?S1\<lparr>sy_bus := bus_release ?r now (sy_bus ?S1)\<rparr>" by (simp add: S' bus_detach_eq Let_def)
    have "subscriber_count ?r (sy_bus ?S1) = 0" using release count by simp
    then have "bus_core S'" unfolding eq by (rule release_core [OF core1])
    moreover have "cap_ok (sy_bus S')"
      unfolding eq using release_cap [OF cap, of ?r ?b1 now] others by (simp add: remove_reader_fields)
    ultimately show ?thesis ..
  next
    case forget
    let ?b2 = "?b1\<lparr>eb_channels := jm_delete ?r (eb_channels ?b1)\<rparr>"
    have eq: "S' = ?S1\<lparr>sy_bus := ?b2\<rparr>" using forget by (simp add: S' bus_detach_eq Let_def)
    have r: "?r \<notin> set (eb_closed_order (sy_bus S))" using forget open_not_ordered by blast
    have "order_ok ?b2"
    proof -
      have "order_ok ?b1" using core1 by (simp add: bus_core_def)
      then show ?thesis using r by (auto simp: order_ok_def jm_get_delete remove_reader_fields)
    qed
    then have "bus_core S'"
      unfolding eq using forget count by (intro drop_channel_core [OF core1, of ?r]) simp_all
    moreover have "subscriber_count q ?b2 = subscriber_count q ?b1" if "q \<in> set (eb_closed_order (sy_bus S))" for q
    proof -
      have "q \<noteq> ?r" using that r by blast
      then show ?thesis by (simp add: subscriber_count_def jm_get_delete split: option.split)
    qed
    then have "cap_ok ?b2" using cap_if r by (auto simp: cap_ok_def remove_reader_fields)
    ultimately show ?thesis by (simp add: eq)
  next
    case evict
    then have eq: "S' = ?S1\<lparr>sy_bus := evict_closed_beyond_cap now (sy_bus ?S1)\<rparr>"
      by (simp add: S' bus_detach_eq Let_def)
    show ?thesis unfolding eq using evict_core [OF core1, of now] by simp
  next
    case keep
    then have "S' = ?S1" by (simp add: S' bus_detach_eq Let_def)
    with core1 cap_if keep open_not_ordered show ?thesis by simp
  qed
qed

text \<open>A stretch of the read loop, from a position \<open>c\<close> at which the reader is not among the waiters.\<close>

lemma sys_read_cases:
  assumes "map_of (ch_readers (obj S (sb_object u))) k = Some c"
    and scan: "scan_frames (sb_after u) (drop (nat c) (ch_frames (obj S (sb_object u)))) c = (found, c')"
  shows "c < 0 \<Longrightarrow> sys_read k u now S =
           S\<lparr>sy_bus := bus_detach k (sb_run u) (sb_object u) now (sy_bus S),
             sy_subs := (sy_subs S)(k \<mapsto> u\<lparr>sb_state := DoneOverrun\<rparr>)\<rparr>"
    and "0 \<le> c \<Longrightarrow> found = Some f \<Longrightarrow> sys_read k u now S =
           S\<lparr>sy_bus := move_reader k (sb_object u) c' False (sy_bus S),
             sy_subs := (sy_subs S)(k \<mapsto> u\<lparr>sb_state := AtYield, sb_delivered := sb_delivered u @ [f]\<rparr>)\<rparr>"
    and "0 \<le> c \<Longrightarrow> found = None \<Longrightarrow> ch_closed (obj S (sb_object u)) \<Longrightarrow> sys_read k u now S =
           S\<lparr>sy_bus := bus_detach k (sb_run u) (sb_object u) now (move_reader k (sb_object u) c' False (sy_bus S)),
             sy_subs := (sy_subs S)(k \<mapsto> u\<lparr>sb_state := DoneClosed\<rparr>)\<rparr>"
    and "0 \<le> c \<Longrightarrow> found = None \<Longrightarrow> \<not> ch_closed (obj S (sb_object u)) \<Longrightarrow> sys_read k u now S =
           S\<lparr>sy_bus := move_reader k (sb_object u) c' True (sy_bus S),
             sy_subs := (sy_subs S)(k \<mapsto> u\<lparr>sb_state := Waiting\<rparr>)\<rparr>"
  using assms by (simp_all add: sys_read_def bus_read_def move_reader_def Let_def)

lemma sys_read_inv:
  assumes core: "bus_core S" and cap: "cap_ok (sy_bus S)" and u: "sy_subs S k = Some u" "sub_attached u"
    and free: "k \<notin> set (ch_waiters (obj S (sb_object u)))"
  shows "bus_core (sys_read k u now S) \<and> cap_ok (sy_bus (sys_read k u now S)) \<and>
     (\<forall>u'. sy_subs (sys_read k u now S) k = Some u' \<and> sb_state u' = DoneClosed \<longrightarrow>
        sb_delivered u' = wanted u (sy_log S (sb_object u)) (length (sy_log S (sb_object u))))"
proof -
  let ?i = "sb_object u" and ?ch = "obj S (sb_object u)"
  obtain c where at: "reader_position S k u c" by (rule core_reader [OF core u])
  have pos: "map_of (ch_readers ?ch) k = Some c" "sb_delivered u = wanted u (sy_log S ?i) (nat (int (dropped S ?i) + c))"
    "int (dropped S ?i) + c \<le> int (length (sy_log S ?i))"
    using at by (simp_all add: reader_position_def)
  have fs: "length (ch_frames ?ch) \<le> length (sy_log S ?i)" using core by (simp add: bus_core_def buffers_ok_def)
  have c_le: "c \<le> int (length (ch_frames ?ch))" using pos(3) fs by (simp add: dropped_def)
  obtain found c' where scan: "scan_frames (sb_after u) (drop (nat c) (ch_frames ?ch)) c = (found, c')" by fastforce
  note step = sys_read_cases [OF pos(1) scan] and spec = scan_frames_spec [OF scan]
  show ?thesis
  proof (cases "c < 0")
    case True
    have "bus_core (sys_read k u now S) \<and> cap_ok (sy_bus (sys_read k u now S))"
      by (rule detach_inv [OF core cap u(1) at free _ _ _ _ _ step(1) [OF True]]) (simp_all add: sub_attached_def)
    then show ?thesis using step(1) [OF True] by simp
  next
    case False
    then have c0: "0 \<le> c" by simp
    have bounds: "c \<le> c'" "c' \<le> int (length (ch_frames ?ch))" using spec c0 c_le by auto
    note move = move_reader_core [OF core u(1) at free _ _ _ _ _ c0 bounds]
    show ?thesis
    proof (cases found)
      case (Some f)
      then have got: "[f] = filter (\<lambda>f. sb_after u < fr_seq f) (take (nat (c' - c)) (drop (nat c) (ch_frames ?ch)))"
        using spec by simp
      show ?thesis
        using move [of "u\<lparr>sb_state := AtYield, sb_delivered := sb_delivered u @ [f]\<rparr>" False] got cap
        by (simp add: step(2) [OF c0 Some] sub_attached_def move_reader_cap)
    next
      case None
      then have none_wanted: "filter (\<lambda>f. sb_after u < fr_seq f) (take (nat (c' - c)) (drop (nat c) (ch_frames ?ch))) = []"
        and end_of: "c' = int (length (ch_frames ?ch))"
        using spec c0 c_le by auto
      show ?thesis
      proof (cases "ch_closed ?ch")
        case False
        have "bus_core (S\<lparr>sy_bus := move_reader k ?i c' True (sy_bus S),
            sy_subs := (sy_subs S)(k \<mapsto> u\<lparr>sb_state := Waiting\<rparr>)\<rparr>)"
        proof (rule move)
          have "sb_delivered (u\<lparr>sb_state := Waiting\<rparr>) = sb_delivered u @ []" by simp
          then show "sb_delivered (u\<lparr>sb_state := Waiting\<rparr>) = sb_delivered u @ filter (\<lambda>f. sb_after u < fr_seq f)
              (take (nat (c' - c)) (drop (nat c) (ch_frames ?ch)))"
            by (simp only: none_wanted)
        next
          show "sb_state (u\<lparr>sb_state := Waiting\<rparr>) = Waiting \<and> \<not> ch_closed ?ch \<and> c' = int (length (ch_frames ?ch))"
            using False end_of by simp
        qed (simp_all add: sub_attached_def)
        then show ?thesis
          using cap by (simp add: step(4) [OF c0 None False] move_reader_cap)
      next
        case closed: True
        let ?S1 = "S\<lparr>sy_bus := move_reader k ?i c' False (sy_bus S), sy_subs := (sy_subs S)(k \<mapsto> u)\<rparr>"
        have core1: "bus_core ?S1" using move [of u False] none_wanted u(2) by simp
        have "sy_subs ?S1 k = Some u" by simp
        then obtain d where d: "reader_position ?S1 k u d" by (rule core_reader [OF core1 _ u(2)])
        have "d = c'" using d by (simp add: reader_position_def move_reader_fields jm_get_set)
        have "dropped ?S1 ?i = dropped S ?i" by (simp add: dropped_def move_reader_fields)
        then have all: "sb_delivered u = wanted u (sy_log S ?i) (length (sy_log S ?i))"
          using d fs by (simp add: reader_position_def \<open>d = c'\<close> end_of dropped_def)
        have eq: "sys_read k u now S = ?S1\<lparr>sy_bus := bus_detach k (sb_run u) ?i now (sy_bus ?S1),
            sy_subs := (sy_subs ?S1)(k \<mapsto> u\<lparr>sb_state := DoneClosed\<rparr>)\<rparr>"
          by (simp add: step(3) [OF c0 None closed])
        have "bus_core (sys_read k u now S) \<and> cap_ok (sy_bus (sys_read k u now S))"
          by (rule detach_inv [OF core1 _ _ d _ _ _ _ _ _ eq])
            (use cap free in \<open>simp_all add: sub_attached_def move_reader_cap move_reader_fields\<close>)
        then show ?thesis using all by (simp add: eq)
      qed
    qed
  qed
qed

section \<open>Every reachable state\<close>

definition bus_inv :: "bus_system \<Rightarrow> bool" where
  "bus_inv S \<longleftrightarrow> bus_core S \<and> cap_ok (sy_bus S)"

lemma initial_inv:
  assumes "bus_initial S"
  shows "bus_inv S"
proof -
  obtain retained per_run ttl where new: "new_event_bus retained per_run ttl = Some (sy_bus S)"
    and rest: "sy_subs S = Map.empty" "sy_log S = (\<lambda>_. [])"
    using assms by (auto simp: bus_initial_def)
  have bus: "eb_heap (sy_bus S) = (\<lambda>_. empty_channel)" "eb_channels (sy_bus S) = []"
    "eb_closed_order (sy_bus S) = []" "eb_finished (sy_bus S) = []"
    using new by (auto simp: new_event_bus_def split: option.splits dest!: sym [of _ "sy_bus S"])
  show ?thesis
    by (simp add: bus_inv_def cap_ok_def bus_core_def buffers_ok_def objects_ok_def readers_ok_def subs_ok_def
        waiters_ok_def order_ok_def dropped_def bus rest empty_channel_def)
qed

lemma runnable_free:
  assumes "bus_core S" "sy_subs S k = Some u" "runnable k S"
  shows "sub_attached u" "k \<notin> set (ch_waiters (obj S (sb_object u)))"
  using assms core_waiter(3) [OF assms(1)] by (auto simp: runnable_def sub_attached_def) fastforce+

lemma publish_inv: "bus_inv S \<Longrightarrow> bus_inv (sys_publish r f S)"
  using channel_core [of S r] channel_cap [of S r] channel_mapped [of r "sy_bus S"]
    channel_allocated [of "S\<lparr>sy_bus := snd (bus_channel r (sy_bus S))\<rparr>"]
  by (simp add: bus_inv_def sys_publish_eq push_frame_core push_frame_cap)

lemma subscribe_inv:
  assumes inv: "bus_inv S" and k: "sy_subs S k = None"
  shows "bus_inv (sys_subscribe k r a now S)"
proof (cases "\<not> jm_has (eb_channels (sy_bus S)) r \<and> jm_has (eb_finished (sy_bus S)) r")
  case True
  then have eq: "sys_subscribe k r a now S = S\<lparr>sy_subs := (sy_subs S)(k \<mapsto> (new_sub r a 0 0)\<lparr>sb_state := DoneFinished\<rparr>)\<rparr>"
    (is "_ = ?S")
    by (simp add: sys_subscribe_def bus_attach_eq)
  have core: "bus_core S" using inv by (simp add: bus_inv_def)
  have pos: "reader_position ?S j w = reader_position S j w" for j w
    by (simp add: fun_eq_iff reader_position_def dropped_def)
  have "sub_ok ?S j w" if "sy_subs ?S j = Some w" for j w
    using that core_sub [OF core, of j w] pos
    by (cases "j = k") (auto simp: sub_ok_def sub_attached_def new_sub_def wanted_def split: if_splits)
  then have "subs_ok ?S" by (simp add: subs_ok_def)
  moreover have "readers_ok ?S"
    unfolding readers_ok_def
  proof (intro allI)
    fix i
    have "jm_wf (ch_readers (obj S i))" "ch_subscribers (obj S i) = length (ch_readers (obj S i))"
      "\<forall>q \<in> fst ` set (ch_readers (obj S i)). q \<noteq> k \<and> (\<exists>w. sy_subs S q = Some w \<and> sub_attached w \<and> sb_object w = i)"
      using core unknown_not_reading(1) [OF core k] by (auto simp: bus_core_def readers_ok_def)
    then show "jm_wf (ch_readers (obj ?S i)) \<and> ch_subscribers (obj ?S i) = length (ch_readers (obj ?S i)) \<and>
        (\<forall>q \<in> fst ` set (ch_readers (obj ?S i)). \<exists>w. sy_subs ?S q = Some w \<and> sub_attached w \<and> sb_object w = i)"
      by simp
  qed
  moreover have "waiters_ok ?S"
    unfolding waiters_ok_def
  proof (intro allI ballI)
    fix i q
    assume "q \<in> set (ch_waiters (obj ?S i))"
    then have q: "q \<in> set (ch_waiters (obj S i))" by simp
    have "q \<noteq> k" using core_waiter(3) [OF core q] k by auto
    with core_waiter [OF core q] show "\<not> ch_closed (obj ?S i) \<and>
        map_of (ch_readers (obj ?S i)) q = Some (int (length (ch_frames (obj ?S i)))) \<and>
        (\<exists>u. sy_subs ?S q = Some u \<and> sb_state u = Waiting \<and> sb_object u = i)"
      by simp
  qed
  ultimately show ?thesis
    using inv by (simp add: eq bus_inv_def bus_core_def buffers_ok_def objects_ok_def dropped_def)
next
  case False
  let ?i = "fst (bus_channel r (sy_bus S))" and ?S0 = "S\<lparr>sy_bus := snd (bus_channel r (sy_bus S))\<rparr>"
  let ?u = "new_sub r a ?i (dropped ?S0 ?i)"
  let ?S1 = "?S0\<lparr>sy_bus := attach_reader k ?i (sy_bus ?S0), sy_subs := (sy_subs ?S0)(k \<mapsto> ?u)\<rparr>"
  have core0: "bus_core ?S0" and cap0: "cap_ok (sy_bus ?S0)"
    using inv channel_core channel_cap by (simp_all add: bus_inv_def)
  have i: "map_of (eb_channels (sy_bus ?S0)) r = Some ?i" using channel_mapped by simp
  have core1: "bus_core ?S1" using attach_core [OF core0 i] k by simp
  have cap1: "cap_ok (sy_bus ?S1)" using attach_cap [OF cap0] by simp
  have "k \<notin> set (ch_waiters (obj ?S0 ?i))" using unknown_not_reading(2) [OF core0] k by simp
  then have "k \<notin> set (ch_waiters (obj ?S1 (sb_object ?u)))" by (simp add: attach_reader_fields new_sub_def)
  moreover have "sys_subscribe k r a now S = sys_read k ?u now ?S1"
    unfolding sys_subscribe_def bus_attach_eq if_not_P [OF False]
    by (simp add: dropped_def attach_reader_fields Let_def)
  ultimately show ?thesis
    using sys_read_inv [OF core1 cap1, of k ?u now] by (simp add: bus_inv_def sub_attached_def new_sub_def)
qed

lemma return_inv:
  assumes inv: "bus_inv S" and u: "sy_subs S k = Some u" "sb_state u = AtYield"
  shows "bus_inv (sys_return k u now S)"
proof -
  have core: "bus_core S" and cap: "cap_ok (sy_bus S)" using inv by (simp_all add: bus_inv_def)
  have "runnable k S" using u by (simp add: runnable_def)
  note free = runnable_free [OF core u(1) this]
  obtain c where at: "reader_position S k u c" by (rule core_reader [OF core u(1) free(1)])
  show ?thesis
    unfolding bus_inv_def
    by (rule detach_inv [OF core cap u(1) at free(2) _ _ _ _ _ sys_return_def]) (simp_all add: sub_attached_def)
qed

lemma bus_step_inv: "bus_step S S' \<Longrightarrow> bus_inv S \<Longrightarrow> bus_inv S'"
proof (induction rule: bus_step.induct)
  case (resumes S k u now)
  then have "bus_core S" by (simp add: bus_inv_def)
  from runnable_free [OF this resumes(1,2)] resumes show ?case
    using sys_read_inv by (simp add: bus_inv_def)
qed (simp_all add: publish_inv subscribe_inv return_inv, simp add: bus_inv_def sys_close_inv)

lemma reachable_inv: "bus_reachable S \<Longrightarrow> bus_inv S"
  by (induction rule: bus_reachable.induct) (auto intro: initial_inv bus_step_inv)

section \<open>Properties\<close>

text \<open>
  C28. No subscriber ever sees a silent hole: in every reachable state, for every interleaving of
  publishes, closes, evictions and other subscribers, what a subscriber was given is one contiguous
  stretch of what was published on its channel, from where the replay buffer stood when it joined,
  restricted to the frames after the sequence number it asked for.
\<close>

theorem bus_no_silent_hole:
  assumes "bus_reachable S" and "sy_subs S k = Some u"
  shows "\<exists>n \<le> length (sy_log S (sb_object u)).
           sb_delivered u =
             filter (\<lambda>f. sb_after u < fr_seq f) (drop (sb_start u) (take n (sy_log S (sb_object u))))"
proof (cases "sub_attached u")
  case True
  obtain c where "reader_position S k u c"
    using core_reader [OF _ assms(2) True] reachable_inv [OF assms(1)] by (metis bus_inv_def)
  then show ?thesis
    by (intro exI [of _ "nat (int (dropped S (sb_object u)) + c)"])
      (simp add: reader_position_def wanted_def nat_le_iff)
next
  case False
  then show ?thesis
    using core_sub [OF _ assms(2)] reachable_inv [OF assms(1)] by (simp add: bus_inv_def sub_ok_def wanted_def)
qed

text \<open>
  A stream that ends because the run closed is complete: it delivered every frame published
  from its start, after the sequence number asked for, up to the last one.
\<close>

theorem bus_closed_stream_complete:
  assumes "bus_reachable S" and "sy_subs S k = Some u" and "runnable k S"
    and "sy_subs (sys_read k u now S) k = Some u'" and "sb_state u' = DoneClosed"
  shows "sb_delivered u' =
           filter (\<lambda>f. sb_after u < fr_seq f) (drop (sb_start u) (sy_log S (sb_object u)))"
proof -
  have inv: "bus_core S" "cap_ok (sy_bus S)" using reachable_inv [OF assms(1)] by (simp_all add: bus_inv_def)
  note free = runnable_free [OF inv(1) assms(2,3)]
  show ?thesis
    using sys_read_inv [OF inv assms(2) free, of now] assms(4,5) by (simp add: wanted_def)
qed

text \<open>
  C29. No wake-up is lost: a parked reader that nobody has woken is on an open channel and has been
  given everything published there; so as soon as there is a frame to read or the run is closed, the
  reader can go on.
\<close>

theorem bus_no_lost_wakeup:
  assumes "bus_reachable S" and "sy_subs S k = Some u" and "sb_state u = Waiting" and "\<not> runnable k S"
  shows "\<not> ch_closed (eb_heap (sy_bus S) (sb_object u)) \<and>
         sb_delivered u =
           filter (\<lambda>f. sb_after u < fr_seq f) (drop (sb_start u) (sy_log S (sb_object u)))"
proof -
  have core: "bus_core S" using reachable_inv [OF assms(1)] by (simp add: bus_inv_def)
  have "k \<in> set (ch_waiters (obj S (sb_object u)))" using assms(2-4) by (simp add: runnable_def)
  note waits = core_waiter [OF core this]
  obtain c where c: "reader_position S k u c"
    using core_reader [OF core assms(2)] assms(3) by (auto simp: sub_attached_def)
  have "length (ch_frames (obj S (sb_object u))) \<le> length (sy_log S (sb_object u))"
    using core by (simp add: bus_core_def buffers_ok_def)
  with c waits(1,2) show ?thesis by (simp add: reader_position_def dropped_def wanted_def)
qed

text \<open>
  What a long-lived process accumulates is bounded: every channel buffers at most the cap of
  frames, at most the configured number of closed channels is retained unless every one of them has a
  live reader, and at most the backstop of finished run ids is remembered.
\<close>

theorem bus_bounded:
  assumes "bus_reachable S"
  shows "(\<forall>i. length (ch_frames (eb_heap (sy_bus S) i)) \<le> eb_max_frames_per_run (sy_bus S)) \<and>
         (length (eb_closed_order (sy_bus S)) \<le> eb_max_retained_runs (sy_bus S) \<or>
          (\<forall>r \<in> set (eb_closed_order (sy_bus S)). 0 < subscriber_count r (sy_bus S))) \<and>
         (\<forall>r. r \<in> set (eb_closed_order (sy_bus S)) \<longleftrightarrow>
            (\<exists>i. map_of (eb_channels (sy_bus S)) r = Some i \<and> ch_closed (eb_heap (sy_bus S) i))) \<and>
         length (eb_finished (sy_bus S)) \<le> 100000"
proof -
  have "buffers_ok S" "order_ok (sy_bus S)" "cap_ok (sy_bus S)"
    using reachable_inv [OF assms] by (simp_all add: bus_inv_def bus_core_def)
  then show ?thesis unfolding buffers_ok_def order_ok_def cap_ok_def MAX_FINISHED_RUN_IDS_def by blast
qed

text \<open>
  Publishing reaches every reader of the run: an attached reader's channel object is the one the
  map has for its run, so a frame published for that run is appended to that object's log and the
  reader can go on, parked or not.
\<close>

lemma bus_publish_reaches_readers:
  assumes "bus_reachable S" and "sy_subs S k = Some u" and "sub_attached u"
  shows "sy_log (sys_publish (sb_run u) f S) (sb_object u) = sy_log S (sb_object u) @ [f] \<and>
         runnable k (sys_publish (sb_run u) f S)"
proof -
  have core: "bus_core S" using reachable_inv [OF assms(1)] by (simp add: bus_inv_def)
  obtain c where "reader_position S k u c" by (rule core_reader [OF core assms(2,3)])
  then have "bus_channel (sb_run u) (sy_bus S) = (sb_object u, sy_bus S)"
    by (simp add: reader_position_def bus_channel_def)
  then show ?thesis
    using assms(2,3) by (auto simp: sys_publish_eq push_frame_def runnable_def sub_attached_def)
qed

subsection \<open>Witnesses\<close>

text \<open>
  A subscriber joins before the run, parks, is woken by the first frame and given it, and after the
  close of the run is given the end of the stream.
\<close>

definition sample_frame :: "nat \<Rightarrow> run_frame" where
  "sample_frame n = \<lparr>fr_seq = n, fr_event = ''values'', fr_namespace = None, fr_data = JNull\<rparr>"

definition sample_bus :: event_bus where
  "sample_bus = \<lparr>eb_heap = (\<lambda>_. empty_channel), eb_next = 0, eb_channels = [], eb_closed_order = [],
     eb_finished = [], eb_max_retained_runs = 50, eb_max_frames_per_run = 10000,
     eb_finished_id_ttl_ms = 86400000\<rparr>"

definition sample_sub :: "run_frame list \<Rightarrow> sub_state \<Rightarrow> bus_sub" where
  "sample_sub delivered st = \<lparr>sb_run = ''r1'', sb_after = 0, sb_object = 0, sb_start = 0,
     sb_delivered = delivered, sb_state = st\<rparr>"

definition parked_system :: bus_system where
  "parked_system = sys_subscribe 7 ''r1'' 0 0 \<lparr>sy_bus = sample_bus, sy_subs = Map.empty, sy_log = (\<lambda>_. [])\<rparr>"

definition closing_system :: bus_system where
  "closing_system = sys_close ''r1'' 5
     (sys_read 7 (sample_sub [] Waiting) 3 (sys_publish ''r1'' (sample_frame 1) parked_system))"

lemmas sample_bus_simps = parked_system_def closing_system_def sample_bus_def sample_sub_def sample_frame_def
  sys_subscribe_def bus_attach_def bus_channel_def bus_read_def sys_read_def new_sub_def empty_channel_def
  sys_publish_def bus_publish_def bus_trim_def bus_wake_def sys_close_def bus_close_def
  evict_closed_beyond_cap_def jm_has_def Let_def

lemma sample_bus_initial: "bus_initial \<lparr>sy_bus = sample_bus, sy_subs = Map.empty, sy_log = (\<lambda>_. [])\<rparr>"
proof -
  have "new_event_bus None None None = Some sample_bus"
    by (simp add: new_event_bus_def require_positive_integer_def sample_bus_def
        DEFAULT_MEMORY_BUS_MAX_RETAINED_RUNS_def DEFAULT_MEMORY_BUS_MAX_FRAMES_PER_RUN_def
        DEFAULT_FINISHED_ID_TTL_MS_def)
  then show ?thesis by (auto simp: bus_initial_def)
qed

lemma parked_reachable: "bus_reachable parked_system"
  unfolding parked_system_def
  by (rule bus_reachable.step [OF bus_reachable.initial [OF sample_bus_initial] bus_step.subscribes]) simp

lemma parked_sub: "sy_subs parked_system 7 = Some (sample_sub [] Waiting)"
  by (simp add: sample_bus_simps)

lemma closing_reachable: "bus_reachable closing_system"
proof -
  let ?S = "sys_publish ''r1'' (sample_frame 1) parked_system"
  have "bus_reachable ?S" by (rule bus_reachable.step [OF parked_reachable bus_step.publishes])
  moreover have "sy_subs ?S 7 = Some (sample_sub [] Waiting)" by (simp add: sys_publish_def Let_def parked_sub)
  moreover have "runnable 7 ?S" by (simp add: runnable_def sample_bus_simps)
  ultimately show ?thesis
    unfolding closing_system_def by (blast intro: bus_reachable.step bus_step.resumes bus_step.closes)
qed

lemma closing_sub: "sy_subs closing_system 7 = Some (sample_sub [sample_frame 1] AtYield)"
  by (simp add: sample_bus_simps)

theorem bus_no_silent_hole_witness:
  "\<exists>n \<le> length (sy_log closing_system 0).
     [sample_frame 1] = filter (\<lambda>f. 0 < fr_seq f) (drop 0 (take n (sy_log closing_system 0)))"
  using bus_no_silent_hole [OF closing_reachable closing_sub] by (simp add: sample_sub_def)

theorem bus_closed_stream_complete_witness:
  "\<exists>u'. sy_subs (sys_read 7 (sample_sub [sample_frame 1] AtYield) 9 closing_system) 7 = Some u' \<and>
        sb_state u' = DoneClosed \<and> sb_delivered u' = filter (\<lambda>f. 0 < fr_seq f) (sy_log closing_system 0)"
proof -
  have "runnable 7 closing_system" by (simp add: runnable_def closing_sub sample_sub_def)
  moreover have "sy_subs (sys_read 7 (sample_sub [sample_frame 1] AtYield) 9 closing_system) 7 =
      Some (sample_sub [sample_frame 1] DoneClosed)"
    by (simp add: sample_bus_simps)
  ultimately show ?thesis
    using bus_closed_stream_complete [OF closing_reachable closing_sub, of 9] by (simp add: sample_sub_def)
qed

theorem bus_no_lost_wakeup_witness:
  "\<not> ch_closed (eb_heap (sy_bus parked_system) 0) \<and> \<not> runnable 7 parked_system"
proof -
  have "\<not> runnable 7 parked_system" unfolding runnable_def parked_sub by (simp add: sample_bus_simps)
  with bus_no_lost_wakeup [OF parked_reachable parked_sub] show ?thesis by (simp add: sample_sub_def)
qed

theorem bus_bounded_witness: "length (eb_finished (sy_bus closing_system)) \<le> 100000"
  using bus_bounded [OF closing_reachable] by simp

end
