(* ===== verification/ThreadEventBus.thy ===== *)
theory ThreadEventBus
  imports Resources
begin

text \<open>
  \<^verbatim>\<open>MemoryThreadEventBus\<close> of \<^verbatim>\<open>packages/storage-memory/src/memory-thread-event-bus.ts\<close>: the
  thread-wide event history behind subscriptions that stay open across runs. A history object stays
  in the map for ever, so it is named by its thread id; the wake-up a parked tail registers is the
  number of that tail. One publish, deletion, or stretch of a tail between two suspensions is one
  step.

  An input is the JavaScript object handed in; the stored entry is that object with its sequence
  number, through \<open>serialize_wire_json\<close>.
\<close>

record thread_event =
  te_seq :: nat
  te_value :: jsval

record thread_history =
  th_seq :: nat
  th_generation :: nat
  th_entries :: "thread_event list"
  th_readers :: "nat list"
  th_deleted :: bool

record thread_bus =
  tb_threads :: "(ident, thread_history) jsmap"
  tb_retained :: "ident list"

definition new_thread_bus :: thread_bus where
  "new_thread_bus = \<lparr>tb_threads = [], tb_retained = []\<rparr>"

definition new_history :: thread_history where
  "new_history = \<lparr>th_seq = 0, th_generation = 0, th_entries = [], th_readers = [], th_deleted = False\<rparr>"

section \<open>Operations\<close>

definition history_of :: "ident \<Rightarrow> thread_bus \<Rightarrow> thread_history" where
  "history_of thread_id b = or_default (jm_get (tb_threads b) thread_id) new_history"

definition set_history :: "ident \<Rightarrow> thread_history \<Rightarrow> thread_bus \<Rightarrow> thread_bus" where
  "set_history thread_id h b = b\<lparr>tb_threads := jm_set thread_id h (tb_threads b)\<rparr>"

definition wake_all :: "thread_history \<Rightarrow> thread_history" where
  "wake_all h = h\<lparr>th_readers := []\<rparr>"

definition is_created_event :: "jsobj \<Rightarrow> bool" where
  "is_created_event input \<longleftrightarrow>
     jm_get input ''kind'' = Some (JStr ''state'') \<and> jm_get input ''operation'' = Some (JStr ''created'')"

definition seq_value :: "nat \<Rightarrow> jsval" where
  "seq_value n = JNum (Fin (of_nat n))"

text \<open>A protocol event is stamped with the sequence number too.\<close>

definition stamp_event :: "(nat \<Rightarrow> string) \<Rightarrow> nat \<Rightarrow> jsval \<Rightarrow> jsval" where
  "stamp_event show_nat n v =
     (case v of
        JObj ps \<Rightarrow>
          if jm_get ps ''kind'' = Some (JStr ''protocol'')
          then (case jm_get ps ''event'' of
                  Some (JObj ev) \<Rightarrow>
                    JObj (jm_set ''event''
                      (JObj (jm_set ''event_id'' (JStr (show_nat n)) (jm_set ''seq'' (seq_value n) ev))) ps)
                | _ \<Rightarrow> v)
          else v
      | _ \<Rightarrow> v)"

definition retain :: "ident \<Rightarrow> ident list \<Rightarrow> ident list" where
  "retain thread_id retained = removeAll thread_id retained @ [thread_id]"

text \<open>More than 50 payload histories: the least recently published one loses its entries.\<close>

definition evict_oldest :: "thread_bus \<Rightarrow> thread_bus" where
  "evict_oldest b =
     (if length (tb_retained b) \<le> 50 then b
      else
        let oldest = hd (tb_retained b)
        in set_history oldest (wake_all ((history_of oldest b)\<lparr>th_entries := []\<rparr>))
             (b\<lparr>tb_retained := tl (tb_retained b)\<rparr>))"

definition thread_publish ::
  "(nat \<Rightarrow> string) \<Rightarrow> ident \<Rightarrow> jsobj \<Rightarrow> nat option \<Rightarrow> thread_bus \<Rightarrow>
     (thrown + thread_event option) \<times> thread_bus" where
  "thread_publish show_nat thread_id input generation b =
     (let h = history_of thread_id b;
          b1 = set_history thread_id h b;
          created = is_created_event input
      in if generation \<noteq> None \<and> generation \<noteq> Some (th_generation h) then (Inr None, b1)
         else if th_deleted h \<and> \<not> created then (Inr None, b1)
         else
           let n = Suc (th_seq h) in
           (case serialize_wire_json (JObj (jm_set ''seq'' (seq_value n) input)) of
              Some v \<Rightarrow>
                let entry = \<lparr>te_seq = n, te_value = stamp_event show_nat n v\<rparr>;
                    appended = th_entries h @ [entry];
                    h1 = h\<lparr>th_seq := n, th_deleted := (if created then False else th_deleted h),
                           th_entries := (if 10000 < length appended then tl appended else appended)\<rparr>;
                    b2 = evict_oldest
                           ((set_history thread_id h1 b1)\<lparr>tb_retained := retain thread_id (tb_retained b1)\<rparr>)
                in (Inr (Some entry), set_history thread_id (wake_all (history_of thread_id b2)) b2)
            | None \<Rightarrow> (Inl SerializationError, b1)))"

definition thread_generation :: "ident \<Rightarrow> thread_bus \<Rightarrow> nat \<times> thread_bus" where
  "thread_generation thread_id b =
     (th_generation (history_of thread_id b), set_history thread_id (history_of thread_id b) b)"

definition latest_sequence :: "ident \<Rightarrow> thread_bus \<Rightarrow> nat \<times> thread_bus" where
  "latest_sequence thread_id b =
     (th_seq (history_of thread_id b), set_history thread_id (history_of thread_id b) b)"

definition first_seq :: "thread_history \<Rightarrow> nat" where
  "first_seq h = (case th_entries h of [] \<Rightarrow> Suc (th_seq h) | e # _ \<Rightarrow> te_seq e)"

definition replay_cursor :: "ident \<Rightarrow> thread_bus \<Rightarrow> nat \<times> thread_bus" where
  "replay_cursor thread_id b =
     (first_seq (history_of thread_id b) - 1, set_history thread_id (history_of thread_id b) b)"

definition thread_bus_delete :: "ident \<Rightarrow> thread_bus \<Rightarrow> thread_bus" where
  "thread_bus_delete thread_id b =
     (let h = history_of thread_id b in
      (set_history thread_id
         (wake_all (h\<lparr>th_deleted := True, th_generation := Suc (th_generation h), th_entries := []\<rparr>)) b)
        \<lparr>tb_retained := removeAll thread_id (tb_retained b)\<rparr>)"

section \<open>The tail of a history\<close>

datatype tail_state = TailStarting | TailYielded | TailWaiting | TailEnded | TailExpired

record thread_tail =
  tl_thread :: ident
  tl_generation :: nat
  tl_cursor :: nat
  tl_page :: "thread_event list"
  tl_aborted :: bool
  tl_state :: tail_state

definition cursor_valid :: "thread_history \<Rightarrow> nat \<Rightarrow> bool" where
  "cursor_valid h cursor \<longleftrightarrow> \<not> (th_seq h < cursor \<or> cursor < first_seq h - 1)"

definition tail_over :: "thread_history \<Rightarrow> thread_tail \<Rightarrow> bool" where
  "tail_over h t \<longleftrightarrow> tl_aborted t \<or> th_deleted h \<or> th_generation h \<noteq> tl_generation t"

text \<open>
  From one suspension to the next: the rest of the page taken before, else a new page of at most
  512 entries, else park. The entry yielded, if any, comes with the new tail; \<open>True\<close> says that the
  tail's wake-up stays registered with the history.
\<close>

definition take_entry :: "thread_event \<Rightarrow> thread_event list \<Rightarrow> thread_tail \<Rightarrow> thread_tail" where
  "take_entry e rest t = t\<lparr>tl_cursor := te_seq e, tl_page := rest, tl_state := TailYielded\<rparr>"

definition tail_resume :: "thread_history \<Rightarrow> thread_tail \<Rightarrow> thread_event option \<times> thread_tail \<times> bool" where
  "tail_resume h t =
     (if tail_over h t then (None, t\<lparr>tl_state := TailEnded\<rparr>, False)
      else
        case tl_page t of
          e # rest \<Rightarrow> (Some e, take_entry e rest t, False)
        | [] \<Rightarrow>
            if \<not> cursor_valid h (tl_cursor t) then (None, t\<lparr>tl_state := TailExpired\<rparr>, False)
            else
              (case take 512 (filter (\<lambda>e. tl_cursor t < te_seq e) (th_entries h)) of
                 e # rest \<Rightarrow> (Some e, take_entry e rest t, False)
               | [] \<Rightarrow> (None, t\<lparr>tl_state := TailWaiting\<rparr>, \<not> tl_cursor t < th_seq h)))"

text \<open>\<^verbatim>\<open>subscribe\<close>: the cursor asked for, or the one before the retained history; a lost cursor throws.\<close>

definition start_tail :: "ident \<Rightarrow> nat option \<Rightarrow> thread_history \<Rightarrow> thread_tail" where
  "start_tail thread_id after_seq h =
     (let cursor = or_default after_seq (first_seq h - 1) in
      \<lparr>tl_thread = thread_id, tl_generation = th_generation h, tl_cursor = cursor, tl_page = [],
       tl_aborted = False,
       tl_state = (if cursor_valid h cursor then TailStarting else TailExpired)\<rparr>)"

end
