(* ===== verification/ThreadEventHistory.thy ===== *)
theory ThreadEventHistory
  imports ThreadEventBus
begin

text \<open>
  The thread event bus with its tails, over every interleaving of publishes, deletions, aborts and
  the tails' own steps. \<open>ts_log\<close> is a history variable: every event a thread ever accepted, with the
  generation it was accepted in; \<open>ts_start\<close> and \<open>ts_delivered\<close> record where a tail began and what it
  yielded.
\<close>

record thread_bus_system =
  ts_bus :: thread_bus
  ts_tails :: "nat \<Rightarrow> thread_tail option"
  ts_start :: "nat \<Rightarrow> nat"
  ts_delivered :: "nat \<Rightarrow> thread_event list"
  ts_log :: "ident \<Rightarrow> (nat \<times> thread_event) list"

abbreviation hist :: "thread_bus_system \<Rightarrow> ident \<Rightarrow> thread_history" where
  "hist S x \<equiv> history_of x (ts_bus S)"

definition ts_publish :: "(nat \<Rightarrow> string) \<Rightarrow> ident \<Rightarrow> jsobj \<Rightarrow> nat option \<Rightarrow> thread_bus_system \<Rightarrow> thread_bus_system" where
  "ts_publish show_nat x input g S =
     (let (r, b) = thread_publish show_nat x input g (ts_bus S) in
      case r of
        Inr (Some e) \<Rightarrow>
          S\<lparr>ts_bus := b, ts_log := (ts_log S)(x := ts_log S x @ [(th_generation (hist S x), e)])\<rparr>
      | _ \<Rightarrow> S\<lparr>ts_bus := b\<rparr>)"

definition ts_delete :: "ident \<Rightarrow> thread_bus_system \<Rightarrow> thread_bus_system" where
  "ts_delete x S = S\<lparr>ts_bus := thread_bus_delete x (ts_bus S)\<rparr>"

definition ts_subscribe :: "nat \<Rightarrow> ident \<Rightarrow> nat option \<Rightarrow> thread_bus_system \<Rightarrow> thread_bus_system" where
  "ts_subscribe k x after_seq S =
     (let t = start_tail x after_seq (hist S x) in
      S\<lparr>ts_bus := set_history x (hist S x) (ts_bus S), ts_tails := (ts_tails S)(k \<mapsto> t),
        ts_start := (ts_start S)(k := tl_cursor t), ts_delivered := (ts_delivered S)(k := [])\<rparr>)"

definition ts_resume :: "nat \<Rightarrow> thread_tail \<Rightarrow> thread_bus_system \<Rightarrow> thread_bus_system" where
  "ts_resume k t S =
     (let (found, t', parks) = tail_resume (hist S (tl_thread t)) t;
          h = hist S (tl_thread t)
      in S\<lparr>ts_bus := set_history (tl_thread t)
             (if parks then h\<lparr>th_readers := th_readers h @ [k]\<rparr> else h) (ts_bus S),
           ts_tails := (ts_tails S)(k \<mapsto> t'),
           ts_delivered := (ts_delivered S)
             (k := (case found of Some e \<Rightarrow> ts_delivered S k @ [e] | None \<Rightarrow> ts_delivered S k))\<rparr>)"

text \<open>The abort signal of a tail fires: a parked tail's wake-up is called, which unregisters it.\<close>

definition ts_abort :: "nat \<Rightarrow> thread_tail \<Rightarrow> thread_bus_system \<Rightarrow> thread_bus_system" where
  "ts_abort k t S =
     (let h = hist S (tl_thread t) in
      S\<lparr>ts_bus := set_history (tl_thread t) (h\<lparr>th_readers := removeAll k (th_readers h)\<rparr>) (ts_bus S),
        ts_tails := (ts_tails S)(k \<mapsto> t\<lparr>tl_aborted := True\<rparr>)\<rparr>)"

definition tail_runnable :: "nat \<Rightarrow> thread_tail \<Rightarrow> thread_bus_system \<Rightarrow> bool" where
  "tail_runnable k t S \<longleftrightarrow>
     tl_state t = TailStarting \<or> tl_state t = TailYielded \<or>
     (tl_state t = TailWaiting \<and> k \<notin> set (th_readers (hist S (tl_thread t))))"

inductive thread_step :: "thread_bus_system \<Rightarrow> thread_bus_system \<Rightarrow> bool" where
  publishes: "thread_step S (ts_publish show_nat x input g S)"
| deletes: "thread_step S (ts_delete x S)"
| subscribes: "ts_tails S k = None \<Longrightarrow> thread_step S (ts_subscribe k x after_seq S)"
| resumes: "ts_tails S k = Some t \<Longrightarrow> tail_runnable k t S \<Longrightarrow> thread_step S (ts_resume k t S)"
| aborts: "ts_tails S k = Some t \<Longrightarrow> thread_step S (ts_abort k t S)"

definition thread_initial :: "thread_bus_system \<Rightarrow> bool" where
  "thread_initial S \<longleftrightarrow> ts_bus S = new_thread_bus \<and> ts_tails S = Map.empty \<and> ts_log S = (\<lambda>_. [])"

inductive thread_reachable :: "thread_bus_system \<Rightarrow> bool" where
  initial: "thread_initial S \<Longrightarrow> thread_reachable S"
| step: "thread_reachable S \<Longrightarrow> thread_step S S' \<Longrightarrow> thread_reachable S'"

section \<open>The invariant\<close>

text \<open>
  A thread's log is numbered from one without a gap; what its history retains is a bounded suffix of
  it, accepted in the current generation.
\<close>

definition log_numbered :: "(nat \<times> thread_event) list \<Rightarrow> bool" where
  "log_numbered lg \<longleftrightarrow> map (te_seq \<circ> snd) lg = [1..<Suc (length lg)]"

definition history_ok :: "thread_history \<Rightarrow> (nat \<times> thread_event) list \<Rightarrow> bool" where
  "history_ok h lg \<longleftrightarrow>
     log_numbered lg \<and> th_seq h = length lg \<and> length (th_entries h) \<le> min 10000 (length lg) \<and>
     map (Pair (th_generation h)) (th_entries h) = drop (length lg - length (th_entries h)) lg"

definition retained_ok :: "thread_bus \<Rightarrow> bool" where
  "retained_ok b \<longleftrightarrow>
     distinct (tb_retained b) \<and> length (tb_retained b) \<le> 50 \<and>
     (\<forall>x. x \<in> set (tb_retained b) \<longleftrightarrow> th_entries (history_of x b) \<noteq> [])"

text \<open>A tail yielded the segment of the log between its start and its cursor; its page comes next.\<close>

definition tail_ok :: "thread_tail \<Rightarrow> nat \<Rightarrow> thread_event list \<Rightarrow> (nat \<times> thread_event) list \<Rightarrow> bool" where
  "tail_ok t start delivered lg \<longleftrightarrow>
     start \<le> tl_cursor t \<and>
     (tl_cursor t \<le> length lg \<or> start = tl_cursor t \<and> tl_page t = []) \<and>
     map (Pair (tl_generation t)) delivered = drop start (take (tl_cursor t) lg) \<and>
     map (Pair (tl_generation t)) (tl_page t) = take (length (tl_page t)) (drop (tl_cursor t) lg)"

definition readers_ok :: "thread_bus_system \<Rightarrow> bool" where
  "readers_ok S \<longleftrightarrow>
     (\<forall>x. \<forall>k \<in> set (th_readers (hist S x)).
        \<exists>t. ts_tails S k = Some t \<and> tl_thread t = x \<and> tl_state t = TailWaiting \<and>
            \<not> tail_over (hist S x) t \<and> tl_cursor t = th_seq (hist S x) \<and> tl_page t = [])"

definition thread_inv :: "thread_bus_system \<Rightarrow> bool" where
  "thread_inv S \<longleftrightarrow>
     (\<forall>x. history_ok (hist S x) (ts_log S x)) \<and>
     retained_ok (ts_bus S) \<and>
     (\<forall>k t. ts_tails S k = Some t \<longrightarrow> tail_ok t (ts_start S k) (ts_delivered S k) (ts_log S (tl_thread t))) \<and>
     readers_ok S"

section \<open>Lookups\<close>

lemma history_of_set [simp]: "history_of y (set_history x h b) = (if y = x then h else history_of y b)"
  by (simp add: history_of_def set_history_def jm_get_set)

lemma history_of_retained [simp]: "history_of y (b\<lparr>tb_retained := r\<rparr>) = history_of y b"
  by (simp add: history_of_def)

lemma retained_set_history [simp]: "tb_retained (set_history x h b) = tb_retained b"
  by (simp add: set_history_def)

lemma wake_all_simps [simp]:
  "th_seq (wake_all h) = th_seq h" "th_generation (wake_all h) = th_generation h"
  "th_entries (wake_all h) = th_entries h" "th_deleted (wake_all h) = th_deleted h"
  "th_readers (wake_all h) = []"
  by (simp_all add: wake_all_def)

lemma evict_oldest_history:
  "history_of y (evict_oldest b) =
     (if 50 < length (tb_retained b) \<and> y = hd (tb_retained b)
      then wake_all ((history_of y b)\<lparr>th_entries := []\<rparr>) else history_of y b)"
  by (simp add: evict_oldest_def Let_def)

lemma evict_oldest_retained:
  "tb_retained (evict_oldest b) = (if 50 < length (tb_retained b) then tl (tb_retained b) else tb_retained b)"
  by (simp add: evict_oldest_def Let_def)

section \<open>Histories\<close>

lemma tail_over_readers [simp]: "tail_over (h\<lparr>th_readers := r\<rparr>) t = tail_over h t"
  by (simp add: tail_over_def)

lemma history_ok_readers [simp]: "history_ok (h\<lparr>th_readers := r\<rparr>) lg = history_ok h lg"
  by (simp add: history_ok_def)

lemma history_ok_wake [simp]: "history_ok (wake_all h) lg = history_ok h lg"
  by (simp add: wake_all_def)

lemma history_ok_cleared: "history_ok h lg \<Longrightarrow> history_ok (h\<lparr>th_entries := []\<rparr>) lg"
  by (simp add: history_ok_def)

lemma history_ok_deleted:
  "history_ok h lg \<Longrightarrow>
     history_ok (h\<lparr>th_deleted := True, th_generation := Suc (th_generation h), th_entries := []\<rparr>) lg"
  by (simp add: history_ok_def)

lemma history_ok_push:
  assumes ok: "history_ok h lg" and e: "te_seq e = Suc (th_seq h)"
  shows "history_ok (h\<lparr>th_seq := Suc (th_seq h), th_deleted := d,
             th_entries := (if 10000 < length (th_entries h @ [e]) then tl (th_entries h @ [e]) else th_entries h @ [e])\<rparr>)
           (lg @ [(th_generation h, e)])"
proof -
  let ?es = "th_entries h" and ?g = "th_generation h"
  have num: "log_numbered (lg @ [(?g, e)])"
    using ok e by (simp add: history_ok_def log_numbered_def)
  have suffix: "map (Pair ?g) ?es = drop (length lg - length ?es) lg" "length ?es \<le> length lg" "length ?es \<le> 10000"
    using ok by (simp_all add: history_ok_def)
  have whole: "map (Pair ?g) (?es @ [e]) = drop (length lg - length ?es) (lg @ [(?g, e)])"
    using suffix by simp
  show ?thesis
  proof (cases "10000 < length (?es @ [e])")
    case True
    then have "?es \<noteq> []" by auto
    have "map (Pair ?g) (tl (?es @ [e])) = drop (Suc (length lg - length ?es)) (lg @ [(?g, e)])"
      by (metis whole map_tl tl_drop drop_Suc)
    moreover have "length (tl (?es @ [e])) = length ?es" by simp
    moreover have "Suc (length lg - length ?es) = Suc (length lg) - length ?es" using suffix(2) by simp
    ultimately show ?thesis
      using True num suffix ok by (simp add: history_ok_def)
  next
    case False
    then show ?thesis using num suffix(2,3) whole ok by (simp add: history_ok_def)
  qed
qed

lemma tail_ok_append:
  assumes ok: "tail_ok t start delivered lg"
  shows "tail_ok t start delivered (lg @ ys)"
proof (cases "tl_cursor t \<le> length lg")
  case True
  have "length (tl_page t) = length (take (length (tl_page t)) (drop (tl_cursor t) lg))"
    using ok by (metis tail_ok_def length_map)
  then have "length (tl_page t) \<le> length lg - tl_cursor t" by simp
  with True ok show ?thesis by (simp add: tail_ok_def)
next
  case False
  with ok have "start = tl_cursor t \<and> tl_page t = [] \<and> delivered = []" by (auto simp: tail_ok_def)
  then show ?thesis by (simp add: tail_ok_def)
qed

lemma tail_ok_aborted [simp]: "tail_ok (t\<lparr>tl_aborted := a\<rparr>) start delivered lg = tail_ok t start delivered lg"
  by (simp add: tail_ok_def)

text \<open>What the tail finds after its cursor is what the log has there.\<close>

lemma entries_after:
  assumes ok: "history_ok h lg" and cursor: "cursor_valid h c"
  shows "map (Pair (th_generation h)) (filter (\<lambda>e. c < te_seq e) (th_entries h)) = drop c lg"
    and "c \<le> length lg"
proof -
  let ?es = "th_entries h" and ?d = "length lg - length (th_entries h)"
  have suffix: "map (Pair (th_generation h)) ?es = drop ?d lg" "length ?es \<le> length lg" "th_seq h = length lg"
    using ok by (simp_all add: history_ok_def)
  show "c \<le> length lg" using cursor suffix(3) by (simp add: cursor_valid_def)
  have seqs: "te_seq (?es ! i) = Suc (?d + i)" if "i < length ?es" for i
  proof -
    have "te_seq (?es ! i) = te_seq (snd (map (Pair (th_generation h)) ?es ! i))" using that by simp
    also have "\<dots> = map (te_seq \<circ> snd) lg ! (?d + i)" unfolding suffix(1) using that suffix(2) by simp
    also have "map (te_seq \<circ> snd) lg = [1..<Suc (length lg)]" using ok by (simp only: history_ok_def log_numbered_def)
    finally show ?thesis using that suffix(2) by (simp add: nth_append less_diff_conv del: upt_Suc)
  qed
  have d_le: "?d \<le> c"
  proof (cases ?es)
    case (Cons e rest)
    then have "first_seq h = Suc ?d" using seqs [of 0] by (simp add: first_seq_def)
    then show ?thesis using cursor by (simp add: cursor_valid_def)
  next
    case Nil
    then show ?thesis using cursor suffix(3) by (simp add: cursor_valid_def first_seq_def)
  qed
  have "filter (\<lambda>e. c < te_seq e) ?es = drop (c - ?d) ?es"
  proof -
    have "filter (\<lambda>e. c < te_seq e) (take (c - ?d) ?es) = []"
      using seqs d_le by (auto simp: filter_empty_conv in_set_conv_nth)
    moreover have "filter (\<lambda>e. c < te_seq e) (drop (c - ?d) ?es) = drop (c - ?d) ?es"
      using seqs d_le by (auto simp: filter_id_conv in_set_conv_nth)
    ultimately show ?thesis by (metis append_take_drop_id filter_append append_Nil)
  qed
  then show "map (Pair (th_generation h)) (filter (\<lambda>e. c < te_seq e) ?es) = drop c lg"
    using suffix(1) d_le by (simp add: drop_map [symmetric])
qed

lemma take_entry_ok:
  assumes ok: "tail_ok t start delivered lg" and num: "log_numbered lg"
    and next_entry: "map (Pair (tl_generation t)) (e # rest) = take (Suc (length rest)) (drop (tl_cursor t) lg)"
  shows "tail_ok (take_entry e rest t) start (delivered @ [e]) lg"
proof -
  let ?c = "tl_cursor t"
  have "Suc (length rest) = length (take (Suc (length rest)) (drop ?c lg))"
    using next_entry by (metis length_Cons length_map)
  then have c: "?c < length lg" by auto
  then have drop: "drop ?c lg = lg ! ?c # drop (Suc ?c) lg" by (simp add: Cons_nth_drop_Suc)
  with next_entry have at_c: "lg ! ?c = (tl_generation t, e)"
    and rest: "map (Pair (tl_generation t)) rest = take (length rest) (drop (Suc ?c) lg)" by simp_all
  have "map (te_seq \<circ> snd) lg ! ?c = [1..<Suc (length lg)] ! ?c" using num by (simp only: log_numbered_def)
  then have seq: "te_seq e = Suc ?c" using c at_c by (simp del: upt_Suc)
  have "start \<le> ?c" using ok by (simp add: tail_ok_def)
  then have "drop start (take (Suc ?c) lg) = drop start (take ?c lg) @ [(tl_generation t, e)]"
    using c at_c by (simp add: take_Suc_conv_app_nth)
  then show ?thesis
    using ok rest seq c by (simp add: tail_ok_def take_entry_def)
qed

lemma tail_resume_ok:
  assumes ok: "tail_ok t start delivered lg" and h: "history_ok h lg"
    and step: "tail_resume h t = (found, t', parks)"
  shows "tail_ok t' start (case found of Some e \<Rightarrow> delivered @ [e] | None \<Rightarrow> delivered) lg"
    and "tl_thread t' = tl_thread t"
    and "parks \<Longrightarrow> tl_state t' = TailWaiting \<and> \<not> tail_over h t' \<and> tl_cursor t' = th_seq h \<and> tl_page t' = []"
proof -
  have num: "log_numbered lg" using h by (simp add: history_ok_def)
  have same [simp]: "tail_ok (t\<lparr>tl_state := st\<rparr>) start delivered lg" for st
    using ok by (simp add: tail_ok_def)
  have page: "tail_ok (take_entry e rest t) start (delivered @ [e]) lg" if "tl_page t = e # rest" for e rest
  proof (rule take_entry_ok [OF ok num])
    show "map (Pair (tl_generation t)) (e # rest) = take (Suc (length rest)) (drop (tl_cursor t) lg)"
      using ok that by (simp add: tail_ok_def)
  qed
  have fresh: "tail_ok (take_entry e rest t) start (delivered @ [e]) lg"
    if "\<not> tail_over h t" "cursor_valid h (tl_cursor t)"
      "take 512 (filter (\<lambda>e. tl_cursor t < te_seq e) (th_entries h)) = e # rest" for e rest
  proof (rule take_entry_ok [OF ok num])
    have gen: "th_generation h = tl_generation t" using that(1) by (simp add: tail_over_def)
    have "map (Pair (tl_generation t)) (e # rest) = take 512 (drop (tl_cursor t) lg)"
      unfolding that(3) [symmetric] take_map [symmetric] gen [symmetric] entries_after(1) [OF h that(2)] ..
    moreover have "take (Suc (length rest)) (take 512 (drop (tl_cursor t) lg)) = take 512 (drop (tl_cursor t) lg)"
      using calculation by (metis length_Cons length_map order_refl take_all)
    moreover have "length (e # rest) \<le> 512" unfolding that(3) [symmetric] by simp
    ultimately show "map (Pair (tl_generation t)) (e # rest) = take (Suc (length rest)) (drop (tl_cursor t) lg)"
      by (simp add: min_def split: if_splits)
  qed
  show "tail_ok t' start (case found of Some e \<Rightarrow> delivered @ [e] | None \<Rightarrow> delivered) lg"
    using step page fresh by (auto simp: tail_resume_def split: if_splits list.splits)
  show "tl_thread t' = tl_thread t"
    using step by (auto simp: tail_resume_def take_entry_def split: if_splits list.splits)
  show "parks \<Longrightarrow> tl_state t' = TailWaiting \<and> \<not> tail_over h t' \<and> tl_cursor t' = th_seq h \<and> tl_page t' = []"
    using step by (auto simp: tail_resume_def tail_over_def cursor_valid_def split: if_splits list.splits)
qed

section \<open>Publishing\<close>

lemma push_entries:
  "(if 10000 < length (es @ [e]) then tl (es @ [e]) else es @ [e]) \<noteq> []"
  by (cases es) auto

text \<open>An accepted event: the thread's own history grows, and at most one other loses its entries.\<close>

lemma thread_publish_accepted:
  assumes accepted: "thread_publish show_nat x input g b = (Inr (Some e), b')" and ok: "retained_ok b"
  shows "te_seq e = Suc (th_seq (history_of x b))"
    and "\<exists>d. history_of x b' = wake_all ((history_of x b)\<lparr>th_seq := Suc (th_seq (history_of x b)), th_deleted := d,
             th_entries := (if 10000 < length (th_entries (history_of x b) @ [e])
                            then tl (th_entries (history_of x b) @ [e]) else th_entries (history_of x b) @ [e])\<rparr>)"
    and "y \<noteq> x \<Longrightarrow> history_of y b' = history_of y b \<or>
           history_of y b' = wake_all ((history_of y b)\<lparr>th_entries := []\<rparr>)"
    and "retained_ok b'"
proof -
  let ?h = "history_of x b" and ?R = "retain x (tb_retained b)"
  let ?es = "if 10000 < length (th_entries ?h @ [e]) then tl (th_entries ?h @ [e]) else th_entries ?h @ [e]"
  obtain d where e: "te_seq e = Suc (th_seq ?h)"
    and b': "b' = (let b2 = evict_oldest ((set_history x (?h\<lparr>th_seq := Suc (th_seq ?h), th_deleted := d, th_entries := ?es\<rparr>)
                       (set_history x ?h b))\<lparr>tb_retained := ?R\<rparr>)
                   in set_history x (wake_all (history_of x b2)) b2)"
    using accepted by (auto simp: thread_publish_def Let_def split: if_splits option.splits)
  show "te_seq e = Suc (th_seq ?h)" by (rule e)
  have distinct: "distinct ?R" and len: "length (tb_retained b) \<le> 50"
    and iff: "\<And>y. y \<in> set (tb_retained b) \<longleftrightarrow> th_entries (history_of y b) \<noteq> []"
    using ok by (auto simp: retained_ok_def retain_def distinct_removeAll)
  have not_hd: "hd ?R \<noteq> x" if "50 < length ?R"
  proof -
    have "removeAll x (tb_retained b) \<noteq> []" using that by (auto simp: retain_def)
    then have "hd ?R \<in> set (removeAll x (tb_retained b))" by (simp add: retain_def hd_append hd_in_set del: set_removeAll)
    then show ?thesis by auto
  qed
  show own: "\<exists>d. history_of x b' = wake_all (?h\<lparr>th_seq := Suc (th_seq ?h), th_deleted := d, th_entries := ?es\<rparr>)"
  proof (intro exI [of _ d])
    have "\<not> (50 < length ?R \<and> x = hd ?R)" using not_hd by metis
    then show "history_of x b' = wake_all (?h\<lparr>th_seq := Suc (th_seq ?h), th_deleted := d, th_entries := ?es\<rparr>)"
      by (auto simp: b' Let_def evict_oldest_history)
  qed
  have other: "history_of y b' = (if 50 < length ?R \<and> y = hd ?R then wake_all ((history_of y b)\<lparr>th_entries := []\<rparr>)
      else history_of y b)" if "y \<noteq> x" for y
    using that by (simp add: b' Let_def evict_oldest_history)
  then show "y \<noteq> x \<Longrightarrow> history_of y b' = history_of y b \<or>
      history_of y b' = wake_all ((history_of y b)\<lparr>th_entries := []\<rparr>)" by simp
  have retained: "tb_retained b' = (if 50 < length ?R then tl ?R else ?R)"
    by (simp add: b' Let_def evict_oldest_retained)
  have "length (removeAll x (tb_retained b)) \<le> 50"
    unfolding removeAll_filter_not_eq using len by (meson length_filter_le order_trans)
  then have len_R: "length ?R \<le> 51" by (simp add: retain_def)
  have x_in: "x \<in> set (tb_retained b')"
  proof -
    have "x \<in> set ?R" by (simp add: retain_def)
    then show ?thesis using retained not_hd by (cases ?R) auto
  qed
  have x_entries: "th_entries (history_of x b') \<noteq> []" using own push_entries [of "th_entries ?h" e] by auto
  have in_iff: "y \<in> set (tb_retained b') \<longleftrightarrow> th_entries (history_of y b') \<noteq> []" for y
  proof (cases "y = x")
    case False
    have "y \<in> set ?R \<longleftrightarrow> th_entries (history_of y b) \<noteq> []" using False iff by (simp add: retain_def)
    moreover have "y \<in> set (tl ?R) \<longleftrightarrow> y \<in> set ?R \<and> y \<noteq> hd ?R"
      using distinct by (cases ?R) auto
    ultimately show ?thesis using False by (auto simp: retained other)
  qed (use x_in x_entries in simp)
  show "retained_ok b'"
    using in_iff distinct len_R by (auto simp: retained_ok_def retained distinct_tl)
qed

lemma thread_publish_refused:
  assumes "thread_publish show_nat x input g b = (r, b')" "\<And>e. r \<noteq> Inr (Some e)"
  shows "history_of y b' = history_of y b" and "tb_retained b' = tb_retained b"
  using assms by (auto simp: thread_publish_def Let_def split: if_splits option.splits)

lemma ts_publish_tails [simp]:
  "ts_tails (ts_publish show_nat x input g S) = ts_tails S"
  "ts_start (ts_publish show_nat x input g S) = ts_start S"
  "ts_delivered (ts_publish show_nat x input g S) = ts_delivered S"
  by (simp_all add: ts_publish_def split: prod.split sum.split option.split)

section \<open>Every reachable state\<close>

text \<open>The invariant reads the bus through its histories and its retained list only.\<close>

lemma thread_inv_same_histories:
  assumes "thread_inv S" "\<And>y. history_of y b = hist S y" "tb_retained b = tb_retained (ts_bus S)"
  shows "thread_inv (S\<lparr>ts_bus := b\<rparr>)"
  using assms by (simp add: thread_inv_def retained_ok_def readers_ok_def)

lemma ts_publish_inv:
  assumes inv: "thread_inv S"
  shows "thread_inv (ts_publish show_nat x input g S)"
proof -
  obtain r b where pub: "thread_publish show_nat x input g (ts_bus S) = (r, b)" by fastforce
  show ?thesis
  proof (cases "\<exists>e. r = Inr (Some e)")
    case False
    then have "ts_publish show_nat x input g S = S\<lparr>ts_bus := b\<rparr>"
      by (simp add: ts_publish_def pub split: sum.split option.split)
    then show ?thesis
      using thread_inv_same_histories [OF inv] thread_publish_refused [OF pub] False by simp
  next
    case True
    then obtain e where acc: "thread_publish show_nat x input g (ts_bus S) = (Inr (Some e), b)" using pub by auto
    let ?S = "ts_publish show_nat x input g S" and ?h = "hist S x"
    have S': "ts_bus ?S = b" "ts_log ?S = (ts_log S)(x := ts_log S x @ [(th_generation ?h, e)])"
      "ts_tails ?S = ts_tails S" "ts_start ?S = ts_start S" "ts_delivered ?S = ts_delivered S"
      by (simp_all add: ts_publish_def acc)
    have retained: "retained_ok (ts_bus S)" and histories: "\<And>y. history_ok (hist S y) (ts_log S y)"
      using inv by (simp_all add: thread_inv_def)
    note effect = thread_publish_accepted [OF acc retained]
    obtain d where own: "history_of x b = wake_all (?h\<lparr>th_seq := Suc (th_seq ?h), th_deleted := d,
        th_entries := (if 10000 < length (th_entries ?h @ [e]) then tl (th_entries ?h @ [e]) else th_entries ?h @ [e])\<rparr>)"
      using effect(2) by blast
    have "history_ok (hist ?S y) (ts_log ?S y)" for y
      using history_ok_push [OF histories effect(1), of d] own histories [of y] effect(3) [of y]
      by (cases "y = x") (auto simp: S' history_ok_cleared)
    moreover have "tail_ok t (ts_start ?S k) (ts_delivered ?S k) (ts_log ?S (tl_thread t))"
      if "ts_tails ?S k = Some t" for k t
      using that inv tail_ok_append [of t "ts_start S k" "ts_delivered S k" "ts_log S x"]
      by (cases "tl_thread t = x") (auto simp: S' thread_inv_def)
    moreover have "readers_ok ?S"
    proof -
      have "th_readers (history_of y b) \<noteq> [] \<Longrightarrow> history_of y b = hist S y" for y
        using own effect(3) [of y] by (cases "y = x") auto
      then show ?thesis using inv unfolding thread_inv_def readers_ok_def S' by (metis empty_iff empty_set)
    qed
    ultimately show ?thesis using effect(4) by (simp add: thread_inv_def S')
  qed
qed

lemma ts_delete_inv:
  assumes inv: "thread_inv S"
  shows "thread_inv (ts_delete x S)"
proof -
  let ?S = "ts_delete x S" and ?h = "hist S x"
  have h: "hist ?S y = (if y = x then wake_all (?h\<lparr>th_deleted := True, th_generation := Suc (th_generation ?h), th_entries := []\<rparr>)
      else hist S y)" for y
    by (simp add: ts_delete_def thread_bus_delete_def Let_def)
  have rest: "ts_log ?S = ts_log S" "ts_tails ?S = ts_tails S" "ts_start ?S = ts_start S" "ts_delivered ?S = ts_delivered S"
    "tb_retained (ts_bus ?S) = removeAll x (tb_retained (ts_bus S))"
    by (simp_all add: ts_delete_def thread_bus_delete_def Let_def)
  have ok: "retained_ok (ts_bus S)" using inv by (simp add: thread_inv_def)
  then have "length (removeAll x (tb_retained (ts_bus S))) \<le> 50"
    unfolding removeAll_filter_not_eq retained_ok_def by (meson length_filter_le order_trans)
  then have "retained_ok (ts_bus ?S)"
    using ok by (auto simp: retained_ok_def rest h distinct_removeAll)
  moreover have "readers_ok ?S"
    using inv by (auto simp: thread_inv_def readers_ok_def rest h)
  ultimately show ?thesis
    using inv by (simp add: thread_inv_def rest h history_ok_deleted)
qed

lemma ts_subscribe_inv:
  assumes inv: "thread_inv S" and k: "ts_tails S k = None"
  shows "thread_inv (ts_subscribe k x a S)"
proof -
  let ?S = "ts_subscribe k x a S"
  have h: "hist ?S y = hist S y" "tb_retained (ts_bus ?S) = tb_retained (ts_bus S)" "ts_log ?S = ts_log S" for y
    by (simp_all add: ts_subscribe_def Let_def)
  have "tail_ok (start_tail x a (hist S x)) (tl_cursor (start_tail x a (hist S x))) [] lg" for lg
    by (simp add: tail_ok_def start_tail_def Let_def)
  moreover have "readers_ok ?S"
    using inv k unfolding thread_inv_def readers_ok_def h by (fastforce simp: ts_subscribe_def Let_def)
  moreover have "tail_ok u (ts_start ?S j) (ts_delivered ?S j) (ts_log ?S (tl_thread u))"
    if "ts_tails ?S j = Some u" for j u
    using that inv calculation(1) by (cases "j = k") (auto simp: ts_subscribe_def Let_def thread_inv_def)
  ultimately show ?thesis
    using inv by (simp add: thread_inv_def retained_ok_def h)
qed

lemma ts_resume_inv:
  assumes inv: "thread_inv S" and t: "ts_tails S k = Some t" and ready: "tail_runnable k t S"
  shows "thread_inv (ts_resume k t S)"
proof -
  let ?S = "ts_resume k t S" and ?x = "tl_thread t"
  obtain found t' parks where step: "tail_resume (hist S ?x) t = (found, t', parks)" by (metis prod_cases3)
  have ok: "tail_ok t (ts_start S k) (ts_delivered S k) (ts_log S ?x)" and hok: "history_ok (hist S ?x) (ts_log S ?x)"
    using inv t by (simp_all add: thread_inv_def)
  note effect = tail_resume_ok [OF ok hok step]
  have h: "hist ?S y = (if y = ?x \<and> parks then (hist S ?x)\<lparr>th_readers := th_readers (hist S ?x) @ [k]\<rparr> else hist S y)"
    "tb_retained (ts_bus ?S) = tb_retained (ts_bus S)" "ts_log ?S = ts_log S" "ts_start ?S = ts_start S"
    "ts_tails ?S = (ts_tails S)(k \<mapsto> t')"
    "ts_delivered ?S = (ts_delivered S)(k := (case found of Some e \<Rightarrow> ts_delivered S k @ [e] | None \<Rightarrow> ts_delivered S k))" for y
    by (simp_all add: ts_resume_def step Let_def)
  have not_reader: "k \<notin> set (th_readers (hist S y))" for y
    using inv t ready unfolding thread_inv_def readers_ok_def tail_runnable_def by fastforce
  have "readers_ok ?S"
    unfolding readers_ok_def
  proof (intro allI ballI)
    fix y j
    assume j: "j \<in> set (th_readers (hist ?S y))"
    have same: "tail_over (hist ?S y) u = tail_over (hist S y) u" "th_seq (hist ?S y) = th_seq (hist S y)" for u
      by (simp_all add: h tail_over_def)
    show "\<exists>u. ts_tails ?S j = Some u \<and> tl_thread u = y \<and> tl_state u = TailWaiting \<and>
        \<not> tail_over (hist ?S y) u \<and> tl_cursor u = th_seq (hist ?S y) \<and> tl_page u = []"
    proof (cases "j = k")
      case True
      then have "y = ?x \<and> parks" using j not_reader [of y] by (auto simp: h split: if_splits)
      then show ?thesis using effect(2,3) True by (simp add: same) (simp add: h)
    next
      case False
      then have "j \<in> set (th_readers (hist S y))" using j by (auto simp: h split: if_splits)
      then show ?thesis using inv False unfolding thread_inv_def readers_ok_def same by (simp add: h)
    qed
  qed
  moreover have "history_ok (hist ?S y) (ts_log ?S y)" for y
    using inv by (simp add: h thread_inv_def)
  moreover have "retained_ok (ts_bus ?S)"
    using inv by (simp add: h thread_inv_def retained_ok_def)
  moreover have "tail_ok u (ts_start ?S j) (ts_delivered ?S j) (ts_log ?S (tl_thread u))"
    if "ts_tails ?S j = Some u" for j u
    using that inv effect(1,2) by (cases "j = k") (auto simp: h thread_inv_def)
  ultimately show ?thesis
    by (simp add: thread_inv_def)
qed

lemma ts_abort_inv:
  assumes inv: "thread_inv S" and t: "ts_tails S k = Some t"
  shows "thread_inv (ts_abort k t S)"
proof -
  let ?S = "ts_abort k t S" and ?x = "tl_thread t"
  have h: "hist ?S y = (if y = ?x then (hist S ?x)\<lparr>th_readers := removeAll k (th_readers (hist S ?x))\<rparr> else hist S y)"
    "tb_retained (ts_bus ?S) = tb_retained (ts_bus S)" "ts_log ?S = ts_log S" "ts_start ?S = ts_start S"
    "ts_tails ?S = (ts_tails S)(k \<mapsto> t\<lparr>tl_aborted := True\<rparr>)" "ts_delivered ?S = ts_delivered S" for y
    by (simp_all add: ts_abort_def Let_def)
  have "readers_ok ?S"
    unfolding readers_ok_def
  proof (intro allI ballI)
    fix y j
    assume j: "j \<in> set (th_readers (hist ?S y))"
    then have old: "j \<in> set (th_readers (hist S y))" by (auto simp: h split: if_splits)
    then obtain u where u: "ts_tails S j = Some u" "tl_thread u = y" "tl_state u = TailWaiting"
        "\<not> tail_over (hist S y) u" "tl_cursor u = th_seq (hist S y)" "tl_page u = []"
      using inv unfolding thread_inv_def readers_ok_def by blast
    have "j \<noteq> k" using j u(1,2) t by (auto simp: h split: if_splits)
    moreover have "tail_over (hist ?S y) u = tail_over (hist S y) u" "th_seq (hist ?S y) = th_seq (hist S y)"
      by (simp_all add: h)
    ultimately show "\<exists>u. ts_tails ?S j = Some u \<and> tl_thread u = y \<and> tl_state u = TailWaiting \<and>
        \<not> tail_over (hist ?S y) u \<and> tl_cursor u = th_seq (hist ?S y) \<and> tl_page u = []"
      using u by (simp add: h(5))
  qed
  moreover have "history_ok (hist ?S y) (ts_log ?S y)" for y
    using inv by (simp add: h thread_inv_def)
  moreover have "retained_ok (ts_bus ?S)"
    using inv by (simp add: h thread_inv_def retained_ok_def)
  moreover have "tail_ok u (ts_start ?S j) (ts_delivered ?S j) (ts_log ?S (tl_thread u))"
    if "ts_tails ?S j = Some u" for j u
    using that inv t by (cases "j = k") (auto simp: h thread_inv_def)
  ultimately show ?thesis
    by (simp add: thread_inv_def)
qed

lemma thread_step_inv: "thread_step S S' \<Longrightarrow> thread_inv S \<Longrightarrow> thread_inv S'"
  by (induction rule: thread_step.induct)
    (simp_all add: ts_publish_inv ts_delete_inv ts_subscribe_inv ts_resume_inv ts_abort_inv)

lemma thread_initial_inv: "thread_initial S \<Longrightarrow> thread_inv S"
  by (simp add: thread_initial_def thread_inv_def history_ok_def log_numbered_def retained_ok_def readers_ok_def
      history_of_def new_thread_bus_def new_history_def)

lemma thread_reachable_inv: "thread_reachable S \<Longrightarrow> thread_inv S"
  by (induction rule: thread_reachable.induct) (auto intro: thread_initial_inv thread_step_inv)

section \<open>Properties\<close>

lemma log_numbered_drop_take:
  "log_numbered lg \<Longrightarrow> c \<le> length lg \<Longrightarrow> map (te_seq \<circ> snd) (drop a (take c lg)) = [Suc a..<Suc c]"
proof -
  assume lg: "log_numbered lg" and c: "c \<le> length lg"
  have "map (te_seq \<circ> snd) (drop a (take c lg)) = drop a (take c (map (te_seq \<circ> snd) lg))"
    by (simp add: drop_map take_map)
  also have "\<dots> = drop a (take c [1..<Suc (length lg)])" using lg by (simp only: log_numbered_def)
  also have "\<dots> = [Suc a..<Suc c]" using c by (simp add: take_upt del: upt_Suc)
  finally show ?thesis .
qed

text \<open>
  A tail yields an unbroken run of the thread's events: exactly those accepted with the numbers
  from just after its starting cursor up to its current one, each once and in order, and every one of
  them accepted in the incarnation of the thread the tail was opened on, whatever was published,
  evicted, deleted and created again in between.
\<close>

theorem thread_tail_contiguous:
  assumes "thread_reachable S" and "ts_tails S k = Some t"
  shows "map (Pair (tl_generation t)) (ts_delivered S k) =
           drop (ts_start S k) (take (tl_cursor t) (ts_log S (tl_thread t))) \<and>
         map te_seq (ts_delivered S k) = [Suc (ts_start S k)..<Suc (tl_cursor t)]"
proof -
  let ?lg = "ts_log S (tl_thread t)"
  have inv: "thread_inv S" by (rule thread_reachable_inv [OF assms(1)])
  then have ok: "tail_ok t (ts_start S k) (ts_delivered S k) ?lg" and num: "log_numbered ?lg"
    using assms(2) by (simp_all add: thread_inv_def history_ok_def)
  have "map te_seq (ts_delivered S k) = map (te_seq \<circ> snd) (map (Pair (tl_generation t)) (ts_delivered S k))"
    by simp
  also have "\<dots> = map (te_seq \<circ> snd) (drop (ts_start S k) (take (tl_cursor t) ?lg))"
    using ok by (simp only: tail_ok_def)
  also have "\<dots> = [Suc (ts_start S k)..<Suc (tl_cursor t)]"
  proof (cases "tl_cursor t \<le> length ?lg")
    case False
    with ok have "ts_start S k = tl_cursor t" by (auto simp: tail_ok_def)
    then show ?thesis by simp
  qed (rule log_numbered_drop_take [OF num])
  finally show ?thesis using ok by (simp add: tail_ok_def)
qed

text \<open>
  No lost wake-up: a tail that is parked has been told everything. It waits at the thread's last
  number, on a thread that is not deleted, in the current generation and unaborted; any publish,
  deletion or abort that changes this unregisters its wake-up and so makes it runnable.
\<close>

theorem thread_no_lost_wakeup:
  assumes "thread_reachable S" and "ts_tails S k = Some t" and "tl_state t = TailWaiting"
    and "\<not> tail_runnable k t S"
  shows "tl_cursor t = th_seq (hist S (tl_thread t)) \<and> \<not> th_deleted (hist S (tl_thread t)) \<and>
         th_generation (hist S (tl_thread t)) = tl_generation t \<and> \<not> tl_aborted t"
proof -
  have "k \<in> set (th_readers (hist S (tl_thread t)))" using assms(3,4) by (simp add: tail_runnable_def)
  moreover have "readers_ok S" using thread_reachable_inv [OF assms(1)] by (simp add: thread_inv_def)
  ultimately show ?thesis using assms(2) by (force simp: readers_ok_def tail_over_def)
qed

text \<open>
  What the thread bus keeps is bounded: at most 50 threads hold replayable events, each at most
  10,000 of them, and what a thread holds are its latest events, numbered without a gap up to its
  high-water mark.
\<close>

theorem thread_bus_bounded:
  assumes "thread_reachable S"
  shows "card {x. th_entries (hist S x) \<noteq> []} \<le> 50 \<and>
         length (th_entries (hist S y)) \<le> 10000 \<and>
         map te_seq (th_entries (hist S y)) =
           [Suc (th_seq (hist S y)) - length (th_entries (hist S y))..<Suc (th_seq (hist S y))]"
proof -
  let ?h = "hist S y" and ?lg = "ts_log S y"
  have inv: "thread_inv S" by (rule thread_reachable_inv [OF assms])
  then have ok: "history_ok ?h ?lg" and retained: "retained_ok (ts_bus S)" by (simp_all add: thread_inv_def)
  have "{x. th_entries (hist S x) \<noteq> []} = set (tb_retained (ts_bus S))" using retained by (auto simp: retained_ok_def)
  then have threads: "card {x. th_entries (hist S x) \<noteq> []} \<le> 50" using retained by (simp add: retained_ok_def distinct_card)
  have "map te_seq (th_entries ?h) = map (te_seq \<circ> snd) (map (Pair (th_generation ?h)) (th_entries ?h))" by simp
  also have "\<dots> = map (te_seq \<circ> snd) (drop (length ?lg - length (th_entries ?h)) (take (length ?lg) ?lg))"
    using ok by (simp add: history_ok_def)
  also have "\<dots> = [Suc (length ?lg - length (th_entries ?h))..<Suc (length ?lg)]"
    using ok by (intro log_numbered_drop_take) (simp_all add: history_ok_def)
  finally have "map te_seq (th_entries ?h) = [Suc (length ?lg) - length (th_entries ?h)..<Suc (length ?lg)]"
    using ok by (simp add: history_ok_def Suc_diff_le)
  then show ?thesis using threads ok by (simp add: history_ok_def)
qed

section \<open>A deleted incarnation stays deleted\<close>

inductive thread_steps :: "thread_bus_system \<Rightarrow> thread_bus_system \<Rightarrow> bool" where
  none: "thread_steps S S"
| more: "thread_steps S S1 \<Longrightarrow> thread_step S1 S2 \<Longrightarrow> thread_steps S S2"

lemma generation_publish:
  "th_generation (history_of y (snd (thread_publish show_nat x input g b))) = th_generation (history_of y b)"
  by (auto simp: thread_publish_def Let_def evict_oldest_history split: option.splits)

lemma generation_grows: "thread_step S S' \<Longrightarrow> th_generation (hist S y) \<le> th_generation (hist S' y)"
proof (induction rule: thread_step.induct)
  case (publishes S show_nat x input g)
  have "ts_bus (ts_publish show_nat x input g S) = snd (thread_publish show_nat x input g (ts_bus S))"
    by (simp add: ts_publish_def split: prod.split sum.split option.split)
  then show ?case by (simp add: generation_publish)
next
  case (resumes S k t)
  then show ?case by (simp add: ts_resume_def Let_def split: prod.split)
qed (simp_all add: ts_delete_def thread_bus_delete_def ts_subscribe_def ts_abort_def Let_def)

lemma generation_grows_steps: "thread_steps S S' \<Longrightarrow> th_generation (hist S y) \<le> th_generation (hist S' y)"
  by (induction rule: thread_steps.induct) (auto dest: generation_grows [of _ _ y] intro: order_trans)

text \<open>
  Deleting a thread fences its writers: a publisher that still carries the generation from before
  the deletion is refused at every later moment, also after the thread was created again, and the
  refusal leaves every history as it was.
\<close>

theorem deleted_generation_fenced:
  assumes "thread_steps (ts_delete x S) S'" and "g \<le> th_generation (hist S x)"
  shows "fst (thread_publish show_nat x input (Some g) (ts_bus S')) = Inr None \<and>
         history_of y (snd (thread_publish show_nat x input (Some g) (ts_bus S'))) = hist S' y"
proof -
  have "th_generation (hist (ts_delete x S) x) = Suc (th_generation (hist S x))"
    by (simp add: ts_delete_def thread_bus_delete_def Let_def)
  with generation_grows_steps [OF assms(1), of x] assms(2) have "g \<noteq> th_generation (hist S' x)" by simp
  then show ?thesis by (simp add: thread_publish_def Let_def)
qed

section \<open>Witnesses\<close>

definition digit :: "nat \<Rightarrow> string" where
  "digit n = (if n = 1 then ''1'' else ''2'')"

definition created_input :: jsobj where
  "created_input = [(''kind'', JStr ''state''), (''operation'', JStr ''created'')]"

definition empty_thread_system :: thread_bus_system where
  "empty_thread_system = \<lparr>ts_bus = new_thread_bus, ts_tails = Map.empty, ts_start = (\<lambda>_. 0),
     ts_delivered = (\<lambda>_. []), ts_log = (\<lambda>_. [])\<rparr>"

definition published_thread_system :: thread_bus_system where
  "published_thread_system = ts_publish digit ''t1'' created_input None (ts_subscribe 7 ''t1'' None empty_thread_system)"

definition tail0 :: thread_tail where
  "tail0 = start_tail ''t1'' None (hist empty_thread_system ''t1'')"

definition read_thread_system :: thread_bus_system where
  "read_thread_system = ts_resume 7 tail0 published_thread_system"

definition created_event :: thread_event where
  "created_event = \<lparr>te_seq = 1, te_value = JObj (created_input @ [(''seq'', seq_value 1)])\<rparr>"

definition tail1 :: thread_tail where
  "tail1 = take_entry created_event [] tail0"

definition waiting_thread_system :: thread_bus_system where
  "waiting_thread_system = ts_resume 7 tail1 read_thread_system"

lemma created_value:
  "serialize_wire_json (JObj (jm_set ''seq'' (seq_value 1) created_input)) =
     Some (JObj (created_input @ [(''seq'', seq_value 1)]))"
  by code_simp

lemma empty_histories: "hist empty_thread_system y = new_history"
  by (simp add: history_of_def empty_thread_system_def new_thread_bus_def)

lemma subscribed_histories: "hist (ts_subscribe 7 ''t1'' None empty_thread_system) y = new_history"
  by (simp add: ts_subscribe_def Let_def empty_histories)

lemma published_effect:
  "hist published_thread_system ''t1'' =
     \<lparr>th_seq = 1, th_generation = 0, th_entries = [created_event], th_readers = [], th_deleted = False\<rparr>"
  "ts_tails published_thread_system 7 = Some tail0" "ts_delivered published_thread_system 7 = []"
proof -
  have stamp: "stamp_event digit 1 (JObj (created_input @ [(''seq'', seq_value 1)])) =
      JObj (created_input @ [(''seq'', seq_value 1)])"
    by code_simp
  have created: "is_created_event created_input" by code_simp
  have retained: "tb_retained (ts_bus (ts_subscribe 7 ''t1'' None empty_thread_system)) = []"
    by (simp add: ts_subscribe_def Let_def empty_thread_system_def new_thread_bus_def)
  show "hist published_thread_system ''t1'' =
     \<lparr>th_seq = 1, th_generation = 0, th_entries = [created_event], th_readers = [], th_deleted = False\<rparr>"
    using created_value stamp created
    by (simp add: published_thread_system_def ts_publish_def thread_publish_def Let_def subscribed_histories
        new_history_def created_event_def evict_oldest_history retained retain_def wake_all_def)
  show "ts_tails published_thread_system 7 = Some tail0" "ts_delivered published_thread_system 7 = []"
    by (simp_all add: published_thread_system_def ts_subscribe_def Let_def tail0_def)
qed

lemma tail0_simps: "tl_thread tail0 = ''t1''" "tl_cursor tail0 = 0" "tl_page tail0 = []" "tl_aborted tail0 = False"
  "tl_generation tail0 = 0" "tl_state tail0 = TailStarting"
  by (simp_all add: tail0_def start_tail_def Let_def empty_histories new_history_def first_seq_def cursor_valid_def)

lemma read_effect:
  "hist read_thread_system ''t1'' = hist published_thread_system ''t1''"
  "ts_tails read_thread_system 7 = Some tail1" "ts_delivered read_thread_system 7 = [created_event]"
  by (simp_all add: read_thread_system_def ts_resume_def Let_def tail0_simps published_effect tail_resume_def
      tail_over_def cursor_valid_def first_seq_def created_event_def tail1_def)

lemma waiting_effect:
  "ts_tails waiting_thread_system 7 = Some (tail1\<lparr>tl_state := TailWaiting\<rparr>)"
  "ts_delivered waiting_thread_system 7 = [created_event]"
  "th_readers (hist waiting_thread_system ''t1'') = [7]"
  by (simp_all add: waiting_thread_system_def ts_resume_def Let_def tail0_simps read_effect published_effect tail_resume_def
      tail_over_def cursor_valid_def first_seq_def created_event_def tail1_def take_entry_def)

lemma waiting_reachable: "thread_reachable waiting_thread_system"
proof -
  have "thread_reachable empty_thread_system"
    by (rule thread_reachable.initial) (simp add: thread_initial_def empty_thread_system_def)
  then have "thread_reachable (ts_subscribe 7 ''t1'' None empty_thread_system)"
    by (rule thread_reachable.step) (rule subscribes, simp add: empty_thread_system_def)
  then have "thread_reachable published_thread_system"
    unfolding published_thread_system_def by (rule thread_reachable.step) (rule publishes)
  then have "thread_reachable read_thread_system"
    unfolding read_thread_system_def
    by (rule thread_reachable.step) (rule resumes, simp_all add: published_effect tail_runnable_def tail0_simps)
  then show ?thesis
    unfolding waiting_thread_system_def
    by (rule thread_reachable.step) (rule resumes, simp_all add: read_effect tail_runnable_def tail1_def take_entry_def)
qed

theorem thread_tail_contiguous_witness:
  "map te_seq (ts_delivered waiting_thread_system 7) = [Suc (ts_start waiting_thread_system 7)..<2]"
  using thread_tail_contiguous [OF waiting_reachable waiting_effect(1)]
  by (simp add: tail1_def take_entry_def created_event_def numeral_2_eq_2)

theorem thread_no_lost_wakeup_witness: "th_seq (hist waiting_thread_system ''t1'') = 1"
proof -
  have "\<not> tail_runnable 7 (tail1\<lparr>tl_state := TailWaiting\<rparr>) waiting_thread_system"
    by (simp add: tail_runnable_def tail1_def take_entry_def tail0_simps waiting_effect)
  with thread_no_lost_wakeup [OF waiting_reachable waiting_effect(1)] show ?thesis
    by (simp add: tail1_def take_entry_def tail0_simps created_event_def)
qed

theorem thread_bus_bounded_witness: "length (th_entries (hist waiting_thread_system ''t1'')) \<le> 10000"
  using thread_bus_bounded [OF waiting_reachable] by blast

theorem deleted_generation_fenced_witness:
  "fst (thread_publish digit ''t1'' created_input (Some 0)
     (ts_bus (ts_publish digit ''t1'' created_input None (ts_delete ''t1'' published_thread_system)))) = Inr None"
  using deleted_generation_fenced [where x = "''t1''" and g = 0, OF more [OF none publishes] le0] by simp

end
