(* ===== verification/RunQueue.thy ===== *)
theory RunQueue
  imports JsValue
begin

text \<open>
  \<^verbatim>\<open>MemoryRunQueue\<close> and \<^verbatim>\<open>MemoryRunConsumer\<close> of \<^verbatim>\<open>packages/storage-memory/src/memory-queue.ts\<close>
  and \<^verbatim>\<open>consumePartitionedMemoryRuns\<close> of
  \<^verbatim>\<open>packages/storage-memory/src/partitioned-run-consumer.ts\<close>.

  A consumer is an asynchronous loop: one turn of it (from one \<^verbatim>\<open>while\<close> test to the next, or to the
  \<^verbatim>\<open>await\<close> it suspends in) is one operation, and so is each callback: a delay timer, the outcome of
  a run, its \<^verbatim>\<open>finally\<close>, the timer that releases a busy thread. The resolver a parked loop puts
  among the waiters is the number of its consumer; resolving it is removing it. A timer is the run
  and the instant it is held until.
\<close>

record queued_run =
  qr_run_id :: ident
  qr_thread_id :: ident

record run_queue =
  rq_items :: "queued_run list"
  rq_waiters :: "nat list"
  rq_active :: "ident list"
  rq_delayed :: "(ident, queued_run \<times> instant) jsmap"
  rq_claimed :: "ident list"

text \<open>
  What became of a run in flight: its processor still runs; it is done (or failed); or, partitioned
  consumption only, the processor could not start it and it was put back at the head of the queue.
\<close>

datatype task_phase = Executing | Handled | HandedBack

record run_task =
  tk_run :: queued_run
  tk_phase :: task_phase

datatype loop_state = LoopReady | LoopRacing | LoopParked | LoopExited

record run_consumer =
  rc_consuming :: bool
  rc_running :: "run_task list"
  rc_deferred :: "ident list"
  rc_concurrency :: nat
  rc_loop :: loop_state

definition new_run_queue :: run_queue where
  "new_run_queue = \<lparr>rq_items = [], rq_waiters = [], rq_active = [], rq_delayed = [], rq_claimed = []\<rparr>"

section \<open>Enqueueing\<close>

text \<open>\<^verbatim>\<open>waiters.shift()?.()\<close>, and waking them all.\<close>

definition wake_one :: "run_queue \<Rightarrow> run_queue" where
  "wake_one q = q\<lparr>rq_waiters := tl (rq_waiters q)\<rparr>"

definition wake_waiters :: "run_queue \<Rightarrow> run_queue" where
  "wake_waiters q = q\<lparr>rq_waiters := []\<rparr>"

definition hold_until :: "queued_run \<Rightarrow> instant \<Rightarrow> run_queue \<Rightarrow> run_queue" where
  "hold_until run due q = q\<lparr>rq_delayed := jm_set (qr_run_id run) (run, due) (rq_delayed q)\<rparr>"

definition enqueue :: "queued_run \<Rightarrow> int option \<Rightarrow> instant \<Rightarrow> run_queue \<Rightarrow> run_queue" where
  "enqueue run delay now q =
     (if qr_run_id run \<in> set (rq_active q) then q
      else if jm_has (rq_delayed q) (qr_run_id run) then q
      else if list_ex (\<lambda>queued. qr_run_id queued = qr_run_id run) (rq_items q) then q
      else if 0 < or_default delay 0 then hold_until run (now + or_default delay 0) q
      else wake_one (q\<lparr>rq_items := rq_items q @ [run]\<rparr>))"

text \<open>The delay timer of a run fires; one that fires early is armed again.\<close>

definition delay_timer :: "ident \<Rightarrow> instant \<Rightarrow> run_queue \<Rightarrow> run_queue" where
  "delay_timer run_id now q =
     (case jm_get (rq_delayed q) run_id of
        None \<Rightarrow> q
      | Some (run, due) \<Rightarrow>
          if now < due then hold_until run due q
          else wake_one (q\<lparr>rq_delayed := jm_delete run_id (rq_delayed q), rq_items := rq_items q @ [run]\<rparr>))"

section \<open>Consumers\<close>

definition new_consumer :: "nat \<Rightarrow> run_consumer" where
  "new_consumer concurrency =
     \<lparr>rc_consuming = True, rc_running = [], rc_deferred = [], rc_concurrency = concurrency, rc_loop = LoopReady\<rparr>"

definition consume :: "nat option \<Rightarrow> run_consumer" where
  "consume concurrency = new_consumer (or_default concurrency 1)"

text \<open>The partitioned consumer refuses anything but a positive integer.\<close>

definition consume_partitioned :: "jsnum option \<Rightarrow> run_consumer option" where
  "consume_partitioned concurrency =
     (case or_default concurrency (Fin 1) of
        Fin r \<Rightarrow> if r = of_int \<lfloor>r\<rfloor> \<and> 1 \<le> r then Some (new_consumer (nat \<lfloor>r\<rfloor>)) else None
      | _ \<Rightarrow> None)"

definition take_run :: "queued_run \<Rightarrow> run_consumer \<Rightarrow> run_consumer" where
  "take_run run c = c\<lparr>rc_running := rc_running c @ [\<lparr>tk_run = run, tk_phase = Executing\<rparr>], rc_loop := LoopReady\<rparr>"

text \<open>A turn of \<^verbatim>\<open>MemoryRunConsumer.#run\<close>.\<close>

definition plain_turn :: "nat \<Rightarrow> run_consumer \<Rightarrow> run_queue \<Rightarrow> run_consumer \<times> run_queue" where
  "plain_turn k c q =
     (if \<not> rc_consuming c then (c\<lparr>rc_loop := LoopExited\<rparr>, q)
      else if rc_concurrency c \<le> length (rc_running c) then (c\<lparr>rc_loop := LoopRacing\<rparr>, q)
      else
        case rq_items q of
          [] \<Rightarrow> (c\<lparr>rc_loop := LoopParked\<rparr>, q\<lparr>rq_waiters := rq_waiters q @ [k]\<rparr>)
        | run # rest \<Rightarrow>
            (take_run run c,
             q\<lparr>rq_items := rest, rq_active := List.insert (qr_run_id run) (rq_active q)\<rparr>))"

text \<open>A turn of the partitioned loop: the first run whose thread nobody holds.\<close>

definition partitioned_turn :: "nat \<Rightarrow> run_consumer \<Rightarrow> run_queue \<Rightarrow> run_consumer \<times> run_queue" where
  "partitioned_turn k c q =
     (if \<not> rc_consuming c then (c\<lparr>rc_loop := LoopExited\<rparr>, q)
      else if rc_concurrency c \<le> length (rc_running c) then (c\<lparr>rc_loop := LoopRacing\<rparr>, q)
      else
        let held = (\<lambda>item. qr_thread_id item \<in> set (rq_claimed q)) in
        case dropWhile held (rq_items q) of
          [] \<Rightarrow> (c\<lparr>rc_loop := LoopParked\<rparr>, q\<lparr>rq_waiters := rq_waiters q @ [k]\<rparr>)
        | run # rest \<Rightarrow>
            (take_run run c,
             q\<lparr>rq_items := takeWhile held (rq_items q) @ rest,
               rq_active := List.insert (qr_run_id run) (rq_active q),
               rq_claimed := List.insert (qr_thread_id run) (rq_claimed q)\<rparr>))"

text \<open>A settled task also ends the race its loop may be waiting in.\<close>

definition end_race :: "run_consumer \<Rightarrow> run_consumer" where
  "end_race c = (if rc_loop c = LoopRacing then c\<lparr>rc_loop := LoopReady\<rparr> else c)"

definition plain_finally :: "run_task \<Rightarrow> run_consumer \<Rightarrow> run_queue \<Rightarrow> run_consumer \<times> run_queue" where
  "plain_finally t c q =
     (end_race (c\<lparr>rc_running := remove1 t (rc_running c)\<rparr>),
      q\<lparr>rq_active := removeAll (qr_run_id (tk_run t)) (rq_active q)\<rparr>)"

text \<open>\<^verbatim>\<open>tryProcess\<close> answers: \<open>False\<close> puts the run back at the head; a throw counts as handled.\<close>

definition set_phase :: "task_phase \<Rightarrow> run_task \<Rightarrow> run_consumer \<Rightarrow> run_consumer" where
  "set_phase p t c =
     c\<lparr>rc_running := map (\<lambda>u. if u = t then t\<lparr>tk_phase := p\<rparr> else u) (rc_running c)\<rparr>"

definition partitioned_outcome :: "bool \<Rightarrow> run_task \<Rightarrow> run_consumer \<Rightarrow> run_queue \<Rightarrow> run_consumer \<times> run_queue" where
  "partitioned_outcome handled t c q =
     (if handled then (set_phase Handled t c, q)
      else (set_phase HandedBack t c, q\<lparr>rq_items := tk_run t # rq_items q\<rparr>))"

definition release_thread :: "ident \<Rightarrow> run_consumer \<Rightarrow> run_queue \<Rightarrow> run_consumer \<times> run_queue" where
  "release_thread thread_id c q =
     (c\<lparr>rc_deferred := removeAll thread_id (rc_deferred c)\<rparr>,
      wake_waiters (q\<lparr>rq_claimed := removeAll thread_id (rq_claimed q)\<rparr>))"

definition partitioned_finally :: "run_task \<Rightarrow> run_consumer \<Rightarrow> run_queue \<Rightarrow> run_consumer \<times> run_queue" where
  "partitioned_finally t c q =
     (let thread_id = qr_thread_id (tk_run t);
          c1 = end_race (c\<lparr>rc_running := remove1 t (rc_running c)\<rparr>);
          q1 = q\<lparr>rq_active := removeAll (qr_run_id (tk_run t)) (rq_active q)\<rparr>;
          (c2, q2) = (if tk_phase t = HandedBack \<and> rc_consuming c
                      then (c1\<lparr>rc_deferred := List.insert thread_id (rc_deferred c1)\<rparr>, q1)
                      else release_thread thread_id c1 q1)
      in (c2, wake_waiters q2))"

definition plain_close :: "run_consumer \<Rightarrow> run_queue \<Rightarrow> run_consumer \<times> run_queue" where
  "plain_close c q = (c\<lparr>rc_consuming := False\<rparr>, wake_waiters q)"

definition partitioned_close :: "run_consumer \<Rightarrow> run_queue \<Rightarrow> run_consumer \<times> run_queue" where
  "partitioned_close c q =
     (let (c1, q1) = fold (\<lambda>thread_id (c, q). release_thread thread_id c q) (rc_deferred c)
                       (c\<lparr>rc_consuming := False\<rparr>, q)
      in (c1, wake_waiters q1))"

end
