(* ===== verification/RunQueueSystem.thy ===== *)
theory RunQueueSystem
  imports RunQueue
begin

text \<open>
  A run queue with its consumers, over every interleaving of enqueues, timers, turns of the loops,
  outcomes and closes. A queue is consumed in one of its two modes; \<open>part\<close> says in which.
\<close>

record queue_system =
  qs_queue :: run_queue
  qs_consumers :: "run_consumer list"

definition update_consumer :: "nat \<Rightarrow> run_consumer \<times> run_queue \<Rightarrow> queue_system \<Rightarrow> queue_system" where
  "update_consumer k cq S = S\<lparr>qs_queue := snd cq, qs_consumers := (qs_consumers S)[k := fst cq]\<rparr>"

definition loop_turn :: "bool \<Rightarrow> nat \<Rightarrow> run_consumer \<Rightarrow> run_queue \<Rightarrow> run_consumer \<times> run_queue" where
  "loop_turn part = (if part then partitioned_turn else plain_turn)"

definition loop_runnable :: "nat \<Rightarrow> queue_system \<Rightarrow> bool" where
  "loop_runnable k S \<longleftrightarrow>
     (case rc_loop (qs_consumers S ! k) of
        LoopReady \<Rightarrow> True
      | LoopParked \<Rightarrow> k \<notin> set (rq_waiters (qs_queue S))
      | _ \<Rightarrow> False)"

inductive queue_step :: "bool \<Rightarrow> queue_system \<Rightarrow> queue_system \<Rightarrow> bool" for part where
  enqueues: "queue_step part S (S\<lparr>qs_queue := enqueue run delay now (qs_queue S)\<rparr>)"
| delay_fires: "queue_step part S (S\<lparr>qs_queue := delay_timer run_id now (qs_queue S)\<rparr>)"
| consumes:
    "(if part then consume_partitioned n = Some c else c = consume m) \<Longrightarrow>
     queue_step part S (S\<lparr>qs_consumers := qs_consumers S @ [c]\<rparr>)"
| turns:
    "k < length (qs_consumers S) \<Longrightarrow> loop_runnable k S \<Longrightarrow>
     queue_step part S (update_consumer k (loop_turn part k (qs_consumers S ! k) (qs_queue S)) S)"
| settles:
    "k < length (qs_consumers S) \<Longrightarrow> t \<in> set (rc_running (qs_consumers S ! k)) \<Longrightarrow> \<not> part \<Longrightarrow>
     queue_step part S (update_consumer k (plain_finally t (qs_consumers S ! k) (qs_queue S)) S)"
| answers:
    "k < length (qs_consumers S) \<Longrightarrow> t \<in> set (rc_running (qs_consumers S ! k)) \<Longrightarrow> part \<Longrightarrow>
     tk_phase t = Executing \<Longrightarrow>
     queue_step part S (update_consumer k (partitioned_outcome handled t (qs_consumers S ! k) (qs_queue S)) S)"
| finishes:
    "k < length (qs_consumers S) \<Longrightarrow> t \<in> set (rc_running (qs_consumers S ! k)) \<Longrightarrow> part \<Longrightarrow>
     tk_phase t \<noteq> Executing \<Longrightarrow>
     queue_step part S (update_consumer k (partitioned_finally t (qs_consumers S ! k) (qs_queue S)) S)"
| releases:
    "k < length (qs_consumers S) \<Longrightarrow> thread_id \<in> set (rc_deferred (qs_consumers S ! k)) \<Longrightarrow> part \<Longrightarrow>
     queue_step part S (update_consumer k (release_thread thread_id (qs_consumers S ! k) (qs_queue S)) S)"
| closes:
    "k < length (qs_consumers S) \<Longrightarrow>
     queue_step part S
       (update_consumer k ((if part then partitioned_close else plain_close) (qs_consumers S ! k) (qs_queue S)) S)"

inductive queue_reachable :: "bool \<Rightarrow> queue_system \<Rightarrow> bool" for part where
  initial: "queue_reachable part \<lparr>qs_queue = new_run_queue, qs_consumers = []\<rparr>"
| step: "queue_reachable part S \<Longrightarrow> queue_step part S S' \<Longrightarrow> queue_reachable part S'"

section \<open>What the invariant speaks of\<close>

definition tasks_in :: "run_consumer list \<Rightarrow> run_task list" where
  "tasks_in cs = concat (map rc_running cs)"

abbreviation task_id :: "run_task \<Rightarrow> ident" where
  "task_id t \<equiv> qr_run_id (tk_run t)"

abbreviation task_thread :: "run_task \<Rightarrow> ident" where
  "task_thread t \<equiv> qr_thread_id (tk_run t)"

text \<open>The threads a consumer holds: those of its runs in flight and those it releases later.\<close>

definition held_in :: "run_consumer \<Rightarrow> ident list" where
  "held_in c = map task_thread (rc_running c) @ rc_deferred c"

definition threads_in :: "run_consumer list \<Rightarrow> ident list" where
  "threads_in cs = concat (map held_in cs)"

definition available :: "bool \<Rightarrow> run_queue \<Rightarrow> queued_run list" where
  "available part q =
     (if part then filter (\<lambda>r. qr_thread_id r \<notin> set (rq_claimed q)) (rq_items q) else rq_items q)"

text \<open>A consumer whose next turn takes a run, if one is available.\<close>

definition takes_next :: "queue_system \<Rightarrow> nat \<Rightarrow> bool" where
  "takes_next S k \<longleftrightarrow>
     k < length (qs_consumers S) \<and> loop_runnable k S \<and> rc_consuming (qs_consumers S ! k) \<and>
     length (rc_running (qs_consumers S ! k)) < rc_concurrency (qs_consumers S ! k)"

definition ids_ok :: "bool \<Rightarrow> run_queue \<Rightarrow> run_task list \<Rightarrow> bool" where
  "ids_ok part q ts \<longleftrightarrow>
     distinct (map qr_run_id (rq_items q)) \<and> jm_wf (rq_delayed q) \<and>
     (\<forall>i r d. (i, (r, d)) \<in> set (rq_delayed q) \<longrightarrow> qr_run_id r = i) \<and>
     qr_run_id ` set (rq_items q) \<inter> fst ` set (rq_delayed q) = {} \<and>
     distinct (map task_id ts) \<and> set (rq_active q) = task_id ` set ts \<and>
     fst ` set (rq_delayed q) \<inter> task_id ` set ts = {} \<and>
     (\<forall>r \<in> set (rq_items q). \<forall>t \<in> set ts. task_id t = qr_run_id r \<longrightarrow>
        part \<and> tk_run t = r \<and> tk_phase t = HandedBack)"

definition claims_ok :: "run_queue \<Rightarrow> ident list \<Rightarrow> bool" where
  "claims_ok q held \<longleftrightarrow> distinct held \<and> set (rq_claimed q) = set held"

definition waiters_ok :: "queue_system \<Rightarrow> bool" where
  "waiters_ok S \<longleftrightarrow>
     distinct (rq_waiters (qs_queue S)) \<and>
     (\<forall>k \<in> set (rq_waiters (qs_queue S)).
        k < length (qs_consumers S) \<and> rc_loop (qs_consumers S ! k) = LoopParked \<and>
        rc_consuming (qs_consumers S ! k) \<and>
        length (rc_running (qs_consumers S ! k)) < rc_concurrency (qs_consumers S ! k))"

definition supply_ok :: "bool \<Rightarrow> queue_system \<Rightarrow> bool" where
  "supply_ok part S \<longleftrightarrow>
     rq_waiters (qs_queue S) \<noteq> [] \<longrightarrow> length (available part (qs_queue S)) \<le> card (Collect (takes_next S))"

definition queue_inv :: "bool \<Rightarrow> queue_system \<Rightarrow> bool" where
  "queue_inv part S \<longleftrightarrow>
     ids_ok part (qs_queue S) (tasks_in (qs_consumers S)) \<and>
     (part \<longrightarrow> claims_ok (qs_queue S) (threads_in (qs_consumers S))) \<and>
     waiters_ok S \<and> supply_ok part S"

section \<open>One consumer among the others\<close>

lemma tasks_in_append [simp]: "tasks_in (a @ b) = tasks_in a @ tasks_in b"
  by (simp add: tasks_in_def)

lemma tasks_in_Cons [simp]: "tasks_in (c # cs) = rc_running c @ tasks_in cs"
  by (simp add: tasks_in_def)

lemma threads_in_append [simp]: "threads_in (a @ b) = threads_in a @ threads_in b"
  by (simp add: threads_in_def)

lemma threads_in_Cons [simp]: "threads_in (c # cs) = held_in c @ threads_in cs"
  by (simp add: threads_in_def)

lemma in_Nil [simp]: "tasks_in [] = []" "threads_in [] = []"
  by (simp_all add: tasks_in_def threads_in_def)

lemma split_consumers:
  assumes "k < length cs"
  obtains a b where "cs = a @ cs ! k # b" "\<And>c. cs[k := c] = a @ c # b"
  using that [of "take k cs" "drop (Suc k) cs"] assms
  by (simp add: id_take_nth_drop [symmetric] upd_conv_take_nth_drop)

lemma finite_takes_next [simp]: "finite (Collect (takes_next S))"
  by (rule finite_subset [of _ "{..<length (qs_consumers S)}"]) (auto simp: takes_next_def)

section \<open>Identifiers\<close>

text \<open>The run identifiers: what each operation does to the queue and the tasks in flight.\<close>

lemma ids_ok_queue_fields [simp]:
  "ids_ok part (q\<lparr>rq_waiters := w\<rparr>) ts = ids_ok part q ts"
  "ids_ok part (q\<lparr>rq_claimed := cl\<rparr>) ts = ids_ok part q ts"
  by (simp_all add: ids_ok_def)

definition known :: "ident \<Rightarrow> run_queue \<Rightarrow> bool" where
  "known i q \<longleftrightarrow> i \<in> set (rq_active q) \<or> i \<in> fst ` set (rq_delayed q) \<or> i \<in> qr_run_id ` set (rq_items q)"

lemma enqueue_alt:
  "enqueue run delay now q =
     (if known (qr_run_id run) q then q
      else if 0 < or_default delay 0 then hold_until run (now + or_default delay 0) q
      else wake_one (q\<lparr>rq_items := rq_items q @ [run]\<rparr>))"
proof -
  have "list_ex (\<lambda>queued. qr_run_id queued = qr_run_id run) (rq_items q) \<longleftrightarrow> qr_run_id run \<in> qr_run_id ` set (rq_items q)"
    by (auto simp: list_ex_iff intro: rev_image_eqI)
  then show ?thesis by (simp add: enqueue_def known_def jm_has_dom)
qed

lemma ids_ok_push:
  "ids_ok part q ts \<Longrightarrow> \<not> known (qr_run_id run) q \<Longrightarrow> ids_ok part (wake_one (q\<lparr>rq_items := rq_items q @ [run]\<rparr>)) ts"
  by (auto simp: ids_ok_def wake_one_def known_def intro: rev_image_eqI)

lemma ids_ok_undelay: "ids_ok part q ts \<Longrightarrow> ids_ok part (q\<lparr>rq_delayed := jm_delete i (rq_delayed q)\<rparr>) ts"
  by (auto simp: ids_ok_def AList.delete_eq jm_wf_filter)

lemma ids_ok_enqueue: "ids_ok part q ts \<Longrightarrow> ids_ok part (enqueue run delay now q) ts"
proof -
  assume ok: "ids_ok part q ts"
  have "ids_ok part (hold_until run due q) ts" if new: "\<not> known (qr_run_id run) q" for due
  proof -
    have "jm_set (qr_run_id run) (run, due) (rq_delayed q) = rq_delayed q @ [(qr_run_id run, run, due)]"
      using new by (intro jm_set_new) (simp add: known_def)
    then show ?thesis using ok new by (auto simp: ids_ok_def hold_until_def known_def)
  qed
  then show ?thesis using ok ids_ok_push [OF ok] by (simp add: enqueue_alt)
qed

lemma ids_ok_delay_timer: "ids_ok part q ts \<Longrightarrow> ids_ok part (delay_timer run_id now q) ts"
proof -
  assume ok: "ids_ok part q ts"
  show ?thesis
  proof (cases "jm_get (rq_delayed q) run_id")
    case None
    then show ?thesis using ok by (simp add: delay_timer_def)
  next
    case (Some rd)
    obtain run due where rd: "rd = (run, due)" by fastforce
    with Some have member: "(run_id, (run, due)) \<in> set (rq_delayed q)" by (simp add: map_of_SomeD)
    with ok have id: "qr_run_id run = run_id" by (auto simp: ids_ok_def)
    have key: "run_id \<in> fst ` set (rq_delayed q)" using member by force
    show ?thesis
    proof (cases "now < due")
      case True
      have "fst ` set (jm_set run_id (run, due) (rq_delayed q)) = fst ` set (rq_delayed q)"
        using key by (simp add: jm_keys_set insert_absorb)
      moreover have "qr_run_id r = i" if "(i, (r, d)) \<in> set (jm_set run_id (run, due) (rq_delayed q))" for i r d
      proof -
        have "jm_get (jm_set run_id (run, due) (rq_delayed q)) i = Some (r, d)"
          using that ok by (subst jm_get_in [symmetric]) (auto simp: ids_ok_def jm_wf_set)
        then show ?thesis using id ok by (auto simp: jm_get_set ids_ok_def split: if_splits dest: map_of_SomeD)
      qed
      moreover have "delay_timer run_id now q = q\<lparr>rq_delayed := jm_set run_id (run, due) (rq_delayed q)\<rparr>"
        by (simp add: delay_timer_def Some rd True hold_until_def id)
      ultimately show ?thesis
        using ok by (auto simp: ids_ok_def jm_wf_set)
    next
      case False
      let ?q = "q\<lparr>rq_delayed := jm_delete run_id (rq_delayed q)\<rparr>"
      have "\<not> known (qr_run_id run) ?q"
        using ok key unfolding id by (auto simp: ids_ok_def known_def jm_keys_delete)
      from ids_ok_push [OF ids_ok_undelay [OF ok] this] show ?thesis
        using False by (simp add: delay_timer_def Some rd)
    qed
  qed
qed

text \<open>Only which tasks there are counts, not their order.\<close>

lemma ids_ok_perm: "mset ts = mset ts' \<Longrightarrow> ids_ok part q ts = ids_ok part q ts'"
proof -
  assume eq: "mset ts = mset ts'"
  then have "mset (map task_id ts) = mset (map task_id ts')" by simp
  then have "distinct (map task_id ts) = distinct (map task_id ts')" by (rule mset_eq_imp_distinct_iff)
  then show ?thesis using mset_eq_setD [OF eq] by (simp add: ids_ok_def)
qed

lemma ids_ok_take:
  assumes ok: "ids_ok part q ts" and items: "rq_items q = pre @ run # rest" and new: "qr_run_id run \<notin> task_id ` set ts"
  shows "ids_ok part (q\<lparr>rq_items := pre @ rest, rq_active := List.insert (qr_run_id run) (rq_active q)\<rparr>)
           (\<lparr>tk_run = run, tk_phase = Executing\<rparr> # ts)"
  using ok new by (auto simp: ids_ok_def items)

lemma distinct_map_remove1:
  assumes "distinct (map g ts)" "t \<in> set ts"
  shows "distinct (map g (remove1 t ts))" and "g ` set (remove1 t ts) = g ` set ts - {g t}"
proof -
  have ts: "distinct ts" "inj_on g (set ts)" using assms(1) by (simp_all add: distinct_map)
  then show "distinct (map g (remove1 t ts))" by (auto simp: distinct_map intro: inj_on_diff)
  show "g ` set (remove1 t ts) = g ` set ts - {g t}"
    using ts assms(2) by (auto simp: set_remove1_eq inj_on_eq_iff)
qed

lemma ids_ok_finally:
  assumes ok: "ids_ok part q ts" and t: "t \<in> set ts"
  shows "ids_ok part (q\<lparr>rq_active := removeAll (task_id t) (rq_active q)\<rparr>) (remove1 t ts)"
proof -
  have "distinct (map task_id ts)" using ok by (simp add: ids_ok_def)
  note removed = distinct_map_remove1 [OF this t]
  have "set (remove1 t ts) \<subseteq> set ts" by (rule set_remove1_subset)
  then show ?thesis using ok removed by (auto simp: ids_ok_def)
qed

lemma ids_ok_outcome:
  assumes ok: "ids_ok part q ts" and t: "t \<in> set ts" "tk_phase t = Executing" and part
  shows "ids_ok part q (t\<lparr>tk_phase := Handled\<rparr> # remove1 t ts)"
    and "ids_ok part (q\<lparr>rq_items := tk_run t # rq_items q\<rparr>) (t\<lparr>tk_phase := HandedBack\<rparr> # remove1 t ts)"
proof -
  have dist: "distinct (map task_id ts)" using ok by (simp add: ids_ok_def)
  note removed = distinct_map_remove1 [OF dist t(1)]
  have sub: "set (remove1 t ts) \<subseteq> set ts" by (rule set_remove1_subset)
  have not_queued: "task_id t \<notin> qr_run_id ` set (rq_items q)" using ok t by (fastforce simp: ids_ok_def)
  have ids: "insert (task_id t) (task_id ` set (remove1 t ts)) = task_id ` set ts" using removed(2) t(1) by auto
  have fresh: "task_id t \<notin> task_id ` set (remove1 t ts)" using removed(2) by simp
  have not_delayed: "task_id t \<notin> fst ` set (rq_delayed q)" using ok t(1) unfolding ids_ok_def by blast
  show "ids_ok part q (t\<lparr>tk_phase := Handled\<rparr> # remove1 t ts)"
    using ok ids fresh removed(1) not_queued sub by (auto simp: ids_ok_def)
  show "ids_ok part (q\<lparr>rq_items := tk_run t # rq_items q\<rparr>) (t\<lparr>tk_phase := HandedBack\<rparr> # remove1 t ts)"
    unfolding ids_ok_def
  proof (intro conjI)
    show "\<forall>r \<in> set (rq_items (q\<lparr>rq_items := tk_run t # rq_items q\<rparr>)). \<forall>u \<in> set (t\<lparr>tk_phase := HandedBack\<rparr> # remove1 t ts).
        task_id u = qr_run_id r \<longrightarrow> part \<and> tk_run u = r \<and> tk_phase u = HandedBack"
    proof (intro ballI impI)
      fix r u
      assume r: "r \<in> set (rq_items (q\<lparr>rq_items := tk_run t # rq_items q\<rparr>))"
        and u: "u \<in> set (t\<lparr>tk_phase := HandedBack\<rparr> # remove1 t ts)" and same: "task_id u = qr_run_id r"
      show "part \<and> tk_run u = r \<and> tk_phase u = HandedBack"
      proof (cases "u = t\<lparr>tk_phase := HandedBack\<rparr>")
        case True
        then have "r \<notin> set (rq_items q)" using same not_queued by auto
        then show ?thesis using r True \<open>part\<close> by simp
      next
        case False
        then have "u \<in> set (remove1 t ts)" using u by simp
        then have "u \<in> set ts" "task_id u \<noteq> task_id t" using sub fresh by (auto intro: rev_image_eqI)
        then show ?thesis using ok r same by (auto simp: ids_ok_def)
      qed
    qed
  qed (use ok ids fresh removed(1) not_queued not_delayed in \<open>simp_all add: ids_ok_def\<close>)
qed

section \<open>Claims\<close>

lemma claims_ok_queue_fields [simp]:
  "claims_ok (q\<lparr>rq_waiters := w\<rparr>) held = claims_ok q held" "claims_ok (q\<lparr>rq_items := i\<rparr>) held = claims_ok q held"
  "claims_ok (q\<lparr>rq_active := a\<rparr>) held = claims_ok q held" "claims_ok (q\<lparr>rq_delayed := d\<rparr>) held = claims_ok q held"
  by (simp_all add: claims_ok_def)

lemma claims_ok_perm: "mset held = mset held' \<Longrightarrow> claims_ok q held = claims_ok q held'"
  using mset_eq_imp_distinct_iff [of held held'] mset_eq_setD [of held held'] by (simp add: claims_ok_def)

lemma claims_ok_take:
  "claims_ok q held \<Longrightarrow> x \<notin> set (rq_claimed q) \<Longrightarrow>
     claims_ok (q\<lparr>rq_claimed := List.insert x (rq_claimed q)\<rparr>) (x # held)"
  by (simp add: claims_ok_def)

lemma claims_ok_release:
  "claims_ok q held \<Longrightarrow> claims_ok (q\<lparr>rq_claimed := removeAll x (rq_claimed q)\<rparr>) (remove1 x held)"
  by (auto simp: claims_ok_def set_remove1_eq)

section \<open>The tasks and threads of an updated consumer\<close>

lemma tasks_update:
  assumes "k < length cs"
  shows "mset (tasks_in (cs[k := c])) = mset (tasks_in cs) - mset (rc_running (cs ! k)) + mset (rc_running c)"
    and "mset (rc_running (cs ! k)) \<subseteq># mset (tasks_in cs)"
    and "mset (threads_in (cs[k := c])) = mset (threads_in cs) - mset (held_in (cs ! k)) + mset (held_in c)"
    and "mset (held_in (cs ! k)) \<subseteq># mset (threads_in cs)"
proof -
  obtain a b where cs: "cs = a @ cs ! k # b" and upd: "\<And>c. cs[k := c] = a @ c # b"
    using split_consumers [OF assms] by blast
  have tasks: "mset (tasks_in cs) = mset (rc_running (cs ! k)) + mset (tasks_in (a @ b))"
    by (subst cs) simp
  have threads: "mset (threads_in cs) = mset (held_in (cs ! k)) + mset (threads_in (a @ b))"
    by (subst cs) simp
  show "mset (tasks_in (cs[k := c])) = mset (tasks_in cs) - mset (rc_running (cs ! k)) + mset (rc_running c)"
    unfolding tasks upd by simp
  show "mset (rc_running (cs ! k)) \<subseteq># mset (tasks_in cs)"
    unfolding tasks by simp
  show "mset (threads_in (cs[k := c])) = mset (threads_in cs) - mset (held_in (cs ! k)) + mset (held_in c)"
    unfolding threads upd by simp
  show "mset (held_in (cs ! k)) \<subseteq># mset (threads_in cs)"
    unfolding threads by simp
qed

lemma running_facts:
  assumes k: "k < length cs"
  shows "set (rc_running (cs ! k)) \<subseteq> set (tasks_in cs)"
    and "distinct (tasks_in cs) \<Longrightarrow> distinct (rc_running (cs ! k))"
    and "set (held_in (cs ! k)) \<subseteq> set (threads_in cs)"
    and "distinct (threads_in cs) \<Longrightarrow> distinct (held_in (cs ! k))"
proof -
  obtain a b where cs: "cs = a @ cs ! k # b" using split_consumers [OF k] by blast
  have tasks: "tasks_in cs = tasks_in a @ rc_running (cs ! k) @ tasks_in b" by (subst cs) simp
  have threads: "threads_in cs = threads_in a @ held_in (cs ! k) @ threads_in b" by (subst cs) simp
  show "set (rc_running (cs ! k)) \<subseteq> set (tasks_in cs)" unfolding tasks by auto
  show "distinct (tasks_in cs) \<Longrightarrow> distinct (rc_running (cs ! k))" unfolding tasks by simp
  show "set (held_in (cs ! k)) \<subseteq> set (threads_in cs)" unfolding threads by auto
  show "distinct (threads_in cs) \<Longrightarrow> distinct (held_in (cs ! k))" unfolding threads by simp
qed

lemma mset_swap: "A \<subseteq># M \<Longrightarrow> x \<in># A \<Longrightarrow> M - A + (A - {#x#}) = M - {#x#}"
proof -
  assume "A \<subseteq># M" "x \<in># A"
  then obtain A' B where "A = add_mset x A'" "M = A + B" by (metis mset_add subset_mset.le_iff_add)
  then show ?thesis by simp
qed

lemma mset_map_replace:
  "distinct xs \<Longrightarrow> x \<in> set xs \<Longrightarrow> mset (map (\<lambda>u. if u = x then y else u) xs) = add_mset y (mset xs - {#x#})"
proof (induction xs)
  case (Cons a xs)
  show ?case
  proof (cases "a = x")
    case True
    then have "map (\<lambda>u. if u = x then y else u) xs = xs" using Cons.prems by (intro map_idI) auto
    then show ?thesis using True by simp
  next
    case False
    then have "x \<in># mset xs" using Cons.prems by simp
    then show ?thesis using Cons False by simp
  qed
qed simp

text \<open>The invariant's part on identifiers and claims, for the queue and all tasks and threads.\<close>

definition safe :: "bool \<Rightarrow> run_queue \<Rightarrow> run_consumer list \<Rightarrow> bool" where
  "safe part q cs \<longleftrightarrow> ids_ok part q (tasks_in cs) \<and> (part \<longrightarrow> claims_ok q (threads_in cs))"

lemma safe_same:
  assumes "safe part q cs" "k < length cs" "rc_running c = rc_running (cs ! k)" "rc_deferred c = rc_deferred (cs ! k)"
  shows "safe part q (cs[k := c])"
proof -
  have same: "held_in c = held_in (cs ! k)" using assms(3,4) by (simp add: held_in_def)
  have "mset (tasks_in (cs[k := c])) = mset (tasks_in cs)"
    unfolding tasks_update(1) [OF assms(2)] assms(3) by (rule subset_mset.diff_add [OF tasks_update(2) [OF assms(2)]])
  moreover have "mset (threads_in (cs[k := c])) = mset (threads_in cs)"
    unfolding tasks_update(3) [OF assms(2)] same by (rule subset_mset.diff_add [OF tasks_update(4) [OF assms(2)]])
  ultimately show ?thesis
    using assms(1) ids_ok_perm claims_ok_perm unfolding safe_def by blast
qed

lemma safe_queue_fields [simp]: "safe part (q\<lparr>rq_waiters := w\<rparr>) cs = safe part q cs"
  by (simp add: safe_def)

lemma safe_take:
  assumes safe: "safe part q cs" and k: "k < length cs" and items: "rq_items q = pre @ run # rest"
    and free: "part \<Longrightarrow> qr_thread_id run \<notin> set (rq_claimed q)"
  shows "safe part (q\<lparr>rq_items := pre @ rest, rq_active := List.insert (qr_run_id run) (rq_active q),
            rq_claimed := (if part then List.insert (qr_thread_id run) (rq_claimed q) else rq_claimed q)\<rparr>)
          (cs[k := take_run run (cs ! k)])"
proof -
  let ?t = "\<lparr>tk_run = run, tk_phase = Executing\<rparr>"
  have ok: "ids_ok part q (tasks_in cs)" using safe by (simp add: safe_def)
  have claims: "claims_ok q (threads_in cs)" if "part" using safe that by (simp add: safe_def)
  have new: "qr_run_id run \<notin> task_id ` set (tasks_in cs)"
  proof
    assume "qr_run_id run \<in> task_id ` set (tasks_in cs)"
    then obtain t where t: "t \<in> set (tasks_in cs)" "task_id t = qr_run_id run" by auto
    have "run \<in> set (rq_items q)" using items by simp
    with ok t have returned: "part" "tk_run t = run" by (auto simp: ids_ok_def)
    have "task_thread t \<in> set (threads_in cs)"
      using t(1) by (force simp: tasks_in_def threads_in_def held_in_def)
    then show False using free returned claims by (simp add: claims_ok_def)
  qed
  have tasks: "mset (tasks_in (cs[k := take_run run (cs ! k)])) = mset (?t # tasks_in cs)"
    unfolding tasks_update(1) [OF k] using tasks_update(2) [OF k] by (simp add: take_run_def)
  have threads: "mset (threads_in (cs[k := take_run run (cs ! k)])) = mset (qr_thread_id run # threads_in cs)"
    unfolding tasks_update(3) [OF k] using tasks_update(4) [OF k] by (simp add: take_run_def held_in_def)
  show ?thesis
    unfolding safe_def ids_ok_perm [OF tasks] claims_ok_perm [OF threads]
    using ids_ok_take [OF ok items new] claims_ok_take [OF claims free] by (auto simp: claims_ok_def)
qed

lemma safe_settle:
  assumes safe: "safe part q cs" and k: "k < length cs" and t: "t \<in> set (rc_running (cs ! k))"
  shows "ids_ok part (q\<lparr>rq_active := removeAll (task_id t) (rq_active q)\<rparr>)
           (tasks_in (cs[k := c\<lparr>rc_running := remove1 t (rc_running (cs ! k))\<rparr>]))"
proof -
  have ok: "ids_ok part q (tasks_in cs)" using safe by (simp add: safe_def)
  have member: "t \<in> set (tasks_in cs)" using t running_facts(1) [OF k] by blast
  have "mset (tasks_in (cs[k := c\<lparr>rc_running := remove1 t (rc_running (cs ! k))\<rparr>])) = mset (remove1 t (tasks_in cs))"
    unfolding tasks_update(1) [OF k] using mset_swap [OF tasks_update(2) [OF k], of t] t by simp
  from ids_ok_perm [OF this] show ?thesis using ids_ok_finally [OF ok member] by simp
qed

lemma safe_plain_finally:
  assumes "safe False q cs" "k < length cs" "t \<in> set (rc_running (cs ! k))" "plain_finally t (cs ! k) q = (c, q')"
  shows "safe False q' (cs[k := c])"
proof -
  let ?c = "(cs ! k)\<lparr>rc_running := remove1 t (rc_running (cs ! k))\<rparr>"
  have c: "c = ?c\<lparr>rc_loop := rc_loop c\<rparr>" "q' = q\<lparr>rq_active := removeAll (task_id t) (rq_active q)\<rparr>"
    using assms(4) by (auto simp: plain_finally_def end_race_def split: if_splits)
  have "safe False q' (cs[k := ?c])"
    using safe_settle [OF assms(1-3), of "cs ! k"] by (simp add: safe_def c(2))
  then have "safe False q' ((cs[k := ?c])[k := ?c\<lparr>rc_loop := rc_loop c\<rparr>])"
    by (rule safe_same) (use assms(2) in simp_all)
  then show ?thesis using c(1) by simp
qed

lemma safe_outcome:
  assumes safe: "safe True q cs" and k: "k < length cs" and t: "t \<in> set (rc_running (cs ! k))" "tk_phase t = Executing"
    and result: "partitioned_outcome handled t (cs ! k) q = (c, q')"
  shows "safe True q' (cs[k := c])"
proof -
  let ?p = "if handled then Handled else HandedBack"
  have ok: "ids_ok True q (tasks_in cs)" and claims: "claims_ok q (threads_in cs)" using safe by (simp_all add: safe_def)
  have member: "t \<in> set (tasks_in cs)" using t running_facts(1) [OF k] by blast
  have c: "c = set_phase ?p t (cs ! k)" "q' = (if handled then q else q\<lparr>rq_items := tk_run t # rq_items q\<rparr>)"
    using result by (auto simp: partitioned_outcome_def split: if_splits)
  have dist: "distinct (rc_running (cs ! k))"
    using ok running_facts(2) [OF k] by (simp add: ids_ok_def distinct_map)
  have "mset (rc_running c) = add_mset (t\<lparr>tk_phase := ?p\<rparr>) (mset (rc_running (cs ! k)) - {#t#})"
    unfolding c(1) set_phase_def using mset_map_replace [OF dist t(1)] by simp
  then have tasks: "mset (tasks_in (cs[k := c])) = mset (t\<lparr>tk_phase := ?p\<rparr> # remove1 t (tasks_in cs))"
    unfolding tasks_update(1) [OF k] using mset_swap [OF tasks_update(2) [OF k], of t] t by simp
  have "map task_thread (rc_running c) = map task_thread (rc_running (cs ! k))"
    by (auto simp: c(1) set_phase_def)
  then have held: "held_in c = held_in (cs ! k)" by (simp add: held_in_def c(1) set_phase_def)
  have threads: "mset (threads_in (cs[k := c])) = mset (threads_in cs)"
    unfolding tasks_update(3) [OF k] held by (rule subset_mset.diff_add [OF tasks_update(4) [OF k]])
  show ?thesis
    unfolding safe_def ids_ok_perm [OF tasks] claims_ok_perm [OF threads] c(2)
    using ids_ok_outcome [OF ok member t(2)] claims by simp
qed

text \<open>A release: the consumer no longer holds the thread, and neither does the queue.\<close>

lemma safe_release:
  assumes ok: "ids_ok True q' (tasks_in (cs[k := c]))" and k: "k < length cs"
    and claims: "claims_ok q (threads_in cs)"
    and held: "x \<in> set (held_in (cs ! k))" "mset (held_in c) = mset (held_in (cs ! k)) - {#x#}"
    and q': "rq_claimed q' = removeAll x (rq_claimed q)"
  shows "safe True q' (cs[k := c])"
proof -
  have threads: "mset (threads_in (cs[k := c])) = mset (remove1 x (threads_in cs))"
    unfolding tasks_update(3) [OF k] held(2) using mset_swap [OF tasks_update(4) [OF k], of x] held(1) by simp
  show ?thesis
    unfolding safe_def using ok claims_ok_release [OF claims, of x] claims_ok_perm [OF threads, of q'] q'
    by (simp add: claims_ok_def)
qed

lemma held_distinct: "safe True q cs \<Longrightarrow> k < length cs \<Longrightarrow> distinct (held_in (cs ! k))"
  by (simp add: safe_def claims_ok_def running_facts(4))

lemma mset_threads_remove1:
  "t \<in> set xs \<Longrightarrow> mset (map task_thread (remove1 t xs)) = mset (map task_thread xs) - {#task_thread t#}"
  by (simp add: image_mset_Diff)

lemma safe_partitioned_finally:
  assumes safe: "safe True q cs" and k: "k < length cs" and t: "t \<in> set (rc_running (cs ! k))"
    and result: "partitioned_finally t (cs ! k) q = (c, q')"
  shows "safe True q' (cs[k := c])"
proof -
  let ?c = "cs ! k" and ?x = "task_thread t"
  have claims: "claims_ok q (threads_in cs)" using safe by (simp add: safe_def)
  have dist: "distinct (held_in ?c)" by (rule held_distinct [OF safe k])
  have x: "?x \<in> set (held_in ?c)" "?x \<notin> set (rc_deferred ?c)"
    using t dist by (auto simp: held_in_def)
  have running: "rc_running c = remove1 t (rc_running ?c)"
    using result by (auto simp: partitioned_finally_def Let_def end_race_def release_thread_def split: if_splits)
  have active: "ids_ok True q' ts = ids_ok True (q\<lparr>rq_active := removeAll (task_id t) (rq_active q)\<rparr>) ts" for ts
  proof -
    have "rq_items q' = rq_items q" "rq_delayed q' = rq_delayed q" "rq_active q' = removeAll (task_id t) (rq_active q)"
      using result by (auto simp: partitioned_finally_def Let_def release_thread_def wake_waiters_def split: if_splits)
    then show ?thesis by (simp add: ids_ok_def)
  qed
  have "c\<lparr>rc_running := remove1 t (rc_running ?c)\<rparr> = c" using running by simp
  with safe_settle [OF safe k t, of c] have ids: "ids_ok True q' (tasks_in (cs[k := c]))" by (simp add: active)
  show ?thesis
  proof (cases "tk_phase t = HandedBack \<and> rc_consuming ?c")
    case True
    then have "rc_deferred c = ?x # rc_deferred ?c" "rq_claimed q' = rq_claimed q"
      using result x(2) by (auto simp: partitioned_finally_def Let_def end_race_def wake_waiters_def)
    moreover have "?x \<in># mset (map task_thread (rc_running ?c))" using t by simp
    ultimately have held: "mset (held_in c) = mset (held_in ?c)" and claimed: "rq_claimed q' = rq_claimed q"
      using mset_threads_remove1 [OF t] unfolding held_in_def running by (simp_all del: mset_map)
    have "mset (threads_in (cs[k := c])) = mset (threads_in cs)"
      unfolding tasks_update(3) [OF k] held by (rule subset_mset.diff_add [OF tasks_update(4) [OF k]])
    from claims_ok_perm [OF this, of q'] show ?thesis using ids claims claimed by (simp add: safe_def) (simp add: claims_ok_def)
  next
    case False
    then have deferred: "rc_deferred c = rc_deferred ?c" and claimed: "rq_claimed q' = removeAll ?x (rq_claimed q)"
      using result x(2) by (auto simp: partitioned_finally_def Let_def end_race_def wake_waiters_def release_thread_def)
    have "?x \<in># mset (map task_thread (rc_running ?c))" using t by simp
    then have "mset (held_in c) = mset (held_in ?c) - {#?x#}"
      using mset_threads_remove1 [OF t] unfolding held_in_def running deferred by (simp del: mset_map)
    from safe_release [OF ids k claims x(1) this claimed] show ?thesis .
  qed
qed

lemma safe_release_thread:
  assumes safe: "safe True q cs" and k: "k < length cs" and x: "x \<in> set (rc_deferred (cs ! k))"
  shows "safe True (snd (release_thread x (cs ! k) q)) (cs[k := fst (release_thread x (cs ! k) q)])"
proof -
  let ?c = "cs ! k" and ?c' = "fst (release_thread x (cs ! k) q)"
  have dist: "distinct (held_in ?c)" by (rule held_distinct [OF safe k])
  have held: "x \<in> set (held_in ?c)" using x by (simp add: held_in_def)
  have running: "rc_running ?c' = rc_running ?c" by (simp add: release_thread_def)
  have "mset (tasks_in (cs[k := ?c'])) = mset (tasks_in cs)"
    unfolding tasks_update(1) [OF k] running by (rule subset_mset.diff_add [OF tasks_update(2) [OF k]])
  from ids_ok_perm [OF this] have ids: "ids_ok True (snd (release_thread x ?c q)) (tasks_in (cs[k := ?c']))"
    using safe by (simp add: safe_def release_thread_def wake_waiters_def)
  have "distinct (rc_deferred ?c)" using dist by (simp add: held_in_def)
  then have "mset (removeAll x (rc_deferred ?c)) = mset (rc_deferred ?c) - {#x#}"
    by (simp add: distinct_remove1_removeAll [symmetric])
  then have "mset (held_in ?c') = mset (held_in ?c) - {#x#}"
    using x by (simp add: held_in_def release_thread_def)
  moreover have "claims_ok q (threads_in cs)" using safe by (simp add: safe_def)
  ultimately show ?thesis using safe_release [where q = q, OF ids k _ held] by (simp add: release_thread_def wake_waiters_def)
qed

lemma safe_release_all:
  assumes "safe True q cs" "k < length cs" "rc_deferred (cs ! k) = xs"
    "fold (\<lambda>x (c, q). release_thread x c q) xs (cs ! k, q) = (c, q')"
  shows "safe True q' (cs[k := c]) \<and> rc_running c = rc_running (cs ! k) \<and> rc_loop c = rc_loop (cs ! k) \<and>
    rc_consuming c = rc_consuming (cs ! k) \<and> rc_concurrency c = rc_concurrency (cs ! k)"
  using assms
proof (induction xs arbitrary: q cs)
  case (Cons x xs)
  obtain c1 q1 where c1: "release_thread x (cs ! k) q = (c1, q1)" by fastforce
  have safe: "safe True q1 (cs[k := c1])"
    using safe_release_thread [OF Cons.prems(1,2), of x] Cons.prems(3) c1 by simp
  have "distinct (x # xs)" using held_distinct [OF Cons.prems(1,2)] Cons.prems(3) by (simp add: held_in_def)
  then have "rc_deferred c1 = xs" using c1 Cons.prems(3) by (auto simp: release_thread_def removeAll_id)
  then show ?case
    using Cons.IH [OF safe] Cons.prems(2,4) c1 by (auto simp: release_thread_def)
next
  case Nil
  then have "c = cs ! k" "q' = q" by simp_all
  then show ?case using Nil by simp
qed

lemma safe_close:
  assumes safe: "safe part q cs" and k: "k < length cs"
    and result: "(if part then partitioned_close else plain_close) (cs ! k) q = (c, q')"
  shows "safe part q' (cs[k := c])"
proof -
  let ?c = "(cs ! k)\<lparr>rc_consuming := False\<rparr>"
  have closing: "safe part q (cs[k := ?c])" by (rule safe_same [OF safe k]) simp_all
  show ?thesis
  proof (cases part)
    case True
    obtain c1 q1 where "fold (\<lambda>x (c, q). release_thread x c q) (rc_deferred (cs ! k)) (?c, q) = (c1, q1)" by fastforce
    then show ?thesis
      using safe_release_all [of q "cs[k := ?c]" k "rc_deferred (cs ! k)" c1 q1] closing k result True
      by (auto simp: partitioned_close_def wake_waiters_def)
  next
    case False
    then show ?thesis using result closing by (auto simp: plain_close_def wake_waiters_def)
  qed
qed

lemma safe_turn:
  assumes safe: "safe part q cs" and k: "k < length cs" and result: "loop_turn part k (cs ! k) q = (c, q')"
  shows "safe part q' (cs[k := c])"
proof -
  have same: "safe part q (cs[k := (cs ! k)\<lparr>rc_loop := l\<rparr>])" for l by (rule safe_same [OF safe k]) simp_all
  show ?thesis
  proof (cases part)
    case True
    let ?held = "\<lambda>item. qr_thread_id item \<in> set (rq_claimed q)"
    show ?thesis
    proof (cases "rc_consuming (cs ! k) \<and> \<not> rc_concurrency (cs ! k) \<le> length (rc_running (cs ! k))")
      case takes: True
      show ?thesis
      proof (cases "dropWhile ?held (rq_items q)")
        case (Cons run rest)
        then have items: "rq_items q = takeWhile ?held (rq_items q) @ run # rest" and free: "\<not> ?held run"
          by (metis takeWhile_dropWhile_id, metis dropWhile_eq_Cons_conv)
        from safe_take [OF safe k items] free show ?thesis
          using result takes Cons True by (simp add: loop_turn_def partitioned_turn_def Let_def)
      next
        case Nil
        then have "c = (cs ! k)\<lparr>rc_loop := LoopParked\<rparr>" "q' = q\<lparr>rq_waiters := rq_waiters q @ [k]\<rparr>"
          using result takes True
          by (simp_all add: loop_turn_def partitioned_turn_def Let_def del: dropWhile_eq_Nil_conv)
        then show ?thesis using same True by simp
      qed
    qed (use result same True in \<open>auto simp: loop_turn_def partitioned_turn_def split: if_splits\<close>)
  next
    case False
    show ?thesis
    proof (cases "rc_consuming (cs ! k) \<and> \<not> rc_concurrency (cs ! k) \<le> length (rc_running (cs ! k))")
      case takes: True
      show ?thesis
      proof (cases "rq_items q")
        case (Cons run rest)
        from safe_take [OF safe k, of "[]" run rest] Cons show ?thesis
          using result takes False by (simp add: loop_turn_def plain_turn_def)
      qed (use takes result same False in \<open>auto simp: loop_turn_def plain_turn_def\<close>)
    qed (use result same False in \<open>auto simp: loop_turn_def plain_turn_def split: if_splits\<close>)
  qed
qed

section \<open>Waiting consumers\<close>

lemma loop_runnable_iff:
  "loop_runnable k S \<longleftrightarrow> rc_loop (qs_consumers S ! k) = LoopReady \<or>
     rc_loop (qs_consumers S ! k) = LoopParked \<and> k \<notin> set (rq_waiters (qs_queue S))"
  by (simp add: loop_runnable_def split: loop_state.splits)

definition alert :: "bool \<Rightarrow> queue_system \<Rightarrow> bool" where
  "alert part S \<longleftrightarrow> waiters_ok S \<and> supply_ok part S"

lemma alert_no_waiters: "rq_waiters (qs_queue S) = [] \<Longrightarrow> alert part S"
  by (simp add: alert_def waiters_ok_def supply_ok_def)

text \<open>Nobody is woken and no work arrives: the consumers that would take work still would.\<close>

lemma alert_keeps:
  assumes "alert part S" "rq_waiters (qs_queue S') = rq_waiters (qs_queue S)"
    and "length (available part (qs_queue S')) \<le> length (available part (qs_queue S))"
    and "Collect (takes_next S) \<subseteq> Collect (takes_next S')" "waiters_ok S'"
  shows "alert part S'"
  using assms card_mono [OF finite_takes_next assms(4)] by (auto simp: alert_def supply_ok_def)

text \<open>One item arrives and one waiter is woken.\<close>

lemma alert_push:
  assumes alert: "alert part S" and q': "qs_queue S' = wake_one q" "rq_waiters q = rq_waiters (qs_queue S)"
    and more: "length (available part q) \<le> Suc (length (available part (qs_queue S)))"
    and consumers: "qs_consumers S' = qs_consumers S"
  shows "alert part S'"
proof (cases "tl (rq_waiters (qs_queue S))")
  case Nil
  then show ?thesis by (intro alert_no_waiters) (simp add: q' wake_one_def)
next
  case (Cons v vs)
  then obtain w where w: "rq_waiters (qs_queue S) = w # v # vs" by (cases "rq_waiters (qs_queue S)") auto
  have waiting: "waiters_ok S" and enough: "length (available part (qs_queue S)) \<le> card (Collect (takes_next S))"
    using alert w by (simp_all add: alert_def supply_ok_def)
  have waiters: "rq_waiters (qs_queue S') = v # vs" by (simp add: q' wake_one_def w)
  have "w \<in> set (rq_waiters (qs_queue S))" "w \<notin> set (v # vs)" using waiting w by (simp_all add: waiters_ok_def)
  then have parked: "w < length (qs_consumers S)" "rc_loop (qs_consumers S ! w) = LoopParked"
      "rc_consuming (qs_consumers S ! w)" "length (rc_running (qs_consumers S ! w)) < rc_concurrency (qs_consumers S ! w)"
    using waiting unfolding waiters_ok_def by blast+
  have "w \<notin> Collect (takes_next S)" using parked(2) w by (simp add: takes_next_def loop_runnable_iff)
  moreover have "insert w (Collect (takes_next S)) \<subseteq> Collect (takes_next S')"
    using parked \<open>w \<notin> set (v # vs)\<close>
    by (auto simp: takes_next_def loop_runnable_iff consumers waiters w)
  ultimately have "Suc (card (Collect (takes_next S))) \<le> card (Collect (takes_next S'))"
    by (metis card_insert_disjoint card_mono finite_takes_next)
  moreover have "available part (qs_queue S') = available part q" by (simp add: q' wake_one_def available_def)
  ultimately have "supply_ok part S'" using more enough by (simp add: supply_ok_def)
  moreover have "waiters_ok S'" using waiting by (simp add: waiters_ok_def consumers waiters w)
  ultimately show ?thesis by (simp add: alert_def)
qed

lemma available_push: "length (available part (q\<lparr>rq_items := rq_items q @ [run]\<rparr>)) \<le> Suc (length (available part q))"
  by (simp add: available_def)

lemma alert_enqueue: "alert part S \<Longrightarrow> alert part (S\<lparr>qs_queue := enqueue run delay now (qs_queue S)\<rparr>)"
proof -
  assume alert: "alert part S"
  have "alert part (S\<lparr>qs_queue := hold_until run due (qs_queue S)\<rparr>)" for due
    using alert
    by (rule alert_keeps) (auto simp: hold_until_def available_def takes_next_def loop_runnable_iff alert [unfolded alert_def waiters_ok_def]
        waiters_ok_def)
  moreover have "alert part (S\<lparr>qs_queue := wake_one ((qs_queue S)\<lparr>rq_items := rq_items (qs_queue S) @ [run]\<rparr>)\<rparr>)"
    by (rule alert_push [OF alert, where q = "(qs_queue S)\<lparr>rq_items := rq_items (qs_queue S) @ [run]\<rparr>"])
      (simp_all add: available_push)
  ultimately show ?thesis using alert by (simp add: enqueue_alt)
qed

lemma alert_delay_timer: "alert part S \<Longrightarrow> alert part (S\<lparr>qs_queue := delay_timer run_id now (qs_queue S)\<rparr>)"
proof -
  assume alert: "alert part S"
  have held: "alert part (S\<lparr>qs_queue := hold_until run due (qs_queue S)\<rparr>)" for run due
    using alert
    by (rule alert_keeps) (auto simp: hold_until_def available_def takes_next_def loop_runnable_iff alert [unfolded alert_def waiters_ok_def]
        waiters_ok_def)
  have pushed: "alert part (S\<lparr>qs_queue := wake_one ((qs_queue S)\<lparr>rq_delayed := d, rq_items := rq_items (qs_queue S) @ [run]\<rparr>)\<rparr>)"
    for d run
    by (rule alert_push [OF alert, where q = "(qs_queue S)\<lparr>rq_delayed := d, rq_items := rq_items (qs_queue S) @ [run]\<rparr>"])
      (simp_all add: available_def)
  show ?thesis
    using alert held pushed by (auto simp: delay_timer_def split: option.split)
qed

lemma alert_consume: "alert part S \<Longrightarrow> alert part (S\<lparr>qs_consumers := qs_consumers S @ [c]\<rparr>)"
proof -
  assume alert: "alert part S"
  have "waiters_ok (S\<lparr>qs_consumers := qs_consumers S @ [c]\<rparr>)"
    using alert by (auto simp: alert_def waiters_ok_def nth_append)
  then show ?thesis
    by (intro alert_keeps [OF alert]) (auto simp: takes_next_def loop_runnable_iff nth_append)
qed

section \<open>A consumer's own steps\<close>

lemma update_consumer_simps [simp]:
  "qs_queue (update_consumer k cq S) = snd cq" "qs_consumers (update_consumer k cq S) = (qs_consumers S)[k := fst cq]"
  by (simp_all add: update_consumer_def)

text \<open>The loop and the capacity of the consumer do not get worse.\<close>

lemma alert_update:
  assumes alert: "alert part S" and k: "k < length (qs_consumers S)"
    and c: "rc_consuming c = rc_consuming (qs_consumers S ! k)" "rc_concurrency c = rc_concurrency (qs_consumers S ! k)"
      "length (rc_running c) \<le> length (rc_running (qs_consumers S ! k))"
      "rc_loop c = rc_loop (qs_consumers S ! k) \<or> rc_loop (qs_consumers S ! k) = LoopRacing"
    and q: "rq_waiters q = rq_waiters (qs_queue S)"
      "length (available part q) \<le> length (available part (qs_queue S))"
  shows "alert part (update_consumer k (c, q) S)"
proof -
  let ?S = "update_consumer k (c, q) S"
  have "waiters_ok ?S"
    using alert k c by (auto simp: alert_def waiters_ok_def q(1) nth_list_update)
  moreover have "Collect (takes_next S) \<subseteq> Collect (takes_next ?S)"
    using k c by (auto simp: takes_next_def loop_runnable_iff nth_list_update q(1))
  ultimately show ?thesis using q by (intro alert_keeps [OF alert]) simp_all
qed

lemma set_loop_alert:
  assumes alert: "alert part S" and k: "k < length (qs_consumers S)" "loop_runnable k S"
    and idle: "\<not> rc_consuming (qs_consumers S ! k) \<or> rc_concurrency (qs_consumers S ! k) \<le> length (rc_running (qs_consumers S ! k))"
  shows "alert part (update_consumer k ((qs_consumers S ! k)\<lparr>rc_loop := l\<rparr>, qs_queue S) S)"
proof -
  let ?S = "update_consumer k ((qs_consumers S ! k)\<lparr>rc_loop := l\<rparr>, qs_queue S) S"
  have "k \<notin> set (rq_waiters (qs_queue S))" using alert k idle by (force simp: alert_def waiters_ok_def)
  then have "waiters_ok ?S" using alert k by (auto simp: alert_def waiters_ok_def nth_list_update)
  moreover have "Collect (takes_next S) \<subseteq> Collect (takes_next ?S)"
    using k idle by (auto simp: takes_next_def loop_runnable_iff nth_list_update)
  ultimately show ?thesis by (intro alert_keeps [OF alert]) simp_all
qed

lemma alert_park:
  assumes alert: "alert part S" and k: "k < length (qs_consumers S)" "loop_runnable k S"
    and none: "available part (qs_queue S) = []"
    and able: "rc_consuming (qs_consumers S ! k)" "length (rc_running (qs_consumers S ! k)) < rc_concurrency (qs_consumers S ! k)"
  shows "alert part (update_consumer k ((qs_consumers S ! k)\<lparr>rc_loop := LoopParked\<rparr>,
           (qs_queue S)\<lparr>rq_waiters := rq_waiters (qs_queue S) @ [k]\<rparr>) S)"
proof -
  have "k \<notin> set (rq_waiters (qs_queue S))" using alert k by (force simp: alert_def waiters_ok_def loop_runnable_iff)
  then show ?thesis
    using alert k able none by (auto simp: alert_def waiters_ok_def supply_ok_def nth_list_update available_def)
qed

lemma alert_take:
  assumes alert: "alert part S" and k: "k < length (qs_consumers S)" "loop_runnable k S"
    and q: "rq_waiters q = rq_waiters (qs_queue S)" "Suc (length (available part q)) \<le> length (available part (qs_queue S))"
  shows "alert part (update_consumer k (take_run run (qs_consumers S ! k), q) S)"
proof (cases "rq_waiters (qs_queue S)")
  case Nil
  then show ?thesis by (intro alert_no_waiters) (simp add: q)
next
  case (Cons w ws)
  let ?S = "update_consumer k (take_run run (qs_consumers S ! k), q) S"
  have fresh: "k \<notin> set (rq_waiters (qs_queue S))" using alert k by (force simp: alert_def waiters_ok_def loop_runnable_iff)
  then have "waiters_ok ?S" using alert k by (auto simp: alert_def waiters_ok_def nth_list_update q(1))
  moreover have "Collect (takes_next S) \<subseteq> insert k (Collect (takes_next ?S))"
    using k by (auto simp: takes_next_def loop_runnable_iff nth_list_update q(1))
  then have "card (Collect (takes_next S)) \<le> card (insert k (Collect (takes_next ?S)))" by (intro card_mono) simp_all
  then have "card (Collect (takes_next S)) \<le> Suc (card (Collect (takes_next ?S)))"
    using card_insert_le_m1 [of "Suc (card (Collect (takes_next ?S)))"] by (simp add: card_insert_if split: if_splits)
  moreover have "length (available part (qs_queue S)) \<le> card (Collect (takes_next S))"
    using alert Cons by (simp add: alert_def supply_ok_def)
  ultimately show ?thesis using q(2) by (simp add: alert_def supply_ok_def)
qed

lemma alert_turn:
  assumes alert: "alert part S" and k: "k < length (qs_consumers S)" "loop_runnable k S"
  shows "alert part (update_consumer k (loop_turn part k (qs_consumers S ! k) (qs_queue S)) S)"
proof -
  let ?c = "qs_consumers S ! k" and ?q = "qs_queue S"
  let ?held = "\<lambda>item. qr_thread_id item \<in> set (rq_claimed ?q)"
  show ?thesis
  proof (cases "rc_consuming ?c \<and> \<not> rc_concurrency ?c \<le> length (rc_running ?c)")
    case False
    then have "loop_turn part k ?c ?q = (?c\<lparr>rc_loop := if rc_consuming ?c then LoopRacing else LoopExited\<rparr>, ?q)"
      by (auto simp: loop_turn_def plain_turn_def partitioned_turn_def)
    then show ?thesis using set_loop_alert [OF alert k] False by auto
  next
    case able: True
    show ?thesis
    proof (cases "available part ?q")
      case Nil
      then have "dropWhile ?held (rq_items ?q) = []" if part using that by (auto simp: available_def filter_empty_conv)
      then have "loop_turn part k ?c ?q = (?c\<lparr>rc_loop := LoopParked\<rparr>, ?q\<lparr>rq_waiters := rq_waiters ?q @ [k]\<rparr>)"
        using able Nil by (auto simp: loop_turn_def plain_turn_def partitioned_turn_def available_def Let_def
            simp del: dropWhile_eq_Nil_conv)
      then show ?thesis using alert_park [OF alert k Nil] able by simp
    next
      case (Cons r rs)
      show ?thesis
      proof (cases part)
        case True
        have "\<exists>x \<in> set (rq_items ?q). \<not> ?held x" using Cons True by (auto simp: available_def filter_eq_Cons_iff)
        then have "dropWhile ?held (rq_items ?q) \<noteq> []" by auto
        then obtain run rest where split: "dropWhile ?held (rq_items ?q) = run # rest" by (cases "dropWhile ?held (rq_items ?q)") auto
        let ?q' = "?q\<lparr>rq_items := takeWhile ?held (rq_items ?q) @ rest,
            rq_active := List.insert (qr_run_id run) (rq_active ?q), rq_claimed := List.insert (qr_thread_id run) (rq_claimed ?q)\<rparr>"
        have turn: "loop_turn part k ?c ?q = (take_run run ?c, ?q')"
          using able split True by (simp add: loop_turn_def partitioned_turn_def Let_def)
        have items: "rq_items ?q = takeWhile ?held (rq_items ?q) @ run # rest" and free: "\<not> ?held run"
          using split by (metis takeWhile_dropWhile_id, metis dropWhile_eq_Cons_conv)
        have "filter (\<lambda>r. \<not> ?held r) (takeWhile ?held (rq_items ?q)) = []"
          by (auto simp: filter_empty_conv dest: set_takeWhileD)
        then have "filter (\<lambda>r. \<not> ?held r) (rq_items ?q) = run # filter (\<lambda>r. \<not> ?held r) rest"
          by (subst items) (simp add: free)
        moreover have "available part ?q' = filter (\<lambda>r. qr_thread_id r \<noteq> qr_thread_id run) (filter (\<lambda>r. \<not> ?held r) rest)"
        proof -
          have "filter (\<lambda>r. qr_thread_id r \<noteq> qr_thread_id run \<and> \<not> ?held r) (takeWhile ?held (rq_items ?q)) = []"
            by (auto simp: filter_empty_conv dest: set_takeWhileD)
          then show ?thesis using True by (simp add: available_def conj_commute)
        qed
        moreover have "length \<dots> \<le> length (filter (\<lambda>r. \<not> ?held r) rest)" by (rule length_filter_le)
        ultimately have "Suc (length (available part ?q')) \<le> length (available part ?q)"
          using True by (simp add: available_def)
        then show ?thesis unfolding turn by (intro alert_take [OF alert k]) simp_all
      next
        case False
        have "Suc (length (available part (?q\<lparr>rq_items := rs, rq_active := a\<rparr>))) \<le> length (available part ?q)" for a
          using Cons False by (simp add: available_def)
        moreover have "loop_turn part k ?c ?q =
            (take_run r ?c, ?q\<lparr>rq_items := rs, rq_active := List.insert (qr_run_id r) (rq_active ?q)\<rparr>)"
          using able Cons False by (simp add: loop_turn_def plain_turn_def available_def)
        ultimately show ?thesis using alert_take [OF alert k] by simp
      qed
    qed
  qed
qed

section \<open>Every reachable state\<close>

lemma queue_inv_iff: "queue_inv part S \<longleftrightarrow> safe part (qs_queue S) (qs_consumers S) \<and> alert part S"
  by (auto simp: queue_inv_def safe_def alert_def)

lemma queue_step_inv: "queue_step part S S' \<Longrightarrow> queue_inv part S \<Longrightarrow> queue_inv part S'"
proof (induction rule: queue_step.induct)
  case (enqueues S run delay now)
  then have "claims_ok (enqueue run delay now (qs_queue S)) held = claims_ok (qs_queue S) held" for held
    by (auto simp: enqueue_alt hold_until_def wake_one_def claims_ok_def)
  then show ?case using enqueues ids_ok_enqueue alert_enqueue by (auto simp: queue_inv_iff safe_def)
next
  case (delay_fires S run_id now)
  then have "claims_ok (delay_timer run_id now (qs_queue S)) held = claims_ok (qs_queue S) held" for held
    by (auto simp: delay_timer_def hold_until_def wake_one_def claims_ok_def split: option.split)
  then show ?case using delay_fires ids_ok_delay_timer alert_delay_timer by (auto simp: queue_inv_iff safe_def)
next
  case (consumes n c m S)
  then have "rc_running c = []" "held_in c = []"
    by (auto simp: consume_partitioned_def consume_def new_consumer_def held_in_def Let_def split: jsnum.splits if_splits)
  then show ?case using consumes alert_consume by (simp add: queue_inv_iff safe_def)
next
  case (turns k S)
  obtain c q where "loop_turn part k (qs_consumers S ! k) (qs_queue S) = (c, q)" by fastforce
  then show ?case using turns safe_turn [of part "qs_queue S" "qs_consumers S" k c q] alert_turn [of part S k]
    by (simp add: queue_inv_iff)
next
  case (settles k S t)
  obtain c q where result: "plain_finally t (qs_consumers S ! k) (qs_queue S) = (c, q)" by fastforce
  have "length (remove1 t (rc_running (qs_consumers S ! k))) \<le> length (rc_running (qs_consumers S ! k))"
    by (simp add: length_remove1)
  then have "alert part (update_consumer k (c, q) S)"
    using settles result
    by (intro alert_update) (auto simp: queue_inv_iff plain_finally_def end_race_def available_def split: if_splits)
  then show ?case using settles result safe_plain_finally [of "qs_queue S" "qs_consumers S" k t c q]
    by (simp add: queue_inv_iff)
next
  case (answers k S t handled)
  obtain c q where result: "partitioned_outcome handled t (qs_consumers S ! k) (qs_queue S) = (c, q)" by fastforce
  have "task_thread t \<in> set (held_in (qs_consumers S ! k))" using answers by (simp add: held_in_def)
  then have "task_thread t \<in> set (rq_claimed (qs_queue S))"
    using answers running_facts(3) [of k "qs_consumers S"] by (auto simp: queue_inv_iff safe_def claims_ok_def)
  then have "alert part (update_consumer k (c, q) S)"
    using answers result
    by (intro alert_update) (auto simp: queue_inv_iff partitioned_outcome_def set_phase_def available_def split: if_splits)
  then show ?case using answers result safe_outcome [of "qs_queue S" "qs_consumers S" k t handled c q]
    by (simp add: queue_inv_iff)
next
  case (finishes k S t)
  obtain c q where result: "partitioned_finally t (qs_consumers S ! k) (qs_queue S) = (c, q)" by fastforce
  then have "rq_waiters q = []" by (auto simp: partitioned_finally_def Let_def wake_waiters_def split: prod.splits)
  then have "alert part (update_consumer k (c, q) S)" by (intro alert_no_waiters) simp
  then show ?case using finishes result safe_partitioned_finally [of "qs_queue S" "qs_consumers S" k t c q]
    by (simp add: queue_inv_iff)
next
  case (releases k S x)
  have "alert part (update_consumer k (release_thread x (qs_consumers S ! k) (qs_queue S)) S)"
    by (rule alert_no_waiters) (simp add: release_thread_def wake_waiters_def)
  then show ?case using releases safe_release_thread [of "qs_queue S" "qs_consumers S" k x] by (simp add: queue_inv_iff)
next
  case (closes k S)
  obtain c q where result: "(if part then partitioned_close else plain_close) (qs_consumers S ! k) (qs_queue S) = (c, q)"
    by fastforce
  then have "rq_waiters q = []"
    by (auto simp: partitioned_close_def plain_close_def wake_waiters_def split: if_splits prod.splits)
  then have "alert part (update_consumer k (c, q) S)" by (intro alert_no_waiters) simp
  then show ?case using closes result safe_close [of part "qs_queue S" "qs_consumers S" k c q]
    by (simp add: queue_inv_iff)
qed

lemma queue_reachable_inv: "queue_reachable part S \<Longrightarrow> queue_inv part S"
proof (induction rule: queue_reachable.induct)
  case initial
  show ?case
    by (simp add: queue_inv_iff alert_no_waiters safe_def ids_ok_def claims_ok_def new_run_queue_def jm_wf_Nil)
qed (rule queue_step_inv)

lemma tasks_in_threads: "task_thread ` set (tasks_in cs) \<subseteq> set (threads_in cs)"
  by (auto simp: tasks_in_def threads_in_def held_in_def)

lemma threads_in_distinct: "distinct (threads_in cs) \<Longrightarrow> distinct (map task_thread (tasks_in cs))"
proof (induction cs)
  case (Cons c cs)
  then have "task_thread ` set (rc_running c) \<inter> task_thread ` set (tasks_in cs) = {}"
    using tasks_in_threads [of cs] by (auto simp: held_in_def)
  then show ?case using Cons by (simp add: held_in_def)
qed simp

section \<open>Properties\<close>

definition executing :: "queue_system \<Rightarrow> queued_run list" where
  "executing S = map tk_run (filter (\<lambda>t. tk_phase t \<noteq> HandedBack) (tasks_in (qs_consumers S)))"

text \<open>
  C30. A run is in the queue at most once: among the runs waiting, the runs held for a delay and the
  runs executing in any consumer, no run id occurs twice, however often it is enqueued and however
  enqueues, timers, consumers and handed-back runs interleave.
\<close>

theorem run_never_doubled:
  assumes "queue_reachable part S"
  shows "distinct (map qr_run_id (rq_items (qs_queue S)) @ map fst (rq_delayed (qs_queue S)) @
           map qr_run_id (executing S))"
proof -
  let ?q = "qs_queue S" and ?ts = "tasks_in (qs_consumers S)"
  have ok: "ids_ok part ?q ?ts" using queue_reachable_inv [OF assms] by (simp add: queue_inv_def)
  have sub: "set (executing S) \<subseteq> tk_run ` set ?ts" by (auto simp: executing_def)
  have "distinct (map task_id (filter (\<lambda>t. tk_phase t \<noteq> HandedBack) ?ts))"
    using ok by (simp add: ids_ok_def distinct_map_filter)
  then have dist: "distinct (map qr_run_id (executing S))" by (simp add: executing_def comp_def)
  have "qr_run_id ` set (rq_items ?q) \<inter> qr_run_id ` set (executing S) = {}"
    using ok by (force simp: ids_ok_def executing_def)
  moreover have "fst ` set (rq_delayed ?q) \<inter> qr_run_id ` set (executing S) = {}"
    using ok sub by (fastforce simp: ids_ok_def)
  ultimately show ?thesis using ok dist by (auto simp: ids_ok_def)
qed

text \<open>
  C31. Partitioned consumption executes one run of a thread at a time: no two runs in flight, in one
  consumer or in several, belong to the same thread.
\<close>

theorem partitioned_thread_exclusive:
  assumes "queue_reachable True S"
  shows "distinct (map qr_thread_id (map tk_run (tasks_in (qs_consumers S))))"
proof -
  have "distinct (threads_in (qs_consumers S))"
    using queue_reachable_inv [OF assms] by (simp add: queue_inv_def claims_ok_def)
  from threads_in_distinct [OF this] show ?thesis by (simp add: comp_def)
qed

lemma turn_takes:
  assumes "rc_consuming c" "length (rc_running c) < rc_concurrency c" "available part q = run # rest"
  shows "fst (loop_turn part k c q) = take_run run c"
proof (cases part)
  case True
  have "dropWhile (\<lambda>item. qr_thread_id item \<in> set (rq_claimed q)) xs = run # drop (Suc (length (takeWhile (\<lambda>item. qr_thread_id item \<in> set (rq_claimed q)) xs))) xs"
    if "filter (\<lambda>r. qr_thread_id r \<notin> set (rq_claimed q)) xs = run # rest" for xs
    using that by (induction xs) (auto split: if_splits)
  then show ?thesis using assms True by (simp add: loop_turn_def partitioned_turn_def available_def Let_def)
qed (use assms in \<open>simp add: loop_turn_def plain_turn_def available_def\<close>)

text \<open>
  C32. Work is never stranded: while some consumer is parked and a run is available (for partitioned
  consumption: one whose thread nobody holds), another consumer is about to run, and its next turn
  takes the first available run.
\<close>

theorem available_run_taken:
  assumes "queue_reachable part S" and "k \<in> set (rq_waiters (qs_queue S))"
    and "available part (qs_queue S) = run # rest"
  shows "\<exists>j < length (qs_consumers S). loop_runnable j S \<and>
           fst (loop_turn part j (qs_consumers S ! j) (qs_queue S)) = take_run run (qs_consumers S ! j)"
proof -
  have "supply_ok part S" using queue_reachable_inv [OF assms(1)] by (simp add: queue_inv_def)
  with assms(2,3) have "0 < card (Collect (takes_next S))" by (cases "rq_waiters (qs_queue S)") (auto simp: supply_ok_def)
  then obtain j where "takes_next S j" by (auto simp: card_gt_0_iff)
  then show ?thesis using turn_takes [OF _ _ assms(3)] by (auto simp: takes_next_def)
qed

section \<open>Witnesses\<close>

definition run_a :: queued_run where
  "run_a = \<lparr>qr_run_id = ''a'', qr_thread_id = ''t''\<rparr>"

definition run_b :: queued_run where
  "run_b = \<lparr>qr_run_id = ''b'', qr_thread_id = ''t''\<rparr>"

definition run_c :: queued_run where
  "run_c = \<lparr>qr_run_id = ''c'', qr_thread_id = ''u''\<rparr>"

abbreviation push :: "queued_run \<Rightarrow> queue_system \<Rightarrow> queue_system" where
  "push r S \<equiv> S\<lparr>qs_queue := enqueue r None 0 (qs_queue S)\<rparr>"

abbreviation turn :: "nat \<Rightarrow> queue_system \<Rightarrow> queue_system" where
  "turn k S \<equiv> update_consumer k (loop_turn True k (qs_consumers S ! k) (qs_queue S)) S"

text \<open>Two consumers of two runs each; two runs of one thread: the first executes, the second waits, both loops park.\<close>

definition busy_system :: queue_system where
  "busy_system =
     \<lparr>qs_queue = \<lparr>rq_items = [run_b], rq_waiters = [0, 1], rq_active = [''a''], rq_delayed = [], rq_claimed = [''t'']\<rparr>,
      qs_consumers = [(take_run run_a (new_consumer 2))\<lparr>rc_loop := LoopParked\<rparr>, (new_consumer 2)\<lparr>rc_loop := LoopParked\<rparr>]\<rparr>"

lemma turn_reachable:
  "queue_reachable True S \<Longrightarrow> loop_runnable k S \<Longrightarrow> k < length (qs_consumers S) \<Longrightarrow> queue_reachable True (turn k S)"
  by (rule step, assumption) (rule turns)

lemma busy_reachable: "queue_reachable True busy_system"
proof -
  let ?S0 = "\<lparr>qs_queue = new_run_queue, qs_consumers = []\<rparr>"
  let ?S1 = "?S0\<lparr>qs_consumers := [new_consumer 2]\<rparr>"
  let ?S2 = "?S1\<lparr>qs_consumers := [new_consumer 2, new_consumer 2]\<rparr>"
  let ?S4 = "push run_b (push run_a ?S2)"
  have two: "consume_partitioned (Some (Fin 2)) = Some (new_consumer 2)"
    by (simp add: consume_partitioned_def)
  have "queue_reachable True ?S1"
    using step [OF initial consumes [of True "Some (Fin 2)" "new_consumer 2" None ?S0]] two by simp
  from step [OF this consumes [of True "Some (Fin 2)" "new_consumer 2" None ?S1]] two
  have "queue_reachable True ?S2" by simp
  from step [OF step [OF this enqueues] enqueues] have "queue_reachable True ?S4" .
  then have "queue_reachable True (turn 0 ?S4)"
    by (rule turn_reachable) (simp_all add: loop_runnable_iff new_consumer_def)
  moreover have "loop_runnable 0 (turn 0 ?S4)"
    by (simp add: loop_runnable_iff loop_turn_def partitioned_turn_def new_consumer_def enqueue_def new_run_queue_def
        run_a_def run_b_def wake_one_def jm_has_def take_run_def)
  ultimately have "queue_reachable True (turn 0 (turn 0 ?S4))" by (rule turn_reachable ) simp
  moreover have "loop_runnable 1 (turn 0 (turn 0 ?S4))"
    by (simp add: loop_runnable_iff new_consumer_def)
  ultimately have "queue_reachable True (turn 1 (turn 0 (turn 0 ?S4)))" by (rule turn_reachable ) simp
  also have "turn 1 (turn 0 (turn 0 ?S4)) = busy_system"
    by (simp add: busy_system_def update_consumer_def loop_turn_def partitioned_turn_def new_consumer_def enqueue_def
        new_run_queue_def run_a_def run_b_def wake_one_def jm_has_def take_run_def)
  finally show ?thesis .
qed

lemma pushed_reachable: "queue_reachable True (push run_c busy_system)"
  by (rule step [OF busy_reachable enqueues])

theorem run_never_doubled_witness: "distinct (map qr_run_id (run_b # executing busy_system))"
  using run_never_doubled [OF busy_reachable] by (simp add: busy_system_def)

theorem partitioned_thread_exclusive_witness:
  "distinct (map qr_thread_id (map tk_run (tasks_in (qs_consumers busy_system))))"
  by (rule partitioned_thread_exclusive [OF busy_reachable])

theorem available_run_taken_witness:
  "\<exists>j < 2. loop_runnable j (push run_c busy_system) \<and>
     fst (loop_turn True j (qs_consumers busy_system ! j) (qs_queue (push run_c busy_system))) =
       take_run run_c (qs_consumers busy_system ! j)"
proof -
  have "rq_waiters (qs_queue (push run_c busy_system)) = [1]"
    "available True (qs_queue (push run_c busy_system)) = [run_c]"
    by (simp_all add: busy_system_def enqueue_def run_b_def run_c_def wake_one_def jm_has_def available_def)
  then show ?thesis
    using available_run_taken [OF pushed_reachable, of 1 run_c "[]"] by (simp add: busy_system_def numeral_2_eq_2)
qed

end
