(* ===== verification/DeliveryAttempts.thy ===== *)
theory DeliveryAttempts
  imports StoreDeliveries
begin

text \<open>
  Outbound run-completion callbacks of \<^verbatim>\<open>packages/agent-protocol/src/deliveries\<close>: the retry
  policy (\<^verbatim>\<open>delivery-config.ts\<close>, \<^verbatim>\<open>backoff.ts\<close>), the guards on the target
  (\<^verbatim>\<open>delivery-target.ts\<close>), the request (\<^verbatim>\<open>delivery-request.ts\<close>, \<^verbatim>\<open>toDeliveryBody\<close>), one attempt by
  the engine or the polling worker (\<^verbatim>\<open>attempt-delivery.ts\<close>), one attempt by a queue consumer
  (\<^verbatim>\<open>delivery-processor.ts\<close>), and a tick of the worker (\<^verbatim>\<open>delivery-worker.ts\<close>).

  Parameters stand for the URL parser, \<^verbatim>\<open>JSON.stringify\<close>, \<^verbatim>\<open>toISOString\<close>, decimal printing, the
  HMAC and the outside world: the answer of the POST, whether a write or a hand-over to the queue
  succeeds, the clock and the random draws. The jitter is computed exactly, where the code rounds in
  floating point. Log lines are not modelled.
\<close>

section \<open>Configuration\<close>

record retry_config =
  rt_max_attempts :: "nat option"
  rt_initial_delay_ms :: "nat option"

definition no_retry_config :: retry_config where
  "no_retry_config = \<lparr>rt_max_attempts = None, rt_initial_delay_ms = None\<rparr>"

record webhook_config =
  wh_retries :: "retry_config option"
  wh_allowed_hosts :: "string list option"
  wh_require_https :: "bool option"
  wh_secrets :: "string list option"

definition no_webhook_config :: webhook_config where
  "no_webhook_config =
     \<lparr>wh_retries = None, wh_allowed_hosts = None, wh_require_https = None, wh_secrets = None\<rparr>"

definition DEFAULT_MAX_ATTEMPTS :: nat where "DEFAULT_MAX_ATTEMPTS = 12"
definition DEFAULT_INITIAL_DELAY_MS :: nat where "DEFAULT_INITIAL_DELAY_MS = 1000"
definition DELIVERY_LEASE_MARGIN_MS :: int where "DELIVERY_LEASE_MARGIN_MS = 60000"
definition QUEUE_SWEEP_MARGIN_MS :: int where "QUEUE_SWEEP_MARGIN_MS = 60000"
definition SWEEP_INTERVAL_MS :: int where "SWEEP_INTERVAL_MS = 600000"
definition JITTER_FRACTION :: rat where "JITTER_FRACTION = 1 / 5"
definition MAX_ATTEMPT_DELAY_MS :: int where "MAX_ATTEMPT_DELAY_MS = 24 * 3600000"

definition delivery_lease_ms :: "int \<Rightarrow> int \<Rightarrow> int" where
  "delivery_lease_ms batch_size per_attempt_ms = max 1 batch_size * max 1 per_attempt_ms + DELIVERY_LEASE_MARGIN_MS"

definition max_attempts_of :: "retry_config option \<Rightarrow> nat" where
  "max_attempts_of retries = or_default (rt_max_attempts (or_default retries no_retry_config)) DEFAULT_MAX_ATTEMPTS"

definition remaining_queue_attempts :: "nat \<Rightarrow> retry_config option \<Rightarrow> int" where
  "remaining_queue_attempts attempt retries = max 1 (int (max_attempts_of retries) - int attempt)"

section \<open>Backoff\<close>

definition backoff_ceiling :: "nat \<Rightarrow> retry_config option \<Rightarrow> int" where
  "backoff_ceiling attempt retries =
     min (int (or_default (rt_initial_delay_ms (or_default retries no_retry_config)) DEFAULT_INITIAL_DELAY_MS
            * 2 ^ (attempt - 1)))
         MAX_ATTEMPT_DELAY_MS"

definition next_attempt_delay_ms :: "nat \<Rightarrow> retry_config option \<Rightarrow> rat \<Rightarrow> int" where
  "next_attempt_delay_ms attempt retries random =
     (let ceiling = of_int (backoff_ceiling attempt retries);
          floor = ceiling * (1 - JITTER_FRACTION)
      in \<lfloor>random * ceiling * JITTER_FRACTION + floor\<rfloor>)"

definition is_final_attempt :: "nat \<Rightarrow> retry_config option \<Rightarrow> bool" where
  "is_final_attempt attempt retries \<longleftrightarrow> max_attempts_of retries \<le> attempt"

section \<open>The target\<close>

record url_parts =
  ur_protocol :: string
  ur_hostname :: string

definition starts_with :: "string \<Rightarrow> string \<Rightarrow> bool" where
  "starts_with pre s \<longleftrightarrow> take (length pre) s = pre"

definition is_server_derived_target :: "string \<Rightarrow> bool" where
  "is_server_derived_target url \<longleftrightarrow>
     starts_with ''skein+channel://'' url \<or> starts_with ''skein-bullmq://'' url"

text \<open>A URL that does not parse is redacted to nothing.\<close>

definition unparseable_target :: string where
  "unparseable_target = ''webhook URL <unparseable url> is not a valid absolute URL''"

definition disallowed_host :: "(string \<Rightarrow> url_parts option) \<Rightarrow> string \<Rightarrow> string list option \<Rightarrow> string option" where
  "disallowed_host parse_url url allowed_hosts =
     (if or_default allowed_hosts [] = [] then None
      else if is_server_derived_target url then None
      else
        case parse_url url of
          None \<Rightarrow> Some unparseable_target
        | Some parts \<Rightarrow>
            if ur_hostname parts \<in> set (or_default allowed_hosts []) then None
            else Some (''webhook host '' @ [CHR 0x22] @ ur_hostname parts @ [CHR 0x22] @
                       '' is not in skein.webhooks.allowed_hosts''))"

definition insecure_transport :: "(string \<Rightarrow> url_parts option) \<Rightarrow> string \<Rightarrow> bool option \<Rightarrow> string option" where
  "insecure_transport parse_url url require_https =
     (if require_https \<noteq> Some True then None
      else if is_server_derived_target url then None
      else
        case parse_url url of
          None \<Rightarrow> Some unparseable_target
        | Some parts \<Rightarrow>
            if ur_protocol parts = ''https:'' then None
            else Some (''webhook URL uses '' @ ur_protocol parts @ '' and skein.webhooks.require_https is set''))"

text \<open>\<^verbatim>\<open>disallowedHost(..) ?? insecureTransport(..)\<close>\<close>

definition refused_target :: "(string \<Rightarrow> url_parts option) \<Rightarrow> webhook_config option \<Rightarrow> string \<Rightarrow> string option" where
  "refused_target parse_url webhooks url =
     (let w = or_default webhooks no_webhook_config in
      case disallowed_host parse_url url (wh_allowed_hosts w) of
        Some reason \<Rightarrow> Some reason
      | None \<Rightarrow> insecure_transport parse_url url (wh_require_https w))"

section \<open>The request\<close>

fun run_status_text :: "run_status \<Rightarrow> string" where
  "run_status_text Pending = ''pending''"
| "run_status_text Running = ''running''"
| "run_status_text Success = ''success''"
| "run_status_text Errored = ''error''"
| "run_status_text TimedOut = ''timeout''"
| "run_status_text Interrupted = ''interrupted''"
| "run_status_text Cancelled = ''cancelled''"

definition to_delivery_body :: "delivery \<Rightarrow> string \<Rightarrow> jsobj" where
  "to_delivery_body d sent_at =
     jm_set ''webhook_sent_at'' (JStr sent_at)
       (jm_set ''status'' (JStr (run_status_text (dl_run_status d)))
         (case dl_payload d of JObj ps \<Rightarrow> ps | _ \<Rightarrow> []))"

text \<open>The functions the request is rendered with.\<close>

record rendering =
  rn_json :: "jsval \<Rightarrow> string"
  rn_iso :: "instant \<Rightarrow> string"
  rn_decimal :: "int \<Rightarrow> string"
  rn_hmac_hex :: "string \<Rightarrow> string \<Rightarrow> string"

definition SIGNATURE_HEADER :: string where "SIGNATURE_HEADER = ''x-skein-signature''"

definition sign_delivery :: "rendering \<Rightarrow> string \<Rightarrow> int \<Rightarrow> string \<Rightarrow> string" where
  "sign_delivery rn secret timestamp_seconds body =
     ''t='' @ rn_decimal rn timestamp_seconds @ '',v1='' @
       rn_hmac_hex rn secret (rn_decimal rn timestamp_seconds @ ''.'' @ body)"

definition delivery_headers :: "rendering \<Rightarrow> ident \<Rightarrow> nat \<Rightarrow> string option \<Rightarrow> (string, string) jsmap" where
  "delivery_headers rn delivery_id attempt signature =
     [(''x-skein-delivery-id'', delivery_id), (''x-skein-attempt'', rn_decimal rn (int attempt))] @
     (case signature of Some sig \<Rightarrow> if sig = [] then [] else [(SIGNATURE_HEADER, sig)] | None \<Rightarrow> [])"

record delivery_request =
  dr_url :: string
  dr_payload :: jsobj
  dr_delivery_id :: ident
  dr_attempt :: nat
  dr_headers :: "(string, string) jsmap"
  dr_body :: string

text \<open>The first secret signs, unless it is absent or empty.\<close>

definition signing_key :: "string list option \<Rightarrow> string option" where
  "signing_key secrets =
     (case or_default secrets [] of [] \<Rightarrow> None | key # _ \<Rightarrow> if key = [] then None else Some key)"

definition to_delivery_request ::
  "rendering \<Rightarrow> delivery \<Rightarrow> nat \<Rightarrow> instant \<Rightarrow> string list option \<Rightarrow> delivery_request" where
  "to_delivery_request rn d attempt sent_at secrets =
     (let payload = to_delivery_body d (rn_iso rn sent_at);
          body = rn_json rn (JObj payload);
          signature = map_option (\<lambda>key. sign_delivery rn key (sent_at div 1000) body) (signing_key secrets)
      in \<lparr>dr_url = dl_url d, dr_payload = payload, dr_delivery_id = dl_delivery_id d, dr_attempt = attempt,
          dr_headers = delivery_headers rn (dl_delivery_id d) attempt signature, dr_body = body\<rparr>)"

section \<open>One attempt\<close>

text \<open>
  What the world answers during an attempt: the error of the POST (\<open>None\<close>: it succeeded), whether the
  \<open>n\<close>-th write of the outcome succeeds, whether the queue takes the hand-over, the clock and the
  random numbers as they are read, and the clock of the store.
\<close>

record attempt_world =
  aw_post :: "string option"
  aw_write_ok :: "nat \<Rightarrow> bool"
  aw_schedule_ok :: bool
  aw_clock :: "nat \<Rightarrow> instant"
  aw_random :: "nat \<Rightarrow> rat"
  aw_store_clock :: "nat \<Rightarrow> instant"

record attempt_deps =
  ad_parse_url :: "string \<Rightarrow> url_parts option"
  ad_rendering :: rendering
  ad_webhooks :: "webhook_config option"
  ad_queue :: bool

record schedule_call =
  sc_delivery_id :: ident
  sc_delay_ms :: "int option"
  sc_attempts :: int

record attempt_effects =
  ae_posts :: "delivery_request list"
  ae_scheduled :: "schedule_call list"

definition retries_of :: "attempt_deps \<Rightarrow> retry_config option" where
  "retries_of deps = wh_retries (or_default (ad_webhooks deps) no_webhook_config)"

definition secrets_of :: "attempt_deps \<Rightarrow> string list option" where
  "secrets_of deps = wh_secrets (or_default (ad_webhooks deps) no_webhook_config)"

text \<open>A write of the outcome that fails is logged; the row keeps its lease.\<close>

definition record_outcome ::
  "attempt_world \<Rightarrow> nat \<Rightarrow> ident \<Rightarrow> delivery_attempt_result \<Rightarrow> mem_store \<Rightarrow> delivery option \<times> mem_store" where
  "record_outcome w n delivery_id result s =
     (if aw_write_ok w n then record_attempt delivery_id result (aw_store_clock w n) s else (None, s))"

definition failure_result :: "attempt_deps \<Rightarrow> attempt_world \<Rightarrow> delivery \<Rightarrow> string \<Rightarrow> delivery_attempt_result" where
  "failure_result deps w d message =
     (if is_final_attempt (dl_attempt d) (retries_of deps) then AttemptDead message None
      else
        let delay = next_attempt_delay_ms (dl_attempt d) (retries_of deps) (aw_random w 0);
            due_in = (if ad_queue deps then delay + QUEUE_SWEEP_MARGIN_MS else delay)
        in AttemptRetrying (aw_clock w 1 + due_in) message None)"

definition attempt_delivery ::
  "attempt_deps \<Rightarrow> attempt_world \<Rightarrow> delivery \<Rightarrow> mem_store \<Rightarrow> delivery option \<times> attempt_effects \<times> mem_store" where
  "attempt_delivery deps w d s =
     (case refused_target (ad_parse_url deps) (ad_webhooks deps) (dl_url d) of
        Some reason \<Rightarrow>
          (let (row, s1) = record_outcome w 0 (dl_delivery_id d) (AttemptDead reason None) s
           in (row, \<lparr>ae_posts = [], ae_scheduled = []\<rparr>, s1))
      | None \<Rightarrow>
          let request = to_delivery_request (ad_rendering deps) d (dl_attempt d) (aw_clock w 0) (secrets_of deps);
              result = (case aw_post w of
                          None \<Rightarrow> AttemptDelivered None
                        | Some message \<Rightarrow> failure_result deps w d message);
              (settled, s1) = record_outcome w 0 (dl_delivery_id d) result s
          in case result of
               AttemptRetrying _ message _ \<Rightarrow>
                 if \<not> ad_queue deps then (settled, \<lparr>ae_posts = [request], ae_scheduled = []\<rparr>, s1)
                 else
                   let call = \<lparr>sc_delivery_id = dl_delivery_id d,
                               sc_delay_ms = Some (next_attempt_delay_ms (dl_attempt d) (retries_of deps) (aw_random w 1)),
                               sc_attempts = remaining_queue_attempts (dl_attempt d) (retries_of deps)\<rparr>
                   in if aw_schedule_ok w then (settled, \<lparr>ae_posts = [request], ae_scheduled = [call]\<rparr>, s1)
                      else
                        let fallback = AttemptRetrying
                              (aw_clock w 2 + next_attempt_delay_ms (dl_attempt d) (retries_of deps) (aw_random w 2))
                              message None;
                            (row, s2) = record_outcome w 1 (dl_delivery_id d) fallback s1
                        in (row, \<lparr>ae_posts = [request], ae_scheduled = []\<rparr>, s2)
             | _ \<Rightarrow> (settled, \<lparr>ae_posts = [request], ae_scheduled = []\<rparr>, s1))"

section \<open>The queue consumer's attempt\<close>

text \<open>
  \<^verbatim>\<open>processDelivery\<close>. The first result is what it throws: that is how the queue is told to schedule
  another attempt; a failed write throws too.
\<close>

definition write_or_throw ::
  "attempt_world \<Rightarrow> ident \<Rightarrow> delivery_attempt_result \<Rightarrow> string option \<Rightarrow> mem_store \<Rightarrow> string option \<times> mem_store" where
  "write_or_throw w delivery_id result thrown s =
     (if aw_write_ok w 0 then (thrown, snd (record_attempt delivery_id result (aw_store_clock w 0) s))
      else (Some ''write failed'', s))"

definition process_delivery ::
  "attempt_deps \<Rightarrow> attempt_world \<Rightarrow> ident \<Rightarrow> bool \<Rightarrow> mem_store \<Rightarrow>
     string option \<times> delivery_request list \<times> mem_store" where
  "process_delivery deps w delivery_id is_final s =
     (case delivery_get delivery_id s of
        None \<Rightarrow> (None, [], s)
      | Some d \<Rightarrow>
          if dl_status d = Delivered \<or> dl_status d = Dead then (None, [], s)
          else
            let attempt = Suc (dl_attempt d) in
            case refused_target (ad_parse_url deps) (ad_webhooks deps) (dl_url d) of
              Some reason \<Rightarrow>
                (let (thrown, s1) = write_or_throw w (dl_delivery_id d) (AttemptDead reason None) None s
                 in (thrown, [], s1))
            | None \<Rightarrow>
                let request = to_delivery_request (ad_rendering deps) d attempt (aw_clock w 0) (secrets_of deps);
                    (result, thrown) =
                      (case aw_post w of
                         None \<Rightarrow> (AttemptDelivered (Some attempt), None)
                       | Some message \<Rightarrow>
                           if is_final then (AttemptDead message (Some attempt), None)
                           else (AttemptRetrying
                                   (aw_clock w 1 + next_attempt_delay_ms attempt (retries_of deps) (aw_random w 0)
                                      + QUEUE_SWEEP_MARGIN_MS)
                                   message (Some attempt), Some message));
                    (thrown', s1) = write_or_throw w (dl_delivery_id d) result thrown s
                in (thrown', [request], s1))"

section \<open>A tick of the worker\<close>

record delivery_tick =
  dt_claimed :: nat
  dt_delivered :: nat
  dt_failed :: nat
  dt_swept :: nat

text \<open>The claimed batch is attempted in order, each attempt in its own world.\<close>

fun attempt_each ::
  "attempt_deps \<Rightarrow> (nat \<Rightarrow> attempt_world) \<Rightarrow> nat \<Rightarrow> delivery list \<Rightarrow> mem_store \<Rightarrow>
     delivery option list \<times> delivery_request list \<times> mem_store" where
  "attempt_each deps worlds n [] s = ([], [], s)"
| "attempt_each deps worlds n (d # ds) s =
     (let (row, effects, s1) = attempt_delivery (deps\<lparr>ad_queue := False\<rparr>) (worlds n) d s;
          (rows, posts, s2) = attempt_each deps worlds (Suc n) ds s1
      in (row # rows, ae_posts effects @ posts, s2))"

definition delivered_row :: "delivery option \<Rightarrow> bool" where
  "delivered_row row = (case row of Some d \<Rightarrow> dl_status d = Delivered | None \<Rightarrow> False)"

definition recovery_call :: "attempt_deps \<Rightarrow> delivery \<Rightarrow> schedule_call" where
  "recovery_call deps d =
     \<lparr>sc_delivery_id = dl_delivery_id d, sc_delay_ms = None,
      sc_attempts = remaining_queue_attempts (dl_attempt d) (retries_of deps)\<rparr>"

text \<open>
  \<^verbatim>\<open>tickOnce\<close>: with a queue the due rows are only handed back to it; without one they are claimed,
  under a lease for the whole batch, and attempted. The retention sweep follows when it is due.
\<close>

definition tick_once ::
  "attempt_deps \<Rightarrow> (string \<Rightarrow> string \<Rightarrow> int) \<Rightarrow> nat \<Rightarrow> int \<Rightarrow> (nat \<Rightarrow> attempt_world) \<Rightarrow> instant \<Rightarrow> instant \<Rightarrow>
     instant option \<Rightarrow> mem_store \<Rightarrow>
     delivery_tick \<times> delivery_request list \<times> schedule_call list \<times> instant option \<times> mem_store" where
  "tick_once deps lc batch_size timeout_ms worlds now later last_swept s =
     (let (claimed, rows, posts, calls, s1) =
            (if ad_queue deps
             then let due = list_due lc now (Some batch_size) s
                  in (length due, [], [], map (recovery_call deps) due, s)
             else let (batch, s0) = claim_due lc now (now + delivery_lease_ms (int batch_size) timeout_ms)
                                      (Some batch_size) now s;
                      (rows, posts, s1) = attempt_each deps worlds 0 batch s0
                  in (length batch, rows, posts, [], s1));
          sweeps = (case last_swept of None \<Rightarrow> True | Some t \<Rightarrow> SWEEP_INTERVAL_MS \<le> later - t);
          (swept, s2) = (if sweeps then deliveries_sweep_expired later s1 else (0, s1))
      in (\<lparr>dt_claimed = claimed, dt_delivered = length (filter delivered_row rows),
           dt_failed = length (filter (\<lambda>r. \<not> delivered_row r) rows), dt_swept = swept\<rparr>,
          posts, calls, (if sweeps then Some later else last_swept), s2))"

end
