(* ===== verification/DeliveryBudget.thy ===== *)
theory DeliveryBudget
  imports DeliveryAttempts
begin

text \<open>
  What an attempt makes of the row it attempts, within which bounds the next attempt is due, and how
  many callbacks a delivery can cost over any number of ticks of the polling worker.
\<close>

section \<open>Backoff\<close>

lemma backoff_ceiling_bounds: "0 \<le> backoff_ceiling attempt retries" "backoff_ceiling attempt retries \<le> MAX_ATTEMPT_DELAY_MS"
  by (simp_all add: backoff_ceiling_def MAX_ATTEMPT_DELAY_MS_def)

lemma next_attempt_delay_bounds:
  assumes "0 \<le> r" "r < 1"
  shows "4 * backoff_ceiling attempt retries div 5 \<le> next_attempt_delay_ms attempt retries r"
    and "next_attempt_delay_ms attempt retries r \<le> backoff_ceiling attempt retries"
proof -
  let ?c = "of_int (backoff_ceiling attempt retries) :: rat"
  have c: "0 \<le> ?c" using backoff_ceiling_bounds(1) by simp
  have "r * ?c * (1 / 5) \<le> ?c * (1 / 5)" using assms c by (intro mult_right_mono mult_left_le_one_le) simp_all
  then have upper: "r * ?c * (1 / 5) + ?c * (1 - 1 / 5) \<le> ?c" by (simp add: field_simps)
  have lower: "?c * (4 / 5) \<le> r * ?c * (1 / 5) + ?c * (1 - 1 / 5)" using assms c by simp
  have "next_attempt_delay_ms attempt retries r = \<lfloor>r * ?c * (1 / 5) + ?c * (1 - 1 / 5)\<rfloor>"
    by (simp add: next_attempt_delay_ms_def JITTER_FRACTION_def Let_def)
  moreover have "\<lfloor>?c * (4 / 5)\<rfloor> = 4 * backoff_ceiling attempt retries div 5"
  proof -
    have "?c * (4 / 5) = of_int (4 * backoff_ceiling attempt retries) / of_int 5" by simp
    then show ?thesis by (simp only: floor_divide_of_int_eq)
  qed
  moreover have "\<lfloor>?c\<rfloor> = backoff_ceiling attempt retries" by simp
  ultimately show "4 * backoff_ceiling attempt retries div 5 \<le> next_attempt_delay_ms attempt retries r"
    and "next_attempt_delay_ms attempt retries r \<le> backoff_ceiling attempt retries"
    using floor_mono [OF lower] floor_mono [OF upper] by simp_all
qed

section \<open>One attempt\<close>

lemma record_attempt_row:
  assumes "map_of (ms_deliveries s) i = Some row"
  shows "fst (record_attempt i res now s) = Some ((settled_delivery res row)\<lparr>dl_updated_at := now\<rparr>)"
    and "map_of (ms_deliveries (snd (record_attempt i res now s))) j =
           (if j = i then Some ((settled_delivery res row)\<lparr>dl_updated_at := now\<rparr>) else map_of (ms_deliveries s) j)"
  using assms by (simp_all add: record_attempt_def Let_def jm_simps)

text \<open>The outcome of a polling worker's attempt, as a result to record and whether a callback was sent.\<close>

definition attempt_result :: "attempt_deps \<Rightarrow> attempt_world \<Rightarrow> delivery \<Rightarrow> delivery_attempt_result \<times> bool" where
  "attempt_result deps w d =
     (case refused_target (ad_parse_url deps) (ad_webhooks deps) (dl_url d) of
        Some reason \<Rightarrow> (AttemptDead reason None, False)
      | None \<Rightarrow>
          (case aw_post w of
             None \<Rightarrow> (AttemptDelivered None, True)
           | Some message \<Rightarrow> (failure_result deps w d message, True)))"

lemma attempt_delivery_polling:
  assumes "\<not> ad_queue deps"
  shows "attempt_delivery deps w d s =
     (let (result, sent) = attempt_result deps w d;
          (row, s') = record_outcome w 0 (dl_delivery_id d) result s
      in (row, \<lparr>ae_posts = (if sent then [to_delivery_request (ad_rendering deps) d (dl_attempt d) (aw_clock w 0) (secrets_of deps)]
                             else []), ae_scheduled = []\<rparr>, s'))"
  using assms
  by (simp add: attempt_delivery_def attempt_result_def Let_def failure_result_def
      split: option.split prod.split delivery_attempt_result.split)

lemma ceiling_formula:
  "backoff_ceiling attempt retries =
     min (int (case retries of None \<Rightarrow> 1000 | Some c \<Rightarrow> or_default (rt_initial_delay_ms c) 1000) * 2 ^ (attempt - 1))
       (24 * 60 * 60 * 1000)"
  by (simp add: backoff_ceiling_def MAX_ATTEMPT_DELAY_MS_def DEFAULT_INITIAL_DELAY_MS_def no_retry_config_def
      or_default_def split: option.split)

text \<open>
  C33. An attempt by the polling worker settles its row by what happened, and touches no other row: a
  refused target is dead without a callback; otherwise exactly one callback is sent, with the number
  of this attempt, and the row is delivered with its payload dropped, dead when this was the last
  attempt, or pending again, its payload kept and due after the backoff: the initial delay doubled
  with every attempt before this one, at most a day, with at most a fifth of jitter taken off. When the
  outcome cannot be written, the row stays as it was, under its lease.
\<close>

theorem delivery_attempt_settles:
  assumes row: "jm_get (ms_deliveries s) (dl_delivery_id d) = Some d"
    and polling: "\<not> ad_queue deps" and random: "0 \<le> aw_random w 0" "aw_random w 0 < 1"
    and result: "attempt_delivery deps w d s = (settled, effects, s')"
  shows "ae_posts effects =
           (case refused_target (ad_parse_url deps) (ad_webhooks deps) (dl_url d) of
              Some reason \<Rightarrow> []
            | None \<Rightarrow> [to_delivery_request (ad_rendering deps) d (dl_attempt d) (aw_clock w 0) (secrets_of deps)]) \<and>
         (\<forall>j. j \<noteq> dl_delivery_id d \<longrightarrow> jm_get (ms_deliveries s') j = jm_get (ms_deliveries s) j) \<and>
         (\<not> aw_write_ok w 0 \<longrightarrow> settled = None \<and> s' = s) \<and>
         (aw_write_ok w 0 \<longrightarrow>
           (\<exists>d'. settled = Some d' \<and> jm_get (ms_deliveries s') (dl_delivery_id d) = Some d' \<and>
             (case refused_target (ad_parse_url deps) (ad_webhooks deps) (dl_url d) of
                Some reason \<Rightarrow> dl_status d' = Dead \<and> dl_last_error d' = Some reason
              | None \<Rightarrow>
                  (case aw_post w of
                     None \<Rightarrow> dl_status d' = Delivered \<and> dl_payload d' = JNull
                   | Some message \<Rightarrow>
                       dl_last_error d' = Some message \<and> dl_payload d' = dl_payload d \<and>
                       (if max_attempts_of (retries_of deps) \<le> dl_attempt d then dl_status d' = Dead
                        else dl_status d' = DPending \<and>
                          (let initial = (case retries_of deps of None \<Rightarrow> 1000
                                          | Some c \<Rightarrow> or_default (rt_initial_delay_ms c) 1000);
                               backoff = min (int initial * 2 ^ (dl_attempt d - 1)) (24 * 60 * 60 * 1000)
                           in aw_clock w 1 + 4 * backoff div 5 \<le> dl_next_attempt_at d' \<and>
                              dl_next_attempt_at d' \<le> aw_clock w 1 + backoff))))))"
proof -
  obtain res sent where outcome: "attempt_result deps w d = (res, sent)" by fastforce
  let ?d' = "(settled_delivery res d)\<lparr>dl_updated_at := aw_store_clock w 0\<rparr>"
  have posts: "ae_posts effects = (if sent then
        [to_delivery_request (ad_rendering deps) d (dl_attempt d) (aw_clock w 0) (secrets_of deps)] else [])"
    and out: "(settled, s') = record_outcome w 0 (dl_delivery_id d) res s"
    using result unfolding attempt_delivery_polling [OF polling] outcome by (auto split: prod.splits)
  have written: "settled = Some ?d'" "s' = snd (record_attempt (dl_delivery_id d) res (aw_store_clock w 0) s)"
    if "aw_write_ok w 0"
    using out record_attempt_row(1) [OF row, of res "aw_store_clock w 0"] that
    by (auto simp: record_outcome_def prod_eq_iff)
  have failed: "settled = None \<and> s' = s" if "\<not> aw_write_ok w 0"
    using out that by (simp add: record_outcome_def)
  note bounds = next_attempt_delay_bounds [OF random, of "dl_attempt d" "retries_of deps", unfolded ceiling_formula]
  have final: "case refused_target (ad_parse_url deps) (ad_webhooks deps) (dl_url d) of
      Some reason \<Rightarrow> dl_status ?d' = Dead \<and> dl_last_error ?d' = Some reason
    | None \<Rightarrow> (case aw_post w of
         None \<Rightarrow> dl_status ?d' = Delivered \<and> dl_payload ?d' = JNull
       | Some message \<Rightarrow>
           dl_last_error ?d' = Some message \<and> dl_payload ?d' = dl_payload d \<and>
           (if max_attempts_of (retries_of deps) \<le> dl_attempt d then dl_status ?d' = Dead
            else dl_status ?d' = DPending \<and>
              (let initial = (case retries_of deps of None \<Rightarrow> 1000
                              | Some c \<Rightarrow> or_default (rt_initial_delay_ms c) 1000);
                   backoff = min (int initial * 2 ^ (dl_attempt d - 1)) (24 * 60 * 60 * 1000)
               in aw_clock w 1 + 4 * backoff div 5 \<le> dl_next_attempt_at ?d' \<and>
                  dl_next_attempt_at ?d' \<le> aw_clock w 1 + backoff)))"
    using outcome polling bounds
    by (auto simp: attempt_result_def failure_result_def is_final_attempt_def Let_def split: option.splits if_splits)
  have sent: "ae_posts effects = (case refused_target (ad_parse_url deps) (ad_webhooks deps) (dl_url d) of
      Some reason \<Rightarrow> []
    | None \<Rightarrow> [to_delivery_request (ad_rendering deps) d (dl_attempt d) (aw_clock w 0) (secrets_of deps)])"
    using outcome posts by (auto simp: attempt_result_def split: option.splits)
  have others: "\<forall>j. j \<noteq> dl_delivery_id d \<longrightarrow> jm_get (ms_deliveries s') j = jm_get (ms_deliveries s) j"
    using written(2) failed by (cases "aw_write_ok w 0") (simp_all add: record_attempt_row(2) [OF row])
  have settled: "settled = Some ?d' \<and> jm_get (ms_deliveries s') (dl_delivery_id d) = Some ?d'" if "aw_write_ok w 0"
    using written [OF that] by (simp add: record_attempt_row(2) [OF row])
  show ?thesis
    by (intro conjI impI sent others failed, assumption) (use settled final in blast)
qed

section \<open>The budget of a delivery\<close>

text \<open>The callbacks a delivery may still cost.\<close>

definition settled_status :: "delivery_status \<Rightarrow> bool" where
  "settled_status st \<longleftrightarrow> st = Delivered \<or> st = Dead"

definition budget :: "retry_config option \<Rightarrow> delivery option \<Rightarrow> nat" where
  "budget retries row =
     (case row of
        None \<Rightarrow> 0
      | Some d \<Rightarrow> if settled_status (dl_status d) then 0 else max 1 (max_attempts_of retries - dl_attempt d))"

definition posts_for :: "ident \<Rightarrow> delivery_request list \<Rightarrow> nat" where
  "posts_for i reqs = length (filter (\<lambda>r. dr_delivery_id r = i) reqs)"

lemma posts_for_simps [simp]:
  "posts_for i [] = 0"
  "posts_for i (r # rs) = (if dr_delivery_id r = i then 1 else 0) + posts_for i rs"
  "posts_for i (xs @ ys) = posts_for i xs + posts_for i ys"
  by (simp_all add: posts_for_def)

lemma request_id [simp]: "dr_delivery_id (to_delivery_request rn d n t secrets) = dl_delivery_id d"
  by (simp add: to_delivery_request_def Let_def)

lemma attempt_spends:
  assumes row: "jm_get (ms_deliveries s) (dl_delivery_id d) = Some d"
    and polling: "\<not> ad_queue deps"
    and result: "attempt_delivery deps w d s = (settled, effects, s')"
  shows "posts_for i (ae_posts effects) + budget (retries_of deps) (jm_get (ms_deliveries s') i) \<le>
           (if i = dl_delivery_id d
            then Suc (max_attempts_of (retries_of deps) - dl_attempt d) + (if aw_write_ok w 0 then 0 else 1)
            else budget (retries_of deps) (jm_get (ms_deliveries s) i))"
    and "j \<noteq> dl_delivery_id d \<Longrightarrow> jm_get (ms_deliveries s') j = jm_get (ms_deliveries s) j"
    and "keyed_by dl_delivery_id (ms_deliveries s) \<Longrightarrow> keyed_by dl_delivery_id (ms_deliveries s')"
    and "i \<noteq> dl_delivery_id d \<Longrightarrow> posts_for i (ae_posts effects) = 0"
proof -
  obtain res sent where outcome: "attempt_result deps w d = (res, sent)" by fastforce
  let ?d' = "(settled_delivery res d)\<lparr>dl_updated_at := aw_store_clock w 0\<rparr>"
  have s': "s' = (if aw_write_ok w 0 then snd (record_attempt (dl_delivery_id d) res (aw_store_clock w 0) s) else s)"
    and posts: "ae_posts effects = (if sent then
        [to_delivery_request (ad_rendering deps) d (dl_attempt d) (aw_clock w 0) (secrets_of deps)] else [])"
    using result unfolding attempt_delivery_polling [OF polling] outcome record_outcome_def
    by (auto split: prod.splits if_splits)
  have get: "jm_get (ms_deliveries s') j =
      (if j = dl_delivery_id d then Some (if aw_write_ok w 0 then ?d' else d) else jm_get (ms_deliveries s) j)" for j
    unfolding s' using record_attempt_row(2) [OF row] row by simp
  have "budget (retries_of deps) (Some ?d') \<le> max_attempts_of (retries_of deps) - dl_attempt d"
    using outcome polling
    by (auto simp: attempt_result_def failure_result_def is_final_attempt_def budget_def settled_status_def Let_def
        split: option.splits if_splits)
  moreover have "budget (retries_of deps) (Some d) \<le> Suc (max_attempts_of (retries_of deps) - dl_attempt d)"
    by (simp add: budget_def)
  ultimately show "posts_for i (ae_posts effects) + budget (retries_of deps) (jm_get (ms_deliveries s') i) \<le>
           (if i = dl_delivery_id d
            then Suc (max_attempts_of (retries_of deps) - dl_attempt d) + (if aw_write_ok w 0 then 0 else 1)
            else budget (retries_of deps) (jm_get (ms_deliveries s) i))"
    by (simp add: posts get)
  show "j \<noteq> dl_delivery_id d \<Longrightarrow> jm_get (ms_deliveries s') j = jm_get (ms_deliveries s) j" by (simp add: get)
  show "keyed_by dl_delivery_id (ms_deliveries s) \<Longrightarrow> keyed_by dl_delivery_id (ms_deliveries s')"
    unfolding s' using deliveries_inv(2) by simp
  show "i \<noteq> dl_delivery_id d \<Longrightarrow> posts_for i (ae_posts effects) = 0" by (simp add: posts)
qed

text \<open>Some outcome of the attempts \<open>n\<close> to \<open>n + k - 1\<close> is not written.\<close>

definition loses_outcome :: "(nat \<Rightarrow> attempt_world) \<Rightarrow> nat \<Rightarrow> nat \<Rightarrow> bool" where
  "loses_outcome worlds n k \<longleftrightarrow> list_ex (\<lambda>m. \<not> aw_write_ok (worlds m) 0) [n ..< n + k]"

lemma loses_outcome_Suc:
  "loses_outcome worlds n (Suc k) \<longleftrightarrow> \<not> aw_write_ok (worlds n) 0 \<or> loses_outcome worlds (Suc n) k"
  by (simp add: loses_outcome_def upt_conv_Cons del: upt_Suc)

lemma loses_outcome_mono: "loses_outcome worlds n k \<Longrightarrow> k \<le> k' \<Longrightarrow> loses_outcome worlds n k'"
  by (auto simp: loses_outcome_def list_ex_iff)

lemma attempt_each_spends:
  assumes "distinct (map dl_delivery_id ds)" "\<forall>d \<in> set ds. jm_get (ms_deliveries s) (dl_delivery_id d) = Some d"
    "keyed_by dl_delivery_id (ms_deliveries s)"
    and "attempt_each deps worlds n ds s = (rows, posts, s')"
  shows "posts_for i posts + budget (retries_of deps) (jm_get (ms_deliveries s') i) \<le>
           (case find (\<lambda>d. dl_delivery_id d = i) ds of
              Some d \<Rightarrow> Suc (max_attempts_of (retries_of deps) - dl_attempt d) +
                        (if loses_outcome worlds n (length ds) then 1 else 0)
            | None \<Rightarrow> budget (retries_of deps) (jm_get (ms_deliveries s) i)) \<and>
         keyed_by dl_delivery_id (ms_deliveries s')"
  using assms
proof (induction ds arbitrary: s n rows posts)
  case (Cons d ds)
  let ?deps = "deps\<lparr>ad_queue := False\<rparr>"
  have deps: "retries_of ?deps = retries_of deps" by (simp add: retries_of_def)
  obtain row effects s1 where one: "attempt_delivery ?deps (worlds n) d s = (row, effects, s1)" by (metis prod_cases3)
  obtain rows' posts' where rest: "attempt_each deps worlds (Suc n) ds s1 = (rows', posts', s')"
    and posts: "posts = ae_posts effects @ posts'"
    using Cons.prems(4) one by (auto split: prod.splits)
  have stored: "jm_get (ms_deliveries s) (dl_delivery_id d) = Some d" using Cons.prems(2) by simp
  note spends = attempt_spends [OF stored _ one, unfolded deps]
  have "dl_delivery_id e \<noteq> dl_delivery_id d" if "e \<in> set ds" for e
    using Cons.prems(1) that by (auto intro: rev_image_eqI)
  then have "\<forall>e \<in> set ds. jm_get (ms_deliveries s1) (dl_delivery_id e) = Some e"
    using Cons.prems(2) spends(2) by simp
  from Cons.IH [OF _ this spends(3) rest] Cons.prems(1,3)
  have IH: "posts_for i posts' + budget (retries_of deps) (jm_get (ms_deliveries s') i) \<le>
        (case find (\<lambda>d. dl_delivery_id d = i) ds of
           Some d \<Rightarrow> Suc (max_attempts_of (retries_of deps) - dl_attempt d) +
                     (if loses_outcome worlds (Suc n) (length ds) then 1 else 0)
         | None \<Rightarrow> budget (retries_of deps) (jm_get (ms_deliveries s1) i))"
      and keyed: "keyed_by dl_delivery_id (ms_deliveries s')" by simp_all
  show ?case
  proof (cases "i = dl_delivery_id d")
    case True
    then have "find (\<lambda>d. dl_delivery_id d = i) ds = None"
      using Cons.prems(1) by (auto simp: find_None_iff intro: rev_image_eqI)
    then show ?thesis using True IH spends(1) [of i] keyed posts
      by (cases "aw_write_ok (worlds n) 0") (simp_all add: loses_outcome_Suc)
  next
    case False
    then show ?thesis using IH spends(2) [of i] spends(4) [OF _ False] keyed posts
      by (cases "loses_outcome worlds (Suc n) (length ds)")
         (auto simp: loses_outcome_Suc split: option.splits)
  qed
qed simp

lemma sweep_spends:
  assumes "keyed_by dl_delivery_id (ms_deliveries s)"
  shows "budget retries (jm_get (ms_deliveries (snd (deliveries_sweep_expired now s))) i) \<le> budget retries (jm_get (ms_deliveries s) i)"
  using keyed_by_wf [OF assms]
  by (auto simp: deliveries_sweep_expired_def jm_get_filter budget_def split: option.split)

lemma tick_spends:
  assumes keyed: "keyed_by dl_delivery_id (ms_deliveries s)" and polling: "\<not> ad_queue deps"
    and tick: "tick_once deps lc batch timeout worlds now later swept s = (summary, posts, calls, swept', s')"
  shows "posts_for i posts + budget (retries_of deps) (jm_get (ms_deliveries s') i) \<le>
           budget (retries_of deps) (jm_get (ms_deliveries s) i) +
             (if budget (retries_of deps) (jm_get (ms_deliveries s) i) \<noteq> 0 \<and> loses_outcome worlds 0 batch
              then 1 else 0)"
    and "keyed_by dl_delivery_id (ms_deliveries s')"
proof -
  let ?lease = "now + delivery_lease_ms (int batch) timeout"
  let ?picked = "page (due_deliveries lc now s) 0 (page_limit s (Some batch))"
  let ?claim = "claim_due lc now ?lease (Some batch) now s"
  obtain rows posts' s1 where each: "attempt_each deps worlds 0 (fst ?claim) (snd ?claim) = (rows, posts', s1)"
    by (metis prod_cases3)
  have posts: "posts = posts'" and s': "s' = s1 \<or> s' = snd (deliveries_sweep_expired later s1)"
    using tick each polling by (auto simp: tick_once_def Let_def split: prod.splits if_splits)
  have dist: "distinct (map dl_delivery_id ?picked)"
    using distinct_due_deliveries [OF keyed] by (simp add: page_def take_map [symmetric])
  have due: "is_due now d" "map_of (ms_deliveries s) (dl_delivery_id d) = Some d" if "d \<in> set ?picked" for d
    using that set_page_subset keyed_value_get [OF keyed] by (fastforce simp: set_due_deliveries)+
  have get: "map_of (ms_deliveries (snd ?claim)) (dl_delivery_id d) = Some (leased ?lease now d)" if "d \<in> set ?picked" for d
    using due(2) [OF that] that by (simp add: claim_due_get [OF keyed])
  have ids: "map dl_delivery_id (fst ?claim) = map dl_delivery_id ?picked" by (simp add: claim_due_rows)
  have "\<forall>d \<in> set (fst ?claim). map_of (ms_deliveries (snd ?claim)) (dl_delivery_id d) = Some d"
    using get by (auto simp: claim_due_rows)
  from attempt_each_spends [OF _ this claim_due_inv [OF keyed] each] dist ids
  have spent: "posts_for i posts + budget (retries_of deps) (jm_get (ms_deliveries s1) i) \<le>
      (case find (\<lambda>d. dl_delivery_id d = i) (fst ?claim) of
         Some d \<Rightarrow> Suc (max_attempts_of (retries_of deps) - dl_attempt d) +
                   (if loses_outcome worlds 0 (length (fst ?claim)) then 1 else 0)
       | None \<Rightarrow> budget (retries_of deps) (jm_get (ms_deliveries (snd ?claim)) i))"
    and keyed1: "keyed_by dl_delivery_id (ms_deliveries s1)" by (simp_all add: posts)
  have "length (fst ?claim) \<le> batch"
    by (simp add: claim_due_rows page_def page_limit_def)
  then have slack: "(if loses_outcome worlds 0 (length (fst ?claim)) then 1 else 0) \<le>
      (if loses_outcome worlds 0 batch then 1 else (0::nat))"
    using loses_outcome_mono by auto
  have "(case find (\<lambda>d. dl_delivery_id d = i) (fst ?claim) of
         Some d \<Rightarrow> Suc (max_attempts_of (retries_of deps) - dl_attempt d) +
                   (if loses_outcome worlds 0 (length (fst ?claim)) then 1 else 0)
       | None \<Rightarrow> budget (retries_of deps) (jm_get (ms_deliveries (snd ?claim)) i))
      \<le> budget (retries_of deps) (jm_get (ms_deliveries s) i) +
         (if budget (retries_of deps) (jm_get (ms_deliveries s) i) \<noteq> 0 \<and> loses_outcome worlds 0 batch then 1 else 0)"
  proof (cases "find (\<lambda>d. dl_delivery_id d = i) (fst ?claim)")
    case None
    then have "d \<notin> set ?picked" if "map_of (ms_deliveries s) i = Some d" for d
      using that keyed_by_get [OF keyed] by (auto simp: find_None_iff claim_due_rows)
    then have "map_of (ms_deliveries (snd ?claim)) i = map_of (ms_deliveries s) i"
      by (auto simp: claim_due_get [OF keyed] split: option.split)
    with None show ?thesis by simp
  next
    case (Some d')
    then obtain d where d: "d \<in> set ?picked" "d' = leased ?lease now d" "dl_delivery_id d = i"
      by (auto simp: find_Some_iff claim_due_rows dest: nth_mem) (metis length_map nth_map nth_mem leased_simps(1))
    then have "map_of (ms_deliveries s) i = Some d" "\<not> settled_status (dl_status d)"
      using due [OF d(1)] by (auto simp: is_due_def settled_status_def)
    then show ?thesis using Some d(2) slack by (simp add: budget_def)
  qed
  then have "posts_for i posts + budget (retries_of deps) (jm_get (ms_deliveries s1) i) \<le>
      budget (retries_of deps) (jm_get (ms_deliveries s) i) +
        (if budget (retries_of deps) (jm_get (ms_deliveries s) i) \<noteq> 0 \<and> loses_outcome worlds 0 batch then 1 else 0)"
    using spent by simp
  then show "posts_for i posts + budget (retries_of deps) (jm_get (ms_deliveries s') i) \<le>
      budget (retries_of deps) (jm_get (ms_deliveries s) i) +
        (if budget (retries_of deps) (jm_get (ms_deliveries s) i) \<noteq> 0 \<and> loses_outcome worlds 0 batch then 1 else 0)"
    using s' sweep_spends [OF keyed1, of "retries_of deps" later i] by auto
  show "keyed_by dl_delivery_id (ms_deliveries s')" using s' keyed1 deliveries_inv(4) [OF keyed1] by auto
qed

text \<open>A history of ticks of polling workers, with the callbacks they send.\<close>

fun tick_all ::
  "attempt_deps \<Rightarrow> (string \<Rightarrow> string \<Rightarrow> int) \<Rightarrow> nat \<Rightarrow> int \<Rightarrow>
     ((nat \<Rightarrow> attempt_world) \<times> instant \<times> instant \<times> instant option) list \<Rightarrow> mem_store \<Rightarrow>
     delivery_request list \<times> mem_store" where
  "tick_all deps lc batch timeout [] s = ([], s)"
| "tick_all deps lc batch timeout ((worlds, now, later, swept) # rest) s =
     (let (_, posts, _, _, s1) = tick_once deps lc batch timeout worlds now later swept s;
          (posts', s2) = tick_all deps lc batch timeout rest s1
      in (posts @ posts', s2))"

text \<open>
  C34. The retry budget is kept: over any number of ticks one after the other, at any times and with any
  answers of the receivers, a delivery is posted at most as often as attempts are left to it (once, when
  none is), plus once for every tick that failed to write some outcome, after which the row stays leased
  and is attempted again; a settled delivery is never posted again. Each tick is one step here, so a
  second worker that claims a row whose lease ran out while it was still being posted is not covered.
\<close>

theorem delivery_budget_kept:
  assumes "keyed_by dl_delivery_id (ms_deliveries s)" and "\<not> ad_queue deps"
    and "tick_all deps lc batch timeout ticks s = (posts, s')"
  shows "posts_for i posts \<le>
           (case jm_get (ms_deliveries s) i of
              None \<Rightarrow> 0
            | Some d \<Rightarrow> if dl_status d = Delivered \<or> dl_status d = Dead then 0
                         else max 1 (max_attempts_of (retries_of deps) - dl_attempt d) +
                              length (filter (\<lambda>(worlds, now, later, swept). loses_outcome worlds 0 batch) ticks))"
proof -
  let ?spare = "\<lambda>s. budget (retries_of deps) (jm_get (ms_deliveries s) i)"
  let ?lost = "\<lambda>ticks. length (filter (\<lambda>(worlds, now, later, swept). loses_outcome worlds 0 batch) ticks)"
  have "posts_for i posts \<le> (if ?spare s = 0 then 0 else ?spare s + ?lost ticks)"
    using assms(1,3)
  proof (induction ticks arbitrary: s posts)
    case (Cons t ticks)
    obtain worlds now later swept where t: "t = (worlds, now, later, swept)" by (metis prod_cases4)
    obtain summary posts1 calls swept1 s1 where tick:
        "tick_once deps lc batch timeout worlds now later swept s = (summary, posts1, calls, swept1, s1)"
      by (metis prod_cases5)
    obtain posts2 where rest: "tick_all deps lc batch timeout ticks s1 = (posts2, s')" and posts: "posts = posts1 @ posts2"
      using Cons.prems(2) t tick by (auto split: prod.splits)
    note spent = tick_spends [OF Cons.prems(1) assms(2) tick]
    from Cons.IH [OF spent(2) rest] spent(1) [of i] show ?case
      by (cases "loses_outcome worlds 0 batch") (auto simp: posts t split: if_splits)
  qed simp
  then show ?thesis
    by (cases "jm_get (ms_deliveries s) i") (auto simp: budget_def settled_status_def split: if_splits)
qed

section \<open>Witnesses\<close>

definition sample_delivery :: delivery where
  "sample_delivery =
     \<lparr>dl_delivery_id = ''d1'', dl_run_id = ''r1'', dl_thread_id = ''t1'', dl_url = ''https://a.test/x'',
      dl_payload = JObj [(''values'', JNull)], dl_payload_truncated = False, dl_run_status = Success,
      dl_status = DPending, dl_attempt = 1, dl_next_attempt_at = 0, dl_last_error = None,
      dl_created_at = 0, dl_updated_at = 0, dl_expires_at = 1000\<rparr>"

definition sample_rendering :: rendering where
  "sample_rendering = \<lparr>rn_json = (\<lambda>_. ''{}''), rn_iso = (\<lambda>_. ''now''), rn_decimal = (\<lambda>_. ''1''),
     rn_hmac_hex = (\<lambda>key text. key @ text)\<rparr>"

definition sample_deps :: attempt_deps where
  "sample_deps = \<lparr>ad_parse_url = (\<lambda>_. None), ad_rendering = sample_rendering, ad_webhooks = None, ad_queue = False\<rparr>"

definition failing_world :: attempt_world where
  "failing_world = \<lparr>aw_post = Some ''refused'', aw_write_ok = (\<lambda>_. True), aw_schedule_ok = True,
     aw_clock = (\<lambda>_. 5000), aw_random = (\<lambda>_. 0), aw_store_clock = (\<lambda>_. 5000)\<rparr>"

definition outbox_store :: mem_store where
  "outbox_store = empty_store\<lparr>ms_deliveries := [(''d1'', sample_delivery)]\<rparr>"

lemma failing_random: "0 \<le> aw_random failing_world 0" "aw_random failing_world 0 < 1"
  by (simp_all add: failing_world_def)

theorem delivery_attempt_settles_witness:
  "\<exists>d'. jm_get (ms_deliveries (snd (snd (attempt_delivery sample_deps failing_world sample_delivery outbox_store)))) ''d1'' = Some d' \<and>
        dl_status d' = DPending \<and> 5800 \<le> dl_next_attempt_at d' \<and> dl_next_attempt_at d' \<le> 6000"
proof -
  obtain settled effects s' where result: "attempt_delivery sample_deps failing_world sample_delivery outbox_store = (settled, effects, s')"
    by (metis prod_cases3)
  have row: "jm_get (ms_deliveries outbox_store) (dl_delivery_id sample_delivery) = Some sample_delivery"
    by (simp add: outbox_store_def sample_delivery_def)
  have polling: "\<not> ad_queue sample_deps" by (simp add: sample_deps_def)
  have "\<exists>d'. jm_get (ms_deliveries s') ''d1'' = Some d' \<and> dl_status d' = DPending \<and> 5800 \<le> dl_next_attempt_at d' \<and> dl_next_attempt_at d' \<le> 6000"
    using delivery_attempt_settles [OF row polling failing_random result]
    by (auto simp: sample_deps_def failing_world_def sample_delivery_def refused_target_def disallowed_host_def
        insecure_transport_def no_webhook_config_def retries_of_def max_attempts_of_def no_retry_config_def
        DEFAULT_MAX_ATTEMPTS_def or_default_def)
  with result show ?thesis by simp
qed

theorem delivery_budget_kept_witness:
  "posts_for ''d1'' (fst (tick_all sample_deps compare_of 10 1000
     (replicate 20 (\<lambda>_. failing_world, 5000, 5000, None)) outbox_store)) \<le> 11"
proof -
  let ?ticks = "replicate 20 (\<lambda>_::nat. failing_world, 5000, 5000, None)"
  obtain posts s' where run: "tick_all sample_deps compare_of 10 1000 ?ticks outbox_store = (posts, s')" by fastforce
  have keyed: "keyed_by dl_delivery_id (ms_deliveries outbox_store)"
    by (simp add: outbox_store_def sample_delivery_def keyed_by_def)
  have polling: "\<not> ad_queue sample_deps" by (simp add: sample_deps_def)
  have "posts_for ''d1'' posts \<le> 11"
    using delivery_budget_kept [OF keyed polling run, of "''d1''"]
    by (auto simp: loses_outcome_def list_ex_iff failing_world_def sample_deps_def retries_of_def max_attempts_of_def no_webhook_config_def no_retry_config_def
        DEFAULT_MAX_ATTEMPTS_def outbox_store_def sample_delivery_def)
  with run show ?thesis by simp
qed

end
