(* ===== verification/ThreadLocks.thy ===== *)
theory ThreadLocks
  imports Prelude
begin

text \<open>
  The per-key mutex of \<^verbatim>\<open>packages/agent-protocol/src/runs/thread-locks.ts\<close>, which serializes the
  execution of runs per thread, and its refinement of a first-in-first-out mutex.

  \<^verbatim>\<open>#tails\<close> maps a key to the promise the next caller waits for. A promise is the number of the call
  that made it; it has settled once that call's task has (or its lease was released). The task of a
  call starts when the promise it was chained to has settled; its own \<^verbatim>\<open>finally\<close> runs later.
\<close>

section \<open>The locks\<close>

datatype lock_phase = LockWaiting | LockHolding | LockSettled | LockDone

record lock_call =
  lc_key :: ident
  lc_previous :: "nat option"
  lc_phase :: lock_phase

record thread_locks =
  lk_tails :: "(ident, nat) jsmap"
  lk_calls :: "lock_call list"

definition new_locks :: thread_locks where
  "new_locks = \<lparr>lk_tails = [], lk_calls = []\<rparr>"

definition call_settled :: "thread_locks \<Rightarrow> nat \<Rightarrow> bool" where
  "call_settled L n \<longleftrightarrow> lc_phase (lk_calls L ! n) = LockSettled \<or> lc_phase (lk_calls L ! n) = LockDone"

definition set_lock_phase :: "nat \<Rightarrow> lock_phase \<Rightarrow> thread_locks \<Rightarrow> thread_locks" where
  "set_lock_phase n p L = L\<lparr>lk_calls := (lk_calls L)[n := (lk_calls L ! n)\<lparr>lc_phase := p\<rparr>]\<rparr>"

text \<open>\<^verbatim>\<open>if (this.#tails.get(key) === tail) this.#tails.delete(key)\<close>\<close>

definition drop_tail :: "nat \<Rightarrow> thread_locks \<Rightarrow> thread_locks" where
  "drop_tail n L =
     (let key = lc_key (lk_calls L ! n) in
      if jm_get (lk_tails L) key = Some n then L\<lparr>lk_tails := jm_delete key (lk_tails L)\<rparr> else L)"

definition try_acquire :: "ident \<Rightarrow> thread_locks \<Rightarrow> nat option \<times> thread_locks" where
  "try_acquire key L =
     (if jm_has (lk_tails L) key then (None, L)
      else
        let n = length (lk_calls L) in
        (Some n, \<lparr>lk_tails = jm_set key n (lk_tails L),
                  lk_calls = lk_calls L @ [\<lparr>lc_key = key, lc_previous = None, lc_phase = LockHolding\<rparr>]\<rparr>))"

text \<open>A second release of a lease does nothing.\<close>

definition release_lease :: "nat \<Rightarrow> thread_locks \<Rightarrow> thread_locks" where
  "release_lease n L =
     (if lc_phase (lk_calls L ! n) = LockHolding then set_lock_phase n LockDone (drop_tail n L) else L)"

definition run_locked :: "ident \<Rightarrow> thread_locks \<Rightarrow> nat \<times> thread_locks" where
  "run_locked key L =
     (let n = length (lk_calls L) in
      (n, \<lparr>lk_tails = jm_set key n (lk_tails L),
           lk_calls = lk_calls L @ [\<lparr>lc_key = key, lc_previous = jm_get (lk_tails L) key, lc_phase = LockWaiting\<rparr>]\<rparr>))"

text \<open>The call's turn has come: the promise it is chained to has settled.\<close>

definition can_start :: "nat \<Rightarrow> thread_locks \<Rightarrow> bool" where
  "can_start n L \<longleftrightarrow>
     lc_phase (lk_calls L ! n) = LockWaiting \<and>
     (case lc_previous (lk_calls L ! n) of None \<Rightarrow> True | Some p \<Rightarrow> call_settled L p)"

definition start_task :: "nat \<Rightarrow> thread_locks \<Rightarrow> thread_locks" where
  "start_task n L = set_lock_phase n LockHolding L"

definition settle_task :: "nat \<Rightarrow> thread_locks \<Rightarrow> thread_locks" where
  "settle_task n L = set_lock_phase n LockSettled L"

definition finish_run :: "nat \<Rightarrow> thread_locks \<Rightarrow> thread_locks" where
  "finish_run n L = set_lock_phase n LockDone (drop_tail n L)"

text \<open>
  \<^verbatim>\<open>tryAcquireThreadExecution\<close>: the local claim, then the gate's when there is one; a gate that cannot
  claim without waiting, that fails, or whose thread is busy gives the local claim back.
\<close>

datatype gate_answer = GateUnsupported | GateFails | GateBusy | GateGrants

datatype claim_result = ClaimBusy | ClaimFailed | ClaimGranted nat

definition try_acquire_execution ::
  "gate_answer option \<Rightarrow> ident \<Rightarrow> thread_locks \<Rightarrow> claim_result \<times> thread_locks" where
  "try_acquire_execution gate thread_id L =
     (case try_acquire thread_id L of
        (None, L1) \<Rightarrow> (ClaimBusy, L1)
      | (Some n, L1) \<Rightarrow>
          (case gate of
             None \<Rightarrow> (ClaimGranted n, L1)
           | Some GateGrants \<Rightarrow> (ClaimGranted n, L1)
           | Some GateBusy \<Rightarrow> (ClaimBusy, release_lease n L1)
           | Some _ \<Rightarrow> (ClaimFailed, release_lease n L1)))"

inductive locks_step :: "thread_locks \<Rightarrow> thread_locks \<Rightarrow> bool" where
  runs: "locks_step L (snd (run_locked key L))"
| tries: "locks_step L (snd (try_acquire key L))"
| starts: "n < length (lk_calls L) \<Longrightarrow> can_start n L \<Longrightarrow> locks_step L (start_task n L)"
| settles: "n < length (lk_calls L) \<Longrightarrow> lc_phase (lk_calls L ! n) = LockHolding \<Longrightarrow> locks_step L (settle_task n L)"
| finishes: "n < length (lk_calls L) \<Longrightarrow> lc_phase (lk_calls L ! n) = LockSettled \<Longrightarrow> locks_step L (finish_run n L)"
| releases: "n < length (lk_calls L) \<Longrightarrow> locks_step L (release_lease n L)"

inductive locks_reachable :: "thread_locks \<Rightarrow> bool" where
  initial: "locks_reachable new_locks"
| step: "locks_reachable L \<Longrightarrow> locks_step L L' \<Longrightarrow> locks_reachable L'"

section \<open>The abstract mutex\<close>

text \<open>
  A queue of callers per key; its head may hold the lock. Its three operations: a caller joins at the
  end, the head takes the lock, the head leaves.
\<close>

record mutex =
  mx_queue :: "ident \<Rightarrow> nat list"
  mx_held :: "nat set"

definition mx_join :: "ident \<Rightarrow> nat \<Rightarrow> mutex \<Rightarrow> mutex" where
  "mx_join key n M = M\<lparr>mx_queue := (mx_queue M)(key := mx_queue M key @ [n])\<rparr>"

definition mx_take :: "nat \<Rightarrow> mutex \<Rightarrow> mutex" where
  "mx_take n M = M\<lparr>mx_held := insert n (mx_held M)\<rparr>"

definition mx_leave :: "ident \<Rightarrow> mutex \<Rightarrow> mutex" where
  "mx_leave key M =
     M\<lparr>mx_queue := (mx_queue M)(key := tl (mx_queue M key)), mx_held := mx_held M - set (take 1 (mx_queue M key))\<rparr>"

text \<open>The calls of a key that wait or hold, in the order they were made.\<close>

definition call_live :: "thread_locks \<Rightarrow> nat \<Rightarrow> bool" where
  "call_live L n \<longleftrightarrow> n < length (lk_calls L) \<and> \<not> call_settled L n"

definition lock_abs :: "thread_locks \<Rightarrow> mutex" where
  "lock_abs L =
     \<lparr>mx_queue = (\<lambda>key. filter (\<lambda>n. call_live L n \<and> lc_key (lk_calls L ! n) = key) [0..<length (lk_calls L)]),
      mx_held = {n. n < length (lk_calls L) \<and> lc_phase (lk_calls L ! n) = LockHolding}\<rparr>"

section \<open>The invariant\<close>

abbreviation call_key :: "thread_locks \<Rightarrow> nat \<Rightarrow> ident" where
  "call_key L n \<equiv> lc_key (lk_calls L ! n)"

text \<open>
  A live call is not after its key's tail; a waiting call is chained to a promise no live call of the
  key is beyond; nothing live is before a call whose turn has come.
\<close>

definition locks_inv :: "thread_locks \<Rightarrow> bool" where
  "locks_inv L \<longleftrightarrow>
     (\<forall>n. call_live L n \<longrightarrow> (\<exists>m. jm_get (lk_tails L) (call_key L n) = Some m \<and> n \<le> m)) \<and>
     (\<forall>k m. jm_get (lk_tails L) k = Some m \<longrightarrow> m < length (lk_calls L) \<and> call_key L m = k) \<and>
     (\<forall>n < length (lk_calls L). \<forall>p. lc_previous (lk_calls L ! n) = Some p \<longrightarrow> p < n \<and> call_key L p = call_key L n) \<and>
     (\<forall>n < length (lk_calls L). lc_phase (lk_calls L ! n) = LockWaiting \<longrightarrow>
        (\<forall>j < n. call_live L j \<and> call_key L j = call_key L n \<longrightarrow> (\<exists>p. lc_previous (lk_calls L ! n) = Some p \<and> j \<le> p))) \<and>
     (\<forall>n < length (lk_calls L). lc_phase (lk_calls L ! n) \<noteq> LockWaiting \<longrightarrow>
        (\<forall>j < n. call_key L j = call_key L n \<longrightarrow> \<not> call_live L j))"

lemma locks_invD:
  assumes "locks_inv L"
  shows "call_live L n \<Longrightarrow> \<exists>m. jm_get (lk_tails L) (call_key L n) = Some m \<and> n \<le> m"
    and "jm_get (lk_tails L) k = Some m \<Longrightarrow> m < length (lk_calls L) \<and> call_key L m = k"
    and "n < length (lk_calls L) \<Longrightarrow> lc_previous (lk_calls L ! n) = Some p \<Longrightarrow> p < n \<and> call_key L p = call_key L n"
    and "n < length (lk_calls L) \<Longrightarrow> lc_phase (lk_calls L ! n) = LockWaiting \<Longrightarrow> j < n \<Longrightarrow> call_live L j \<Longrightarrow>
      call_key L j = call_key L n \<Longrightarrow> \<exists>p. lc_previous (lk_calls L ! n) = Some p \<and> j \<le> p"
    and "n < length (lk_calls L) \<Longrightarrow> lc_phase (lk_calls L ! n) \<noteq> LockWaiting \<Longrightarrow> j < n \<Longrightarrow>
      call_key L j = call_key L n \<Longrightarrow> \<not> call_live L j"
  using assms unfolding locks_inv_def by blast+

lemma call_live_iff:
  "call_live L n \<longleftrightarrow> n < length (lk_calls L) \<and>
     (lc_phase (lk_calls L ! n) = LockWaiting \<or> lc_phase (lk_calls L ! n) = LockHolding)"
  by (cases "lc_phase (lk_calls L ! n)") (auto simp: call_live_def call_settled_def)

text \<open>A call whose turn has come, or that holds the lock, is the first live call of its key.\<close>

lemma first_live:
  assumes inv: "locks_inv L" and n: "n < length (lk_calls L)"
    and turn: "can_start n L \<or> lc_phase (lk_calls L ! n) \<noteq> LockWaiting" and j: "j < n" "call_key L j = call_key L n"
  shows "\<not> call_live L j"
proof
  assume live: "call_live L j"
  then have waiting: "can_start n L" using locks_invD(5) [OF inv n _ j] turn by blast
  then obtain p where p: "lc_previous (lk_calls L ! n) = Some p" "j \<le> p"
    using locks_invD(4) [OF inv n _ j(1) live j(2)] by (auto simp: can_start_def)
  have before: "p < n" "call_key L p = call_key L n" using locks_invD(3) [OF inv n p(1)] by simp_all
  have settled: "call_settled L p" using waiting p(1) by (simp add: can_start_def)
  then have "j \<noteq> p" using live by (auto simp: call_live_def)
  then show False
    using locks_invD(5) [OF inv, of p j] p(2) before n j(2) settled live by (auto simp: call_settled_def)
qed

section \<open>What the operations do to the invariant and to the mutex\<close>

lemma set_phase_simps [simp]:
  "lk_tails (set_lock_phase n p L) = lk_tails L" "length (lk_calls (set_lock_phase n p L)) = length (lk_calls L)"
  "n < length (lk_calls L) \<Longrightarrow> lk_calls (set_lock_phase n p L) ! j =
     (if j = n then (lk_calls L ! n)\<lparr>lc_phase := p\<rparr> else lk_calls L ! j)"
  by (simp_all add: set_lock_phase_def nth_list_update)

lemma drop_tail_simps [simp]: "lk_calls (drop_tail n L) = lk_calls L"
  by (simp add: drop_tail_def Let_def)

text \<open>A new call: it waits behind its key's tail, or, when there is none, holds the lock at once.\<close>

definition new_call :: "ident \<Rightarrow> lock_phase \<Rightarrow> thread_locks \<Rightarrow> thread_locks" where
  "new_call key p L =
     \<lparr>lk_tails = jm_set key (length (lk_calls L)) (lk_tails L),
      lk_calls = lk_calls L @ [\<lparr>lc_key = key, lc_previous = jm_get (lk_tails L) key, lc_phase = p\<rparr>]\<rparr>"

lemma run_locked_eq: "snd (run_locked key L) = new_call key LockWaiting L"
  by (simp add: run_locked_def new_call_def Let_def)

lemma try_acquire_eq:
  "snd (try_acquire key L) = (if jm_has (lk_tails L) key then L else new_call key LockHolding L)"
  by (cases "jm_get (lk_tails L) key") (simp_all add: try_acquire_def new_call_def Let_def jm_has_def)

lemma new_call_live:
  "call_live (new_call key p L) n \<longleftrightarrow>
     call_live L n \<or> n = length (lk_calls L) \<and> (p = LockWaiting \<or> p = LockHolding)"
  by (auto simp: call_live_iff new_call_def nth_append)

lemma new_call_inv:
  assumes inv: "locks_inv L" and p: "p = LockWaiting \<or> p = LockHolding \<and> jm_get (lk_tails L) key = None"
  shows "locks_inv (new_call key p L)"
proof -
  let ?L = "new_call key p L" and ?N = "length (lk_calls L)"
  have len: "length (lk_calls ?L) = Suc ?N" by (simp add: new_call_def)
  have nth: "lk_calls ?L ! n = (if n < ?N then lk_calls L ! n
      else \<lparr>lc_key = key, lc_previous = jm_get (lk_tails L) key, lc_phase = p\<rparr>)" if "n < Suc ?N" for n
    using that by (auto simp: new_call_def nth_append less_Suc_eq)
  have tails: "jm_get (lk_tails ?L) k = (if k = key then Some ?N else jm_get (lk_tails L) k)" for k
    by (simp add: new_call_def jm_get_set)
  have live: "call_live ?L n \<longleftrightarrow> call_live L n \<or> n = ?N" for n using p by (auto simp: new_call_live)
  have old: "call_live L n \<Longrightarrow> n < ?N" for n by (simp add: call_live_iff)
  show ?thesis
    unfolding locks_inv_def
  proof (intro conjI allI impI)
    fix n assume "call_live ?L n"
    then show "\<exists>m. jm_get (lk_tails ?L) (call_key ?L n) = Some m \<and> n \<le> m"
      using old [of n] locks_invD(1) [OF inv, of n] unfolding live by (auto simp: nth tails)
  next
    fix k m assume "jm_get (lk_tails ?L) k = Some m"
    then show "m < length (lk_calls ?L)" "call_key ?L m = k"
      using locks_invD(2) [OF inv, of k m] by (auto simp: tails len nth split: if_splits)
  next
    fix n q assume "n < length (lk_calls ?L)" "lc_previous (lk_calls ?L ! n) = Some q"
    then show "q < n" "call_key ?L q = call_key ?L n"
      using locks_invD(3) [OF inv, of n q] locks_invD(2) [OF inv, of key q] by (auto simp: len nth split: if_splits)
  next
    fix n j
    assume n: "n < length (lk_calls ?L)" "lc_phase (lk_calls ?L ! n) = LockWaiting"
      and j: "j < n" "call_live ?L j \<and> call_key ?L j = call_key ?L n"
    have "call_live L j" using j n(1) unfolding live by (auto simp: len)
    then show "\<exists>q. lc_previous (lk_calls ?L ! n) = Some q \<and> j \<le> q"
      using n j old [of j] locks_invD(4) [OF inv, of n j] locks_invD(1) [OF inv, of j] nth [of n] nth [of j]
      by (cases "n < ?N") (auto simp: len)
  next
    fix n j
    assume n: "n < length (lk_calls ?L)" "lc_phase (lk_calls ?L ! n) \<noteq> LockWaiting"
      and j: "j < n" "call_key ?L j = call_key ?L n"
    then have "j < ?N" by (simp add: len)
    then show "\<not> call_live ?L j"
      using n j p locks_invD(5) [OF inv, of n j] locks_invD(1) [OF inv, of j] unfolding live
      by (cases "n < ?N") (auto simp: len nth split: if_splits)
  qed
qed

text \<open>A call moves on: it starts when its turn has come, or settles.\<close>

lemma set_phase_inv:
  assumes inv: "locks_inv L" and n: "n < length (lk_calls L)" and p: "p \<noteq> LockWaiting"
    and turn: "can_start n L \<or> lc_phase (lk_calls L ! n) \<noteq> LockWaiting"
    and dead: "call_settled L n \<Longrightarrow> p \<noteq> LockHolding"
  shows "locks_inv (set_lock_phase n p L)"
proof -
  let ?L = "set_lock_phase n p L"
  have live: "call_live L j" if "call_live ?L j" for j
    using that n p dead by (auto simp: call_live_iff call_settled_def split: if_splits) (metis lock_phase.exhaust)
  have key: "call_key ?L j = call_key L j" "lc_previous (lk_calls ?L ! j) = lc_previous (lk_calls L ! j)" for j
    using n by simp_all
  show ?thesis
    unfolding locks_inv_def key set_phase_simps(1,2)
  proof (intro conjI allI impI)
    fix m j
    assume m: "m < length (lk_calls L)" "lc_phase (lk_calls ?L ! m) \<noteq> LockWaiting" and j: "j < m" "call_key L j = call_key L m"
    show "\<not> call_live ?L j"
      using live [of j] m j n first_live [OF inv n turn] locks_invD(5) [OF inv m(1) _ j] by (cases "m = n") auto
  next
    fix m j
    assume "m < length (lk_calls L)" "lc_phase (lk_calls ?L ! m) = LockWaiting"
      and "j < m" "call_live ?L j \<and> call_key L j = call_key L m"
    then show "\<exists>q. lc_previous (lk_calls L ! m) = Some q \<and> j \<le> q"
      using locks_invD(4) [OF inv, of m j] live n p by (auto split: if_splits)
  qed (use locks_invD(1,2,3) [OF inv] live in blast)+
qed

lemma drop_tail_inv:
  assumes inv: "locks_inv L" and n: "n < length (lk_calls L)" and turn: "lc_phase (lk_calls L ! n) \<noteq> LockWaiting"
    and gone: "\<not> call_live L n"
  shows "locks_inv (drop_tail n L)"
proof (cases "jm_get (lk_tails L) (call_key L n) = Some n")
  case True
  have "j \<noteq> n \<and> call_key L j \<noteq> call_key L n" if "call_live L j" for j
  proof -
    have "j \<noteq> n" using that gone by blast
    moreover have "call_key L j \<noteq> call_key L n"
    proof
      assume same: "call_key L j = call_key L n"
      then have "j \<le> n" using locks_invD(1) [OF inv that] True by simp
      then show False using locks_invD(5) [OF inv n turn _ same] that \<open>j \<noteq> n\<close> by simp
    qed
    ultimately show ?thesis by blast
  qed
  moreover have "call_live (drop_tail n L) j = call_live L j" for j by (simp add: call_live_iff)
  moreover have "jm_get (lk_tails (drop_tail n L)) k = (if k = call_key L n then None else jm_get (lk_tails L) k)" for k
    using True by (simp add: drop_tail_def jm_get_delete)
  ultimately show ?thesis
    using inv unfolding locks_inv_def drop_tail_simps by simp
next
  case False
  then show ?thesis using inv by (simp add: drop_tail_def)
qed

lemma call_settled_drop [simp]: "call_settled (drop_tail n L) = call_settled L"
  by (simp add: call_settled_def fun_eq_iff)

lemma locks_step_inv: "locks_step L L' \<Longrightarrow> locks_inv L \<Longrightarrow> locks_inv L'"
proof (induction rule: locks_step.induct)
  case (runs L key)
  then show ?case by (simp add: run_locked_eq new_call_inv)
next
  case (tries L key)
  then show ?case
    by (cases "jm_get (lk_tails L) key") (simp_all add: try_acquire_eq new_call_inv jm_has_def)
next
  case (starts n L)
  then show ?case
    unfolding start_task_def by (intro set_phase_inv) (auto simp: can_start_def call_settled_def)
next
  case (settles n L)
  then show ?case unfolding settle_task_def by (intro set_phase_inv) auto
next
  case (finishes n L)
  then have "locks_inv (drop_tail n L)" by (intro drop_tail_inv) (auto simp: call_live_iff)
  then show ?case
    unfolding finish_run_def using finishes by (intro set_phase_inv) auto
next
  case (releases n L)
  show ?case
  proof (cases "lc_phase (lk_calls L ! n) = LockHolding")
    case True
    have "locks_inv (set_lock_phase n LockDone L)"
      using releases True by (intro set_phase_inv) auto
    then have "locks_inv (drop_tail n (set_lock_phase n LockDone L))"
      using releases by (intro drop_tail_inv) (auto simp: call_live_iff)
    moreover have "drop_tail n (set_lock_phase n LockDone L) = set_lock_phase n LockDone (drop_tail n L)"
      using releases by (simp add: drop_tail_def set_lock_phase_def Let_def)
    ultimately show ?thesis using True by (simp add: release_lease_def)
  qed (use releases in \<open>simp add: release_lease_def\<close>)
qed

lemma locks_reachable_inv: "locks_reachable L \<Longrightarrow> locks_inv L"
proof (induction rule: locks_reachable.induct)
  case initial
  show ?case by (simp add: locks_inv_def new_locks_def call_live_iff)
qed (rule locks_step_inv)

section \<open>Refinement\<close>

lemma mx_queue_abs: "mx_queue (lock_abs L) key = filter (\<lambda>n. call_live L n \<and> call_key L n = key) [0..<length (lk_calls L)]"
  by (simp add: lock_abs_def)

lemma mx_held_abs: "mx_held (lock_abs L) = {n. n < length (lk_calls L) \<and> lc_phase (lk_calls L ! n) = LockHolding}"
  by (simp add: lock_abs_def)

lemma filter_upt_first:
  assumes "n < N" "P n" "\<And>j. j < n \<Longrightarrow> \<not> P j"
  shows "filter P [0..<N] = n # filter P [Suc n..<N]"
proof -
  have "[0..<N] = [0..<n] @ n # [Suc n..<N]"
    using assms(1) by (metis upt_add_eq_append upt_conv_Cons le_add_diff_inverse less_imp_le zero_le)
  then show ?thesis using assms(2,3) by simp
qed

lemma queue_first:
  assumes "locks_inv L" "n < length (lk_calls L)" "can_start n L \<or> lc_phase (lk_calls L ! n) \<noteq> LockWaiting" "call_live L n"
  shows "mx_queue (lock_abs L) (call_key L n) =
           n # filter (\<lambda>j. call_live L j \<and> call_key L j = call_key L n) [Suc n..<length (lk_calls L)]"
  unfolding mx_queue_abs using first_live [OF assms(1-3)] assms(2,4) by (intro filter_upt_first) auto

lemma fresh_call: "length (lk_calls L) \<notin> set (mx_queue (lock_abs L) k)"
  by (simp add: mx_queue_abs)

lemma abs_new_call:
  assumes "p = LockWaiting \<or> p = LockHolding"
  shows "lock_abs (new_call key p L) =
    (lock_abs L)\<lparr>mx_queue := (mx_queue (lock_abs L))(key := mx_queue (lock_abs L) key @ [length (lk_calls L)]),
       mx_held := (if p = LockHolding then insert (length (lk_calls L)) (mx_held (lock_abs L)) else mx_held (lock_abs L))\<rparr>"
proof -
  let ?L = "new_call key p L" and ?N = "length (lk_calls L)"
  have len: "length (lk_calls ?L) = Suc ?N" and at_N: "lc_key (lk_calls ?L ! ?N) = key" "lc_phase (lk_calls ?L ! ?N) = p"
    and below: "n < ?N \<Longrightarrow> lk_calls ?L ! n = lk_calls L ! n" for n
    by (simp_all add: new_call_def nth_append)
  have live: "call_live ?L n \<longleftrightarrow> call_live L n \<or> n = ?N" for n using assms by (auto simp: new_call_live)
  have "filter (\<lambda>n. call_live ?L n \<and> call_key ?L n = k) [0..<?N] = filter (\<lambda>n. call_live L n \<and> call_key L n = k) [0..<?N]" for k
    by (rule filter_cong) (auto simp: live below)
  then have "mx_queue (lock_abs ?L) = (mx_queue (lock_abs L))(key := mx_queue (lock_abs L) key @ [?N])"
    by (auto simp: mx_queue_abs len live at_N fun_eq_iff)
  moreover have "mx_held (lock_abs ?L) = (if p = LockHolding then insert ?N (mx_held (lock_abs L)) else mx_held (lock_abs L))"
    by (auto simp: mx_held_abs new_call_def nth_append less_Suc_eq)
  ultimately show ?thesis by simp
qed

text \<open>A holder that settles leaves the queue of its key.\<close>

lemma abs_leave:
  assumes inv: "locks_inv L" and n: "n < length (lk_calls L)" "lc_phase (lk_calls L ! n) = LockHolding"
    and L': "\<And>j. lk_calls L' ! j = (if j = n then (lk_calls L ! n)\<lparr>lc_phase := p\<rparr> else lk_calls L ! j)"
      "length (lk_calls L') = length (lk_calls L)" and p: "p = LockSettled \<or> p = LockDone"
  shows "lock_abs L' = mx_leave (call_key L n) (lock_abs L)"
proof -
  let ?k = "call_key L n"
  have live: "call_live L' j \<longleftrightarrow> call_live L j \<and> j \<noteq> n" for j using p by (auto simp: call_live_iff L')
  have key: "call_key L' j = call_key L j" for j by (simp add: L')
  have queue: "mx_queue (lock_abs L) ?k = n # filter (\<lambda>j. call_live L j \<and> call_key L j = ?k) [Suc n..<length (lk_calls L)]"
    using n by (intro queue_first [OF inv]) (auto simp: call_live_iff)
  have "mx_queue (lock_abs L') k = filter (\<lambda>j. j \<noteq> n) (mx_queue (lock_abs L) k)" for k
    by (simp add: mx_queue_abs live key L'(2) conj_ac)
  moreover have "filter (\<lambda>j. j \<noteq> n) (mx_queue (lock_abs L) ?k) =
      filter (\<lambda>j. call_live L j \<and> call_key L j = ?k) [Suc n..<length (lk_calls L)]"
    unfolding queue by (simp del: filter_filter)
  moreover have "filter (\<lambda>j. j \<noteq> n) (mx_queue (lock_abs L) k) = mx_queue (lock_abs L) k" if "k \<noteq> ?k" for k
    using that by (intro filter_True) (auto simp: mx_queue_abs)
  ultimately have "mx_queue (lock_abs L') =
      (mx_queue (lock_abs L))(?k := filter (\<lambda>j. call_live L j \<and> call_key L j = ?k) [Suc n..<length (lk_calls L)])"
    by (auto simp: fun_eq_iff)
  moreover have "mx_held (lock_abs L') = mx_held (lock_abs L) - {n}"
    using p by (auto simp: mx_held_abs L')
  ultimately have "lock_abs L' = (lock_abs L)\<lparr>mx_queue := (mx_queue (lock_abs L))(?k :=
      filter (\<lambda>j. call_live L j \<and> call_key L j = ?k) [Suc n..<length (lk_calls L)]), mx_held := mx_held (lock_abs L) - {n}\<rparr>"
    by simp
  then show ?thesis by (simp add: mx_leave_def queue)
qed

section \<open>Which keys are free\<close>

text \<open>
  A key has a tail exactly while the last call made for it is not through, its \<^verbatim>\<open>finally\<close> included; the
  tail is that call. So a free key is free for \<^verbatim>\<open>tryAcquire\<close>, and the map does not grow.
\<close>

definition last_call :: "thread_locks \<Rightarrow> ident \<Rightarrow> nat \<Rightarrow> bool" where
  "last_call L k m \<longleftrightarrow>
     m < length (lk_calls L) \<and> call_key L m = k \<and> (\<forall>n < length (lk_calls L). call_key L n = k \<longrightarrow> n \<le> m)"

definition tails_exact :: "thread_locks \<Rightarrow> bool" where
  "tails_exact L \<longleftrightarrow>
     (\<forall>k m. jm_get (lk_tails L) k = Some m \<longleftrightarrow> last_call L k m \<and> lc_phase (lk_calls L ! m) \<noteq> LockDone)"

lemma last_call_new:
  "last_call (new_call key p L) k m \<longleftrightarrow> (if k = key then m = length (lk_calls L) else last_call L k m)"
  by (auto simp: last_call_def new_call_def nth_append less_Suc_eq)

lemma last_call_phase: "n < length (lk_calls L) \<Longrightarrow> last_call (set_lock_phase n p L) k m = last_call L k m"
  by (auto simp: last_call_def)

lemma last_call_drop: "last_call (drop_tail n L) k m = last_call L k m"
  by (simp add: last_call_def)

lemma last_call_unique: "last_call L k m \<Longrightarrow> last_call L k n \<Longrightarrow> m = n"
  by (simp add: last_call_def le_antisym)

lemma new_call_tails: "tails_exact L \<Longrightarrow> p \<noteq> LockDone \<Longrightarrow> tails_exact (new_call key p L)"
  unfolding tails_exact_def last_call_new
  by (auto simp: new_call_def jm_get_set nth_append last_call_def)

lemma live_phase_tails:
  assumes "tails_exact L" and "n < length (lk_calls L)" and "lc_phase (lk_calls L ! n) \<noteq> LockDone" and "p \<noteq> LockDone"
  shows "tails_exact (set_lock_phase n p L)"
  using assms by (auto simp: tails_exact_def last_call_phase)

lemma done_tails:
  assumes exact: "tails_exact L" and n: "n < length (lk_calls L)" "lc_phase (lk_calls L ! n) \<noteq> LockDone"
  shows "tails_exact (set_lock_phase n LockDone (drop_tail n L))"
proof -
  have tails: "jm_get (lk_tails (drop_tail n L)) k = (if last_call L k n then None else jm_get (lk_tails L) k)" for k
  proof (cases "last_call L (call_key L n) n")
    case True
    then have "jm_get (lk_tails L) (call_key L n) = Some n" using exact n(2) by (simp add: tails_exact_def)
    with True show ?thesis by (auto simp: drop_tail_def Let_def jm_get_delete last_call_def)
  next
    case False
    then have "jm_get (lk_tails L) (call_key L n) \<noteq> Some n" using exact by (simp add: tails_exact_def)
    with False show ?thesis by (auto simp: drop_tail_def Let_def last_call_def)
  qed
  show ?thesis
    using exact n last_call_unique [of L]
    by (auto simp: tails_exact_def tails last_call_phase last_call_drop)
qed

lemma locks_step_tails: "locks_step L L' \<Longrightarrow> tails_exact L \<Longrightarrow> tails_exact L'"
proof (induction rule: locks_step.induct)
  case (tries L key)
  then show ?case by (simp add: try_acquire_eq new_call_tails)
next
  case (releases n L)
  then show ?case by (simp add: release_lease_def done_tails)
qed (simp_all add: run_locked_eq new_call_tails start_task_def settle_task_def finish_run_def can_start_def
  live_phase_tails done_tails)

lemma locks_reachable_tails: "locks_reachable L \<Longrightarrow> tails_exact L"
proof (induction rule: locks_reachable.induct)
  case initial
  show ?case by (simp add: tails_exact_def new_locks_def last_call_def)
qed (rule locks_step_tails)

section \<open>Each operation is one of the mutex\<close>

lemma refused_try:
  assumes "locks_reachable L"
  shows "fst (try_acquire key L) = None \<longleftrightarrow> (\<exists>m. last_call L key m \<and> lc_phase (lk_calls L ! m) \<noteq> LockDone)"
proof -
  have "fst (try_acquire key L) = None \<longleftrightarrow> jm_has (lk_tails L) key" by (simp add: try_acquire_def Let_def)
  then show ?thesis using locks_reachable_tails [OF assms] by (auto simp: jm_has_iff tails_exact_def)
qed

lemma granted_try:
  assumes "locks_inv L" and "fst (try_acquire key L) = Some n"
  shows "mx_queue (lock_abs L) key = [] \<and> lock_abs (snd (try_acquire key L)) = mx_take n (mx_join key n (lock_abs L))"
proof -
  have none: "jm_get (lk_tails L) key = None" and n: "n = length (lk_calls L)"
    using assms(2) by (auto simp: try_acquire_def Let_def jm_has_def split: if_splits option.splits)
  then have "mx_queue (lock_abs L) key = []"
    using locks_invD(1) [OF assms(1)] by (fastforce simp: mx_queue_abs filter_empty_conv)
  with none n show ?thesis by (simp add: try_acquire_eq jm_has_def abs_new_call mx_join_def mx_take_def)
qed

lemma start_takes:
  assumes "locks_inv L" and "n < length (lk_calls L)" and "can_start n L"
  shows "(\<exists>rest. mx_queue (lock_abs L) (call_key L n) = n # rest) \<and> n \<notin> mx_held (lock_abs L) \<and>
         lock_abs (start_task n L) = mx_take n (lock_abs L)"
proof -
  have "lock_abs (start_task n L) = mx_take n (lock_abs L)"
    using assms by (auto simp: mx_take_def lock_abs_def start_task_def call_live_iff can_start_def fun_eq_iff intro!: filter_cong)
  moreover have "n \<notin> mx_held (lock_abs L)" "call_live L n" using assms by (simp_all add: mx_held_abs can_start_def call_live_iff)
  ultimately show ?thesis using queue_first [OF assms(1,2)] assms(3) by blast
qed

lemma holder_first:
  assumes "locks_inv L" and "n < length (lk_calls L)" and "lc_phase (lk_calls L ! n) = LockHolding"
  shows "\<exists>rest. mx_queue (lock_abs L) (call_key L n) = n # rest"
  using queue_first [OF assms(1,2)] assms(2,3) by (auto simp: call_live_iff)

lemma finish_bookkeeping:
  assumes "n < length (lk_calls L)" and "lc_phase (lk_calls L ! n) = LockSettled"
  shows "lock_abs (finish_run n L) = lock_abs L"
  using assms by (auto simp: lock_abs_def finish_run_def call_live_iff fun_eq_iff intro!: filter_cong split: if_splits)

lemma waiting_head_ready:
  assumes inv: "locks_inv L" and head: "mx_queue (lock_abs L) k = n # rest"
  shows "n \<in> mx_held (lock_abs L) \<or> can_start n L"
proof (rule disjCI)
  assume not_ready: "\<not> can_start n L"
  have n: "n < length (lk_calls L)" "call_live L n" "call_key L n = k"
    using arg_cong [OF head, of set] by (auto simp: mx_queue_abs)
  have least: "\<not> (call_live L j \<and> call_key L j = k)" if "j < n" for j
  proof
    assume j: "call_live L j \<and> call_key L j = k"
    have "sorted (mx_queue (lock_abs L) k)" by (simp add: mx_queue_abs sorted_wrt_filter)
    moreover have "j \<in> set (mx_queue (lock_abs L) k)" using j by (simp add: mx_queue_abs call_live_iff)
    ultimately show False using head that by auto
  qed
  show "n \<in> mx_held (lock_abs L)"
  proof (rule ccontr)
    assume "n \<notin> mx_held (lock_abs L)"
    then have waiting: "lc_phase (lk_calls L ! n) = LockWaiting" using n by (auto simp: mx_held_abs call_live_iff)
    with not_ready obtain p where p: "lc_previous (lk_calls L ! n) = Some p" "\<not> call_settled L p"
      by (auto simp: can_start_def split: option.splits)
    then have "p < n" "call_key L p = k" using locks_invD(3) [OF inv n(1)] n(3) by auto
    with least [of p] p(2) n(1) show False by (simp add: call_live_def)
  qed
qed

text \<open>
  C35. The promise chains implement a first-in-first-out mutex per key, whose queue holds a key's live
  calls in the order they were made. Each operation is one of the mutex: \<^verbatim>\<open>run\<close> joins at the end;
  \<^verbatim>\<open>tryAcquire\<close> is refused exactly while the last call made for the key is not through, and otherwise
  joins an empty queue and holds the lock; a task starts only at the head of its queue and then holds
  the lock; a holder that settles, or that is released, leaves the head; the \<^verbatim>\<open>finally\<close> of a settled
  call and a second release change nothing of it. Only a head holds a lock, and a head that waits can
  start.
\<close>

theorem locks_refine_fifo_mutex:
  assumes reached: "locks_reachable L"
  shows "lock_abs (snd (run_locked key L)) = mx_join key (fst (run_locked key L)) (lock_abs L)
    \<and> (fst (try_acquire key L) = None \<longleftrightarrow> (\<exists>m. last_call L key m \<and> lc_phase (lk_calls L ! m) \<noteq> LockDone))
    \<and> (case fst (try_acquire key L) of
         None \<Rightarrow> snd (try_acquire key L) = L
       | Some n \<Rightarrow> mx_queue (lock_abs L) key = [] \<and>
           lock_abs (snd (try_acquire key L)) = mx_take n (mx_join key n (lock_abs L)))
    \<and> (\<forall>n < length (lk_calls L).
         (can_start n L \<longrightarrow> (\<exists>rest. mx_queue (lock_abs L) (call_key L n) = n # rest) \<and> n \<notin> mx_held (lock_abs L) \<and>
            lock_abs (start_task n L) = mx_take n (lock_abs L)) \<and>
         (lc_phase (lk_calls L ! n) = LockHolding \<longrightarrow> (\<exists>rest. mx_queue (lock_abs L) (call_key L n) = n # rest) \<and>
            lock_abs (settle_task n L) = mx_leave (call_key L n) (lock_abs L) \<and>
            lock_abs (release_lease n L) = mx_leave (call_key L n) (lock_abs L)) \<and>
         (lc_phase (lk_calls L ! n) = LockSettled \<longrightarrow> lock_abs (finish_run n L) = lock_abs L) \<and>
         (lc_phase (lk_calls L ! n) \<noteq> LockHolding \<longrightarrow> release_lease n L = L))
    \<and> (\<forall>k. mx_held (lock_abs L) \<inter> set (mx_queue (lock_abs L) k) \<subseteq> set (take 1 (mx_queue (lock_abs L) k)))
    \<and> (\<forall>k n rest. mx_queue (lock_abs L) k = n # rest \<longrightarrow> n \<in> mx_held (lock_abs L) \<or> can_start n L)"
proof (intro conjI)
  have inv: "locks_inv L" by (rule locks_reachable_inv [OF reached])
  show "lock_abs (snd (run_locked key L)) = mx_join key (fst (run_locked key L)) (lock_abs L)"
    by (simp add: run_locked_eq abs_new_call mx_join_def) (simp add: run_locked_def Let_def)
  show "fst (try_acquire key L) = None \<longleftrightarrow> (\<exists>m. last_call L key m \<and> lc_phase (lk_calls L ! m) \<noteq> LockDone)"
    by (rule refused_try [OF reached])
  show "case fst (try_acquire key L) of
         None \<Rightarrow> snd (try_acquire key L) = L
       | Some n \<Rightarrow> mx_queue (lock_abs L) key = [] \<and>
           lock_abs (snd (try_acquire key L)) = mx_take n (mx_join key n (lock_abs L))"
    using granted_try [OF inv, of key] by (cases "fst (try_acquire key L)") (auto simp: try_acquire_def Let_def split: if_splits)
  show "\<forall>n < length (lk_calls L).
         (can_start n L \<longrightarrow> (\<exists>rest. mx_queue (lock_abs L) (call_key L n) = n # rest) \<and> n \<notin> mx_held (lock_abs L) \<and>
            lock_abs (start_task n L) = mx_take n (lock_abs L)) \<and>
         (lc_phase (lk_calls L ! n) = LockHolding \<longrightarrow> (\<exists>rest. mx_queue (lock_abs L) (call_key L n) = n # rest) \<and>
            lock_abs (settle_task n L) = mx_leave (call_key L n) (lock_abs L) \<and>
            lock_abs (release_lease n L) = mx_leave (call_key L n) (lock_abs L)) \<and>
         (lc_phase (lk_calls L ! n) = LockSettled \<longrightarrow> lock_abs (finish_run n L) = lock_abs L) \<and>
         (lc_phase (lk_calls L ! n) \<noteq> LockHolding \<longrightarrow> release_lease n L = L)"
  proof (intro allI impI conjI)
    fix n assume n: "n < length (lk_calls L)"
    show "\<exists>rest. mx_queue (lock_abs L) (call_key L n) = n # rest" "n \<notin> mx_held (lock_abs L)"
      "lock_abs (start_task n L) = mx_take n (lock_abs L)" if "can_start n L"
      using start_takes [OF inv n that] by simp_all
    show "\<exists>rest. mx_queue (lock_abs L) (call_key L n) = n # rest" if "lc_phase (lk_calls L ! n) = LockHolding"
      using holder_first [OF inv n that] .
    show "lock_abs (settle_task n L) = mx_leave (call_key L n) (lock_abs L)" if "lc_phase (lk_calls L ! n) = LockHolding"
      unfolding settle_task_def using inv n that by (intro abs_leave [where p = LockSettled]) simp_all
    show "lock_abs (release_lease n L) = mx_leave (call_key L n) (lock_abs L)" if "lc_phase (lk_calls L ! n) = LockHolding"
      unfolding release_lease_def using inv n that by (simp, intro abs_leave [where p = LockDone]) simp_all
    show "lock_abs (finish_run n L) = lock_abs L" if "lc_phase (lk_calls L ! n) = LockSettled"
      by (rule finish_bookkeeping [OF n that])
    show "release_lease n L = L" if "lc_phase (lk_calls L ! n) \<noteq> LockHolding"
      using that by (simp add: release_lease_def)
  qed
  show "\<forall>k. mx_held (lock_abs L) \<inter> set (mx_queue (lock_abs L) k) \<subseteq> set (take 1 (mx_queue (lock_abs L) k))"
  proof (intro allI subsetI)
    fix k n assume "n \<in> mx_held (lock_abs L) \<inter> set (mx_queue (lock_abs L) k)"
    then have "n < length (lk_calls L)" "lc_phase (lk_calls L ! n) = LockHolding" "call_key L n = k"
      by (simp_all add: mx_held_abs mx_queue_abs)
    then show "n \<in> set (take 1 (mx_queue (lock_abs L) k))" using holder_first [OF inv, of n] by auto
  qed
  show "\<forall>k n rest. mx_queue (lock_abs L) k = n # rest \<longrightarrow> n \<in> mx_held (lock_abs L) \<or> can_start n L"
    using waiting_head_ready [OF inv] by blast
qed

section \<open>Witness\<close>

definition queued_locks :: thread_locks where
  "queued_locks = snd (run_locked ''t1'' (snd (try_acquire ''t1'' new_locks)))"

theorem locks_refine_fifo_mutex_witness:
  "lock_abs (release_lease 0 queued_locks) = mx_leave ''t1'' (lock_abs queued_locks) \<and>
   mx_queue (lock_abs queued_locks) ''t1'' = [0, 1] \<and> fst (try_acquire ''t1'' queued_locks) = None"
proof -
  have reach: "locks_reachable queued_locks"
    unfolding queued_locks_def by (intro locks_reachable.step [OF _ runs] locks_reachable.step [OF _ tries] initial)
  have calls: "lk_calls queued_locks = [\<lparr>lc_key = ''t1'', lc_previous = None, lc_phase = LockHolding\<rparr>,
      \<lparr>lc_key = ''t1'', lc_previous = Some 0, lc_phase = LockWaiting\<rparr>]"
    by (simp add: queued_locks_def run_locked_def try_acquire_def new_locks_def jm_has_def Let_def)
  note laws = locks_refine_fifo_mutex [OF reach, of "''t1''"]
  have "lock_abs (release_lease 0 queued_locks) = mx_leave ''t1'' (lock_abs queued_locks)"
    using laws by (simp add: calls)
  moreover have "fst (try_acquire ''t1'' queued_locks) = None"
    using laws by (auto simp: calls last_call_def less_Suc_eq)
  moreover have "mx_queue (lock_abs queued_locks) ''t1'' = [0, 1]"
    by (simp add: mx_queue_abs calls call_live_iff upt_rec)
  ultimately show ?thesis by blast
qed

end
