(* ===== verification/CollectPages.thy ===== *)
theory CollectPages
  imports StoreThreads
begin

text \<open>
  \<^verbatim>\<open>collectPages\<close> of \<^verbatim>\<open>packages/agent-protocol/src/store/collect-pages.ts\<close>, the drain of a
  page-bounded search, and its use by \<^verbatim>\<open>ownedThreads\<close> of
  \<^verbatim>\<open>packages/agent-protocol/src/assistants/assistant-service.ts\<close>. The source is asked again for every
  page, so the \<open>n\<close>-th answer may come from a different state; the loop is partial, and that it ends
  is a theorem.
\<close>

definition DEFAULT_MAX_COLLECTED_ROWS :: nat where
  "DEFAULT_MAX_COLLECTED_ROWS = 100000"

record 'a collected =
  cp_rows :: "'a list"
  cp_truncated :: bool

partial_function (option) collect_loop ::
  "(nat \<Rightarrow> nat \<Rightarrow> 'a list) \<Rightarrow> ('a \<Rightarrow> bool) \<Rightarrow> nat \<Rightarrow> nat \<Rightarrow> 'a list \<Rightarrow> nat \<Rightarrow> nat \<Rightarrow> 'a collected option" where
  "collect_loop fetch keep max_rows n rows scanned stride =
     (if fetch n scanned = [] then Some \<lparr>cp_rows = rows, cp_truncated = False\<rparr>
      else if length (fetch n scanned) < (if stride = 0 then length (fetch n scanned) else stride)
      then Some \<lparr>cp_rows = rows @ filter keep (fetch n scanned), cp_truncated = False\<rparr>
      else if max_rows \<le> scanned + length (fetch n scanned)
      then Some \<lparr>cp_rows = rows @ filter keep (fetch n scanned), cp_truncated = True\<rparr>
      else collect_loop fetch keep max_rows (Suc n) (rows @ filter keep (fetch n scanned))
             (scanned + length (fetch n scanned)) (if stride = 0 then length (fetch n scanned) else stride))"

definition collect_pages ::
  "(nat \<Rightarrow> nat \<Rightarrow> 'a list) \<Rightarrow> ('a \<Rightarrow> bool) option \<Rightarrow> nat option \<Rightarrow> 'a collected option" where
  "collect_pages fetch keep max_rows =
     collect_loop fetch (or_default keep (\<lambda>_. True)) (or_default max_rows DEFAULT_MAX_COLLECTED_ROWS) 0 [] 0 0"

text \<open>The threads of an assistant, read for the cascade of its deletion.\<close>

definition owned_query :: "ident \<Rightarrow> jsval option \<Rightarrow> nat \<Rightarrow> thread_search_query" where
  "owned_query assistant_id enforced offset =
     \<lparr>tq_metadata = Some (JObj [(''assistant_id'', JStr assistant_id)]), tq_enforced_metadata = enforced,
      tq_exclude_metadata = [], tq_values = None, tq_status = None, tq_ids = None, tq_limit = None,
      tq_offset = Some offset, tq_sort_by = None, tq_sort_order = None\<rparr>"

definition owned_threads ::
  "ident \<Rightarrow> jsval option \<Rightarrow> (thread_view \<Rightarrow> bool) option \<Rightarrow> (nat \<Rightarrow> mem_store) \<Rightarrow> thread_view collected option" where
  "owned_threads assistant_id enforced keep states =
     collect_pages (\<lambda>n offset. threads_search (owned_query assistant_id enforced offset) (states n)) keep None"

section \<open>The loop ends\<close>

lemma collect_loop_ends:
  "\<exists>r. collect_loop fetch keep max_rows n rows scanned stride = Some r"
proof (induction "max_rows - scanned" arbitrary: n rows scanned stride rule: less_induct)
  case less
  let ?page = "fetch n scanned"
  show ?case
  proof (cases "?page = [] \<or> length ?page < (if stride = 0 then length ?page else stride) \<or> max_rows \<le> scanned + length ?page")
    case True
    then show ?thesis by (subst collect_loop.simps) auto
  next
    case False
    then have "max_rows - (scanned + length ?page) < max_rows - scanned" by (cases ?page) auto
    from less [OF this] show ?thesis using False by (subst collect_loop.simps) simp
  qed
qed

section \<open>A stable source\<close>

lemma page_more: "page xs k limit = take limit (drop k xs)"
  by (simp add: page_def)

lemma collect_loop_pages:
  assumes limit: "0 < limit" and stable: "\<And>n k. fetch n k = page source k limit"
    and scanned: "scanned \<le> length source" "rows = filter keep (take scanned source)"
    and stride: "stride = 0 \<and> scanned = 0 \<or> 0 < stride \<and> stride \<le> limit \<and> (stride < limit \<longrightarrow> scanned = length source)"
    and bound: "scanned \<le> max_rows"
    and result: "collect_loop fetch keep max_rows n rows scanned stride = Some r"
  shows "(\<not> cp_truncated r \<longrightarrow> cp_rows r = filter keep source) \<and>
         (cp_truncated r \<longrightarrow> max_rows \<le> length source \<and>
            (\<exists>m. max_rows \<le> m \<and> m \<le> max_rows + limit \<and> cp_rows r = filter keep (take m source)))"
  using scanned stride bound result
proof (induction "max_rows - scanned" arbitrary: n rows scanned stride rule: less_induct)
  case less
  let ?page = "fetch n scanned"
  let ?stride = "if stride = 0 then length ?page else stride"
  have page: "?page = take limit (drop scanned source)" by (simp add: stable page_more)
  have len: "length ?page = min limit (length source - scanned)" by (simp add: page)
  have taken: "filter keep (take scanned source) @ filter keep ?page = filter keep (take (scanned + length ?page) source)"
    using less.prems(1) by (simp add: page take_add min_def flip: filter_append)
  consider (empty) "?page = []" | (short) "?page \<noteq> []" "length ?page < ?stride"
    | (full) "?page \<noteq> []" "\<not> length ?page < ?stride" "max_rows \<le> scanned + length ?page"
    | (more) "?page \<noteq> []" "\<not> length ?page < ?stride" "\<not> max_rows \<le> scanned + length ?page" by blast
  then show ?case
  proof cases
    case empty
    then have "scanned = length source" using limit less.prems(1) by (auto simp: page)
    then show ?thesis using less.prems(2,5) empty by (subst (asm) collect_loop.simps) auto
  next
    case short
    then have "scanned + length ?page = length source"
      using less.prems(1,3) len limit by (auto split: if_splits)
    then show ?thesis using less.prems(2,5) short taken by (subst (asm) collect_loop.simps) auto
  next
    case full
    have "r = \<lparr>cp_rows = rows @ filter keep ?page, cp_truncated = True\<rparr>"
      using less.prems(5) full by (subst (asm) collect_loop.simps) auto
    moreover have "max_rows \<le> length source" using full len less.prems(1) by simp
    moreover have "scanned + length ?page \<le> max_rows + limit" using len less.prems(4) by simp
    ultimately show ?thesis using full(3) less.prems(2) taken by auto
  next
    case more
    have next_loop: "collect_loop fetch keep max_rows (Suc n) (rows @ filter keep ?page) (scanned + length ?page) ?stride = Some r"
      using less.prems(5) more by (subst (asm) collect_loop.simps) auto
    have shrinks: "max_rows - (scanned + length ?page) < max_rows - scanned"
      using more by (cases ?page) auto
    have pos: "0 < length ?page" using more(1) by simp
    show ?thesis
      by (rule less.hyps [OF shrinks _ _ _ _ next_loop])
        (use less.prems taken len more pos in \<open>auto split: if_splits\<close>)
  qed
qed

section \<open>Properties\<close>

text \<open>
  C40. The drain ends, whatever the source answers to each page request, also one that changes between
  pages or never runs dry. Over a store that does not change meanwhile, the cascade of an assistant's
  deletion reads every thread of the assistant, however small the page bound: it gives up only after
  100,000 rows, and then says so and returns all it read.
\<close>

theorem owned_threads_complete:
  assumes "0 < ms_max_page_size s"
  shows "(\<exists>r. owned_threads assistant_id enforced keep states = Some r) \<and>
         ((\<forall>n. states n = s) \<longrightarrow>
           (\<exists>r. owned_threads assistant_id enforced keep states = Some r \<and>
             (let all = map (project_thread s) (matching_threads (owned_query assistant_id enforced 0) s)
              in (\<not> cp_truncated r \<longrightarrow> cp_rows r = filter (or_default keep (\<lambda>_. True)) all) \<and>
                 (cp_truncated r \<longrightarrow> 100000 \<le> length all \<and>
                    (\<exists>m \<ge> 100000. cp_rows r = filter (or_default keep (\<lambda>_. True)) (take m all))))))"
proof -
  have ends: "\<exists>r. owned_threads assistant_id enforced keep states = Some r"
    unfolding owned_threads_def collect_pages_def by (rule collect_loop_ends)
  let ?all = "map (project_thread s) (matching_threads (owned_query assistant_id enforced 0) s)"
  have query: "matching_threads (owned_query assistant_id enforced k) s =
      matching_threads (owned_query assistant_id enforced 0) s" for k
  proof -
    have "thread_matches (owned_query assistant_id enforced k) = thread_matches (owned_query assistant_id enforced 0)"
      by (simp add: fun_eq_iff thread_matches_def owned_query_def)
    then show ?thesis by (simp add: matching_threads_def) (simp add: owned_query_def)
  qed
  have fetch: "threads_search (owned_query assistant_id enforced k) s = page ?all k (ms_max_page_size s)" for k
    using query [of k] by (simp add: threads_search_def owned_query_def page_limit_def page_def take_map drop_map)
  show ?thesis
  proof (intro conjI impI)
    assume stable: "\<forall>n. states n = s"
    obtain r where r: "owned_threads assistant_id enforced keep states = Some r" using ends by blast
    then have loop: "collect_loop (\<lambda>n k. threads_search (owned_query assistant_id enforced k) (states n))
        (or_default keep (\<lambda>_. True)) 100000 0 [] 0 0 = Some r"
      by (simp add: owned_threads_def collect_pages_def DEFAULT_MAX_COLLECTED_ROWS_def)
    have "(\<not> cp_truncated r \<longrightarrow> cp_rows r = filter (or_default keep (\<lambda>_. True)) ?all) \<and>
        (cp_truncated r \<longrightarrow> 100000 \<le> length ?all \<and>
          (\<exists>m. 100000 \<le> m \<and> m \<le> 100000 + ms_max_page_size s \<and> cp_rows r = filter (or_default keep (\<lambda>_. True)) (take m ?all)))"
      by (rule collect_loop_pages [OF assms _ _ _ _ _ loop]) (simp_all add: stable fetch)
    then show "\<exists>r. owned_threads assistant_id enforced keep states = Some r \<and>
        (let all = ?all
         in (\<not> cp_truncated r \<longrightarrow> cp_rows r = filter (or_default keep (\<lambda>_. True)) all) \<and>
            (cp_truncated r \<longrightarrow> 100000 \<le> length all \<and>
               (\<exists>m \<ge> 100000. cp_rows r = filter (or_default keep (\<lambda>_. True)) (take m all))))"
      using r by (auto simp: Let_def)
  qed (rule ends)
qed

section \<open>Witness\<close>

definition owned_thread :: "ident \<Rightarrow> instant \<Rightarrow> thread" where
  "owned_thread i at_time =
     \<lparr>t_thread_id = i, t_created_at = at_time, t_updated_at = at_time, t_state_updated_at = at_time,
      t_metadata = JObj [(''assistant_id'', JStr ''a1'')], t_status = Idle, t_values = JObj [],
      t_interrupts = JObj [], t_error = None\<rparr>"

text \<open>Two threads of one assistant, a page bound of one.\<close>

definition owned_store :: mem_store where
  "owned_store = empty_store\<lparr>ms_threads := [(''t1'', owned_thread ''t1'' 1), (''t2'', owned_thread ''t2'' 2)],
     ms_max_page_size := 1\<rparr>"

theorem owned_threads_complete_witness:
  "\<exists>r. owned_threads ''a1'' None None (\<lambda>_. owned_store) = Some r \<and>
     cp_rows r = map (project_thread owned_store) (matching_threads (owned_query ''a1'' None 0) owned_store)"
proof -
  have "0 < ms_max_page_size owned_store" by (simp add: owned_store_def)
  moreover have two: "length (matching_threads q owned_store) \<le> 2" for q
    unfolding matching_threads_def length_js_sort using length_filter_le by (rule order_trans) (simp add: owned_store_def)
  have "\<not> 100000 \<le> length (matching_threads q owned_store)" for q using two [of q] by linarith
  ultimately show ?thesis
    using owned_threads_complete [of owned_store "''a1''" None None "\<lambda>_. owned_store"] by (auto simp: Let_def)
qed

end
