(* ===== verification/StoreSystem.thy ===== *)
theory StoreSystem
  imports AdmissionHistory StoreThreads StoreAssistants StoreCrons StoreItems StoreIdempotency
begin

text \<open>
  The store as one system: every mutating operation of every repository is a step, in any order and
  with any arguments, from the store the constructor builds. What the parts promise one by one holds
  of every store the server can be in.
\<close>

section \<open>The steps\<close>

text \<open>
  One operation of any repository of the store. \<open>lc\<close> is \<^verbatim>\<open>localeCompare\<close> and \<open>json\<close>
  \<^verbatim>\<open>JSON.stringify\<close>, which only reads that also refresh an expiry use.
\<close>

inductive store_step :: "mem_store \<Rightarrow> mem_store \<Rightarrow> bool" where
  create_run: "store_step s (snd (create_run input uuid now s))"
| create_if_idle: "store_step s (snd (create_if_thread_idle input uuid now s))"
| create_if_matches: "store_step s (snd (create_if_thread_matches input guard uuid now s))"
| settle: "store_step s (snd (settle i settlement uuid now s))"
| set_status: "store_step s (snd (set_status i st err now s))"
| finalize: "store_step s (snd (finalize_with_delivery i st err callback uuid now s))"
| record_result: "store_step s (snd (record_result i res s))"
| record_base: "store_step s (record_base_checkpoint i base s)"
| run_delete: "store_step s (run_delete i s)"
| admission: "(\<And>input fresh now. oper = OpAdmitRun input fresh now \<Longrightarrow>
      fresh 0 \<notin> fst ` set (ms_runs s) \<and> rc_run_id (ra_run input) \<noteq> Some []) \<Longrightarrow>
    store_step s (admission_step oper s)"
| delivery: "store_step s (snd (delivery_step lc deliv s))"
| assistant: "store_step s (assistant_step assist s)"
| thread_create: "store_step s (snd (thread_create_op tinput uuid now s))"
| thread_copy: "store_step s (snd (thread_copy i uuid now s))"
| thread_update: "store_step s (snd (thread_update_op i patch now s))"
| thread_delete: "store_step s (thread_delete i s)"
| cron: "store_step s (cron_step cron s)"
| item_get: "store_step s (snd (item_get ns key refresh now s))"
| item_put: "store_step s (snd (item_put_with_options ns key val ttl index now s))"
| item_delete: "store_step s (item_delete ns key s)"
| item_search: "store_step s (snd (items_search json q now s))"
| item_sweep: "store_step s (snd (items_sweep_expired now s))"
| idempotency: "store_step s (idempotency_step idem s)"

text \<open>The stores a server can be in: the constructor's, and what any operations make of it.\<close>

inductive store_reachable :: "mem_store \<Rightarrow> bool" where
  constructed: "new_memory_store ttl thread_ttl max_size = Some s \<Longrightarrow> store_reachable s"
| operated: "store_reachable s \<Longrightarrow> store_step s s' \<Longrightarrow> store_reachable s'"

section \<open>Each step keeps the invariant\<close>

lemma admission_step_store_inv:
  assumes "store_inv s"
    and "\<And>input fresh now. oper = OpAdmitRun input fresh now \<Longrightarrow>
      fresh 0 \<notin> fst ` set (ms_runs s) \<and> rc_run_id (ra_run input) \<noteq> Some []"
  shows "store_inv (admission_step oper s)"
  using assms
  by (cases oper) (simp_all add: admit_run_store_inv admit_cancel_store_inv claim_dispatches_store_inv
      mark_dispatched_store_inv)

lemma delivery_step_store_inv:
  assumes "store_inv s"
  shows "store_inv (snd (delivery_step lc oper s))"
proof -
  obtain m where m: "snd (delivery_step lc oper s) = s\<lparr>ms_deliveries := m\<rparr>"
    using deliveries_only by (cases oper) (simp_all, meson+)
  moreover have "keyed_by dl_delivery_id (ms_deliveries (snd (delivery_step lc oper s)))"
    using assms by (intro delivery_step_inv) (simp add: store_inv_def ledger_inv_def)
  ultimately show ?thesis using assms by (simp add: store_inv_deliveries)
qed

lemma assistant_step_store_inv: "store_inv s \<Longrightarrow> store_inv (assistant_step oper s)"
  by (cases oper) (simp_all add: assistant_create_store_inv assistant_update_store_inv
      set_latest_store_inv assistant_delete_store_inv)

lemma cron_step_store_inv: "store_inv s \<Longrightarrow> store_inv (cron_step oper s)"
  by (cases oper) (simp_all add: cron_create_store_inv cron_update_store_inv cron_delete_store_inv
      claim_cron_store_inv claim_and_create_run_store_inv)

lemma idempotency_step_store_inv: "store_inv s \<Longrightarrow> store_inv (idempotency_step oper s)"
  by (cases oper) (simp_all add: idempotency_ops_inv)

lemma guarded_create_store_inv:
  assumes "store_inv s"
  shows "store_inv (snd (create_if_thread_idle input uuid now s))"
    and "store_inv (snd (create_if_thread_matches input guard uuid now s))"
  using assms create_if_thread_idle_cases [of input uuid now s]
    create_if_thread_matches_cases [of input guard uuid now s]
  by (auto simp: create_run_store_inv)

lemmas step_store_invs =
  create_run_store_inv guarded_create_store_inv settle_store_inv set_status_store_inv finalize_store_inv
  record_result_kept(4) record_base_checkpoint_kept(4) run_delete_store_inv delivery_step_store_inv
  assistant_step_store_inv thread_create_store_inv thread_copy_store_inv thread_update_store_inv
  thread_delete_store_inv cron_step_store_inv item_get_store_inv item_put_store_inv
  item_delete_store_inv items_search_store_inv items_sweep_store_inv idempotency_step_store_inv

lemma store_step_inv: "store_step s s' \<Longrightarrow> store_inv s \<Longrightarrow> store_inv s'"
proof (induction rule: store_step.induct)
  case (admission oper s)
  then show ?case using admission_step_store_inv by blast
qed (rule step_store_invs; assumption)+

section \<open>One active run per thread\<close>

text \<open>
  The steps of a server that never enqueues a second run on a busy thread: run creation is guarded,
  an admission either requires an idle thread or displaces every active run, settlements are terminal
  (their type has no \<^verbatim>\<open>pending\<close> and no \<^verbatim>\<open>running\<close>). A bare status
  write may name any run and any status, as the store takes it: only a run that was admitted is
  protected from going back to \<^verbatim>\<open>running\<close>.
\<close>

definition exclusive_admission :: "run_admission \<Rightarrow> bool" where
  "exclusive_admission input \<longleftrightarrow>
     (rg_require_no_active_run (ra_guard input) \<or> ra_displacements input \<noteq> []) \<and>
     list_all (\<lambda>item. is_terminal_run_status (se_status (snd item))) (ra_displacements input)"

inductive exclusive_step :: "mem_store \<Rightarrow> mem_store \<Rightarrow> bool" where
  idle_create: "exclusive_step s (snd (create_if_thread_idle input uuid now s))"
| guarded_create: "rg_require_no_active_run guard \<Longrightarrow>
    exclusive_step s (snd (create_if_thread_matches input guard uuid now s))"
| settled: "is_terminal_run_status (se_status settlement) \<Longrightarrow>
    exclusive_step s (snd (settle i settlement uuid now s))"
| status_written: "exclusive_step s (snd (set_status i st err now s))"
| finalized: "is_terminal_run_status st \<Longrightarrow>
    exclusive_step s (snd (finalize_with_delivery i st err callback uuid now s))"
| run_deleted: "exclusive_step s (run_delete i s)"
| thread_deleted: "exclusive_step s (thread_delete i s)"
| admitted: "exclusive_admission input \<Longrightarrow> fresh 0 \<notin> fst ` set (ms_runs s) \<Longrightarrow>
    rc_run_id (ra_run input) \<noteq> Some [] \<Longrightarrow>
    exclusive_step s (snd (admit_run input fresh now s))"
| cancelled: "exclusive_step s (snd (admit_cancel input fresh now s))"
| elsewhere: "store_step s s' \<Longrightarrow> ms_runs s' = ms_runs s \<Longrightarrow> exclusive_step s s'"

text \<open>
  A history of such a server: its stores one after the other, from the constructor's. A step revives
  a run when the run was over before it and is active after it.
\<close>

fun exclusive_steps :: "mem_store list \<Rightarrow> bool" where
  "exclusive_steps (s # s' # ss) \<longleftrightarrow> exclusive_step s s' \<and> exclusive_steps (s' # ss)"
| "exclusive_steps ss \<longleftrightarrow> True"

definition exclusive_history :: "mem_store list \<Rightarrow> bool" where
  "exclusive_history ss \<longleftrightarrow>
     ss \<noteq> [] \<and> (\<exists>ttl thread_ttl max_size. new_memory_store ttl thread_ttl max_size = Some (hd ss)) \<and>
     exclusive_steps ss"

definition revives :: "mem_store \<Rightarrow> mem_store \<Rightarrow> bool" where
  "revives s s' \<longleftrightarrow>
     (\<exists>i r r'. map_of (ms_runs s) i = Some r \<and> is_terminal_run_status (r_status r) \<and>
        map_of (ms_runs s') i = Some r' \<and> \<not> is_terminal_run_status (r_status r'))"

lemma admission_as_step:
  "fresh 0 \<notin> fst ` set (ms_runs s) \<Longrightarrow> rc_run_id (ra_run input) \<noteq> Some [] \<Longrightarrow>
     store_step s (snd (admit_run input fresh now s))"
  "store_step s (snd (admit_cancel cancel fresh' now s))"
  using store_step.admission [of "OpAdmitRun input fresh now" s]
    store_step.admission [of "OpAdmitCancel cancel fresh' now" s] by simp_all

lemma exclusive_step_is_step: "exclusive_step s s' \<Longrightarrow> store_step s s'"
  by (induction rule: exclusive_step.induct)
     (auto intro: store_step.intros(1-9,16) admission_as_step)

text \<open>What the steps that end or remove runs do: no run becomes active.\<close>

lemma no_new_active_runs:
  "ms_runs s' = ms_runs s1 \<Longrightarrow> no_new_active s s' = no_new_active s s1"
  by (simp add: no_new_active_def)

lemma thread_delete_no_new_active: "store_inv s \<Longrightarrow> no_new_active s (thread_delete i s)"
  unfolding no_new_active_def
  using store_inv_run_wf [of s]
  by (auto simp: thread_delete_def Let_def delete_runs_of_facts delete_crons_of_facts jm_get_filter
      split: option.splits if_splits)

lemma admit_cancel_no_new_active: "no_new_active s (snd (admit_cancel input fresh now s))"
proof -
  let ?final = "\<lparr>se_status = Cancelled, se_error = None, se_result = None, se_delivery = cl_delivery input\<rparr>"
  have "ms_runs (snd (admit_cancel input fresh now s)) \<in>
          {ms_runs s, ms_runs (snd (settle (cl_run_id input) ?final (fresh 2) now s))}"
    by (simp add: admit_cancel_def Let_def split_beta frame_simps
        split: sum.split option.split prod.split)
  then consider "ms_runs (snd (admit_cancel input fresh now s)) = ms_runs s"
    | "ms_runs (snd (admit_cancel input fresh now s)) =
         ms_runs (snd (settle (cl_run_id input) ?final (fresh 2) now s))" by blast
  then show ?thesis
  proof cases
    case 1
    then show ?thesis by (simp only: no_new_active_runs [OF 1] run_relations_refl)
  next
    case 2
    have "no_new_active s (snd (settle (cl_run_id input) ?final (fresh 2) now s))"
      by (rule settle_no_new_active) simp
    then show ?thesis by (simp only: no_new_active_runs [OF 2])
  qed
qed

section \<open>Admission leaves its thread to the new run\<close>

lemma displaced_all_active:
  assumes "displacements_current displaced (active_runs_on t s)" and "store_inv s"
    and "map_of (ms_runs s) i = Some r" and "is_active_on t r"
  shows "i \<in> fst ` set displaced"
proof -
  have "r \<in> set (active_runs_on t s)"
    using assms(3,4) jm_get_in [OF store_inv_run_wf [OF assms(2)]]
    by (force simp: active_runs_on_def)
  with assms(1) obtain item where "item \<in> set displaced" "fst item = r_run_id r"
    by (auto simp: displacements_current_def list_all_iff list_ex_iff)
  then have "r_run_id r \<in> fst ` set displaced" by force
  with store_inv_run_id [OF assms(2,3)] show ?thesis by simp
qed

lemma idle_after_displacing:
  assumes checks: "admit_checks input s = (Inr (prepared, displaced), s1)" and inv: "store_inv s"
    and exclusive: "exclusive_admission input"
    and row: "map_of (ms_runs (snd (settle_displaced action fresh 2 now displaced s1))) i = Some r"
  shows "\<not> is_active_on (rc_thread_id prepared) r"
proof
  assume act: "is_active_on (rc_thread_id prepared) r"
  note ok = admit_checks_ok [OF checks] and same = admit_checks_frame [OF checks]
  note fixed = wire_displacements_fixed [OF ok(2)]
  have terminal: "list_all (\<lambda>item. is_terminal_run_status (se_status (snd item))) displaced"
    using exclusive checked_displacements(1) [OF ok(2)] by (simp add: exclusive_admission_def)
  have "no_new_active s1 (snd (settle_displaced action fresh 2 now displaced s1))"
    using settle_displaced_facts [OF fixed, of action fresh 2 now s1] terminal by simp
  then obtain r0 where r0: "map_of (ms_runs s) i = Some r0" "is_active_on (rc_thread_id prepared) r0"
    using row act same(1) unfolding no_new_active_def is_active_on_def by metis
  obtain t where t: "map_of (ms_threads s) (rc_thread_id prepared) = Some t"
    "displaced \<noteq> [] \<longrightarrow> displacements_current displaced (active_runs_on (t_thread_id t) s)"
    "rg_require_no_active_run (ra_guard input) \<longrightarrow> active_runs_on (t_thread_id t) s = []"
    using ok(3) by blast
  have tid: "t_thread_id t = rc_thread_id prepared"
    using inv keyed_by_get [OF _ t(1)] by (simp add: store_inv_def thread_inv_def)
  have "r0 \<in> set (active_runs_on (rc_thread_id prepared) s)"
    using r0 jm_get_in [OF store_inv_run_wf [OF inv]] by (force simp: active_runs_on_def)
  then have "displaced \<noteq> []"
    using t(3) tid exclusive wire_displacements_ids [OF ok(2)] by (auto simp: exclusive_admission_def)
  then have "i \<in> fst ` set displaced"
    using displaced_all_active [OF _ inv r0] t(2) tid by simp
  from settle_displaced_terminal [OF fixed terminal this row] act show False
    by (simp add: is_active_on_def)
qed

lemma admit_run_single_active:
  assumes inv: "store_inv s" and single: "single_active s" and exclusive: "exclusive_admission input"
    and fresh: "fresh 0 \<notin> fst ` set (ms_runs s)" "rc_run_id (ra_run input) \<noteq> Some []"
  shows "single_active (snd (admit_run input fresh now s))"
proof -
  obtain res s' where run: "admit_run input fresh now s = (res, s')" by fastforce
  have "single_active s'"
  proof (rule admit_run_cases [OF run fresh])
    fix e res0 assume "s' = s \<or> admit_checks input s = (res0, s')"
    then have "ms_runs s' = ms_runs s" using admit_checks_frame(1) by blast
    with single show ?thesis by (simp add: single_active_def)
  next
    fix prepared displaced s1
    assume checks: "admit_checks input s = (Inr (prepared, displaced), s1)"
      and s': "s' = committed input prepared displaced fresh now s1"
    let ?s2 = "snd (settle_displaced (displace_action prepared) fresh 2 now displaced s1)"
    note same = admit_checks_frame [OF checks] and ok = admit_checks_ok [OF checks]
    have inv2: "store_inv ?s2"
      using settle_displaced_store_inv admit_checks_store_inv [OF checks inv] by blast
    have "no_new_active s1 ?s2"
      using settle_displaced_facts [OF wire_displacements_fixed [OF ok(2)], of "displace_action prepared" fresh 2 now s1]
        checked_displacements(1) [OF ok(2)] exclusive
      by (simp add: exclusive_admission_def)
    then have "single_active ?s2"
      using single_active_mono [of s1 ?s2] single same(1) by (simp add: single_active_def)
    moreover have "\<not> has_active_run (rc_thread_id prepared) ?s2"
      using idle_after_displacing [OF checks inv exclusive] inv2
      by (auto simp: has_active_run_iff store_inv_def)
    ultimately have "single_active (with_new_run prepared (fresh 0) now ?s2)"
      using inv2 by (intro with_new_run_single_active) (simp_all add: store_inv_def)
    then show ?thesis
      by (simp add: s' committed_def single_active_def frame_simps)
  qed (use single in simp)
  with run show ?thesis by simp
qed

lemma status_write_no_new_active:
  assumes "\<not> revives s (snd (set_status i st err now s))"
  shows "no_new_active s (snd (set_status i st err now s))"
proof (cases "is_terminal_run_status st \<or>
    (\<exists>r. map_of (ms_runs s) i = Some r \<and> \<not> is_terminal_run_status (r_status r))")
  case False
  then have "snd (set_status i st err now s) = s"
    using assms by (auto simp: revives_def set_status_def Let_def jm_get_set split: option.splits if_splits)
  then show ?thesis by (simp add: run_relations_refl)
qed (rule set_status_no_new_active)

lemma exclusive_step_single_active:
  "exclusive_step s s' \<Longrightarrow> \<not> revives s s' \<Longrightarrow> store_inv s \<Longrightarrow> single_active s \<Longrightarrow> single_active s'"
proof (induction rule: exclusive_step.induct)
  case (idle_create s input uuid now)
  then show ?case
    using create_if_thread_idle_cases [of input uuid now s] create_run_single_active [of s input uuid now]
    by (auto simp: store_inv_def)
next
  case (guarded_create guard s input uuid now)
  then show ?case
    using create_if_thread_matches_cases [of input guard uuid now s] create_run_single_active [of s input uuid now]
    by (auto simp: store_inv_def)
next
  case (admitted input fresh s now)
  then show ?case by (intro admit_run_single_active)
next
  case (elsewhere s s')
  then show ?case by (simp add: single_active_def)
qed (auto elim!: single_active_mono
       intro: settle_no_new_active status_write_no_new_active finalize_kept(3) run_delete_no_new_active
         thread_delete_no_new_active admit_cancel_no_new_active)

lemma exclusive_steps_single_active:
  assumes "exclusive_steps ss" "ss \<noteq> []" "store_inv (hd ss)" "single_active (hd ss)"
    and "\<forall>(s, s') \<in> set (zip ss (tl ss)). \<not> revives s s'"
  shows "store_inv (last ss) \<and> single_active (last ss)"
  using assms
proof (induction ss rule: exclusive_steps.induct)
  case (1 s s' ss)
  then show ?case
    using exclusive_step_single_active [of s s'] store_step_inv [OF exclusive_step_is_step, of s s'] by simp
qed simp_all

lemma exclusive_history_single_active:
  assumes "exclusive_history ss" "\<forall>(s, s') \<in> set (zip ss (tl ss)). \<not> revives s s'"
  shows "store_inv (last ss) \<and> single_active (last ss)"
proof -
  obtain ttl thread_ttl max_size where new: "new_memory_store ttl thread_ttl max_size = Some (hd ss)"
    using assms(1) by (auto simp: exclusive_history_def)
  then have "ms_runs (hd ss) = []"
    by (auto simp: new_memory_store_def split: if_splits option.splits) (metis mem_store.select_convs)
  then have "single_active (hd ss)" by (simp add: single_active_def)
  with new_memory_store_inv [OF new] assms exclusive_steps_single_active show ?thesis
    unfolding exclusive_history_def by blast
qed

lemma active_runs_at_most_one:
  assumes "store_inv s" "single_active s"
  shows "length (active_runs_on t s) \<le> 1"
proof -
  note inv = assms
  have same: "r = r'" if "r \<in> set (active_runs_on t s)" "r' \<in> set (active_runs_on t s)" for r r'
  proof -
    have "r \<in> set (jm_values (ms_runs s))" "r' \<in> set (jm_values (ms_runs s))"
      using that unfolding active_runs_on_def set_filter by blast+
    then obtain i j where "map_of (ms_runs s) i = Some r" "map_of (ms_runs s) j = Some r'"
      unfolding jm_values_get [OF store_inv_run_wf [OF inv(1)]] by blast
    moreover have "is_active_on (r_thread_id r') r" "is_active_on (r_thread_id r') r'"
      using that by (auto simp: active_runs_on_def is_active_on_def)
    ultimately show ?thesis using inv(2) unfolding single_active_def by fastforce
  qed
  then have "card (set (active_runs_on t s)) \<le> Suc 0"
    by (subst card_le_Suc0_iff_eq) simp_all
  moreover have "distinct (active_runs_on t s)"
    unfolding active_runs_on_def
    using inv(1) keyed_values_distinct [of r_run_id "ms_runs s"]
    by (intro distinct_filter) (simp add: store_inv_def run_inv_def distinct_map del: map_map)
  ultimately show ?thesis by (simp only: distinct_card One_nat_def)
qed

section \<open>Reservations\<close>

text \<open>Any operations of the store that leave the runs of a set in place.\<close>

inductive keeping :: "ident set \<Rightarrow> mem_store \<Rightarrow> mem_store \<Rightarrow> bool" for I where
  stays: "keeping I s s"
| moves: "keeping I s s' \<Longrightarrow> store_step s' s'' \<Longrightarrow> I \<subseteq> fst ` set (ms_runs s'') \<Longrightarrow> keeping I s s''"

lemma keeping_present: "keeping I s s' \<Longrightarrow> I \<subseteq> fst ` set (ms_runs s) \<Longrightarrow> I \<subseteq> fst ` set (ms_runs s')"
  by (induction rule: keeping.induct) simp_all

lemma same_reservations_consumed:
  "ms_resume_reservations s' = ms_resume_reservations s \<Longrightarrow> i \<in> fst ` set (ms_runs s') \<Longrightarrow>
     consumed_by e i s \<Longrightarrow> consumed_by e i s'"
  by (simp add: consumed_by_def)

lemma map_of_filter_kept: "map_of m k = Some v \<Longrightarrow> P (k, v) \<Longrightarrow> map_of (filter P m) k = Some v"
  by (induction m) (auto split: if_splits)

lemma run_delete_reserved:
  "map_of (ms_resume_reservations s) e = Some i \<Longrightarrow> j \<noteq> e \<Longrightarrow> j \<noteq> i \<Longrightarrow>
     map_of (ms_resume_reservations (run_delete j s)) e = Some i"
  by (simp add: run_delete_def forget_admission_def map_of_filter_kept)

lemma delete_runs_of_reserved:
  "map_of (ms_resume_reservations s) e = Some i \<Longrightarrow>
   \<forall>r. (e, r) \<in> set rows \<longrightarrow> r_thread_id r \<noteq> t \<Longrightarrow> \<forall>r. (i, r) \<in> set rows \<longrightarrow> r_thread_id r \<noteq> t \<Longrightarrow>
     map_of (ms_resume_reservations (delete_runs_of t rows s)) e = Some i"
proof (induction t rows s rule: delete_runs_of.induct)
  case (2 t j r rest s)
  then have "r_thread_id r = t \<Longrightarrow> j \<noteq> e \<and> j \<noteq> i" by auto
  with 2 show ?case by (auto simp: run_delete_reserved)
qed simp

lemma delete_crons_of_reservations:
  "ms_resume_reservations (delete_crons_of t rows s) = ms_resume_reservations s"
  by (induction t rows s rule: delete_crons_of.induct) simp_all

lemma run_delete_consumed:
  assumes "consumed_by e i s" "e \<in> fst ` set (ms_runs (run_delete j s))" "i \<in> fst ` set (ms_runs (run_delete j s))"
  shows "consumed_by e i (run_delete j s)"
  using assms run_delete_reserved [of s e i j]
  by (auto simp: consumed_by_def run_delete_def frame_simps jm_keys_delete)

lemma thread_delete_consumed:
  assumes "consumed_by e i s" and inv: "store_inv s"
    and "e \<in> fst ` set (ms_runs (thread_delete t s))" "i \<in> fst ` set (ms_runs (thread_delete t s))"
  shows "consumed_by e i (thread_delete t s)"
proof -
  let ?s1 = "s\<lparr>ms_threads := jm_delete t (ms_threads s), ms_thread_expiry := jm_delete t (ms_thread_expiry s),
                ms_thread_retention := jm_delete t (ms_thread_retention s)\<rparr>"
  have runs: "ms_runs (thread_delete t s) =
      filter (\<lambda>x. \<not> (\<exists>r. (fst x, r) \<in> set (ms_runs s) \<and> r_thread_id r = t)) (ms_runs s)"
    by (simp add: thread_delete_def Let_def delete_crons_of_facts delete_runs_of_facts)
  have "map_of (ms_resume_reservations (delete_runs_of t (ms_runs s) ?s1)) e = Some i"
    using assms runs by (intro delete_runs_of_reserved) (auto simp: consumed_by_def)
  then show ?thesis
    using assms by (simp add: consumed_by_def thread_delete_def Let_def delete_crons_of_reservations)
qed

lemma guarded_create_reservations:
  "ms_resume_reservations (snd (create_if_thread_idle input uuid now s)) = ms_resume_reservations s"
  "ms_resume_reservations (snd (create_if_thread_matches input guard uuid now s)) = ms_resume_reservations s"
  using create_if_thread_idle_cases [of input uuid now s] create_if_thread_matches_cases [of input guard uuid now s]
  by (auto simp: frame_simps)

lemma run_write_reservations:
  "ms_resume_reservations (snd (set_status i st err now s)) = ms_resume_reservations s"
  "ms_resume_reservations (snd (finalize_with_delivery i st err callback uuid now s)) = ms_resume_reservations s"
  "ms_resume_reservations (snd (record_result i res s)) = ms_resume_reservations s"
  "ms_resume_reservations (record_base_checkpoint i base s) = ms_resume_reservations s"
  by (auto simp: set_status_def finalize_with_delivery_def insert_delivery_snd record_result_def
      record_base_checkpoint_def Let_def split_beta split: option.split)

lemma thread_write_reservations:
  "ms_resume_reservations (snd (thread_create_op tinput uuid now s)) = ms_resume_reservations s"
  "ms_resume_reservations (snd (thread_copy i uuid now s)) = ms_resume_reservations s"
  "ms_resume_reservations (snd (thread_update_op i patch now s)) = ms_resume_reservations s"
  by (auto simp: thread_create_op_def thread_copy_def thread_update_op_def Let_def frame_simps split: option.split)

text \<open>The other repositories leave threads, runs and reservations alone.\<close>

lemma delivery_step_frame:
  "ms_resume_reservations (snd (delivery_step lc oper s)) = ms_resume_reservations s"
  "ms_threads (snd (delivery_step lc oper s)) = ms_threads s"
  "ms_runs (snd (delivery_step lc oper s)) = ms_runs s"
proof -
  obtain m where "snd (delivery_step lc oper s) = s\<lparr>ms_deliveries := m\<rparr>"
    using deliveries_only by (cases oper) (simp_all, meson+)
  then show
    "ms_resume_reservations (snd (delivery_step lc oper s)) = ms_resume_reservations s" 
    "ms_threads (snd (delivery_step lc oper s)) = ms_threads s" 
    "ms_runs (snd (delivery_step lc oper s)) = ms_runs s"
    by simp_all
qed

lemma assistant_step_frame:
  "ms_resume_reservations (assistant_step oper s) = ms_resume_reservations s"
  "ms_threads (assistant_step oper s) = ms_threads s"
  "ms_runs (assistant_step oper s) = ms_runs s"
  by (cases oper;
      auto simp: assistant_create_op_def assistant_update_op_def set_latest_def assistant_delete_def
        delete_versions_of_def Let_def split: option.split)+

lemma cron_step_frame:
  "ms_resume_reservations (cron_step oper s) = ms_resume_reservations s"
  "ms_threads (cron_step oper s) = ms_threads s"
  by (cases oper;
      auto simp: cron_create_op_def cron_update_op_def cron_delete_def bump_cron_seq_def claim_cron_def
        claim_and_create_run_def Let_def split_beta frame_simps split: option.split sum.split prod.split)+

lemma refresh_each_frame:
  "ms_resume_reservations (refresh_each refresh now rows s) = ms_resume_reservations s"
  "ms_threads (refresh_each refresh now rows s) = ms_threads s"
  "ms_runs (refresh_each refresh now rows s) = ms_runs s"
  by (induction refresh now rows s rule: refresh_each.induct)
     (auto simp: maybe_refresh_def set_expiry_def Let_def split: option.split)

lemma sweep_items_frame:
  "ms_resume_reservations (snd (sweep_items now ids s)) = ms_resume_reservations s"
  "ms_threads (snd (sweep_items now ids s)) = ms_threads s"
  "ms_runs (snd (sweep_items now ids s)) = ms_runs s"
  by (induction now ids s rule: sweep_items.induct) (auto simp: Let_def split_beta)

lemma item_ops_frame:
  "ms_resume_reservations (snd (item_get ns key refresh now s)) = ms_resume_reservations s"
  "ms_threads (snd (item_get ns key refresh now s)) = ms_threads s"
  "ms_runs (snd (item_get ns key refresh now s)) = ms_runs s"
  "ms_resume_reservations (snd (item_put_with_options ns key val ttl index now s)) = ms_resume_reservations s"
  "ms_threads (snd (item_put_with_options ns key val ttl index now s)) = ms_threads s"
  "ms_runs (snd (item_put_with_options ns key val ttl index now s)) = ms_runs s"
  "ms_resume_reservations (item_delete ns key s) = ms_resume_reservations s"
  "ms_threads (item_delete ns key s) = ms_threads s"
  "ms_runs (item_delete ns key s) = ms_runs s"
  "ms_resume_reservations (snd (items_search json q now s)) = ms_resume_reservations s"
  "ms_threads (snd (items_search json q now s)) = ms_threads s"
  "ms_runs (snd (items_search json q now s)) = ms_runs s"
  "ms_resume_reservations (snd (items_sweep_expired now s)) = ms_resume_reservations s"
  "ms_threads (snd (items_sweep_expired now s)) = ms_threads s"
  "ms_runs (snd (items_sweep_expired now s)) = ms_runs s"
  by (auto simp: item_get_def item_put_with_options_def item_delete_def items_search_def items_sweep_expired_def
      Let_def refresh_each_frame sweep_items_frame maybe_refresh_def set_expiry_def split: option.split)

lemma idempotency_step_frame:
  "ms_resume_reservations (idempotency_step oper s) = ms_resume_reservations s"
  "ms_threads (idempotency_step oper s) = ms_threads s"
  "ms_runs (idempotency_step oper s) = ms_runs s"
  by (cases oper;
      auto simp: idempotency_claim_op_def idempotency_record_op_def idempotency_release_def
        idempotency_remove_where_def idempotency_delete_by_thread_def idempotency_delete_by_run_def
        idempotency_sweep_expired_def Let_def split: option.split)+

lemmas step_reservations =
  settle_frame(5) create_run_frame(2) guarded_create_reservations run_write_reservations
  thread_write_reservations delivery_step_frame assistant_step_frame cron_step_frame
  item_ops_frame idempotency_step_frame

lemma store_step_consumed:
  "store_step s s' \<Longrightarrow> store_inv s \<Longrightarrow> consumed_by e i s \<Longrightarrow> e \<in> fst ` set (ms_runs s') \<Longrightarrow>
     i \<in> fst ` set (ms_runs s') \<Longrightarrow> consumed_by e i s'"
proof (induction rule: store_step.induct)
  case (admission oper s)
  then show ?case by (intro admission_step_keeps(1))
next
  case (run_delete i s)
  then show ?case by (intro run_delete_consumed)
next
  case (thread_delete i s)
  then show ?case by (intro thread_delete_consumed)
qed (rule same_reservations_consumed, simp_all only: step_reservations)+

lemma keeping_consumed_aux:
  "keeping {e, i} s s' \<Longrightarrow> store_inv s \<Longrightarrow> consumed_by e i s \<Longrightarrow> store_inv s' \<and> consumed_by e i s'"
proof (induction rule: keeping.induct)
  case (moves s s' s'')
  have inv: "store_inv s'" and held: "consumed_by e i s'" using moves.IH moves.prems by simp_all
  have "e \<in> fst ` set (ms_runs s'')" "i \<in> fst ` set (ms_runs s'')" using moves.hyps(3) by simp_all
  from store_step_consumed [OF moves.hyps(2) inv held this] store_step_inv [OF moves.hyps(2) inv]
  show ?case by simp
qed simp

lemma keeping_consumed:
  "keeping {e, i} s s' \<Longrightarrow> consumed_by e i s \<Longrightarrow> store_inv s \<Longrightarrow> consumed_by e i s'"
  by (simp add: keeping_consumed_aux)

section \<open>Properties\<close>

text \<open>
  C19. Every store a server can be in is well formed: from the constructor, after any sequence of
  operations of any repository, every map has one row per key, rows sit under their own ids, and
  nothing kept beside a run, thread, cron or item outlives the row it belongs to.
\<close>

theorem store_reachable_wellformed: "store_reachable s \<Longrightarrow> store_inv s"
  by (induction rule: store_reachable.induct) (auto intro: new_memory_store_inv store_step_inv)

text \<open>
  C18. A thread has at most one active run. From the constructor, as long as runs are created under
  the idle guard or by admissions that require an idle thread or displace what is active, and no step
  turns a run that is over active again, no thread ever has two runs that are pending or running,
  whatever else happens to the store. The second condition is the caller's to keep: the store refuses
  such a write for admitted runs only.
\<close>

theorem thread_single_active:
  assumes "exclusive_history ss" and "\<forall>(s, s') \<in> set (zip ss (tl ss)). \<not> revives s s'"
  shows "length (list_active_runs (Some t) (last ss)) \<le> 1"
  using active_runs_at_most_one [of "last ss" t] exclusive_history_single_active [OF assms]
  by (simp add: list_active_runs_def active_runs_on_def is_active_on_def [abs_def] unconstrained_def
      page_def min.coboundedI1)

text \<open>
  C2. An interrupted run is resumed once. After an admission that names it as the run to resume was
  accepted, whatever operations of any repository the running server performs while the interrupted
  run and the run that resumes it both exist, every later admission naming it is refused or is a
  replay of an earlier receipt, and changes nothing. (Deleting either run gives the reservation up,
  and a server that starts from a snapshot has none.)
\<close>

theorem resume_consumed_once:
  assumes "store_inv s"
    and "admit_run input fresh now s = (Inr receipt, s1)" and "replay_admission input s = Inr None"
    and "fresh 0 \<notin> fst ` set (ms_runs s)" and "rc_run_id (ra_run input) \<noteq> Some []"
    and "fresh 0 \<noteq> []" and "truthy_id (ra_expected_run_id input) = Some e"
    and "keeping {e, ar_run_id receipt} s1 s2"
    and "truthy_id (ra_expected_run_id later) = Some e"
    and "admit_run later fresh' now' s2 = (res, s3)"
  shows "s3 = s2 \<and>
         ((\<exists>err. res = Inl err) \<or> (\<exists>old. replay_admission later s2 = Inr (Some old) \<and> res = Inr old))"
proof (rule consumed_refuses [OF _ assms(9,10)])
  have "store_inv s1"
    using admit_run_store_inv [OF assms(1), of fresh input now] assms(2,4,5) by simp
  with assms(8) admitted_consumes [OF assms(2-7)] show "consumed_by e (ar_run_id receipt) s2"
    by (intro keeping_consumed [of e "ar_run_id receipt" s1 s2])
qed

section \<open>Witnesses\<close>

definition idle_store :: mem_store where
  "idle_store = snd (thread_create_op \<lparr>tc_thread_id = Some ''t1'', tc_metadata = None, tc_status = None,
     tc_ttl = Undefined, tc_ttl_strategy = None\<rparr> ''u'' 4 empty_store)"

definition busy_store :: mem_store where
  "busy_store = snd (create_if_thread_idle sample_create ''r1'' 5 idle_store)"

lemma idle_store_steps:
  "store_step empty_store idle_store" "ms_runs idle_store = ms_runs empty_store"
proof -
  show "store_step empty_store idle_store" unfolding idle_store_def by (rule store_step.thread_create)
  show "ms_runs idle_store = ms_runs empty_store" by code_simp
qed

theorem store_reachable_wellformed_witness:
  "store_inv busy_store \<and> run_get ''r1'' busy_store \<noteq> None"
proof
  have "store_reachable idle_store"
    by (rule store_reachable.operated [OF store_reachable.constructed [OF empty_store_new] idle_store_steps(1)])
  then have "store_reachable busy_store"
    unfolding busy_store_def by (rule store_reachable.operated [OF _ store_step.create_if_idle])
  then show "store_inv busy_store" by (rule store_reachable_wellformed)
  show "run_get ''r1'' busy_store \<noteq> None" by code_simp
qed

lemma busy_store_history: "exclusive_history [empty_store, idle_store, busy_store]"
  using empty_store_new exclusive_step.elsewhere [OF idle_store_steps]
    exclusive_step.idle_create [of idle_store sample_create "''r1''" 5]
  by (auto simp: exclusive_history_def busy_store_def)

theorem thread_single_active_witness:
  "fst (create_if_thread_idle sample_create ''r2'' 6 busy_store) = Inr None \<and>
   length (list_active_runs (Some ''t1'') busy_store) \<le> 1 \<and> list_active_runs (Some ''t1'') busy_store \<noteq> []"
proof (intro conjI)
  have "ms_runs empty_store = []" "ms_runs idle_store = []" by code_simp+
  then have "\<forall>(s, s') \<in> set (zip [empty_store, idle_store, busy_store] (tl [empty_store, idle_store, busy_store])).
      \<not> revives s s'"
    by (simp add: revives_def)
  from thread_single_active [OF busy_store_history this, of "''t1''"]
  show "length (list_active_runs (Some ''t1'') busy_store) \<le> 1" by simp
  show "fst (create_if_thread_idle sample_create ''r2'' 6 busy_store) = Inr None" by code_simp
  show "list_active_runs (Some ''t1'') busy_store \<noteq> []" by code_simp
qed

text \<open>
  The second condition cannot be dropped. Two runs one after the other under the idle guard, the first
  one settled before the second is made: writing \<^verbatim>\<open>running\<close> over the first, as the
  engine does after its awaits, leaves the thread with two active runs.
\<close>

definition settled_store :: mem_store where
  "settled_store = snd (settle ''r1'' \<lparr>se_status = Success, se_error = None, se_result = None, se_delivery = None\<rparr> ''d'' 6 busy_store)"

definition second_store :: mem_store where
  "second_store = snd (create_if_thread_idle sample_create ''r2'' 7 settled_store)"

lemma revived_run_breaks_exclusion:
  "exclusive_history [empty_store, idle_store, busy_store, settled_store, second_store,
     snd (set_status ''r1'' Running None 8 second_store)]"
  "length (list_active_runs (Some ''t1'') (snd (set_status ''r1'' Running None 8 second_store))) = 2"
proof -
  have "exclusive_step busy_store settled_store"
    unfolding settled_store_def by (rule exclusive_step.settled) simp
  moreover have "exclusive_step settled_store second_store"
    unfolding second_store_def by (rule exclusive_step.idle_create)
  ultimately show "exclusive_history [empty_store, idle_store, busy_store, settled_store, second_store,
      snd (set_status ''r1'' Running None 8 second_store)]"
    using busy_store_history exclusive_step.status_written [of second_store "''r1''" Running None 8]
    by (simp add: exclusive_history_def)
  show "length (list_active_runs (Some ''t1'') (snd (set_status ''r1'' Running None 8 second_store))) = 2"
    by code_simp
qed

definition resumed_store :: mem_store where
  "resumed_store = snd (admit_run sample_admission sample_fresh 10 sample_store)"

definition resumed_settled :: mem_store where
  "resumed_settled = snd (settle ''r2'' \<lparr>se_status = Success, se_error = None, se_result = None,
     se_delivery = None\<rparr> ''d'' 40 resumed_store)"

theorem resume_consumed_once_witness:
  "\<exists>res. run_get ''r2'' resumed_settled \<noteq> None \<and>
     admit_run (sample_admission\<lparr>ak_key := ''k2''\<rparr>) sample_fresh 50 resumed_settled = (res, resumed_settled)"
proof -
  obtain res s3 where run:
    "admit_run (sample_admission\<lparr>ak_key := ''k2''\<rparr>) sample_fresh 50 resumed_settled = (res, s3)"
    by fastforce
  have admitted: "admit_run sample_admission sample_fresh 10 sample_store =
      (Inr (receipt_of ''k'' ''r2'' ''t1''), resumed_store)"
    using sample_admitted by (simp add: resumed_store_def)
  have there: "run_get ''r2'' resumed_settled \<noteq> None" "run_get ''r0'' resumed_settled \<noteq> None" by code_simp+
  have id: "ar_run_id (receipt_of ''k'' ''r2'' ''t1'') = ''r2''" by (simp add: receipt_of_def)
  have "store_step resumed_store resumed_settled"
    unfolding resumed_settled_def by (rule store_step.settle)
  moreover have "{''r0'', ''r2''} \<subseteq> fst ` set (ms_runs resumed_settled)"
    using there by (auto simp: run_get_def dest!: get_in_keys)
  ultimately have path: "keeping {''r0'', ar_run_id (receipt_of ''k'' ''r2'' ''t1'')} resumed_store resumed_settled"
    unfolding id by (rule keeping.moves [OF keeping.stays])
  have inv: "store_inv sample_store"
    by (simp add: sample_simps store_inv_def inv_defs keyed_by_def beside_def)
  have wants: "truthy_id (ra_expected_run_id sample_admission) = Some ''r0''"
    "truthy_id (ra_expected_run_id (sample_admission\<lparr>ak_key := ''k2''\<rparr>)) = Some ''r0''"
    by (simp_all add: sample_admission_def truthy_id_def)
  from resume_consumed_once [OF inv admitted sample_replay sample_new(1-3) wants(1) path wants(2) run]
  have "s3 = resumed_settled" by simp
  with run there(1) show ?thesis by (intro exI [of _ res]) simp
qed

end
