(* ===== verification/SseStream.thy ===== *)
theory SseStream
  imports RunEventBus DeliveryAttempts JsonText
begin

text \<open>
  Run frames as Server-Sent Events: \<^verbatim>\<open>sse/sse.ts\<close>. A frame becomes one block of the event stream,
  an idle gap a comment, and the end of the run a synthesized terminal event. The reader of the
  stream is the parser of the event-stream format itself: what a client decodes is exactly the frames.

  \<^verbatim>\<open>JSON.stringify\<close> of a value is the parameter \<open>json\<close>; that its text has no line break is what the
  format of JSON promises and what the framing relies on. The weak cache of encoded frames is not
  modelled: a cached block is the block.
\<close>

section \<open>Encoding\<close>

definition line_break :: "char \<Rightarrow> bool" where
  "line_break c \<longleftrightarrow> c = CHR 0x0D \<or> c = CHR 0x0A"

fun join_with :: "string \<Rightarrow> string list \<Rightarrow> string" where
  "join_with sep [] = []"
| "join_with sep [x] = x"
| "join_with sep (x # y # ys) = x @ sep @ join_with sep (y # ys)"

definition frame_event_name :: "run_frame \<Rightarrow> string" where
  "frame_event_name f =
     filter (\<lambda>c. \<not> line_break c)
       (case fr_namespace f of
          None \<Rightarrow> fr_event f
        | Some [] \<Rightarrow> fr_event f
        | Some ns \<Rightarrow> fr_event f @ ''|'' @ join_with ''|'' ns)"

text \<open>\<^verbatim>\<open>serializeWireJson\<close> inside a template: what is left out reads \<^verbatim>\<open>undefined\<close>, a throw is \<open>None\<close>.\<close>

definition wire_text :: "(jsval \<Rightarrow> string) \<Rightarrow> jsval \<Rightarrow> string option" where
  "wire_text json v =
     (case wire_value v of Written w \<Rightarrow> Some (json w) | Omitted \<Rightarrow> Some ''undefined'' | Throws \<Rightarrow> None)"

definition encode_frame :: "(jsval \<Rightarrow> string) \<Rightarrow> run_frame \<Rightarrow> string option" where
  "encode_frame json f =
     map_option (\<lambda>text. ''id: '' @ decimal (fr_seq f) @ [CHR 0x0A] @
                        ''event: '' @ frame_event_name f @ [CHR 0x0A] @
                        ''data: '' @ text @ [CHR 0x0A, CHR 0x0A])
       (wire_text json (fr_data f))"

definition terminal_name :: "run_status \<Rightarrow> string" where
  "terminal_name status = (if status = Errored \<or> status = TimedOut then ''error'' else ''end'')"

definition terminal_data :: "run_status \<Rightarrow> string" where
  "terminal_data status =
     CHR ''{'' # json_quote ''status'' @ '':'' @ json_quote (run_status_text status) @ ''}''"

definition encode_terminal :: "run_status \<Rightarrow> string" where
  "encode_terminal status =
     ''event: '' @ terminal_name status @ [CHR 0x0A] @ ''data: '' @ terminal_data status @ [CHR 0x0A, CHR 0x0A]"

definition SSE_HEARTBEAT :: string where
  "SSE_HEARTBEAT = '': heartbeat'' @ [CHR 0x0A, CHR 0x0A]"

definition DEFAULT_SSE_HEARTBEAT_MS :: int where "DEFAULT_SSE_HEARTBEAT_MS = 15000"

section \<open>The stream\<close>

text \<open>
  What the frame iterator does: after some number of heartbeat intervals a frame, or at last its end.
  \<open>with_idle_ticks\<close> re-yields it with a tick for each interval that passed.
\<close>

datatype sse_item = IdleTick | SseFrame run_frame

fun with_idle_ticks :: "(nat \<times> run_frame) list \<Rightarrow> nat \<Rightarrow> sse_item list" where
  "with_idle_ticks [] idle = replicate idle IdleTick"
| "with_idle_ticks ((n, f) # rest) idle = replicate n IdleTick @ SseFrame f # with_idle_ticks rest idle"

text \<open>The loop: the blocks written, whether an error frame was among them, and whether it threw.\<close>

fun sse_blocks :: "(jsval \<Rightarrow> string) \<Rightarrow> bool \<Rightarrow> sse_item list \<Rightarrow> string list \<times> bool \<times> bool" where
  "sse_blocks json saw [] = ([], saw, False)"
| "sse_blocks json saw (IdleTick # rest) =
     (let (out, saw', threw) = sse_blocks json saw rest in (SSE_HEARTBEAT # out, saw', threw))"
| "sse_blocks json saw (SseFrame f # rest) =
     (let saw1 = (saw \<or> fr_event f = ''error'') in
      case encode_frame json f of
        None \<Rightarrow> ([], saw1, True)
      | Some block \<Rightarrow>
          (let (out, saw', threw) = sse_blocks json saw1 rest in (block # out, saw', threw)))"

definition to_sse_events ::
  "(jsval \<Rightarrow> string) \<Rightarrow> int option \<Rightarrow> (nat \<times> run_frame) list \<Rightarrow> nat \<Rightarrow> run_status option \<Rightarrow> string list \<times> bool" where
  "to_sse_events json heartbeat_ms source idle final_status =
     (let items = (if 0 < or_default heartbeat_ms DEFAULT_SSE_HEARTBEAT_MS
                   then with_idle_ticks source idle else map (SseFrame \<circ> snd) source);
          (out, saw, threw) = sse_blocks json False items;
          terminal = or_default final_status Success
      in if threw then (out, True)
         else if (terminal = Errored \<or> terminal = TimedOut) \<and> saw then (out, False)
         else (out @ [encode_terminal terminal], False))"

section \<open>Resuming\<close>

text \<open>\<^verbatim>\<open>Number.parseInt(s, 10)\<close> on the non-negative side: white space, a sign, then the leading digits.\<close>

definition js_digit :: "char \<Rightarrow> bool" where
  "js_digit c \<longleftrightarrow> 48 \<le> (of_char c :: nat) \<and> (of_char c :: nat) \<le> 57"

definition digits_value :: "string \<Rightarrow> nat" where
  "digits_value s = foldl (\<lambda>n c. 10 * n + (of_char c - 48)) 0 s"

definition parse_after_seq :: "string option \<Rightarrow> nat" where
  "parse_after_seq last_event_id =
     (case last_event_id of
        None \<Rightarrow> 0
      | Some s \<Rightarrow>
          (case dropWhile js_space s of
             [] \<Rightarrow> 0
           | c # cs \<Rightarrow>
               if c = CHR ''-'' then 0
               else digits_value (takeWhile js_digit (if c = CHR ''+'' then cs else c # cs))))"

section \<open>Reading an event stream\<close>

text \<open>
  The client: lines end at a line feed, a carriage return or both; a field is what stands before the
  first colon, its value what stands after it less one space; an empty line dispatches the event, a
  line that starts with a colon is a comment, and what the stream leaves unfinished is dropped.
\<close>

definition skip_feed :: "string \<Rightarrow> string" where
  "skip_feed s = (case s of c # cs \<Rightarrow> if c = CHR 0x0A then cs else s | [] \<Rightarrow> [])"

lemma skip_feed_length [termination_simp]: "length (skip_feed s) \<le> length s"
  by (simp add: skip_feed_def split: list.split)

function sse_lines :: "string \<Rightarrow> string \<Rightarrow> string list" where
  "sse_lines acc [] = []"
| "sse_lines acc (c # cs) =
     (if c = CHR 0x0A then rev acc # sse_lines [] cs
      else if c = CHR 0x0D then rev acc # sse_lines [] (skip_feed cs)
      else sse_lines (c # acc) cs)"
  by pat_completeness auto
termination by (relation "measure (length \<circ> snd)") (auto simp: less_Suc_eq_le skip_feed_length)

record sse_event =
  sv_id :: string
  sv_event :: string
  sv_data :: string

record sse_reader =
  sd_id :: string
  sd_event :: string
  sd_data :: string

definition fresh_reader :: sse_reader where
  "fresh_reader = \<lparr>sd_id = [], sd_event = [], sd_data = []\<rparr>"

definition read_field :: "string \<Rightarrow> string \<Rightarrow> sse_reader \<Rightarrow> sse_reader" where
  "read_field field val r =
     (if field = ''event'' then r\<lparr>sd_event := val\<rparr>
      else if field = ''data'' then r\<lparr>sd_data := sd_data r @ val @ [CHR 0x0A]\<rparr>
      else if field = ''id'' \<and> CHR 0x00 \<notin> set val then r\<lparr>sd_id := val\<rparr>
      else r)"

definition field_value :: "string \<Rightarrow> string" where
  "field_value s = (case s of c # cs \<Rightarrow> if c = CHR '' '' then cs else s | [] \<Rightarrow> [])"

definition read_line :: "string \<Rightarrow> sse_reader \<Rightarrow> sse_event list \<times> sse_reader" where
  "read_line line r =
     (if line = [] then
        (if sd_data r = [] then [] else [\<lparr>sv_id = sd_id r, sv_event = sd_event r, sv_data = butlast (sd_data r)\<rparr>],
         r\<lparr>sd_event := [], sd_data := []\<rparr>)
      else if hd line = CHR '':'' then ([], r)
      else if CHR '':'' \<in> set line
      then ([], read_field (takeWhile (\<lambda>c. c \<noteq> CHR '':'') line)
                  (field_value (drop 1 (dropWhile (\<lambda>c. c \<noteq> CHR '':'') line))) r)
      else ([], read_field line [] r))"

fun read_lines :: "string list \<Rightarrow> sse_reader \<Rightarrow> sse_event list" where
  "read_lines [] r = []"
| "read_lines (line # lines) r =
     (let (events, r') = read_line line r in events @ read_lines lines r')"

definition sse_decode :: "string \<Rightarrow> sse_event list" where
  "sse_decode s = read_lines (sse_lines [] s) fresh_reader"

section \<open>Lines\<close>

lemma sse_lines_take:
  assumes "\<forall>c \<in> set line. \<not> line_break c"
  shows "sse_lines acc (line @ CHR 0x0A # rest) = (rev acc @ line) # sse_lines [] rest"
  using assms by (induction line arbitrary: acc) (auto simp: line_break_def)

lemma decimal_digits: "c \<in> set (decimal n) \<Longrightarrow> js_digit c"
proof (induction n rule: decimal.induct)
  case (1 n)
  have digit: "js_digit (char_of (48 + m))" if "m < 10" for m :: nat
    using that by (simp add: js_digit_def)
  have "decimal n = (if n < 10 then [char_of (48 + n)] else decimal (n div 10) @ [char_of (48 + n mod 10)])"
    by (rule decimal.simps)
  with 1 digit show ?case by (auto split: if_splits)
qed

lemma decimal_nonempty: "decimal n \<noteq> []"
  by (subst decimal.simps) simp

lemma js_digit_plain: "js_digit c \<Longrightarrow> \<not> line_break c \<and> c \<noteq> CHR 0x00 \<and> \<not> js_space c \<and> c \<noteq> CHR ''-'' \<and> c \<noteq> CHR ''+''"
  by (auto simp: js_digit_def line_break_def js_space_def)

lemma terminal_plain:
  "c \<in> set (terminal_name status) \<Longrightarrow> \<not> line_break c"
  "c \<in> set (terminal_data status) \<Longrightarrow> \<not> line_break c"
proof -
  have "list_all (\<lambda>c. \<not> line_break c) (terminal_data status)" by (cases status; simp only:; code_simp)
  then show "c \<in> set (terminal_data status) \<Longrightarrow> \<not> line_break c" by (auto simp: list_all_iff)
  have "list_all (\<lambda>c. \<not> line_break c) (terminal_name status)" by (cases status; simp only:; code_simp)
  then show "c \<in> set (terminal_name status) \<Longrightarrow> \<not> line_break c" by (auto simp: list_all_iff)
qed

section \<open>Blocks\<close>

text \<open>One field line that holds no line break, at the front of what is still to be read.\<close>

lemma read_field_line:
  assumes "\<forall>c \<in> set val. \<not> line_break c" and "field \<in> {''id'', ''event'', ''data''}"
  shows "read_lines (sse_lines [] (field @ '': '' @ val @ CHR 0x0A # rest)) r =
           read_lines (sse_lines [] rest) (read_field field val r)"
proof -
  have field: "\<forall>c \<in> set field. c \<noteq> CHR '':'' \<and> \<not> line_break c" "field \<noteq> []"
    using assms(2) by (elim insertE emptyE; simp add: line_break_def)+
  have "\<not> line_break CHR '':''" "\<not> line_break CHR '' ''" by (simp_all add: line_break_def)
  with field(1) assms(1) have "\<forall>c \<in> set (field @ '': '' @ val). \<not> line_break c" by (simp add: ball_Un)
  from sse_lines_take [OF this, of "[]" rest]
  have lines: "sse_lines [] (field @ '': '' @ val @ CHR 0x0A # rest) = (field @ '': '' @ val) # sse_lines [] rest"
    by simp
  have "takeWhile (\<lambda>c. c \<noteq> CHR '':'') (field @ '': '' @ val) = field"
    "dropWhile (\<lambda>c. c \<noteq> CHR '':'') (field @ '': '' @ val) = '': '' @ val"
    using field(1) by (simp_all add: takeWhile_append2 dropWhile_append2)
  moreover have "hd (field @ '': '' @ val) \<noteq> CHR '':''"
    using field hd_in_set [OF field(2)] by simp
  moreover have "CHR '':'' \<in> set (field @ '': '' @ val)" by simp
  ultimately have "read_line (field @ '': '' @ val) r = ([], read_field field val r)"
    using field(2) by (simp add: read_line_def field_value_def)
  then show ?thesis by (simp only: lines read_lines.simps prod.case Let_def append_Nil)
qed

lemma read_blank_line:
  "read_lines (sse_lines [] (CHR 0x0A # rest)) r =
     (if sd_data r = [] then [] else [\<lparr>sv_id = sd_id r, sv_event = sd_event r, sv_data = butlast (sd_data r)\<rparr>]) @
     read_lines (sse_lines [] rest) (r\<lparr>sd_event := [], sd_data := []\<rparr>)"
  by (simp add: read_line_def)

text \<open>The reader between two blocks: nothing collected, the last id kept.\<close>

definition idle_reader :: "string \<Rightarrow> sse_reader" where
  "idle_reader i = \<lparr>sd_id = i, sd_event = [], sd_data = []\<rparr>"

definition frame_block :: "nat \<Rightarrow> string \<Rightarrow> string \<Rightarrow> string" where
  "frame_block seq name text =
     ''id: '' @ decimal seq @ [CHR 0x0A] @ ''event: '' @ name @ [CHR 0x0A] @
     ''data: '' @ text @ [CHR 0x0A, CHR 0x0A]"

lemma read_frame_block:
  assumes "\<forall>c \<in> set name. \<not> line_break c" "\<forall>c \<in> set text. \<not> line_break c"
  shows "read_lines (sse_lines [] (frame_block seq name text @ rest)) (idle_reader i) =
           \<lparr>sv_id = decimal seq, sv_event = name, sv_data = text\<rparr> #
           read_lines (sse_lines [] rest) (idle_reader (decimal seq))"
proof -
  have dec: "\<forall>c \<in> set (decimal seq). \<not> line_break c" "CHR 0x00 \<notin> set (decimal seq)"
    using decimal_digits js_digit_plain by blast+
  show ?thesis
    using read_field_line [OF dec(1), of "''id''"] read_field_line [OF assms(1), of "''event''"]
      read_field_line [OF assms(2), of "''data''"] read_blank_line dec(2)
    by (simp add: frame_block_def idle_reader_def read_field_def del: sse_lines.simps)
qed

lemma read_terminal_block:
  "read_lines (sse_lines [] (encode_terminal status @ rest)) (idle_reader i) =
     \<lparr>sv_id = i, sv_event = terminal_name status, sv_data = terminal_data status\<rparr> #
     read_lines (sse_lines [] rest) (idle_reader i)"
proof -
  have plain: "\<forall>c \<in> set (terminal_name status). \<not> line_break c" "\<forall>c \<in> set (terminal_data status). \<not> line_break c"
    using terminal_plain by blast+
  show ?thesis
    using read_field_line [OF plain(1), of "''event''"] read_field_line [OF plain(2), of "''data''"] read_blank_line
    by (simp add: encode_terminal_def idle_reader_def read_field_def del: sse_lines.simps)
qed

lemma read_heartbeat:
  "read_lines (sse_lines [] (SSE_HEARTBEAT @ rest)) (idle_reader i) = read_lines (sse_lines [] rest) (idle_reader i)"
proof -
  have "\<forall>c \<in> set '': heartbeat''. \<not> line_break c" by (simp add: line_break_def)
  from sse_lines_take [OF this, of "[]" "CHR 0x0A # rest"]
  have "sse_lines [] (SSE_HEARTBEAT @ rest) = '': heartbeat'' # sse_lines [] (CHR 0x0A # rest)"
    by (simp add: SSE_HEARTBEAT_def del: sse_lines.simps)
  then show ?thesis by (simp add: read_line_def idle_reader_def)
qed

section \<open>The whole stream\<close>

definition frame_text :: "(jsval \<Rightarrow> string) \<Rightarrow> run_frame \<Rightarrow> string" where
  "frame_text json f = or_default (wire_text json (fr_data f)) []"

text \<open>What a client should see of one frame, and of the frames up to the first that cannot be written.\<close>

definition decoded :: "(jsval \<Rightarrow> string) \<Rightarrow> run_frame \<Rightarrow> sse_event" where
  "decoded json f =
     \<lparr>sv_id = decimal (fr_seq f), sv_event = frame_event_name f, sv_data = frame_text json f\<rparr>"

definition writable :: "run_frame \<Rightarrow> bool" where
  "writable f \<longleftrightarrow> wire_value (fr_data f) \<noteq> Throws"

definition last_id :: "string \<Rightarrow> run_frame list \<Rightarrow> string" where
  "last_id i fs = (if fs = [] then i else decimal (fr_seq (last fs)))"

fun item_frames :: "sse_item list \<Rightarrow> run_frame list" where
  "item_frames [] = []"
| "item_frames (IdleTick # rest) = item_frames rest"
| "item_frames (SseFrame f # rest) = f # item_frames rest"

lemma encode_frame_writable:
  "writable f \<Longrightarrow> encode_frame json f = Some (frame_block (fr_seq f) (frame_event_name f) (frame_text json f))"
  "\<not> writable f \<Longrightarrow> encode_frame json f = None"
  by (cases "wire_value (fr_data f)";
      simp add: writable_def encode_frame_def wire_text_def frame_text_def frame_block_def)+

lemma frame_text_plain:
  assumes "\<forall>v. \<forall>c \<in> set (json v). \<not> line_break c"
  shows "\<forall>c \<in> set (frame_text json f). \<not> line_break c"
  using assms by (auto simp: frame_text_def wire_text_def line_break_def split: wire_result.split)

lemma sse_blocks_decode:
  assumes json: "\<forall>v. \<forall>c \<in> set (json v). \<not> line_break c"
    and blocks: "sse_blocks json saw items = (out, saw', threw)"
  shows "read_lines (sse_lines [] (concat out @ rest)) (idle_reader i) =
           map (decoded json) (takeWhile writable (item_frames items)) @
           read_lines (sse_lines [] rest) (idle_reader (last_id i (takeWhile writable (item_frames items)))) \<and>
         (threw \<longleftrightarrow> \<not> list_all writable (item_frames items)) \<and>
         (\<not> threw \<longrightarrow> (saw' \<longleftrightarrow> saw \<or> (\<exists>f \<in> set (item_frames items). fr_event f = ''error'')))"
  using json blocks
proof (induction json saw items arbitrary: out saw' threw i rule: sse_blocks.induct)
  case (1 json saw)
  then show ?case by (simp add: last_id_def)
next
  case (2 json saw items)
  then obtain out1 where blocks: "sse_blocks json saw items = (out1, saw', threw)" "out = SSE_HEARTBEAT # out1"
    by (auto split: prod.splits)
  from 2(1) [OF 2(2) blocks(1)] show ?case using read_heartbeat by (simp add: blocks(2))
next
  case (3 json saw f items)
  let ?saw = "saw \<or> fr_event f = ''error''"
  show ?case
  proof (cases "writable f")
    case False
    with 3(3) show ?thesis by (auto simp: encode_frame_writable last_id_def)
  next
    case True
    let ?block = "frame_block (fr_seq f) (frame_event_name f) (frame_text json f)"
    note enc = encode_frame_writable(1) [OF True, of json]
    from 3(3) enc obtain out1 where
      blocks: "sse_blocks json ?saw items = (out1, saw', threw)" "out = ?block # out1"
      by (auto simp: Let_def split: prod.splits)
    have "\<forall>c \<in> set (frame_event_name f). \<not> line_break c" by (simp add: frame_event_name_def)
    then have "read_lines (sse_lines [] (?block @ concat out1 @ rest)) (idle_reader i) =
        decoded json f # read_lines (sse_lines [] (concat out1 @ rest)) (idle_reader (decimal (fr_seq f)))"
      using read_frame_block frame_text_plain [OF 3(2)] by (simp add: decoded_def)
    moreover have "last_id (decimal (fr_seq f)) fs = last_id i (f # fs)" for fs
      by (simp add: last_id_def)
    ultimately show ?thesis
      using 3(1) [OF refl enc 3(2) blocks(1), where i = "decimal (fr_seq f)"] True blocks(2) by auto
  qed
qed

lemma item_frames_ticks: "item_frames (replicate n IdleTick @ items) = item_frames items"
  by (induction n) simp_all

lemma item_frames_source:
  "item_frames (with_idle_ticks source idle) = map snd source"
  "item_frames (map (SseFrame \<circ> snd) source) = map snd source"
proof -
  show "item_frames (with_idle_ticks source idle) = map snd source"
    by (induction source idle rule: with_idle_ticks.induct)
       (use item_frames_ticks [of _ "[]"] in \<open>simp_all add: item_frames_ticks\<close>)
  show "item_frames (map (SseFrame \<circ> snd) source) = map snd source"
    by (induction source) simp_all
qed

section \<open>Resuming from an event id\<close>

lemma digits_value_append: "digits_value (s @ [c]) = 10 * digits_value s + (of_char c - 48)"
  by (simp add: digits_value_def)

lemma digits_value_decimal: "digits_value (decimal n) = n"
proof (induction n rule: decimal.induct)
  case (1 n)
  have "decimal n = (if n < 10 then [char_of (48 + n)] else decimal (n div 10) @ [char_of (48 + n mod 10)])"
    by (rule decimal.simps)
  with 1 show ?case by (auto simp: digits_value_append) (simp add: digits_value_def)
qed

lemma parse_after_decimal: "parse_after_seq (Some (decimal n)) = n"
proof -
  obtain c cs where dec: "decimal n = c # cs" using decimal_nonempty by (cases "decimal n") auto
  have all: "\<forall>d \<in> set (decimal n). js_digit d" using decimal_digits by blast
  then have "js_digit c" by (simp add: dec)
  then have c: "\<not> js_space c" "c \<noteq> CHR ''-''" "c \<noteq> CHR ''+''" using js_digit_plain by blast+
  have "takeWhile js_digit (decimal n) = decimal n" using all by (simp add: takeWhile_eq_all_conv)
  with c dec digits_value_decimal [of n] show ?thesis by (simp add: parse_after_seq_def)
qed

section \<open>Properties\<close>

text \<open>
  C39. What a client reads off the event stream is exactly the run's frames: one event per frame, in
  order, with the frame's id, name and data, whatever strings a frame carries and however many
  heartbeats go between; then one terminal event with the run's status, unless an error frame already
  ended the stream. No content of a frame can forge another event. A frame that cannot be serialized
  ends the stream after the frames before it.
\<close>

theorem sse_stream_decodes:
  assumes json: "\<forall>v. \<forall>c \<in> set (json v). \<not> line_break c"
    and stream: "to_sse_events json heartbeat_ms source idle final_status = (out, threw)"
  shows "sse_decode (concat out) =
           map (decoded json) (takeWhile writable (map snd source)) @
           (if list_all writable (map snd source) \<and>
               \<not> (or_default final_status Success \<in> {Errored, TimedOut} \<and>
                  (\<exists>f \<in> set (map snd source). fr_event f = ''error''))
            then [\<lparr>sv_id = last_id [] (map snd source),
                   sv_event = terminal_name (or_default final_status Success),
                   sv_data = terminal_data (or_default final_status Success)\<rparr>]
            else []) \<and>
         (threw \<longleftrightarrow> \<not> list_all writable (map snd source)) \<and>
         (\<forall>f. parse_after_seq (Some (sv_id (decoded json f))) = fr_seq f)"
proof -
  let ?fs = "map snd source" and ?st = "or_default final_status Success"
  define items where "items = (if 0 < or_default heartbeat_ms DEFAULT_SSE_HEARTBEAT_MS
    then with_idle_ticks source idle else map (SseFrame \<circ> snd) source)"
  have items: "item_frames items = ?fs" by (simp add: items_def item_frames_source)
  obtain blocks saw threw' where run: "sse_blocks json False items = (blocks, saw, threw')"
    by (metis prod_cases3)
  note facts = sse_blocks_decode [OF json run, unfolded items]
  have out: "out = (if threw' \<or> (?st \<in> {Errored, TimedOut} \<and> saw) then blocks else blocks @ [encode_terminal ?st])"
    "threw = threw'"
    using stream run by (auto simp: to_sse_events_def items_def [symmetric] Let_def split: if_splits)
  have ends: "threw \<longleftrightarrow> \<not> list_all writable ?fs" using facts out(2) by blast
  have resumes: "\<forall>f. parse_after_seq (Some (sv_id (decoded json f))) = fr_seq f"
    by (simp add: decoded_def parse_after_decimal)
  have start: "sse_decode s = read_lines (sse_lines [] s) (idle_reader [])" for s
    by (simp add: sse_decode_def fresh_reader_def idle_reader_def)
  have all: "takeWhile writable ?fs = ?fs" if "list_all writable ?fs"
    using that by (simp add: takeWhile_eq_all_conv list_all_iff)
  have tail: "read_lines (sse_lines [] (encode_terminal ?st)) (idle_reader i) =
      [\<lparr>sv_id = i, sv_event = terminal_name ?st, sv_data = terminal_data ?st\<rparr>]" for i
    using read_terminal_block [of ?st "[]" i] by simp
  have "sse_decode (concat out) =
           map (decoded json) (takeWhile writable ?fs) @
           (if list_all writable ?fs \<and> \<not> (?st \<in> {Errored, TimedOut} \<and> (\<exists>f \<in> set ?fs. fr_event f = ''error''))
            then [\<lparr>sv_id = last_id [] ?fs, sv_event = terminal_name ?st, sv_data = terminal_data ?st\<rparr>] else [])"
  proof (cases "threw' \<or> (?st \<in> {Errored, TimedOut} \<and> saw)")
    case True
    with out(1) have "concat out = concat blocks @ []" by simp
    with facts [where i = "[]" and rest = "[]"] True show ?thesis unfolding start by auto
  next
    case False
    then have "out = blocks @ [encode_terminal ?st]" using out(1) by auto
    then have joined: "concat out = concat blocks @ encode_terminal ?st" by simp
    have ok: "list_all writable ?fs"
      "\<not> (?st \<in> {Errored, TimedOut} \<and> (\<exists>f \<in> set ?fs. fr_event f = ''error''))"
      using facts False by blast+
    have "sse_decode (concat out) = map (decoded json) ?fs @
        [\<lparr>sv_id = last_id [] ?fs, sv_event = terminal_name ?st, sv_data = terminal_data ?st\<rparr>]"
      using facts [where i = "[]" and rest = "encode_terminal ?st"]
      unfolding start joined all [OF ok(1)] tail by (rule conjunct1)
    then show ?thesis unfolding all [OF ok(1)] using ok by (simp only: simp_thms if_True)
  qed
  with ends resumes show ?thesis by blast
qed

section \<open>Witness\<close>

text \<open>A frame whose namespace tries to forge a terminal event.\<close>

definition forging_frame :: run_frame where
  "forging_frame = \<lparr>fr_seq = 12, fr_event = ''updates'',
     fr_namespace = Some [''a'' @ [CHR 0x0A] @ ''event: end'' @ [CHR 0x0A]], fr_data = JNull\<rparr>"

definition null_json :: "jsval \<Rightarrow> string" where
  "null_json v = ''null''"

theorem sse_stream_decodes_witness:
  "sse_decode (concat (fst (to_sse_events null_json None [(2, forging_frame)] 1 (Some Success)))) =
     [\<lparr>sv_id = ''12'', sv_event = ''updates|aevent: end'', sv_data = ''null''\<rparr>,
      \<lparr>sv_id = ''12'', sv_event = ''end'', sv_data = terminal_data Success\<rparr>]"
proof -
  let ?run = "to_sse_events null_json None [(2, forging_frame)] 1 (Some Success)"
  have json: "\<forall>v. \<forall>c \<in> set (null_json v). \<not> line_break c" by (simp add: null_json_def line_break_def)
  have "?run = (fst ?run, snd ?run)" by simp
  note facts = sse_stream_decodes [OF json this, THEN conjunct1]
  have "list_all writable [forging_frame]" "takeWhile writable [forging_frame] = [forging_frame]"
    by code_simp+
  moreover have "decoded null_json forging_frame =
      \<lparr>sv_id = ''12'', sv_event = ''updates|aevent: end'', sv_data = ''null''\<rparr>"
    by code_simp
  moreover have "last_id [] [forging_frame] = ''12''" "terminal_name Success = ''end''" by code_simp+
  ultimately show ?thesis using facts by simp
qed

end
