(* ===== verification/DeliverySignature.thy ===== *)
theory DeliverySignature
  imports SseStream
begin

text \<open>
  The receiver's half of a signed callback: \<^verbatim>\<open>crypto/verify-delivery.ts\<close>, against the sender's half
  of \<^verbatim>\<open>crypto/sign-delivery.ts\<close>. HMAC-SHA256 in hexadecimal and the decimal rendering of a number are
  fields of the \<open>rendering\<close>; \<^verbatim>\<open>Number\<close> of a text that is not all digits (a fraction, an exponent,
  hexadecimal) is the parameter \<open>other\<close>. Timestamps are whole seconds.
\<close>

section \<open>Text\<close>

fun split_on :: "char \<Rightarrow> string \<Rightarrow> string list" where
  "split_on sep [] = [[]]"
| "split_on sep (c # cs) =
     (if c = sep then [] # split_on sep cs
      else (case split_on sep cs of [] \<Rightarrow> [[c]] | p # ps \<Rightarrow> (c # p) # ps))"

definition trim_text :: "string \<Rightarrow> string" where
  "trim_text s = rev (dropWhile js_space (rev (dropWhile js_space s)))"

definition js_number :: "(string \<Rightarrow> int option) \<Rightarrow> string \<Rightarrow> int option" where
  "js_number other s =
     (if s \<noteq> [] \<and> list_all js_digit s then Some (int (digits_value s)) else other s)"

section \<open>Verification\<close>

datatype signature_failure = Missing | Malformed | Stale | Mismatch

datatype verify_result = Accepted | Refused signature_failure

definition DEFAULT_TOLERANCE_SECONDS :: int where "DEFAULT_TOLERANCE_SECONDS = 300"

text \<open>The loop of \<^verbatim>\<open>parseHeader\<close>: the last usable \<^verbatim>\<open>t\<close> and the last \<^verbatim>\<open>v1\<close>.\<close>

fun header_fields ::
  "(string \<Rightarrow> int option) \<Rightarrow> string list \<Rightarrow> int option \<Rightarrow> string option \<Rightarrow> int option \<times> string option" where
  "header_fields other [] t v1 = (t, v1)"
| "header_fields other (part # parts) t v1 =
     (case split_on CHR ''='' (trim_text part) of
        key # val # _ \<Rightarrow>
          if val = [] then header_fields other parts t v1
          else header_fields other parts
                 (if key = ''t'' then (case js_number other val of Some n \<Rightarrow> Some n | None \<Rightarrow> t) else t)
                 (if key = ''v1'' then Some val else v1)
      | _ \<Rightarrow> header_fields other parts t v1)"

definition parse_header :: "(string \<Rightarrow> int option) \<Rightarrow> string \<Rightarrow> (int \<times> string) option" where
  "parse_header other header =
     (case header_fields other (split_on CHR '','' header) None None of
        (Some t, Some v1) \<Rightarrow> Some (t, v1)
      | _ \<Rightarrow> None)"

definition verify_skein_signature ::
  "rendering \<Rightarrow> (string \<Rightarrow> int option) \<Rightarrow> string option \<Rightarrow> string \<Rightarrow> string list \<Rightarrow> int option \<Rightarrow> int \<Rightarrow> verify_result" where
  "verify_skein_signature rn other header body secrets tolerance now =
     (case header of
        None \<Rightarrow> Refused Missing
      | Some h \<Rightarrow>
          if h = [] then Refused Missing
          else (case parse_header other h of
                  None \<Rightarrow> Refused Malformed
                | Some (t, v1) \<Rightarrow>
                    if or_default tolerance DEFAULT_TOLERANCE_SECONDS < \<bar>now - t\<bar> then Refused Stale
                    else if list_ex (\<lambda>secret. rn_hmac_hex rn secret (rn_decimal rn t @ ''.'' @ body) = v1) secrets
                    then Accepted
                    else Refused Mismatch))"

section \<open>Reading a signed header\<close>

lemma split_on_none: "sep \<notin> set s \<Longrightarrow> split_on sep s = [s]"
  by (induction s) auto

lemma split_on_first: "sep \<notin> set s \<Longrightarrow> split_on sep (s @ sep # r) = s # split_on sep r"
  by (induction s) auto

lemma trim_text_id:
  assumes "s \<noteq> []" "\<not> js_space (hd s)" "\<not> js_space (last s)"
  shows "trim_text s = s"
proof -
  have "dropWhile js_space s = s" using assms by (cases s) auto
  moreover have "dropWhile js_space (rev s) = rev s"
    using assms by (cases s rule: rev_cases) auto
  ultimately show ?thesis by (simp add: trim_text_def)
qed

text \<open>What the digest of a signature looks like: hexadecimal digits.\<close>

definition hex_text :: "string \<Rightarrow> bool" where
  "hex_text s \<longleftrightarrow> s \<noteq> [] \<and> list_all (\<lambda>c. js_digit c \<or> c \<in> set ''abcdef'') s"

lemma hex_text_plain:
  assumes "hex_text s"
  shows "s \<noteq> []" "CHR '','' \<notin> set s" "CHR ''='' \<notin> set s" "\<not> js_space (last s)"
proof -
  have plain: "c \<noteq> CHR '','' \<and> c \<noteq> CHR ''='' \<and> \<not> js_space c" if "c \<in> set s" for c
  proof -
    have "js_digit c \<or> c \<in> set ''abcdef''" using assms that by (simp add: hex_text_def list_all_iff)
    then show ?thesis
    proof
      assume "js_digit c"
      then show ?thesis using js_digit_plain [of c] by (auto simp: js_digit_def)
    qed (auto simp: js_space_def)
  qed
  show "s \<noteq> []" using assms by (simp add: hex_text_def)
  with plain show "CHR '','' \<notin> set s" "CHR ''='' \<notin> set s" "\<not> js_space (last s)" by auto
qed

lemma parse_signed_header:
  assumes "hex_text v1"
  shows "parse_header other (''t='' @ decimal n @ '',v1='' @ v1) = Some (int n, v1)"
proof -
  note hex = hex_text_plain [OF assms]
  have digits: "\<forall>c \<in> set (decimal n). js_digit c" using decimal_digits by blast
  then have dec: "CHR '','' \<notin> set (decimal n)" "CHR ''='' \<notin> set (decimal n)"
    by (auto simp: js_digit_def)
  have last: "\<not> js_space (last (decimal n))"
    using digits decimal_nonempty js_digit_plain last_in_set by metis
  have "split_on CHR '','' ((''t='' @ decimal n) @ CHR '','' # (''v1='' @ v1)) = [''t='' @ decimal n, ''v1='' @ v1]"
    using dec hex by (subst split_on_first) (simp_all add: split_on_none)
  then have parts: "split_on CHR '','' (''t='' @ decimal n @ '',v1='' @ v1) = [''t='' @ decimal n, ''v1='' @ v1]"
    by simp
  have t: "trim_text (''t='' @ decimal n) = ''t='' @ decimal n"
    by (rule trim_text_id) (use last decimal_nonempty in \<open>simp_all add: js_space_def\<close>)
  have v: "trim_text (''v1='' @ v1) = ''v1='' @ v1"
    by (rule trim_text_id) (use hex in \<open>simp_all add: js_space_def\<close>)
  have "split_on CHR ''='' (''t='' @ decimal n) = [''t'', decimal n]"
    "split_on CHR ''='' (''v1='' @ v1) = [''v1'', v1]"
    using dec hex by (simp_all add: split_on_none)
  moreover have "js_number other (decimal n) = Some (int n)"
    using digits decimal_nonempty digits_value_decimal by (simp add: js_number_def list_all_iff)
  ultimately have "header_fields other [''t='' @ decimal n, ''v1='' @ v1] None None = (Some (int n), Some v1)"
    using decimal_nonempty hex(1) by (simp only: header_fields.simps t v) simp
  then show ?thesis by (simp only: parse_header_def parts prod.case option.case)
qed

section \<open>Properties\<close>

text \<open>
  A receiver accepts a signed callback exactly when it is fresh and genuine. Against a header that
  the sender made for \<open>sent\<close> at time \<open>n\<close> with \<open>secret\<close>, a receiver looking at \<open>body\<close> answers
  \<^verbatim>\<open>stale\<close> outside its tolerance in either direction, accepts if one of its secrets gives the same
  digest for what it received, so always for an unaltered body and a shared secret, and otherwise
  answers \<^verbatim>\<open>mismatch\<close>; a key rotation is any list of secrets that has the sender's.
\<close>

theorem signature_verifies_exactly:
  assumes hex: "hex_text (rn_hmac_hex rn secret (decimal n @ ''.'' @ sent))"
    and render: "rn_decimal rn (int n) = decimal n"
  shows "verify_skein_signature rn other (Some (sign_delivery rn secret (int n) sent)) body secrets tolerance now =
           (if or_default tolerance DEFAULT_TOLERANCE_SECONDS < \<bar>now - int n\<bar> then Refused Stale
            else if \<exists>key \<in> set secrets. rn_hmac_hex rn key (decimal n @ ''.'' @ body) =
                                         rn_hmac_hex rn secret (decimal n @ ''.'' @ sent)
            then Accepted else Refused Mismatch) \<and>
         (secret \<in> set secrets \<and> \<bar>now - int n\<bar> \<le> or_default tolerance DEFAULT_TOLERANCE_SECONDS \<longrightarrow>
            verify_skein_signature rn other (Some (sign_delivery rn secret (int n) sent)) sent secrets tolerance now =
              Accepted)"
proof -
  have parsed: "parse_header other (sign_delivery rn secret (int n) sent) =
      Some (int n, rn_hmac_hex rn secret (decimal n @ ''.'' @ sent))"
    using parse_signed_header [OF hex] by (simp add: sign_delivery_def render)
  have "sign_delivery rn secret (int n) sent \<noteq> []" by (simp add: sign_delivery_def)
  then show ?thesis
    using parsed by (auto simp: verify_skein_signature_def render list_ex_iff)
qed

section \<open>Witness\<close>

text \<open>A digest that depends on the key and the text: their lengths, in decimal.\<close>

definition length_rendering :: rendering where
  "length_rendering = \<lparr>rn_json = (\<lambda>_. []), rn_iso = (\<lambda>_. []), rn_decimal = (\<lambda>t. decimal (nat t)),
     rn_hmac_hex = (\<lambda>key text. decimal (100 * length key + length text))\<rparr>"

theorem signature_verifies_exactly_witness:
  "verify_skein_signature length_rendering (\<lambda>_. None)
     (Some (sign_delivery length_rendering ''new'' 1000 ''body'')) ''body'' [''oldkey'', ''new''] None 1300 = Accepted \<and>
   verify_skein_signature length_rendering (\<lambda>_. None)
     (Some (sign_delivery length_rendering ''new'' 1000 ''body'')) ''bodyy'' [''oldkey'', ''new''] None 1300 =
       Refused Mismatch \<and>
   verify_skein_signature length_rendering (\<lambda>_. None)
     (Some (sign_delivery length_rendering ''new'' 1000 ''body'')) ''body'' [''oldkey'', ''new''] None 1301 =
       Refused Stale"
proof -
  have hex: "hex_text (rn_hmac_hex length_rendering ''new'' (decimal 1000 @ ''.'' @ ''body''))" by code_simp
  have render: "rn_decimal length_rendering (int 1000) = decimal 1000" by (simp add: length_rendering_def)
  have digests: "rn_hmac_hex length_rendering ''new'' (decimal 1000 @ ''.'' @ ''bodyy'') \<noteq>
      rn_hmac_hex length_rendering ''new'' (decimal 1000 @ ''.'' @ ''body'')"
    "rn_hmac_hex length_rendering ''oldkey'' (decimal 1000 @ ''.'' @ ''bodyy'') \<noteq>
      rn_hmac_hex length_rendering ''new'' (decimal 1000 @ ''.'' @ ''body'')"
    by code_simp+
  note exactly = signature_verifies_exactly [OF hex render]
  show ?thesis
    using exactly [of "\<lambda>_. None" "''body''" "[''oldkey'', ''new'']" None 1300]
      exactly [of "\<lambda>_. None" "''bodyy''" "[''oldkey'', ''new'']" None 1300]
      exactly [of "\<lambda>_. None" "''body''" "[''oldkey'', ''new'']" None 1301] digests
    by (simp add: DEFAULT_TOLERANCE_SECONDS_def)
qed

end
