(* ===== verification/RunCancellation.thy ===== *)
theory RunCancellation
  imports Prelude
begin

text \<open>
  The cancellation registry of \<^verbatim>\<open>runs/cancellation.ts\<close>: which runs this process executes or waits to
  execute, the abort controller they share, and why it fired. Several instances each have one; an
  explicit abort is broadcast on the abort channel, which may deliver it to any instance, late, more
  than once or never.

  An \<^verbatim>\<open>AbortController\<close> with its reason box is an object: handles keep it after the registry forgets
  it, so the registry has a list of them and entries and handles hold positions.
\<close>

section \<open>The registry\<close>

datatype abort_reason = ByCancel | ByTimeout | ByInterrupt | ByRollback

record abort_box =
  ab_aborted :: bool
  ab_reason :: "abort_reason option"

record control_entry =
  ce_registrations :: nat
  ce_box :: nat

record control_registry =
  cr_entries :: "(ident, control_entry) jsmap"
  cr_boxes :: "abort_box list"
  cr_channel :: bool

definition new_registry :: "bool \<Rightarrow> control_registry" where
  "new_registry channel = \<lparr>cr_entries = [], cr_boxes = [], cr_channel = channel\<rparr>"

text \<open>The \<^verbatim>\<open>abort\<close> of a handle: the first reason stays.\<close>

definition fire_box :: "abort_reason \<Rightarrow> abort_box \<Rightarrow> abort_box" where
  "fire_box reason b =
     b\<lparr>ab_reason := (case ab_reason b of None \<Rightarrow> Some reason | Some r \<Rightarrow> Some r), ab_aborted := True\<rparr>"

definition abort_handle :: "nat \<Rightarrow> abort_reason \<Rightarrow> control_registry \<Rightarrow> control_registry" where
  "abort_handle n reason R = R\<lparr>cr_boxes := (cr_boxes R)[n := fire_box reason (cr_boxes R ! n)]\<rparr>"

definition register_run :: "ident \<Rightarrow> control_registry \<Rightarrow> nat \<times> control_registry" where
  "register_run run_id R =
     (case jm_get (cr_entries R) run_id of
        Some e \<Rightarrow>
          (ce_box e,
           R\<lparr>cr_entries := jm_set run_id (e\<lparr>ce_registrations := Suc (ce_registrations e)\<rparr>) (cr_entries R)\<rparr>)
      | None \<Rightarrow>
          let n = length (cr_boxes R) in
          (n, R\<lparr>cr_boxes := cr_boxes R @ [\<lparr>ab_aborted = False, ab_reason = None\<rparr>],
                cr_entries := jm_set run_id \<lparr>ce_registrations = 1, ce_box = n\<rparr> (cr_entries R)\<rparr>))"

definition apply_remote_abort :: "ident \<Rightarrow> abort_reason \<Rightarrow> control_registry \<Rightarrow> control_registry" where
  "apply_remote_abort run_id reason R =
     (case jm_get (cr_entries R) run_id of None \<Rightarrow> R | Some e \<Rightarrow> abort_handle (ce_box e) reason R)"

text \<open>
  \<^verbatim>\<open>#forwardAbort\<close>: what is published, when a channel is configured; publishing never fails the abort.
\<close>

definition forward_abort :: "ident \<Rightarrow> abort_reason \<Rightarrow> control_registry \<Rightarrow> (ident \<times> abort_reason) list" where
  "forward_abort run_id reason R = (if cr_channel R then [(run_id, reason)] else [])"

text \<open>\<^verbatim>\<open>abort\<close>: whether a run was aborted here, what was published, and the registry after.\<close>

definition abort_run ::
  "ident \<Rightarrow> abort_reason \<Rightarrow> control_registry \<Rightarrow> (bool \<times> (ident \<times> abort_reason) list) \<times> control_registry" where
  "abort_run run_id reason R =
     (case jm_get (cr_entries R) run_id of
        None \<Rightarrow> ((False, forward_abort run_id reason R), R)
      | Some e \<Rightarrow> ((True, forward_abort run_id reason R), abort_handle (ce_box e) reason R))"

definition clear_run :: "ident \<Rightarrow> control_registry \<Rightarrow> control_registry" where
  "clear_run run_id R =
     (case jm_get (cr_entries R) run_id of
        None \<Rightarrow> R
      | Some e \<Rightarrow>
          if ce_registrations e = 1 then R\<lparr>cr_entries := jm_delete run_id (cr_entries R)\<rparr>
          else R\<lparr>cr_entries := jm_set run_id (e\<lparr>ce_registrations := ce_registrations e - 1\<rparr>) (cr_entries R)\<rparr>)"

definition is_tracking :: "ident \<Rightarrow> control_registry \<Rightarrow> bool" where
  "is_tracking run_id R = jm_has (cr_entries R) run_id"

section \<open>Instances around an abort channel\<close>

text \<open>
  The registries of the instances, the handles executions hold, what was published, and every
  explicit abort any instance was asked for.
\<close>

record abort_system =
  as_registry :: "nat \<Rightarrow> control_registry"
  as_held :: "(nat \<times> ident \<times> nat) list"
  as_sent :: "(ident \<times> abort_reason) list"
  as_asked :: "(ident \<times> abort_reason) list"

definition new_abort_system :: "bool \<Rightarrow> abort_system" where
  "new_abort_system channel =
     \<lparr>as_registry = (\<lambda>_. new_registry channel), as_held = [], as_sent = [], as_asked = []\<rparr>"

definition set_registry :: "nat \<Rightarrow> control_registry \<Rightarrow> abort_system \<Rightarrow> abort_system" where
  "set_registry k R S = S\<lparr>as_registry := (as_registry S)(k := R)\<rparr>"

inductive abort_step :: "abort_system \<Rightarrow> abort_system \<Rightarrow> bool" where
  registers: "register_run run_id (as_registry S k) = (n, R) \<Longrightarrow>
    abort_step S ((set_registry k R S)\<lparr>as_held := (k, run_id, n) # as_held S\<rparr>)"
| clears: "(k, run_id, n) \<in> set (as_held S) \<Longrightarrow>
    abort_step S ((set_registry k (clear_run run_id (as_registry S k)) S)
                    \<lparr>as_held := remove1 (k, run_id, n) (as_held S)\<rparr>)"
| aborts: "abort_run run_id reason (as_registry S k) = ((here, sent), R) \<Longrightarrow>
    abort_step S ((set_registry k R S)\<lparr>as_sent := sent @ as_sent S, as_asked := (run_id, reason) # as_asked S\<rparr>)"
| delivers: "(run_id, reason) \<in> set (as_sent S) \<Longrightarrow>
    abort_step S (set_registry k (apply_remote_abort run_id reason (as_registry S k)) S)"
| fires: "n < length (cr_boxes (as_registry S k)) \<Longrightarrow>
    abort_step S (set_registry k (abort_handle n reason (as_registry S k)) S)"

inductive abort_steps :: "abort_system \<Rightarrow> abort_system \<Rightarrow> bool" where
  none: "abort_steps S S"
| more: "abort_steps S S' \<Longrightarrow> abort_step S' S'' \<Longrightarrow> abort_steps S S''"

section \<open>The invariant\<close>

definition holders :: "nat \<Rightarrow> ident \<Rightarrow> (nat \<times> ident \<times> nat) list \<Rightarrow> (nat \<times> ident \<times> nat) list" where
  "holders k run_id held = filter (\<lambda>h. fst h = k \<and> fst (snd h) = run_id) held"

definition box_ok :: "abort_box \<Rightarrow> bool" where
  "box_ok b \<longleftrightarrow> (ab_aborted b \<longleftrightarrow> ab_reason b \<noteq> None)"

text \<open>
  An entry counts the handles of its run and names the box all of them have; boxes fire with a
  reason; what is published was asked for.
\<close>

fun entry_ok :: "control_entry option \<Rightarrow> nat \<Rightarrow> (nat \<times> ident \<times> nat) list \<Rightarrow> bool" where
  "entry_ok None boxes hs \<longleftrightarrow> hs = []"
| "entry_ok (Some e) boxes hs \<longleftrightarrow>
     0 < ce_registrations e \<and> length hs = ce_registrations e \<and> ce_box e < boxes \<and>
     (\<forall>h \<in> set hs. snd (snd h) = ce_box e)"

lemma entry_ok_mono: "entry_ok e b hs \<Longrightarrow> b \<le> b' \<Longrightarrow> entry_ok e b' hs"
  by (cases e) auto

definition registry_ok :: "nat \<Rightarrow> abort_system \<Rightarrow> bool" where
  "registry_ok k S \<longleftrightarrow>
     jm_wf (cr_entries (as_registry S k)) \<and> 
     (\<forall>run_id. entry_ok (jm_get (cr_entries (as_registry S k)) run_id)
                (length (cr_boxes (as_registry S k))) (holders k run_id (as_held S))) \<and>
     list_all box_ok (cr_boxes (as_registry S k))"

definition abort_inv :: "abort_system \<Rightarrow> bool" where
  "abort_inv S \<longleftrightarrow>
     (\<forall>k. registry_ok k S) \<and> length (as_sent S) \<le> length (as_asked S) \<and>
     set (as_sent S) \<subseteq> set (as_asked S)"

lemma abort_inv_new: "abort_inv (new_abort_system channel)"
  by (simp add: abort_inv_def registry_ok_def new_abort_system_def new_registry_def
      holders_def)

lemma fire_box_ok [simp]: "box_ok (fire_box reason b)"
  by (auto simp: box_ok_def fire_box_def split: option.split)

lemma abort_handle_simps [simp]:
  "cr_entries (abort_handle n reason R) = cr_entries R"
  "length (cr_boxes (abort_handle n reason R)) = length (cr_boxes R)"
  "cr_channel (abort_handle n reason R) = cr_channel R"
  by (simp_all add: abort_handle_def)

lemma abort_handle_nth:
  "m < length (cr_boxes R) \<Longrightarrow>
     cr_boxes (abort_handle n reason R) ! m =
       (if m = n then fire_box reason (cr_boxes R ! m) else cr_boxes R ! m)"
  by (simp add: abort_handle_def nth_list_update)

lemma abort_handle_ok: "list_all box_ok (cr_boxes R) \<Longrightarrow> list_all box_ok (cr_boxes (abort_handle n reason R))"
  by (simp add: list_all_length abort_handle_nth)

lemma set_registry_simps [simp]:
  "as_registry (set_registry k R S) = (as_registry S)(k := R)"
  "as_held (set_registry k R S) = as_held S"
  "as_sent (set_registry k R S) = as_sent S"
  "as_asked (set_registry k R S) = as_asked S"
  by (simp_all add: set_registry_def)

text \<open>What an operation at one instance leaves the others.\<close>

lemma registry_ok_elsewhere:
  assumes "registry_ok k' S" and "as_registry S' k' = as_registry S k'"
    and "\<And>run_id. holders k' run_id (as_held S') = holders k' run_id (as_held S)"
  shows "registry_ok k' S'"
  using assms by (simp add: registry_ok_def)

text \<open>Firing boxes leaves the entries of every registry, and the handles, alone.\<close>

lemma registry_ok_fired:
  assumes ok: "registry_ok k' S" and held: "as_held S' = as_held S"
    and fired: "as_registry S' = (as_registry S)(k := abort_handle n reason (as_registry S k))"
  shows "registry_ok k' S'"
  using ok
  by (cases "k' = k") (simp_all add: registry_ok_def holders_def held fired abort_handle_ok)

lemma abort_run_cases:
  "abort_run run_id reason R =
     ((is_tracking run_id R, forward_abort run_id reason R), apply_remote_abort run_id reason R)"
  by (simp add: abort_run_def apply_remote_abort_def is_tracking_def jm_has_def split: option.split)

lemma registry_ok_applied:
  assumes "registry_ok k' S" and "as_held S' = as_held S"
    and "as_registry S' = (as_registry S)(k := apply_remote_abort run_id reason (as_registry S k))"
  shows "registry_ok k' S'"
proof (cases "jm_get (cr_entries (as_registry S k)) run_id")
  case None
  then show ?thesis
    using assms(2-) by (auto simp: apply_remote_abort_def holders_def intro!: registry_ok_elsewhere [OF assms(1)])
next
  case (Some e)
  then show ?thesis
    using assms(2-) by (auto simp: apply_remote_abort_def intro!: registry_ok_fired [OF assms(1)])
qed

lemma registry_ok_register:
  assumes ok: "\<forall>k. registry_ok k S" and reg: "register_run run_id (as_registry S k) = (n, R)"
  shows "registry_ok k' ((set_registry k R S)\<lparr>as_held := (k, run_id, n) # as_held S\<rparr>)" (is "registry_ok k' ?S")
proof (cases "k' = k")
  case False
  then show ?thesis by (auto simp: holders_def intro!: registry_ok_elsewhere [OF ok [rule_format]])
next
  case True
  have wf: "jm_wf (cr_entries (as_registry S k))" and boxes: "list_all box_ok (cr_boxes (as_registry S k))"
    and entry: "\<And>r. entry_ok (jm_get (cr_entries (as_registry S k)) r)
                  (length (cr_boxes (as_registry S k))) (holders k r (as_held S))"
    using ok [rule_format, of k] by (simp_all add: registry_ok_def)
  have held: "holders k r ((k, run_id, m) # as_held S) =
      (if r = run_id then [(k, run_id, m)] else []) @ holders k r (as_held S)" for r m
    by (simp add: holders_def)
  have "registry_ok k ?S"
  proof (cases "jm_get (cr_entries (as_registry S k)) run_id")
    case None
    then have R: "n = length (cr_boxes (as_registry S k))"
      "cr_boxes R = cr_boxes (as_registry S k) @ [\<lparr>ab_aborted = False, ab_reason = None\<rparr>]"
      "cr_entries R = jm_set run_id \<lparr>ce_registrations = 1, ce_box = n\<rparr> (cr_entries (as_registry S k))"
      using reg by (auto simp: register_run_def Let_def)
    have "entry_ok (jm_get (cr_entries R) r) (length (cr_boxes R)) (holders k r (as_held ?S))" for r
      using entry [of r] None by (cases "r = run_id") (auto simp: held R jm_get_set intro: entry_ok_mono)
    then show ?thesis using wf boxes by (simp add: registry_ok_def R box_ok_def jm_wf_set)
  next
    case (Some e)
    then have R: "n = ce_box e" "cr_boxes R = cr_boxes (as_registry S k)"
      "cr_entries R = jm_set run_id (e\<lparr>ce_registrations := Suc (ce_registrations e)\<rparr>) (cr_entries (as_registry S k))"
      using reg by (auto simp: register_run_def)
    have "entry_ok (jm_get (cr_entries R) r) (length (cr_boxes R)) (holders k r (as_held ?S))" for r
      using entry [of r] Some by (cases "r = run_id") (auto simp: held R jm_get_set)
    then show ?thesis using wf boxes by (simp add: registry_ok_def R jm_wf_set)
  qed
  then show ?thesis by (simp add: True)
qed

lemma length_remove1_filter: "x \<in> set xs \<Longrightarrow> P x \<Longrightarrow> length (filter P (remove1 x xs)) = length (filter P xs) - 1"
proof (induction xs)
  case (Cons a xs)
  moreover have "0 < length (filter P xs)" if "x \<in> set xs" using that Cons.prems
    by (auto simp: length_greater_0_conv filter_empty_conv)
  ultimately show ?case by auto
qed simp

lemma filter_remove1_other: "\<not> P x \<Longrightarrow> filter P (remove1 x xs) = filter P xs"
  by (induction xs) auto

lemma registry_ok_clear:
  assumes ok: "\<forall>k. registry_ok k S" and mem: "(k, run_id, n) \<in> set (as_held S)"
  shows "registry_ok k' ((set_registry k (clear_run run_id (as_registry S k)) S)
                           \<lparr>as_held := remove1 (k, run_id, n) (as_held S)\<rparr>)" (is "registry_ok k' ?S")
proof (cases "k' = k")
  case False
  then show ?thesis
    by (auto simp: holders_def filter_remove1_other intro!: registry_ok_elsewhere [OF ok [rule_format]])
next
  case True
  let ?R = "as_registry S k"
  have wf: "jm_wf (cr_entries ?R)" and boxes: "list_all box_ok (cr_boxes ?R)"
    and entry: "\<And>r. entry_ok (jm_get (cr_entries ?R) r) (length (cr_boxes ?R)) (holders k r (as_held S))"
    using ok [rule_format, of k] by (simp_all add: registry_ok_def)
  have here: "(k, run_id, n) \<in> set (holders k run_id (as_held S))" using mem by (simp add: holders_def)
  then obtain e where e: "jm_get (cr_entries ?R) run_id = Some e"
    using entry [of run_id] by (cases "jm_get (cr_entries ?R) run_id") auto
  have other: "holders k r (remove1 (k, run_id, n) (as_held S)) = holders k r (as_held S)" if "r \<noteq> run_id" for r
    using that by (simp add: holders_def filter_remove1_other)
  have len: "length (holders k run_id (as_held ?S)) = length (holders k run_id (as_held S)) - 1"
    using mem by (simp add: holders_def length_remove1_filter)
  have sub: "set (holders k run_id (as_held ?S)) \<subseteq> set (holders k run_id (as_held S))"
    using set_remove1_subset by (force simp: holders_def)
  have old: "ce_registrations e = length (holders k run_id (as_held S))" "ce_box e < length (cr_boxes ?R)"
    "\<forall>h \<in> set (holders k run_id (as_held S)). snd (snd h) = ce_box e"
    using entry [of run_id] by (simp_all add: e)
  have "entry_ok (jm_get (cr_entries (clear_run run_id ?R)) r) (length (cr_boxes ?R)) (holders k r (as_held ?S))" for r
  proof (cases "r = run_id")
    case False
    then show ?thesis using entry [of r] by (simp add: e other clear_run_def jm_get_set jm_get_delete)
  next
    case True
    have "holders k run_id (as_held ?S) = []" if "length (holders k run_id (as_held S)) = 1"
      using that len by simp
    moreover have "1 < length (holders k run_id (as_held S))" if "length (holders k run_id (as_held S)) \<noteq> 1"
      using that here length_pos_if_in_set [OF here] by linarith
    ultimately show ?thesis
      using old len sub by (cases "length (holders k run_id (as_held S)) = 1")
        (auto simp: True e clear_run_def jm_get_set jm_get_delete)
  qed
  moreover have "cr_boxes (clear_run run_id ?R) = cr_boxes ?R" by (simp add: clear_run_def split: option.split)
  moreover have "jm_wf (cr_entries (clear_run run_id ?R))"
    using wf by (simp add: clear_run_def jm_wf_set jm_wf_delete split: option.split)
  ultimately show ?thesis using boxes by (simp add: registry_ok_def True)
qed

lemma abort_inv_step: "abort_step S S' \<Longrightarrow> abort_inv S \<Longrightarrow> abort_inv S'"
proof (induction rule: abort_step.induct)
  case (registers run_id S k n R)
  then show ?case by (simp add: abort_inv_def registry_ok_register)
next
  case (clears k run_id n S)
  then show ?case by (simp add: abort_inv_def registry_ok_clear)
next
  case (aborts run_id reason S k here sent R)
  have eq: "R = apply_remote_abort run_id reason (as_registry S k)"
    and sent: "sent = forward_abort run_id reason (as_registry S k)"
    using aborts.hyps by (simp_all add: abort_run_cases)
  have "registry_ok k' ((set_registry k R S)
          \<lparr>as_sent := sent @ as_sent S, as_asked := (run_id, reason) # as_asked S\<rparr>)" for k'
    using aborts.prems
    by (auto simp: abort_inv_def eq intro: registry_ok_applied [where S = S and k = k and run_id = run_id and reason = reason])
  then show ?case using aborts.prems by (auto simp: abort_inv_def sent forward_abort_def)
next
  case (delivers run_id reason S k)
  have "registry_ok k' (set_registry k (apply_remote_abort run_id reason (as_registry S k)) S)" for k'
  proof (rule registry_ok_applied)
    show "registry_ok k' S" using delivers.prems by (simp add: abort_inv_def)
  qed simp_all
  then show ?case using delivers.prems by (simp add: abort_inv_def)
next
  case (fires n S k reason)
  have "registry_ok k' (set_registry k (abort_handle n reason (as_registry S k)) S)" for k'
  proof (rule registry_ok_fired)
    show "registry_ok k' S" using fires.prems by (simp add: abort_inv_def)
  qed simp_all
  then show ?case using fires.prems by (simp add: abort_inv_def)
qed

lemma abort_inv_steps: "abort_steps S S' \<Longrightarrow> abort_inv S \<Longrightarrow> abort_inv S'"
  by (induction rule: abort_steps.induct) (auto intro: abort_inv_step)

section \<open>A reason stays\<close>

definition keeps_reasons :: "control_registry \<Rightarrow> control_registry \<Rightarrow> bool" where
  "keeps_reasons R R' \<longleftrightarrow>
     length (cr_boxes R) \<le> length (cr_boxes R') \<and>
     (\<forall>n < length (cr_boxes R). \<forall>r. ab_reason (cr_boxes R ! n) = Some r \<longrightarrow> ab_reason (cr_boxes R' ! n) = Some r)"

lemma keeps_reasons_refl [simp]: "keeps_reasons R R"
  by (simp add: keeps_reasons_def)

lemma keeps_reasons_trans: "keeps_reasons R R' \<Longrightarrow> keeps_reasons R' R'' \<Longrightarrow> keeps_reasons R R''"
  by (force simp: keeps_reasons_def)

lemma keeps_reasons_abort_handle [simp]: "keeps_reasons R (abort_handle n reason R)"
  by (simp add: keeps_reasons_def abort_handle_nth fire_box_def)

lemma keeps_reasons_ops:
  "keeps_reasons R (apply_remote_abort run_id reason R)"
  "keeps_reasons R (clear_run run_id R)"
  "keeps_reasons R (snd (register_run run_id R))"
  by (auto simp: apply_remote_abort_def clear_run_def register_run_def Let_def keeps_reasons_def
      nth_append abort_handle_nth fire_box_def split: option.splits)

lemma keeps_reasons_step: "abort_step S S' \<Longrightarrow> keeps_reasons (as_registry S k) (as_registry S' k)"
proof (induction rule: abort_step.induct)
  case (registers run_id S j n R)
  then show ?case using keeps_reasons_ops(3) [of "as_registry S j" run_id] by simp
next
  case (aborts run_id reason S j here sent R)
  then show ?case by (auto simp: abort_run_cases keeps_reasons_ops)
qed (simp_all add: keeps_reasons_ops)

lemma keeps_reasons_steps: "abort_steps S S' \<Longrightarrow> keeps_reasons (as_registry S k) (as_registry S' k)"
  by (induction rule: abort_steps.induct) (auto intro: keeps_reasons_trans keeps_reasons_step)

lemma held_tracked:
  assumes "abort_inv S" and "(k, run_id, n) \<in> set (as_held S)"
  obtains e where "jm_get (cr_entries (as_registry S k)) run_id = Some e" and "ce_box e = n"
    and "n < length (cr_boxes (as_registry S k))"
proof -
  have "entry_ok (jm_get (cr_entries (as_registry S k)) run_id) (length (cr_boxes (as_registry S k)))
      (holders k run_id (as_held S))" using assms(1) by (simp add: abort_inv_def registry_ok_def)
  moreover have mem: "(k, run_id, n) \<in> set (holders k run_id (as_held S))" using assms(2) by (simp add: holders_def)
  ultimately show thesis
    using that by (cases "jm_get (cr_entries (as_registry S k)) run_id") auto
qed

text \<open>
  An explicit abort at an instance where some execution or recovery waiter holds a handle of the
  run aborts that handle: \<^verbatim>\<open>abort\<close> answers true, and from then on, whatever registers, settles, times
  out or arrives from other instances, the handle's signal is aborted with one reason that never
  changes: the one it already had, else the one of this abort. The channel never carries more
  requests than were made, however often it redelivers them, so instances cannot bounce one.
\<close>

theorem run_abort_shared:
  assumes reach: "abort_steps (new_abort_system channel) S"
    and held: "(k, run_id, n) \<in> set (as_held S)"
    and aborted: "abort_run run_id reason (as_registry S k) = ((here, sent), R)"
    and later: "abort_steps ((set_registry k R S)
                   \<lparr>as_sent := sent @ as_sent S, as_asked := (run_id, reason) # as_asked S\<rparr>) S'"
  shows "here \<and> ab_aborted (cr_boxes (as_registry S' k) ! n) \<and>
     ab_reason (cr_boxes (as_registry S' k) ! n) =
       Some (case ab_reason (cr_boxes (as_registry S k) ! n) of None \<Rightarrow> reason | Some r \<Rightarrow> r) \<and>
     length (as_sent S') \<le> length (as_asked S')"
proof -
  let ?T = "(set_registry k R S)\<lparr>as_sent := sent @ as_sent S, as_asked := (run_id, reason) # as_asked S\<rparr>"
  have inv: "abort_inv S" using abort_inv_steps [OF reach abort_inv_new] .
  then have inv': "abort_inv S'" using abort_inv_steps [OF later] abort_step.aborts [OF aborted] abort_inv_step by blast
  from inv held obtain e where e: "jm_get (cr_entries (as_registry S k)) run_id = Some e" "ce_box e = n"
    and n: "n < length (cr_boxes (as_registry S k))" by (rule held_tracked)
  have R: "R = abort_handle n reason (as_registry S k)" and here
    using aborted e by (simp_all add: abort_run_def)
  have keeps: "keeps_reasons R (as_registry S' k)" using keeps_reasons_steps [OF later, of k] by simp
  have "ab_reason (cr_boxes R ! n) = Some (case ab_reason (cr_boxes (as_registry S k) ! n) of None \<Rightarrow> reason | Some r \<Rightarrow> r)"
    using n by (simp add: R abort_handle_nth fire_box_def split: option.split)
  then have now: "ab_reason (cr_boxes (as_registry S' k) ! n) =
      Some (case ab_reason (cr_boxes (as_registry S k) ! n) of None \<Rightarrow> reason | Some r \<Rightarrow> r)"
    using keeps n by (simp add: keeps_reasons_def R)
  moreover have "box_ok (cr_boxes (as_registry S' k) ! n)"
    using inv' keeps n by (auto simp: abort_inv_def registry_ok_def keeps_reasons_def R list_all_length)
  ultimately show ?thesis using inv' \<open>here\<close> by (simp add: box_ok_def abort_inv_def)
qed

text \<open>
  The run r waits at instance 0 and is interrupted there; a cancel from another instance and the
  timeout of the wait, arriving later, change nothing.
\<close>

theorem run_abort_shared_witness:
  "let waiting = snd (register_run ''r'' (new_registry True));
       (asked, cancelled) = abort_run ''r'' ByInterrupt waiting;
       late = abort_handle 0 ByTimeout (apply_remote_abort ''r'' ByCancel cancelled)
   in asked = (True, [(''r'', ByInterrupt)]) \<and> ab_reason (cr_boxes late ! 0) = Some ByInterrupt"
proof -
  define R where "R = snd (register_run ''r'' (new_registry True))"
  define S where "S = (set_registry 0 R (new_abort_system True))\<lparr>as_held := [(0, ''r'', 0)]\<rparr>"
  define C where "C = snd (abort_run ''r'' ByInterrupt R)"
  define T where "T = (set_registry 0 C S)
    \<lparr>as_sent := [(''r'', ByInterrupt)] @ as_sent S, as_asked := (''r'', ByInterrupt) # as_asked S\<rparr>"
  have reg: "register_run ''r'' (as_registry (new_abort_system True) 0) = (0, R)"
    by (simp add: R_def new_abort_system_def new_registry_def register_run_def)
  have R: "R = \<lparr>cr_entries = [(''r'', \<lparr>ce_registrations = 1, ce_box = 0\<rparr>)],
      cr_boxes = [\<lparr>ab_aborted = False, ab_reason = None\<rparr>], cr_channel = True\<rparr>"
    by (simp add: R_def new_registry_def register_run_def)
  have S: "as_registry S 0 = R" "as_held S = [(0, ''r'', 0)]" by (simp_all add: S_def)
  have "abort_steps (new_abort_system True) S"
    using abort_steps.more [OF abort_steps.none abort_step.registers [OF reg]]
    by (simp add: S_def new_abort_system_def set_registry_def)
  moreover have asked: "abort_run ''r'' ByInterrupt R = ((True, [(''r'', ByInterrupt)]), C)"
    by (simp add: C_def R abort_run_def forward_abort_def)
  moreover have C: "C = \<lparr>cr_entries = [(''r'', \<lparr>ce_registrations = 1, ce_box = 0\<rparr>)],
      cr_boxes = [\<lparr>ab_aborted = True, ab_reason = Some ByInterrupt\<rparr>], cr_channel = True\<rparr>"
    by (simp add: C_def R abort_run_def abort_handle_def fire_box_def)
  moreover have "abort_steps T (set_registry 0 (apply_remote_abort ''r'' ByInterrupt C) T)"
    using abort_steps.more [OF abort_steps.none abort_step.delivers [of "''r''" ByInterrupt T 0]]
    by (simp add: T_def)
  ultimately have "ab_reason (cr_boxes (apply_remote_abort ''r'' ByInterrupt C) ! 0) = Some ByInterrupt"
    using run_abort_shared [of True S 0 "''r''" 0 ByInterrupt True "[(''r'', ByInterrupt)]" C
        "set_registry 0 (apply_remote_abort ''r'' ByInterrupt C) T"]
    by (simp add: S R T_def)
  then show ?thesis
    using asked by (simp add: R_def [symmetric] C apply_remote_abort_def abort_handle_def fire_box_def)
qed

end
