(* ===== verification/Fingerprint.thy ===== *)
theory Fingerprint
  imports JsText JsValue
begin

text \<open>
  How a request with an \<^verbatim>\<open>Idempotency-Key\<close> is identified: \<^verbatim>\<open>idempotency/fingerprint.ts\<close> and
  \<^verbatim>\<open>crypto/canonical-json.ts\<close>. The text of \<^verbatim>\<open>JSON.stringify\<close>, the SHA-256 of a text and the path
  of a URL (\<^verbatim>\<open>None\<close> where the parser throws) are parameters. What is proved is what the fingerprint
  can tell apart: everything but the key order of JSON objects and of the query.
\<close>

section \<open>Canonical JSON\<close>

fun sort_keys :: "jsval \<Rightarrow> jsval" where
  "sort_keys (JArr xs) = JArr (map sort_keys xs)"
| "sort_keys (JObj ps) =
     JObj (js_sort (\<lambda>p q. compare_of (fst p) (fst q)) (map (\<lambda>p. (fst p, sort_keys (snd p))) ps))"
| "sort_keys v = v"

definition canonical_json :: "(jsval \<Rightarrow> string) \<Rightarrow> jsval \<Rightarrow> string" where
  "canonical_json json v = json (sort_keys v)"

section \<open>Requests\<close>

text \<open>A \<^verbatim>\<open>ProtocolRequest\<close>; a query value is a string, an array of strings, or \<^verbatim>\<open>undefined\<close>.\<close>

record proto_request =
  pr_method :: string
  pr_url :: string
  pr_query :: "(string, jsval) jsmap"
  pr_body :: "jsval option"
  pr_headers :: "(string, string) jsmap"

definition upper_unit :: "char \<Rightarrow> char" where
  "upper_unit c = (let n = of_char c :: nat in if 97 \<le> n \<and> n \<le> 122 then char_of (n - 32) else c)"

text \<open>\<^verbatim>\<open>toUpperCase\<close> on a method, which is an ASCII token.\<close>

definition upper_method :: "proto_request \<Rightarrow> string" where
  "upper_method req = map upper_unit (pr_method req)"

definition path_of :: "(string \<Rightarrow> string option) \<Rightarrow> proto_request \<Rightarrow> string" where
  "path_of pathname req = (case pathname (pr_url req) of Some p \<Rightarrow> p | None \<Rightarrow> pr_url req)"

definition defined_query :: "(string, jsval) jsmap \<Rightarrow> (string, jsval) jsmap" where
  "defined_query q = filter (\<lambda>e. snd e \<noteq> JUndef) q"

definition sorted_query :: "(string, jsval) jsmap \<Rightarrow> (string, jsval) jsmap" where
  "sorted_query q = js_sort (\<lambda>a b. compare_of (fst a) (fst b)) (defined_query q)"

definition body_or_null :: "jsval option \<Rightarrow> jsval" where
  "body_or_null body = (case body of None \<Rightarrow> JNull | Some v \<Rightarrow> if v = JUndef then JNull else v)"

definition idempotency_scope :: "(string \<Rightarrow> string option) \<Rightarrow> proto_request \<Rightarrow> string option \<Rightarrow> string" where
  "idempotency_scope pathname req caller =
     upper_method req @ '' '' @ path_of pathname req @ '' '' @ or_default caller ''''"

definition fingerprint_value :: "(string \<Rightarrow> string option) \<Rightarrow> proto_request \<Rightarrow> jsval" where
  "fingerprint_value pathname req =
     JArr [JStr (upper_method req), JStr (path_of pathname req),
           JArr (map (\<lambda>e. JArr [JStr (fst e), snd e]) (sorted_query (pr_query req))),
           body_or_null (pr_body req)]"

definition request_fingerprint ::
  "(string \<Rightarrow> string option) \<Rightarrow> (jsval \<Rightarrow> string) \<Rightarrow> (string \<Rightarrow> string) \<Rightarrow> proto_request \<Rightarrow> string" where
  "request_fingerprint pathname json sha req = sha (canonical_json json (fingerprint_value pathname req))"

section \<open>The same JSON up to key order\<close>

inductive same_json :: "jsval \<Rightarrow> jsval \<Rightarrow> bool" where
  same_scalar: "is_js_scalar v \<Longrightarrow> same_json v v"
| same_message: "same_json (JMessage ty ps) (JMessage ty ps)"
| same_array: "list_all2 same_json xs ys \<Longrightarrow> same_json (JArr xs) (JArr ys)"
| same_object: "mset ps' = mset ps \<Longrightarrow> list_all2 (\<lambda>p q. fst p = fst q \<and> same_json (snd p) (snd q)) ps' qs \<Longrightarrow>
    same_json (JObj ps) (JObj qs)"

lemma by_key_comparator: "js_comparator (\<lambda>p q. compare_of (fst p) (fst q :: 'a :: linorder))"
  by unfold_locales (auto simp: compare_of_simps)

lemma sort_by_key_perm:
  assumes "distinct (map fst ps)" and "mset ps = mset qs"
  shows "js_sort (\<lambda>p q. compare_of (fst p) (fst q :: 'a :: linorder)) ps = js_sort (\<lambda>p q. compare_of (fst p) (fst q)) qs"
  by (rule js_comparator.sort_permutation_invariant [OF by_key_comparator])
    (use assms in \<open>auto simp: compare_of_simps distinct_map dest: inj_onD\<close>)

lemma mset_map_realign:
  assumes "mset (map f xs) = mset ys"
  obtains xs' where "mset xs' = mset xs" and "map f xs' = ys"
  using assms
proof (induction ys arbitrary: xs thesis)
  case Nil
  then show ?case by simp
next
  case (Cons y ys)
  then have "y \<in> f ` set xs" by (metis list.set_intros(1) list.set_map mset_eq_setD)
  then obtain x where x: "x \<in> set xs" "f x = y" by auto
  then have "mset (map f (remove1 x xs)) = mset ys"
    using Cons.prems(2) by (simp add: image_mset_Diff)
  then obtain xs' where "mset xs' = mset (remove1 x xs)" "map f xs' = ys" using Cons.IH by blast
  with x show ?case using Cons.prems(1) [of "x # xs'"] by simp
qed

lemma same_json_sort_keys: "same_json v w \<Longrightarrow> jsval_plain v \<Longrightarrow> sort_keys v = sort_keys w"
proof (induction rule: same_json.induct)
  case (same_array xs ys)
  then show ?case by (auto simp: list_all2_conv_all_nth intro!: nth_equalityI)
next
  case (same_object ps' ps qs)
  let ?f = "\<lambda>p. (fst p, sort_keys (snd p))"
  have "list_all2 (\<lambda>p q. ?f p = ?f q) ps' qs"
    using same_object.IH by (rule list.rel_mono_strong)
      (use same_object.prems mset_eq_setD [OF same_object.hyps(1)] in auto)
  then have eq: "map ?f ps' = map ?f qs" by (simp add: list_all2_conv_all_nth list_eq_iff_nth_eq)
  have "distinct (map fst (map ?f ps))" using same_object.prems by (simp add: comp_def)
  moreover have "mset (map ?f ps) = mset (map ?f qs)" using same_object.hyps by (simp flip: eq)
  ultimately show ?case by (simp add: sort_by_key_perm)
qed simp_all

lemma sort_keys_scalar: "sort_keys v = sort_keys w \<Longrightarrow> is_js_scalar v \<Longrightarrow> same_json v w"
  by (cases v; cases w) (simp_all add: same_scalar)

lemma sort_keys_message: "sort_keys (JMessage ty ps) = sort_keys w \<Longrightarrow> same_json (JMessage ty ps) w"
  by (cases w) (simp_all add: same_message)

lemma map_eq_rel: "map f xs = map f ys \<Longrightarrow> list_all2 (\<lambda>x y. f x = f y) xs ys"
  by (induction xs arbitrary: ys) (auto simp: Cons_eq_map_conv)

lemma sort_keys_array:
  assumes "\<And>x w. x \<in> set xs \<Longrightarrow> sort_keys x = sort_keys w \<Longrightarrow> same_json x w" "sort_keys (JArr xs) = sort_keys w"
  shows "same_json (JArr xs) w"
proof -
  obtain ys where w: "w = JArr ys" using assms(2) by (cases w) simp_all
  have "map sort_keys xs = map sort_keys ys" using assms(2) by (simp add: w)
  then have "list_all2 (\<lambda>x y. sort_keys x = sort_keys y) xs ys"
    by (rule map_eq_rel)
  then have "list_all2 same_json xs ys" by (rule list.rel_mono_strong) (rule assms(1))
  then show ?thesis unfolding w by (rule same_array)
qed

lemma sort_keys_object:
  assumes "\<And>p w. p \<in> set ps \<Longrightarrow> sort_keys (snd p) = sort_keys w \<Longrightarrow> same_json (snd p) w"
    and "sort_keys (JObj ps) = sort_keys w"
  shows "same_json (JObj ps) w"
proof -
  let ?f = "\<lambda>p. (fst p, sort_keys (snd p))"
  obtain qs where w: "w = JObj qs" using assms(2) by (cases w) simp_all
  have "js_sort (\<lambda>p q. compare_of (fst p) (fst q)) (map ?f ps) = js_sort (\<lambda>p q. compare_of (fst p) (fst q)) (map ?f qs)"
    using assms(2) by (simp add: w)
  then have "mset (js_sort (\<lambda>p q. compare_of (fst p) (fst q)) (map ?f ps)) =
      mset (js_sort (\<lambda>p q. compare_of (fst p) (fst q)) (map ?f qs))" by (rule arg_cong)
  then have "mset (map ?f ps) = mset (map ?f qs)" unfolding mset_js_sort .
  then obtain ps' where ps': "mset ps' = mset ps" "map ?f ps' = map ?f qs" by (rule mset_map_realign)
  have "list_all2 (\<lambda>p q. ?f p = ?f q) ps' qs"
    by (rule map_eq_rel [OF ps'(2)])
  then have "list_all2 (\<lambda>p q. fst p = fst q \<and> same_json (snd p) (snd q)) ps' qs"
  proof (rule list.rel_mono_strong)
    fix p q assume "p \<in> set ps'" "?f p = ?f q"
    then show "fst p = fst q \<and> same_json (snd p) (snd q)"
      using assms(1) [of p "snd q"] mset_eq_setD [OF ps'(1)] by simp
  qed
  with ps'(1) show ?thesis unfolding w by (rule same_object)
qed

lemma sort_keys_same_json: "sort_keys v = sort_keys w \<Longrightarrow> same_json v w"
proof (induction v arbitrary: w rule: sort_keys.induct)
  case (1 xs)
  then show ?case by (rule sort_keys_array)
next
  case (2 ps)
  show ?case by (rule sort_keys_object [OF _ 2(2)]) (rule 2(1))
qed (erule sort_keys_scalar sort_keys_message, simp?)+

section \<open>What a fingerprint tells apart\<close>

fun query_value :: "jsval \<Rightarrow> bool" where
  "query_value JUndef = True"
| "query_value (JStr _) = True"
| "query_value (JArr vs) = (\<forall>v \<in> set vs. \<exists>s. v = JStr s)"
| "query_value _ = False"

definition request_ok :: "proto_request \<Rightarrow> bool" where
  "request_ok req \<longleftrightarrow>
     jm_wf (pr_query req) \<and> (\<forall>e \<in> set (pr_query req). query_value (snd e)) \<and>
     jsval_plain (body_or_null (pr_body req))"

lemma query_value_sorted: "query_value v \<Longrightarrow> sort_keys v = v"
  by (cases v) (auto intro!: map_idI)

definition query_pairs :: "(string, jsval) jsmap \<Rightarrow> jsval list" where
  "query_pairs q = map (\<lambda>e. JArr [JStr (fst e), snd e]) q"

lemma query_pairs_inject: "query_pairs q = query_pairs q' \<longleftrightarrow> q = q'"
  unfolding query_pairs_def
  by (rule inj_map_eq_map) (auto intro!: injI prod_eqI)

lemma sort_keys_query:
  "request_ok req \<Longrightarrow> map sort_keys (query_pairs (sorted_query (pr_query req))) = query_pairs (sorted_query (pr_query req))"
  by (auto simp: query_pairs_def sorted_query_def defined_query_def request_ok_def query_value_sorted intro!: map_idI)

lemma sort_keys_fingerprint:
  "request_ok req \<Longrightarrow>
   sort_keys (fingerprint_value pathname req) =
     JArr [JStr (upper_method req), JStr (path_of pathname req), JArr (query_pairs (sorted_query (pr_query req))),
           sort_keys (body_or_null (pr_body req))]"
  using sort_keys_query by (simp add: fingerprint_value_def flip: query_pairs_def)

lemma sorted_query_eq:
  assumes "request_ok req"
  shows "sorted_query (pr_query req) = sorted_query (pr_query req') \<longleftrightarrow>
           mset (defined_query (pr_query req)) = mset (defined_query (pr_query req'))"
proof
  assume "sorted_query (pr_query req) = sorted_query (pr_query req')"
  then have "mset (sorted_query (pr_query req)) = mset (sorted_query (pr_query req'))" by (rule arg_cong)
  then show "mset (defined_query (pr_query req)) = mset (defined_query (pr_query req'))"
    by (simp add: sorted_query_def)
next
  assume eq: "mset (defined_query (pr_query req)) = mset (defined_query (pr_query req'))"
  have "distinct (map fst (defined_query (pr_query req)))"
    using assms by (simp add: request_ok_def defined_query_def distinct_map_filter)
  then show "sorted_query (pr_query req) = sorted_query (pr_query req')"
    unfolding sorted_query_def by (rule sort_by_key_perm) (rule eq)
qed

text \<open>
  C38. Two requests have the same fingerprint exactly when they have the same method up to ASCII case,
  the same path, the same query parameters in any order and the same body up to the order of object
  keys at any depth; array order counts. So a retry is never refused for how a client serialises it,
  and a different request is never answered with another's response, unless the digest collides on
  the two.
\<close>

theorem fingerprint_exact:
  assumes "request_ok req" and "request_ok req'"
    and no_collision:
      "request_fingerprint pathname json sha req = request_fingerprint pathname json sha req' \<Longrightarrow>
       sort_keys (fingerprint_value pathname req) = sort_keys (fingerprint_value pathname req')"
  shows "request_fingerprint pathname json sha req = request_fingerprint pathname json sha req' \<longleftrightarrow>
         upper_method req = upper_method req' \<and> path_of pathname req = path_of pathname req' \<and>
         mset (defined_query (pr_query req)) = mset (defined_query (pr_query req')) \<and>
         same_json (body_or_null (pr_body req)) (body_or_null (pr_body req'))"
proof -
  have "request_fingerprint pathname json sha req = request_fingerprint pathname json sha req' \<longleftrightarrow>
        sort_keys (fingerprint_value pathname req) = sort_keys (fingerprint_value pathname req')"
  proof
    assume "sort_keys (fingerprint_value pathname req) = sort_keys (fingerprint_value pathname req')"
    then show "request_fingerprint pathname json sha req = request_fingerprint pathname json sha req'"
      by (simp only: request_fingerprint_def canonical_json_def)
  qed (rule no_collision)
  moreover have "sort_keys (body_or_null (pr_body req)) = sort_keys (body_or_null (pr_body req')) \<longleftrightarrow>
      same_json (body_or_null (pr_body req)) (body_or_null (pr_body req'))"
    using assms(1) same_json_sort_keys sort_keys_same_json unfolding request_ok_def by blast
  ultimately show ?thesis
    by (simp only: sort_keys_fingerprint [OF assms(1)] sort_keys_fingerprint [OF assms(2)]
        sorted_query_eq [OF assms(1)] jsval.inject list.inject query_pairs_inject simp_thms)
qed

definition sample_post :: "(string, jsval) jsmap \<Rightarrow> jsval \<Rightarrow> proto_request" where
  "sample_post query body =
     \<lparr>pr_method = ''post'', pr_url = ''/runs'', pr_query = query, pr_body = Some body, pr_headers = []\<rparr>"

fun sample_text :: "jsval \<Rightarrow> string" where
  "sample_text (JStr s) = CHR ''s'' # s"
| "sample_text (JArr vs) = CHR ''['' # concat (map sample_text vs)"
| "sample_text (JObj ps) = CHR ''{'' # concat (map (\<lambda>p. fst p @ sample_text (snd p)) ps)"
| "sample_text _ = ''-''"

text \<open>Keys in another order are the same request; an array in another order is another one.\<close>

theorem fingerprint_exact_witness:
  "request_fingerprint Some sample_text id (sample_post [(''a'', JStr ''1''), (''b'', JUndef)] (JObj [(''x'', JNull), (''y'', JStr ''v'')]))
   = request_fingerprint Some sample_text id (sample_post [(''a'', JStr ''1'')] (JObj [(''y'', JStr ''v''), (''x'', JNull)])) \<and>
   \<not> same_json (JArr [JStr ''p'', JStr ''q'']) (JArr [JStr ''q'', JStr ''p''])"
proof
  let ?one = "sample_post [(''a'', JStr ''1''), (''b'', JUndef)] (JObj [(''x'', JNull), (''y'', JStr ''v'')])"
  let ?two = "sample_post [(''a'', JStr ''1'')] (JObj [(''y'', JStr ''v''), (''x'', JNull)])"
  have ok: "request_ok ?one" "request_ok ?two"
    by (simp_all add: request_ok_def sample_post_def body_or_null_def)
  have body: "sort_keys (body_or_null (pr_body ?one)) = sort_keys (body_or_null (pr_body ?two))" by code_simp
  have rest: "upper_method ?one = upper_method ?two" "path_of Some ?one = path_of Some ?two"
    "defined_query (pr_query ?one) = defined_query (pr_query ?two)" by code_simp+
  have eq: "sort_keys (fingerprint_value Some ?one) = sort_keys (fingerprint_value Some ?two)"
    by (simp only: fingerprint_value_def sorted_query_def rest body sort_keys.simps list.map)
  show "request_fingerprint Some sample_text id ?one = request_fingerprint Some sample_text id ?two"
    by (rule fingerprint_exact [OF ok, THEN iffD2])
      (simp_all only: eq rest sort_keys_same_json [OF body] simp_thms)
next
  let ?p = "sample_post [] (JArr [JStr ''p'', JStr ''q''])" and ?q = "sample_post [] (JArr [JStr ''q'', JStr ''p''])"
  have ok: "request_ok ?p" "request_ok ?q" by (simp_all add: request_ok_def sample_post_def body_or_null_def)
  have differ: "request_fingerprint Some sample_text id ?p \<noteq> request_fingerprint Some sample_text id ?q"
    by (simp add: request_fingerprint_def canonical_json_def fingerprint_value_def upper_method_def path_of_def
        sample_post_def body_or_null_def sorted_query_def defined_query_def)
  have rest: "upper_method ?p = upper_method ?q" "path_of Some ?p = path_of Some ?q"
    "defined_query (pr_query ?p) = defined_query (pr_query ?q)"
    "body_or_null (pr_body ?p) = JArr [JStr ''p'', JStr ''q'']"
    "body_or_null (pr_body ?q) = JArr [JStr ''q'', JStr ''p'']"
    by (simp_all add: upper_method_def path_of_def sample_post_def body_or_null_def)
  show "\<not> same_json (JArr [JStr ''p'', JStr ''q'']) (JArr [JStr ''q'', JStr ''p''])"
  proof
    assume same: "same_json (JArr [JStr ''p'', JStr ''q'']) (JArr [JStr ''q'', JStr ''p''])"
    have "request_fingerprint Some sample_text id ?p = request_fingerprint Some sample_text id ?q"
      by (rule fingerprint_exact [OF ok, THEN iffD2])
        (use differ in \<open>simp_all only: rest same simp_thms\<close>)
    with differ show False ..
  qed
qed

end
