(* ===== verification/IdempotentHandlers.thy ===== *)
theory IdempotentHandlers
  imports StoreIdempotency AdmissionHistory Fingerprint
begin

text \<open>
  The wrapper of \<^verbatim>\<open>idempotency/idempotent-handlers.ts\<close> that makes a repeated create replay its
  first response. A wrapped request is three stretches between awaits: \<open>create_begin\<close> up to the
  claim of the key and its consequences, the inner handler, and \<open>create_settle\<close>, which reports or
  releases the claim. What the inner handler answers, what authorization says, the claim ids and the
  clock readings are arguments; other requests run between the stretches.
\<close>

section \<open>Options, requests, responses\<close>

datatype create_name = CreateWaitRun | CreateBackgroundRun | CreateStatelessRun | CreateRunBatch

datatype 's proto_response = JsonResponse recorded_response | SseResponse 's

record idem_env =
  ie_retention_ms :: int
  ie_in_flight_ms :: int
  ie_pathname :: "string \<Rightarrow> string option"
  ie_json :: "jsval \<Rightarrow> string"
  ie_sha :: "string \<Rightarrow> string"
  ie_run_body :: "run \<Rightarrow> jsval"
  ie_admission :: bool

definition DEFAULT_RETENTION_HOURS :: int where "DEFAULT_RETENTION_HOURS = 24"
definition DEFAULT_IN_FLIGHT_MINUTES :: int where "DEFAULT_IN_FLIGHT_MINUTES = 15"
definition MAX_KEY_LENGTH :: nat where "MAX_KEY_LENGTH = 255"

definition VALID_KEY :: "string \<Rightarrow> bool" where
  "VALID_KEY key \<longleftrightarrow> key \<noteq> [] \<and> list_all (\<lambda>c. 32 \<le> (of_char c :: nat) \<and> (of_char c :: nat) \<le> 126) key"

definition header_key :: "proto_request \<Rightarrow> string option" where
  "header_key req =
     (case jm_get (pr_headers req) ''idempotency-key'' of
        None \<Rightarrow> None
      | Some k \<Rightarrow> if k = [] then None else Some k)"

section \<open>Claiming\<close>

record key_owner =
  ko_scope :: string
  ko_key :: string
  ko_fingerprint :: string
  ko_claim_id :: ident
  ko_admission :: "admission_key option"

datatype begun = PassedThrough | RefusedCreate thrown | ReplayedCreate recorded_response | OwnedCreate key_owner

definition replay_response :: "recorded_response \<Rightarrow> recorded_response" where
  "replay_response r =
     r\<lparr>rs_headers := Some (jm_set ''idempotent-replay'' ''true'' (or_default (rs_headers r) []))\<rparr>"

definition refuse_or_replay ::
  "(ident option \<Rightarrow> thrown option) \<Rightarrow> string \<Rightarrow> idempotency_record \<Rightarrow> begun" where
  "refuse_or_replay authorize_replay fingerprint rec =
     (if ir_fingerprint rec \<noteq> fingerprint then RefusedCreate (unprocessable (Some ''idempotency_key_reused''))
      else case (ir_status rec, ir_response rec) of
             (Done, Some r) \<Rightarrow>
               (case authorize_replay (ir_thread_id rec) of
                  Some e \<Rightarrow> RefusedCreate e
                | None \<Rightarrow> ReplayedCreate (replay_response r))
           | _ \<Rightarrow> RefusedCreate (conflict (Some ''idempotency_key_in_flight'')))"

definition bound_admission ::
  "idem_env \<Rightarrow> create_name \<Rightarrow> string \<Rightarrow> string \<Rightarrow> string \<Rightarrow> instant \<Rightarrow> admission_key option" where
  "bound_admission env name scope key fingerprint now =
     (if name = CreateBackgroundRun \<and> ie_admission env
      then Some \<lparr>ak_scope = ''admission '' @ scope, ak_key = key, ak_fingerprint = fingerprint,
                 ak_now = now, ak_expires_at = now + ie_retention_ms env\<rparr>
      else None)"

definition create_begin ::
  "idem_env \<Rightarrow> create_name \<Rightarrow> proto_request \<Rightarrow> string option \<Rightarrow> (ident option \<Rightarrow> thrown option) \<Rightarrow>
   ident \<Rightarrow> instant \<Rightarrow> instant \<Rightarrow> mem_store \<Rightarrow> begun \<times> mem_store" where
  "create_begin env name req caller authorize_replay claim_id now at_time s =
     (case header_key req of
        None \<Rightarrow> (PassedThrough, s)
      | Some key \<Rightarrow>
          if MAX_KEY_LENGTH < length key \<or> \<not> VALID_KEY key
          then (RefusedCreate (unprocessable (Some ''invalid_idempotency_key'')), s)
          else
            let scope = idempotency_scope (ie_pathname env) req caller;
                fingerprint = request_fingerprint (ie_pathname env) (ie_json env) (ie_sha env) req;
                (claim, s') = idempotency_claim_op
                  \<lparr>ic_key = key, ic_scope = scope, ic_fingerprint = fingerprint, ic_claim_id = claim_id,
                   ic_now = now, ic_expires_at = now + ie_in_flight_ms env\<rparr> at_time s
            in if icr_claimed claim
               then (OwnedCreate \<lparr>ko_scope = scope, ko_key = key, ko_fingerprint = fingerprint,
                       ko_claim_id = claim_id,
                       ko_admission = bound_admission env name scope key fingerprint now\<rparr>, s')
               else (refuse_or_replay authorize_replay fingerprint (icr_record claim), s'))"

text \<open>The stream creates: a key is refused, anything else reaches the inner handler.\<close>

definition reject_key_on_stream :: "proto_request \<Rightarrow> thrown option" where
  "reject_key_on_stream req = (case header_key req of None \<Rightarrow> None | Some _ \<Rightarrow> Some (unprocessable None))"

section \<open>Settling\<close>

definition run_id_of :: "jsval \<Rightarrow> ident option" where
  "run_id_of body =
     (case body of
        JObj ps \<Rightarrow> (case jm_get ps ''run_id'' of Some (JStr r) \<Rightarrow> Some r | _ \<Rightarrow> None)
      | _ \<Rightarrow> None)"

text \<open>The thread id in a \<^verbatim>\<open>content-location\<close> of the form \<^verbatim>\<open>/threads/<id>/runs/...\<close>.\<close>

definition thread_id_of :: "recorded_response \<Rightarrow> ident option" where
  "thread_id_of r =
     (let location = or_default (jm_get (or_default (rs_headers r) []) ''content-location'') '''';
          rest = drop (length ''/threads/'') location;
          ident = takeWhile (\<lambda>c. c \<noteq> CHR ''/'') rest
      in if take (length ''/threads/'') location = ''/threads/'' \<and> ident \<noteq> [] \<and>
            take (length ''/runs/'') (drop (length ident) rest) = ''/runs/''
         then Some ident else None)"

text \<open>
  What the inner handler's outcome comes to. A background create whose atomic admission committed
  before the failure is answered with the admitted run; when the authorization of that answer fails,
  its error leaves without a release.
\<close>

datatype 's resolved = Respond "'s proto_response" | ReleaseAndThrow thrown | JustThrow thrown

definition admitted_receipt :: "key_owner \<Rightarrow> mem_store \<Rightarrow> idempotency_record option" where
  "admitted_receipt own s =
     (if ko_admission own = None then None else idempotency_get (''admission '' @ ko_scope own) (ko_key own) s)"

definition admitted_response :: "idem_env \<Rightarrow> run \<Rightarrow> recorded_response" where
  "admitted_response env r =
     \<lparr>rs_status = 200, rs_body = ie_run_body env r,
      rs_headers = Some [(''content-location'', ''/threads/'' @ r_thread_id r @ ''/runs/'' @ r_run_id r)]\<rparr>"

definition create_resolve ::
  "idem_env \<Rightarrow> key_owner \<Rightarrow> (ident option \<Rightarrow> thrown option) \<Rightarrow> thrown + 's proto_response \<Rightarrow> mem_store \<Rightarrow>
   's resolved" where
  "create_resolve env own authorize_replay inner s =
     (case inner of
        Inr response \<Rightarrow> Respond response
      | Inl error \<Rightarrow>
          (case admitted_receipt own s of
             None \<Rightarrow> ReleaseAndThrow error
           | Some accepted \<Rightarrow>
               (case truthy_id (ir_run_id accepted) of
                  None \<Rightarrow> ReleaseAndThrow error
                | Some run_id \<Rightarrow>
                    (case authorize_replay (ir_thread_id accepted) of
                       Some refusal \<Rightarrow> JustThrow refusal
                     | None \<Rightarrow>
                         (case jm_get (ms_runs s) run_id of
                            None \<Rightarrow> ReleaseAndThrow error
                          | Some r \<Rightarrow> Respond (JsonResponse (admitted_response env r)))))))"

definition response_input :: "idem_env \<Rightarrow> recorded_response \<Rightarrow> instant \<Rightarrow> recorded_response_input" where
  "response_input env r now =
     \<lparr>ri_response = r, ri_expires_at = now + ie_retention_ms env,
      ri_run_id = run_id_of (rs_body r), ri_thread_id = thread_id_of r\<rparr>"

text \<open>
  \<open>release\<close> swallows a failure of the store (\<open>release_fails\<close>), and a report that fails
  (\<open>record_fails\<close>) is replaced by a release.
\<close>

definition release_claim :: "bool \<Rightarrow> key_owner \<Rightarrow> mem_store \<Rightarrow> mem_store" where
  "release_claim release_fails own s =
     (if release_fails then s else idempotency_release (ko_scope own) (ko_key own) (ko_claim_id own) s)"

definition create_settle ::
  "idem_env \<Rightarrow> key_owner \<Rightarrow> 's resolved \<Rightarrow> bool \<Rightarrow> bool \<Rightarrow> instant \<Rightarrow> instant \<Rightarrow> mem_store \<Rightarrow>
   (thrown + 's proto_response) \<times> mem_store" where
  "create_settle env own outcome record_fails release_fails now at_time s =
     (case outcome of
        ReleaseAndThrow error \<Rightarrow> (Inl error, release_claim release_fails own s)
      | JustThrow error \<Rightarrow> (Inl error, s)
      | Respond (SseResponse stream) \<Rightarrow> (Inr (SseResponse stream), release_claim release_fails own s)
      | Respond (JsonResponse r) \<Rightarrow>
          (Inr (JsonResponse r),
           if 300 \<le> rs_status r \<or> record_fails then release_claim release_fails own s
           else idempotency_record_op (ko_scope own) (ko_key own) (ko_claim_id own)
                  (response_input env r now) at_time s))"

section \<open>A key and its row\<close>

definition same_key :: "idem_env \<Rightarrow> proto_request \<Rightarrow> string option \<Rightarrow> key_owner \<Rightarrow> bool" where
  "same_key env req caller own \<longleftrightarrow>
     header_key req = Some (ko_key own) \<and> idempotency_scope (ie_pathname env) req caller = ko_scope own"

definition fingerprint_in :: "idem_env \<Rightarrow> proto_request \<Rightarrow> string" where
  "fingerprint_in env req = request_fingerprint (ie_pathname env) (ie_json env) (ie_sha env) req"

definition key_accepted :: "string \<Rightarrow> bool" where
  "key_accepted key \<longleftrightarrow> length key \<le> MAX_KEY_LENGTH \<and> VALID_KEY key"

text \<open>The row a won claim leaves.\<close>

definition owned_row :: "key_owner \<Rightarrow> instant \<Rightarrow> idempotency_record \<Rightarrow> bool" where
  "owned_row own expiry row \<longleftrightarrow>
     ir_scope row = ko_scope own \<and> ir_key row = ko_key own \<and> ir_claim_id row = ko_claim_id own \<and>
     ir_fingerprint row = ko_fingerprint own \<and> ir_status row = InFlight \<and> ir_response row = None \<and>
     ir_run_id row = None \<and> ir_thread_id row = None \<and> ir_expires_at row = expiry"

lemma begin_owned:
  assumes "store_inv s"
    and "create_begin env name req caller auth cid now at_time s = (OwnedCreate own, s')"
  shows "same_key env req caller own" "key_accepted (ko_key own)" "ko_claim_id own = cid"
    "\<exists>row. row_held row s' \<and> owned_row own (now + ie_in_flight_ms env) row"
proof -
  let ?c = "\<lparr>ic_key = ko_key own, ic_scope = idempotency_scope (ie_pathname env) req caller,
     ic_fingerprint = fingerprint_in env req, ic_claim_id = cid, ic_now = now,
     ic_expires_at = now + ie_in_flight_ms env\<rparr>"
  have key: "header_key req = Some (ko_key own)" "key_accepted (ko_key own)"
    and own: "ko_scope own = idempotency_scope (ie_pathname env) req caller" "ko_claim_id own = cid"
      "ko_fingerprint own = fingerprint_in env req"
    and claim: "icr_claimed (fst (idempotency_claim_op ?c at_time s))" "s' = snd (idempotency_claim_op ?c at_time s)"
    using assms(2)
    by (auto simp: create_begin_def Let_def key_accepted_def fingerprint_in_def refuse_or_replay_def
        split: option.splits if_splits prod.splits idempotency_status.splits)
  show "same_key env req caller own" "key_accepted (ko_key own)" "ko_claim_id own = cid"
    using key own by (simp_all add: same_key_def)
  note won = claim_won [OF store_inv_idempotency_keyed [OF assms(1)] claim(1)]
  show "\<exists>row. row_held row s' \<and> owned_row own (now + ie_in_flight_ms env) row"
    using won own claim(2) by (auto simp: owned_row_def claimed_record_def)
qed

lemma begin_held:
  assumes "row_held row s" and "same_key env req caller own" and "key_accepted (ko_key own)"
    and "ir_scope row = ko_scope own" and "ir_key row = ko_key own" and "now < ir_expires_at row"
  shows "create_begin env name req caller auth cid now at_time s =
           (refuse_or_replay auth (fingerprint_in env req) row, s)"
proof -
  have "idempotency_claim_op
          \<lparr>ic_key = ko_key own, ic_scope = idempotency_scope (ie_pathname env) req caller,
           ic_fingerprint = fingerprint_in env req, ic_claim_id = cid, ic_now = now,
           ic_expires_at = now + ie_in_flight_ms env\<rparr> at_time s = (\<lparr>icr_claimed = False, icr_record = row\<rparr>, s)"
    by (rule held_claim_refused [OF assms(1)]) (use assms in \<open>simp_all add: same_key_def\<close>)
  then show ?thesis
    using assms(2,3) by (simp add: create_begin_def same_key_def key_accepted_def fingerprint_in_def)
qed

section \<open>Properties\<close>


text \<open>
  A failure is never pinned to its key. When the inner handler throws and no admission was
  committed, or answers with an error status, the claim is released, nothing is recorded, and the
  next request with the key, the same or another, reaches its inner handler.
\<close>

theorem failed_create_retries:
  assumes "store_inv s"
    and first: "create_begin env name req caller auth cid t0 a0 s = (OwnedCreate own, s1)"
    and row: "idempotency_get (ko_scope own) (ko_key own) s1 = Some row"
    and meanwhile: "list_all (before_expiry row) h1" "s2 = run_steps idempotency_step h1 s1"
    and failed: "(\<exists>e. inner = Inl e) \<and> admitted_receipt own s2 = None \<or>
      (\<exists>r. inner = Inr (JsonResponse r) \<and> 300 \<le> rs_status r)"
    and settled: "create_settle env own (create_resolve env own auth inner s2) record_fails False t1 a1 s2 = (answer, s3)"
    and retry: "same_key env req' caller' own"
  shows "answer = inner \<and>
         (\<exists>own' s4. create_begin env name' req' caller' auth' cid' t' a' s3 = (OwnedCreate own', s4))"
proof -
  note owned = begin_owned [OF assms(1) first]
  from owned(4) row have held: "row_held row s1" and mine: "owned_row own (t0 + ie_in_flight_ms env) row"
    by (auto simp: row_held_def owned_row_def)
  have held2: "row_held row s2"
    unfolding meanwhile(2) by (rule key_lease.held_throughout [OF held meanwhile(1)])
  have s3: "answer = inner" "s3 = idempotency_release (ko_scope own) (ko_key own) (ko_claim_id own) s2"
    using settled failed by (auto simp: create_settle_def create_resolve_def release_claim_def)
  have "idempotency_get (ko_scope own) (ko_key own) s3 = None"
    using held2 mine by (simp add: s3(2) row_held_def owned_row_def idempotency_get_def idempotency_release_def Let_def jm_simps)
  then have "icr_claimed (fst (idempotency_claim_op
      \<lparr>ic_key = ko_key own, ic_scope = ko_scope own, ic_fingerprint = fingerprint_in env req',
       ic_claim_id = cid', ic_now = t', ic_expires_at = t' + ie_in_flight_ms env\<rparr> a' s3))"
    by (simp add: idempotency_claim_op_def idempotency_get_def Let_def)
  then show ?thesis
    using s3(1) retry owned(2)
    by (auto simp: create_begin_def same_key_def key_accepted_def fingerprint_in_def Let_def split: prod.split)
qed

text \<open>Methods and paths have no blank, so the caller can be read off a scope.\<close>

lemma split_at_first: "m @ b # xs = m' @ b # ys \<Longrightarrow> b \<notin> set m \<Longrightarrow> b \<notin> set m' \<Longrightarrow> xs = ys"
  by (induction m arbitrary: m') (auto simp: Cons_eq_append_conv append_eq_Cons_conv)

lemma scope_inject:
  assumes "CHR '' '' \<notin> set (upper_method req) \<union> set (path_of pathname req)"
    and "CHR '' '' \<notin> set (upper_method req') \<union> set (path_of pathname req')"
    and "idempotency_scope pathname req caller = idempotency_scope pathname req' caller'"
  shows "or_default caller '''' = or_default caller' ''''"
proof -
  have "path_of pathname req @ CHR '' '' # or_default caller '''' =
      path_of pathname req' @ CHR '' '' # or_default caller' ''''"
    by (rule split_at_first [of "upper_method req" "CHR '' ''" _ "upper_method req'"])
      (use assms in \<open>simp_all add: idempotency_scope_def\<close>)
  then show ?thesis by (rule split_at_first) (use assms in auto)
qed

text \<open>
  A key is its caller's own. Whatever row another caller's request left under any key, in flight
  or recorded, a request that picks the same key is treated as if the row were not there: it is not
  refused, not delayed and never shown the other's response.
\<close>

theorem tenant_keys_isolated:
  assumes "or_default caller '''' \<noteq> or_default other ''''"
    and "CHR '' '' \<notin> set (upper_method req) \<union> set (path_of (ie_pathname env) req)"
    and "CHR '' '' \<notin> set (upper_method req') \<union> set (path_of (ie_pathname env) req')"
    and "s' = s\<lparr>ms_idempotency :=
           jm_set (idempotency_key (idempotency_scope (ie_pathname env) req' other) key) row (ms_idempotency s)\<rparr>"
  shows "fst (create_begin env name req caller auth cid now at_time s') =
         fst (create_begin env name req caller auth cid now at_time s)"
proof -
  have "idempotency_scope (ie_pathname env) req caller \<noteq> idempotency_scope (ie_pathname env) req' other"
    using scope_inject [OF assms(2,3)] assms(1) by blast
  then have "fst (idempotency_claim_op
      \<lparr>ic_key = k, ic_scope = idempotency_scope (ie_pathname env) req caller, ic_fingerprint = f,
       ic_claim_id = cid, ic_now = now, ic_expires_at = e\<rparr> at_time s') =
    fst (idempotency_claim_op
      \<lparr>ic_key = k, ic_scope = idempotency_scope (ie_pathname env) req caller, ic_fingerprint = f,
       ic_claim_id = cid, ic_now = now, ic_expires_at = e\<rparr> at_time s)" for k f e
    unfolding assms(4)
    by (simp add: idempotency_claim_op_def Let_def jm_simps idempotency_key_inject split: option.split)
  then show ?thesis
    by (simp add: create_begin_def Let_def case_prod_beta split: option.split)
qed

text \<open>
  The receipt a failed background create falls back on is not checked to be its own. Whatever the
  request, whatever its error, if an earlier admission under the same scope and key has left a
  receipt whose run still exists, of another request, expired and not yet swept, or both, the failure
  is answered as a success with that earlier run, and this is recorded as the response of the key.
\<close>

theorem failed_create_answers_old_receipt:
  assumes held: "row_held row s" "owned_row own expiry row"
    and bound: "ko_admission own = Some adm"
    and receipt: "idempotency_get (''admission '' @ ko_scope own) (ko_key own) s = Some old"
      "ir_run_id old = Some run_id" "run_id \<noteq> []" "jm_get (ms_runs s) run_id = Some r"
    and allowed: "auth (ir_thread_id old) = None"
  shows "\<exists>s' row'. create_settle env own (create_resolve env own auth (Inl error) s) False release_fails now at_time s =
           (Inr (JsonResponse (admitted_response env r)) :: thrown + 's proto_response, s') \<and>
         idempotency_get (ko_scope own) (ko_key own) s' = Some row' \<and> ir_fingerprint row' = ko_fingerprint own \<and>
         ir_status row' = Done \<and> ir_response row' = Some (admitted_response env r)"
proof -
  have "create_resolve env own auth (Inl error) s = (Respond (JsonResponse (admitted_response env r)) :: 's resolved)"
    using bound receipt allowed by (simp add: create_resolve_def admitted_receipt_def truthy_id_def)
  moreover have "rs_status (admitted_response env r) = 200" by (simp add: admitted_response_def)
  ultimately show ?thesis
    using held
    by (simp add: create_settle_def idempotency_record_op_def row_held_def owned_row_def idempotency_get_def
        Let_def jm_simps recorded_over_def response_input_def)
qed

subsection \<open>Witnesses\<close>

definition sample_env :: idem_env where
  "sample_env = \<lparr>ie_retention_ms = 1000, ie_in_flight_ms = 100, ie_pathname = Some, ie_json = sample_text,
     ie_sha = id, ie_run_body = (\<lambda>r. JObj [(''run_id'', JStr (r_run_id r))]), ie_admission = True\<rparr>"

definition keyed_post :: "jsval \<Rightarrow> proto_request" where
  "keyed_post body = (sample_post [] body)\<lparr>pr_headers := [(''idempotency-key'', ''k'')]\<rparr>"

definition sample_scope :: "string option \<Rightarrow> string" where
  "sample_scope caller = idempotency_scope Some (keyed_post JNull) caller"

definition sample_owner :: "jsval \<Rightarrow> string option \<Rightarrow> ident \<Rightarrow> instant \<Rightarrow> key_owner" where
  "sample_owner body caller cid now =
     \<lparr>ko_scope = sample_scope caller, ko_key = ''k'',
      ko_fingerprint = fingerprint_in sample_env (keyed_post body), ko_claim_id = cid,
      ko_admission = bound_admission sample_env CreateBackgroundRun (sample_scope caller) ''k''
        (fingerprint_in sample_env (keyed_post body)) now\<rparr>"

definition sample_row :: "jsval \<Rightarrow> string option \<Rightarrow> ident \<Rightarrow> instant \<Rightarrow> idempotency_record" where
  "sample_row body caller cid now =
     \<lparr>ir_key = ''k'', ir_scope = sample_scope caller, ir_fingerprint = fingerprint_in sample_env (keyed_post body),
      ir_claim_id = cid, ir_status = InFlight, ir_response = None, ir_run_id = None, ir_thread_id = None,
      ir_created_at = now, ir_updated_at = now, ir_expires_at = now + 100\<rparr>"

lemma header_keyed: "header_key (keyed_post body) = Some ''k''"
  by (simp add: header_key_def keyed_post_def)

lemma key_k: "key_accepted ''k''"
  by (simp add: key_accepted_def MAX_KEY_LENGTH_def VALID_KEY_def)

lemma scope_keyed: "idempotency_scope Some (keyed_post body) caller = sample_scope caller"
  by (simp add: sample_scope_def idempotency_scope_def keyed_post_def sample_post_def upper_method_def path_of_def)

text \<open>A first request on an empty store owns its key.\<close>

lemma sample_begin:
  assumes "idempotency_get (sample_scope caller) ''k'' s = None"
  shows "create_begin sample_env CreateBackgroundRun (keyed_post body) caller auth cid now now s =
     (OwnedCreate (sample_owner body caller cid now),
      s\<lparr>ms_idempotency := jm_set (idempotency_key (sample_scope caller) ''k'') (sample_row body caller cid now)
          (ms_idempotency s)\<rparr>)"
  using assms key_k
  by (simp add: create_begin_def header_keyed key_accepted_def sample_owner_def sample_env_def fingerprint_in_def
      idempotency_claim_op_def idempotency_get_def Let_def scope_keyed sample_row_def claimed_record_def)

text \<open>
  The first request starts at 0 and answers at 40; a retry at 20 is told to wait, one at 60 is
  replayed, and another body under the same key is refused.
\<close>

definition ok_response :: recorded_response where
  "ok_response = \<lparr>rs_status = 200, rs_body = JObj [(''run_id'', JStr ''r1'')], rs_headers = None\<rparr>"

definition in_flight_store :: mem_store where
  "in_flight_store = empty_store\<lparr>ms_idempotency :=
     jm_set (idempotency_key (sample_scope None) ''k'') (sample_row JNull None ''c1'' 0) []\<rparr>"

lemma in_flight_store_begin:
  "create_begin sample_env CreateBackgroundRun (keyed_post JNull) None auth ''c1'' 0 0 empty_store =
     (OwnedCreate (sample_owner JNull None ''c1'' 0), in_flight_store)"
  using sample_begin [of None empty_store JNull auth "''c1''" 0]
  by (simp add: in_flight_store_def idempotency_get_def empty_store_def jm_simps)

lemma in_flight_store_row:
  "idempotency_get (ko_scope (sample_owner JNull None ''c1'' 0)) (ko_key (sample_owner JNull None ''c1'' 0)) in_flight_store =
     Some (sample_row JNull None ''c1'' 0)"
  by (simp add: in_flight_store_def idempotency_get_def empty_store_def sample_owner_def jm_simps)

lemma same_key_sample: "same_key sample_env (keyed_post body) caller (sample_owner body' caller cid now)"
  by (simp add: same_key_def header_keyed sample_owner_def sample_env_def scope_keyed)


text \<open>A create that throws at 40: its error leaves, and the retry at 41 runs again.\<close>

theorem failed_create_retries_witness:
  "\<exists>released own s4.
     create_settle sample_env (sample_owner JNull None ''c1'' 0)
       (create_resolve sample_env (sample_owner JNull None ''c1'' 0) (\<lambda>_. None) (Inl not_found) in_flight_store)
       False False 40 40 in_flight_store = (Inl not_found :: thrown + nat proto_response, released) \<and>
     create_begin sample_env CreateBackgroundRun (keyed_post JNull) None (\<lambda>_. None) ''c2'' 41 41 released =
       (OwnedCreate own, s4)"
proof -
  have nothing_else: "list_all (before_expiry row) []" "st = run_steps idempotency_step [] st" for row st by simp_all
  have none: "admitted_receipt (sample_owner JNull None ''c1'' 0) in_flight_store = None"
    by (simp add: admitted_receipt_def sample_owner_def idempotency_get_def in_flight_store_def jm_simps
        idempotency_key_inject)
  then have failed: "(\<exists>e. Inl not_found = (Inl e :: thrown + nat proto_response)) \<and>
      admitted_receipt (sample_owner JNull None ''c1'' 0) in_flight_store = None \<or>
      (\<exists>r. Inl not_found = (Inr (JsonResponse r) :: thrown + nat proto_response) \<and> 300 \<le> rs_status r)"
    by blast
  let ?settled = "create_settle sample_env (sample_owner JNull None ''c1'' 0)
      (create_resolve sample_env (sample_owner JNull None ''c1'' 0) (\<lambda>_. None) (Inl not_found :: thrown + nat proto_response) in_flight_store)
      False False 40 40 in_flight_store"
  have "?settled = (fst ?settled, snd ?settled)" by simp
  from failed_create_retries [OF empty_store_inv in_flight_store_begin in_flight_store_row nothing_else failed this
      same_key_sample [where body = JNull and caller = None], of CreateBackgroundRun "\<lambda>_. None" "''c2''" 41 41]
  show ?thesis by (metis prod.collapse)
qed

text \<open>Two callers choose the key \<open>k\<close>; the second one's request is admitted.\<close>

theorem tenant_keys_isolated_witness:
  "fst (create_begin sample_env CreateBackgroundRun (keyed_post JNull) (Some ''bob'') (\<lambda>_. None) ''c2'' 20 20
      (empty_store\<lparr>ms_idempotency := jm_set (idempotency_key (sample_scope (Some ''ann'')) ''k'')
         (sample_row JNull (Some ''ann'') ''c1'' 0) (ms_idempotency empty_store)\<rparr>)) =
   OwnedCreate (sample_owner JNull (Some ''bob'') ''c2'' 20)"
proof -
  have "CHR '' '' \<notin> set (upper_method (keyed_post JNull)) \<union> set (path_of (ie_pathname sample_env) (keyed_post JNull))"
    by (simp add: upper_method_def path_of_def keyed_post_def sample_post_def sample_env_def upper_unit_def Let_def char_of_def)
  note isolated = tenant_keys_isolated [OF _ this this refl, of "Some ''bob''" "Some ''ann''"]
  have "idempotency_get (sample_scope (Some ''bob'')) ''k'' empty_store = None"
    by (simp add: idempotency_get_def empty_store_def)
  note starts = sample_begin [OF this, of JNull "\<lambda>_. None" "''c2''" 20]
  show ?thesis
    using isolated [where name = CreateBackgroundRun and auth = "\<lambda>_. None" and cid = "''c2''" and now = 20
        and at_time = 20 and s = empty_store and key = "''k''" and row = "sample_row JNull (Some ''ann'') ''c1'' 0"]
    by (simp add: sample_env_def [THEN arg_cong, of ie_pathname] scope_keyed starts)
qed

text \<open>
  The key of a day-old background create, both rows of which are expired: a request with another body
  claims it and fails, and is answered with the old run.
\<close>

definition old_receipt :: idempotency_record where
  "old_receipt = \<lparr>ir_key = ''k'', ir_scope = ''admission '' @ sample_scope None, ir_fingerprint = ''of another body'',
     ir_claim_id = ''c0'', ir_status = Done, ir_response = None, ir_run_id = Some ''r1'', ir_thread_id = Some ''t1'',
     ir_created_at = 0, ir_updated_at = 0, ir_expires_at = 1000\<rparr>"

definition day_old_store :: mem_store where
  "day_old_store = sample_store\<lparr>ms_idempotency :=
     [(idempotency_key (''admission '' @ sample_scope None) ''k'', old_receipt)]\<rparr>"

theorem failed_create_answers_old_receipt_witness:
  "\<exists>s1 s2. create_begin sample_env CreateBackgroundRun (keyed_post JNull) None (\<lambda>_. None) ''c2'' 2000 2000 day_old_store =
       (OwnedCreate (sample_owner JNull None ''c2'' 2000), s1) \<and>
     create_settle sample_env (sample_owner JNull None ''c2'' 2000)
       (create_resolve sample_env (sample_owner JNull None ''c2'' 2000) (\<lambda>_. None) (Inl not_found) s1)
       False False 2010 2010 s1 =
       (Inr (JsonResponse (admitted_response sample_env (sample_run ''r1'' Running))) :: thrown + nat proto_response, s2)"
proof -
  let ?own = "sample_owner JNull None ''c2'' 2000" and ?row = "sample_row JNull None ''c2'' 2000"
  let ?s = "day_old_store\<lparr>ms_idempotency :=
      jm_set (idempotency_key (sample_scope None) ''k'') ?row (ms_idempotency day_old_store)\<rparr>"
  have free: "idempotency_get (sample_scope None) ''k'' day_old_store = None"
    by (simp add: idempotency_get_def day_old_store_def idempotency_key_inject)
  note starts = sample_begin [OF free, of JNull "\<lambda>_. None" "''c2''" 2000]
  have "keyed_by (\<lambda>r. idempotency_key (ir_scope r) (ir_key r)) (ms_idempotency ?s)"
    by (auto simp: day_old_store_def old_receipt_def sample_row_def intro!: wf_intro) (simp add: keyed_by_def)
  then have held: "row_held ?row ?s"
    by (simp add: row_held_def idempotency_keyed_def idempotency_get_def sample_row_def jm_simps)
  have mine: "owned_row ?own 2100 ?row" by (simp add: owned_row_def sample_row_def sample_owner_def)
  have bound: "ko_admission ?own = Some \<lparr>ak_scope = ''admission '' @ sample_scope None, ak_key = ''k'',
      ak_fingerprint = fingerprint_in sample_env (keyed_post JNull), ak_now = 2000, ak_expires_at = 3000\<rparr>"
    by (simp add: sample_owner_def bound_admission_def sample_env_def)
  have receipt: "idempotency_get (''admission '' @ ko_scope ?own) (ko_key ?own) ?s = Some old_receipt"
    by (simp add: idempotency_get_def sample_owner_def day_old_store_def jm_simps idempotency_key_inject)
  have rid: "ir_run_id old_receipt = Some ''r1''" by (simp add: old_receipt_def)
  have run: "jm_get (ms_runs ?s) ''r1'' = Some (sample_run ''r1'' Running)"
    by (simp add: day_old_store_def sample_store_def)
  from failed_create_answers_old_receipt [OF held mine bound receipt rid _ run, of "\<lambda>_. None" sample_env not_found False 2010 2010,
      where 's = nat]
  show ?thesis using starts by auto
qed

end
