(* ===== verification/RunInputs.thy ===== *)
theory RunInputs
  imports Resources
begin

text \<open>
  What a run request becomes before the store sees it: \<^verbatim>\<open>toKwargs\<close> of \<^verbatim>\<open>runs/run-service.ts\<close>, the
  rollback plans of \<^verbatim>\<open>context.ts\<close> and their stored form, and the status functions of
  \<^verbatim>\<open>runs/run-status.ts\<close>. The kwargs the thread protocol, A2A and native helpers contribute are the
  argument \<open>base\<close>; properties only passed through are \<open>jsval\<close>.
\<close>

section \<open>Statuses\<close>

fun thread_status_for_run :: "run_status \<Rightarrow> thread_status" where
  "thread_status_for_run Running = Busy"
| "thread_status_for_run Interrupted = ThreadInterrupted"
| "thread_status_for_run Errored = ThreadErrored"
| "thread_status_for_run TimedOut = ThreadErrored"
| "thread_status_for_run Pending = Idle"
| "thread_status_for_run Success = Idle"
| "thread_status_for_run Cancelled = Idle"

definition can_transition :: "run_status \<Rightarrow> run_status \<Rightarrow> bool" where
  "can_transition from to =
     (if is_terminal_run_status from then False
      else if from = to then False
      else if from = Running \<and> to = Pending then False
      else True)"

text \<open>A run that only makes allowed transitions settles once: no chain of them leaves a terminal status.\<close>

lemma can_transition_terminal: "is_terminal_run_status from \<Longrightarrow> \<not> can_transition from to"
  by (simp add: can_transition_def)

fun steps_left :: "run_status \<Rightarrow> nat" where
  "steps_left Pending = 2"
| "steps_left Running = 1"
| "steps_left _ = 0"

lemma can_transition_measure: "can_transition a b \<Longrightarrow> steps_left b < steps_left a"
  by (cases a; cases b) (simp_all add: can_transition_def)

section \<open>Rollback plans\<close>

datatype revert_target = NoRevert | RevertTo "ident option"

record rollback_plan =
  rp_revert_to :: revert_target
  rp_displaced :: "ident list"

definition to_stored_rollback_plan :: "rollback_plan \<Rightarrow> jsval" where
  "to_stored_rollback_plan plan =
     JObj [(''revert_to_checkpoint'',
            (case rp_revert_to plan of
               NoRevert \<Rightarrow> JBool False
             | RevertTo base \<Rightarrow>
                 JObj [(''base_checkpoint_id'', case base of None \<Rightarrow> JNull | Some c \<Rightarrow> JStr c)])),
           (''displaced_run_ids'', JArr (map JStr (rp_displaced plan)))]"

definition js_strings :: "jsval \<Rightarrow> ident list" where
  "js_strings v =
     (case v of JArr xs \<Rightarrow> concat (map (\<lambda>x. case x of JStr s \<Rightarrow> [s] | _ \<Rightarrow> []) xs) | _ \<Rightarrow> [])"

text \<open>\<open>kw_rest\<close> holds the stored plan under \<^verbatim>\<open>rollback_plan\<close>.\<close>

definition stored_rollback_plan :: "run_kwargs \<Rightarrow> rollback_plan option" where
  "stored_rollback_plan kwargs =
     (case jm_get (kw_rest kwargs) ''rollback_plan'' of
        Some (JObj stored) \<Rightarrow>
          Some \<lparr>rp_revert_to =
                  (case jm_get stored ''revert_to_checkpoint'' of
                     Some (JObj target) \<Rightarrow>
                       (case jm_get target ''base_checkpoint_id'' of
                          Some (JStr c) \<Rightarrow> RevertTo (Some c)
                        | _ \<Rightarrow> RevertTo None)
                   | _ \<Rightarrow> NoRevert),
                rp_displaced =
                  (case jm_get stored ''displaced_run_ids'' of Some v \<Rightarrow> js_strings v | None \<Rightarrow> [])\<rparr>
      | _ \<Rightarrow> None)"

definition with_rollback_plan :: "rollback_plan option \<Rightarrow> run_kwargs \<Rightarrow> run_kwargs" where
  "with_rollback_plan plan kwargs =
     (case plan of
        None \<Rightarrow> kwargs
      | Some p \<Rightarrow> kwargs\<lparr>kw_rest := jm_set ''rollback_plan'' (to_stored_rollback_plan p) (kw_rest kwargs)\<rparr>)"

lemma js_strings_map [simp]: "js_strings (JArr (map JStr xs)) = xs"
  by (induction xs) (simp_all add: js_strings_def)

lemma stored_plan_roundtrip: "stored_rollback_plan (with_rollback_plan (Some p) kwargs) = Some p"
  by (cases p; cases "rp_revert_to p")
    (auto simp: stored_rollback_plan_def with_rollback_plan_def to_stored_rollback_plan_def jm_simps
      split: option.split)

lemma plan_survives_wire:
  "serialize_wire_json (to_stored_rollback_plan p) = Some (to_stored_rollback_plan p)"
  by (rule serialize_wire_json_id)
    (auto simp: to_stored_rollback_plan_def split: revert_target.split option.split)

section \<open>Kwargs\<close>

datatype stored_durability = DSync | DAsync | DExit

record create_run_input =
  ci_assistant_id :: ident
  ci_thread_id :: "ident option"
  ci_timeout_ms :: "int option"
  ci_input :: "jsval option"
  ci_command :: "jsval option"
  ci_config :: "jsval option"
  ci_context :: "jsval option"
  ci_stream_mode :: "jsval option"
  ci_stream_subgraphs :: bool
  ci_durability :: "stored_durability option"
  ci_checkpoint_during :: "bool option"
  ci_checkpoint :: "jsobj option"
  ci_checkpoint_id :: "ident option"
  ci_metadata :: "jsval option"
  ci_multitask_strategy :: "multitask_strategy option"
  ci_interrupt_before :: "jsval option"
  ci_interrupt_after :: "jsval option"
  ci_webhook :: "string option"
  ci_delete_on_completion :: bool
  ci_create_missing_thread :: bool
  ci_after_seconds :: "int option"
  ci_if_thread_status :: "thread_status list option"

definition opt_field :: "string \<Rightarrow> jsval option \<Rightarrow> jsobj" where
  "opt_field name v = (case v of None \<Rightarrow> [] | Some x \<Rightarrow> [(name, x)])"

fun durability_text :: "stored_durability \<Rightarrow> string" where
  "durability_text DSync = ''sync''"
| "durability_text DAsync = ''async''"
| "durability_text DExit = ''exit''"

fun string_value :: "jsval \<Rightarrow> bool" where
  "string_value (JStr _) = True"
| "string_value _ = False"

text \<open>The checkpoint a client put into \<^verbatim>\<open>config.configurable\<close>: only fields of the right type count.\<close>

definition string_property :: "string \<Rightarrow> jsobj \<Rightarrow> jsobj" where
  "string_property name ps =
     (case jm_get ps name of Some (JStr s) \<Rightarrow> [(name, JStr s)] | _ \<Rightarrow> [])"

definition config_checkpoint :: "jsval option \<Rightarrow> jsobj option" where
  "config_checkpoint config =
     (case config of
        Some (JObj c) \<Rightarrow>
          (case jm_get c ''configurable'' of
             Some (JObj configurable) \<Rightarrow>
               Some (string_property ''checkpoint_id'' configurable @
                     string_property ''checkpoint_ns'' configurable @
                     (case jm_get configurable ''checkpoint_map'' of
                        Some (JObj m) \<Rightarrow>
                          if list_all (\<lambda>e. string_value (snd e)) m then [(''checkpoint_map'', JObj m)] else []
                      | _ \<Rightarrow> []))
           | Some (JArr _) \<Rightarrow> Some []
           | _ \<Rightarrow> None)
      | _ \<Rightarrow> None)"

definition or_else :: "'a option \<Rightarrow> 'a option \<Rightarrow> 'a option" where
  "or_else x y = (case x of None \<Rightarrow> y | Some v \<Rightarrow> Some v)"

definition checkpoint_id_of :: "jsobj \<Rightarrow> ident option" where
  "checkpoint_id_of ps = (case jm_get ps ''checkpoint_id'' of Some (JStr s) \<Rightarrow> Some s | _ \<Rightarrow> None)"

definition run_checkpoint :: "create_run_input \<Rightarrow> jsobj option" where
  "run_checkpoint input = or_else (ci_checkpoint input) (config_checkpoint (ci_config input))"

definition run_checkpoint_id :: "create_run_input \<Rightarrow> ident option" where
  "run_checkpoint_id input =
     or_else (ci_checkpoint_id input)
       (case run_checkpoint input of None \<Rightarrow> None | Some c \<Rightarrow> checkpoint_id_of c)"

definition run_durability :: "create_run_input \<Rightarrow> stored_durability option" where
  "run_durability input =
     (case ci_durability input of
        Some d \<Rightarrow> Some d
      | None \<Rightarrow> map_option (\<lambda>during. if during then DAsync else DExit) (ci_checkpoint_during input))"

text \<open>
  \<open>toKwargs\<close>. \<open>native_owns\<close> is \<^verbatim>\<open>readNativeOrigin(kwargs)?.ownsThread\<close>; the caller's identity is
  stored with its scopes, which are never stored alone.
\<close>

definition to_kwargs ::
  "run_kwargs \<Rightarrow> bool \<Rightarrow> create_run_input \<Rightarrow> bool \<Rightarrow> jsval option \<Rightarrow> jsval option \<Rightarrow> run_kwargs" where
  "to_kwargs base native_owns input owns_thread auth_user auth_scopes =
     base
       \<lparr>kw_delete_thread_on_completion :=
          kw_delete_thread_on_completion base \<or>
          ((owns_thread \<or> native_owns) \<and> ci_delete_on_completion input),
        kw_timeout_ms := or_else (ci_timeout_ms input) (kw_timeout_ms base),
        kw_webhook := or_else (ci_webhook input) (kw_webhook base),
        kw_rest :=
          kw_rest base @
          opt_field ''input'' (ci_input input) @
          opt_field ''command'' (ci_command input) @
          opt_field ''config'' (ci_config input) @
          opt_field ''context'' (ci_context input) @
          opt_field ''stream_mode'' (ci_stream_mode input) @
          opt_field ''stream_subgraphs'' (if ci_stream_subgraphs input then Some (JBool True) else None) @
          opt_field ''interrupt_before'' (ci_interrupt_before input) @
          opt_field ''interrupt_after'' (ci_interrupt_after input) @
          opt_field ''checkpoint'' (map_option JObj (run_checkpoint input)) @
          opt_field ''checkpoint_id'' (map_option JStr (run_checkpoint_id input)) @
          opt_field ''durability'' (map_option (\<lambda>d. JStr (durability_text d)) (run_durability input)) @
          (case auth_user of
             None \<Rightarrow> []
           | Some user \<Rightarrow> (''auth_user'', user) # opt_field ''auth_scopes'' auth_scopes)\<rparr>"

definition client_fields :: "string list" where
  "client_fields = [''input'', ''command'', ''config'', ''context'', ''stream_mode'', ''stream_subgraphs'',
     ''interrupt_before'', ''interrupt_after'', ''checkpoint'', ''checkpoint_id'', ''durability'']"

text \<open>
  A request cannot speak for another caller: the identity stored with a run is the server's, and no
  field of the request reaches it or the server's rollback plan.
\<close>

lemma opt_field_get: "jm_get (opt_field name v) k = (if k = name then v else None)"
  by (simp add: opt_field_def split: option.split)

lemma to_kwargs_auth:
  assumes "jm_get (kw_rest base) ''auth_user'' = None" "jm_get (kw_rest base) ''auth_scopes'' = None"
    "jm_get (kw_rest base) ''rollback_plan'' = None"
  shows "jm_get (kw_rest (to_kwargs base native_owns input owns_thread user scopes)) ''auth_user'' = user"
    and "jm_get (kw_rest (to_kwargs base native_owns input owns_thread user scopes)) ''auth_scopes'' =
           (if user = None then None else scopes)"
    and "stored_rollback_plan (to_kwargs base native_owns input owns_thread user scopes) = None"
  using assms
  by (auto simp: to_kwargs_def map_add_def opt_field_get stored_rollback_plan_def split: option.splits)

end
