(* ===== verification/RunService.thy ===== *)
theory RunService
  imports RunInputs RunCancellation AdmissionHistory StoreThreads StoreIdempotency
begin

text \<open>
  The run service of \<^verbatim>\<open>runs/run-service.ts\<close> over the memory store, for runs that are not native
  (\<^verbatim>\<open>readNativeOrigin\<close> is absent): creating a pending run under each multitask strategy, cancelling
  one run or a set, deleting and joining. Its state is the store, the cancellation registry, the
  in-process rollback plans and base checkpoints, and what was closed, queued and published.

  Every await is an interleaving point: the argument \<open>gap\<close> says what the other requests, the engine
  and other instances did to the state at the n-th one, and \<open>now\<close> what the store's clock read in the
  n-th operation. Nothing is assumed of \<open>gap\<close> in a definition; a theorem says what it relies on.
\<close>

section \<open>State\<close>

record run_service =
  sv_store :: mem_store
  sv_control :: control_registry
  sv_sent :: "(ident \<times> abort_reason) list"
  sv_closed :: "ident list"
  sv_queue :: "(ident \<times> ident \<times> int) list"
  sv_rollback_plans :: "(ident, rollback_plan) jsmap"
  sv_base_checkpoints :: "(ident, ident option) jsmap"

type_synonym gaps = "nat \<Rightarrow> run_service \<Rightarrow> run_service"

definition later :: "nat \<Rightarrow> (nat \<Rightarrow> 'a) \<Rightarrow> nat \<Rightarrow> 'a" where
  "later k f n = f (k + n)"

text \<open>Nothing else happens.\<close>

definition no_gap :: gaps where "no_gap = (\<lambda>_ sv. sv)"

lemma no_gap_simps [simp]: "no_gap n sv = sv" "later k no_gap = no_gap"
  by (simp_all add: no_gap_def later_def fun_eq_iff)

definition close_bus :: "ident \<Rightarrow> run_service \<Rightarrow> run_service" where
  "close_bus run_id sv = sv\<lparr>sv_closed := run_id # sv_closed sv\<rparr>"

definition control_abort :: "ident \<Rightarrow> abort_reason \<Rightarrow> run_service \<Rightarrow> run_service" where
  "control_abort run_id reason sv =
     (let ((_, sent), R) = abort_run run_id reason (sv_control sv)
      in sv\<lparr>sv_control := R, sv_sent := sent @ sv_sent sv\<rparr>)"

definition drop_plan :: "ident \<Rightarrow> run_service \<Rightarrow> run_service" where
  "drop_plan run_id sv = sv\<lparr>sv_rollback_plans := jm_delete run_id (sv_rollback_plans sv)\<rparr>"

section \<open>Reads\<close>

text \<open>\<^verbatim>\<open>readBaseCheckpoint\<close>: \<open>None\<close> is a run that recorded no base, \<open>Some None\<close> one that recorded none to be there.\<close>

definition read_base_checkpoint :: "ident \<Rightarrow> run_service \<Rightarrow> ident option option" where
  "read_base_checkpoint run_id sv =
     (case jm_get (sv_base_checkpoints sv) run_id of
        Some c \<Rightarrow> Some c
      | None \<Rightarrow>
          (case get_kwargs run_id (sv_store sv) of
             None \<Rightarrow> None
           | Some kwargs \<Rightarrow>
               (case kw_base_checkpoint_id kwargs of
                  Undefined \<Rightarrow> None
                | Null \<Rightarrow> Some None
                | Value c \<Rightarrow> Some (Some c))))"

definition require_thread :: "ident \<Rightarrow> run_service \<Rightarrow> thrown + thread_view" where
  "require_thread thread_id sv =
     (case thread_get thread_id (sv_store sv) of None \<Rightarrow> Inl not_found | Some t \<Rightarrow> Inr t)"

definition require_assistant :: "ident \<Rightarrow> run_service \<Rightarrow> thrown + assistant" where
  "require_assistant assistant_id sv =
     (case jm_get (ms_assistants (sv_store sv)) assistant_id of None \<Rightarrow> Inl not_found | Some a \<Rightarrow> Inr a)"

definition require_run :: "ident \<Rightarrow> run_service \<Rightarrow> thrown + run" where
  "require_run run_id sv = (case run_get run_id (sv_store sv) of None \<Rightarrow> Inl not_found | Some r \<Rightarrow> Inr r)"

section \<open>Displacing\<close>

text \<open>\<open>cancelActiveRun\<close>; \<open>run\<close> is the row as it was listed, which the gaps may have left behind.\<close>

definition displaced_status :: "abort_reason \<Rightarrow> run_status" where
  "displaced_status reason = (if reason = ByInterrupt then Interrupted else Cancelled)"

definition cancel_active_run ::
  "gaps \<Rightarrow> (nat \<Rightarrow> instant) \<Rightarrow> run \<Rightarrow> abort_reason \<Rightarrow> run_service \<Rightarrow> thrown option \<times> run_service" where
  "cancel_active_run gap now r reason sv =
     (let sv1 = gap 0 sv in
      case set_status (r_run_id r) (displaced_status reason) None (now 0) (sv_store sv1) of
        (Inl e, _) \<Rightarrow> (Some e, sv1)
      | (Inr _, st) \<Rightarrow>
          let sv2 = gap 1 (sv1\<lparr>sv_store := st\<rparr>);
              sv3 = (if r_status r = Pending then gap 2 (close_bus (r_run_id r) sv2) else sv2)
          in (None, control_abort (r_run_id r) reason sv3))"

fun displace_all ::
  "gaps \<Rightarrow> (nat \<Rightarrow> instant) \<Rightarrow> abort_reason \<Rightarrow> run list \<Rightarrow> run_service \<Rightarrow> thrown option \<times> run_service" where
  "displace_all gap now reason [] sv = (None, sv)"
| "displace_all gap now reason (r # rs) sv =
     (case cancel_active_run gap now r reason sv of
        (Some e, sv') \<Rightarrow> (Some e, sv')
      | (None, sv') \<Rightarrow> displace_all (later 3 gap) (later 1 now) reason rs sv')"

text \<open>The last displaced run with a recorded base decides what to revert to.\<close>

fun revert_target_of :: "run list \<Rightarrow> run_service \<Rightarrow> revert_target \<Rightarrow> revert_target" where
  "revert_target_of [] sv target = target"
| "revert_target_of (r # rs) sv target =
     revert_target_of rs sv
       (case read_base_checkpoint (r_run_id r) sv of None \<Rightarrow> target | Some base \<Rightarrow> RevertTo base)"

definition plan_rollback :: "run list \<Rightarrow> run_service \<Rightarrow> rollback_plan" where
  "plan_rollback active sv =
     \<lparr>rp_revert_to = revert_target_of active sv NoRevert, rp_displaced = map r_run_id active\<rparr>"

section \<open>Inserting\<close>

datatype inserted = ThreadBusy | CreatedRun run | AdmittedRun run | ReplayedRun run

text \<open>
  The insert without an admission key: the plain create, the atomic idle check, or the atomic status
  precondition.
\<close>

definition plain_insert ::
  "thread_status list option \<Rightarrow> run_create \<Rightarrow> bool \<Rightarrow> ident \<Rightarrow> instant \<Rightarrow> run_service \<Rightarrow>
   (thrown + inserted) \<times> run_service" where
  "plain_insert if_thread_status create require_idle uuid now sv =
     (case if_thread_status of
        None \<Rightarrow>
          if \<not> require_idle
          then (case create_run create uuid now (sv_store sv) of
                  (Inl e, st) \<Rightarrow> (Inl e, sv\<lparr>sv_store := st\<rparr>)
                | (Inr r, st) \<Rightarrow> (Inr (CreatedRun r), sv\<lparr>sv_store := st\<rparr>))
          else (case create_if_thread_idle create uuid now (sv_store sv) of
                  (Inl e, st) \<Rightarrow> (Inl e, sv\<lparr>sv_store := st\<rparr>)
                | (Inr None, st) \<Rightarrow> (Inr ThreadBusy, sv\<lparr>sv_store := st\<rparr>)
                | (Inr (Some r), st) \<Rightarrow> (Inr (CreatedRun r), sv\<lparr>sv_store := st\<rparr>))
      | Some statuses \<Rightarrow>
          (case create_if_thread_matches create
                  \<lparr>rg_require_no_active_run = require_idle, rg_thread_status_in = Some statuses\<rparr>
                  uuid now (sv_store sv) of
             (Inl e, st) \<Rightarrow> (Inl e, sv\<lparr>sv_store := st\<rparr>)
           | (Inr (GuardedRun r), st) \<Rightarrow> (Inr (CreatedRun r), sv\<lparr>sv_store := st\<rparr>)
           | (Inr RefusedThreadBusy, st) \<Rightarrow> (Inr ThreadBusy, sv\<lparr>sv_store := st\<rparr>)
           | (Inr (RefusedStatusMismatch _), st) \<Rightarrow>
               (Inl (conflict (Some ''thread_status_mismatch'')), sv\<lparr>sv_store := st\<rparr>)))"

text \<open>
  The insert under an admission key: one atomic admission with its displacements, which are signalled
  only when this admission is the one that committed them.
\<close>

definition admission_insert ::
  "gaps \<Rightarrow> admission_key \<Rightarrow> bool \<Rightarrow> thread_status list option \<Rightarrow> run_create \<Rightarrow> bool \<Rightarrow> abort_reason \<Rightarrow>
   run list \<Rightarrow> (nat \<Rightarrow> ident) \<Rightarrow> instant \<Rightarrow> run_service \<Rightarrow> (thrown + inserted) \<times> run_service" where
  "admission_insert gap key aborted if_thread_status create require_idle reason displaced fresh now sv =
     (if aborted then (Inl Aborted, sv)
      else if (case rc_kwargs create of None \<Rightarrow> True | Some k \<Rightarrow> kw_queue_not_before k = None)
      then (Inl (Http \<lparr>he_status = 422, he_code = None\<rparr>), sv)
      else
        let create' = create\<lparr>rc_run_id := Some (or_default (rc_run_id create) (fresh 0))\<rparr>;
            admission =
              \<lparr>ak_scope = ak_scope key, ak_key = ak_key key, ak_fingerprint = ak_fingerprint key,
               ak_now = ak_now key, ak_expires_at = ak_expires_at key,
               ra_aborted = aborted, ra_run = create',
               ra_guard = \<lparr>rg_require_no_active_run = require_idle, rg_thread_status_in = if_thread_status\<rparr>,
               ra_expected_run_id = None,
               ra_displacements =
                 map (\<lambda>r. (r_run_id r, \<lparr>se_status = displaced_status reason, se_error = None,
                                         se_result = None, se_delivery = None\<rparr>)) displaced\<rparr>
        in (case admit_run admission fresh now (sv_store sv) of
              (Inl e, st) \<Rightarrow> (Inl e, sv\<lparr>sv_store := st\<rparr>)
            | (Inr receipt, st) \<Rightarrow>
                let sv1 = gap 0 (sv\<lparr>sv_store := st\<rparr>) in
                (case run_get (ar_run_id receipt) (sv_store sv1) of
                   None \<Rightarrow> (Inl not_found, sv1)
                 | Some r \<Rightarrow>
                     if Some (ar_run_id receipt) = rc_run_id create'
                     then (Inr (AdmittedRun r), fold (\<lambda>d. control_abort (r_run_id d) reason) displaced sv1)
                     else (Inr (ReplayedRun r), sv1))))"

section \<open>Creating a pending run\<close>

record create_context =
  cx_admission :: "admission_key option"
  cx_aborted :: bool
  cx_fresh :: "nat \<Rightarrow> ident"

definition guarded_insert ::
  "gaps \<Rightarrow> create_context \<Rightarrow> thread_status list option \<Rightarrow> run_create \<Rightarrow> bool \<Rightarrow> abort_reason \<Rightarrow> run list \<Rightarrow>
   instant \<Rightarrow> run_service \<Rightarrow> (thrown + inserted) \<times> run_service" where
  "guarded_insert gap cx if_thread_status create require_idle reason displaced now sv =
     (case cx_admission cx of
        None \<Rightarrow> plain_insert if_thread_status create require_idle (cx_fresh cx 0) now sv
      | Some key \<Rightarrow>
          admission_insert gap key (cx_aborted cx) if_thread_status create require_idle reason displaced
            (cx_fresh cx) now sv)"

definition busy_is_error :: "(thrown + inserted) \<Rightarrow> thrown + inserted" where
  "busy_is_error out =
     (case out of
        Inr ThreadBusy \<Rightarrow> Inl (Http \<lparr>he_status = 422, he_code = Some ''thread_busy''\<rparr>)
      | _ \<Rightarrow> out)"

definition pending_create ::
  "create_run_input \<Rightarrow> ident \<Rightarrow> ident \<Rightarrow> run_kwargs \<Rightarrow> run_create" where
  "pending_create input thread_id assistant_id kwargs =
     \<lparr>rc_thread_id = thread_id, rc_assistant_id = assistant_id, rc_run_id = None, rc_status = Some Pending,
      rc_metadata = ci_metadata input,
      rc_multitask_strategy = Some (or_default (ci_multitask_strategy input) MReject),
      rc_kwargs = Some kwargs\<rparr>"

text \<open>
  Under an admission key the active runs are displaced by the admission itself; otherwise one by one
  before the insert.
\<close>

definition displace ::
  "gaps \<Rightarrow> create_context \<Rightarrow> (nat \<Rightarrow> instant) \<Rightarrow> abort_reason \<Rightarrow> run list \<Rightarrow> run_service \<Rightarrow>
   thrown option \<times> run_service" where
  "displace gap cx now reason active sv =
     (if cx_admission cx = None then displace_all gap now reason active sv else (None, sv))"

definition insert_displacing ::
  "gaps \<Rightarrow> create_context \<Rightarrow> (nat \<Rightarrow> instant) \<Rightarrow> create_run_input \<Rightarrow> run_create \<Rightarrow> abort_reason \<Rightarrow> run list \<Rightarrow>
   rollback_plan option \<Rightarrow> thrown option \<times> run_service \<Rightarrow> (thrown + inserted) \<times> run_service" where
  "insert_displacing gap cx now input create reason displaced plan displacing =
     (case displacing of
        (Some e, sv) \<Rightarrow> (Inl e, sv)
      | (None, sv) \<Rightarrow>
          let (out, sv') = guarded_insert gap cx (ci_if_thread_status input) create False reason displaced
                (now (length displaced)) sv
          in (busy_is_error out,
              case (out, plan) of
                (Inr (CreatedRun r), Some p) \<Rightarrow>
                  sv'\<lparr>sv_rollback_plans := jm_set (r_run_id r) p (sv_rollback_plans sv')\<rparr>
              | (Inr (AdmittedRun r), Some p) \<Rightarrow>
                  sv'\<lparr>sv_rollback_plans := jm_set (r_run_id r) p (sv_rollback_plans sv')\<rparr>
              | (Inr (ReplayedRun r), Some p) \<Rightarrow>
                  sv'\<lparr>sv_rollback_plans := jm_set (r_run_id r) p (sv_rollback_plans sv')\<rparr>
              | _ \<Rightarrow> sv'))"

definition create_pending_run ::
  "gaps \<Rightarrow> (nat \<Rightarrow> instant) \<Rightarrow> create_context \<Rightarrow> create_run_input \<Rightarrow> ident \<Rightarrow> ident \<Rightarrow> run_kwargs \<Rightarrow>
   run_service \<Rightarrow> (thrown + inserted) \<times> run_service" where
  "create_pending_run gap now cx input thread_id assistant_id kwargs sv =
     (let strategy = or_default (ci_multitask_strategy input) MReject in
      if strategy = MReject
      then let (out, sv') = guarded_insert gap cx (ci_if_thread_status input)
                 (pending_create input thread_id assistant_id kwargs) True ByInterrupt [] (now 0) sv
           in (busy_is_error out, sv')
      else
        let active = list_active_runs (Some thread_id) (sv_store sv);
            sv1 = gap 0 sv
        in if strategy = MInterrupt \<and> active \<noteq> []
           then insert_displacing (later (1 + 3 * length active) gap) cx now input
                  (pending_create input thread_id assistant_id kwargs) ByInterrupt active None
                  (displace (later 1 gap) cx now ByInterrupt active sv1)
           else if strategy = MRollback \<and> active \<noteq> []
           then let plan = plan_rollback active sv1
                in insert_displacing (later (1 + 3 * length active) gap) cx now input
                     (pending_create input thread_id assistant_id (with_rollback_plan (Some plan) kwargs))
                     ByRollback active (Some plan)
                     (displace (later 1 gap) cx now ByRollback active sv1)
           else insert_displacing (later 1 gap) cx now input
                  (pending_create input thread_id assistant_id kwargs) ByInterrupt [] None (None, sv1))"

section \<open>What the operations do to a thread's active runs\<close>

definition active_ids :: "ident \<Rightarrow> mem_store \<Rightarrow> ident list" where
  "active_ids thread_id s = map fst (filter (\<lambda>e. is_active_on thread_id (snd e)) (ms_runs s))"

text \<open>
  What a creation relies on while it holds the thread's creation lock: the other requests keep the
  store well formed and make no run of this thread active.
\<close>

definition quiet :: "ident \<Rightarrow> run_service \<Rightarrow> run_service \<Rightarrow> bool" where
  "quiet thread_id sv sv' \<longleftrightarrow>
     store_inv (sv_store sv) \<longrightarrow>
     store_inv (sv_store sv') \<and> ms_max_page_size (sv_store sv') = ms_max_page_size (sv_store sv) \<and>
     set (active_ids thread_id (sv_store sv')) \<subseteq> set (active_ids thread_id (sv_store sv))"

lemma active_ids_iff:
  "store_inv s \<Longrightarrow> i \<in> set (active_ids t s) \<longleftrightarrow> (\<exists>r. map_of (ms_runs s) i = Some r \<and> is_active_on t r)"
  using store_inv_run_wf [of s] by (force simp: active_ids_def dest: map_of_SomeD intro: map_of_is_SomeI)

lemma service_store_simps [simp]:
  "sv_store (close_bus i sv) = sv_store sv"
  "sv_store (control_abort i reason sv) = sv_store sv"
  "sv_store (drop_plan i sv) = sv_store sv"
  by (simp_all add: close_bus_def control_abort_def drop_plan_def case_prod_beta Let_def)

lemma quiet_later: "\<forall>n sv. quiet t sv (gap n sv) \<Longrightarrow> \<forall>n sv. quiet t sv (later k gap n sv)"
  by (simp add: later_def)

lemma set_status_terminal_active:
  assumes "store_inv s" and "is_terminal_run_status st" and "set_status i st err now s = (Inr r, s')"
  shows "store_inv s' \<and> ms_max_page_size s' = ms_max_page_size s \<and>
         set (active_ids t s') \<subseteq> set (active_ids t s) - {i}"
proof -
  have inv: "store_inv s'" using set_status_store_inv [OF assms(1), of i st err now] assms(3) by simp
  have "ms_runs s' = jm_set i r (ms_runs s)" "is_terminal_run_status (r_status r)" "ms_max_page_size s' = ms_max_page_size s"
    using assms(2,3) by (auto simp: set_status_def Let_def split: option.splits if_splits)
  then show ?thesis
    using inv assms(1) by (auto simp: active_ids_iff jm_get_set is_active_on_def split: if_splits)
qed

lemma displaced_status_terminal [simp]: "is_terminal_run_status (displaced_status reason)"
  by (simp add: displaced_status_def)

lemma cancel_active_run_frees:
  assumes "\<forall>n sv. quiet t sv (gap n sv)" and "store_inv (sv_store sv)"
    and "cancel_active_run gap now r reason sv = (None, sv')"
  shows "store_inv (sv_store sv') \<and> ms_max_page_size (sv_store sv') = ms_max_page_size (sv_store sv) \<and>
         set (active_ids t (sv_store sv')) \<subseteq> set (active_ids t (sv_store sv)) - {r_run_id r}"
proof -
  let ?sv1 = "gap 0 sv"
  obtain row st where set: "set_status (r_run_id r) (displaced_status reason) None (now 0) (sv_store ?sv1) = (Inr row, st)"
    using assms(3) by (auto simp: cancel_active_run_def Let_def split: sum.splits prod.splits)
  let ?sv2 = "gap 1 (?sv1\<lparr>sv_store := st\<rparr>)"
  let ?sv3 = "if r_status r = Pending then gap 2 (close_bus (r_run_id r) ?sv2) else ?sv2"
  have sv': "sv_store sv' = sv_store ?sv3"
    using assms(3) set by (auto simp: cancel_active_run_def Let_def)
  have one: "quiet t sv ?sv1" "quiet t (?sv1\<lparr>sv_store := st\<rparr>) ?sv2"
    "quiet t (close_bus (r_run_id r) ?sv2) (gap 2 (close_bus (r_run_id r) ?sv2))"
    using assms(1) by blast+
  have two: "store_inv (sv_store ?sv1) \<and> ms_max_page_size (sv_store ?sv1) = ms_max_page_size (sv_store sv) \<and>
      set (active_ids t (sv_store ?sv1)) \<subseteq> set (active_ids t (sv_store sv))"
    using one(1) assms(2) by (simp add: quiet_def)
  then have three: "store_inv st \<and> ms_max_page_size st = ms_max_page_size (sv_store sv) \<and>
      set (active_ids t st) \<subseteq> set (active_ids t (sv_store sv)) - {r_run_id r}"
    using set_status_terminal_active [OF _ displaced_status_terminal set, of t] by auto
  then have four: "store_inv (sv_store ?sv2) \<and> ms_max_page_size (sv_store ?sv2) = ms_max_page_size (sv_store sv) \<and>
      set (active_ids t (sv_store ?sv2)) \<subseteq> set (active_ids t (sv_store sv)) - {r_run_id r}"
    using one(2) by (auto simp: quiet_def)
  then show ?thesis using one(3) unfolding sv' by (auto simp: quiet_def)
qed

lemma displace_all_frees:
  assumes "\<forall>n sv. quiet t sv (gap n sv)" and "store_inv (sv_store sv)"
    and "displace_all gap now reason rs sv = (None, sv')"
  shows "store_inv (sv_store sv') \<and> ms_max_page_size (sv_store sv') = ms_max_page_size (sv_store sv) \<and>
         set (active_ids t (sv_store sv')) \<subseteq> set (active_ids t (sv_store sv)) - r_run_id ` set rs"
  using assms
proof (induction rs arbitrary: gap now sv)
  case (Cons r rs)
  obtain sv1 where step: "cancel_active_run gap now r reason sv = (None, sv1)"
    and rest: "displace_all (later 3 gap) (later 1 now) reason rs sv1 = (None, sv')"
    using Cons.prems(3) by (auto split: prod.splits option.splits)
  note freed = cancel_active_run_frees [OF Cons.prems(1,2) step]
  from Cons.IH [OF quiet_later [OF Cons.prems(1)] _ rest] freed show ?case by auto
qed simp

lemma listed_active:
  assumes "store_inv s" and "length (active_ids t s) \<le> ms_max_page_size s"
  shows "map r_run_id (list_active_runs (Some t) s) = active_ids t s"
proof -
  have rows: "filter (\<lambda>r. unconstrained (Some t) (\<lambda>i. r_thread_id r = i) \<and> \<not> is_terminal_run_status (r_status r))
      (jm_values (ms_runs s)) = map snd (filter (\<lambda>e. is_active_on t (snd e)) (ms_runs s))"
    by (simp add: filter_map comp_def unconstrained_def is_active_on_def)
  have ids: "map r_run_id (map snd (filter (\<lambda>e. is_active_on t (snd e)) (ms_runs s))) = active_ids t s"
    using assms(1) by (auto simp: active_ids_def store_inv_def run_inv_def keyed_by_def)
  have "length (filter (\<lambda>e. is_active_on t (snd e)) (ms_runs s)) \<le> ms_max_page_size s"
    using assms(2) by (simp add: active_ids_def)
  then show ?thesis
    using ids by (simp add: list_active_runs_def rows page_def page_limit_def)
qed

lemma plain_insert_creates:
  assumes "rc_run_id create = None"
    and "plain_insert sts create idle uuid now sv = (Inr (CreatedRun r), sv')"
  shows "sv_store sv' = with_new_run create uuid now (sv_store sv) \<and> r = new_run create uuid now \<and>
         uuid \<notin> fst ` set (ms_runs (sv_store sv)) \<and>
         (idle \<longrightarrow> \<not> has_active_run (rc_thread_id create) (sv_store sv))"
  using assms
  by (auto simp: plain_insert_def create_if_thread_idle_def create_if_thread_matches_def create_run_eq
      has_active_run_def jm_has_iff map_of_eq_None_iff
      split: option.splits if_splits sum.splits prod.splits guarded_run_create.splits)

lemma with_new_run_active:
  assumes "store_inv s" and "rc_run_id create = None" and "rc_status create = Some Pending"
    and "uuid \<notin> fst ` set (ms_runs s)"
  shows "set (active_ids (rc_thread_id create) (with_new_run create uuid now s)) =
         insert uuid (set (active_ids (rc_thread_id create) s))"
  using assms by (auto simp: active_ids_def frame_simps jm_set_new is_active_on_def)

lemma plain_insert_kept: "plain_insert sts create idle uuid now sv = (Inr ThreadBusy, sv') \<Longrightarrow> sv' = sv"
  by (auto simp: plain_insert_def create_if_thread_idle_def create_if_thread_matches_def create_run_eq
      split: option.splits if_splits sum.splits prod.splits guarded_run_create.splits)

lemma busy_is_error_created [simp]: "busy_is_error out = Inr (CreatedRun r) \<longleftrightarrow> out = Inr (CreatedRun r)"
  by (auto simp: busy_is_error_def split: sum.split inserted.split)

lemma quiet_gap:
  assumes "quiet t sv (gap sv)" and "store_inv (sv_store sv)"
  shows "store_inv (sv_store (gap sv))" "ms_max_page_size (sv_store (gap sv)) = ms_max_page_size (sv_store sv)"
    "set (active_ids t (sv_store (gap sv))) \<subseteq> set (active_ids t (sv_store sv))"
  using assms by (auto simp: quiet_def)

lemma insert_displacing_creates:
  assumes "insert_displacing gap cx now input create reason displaced plan (e, sv) = (Inr (CreatedRun r), sv')"
    and "cx_admission cx = None" and "store_inv (sv_store sv)"
    and "rc_run_id create = None" and "rc_status create = Some Pending"
  shows "e = None \<and> r_run_id r = cx_fresh cx 0 \<and>
         set (active_ids (rc_thread_id create) (sv_store sv')) =
           insert (r_run_id r) (set (active_ids (rc_thread_id create) (sv_store sv))) \<and>
         get_kwargs (r_run_id r) (sv_store sv') =
           (case rc_kwargs create of None \<Rightarrow> get_kwargs (r_run_id r) (sv_store sv) | Some k \<Rightarrow> Some k) \<and>
         (\<forall>p. plan = Some p \<longrightarrow> jm_get (sv_rollback_plans sv') (r_run_id r) = Some p) \<and>
         run_get (r_run_id r) (sv_store sv') = Some r \<and> r_status r = Pending"
proof -
  obtain out sv1 where e: "e = None"
    and ins: "plain_insert (ci_if_thread_status input) create False (cx_fresh cx 0) (now (length displaced)) sv = (out, sv1)"
    using assms(1,2) by (cases e) (auto simp: insert_displacing_def guarded_insert_def split: prod.splits)
  have out: "out = Inr (CreatedRun r)"
    and sv': "sv' = (case plan of Some p \<Rightarrow> sv1\<lparr>sv_rollback_plans := jm_set (r_run_id r) p (sv_rollback_plans sv1)\<rparr> | None \<Rightarrow> sv1)"
    using assms(1,2) ins e by (auto simp: insert_displacing_def guarded_insert_def split: option.splits)
  note made = plain_insert_creates [OF assms(4) ins [unfolded out]]
  then have "set (active_ids (rc_thread_id create) (sv_store sv1)) =
      insert (cx_fresh cx 0) (set (active_ids (rc_thread_id create) (sv_store sv)))"
    using with_new_run_active [OF assms(3,4,5)] by simp
  moreover have "r_run_id r = cx_fresh cx 0" "r_status r = Pending" using made assms(4,5) by simp_all
  moreover have "get_kwargs (r_run_id r) (sv_store sv1) =
      (case rc_kwargs create of None \<Rightarrow> get_kwargs (r_run_id r) (sv_store sv) | Some k \<Rightarrow> Some k)"
    using made assms(4) by (simp add: get_kwargs_def with_new_run_def jm_get_set split: option.split)
  moreover have "run_get (r_run_id r) (sv_store sv1) = Some r"
    using made assms(4) by (simp add: run_get_def frame_simps jm_get_set)
  ultimately show ?thesis
    using e sv' by (auto simp: jm_get_set split: option.splits)
qed

section \<open>Properties\<close>


subsection \<open>Witness\<close>

text \<open>The thread t1 of the sample store, whose run r1 started from a checkpoint.\<close>

definition sample_service :: run_service where
  "sample_service = \<lparr>sv_store = sample_store, sv_control = new_registry True, sv_sent = [], sv_closed = [],
     sv_queue = [], sv_rollback_plans = [], sv_base_checkpoints = [(''r1'', Some ''cp'')]\<rparr>"

definition sample_input :: "multitask_strategy \<Rightarrow> create_run_input" where
  "sample_input strategy =
     \<lparr>ci_assistant_id = ''a1'', ci_thread_id = Some ''t1'', ci_timeout_ms = None, ci_input = None, ci_command = None,
      ci_config = None, ci_context = None, ci_stream_mode = None, ci_stream_subgraphs = False, ci_durability = None,
      ci_checkpoint_during = None, ci_checkpoint = None, ci_checkpoint_id = None, ci_metadata = None,
      ci_multitask_strategy = Some strategy, ci_interrupt_before = None, ci_interrupt_after = None, ci_webhook = None,
      ci_delete_on_completion = False, ci_create_missing_thread = False, ci_after_seconds = None,
      ci_if_thread_status = None\<rparr>"

definition sample_context :: create_context where
  "sample_context = \<lparr>cx_admission = None, cx_aborted = False, cx_fresh = (\<lambda>_. ''r2'')\<rparr>"

lemma sample_store_inv: "store_inv sample_store"
  by (simp add: store_inv_def inv_defs sample_simps keyed_by_def beside_def)

definition rolled_back :: "(thrown + inserted) \<times> run_service" where
  "rolled_back = create_pending_run no_gap (\<lambda>_. 5) sample_context (sample_input MRollback) ''t1'' ''a1''
     empty_kwargs sample_service"

lemma rolled_back_created: "case fst rolled_back of Inr (CreatedRun _) \<Rightarrow> True | _ \<Rightarrow> False"
  by code_simp

lemma sample_active: "active_ids ''t1'' (sv_store sample_service) = [''r1'']"
  by code_simp

lemma sample_service_inv: "store_inv (sv_store sample_service)"
  using sample_store_inv by (simp add: sample_service_def)

lemma quiet_no_gap: "\<forall>n sv. quiet t sv (no_gap n sv)"
  by (simp add: quiet_def)

lemma sample_few: "length (active_ids ''t1'' (sv_store sample_service)) \<le> ms_max_page_size (sv_store sample_service)"
  by (simp add: sample_active) (simp add: sample_service_def sample_simps)

lemma sample_keyless: "cx_admission sample_context = None"
  by (simp add: sample_context_def)

lemma sample_strategy: "or_default (ci_multitask_strategy (sample_input strategy)) MReject = strategy"
  by (simp add: sample_input_def)

lemma rolled_back_eq:
  "fst rolled_back = Inr (CreatedRun r) \<Longrightarrow>
   create_pending_run no_gap (\<lambda>_. 5) sample_context (sample_input MRollback) ''t1'' ''a1'' empty_kwargs sample_service =
     (Inr (CreatedRun r), snd rolled_back)"
  by (simp add: prod_eq_iff flip: rolled_back_def)

lemma rolled_back_run: "\<exists>r. fst rolled_back = Inr (CreatedRun r)"
  using rolled_back_created by (cases "fst rolled_back"; simp) (metis inserted.exhaust inserted.simps)


end
