(* ===== verification/RunCancelling.thy ===== *)
theory RunCancelling
  imports RunService
begin

text \<open>
  Cancelling, deleting and joining runs: \<^verbatim>\<open>cancelRun\<close>, \<^verbatim>\<open>resolveCancelTargets\<close>, \<^verbatim>\<open>cancelMany\<close>,
  \<^verbatim>\<open>delete\<close>, \<^verbatim>\<open>join\<close> and \<^verbatim>\<open>finalStatus\<close> of \<^verbatim>\<open>runs/run-service.ts\<close>, and the status write of the
  engine they race, \<^verbatim>\<open>finalizeRun\<close> of \<^verbatim>\<open>runs/run-engine.ts\<close>. Awaits are gaps as in RunService. The
  revert of a thread's checkpoints is outside the model: \<open>reverted\<close> says whether it succeeded.
\<close>

section \<open>Cancelling one run\<close>

record cancel_options =
  co_rollback :: bool
  co_wait :: bool
  co_recovering :: bool

definition mark_cancelled :: "run \<Rightarrow> instant \<Rightarrow> run_service \<Rightarrow> thrown option \<times> run_service" where
  "mark_cancelled r now sv =
     (if is_terminal_run_status (r_status r) then (None, sv)
      else (case set_status (r_run_id r) Cancelled None now (sv_store sv) of
              (Inl e, _) \<Rightarrow> (Some e, sv)
            | (Inr _, st) \<Rightarrow> (None, sv\<lparr>sv_store := st\<rparr>)))"

definition free_thread :: "ident \<Rightarrow> instant \<Rightarrow> run_service \<Rightarrow> thrown option \<times> run_service" where
  "free_thread thread_id now sv =
     (case thread_update_op thread_id (empty_thread_update\<lparr>tu_status := Some Idle\<rparr>) now (sv_store sv) of
        (Inl e, _) \<Rightarrow> (Some e, sv)
      | (Inr _, st) \<Rightarrow> (None, sv\<lparr>sv_store := st\<rparr>))"

text \<open>
  After the writes: close the bus of a run that never started, signal, then revert or wait. The row
  goes only after the checkpoints were reverted.
\<close>

definition stop_cancelled ::
  "gaps \<Rightarrow> cancel_options \<Rightarrow> bool \<Rightarrow> run \<Rightarrow> ident option option \<Rightarrow> run_service \<Rightarrow> run_service" where
  "stop_cancelled gap opts reverted r base sv =
     (let sv1 = (if r_status r = Pending then gap 6 (close_bus (r_run_id r) sv) else sv);
          sv2 = control_abort (r_run_id r) (if co_rollback opts then ByRollback else ByCancel) sv1
      in if co_rollback opts \<and> base \<noteq> None
         then let sv3 = gap 7 sv2
              in if reverted then gap 8 (sv3\<lparr>sv_store := run_delete (r_run_id r) (sv_store sv3)\<rparr>) else sv3
         else if co_wait opts then gap 7 sv2 else sv2)"

definition cancel_run ::
  "gaps \<Rightarrow> (nat \<Rightarrow> instant) \<Rightarrow> cancel_options \<Rightarrow> bool \<Rightarrow> ident \<Rightarrow> run_service \<Rightarrow> (thrown + run) \<times> run_service" where
  "cancel_run gap now opts reverted run_id sv =
     (case run_get run_id (sv_store sv) of
        None \<Rightarrow> (Inl not_found, gap 0 sv)
      | Some r \<Rightarrow>
          let sv1 = drop_plan run_id (gap 0 sv) in
          if is_terminal_run_status (r_status r) \<and> \<not> (co_recovering opts \<and> r_status r = Cancelled)
          then (Inr r, sv1)
          else
            let base = (if co_rollback opts then read_base_checkpoint run_id sv1 else None);
                sv2 = gap 2 (gap 1 sv1)
            in (case mark_cancelled r (now 0) sv2 of
                  (Some e, sv3) \<Rightarrow> (Inl e, sv3)
                | (None, sv3) \<Rightarrow>
                    let sv4 = gap 3 sv3;
                        frees = (\<not> co_recovering opts \<or>
                          (case latest_for_thread (r_thread_id r) (sv_store sv4) of
                             None \<Rightarrow> False
                           | Some l \<Rightarrow> r_run_id l = run_id));
                        sv5 = (if co_recovering opts then gap 4 sv4 else sv4)
                    in (case (if frees then free_thread (r_thread_id r) (now 1) sv5 else (None, sv5)) of
                          (Some e, sv6) \<Rightarrow> (Inl e, sv6)
                        | (None, sv6) \<Rightarrow>
                            let sv7 = stop_cancelled gap opts reverted r base (if frees then gap 5 sv6 else sv6)
                            in (Inr (case run_get run_id (sv_store sv7) of
                                       Some fresh \<Rightarrow> fresh
                                     | None \<Rightarrow> r\<lparr>r_status := Cancelled\<rparr>), sv7))))"

section \<open>The engine's status write\<close>

text \<open>\<open>finalizeRun\<close>: the effective status.\<close>

definition finalize_run ::
  "gaps \<Rightarrow> instant \<Rightarrow> ident \<Rightarrow> run_status \<Rightarrow> run_error option \<Rightarrow> run_service \<Rightarrow> (thrown + run_status) \<times> run_service" where
  "finalize_run gap now run_id status err sv =
     (case run_get run_id (sv_store sv) of
        None \<Rightarrow> (Inr status, gap 0 sv)
      | Some fresh \<Rightarrow>
          if is_terminal_run_status (r_status fresh) then (Inr (r_status fresh), gap 0 sv)
          else let sv1 = gap 0 sv in
               (case set_status run_id status err now (sv_store sv1) of
                  (Inl e, _) \<Rightarrow> (Inl e, sv1)
                | (Inr _, st) \<Rightarrow> (Inr status, sv1\<lparr>sv_store := st\<rparr>)))"

section \<open>Cancelling many\<close>

record cancel_query =
  cn_options :: cancel_options
  cn_run_ids :: "ident list option"
  cn_thread_id :: "ident option"
  cn_status :: "run_status option"

definition resolve_cancel_targets ::
  "gaps \<Rightarrow> nat option \<Rightarrow> cancel_query \<Rightarrow> run_service \<Rightarrow> (thrown + (ident list \<times> bool)) \<times> run_service" where
  "resolve_cancel_targets gap page_bound q sv =
     (case cn_run_ids q of
        Some ids \<Rightarrow> (Inr (js_unique ids, False), sv)
      | None \<Rightarrow>
          (case (case cn_thread_id q of
                   None \<Rightarrow> (None, sv)
                 | Some t \<Rightarrow>
                     (case require_thread t sv of Inl e \<Rightarrow> (Some e, gap 0 sv) | Inr _ \<Rightarrow> (None, gap 0 sv))) of
             (Some e, sv') \<Rightarrow> (Inl e, sv')
           | (None, sv') \<Rightarrow>
               let inflight = list_active_runs (cn_thread_id q) (sv_store sv');
                   wanted = (case cn_status q of
                               None \<Rightarrow> inflight
                             | Some st \<Rightarrow> filter (\<lambda>r. r_status r = st) inflight)
               in (Inr (map r_run_id wanted,
                        cn_thread_id q = None \<and>
                        (case page_bound of None \<Rightarrow> False | Some b \<Rightarrow> b \<le> length inflight)), gap 1 sv')))"

fun is_404 :: "thrown \<Rightarrow> bool" where
  "is_404 (Http e) = (he_status e = 404)"
| "is_404 _ = False"

fun cancel_each ::
  "gaps \<Rightarrow> (nat \<Rightarrow> instant) \<Rightarrow> cancel_options \<Rightarrow> (ident \<Rightarrow> bool) \<Rightarrow> ident list \<Rightarrow> run_service \<Rightarrow>
   (thrown + ident list) \<times> run_service" where
  "cancel_each gap now opts reverted [] sv = (Inr [], sv)"
| "cancel_each gap now opts reverted (i # is) sv =
     (case cancel_run gap now opts (reverted i) i sv of
        (Inl e, sv') \<Rightarrow>
          if is_404 e then cancel_each (later 9 gap) (later 2 now) opts reverted is sv' else (Inl e, sv')
      | (Inr _, sv') \<Rightarrow>
          (case cancel_each (later 9 gap) (later 2 now) opts reverted is sv' of
             (Inl e, sv'') \<Rightarrow> (Inl e, sv'')
           | (Inr done_ids, sv'') \<Rightarrow> (Inr (i # done_ids), sv'')))"

definition cancel_many ::
  "gaps \<Rightarrow> (nat \<Rightarrow> instant) \<Rightarrow> nat option \<Rightarrow> cancel_query \<Rightarrow> (ident \<Rightarrow> bool) \<Rightarrow> run_service \<Rightarrow>
   (thrown + (ident list \<times> bool)) \<times> run_service" where
  "cancel_many gap now page_bound q reverted sv =
     (case resolve_cancel_targets gap page_bound q sv of
        (Inl e, sv1) \<Rightarrow> (Inl e, sv1)
      | (Inr (ids, truncated), sv1) \<Rightarrow>
          (case cancel_each (later 2 gap) now (cn_options q) reverted ids sv1 of
             (Inl e, sv') \<Rightarrow> (Inl e, sv')
           | (Inr done_ids, sv') \<Rightarrow> (Inr (done_ids, truncated), sv')))"

section \<open>Deleting, joining\<close>

text \<open>\<open>delete\<close>; erasing the recorded response is best effort (\<open>erase_fails\<close>).\<close>

definition delete_run ::
  "gaps \<Rightarrow> bool \<Rightarrow> ident \<Rightarrow> run_service \<Rightarrow> (thrown + unit) \<times> run_service" where
  "delete_run gap erase_fails run_id sv =
     (case run_get run_id (sv_store sv) of
        None \<Rightarrow> (Inl not_found, gap 0 sv)
      | Some _ \<Rightarrow>
          let sv1 = drop_plan run_id (control_abort run_id ByCancel (gap 0 sv));
              sv2 = gap 1 (sv1\<lparr>sv_store := run_delete run_id (sv_store sv1)\<rparr>)
          in (Inr (),
              if erase_fails then sv2
              else sv2\<lparr>sv_store := snd (idempotency_delete_by_run run_id (sv_store sv2))\<rparr>))"

text \<open>\<open>join\<close>: the bus of a run that is over is closed (again), so that the subscription ends.\<close>

definition join_run :: "gaps \<Rightarrow> ident \<Rightarrow> run_service \<Rightarrow> (thrown + unit) \<times> run_service" where
  "join_run gap run_id sv =
     (case run_get run_id (sv_store sv) of
        None \<Rightarrow> (Inl not_found, gap 0 sv)
      | Some r \<Rightarrow>
          (Inr (), if is_terminal_run_status (r_status r) then close_bus run_id (gap 0 sv) else gap 0 sv))"

definition final_status :: "ident \<Rightarrow> run_service \<Rightarrow> run_status option" where
  "final_status run_id sv = map_option r_status (run_get run_id (sv_store sv))"

definition list_runs_by_thread ::
  "ident \<Rightarrow> run_status option \<Rightarrow> nat option \<Rightarrow> nat option \<Rightarrow> run_service \<Rightarrow> thrown + run list" where
  "list_runs_by_thread thread_id status offset limit sv =
     (case require_thread thread_id sv of
        Inl e \<Rightarrow> Inl e
      | Inr _ \<Rightarrow> Inr (list_by_thread thread_id status offset limit (sv_store sv)))"

section \<open>A cancel nobody interrupts\<close>

lemma control_abort_frame [simp]:
  "sv_rollback_plans (control_abort i reason sv) = sv_rollback_plans sv"
  "sv_base_checkpoints (control_abort i reason sv) = sv_base_checkpoints sv"
  "sv_closed (control_abort i reason sv) = sv_closed sv"
  "sv_control (control_abort i reason sv) = apply_remote_abort i reason (sv_control sv)"
  "sv_queue (control_abort i reason sv) = sv_queue sv"
  by (simp_all add: control_abort_def abort_run_cases)

lemma close_bus_frame [simp]:
  "sv_rollback_plans (close_bus i sv) = sv_rollback_plans sv"
  "sv_control (close_bus i sv) = sv_control sv"
  "sv_closed (close_bus i sv) = i # sv_closed sv"
  by (simp_all add: close_bus_def)

lemma drop_plan_frame [simp]:
  "sv_rollback_plans (drop_plan i sv) = jm_delete i (sv_rollback_plans sv)"
  "sv_control (drop_plan i sv) = sv_control sv"
  "sv_closed (drop_plan i sv) = sv_closed sv"
  by (simp_all add: drop_plan_def)

lemma run_delete_runs: "ms_runs (run_delete i s) = jm_delete i (ms_runs s)"
  by (simp add: run_delete_def frame_simps)

lemma run_delete_threads: "ms_threads (run_delete i s) = ms_threads s"
  by (simp add: run_delete_def frame_simps)

lemma set_status_cancelled:
  "jm_get (ms_runs s) i = Some r \<Longrightarrow>
   set_status i Cancelled None now s =
     (Inr (r\<lparr>r_status := Cancelled, r_updated_at := now, r_error := None\<rparr>),
      s\<lparr>ms_runs := jm_set i (r\<lparr>r_status := Cancelled, r_updated_at := now, r_error := None\<rparr>) (ms_runs s)\<rparr>)"
  by (simp add: set_status_def Let_def)

lemma thread_update_ok:
  assumes "jm_get (ms_threads s) t = Some row"
  shows "\<exists>v s'. thread_update_op t patch now s = (Inr v, s') \<and> ms_runs s' = ms_runs s \<and>
           ms_threads s' = jm_set t (patched_thread patch now row) (ms_threads s)"
  using assms by (simp add: thread_update_op_def Let_def frame_simps)

definition cancelled_row :: "run \<Rightarrow> instant \<Rightarrow> run" where
  "cancelled_row r now = r\<lparr>r_status := Cancelled, r_updated_at := now, r_error := None\<rparr>"

definition deletes_row :: "cancel_options \<Rightarrow> bool \<Rightarrow> ident \<Rightarrow> run_service \<Rightarrow> bool" where
  "deletes_row opts reverted run_id sv \<longleftrightarrow> co_rollback opts \<and> reverted \<and> read_base_checkpoint run_id sv \<noteq> None"

lemma read_base_drop_plan [simp]: "read_base_checkpoint i (drop_plan i sv) = read_base_checkpoint i sv"
  by (simp add: read_base_checkpoint_def drop_plan_def cong: option.case_cong)

section \<open>The registry meanwhile\<close>

text \<open>
  How a registry changes, whoever works on it: boxes are added and stay aborted, and a run that is
  registered anew gets a new box.
\<close>

definition box_of :: "ident \<Rightarrow> control_registry \<Rightarrow> nat option" where
  "box_of i R = map_option ce_box (jm_get (cr_entries R) i)"

definition box_aborted :: "nat \<Rightarrow> control_registry \<Rightarrow> bool" where
  "box_aborted n R \<longleftrightarrow> n < length (cr_boxes R) \<and> ab_aborted (cr_boxes R ! n)"

definition registry_moves :: "control_registry \<Rightarrow> control_registry \<Rightarrow> bool" where
  "registry_moves R R' \<longleftrightarrow>
     length (cr_boxes R) \<le> length (cr_boxes R') \<and> cr_channel R' = cr_channel R \<and>
     (\<forall>n. box_aborted n R \<longrightarrow> box_aborted n R') \<and>
     (\<forall>i n. box_of i R' = Some n \<longrightarrow> box_of i R = Some n \<or> length (cr_boxes R) \<le> n)"

lemma registry_moves_refl [simp]: "registry_moves R R"
  by (simp add: registry_moves_def)

lemma registry_moves_trans: "registry_moves R R' \<Longrightarrow> registry_moves R' R'' \<Longrightarrow> registry_moves R R''"
  unfolding registry_moves_def by (metis order_trans)

lemma registry_moves_ops:
  "registry_moves R (abort_handle n reason R)"
  "registry_moves R (apply_remote_abort i reason R)"
  "registry_moves R (clear_run i R)"
  "registry_moves R (snd (register_run i R))"
proof -
  show handle: "registry_moves R (abort_handle n reason R)" for n
    by (auto simp: registry_moves_def box_of_def box_aborted_def abort_handle_nth)
      (simp_all add: abort_handle_def fire_box_def)
  show "registry_moves R (apply_remote_abort i reason R)"
    using handle by (simp add: apply_remote_abort_def split: option.split)
qed (auto simp: registry_moves_def box_of_def box_aborted_def clear_run_def register_run_def Let_def nth_append
      jm_get_set jm_get_delete split: option.splits if_splits)

lemma control_abort_facts:
  fixes i reason sv
  defines "sv' \<equiv> control_abort i reason sv"
  shows "registry_moves (sv_control sv) (sv_control sv')" and "set (sv_sent sv) \<subseteq> set (sv_sent sv')"
    and "sv_closed sv' = sv_closed sv" and "sv_store sv' = sv_store sv"
    and "cr_channel (sv_control sv) \<Longrightarrow> (i, reason) \<in> set (sv_sent sv')"
    and "box_of i (sv_control sv') = Some n \<Longrightarrow> n < length (cr_boxes (sv_control sv)) \<Longrightarrow> box_aborted n (sv_control sv')"
  using registry_moves_ops(2)
  by (auto simp: sv'_def control_abort_def abort_run_cases forward_abort_def box_of_def box_aborted_def
      apply_remote_abort_def abort_handle_nth split: option.splits)
    (auto simp: abort_handle_def fire_box_def)

section \<open>A relation every step of a cancel keeps\<close>

text \<open>
  A cancel is a sequence of awaits, of writes of the run's own row, of the thread's status, and of
  signals. What each of them keeps, the cancel keeps.
\<close>

lemma cancel_run_steps:
  fixes R :: "run_service \<Rightarrow> run_service \<Rightarrow> bool"
  assumes refl: "\<And>u. R u u" and trans: "\<And>u v w. R u v \<Longrightarrow> R v w \<Longrightarrow> R u w" and gaps: "\<And>n u. R u (gap n u)"
    and plan: "\<And>u. R u (drop_plan i u)" and close: "\<And>u. R u (close_bus i u)"
    and signal: "\<And>u reason. R u (control_abort i reason u)"
    and status: "\<And>u t r st. set_status i Cancelled None t (sv_store u) = (Inr r, st) \<Longrightarrow> R u (u\<lparr>sv_store := st\<rparr>)"
    and thread: "\<And>u t tid v st. thread_update_op tid (empty_thread_update\<lparr>tu_status := Some Idle\<rparr>) t (sv_store u) = (Inr v, st) \<Longrightarrow>
      R u (u\<lparr>sv_store := st\<rparr>)"
    and row: "\<And>u. R u (u\<lparr>sv_store := run_delete i (sv_store u)\<rparr>)"
    and id: "\<And>r. run_get i (sv_store sv) = Some r \<Longrightarrow> r_run_id r = i"
  shows "R sv (snd (cancel_run gap now opts reverted i sv))"
    and "r_run_id r = i \<Longrightarrow> R u (stop_cancelled gap opts reverted r base u)"
proof -
  have step: "R u v \<Longrightarrow> R u (gap n v)" "R u v \<Longrightarrow> R u (drop_plan i v)" "R u v \<Longrightarrow> R u (close_bus i v)"
    "R u v \<Longrightarrow> R u (control_abort i reason v)" "R u v \<Longrightarrow> R u (v\<lparr>sv_store := run_delete i (sv_store v)\<rparr>)" for u v n reason
    using trans gaps plan close signal row by blast+
  have mark: "R u v'" if "mark_cancelled r t v = (e, v')" "r_run_id r = i" "R u v" for u r t v e v'
    using that trans status by (auto simp: mark_cancelled_def split: if_splits prod.splits sum.splits)
  have free: "R u v'" if "free_thread tid t v = (e, v')" "R u v" for u tid t v e v'
    using that trans thread by (auto simp: free_thread_def split: prod.splits sum.splits)
  show stop: "R u (stop_cancelled gap opts reverted r base u)" if "r_run_id r = i" for u r base
    by (auto simp: stop_cancelled_def Let_def that intro!: step refl)
  show "R sv (snd (cancel_run gap now opts reverted i sv))"
  proof (cases "run_get i (sv_store sv)")
    case None
    then show ?thesis by (simp add: cancel_run_def gaps)
  next
    case (Some r)
    define sv2 where "sv2 = gap 2 (gap 1 (drop_plan i (gap 0 sv)))"
    have to2: "R sv sv2" "R sv (drop_plan i (gap 0 sv))" unfolding sv2_def by (intro step refl)+
    obtain e sv3 where marked: "mark_cancelled r (now 0) sv2 = (e, sv3)" by fastforce
    have to3: "R sv sv3" using mark [OF marked id [OF Some] to2(1)] .
    have tail: "R sv (snd (case (if c then free_thread tid t w else (None, w)) of
          (Some e, x) \<Rightarrow> (Inl e, x)
        | (None, x) \<Rightarrow> (answer x, stop_cancelled gap opts reverted r base (if c then gap 5 x else x))))"
      if "R sv w" for c tid t w base and answer :: "run_service \<Rightarrow> thrown + run"
    proof -
      obtain e' x where freed: "free_thread tid t w = (e', x)" by fastforce
      from free [OF this that] have x: "R sv x" .
      have "R sv (stop_cancelled gap opts reverted r base y)" if "R sv y" for y
        using trans [OF that stop [OF id [OF Some]]] .
      with x that freed step(1) show ?thesis by (cases c; cases e') auto
    qed
    show ?thesis
    proof (cases "is_terminal_run_status (r_status r) \<and> \<not> (co_recovering opts \<and> r_status r = Cancelled)")
      case True
      with Some to2(2) show ?thesis by (simp add: cancel_run_def Let_def)
    next
      case False
      show ?thesis
        unfolding cancel_run_def Some option.case Let_def if_not_P [OF False] marked [unfolded sv2_def]
        by (cases e) (simp_all only: option.case prod.case snd_conv to3, rule tail, auto intro!: step to3)
    qed
  qed
qed

section \<open>A cancel others leave alone\<close>

text \<open>
  What a cancel relies on at its awaits: the others leave the row of this run and of its thread as it
  wrote them, its recorded base and its rollback plan. To other runs they may do anything.
\<close>

definition leaves_run :: "ident \<Rightarrow> ident \<Rightarrow> run_service \<Rightarrow> run_service \<Rightarrow> bool" where
  "leaves_run i t sv sv' \<longleftrightarrow>
     run_get i (sv_store sv') = run_get i (sv_store sv) \<and>
     jm_get (ms_threads (sv_store sv')) t = jm_get (ms_threads (sv_store sv)) t \<and>
     read_base_checkpoint i sv' = read_base_checkpoint i sv \<and>
     jm_get (sv_rollback_plans sv') i = jm_get (sv_rollback_plans sv) i \<and>
     set (sv_closed sv) \<subseteq> set (sv_closed sv') \<and> registry_moves (sv_control sv) (sv_control sv')"

lemma leaves_run_refl [simp]: "leaves_run i t sv sv"
  by (simp add: leaves_run_def)

text \<open>What the others leave of a run, of the registrations of its executions, and of the closings of its bus.\<close>

definition spares :: "gaps \<Rightarrow> ident \<Rightarrow> bool" where
  "spares gap j \<longleftrightarrow> (\<forall>n sv. run_get j (sv_store (gap n sv)) = run_get j (sv_store sv))"

definition stays_registered :: "gaps \<Rightarrow> ident \<Rightarrow> bool" where
  "stays_registered gap j \<longleftrightarrow> (\<forall>n sv. box_of j (sv_control (gap n sv)) = box_of j (sv_control sv))"

definition closings :: "ident \<Rightarrow> run_service \<Rightarrow> ident list" where
  "closings j sv = filter (\<lambda>k. k = j) (sv_closed sv)"

definition spares_bus :: "gaps \<Rightarrow> ident \<Rightarrow> bool" where
  "spares_bus gap j \<longleftrightarrow> (\<forall>n sv. closings j (gap n sv) = closings j sv)"

lemma box_of_apply [simp]: "box_of j (apply_remote_abort i reason R) = box_of j R"
  by (simp add: box_of_def apply_remote_abort_def abort_handle_def split: option.split)

lemma closings_simps [simp]:
  "closings j (sv\<lparr>sv_store := s\<rparr>) = closings j sv" "closings j (drop_plan i sv) = closings j sv"
  "closings j (control_abort i reason sv) = closings j sv"
  "closings j (close_bus i sv) = (if j = i then [i] else []) @ closings j sv"
  by (simp_all add: closings_def drop_plan_def)

text \<open>The tail of a cancel: closing, signalling, reverting.\<close>

lemma stop_cancelled_effect:
  fixes gap opts reverted r base u
  defines "v \<equiv> stop_cancelled gap opts reverted r base u"
  assumes others: "\<And>n u. leaves_run i t u (gap n u)" and id: "r_run_id r = i"
  shows "run_get i (sv_store v) = (if co_rollback opts \<and> base \<noteq> None \<and> reverted then None else run_get i (sv_store u))"
    and "jm_get (ms_threads (sv_store v)) t = jm_get (ms_threads (sv_store u)) t"
    and "jm_get (sv_rollback_plans v) i = jm_get (sv_rollback_plans u) i"
    and "r_status r = Pending \<Longrightarrow> i \<in> set (sv_closed v)"
    and "spares_bus gap i \<Longrightarrow> closings i v = (if r_status r = Pending then [i] else []) @ closings i u"
    and "\<exists>R. registry_moves (sv_control u) R \<and>
           (stays_registered gap i \<longrightarrow> box_of i R = box_of i (sv_control u)) \<and>
           registry_moves (apply_remote_abort i (if co_rollback opts then ByRollback else ByCancel) R) (sv_control v)"
proof -
  have rely: "run_get i (sv_store (gap n u)) = run_get i (sv_store u)"
    "jm_get (ms_threads (sv_store (gap n u))) t = jm_get (ms_threads (sv_store u)) t"
    "jm_get (sv_rollback_plans (gap n u)) i = jm_get (sv_rollback_plans u) i"
    "set (sv_closed u) \<subseteq> set (sv_closed (gap n u))" "registry_moves (sv_control u) (sv_control (gap n u))" for n u
    using others [of u n] by (simp_all add: leaves_run_def)
  have deleted: "run_get i (run_delete i s) = None" for s by (simp add: run_get_def run_delete_runs jm_get_delete)
  have gone: "jm_get (ms_threads (run_delete i s)) t = jm_get (ms_threads s) t" for s by (simp add: run_delete_threads)
  show "run_get i (sv_store v) = (if co_rollback opts \<and> base \<noteq> None \<and> reverted then None else run_get i (sv_store u))"
    "jm_get (ms_threads (sv_store v)) t = jm_get (ms_threads (sv_store u)) t"
    "jm_get (sv_rollback_plans v) i = jm_get (sv_rollback_plans u) i"
    by (simp_all add: v_def stop_cancelled_def Let_def id rely(1-3) deleted gone del: not_None_eq)
  have bus: "i \<in> set (sv_closed (gap n u))" if "i \<in> set (sv_closed u)" for n u using rely(4) that by blast
  show "i \<in> set (sv_closed v)" if "r_status r = Pending"
    by (auto simp: v_def stop_cancelled_def Let_def id that intro!: bus)
  show "closings i v = (if r_status r = Pending then [i] else []) @ closings i u" if "spares_bus gap i"
    using that by (auto simp: v_def stop_cancelled_def Let_def id spares_bus_def)
  let ?w = "if r_status r = Pending then gap 6 (close_bus i u) else u"
  have "registry_moves (sv_control u) (sv_control ?w)" using rely(5) [of "close_bus i u" 6] by simp
  moreover have "stays_registered gap i \<longrightarrow> box_of i (sv_control ?w) = box_of i (sv_control u)"
    by (simp add: stays_registered_def)
  moreover have "registry_moves (apply_remote_abort i (if co_rollback opts then ByRollback else ByCancel) (sv_control ?w)) (sv_control v)"
  proof -
    let ?a = "control_abort i (if co_rollback opts then ByRollback else ByCancel) ?w"
    have "registry_moves (sv_control ?a) (sv_control (gap 7 ?a))" by (rule rely(5))
    moreover have "registry_moves (sv_control (gap 7 ?a))
        (sv_control (gap 8 ((gap 7 ?a)\<lparr>sv_store := run_delete i (sv_store (gap 7 ?a))\<rparr>)))"
      using rely(5) [of "(gap 7 ?a)\<lparr>sv_store := run_delete i (sv_store (gap 7 ?a))\<rparr>" 8] by simp
    ultimately have "registry_moves (sv_control ?a) (sv_control v)"
      unfolding v_def stop_cancelled_def Let_def id
      by (auto split: if_splits intro: registry_moves_trans)
    then show ?thesis by simp
  qed
  ultimately show "\<exists>R. registry_moves (sv_control u) R \<and>
           (stays_registered gap i \<longrightarrow> box_of i R = box_of i (sv_control u)) \<and>
           registry_moves (apply_remote_abort i (if co_rollback opts then ByRollback else ByCancel) R) (sv_control v)"
    by (intro exI [of _ "sv_control ?w"] conjI)
qed

section \<open>Properties\<close>

lemma cancel_unhindered:
  fixes i sv r now opts reverted
  defines "gone \<equiv> deletes_row opts reverted i sv" and "row' \<equiv> cancelled_row r (now 0)"
  assumes others: "\<And>n u. leaves_run i (r_thread_id r) u (gap n u)"
    and inv: "store_inv (sv_store sv)" and there: "run_get i (sv_store sv) = Some r" and active: "\<not> is_terminal_run_status (r_status r)"
    and thread: "jm_get (ms_threads (sv_store sv)) (r_thread_id r) = Some row" and fresh: "\<not> co_recovering opts"
  shows "\<exists>sv'. cancel_run gap now opts reverted i sv = (Inr (if gone then r\<lparr>r_status := Cancelled\<rparr> else row'), sv') \<and>
     run_get i (sv_store sv') = (if gone then None else Some row') \<and>
     jm_get (ms_threads (sv_store sv')) (r_thread_id r) =
       Some (patched_thread (empty_thread_update\<lparr>tu_status := Some Idle\<rparr>) (now 1) row) \<and>
     jm_get (sv_rollback_plans sv') i = None \<and>
     (r_status r = Pending \<longrightarrow> i \<in> set (sv_closed sv')) \<and>
     (spares_bus gap i \<longrightarrow> closings i sv' = (if r_status r = Pending then [i] else []) @ closings i sv) \<and>
     (\<exists>R. registry_moves (sv_control sv) R \<and>
        (stays_registered gap i \<longrightarrow> box_of i R = box_of i (sv_control sv)) \<and>
        registry_moves (apply_remote_abort i (if co_rollback opts then ByRollback else ByCancel) R) (sv_control sv'))"
proof -
  let ?t = "r_thread_id r"
  have id: "r_run_id r = i" using store_inv_run_id [OF inv] there by (simp add: run_get_def)
  have rely: "run_get i (sv_store (gap n u)) = run_get i (sv_store u)"
    "jm_get (ms_threads (sv_store (gap n u))) ?t = jm_get (ms_threads (sv_store u)) ?t"
    "jm_get (sv_rollback_plans (gap n u)) i = jm_get (sv_rollback_plans u) i"
    "read_base_checkpoint i (gap n u) = read_base_checkpoint i u"
    "registry_moves (sv_control u) (sv_control (gap n u))" for n u
    using others [of u n] by (simp_all add: leaves_run_def)
  define sv1 where "sv1 = drop_plan i (gap 0 sv)"
  define sv2 where "sv2 = gap 2 (gap 1 sv1)"
  define s3 where "s3 = (sv_store sv2)\<lparr>ms_runs := jm_set i row' (ms_runs (sv_store sv2))\<rparr>"
  define sv4 where "sv4 = gap 3 (sv2\<lparr>sv_store := s3\<rparr>)"
  have at2: "run_get i (sv_store sv2) = Some r" "jm_get (ms_threads (sv_store sv2)) ?t = Some row"
    "jm_get (sv_rollback_plans sv2) i = None"
    by (simp_all add: sv2_def sv1_def rely there thread jm_get_delete)
  have base: "read_base_checkpoint i sv1 = read_base_checkpoint i sv" by (simp add: sv1_def rely)
  have mark: "mark_cancelled r (now 0) sv2 = (None, sv2\<lparr>sv_store := s3\<rparr>)"
    using at2(1) active id
    by (simp add: mark_cancelled_def run_get_def set_status_cancelled cancelled_row_def s3_def row'_def)
  have at4: "run_get i (sv_store sv4) = Some row'" "jm_get (ms_threads (sv_store sv4)) ?t = Some row"
    "jm_get (sv_rollback_plans sv4) i = None"
    using at2 by (simp_all add: sv4_def rely s3_def) (simp add: run_get_def jm_get_set)
  obtain v s5 where upd: "thread_update_op ?t (empty_thread_update\<lparr>tu_status := Some Idle\<rparr>) (now 1) (sv_store sv4) = (Inr v, s5)"
    and s5: "ms_runs s5 = ms_runs (sv_store sv4)" "ms_threads s5 = jm_set ?t
        (patched_thread (empty_thread_update\<lparr>tu_status := Some Idle\<rparr>) (now 1) row) (ms_threads (sv_store sv4))"
    using thread_update_ok [OF at4(2), of "empty_thread_update\<lparr>tu_status := Some Idle\<rparr>" "now 1"] by blast
  define sv6 where "sv6 = gap 5 (sv4\<lparr>sv_store := s5\<rparr>)"
  define sv' where "sv' = stop_cancelled gap opts reverted r (if co_rollback opts then read_base_checkpoint i sv1 else None) sv6"
  have run5: "run_get i s5 = run_get i (sv_store sv4)" by (simp add: run_get_def s5(1))
  have at6: "run_get i (sv_store sv6) = Some row'" "jm_get (sv_rollback_plans sv6) i = None"
    "jm_get (ms_threads (sv_store sv6)) ?t = Some (patched_thread (empty_thread_update\<lparr>tu_status := Some Idle\<rparr>) (now 1) row)"
    using at4 s5(2) run5 by (simp_all add: sv6_def rely jm_get_set)
  have kept6: "spares_bus gap i \<Longrightarrow> closings i sv6 = closings i sv"
    "stays_registered gap i \<Longrightarrow> box_of i (sv_control sv6) = box_of i (sv_control sv)"
    by (simp_all add: sv6_def sv4_def sv2_def sv1_def spares_bus_def stays_registered_def)
  have ext: "registry_moves (sv_control sv) (sv_control u) \<Longrightarrow> registry_moves (sv_control sv) (sv_control (gap n u))" for n u
    using registry_moves_trans rely(5) by blast
  have "registry_moves (sv_control sv) (sv_control sv1)" by (simp add: sv1_def rely(5))
  then have "registry_moves (sv_control sv) (sv_control sv2)" unfolding sv2_def by (intro ext)
  then have "registry_moves (sv_control sv) (sv_control sv4)" unfolding sv4_def by (intro ext) simp
  then have moves6: "registry_moves (sv_control sv) (sv_control sv6)" unfolding sv6_def by (intro ext) simp
  note tail = stop_cancelled_effect [where u = sv6 and opts = opts and reverted = reverted and
      base = "if co_rollback opts then read_base_checkpoint i sv1 else None" and gap = gap, OF others id, folded sv'_def]
  have gone: "co_rollback opts \<and> (if co_rollback opts then read_base_checkpoint i sv1 else None) \<noteq> None \<and> reverted \<longleftrightarrow> gone"
    by (auto simp: gone_def deletes_row_def base)
  have "cancel_run gap now opts reverted i sv =
      (Inr (case run_get i (sv_store sv') of Some fresh \<Rightarrow> fresh | None \<Rightarrow> r\<lparr>r_status := Cancelled\<rparr>), sv')"
    using there active fresh mark [unfolded sv2_def] upd [unfolded sv4_def sv2_def]
    by (simp add: cancel_run_def Let_def free_thread_def sv'_def sv6_def sv4_def sv2_def flip: sv1_def)
  moreover have "run_get i (sv_store sv') = (if gone then None else Some row')"
    using tail(1) at6(1) unfolding gone by simp
  moreover have "\<exists>R. registry_moves (sv_control sv) R \<and>
      (stays_registered gap i \<longrightarrow> box_of i R = box_of i (sv_control sv)) \<and>
      registry_moves (apply_remote_abort i (if co_rollback opts then ByRollback else ByCancel) R) (sv_control sv')"
    using tail(6) moves6 kept6(2) registry_moves_trans by metis
  ultimately show ?thesis
    using tail(2-5) at6(2,3) kept6(1) by (intro exI [of _ sv'] conjI) (simp_all split: if_split)
qed

lemma aborted_until:
  assumes "registry_moves R0 R" and "registry_moves (apply_remote_abort i reason R) R'"
    and "n < length (cr_boxes R0)" and "box_of i R0 = Some n" and "box_of i R = Some n \<or> box_of i R' = Some n"
  shows "box_aborted n R'"
proof -
  have n: "n < length (cr_boxes R)" using assms(1,3) by (simp add: registry_moves_def)
  have "length (cr_boxes (apply_remote_abort i reason R)) = length (cr_boxes R)"
    by (simp add: apply_remote_abort_def abort_handle_def split: option.split)
  then have "box_of i R = Some n" using assms(2,5) n unfolding registry_moves_def by (metis box_of_apply leD)
  then have "box_aborted n (apply_remote_abort i reason R)"
    using n by (auto simp: box_of_def box_aborted_def apply_remote_abort_def abort_handle_def fire_box_def)
  then show ?thesis using assms(2) by (simp add: registry_moves_def)
qed

lemma cancel_spares:
  assumes "store_inv (sv_store sv)" and "j \<noteq> i" and "spares gap j"
  shows "run_get j (sv_store (snd (cancel_run gap now opts reverted i sv))) = run_get j (sv_store sv)"
proof -
  have "r_run_id q = i" if "run_get i (sv_store sv) = Some q" for q
    using store_inv_run_id [OF assms(1)] that by (simp add: run_get_def)
  then show ?thesis
    by (intro cancel_run_steps(1) [where R = "\<lambda>u v. run_get j (sv_store v) = run_get j (sv_store u)"])
      (use assms(2,3) in \<open>auto simp: spares_def run_get_def set_status_def thread_update_op_def Let_def jm_get_set
        jm_get_delete run_delete_runs frame_simps split: option.splits if_splits\<close>)
qed

text \<open>
  C6. What a cancel does to an active run, outside recovery, when the others leave this run and its
  thread's row alone at the awaits, whatever they do to other runs. It answers with a cancelled run and
  leaves the row cancelled (or, when a rollback reverted its writes, gone), the thread idle, and no
  rollback plan; it closes the bus once when the run never started and otherwise not at all; the box of
  the executions and waits registered here is aborted, unless they ended meanwhile; a run the others
  spare is as it was; and a second cancel changes nothing and answers the same row. When the others do
  write this run in between, the cancel and the write overwrite each other: that is shown below.
\<close>

theorem cancel_run_effect:
  assumes others: "\<forall>n u. leaves_run i (r_thread_id r) u (gap n u)"
    and "store_inv (sv_store sv)" and "run_get i (sv_store sv) = Some r" and "\<not> is_terminal_run_status (r_status r)"
    and "jm_has (ms_threads (sv_store sv)) (r_thread_id r)" and "\<not> co_recovering opts"
    and run: "cancel_run gap now opts reverted i sv = (out, sv')"
  shows "(\<exists>r'. out = Inr r' \<and> r_status r' = Cancelled \<and>
           run_get i (sv_store sv') = (if deletes_row opts reverted i sv then None else Some r') \<and>
           (\<not> deletes_row opts reverted i sv \<longrightarrow>
              fst (cancel_run no_gap now' opts reverted' i sv') = Inr r' \<and>
              sv_store (snd (cancel_run no_gap now' opts reverted' i sv')) = sv_store sv')) \<and>
         (\<exists>t. jm_get (ms_threads (sv_store sv')) (r_thread_id r) = Some t \<and> t_status t = Idle) \<and>
         (\<forall>j. j \<noteq> i \<and> spares gap j \<longrightarrow> run_get j (sv_store sv') = run_get j (sv_store sv)) \<and>
         jm_get (sv_rollback_plans sv') i = None \<and>
         (r_status r = Pending \<longrightarrow> i \<in> set (sv_closed sv')) \<and>
         (spares_bus gap i \<longrightarrow> closings i sv' = (if r_status r = Pending then [i] else []) @ closings i sv) \<and>
         (\<forall>n < length (cr_boxes (sv_control sv)). box_of i (sv_control sv) = Some n \<and>
            (stays_registered gap i \<or> box_of i (sv_control sv') = Some n) \<longrightarrow> box_aborted n (sv_control sv'))"
proof -
  obtain row where row: "jm_get (ms_threads (sv_store sv)) (r_thread_id r) = Some row"
    using assms(5) by (auto simp: jm_has_def split: option.splits)
  have id: "r_run_id q = i" if "run_get i (sv_store sv) = Some q" for q
    using store_inv_run_id [OF assms(2)] that by (simp add: run_get_def)
  note effect = cancel_unhindered [where gap = gap and now = now and reverted = reverted, OF others [rule_format] assms(2-4) row assms(6)]
  let ?r' = "if deletes_row opts reverted i sv then r\<lparr>r_status := Cancelled\<rparr> else cancelled_row r (now 0)"
  have again: "cancel_run no_gap now' opts reverted' i sv' = (Inr q, drop_plan i sv')"
    if "run_get i (sv_store sv') = Some q" "r_status q = Cancelled" for q
    using that assms(6) by (simp add: cancel_run_def Let_def)
  have spared: "run_get j (sv_store sv') = run_get j (sv_store sv)" if "j \<noteq> i" "spares gap j" for j
    using cancel_spares [where gap = gap and now = now and opts = opts and reverted = reverted, OF assms(2) that] run by simp
  from effect obtain R where R: "registry_moves (sv_control sv) R"
    "stays_registered gap i \<longrightarrow> box_of i R = box_of i (sv_control sv)"
    "registry_moves (apply_remote_abort i (if co_rollback opts then ByRollback else ByCancel) R) (sv_control sv')"
    using run by auto
  have aborted: "box_aborted n (sv_control sv')"
    if "n < length (cr_boxes (sv_control sv))" "box_of i (sv_control sv) = Some n"
      "stays_registered gap i \<or> box_of i (sv_control sv') = Some n" for n
    using aborted_until [OF R(1,3) that(1,2)] that R(2) by auto
  have "t_status (patched_thread (empty_thread_update\<lparr>tu_status := Some Idle\<rparr>) (now 1) row) = Idle"
    by (simp add: patched_thread_def empty_thread_update_def)
  with effect run spared aborted again show ?thesis by (auto simp: cancelled_row_def)
qed

text \<open>
  A cancel reads a run, and writes its status later without looking again. When the engine
  settles the run in between, its success, which it has reported and mirrored, is overwritten by
  \<^verbatim>\<open>cancelled\<close>, though \<^verbatim>\<open>canTransition\<close> forbids every transition of a terminal run and the engine's
  own writes respect it.
\<close>

theorem cancel_overwrites_settled_run:
  assumes "store_inv (sv_store sv)" and "run_get i (sv_store sv) = Some r" and "r_status r = Running"
    and "jm_has (ms_threads (sv_store sv)) (r_thread_id r)"
    and "opts = \<lparr>co_rollback = False, co_wait = False, co_recovering = False\<rparr>"
    and engine: "gap = (\<lambda>n s. if n = 2 then snd (finalize_run no_gap settled i Success None s) else s)"
  shows "\<exists>r' sv'. cancel_run gap now opts False i sv = (Inr r', sv') \<and>
           fst (finalize_run no_gap settled i Success None (drop_plan i sv)) = Inr Success \<and>
           run_get i (sv_store (gap 2 (drop_plan i sv))) = Some (r\<lparr>r_status := Success, r_updated_at := settled, r_error := None\<rparr>) \<and>
           run_get i (sv_store sv') = Some r' \<and> r_status r' = Cancelled \<and> \<not> can_transition Success Cancelled"
proof -
  have id: "r_run_id r = i" using store_inv_run_id [OF assms(1)] assms(2) by (simp add: run_get_def)
  let ?won = "r\<lparr>r_status := Success, r_updated_at := settled, r_error := None\<rparr>"
  let ?s0 = "sv_store sv\<lparr>ms_runs := jm_set i ?won (ms_runs (sv_store sv))\<rparr>"
  have fin: "finalize_run no_gap settled i Success None (drop_plan i sv) = (Inr Success, (drop_plan i sv)\<lparr>sv_store := ?s0\<rparr>)"
    using assms(2,3) by (simp add: finalize_run_def run_get_def set_status_def Let_def)
  let ?lost = "cancelled_row ?won (now 0)"
  let ?s1 = "?s0\<lparr>ms_runs := jm_set i ?lost (ms_runs ?s0)\<rparr>"
  have mark: "mark_cancelled r (now 0) ((drop_plan i sv)\<lparr>sv_store := ?s0\<rparr>) = (None, (drop_plan i sv)\<lparr>sv_store := ?s1\<rparr>)"
    using assms(3) id by (simp add: mark_cancelled_def set_status_cancelled cancelled_row_def jm_get_set)
  obtain row where row: "jm_get (ms_threads ?s1) (r_thread_id r) = Some row"
    using assms(4) by (auto simp: jm_has_def split: option.splits)
  obtain v s2 where upd: "thread_update_op (r_thread_id r) (empty_thread_update\<lparr>tu_status := Some Idle\<rparr>) (now 1) ?s1 = (Inr v, s2)"
    and s2: "ms_runs s2 = ms_runs ?s1"
    using thread_update_ok [OF row] by blast
  have free: "free_thread (r_thread_id r) (now 1) ((drop_plan i sv)\<lparr>sv_store := ?s1\<rparr>) = (None, (drop_plan i sv)\<lparr>sv_store := s2\<rparr>)"
    using upd by (simp add: free_thread_def)
  have gaps: "gap 0 sv = sv" "gap 1 x = x" "gap 3 x = x" "gap 5 x = x" "gap 2 (drop_plan i sv) = (drop_plan i sv)\<lparr>sv_store := ?s0\<rparr>" for x
    using fin by (simp_all add: engine)
  have "cancel_run gap now opts False i sv = (Inr ?lost, control_abort i ByCancel ((drop_plan i sv)\<lparr>sv_store := s2\<rparr>))"
    using assms(2,3,5) mark free s2 id gaps
    by (simp add: cancel_run_def Let_def stop_cancelled_def run_get_def jm_get_set)
  then show ?thesis
    using fin s2 gaps(5) by (simp add: run_get_def jm_get_set cancelled_row_def can_transition_def)
qed

text \<open>
  The engine races in the same way: a cancel that lands between its read and its write is overwritten,
  although the row it overwrites is terminal.
\<close>

lemma finalize_overwrites_cancel:
  assumes "run_get i (sv_store sv) = Some r" and "\<not> is_terminal_run_status (r_status r)"
    and cancelled: "run_get i (sv_store (gap 0 sv)) = Some r'" "r_status r' = Cancelled"
  shows "fst (finalize_run gap now i Success None sv) = Inr Success \<and>
         run_get i (sv_store (snd (finalize_run gap now i Success None sv))) =
           Some (r'\<lparr>r_status := Success, r_updated_at := now, r_error := None\<rparr>)"
  using assms by (simp add: finalize_run_def Let_def set_status_def run_get_def jm_get_set)

section \<open>Cancelling many\<close>

definition threads_present :: "mem_store \<Rightarrow> bool" where
  "threads_present s \<longleftrightarrow> list_all (\<lambda>e. jm_has (ms_threads s) (r_thread_id (snd e))) (ms_runs s)"

lemma threads_present_iff:
  "store_inv s \<Longrightarrow>
   threads_present s \<longleftrightarrow> (\<forall>i r. map_of (ms_runs s) i = Some r \<longrightarrow> jm_has (ms_threads s) (r_thread_id r))"
  using store_inv_run_wf [of s] by (force simp: threads_present_def list_all_iff dest: map_of_SomeD)

definition over_or_gone :: "ident \<Rightarrow> run_service \<Rightarrow> bool" where
  "over_or_gone i sv =
     (case run_get i (sv_store sv) of None \<Rightarrow> True | Some r \<Rightarrow> is_terminal_run_status (r_status r))"

text \<open>
  What a bulk cancel relies on at its awaits: the others may settle, cancel and delete runs and write
  threads, but create no run, revive none, move none to another thread, and leave each with its thread.
\<close>

definition winds_down :: "run_service \<Rightarrow> run_service \<Rightarrow> bool" where
  "winds_down sv sv' \<longleftrightarrow>
     (store_inv (sv_store sv) \<and> threads_present (sv_store sv) \<longrightarrow>
        store_inv (sv_store sv') \<and> threads_present (sv_store sv')) \<and>
     (\<forall>j r'. run_get j (sv_store sv') = Some r' \<longrightarrow>
        (\<exists>r. run_get j (sv_store sv) = Some r \<and> r_thread_id r' = r_thread_id r \<and>
           (is_terminal_run_status (r_status r) \<longrightarrow> is_terminal_run_status (r_status r'))))"

lemma winds_down_same: "sv_store sv' = sv_store sv \<Longrightarrow> winds_down sv sv'"
  by (simp add: winds_down_def)

lemma winds_down_trans:
  assumes "winds_down u v" and "winds_down v w"
  shows "winds_down u w"
  using assms unfolding winds_down_def by metis

lemma winds_downD:
  assumes "winds_down sv sv'"
  shows "run_get j (sv_store sv) = None \<Longrightarrow> run_get j (sv_store sv') = None"
    and "run_get j (sv_store sv) = Some r \<Longrightarrow> run_get j (sv_store sv') = Some r' \<Longrightarrow> r_thread_id r' = r_thread_id r"
    and "over_or_gone j sv \<Longrightarrow> over_or_gone j sv'"
    and "store_inv (sv_store sv) \<Longrightarrow> threads_present (sv_store sv) \<Longrightarrow> store_inv (sv_store sv')"
    and "store_inv (sv_store sv) \<Longrightarrow> threads_present (sv_store sv) \<Longrightarrow> threads_present (sv_store sv')"
proof -
  note facts = assms [unfolded winds_down_def]
  note row = facts [THEN conjunct2, THEN spec, THEN spec, THEN mp]
  show "run_get j (sv_store sv) = None \<Longrightarrow> run_get j (sv_store sv') = None"
    using row [of j] by (cases "run_get j (sv_store sv')") auto
  show "run_get j (sv_store sv) = Some r \<Longrightarrow> run_get j (sv_store sv') = Some r' \<Longrightarrow> r_thread_id r' = r_thread_id r"
    using row [of j r'] by auto
  show "over_or_gone j sv \<Longrightarrow> over_or_gone j sv'"
    using row [of j] unfolding over_or_gone_def by (cases "run_get j (sv_store sv')") auto
  show "store_inv (sv_store sv) \<Longrightarrow> threads_present (sv_store sv) \<Longrightarrow> store_inv (sv_store sv')"
    "store_inv (sv_store sv) \<Longrightarrow> threads_present (sv_store sv) \<Longrightarrow> threads_present (sv_store sv')"
    using facts by blast+
qed

lemma status_winds_down:
  assumes "set_status i Cancelled None t (sv_store u) = (Inr r, st)"
  shows "winds_down u (u\<lparr>sv_store := st\<rparr>)"
proof -
  obtain r0 where r0: "map_of (ms_runs (sv_store u)) i = Some r0" "st = (sv_store u)\<lparr>ms_runs := jm_set i (cancelled_row r0 t) (ms_runs (sv_store u))\<rparr>"
    using assms by (auto simp: set_status_def Let_def cancelled_row_def split: option.splits)
  have "store_inv st" if "store_inv (sv_store u)"
    using set_status_store_inv [OF that, of i Cancelled None t] assms by simp
  with r0 show ?thesis
    by (auto simp: winds_down_def run_get_def jm_get_set cancelled_row_def threads_present_iff split: if_splits)
qed

lemma thread_winds_down:
  assumes "thread_update_op tid patch t (sv_store u) = (Inr v, st)"
  shows "winds_down u (u\<lparr>sv_store := st\<rparr>)"
proof -
  have "store_inv st" if "store_inv (sv_store u)"
    using thread_update_store_inv [OF that, of tid patch t] assms by simp
  moreover have "ms_runs st = ms_runs (sv_store u) \<and> fst ` set (ms_threads (sv_store u)) \<subseteq> fst ` set (ms_threads st)"
  proof (cases "jm_get (ms_threads (sv_store u)) tid")
    case (Some row)
    from thread_update_ok [OF this, of patch t] assms show ?thesis by (auto simp: jm_keys_set)
  qed (use assms in \<open>simp add: thread_update_op_def\<close>)
  ultimately show ?thesis
    by (auto simp: winds_down_def run_get_def threads_present_def list_all_iff jm_has_dom)
qed

lemma delete_winds_down: "winds_down u (u\<lparr>sv_store := run_delete i (sv_store u)\<rparr>)"
  by (auto simp: winds_down_def run_get_def run_delete_store_inv threads_present_iff run_delete_runs run_delete_threads
      jm_get_delete split: if_splits)

lemma stop_winds_down:
  assumes "\<And>n u. winds_down u (gap n u)"
  shows "winds_down u (stop_cancelled gap opts reverted r base u)"
proof -
  have step: "winds_down u v \<Longrightarrow> winds_down u (gap n v)" "winds_down u v \<Longrightarrow> winds_down u (close_bus i v)"
    "winds_down u v \<Longrightarrow> winds_down u (control_abort i reason v)"
    "winds_down u v \<Longrightarrow> winds_down u (v\<lparr>sv_store := run_delete i (sv_store v)\<rparr>)" for n v i reason
    by (erule winds_down_trans; (rule assms delete_winds_down | rule winds_down_same, simp))+
  show ?thesis
    by (auto simp: stop_cancelled_def Let_def intro!: step winds_down_same [OF refl])
qed

lemma cancel_winds_down:
  assumes others: "\<And>n u. winds_down u (gap n u)" and inv: "store_inv (sv_store sv)"
  shows "winds_down sv (snd (cancel_run gap now opts reverted i sv))"
proof -
  have "r_run_id q = i" if "run_get i (sv_store sv) = Some q" for q
    using store_inv_run_id [OF inv] that by (simp add: run_get_def)
  moreover have "winds_down u (drop_plan i u)" "winds_down u (close_bus i u)" "winds_down u (control_abort i reason u)"
    for u reason by (simp_all add: winds_down_same)
  ultimately show ?thesis
    by (intro cancel_run_steps(1) [where R = winds_down, OF winds_down_same [OF refl] winds_down_trans others _ _ _
          status_winds_down thread_winds_down delete_winds_down])
qed

lemma mark_outcomes:
  assumes "mark_cancelled r t u = (e, v)" and "\<not> is_terminal_run_status (r_status r)" and "r_run_id r = i"
  shows "(case e of
      Some err \<Rightarrow> is_404 err \<and> run_get i (sv_store u) = None \<and> v = u
    | None \<Rightarrow> over_or_gone i v \<and> run_get i (sv_store u) \<noteq> None \<and> run_get i (sv_store v) \<noteq> None \<and> winds_down u v)"
proof (cases "run_get i (sv_store u)")
  case None
  with assms show ?thesis by (auto simp: mark_cancelled_def set_status_def run_get_def not_found_def)
next
  case (Some r0)
  then have "set_status i Cancelled None t (sv_store u) =
      (Inr (cancelled_row r0 t), (sv_store u)\<lparr>ms_runs := jm_set i (cancelled_row r0 t) (ms_runs (sv_store u))\<rparr>)"
    by (simp add: run_get_def set_status_cancelled cancelled_row_def)
  with status_winds_down [OF this] Some assms show ?thesis
    by (auto simp: mark_cancelled_def over_or_gone_def run_get_def jm_get_set cancelled_row_def)
qed

lemma free_outcomes:
  assumes "free_thread tid t u = (e, v)"
  shows "(case e of Some err \<Rightarrow> is_404 err \<and> \<not> jm_has (ms_threads (sv_store u)) tid \<and> v = u | None \<Rightarrow> winds_down u v)"
proof (cases "jm_get (ms_threads (sv_store u)) tid")
  case None
  with assms show ?thesis by (auto simp: free_thread_def thread_update_op_def not_found_def jm_has_def)
next
  case (Some row)
  obtain w st where w: "thread_update_op tid (empty_thread_update\<lparr>tu_status := Some Idle\<rparr>) t (sv_store u) = (Inr w, st)"
    using thread_update_ok [OF Some] by blast
  with thread_winds_down [OF w] assms show ?thesis by (auto simp: free_thread_def)
qed

lemma active_rows_distinct:
  "store_inv s \<Longrightarrow> distinct (map r_run_id (list_active_runs t s))"
proof -
  assume inv: "store_inv s"
  have "distinct (map r_run_id (filter P (jm_values (ms_runs s))))" for P
    using keyed_values_distinct [of r_run_id "ms_runs s"] inv
    by (auto simp: store_inv_def run_inv_def distinct_map inj_on_def)
  then show ?thesis
    by (simp add: list_active_runs_def page_def take_map [symmetric] distinct_take)
qed

lemma active_ids_run_get:
  assumes "store_inv s" and "\<not> is_terminal_run_status (r_status r)" and "run_get i s = Some r"
    and "length (list_active_runs None s) < ms_max_page_size s"
  shows "i \<in> r_run_id ` set (list_active_runs None s)"
proof -
  let ?rows = "filter (\<lambda>r. \<not> is_terminal_run_status (r_status r)) (jm_values (ms_runs s))"
  have "list_active_runs None s = take (ms_max_page_size s) ?rows"
    by (simp add: list_active_runs_def page_def page_limit_def unconstrained_def)
  with assms(4) have all: "list_active_runs None s = ?rows" by auto
  have "(i, r) \<in> set (ms_runs s)" using assms(3) by (simp add: run_get_def map_of_SomeD)
  then have "r \<in> set ?rows" using assms(2) by force
  moreover have "r_run_id r = i" using store_inv_run_id [OF assms(1)] assms(3) by (simp add: run_get_def)
  ultimately show ?thesis unfolding all by (metis image_eqI)
qed

lemma spares_later: "spares gap j \<Longrightarrow> spares (later k gap) j"
  by (simp add: spares_def later_def)

lemma cancel_one:
  fixes gap now opts reverted i sv
  defines "sv' \<equiv> snd (cancel_run gap now opts reverted i sv)"
  assumes others: "\<And>n u. winds_down u (gap n u)" and inv: "store_inv (sv_store sv)" and threads: "threads_present (sv_store sv)"
    and fresh: "\<not> co_recovering opts" and run: "cancel_run gap now opts reverted i sv = (out, sv')"
  shows "case out of
      Inr _ \<Rightarrow> over_or_gone i sv' \<and> run_get i (sv_store sv) \<noteq> None
    | Inl e \<Rightarrow> is_404 e \<and> run_get i (sv_store sv') = None \<and> (spares gap i \<longrightarrow> run_get i (sv_store sv) = None)"
proof (cases "run_get i (sv_store sv)")
  case None
  then have "run_get i (sv_store (gap 0 sv)) = None" by (rule winds_downD(1) [OF others])
  with None run show ?thesis by (auto simp: cancel_run_def not_found_def)
next
  case (Some r)
  define sv1 where "sv1 = drop_plan i (gap 0 sv)"
  have sv1: "winds_down sv sv1" unfolding sv1_def by (rule winds_down_trans [OF others winds_down_same]) simp
  show ?thesis
  proof (cases "is_terminal_run_status (r_status r)")
    case True
    have "over_or_gone i sv1" by (rule winds_downD(3) [OF sv1]) (simp add: over_or_gone_def Some True)
    with True Some run fresh show ?thesis by (auto simp: cancel_run_def Let_def simp flip: sv1_def)
  next
    case False
    have id: "r_run_id r = i" using store_inv_run_id [OF inv] Some by (simp add: run_get_def)
    define sv2 where "sv2 = gap 2 (gap 1 sv1)"
    obtain e sv3 where marked: "mark_cancelled r (now 0) sv2 = (e, sv3)" by fastforce
    note mark = mark_outcomes [OF marked False id]
    define sv4 where "sv4 = gap 3 sv3"
    obtain e' sv5 where freed: "free_thread (r_thread_id r) (now 1) sv4 = (e', sv5)" by fastforce
    note free = free_outcomes [OF freed]
    have result: "(out, sv') = (case e of
        Some err \<Rightarrow> (Inl err, sv3)
      | None \<Rightarrow> (case e' of
          Some err \<Rightarrow> (Inl err, sv5)
        | None \<Rightarrow> let v = stop_cancelled gap opts reverted r (if co_rollback opts then read_base_checkpoint i sv1 else None) (gap 5 sv5)
            in (Inr (case run_get i (sv_store v) of Some q \<Rightarrow> q | None \<Rightarrow> r\<lparr>r_status := Cancelled\<rparr>), v)))"
      using run False Some fresh marked [unfolded sv2_def] freed [unfolded sv4_def]
      by (cases e; cases e') (simp_all add: cancel_run_def Let_def flip: sv1_def)
    have to2: "winds_down sv sv2" unfolding sv2_def by (rule winds_down_trans [OF winds_down_trans [OF sv1 others] others])
    have spared: "run_get i (sv_store sv2) \<noteq> None" if "spares gap i"
      using that Some by (simp add: sv2_def sv1_def spares_def)
    show ?thesis
    proof (cases e)
      case (Some err)
      with mark result spared show ?thesis by auto
    next
      case None
      with mark have over: "over_or_gone i sv3" "run_get i (sv_store sv2) \<noteq> None" "run_get i (sv_store sv3) \<noteq> None"
        and mv: "winds_down sv2 sv3" by auto
      have to4: "winds_down sv sv4" unfolding sv4_def by (rule winds_down_trans [OF winds_down_trans [OF to2 mv] others])
      have over4: "over_or_gone i sv4" unfolding sv4_def by (rule winds_downD(3) [OF others over(1)])
      show ?thesis
      proof (cases e')
        case (Some err)
        with free have lost: "is_404 err" "\<not> jm_has (ms_threads (sv_store sv4)) (r_thread_id r)" "sv5 = sv4" by auto
        have "threads_present (sv_store sv4)" "store_inv (sv_store sv4)"
          using winds_downD(4,5) [OF to4] inv threads by blast+
        then have "run_get i (sv_store sv4) = None"
          using lost(2) winds_downD(2) [OF to4 \<open>run_get i (sv_store sv) = Some r\<close>]
          by (cases "run_get i (sv_store sv4)"; simp add: threads_present_iff run_get_def) metis
        moreover have "run_get i (sv_store sv4) \<noteq> None" if "spares gap i"
          using that over(3) by (simp add: sv4_def spares_def)
        ultimately show ?thesis using result None Some lost(1,3) by auto
      next
        case e': None
        with free have "winds_down sv4 sv5" by simp
        then have "over_or_gone i (gap 5 sv5)" using over4 winds_downD(3) others by blast
        then have "over_or_gone i (stop_cancelled gap opts reverted r base (gap 5 sv5))" for base
          using winds_downD(3) [OF stop_winds_down [where gap = gap, OF others]] by blast
        then show ?thesis
          using result None e' \<open>run_get i (sv_store sv) = Some r\<close> by (auto simp: Let_def)
      qed
    qed
  qed
qed

text \<open>What the loop over distinct ids leaves; it never fails, for the only error of a cancel is that the run is gone.\<close>

lemma cancel_each_outcome:
  assumes "\<And>n u. winds_down u (gap n u)" and "store_inv (sv_store sv)" and "threads_present (sv_store sv)"
    and "\<not> co_recovering opts" and "distinct ids"
  shows "\<exists>found sv'. cancel_each gap now opts reverted ids sv = (Inr found, sv') \<and> set found \<subseteq> set ids \<and> distinct found \<and>
     winds_down sv sv' \<and> (\<forall>i \<in> set ids. over_or_gone i sv') \<and>
     (\<forall>i \<in> set found. run_get i (sv_store sv) \<noteq> None) \<and>
     (\<forall>i \<in> set ids - set found. run_get i (sv_store sv') = None \<and> (spares gap i \<longrightarrow> run_get i (sv_store sv) = None)) \<and>
     (\<forall>j. j \<notin> set ids \<and> spares gap j \<longrightarrow> run_get j (sv_store sv') = run_get j (sv_store sv))"
  using assms
proof (induction ids arbitrary: gap now sv)
  case Nil
  then show ?case by (simp add: winds_down_same)
next
  case (Cons i ids)
  obtain out sv1 where one: "cancel_run gap now opts (reverted i) i sv = (out, sv1)" by fastforce
  have down: "winds_down sv sv1"
    using cancel_winds_down [where gap = gap and now = now and opts = opts and reverted = "reverted i", OF Cons.prems(1,2), of i] one
    by simp
  have same1: "run_get j (sv_store sv1) = run_get j (sv_store sv)" if "j \<noteq> i" "spares gap j" for j
    using cancel_spares [where gap = gap and now = now and opts = opts and reverted = "reverted i", OF Cons.prems(2) that] one by simp
  note first = cancel_one [where gap = gap, OF Cons.prems(1-4), of now "reverted i" i out, unfolded one, simplified]
  have others: "\<And>n u. winds_down u (later 9 gap n u)" using Cons.prems(1) by (simp add: later_def)
  have inv1: "store_inv (sv_store sv1)" "threads_present (sv_store sv1)" and fresh: "distinct ids"
    using winds_downD(4,5) [OF down] Cons.prems(2,3,5) by simp_all
  obtain found sv' where rest: "cancel_each (later 9 gap) (later 2 now) opts reverted ids sv1 = (Inr found, sv')"
    "set found \<subseteq> set ids" "distinct found" "winds_down sv1 sv'" "\<forall>j \<in> set ids. over_or_gone j sv'"
    "\<forall>j \<in> set found. run_get j (sv_store sv1) \<noteq> None"
    "\<forall>j \<in> set ids - set found. run_get j (sv_store sv') = None \<and> (spares (later 9 gap) j \<longrightarrow> run_get j (sv_store sv1) = None)"
    "\<forall>j. j \<notin> set ids \<and> spares (later 9 gap) j \<longrightarrow> run_get j (sv_store sv') = run_get j (sv_store sv1)"
    using Cons.IH [of "later 9 gap" sv1 "later 2 now", OF others inv1 Cons.prems(4) fresh] by blast
  have i: "i \<notin> set ids" "i \<notin> set found" using Cons.prems(5) rest(2) by auto
  have down': "winds_down sv sv'" using winds_down_trans [OF down rest(4)] .
  have there: "run_get j (sv_store sv) \<noteq> None" if "j \<in> set found" for j
    using rest(6) that winds_downD(1) [OF down] by blast
  have gone: "run_get j (sv_store sv') = None \<and> (spares gap j \<longrightarrow> run_get j (sv_store sv) = None)"
    if "j \<in> set ids - set found" for j
  proof -
    have "j \<noteq> i" using that i(1) by auto
    then show ?thesis using rest(7) that same1 [of j] spares_later by (metis Diff_iff)
  qed
  have same: "run_get j (sv_store sv') = run_get j (sv_store sv)" if "j \<notin> set (i # ids)" "spares gap j" for j
    using rest(8) that same1 [of j] spares_later by auto
  show ?case
  proof (cases out)
    case (Inl e)
    with first have e: "is_404 e" "run_get i (sv_store sv1) = None" "spares gap i \<longrightarrow> run_get i (sv_store sv) = None" by auto
    then have "run_get i (sv_store sv') = None" using winds_downD(1) [OF rest(4)] by blast
    then show ?thesis
      using Inl one e rest(1-3,5) down' there gone same by (auto simp: over_or_gone_def)
  next
    case (Inr r)
    with first have r: "over_or_gone i sv1" "run_get i (sv_store sv) \<noteq> None" by auto
    then have "over_or_gone i sv'" using winds_downD(3) [OF rest(4)] by blast
    then show ?thesis
      using Inr one r rest(1-3,5) down' there gone same i by auto
  qed
qed


subsection \<open>Witnesses\<close>

definition plain_cancel :: cancel_options where
  "plain_cancel = \<lparr>co_rollback = False, co_wait = False, co_recovering = False\<rparr>"

lemma sample_running:
  "run_get ''r1'' (sv_store sample_service) = Some (sample_run ''r1'' Running)"
  "jm_has (ms_threads (sv_store sample_service)) (r_thread_id (sample_run ''r1'' Running))"
  "r_status (sample_run ''r1'' Running) = Running"
  by (simp_all add: sample_service_def sample_simps run_get_def jm_has_def)

definition cancelled_sample :: "(thrown + run) \<times> run_service" where
  "cancelled_sample = cancel_run no_gap (\<lambda>_. 5) (plain_cancel\<lparr>co_rollback := True\<rparr>) True ''r1'' sample_service"

text \<open>A rollback of r1, which recorded its base: the row goes, r0 stays, the thread is idle.\<close>

theorem cancel_run_effect_witness:
  "run_get ''r1'' (sv_store (snd cancelled_sample)) = None \<and>
   run_get ''r0'' (sv_store (snd cancelled_sample)) = Some (sample_run ''r0'' Interrupted) \<and>
   (\<exists>t. jm_get (ms_threads (sv_store (snd cancelled_sample))) ''t1'' = Some t \<and> t_status t = Idle)"
proof -
  let ?opts = "plain_cancel\<lparr>co_rollback := True\<rparr>"
  have active: "\<not> is_terminal_run_status (r_status (sample_run ''r1'' Running))" by (simp add: sample_running)
  have opts: "\<not> co_recovering ?opts" by (simp add: plain_cancel_def)
  have eq: "cancel_run no_gap (\<lambda>_. 5) ?opts True ''r1'' sample_service = (fst cancelled_sample, snd cancelled_sample)"
    by (simp add: cancelled_sample_def)
  have gone: "deletes_row ?opts True ''r1'' sample_service"
    by (simp add: deletes_row_def plain_cancel_def read_base_checkpoint_def sample_service_def)
  have "run_get ''r0'' (sv_store sample_service) = Some (sample_run ''r0'' Interrupted)"
    by (simp add: sample_service_def sample_simps run_get_def)
  moreover have "r_thread_id (sample_run ''r1'' Running) = ''t1''" by (simp add: sample_simps)
  moreover have "''r0'' \<noteq> ''r1''" by simp
  moreover have "\<forall>n u. leaves_run ''r1'' (r_thread_id (sample_run ''r1'' Running)) u (no_gap n u)" "spares no_gap ''r0''"
    by (simp_all add: spares_def)
  ultimately show ?thesis
    using cancel_run_effect [OF _ sample_service_inv sample_running(1) active sample_running(2) opts eq] gone by metis
qed

definition settling_gap :: gaps where
  "settling_gap = (\<lambda>n s. if n = 2 then snd (finalize_run no_gap 7 ''r1'' Success None s) else s)"

theorem cancel_overwrites_settled_run_witness:
  "\<exists>r' sv'. cancel_run settling_gap (\<lambda>_. 8) plain_cancel False ''r1'' sample_service = (Inr r', sv') \<and>
     run_get ''r1'' (sv_store (settling_gap 2 (drop_plan ''r1'' sample_service))) =
       Some ((sample_run ''r1'' Running)\<lparr>r_status := Success, r_updated_at := 7, r_error := None\<rparr>) \<and>
     run_get ''r1'' (sv_store sv') = Some r' \<and> r_status r' = Cancelled"
  using cancel_overwrites_settled_run [OF sample_service_inv sample_running(1,3,2) plain_cancel_def settling_gap_def,
      of "\<lambda>_. 8"] by blast

text \<open>Of two ids named, one twice, only r1 exists.\<close>

definition sweep_query :: cancel_query where
  "sweep_query = \<lparr>cn_options = plain_cancel, cn_run_ids = Some [''r1'', ''gone'', ''r1''], cn_thread_id = None,
     cn_status = None\<rparr>"

lemma sample_threads_present: "threads_present (sv_store sample_service)"
  by (simp add: threads_present_def sample_service_def sample_simps jm_has_def)


end
