(* ===== verification/RunCreation.thy ===== *)
theory RunCreation
  imports RunService StoreAssistants
begin

text \<open>
  Starting runs: the prologue every run mode shares, and the background modes, of
  \<^verbatim>\<open>runs/run-service.ts\<close>: \<^verbatim>\<open>ensureThread\<close>, \<^verbatim>\<open>resolveRunThread\<close>, \<^verbatim>\<open>stampGraphOnThread\<close>,
  \<^verbatim>\<open>prepareRun\<close>, \<^verbatim>\<open>enqueueBackgroundRun\<close>, \<^verbatim>\<open>createBackground\<close>, \<^verbatim>\<open>createStatelessBackground\<close> and
  \<^verbatim>\<open>createBatch\<close>. Publishing to the thread bus is left out; the queue is the list of what was handed
  to it, latest first, with its delay in milliseconds. Awaits are gaps as in RunService.
\<close>

section \<open>Threads of a run\<close>

definition plain_thread :: "ident option \<Rightarrow> thread_create" where
  "plain_thread thread_id =
     \<lparr>tc_thread_id = thread_id, tc_metadata = None, tc_status = None, tc_ttl = Undefined, tc_ttl_strategy = None\<rparr>"

definition make_thread ::
  "ident option \<Rightarrow> ident \<Rightarrow> instant \<Rightarrow> run_service \<Rightarrow> (thrown + thread_view) \<times> run_service" where
  "make_thread thread_id uuid now sv =
     (case thread_create_op (plain_thread thread_id) uuid now (sv_store sv) of
        (Inl e, st) \<Rightarrow> (Inl e, sv\<lparr>sv_store := st\<rparr>)
      | (Inr t, st) \<Rightarrow> (Inr t, sv\<lparr>sv_store := st\<rparr>))"

fun is_conflict :: "thrown \<Rightarrow> bool" where
  "is_conflict (Http e) = (he_status e = 409)"
| "is_conflict _ = False"

text \<open>\<^verbatim>\<open>ensureThread\<close>: a create that lost the race reads what won it.\<close>

definition ensure_thread ::
  "gaps \<Rightarrow> ident \<Rightarrow> ident \<Rightarrow> instant \<Rightarrow> run_service \<Rightarrow> (thrown + thread_view) \<times> run_service" where
  "ensure_thread gap thread_id uuid now sv =
     (case thread_get thread_id (sv_store sv) of
        Some t \<Rightarrow> (Inr t, gap 0 sv)
      | None \<Rightarrow>
          (case make_thread (Some thread_id) uuid now (gap 0 sv) of
             (Inr t, sv1) \<Rightarrow> (Inr t, gap 1 sv1)
           | (Inl e, sv1) \<Rightarrow>
               let sv2 = gap 1 sv1 in
               if is_conflict e
               then (case thread_get thread_id (sv_store sv2) of
                       Some raced \<Rightarrow> (Inr raced, gap 2 sv2)
                     | None \<Rightarrow> (Inl e, gap 2 sv2))
               else (Inl e, sv2)))"

definition resolve_run_thread ::
  "gaps \<Rightarrow> ident option \<Rightarrow> bool \<Rightarrow> ident \<Rightarrow> instant \<Rightarrow> run_service \<Rightarrow> (thrown + thread_view) \<times> run_service" where
  "resolve_run_thread gap thread_id create_missing uuid now sv =
     (case thread_id of
        None \<Rightarrow> (let (out, sv1) = make_thread None uuid now sv in (out, gap 0 sv1))
      | Some t \<Rightarrow>
          if create_missing then ensure_thread gap t uuid now sv else (require_thread t sv, gap 0 sv))"

text \<open>\<^verbatim>\<open>{...metadata, graph_id, assistant_id}\<close>; a thread's metadata is an object.\<close>

definition stamped_metadata :: "jsval \<Rightarrow> assistant \<Rightarrow> jsval" where
  "stamped_metadata m a =
     JObj (jm_set ''assistant_id'' (JStr (a_assistant_id a))
            (jm_set ''graph_id'' (JStr (a_graph_id a)) (case m of JObj ps \<Rightarrow> ps | _ \<Rightarrow> [])))"

definition already_stamped :: "jsval \<Rightarrow> assistant \<Rightarrow> bool" where
  "already_stamped m a \<longleftrightarrow>
     (case m of
        JObj ps \<Rightarrow> jm_get ps ''graph_id'' = Some (JStr (a_graph_id a)) \<and>
                   jm_get ps ''assistant_id'' = Some (JStr (a_assistant_id a))
      | _ \<Rightarrow> False)"

definition stamp_graph_on_thread :: "thread_view \<Rightarrow> assistant \<Rightarrow> instant \<Rightarrow> run_service \<Rightarrow> run_service" where
  "stamp_graph_on_thread t a now sv =
     (if already_stamped (t_metadata t) a then sv
      else (case thread_update_op (t_thread_id t)
                   (empty_thread_update\<lparr>tu_metadata := Some (stamped_metadata (t_metadata t) a)\<rparr>) now (sv_store sv) of
              (Inl _, _) \<Rightarrow> sv
            | (Inr _, st) \<Rightarrow> sv\<lparr>sv_store := st\<rparr>))"

section \<open>The shared prologue\<close>

record prologue_context = create_context +
  px_base :: run_kwargs
  px_native_owns :: bool
  px_auth_user :: "jsval option"
  px_auth_scopes :: "jsval option"
  px_thread_uuid :: ident
  px_clock :: instant

definition creation_of :: "'a create_context_scheme \<Rightarrow> create_context" where
  "creation_of cx = \<lparr>cx_admission = cx_admission cx, cx_aborted = cx_aborted cx, cx_fresh = cx_fresh cx\<rparr>"

definition after_delay_ms :: "int option \<Rightarrow> int" where
  "after_delay_ms after_seconds = max 0 (or_default after_seconds 0) * 1000"

definition run_kwargs_for :: "prologue_context \<Rightarrow> create_run_input \<Rightarrow> bool \<Rightarrow> run_kwargs" where
  "run_kwargs_for cx input background =
     (let kwargs = to_kwargs (px_base cx) (px_native_owns cx) input (ci_thread_id input = None)
                     (px_auth_user cx) (px_auth_scopes cx)
      in if background
         then kwargs\<lparr>kw_queue_not_before := Some (px_clock cx + after_delay_ms (ci_after_seconds input))\<rparr>
         else kwargs)"

text \<open>
  \<open>stateless\<close> makes the thread without asking for one, as \<^verbatim>\<open>createStatelessBackground\<close> does. What is
  inserted and whether the run is stamped onto its thread depends on whether an admission was replayed.
\<close>

definition prepare_run ::
  "gaps \<Rightarrow> (nat \<Rightarrow> instant) \<Rightarrow> prologue_context \<Rightarrow> create_run_input \<Rightarrow> bool \<Rightarrow> run_service \<Rightarrow>
   (thrown + inserted \<times> run_kwargs) \<times> run_service" where
  "prepare_run gap now cx input background sv =
     (case require_assistant (ci_assistant_id input) sv of
        Inl e \<Rightarrow> (Inl e, gap 0 sv)
      | Inr a \<Rightarrow>
          (case resolve_run_thread (later 1 gap) (ci_thread_id input) (ci_create_missing_thread input)
                  (px_thread_uuid cx) (now 0) (gap 0 sv) of
             (Inl e, sv1) \<Rightarrow> (Inl e, sv1)
           | (Inr t, sv1) \<Rightarrow>
               let kwargs = run_kwargs_for cx input background in
               (case create_pending_run (later 4 gap) (later 2 now) (creation_of cx) input (t_thread_id t)
                       (a_assistant_id a) kwargs sv1 of
                  (Inl e, sv2) \<Rightarrow> (Inl e, sv2)
                | (Inr (ReplayedRun r), sv2) \<Rightarrow> (Inr (ReplayedRun r, kwargs), sv2)
                | (Inr made, sv2) \<Rightarrow>
                    (Inr (made, kwargs), stamp_graph_on_thread t a (now 1) sv2))))"

section \<open>Background runs\<close>

text \<open>
  A replayed run is already queued. One admitted under a key waits what its stored row says, any
  other what the request says.
\<close>

definition enqueue_background_run ::
  "inserted \<Rightarrow> int option \<Rightarrow> instant \<Rightarrow> run_service \<Rightarrow> run_service" where
  "enqueue_background_run made after_seconds clock sv =
     (case made of
        CreatedRun r \<Rightarrow>
          sv\<lparr>sv_queue := (r_run_id r, r_thread_id r, after_delay_ms after_seconds) # sv_queue sv\<rparr>
      | AdmittedRun r \<Rightarrow>
          let delay = (case get_kwargs (r_run_id r) (sv_store sv) of
                         Some k \<Rightarrow>
                           (case kw_queue_not_before k of
                              Some t \<Rightarrow> max 0 (t - clock)
                            | None \<Rightarrow> after_delay_ms after_seconds)
                       | None \<Rightarrow> after_delay_ms after_seconds)
          in sv\<lparr>sv_queue := (r_run_id r, r_thread_id r, delay) # sv_queue sv\<rparr>
      | _ \<Rightarrow> sv)"

fun inserted_run :: "inserted \<Rightarrow> run option" where
  "inserted_run (CreatedRun r) = Some r"
| "inserted_run (AdmittedRun r) = Some r"
| "inserted_run (ReplayedRun r) = Some r"
| "inserted_run ThreadBusy = None"

definition start_background ::
  "gaps \<Rightarrow> (nat \<Rightarrow> instant) \<Rightarrow> prologue_context \<Rightarrow> create_run_input \<Rightarrow> run_service \<Rightarrow> (thrown + inserted) \<times> run_service" where
  "start_background gap now cx input sv =
     (case prepare_run gap now cx input True sv of
        (Inl e, sv1) \<Rightarrow> (Inl e, sv1)
      | (Inr (made, _), sv1) \<Rightarrow>
          (Inr made, enqueue_background_run made (ci_after_seconds input) (px_clock cx) sv1))"

definition create_background ::
  "gaps \<Rightarrow> (nat \<Rightarrow> instant) \<Rightarrow> prologue_context \<Rightarrow> ident \<Rightarrow> create_run_input \<Rightarrow> run_service \<Rightarrow>
   (thrown + inserted) \<times> run_service" where
  "create_background gap now cx thread_id input =
     start_background gap now cx (input\<lparr>ci_thread_id := Some thread_id\<rparr>)"

definition create_stateless_background ::
  "gaps \<Rightarrow> (nat \<Rightarrow> instant) \<Rightarrow> prologue_context \<Rightarrow> create_run_input \<Rightarrow> run_service \<Rightarrow>
   (thrown + inserted) \<times> run_service" where
  "create_stateless_background gap now cx input =
     start_background gap now cx (input\<lparr>ci_thread_id := None\<rparr>)"

text \<open>\<open>createBatch\<close>: in order, the first failure ends it; each item has its own context and gaps.\<close>

fun create_batch ::
  "(nat \<Rightarrow> gaps) \<Rightarrow> (nat \<Rightarrow> nat \<Rightarrow> instant) \<Rightarrow> (nat \<Rightarrow> prologue_context) \<Rightarrow> create_run_input list \<Rightarrow> run_service \<Rightarrow>
   (thrown + inserted list) \<times> run_service" where
  "create_batch gap now cx [] sv = (Inr [], sv)"
| "create_batch gap now cx (input # inputs) sv =
     (case create_stateless_background (gap 0) (now 0) (cx 0) input sv of
        (Inl e, sv1) \<Rightarrow> (Inl e, sv1)
      | (Inr made, sv1) \<Rightarrow>
          (case create_batch (later 1 gap) (later 1 now) (later 1 cx) inputs sv1 of
             (Inl e, sv2) \<Rightarrow> (Inl e, sv2)
           | (Inr rest, sv2) \<Rightarrow> (Inr (made # rest), sv2)))"

section \<open>Properties\<close>

lemma insert_displacing_kwargs:
  assumes "insert_displacing gap cx now input (pending_create input t a k) reason displaced plan d = (Inr (CreatedRun r), sv')"
    and "cx_admission cx = None"
  shows "get_kwargs (r_run_id r) (sv_store sv') = Some k \<and> r_thread_id r = t \<and> r_assistant_id r = a"
proof -
  obtain sv out sv1 where d: "d = (None, sv)"
    and ins: "plain_insert (ci_if_thread_status input) (pending_create input t a k) False (cx_fresh cx 0)
                (now (length displaced)) sv = (out, sv1)"
    using assms by (cases d; cases "fst d") (auto simp: insert_displacing_def guarded_insert_def split: prod.splits)
  have out: "out = Inr (CreatedRun r)" and same: "sv_store sv' = sv_store sv1"
    using assms ins d by (auto simp: insert_displacing_def guarded_insert_def split: option.splits)
  have "rc_run_id (pending_create input t a k) = None" by (simp add: pending_create_def)
  from plain_insert_creates [OF this ins [unfolded out]] same show ?thesis
    by (simp add: get_kwargs_def with_new_run_def pending_create_def jm_get_set new_run_def)
qed

lemma create_pending_kwargs:
  assumes "create_pending_run gap now cx input t a kwargs sv = (Inr (CreatedRun r), sv')" and "cx_admission cx = None"
  shows "(\<exists>plan. get_kwargs (r_run_id r) (sv_store sv') = Some (with_rollback_plan plan kwargs)) \<and>
         r_thread_id r = t \<and> r_assistant_id r = a"
proof -
  have none: "with_rollback_plan None kwargs = kwargs" by (simp add: with_rollback_plan_def)
  show ?thesis
  proof (cases "or_default (ci_multitask_strategy input) MReject = MReject")
    case True
    then obtain out sv1 where ins: "plain_insert (ci_if_thread_status input) (pending_create input t a kwargs) True
        (cx_fresh cx 0) (now 0) sv = (out, sv1)" and out: "out = Inr (CreatedRun r)" "sv' = sv1"
      using assms by (auto simp: create_pending_run_def guarded_insert_def Let_def split: prod.splits)
    have "rc_run_id (pending_create input t a kwargs) = None" by (simp add: pending_create_def)
    from plain_insert_creates [OF this ins [unfolded out(1)]] out(2)
    have "get_kwargs (r_run_id r) (sv_store sv') = Some kwargs \<and> r_thread_id r = t \<and> r_assistant_id r = a"
      by (simp add: get_kwargs_def with_new_run_def pending_create_def jm_get_set new_run_def)
    then show ?thesis using none by metis
  next
    case False
    let ?made = "\<lambda>g reason displaced plan d. insert_displacing g cx now input
        (pending_create input t a (with_rollback_plan plan kwargs)) reason displaced plan d = (Inr (CreatedRun r), sv')"
    have "(\<exists>g reason displaced d. ?made g reason displaced None d) \<or> (\<exists>g reason displaced p d. ?made g reason displaced (Some p) d)"
      unfolding none using assms(1) False
      by (simp add: create_pending_run_def Let_def del: split_paired_Ex split: if_splits) blast+
    then obtain g reason displaced plan d where
      "insert_displacing g cx now input (pending_create input t a (with_rollback_plan plan kwargs)) reason displaced plan d
         = (Inr (CreatedRun r), sv')" by blast
    with insert_displacing_kwargs [OF _ assms(2)] show ?thesis by blast
  qed
qed

lemma stamp_frame:
  "ms_run_kwargs (sv_store (stamp_graph_on_thread t a now sv)) = ms_run_kwargs (sv_store sv)"
  by (auto simp: stamp_graph_on_thread_def thread_update_op_def Let_def frame_simps split: option.split)

lemma with_plan_fields [simp]:
  "kw_queue_not_before (with_rollback_plan plan k) = kw_queue_not_before k"
  "kw_delete_thread_on_completion (with_rollback_plan plan k) = kw_delete_thread_on_completion k"
  "name \<noteq> ''rollback_plan'' \<Longrightarrow> jm_get (kw_rest (with_rollback_plan plan k)) name = jm_get (kw_rest k) name"
  by (auto simp: with_rollback_plan_def jm_get_set split: option.split)

text \<open>The queue entries of one run, and that nothing before the hand-over touches them.\<close>

definition queued :: "ident \<Rightarrow> run_service \<Rightarrow> (ident \<times> ident \<times> int) list" where
  "queued i sv = filter (\<lambda>e. fst e = i) (sv_queue sv)"

definition leaves_queued :: "ident \<Rightarrow> gaps \<Rightarrow> bool" where
  "leaves_queued i gap \<longleftrightarrow> (\<forall>n sv. queued i (gap n sv) = queued i sv)"

lemma leaves_queuedD [simp]: "leaves_queued i gap \<Longrightarrow> queued i (gap n sv) = queued i sv"
  by (simp add: leaves_queued_def)

lemma leaves_queued_later [simp]: "leaves_queued i gap \<Longrightarrow> leaves_queued i (later k gap)"
  by (simp add: leaves_queued_def later_def)

lemma queued_simps [simp]:
  "queued i (sv\<lparr>sv_store := s\<rparr>) = queued i sv" "queued i (sv\<lparr>sv_rollback_plans := p\<rparr>) = queued i sv"
  "queued i (close_bus j sv) = queued i sv" "queued i (control_abort j reason sv) = queued i sv"
  by (simp_all add: queued_def close_bus_def control_abort_def case_prod_beta Let_def)

lemma queued_fold_abort [simp]: "queued i (fold (\<lambda>d. control_abort (f d) reason) ds sv) = queued i sv"
  by (induction ds arbitrary: sv) simp_all

lemma queued_displace_all:
  "leaves_queued i gap \<Longrightarrow> queued i (snd (displace_all gap now reason rs sv)) = queued i sv"
proof (induction gap now reason rs sv rule: displace_all.induct)
  case (2 gap now reason r rs sv)
  obtain out sv1 where one: "cancel_active_run gap now r reason sv = (out, sv1)" by fastforce
  with 2(2) have "queued i sv1 = queued i sv"
    by (auto simp: cancel_active_run_def Let_def split: prod.splits sum.splits if_splits)
  with 2 one show ?case by (cases out) simp_all
qed simp

lemma queued_guarded_insert:
  "leaves_queued i gap \<Longrightarrow>
     queued i (snd (guarded_insert gap cx st create idle reason displaced now sv)) = queued i sv"
  by (auto simp: guarded_insert_def plain_insert_def admission_insert_def Let_def
      split: option.split sum.split prod.split guarded_run_create.split)

lemma queued_insert_displacing:
  assumes "leaves_queued i gap"
  shows "queued i (snd (insert_displacing gap cx now input create reason displaced plan d)) = queued i (snd d)"
proof (cases d)
  case (Pair e sv)
  obtain out sv1 where ins: "guarded_insert gap cx (ci_if_thread_status input) create False reason displaced
      (now (length displaced)) sv = (out, sv1)" by fastforce
  then have "queued i sv1 = queued i sv" using queued_guarded_insert [OF assms] by (metis snd_conv)
  with Pair ins show ?thesis
    by (cases e) (auto simp: insert_displacing_def split: option.split sum.split inserted.split)
qed

lemma queued_create_pending:
  assumes "leaves_queued i gap"
  shows "queued i (snd (create_pending_run gap now cx input t a kwargs sv)) = queued i sv"
proof -
  have "queued i (snd (displace (later 1 gap) cx now reason rs (gap 0 sv))) = queued i sv" for reason rs
    using assms queued_displace_all by (simp add: displace_def)
  then show ?thesis
    using assms queued_insert_displacing queued_guarded_insert
    by (simp add: create_pending_run_def Let_def case_prod_beta)
qed

lemma queued_resolve:
  "leaves_queued i gap \<Longrightarrow> queued i (snd (resolve_run_thread gap thread_id missing uuid now sv)) = queued i sv"
  by (auto simp: resolve_run_thread_def ensure_thread_def make_thread_def Let_def
      split: option.split sum.split prod.split)

lemma queued_prepare:
  assumes "leaves_queued i gap"
  shows "queued i (snd (prepare_run gap now cx input background sv)) = queued i sv"
proof -
  have stamp: "queued i (stamp_graph_on_thread t a clock u) = queued i u" for t a clock u
    by (simp add: stamp_graph_on_thread_def split: prod.split sum.split)
  have resolve: "queued i u = queued i sv"
    if "resolve_run_thread (later 1 gap) thread_id missing uuid clock (gap 0 sv) = (out, u)" for thread_id missing uuid clock out u
    using queued_resolve [of i "later 1 gap" thread_id missing uuid clock "gap 0 sv"] that assms by (simp del: One_nat_def)
  have create: "queued i u = queued i v"
    if "create_pending_run (later 4 gap) clock c input t a k v = (out, u)" for clock c t a k v out u
    using queued_create_pending [of i "later 4 gap" clock c input t a k v] that assms by simp
  show ?thesis
    using assms
    by (auto simp: prepare_run_def Let_def stamp simp del: One_nat_def split: sum.split prod.split inserted.split dest!: resolve create)
qed

text \<open>
  C36. A background run without an operation key, on a graph whose adapter does not own its kwargs, is
  queued as it was asked for and on whose behalf. Whatever else happens at the awaits: the run created
  is handed to the queue with its thread and the requested delay, last of all; it is handed over once,
  so that where nobody else queues this run it has this entry beside those it had; the instant before
  which no recovery may queue it again is stored with it and agrees with the delay; the identity
  stored with it is the server's, whatever the request contains; and its thread is deleted on
  completion only when the server made the thread for it.
\<close>

theorem background_run_scheduled:
  assumes "cx_admission cx = None" and "px_native_owns cx = False" and "\<not> kw_delete_thread_on_completion (px_base cx)"
    and "jm_get (kw_rest (px_base cx)) ''auth_user'' = None" "jm_get (kw_rest (px_base cx)) ''auth_scopes'' = None"
      "jm_get (kw_rest (px_base cx)) ''rollback_plan'' = None"
    and "start_background gap now cx input sv = (Inr (CreatedRun r), sv')"
  shows "\<exists>k before. get_kwargs (r_run_id r) (sv_store sv') = Some k \<and>
     sv_queue sv' = (r_run_id r, r_thread_id r, after_delay_ms (ci_after_seconds input)) # before \<and>
     (leaves_queued (r_run_id r) gap \<longrightarrow> filter (\<lambda>e. fst e = r_run_id r) before = queued (r_run_id r) sv) \<and>
     kw_queue_not_before k = Some (px_clock cx + after_delay_ms (ci_after_seconds input)) \<and>
     0 \<le> after_delay_ms (ci_after_seconds input) \<and>
     jm_get (kw_rest k) ''auth_user'' = px_auth_user cx \<and>
     (kw_delete_thread_on_completion k \<longrightarrow> ci_thread_id input = None \<and> ci_delete_on_completion input)"
proof -
  let ?k = "run_kwargs_for cx input True"
  obtain sv2 k1 where prepared: "prepare_run gap now cx input True sv = (Inr (CreatedRun r, k1), sv2)"
    and sv': "sv' = enqueue_background_run (CreatedRun r) (ci_after_seconds input) (px_clock cx) sv2"
    using assms(7) by (auto simp: start_background_def split: prod.splits sum.splits)
  obtain g n t a sv0 sv1 where created:
      "create_pending_run g n (creation_of cx) input t a ?k sv0 = (Inr (CreatedRun r), sv1)"
    and kept: "ms_run_kwargs (sv_store sv2) = ms_run_kwargs (sv_store sv1)"
    using prepared stamp_frame
    by (fastforce simp: prepare_run_def Let_def split: prod.splits sum.splits inserted.splits)
  have "cx_admission (creation_of cx) = None" using assms(1) by (simp add: creation_of_def)
  from create_pending_kwargs [OF created this] obtain plan where
    "get_kwargs (r_run_id r) (sv_store sv1) = Some (with_rollback_plan plan ?k)" by blast
  then have stored: "get_kwargs (r_run_id r) (sv_store sv') = Some (with_rollback_plan plan ?k)"
    using kept by (simp add: sv' enqueue_background_run_def get_kwargs_def)
  have "jm_get (kw_rest ?k) ''auth_user'' = px_auth_user cx"
    using to_kwargs_auth(1) [OF assms(4,5,6)] by (simp add: run_kwargs_for_def Let_def)
  moreover have "kw_queue_not_before ?k = Some (px_clock cx + after_delay_ms (ci_after_seconds input))"
    by (simp add: run_kwargs_for_def Let_def)
  moreover have "kw_delete_thread_on_completion ?k \<longrightarrow> ci_thread_id input = None \<and> ci_delete_on_completion input"
    using assms(2,3) by (auto simp: run_kwargs_for_def Let_def to_kwargs_def)
  moreover have "0 \<le> after_delay_ms (ci_after_seconds input)" by (simp add: after_delay_ms_def)
  moreover have "leaves_queued (r_run_id r) gap \<longrightarrow> queued (r_run_id r) sv2 = queued (r_run_id r) sv"
    using queued_prepare [of "r_run_id r" gap now cx input True sv] prepared by simp
  ultimately show ?thesis
    using stored by (simp add: sv' enqueue_background_run_def queued_def)
qed

subsection \<open>Witness\<close>

definition assisted_service :: run_service where
  "assisted_service = sample_service\<lparr>sv_store := (sv_store sample_service)\<lparr>ms_assistants :=
     [(''a1'', \<lparr>a_assistant_id = ''a1'', a_graph_id = ''g'', a_config = JObj [], a_context = JNull, a_created_at = 0,
        a_updated_at = 0, a_metadata = JObj [], a_version = 1, a_name = ''n'', a_description = None\<rparr>)]\<rparr>\<rparr>"

definition sample_prologue :: prologue_context where
  "sample_prologue = \<lparr>cx_admission = None, cx_aborted = False, cx_fresh = (\<lambda>_. ''r2''),
     px_base = empty_kwargs, px_native_owns = False, px_auth_user = Some (JStr ''ann''), px_auth_scopes = None,
     px_thread_uuid = ''t9'', px_clock = 100\<rparr>"

definition spoofing_input :: create_run_input where
  "spoofing_input = (sample_input MEnqueue)
     \<lparr>ci_after_seconds := Some 3, ci_config := Some (JObj [(''auth_user'', JStr ''root'')]),
      ci_delete_on_completion := True\<rparr>"

definition background_started :: "(thrown + inserted) \<times> run_service" where
  "background_started = start_background no_gap (\<lambda>_. 100) sample_prologue spoofing_input assisted_service"

lemma background_started_created: "case fst background_started of Inr (CreatedRun r) \<Rightarrow> r_thread_id r = ''t1'' | _ \<Rightarrow> False"
  by code_simp

lemma background_started_run: "\<exists>r. fst background_started = Inr (CreatedRun r) \<and> r_thread_id r = ''t1''"
proof -
  have "\<exists>r. out = Inr (CreatedRun r) \<and> r_thread_id r = t"
    if "case out of Inr (CreatedRun r) \<Rightarrow> r_thread_id r = t | _ \<Rightarrow> False" for out :: "thrown + inserted" and t
    using that by (auto split: sum.splits inserted.splits)
  then show ?thesis using background_started_created by blast
qed

lemma background_started_eq:
  "fst background_started = Inr (CreatedRun r) \<Longrightarrow>
   start_background no_gap (\<lambda>_. 100) sample_prologue spoofing_input assisted_service =
     (Inr (CreatedRun r), snd background_started)"
  by (simp add: prod_eq_iff flip: background_started_def)

lemma sample_prologue_fields:
  "cx_admission sample_prologue = None" "px_native_owns sample_prologue = False"
  "\<not> kw_delete_thread_on_completion (px_base sample_prologue)"
  "jm_get (kw_rest (px_base sample_prologue)) ''auth_user'' = None"
  "jm_get (kw_rest (px_base sample_prologue)) ''auth_scopes'' = None"
  "jm_get (kw_rest (px_base sample_prologue)) ''rollback_plan'' = None"
  by (simp_all add: sample_prologue_def empty_kwargs_def)

lemma spoofing_delay:
  "after_delay_ms (ci_after_seconds spoofing_input) = 3000" "px_clock sample_prologue = 100"
  "px_auth_user sample_prologue = Some (JStr ''ann'')" "ci_thread_id spoofing_input \<noteq> None"
  by (simp_all add: after_delay_ms_def spoofing_input_def sample_prologue_def sample_input_def)

theorem background_run_scheduled_witness:
  "\<exists>r k. fst background_started = Inr (CreatedRun r) \<and>
     queued (r_run_id r) (snd background_started) = [(r_run_id r, ''t1'', 3000)] \<and>
     get_kwargs (r_run_id r) (sv_store (snd background_started)) = Some k \<and>
     jm_get (kw_rest k) ''auth_user'' = Some (JStr ''ann'') \<and> kw_queue_not_before k = Some (100 + 3000) \<and>
     \<not> kw_delete_thread_on_completion k"
proof -
  obtain r where r: "fst background_started = Inr (CreatedRun r)" "r_thread_id r = ''t1''"
    using background_started_run by blast
  from background_run_scheduled [OF sample_prologue_fields background_started_eq [OF r(1)]] obtain k before where
    "get_kwargs (r_run_id r) (sv_store (snd background_started)) = Some k"
    "sv_queue (snd background_started) = (r_run_id r, ''t1'', 3000) # before"
    "leaves_queued (r_run_id r) no_gap \<longrightarrow> filter (\<lambda>e. fst e = r_run_id r) before = queued (r_run_id r) assisted_service"
    "kw_queue_not_before k = Some (100 + 3000)" "jm_get (kw_rest k) ''auth_user'' = Some (JStr ''ann'')"
    "\<not> kw_delete_thread_on_completion k"
    unfolding spoofing_delay r(2) using spoofing_delay(4) by metis
  moreover have "leaves_queued (r_run_id r) no_gap" "queued (r_run_id r) assisted_service = []"
    by (simp_all add: leaves_queued_def queued_def assisted_service_def sample_service_def)
  ultimately show ?thesis using r(1) by (auto simp: queued_def)
qed

end
