(* ===== verification/AuthFilters.thy ===== *)
theory AuthFilters
  imports Resources
begin

text \<open>
  \<^verbatim>\<open>auth/auth-filters-to-metadata.ts\<close> and the stamping half of \<^verbatim>\<open>auth/auth-scoped-store.ts\<close>: the
  ownership filters a deployment's authorization handler returned, translated into a metadata subset
  a driver can match, and merged into the metadata of what the caller creates.

  What a filter means is decided by \<^verbatim>\<open>isAuthMatching\<close> of the LangGraph package, which is not part of
  this repository; \<open>clause_matches\<close> writes down the behaviour the translation's comments rely on, and
  \<open>honours_declared\<close> says of an engine that it behaves so on the declared shapes.
\<close>

section \<open>Filters\<close>

text \<open>
  A clause is a plain value or an object with the two operators. \<open>PlainClause\<close> is meant for values
  that are no objects; a filter object carries other types than the declared ones when a handler
  builds it from a field that is missing.
\<close>

datatype auth_clause =
    PlainClause jsval
  | OperatorClause "jsval option" "jsval option"

type_synonym auth_filters = "(string, auth_clause) jsmap"

definition truthy_prop :: "jsval option \<Rightarrow> jsval option" where
  "truthy_prop p = (case p of None \<Rightarrow> None | Some v \<Rightarrow> if js_truthy v then Some v else None)"

text \<open>\<^verbatim>\<open>Array.isArray(v) ? v : [v]\<close>.\<close>

fun as_array :: "jsval \<Rightarrow> jsval list" where
  "as_array (JArr xs) = xs"
| "as_array v = [v]"

section \<open>The metadata subset\<close>

fun clause_subset :: "auth_clause \<Rightarrow> jsval option" where
  "clause_subset (PlainClause v) = (if v = JUndef then None else Some v)"
| "clause_subset (OperatorClause eq contains) =
     (case truthy_prop eq of
        Some v \<Rightarrow> Some v
      | None \<Rightarrow> (case truthy_prop contains of
                   Some v \<Rightarrow> Some (JArr (as_array v))
                 | None \<Rightarrow> None))"

fun subset_loop :: "jsobj \<Rightarrow> auth_filters \<Rightarrow> jsobj" where
  "subset_loop acc [] = acc"
| "subset_loop acc ((key, clause) # rest) =
     (case clause_subset clause of
        None \<Rightarrow> subset_loop acc rest
      | Some v \<Rightarrow> subset_loop (jm_set key v acc) rest)"

definition auth_filters_to_metadata_subset :: "auth_filters option \<Rightarrow> jsval option" where
  "auth_filters_to_metadata_subset filters =
     (case filters of
        None \<Rightarrow> None
      | Some fs \<Rightarrow> let entries = subset_loop [] fs in if length entries > 0 then Some (JObj entries) else None)"

section \<open>Stamping\<close>

text \<open>\<^verbatim>\<open>[...new Set(xs)]\<close>: the first occurrence of each value.\<close>

fun new_set :: "jsval list \<Rightarrow> jsval list \<Rightarrow> jsval list" where
  "new_set seen [] = seen"
| "new_set seen (x # xs) = new_set (if list_ex (same_value_zero x) seen then seen else seen @ [x]) xs"

text \<open>\<^verbatim>\<open>Array.isArray(stamped[key]) ? stamped[key] : []\<close>.\<close>

definition array_at :: "jsobj \<Rightarrow> string \<Rightarrow> jsval list" where
  "array_at stamped key = (case jm_get stamped key of Some (JArr xs) \<Rightarrow> xs | _ \<Rightarrow> [])"

text \<open>
  One clause over the metadata so far. Reading \<^verbatim>\<open>value.$eq\<close> of \<^verbatim>\<open>undefined\<close> or \<^verbatim>\<open>null\<close> throws, which is
  \<open>None\<close>; any other value that is no string has neither operator.
\<close>

fun stamp_clause :: "string \<Rightarrow> auth_clause \<Rightarrow> jsobj \<Rightarrow> jsobj option" where
  "stamp_clause key (PlainClause v) stamped =
     (case v of
        JStr text \<Rightarrow> Some (jm_set key (JStr text) stamped)
      | JUndef \<Rightarrow> None
      | JNull \<Rightarrow> None
      | _ \<Rightarrow> Some stamped)"
| "stamp_clause key (OperatorClause eq contains) stamped =
     (case eq of
        Some (JStr text) \<Rightarrow> Some (jm_set key (JStr text) stamped)
      | _ \<Rightarrow>
          (case contains of
             None \<Rightarrow> Some stamped
           | Some JUndef \<Rightarrow> Some stamped
           | Some required \<Rightarrow>
               Some (jm_set key (JArr (new_set [] (array_at stamped key @ as_array required))) stamped)))"

fun stamp_loop :: "auth_filters \<Rightarrow> jsobj \<Rightarrow> jsobj option" where
  "stamp_loop [] stamped = Some stamped"
| "stamp_loop ((key, clause) # rest) stamped =
     (case stamp_clause key clause stamped of
        None \<Rightarrow> None
      | Some next_stamped \<Rightarrow> stamp_loop rest next_stamped)"

definition stamp_from_filters :: "jsval option \<Rightarrow> auth_filters \<Rightarrow> jsval option" where
  "stamp_from_filters metadata fs =
     map_option JObj
       (stamp_loop fs (spread_over [] (case metadata of None \<Rightarrow> [] | Some m \<Rightarrow> js_entries m)))"

section \<open>What a filter means\<close>

definition metadata_at :: "jsval option \<Rightarrow> string \<Rightarrow> jsval" where
  "metadata_at metadata key =
     (case metadata of None \<Rightarrow> JUndef | Some m \<Rightarrow> or_default (jm_get (js_entries m) key) JUndef)"

fun clause_matches :: "jsval option \<Rightarrow> string \<times> auth_clause \<Rightarrow> bool" where
  "clause_matches metadata (key, PlainClause v) = js_strict_eq (metadata_at metadata key) v"
| "clause_matches metadata (key, OperatorClause eq contains) =
     (case truthy_prop eq of
        Some v \<Rightarrow> js_strict_eq (metadata_at metadata key) v
      | None \<Rightarrow>
          (case truthy_prop contains of
             None \<Rightarrow> True
           | Some v \<Rightarrow>
               (case metadata_at metadata key of
                  JArr held \<Rightarrow> list_all (\<lambda>wanted. list_ex (same_value_zero wanted) held) (as_array v)
                | _ \<Rightarrow> False)))"

definition filters_match :: "auth_filters \<Rightarrow> jsval option \<Rightarrow> bool" where
  "filters_match fs metadata \<longleftrightarrow> list_all (clause_matches metadata) fs"

text \<open>The shapes \<^verbatim>\<open>AuthFilterValue\<close> declares, with one operator per clause.\<close>

fun is_text :: "jsval \<Rightarrow> bool" where
  "is_text (JStr _) = True"
| "is_text _ = False"

fun declared_clause :: "auth_clause \<Rightarrow> bool" where
  "declared_clause (PlainClause v) = is_text v"
| "declared_clause (OperatorClause None None) = True"
| "declared_clause (OperatorClause (Some v) None) = is_text v"
| "declared_clause (OperatorClause None (Some v)) = list_all is_text (as_array v)"
| "declared_clause (OperatorClause (Some _) (Some _)) = False"

definition declared_filters :: "auth_filters \<Rightarrow> bool" where
  "declared_filters fs \<longleftrightarrow> jm_wf fs \<and> list_all (declared_clause \<circ> snd) fs"

definition honours_declared :: "(jsval option \<Rightarrow> auth_filters \<Rightarrow> bool) \<Rightarrow> bool" where
  "honours_declared engine \<longleftrightarrow>
     (\<forall>fs metadata. declared_filters fs \<longrightarrow> engine metadata fs = filters_match fs metadata)"

section \<open>Facts about the pieces\<close>

lemma is_text_strict: "is_text v \<Longrightarrow> js_strict_eq x v \<longleftrightarrow> x = v"
  by (cases v; cases x) auto

lemma is_text_szv: "is_text w \<Longrightarrow> same_value_zero w x \<longleftrightarrow> x = w"
  by (cases w; cases x) (auto simp: same_value_zero_def)

lemma contains_text: "is_text w \<Longrightarrow> jsonb_contains x w \<longleftrightarrow> x = w"
  by (cases w) (auto simp: is_text_strict [of "JStr _", simplified])

lemma wf_spread: "jm_wf a \<Longrightarrow> jm_wf (spread_over a b)"
  by (induction a b rule: spread_over.induct) (simp_all add: wf_intro)

lemma subset_loop_get:
  "jm_wf fs \<Longrightarrow> map_of (subset_loop acc fs) k =
     (case map_of fs k of
        None \<Rightarrow> map_of acc k
      | Some c \<Rightarrow> (case clause_subset c of None \<Rightarrow> map_of acc k | Some v \<Rightarrow> Some v))"
proof (induction acc fs rule: subset_loop.induct)
  case (2 acc key clause rest)
  then have "map_of rest key = None" by (simp add: map_of_eq_None_iff)
  with 2 show ?case by (auto simp: jm_simps split: option.split)
qed simp

lemma subset_loop_wf: "jm_wf acc \<Longrightarrow> jm_wf (subset_loop acc fs)"
  by (induction acc fs rule: subset_loop.induct) (auto simp: wf_intro split: option.split)

lemma new_set_members: "list_all is_text xs \<Longrightarrow> set (new_set seen xs) = set seen \<union> set xs"
  by (induction xs arbitrary: seen) (auto simp: list_ex_iff is_text_szv)

lemma map_of_all:
  "jm_wf m \<Longrightarrow> (\<forall>k w. map_of m k = Some w \<longrightarrow> P k w) \<longleftrightarrow> (\<forall>e \<in> set m. P (fst e) (snd e))"
  by (auto simp: jm_get_in [symmetric])

lemma new_set_append: "new_set seen (xs @ ys) = new_set (new_set seen xs) ys"
  by (induction xs arbitrary: seen) simp_all

section \<open>The translation is exact on the declared shapes\<close>

lemma clause_subset_exact:
  assumes "declared_clause c"
  shows "clause_matches (Some (JObj row)) (k, c) \<longleftrightarrow>
           (case clause_subset c of
              None \<Rightarrow> True
            | Some w \<Rightarrow> (case map_of row k of None \<Rightarrow> False | Some v \<Rightarrow> jsonb_contains v w))"
proof (cases c)
  case (PlainClause v)
  with assms show ?thesis
    by (cases v) (auto simp: metadata_at_def contains_text is_text_strict split: option.split)
next
  case (OperatorClause eq contains)
  show ?thesis
  proof (cases eq)
    case (Some v)
    with assms OperatorClause have "is_text v" by (cases contains) auto
    with assms OperatorClause Some show ?thesis
      by (cases contains; cases v)
         (auto simp: metadata_at_def truthy_prop_def contains_text is_text_strict or_default_def split: option.split)
  next
    case None
    show ?thesis
    proof (cases contains)
      case (Some w)
      with assms OperatorClause None have "list_all is_text (as_array w)" by simp
      then have ex: "list_all (\<lambda>wanted. list_ex (same_value_zero wanted) held) (as_array w) \<longleftrightarrow>
          list_all (\<lambda>wanted. list_ex (\<lambda>candidate. jsonb_contains candidate wanted) held) (as_array w)" for held
        by (auto simp: list_all_iff list_ex_iff is_text_szv contains_text)
      show ?thesis
        using OperatorClause None Some ex
        by (auto simp: truthy_prop_def metadata_at_def or_default_def split: option.split jsval.split)
    qed (use OperatorClause None in \<open>simp add: truthy_prop_def\<close>)
  qed
qed

lemma subset_exact:
  assumes "declared_filters fs"
  shows "is_metadata_subset (JObj row) (auth_filters_to_metadata_subset (Some fs)) \<longleftrightarrow>
           filters_match fs (Some (JObj row))"
proof -
  have wf: "jm_wf fs" and decl: "\<And>k c. map_of fs k = Some c \<Longrightarrow> declared_clause c"
    using assms by (auto simp: declared_filters_def list_all_iff dest: map_of_SomeD)
  let ?sub = "subset_loop [] fs"
  have sub: "map_of ?sub k = (case map_of fs k of None \<Rightarrow> None | Some c \<Rightarrow> clause_subset c)" for k
    by (simp add: subset_loop_get [OF wf] split: option.split)
  have wf': "jm_wf ?sub" by (simp add: subset_loop_wf)
  have "filters_match fs (Some (JObj row)) \<longleftrightarrow>
      (\<forall>k c. map_of fs k = Some c \<longrightarrow> clause_matches (Some (JObj row)) (k, c))"
    by (auto simp: filters_match_def list_all_iff jm_get_in [OF wf])
  also have "\<dots> \<longleftrightarrow> (\<forall>k w. map_of ?sub k = Some w \<longrightarrow>
      (case map_of row k of None \<Rightarrow> False | Some v \<Rightarrow> jsonb_contains v w))"
    using decl by (fastforce simp: clause_subset_exact sub split: option.splits)
  also have "\<dots> \<longleftrightarrow> is_metadata_subset (JObj row) (if length ?sub > 0 then Some (JObj ?sub) else None)"
    by (auto simp: is_metadata_subset_def list_all_iff
        map_of_all [OF wf', of "\<lambda>k w. case map_of row k of None \<Rightarrow> False | Some v \<Rightarrow> jsonb_contains v w"])
  finally show ?thesis by (simp add: auth_filters_to_metadata_subset_def Let_def)
qed

section \<open>What is stamped matches\<close>

lemma stamp_clause_cases:
  "stamp_clause k c acc = Some acc' \<Longrightarrow> acc' = acc \<or> (\<exists>v. acc' = jm_set k v acc)"
  by (cases c) (auto split: jsval.splits option.splits)

lemma stamp_clause_get:
  "stamp_clause k c acc = Some acc' \<Longrightarrow> k' \<noteq> k \<Longrightarrow> map_of acc' k' = map_of acc k'"
  using stamp_clause_cases by (fastforce simp: jm_simps)

lemma stamp_loop_other:
  "stamp_loop fs acc = Some acc' \<Longrightarrow> k \<notin> fst ` set fs \<Longrightarrow> map_of acc' k = map_of acc k"
proof (induction fs acc rule: stamp_loop.induct)
  case (2 key clause rest acc)
  then show ?case by (auto split: option.splits dest: stamp_clause_get)
qed simp

lemma clause_matches_cong:
  "metadata_at m k = metadata_at m' k \<Longrightarrow> clause_matches m (k, c) = clause_matches m' (k, c)"
  by (cases c) (auto split: option.split)

lemma clause_matches_at:
  "map_of a k = map_of b k \<Longrightarrow>
     clause_matches (Some (JObj a)) (k, c) = clause_matches (Some (JObj b)) (k, c)"
  using clause_matches_cong [of "Some (JObj a)" k "Some (JObj b)" c] by (simp add: metadata_at_def)

lemma stamp_clause_matches:
  assumes "declared_clause c"
  shows "\<exists>acc'. stamp_clause k c acc = Some acc' \<and> clause_matches (Some (JObj acc')) (k, c)"
proof (cases c)
  case (PlainClause v)
  with assms show ?thesis by (cases v) (auto simp: metadata_at_def jm_simps)
next
  case (OperatorClause eq contains)
  show ?thesis
  proof (cases eq)
    case (Some v)
    with assms OperatorClause have "is_text v" "contains = None" by (cases contains; simp)+
    with OperatorClause Some show ?thesis
      by (cases v) (auto simp: metadata_at_def jm_simps truthy_prop_def split: option.split)
  next
    case None
    show ?thesis
    proof (cases contains)
      case (Some w)
      with assms OperatorClause None have texts: "list_all is_text (as_array w)" by simp
      have sub: "set (as_array w) \<subseteq> set (new_set [] (xs @ as_array w))" for xs
        using new_set_members [OF texts] by (auto simp: new_set_append)
      have "list_all (\<lambda>wanted. list_ex (same_value_zero wanted) (new_set [] (xs @ as_array w))) (as_array w)" for xs
        using texts sub [of xs] by (fastforce simp: list_all_iff list_ex_iff is_text_szv)
      moreover have "w \<noteq> JUndef" using texts by auto
      ultimately show ?thesis
        using OperatorClause None Some
        by (cases w) (auto simp: metadata_at_def jm_simps truthy_prop_def split: option.split)
    qed (use OperatorClause None in \<open>simp add: truthy_prop_def\<close>)
  qed
qed

lemma stamp_loop_matches:
  assumes "jm_wf fs" "list_all (declared_clause \<circ> snd) fs"
  shows "\<exists>acc'. stamp_loop fs acc = Some acc' \<and> filters_match fs (Some (JObj acc'))"
  using assms
proof (induction fs arbitrary: acc)
  case Nil
  then show ?case by (simp add: filters_match_def)
next
  case (Cons f rest)
  obtain k c where f: "f = (k, c)" by fastforce
  obtain next_acc where step: "stamp_clause k c acc = Some next_acc"
    "clause_matches (Some (JObj next_acc)) (k, c)"
    using stamp_clause_matches [of c k acc] Cons.prems f by auto
  obtain acc' where loop: "stamp_loop rest next_acc = Some acc'" "filters_match rest (Some (JObj acc'))"
    using Cons.IH [of next_acc] Cons.prems by auto
  have "map_of acc' k = map_of next_acc k"
    using stamp_loop_other [OF loop(1)] Cons.prems f by simp
  then have "clause_matches (Some (JObj acc')) (k, c)"
    using step(2) clause_matches_at [of acc' k next_acc c] by blast
  with step(1) loop f show ?case
    by (simp add: filters_match_def)
qed

lemma stamp_matches:
  assumes "declared_filters fs"
  shows "\<exists>row. stamp_from_filters metadata fs = Some (JObj row) \<and> filters_match fs (Some (JObj row))"
  using stamp_loop_matches assms by (fastforce simp: declared_filters_def stamp_from_filters_def)

text \<open>Every stamped key wins over what it is spread onto.\<close>

lemma stamp_clause_wf: "stamp_clause k c acc = Some acc' \<Longrightarrow> jm_wf acc \<Longrightarrow> jm_wf acc'"
  using stamp_clause_cases [of k c acc acc'] wf_intro by auto

lemma stamp_loop_wf: "stamp_loop fs acc = Some acc' \<Longrightarrow> jm_wf acc \<Longrightarrow> jm_wf acc'"
  by (induction fs acc rule: stamp_loop.induct) (auto split: option.splits dest: stamp_clause_wf)

end
