(* ===== verification/AuthScopedStore.thy ===== *)
theory AuthScopedStore
  imports AuthFilters StoreThreads StoreCrons StoreAdmission
begin

text \<open>
  \<^verbatim>\<open>auth/auth-scoped-store.ts\<close>: the per-request decorator that confines a caller to the rows its
  ownership filters match. Reads drop foreign rows, an operation on a foreign row answers as if the
  row did not exist, and what the caller creates is stamped so that it matches.

  An operation that reads the row first and then calls the store awaits in between; \<open>gap\<close> is what the
  other requests do to the store meanwhile. \<open>as_matches\<close> is \<^verbatim>\<open>engine.matchesFilters\<close>.
\<close>

section \<open>The scope\<close>

record auth_scope =
  as_matches :: "jsval option \<Rightarrow> auth_filters \<Rightarrow> bool"
  as_filters :: auth_filters

definition nullish :: "jsval \<Rightarrow> jsval option" where
  "nullish m = (if m = JUndef \<or> m = JNull then None else Some m)"

definition scope_matches :: "auth_scope \<Rightarrow> jsval \<Rightarrow> bool" where
  "scope_matches sc metadata \<longleftrightarrow> as_matches sc (nullish metadata) (as_filters sc)"

definition scope_stamp :: "auth_scope \<Rightarrow> jsval option \<Rightarrow> jsval option" where
  "scope_stamp sc metadata =
     stamp_from_filters (case metadata of None \<Rightarrow> None | Some m \<Rightarrow> nullish m) (as_filters sc)"

definition ownership_metadata :: "auth_scope \<Rightarrow> jsval option" where
  "ownership_metadata sc = auth_filters_to_metadata_subset (Some (as_filters sc))"

text \<open>\<^verbatim>\<open>{ ...input, metadata: stamp(input.metadata) }\<close> handed on; a stamp that throws goes to the caller.\<close>

definition with_stamp ::
  "auth_scope \<Rightarrow> jsval option \<Rightarrow> (jsval \<Rightarrow> mem_store \<Rightarrow> 'a outcome) \<Rightarrow> mem_store \<Rightarrow> 'a outcome" where
  "with_stamp sc metadata next_op s =
     (case scope_stamp sc metadata of None \<Rightarrow> (Inl TypeError, s) | Some m \<Rightarrow> next_op m s)"

section \<open>Threads\<close>

definition scoped_thread_get :: "auth_scope \<Rightarrow> ident \<Rightarrow> mem_store \<Rightarrow> thread_view option" where
  "scoped_thread_get sc thread_id s =
     (case thread_get thread_id s of
        None \<Rightarrow> None
      | Some t \<Rightarrow> if scope_matches sc (t_metadata t) then Some t else None)"

definition gated_thread ::
  "auth_scope \<Rightarrow> (mem_store \<Rightarrow> mem_store) \<Rightarrow> ident \<Rightarrow> (mem_store \<Rightarrow> 'a outcome) \<Rightarrow> mem_store \<Rightarrow> 'a outcome" where
  "gated_thread sc gap thread_id next_op s =
     (case scoped_thread_get sc thread_id s of
        None \<Rightarrow> (Inl not_found, s)
      | Some _ \<Rightarrow> next_op (gap s))"

definition scoped_get_ttl ::
  "auth_scope \<Rightarrow> (mem_store \<Rightarrow> mem_store) \<Rightarrow> ident \<Rightarrow> mem_store \<Rightarrow> thread_retention outcome" where
  "scoped_get_ttl sc gap thread_id =
     gated_thread sc gap thread_id (\<lambda>s. (Inr (threads_get_ttl thread_id s), s))"

definition enforced_threads :: "auth_scope \<Rightarrow> thread_search_query \<Rightarrow> thread_search_query" where
  "enforced_threads sc q = q\<lparr>tq_enforced_metadata := ownership_metadata sc\<rparr>"

definition scoped_threads_search ::
  "auth_scope \<Rightarrow> thread_search_query \<Rightarrow> mem_store \<Rightarrow> thread_view list" where
  "scoped_threads_search sc q s =
     filter (\<lambda>t. scope_matches sc (t_metadata t)) (threads_search (enforced_threads sc q) s)"

definition list_query :: thread_search_query where
  "list_query = \<lparr>tq_metadata = None, tq_enforced_metadata = None, tq_exclude_metadata = [],
     tq_values = None, tq_status = None, tq_ids = None, tq_limit = None, tq_offset = None,
     tq_sort_by = Some SortCreatedAt, tq_sort_order = Some Asc\<rparr>"

definition scoped_threads_list :: "auth_scope \<Rightarrow> mem_store \<Rightarrow> thread_view list" where
  "scoped_threads_list sc s = scoped_threads_search sc list_query s"

definition scoped_threads_count :: "auth_scope \<Rightarrow> thread_search_query \<Rightarrow> mem_store \<Rightarrow> nat" where
  "scoped_threads_count sc q s = threads_count (enforced_threads sc q) s"

definition scoped_thread_create ::
  "auth_scope \<Rightarrow> (mem_store \<Rightarrow> mem_store) \<Rightarrow> thread_create \<Rightarrow> ident \<Rightarrow> instant \<Rightarrow> mem_store \<Rightarrow>
     thread_view outcome" where
  "scoped_thread_create sc gap input uuid now s =
     (let create = with_stamp sc (tc_metadata input)
                     (\<lambda>m. thread_create_op (input\<lparr>tc_metadata := Some m\<rparr>) uuid now)
      in case tc_thread_id input of
           None \<Rightarrow> create s
         | Some thread_id \<Rightarrow>
             (case thread_get thread_id s of
                Some t \<Rightarrow>
                  if \<not> scope_matches sc (t_metadata t) then (Inl not_found, s) else create (gap s)
              | None \<Rightarrow> create (gap s)))"

definition scoped_thread_update ::
  "auth_scope \<Rightarrow> (mem_store \<Rightarrow> mem_store) \<Rightarrow> ident \<Rightarrow> thread_update \<Rightarrow> instant \<Rightarrow> mem_store \<Rightarrow>
     thread_view outcome" where
  "scoped_thread_update sc gap thread_id patch now =
     gated_thread sc gap thread_id
       (case tu_metadata patch of
          None \<Rightarrow> thread_update_op thread_id patch now
        | Some metadata \<Rightarrow>
            with_stamp sc (Some metadata)
              (\<lambda>m. thread_update_op thread_id (patch\<lparr>tu_metadata := Some m\<rparr>) now))"

definition scoped_thread_copy ::
  "auth_scope \<Rightarrow> (mem_store \<Rightarrow> mem_store) \<Rightarrow> ident \<Rightarrow> ident \<Rightarrow> instant \<Rightarrow> mem_store \<Rightarrow> thread_view outcome" where
  "scoped_thread_copy sc gap thread_id uuid now = gated_thread sc gap thread_id (thread_copy thread_id uuid now)"

definition scoped_thread_delete ::
  "auth_scope \<Rightarrow> (mem_store \<Rightarrow> mem_store) \<Rightarrow> ident \<Rightarrow> mem_store \<Rightarrow> unit outcome" where
  "scoped_thread_delete sc gap thread_id =
     gated_thread sc gap thread_id (\<lambda>s. (Inr (), thread_delete thread_id s))"

section \<open>Runs\<close>

definition scoped_run_get :: "auth_scope \<Rightarrow> ident \<Rightarrow> mem_store \<Rightarrow> run option" where
  "scoped_run_get sc run_id s =
     (case run_get run_id s of
        None \<Rightarrow> None
      | Some r \<Rightarrow> if scope_matches sc (r_metadata r) then Some r else None)"

definition gated_run ::
  "auth_scope \<Rightarrow> (mem_store \<Rightarrow> mem_store) \<Rightarrow> ident \<Rightarrow> (mem_store \<Rightarrow> 'a outcome) \<Rightarrow> mem_store \<Rightarrow> 'a outcome" where
  "gated_run sc gap run_id next_op s =
     (case scoped_run_get sc run_id s of
        None \<Rightarrow> (Inl not_found, s)
      | Some _ \<Rightarrow> next_op (gap s))"

text \<open>
  Only the declarative part of a filter can be pushed into the query: a row that comes back and does
  not match fails the whole search, so that no page is silently short.
\<close>

definition scoped_runs_search :: "auth_scope \<Rightarrow> run_search_query \<Rightarrow> mem_store \<Rightarrow> run list outcome" where
  "scoped_runs_search sc q s =
     (let found = runs_search (q\<lparr>rq_enforced_metadata := ownership_metadata sc\<rparr>) s
      in if list_ex (\<lambda>r. \<not> scope_matches sc (r_metadata r)) found
         then (Inl (Http \<lparr>he_status = 501, he_code = None\<rparr>), s)
         else (Inr found, s))"

definition scoped_settle ::
  "auth_scope \<Rightarrow> (mem_store \<Rightarrow> mem_store) \<Rightarrow> ident \<Rightarrow> run_settlement \<Rightarrow> ident \<Rightarrow> instant \<Rightarrow> mem_store \<Rightarrow>
     (run option \<times> delivery option) outcome" where
  "scoped_settle sc gap run_id final uuid now = gated_run sc gap run_id (settle run_id final uuid now)"

definition scoped_get_result ::
  "auth_scope \<Rightarrow> (mem_store \<Rightarrow> mem_store) \<Rightarrow> ident \<Rightarrow> mem_store \<Rightarrow> run_result option" where
  "scoped_get_result sc gap run_id s =
     (case scoped_run_get sc run_id s of None \<Rightarrow> None | Some _ \<Rightarrow> get_result run_id (gap s))"

definition scoped_record_result ::
  "auth_scope \<Rightarrow> (mem_store \<Rightarrow> mem_store) \<Rightarrow> ident \<Rightarrow> run_result \<Rightarrow> mem_store \<Rightarrow> unit outcome" where
  "scoped_record_result sc gap run_id result = gated_run sc gap run_id (record_result run_id result)"

text \<open>The page is cut after the ownership filter; the status goes to the driver.\<close>

definition scoped_list_by_thread ::
  "auth_scope \<Rightarrow> ident \<Rightarrow> run_status option \<Rightarrow> nat option \<Rightarrow> nat option \<Rightarrow> mem_store \<Rightarrow> run list" where
  "scoped_list_by_thread sc thread_id status offset limit s =
     (let matching_runs = filter (\<lambda>r. scope_matches sc (r_metadata r)) (list_by_thread thread_id status None None s)
      in page matching_runs (or_default offset 0) (or_default limit (length matching_runs)))"

definition scoped_run_create ::
  "auth_scope \<Rightarrow> run_create \<Rightarrow> ident \<Rightarrow> instant \<Rightarrow> mem_store \<Rightarrow> run outcome" where
  "scoped_run_create sc input uuid now =
     with_stamp sc (rc_metadata input) (\<lambda>m. create_run (input\<lparr>rc_metadata := Some m\<rparr>) uuid now)"

definition scoped_create_if_thread_idle ::
  "auth_scope \<Rightarrow> run_create \<Rightarrow> ident \<Rightarrow> instant \<Rightarrow> mem_store \<Rightarrow> run option outcome" where
  "scoped_create_if_thread_idle sc input uuid now =
     with_stamp sc (rc_metadata input) (\<lambda>m. create_if_thread_idle (input\<lparr>rc_metadata := Some m\<rparr>) uuid now)"

definition scoped_create_if_thread_matches ::
  "auth_scope \<Rightarrow> run_create \<Rightarrow> run_create_guard \<Rightarrow> ident \<Rightarrow> instant \<Rightarrow> mem_store \<Rightarrow>
     guarded_run_create outcome" where
  "scoped_create_if_thread_matches sc input guard uuid now =
     with_stamp sc (rc_metadata input)
       (\<lambda>m. create_if_thread_matches (input\<lparr>rc_metadata := Some m\<rparr>) guard uuid now)"

definition scoped_set_status ::
  "auth_scope \<Rightarrow> (mem_store \<Rightarrow> mem_store) \<Rightarrow> ident \<Rightarrow> run_status \<Rightarrow> run_error option \<Rightarrow> instant \<Rightarrow>
     mem_store \<Rightarrow> run outcome" where
  "scoped_set_status sc gap run_id status err now = gated_run sc gap run_id (set_status run_id status err now)"

definition scoped_run_delete ::
  "auth_scope \<Rightarrow> (mem_store \<Rightarrow> mem_store) \<Rightarrow> ident \<Rightarrow> mem_store \<Rightarrow> unit outcome" where
  "scoped_run_delete sc gap run_id = gated_run sc gap run_id (\<lambda>s. (Inr (), run_delete run_id s))"

section \<open>Admission\<close>

definition scoped_admit_run ::
  "auth_scope \<Rightarrow> (mem_store \<Rightarrow> mem_store) \<Rightarrow> run_admission \<Rightarrow> (nat \<Rightarrow> ident) \<Rightarrow> instant \<Rightarrow> mem_store \<Rightarrow>
     admission_receipt outcome" where
  "scoped_admit_run sc gap input fresh now =
     gated_thread sc gap (rc_thread_id (ra_run input))
       (with_stamp sc (rc_metadata (ra_run input))
          (\<lambda>m. admit_run (input\<lparr>ra_run := (ra_run input)\<lparr>rc_metadata := Some m\<rparr>\<rparr>) fresh now))"

definition scoped_admit_cancel ::
  "auth_scope \<Rightarrow> (mem_store \<Rightarrow> mem_store) \<Rightarrow> cancel_admission \<Rightarrow> (nat \<Rightarrow> ident) \<Rightarrow> instant \<Rightarrow> mem_store \<Rightarrow>
     admission_receipt outcome" where
  "scoped_admit_cancel sc gap input fresh now =
     gated_run sc gap (cl_run_id input) (admit_cancel input fresh now)"

section \<open>Crons\<close>

definition scoped_cron_get :: "auth_scope \<Rightarrow> ident \<Rightarrow> mem_store \<Rightarrow> cron option" where
  "scoped_cron_get sc cron_id s =
     (case cron_get cron_id s of
        None \<Rightarrow> None
      | Some c \<Rightarrow> if scope_matches sc (c_metadata c) then Some c else None)"

definition gated_cron ::
  "auth_scope \<Rightarrow> (mem_store \<Rightarrow> mem_store) \<Rightarrow> ident \<Rightarrow> (mem_store \<Rightarrow> 'a outcome) \<Rightarrow> mem_store \<Rightarrow> 'a outcome" where
  "gated_cron sc gap cron_id next_op s =
     (case scoped_cron_get sc cron_id s of
        None \<Rightarrow> (Inl not_found, s)
      | Some _ \<Rightarrow> next_op (gap s))"

definition enforced_crons :: "auth_scope \<Rightarrow> cron_search_query \<Rightarrow> cron_search_query" where
  "enforced_crons sc q = q\<lparr>cq_enforced_metadata := ownership_metadata sc\<rparr>"

definition scoped_crons_search :: "auth_scope \<Rightarrow> cron_search_query \<Rightarrow> mem_store \<Rightarrow> cron list" where
  "scoped_crons_search sc q s =
     filter (\<lambda>c. scope_matches sc (c_metadata c)) (crons_search (enforced_crons sc q) s)"

definition scoped_crons_count :: "auth_scope \<Rightarrow> cron_search_query \<Rightarrow> mem_store \<Rightarrow> nat" where
  "scoped_crons_count sc q s = crons_count (enforced_crons sc q) s"

definition scoped_cron_create ::
  "auth_scope \<Rightarrow> cron_create \<Rightarrow> ident \<Rightarrow> instant \<Rightarrow> mem_store \<Rightarrow> cron outcome" where
  "scoped_cron_create sc input uuid now =
     with_stamp sc (cn_metadata input) (\<lambda>m. cron_create_op (input\<lparr>cn_metadata := Some m\<rparr>) uuid now)"

definition scoped_cron_update ::
  "auth_scope \<Rightarrow> (mem_store \<Rightarrow> mem_store) \<Rightarrow> ident \<Rightarrow> cron_patch \<Rightarrow> instant \<Rightarrow> mem_store \<Rightarrow> cron outcome" where
  "scoped_cron_update sc gap cron_id patch now =
     gated_cron sc gap cron_id
       (case cp_metadata patch of
          None \<Rightarrow> cron_update_op cron_id patch now
        | Some metadata \<Rightarrow>
            with_stamp sc (Some metadata) (\<lambda>m. cron_update_op cron_id (patch\<lparr>cp_metadata := Some m\<rparr>) now))"

definition scoped_cron_delete ::
  "auth_scope \<Rightarrow> (mem_store \<Rightarrow> mem_store) \<Rightarrow> ident \<Rightarrow> mem_store \<Rightarrow> unit outcome" where
  "scoped_cron_delete sc gap cron_id = gated_cron sc gap cron_id (\<lambda>s. (Inr (), cron_delete cron_id s))"

end
