(* ===== verification/TenantIsolation.thy ===== *)
theory TenantIsolation
  imports AuthScopedStore StoreSystem
begin

text \<open>
  What the scoped store of \<^verbatim>\<open>auth-scoped-store.ts\<close> guarantees: through any sequence of the caller's
  operations, with the other requests' writes in every gap, a row the caller does not own keeps its
  value; an operation on it answers as for a missing row; a search pages over the caller's own rows;
  and what the caller creates is its own.
\<close>

section \<open>Every operation that can write\<close>

text \<open>
  What a store scoped to \<^verbatim>\<open>threads\<close> hands on as it is: \<^verbatim>\<open>...inner.runs\<close> brings
  \<^verbatim>\<open>finalizeWithDelivery\<close> and \<^verbatim>\<open>recordBaseCheckpoint\<close>, \<^verbatim>\<open>...inner.admission\<close>
  the dispatch operations, and \<^verbatim>\<open>...inner\<close> the crons, assistants, items, deliveries and the
  idempotency ledger. None of them is gated.
\<close>

datatype inherited_op =
    IFinalize ident run_status "run_error option" delivery_create ident
  | IRecordBase ident "ident jsopt"
  | IClaimDispatches instant instant "nat option" "nat \<Rightarrow> ident"
  | IMarkDispatched ident string
  | ICron cron_op
  | IAssistant assistant_op
  | IDelivery "string \<Rightarrow> string \<Rightarrow> int" delivery_op
  | IItemGet namespace string "bool option"
  | IItemPut namespace string jsobj "int jsopt" "item_index option"
  | IItemDelete namespace string
  | IItemSearch "jsval \<Rightarrow> string" item_search_query
  | IItemSweep
  | IIdempotency idempotency_op

fun inherited_step :: "instant \<Rightarrow> inherited_op \<Rightarrow> mem_store \<Rightarrow> mem_store" where
  "inherited_step now (IFinalize i status err callback uuid) s =
     snd (finalize_with_delivery i status err callback uuid now s)"
| "inherited_step now (IRecordBase i base) s = record_base_checkpoint i base s"
| "inherited_step now (IClaimDispatches at_time lease limit fresh) s =
     snd (claim_dispatches at_time lease limit fresh s)"
| "inherited_step now (IMarkDispatched i token) s = mark_dispatched i token s"
| "inherited_step now (ICron oper) s = cron_step oper s"
| "inherited_step now (IAssistant oper) s = assistant_step oper s"
| "inherited_step now (IDelivery lc oper) s = snd (delivery_step lc oper s)"
| "inherited_step now (IItemGet ns key refresh) s = snd (item_get ns key refresh now s)"
| "inherited_step now (IItemPut ns key val ttl index) s =
     snd (item_put_with_options ns key val ttl index now s)"
| "inherited_step now (IItemDelete ns key) s = item_delete ns key s"
| "inherited_step now (IItemSearch json q) s = snd (items_search json q now s)"
| "inherited_step now IItemSweep s = snd (items_sweep_expired now s)"
| "inherited_step now (IIdempotency oper) s = idempotency_step oper s"

datatype scoped_op =
    OCreateThread thread_create ident
  | OUpdateThread ident thread_update
  | OCopyThread ident ident
  | ODeleteThread ident
  | OSettle ident run_settlement ident
  | ORecordResult ident run_result
  | OCreateRun run_create ident
  | OCreateIfIdle run_create ident
  | OCreateIfMatches run_create run_create_guard ident
  | OSetStatus ident run_status "run_error option"
  | ODeleteRun ident
  | OAdmitRun run_admission "nat \<Rightarrow> ident"
  | OAdmitCancel cancel_admission "nat \<Rightarrow> ident"
  | OInherited inherited_op

fun scoped_step :: "auth_scope \<Rightarrow> (mem_store \<Rightarrow> mem_store) \<Rightarrow> instant \<Rightarrow> scoped_op \<Rightarrow> mem_store \<Rightarrow> mem_store" where
  "scoped_step sc gap now (OCreateThread input uuid) s = snd (scoped_thread_create sc gap input uuid now s)"
| "scoped_step sc gap now (OUpdateThread i patch) s = snd (scoped_thread_update sc gap i patch now s)"
| "scoped_step sc gap now (OCopyThread i uuid) s = snd (scoped_thread_copy sc gap i uuid now s)"
| "scoped_step sc gap now (ODeleteThread i) s = snd (scoped_thread_delete sc gap i s)"
| "scoped_step sc gap now (OSettle i final uuid) s = snd (scoped_settle sc gap i final uuid now s)"
| "scoped_step sc gap now (ORecordResult i result) s = snd (scoped_record_result sc gap i result s)"
| "scoped_step sc gap now (OCreateRun input uuid) s = snd (scoped_run_create sc input uuid now s)"
| "scoped_step sc gap now (OCreateIfIdle input uuid) s = snd (scoped_create_if_thread_idle sc input uuid now s)"
| "scoped_step sc gap now (OCreateIfMatches input guard uuid) s =
     snd (scoped_create_if_thread_matches sc input guard uuid now s)"
| "scoped_step sc gap now (OSetStatus i status err) s = snd (scoped_set_status sc gap i status err now s)"
| "scoped_step sc gap now (ODeleteRun i) s = snd (scoped_run_delete sc gap i s)"
| "scoped_step sc gap now (OAdmitRun input fresh) s = snd (scoped_admit_run sc gap input fresh now s)"
| "scoped_step sc gap now (OAdmitCancel input fresh) s = snd (scoped_admit_cancel sc gap input fresh now s)"
| "scoped_step sc gap now (OInherited oper) s = inherited_step now oper (gap s)"

text \<open>
  The store scoped to \<^verbatim>\<open>crons\<close> is another branch: it gates the three writes of its cron repository and
  hands the two claims of the scheduler on.
\<close>

datatype cron_scoped_op =
    OCreateCron cron_create ident
  | OUpdateCron ident cron_patch
  | ODeleteCron ident
  | OClaimCron ident cron_claim
  | OClaimCronRun ident cron_claim run_create ident

fun cron_scoped_step ::
  "auth_scope \<Rightarrow> (mem_store \<Rightarrow> mem_store) \<Rightarrow> instant \<Rightarrow> cron_scoped_op \<Rightarrow> mem_store \<Rightarrow> mem_store" where
  "cron_scoped_step sc gap now (OCreateCron input uuid) s = snd (scoped_cron_create sc input uuid now (gap s))"
| "cron_scoped_step sc gap now (OUpdateCron i patch) s = snd (scoped_cron_update sc gap i patch now s)"
| "cron_scoped_step sc gap now (ODeleteCron i) s = snd (scoped_cron_delete sc gap i s)"
| "cron_scoped_step sc gap now (OClaimCron i claim) s = snd (claim_cron i claim now (gap s))"
| "cron_scoped_step sc gap now (OClaimCronRun i claim input uuid) s =
     snd (claim_and_create_run i claim input uuid now (gap s))"

text \<open>An operation, what others do in its gap, and its clock reading.\<close>

type_synonym 'op scoped_event = "'op \<times> (mem_store \<Rightarrow> mem_store) \<times> instant"

fun scoped_event_step :: "auth_scope \<Rightarrow> scoped_op scoped_event \<Rightarrow> mem_store \<Rightarrow> mem_store" where
  "scoped_event_step sc (oper, gap, now) s = scoped_step sc gap now oper s"

fun cron_event_step :: "auth_scope \<Rightarrow> cron_scoped_op scoped_event \<Rightarrow> mem_store \<Rightarrow> mem_store" where
  "cron_event_step sc (oper, gap, now) s = cron_scoped_step sc gap now oper s"

section \<open>Rules for the gates\<close>

lemma with_stamp_rule:
  "P s \<Longrightarrow> (\<And>m. P (snd (next_op m s))) \<Longrightarrow> P (snd (with_stamp sc metadata next_op s))"
  by (auto simp: with_stamp_def split: option.split)

lemma gated_thread_rule:
  "P s \<Longrightarrow> (scoped_thread_get sc i s \<noteq> None \<Longrightarrow> P (snd (next_op (gap s)))) \<Longrightarrow>
     P (snd (gated_thread sc gap i next_op s))"
  by (auto simp: gated_thread_def split: option.split)

lemma gated_run_rule:
  "P s \<Longrightarrow> (scoped_run_get sc i s \<noteq> None \<Longrightarrow> P (snd (next_op (gap s)))) \<Longrightarrow>
     P (snd (gated_run sc gap i next_op s))"
  by (auto simp: gated_run_def split: option.split)

lemma gated_cron_rule:
  "P s \<Longrightarrow> (scoped_cron_get sc i s \<noteq> None \<Longrightarrow> P (snd (next_op (gap s)))) \<Longrightarrow>
     P (snd (gated_cron sc gap i next_op s))"
  by (auto simp: gated_cron_def split: option.split)

lemma project_thread_simps [simp]:
  "t_metadata (project_thread s t) = t_metadata t"
  "t_thread_id (project_thread s t) = t_thread_id t"
  by (simp_all add: project_thread_def Let_def thread.defs)

lemma foreign_thread_hidden:
  "map_of (ms_threads s) i = Some t \<Longrightarrow> \<not> scope_matches sc (t_metadata t) \<Longrightarrow> scoped_thread_get sc i s = None"
  by (simp add: scoped_thread_get_def thread_get_def)

lemma foreign_run_hidden:
  "map_of (ms_runs s) i = Some r \<Longrightarrow> \<not> scope_matches sc (r_metadata r) \<Longrightarrow> scoped_run_get sc i s = None"
  by (simp add: scoped_run_get_def run_get_def)

lemma foreign_cron_hidden:
  "map_of (ms_crons s) i = Some c \<Longrightarrow> \<not> scope_matches sc (c_metadata c) \<Longrightarrow> scoped_cron_get sc i s = None"
  by (simp add: scoped_cron_get_def cron_get_def)

section \<open>What each store operation does to one thread row\<close>

lemma create_thread_keeps:
  "map_of (ms_threads s) i = Some t \<Longrightarrow> map_of (ms_threads (snd (thread_create_op input uuid now s))) i = Some t"
  by (auto simp: thread_create_op_def Let_def frame_simps jm_simps get_in_keys)

lemma own_thread_update_keeps:
  "map_of (ms_threads s) i = Some t \<Longrightarrow> j \<noteq> i \<Longrightarrow>
     map_of (ms_threads (snd (thread_update_op j patch now s))) i = Some t"
  by (auto simp: thread_update_op_def Let_def frame_simps jm_simps split: option.split)

lemma copy_thread_keeps:
  "map_of (ms_threads s) i = Some t \<Longrightarrow> uuid \<noteq> i \<Longrightarrow>
     map_of (ms_threads (snd (thread_copy j uuid now s))) i = Some t"
  by (auto simp: thread_copy_def Let_def frame_simps jm_simps split: option.split)

lemma delete_thread_keeps:
  "map_of (ms_threads s) i = Some t \<Longrightarrow> j \<noteq> i \<Longrightarrow> map_of (ms_threads (thread_delete j s)) i = Some t"
  by (simp add: thread_delete_def Let_def delete_crons_of_facts delete_runs_of_facts jm_simps)

text \<open>Both admissions, as the store operations they are made of.\<close>

lemma settle_displaced_rule:
  assumes "P s" "set (map fst ds) \<subseteq> ids"
    and settle: "\<And>s i final u. P s \<Longrightarrow> i \<in> ids \<Longrightarrow> P (snd (settle i final u now s))"
    and dispatch: "\<And>s r k a. P s \<Longrightarrow> P (dispatch_run r k a now s)"
  shows "P (snd (settle_displaced action fresh n now ds s))"
  using assms(1,2)
proof (induction ds arbitrary: n s)
  case (Cons item ds)
  obtain i final where item: "item = (i, final)" by fastforce
  obtain out s1 where st: "settle i final (fresh n) now s = (out, s1)" by fastforce
  have "P s1" using settle [OF Cons.prems(1), of i final "fresh n"] Cons.prems(2) st item by simp
  with Cons.IH [of s1 "Suc n"] Cons.IH [OF dispatch [of s1]] Cons.prems(2) st item show ?case
    by (auto split: sum.split prod.split option.split)
qed simp

lemma admit_checks_rule:
  assumes "admit_checks input s = (out, s1)" "P s"
    and "\<And>s m. P s \<Longrightarrow> P (s\<lparr>ms_resume_reservations := m\<rparr>)"
  shows "P s1"
  using admit_checks_store [OF assms(1)] assms(2,3) by metis

lemma admit_checks_displaced:
  "admit_checks input s = (Inr (prepared, displaced), s1) \<Longrightarrow> map fst displaced = map fst (ra_displacements input)"
  by (auto simp: admit_checks_def dest: wire_displacements_ids
      split: option.splits if_splits prod.splits sum.splits)

lemma admit_run_rule:
  assumes "P s"
    and res: "\<And>s m. P s \<Longrightarrow> P (s\<lparr>ms_resume_reservations := m\<rparr>)"
    and settle: "\<And>s i final u. P s \<Longrightarrow> i \<in> fst ` set (ra_displacements input) \<Longrightarrow>
                   P (snd (settle i final u now s))"
    and dispatch: "\<And>s r k a. P s \<Longrightarrow> P (dispatch_run r k a now s)"
    and create: "\<And>s u prepared. P s \<Longrightarrow> P (snd (create_run prepared u now s))"
    and ledger: "\<And>s r u. P s \<Longrightarrow> P (snd (record_admission input r u s))"
  shows "P (snd (admit_run input fresh now s))"
proof -
  have commit: "P (snd (admit_commit input prepared displaced fresh now s1))"
    if s1: "P s1" and ids: "map fst displaced = map fst (ra_displacements input)" for s1 prepared displaced
  proof -
    obtain out2 s2 where loop: "settle_displaced (displace_action prepared) fresh 2 now displaced s1 = (out2, s2)"
      by fastforce
    have "set (map fst displaced) \<subseteq> fst ` set (ra_displacements input)" by (simp add: ids)
    from settle_displaced_rule [where P = P, OF s1 this settle dispatch] loop have s2: "P s2"
      by (metis snd_conv)
    obtain out3 s3 where made: "create_run prepared (fresh 0) now s2 = (out3, s3)" by fastforce
    have s3: "P s3" using create [OF s2, of prepared "fresh 0"] made by simp
    have "snd (admit_commit input prepared displaced fresh now s1) = s2 \<or>
        snd (admit_commit input prepared displaced fresh now s1) = s3 \<or>
        (\<exists>r c. snd (admit_commit input prepared displaced fresh now s1) =
           snd (record_admission input r c
             (dispatch_run r DispatchRun None now (reserve (ra_expected_run_id input) (r_run_id r) s3))))"
      using loop made
      by (auto simp: admit_commit_def reserve_def Let_def split_beta split: sum.splits option.splits)
    moreover have "P (reserve e i s3)" for e i
      using s3 res by (auto simp: reserve_def split: option.split)
    ultimately show ?thesis using s2 s3 dispatch ledger by metis
  qed
  show ?thesis
  proof (cases "admit_checks input s")
    case (Pair out s1)
    have "P s1" by (rule admit_checks_rule [OF Pair assms(1) res])
    then show ?thesis
      using assms(1) commit admit_checks_displaced Pair
      by (auto simp: admit_run_def split: sum.split option.split prod.split)
  qed
qed

lemma admit_cancel_rule:
  assumes "P s"
    and settle: "\<And>s final u. P s \<Longrightarrow> P (snd (settle (cl_run_id input) final u now s))"
    and dispatch: "\<And>s r k a. P s \<Longrightarrow> P (dispatch_run r k a now s)"
    and ledger: "\<And>s r u. P s \<Longrightarrow> P (snd (record_admission input r u s))"
  shows "P (snd (admit_cancel input fresh now s))"
proof -
  obtain out s1 where st: "settle (cl_run_id input)
      \<lparr>se_status = Cancelled, se_error = None, se_result = None, se_delivery = cl_delivery input\<rparr>
      (fresh 2) now s = (out, s1)" by fastforce
  have "P s1" using settle [OF assms(1)] st by (metis snd_conv)
  with assms(1) st dispatch ledger show ?thesis
    by (auto simp: admit_cancel_def split_beta Let_def split: sum.split option.split)
qed

lemma admit_run_threads: "ms_threads (snd (admit_run input fresh now s)) = ms_threads s"
  by (rule admit_run_rule [where P = "\<lambda>s'. ms_threads s' = ms_threads s"]) (simp_all add: frame_simps)

lemma admit_cancel_threads: "ms_threads (snd (admit_cancel input fresh now s)) = ms_threads s"
  by (rule admit_cancel_rule [where P = "\<lambda>s'. ms_threads s' = ms_threads s"]) (simp_all add: frame_simps)

section \<open>A foreign thread\<close>

text \<open>
  What a sequence of events may do besides the caller's own operations: the others' writes keep the
  row under consideration (they are not this caller's), and \<^verbatim>\<open>randomUUID\<close> does not give its id again.
\<close>

definition gap_keeps_thread :: "ident \<Rightarrow> thread \<Rightarrow> (mem_store \<Rightarrow> mem_store) \<Rightarrow> bool" where
  "gap_keeps_thread i t gap \<longleftrightarrow>
     (\<forall>s. map_of (ms_threads s) i = Some t \<longrightarrow> map_of (ms_threads (gap s)) i = Some t)"

fun copies_onto :: "ident \<Rightarrow> scoped_op \<Rightarrow> bool" where
  "copies_onto i (OCopyThread source uuid) = (uuid = i)"
| "copies_onto i _ = False"

lemma guarded_create_snd:
  "snd (create_if_thread_idle input uuid now s) = s \<or>
     snd (create_if_thread_idle input uuid now s) = snd (create_run input uuid now s)"
  "snd (create_if_thread_matches input guard uuid now s) = s \<or>
     snd (create_if_thread_matches input guard uuid now s) = snd (create_run input uuid now s)"
  by (auto simp: create_if_thread_idle_def create_if_thread_matches_def
      split: option.split sum.split prod.split)

lemma run_ops_threads:
  "ms_threads (snd (record_result i result s)) = ms_threads s"
  "ms_threads (snd (create_if_thread_idle input uuid now s)) = ms_threads s"
  "ms_threads (snd (create_if_thread_matches input guard uuid now s)) = ms_threads s"
  "ms_threads (snd (set_status i status err now s)) = ms_threads s"
  "ms_threads (run_delete i s) = ms_threads s"
  using create_run_frame(3) [of input uuid now s] guarded_create_snd(1) [of input uuid now s]
    guarded_create_snd(2) [of input guard uuid now s]
  by (auto simp: record_result_def set_status_def run_delete_def Let_def frame_simps split: option.split)

lemma inherited_threads: "ms_threads (inherited_step now oper s) = ms_threads s"
proof (cases oper)
  case (IClaimDispatches at_time lease limit fresh)
  then show ?thesis using intents_only(1) [of at_time lease limit fresh s] by auto
next
  case (IMarkDispatched i token)
  then show ?thesis using intents_only(2) [of i token s] by auto
qed (simp_all add: delivery_step_frame assistant_step_frame cron_step_frame item_ops_frame
      idempotency_step_frame,
     auto simp: finalize_with_delivery_def insert_delivery_snd record_base_checkpoint_def Let_def split_beta
       split: option.split)

lemmas scoped_op_defs =
  scoped_thread_create_def scoped_thread_update_def scoped_thread_copy_def scoped_thread_delete_def
  scoped_settle_def scoped_record_result_def scoped_run_create_def scoped_create_if_thread_idle_def
  scoped_create_if_thread_matches_def scoped_set_status_def scoped_run_delete_def scoped_admit_run_def
  scoped_admit_cancel_def

lemma scoped_step_keeps_thread:
  assumes row: "map_of (ms_threads s) i = Some t" and foreign: "\<not> scope_matches sc (t_metadata t)"
    and gap: "gap_keeps_thread i t gap" and copy: "\<not> copies_onto i oper"
  shows "map_of (ms_threads (scoped_step sc gap now oper s)) i = Some t"
proof -
  let ?P = "\<lambda>s. map_of (ms_threads s) i = Some t"
  have gap': "?P (gap s)" using gap row by (simp add: gap_keeps_thread_def)
  have hidden: "scoped_thread_get sc j s = Some v \<Longrightarrow> j \<noteq> i" for j v
    using foreign_thread_hidden [OF row foreign] by auto
  note gates = gated_thread_rule [where P = ?P] gated_run_rule [where P = ?P]
  note stamped = with_stamp_rule [where P = ?P]
  note same = admit_run_threads admit_cancel_threads run_ops_threads inherited_threads create_run_frame(3) settle_frame(1)
  show ?thesis
  proof (cases oper)
    case (OCreateThread input uuid)
    have "?P s' \<Longrightarrow> ?P (snd (with_stamp sc (tc_metadata input)
        (\<lambda>m. thread_create_op (input\<lparr>tc_metadata := Some m\<rparr>) uuid now) s'))" for s'
      by (rule stamped) (simp_all add: create_thread_keeps)
    with OCreateThread row gap' show ?thesis
      by (auto simp: scoped_thread_create_def Let_def split: option.split)
  next
    case (OUpdateThread j patch)
    have "?P (snd (with_stamp sc (Some m0) (\<lambda>m. thread_update_op j (patch\<lparr>tu_metadata := Some m\<rparr>) now) (gap s)))"
      if "j \<noteq> i" for m0
      by (rule stamped) (simp_all add: own_thread_update_keeps gap' that)
    then have "?P (snd (gated_thread sc gap j
       (case tu_metadata patch of
          None \<Rightarrow> thread_update_op j patch now
        | Some metadata \<Rightarrow>
            with_stamp sc (Some metadata) (\<lambda>m. thread_update_op j (patch\<lparr>tu_metadata := Some m\<rparr>) now)) s))"
      by (intro gates row) (auto dest: hidden simp: own_thread_update_keeps gap' split: option.split)
    with OUpdateThread show ?thesis by (simp add: scoped_thread_update_def)
  qed (use copy in \<open>auto simp: scoped_op_defs same gap' row copy_thread_keeps delete_thread_keeps
         intro!: gates stamped dest: hidden\<close>)
qed

section \<open>A foreign run\<close>

definition run_kept :: "ident \<Rightarrow> run \<Rightarrow> mem_store \<Rightarrow> bool" where
  "run_kept i r s \<longleftrightarrow> jm_wf (ms_runs s) \<and> map_of (ms_runs s) i = Some r"

lemma run_kept_set: "run_kept i r s \<Longrightarrow> ms_runs s' = jm_set j r' (ms_runs s) \<Longrightarrow> j \<noteq> i \<Longrightarrow> run_kept i r s'"
  by (simp add: run_kept_def jm_simps wf_intro)

lemma run_kept_same: "run_kept i r s \<Longrightarrow> ms_runs s' = ms_runs s \<Longrightarrow> run_kept i r s'"
  by (simp add: run_kept_def)

lemma run_kept_shape:
  "run_kept i r s \<Longrightarrow> j \<noteq> i \<Longrightarrow> ms_runs s' = ms_runs s \<or> (\<exists>r'. ms_runs s' = jm_set j r' (ms_runs s)) \<Longrightarrow>
     run_kept i r s'"
  by (auto intro: run_kept_same run_kept_set)

lemma settle_runs_shape:
  "ms_runs (snd (settle j final uuid now s)) = ms_runs s \<or>
   (\<exists>r'. ms_runs (snd (settle j final uuid now s)) = jm_set j r' (ms_runs s))"
proof (cases "wire_settlement final")
  case None
  then show ?thesis by (simp add: settle_fail)
next
  case (Some f)
  obtain m d where "settle j final uuid now s = (d,
      (settle_result j f (fst (settle_row j f now s)) (snd (settle_row j f now s)))\<lparr>ms_deliveries := m\<rparr>)"
    using settle_decompose [OF Some, of j uuid now s] by blast
  then have "ms_runs (snd (settle j final uuid now s)) = ms_runs (snd (settle_row j f now s))"
    by (simp add: frame_simps)
  then show ?thesis by (auto simp: settle_row_def Let_def split: option.split)
qed

lemma settle_run_kept: "run_kept i r s \<Longrightarrow> j \<noteq> i \<Longrightarrow> run_kept i r (snd (settle j final uuid now s))"
  by (rule run_kept_shape [OF _ _ settle_runs_shape])

lemma create_run_shape:
  "ms_runs (snd (create_run input uuid now s)) = ms_runs s \<or>
   (\<exists>j r'. ms_runs (snd (create_run input uuid now s)) = jm_set j r' (ms_runs s) \<and> \<not> jm_has (ms_runs s) j)"
  by (auto simp: create_run_def Let_def split: option.split)

lemma create_run_row_kept:
  assumes "run_kept i r s"
  shows "run_kept i r (snd (create_run input uuid now s))"
  using create_run_shape [of input uuid now s]
proof (elim disjE exE conjE)
  assume "ms_runs (snd (create_run input uuid now s)) = ms_runs s"
  then show ?thesis by (rule run_kept_same [OF assms])
next
  fix j r' assume made: "ms_runs (snd (create_run input uuid now s)) = jm_set j r' (ms_runs s)"
    and "\<not> jm_has (ms_runs s) j"
  then have "j \<noteq> i" using assms by (auto simp: run_kept_def jm_has_iff)
  then show ?thesis by (rule run_kept_set [OF assms made])
qed

lemma set_status_shape:
  "ms_runs (snd (set_status j status err now s)) = ms_runs s \<or>
   (\<exists>r'. ms_runs (snd (set_status j status err now s)) = jm_set j r' (ms_runs s))"
  by (auto simp: set_status_def Let_def split: option.split)

lemma set_status_run_kept: "run_kept i r s \<Longrightarrow> j \<noteq> i \<Longrightarrow> run_kept i r (snd (set_status j status err now s))"
  by (rule run_kept_shape [OF _ _ set_status_shape])

lemma run_delete_kept: "run_kept i r s \<Longrightarrow> j \<noteq> i \<Longrightarrow> run_kept i r (run_delete j s)"
  by (simp add: run_delete_def run_kept_def frame_simps jm_get_delete jm_wf_delete del: map_of_eq_Some_iff)

lemma thread_delete_run_kept:
  assumes "run_kept i r s" "j \<noteq> r_thread_id r"
  shows "run_kept i r (thread_delete j s)"
proof -
  let ?keep = "\<lambda>e. \<not> (\<exists>r'. (fst e, r') \<in> set (ms_runs s) \<and> r_thread_id r' = j)"
  have wf: "jm_wf (ms_runs s)" "(i, r) \<in> set (ms_runs s)"
    using assms(1) by (auto simp: run_kept_def)
  then have only: "(i, r') \<in> set (ms_runs s) \<Longrightarrow> r' = r" for r' by (simp add: eq_key_imp_eq_value)
  then have "?keep (i, r)" using assms(2) by auto
  with wf have "(i, r) \<in> set (filter ?keep (ms_runs s))" by simp
  then have kept: "map_of (filter ?keep (ms_runs s)) i = Some r"
    by (rule map_of_is_SomeI [OF jm_wf_filter [OF wf(1)]])
  have "ms_runs (thread_delete j s) = filter ?keep (ms_runs s)"
    by (simp add: thread_delete_def Let_def delete_crons_of_facts delete_runs_of_facts)
  with kept jm_wf_filter [OF wf(1), of ?keep] show ?thesis by (simp only: run_kept_def)
qed

lemma thread_ops_runs:
  "ms_runs (snd (thread_create_op tinput uuid now s)) = ms_runs s"
  "ms_runs (snd (thread_update_op j tpatch now s)) = ms_runs s"
  "ms_runs (snd (thread_copy j uuid now s)) = ms_runs s"
  "ms_runs (snd (record_result j result s)) = ms_runs s"
  by (auto simp: thread_create_op_def thread_update_op_def thread_copy_def record_result_def Let_def frame_simps
      split: option.split)

lemma guarded_create_run_kept:
  "run_kept i r s \<Longrightarrow> run_kept i r (snd (create_if_thread_idle input uuid now s))"
  "run_kept i r s \<Longrightarrow> run_kept i r (snd (create_if_thread_matches input guard uuid now s))"
  using guarded_create_snd create_run_row_kept by metis+

lemma admission_run_kept:
  "run_kept i r s \<Longrightarrow> i \<notin> fst ` set (ra_displacements input) \<Longrightarrow>
     run_kept i r (snd (admit_run input fresh now s))"
  "run_kept i r s \<Longrightarrow> i \<noteq> cl_run_id cinput \<Longrightarrow> run_kept i r (snd (admit_cancel cinput fresh now s))"
proof -
  assume "run_kept i r s" "i \<notin> fst ` set (ra_displacements input)"
  then show "run_kept i r (snd (admit_run input fresh now s))"
    by (intro admit_run_rule [where P = "run_kept i r"])
       (auto intro: settle_run_kept create_run_row_kept simp: frame_simps elim: run_kept_same)
next
  assume "run_kept i r s" "i \<noteq> cl_run_id cinput"
  then show "run_kept i r (snd (admit_cancel cinput fresh now s))"
    by (intro admit_cancel_rule [where P = "run_kept i r"])
       (auto intro: settle_run_kept simp: frame_simps elim: run_kept_same)
qed

lemma finalize_run_kept:
  "run_kept i r s \<Longrightarrow> j \<noteq> i \<Longrightarrow> run_kept i r (snd (finalize_with_delivery j status err callback uuid now s))"
  by (erule run_kept_shape, assumption)
     (auto simp: finalize_with_delivery_def insert_delivery_snd Let_def split_beta split: option.split)

lemma cron_step_run_kept:
  assumes "run_kept i r s"
  shows "run_kept i r (cron_step oper s)"
proof (cases oper)
  case (OpClaimAndCreateRun j claim input uuid now)
  have "ms_runs (snd (claim_cron j claim now s)) = ms_runs s"
    by (auto simp: claim_cron_def bump_cron_seq_def Let_def split: option.split)
  then have "run_kept i r (snd (claim_cron j claim now s))" by (rule run_kept_same [OF assms])
  then show ?thesis
    using OpClaimAndCreateRun claim_and_create_run_store [of j claim input uuid now s]
    by (auto intro: create_run_row_kept)
qed (auto intro!: run_kept_same [OF assms] simp: cron_create_op_def cron_update_op_def bump_cron_seq_def
      cron_delete_def claim_cron_def Let_def split: option.split)

lemma inherited_run_kept:
  assumes "run_kept i r s" "\<forall>status err callback uuid. oper \<noteq> IFinalize i status err callback uuid"
  shows "run_kept i r (inherited_step now oper s)"
proof (cases oper)
  case (IFinalize j status err callback uuid)
  with assms(2) have "j \<noteq> i" by blast
  with IFinalize show ?thesis by (simp add: finalize_run_kept [OF assms(1)])
next
  case (IClaimDispatches at_time lease limit fresh)
  then show ?thesis
    using intents_only(1) [of at_time lease limit fresh s] by (auto intro!: run_kept_same [OF assms(1)])
next
  case (IMarkDispatched j token)
  then show ?thesis using intents_only(2) [of j token s] by (auto intro!: run_kept_same [OF assms(1)])
next
  case (ICron cron)
  then show ?thesis by (simp add: cron_step_run_kept [OF assms(1)])
qed (auto intro!: run_kept_same [OF assms(1)] simp: delivery_step_frame assistant_step_frame item_ops_frame
      idempotency_step_frame record_base_checkpoint_def Let_def)

text \<open>
  The operations that reach another principal's run: deleting a thread takes its runs, an admission
  displaces the active runs of its thread whoever started them, and the inherited
  \<^verbatim>\<open>finalizeWithDelivery\<close> writes whatever run it is given.
\<close>

fun reaches_run :: "ident \<Rightarrow> run \<Rightarrow> scoped_op \<Rightarrow> bool" where
  "reaches_run i r (ODeleteThread j) = (j = r_thread_id r)"
| "reaches_run i r (OAdmitRun input fresh) = (i \<in> fst ` set (ra_displacements input))"
| "reaches_run i r (OInherited (IFinalize j status err callback uuid)) = (j = i)"
| "reaches_run i r _ = False"

definition gap_keeps_run :: "ident \<Rightarrow> run \<Rightarrow> (mem_store \<Rightarrow> mem_store) \<Rightarrow> bool" where
  "gap_keeps_run i r gap \<longleftrightarrow> (\<forall>s. run_kept i r s \<longrightarrow> run_kept i r (gap s))"

lemma scoped_step_keeps_run:
  assumes row: "run_kept i r s" and foreign: "\<not> scope_matches sc (r_metadata r)"
    and gap: "gap_keeps_run i r gap" and reach: "\<not> reaches_run i r oper"
  shows "run_kept i r (scoped_step sc gap now oper s)"
proof -
  let ?P = "run_kept i r"
  have gap': "?P (gap s)" using gap row by (simp add: gap_keeps_run_def)
  have hidden: "scoped_run_get sc j s = Some v \<Longrightarrow> j \<noteq> i" for j v
    using foreign_run_hidden [OF _ foreign] row by (auto simp: run_kept_def)
  note gates = gated_thread_rule [where P = ?P] gated_run_rule [where P = ?P]
  note stamped = with_stamp_rule [where P = ?P]
  note frame = run_kept_same [OF _ thread_ops_runs(1)] run_kept_same [OF _ thread_ops_runs(2)]
    run_kept_same [OF _ thread_ops_runs(3)] run_kept_same [OF _ thread_ops_runs(4)]
  show ?thesis
  proof (cases oper)
    case (OCreateThread input uuid)
    have "?P s' \<Longrightarrow> ?P (snd (with_stamp sc (tc_metadata input)
        (\<lambda>m. thread_create_op (input\<lparr>tc_metadata := Some m\<rparr>) uuid now) s'))" for s'
      by (rule stamped) (simp_all add: frame)
    with OCreateThread row gap' show ?thesis
      by (auto simp: scoped_thread_create_def Let_def split: option.split)
  next
    case (OUpdateThread j patch)
    have "?P (snd (with_stamp sc m0 (\<lambda>m. thread_update_op j (patch\<lparr>tu_metadata := Some m\<rparr>) now) (gap s)))" for m0
      by (rule stamped) (simp_all add: frame gap')
    with OUpdateThread show ?thesis
      by (auto simp: scoped_thread_update_def frame gap' row intro!: gates split: option.split)
  qed (use reach in \<open>auto simp: scoped_op_defs frame gap' row settle_run_kept create_run_row_kept
         set_status_run_kept run_delete_kept thread_delete_run_kept guarded_create_run_kept admission_run_kept
         intro!: gates stamped inherited_run_kept dest: hidden\<close>)
qed

section \<open>A foreign cron\<close>

definition gap_keeps_cron :: "ident \<Rightarrow> cron \<Rightarrow> (mem_store \<Rightarrow> mem_store) \<Rightarrow> bool" where
  "gap_keeps_cron i c gap \<longleftrightarrow>
     (\<forall>s. map_of (ms_crons s) i = Some c \<longrightarrow> map_of (ms_crons (gap s)) i = Some c)"

fun claims_cron :: "ident \<Rightarrow> cron_scoped_op \<Rightarrow> bool" where
  "claims_cron i (OClaimCron j claim) = (j = i)"
| "claims_cron i (OClaimCronRun j claim input uuid) = (j = i)"
| "claims_cron i _ = False"

lemma cron_write_keeps:
  "map_of (ms_crons s) i = Some c \<Longrightarrow> map_of (ms_crons (snd (cron_create_op input uuid now s))) i = Some c"
  "map_of (ms_crons s) i = Some c \<Longrightarrow> j \<noteq> i \<Longrightarrow> map_of (ms_crons (snd (cron_update_op j patch now s))) i = Some c"
  "map_of (ms_crons s) i = Some c \<Longrightarrow> j \<noteq> i \<Longrightarrow> map_of (ms_crons (cron_delete j s)) i = Some c"
  "map_of (ms_crons s) i = Some c \<Longrightarrow> j \<noteq> i \<Longrightarrow> map_of (ms_crons (snd (claim_cron j claim now s))) i = Some c"
  by (auto simp: cron_create_op_def cron_update_op_def cron_delete_def claim_cron_def bump_cron_seq_def Let_def
      jm_simps get_in_keys split: option.split)

lemma cron_scoped_step_keeps:
  assumes row: "map_of (ms_crons s) i = Some c" and foreign: "\<not> scope_matches sc (c_metadata c)"
    and gap: "gap_keeps_cron i c gap" and claim: "\<not> claims_cron i oper"
  shows "map_of (ms_crons (cron_scoped_step sc gap now oper s)) i = Some c"
proof -
  let ?P = "\<lambda>s. map_of (ms_crons s) i = Some c"
  have gap': "?P (gap s)" using gap row by (simp add: gap_keeps_cron_def)
  have hidden: "scoped_cron_get sc j s = Some v \<Longrightarrow> j \<noteq> i" for j v
    using foreign_cron_hidden [OF row foreign] by auto
  note gate = gated_cron_rule [where P = ?P, OF row] and stamped = with_stamp_rule [where P = ?P]
  show ?thesis
  proof (cases oper)
    case (OCreateCron input uuid)
    then show ?thesis
      by (simp add: scoped_cron_create_def) (rule stamped, simp_all add: cron_write_keeps(1) gap')
  next
    case (OUpdateCron j patch)
    have "?P (snd (with_stamp sc m0 (\<lambda>m. cron_update_op j (patch\<lparr>cp_metadata := Some m\<rparr>) now) (gap s)))"
      if "j \<noteq> i" for m0
      by (rule stamped) (simp_all add: cron_write_keeps(2) gap' that)
    with OUpdateCron show ?thesis
      by (auto simp: scoped_cron_update_def cron_write_keeps(2) gap' dest: hidden intro!: gate split: option.split)
  next
    case (ODeleteCron j)
    then show ?thesis
      by (auto simp: scoped_cron_delete_def cron_write_keeps(3) gap' dest: hidden intro!: gate)
  qed (use claim in \<open>auto simp: cron_write_keeps(4) claim_and_create_run_crons gap'\<close>)
qed

section \<open>Any sequence of the caller's operations\<close>

lemma foreign_thread_untouched:
  assumes "map_of (ms_threads s) i = Some t" and "\<not> scope_matches sc (t_metadata t)"
    and "list_all (\<lambda>(oper, gap, now). gap_keeps_thread i t gap \<and> \<not> copies_onto i oper) events"
  shows "map_of (ms_threads (run_steps (scoped_event_step sc) events s)) i = Some t"
  by (rule run_steps_invariant [where I = "\<lambda>s. map_of (ms_threads s) i = Some t", OF _ assms(1,3)])
     (use scoped_step_keeps_thread [OF _ assms(2)] in auto)

lemma foreign_run_untouched:
  assumes "store_inv s" "map_of (ms_runs s) i = Some r" and "\<not> scope_matches sc (r_metadata r)"
    and "list_all (\<lambda>(oper, gap, now). gap_keeps_run i r gap \<and> \<not> reaches_run i r oper) events"
  shows "map_of (ms_runs (run_steps (scoped_event_step sc) events s)) i = Some r"
proof -
  have start: "run_kept i r s" using assms(1,2) by (simp add: run_kept_def store_inv_run_wf)
  have "run_kept i r (run_steps (scoped_event_step sc) events s)"
    by (rule run_steps_invariant [where I = "run_kept i r", OF _ start assms(4)])
       (use scoped_step_keeps_run [OF _ assms(3)] in auto)
  then show ?thesis by (simp only: run_kept_def)
qed

lemma foreign_cron_untouched:
  assumes "map_of (ms_crons s) i = Some c" and "\<not> scope_matches sc (c_metadata c)"
    and "list_all (\<lambda>(oper, gap, now). gap_keeps_cron i c gap \<and> \<not> claims_cron i oper) events"
  shows "map_of (ms_crons (run_steps (cron_event_step sc) events s)) i = Some c"
  by (rule run_steps_invariant [where I = "\<lambda>s. map_of (ms_crons s) i = Some c", OF _ assms(1,3)])
     (use cron_scoped_step_keeps [OF _ assms(2)] in auto)


text \<open>
  An operation on a foreign row answers 404 and does nothing, which is what it answers for a row that
  does not exist: the caller cannot tell the two apart.
\<close>

theorem foreign_rows_answer_absent:
  assumes thread: "map_of (ms_threads s) i = None \<or>
      (\<exists>t. map_of (ms_threads s) i = Some t \<and> \<not> scope_matches sc (t_metadata t))"
    and run: "map_of (ms_runs s) j = None \<or>
      (\<exists>r. map_of (ms_runs s) j = Some r \<and> \<not> scope_matches sc (r_metadata r))"
  shows "scoped_thread_get sc i s = None \<and> scoped_get_ttl sc gap i s = (Inl not_found, s) \<and>
     scoped_thread_update sc gap i tpatch now s = (Inl not_found, s) \<and>
     scoped_thread_copy sc gap i uuid now s = (Inl not_found, s) \<and>
     scoped_thread_delete sc gap i s = (Inl not_found, s) \<and>
     scoped_admit_run sc gap (admission\<lparr>ra_run := create\<lparr>rc_thread_id := i\<rparr>\<rparr>) fresh now s = (Inl not_found, s) \<and>
     scoped_run_get sc j s = None \<and> scoped_get_result sc gap j s = None \<and>
     scoped_settle sc gap j final uuid now s = (Inl not_found, s) \<and>
     scoped_record_result sc gap j result s = (Inl not_found, s) \<and>
     scoped_set_status sc gap j status err now s = (Inl not_found, s) \<and>
     scoped_run_delete sc gap j s = (Inl not_found, s) \<and>
     scoped_admit_cancel sc gap (cancel\<lparr>cl_run_id := j\<rparr>) fresh now s = (Inl not_found, s)"
proof -
  have "scoped_thread_get sc i s = None" "scoped_run_get sc j s = None"
    using thread run by (auto simp: scoped_thread_get_def thread_get_def scoped_run_get_def run_get_def)
  then show ?thesis
    by (simp add: scoped_op_defs scoped_get_ttl_def scoped_get_result_def gated_thread_def gated_run_def)
qed

section \<open>Searching\<close>

context js_comparator
begin

lemma insert_all_below: "list_all (\<lambda>y. cmp x y \<le> 0) ys \<Longrightarrow> js_insert cmp x ys = x # ys"
  by (cases ys) simp_all

lemma filter_insert:
  "sorted_wrt (\<lambda>a b. cmp a b \<le> 0) ys \<Longrightarrow>
     filter P (js_insert cmp x ys) = (if P x then js_insert cmp x (filter P ys) else filter P ys)"
proof (induction ys)
  case (Cons y ys)
  show ?case
  proof (cases "cmp x y \<le> 0")
    case True
    with Cons.prems have "list_all (\<lambda>z. cmp x z \<le> 0) (filter P (y # ys))"
      by (auto simp: list_all_iff intro: cmp_trans)
    then have "js_insert cmp x (filter P (y # ys)) = x # filter P (y # ys)" by (rule insert_all_below)
    with True show ?thesis by simp
  next
    case False
    with Cons show ?thesis by simp
  qed
qed simp

lemma filter_sort: "filter P (js_sort cmp xs) = js_sort cmp (filter P xs)"
  by (induction xs) (simp_all add: filter_insert sort_sorted)

end

text \<open>The rows a scope shows to its caller.\<close>

definition owned :: "auth_scope \<Rightarrow> jsval \<Rightarrow> bool" where
  "owned sc metadata \<longleftrightarrow> filters_match (as_filters sc) (nullish metadata)"

fun is_object :: "jsval \<Rightarrow> bool" where
  "is_object (JObj _) = True"
| "is_object _ = False"

lemma declared_scope:
  assumes "honours_declared (as_matches sc)" "declared_filters (as_filters sc)"
  shows "scope_matches sc m = owned sc m"
    and "is_object m \<Longrightarrow> is_metadata_subset m (ownership_metadata sc) = owned sc m"
proof -
  show "scope_matches sc m = owned sc m"
    using assms by (simp add: scope_matches_def owned_def honours_declared_def)
  assume "is_object m"
  then obtain row where "m = JObj row" by (cases m) auto
  then show "is_metadata_subset m (ownership_metadata sc) = owned sc m"
    using subset_exact [OF assms(2), of row] by (simp add: ownership_metadata_def owned_def nullish_def)
qed

lemma compare_threads_by_on:
  "compare_threads_by key =
     (case key of
        SortThreadId \<Rightarrow> (\<lambda>a b. compare_of (t_thread_id a) (t_thread_id b))
      | SortStatus \<Rightarrow> (\<lambda>a b. compare_of (thread_status_text (t_status a)) (thread_status_text (t_status b)))
      | SortCreatedAt \<Rightarrow> (\<lambda>a b. compare_of (t_created_at a) (t_created_at b))
      | SortUpdatedAt \<Rightarrow> (\<lambda>a b. compare_of (t_updated_at a) (t_updated_at b))
      | SortStateUpdatedAt \<Rightarrow> (\<lambda>a b. compare_of (t_state_updated_at a) (t_state_updated_at b)))"
  by (cases key) (simp_all add: fun_eq_iff)

lemma js_comparator_threads:
  "js_comparator (directed (sort_direction order)
     (then_by (compare_threads_by key) (\<lambda>a b. compare_of (t_thread_id a) (t_thread_id b))))"
proof (intro js_comparator_directed js_comparator_then_by)
  show "js_comparator (compare_threads_by key)"
    unfolding compare_threads_by_on
    by (cases key) (simp_all add: js_comparator_on [OF js_comparator_compare_of])
qed (auto simp: sort_direction_def intro: js_comparator_on [OF js_comparator_compare_of])

lemma owned_matching_threads:
  assumes "honours_declared (as_matches sc)" "declared_filters (as_filters sc)"
    and "list_all (\<lambda>t. is_object (t_metadata t)) (jm_values (ms_threads s))"
  shows "matching_threads (enforced_threads sc q) s =
           filter (\<lambda>t. owned sc (t_metadata t)) (matching_threads (q\<lparr>tq_enforced_metadata := None\<rparr>) s)"
proof -
  have "filter (thread_matches (enforced_threads sc q)) (jm_values (ms_threads s)) =
      filter (\<lambda>t. owned sc (t_metadata t))
        (filter (thread_matches (q\<lparr>tq_enforced_metadata := None\<rparr>)) (jm_values (ms_threads s)))"
    unfolding filter_filter
  proof (rule filter_cong [OF refl])
    fix t assume "t \<in> set (jm_values (ms_threads s))"
    then have "is_object (t_metadata t)" using assms(3) by (simp only: list_all_iff)
    note exact = declared_scope(2) [OF assms(1,2) this]
    have free: "is_metadata_subset m None" for m by (simp add: is_metadata_subset_def)
    show "thread_matches (enforced_threads sc q) t \<longleftrightarrow>
        thread_matches (q\<lparr>tq_enforced_metadata := None\<rparr>) t \<and> owned sc (t_metadata t)"
      by (auto simp: thread_matches_def enforced_threads_def exact free)
  qed
  moreover have "js_comparator (directed (sort_direction (tq_sort_order q))
      (then_by (compare_threads_by (or_default (tq_sort_by q) SortCreatedAt))
         (\<lambda>a b. compare_of (t_thread_id a) (t_thread_id b))))"
    by (rule js_comparator_threads)
  ultimately show ?thesis
    by (simp add: matching_threads_def enforced_threads_def js_comparator.filter_sort)
qed

lemma enforced_simps:
  "tq_offset (enforced_threads sc q) = tq_offset q" "tq_limit (enforced_threads sc q) = tq_limit q"
  by (simp_all add: enforced_threads_def)

text \<open>
  C24. For the declared shapes of a filter the translation is exact: a search of the scoped store is the
  unscoped search over the caller's own rows, paged after the ownership filter, so no page is short
  and no offset skips a row; the count is the number of those rows.
\<close>

theorem scoped_search_exact:
  assumes "honours_declared (as_matches sc)" "declared_filters (as_filters sc)"
    and "list_all (\<lambda>t. is_object (t_metadata t)) (jm_values (ms_threads s))"
  shows "scoped_threads_search sc q s =
           map (project_thread s)
             (page (filter (\<lambda>t. owned sc (t_metadata t)) (matching_threads (q\<lparr>tq_enforced_metadata := None\<rparr>) s))
                (or_default (tq_offset q) 0) (page_limit s (tq_limit q))) \<and>
         scoped_threads_count sc q s =
           length (filter (\<lambda>t. owned sc (t_metadata t)) (matching_threads (q\<lparr>tq_enforced_metadata := None\<rparr>) s))"
proof -
  let ?rows = "matching_threads (enforced_threads sc q) s"
  have "\<forall>t \<in> set (page ?rows a b). owned sc (t_metadata t)" for a b
    using set_page_subset [of ?rows a b] by (auto simp: owned_matching_threads [OF assms])
  then have "filter (\<lambda>t. scope_matches sc (t_metadata t)) (map (project_thread s) (page ?rows a b)) =
      map (project_thread s) (page ?rows a b)" for a b
    by (auto simp: declared_scope(1) [OF assms(1,2)] intro!: filter_True)
  then show ?thesis
    using owned_matching_threads [OF assms, of q]
    by (simp add: scoped_threads_search_def threads_search_def scoped_threads_count_def threads_count_def
        enforced_simps)
qed

section \<open>What the caller creates is its own\<close>

lemma scope_stamp_owned:
  assumes "honours_declared (as_matches sc)" "declared_filters (as_filters sc)" "scope_stamp sc metadata = Some m"
  shows "scope_matches sc m"
  using assms(3) stamp_matches [OF assms(2), of "case metadata of None \<Rightarrow> None | Some m \<Rightarrow> nullish m"]
  by (auto simp: declared_scope(1) [OF assms(1,2)] owned_def nullish_def scope_stamp_def)

lemma with_stamp_Inr:
  "fst (with_stamp sc metadata next_op s) = Inr v \<Longrightarrow>
     \<exists>m. scope_stamp sc metadata = Some m \<and> with_stamp sc metadata next_op s = next_op m s"
  by (auto simp: with_stamp_def split: option.splits)

lemma create_thread_get:
  "fst (thread_create_op input uuid now s) = Inr t \<Longrightarrow>
     thread_get (t_thread_id t) (snd (thread_create_op input uuid now s)) = Some t \<and>
     t_metadata t = or_default (tc_metadata input) (JObj [])"
  by (auto simp: thread_create_op_def Let_def thread_get_def jm_simps split: if_splits)

lemma update_thread_get:
  "fst (thread_update_op i patch now s) = Inr t \<Longrightarrow>
     thread_get i (snd (thread_update_op i patch now s)) = Some t \<and>
     (tu_metadata patch = Some m \<longrightarrow> t_metadata t = m)"
  by (auto simp: thread_update_op_def Let_def thread_get_def jm_simps patched_thread_def split: option.splits)

lemma create_run_get:
  "fst (create_run input uuid now s) = Inr r \<Longrightarrow>
     run_get (r_run_id r) (snd (create_run input uuid now s)) = Some r \<and>
     r_metadata r = or_default (rc_metadata input) (JObj [])"
  by (auto simp: create_run_eq new_run_def with_new_run_def run_get_def jm_simps split: if_splits option.split)

lemma create_cron_get:
  "fst (cron_create_op input uuid now s) = Inr c \<Longrightarrow>
     cron_get (c_cron_id c) (snd (cron_create_op input uuid now s)) = Some c \<and>
     c_metadata c = or_default (cn_metadata input) (JObj [])"
  by (auto simp: cron_create_op_def new_cron_def cron_get_def Let_def jm_simps split: if_splits option.split)

lemma update_cron_get:
  "fst (cron_update_op i patch now s) = Inr c \<Longrightarrow>
     cron_get i (snd (cron_update_op i patch now s)) = Some c \<and>
     (cp_metadata patch = Some m \<longrightarrow> (\<exists>old. c_metadata c = js_spread old m))"
  by (auto simp: cron_update_op_def Let_def cron_get_def jm_simps patched_cron_def split: option.splits)

lemma clause_matches_mono:
  assumes "declared_clause c" "clause_matches (Some (JObj a)) (k, c)"
    and "\<And>v. map_of a k = Some v \<Longrightarrow> map_of b k = Some v"
  shows "clause_matches (Some (JObj b)) (k, c)"
proof (cases "map_of a k")
  case (Some v)
  with assms(3) show ?thesis using assms(2) clause_matches_at [of a k b c] by simp
next
  case None
  then have "clause_subset c = None"
    using assms(2) clause_subset_exact [OF assms(1), of a k] by (simp split: option.splits)
  then show ?thesis using clause_subset_exact [OF assms(1), of b k] by simp
qed

lemma stamp_spread_owned:
  assumes scope: "honours_declared (as_matches sc)" "declared_filters (as_filters sc)"
    and stamped: "scope_stamp sc metadata = Some m"
  shows "scope_matches sc (js_spread old m)"
proof -
  obtain ps where m: "m = JObj ps" "stamp_loop (as_filters sc) (spread_over []
      (case metadata of None \<Rightarrow> [] | Some m \<Rightarrow> (case nullish m of None \<Rightarrow> [] | Some m \<Rightarrow> js_entries m))) = Some ps"
    using stamped by (cases metadata) (auto simp: scope_stamp_def stamp_from_filters_def)
  from stamp_loop_wf [OF m(2)] have wf: "jm_wf ps" by (simp add: wf_spread)
  have "filters_match (as_filters sc) (Some (JObj ps))"
    using scope_stamp_owned [OF scope stamped] declared_scope(1) [OF scope] m(1) by (simp add: owned_def nullish_def)
  moreover have "map_of (spread_over a ps) k = Some v" if "map_of ps k = Some v" for a k v
    using that by (simp add: spread_over_get [OF wf])
  ultimately have "filters_match (as_filters sc) (Some (JObj (spread_over a ps)))" for a
    using scope(2) clause_matches_mono [of _ ps _ "spread_over a ps"]
    by (fastforce simp: filters_match_def declared_filters_def list_all_iff)
  then show ?thesis
    by (simp add: declared_scope(1) [OF scope] owned_def nullish_def js_spread_def m(1))
qed

text \<open>
  An admission sends the stamped metadata through the wire form. What a declared filter looks at, a
  text or the texts in an array, comes out as it went in.
\<close>

lemma wire_props_get:
  "wire_props ov ps = Some qs \<Longrightarrow> ov = None \<Longrightarrow> map_of ps k = Some v \<Longrightarrow> wire_value v = Written w \<Longrightarrow>
     map_of qs k = Some w"
proof (induction ps arbitrary: qs)
  case (Cons p ps)
  then show ?case by (cases p) (auto split: wire_result.splits if_splits)
qed simp

lemma wire_items_text: "wire_items xs = Some ys \<Longrightarrow> JStr t \<in> set xs \<Longrightarrow> JStr t \<in> set ys"
proof (induction xs arbitrary: ys)
  case (Cons x xs)
  then show ?case by (auto split: wire_result.splits)
qed simp

lemma same_text: "same_value_zero (JStr t) x \<longleftrightarrow> x = JStr t"
  using is_text_szv [of "JStr t" x] by simp

lemma held_texts:
  "list_all is_text ws \<Longrightarrow> list_all (\<lambda>w. list_ex (same_value_zero w) xs) ws \<longleftrightarrow> set ws \<subseteq> set xs"
  by (auto simp: list_all_iff list_ex_iff is_text_szv)

lemma wire_items_texts:
  "list_all is_text ws \<Longrightarrow> set ws \<subseteq> set xs \<Longrightarrow> wire_items xs = Some ys \<Longrightarrow> set ws \<subseteq> set ys"
proof
  fix w assume "list_all is_text ws" "set ws \<subseteq> set xs" "wire_items xs = Some ys" "w \<in> set ws"
  then show "w \<in> set ys" by (cases w) (auto simp: list_all_iff intro: wire_items_text)
qed

lemma wire_clause_matches:
  assumes wired: "wire_props None ps = Some qs" and "declared_clause c"
    and "clause_matches (Some (JObj ps)) (k, c)"
  shows "clause_matches (Some (JObj qs)) (k, c)"
proof -
  have text_kept: "metadata_at (Some (JObj qs)) k = JStr t" if "metadata_at (Some (JObj ps)) k = JStr t" for t
    using that wire_props_get [OF wired refl, of k "JStr t" "JStr t"]
    by (auto simp: metadata_at_def or_default_def split: option.splits)
  have array_kept: "\<exists>ys. wire_items xs = Some ys \<and> metadata_at (Some (JObj qs)) k = JArr ys"
    if "metadata_at (Some (JObj ps)) k = JArr xs" for xs
  proof -
    have at: "map_of ps k = Some (JArr xs)"
      using that by (auto simp: metadata_at_def or_default_def split: option.splits)
    have "wire_value (JArr xs) \<noteq> Throws"
      using wired at
    proof (induction ps arbitrary: qs)
      case (Cons p ps)
      then show ?case by (cases p) (auto split: wire_result.splits if_splits)
    qed simp
    then obtain ys where ys: "wire_items xs = Some ys" by (auto split: option.splits)
    then have "map_of qs k = Some (JArr ys)" by (intro wire_props_get [OF wired refl at]) simp
    with ys show ?thesis by (simp add: metadata_at_def or_default_def)
  qed
  show ?thesis
  proof (cases c)
    case (PlainClause v)
    with assms(2,3) text_kept show ?thesis by (cases v) (auto simp: is_text_strict)
  next
    case (OperatorClause eq contains)
    show ?thesis
    proof (cases eq)
      case (Some v)
      with assms OperatorClause text_kept show ?thesis
        by (cases contains; cases v) (auto simp: truthy_prop_def is_text_strict split: option.splits if_splits)
    next
      case None
      show ?thesis
      proof (cases "truthy_prop contains")
        case (Some w)
        with None OperatorClause assms(2) have texts: "list_all is_text (as_array w)"
          by (auto simp: truthy_prop_def split: option.splits if_splits)
        obtain xs where xs: "metadata_at (Some (JObj ps)) k = JArr xs" "set (as_array w) \<subseteq> set xs"
          using assms(3) None OperatorClause Some
          by (auto simp: truthy_prop_def held_texts [OF texts] split: jsval.splits)
        obtain ys where ys: "wire_items xs = Some ys" "metadata_at (Some (JObj qs)) k = JArr ys"
          using array_kept [OF xs(1)] by blast
        from wire_items_texts [OF texts xs(2) ys(1)] show ?thesis
          using OperatorClause None Some ys(2) by (simp add: truthy_prop_def held_texts [OF texts])
      qed (use OperatorClause None in \<open>simp add: truthy_prop_def\<close>)
    qed
  qed
qed

lemma stamp_wire_owned:
  assumes scope: "honours_declared (as_matches sc)" "declared_filters (as_filters sc)"
    and stamped: "scope_stamp sc metadata = Some m" and wired: "wire_optional (Some m) = Some w"
  shows "\<exists>n. w = Some n \<and> scope_matches sc n"
proof -
  have owned: "owned sc m" using scope_stamp_owned [OF scope stamped] declared_scope(1) [OF scope] by simp
  obtain ps where m: "m = JObj ps"
    using stamped by (auto simp: scope_stamp_def stamp_from_filters_def)
  with wired obtain qs where qs: "wire_props None ps = Some qs" "w = Some (JObj qs)"
    by (auto simp: wire_optional_def split: wire_result.splits option.splits)
  have "filters_match (as_filters sc) (Some (JObj qs))"
    using owned m wire_clause_matches [OF qs(1)] scope(2)
    by (fastforce simp: owned_def nullish_def filters_match_def declared_filters_def list_all_iff)
  then show ?thesis
    using qs(2) by (simp add: declared_scope(1) [OF scope] owned_def nullish_def)
qed

lemma admitted_run_owned:
  assumes scope: "honours_declared (as_matches sc)" "declared_filters (as_filters sc)"
    and run: "fst (scoped_admit_run sc gap input fresh now s) = Inr receipt"
    and new: "replay_admission input (gap s) = Inr None" "fresh 0 \<notin> fst ` set (ms_runs (gap s))"
      "rc_run_id (ra_run input) \<noteq> Some []"
  shows "\<exists>r. scoped_run_get sc (ar_run_id receipt) (snd (scoped_admit_run sc gap input fresh now s)) = Some r"
proof -
  let ?stamped = "\<lambda>m. input\<lparr>ra_run := (ra_run input)\<lparr>rc_metadata := Some m\<rparr>\<rparr>"
  have gated: "scoped_admit_run sc gap input fresh now s =
      with_stamp sc (rc_metadata (ra_run input)) (\<lambda>m. admit_run (?stamped m) fresh now) (gap s)"
    using run by (auto simp: scoped_admit_run_def gated_thread_def split: option.splits)
  from with_stamp_Inr [OF run [unfolded gated]] gated
  obtain m where m: "scope_stamp sc (rc_metadata (ra_run input)) = Some m"
    "scoped_admit_run sc gap input fresh now s = admit_run (?stamped m) fresh now (gap s)"
    by auto
  obtain s' where s': "admit_run (?stamped m) fresh now (gap s) = (Inr receipt, s')"
    using m(2) run by (cases "admit_run (?stamped m) fresh now (gap s)") simp
  show ?thesis
  proof (rule admit_run_cases [OF s'])
    show "fresh 0 \<notin> fst ` set (ms_runs (gap s))" by (rule new(2))
    show "rc_run_id (ra_run (?stamped m)) \<noteq> Some []" using new(3) by simp
  next
    fix old assume "replay_admission (?stamped m) (gap s) = Inr (Some old)"
    moreover have "replay_admission (?stamped m) (gap s) = replay_admission input (gap s)"
      by (cases "map_of (ms_idempotency (gap s)) (idempotency_key (ak_scope input) (ak_key input))")
         (simp_all add: replay_admission_def split: option.split)
    ultimately show ?thesis using new(1) by simp
  next
    fix e res0 assume "Inr receipt = Inl e"
    then show ?thesis by simp
  next
    fix prepared displaced s1
    assume checks: "admit_checks (?stamped m) (gap s) = (Inr (prepared, displaced), s1)"
      and res: "Inr receipt = Inr (receipt_of (ak_key (?stamped m))
                  (or_default (rc_run_id prepared) (fresh 0)) (rc_thread_id prepared))"
      and made: "s' = committed (?stamped m) prepared displaced fresh now s1"
    have "wire_run_create (ra_run (?stamped m)) = Some prepared" by (rule admit_checks_ok(1) [OF checks])
    then obtain w where "wire_optional (Some m) = Some w" "rc_metadata prepared = w"
      by (auto simp: wire_run_create_def split: bind_splits)
    with stamp_wire_owned [OF scope m(1)] obtain n where n: "rc_metadata prepared = Some n" "scope_matches sc n"
      by blast
    have "run_get (ar_run_id receipt) s' = Some (new_run prepared (fresh 0) now)"
      using res made by (simp add: run_get_def committed_runs jm_simps receipt_of_def)
    moreover have "scope_matches sc (r_metadata (new_run prepared (fresh 0) now))"
      using n by (simp add: new_run_def or_default_def)
    ultimately show ?thesis using m(2) s' by (simp add: scoped_run_get_def)
  qed
qed

lemma stamped_run_visible:
  assumes scope: "honours_declared (as_matches sc)" "declared_filters (as_filters sc)"
    and "scope_stamp sc metadata = Some m" "fst (create_run (input\<lparr>rc_metadata := Some m\<rparr>) uuid now s) = Inr r"
  shows "scoped_run_get sc (r_run_id r) (snd (create_run (input\<lparr>rc_metadata := Some m\<rparr>) uuid now s)) = Some r"
  using create_run_get [OF assms(4)] scope_stamp_owned [OF scope assms(3)]
  by (simp add: scoped_run_get_def)

lemma guarded_create_result:
  "fst (create_if_thread_idle input uuid now s) = Inr (Some r) \<Longrightarrow>
     fst (create_run input uuid now s) = Inr r \<and>
     snd (create_if_thread_idle input uuid now s) = snd (create_run input uuid now s)"
  "fst (create_if_thread_matches input guard uuid now s) = Inr (GuardedRun r) \<Longrightarrow>
     fst (create_run input uuid now s) = Inr r \<and>
     snd (create_if_thread_matches input guard uuid now s) = snd (create_run input uuid now s)"
  by (auto simp: create_if_thread_idle_def create_if_thread_matches_def
      split: prod.splits sum.splits option.splits if_splits)

lemma created_runs_owned:
  assumes scope: "honours_declared (as_matches sc)" "declared_filters (as_filters sc)"
  shows "fst (scoped_run_create sc input uuid now s) = Inr r \<Longrightarrow>
      scoped_run_get sc (r_run_id r) (snd (scoped_run_create sc input uuid now s)) = Some r"
    and "fst (scoped_create_if_thread_idle sc input uuid now s) = Inr (Some r) \<Longrightarrow>
      scoped_run_get sc (r_run_id r) (snd (scoped_create_if_thread_idle sc input uuid now s)) = Some r"
    and "fst (scoped_create_if_thread_matches sc input guard uuid now s) = Inr (GuardedRun r) \<Longrightarrow>
      scoped_run_get sc (r_run_id r) (snd (scoped_create_if_thread_matches sc input guard uuid now s)) = Some r"
proof -
  assume made: "fst (scoped_run_create sc input uuid now s) = Inr r"
  then obtain m where "scope_stamp sc (rc_metadata input) = Some m"
    "scoped_run_create sc input uuid now s = create_run (input\<lparr>rc_metadata := Some m\<rparr>) uuid now s"
    using with_stamp_Inr unfolding scoped_run_create_def by metis
  with made stamped_run_visible [OF scope this(1)]
  show "scoped_run_get sc (r_run_id r) (snd (scoped_run_create sc input uuid now s)) = Some r" by simp
next
  assume made: "fst (scoped_create_if_thread_idle sc input uuid now s) = Inr (Some r)"
  then obtain m where "scope_stamp sc (rc_metadata input) = Some m" "scoped_create_if_thread_idle sc input uuid now s =
      create_if_thread_idle (input\<lparr>rc_metadata := Some m\<rparr>) uuid now s"
    using with_stamp_Inr unfolding scoped_create_if_thread_idle_def by metis
  with made stamped_run_visible [OF scope this(1)] guarded_create_result(1) [of "input\<lparr>rc_metadata := Some m\<rparr>" uuid now s r]
  show "scoped_run_get sc (r_run_id r) (snd (scoped_create_if_thread_idle sc input uuid now s)) = Some r" by simp
next
  assume made: "fst (scoped_create_if_thread_matches sc input guard uuid now s) = Inr (GuardedRun r)"
  then obtain m where "scope_stamp sc (rc_metadata input) = Some m" "scoped_create_if_thread_matches sc input guard uuid now s =
      create_if_thread_matches (input\<lparr>rc_metadata := Some m\<rparr>) guard uuid now s"
    using with_stamp_Inr unfolding scoped_create_if_thread_matches_def by metis
  with made stamped_run_visible [OF scope this(1)] guarded_create_result(2) [of "input\<lparr>rc_metadata := Some m\<rparr>" guard uuid now s r]
  show "scoped_run_get sc (r_run_id r) (snd (scoped_create_if_thread_matches sc input guard uuid now s)) = Some r"
    by simp
qed

lemma created_thread_owned:
  assumes scope: "honours_declared (as_matches sc)" "declared_filters (as_filters sc)"
    and thread: "fst (scoped_thread_create sc gap input uuid now s) = Inr t"
  shows "scoped_thread_get sc (t_thread_id t) (snd (scoped_thread_create sc gap input uuid now s)) = Some t"
proof -
  obtain s' where "scoped_thread_create sc gap input uuid now s =
      with_stamp sc (tc_metadata input) (\<lambda>m. thread_create_op (input\<lparr>tc_metadata := Some m\<rparr>) uuid now) s'"
    using thread by (auto simp: scoped_thread_create_def Let_def split: option.splits if_splits)
  with thread with_stamp_Inr obtain m where
    "scope_stamp sc (tc_metadata input) = Some m"
    "scoped_thread_create sc gap input uuid now s = thread_create_op (input\<lparr>tc_metadata := Some m\<rparr>) uuid now s'"
    by metis
  then show ?thesis
    using thread create_thread_get [of "input\<lparr>tc_metadata := Some m\<rparr>" uuid now s' t] scope_stamp_owned [OF scope]
    by (simp add: scoped_thread_get_def)
qed

lemma patched_thread_owned:
  assumes scope: "honours_declared (as_matches sc)" "declared_filters (as_filters sc)"
    and patched: "fst (scoped_thread_update sc gap i (patch\<lparr>tu_metadata := Some m\<rparr>) now s) = Inr u"
  shows "scoped_thread_get sc i (snd (scoped_thread_update sc gap i (patch\<lparr>tu_metadata := Some m\<rparr>) now s)) = Some u"
proof -
  let ?patch = "\<lambda>x. patch\<lparr>tu_metadata := Some x\<rparr>"
  have gated: "scoped_thread_update sc gap i (?patch m) now s =
      with_stamp sc (Some m) (\<lambda>x. thread_update_op i (?patch x) now) (gap s)"
    using patched by (auto simp: scoped_thread_update_def gated_thread_def split: option.splits)
  with patched with_stamp_Inr obtain n where
    "scope_stamp sc (Some m) = Some n" "scoped_thread_update sc gap i (?patch m) now s = thread_update_op i (?patch n) now (gap s)"
    by metis
  then show ?thesis
    using patched update_thread_get [of i "?patch n" now "gap s" u n] scope_stamp_owned [OF scope]
    by (simp add: scoped_thread_get_def)
qed

lemma created_cron_owned:
  assumes scope: "honours_declared (as_matches sc)" "declared_filters (as_filters sc)"
    and cron: "fst (scoped_cron_create sc input uuid now s) = Inr c"
  shows "scoped_cron_get sc (c_cron_id c) (snd (scoped_cron_create sc input uuid now s)) = Some c"
proof -
  obtain m where "scope_stamp sc (cn_metadata input) = Some m"
    "scoped_cron_create sc input uuid now s = cron_create_op (input\<lparr>cn_metadata := Some m\<rparr>) uuid now s"
    using cron with_stamp_Inr unfolding scoped_cron_create_def by metis
  then show ?thesis
    using cron create_cron_get [of "input\<lparr>cn_metadata := Some m\<rparr>" uuid now s c] scope_stamp_owned [OF scope]
    by (simp add: scoped_cron_get_def)
qed

lemma patched_cron_owned:
  assumes scope: "honours_declared (as_matches sc)" "declared_filters (as_filters sc)"
    and patched: "fst (scoped_cron_update sc gap i (patch\<lparr>cp_metadata := Some m\<rparr>) now s) = Inr c"
  shows "scoped_cron_get sc i (snd (scoped_cron_update sc gap i (patch\<lparr>cp_metadata := Some m\<rparr>) now s)) = Some c"
proof -
  let ?patch = "\<lambda>x. patch\<lparr>cp_metadata := Some x\<rparr>"
  have gated: "scoped_cron_update sc gap i (?patch m) now s =
      with_stamp sc (Some m) (\<lambda>x. cron_update_op i (?patch x) now) (gap s)"
    using patched by (auto simp: scoped_cron_update_def gated_cron_def split: option.splits)
  with patched with_stamp_Inr obtain n where
    "scope_stamp sc (Some m) = Some n" "scoped_cron_update sc gap i (?patch m) now s = cron_update_op i (?patch n) now (gap s)"
    by metis
  then show ?thesis
    using patched update_cron_get [of i "?patch n" now "gap s" c n] stamp_spread_owned [OF scope]
    by (auto simp: scoped_cron_get_def)
qed

text \<open>
  C23. For ownership filters of the declared shapes, whatever metadata the caller sends, what an
  operation that succeeded made or patched is visible to it afterwards: a thread it created, a run it
  created plainly, under the idle guard, under the status guard or by an admission that is no replay,
  a cron it created, and a thread or cron whose metadata it replaced. The stamp cannot be dropped.
\<close>

theorem created_rows_owned:
  assumes scope: "honours_declared (as_matches sc)" "declared_filters (as_filters sc)"
  shows
    "(\<forall>t. fst (scoped_thread_create sc gap tinput uuid now s) = Inr t \<longrightarrow>
        scoped_thread_get sc (t_thread_id t) (snd (scoped_thread_create sc gap tinput uuid now s)) = Some t) \<and>
     (\<forall>t. fst (scoped_thread_update sc gap i (tpatch\<lparr>tu_metadata := Some m\<rparr>) now s) = Inr t \<longrightarrow>
        scoped_thread_get sc i (snd (scoped_thread_update sc gap i (tpatch\<lparr>tu_metadata := Some m\<rparr>) now s)) = Some t) \<and>
     (\<forall>r. fst (scoped_run_create sc rinput uuid now s) = Inr r \<longrightarrow>
        scoped_run_get sc (r_run_id r) (snd (scoped_run_create sc rinput uuid now s)) = Some r) \<and>
     (\<forall>r. fst (scoped_create_if_thread_idle sc rinput uuid now s) = Inr (Some r) \<longrightarrow>
        scoped_run_get sc (r_run_id r) (snd (scoped_create_if_thread_idle sc rinput uuid now s)) = Some r) \<and>
     (\<forall>r. fst (scoped_create_if_thread_matches sc rinput guard uuid now s) = Inr (GuardedRun r) \<longrightarrow>
        scoped_run_get sc (r_run_id r) (snd (scoped_create_if_thread_matches sc rinput guard uuid now s)) = Some r) \<and>
     (\<forall>receipt. fst (scoped_admit_run sc gap input fresh now s) = Inr receipt \<and>
          replay_admission input (gap s) = Inr None \<and> fresh 0 \<notin> fst ` set (ms_runs (gap s)) \<and>
          rc_run_id (ra_run input) \<noteq> Some [] \<longrightarrow>
        (\<exists>r. scoped_run_get sc (ar_run_id receipt) (snd (scoped_admit_run sc gap input fresh now s)) = Some r)) \<and>
     (\<forall>c. fst (scoped_cron_create sc cinput uuid now s) = Inr c \<longrightarrow>
        scoped_cron_get sc (c_cron_id c) (snd (scoped_cron_create sc cinput uuid now s)) = Some c) \<and>
     (\<forall>c. fst (scoped_cron_update sc gap j (cpatch\<lparr>cp_metadata := Some m\<rparr>) now s) = Inr c \<longrightarrow>
        scoped_cron_get sc j (snd (scoped_cron_update sc gap j (cpatch\<lparr>cp_metadata := Some m\<rparr>) now s)) = Some c)"
  by (intro conjI allI impI; (elim conjE)?)
     (erule created_thread_owned [OF scope] patched_thread_owned [OF scope] created_runs_owned [OF scope]
        admitted_run_owned [OF scope] created_cron_owned [OF scope] patched_cron_owned [OF scope]; assumption?)+

text \<open>
  A clause whose value is \<^verbatim>\<open>undefined\<close>, which the translation's comment calls reachable and reads as no
  constraint, makes every create of the caller fail with a \<^verbatim>\<open>TypeError\<close>: the stamp reads \<^verbatim>\<open>$eq\<close> of it.
\<close>

lemma undefined_clause_breaks_creates:
  assumes "as_filters sc = (key, PlainClause JUndef) # rest"
  shows "scoped_run_create sc input uuid now s = (Inl TypeError, s)"
    and "auth_filters_to_metadata_subset (Some [(key, PlainClause JUndef)]) = None"
  using assms
  by (simp_all add: scoped_run_create_def with_stamp_def scope_stamp_def stamp_from_filters_def
      auth_filters_to_metadata_subset_def)

section \<open>Two tenants\<close>

definition owned_by :: "string \<Rightarrow> jsval" where
  "owned_by who = JObj [(''owner'', JStr who)]"

definition alice_scope :: auth_scope where
  "alice_scope = \<lparr>as_matches = (\<lambda>m fs. filters_match fs m), as_filters = [(''owner'', PlainClause (JStr ''alice''))]\<rparr>"

definition tenant_thread :: "ident \<Rightarrow> string \<Rightarrow> thread" where
  "tenant_thread i who = \<lparr>t_thread_id = i, t_created_at = 0, t_updated_at = 0, t_state_updated_at = 0,
     t_metadata = owned_by who, t_status = Idle, t_values = JObj [], t_interrupts = JObj [], t_error = None\<rparr>"

definition bobs_run :: run where
  "bobs_run = \<lparr>r_run_id = ''r1'', r_thread_id = ''t1'', r_assistant_id = ''a'', r_created_at = 0,
     r_updated_at = 0, r_status = Running, r_metadata = owned_by ''bob'', r_multitask_strategy = None,
     r_error = None\<rparr>"

definition bobs_cron :: cron where
  "bobs_cron = \<lparr>c_cron_id = ''c1'', c_assistant_id = ''a'', c_thread_id = Some ''t1'', c_schedule = ''x'',
     c_timezone = None, c_end_time = None, c_next_run_date = Some 100, c_enabled = True, c_payload = JObj [],
     c_metadata = owned_by ''bob'', c_user_id = None, c_created_at = 0, c_updated_at = 0,
     c_on_run_completed = None\<rparr>"

definition tenant_store :: mem_store where
  "tenant_store = empty_store\<lparr>ms_threads := [(''t1'', tenant_thread ''t1'' ''bob''), (''t2'', tenant_thread ''t2'' ''alice'')],
     ms_runs := [(''r1'', bobs_run)], ms_crons := [(''c1'', bobs_cron)], ms_cron_seq := [(''c1'', 0)]\<rparr>"

definition disabling :: cron_patch where
  "disabling = \<lparr>cp_schedule = None, cp_timezone = Undefined, cp_end_time = Undefined,
     cp_next_run_date = Undefined, cp_enabled = Some False, cp_payload = None, cp_metadata = None,
     cp_on_run_completed = None\<rparr>"

definition bare_delivery :: delivery_create where
  "bare_delivery = \<lparr>dc_delivery_id = None, dc_thread_id = ''t1'', dc_url = ''u'', dc_payload = JNull,
     dc_payload_truncated = None, dc_next_attempt_at = 0, dc_expires_at = 10\<rparr>"

lemma alice_scope_declared:
  "honours_declared (as_matches alice_scope)" "declared_filters (as_filters alice_scope)"
  by (simp_all add: alice_scope_def honours_declared_def declared_filters_def)

lemma tenant_rows:
  "map_of (ms_threads tenant_store) ''t1'' = Some (tenant_thread ''t1'' ''bob'')"
  "map_of (ms_runs tenant_store) ''r1'' = Some bobs_run"
  "\<not> scope_matches alice_scope (t_metadata (tenant_thread ''t1'' ''bob''))"
  "map_of (ms_crons tenant_store) ''c1'' = Some bobs_cron"
  "\<not> scope_matches alice_scope (r_metadata bobs_run)"
  "\<not> scope_matches alice_scope (c_metadata bobs_cron)"
  "store_inv tenant_store"
  by (simp_all add: tenant_store_def tenant_thread_def bobs_run_def bobs_cron_def scope_matches_def alice_scope_def
      owned_by_def nullish_def filters_match_def metadata_at_def store_inv_def inv_defs keyed_by_def
      beside_def empty_store_def)


text \<open>
  What \<^verbatim>\<open>...inner.runs\<close> leaves open: the inherited \<^verbatim>\<open>finalizeWithDelivery\<close> of the scoped store settles a
  run of another principal, where \<^verbatim>\<open>settle\<close> and \<^verbatim>\<open>setStatus\<close> answer 404; and
  \<^verbatim>\<open>recordBaseCheckpoint\<close> writes beside it.
\<close>

lemma inherited_finalize_ungated:
  "map_option r_status (map_of (ms_runs (scoped_step alice_scope id 5
      (OInherited (IFinalize ''r1'' Cancelled None bare_delivery ''d'')) tenant_store)) ''r1'') = Some Cancelled"
  "fst (scoped_set_status alice_scope id ''r1'' Cancelled None 5 tenant_store) = Inl not_found"
  "map_option kw_base_checkpoint_id (get_kwargs ''r1'' (scoped_step alice_scope id 5
      (OInherited (IRecordBase ''r1'' (Value ''x''))) tenant_store)) = Some (Value ''x'')"
  by code_simp+

lemma foreign_rows_answer_absent_witness:
  "scoped_thread_delete alice_scope id ''t1'' tenant_store = (Inl not_found, tenant_store) \<and>
   scoped_run_delete alice_scope id ''r1'' tenant_store = (Inl not_found, tenant_store)"
  using foreign_rows_answer_absent [OF disjI2 disjI2, of tenant_store "''t1''" alice_scope "''r1''" id] tenant_rows
  by blast

lemma scoped_search_exact_witness:
  "scoped_threads_count alice_scope list_query tenant_store =
     length (filter (\<lambda>t. owned alice_scope (t_metadata t))
       (matching_threads (list_query\<lparr>tq_enforced_metadata := None\<rparr>) tenant_store))"
  using scoped_search_exact [OF alice_scope_declared, of tenant_store list_query]
  by (simp add: tenant_store_def tenant_thread_def owned_by_def)

definition plain_thread :: thread_create where
  "plain_thread = \<lparr>tc_thread_id = None, tc_metadata = Some (owned_by ''bob''), tc_status = None,
     tc_ttl = Undefined, tc_ttl_strategy = None\<rparr>"

definition plain_run :: run_create where
  "plain_run = \<lparr>rc_thread_id = ''t2'', rc_assistant_id = ''a'', rc_run_id = None, rc_status = None,
     rc_metadata = None, rc_multitask_strategy = None, rc_kwargs = None\<rparr>"

definition plain_cron :: cron_create where
  "plain_cron = \<lparr>cn_cron_id = None, cn_assistant_id = ''a'', cn_thread_id = None, cn_schedule = ''x'',
     cn_timezone = None, cn_end_time = None, cn_next_run_date = None, cn_enabled = None,
     cn_payload = None, cn_metadata = Some (JObj []), cn_user_id = None, cn_on_run_completed = None,
     cn_auth = None\<rparr>"

definition plain_admission :: run_admission where
  "plain_admission = sample_admission\<lparr>ra_run := plain_run, ra_expected_run_id := None, ra_displacements := []\<rparr>"

lemma plain_creates_succeed:
  "\<exists>t. fst (scoped_thread_create alice_scope id plain_thread ''new'' 5 tenant_store) = Inr t"
  "\<exists>c. fst (scoped_cron_create alice_scope plain_cron ''new'' 5 tenant_store) = Inr c"
  by (simp_all add: scoped_op_defs scoped_cron_create_def with_stamp_def
      scope_stamp_def stamp_from_filters_def alice_scope_def plain_thread_def plain_cron_def
      tenant_store_def tenant_thread_def owned_by_def empty_store_def nullish_def thread_create_op_def
      cron_create_op_def jm_has_def Let_def)

lemma plain_admission_succeeds:
  "fst (scoped_admit_run alice_scope id plain_admission sample_fresh 10 tenant_store) =
     Inr (receipt_of ''k'' ''r2'' ''t2'')"
  by code_simp

lemma receipt_of_id: "ar_run_id (receipt_of k i t) = i"
  by (simp add: receipt_of_def)

lemma created_rows_owned_witness:
  "\<exists>t r c. scoped_thread_get alice_scope (t_thread_id t)
       (snd (scoped_thread_create alice_scope id plain_thread ''new'' 5 tenant_store)) = Some t \<and>
     scoped_run_get alice_scope ''r2''
       (snd (scoped_admit_run alice_scope id plain_admission sample_fresh 10 tenant_store)) = Some r \<and>
     scoped_cron_get alice_scope (c_cron_id c) (snd (scoped_cron_create alice_scope plain_cron ''new'' 5 tenant_store)) = Some c"
proof -
  note facts = created_rows_owned [OF alice_scope_declared, of id plain_thread "''new''" 5 tenant_store]
  have "replay_admission plain_admission (id tenant_store) = Inr None"
    by code_simp
  moreover have "sample_fresh 0 \<notin> fst ` set (ms_runs (id tenant_store))" "rc_run_id (ra_run plain_admission) \<noteq> Some []"
    by (simp_all add: sample_fresh_def tenant_store_def plain_admission_def plain_run_def)
  ultimately show ?thesis
    using created_rows_owned [OF alice_scope_declared, where gap = id and tinput = plain_thread and
        uuid = "''new''" and now = 5 and s = tenant_store and cinput = plain_cron]
      created_rows_owned [OF alice_scope_declared, where gap = id and input = plain_admission and
        fresh = sample_fresh and now = 10 and s = tenant_store]
      plain_creates_succeed plain_admission_succeeds by (metis receipt_of_id)
qed

end
