(* ===== verification/RouteAuthz.thy ===== *)
theory RouteAuthz
  imports AuthFilters Fingerprint
begin

text \<open>
  Who may call which endpoint on what: \<^verbatim>\<open>auth/route-authz.ts\<close>, \<^verbatim>\<open>auth/authenticate-request.ts\<close>, the
  dispatch of \<^verbatim>\<open>auth/authorizing-handlers.ts\<close>, and the readers of a store request's target in
  \<^verbatim>\<open>create-handlers.ts\<close>. The deployment's authenticate and authorize handlers are arguments; an authorize
  handler sees a value built by the server and may rewrite it.

  Spreading an array or a message over an object is not modelled (it adds index keys no route reads);
  two values of a \<^verbatim>\<open>key\<close> field are the same object when they are equal.
\<close>

section \<open>The routes\<close>

datatype auth_resource = Threads | Assistants | StoreItems | Crons

datatype auth_action =
    ActCreate | ActRead | ActUpdate | ActDelete | ActSearch | ActCreateRun | ActPut | ActGet | ActListNamespaces

datatype (plugins only: size) handler_name =
    HGetOpenApi | HHandleA2a | HHandleMcp | HHandleInboundEvent | HListChannels
  | HGetAssistant | HGetAssistantSchemas | HGetAssistantGraph | HGetAssistantSubgraphs
  | HListAssistantVersions | HSearchAssistants | HCountAssistants | HCreateAssistant | HUpdateAssistant
  | HSetAssistantLatestVersion | HDeleteAssistant
  | HCreateThread | HCopyThread | HGetThreadStorage | HGetThread | HGetThreadState
  | HGetThreadStateAtCheckpoint | HGetThreadStateAtCheckpointFromBody | HGetThreadHistory | HListThreads
  | HCountThreads | HPruneThreads | HPatchThread | HUpdateThreadState | HDeleteThread
  | HSearchRuns | HCreateWaitRun | HCreateStreamRun | HCreateBackgroundRun | HCreateStatelessRun
  | HCreateRunBatch | HGetRun | HListRunDeliveries | HReplayRunDelivery | HListThreadRuns
  | HJoinRunStream | HJoinRun | HCancelRun | HCancelManyRuns | HDeleteRun
  | HCreateCron | HGetCron | HSearchCrons | HCountCrons | HUpdateCron | HDeleteCron
  | HPostThreadStream | HGetThreadStream | HPostThreadCommands | HPostThreadEvents | HGetServerInfo
  | HPutStoreItem | HGetStoreItem | HDeleteStoreItem | HSearchStoreItems | HListStoreNamespaces

record route_authz =
  rz_resource :: auth_resource
  rz_action :: auth_action
  rz_fallback_resource :: "auth_resource option"
  rz_fallback_action :: "auth_action option"

definition guards :: "auth_resource \<Rightarrow> auth_action \<Rightarrow> route_authz" where
  "guards resource action =
     \<lparr>rz_resource = resource, rz_action = action, rz_fallback_resource = None, rz_fallback_action = None\<rparr>"

definition cron_guard :: "auth_action \<Rightarrow> auth_action option \<Rightarrow> route_authz" where
  "cron_guard action fallback_action =
     \<lparr>rz_resource = Crons, rz_action = action, rz_fallback_resource = Some Threads,
      rz_fallback_action = fallback_action\<rparr>"

primrec ROUTE_AUTHZ :: "handler_name \<Rightarrow> route_authz" where
  "ROUTE_AUTHZ HGetOpenApi = guards Assistants ActRead"
| "ROUTE_AUTHZ HHandleA2a = guards Assistants ActRead"
| "ROUTE_AUTHZ HHandleMcp = guards Assistants ActRead"
| "ROUTE_AUTHZ HHandleInboundEvent = guards Threads ActCreateRun"
| "ROUTE_AUTHZ HListChannels = guards Assistants ActRead"
| "ROUTE_AUTHZ HGetAssistant = guards Assistants ActRead"
| "ROUTE_AUTHZ HGetAssistantSchemas = guards Assistants ActRead"
| "ROUTE_AUTHZ HGetAssistantGraph = guards Assistants ActRead"
| "ROUTE_AUTHZ HGetAssistantSubgraphs = guards Assistants ActRead"
| "ROUTE_AUTHZ HListAssistantVersions = guards Assistants ActRead"
| "ROUTE_AUTHZ HSearchAssistants = guards Assistants ActSearch"
| "ROUTE_AUTHZ HCountAssistants = guards Assistants ActSearch"
| "ROUTE_AUTHZ HCreateAssistant = guards Assistants ActCreate"
| "ROUTE_AUTHZ HUpdateAssistant = guards Assistants ActUpdate"
| "ROUTE_AUTHZ HSetAssistantLatestVersion = guards Assistants ActUpdate"
| "ROUTE_AUTHZ HDeleteAssistant = guards Assistants ActDelete"
| "ROUTE_AUTHZ HCreateThread = guards Threads ActCreate"
| "ROUTE_AUTHZ HCopyThread = guards Threads ActCreate"
| "ROUTE_AUTHZ HGetThreadStorage = guards Threads ActRead"
| "ROUTE_AUTHZ HGetThread = guards Threads ActRead"
| "ROUTE_AUTHZ HGetThreadState = guards Threads ActRead"
| "ROUTE_AUTHZ HGetThreadStateAtCheckpoint = guards Threads ActRead"
| "ROUTE_AUTHZ HGetThreadStateAtCheckpointFromBody = guards Threads ActRead"
| "ROUTE_AUTHZ HGetThreadHistory = guards Threads ActRead"
| "ROUTE_AUTHZ HListThreads = guards Threads ActSearch"
| "ROUTE_AUTHZ HCountThreads = guards Threads ActSearch"
| "ROUTE_AUTHZ HPruneThreads = guards Threads ActDelete"
| "ROUTE_AUTHZ HPatchThread = guards Threads ActUpdate"
| "ROUTE_AUTHZ HUpdateThreadState = guards Threads ActUpdate"
| "ROUTE_AUTHZ HDeleteThread = guards Threads ActDelete"
| "ROUTE_AUTHZ HSearchRuns = guards Threads ActSearch"
| "ROUTE_AUTHZ HCreateWaitRun = guards Threads ActCreateRun"
| "ROUTE_AUTHZ HCreateStreamRun = guards Threads ActCreateRun"
| "ROUTE_AUTHZ HCreateBackgroundRun = guards Threads ActCreateRun"
| "ROUTE_AUTHZ HCreateStatelessRun = guards Threads ActCreateRun"
| "ROUTE_AUTHZ HCreateRunBatch = guards Threads ActCreateRun"
| "ROUTE_AUTHZ HGetRun = guards Threads ActRead"
| "ROUTE_AUTHZ HListRunDeliveries = guards Threads ActRead"
| "ROUTE_AUTHZ HReplayRunDelivery = guards Threads ActUpdate"
| "ROUTE_AUTHZ HListThreadRuns = guards Threads ActRead"
| "ROUTE_AUTHZ HJoinRunStream = guards Threads ActRead"
| "ROUTE_AUTHZ HJoinRun = guards Threads ActRead"
| "ROUTE_AUTHZ HCancelRun = guards Threads ActUpdate"
| "ROUTE_AUTHZ HCancelManyRuns = guards Threads ActUpdate"
| "ROUTE_AUTHZ HDeleteRun = guards Threads ActDelete"
| "ROUTE_AUTHZ HCreateCron = cron_guard ActCreate (Some ActCreateRun)"
| "ROUTE_AUTHZ HGetCron = cron_guard ActRead None"
| "ROUTE_AUTHZ HSearchCrons = cron_guard ActSearch None"
| "ROUTE_AUTHZ HCountCrons = cron_guard ActSearch None"
| "ROUTE_AUTHZ HUpdateCron = cron_guard ActUpdate None"
| "ROUTE_AUTHZ HDeleteCron = cron_guard ActDelete None"
| "ROUTE_AUTHZ HPostThreadStream = guards Threads ActCreateRun"
| "ROUTE_AUTHZ HGetThreadStream = guards Threads ActRead"
| "ROUTE_AUTHZ HPostThreadCommands = guards Threads ActCreateRun"
| "ROUTE_AUTHZ HPostThreadEvents = guards Threads ActRead"
| "ROUTE_AUTHZ HGetServerInfo = guards Assistants ActRead"
| "ROUTE_AUTHZ HPutStoreItem = guards StoreItems ActPut"
| "ROUTE_AUTHZ HGetStoreItem = guards StoreItems ActGet"
| "ROUTE_AUTHZ HDeleteStoreItem = guards StoreItems ActDelete"
| "ROUTE_AUTHZ HSearchStoreItems = guards StoreItems ActSearch"
| "ROUTE_AUTHZ HListStoreNamespaces = guards StoreItems ActListNamespaces"

section \<open>Reading a store request's target\<close>

record authz_request = proto_request +
  ar_params :: "(string, string) jsmap"

definition js_prop :: "jsobj \<Rightarrow> string \<Rightarrow> jsval" where
  "js_prop obj key = or_default (jm_get obj key) JUndef"

fun text_of :: "jsval \<Rightarrow> string" where
  "text_of (JStr text) = text"
| "text_of _ = []"

text \<open>\<^verbatim>\<open>typeof body === "object" && body !== null ? body : {}\<close>, as its own properties.\<close>

definition body_object :: "jsval option \<Rightarrow> jsobj" where
  "body_object body = (case body of None \<Rightarrow> [] | Some v \<Rightarrow> js_entries v)"

fun split_on :: "char \<Rightarrow> string \<Rightarrow> string list" where
  "split_on sep [] = [[]]"
| "split_on sep (c # rest) =
     (if c = sep then [] # split_on sep rest
      else (case split_on sep rest of [] \<Rightarrow> [[c]] | part # parts \<Rightarrow> (c # part) # parts))"

definition string_array :: "jsval \<Rightarrow> string list option" where
  "string_array v =
     (case v of JArr xs \<Rightarrow> if list_all is_text xs then Some (map text_of xs) else None | _ \<Rightarrow> None)"

definition namespace_from_query :: "jsval \<Rightarrow> string list" where
  "namespace_from_query v =
     (case v of
        JArr xs \<Rightarrow> map text_of xs
      | JStr text \<Rightarrow> if length text > 0 then split_on CHR ''.'' text else []
      | _ \<Rightarrow> [])"

definition namespace_path :: "jsval \<Rightarrow> string list option" where
  "namespace_path v = (case v of JStr text \<Rightarrow> Some (namespace_from_query v) | _ \<Rightarrow> string_array v)"

text \<open>A query value: the first entry if repeated.\<close>

definition query_value :: "jsval \<Rightarrow> string option" where
  "query_value v =
     (case v of
        JStr text \<Rightarrow> Some text
      | JArr (x # _) \<Rightarrow> (if is_text x then Some (text_of x) else None)
      | _ \<Rightarrow> None)"

text \<open>The schema of the body fields, whose \<^verbatim>\<open>catch(undefined)\<close> drops a value of another shape.\<close>

definition parsed_namespace :: "jsval \<Rightarrow> jsval" where
  "parsed_namespace v = (if is_text v \<or> string_array v \<noteq> None then v else JUndef)"

definition parsed_key :: "jsval \<Rightarrow> jsval" where
  "parsed_key v = (if is_text v then v else JUndef)"

definition store_item_target :: "('a proto_request_scheme) \<Rightarrow> string list \<times> string" where
  "store_item_target req =
     (let body = body_object (pr_body req)
      in (or_default (namespace_path (parsed_namespace (js_prop body ''namespace'')))
            (namespace_from_query (js_prop (pr_query req) ''namespace'')),
          (case parsed_key (js_prop body ''key'') of
             JStr text \<Rightarrow> text
           | _ \<Rightarrow> or_default (query_value (js_prop (pr_query req) ''key'')) [])))"

definition bad_request :: thrown where
  "bad_request = Http \<lparr>he_status = 400, he_code = None\<rparr>"

definition require_store_item_target :: "('a proto_request_scheme) \<Rightarrow> thrown + string list \<times> string" where
  "require_store_item_target req =
     (let (namespace, key) = store_item_target req
      in if length namespace = 0 then Inl bad_request
         else if length key = 0 then Inl bad_request
         else Inr (namespace, key))"

text \<open>
  The namespace and key the five store handlers hand to the service. The schemas of the three body
  routes refuse a malformed field; what they check of other fields is not repeated here, so \<open>Inr\<close> is
  the target of a request that passes.
\<close>

definition schema_path :: "jsval \<Rightarrow> thrown + string list option" where
  "schema_path v =
     (if v = JUndef then Inr None
      else (case string_array v of Some path \<Rightarrow> Inr (Some path) | None \<Rightarrow> Inl bad_request))"

definition store_target_used ::
  "handler_name \<Rightarrow> ('a proto_request_scheme) \<Rightarrow> thrown + string list option \<times> string option" where
  "store_target_used handler req =
     (let body = body_object (pr_body req)
      in if handler = HPutStoreItem
         then (case (string_array (js_prop body ''namespace''), js_prop body ''key'') of
                 (Some path, JStr key) \<Rightarrow>
                   if length path \<ge> 1 \<and> length key \<ge> 1 then Inr (Some path, Some key) else Inl bad_request
               | _ \<Rightarrow> Inl bad_request)
         else if handler = HSearchStoreItems
         then (case schema_path (js_prop body ''namespace_prefix'') of Inl e \<Rightarrow> Inl e | Inr path \<Rightarrow> Inr (path, None))
         else if handler = HListStoreNamespaces
         then (case schema_path (js_prop body ''prefix'') of Inl e \<Rightarrow> Inl e | Inr path \<Rightarrow> Inr (path, None))
         else (case require_store_item_target req of
                 Inl e \<Rightarrow> Inl e
               | Inr (path, key) \<Rightarrow> Inr (Some path, Some key)))"

section \<open>The value an authorize handler sees\<close>

record store_namespace_target =
  sn_path :: "string list option"
  sn_key :: "string option option"

definition string_or_undefined :: "jsval \<Rightarrow> string option" where
  "string_or_undefined v = (if is_text v then Some (text_of v) else None)"

text \<open>\<open>sn_key = None\<close> when the target has no \<^verbatim>\<open>key\<close> property at all, \<open>Some None\<close> when it is \<^verbatim>\<open>undefined\<close>.\<close>

definition store_namespace ::
  "handler_name \<Rightarrow> ('a proto_request_scheme) \<Rightarrow> jsobj \<Rightarrow> store_namespace_target option" where
  "store_namespace handler req body =
     (if rz_resource (ROUTE_AUTHZ handler) \<noteq> StoreItems then None
      else Some
        (if handler = HPutStoreItem
         then \<lparr>sn_path = string_array (js_prop body ''namespace''),
               sn_key = Some (string_or_undefined (js_prop body ''key''))\<rparr>
         else if handler = HGetStoreItem \<or> handler = HDeleteStoreItem
         then \<lparr>sn_path = Some (fst (store_item_target req)), sn_key = Some (Some (snd (store_item_target req)))\<rparr>
         else if handler = HSearchStoreItems
         then \<lparr>sn_path = string_array (js_prop body ''namespace_prefix''), sn_key = None\<rparr>
         else if handler = HListStoreNamespaces
         then \<lparr>sn_path = string_array (js_prop body ''prefix''), sn_key = None\<rparr>
         else \<lparr>sn_path = None, sn_key = None\<rparr>))"

definition path_value :: "string list option \<Rightarrow> jsval" where
  "path_value path = (case path of None \<Rightarrow> JUndef | Some segments \<Rightarrow> JArr (map JStr segments))"

definition key_value :: "string option \<Rightarrow> jsval" where
  "key_value key = (case key of None \<Rightarrow> JUndef | Some text \<Rightarrow> JStr text)"

definition auth_value :: "authz_request \<Rightarrow> handler_name option \<Rightarrow> jsobj" where
  "auth_value req handler =
     (let body = body_object (pr_body req);
          merged = spread_over (spread_over (spread_over [] (pr_query req)) body)
                     (map (\<lambda>e. (fst e, JStr (snd e))) (ar_params req));
          target = (case handler of None \<Rightarrow> None | Some h \<Rightarrow> store_namespace h req body)
      in case target of
           None \<Rightarrow> merged
         | Some t \<Rightarrow>
             let named = jm_set ''namespace'' (path_value (sn_path t)) merged
             in (case sn_key t of
                   None \<Rightarrow> named
                 | Some key \<Rightarrow> jm_set ''key'' (key_value key) named))"

section \<open>Rewriting the target\<close>

text \<open>The body fields each store route reads its target from.\<close>

definition STORE_TARGET_FIELDS :: "handler_name \<Rightarrow> (string \<times> string option) option" where
  "STORE_TARGET_FIELDS handler =
     (if handler = HPutStoreItem \<or> handler = HGetStoreItem \<or> handler = HDeleteStoreItem
      then Some (''namespace'', Some ''key'')
      else if handler = HSearchStoreItems then Some (''namespace_prefix'', None)
      else if handler = HListStoreNamespaces then Some (''prefix'', None)
      else None)"

record target_rewrite =
  tg_namespace :: "string list option"
  tg_key :: "string option"

definition with_store_target :: "authz_request \<Rightarrow> handler_name \<Rightarrow> target_rewrite \<Rightarrow> authz_request" where
  "with_store_target req handler rewrite =
     (case STORE_TARGET_FIELDS handler of
        None \<Rightarrow> req
      | Some (namespace_field, key_field) \<Rightarrow>
          let body = body_object (pr_body req);
              named = (case tg_namespace rewrite of
                         None \<Rightarrow> body
                       | Some path \<Rightarrow> jm_set namespace_field (path_value (Some path)) body);
              keyed = (case (tg_key rewrite, key_field) of
                         (Some key, Some field) \<Rightarrow> jm_set field (JStr key) named
                       | _ \<Rightarrow> named)
          in req\<lparr>pr_body := Some (JObj keyed)\<rparr>)"

definition rewrite_invalid :: "string \<Rightarrow> thrown" where
  "rewrite_invalid code = Http \<lparr>he_status = 500, he_code = Some code\<rparr>"

definition rewritten_namespace_field :: "jsval \<Rightarrow> string list option \<Rightarrow> thrown + string list option" where
  "rewritten_namespace_field after before =
     (case string_array after of
        Some path \<Rightarrow> Inr (if before = Some path then None else Some path)
      | None \<Rightarrow>
          if after = JUndef \<and> before = None then Inr None
          else Inl (rewrite_invalid ''store_namespace_rewrite_invalid''))"

definition rewritten_key_field :: "jsval \<Rightarrow> jsval \<Rightarrow> bool \<Rightarrow> thrown + string option" where
  "rewritten_key_field after before addressable =
     (if after = before then Inr None
      else if \<not> addressable then Inl (rewrite_invalid ''store_key_rewrite_invalid'')
      else if is_text after then Inr (Some (text_of after))
      else Inl (rewrite_invalid ''store_key_rewrite_invalid''))"

text \<open>
  \<open>handed\<close> is the value as the handler left it, \<open>same\<close> whether the engine returned that very object,
  \<open>before\<close> the server's own reading.
\<close>

definition rewritten_store_target ::
  "handler_name \<Rightarrow> jsobj \<Rightarrow> bool \<Rightarrow> string list option \<times> jsval \<Rightarrow> thrown + target_rewrite option" where
  "rewritten_store_target handler handed same before =
     (if \<not> same then Inr None
      else (case rewritten_namespace_field (js_prop handed ''namespace'') (fst before) of
        Inl e \<Rightarrow> Inl e
      | Inr namespace \<Rightarrow>
          (case rewritten_key_field (js_prop handed ''key'') (snd before)
                  (case STORE_TARGET_FIELDS handler of Some (_, Some _) \<Rightarrow> True | _ \<Rightarrow> False) of
             Inl e \<Rightarrow> Inl e
           | Inr key \<Rightarrow>
               if namespace = None \<and> key = None then Inr None
               else Inr (Some \<lparr>tg_namespace = namespace, tg_key = key\<rparr>))))"

section \<open>Authenticating\<close>

definition lower_unit :: "char \<Rightarrow> char" where
  "lower_unit c = (let n = of_char c :: nat in if 65 \<le> n \<and> n \<le> 90 then char_of (n + 32) else c)"

definition FRAMING_HEADERS :: "string list" where
  "FRAMING_HEADERS = [''content-length'', ''transfer-encoding'', ''connection'']"

text \<open>The request an authenticate handler gets; \<^verbatim>\<open>Headers\<close> keeps names in lower case.\<close>

record synthesized =
  sy_url :: string
  sy_method :: string
  sy_headers :: "(string, string) jsmap"
  sy_body :: "jsval option"

fun synthesize_headers :: "(string, string) jsmap \<Rightarrow> (string, string) jsmap \<Rightarrow> (string, string) jsmap" where
  "synthesize_headers acc [] = acc"
| "synthesize_headers acc ((name, value) # rest) =
     synthesize_headers
       (if map lower_unit name \<in> set FRAMING_HEADERS then acc else jm_set (map lower_unit name) value acc) rest"

definition synthesize_request :: "authz_request \<Rightarrow> synthesized" where
  "synthesize_request req =
     \<lparr>sy_url = pr_url req, sy_method = upper_method (proto_request.truncate req), sy_headers = synthesize_headers [] (pr_headers req),
      sy_body = (if upper_method (proto_request.truncate req) \<noteq> ''GET'' \<and> upper_method (proto_request.truncate req) \<noteq> ''HEAD'' then pr_body req else None)\<rparr>"

record auth_context =
  ax_user :: jsval
  ax_scopes :: "string list"

definition STUDIO_USER :: jsval where
  "STUDIO_USER = JObj [(''identity'', JStr ''langgraph-studio-user''),
     (''display_name'', JStr ''langgraph-studio-user''), (''is_authenticated'', JBool True),
     (''permissions'', JArr [])]"

text \<open>An authorize handler's answer: its filters, and the value it returned and left behind.\<close>

record authz_reply =
  rp_filters :: "auth_filters option"
  rp_value :: jsobj
  rp_same :: bool

record auth_gate =
  ag_studio_auth_disabled :: bool
  ag_authenticate :: "synthesized \<Rightarrow> thrown + auth_context option"
  ag_authorize :: "auth_resource \<Rightarrow> auth_action \<Rightarrow> jsobj \<Rightarrow> auth_context option \<Rightarrow> thrown + authz_reply"

definition resolve_native_auth_context :: "auth_gate \<Rightarrow> synthesized \<Rightarrow> thrown + auth_context option" where
  "resolve_native_auth_context gate request =
     (if \<not> ag_studio_auth_disabled gate \<and> jm_get (sy_headers request) ''x-auth-scheme'' = Some ''langsmith''
      then Inr (Some \<lparr>ax_user = STUDIO_USER, ax_scopes = []\<rparr>)
      else ag_authenticate gate request)"

definition resolve_auth_context :: "auth_gate \<Rightarrow> authz_request \<Rightarrow> thrown + auth_context option" where
  "resolve_auth_context gate req = resolve_native_auth_context gate (synthesize_request req)"

definition is_protocol_auth_exempt :: "handler_name \<Rightarrow> bool" where
  "is_protocol_auth_exempt handler \<longleftrightarrow> handler = HGetServerInfo \<or> handler = HHandleInboundEvent"

section \<open>Dispatching\<close>

definition is_thread_command_envelope :: "jsval option \<Rightarrow> bool" where
  "is_thread_command_envelope body \<longleftrightarrow>
     jm_has (body_object body) ''method'' \<or> jm_has (body_object body) ''id''"

fun is_js_object :: "jsval \<Rightarrow> bool" where
  "is_js_object (JArr _) = True"
| "is_js_object (JObj _) = True"
| "is_js_object (JMessage _ _) = True"
| "is_js_object _ = False"

definition starts_with :: "string \<Rightarrow> string \<Rightarrow> bool" where
  "starts_with text front \<longleftrightarrow> take (length front) text = front"

text \<open>The method of a thread command, and the action it is authorized as.\<close>

definition command_method :: "handler_name \<Rightarrow> authz_request \<Rightarrow> jsval" where
  "command_method handler req =
     (if handler = HPostThreadCommands \<and> is_thread_command_envelope (pr_body req)
      then js_prop (body_object (pr_body req)) ''method'' else JUndef)"

definition route_action :: "handler_name \<Rightarrow> authz_request \<Rightarrow> auth_action" where
  "route_action handler req =
     (case command_method handler req of
        JStr cmd \<Rightarrow>
          if cmd = ''state.fork'' then ActUpdate
          else if starts_with cmd ''state.'' \<or> cmd = ''agent.getTree'' \<or> starts_with cmd ''subscription.''
          then ActRead
          else rz_action (ROUTE_AUTHZ handler)
      | _ \<Rightarrow> rz_action (ROUTE_AUTHZ handler))"

definition authorized_value :: "handler_name \<Rightarrow> authz_request \<Rightarrow> jsobj" where
  "authorized_value handler req =
     (let params = (if handler = HPostThreadCommands \<and> is_thread_command_envelope (pr_body req)
                    then js_prop (body_object (pr_body req)) ''params'' else JUndef)
      in auth_value (if is_js_object params then req\<lparr>pr_body := Some params\<rparr> else req) (Some handler))"

text \<open>The three further permissions a fork needs; each may bring filters of its own.\<close>

fun fork_permissions ::
  "auth_gate \<Rightarrow> jsobj \<Rightarrow> auth_context option \<Rightarrow> auth_action list \<Rightarrow> thrown + auth_filters list" where
  "fork_permissions gate v ctx [] = Inr []"
| "fork_permissions gate v ctx (action # rest) =
     (case ag_authorize gate Threads action v ctx of
        Inl e \<Rightarrow> Inl e
      | Inr permission \<Rightarrow>
          (case fork_permissions gate (rp_value permission) ctx rest of
             Inl e \<Rightarrow> Inl e
           | Inr filters \<Rightarrow>
               Inr ((case rp_filters permission of None \<Rightarrow> [] | Some fs \<Rightarrow> [fs]) @ filters)))"

text \<open>
  How a request ends up: served without authentication, refused, or handed to the handler with the
  caller's context and the scopes its store is wrapped in, the first one innermost.
\<close>

datatype dispatched =
    ServedOpen
  | Refused thrown
  | Dispatched "(auth_filters \<times> auth_resource) list" "auth_context option" authz_request

definition scoped_request_of ::
  "handler_name \<Rightarrow> authz_request \<Rightarrow> jsobj \<Rightarrow> authz_reply \<Rightarrow> thrown + authz_request" where
  "scoped_request_of handler req v primary =
     (if rz_resource (ROUTE_AUTHZ handler) \<noteq> StoreItems then Inr req
      else (case rewritten_store_target handler (rp_value primary) (rp_same primary)
                   (string_array (js_prop v ''namespace''), js_prop v ''key'') of
        Inl e \<Rightarrow> Inl e
      | Inr None \<Rightarrow> Inr req
      | Inr (Some rewrite) \<Rightarrow> Inr (with_store_target req handler rewrite)))"

definition fallback_filters ::
  "auth_gate \<Rightarrow> handler_name \<Rightarrow> authz_reply \<Rightarrow> auth_context option \<Rightarrow> thrown + jsobj \<times> auth_filters option" where
  "fallback_filters gate handler primary ctx =
     (let route = ROUTE_AUTHZ handler in
      case (rp_filters primary, rz_fallback_resource route) of
        (None, Some resource) \<Rightarrow>
          (case ag_authorize gate resource (or_default (rz_fallback_action route) (rz_action route))
                  (rp_value primary) ctx of
             Inl e \<Rightarrow> Inl e
           | Inr reply \<Rightarrow> Inr (rp_value reply, rp_filters reply))
      | (filters, _) \<Rightarrow> Inr (rp_value primary, filters))"

definition authorize_dispatch :: "auth_gate \<Rightarrow> handler_name \<Rightarrow> authz_request \<Rightarrow> dispatched" where
  "authorize_dispatch gate handler req =
     (if is_protocol_auth_exempt handler then ServedOpen
      else (case resolve_auth_context gate req of
        Inl e \<Rightarrow> Refused e
      | Inr ctx \<Rightarrow>
          let v = authorized_value handler req;
              route = ROUTE_AUTHZ handler
          in (case ag_authorize gate (rz_resource route) (route_action handler req) v ctx of
            Inl e \<Rightarrow> Refused e
          | Inr primary \<Rightarrow>
              (case scoped_request_of handler req v primary of
                Inl e \<Rightarrow> Refused e
              | Inr scoped \<Rightarrow>
                  (case fallback_filters gate handler primary ctx of
                    Inl e \<Rightarrow> Refused e
                  | Inr (v', filters) \<Rightarrow>
                      (case (if command_method handler req = JStr ''state.fork''
                             then fork_permissions gate v' ctx [ActRead, ActCreate, ActCreateRun]
                             else Inr []) of
                         Inl e \<Rightarrow> Refused e
                       | Inr forks \<Rightarrow>
                           Dispatched
                             ((case filters of None \<Rightarrow> [] | Some fs \<Rightarrow> [(fs, rz_resource route)]) @
                              map (\<lambda>fs. (fs, Threads)) forks)
                             ctx scoped))))))"

section \<open>The server's reading of a store target\<close>

lemma string_array_path [simp]: "string_array (JArr (map JStr path)) = Some path"
  by (simp add: string_array_def list_all_iff comp_def)

lemma is_text_JStr: "is_text v \<longleftrightarrow> (\<exists>text. v = JStr text)"
  by (cases v) auto

lemma texts_back: "list_all is_text xs \<Longrightarrow> map JStr (map text_of xs) = xs"
  by (induction xs) (auto simp: is_text_JStr)

lemma string_array_JArr: "string_array v = Some path \<Longrightarrow> v = JArr (map JStr path)"
  by (cases v) (auto simp: string_array_def texts_back simp del: map_map split: if_splits)

lemma js_prop_set: "js_prop (jm_set k v m) k' = (if k' = k then v else js_prop m k')"
  by (simp add: js_prop_def jm_simps)

lemma is_store_route:
  "rz_resource (ROUTE_AUTHZ h) = StoreItems \<longleftrightarrow>
     h \<in> {HPutStoreItem, HGetStoreItem, HDeleteStoreItem, HSearchStoreItems, HListStoreNamespaces}"
  by (cases h) (simp_all add: guards_def cron_guard_def)

text \<open>The target a value names.\<close>

definition named_namespace :: "jsobj \<Rightarrow> string list option" where
  "named_namespace v = string_array (js_prop v ''namespace'')"

definition named_key :: "jsobj \<Rightarrow> string option" where
  "named_key v = string_or_undefined (js_prop v ''key'')"

lemma path_value_back [simp]: "string_array (path_value path) = path"
  by (cases path) (simp_all add: path_value_def string_array_def list_all_iff comp_def)

lemma key_value_back [simp]: "string_or_undefined (key_value key) = key"
  by (cases key) (simp_all add: key_value_def string_or_undefined_def)

lemmas store_reading_defs =
  auth_value_def store_namespace_def js_prop_set named_namespace_def named_key_def Let_def guards_def

lemma auth_value_reading:
  "named_namespace (auth_value req (Some HPutStoreItem)) = string_array (js_prop (body_object (pr_body req)) ''namespace'')"
  "named_key (auth_value req (Some HPutStoreItem)) = string_or_undefined (js_prop (body_object (pr_body req)) ''key'')"
  "named_namespace (auth_value req (Some HGetStoreItem)) = Some (fst (store_item_target req))"
  "named_key (auth_value req (Some HGetStoreItem)) = Some (snd (store_item_target req))"
  "named_namespace (auth_value req (Some HDeleteStoreItem)) = Some (fst (store_item_target req))"
  "named_key (auth_value req (Some HDeleteStoreItem)) = Some (snd (store_item_target req))"
  "named_namespace (auth_value req (Some HSearchStoreItems)) =
     string_array (js_prop (body_object (pr_body req)) ''namespace_prefix'')"
  "named_namespace (auth_value req (Some HListStoreNamespaces)) =
     string_array (js_prop (body_object (pr_body req)) ''prefix'')"
  by (simp_all add: store_reading_defs)

text \<open>Whatever the endpoint uses is what the authorize handler was shown for the same request.\<close>

definition addresses_item :: "handler_name \<Rightarrow> bool" where
  "addresses_item h \<longleftrightarrow> h = HPutStoreItem \<or> h = HGetStoreItem \<or> h = HDeleteStoreItem"

lemma require_target: "require_store_item_target req = Inr (path, key) \<Longrightarrow> path = fst (store_item_target req) \<and> key = snd (store_item_target req)"
  by (auto simp: require_store_item_target_def Let_def split: prod.splits if_splits)

lemma used_is_shown:
  assumes "rz_resource (ROUTE_AUTHZ h) = StoreItems" "store_target_used h req = Inr (path, key)"
  shows "path = named_namespace (auth_value req (Some h))"
    and "key = (if addresses_item h then named_key (auth_value req (Some h)) else None)"
proof -
  have "path = named_namespace (auth_value req (Some h)) \<and>
      key = (if addresses_item h then named_key (auth_value req (Some h)) else None)"
    using assms unfolding is_store_route
    by (auto simp: auth_value_reading store_target_used_def addresses_item_def Let_def schema_path_def string_or_undefined_def string_array_def
        split: if_splits option.splits jsval.splits sum.splits dest!: require_target)
  then show "path = named_namespace (auth_value req (Some h))"
    "key = (if addresses_item h then named_key (auth_value req (Some h)) else None)" by simp_all
qed

text \<open>After a rewrite the server reads the rewritten fields, and the others as before.\<close>

lemma body_object_JObj [simp]: "body_object (Some (JObj ps)) = ps"
  by (simp add: body_object_def)

lemma rewritten_body:
  assumes "STORE_TARGET_FIELDS h = Some (nf, kf)" "\<And>field. kf = Some field \<Longrightarrow> field \<noteq> nf"
  shows "js_prop (body_object (pr_body (with_store_target req h rw))) nf =
           (case tg_namespace rw of Some path \<Rightarrow> path_value (Some path) | None \<Rightarrow> js_prop (body_object (pr_body req)) nf)"
    and "kf = Some field \<Longrightarrow> js_prop (body_object (pr_body (with_store_target req h rw))) field =
           (case tg_key rw of Some key \<Rightarrow> JStr key | None \<Rightarrow> js_prop (body_object (pr_body req)) field)"
    and "pr_query (with_store_target req h rw) = pr_query req"
  using assms
  by (auto simp: with_store_target_def Let_def js_prop_set split: option.split)

lemma item_target_reading:
  assumes "js_prop (body_object (pr_body req')) ''namespace'' =
      (case ns of Some path \<Rightarrow> path_value (Some path) | None \<Rightarrow> js_prop (body_object (pr_body req)) ''namespace'')"
    and "js_prop (body_object (pr_body req')) ''key'' =
      (case key of Some k \<Rightarrow> JStr k | None \<Rightarrow> js_prop (body_object (pr_body req)) ''key'')"
    and "pr_query req' = pr_query req"
  shows "store_item_target req' =
    (case ns of Some path \<Rightarrow> path | None \<Rightarrow> fst (store_item_target req),
     case key of Some k \<Rightarrow> k | None \<Rightarrow> snd (store_item_target req))"
proof -
  have "namespace_path (parsed_namespace (path_value (Some path))) = Some path" for path
    by (simp add: path_value_def parsed_namespace_def namespace_path_def)
  with assms show ?thesis
    by (cases ns; cases key)
       (simp_all add: store_item_target_def Let_def parsed_key_def cong: jsval.case_cong)
qed

lemma rewritten_reading:
  assumes "rz_resource (ROUTE_AUTHZ h) = StoreItems"
  shows "named_namespace (auth_value (with_store_target req h rw) (Some h)) =
           (case tg_namespace rw of Some path \<Rightarrow> Some path | None \<Rightarrow> named_namespace (auth_value req (Some h)))"
    and "addresses_item h \<Longrightarrow> named_key (auth_value (with_store_target req h rw) (Some h)) =
           (case tg_key rw of Some key \<Rightarrow> Some key | None \<Rightarrow> named_key (auth_value req (Some h)))"
proof -
  have item: "store_item_target (with_store_target req h' rw) =
      (case tg_namespace rw of Some path \<Rightarrow> path | None \<Rightarrow> fst (store_item_target req),
       case tg_key rw of Some k \<Rightarrow> k | None \<Rightarrow> snd (store_item_target req))"
    if "h' = HGetStoreItem \<or> h' = HDeleteStoreItem" for h'
  proof -
    have fields: "STORE_TARGET_FIELDS h' = Some (''namespace'', Some ''key'')"
      using that by (auto simp: STORE_TARGET_FIELDS_def)
    have apart: "\<And>field. Some ''key'' = Some field \<Longrightarrow> field \<noteq> ''namespace''" by auto
    show ?thesis
      by (rule item_target_reading [OF rewritten_body(1) [OF fields apart] rewritten_body(2) [OF fields apart refl]
            rewritten_body(3) [OF fields apart]])
  qed
  have body:
    "js_prop (body_object (pr_body (with_store_target req HPutStoreItem rw))) ''namespace'' =
       (case tg_namespace rw of Some path \<Rightarrow> path_value (Some path) | None \<Rightarrow> js_prop (body_object (pr_body req)) ''namespace'')"
    "js_prop (body_object (pr_body (with_store_target req HPutStoreItem rw))) ''key'' =
       (case tg_key rw of Some k \<Rightarrow> JStr k | None \<Rightarrow> js_prop (body_object (pr_body req)) ''key'')"
    "js_prop (body_object (pr_body (with_store_target req HSearchStoreItems rw))) ''namespace_prefix'' =
       (case tg_namespace rw of Some path \<Rightarrow> path_value (Some path)
        | None \<Rightarrow> js_prop (body_object (pr_body req)) ''namespace_prefix'')"
    "js_prop (body_object (pr_body (with_store_target req HListStoreNamespaces rw))) ''prefix'' =
       (case tg_namespace rw of Some path \<Rightarrow> path_value (Some path) | None \<Rightarrow> js_prop (body_object (pr_body req)) ''prefix'')"
    by (auto simp: with_store_target_def Let_def js_prop_set STORE_TARGET_FIELDS_def split: option.split)
  show "named_namespace (auth_value (with_store_target req h rw) (Some h)) =
      (case tg_namespace rw of Some path \<Rightarrow> Some path | None \<Rightarrow> named_namespace (auth_value req (Some h)))"
    using assms unfolding is_store_route
    by (auto simp: auth_value_reading item body split: option.split)
  show "named_key (auth_value (with_store_target req h rw) (Some h)) =
      (case tg_key rw of Some key \<Rightarrow> Some key | None \<Rightarrow> named_key (auth_value req (Some h)))"
    if "addresses_item h"
    using that
    by (auto simp: addresses_item_def auth_value_reading item body string_or_undefined_def split: option.split)
qed

section \<open>An authorize handler scopes what the endpoint addresses\<close>

text \<open>What the authorize handler left in the value it was handed, if the engine gives it back.\<close>

definition final_value :: "jsobj \<Rightarrow> authz_reply \<Rightarrow> jsobj" where
  "final_value v reply = (if rp_same reply then rp_value reply else v)"

lemma no_namespace_rewrite: "rewritten_namespace_field after before = Inr None \<Longrightarrow> string_array after = before"
  by (auto simp: rewritten_namespace_field_def string_array_def split: option.splits if_splits)

lemma namespace_rewrite: "rewritten_namespace_field after before = Inr (Some path) \<Longrightarrow> string_array after = Some path"
  by (auto simp: rewritten_namespace_field_def split: option.splits if_splits)

lemma key_rewrite:
  "rewritten_key_field after before b = Inr None \<Longrightarrow> after = before"
  "rewritten_key_field after before b = Inr (Some key) \<Longrightarrow> after = JStr key"
  by (auto simp: rewritten_key_field_def is_text_JStr split: if_splits)

text \<open>
  C21. On a store route, a request that reaches its endpoint addresses the namespace, and the item the key,
  that the authorize handler's value named when the handler was done with it. No field of the request
  can make the endpoint address another one: neither a decoy \<^verbatim>\<open>namespace\<close> beside the field the endpoint
  reads, nor a target split between body and query.
\<close>

theorem store_target_authorized:
  assumes store: "rz_resource (ROUTE_AUTHZ h) = StoreItems"
    and dispatched: "authorize_dispatch gate h req = Dispatched scopes ctx req'"
    and asked: "ag_authorize gate StoreItems (route_action h req) (auth_value req (Some h)) ctx = Inr reply"
    and used: "store_target_used h req' = Inr (path, key)"
  shows "path = named_namespace (final_value (auth_value req (Some h)) reply) \<and>
         key = (if addresses_item h then named_key (final_value (auth_value req (Some h)) reply) else None)"
proof -
  let ?v = "auth_value req (Some h)"
  have v: "authorized_value h req = ?v"
    using store unfolding is_store_route by (auto simp: authorized_value_def)
  have scoped: "scoped_request_of h req ?v reply = Inr req'"
    using dispatched asked store
    by (auto simp: authorize_dispatch_def Let_def v split: if_splits sum.splits prod.splits)
  have shown: "path = named_namespace (auth_value req' (Some h))"
    "key = (if addresses_item h then named_key (auth_value req' (Some h)) else None)"
    by (rule used_is_shown [OF store used])+
  show ?thesis
  proof (cases "rewritten_store_target h (rp_value reply) (rp_same reply)
      (string_array (js_prop ?v ''namespace''), js_prop ?v ''key'')")
    case (Inr found)
    show ?thesis
    proof (cases found)
      case None
      with Inr scoped store have "req' = req" by (simp add: scoped_request_of_def)
      moreover have "rp_same reply \<Longrightarrow> string_array (js_prop (rp_value reply) ''namespace'') = named_namespace ?v \<and>
          js_prop (rp_value reply) ''key'' = js_prop ?v ''key''"
        using Inr None
        by (auto simp: rewritten_store_target_def named_namespace_def
            dest: no_namespace_rewrite key_rewrite split: sum.splits if_splits)
      ultimately show ?thesis
        using shown by (auto simp: final_value_def named_namespace_def named_key_def)
    next
      case (Some rw)
      with Inr scoped store have req': "req' = with_store_target req h rw" by (simp add: scoped_request_of_def)
      obtain ns k where fields: "rp_same reply" "rw = \<lparr>tg_namespace = ns, tg_key = k\<rparr>"
        "rewritten_namespace_field (js_prop (rp_value reply) ''namespace'') (named_namespace ?v) = Inr ns"
        "rewritten_key_field (js_prop (rp_value reply) ''key'') (js_prop ?v ''key'')
           (case STORE_TARGET_FIELDS h of Some (_, Some _) \<Rightarrow> True | _ \<Rightarrow> False) = Inr k"
        using Inr Some
        by (auto simp: rewritten_store_target_def named_namespace_def split: sum.splits if_splits)
      have "path = (case ns of Some p \<Rightarrow> Some p | None \<Rightarrow> named_namespace ?v)"
        "addresses_item h \<Longrightarrow> key = (case k of Some x \<Rightarrow> Some x | None \<Rightarrow> named_key ?v)"
        "\<not> addresses_item h \<Longrightarrow> key = None"
        using shown rewritten_reading [OF store, of req rw] fields(2) by (simp_all add: req')
      then show ?thesis
        using fields
        by (cases ns; cases k)
           (auto simp: final_value_def named_namespace_def named_key_def string_or_undefined_def
             dest: no_namespace_rewrite namespace_rewrite key_rewrite)
    qed
  qed (use scoped store in \<open>simp add: scoped_request_of_def\<close>)
qed

lemma params_get:
  "map_of xs k = Some p \<Longrightarrow> map_of (map (\<lambda>e. (fst e, JStr (snd e))) xs) k = Some (JStr p)"
  by (induction xs) (auto split: if_splits)


section \<open>A deployment that scopes its store\<close>

definition scoping_gate :: auth_gate where
  "scoping_gate = \<lparr>ag_studio_auth_disabled = True,
     ag_authenticate = (\<lambda>_. Inr (Some \<lparr>ax_user = JObj [(''identity'', JStr ''alice'')], ax_scopes = []\<rparr>)),
     ag_authorize = (\<lambda>_ _ v _. Inr \<lparr>rp_filters = None,
        rp_value = jm_set ''namespace'' (path_value (Some [''alice''])) v, rp_same = True\<rparr>)\<rparr>"

definition decoy_search :: authz_request where
  "decoy_search = \<lparr>pr_method = ''POST'', pr_url = ''http://h/store/items/search'', pr_query = [],
     pr_body = Some (JObj [(''namespace_prefix'', JArr [JStr ''bob'']), (''namespace'', JArr [JStr ''alice''])]),
     pr_headers = [], ar_params = []\<rparr>"

definition redirected_search :: authz_request where
  "redirected_search = decoy_search\<lparr>pr_body :=
     Some (JObj [(''namespace_prefix'', JArr [JStr ''alice'']), (''namespace'', JArr [JStr ''alice''])])\<rparr>"

definition alice_context :: "auth_context option" where
  "alice_context = Some \<lparr>ax_user = JObj [(''identity'', JStr ''alice'')], ax_scopes = []\<rparr>"

lemma decoy_value:
  "auth_value decoy_search (Some HSearchStoreItems) =
     [(''namespace_prefix'', JArr [JStr ''bob'']), (''namespace'', JArr [JStr ''bob''])]"
  by (simp add: auth_value_def decoy_search_def store_namespace_def Let_def guards_def js_prop_def
      string_array_def path_value_def)

abbreviation scoping_reply :: authz_reply where
  "scoping_reply \<equiv> \<lparr>rp_filters = None,
     rp_value = jm_set ''namespace'' (path_value (Some [''alice''])) (auth_value decoy_search (Some HSearchStoreItems)),
     rp_same = True\<rparr>"

lemma decoy_scoped:
  "scoped_request_of HSearchStoreItems decoy_search (auth_value decoy_search (Some HSearchStoreItems)) scoping_reply =
     Inr redirected_search"
  by (simp add: decoy_value scoped_request_of_def rewritten_store_target_def rewritten_namespace_field_def
      rewritten_key_field_def guards_def js_prop_def string_array_def path_value_def STORE_TARGET_FIELDS_def
      with_store_target_def Let_def redirected_search_def)
     (simp add: decoy_search_def)

lemma decoy_dispatched:
  "authorize_dispatch scoping_gate HSearchStoreItems decoy_search = Dispatched [] alice_context redirected_search"
proof -
  have v: "authorized_value HSearchStoreItems decoy_search = auth_value decoy_search (Some HSearchStoreItems)"
    by (simp add: authorized_value_def)
  have ctx: "resolve_auth_context scoping_gate decoy_search = Inr alice_context"
    by (simp add: resolve_auth_context_def resolve_native_auth_context_def scoping_gate_def alice_context_def)
  have reply: "ag_authorize scoping_gate r a (auth_value decoy_search (Some HSearchStoreItems)) c = Inr scoping_reply" for r a c
    by (simp add: scoping_gate_def)
  have fallback: "fallback_filters scoping_gate HSearchStoreItems scoping_reply c = Inr (rp_value scoping_reply, None)" for c
    by (simp add: fallback_filters_def guards_def)
  show ?thesis
    by (simp add: authorize_dispatch_def is_protocol_auth_exempt_def v ctx reply decoy_scoped fallback
        command_method_def Let_def)
qed

lemma store_target_authorized_witness:
  "store_target_used HSearchStoreItems redirected_search = Inr (Some [''alice''], None) \<and>
   Some [''alice''] = named_namespace (final_value (auth_value decoy_search (Some HSearchStoreItems))
     \<lparr>rp_filters = None,
      rp_value = jm_set ''namespace'' (path_value (Some [''alice''])) (auth_value decoy_search (Some HSearchStoreItems)),
      rp_same = True\<rparr>)"
proof -
  have used: "store_target_used HSearchStoreItems redirected_search = Inr (Some [''alice''], None)"
    by (simp add: store_target_used_def redirected_search_def decoy_search_def schema_path_def js_prop_def
        string_array_def Let_def)
  have "rz_resource (ROUTE_AUTHZ HSearchStoreItems) = StoreItems" by (simp add: guards_def)
  from store_target_authorized [OF this decoy_dispatched _ used] show ?thesis
    using used by (simp add: scoping_gate_def)
qed


end
