(* ===== verification/RunCallOptions.thy ===== *)
theory RunCallOptions
  imports RunInputs
begin

text \<open>
  \<^verbatim>\<open>runs/run-input.ts\<close>: what an agent graph is called with, from the kwargs stored with a run. The
  client's \<^verbatim>\<open>config.configurable\<close> passes through a filter; the thread, the checkpoint to fork from and
  the authenticated caller are written over it. The abort signal is the run's and is not repeated in
  the options.
\<close>

section \<open>Stream modes\<close>

definition to_graph_mode :: "string \<Rightarrow> string" where
  "to_graph_mode mode = (if mode = ''messages-tuple'' then ''messages'' else mode)"

text \<open>A request names one mode or a list of them; its schema admits no other value.\<close>

definition requested_modes :: "jsval option \<Rightarrow> string list" where
  "requested_modes mode =
     (case mode of
        Some (JStr m) \<Rightarrow> [m]
      | Some v \<Rightarrow> js_strings v
      | None \<Rightarrow> [])"

definition normalize_modes :: "jsval option \<Rightarrow> string list" where
  "normalize_modes mode =
     (let deduped = js_unique (map to_graph_mode (requested_modes mode))
      in if 0 < length deduped then deduped else [''values''])"

definition wants_events_mode :: "jsval option \<Rightarrow> bool" where
  "wants_events_mode mode \<longleftrightarrow> ''events'' \<in> set (normalize_modes mode)"

definition to_graph_stream_modes :: "jsval option \<Rightarrow> string list" where
  "to_graph_stream_modes mode = filter (\<lambda>m. m \<noteq> ''events'') (normalize_modes mode)"

section \<open>The configurable\<close>

text \<open>A property that is stored and not \<^verbatim>\<open>undefined\<close>.\<close>

definition kw_field :: "run_kwargs \<Rightarrow> string \<Rightarrow> jsval option" where
  "kw_field kwargs name =
     (case jm_get (kw_rest kwargs) name of Some JUndef \<Rightarrow> None | found \<Rightarrow> found)"

definition RESERVED_CONFIGURABLE_KEYS :: "string list" where
  "RESERVED_CONFIGURABLE_KEYS =
     [''thread_id'', ''run_id'', ''checkpoint_id'', ''checkpoint_ns'', ''checkpoint_map'', ''checkpoint'',
      ''langgraph_auth_user'', ''langgraph_auth_user_id'', ''langgraph_auth_permissions'']"

definition reserved_key :: "string \<Rightarrow> bool" where
  "reserved_key key \<longleftrightarrow> key \<in> set RESERVED_CONFIGURABLE_KEYS \<or> take 2 key = ''__''"

fun sanitize_loop :: "jsobj \<Rightarrow> jsobj \<Rightarrow> jsobj" where
  "sanitize_loop clean [] = clean"
| "sanitize_loop clean ((key, v) # rest) =
     sanitize_loop (if reserved_key key then clean else jm_set key v clean) rest"

definition sanitize_configurable :: "jsval \<Rightarrow> jsobj" where
  "sanitize_configurable configurable =
     (if \<not> js_truthy configurable then [] else sanitize_loop [] (js_entries configurable))"

definition with_auth_user :: "jsobj \<Rightarrow> jsval option \<Rightarrow> jsval option \<Rightarrow> jsobj" where
  "with_auth_user configurable auth_user scopes =
     (case auth_user of
        None \<Rightarrow> configurable
      | Some user \<Rightarrow>
          if \<not> js_truthy user then configurable
          else jm_set ''langgraph_auth_permissions''
                 (case scopes of
                    Some JNull \<Rightarrow> js_field user ''permissions''
                  | Some s \<Rightarrow> s
                  | None \<Rightarrow> js_field user ''permissions'')
                 (jm_set ''langgraph_auth_user_id'' (js_field user ''identity'')
                   (jm_set ''langgraph_auth_user'' user configurable)))"

definition client_configurable :: "run_kwargs \<Rightarrow> jsval" where
  "client_configurable kwargs = js_field (or_default (kw_field kwargs ''config'') JUndef) ''configurable''"

definition to_factory_configurable :: "run_kwargs \<Rightarrow> jsobj option" where
  "to_factory_configurable kwargs =
     (let configurable = with_auth_user (sanitize_configurable (client_configurable kwargs))
            (kw_field kwargs ''auth_user'') (kw_field kwargs ''auth_scopes'')
      in if 0 < length configurable then Some configurable else None)"

text \<open>\<^verbatim>\<open>toGraphInput\<close>: a command is carried in an envelope, whose constructor \<^verbatim>\<open>agentCommand\<close> is the argument.\<close>

definition to_graph_input :: "(jsval \<Rightarrow> jsval) \<Rightarrow> run_kwargs \<Rightarrow> jsval" where
  "to_graph_input agent_command kwargs =
     (let command = or_default (kw_field kwargs ''command'') JUndef
      in if js_truthy command then agent_command command
         else or_default (kw_field kwargs ''input'') JNull)"

section \<open>The call options\<close>

record call_options =
  go_configurable :: jsobj
  go_stream_mode :: "string list"
  go_subgraphs :: bool
  go_durability :: "jsval option"
  go_context :: "jsval option"
  go_recursion_limit :: "jsnum option"
  go_interrupt_before :: "jsval option"
  go_interrupt_after :: "jsval option"

definition present :: "jsval \<Rightarrow> bool" where
  "present v \<longleftrightarrow> v \<noteq> JUndef \<and> v \<noteq> JNull"

definition set_present :: "string \<Rightarrow> jsval \<Rightarrow> jsobj \<Rightarrow> jsobj" where
  "set_present key v ps = (if present v then jm_set key v ps else ps)"

definition call_configurable :: "run_kwargs \<Rightarrow> ident \<Rightarrow> jsobj" where
  "call_configurable kwargs thread_id =
     (let checkpoint = or_default (kw_field kwargs ''checkpoint'') JUndef;
          targeted =
            jm_set ''thread_id'' (JStr thread_id)
              (set_present ''checkpoint_map'' (js_field checkpoint ''checkpoint_map'')
                (set_present ''checkpoint_ns'' (js_field checkpoint ''checkpoint_ns'')
                  (sanitize_configurable (client_configurable kwargs))));
          forked = (case kw_field kwargs ''checkpoint_id'' of
                      None \<Rightarrow> targeted
                    | Some c \<Rightarrow> jm_set ''checkpoint_id'' c targeted)
      in with_auth_user forked (kw_field kwargs ''auth_user'') (kw_field kwargs ''auth_scopes''))"

definition to_graph_call_options :: "run_kwargs \<Rightarrow> ident \<Rightarrow> call_options" where
  "to_graph_call_options kwargs thread_id =
     \<lparr>go_configurable = call_configurable kwargs thread_id,
      go_stream_mode = to_graph_stream_modes (kw_field kwargs ''stream_mode''),
      go_subgraphs = (kw_field kwargs ''stream_subgraphs'' = Some (JBool True)),
      go_durability = kw_field kwargs ''durability'',
      go_context = kw_field kwargs ''context'',
      go_recursion_limit =
        (case js_field (or_default (kw_field kwargs ''config'') JUndef) ''recursion_limit'' of
           JNum n \<Rightarrow> Some n
         | _ \<Rightarrow> None),
      go_interrupt_before = kw_field kwargs ''interrupt_before'',
      go_interrupt_after = kw_field kwargs ''interrupt_after''\<rparr>"

section \<open>What a client can make of the configurable\<close>

lemma sanitize_loop_get:
  assumes "jm_wf ps"
  shows "map_of (sanitize_loop clean ps) key =
           (if reserved_key key then map_of clean key
            else case map_of ps key of Some v \<Rightarrow> Some v | None \<Rightarrow> map_of clean key)"
  using assms
proof (induction clean ps rule: sanitize_loop.induct)
  case (2 clean k v rest)
  then have "map_of rest k = None" by (simp add: map_of_eq_None_iff)
  with 2 show ?case by (auto simp: jm_simps split: option.split)
qed simp

lemma sanitize_get:
  assumes "jm_wf (js_entries configurable)"
  shows "map_of (sanitize_configurable configurable) key =
           (if reserved_key key then None else map_of (js_entries configurable) key)"
  using assms by (cases configurable) (auto simp: sanitize_configurable_def sanitize_loop_get split: option.split)

lemma set_present_get:
  "map_of (set_present k v ps) key = (if key = k \<and> present v then Some v else map_of ps key)"
  by (auto simp: set_present_def jm_simps)

lemma with_auth_user_get:
  "map_of (with_auth_user ps user scopes) key =
     (case user of
        None \<Rightarrow> map_of ps key
      | Some u \<Rightarrow>
          if \<not> js_truthy u then map_of ps key
          else if key = ''langgraph_auth_user'' then Some u
          else if key = ''langgraph_auth_user_id'' then Some (js_field u ''identity'')
          else if key = ''langgraph_auth_permissions''
          then Some (case scopes of None \<Rightarrow> js_field u ''permissions''
                     | Some s \<Rightarrow> if s = JNull then js_field u ''permissions'' else s)
          else map_of ps key)"
proof (cases user)
  case (Some u)
  have perms: "(case scopes of Some JNull \<Rightarrow> p | Some s \<Rightarrow> s | None \<Rightarrow> p) =
      (case scopes of None \<Rightarrow> p | Some s \<Rightarrow> if s = JNull then p else s)" for p
    by (cases scopes) (auto split: jsval.split)
  show ?thesis
    unfolding with_auth_user_def Some option.case perms jm_get_set if_distrib [of "\<lambda>m. map_of m key"]
    by simp
qed (simp add: with_auth_user_def)

lemma reserved_keys [simp]:
  "reserved_key ''thread_id''" "reserved_key ''run_id''" "reserved_key ''checkpoint_id''"
  "reserved_key ''checkpoint_ns''" "reserved_key ''checkpoint_map''" "reserved_key ''checkpoint''"
  "reserved_key ''langgraph_auth_user''" "reserved_key ''langgraph_auth_user_id''"
  "reserved_key ''langgraph_auth_permissions''"
  by (simp_all add: reserved_key_def RESERVED_CONFIGURABLE_KEYS_def)

lemma call_configurable_unreserved:
  assumes "jm_wf (js_entries (client_configurable kwargs))" and "\<not> reserved_key key"
  shows "map_of (call_configurable kwargs thread_id) key = map_of (js_entries (client_configurable kwargs)) key"
proof -
  have "key \<noteq> k" if "reserved_key k" for k using that assms(2) by blast
  then have other: "key \<noteq> ''thread_id''" "key \<noteq> ''checkpoint_id''" "key \<noteq> ''checkpoint_ns''" "key \<noteq> ''checkpoint_map''"
    "key \<noteq> ''langgraph_auth_user''" "key \<noteq> ''langgraph_auth_user_id''" "key \<noteq> ''langgraph_auth_permissions''"
    using reserved_keys by blast+
  show ?thesis
    by (cases "kw_field kwargs ''checkpoint_id''"; cases "kw_field kwargs ''auth_user''")
      (simp_all add: call_configurable_def Let_def with_auth_user_get other set_present_get jm_get_set
        sanitize_get [OF assms(1)] assms(2))
qed

lemma call_configurable_reserved:
  assumes "jm_wf (js_entries (client_configurable kwargs))"
  shows "map_of (call_configurable kwargs thread_id) ''thread_id'' = Some (JStr thread_id)"
    and "map_of (call_configurable kwargs thread_id) ''run_id'' = None"
    and "map_of (call_configurable kwargs thread_id) ''checkpoint'' = None"
    and "map_of (call_configurable kwargs thread_id) ''checkpoint_id'' = kw_field kwargs ''checkpoint_id''"
    and "map_of (call_configurable kwargs thread_id) ''langgraph_auth_user'' =
           (case kw_field kwargs ''auth_user'' of
              None \<Rightarrow> None | Some u \<Rightarrow> if js_truthy u then Some u else None)"
    and "map_of (call_configurable kwargs thread_id) ''langgraph_auth_user_id'' =
           (case kw_field kwargs ''auth_user'' of
              None \<Rightarrow> None | Some u \<Rightarrow> if js_truthy u then Some (js_field u ''identity'') else None)"
  using assms
  by (cases "kw_field kwargs ''checkpoint_id''"; cases "kw_field kwargs ''auth_user''";
      simp add: call_configurable_def Let_def with_auth_user_get set_present_get jm_get_set sanitize_get)+

lemma call_configurable_ns:
  assumes "jm_wf (js_entries (client_configurable kwargs))"
  shows "map_of (call_configurable kwargs thread_id) ''checkpoint_ns'' =
           (let ns = js_field (or_default (kw_field kwargs ''checkpoint'') JUndef) ''checkpoint_ns''
            in if present ns then Some ns else None)"
  using assms
  by (cases "kw_field kwargs ''checkpoint_id''"; cases "kw_field kwargs ''auth_user''";
      simp add: call_configurable_def Let_def with_auth_user_get set_present_get jm_get_set sanitize_get)+

lemma call_configurable_map:
  assumes "jm_wf (js_entries (client_configurable kwargs))"
  shows "map_of (call_configurable kwargs thread_id) ''checkpoint_map'' =
           (let m = js_field (or_default (kw_field kwargs ''checkpoint'') JUndef) ''checkpoint_map''
            in if present m then Some m else None)"
  using assms
  by (cases "kw_field kwargs ''checkpoint_id''"; cases "kw_field kwargs ''auth_user''";
      simp add: call_configurable_def Let_def with_auth_user_get set_present_get jm_get_set sanitize_get)+

lemma call_configurable_permissions:
  assumes "jm_wf (js_entries (client_configurable kwargs))"
  shows "map_of (call_configurable kwargs thread_id) ''langgraph_auth_permissions'' =
           (case kw_field kwargs ''auth_user'' of
              None \<Rightarrow> None
            | Some u \<Rightarrow> if js_truthy u
                then Some (case kw_field kwargs ''auth_scopes'' of None \<Rightarrow> js_field u ''permissions''
                           | Some s \<Rightarrow> if s = JNull then js_field u ''permissions'' else s)
                else None)"
  using assms
  by (cases "kw_field kwargs ''checkpoint_id''"; cases "kw_field kwargs ''auth_user''";
      simp add: call_configurable_def Let_def with_auth_user_get set_present_get jm_get_set sanitize_get)+

lemma call_configurable_internal:
  assumes "jm_wf (js_entries (client_configurable kwargs))" and "take 2 key = ''__''"
  shows "map_of (call_configurable kwargs thread_id) key = None"
proof -
  have "take 2 k \<noteq> ''__''" if "k \<in> {''thread_id'', ''checkpoint_id'', ''checkpoint_ns'', ''checkpoint_map'',
      ''langgraph_auth_user'', ''langgraph_auth_user_id'', ''langgraph_auth_permissions''}" for k :: string
    using that by auto
  then have other: "key \<noteq> ''thread_id''" "key \<noteq> ''checkpoint_id''" "key \<noteq> ''checkpoint_ns''" "key \<noteq> ''checkpoint_map''"
    "key \<noteq> ''langgraph_auth_user''" "key \<noteq> ''langgraph_auth_user_id''" "key \<noteq> ''langgraph_auth_permissions''"
    using assms(2) by blast+
  have "reserved_key key" using assms(2) by (simp add: reserved_key_def)
  then show ?thesis
    by (cases "kw_field kwargs ''checkpoint_id''"; cases "kw_field kwargs ''auth_user''")
      (simp_all add: call_configurable_def Let_def with_auth_user_get other set_present_get jm_get_set
        sanitize_get [OF assms(1)])
qed

text \<open>The reserved keys: those that name the thread and the checkpoint, and those of the caller.\<close>

definition target_keys :: "string list" where
  "target_keys = [''thread_id'', ''run_id'', ''checkpoint_id'', ''checkpoint_ns'', ''checkpoint_map'', ''checkpoint'']"

definition caller_keys :: "string list" where
  "caller_keys = [''langgraph_auth_user'', ''langgraph_auth_user_id'', ''langgraph_auth_permissions'']"

lemma reserved_key_iff: "reserved_key k \<longleftrightarrow> take 2 k = ''__'' \<or> k \<in> set target_keys \<or> k \<in> set caller_keys"
proof -
  have keys: "RESERVED_CONFIGURABLE_KEYS = target_keys @ caller_keys"
    by (simp only: RESERVED_CONFIGURABLE_KEYS_def target_keys_def caller_keys_def append.simps)
  show ?thesis unfolding reserved_key_def keys set_append Un_iff by (rule disj_commute [THEN trans]) (rule refl)
qed

lemma key_heads:
  "list_all (\<lambda>k. hd k = CHR ''l'') caller_keys" "list_all (\<lambda>k. hd k \<noteq> CHR ''l'') target_keys"
  "take 2 k = ''__'' \<Longrightarrow> hd k = CHR ''_''"
  by (simp add: caller_keys_def) (simp add: target_keys_def, cases k, simp_all)

lemma not_caller_key:
  assumes "take 2 k = ''__'' \<or> \<not> reserved_key k \<or> k \<in> set target_keys"
  shows "k \<notin> set caller_keys"
proof
  assume caller: "k \<in> set caller_keys"
  then have first: "hd k = CHR ''l''" using key_heads(1) unfolding list_all_iff by blast
  then have "k \<notin> set target_keys" using key_heads(2) unfolding list_all_iff by blast
  moreover have "take 2 k \<noteq> ''__''" using key_heads(3) [of k] first by auto
  ultimately show False using assms caller unfolding reserved_key_iff by blast
qed

lemma caller_keys_members:
  "''langgraph_auth_user'' \<in> set caller_keys" "''langgraph_auth_user_id'' \<in> set caller_keys"
  "''langgraph_auth_permissions'' \<in> set caller_keys"
  unfolding caller_keys_def by (simp_all only: list.set insertI1 insertI2)

lemma factory_configurable_get:
  assumes "jm_wf (js_entries (client_configurable kwargs))"
  shows "reserved_key key \<Longrightarrow> key \<notin> set caller_keys \<Longrightarrow> map_of (or_default (to_factory_configurable kwargs) []) key = None"
    and "\<not> reserved_key key \<Longrightarrow>
      map_of (or_default (to_factory_configurable kwargs) []) key = map_of (js_entries (client_configurable kwargs)) key"
    and "map_of (or_default (to_factory_configurable kwargs) []) ''langgraph_auth_user'' =
      map_of (call_configurable kwargs thread_id) ''langgraph_auth_user''"
    and "map_of (or_default (to_factory_configurable kwargs) []) ''langgraph_auth_user_id'' =
      map_of (call_configurable kwargs thread_id) ''langgraph_auth_user_id''"
    and "map_of (or_default (to_factory_configurable kwargs) []) ''langgraph_auth_permissions'' =
      map_of (call_configurable kwargs thread_id) ''langgraph_auth_permissions''"
proof -
  let ?f = "with_auth_user (sanitize_configurable (client_configurable kwargs))
      (kw_field kwargs ''auth_user'') (kw_field kwargs ''auth_scopes'')"
  have f: "or_default (to_factory_configurable kwargs) [] = ?f"
    by (simp add: to_factory_configurable_def Let_def or_default_def)
  have other: "map_of ?f key = (if reserved_key key then None else map_of (js_entries (client_configurable kwargs)) key)"
    if "key \<notin> set caller_keys"
  proof -
    have "key \<noteq> ''langgraph_auth_user''" "key \<noteq> ''langgraph_auth_user_id''" "key \<noteq> ''langgraph_auth_permissions''"
      using that caller_keys_members by blast+
    then show ?thesis
      by (cases "kw_field kwargs ''auth_user''") (simp_all add: with_auth_user_get sanitize_get [OF assms])
  qed
  show "map_of (or_default (to_factory_configurable kwargs) []) key = None" if "reserved_key key" "key \<notin> set caller_keys"
    unfolding f using other [OF that(2)] that(1) by simp
  show "map_of (or_default (to_factory_configurable kwargs) []) key = map_of (js_entries (client_configurable kwargs)) key"
    if "\<not> reserved_key key"
    unfolding f using other [OF not_caller_key] that by simp
  show "map_of (or_default (to_factory_configurable kwargs) []) ''langgraph_auth_user'' =
      map_of (call_configurable kwargs thread_id) ''langgraph_auth_user''"
    unfolding f call_configurable_reserved(5) [OF assms] with_auth_user_get
    by (cases "kw_field kwargs ''auth_user''") (simp_all add: sanitize_get [OF assms])
  show "map_of (or_default (to_factory_configurable kwargs) []) ''langgraph_auth_user_id'' =
      map_of (call_configurable kwargs thread_id) ''langgraph_auth_user_id''"
    unfolding f call_configurable_reserved(6) [OF assms] with_auth_user_get
    by (cases "kw_field kwargs ''auth_user''") (simp_all add: sanitize_get [OF assms])
  show "map_of (or_default (to_factory_configurable kwargs) []) ''langgraph_auth_permissions'' =
      map_of (call_configurable kwargs thread_id) ''langgraph_auth_permissions''"
    unfolding f call_configurable_permissions [OF assms] with_auth_user_get
    by (cases "kw_field kwargs ''auth_user''") (simp_all add: sanitize_get [OF assms])
qed

text \<open>The fields of stored kwargs the call options read, when no helper contributed any.\<close>

lemma stored_fields:
  assumes "kw_rest base = []"
  shows "kw_field (to_kwargs base native_owns input owns_thread user scopes) ''auth_user'' =
           (if user = Some JUndef then None else user)"
    and "kw_field (to_kwargs base native_owns input owns_thread user scopes) ''config'' =
           (if ci_config input = Some JUndef then None else ci_config input)"
    and "kw_field (to_kwargs base native_owns input owns_thread user scopes) ''checkpoint_id'' =
           map_option JStr (run_checkpoint_id input)"
    and "kw_field (to_kwargs base native_owns input owns_thread user scopes) ''checkpoint'' =
           map_option JObj (run_checkpoint input)"
    and "kw_field (to_kwargs base native_owns input owns_thread user scopes) ''auth_scopes'' =
           (if user = None \<or> scopes = Some JUndef then None else scopes)"
  using assms
proof -
  note get = kw_field_def to_kwargs_def map_add_def opt_field_get [unfolded fun_eq_iff]
  show "kw_field (to_kwargs base native_owns input owns_thread user scopes) ''auth_user'' =
      (if user = Some JUndef then None else user)"
    using assms by (cases user) (auto simp: get split: jsval.split)
  show "kw_field (to_kwargs base native_owns input owns_thread user scopes) ''config'' =
      (if ci_config input = Some JUndef then None else ci_config input)"
    using assms by (cases user; cases "ci_config input") (auto simp: get split: jsval.split)
  show "kw_field (to_kwargs base native_owns input owns_thread user scopes) ''checkpoint_id'' =
      map_option JStr (run_checkpoint_id input)"
    using assms by (cases user; cases "run_checkpoint_id input") (auto simp: get)
  show "kw_field (to_kwargs base native_owns input owns_thread user scopes) ''checkpoint'' =
      map_option JObj (run_checkpoint input)"
    using assms by (cases user; cases "run_checkpoint input") (auto simp: get)
  show "kw_field (to_kwargs base native_owns input owns_thread user scopes) ''auth_scopes'' =
      (if user = None \<or> scopes = Some JUndef then None else scopes)"
    using assms by (cases user; cases scopes) (auto simp: get split: jsval.split)
qed

lemma client_configurable_stored:
  assumes "kw_rest base = []"
  shows "client_configurable (to_kwargs base native_owns input owns_thread user scopes) =
           js_field (or_default (ci_config input) JUndef) ''configurable''"
  by (simp add: client_configurable_def stored_fields(2) [OF assms])

text \<open>Where the checkpoint comes from: the request's own fields, else texts in the client's configurable.\<close>

definition text_field :: "jsval \<Rightarrow> string \<Rightarrow> jsval option" where
  "text_field v name = (case js_field v name of JStr t \<Rightarrow> Some (JStr t) | _ \<Rightarrow> None)"

definition texts_field :: "jsval \<Rightarrow> string \<Rightarrow> jsval option" where
  "texts_field v name =
     (case js_field v name of JObj m \<Rightarrow> if list_all (\<lambda>e. string_value (snd e)) m then Some (JObj m) else None | _ \<Rightarrow> None)"

definition given_field :: "jsobj \<Rightarrow> string \<Rightarrow> jsval option" where
  "given_field ps name = (if present (js_field (JObj ps) name) then Some (js_field (JObj ps) name) else None)"

lemma checkpoint_names:
  "''checkpoint_id'' \<noteq> ''checkpoint_ns''" "''checkpoint_id'' \<noteq> ''checkpoint_map''"
  "''checkpoint_ns'' \<noteq> ''checkpoint_id''" "''checkpoint_ns'' \<noteq> ''checkpoint_map''"
  "''checkpoint_map'' \<noteq> ''checkpoint_id''" "''checkpoint_map'' \<noteq> ''checkpoint_ns''"
  by simp_all

lemma string_property_get:
  "jm_get (string_property name c) k = (if k = name then text_field (JObj c) name else None)"
  by (auto simp: string_property_def text_field_def or_default_def split: option.split jsval.split)

lemma text_field_present: "text_field v name = Some w \<Longrightarrow> present w"
  by (auto simp: text_field_def present_def split: jsval.splits)

lemma texts_field_present: "texts_field v name = Some w \<Longrightarrow> present w"
  by (auto simp: texts_field_def present_def split: jsval.splits if_splits)

lemma given_field_get:
  "jm_get ps name = x \<Longrightarrow> (\<And>w. x = Some w \<Longrightarrow> present w) \<Longrightarrow> given_field ps name = x"
  by (cases x) (auto simp: given_field_def or_default_def present_def)

lemma config_checkpoint_some:
  assumes "js_field (or_default config JUndef) ''configurable'' = JObj c"
  shows "config_checkpoint config = Some (string_property ''checkpoint_id'' c @ string_property ''checkpoint_ns'' c @
     opt_field ''checkpoint_map'' (texts_field (JObj c) ''checkpoint_map''))"
proof -
  obtain ps where ps: "config = Some (JObj ps)" "jm_get ps ''configurable'' = Some (JObj c)"
    using assms by (cases "or_default config JUndef") (auto simp: or_default_def split: option.splits)
  have "(case jm_get c ''checkpoint_map'' of
      Some (JObj m) \<Rightarrow> if list_all (\<lambda>e. string_value (snd e)) m then [(''checkpoint_map'', JObj m)] else []
    | _ \<Rightarrow> []) = opt_field ''checkpoint_map'' (texts_field (JObj c) ''checkpoint_map'')"
    by (simp only: texts_field_def js_field.simps or_default_def opt_field_def) (simp split: option.split jsval.split)
  with ps show ?thesis by (simp only: config_checkpoint_def option.case jsval.case)
qed

lemma config_checkpoint_none:
  assumes "\<nexists>c. js_field (or_default config JUndef) ''configurable'' = JObj c"
  shows "config_checkpoint config = None \<or> config_checkpoint config = Some []"
    and "js_field (js_field (or_default config JUndef) ''configurable'') name = JUndef"
proof -
  show "config_checkpoint config = None \<or> config_checkpoint config = Some []"
    using assms by (auto simp: config_checkpoint_def or_default_def split: option.splits jsval.splits)
  show "js_field (js_field (or_default config JUndef) ''configurable'') name = JUndef"
    using assms by (cases "js_field (or_default config JUndef) ''configurable''") simp_all
qed

lemma config_checkpoint_fields:
  fixes config :: "jsval option"
  defines "client \<equiv> js_field (or_default config JUndef) ''configurable''"
  shows "map_option JStr (case config_checkpoint config of None \<Rightarrow> None | Some c \<Rightarrow> checkpoint_id_of c) =
           text_field client ''checkpoint_id''"
    and "given_field (or_default (config_checkpoint config) []) ''checkpoint_ns'' = text_field client ''checkpoint_ns''"
    and "given_field (or_default (config_checkpoint config) []) ''checkpoint_map'' = texts_field client ''checkpoint_map''"
proof -
  have empty: "map_option JStr (case config_checkpoint config of None \<Rightarrow> None | Some c \<Rightarrow> checkpoint_id_of c) = None \<and>
      given_field (or_default (config_checkpoint config) []) name = None \<and>
      text_field client name = None \<and> texts_field client name = None"
    if "\<nexists>c. client = JObj c" for name
    using config_checkpoint_none [OF that [unfolded client_def]]
    by (auto simp: client_def text_field_def texts_field_def given_field_def checkpoint_id_of_def or_default_def present_def)
  have get: "jm_get (string_property ''checkpoint_id'' c @ string_property ''checkpoint_ns'' c @ rest) k =
      (case (if k = ''checkpoint_id'' then text_field (JObj c) ''checkpoint_id'' else None) of
         Some v \<Rightarrow> Some v
       | None \<Rightarrow> (case (if k = ''checkpoint_ns'' then text_field (JObj c) ''checkpoint_ns'' else None) of
           Some v \<Rightarrow> Some v | None \<Rightarrow> jm_get rest k))" for c k rest
    using string_property_get by (auto simp: map_add_def split: option.split)
  show "map_option JStr (case config_checkpoint config of None \<Rightarrow> None | Some c \<Rightarrow> checkpoint_id_of c) =
      text_field client ''checkpoint_id''"
  proof (cases "\<exists>c. client = JObj c")
    case True
    then obtain c where c: "client = JObj c" by blast
    have "jm_get (string_property ''checkpoint_id'' c @ string_property ''checkpoint_ns'' c @
        opt_field ''checkpoint_map'' (texts_field (JObj c) ''checkpoint_map'')) ''checkpoint_id'' =
        text_field (JObj c) ''checkpoint_id''"
      unfolding get opt_field_get by (simp only: checkpoint_names if_False if_True refl split: option.split) simp
    then show ?thesis
      unfolding config_checkpoint_some [OF c [unfolded client_def]] c option.case checkpoint_id_of_def
      by (auto simp: text_field_def split: jsval.split)
  qed (use empty [of "''checkpoint_id''"] in simp)
  show "given_field (or_default (config_checkpoint config) []) ''checkpoint_ns'' = text_field client ''checkpoint_ns''"
  proof (cases "\<exists>c. client = JObj c")
    case True
    then obtain c where c: "client = JObj c" by blast
    have "jm_get (string_property ''checkpoint_id'' c @ string_property ''checkpoint_ns'' c @
        opt_field ''checkpoint_map'' (texts_field (JObj c) ''checkpoint_map'')) ''checkpoint_ns'' =
        text_field (JObj c) ''checkpoint_ns''"
      unfolding get opt_field_get by (simp only: checkpoint_names if_False if_True refl option.case split: option.split) simp
    then show ?thesis
      unfolding config_checkpoint_some [OF c [unfolded client_def]] c or_default_def option.case
      by (rule given_field_get) (rule text_field_present)
  qed (use empty [of "''checkpoint_ns''"] in simp)
  show "given_field (or_default (config_checkpoint config) []) ''checkpoint_map'' = texts_field client ''checkpoint_map''"
  proof (cases "\<exists>c. client = JObj c")
    case True
    then obtain c where c: "client = JObj c" by blast
    have "jm_get (string_property ''checkpoint_id'' c @ string_property ''checkpoint_ns'' c @
        opt_field ''checkpoint_map'' (texts_field (JObj c) ''checkpoint_map'')) ''checkpoint_map'' =
        texts_field (JObj c) ''checkpoint_map''"
      unfolding get opt_field_get by (simp only: checkpoint_names if_False if_True refl option.case)
    then show ?thesis
      unfolding config_checkpoint_some [OF c [unfolded client_def]] c or_default_def option.case
      by (rule given_field_get) (rule texts_field_present)
  qed (use empty [of "''checkpoint_map''"] in simp)
qed

lemma graph_call_sources:
  fixes input :: create_run_input
  defines "client \<equiv> js_field (or_default (ci_config input) JUndef) ''configurable''"
  assumes base: "kw_rest base = []" and wf: "jm_wf (js_entries client)"
    and kwargs: "kwargs = to_kwargs base native_owns input owns_thread user scopes"
  shows "client_configurable kwargs = client"
    and "map_of (call_configurable kwargs thread_id) ''checkpoint_id'' =
      (case (ci_checkpoint_id input, ci_checkpoint input) of
         (Some c, _) \<Rightarrow> Some (JStr c)
       | (None, Some ps) \<Rightarrow> map_option JStr (checkpoint_id_of ps)
       | (None, None) \<Rightarrow> text_field client ''checkpoint_id'')"
    and "map_of (call_configurable kwargs thread_id) ''checkpoint_ns'' =
      (case ci_checkpoint input of
         Some ps \<Rightarrow> given_field ps ''checkpoint_ns'' | None \<Rightarrow> text_field client ''checkpoint_ns'')"
    and "map_of (call_configurable kwargs thread_id) ''checkpoint_map'' =
      (case ci_checkpoint input of
         Some ps \<Rightarrow> given_field ps ''checkpoint_map'' | None \<Rightarrow> texts_field client ''checkpoint_map'')"
    and "map_of (call_configurable kwargs thread_id) ''langgraph_auth_user'' =
      (case user of None \<Rightarrow> None | Some u \<Rightarrow> if js_truthy u then Some u else None)"
    and "map_of (call_configurable kwargs thread_id) ''langgraph_auth_user_id'' =
      (case user of None \<Rightarrow> None | Some u \<Rightarrow> if js_truthy u then Some (js_field u ''identity'') else None)"
    and "map_of (call_configurable kwargs thread_id) ''langgraph_auth_permissions'' =
      (case user of
         None \<Rightarrow> None
       | Some u \<Rightarrow> if js_truthy u
           then Some (case scopes of None \<Rightarrow> js_field u ''permissions''
                      | Some s \<Rightarrow> if present s then s else js_field u ''permissions'')
           else None)"
proof -
  show conf: "client_configurable kwargs = client"
    unfolding kwargs client_def by (rule client_configurable_stored [OF base])
  have entries: "jm_wf (js_entries (client_configurable kwargs))" using conf wf by simp
  note stored = stored_fields [OF base, of native_owns input owns_thread user scopes, folded kwargs]
  note server = call_configurable_reserved [OF entries, of thread_id]
  note config = config_checkpoint_fields [of "ci_config input", folded client_def]
  show "map_of (call_configurable kwargs thread_id) ''checkpoint_id'' =
      (case (ci_checkpoint_id input, ci_checkpoint input) of
         (Some c, _) \<Rightarrow> Some (JStr c)
       | (None, Some ps) \<Rightarrow> map_option JStr (checkpoint_id_of ps)
       | (None, None) \<Rightarrow> text_field client ''checkpoint_id'')"
    unfolding server(4) stored(3) run_checkpoint_id_def run_checkpoint_def or_else_def config(1) [symmetric]
    by (cases "ci_checkpoint_id input"; cases "ci_checkpoint input") (simp_all only: option.case prod.case option.map)
  show "map_of (call_configurable kwargs thread_id) ''checkpoint_ns'' =
      (case ci_checkpoint input of
         Some ps \<Rightarrow> given_field ps ''checkpoint_ns'' | None \<Rightarrow> text_field client ''checkpoint_ns'')"
    unfolding call_configurable_ns [OF entries] stored(4) run_checkpoint_def config(2) [symmetric] given_field_def Let_def or_else_def or_default_def
    by (cases "ci_checkpoint input"; cases "config_checkpoint (ci_config input)") (simp_all add: or_default_def present_def)
  show "map_of (call_configurable kwargs thread_id) ''checkpoint_map'' =
      (case ci_checkpoint input of
         Some ps \<Rightarrow> given_field ps ''checkpoint_map'' | None \<Rightarrow> texts_field client ''checkpoint_map'')"
    unfolding call_configurable_map [OF entries] stored(4) run_checkpoint_def config(3) [symmetric] given_field_def Let_def or_else_def or_default_def
    by (cases "ci_checkpoint input"; cases "config_checkpoint (ci_config input)") (simp_all add: or_default_def present_def)
  show "map_of (call_configurable kwargs thread_id) ''langgraph_auth_user'' =
      (case user of None \<Rightarrow> None | Some u \<Rightarrow> if js_truthy u then Some u else None)"
    unfolding server(5) stored(1) by (cases user) auto
  show "map_of (call_configurable kwargs thread_id) ''langgraph_auth_user_id'' =
      (case user of None \<Rightarrow> None | Some u \<Rightarrow> if js_truthy u then Some (js_field u ''identity'') else None)"
    unfolding server(6) stored(1) by (cases user) auto
  show "map_of (call_configurable kwargs thread_id) ''langgraph_auth_permissions'' =
      (case user of
         None \<Rightarrow> None
       | Some u \<Rightarrow> if js_truthy u
           then Some (case scopes of None \<Rightarrow> js_field u ''permissions''
                      | Some s \<Rightarrow> if present s then s else js_field u ''permissions'')
           else None)"
    unfolding call_configurable_permissions [OF entries] stored(1,5) by (cases user; cases scopes) (auto simp: present_def)
qed

text \<open>
  C17. Whatever a client writes into the configuration of a run, the graph is called for the run's own
  thread and for the caller the server authenticated, or for nobody when it authenticated nobody, with
  that caller's permissions; no run id, no checkpoint object and no key internal to the runtime reach
  it, and all other keys arrive unchanged. The checkpoint to fork from is the one the request names in
  its validated fields; where it names none, a client may choose it by texts in its configurable,
  and the checkpointer looks it up under the thread above. A graph factory is given the same caller and the
  same other keys, and no thread or checkpoint at all.
\<close>

theorem graph_config_unspoofable:
  fixes input :: create_run_input
  defines "client \<equiv> js_field (or_default (ci_config input) JUndef) ''configurable''"
  assumes "kw_rest base = []" and "jm_wf (js_entries client)"
    and "kwargs = to_kwargs base native_owns input owns_thread user scopes"
    and "graph = go_configurable (to_graph_call_options kwargs thread_id)"
    and "made = or_default (to_factory_configurable kwargs) []"
  shows "map_of graph ''thread_id'' = Some (JStr thread_id) \<and>
    map_of graph ''run_id'' = None \<and> map_of graph ''checkpoint'' = None \<and>
    map_of graph ''checkpoint_id'' =
      (case (ci_checkpoint_id input, ci_checkpoint input) of
         (Some c, _) \<Rightarrow> Some (JStr c)
       | (None, Some ps) \<Rightarrow> map_option JStr (checkpoint_id_of ps)
       | (None, None) \<Rightarrow> text_field client ''checkpoint_id'') \<and>
    map_of graph ''checkpoint_ns'' =
      (case ci_checkpoint input of
         Some ps \<Rightarrow> given_field ps ''checkpoint_ns'' | None \<Rightarrow> text_field client ''checkpoint_ns'') \<and>
    map_of graph ''checkpoint_map'' =
      (case ci_checkpoint input of
         Some ps \<Rightarrow> given_field ps ''checkpoint_map'' | None \<Rightarrow> texts_field client ''checkpoint_map'') \<and>
    (\<forall>k \<in> set target_keys. map_of made k = None) \<and>
    (\<forall>c \<in> {graph, made}.
       map_of c ''langgraph_auth_user'' =
         (case user of None \<Rightarrow> None | Some u \<Rightarrow> if js_truthy u then Some u else None) \<and>
       map_of c ''langgraph_auth_user_id'' =
         (case user of None \<Rightarrow> None | Some u \<Rightarrow> if js_truthy u then Some (js_field u ''identity'') else None) \<and>
       map_of c ''langgraph_auth_permissions'' =
         (case user of
            None \<Rightarrow> None
          | Some u \<Rightarrow> if js_truthy u
              then Some (case scopes of None \<Rightarrow> js_field u ''permissions''
                         | Some s \<Rightarrow> if present s then s else js_field u ''permissions'')
              else None) \<and>
       (\<forall>k. take 2 k = ''__'' \<longrightarrow> map_of c k = None) \<and>
       (\<forall>k. take 2 k \<noteq> ''__'' \<longrightarrow> k \<notin> set target_keys \<longrightarrow> k \<notin> set caller_keys \<longrightarrow>
          map_of c k = map_of (js_entries client) k))"
proof -
  note sources = graph_call_sources [OF assms(2) assms(3) [unfolded client_def] assms(4), folded client_def]
  have graph: "call_configurable kwargs thread_id = graph"
    by (simp add: assms(5) to_graph_call_options_def)
  have wf: "jm_wf (js_entries (client_configurable kwargs))" using assms(3) sources(1) by simp
  note facts = sources(2-7) [of thread_id, unfolded graph] and server = call_configurable_reserved(1-3) [OF wf, of thread_id, unfolded graph]
  note factory = factory_configurable_get [OF wf, folded assms(6), unfolded sources(1)]
  have internal: "map_of graph k = None" if "take 2 k = ''__''" for k
    using call_configurable_internal [OF wf that, of thread_id] graph by simp
  have others: "map_of graph k = map_of (js_entries client) k" if "\<not> reserved_key k" for k
    using call_configurable_unreserved [OF wf that, of thread_id] graph sources(1) by simp
  have made_reserved: "map_of made k = None" if "take 2 k = ''__'' \<or> k \<in> set target_keys" for k
    using factory(1) [of k] not_caller_key [of k] that unfolding reserved_key_iff by blast
  have hidden: "map_of c k = None" if "c \<in> {graph, made}" "take 2 k = ''__''" for c k
    using that(1) internal [OF that(2)] made_reserved [OF disjI1 [OF that(2)]] by blast
  have passed: "map_of c k = map_of (js_entries client) k"
    if "c \<in> {graph, made}" "take 2 k \<noteq> ''__''" "k \<notin> set target_keys" "k \<notin> set caller_keys" for c k
    using that others [of k] factory(2) [of k] unfolding reserved_key_iff by blast
  have caller: "map_of c ''langgraph_auth_user'' = map_of graph ''langgraph_auth_user''"
    "map_of c ''langgraph_auth_user_id'' = map_of graph ''langgraph_auth_user_id''"
    "map_of c ''langgraph_auth_permissions'' = map_of graph ''langgraph_auth_permissions''"
    if "c \<in> {graph, made}" for c
    using that factory(3-5) [of thread_id, unfolded graph] by (simp_all only: insert_iff empty_iff simp_thms) (elim disjE; simp only:)+
  show ?thesis
    by (intro conjI ballI allI impI)
      (rule server, rule server, rule server, rule facts, rule facts, rule facts, rule made_reserved, erule disjI2,
       rule trans [OF caller(1) facts(4)], assumption, rule trans [OF caller(2) facts(5)], assumption,
       rule trans [OF caller(3) facts(6)], assumption, rule hidden, assumption, assumption, rule passed, assumption+)
qed

text \<open>A client that claims to be somebody else, on another thread.\<close>

definition spoofing_config :: jsval where
  "spoofing_config = JObj [(''configurable'', JObj [(''thread_id'', JStr ''other''),
     (''langgraph_auth_user'', JObj [(''identity'', JStr ''root'')]), (''__pregel'', JNull), (''model'', JStr ''m'')])]"

definition spoofing_request :: create_run_input where
  "spoofing_request =
     \<lparr>ci_assistant_id = ''a1'', ci_thread_id = Some ''t1'', ci_timeout_ms = None, ci_input = None, ci_command = None,
      ci_config = Some spoofing_config, ci_context = None, ci_stream_mode = None, ci_stream_subgraphs = False,
      ci_durability = None, ci_checkpoint_during = None, ci_checkpoint = None, ci_checkpoint_id = None,
      ci_metadata = None, ci_multitask_strategy = None, ci_interrupt_before = None, ci_interrupt_after = None,
      ci_webhook = None, ci_delete_on_completion = False, ci_create_missing_thread = False, ci_after_seconds = None,
      ci_if_thread_status = None\<rparr>"

definition spoofed_options :: call_options where
  "spoofed_options = to_graph_call_options
     (to_kwargs empty_kwargs False spoofing_request False (Some (JObj [(''identity'', JStr ''ann'')])) None) ''t1''"

theorem graph_config_unspoofable_witness:
  "map_of (go_configurable spoofed_options) ''thread_id'' = Some (JStr ''t1'') \<and>
   map_of (go_configurable spoofed_options) ''langgraph_auth_user_id'' = Some (JStr ''ann'') \<and>
   map_of (go_configurable spoofed_options) ''model'' = Some (JStr ''m'')"
proof -
  have conf: "js_field (or_default (ci_config spoofing_request) JUndef) ''configurable'' =
      JObj [(''thread_id'', JStr ''other''), (''langgraph_auth_user'', JObj [(''identity'', JStr ''root'')]),
        (''__pregel'', JNull), (''model'', JStr ''m'')]"
    by (simp add: spoofing_request_def spoofing_config_def)
  have wf: "jm_wf (js_entries (JObj [(''thread_id'', JStr ''other''),
      (''langgraph_auth_user'', JObj [(''identity'', JStr ''root'')]), (''__pregel'', JNull), (''model'', JStr ''m'')]))"
    by simp
  have "kw_rest empty_kwargs = []" by (simp add: empty_kwargs_def)
  note unspoofed = graph_config_unspoofable [OF this _ refl refl refl, of spoofing_request, unfolded conf, OF wf,
      of False False "Some (JObj [(''identity'', JStr ''ann'')])" None "''t1''", folded spoofed_options_def]
  note caller = unspoofed [THEN conjunct2, THEN conjunct2, THEN conjunct2, THEN conjunct2, THEN conjunct2, THEN conjunct2,
      THEN conjunct2, THEN bspec, OF insertI1]
  note others = caller [THEN conjunct2, THEN conjunct2, THEN conjunct2, THEN conjunct2, THEN spec, THEN mp, THEN mp, THEN mp]
  show ?thesis
  proof (intro conjI)
    show "map_of (go_configurable spoofed_options) ''thread_id'' = Some (JStr ''t1'')"
      by (rule conjunct1 [OF unspoofed])
    show "map_of (go_configurable spoofed_options) ''langgraph_auth_user_id'' = Some (JStr ''ann'')"
      using conjunct1 [OF conjunct2 [OF caller]] by simp
    show "map_of (go_configurable spoofed_options) ''model'' = Some (JStr ''m'')"
      using others [of "''model''"] by (simp add: target_keys_def caller_keys_def)
  qed
qed

end
