(* ===== verification/GraphFrames.thy ===== *)
theory GraphFrames
  imports SseStream RunInputs
begin

text \<open>
  What a graph streams, as run frames: \<^verbatim>\<open>sse/run-frame-stream.ts\<close>, and the reply a graph may declare
  on its custom stream, \<^verbatim>\<open>runs/declared-reply.ts\<close>. A chunk is any value the agent yields.
\<close>

section \<open>Chunks\<close>

definition STREAM_MODES :: "string list" where
  "STREAM_MODES = [''values'', ''updates'', ''messages'', ''messages-tuple'', ''custom'', ''events'', ''debug'',
     ''tasks'', ''checkpoints'']"

fun is_stream_mode :: "jsval \<Rightarrow> bool" where
  "is_stream_mode (JStr m) = (m \<in> set STREAM_MODES)"
| "is_stream_mode _ = False"

text \<open>\<^verbatim>\<open>UNSAFE_SEGMENT\<close>: a line break or the separator of segments.\<close>

definition unsafe_char :: "char \<Rightarrow> bool" where
  "unsafe_char c \<longleftrightarrow> line_break c \<or> c = CHR ''|''"

fun safe_segment :: "jsval \<Rightarrow> bool" where
  "safe_segment (JStr s) = (\<not> list_ex unsafe_char s)"
| "safe_segment _ = False"

fun is_namespace :: "jsval \<Rightarrow> bool" where
  "is_namespace (JArr segments) = list_all safe_segment segments"
| "is_namespace _ = False"

record frame_body =
  fb_event :: string
  fb_namespace :: "string list"
  fb_data :: jsval

definition mode_frame_body :: "string \<Rightarrow> string list \<Rightarrow> jsval \<Rightarrow> frame_body" where
  "mode_frame_body mode namespace data = \<lparr>fb_event = mode, fb_namespace = namespace, fb_data = data\<rparr>"

fun text_of :: "jsval \<Rightarrow> string" where
  "text_of (JStr s) = s"
| "text_of _ = []"

fun parse_stream_chunk :: "jsval \<Rightarrow> bool \<Rightarrow> (string \<times> string list \<times> jsval) option" where
  "parse_stream_chunk (JArr [namespace, mode, data]) subgraphs =
     (if subgraphs \<and> is_namespace namespace \<and> is_stream_mode mode
      then Some (text_of mode, js_strings namespace, data) else None)"
| "parse_stream_chunk (JArr [mode, data]) subgraphs =
     (if is_stream_mode mode then Some (text_of mode, [], data) else None)"
| "parse_stream_chunk _ subgraphs = None"

definition chunk_to_frame_body :: "jsval \<Rightarrow> bool \<Rightarrow> frame_body" where
  "chunk_to_frame_body chunk subgraphs =
     (case parse_stream_chunk chunk subgraphs of
        Some (mode, namespace, data) \<Rightarrow> mode_frame_body mode namespace data
      | None \<Rightarrow> mode_frame_body ''updates'' [] chunk)"

definition to_run_frame :: "nat \<Rightarrow> frame_body \<Rightarrow> run_frame" where
  "to_run_frame n body =
     \<lparr>fr_seq = n, fr_event = fb_event body,
      fr_namespace = (if 0 < length (fb_namespace body) then Some (fb_namespace body) else None),
      fr_data = fb_data body\<rparr>"

section \<open>Events\<close>

text \<open>An event of \<^verbatim>\<open>streamEvents\<close> is the object the runtime yields.\<close>

definition hidden_event :: "jsval \<Rightarrow> bool" where
  "hidden_event event = (''langsmith:hidden'' \<in> set (js_strings (js_field event ''tags'')))"

definition stream_event_to_frame_body :: "jsval \<Rightarrow> ident \<Rightarrow> string list \<Rightarrow> bool \<Rightarrow> frame_body option" where
  "stream_event_to_frame_body event run_id graph_modes subgraphs =
     (if hidden_event event then None
      else
        case (if js_field event ''event'' = JStr ''on_chain_stream'' \<and> js_field event ''run_id'' = JStr run_id
              then parse_stream_chunk (js_field (js_field event ''data'') ''chunk'') subgraphs else None) of
          Some (mode, namespace, data) \<Rightarrow>
            if mode \<in> set graph_modes then Some (mode_frame_body mode namespace data) else None
        | None \<Rightarrow> Some (mode_frame_body ''events'' [] event))"

section \<open>Declared replies\<close>

definition DECLARED_REPLY_KEY :: string where "DECLARED_REPLY_KEY = ''$skein_reply''"

definition reply_with :: "jsval \<Rightarrow> jsval" where
  "reply_with reply = JObj [(DECLARED_REPLY_KEY, reply)]"

fun read_declared_reply :: "jsval \<Rightarrow> jsval option" where
  "read_declared_reply (JObj ps) = jm_get ps DECLARED_REPLY_KEY"
| "read_declared_reply _ = None"

lemma read_reply_with: "read_declared_reply (reply_with reply) = Some reply"
  by (simp add: reply_with_def)

section \<open>A graph cannot forge the stream's framing\<close>

definition safe_body :: "frame_body \<Rightarrow> bool" where
  "safe_body body \<longleftrightarrow>
     fb_event body \<in> set STREAM_MODES \<and> (\<forall>s \<in> set (fb_namespace body). \<not> list_ex unsafe_char s)"

lemma namespace_safe: "is_namespace v \<Longrightarrow> s \<in> set (js_strings v) \<Longrightarrow> \<not> list_ex unsafe_char s"
proof (induction v rule: is_namespace.induct)
  case (1 segments)
  then show ?case
    by (auto simp: js_strings_def list_all_iff split: jsval.splits)
qed simp_all

lemma parsed_safe:
  assumes "parse_stream_chunk chunk subgraphs = Some (mode, namespace, data)"
  shows "mode \<in> set STREAM_MODES \<and> (\<forall>s \<in> set namespace. \<not> list_ex unsafe_char s)"
  using assms
proof (induction chunk subgraphs rule: parse_stream_chunk.induct)
  case (1 ns m d subgraphs)
  then show ?case using namespace_safe [of ns] by (cases m) (auto split: if_splits)
next
  case (2 m d subgraphs)
  then show ?case by (cases m) (auto split: if_splits)
qed simp_all

lemma chunk_body_safe: "safe_body (chunk_to_frame_body chunk subgraphs)"
  using parsed_safe [of chunk subgraphs]
  by (auto simp: chunk_to_frame_body_def safe_body_def mode_frame_body_def STREAM_MODES_def
      split: option.split prod.split)

lemma event_body_safe:
  "stream_event_to_frame_body event run_id modes subgraphs = Some body \<Longrightarrow> safe_body body"
  using parsed_safe [of "js_field (js_field event ''data'') ''chunk''" subgraphs]
  by (auto simp: stream_event_to_frame_body_def safe_body_def mode_frame_body_def STREAM_MODES_def
      split: if_splits option.splits prod.splits)

end
