(* ===== verification/ThreadMirror.thy ===== *)
theory ThreadMirror
  imports RunInputs
begin

text \<open>
  \<^verbatim>\<open>threads/thread-mirror.ts\<close>: what a state snapshot of an agent means for the thread row, the run's
  status and the wire's thread state. The snapshot is the structural type the projection reads. The
  text of \<^verbatim>\<open>JSON.stringify\<close> (\<open>None\<close> where it gives no text) and of \<^verbatim>\<open>String\<close> are parameters.
\<close>

section \<open>Snapshots\<close>

datatype agent_snapshot =
    Snapshot (sn_values: jsval) (sn_next: "string list") (sn_tasks: "agent_task list")
      (sn_config: "jsval option") (sn_metadata: "jsval option") (sn_created_at: "string option")
      (sn_parent_config: "jsval option")
and agent_task =
    AgentTask (at_id: ident) (at_name: string) (at_result: jsval) (at_error: jsval)
      (at_interrupts: "jsval list option") (at_state: task_state)
and task_state =
    NoTaskState
  | TaskConfig jsval
  | TaskSnapshot agent_snapshot

definition is_interrupted_snapshot :: "agent_snapshot \<Rightarrow> bool" where
  "is_interrupted_snapshot snapshot \<longleftrightarrow> 0 < length (sn_next snapshot)"

fun collect_loop_interrupts :: "jsobj \<Rightarrow> agent_task list \<Rightarrow> jsobj" where
  "collect_loop_interrupts by_task [] = by_task"
| "collect_loop_interrupts by_task (task # tasks) =
     collect_loop_interrupts
       (case at_interrupts task of
          Some (i # is) \<Rightarrow> jm_set (at_id task) (JArr (i # is)) by_task
        | _ \<Rightarrow> by_task) tasks"

definition collect_interrupts :: "agent_snapshot \<Rightarrow> jsobj" where
  "collect_interrupts snapshot = collect_loop_interrupts [] (sn_tasks snapshot)"

definition run_status_for_snapshot :: "agent_snapshot \<Rightarrow> run_status" where
  "run_status_for_snapshot snapshot = (if is_interrupted_snapshot snapshot then Interrupted else Success)"

definition snapshot_to_thread_update :: "agent_snapshot \<Rightarrow> run_status \<Rightarrow> thread_update" where
  "snapshot_to_thread_update snapshot status =
     empty_thread_update\<lparr>tu_values := Some (sn_values snapshot),
       tu_interrupts := Some (JObj (collect_interrupts snapshot)),
       tu_status := Some (thread_status_for_run status)\<rparr>"

text \<open>\<open>None\<close> is \<^verbatim>\<open>null\<close>: not checkpointed.\<close>

definition to_checkpoint :: "jsval option \<Rightarrow> jsval option" where
  "to_checkpoint config =
     (let configurable = js_field (or_default config JUndef) ''configurable'' in
      if \<not> js_truthy configurable then None
      else case js_field configurable ''thread_id'' of
             JStr thread_id \<Rightarrow>
               let ns = js_field configurable ''checkpoint_ns'' in
               Some (JObj [(''thread_id'', JStr thread_id),
                           (''checkpoint_ns'', if ns = JUndef \<or> ns = JNull then JStr [] else ns),
                           (''checkpoint_id'', js_field configurable ''checkpoint_id''),
                           (''checkpoint_map'', js_field configurable ''checkpoint_map'')])
           | _ \<Rightarrow> None)"

section \<open>The wire's thread state\<close>

fun to_task_error :: "(jsval \<Rightarrow> string option) \<Rightarrow> (jsval \<Rightarrow> string) \<Rightarrow> jsval \<Rightarrow> jsval" where
  "to_task_error json as_string JUndef = JNull"
| "to_task_error json as_string JNull = JNull"
| "to_task_error json as_string (JStr s) = JStr s"
| "to_task_error json as_string err =
     JStr (case json err of Some text \<Rightarrow> text | None \<Rightarrow> as_string err)"

definition nullable :: "jsval option \<Rightarrow> jsval" where
  "nullable v = or_default v JNull"

definition no_checkpoint :: jsval where
  "no_checkpoint = JObj [(''thread_id'', JStr []), (''checkpoint_ns'', JStr []),
     (''checkpoint_id'', JUndef), (''checkpoint_map'', JUndef)]"

primrec snapshot_to_thread_state ::
    "(jsval \<Rightarrow> string option) \<Rightarrow> (jsval \<Rightarrow> string) \<Rightarrow> agent_snapshot \<Rightarrow> jsval"
  and to_thread_task :: "(jsval \<Rightarrow> string option) \<Rightarrow> (jsval \<Rightarrow> string) \<Rightarrow> agent_task \<Rightarrow> jsval"
  and task_state_fields :: "(jsval \<Rightarrow> string option) \<Rightarrow> (jsval \<Rightarrow> string) \<Rightarrow> task_state \<Rightarrow> jsobj" where
  "snapshot_to_thread_state json as_string (Snapshot vals nxt tasks config metadata created parent) =
     JObj [(''values'', vals), (''next'', JArr (map JStr nxt)),
           (''checkpoint'', or_default (to_checkpoint config) no_checkpoint),
           (''metadata'', or_default metadata (JObj [])),
           (''created_at'', case created of None \<Rightarrow> JNull | Some t \<Rightarrow> JStr t),
           (''parent_checkpoint'', nullable (to_checkpoint parent)),
           (''tasks'', JArr (map (to_thread_task json as_string) tasks))]"
| "to_thread_task json as_string (AgentTask i nm result err ints state) =
     JObj ([(''id'', JStr i), (''name'', JStr nm), (''result'', result),
            (''error'', to_task_error json as_string err), (''interrupts'', JArr (or_default ints []))] @
           task_state_fields json as_string state)"
| "task_state_fields json as_string NoTaskState = [(''checkpoint'', JNull), (''state'', JNull)]"
| "task_state_fields json as_string (TaskConfig config) =
     [(''checkpoint'', nullable (to_checkpoint (Some config))), (''state'', JNull)]"
| "task_state_fields json as_string (TaskSnapshot inner) =
     [(''checkpoint'', JNull), (''state'', snapshot_to_thread_state json as_string inner)]"

end
