(* ===== verification/DeliveryPayload.thy ===== *)
theory DeliveryPayload
  imports DeliveryAttempts RunInputs
begin

text \<open>
  \<^verbatim>\<open>buildDeliveryPayload\<close> of \<^verbatim>\<open>deliveries/delivery-payload.ts\<close>: the stored half of a callback's body,
  with markers in the place of what would make it too large. The size of a body on the wire, UTF-8
  bytes of its \<^verbatim>\<open>JSON.stringify\<close>, is a parameter, \<open>None\<close> where serialising throws; \<open>to_iso\<close> is
  \<^verbatim>\<open>toISOString\<close>.
\<close>

section \<open>The run as an object\<close>

fun run_error_object :: "run_error \<Rightarrow> jsval" where
  "run_error_object (RunError e nm message cause errors stack) =
     JObj ([(''error'', JStr e), (''name'', JStr nm), (''message'', JStr message)] @
       (case stack of None \<Rightarrow> [] | Some s \<Rightarrow> [(''stack'', JStr s)]) @
       (case cause of None \<Rightarrow> [] | Some c \<Rightarrow> [(''cause'', run_error_object c)]) @
       (if errors = [] then [] else [(''errors'', JArr (map run_error_object errors))]))"

fun strategy_text :: "multitask_strategy \<Rightarrow> string" where
  "strategy_text MReject = ''reject''"
| "strategy_text MEnqueue = ''enqueue''"
| "strategy_text MInterrupt = ''interrupt''"
| "strategy_text MRollback = ''rollback''"

text \<open>The row without its status: \<^verbatim>\<open>const { status: _replaced, ...run } = input.run\<close>.\<close>

definition run_object :: "(instant \<Rightarrow> string) \<Rightarrow> run \<Rightarrow> jsobj" where
  "run_object to_iso r =
     [(''run_id'', JStr (r_run_id r)), (''thread_id'', JStr (r_thread_id r)),
      (''assistant_id'', JStr (r_assistant_id r)),
      (''created_at'', JStr (to_iso (r_created_at r))), (''updated_at'', JStr (to_iso (r_updated_at r))),
      (''metadata'', r_metadata r),
      (''multitask_strategy'', case r_multitask_strategy r of None \<Rightarrow> JNull | Some m \<Rightarrow> JStr (strategy_text m))] @
     (case r_error r of None \<Rightarrow> [] | Some e \<Rightarrow> [(''error'', run_error_object e)])"

section \<open>The body\<close>

definition DEFAULT_MAX_PAYLOAD_BYTES :: nat where "DEFAULT_MAX_PAYLOAD_BYTES = 256 * 1024"

record payload_input =
  pi_run :: run
  pi_values :: jsval
  pi_run_started_at :: string
  pi_run_ended_at :: string
  pi_error :: "string option"
  pi_interrupts :: "jsval option"
  pi_reply :: "jsval option"
  pi_max_payload_bytes :: "nat option"

record built_payload =
  bp_payload :: jsval
  bp_truncated :: bool
  bp_bytes :: nat

definition marker :: "string \<Rightarrow> nat \<Rightarrow> nat \<Rightarrow> jsval" where
  "marker field bytes cap =
     JObj [(''$skein_truncated'', JBool True),
           (''reason'', JStr (field @ '' omitted: the delivery body was '' @ decimal bytes @ '' bytes, over the '' @
                              decimal cap @ ''-byte cap'')),
           (''bytes'', JNum (Fin (of_nat bytes)))]"

definition has_interrupts :: "payload_input \<Rightarrow> bool" where
  "has_interrupts input =
     (case pi_interrupts input of None \<Rightarrow> False | Some v \<Rightarrow> 0 < length (js_entries v))"

definition set_if :: "bool \<Rightarrow> string \<Rightarrow> jsval option \<Rightarrow> jsobj \<Rightarrow> jsobj" where
  "set_if wanted key v ps =
     (case v of Some x \<Rightarrow> if wanted then jm_set key x ps else ps | None \<Rightarrow> ps)"

definition full_payload :: "(instant \<Rightarrow> string) \<Rightarrow> payload_input \<Rightarrow> jsobj" where
  "full_payload to_iso input =
     set_if True ''reply'' (pi_reply input)
       (set_if (has_interrupts input) ''interrupts'' (pi_interrupts input)
         (set_if True ''error'' (map_option JStr (pi_error input))
           (jm_set ''run_ended_at'' (JStr (pi_run_ended_at input))
             (jm_set ''run_started_at'' (JStr (pi_run_started_at input))
               (jm_set ''values'' (pi_values input) (run_object to_iso (pi_run input)))))))"

definition build_delivery_payload ::
  "(jsval \<Rightarrow> nat option) \<Rightarrow> (instant \<Rightarrow> string) \<Rightarrow> payload_input \<Rightarrow> built_payload option" where
  "build_delivery_payload wire_size to_iso input =
     (let payload = full_payload to_iso input;
          cap = or_default (pi_max_payload_bytes input) DEFAULT_MAX_PAYLOAD_BYTES
      in case wire_size (JObj payload) of
           None \<Rightarrow> None
         | Some bytes \<Rightarrow>
             if bytes \<le> cap
             then Some \<lparr>bp_payload = JObj payload, bp_truncated = False, bp_bytes = bytes\<rparr>
             else
               let without_values = jm_set ''values'' (marker ''values'' bytes cap) payload
               in case wire_size (JObj without_values) of
                    None \<Rightarrow> None
                  | Some after_values \<Rightarrow>
                      if \<not> has_interrupts input \<or> after_values \<le> cap
                      then Some \<lparr>bp_payload = JObj without_values, bp_truncated = True, bp_bytes = bytes\<rparr>
                      else Some \<lparr>bp_payload = JObj (jm_set ''interrupts'' (marker ''interrupts'' bytes cap) without_values),
                                 bp_truncated = True, bp_bytes = bytes\<rparr>)"

end
