(* ===== verification/RunEngine.thy ===== *)
theory RunEngine
  imports RunCancelling RunCallOptions GraphFrames ThreadMirror DeliveryPayload
begin

text \<open>
  The run engine, \<^verbatim>\<open>executeRun\<close> of \<^verbatim>\<open>runs/run-engine.ts\<close>, for runs that are neither native nor
  A2A runs nor runs of the thread protocol: it drives the agent, publishes a frame per chunk, settles
  the row together with the callback it owes, and mirrors the outcome onto the thread.

  An execution is a computation in a state and exception monad. Its state is the service state of
  RunService, which everybody shares, and the local variables of the function. The environment says
  what the rest of the world does: what the other requests do in the n-th await (a timer that aborts
  the run, an abort forwarded by another instance and a cancel are among it), the clock, the agent, and
  the checkpointer. Logging, telemetry and the thread bus are left out; an await of theirs is part of a
  neighbouring gap. Whether an error was thrown by the store or by the agent, \<open>toRunError\<close> of it is a
  function of the environment.
\<close>

section \<open>State and environment\<close>

datatype failure = StoreThrew thrown | AgentThrew run_error

record engine =
  eg_service :: run_service
  eg_awaits :: nat
  eg_frames :: "run_frame list"
  eg_seq :: nat
  eg_started :: bool
  eg_recorded :: "delivery option"
  eg_reply :: "jsval option"
  eg_message :: "string option"

record run_execution =
  ex_run :: run
  ex_kwargs :: run_kwargs
  ex_control :: nat
  ex_record_base :: "(ident option \<Rightarrow> run_service \<Rightarrow> run_service) option"

text \<open>
  \<open>en_resolve\<close> fails when the graph cannot be resolved; \<open>en_chunks\<close> are what the agent yields before it
  ends or fails, \<open>en_snapshot\<close> its state afterwards, \<open>en_base\<close> the tip the checkpointer reads
  (\<open>None\<close>: the read failed). \<open>en_error\<close> is \<^verbatim>\<open>toRunError\<close> of what the store throws.
\<close>

record engine_env =
  en_gap :: gaps
  en_now :: "nat \<Rightarrow> instant"
  en_fresh :: "nat \<Rightarrow> ident"
  en_error :: "thrown \<Rightarrow> run_error"
  en_resolve :: "failure option"
  en_streams_events :: bool
  en_chunks :: "jsval list"
  en_stream_failure :: "failure option"
  en_snapshot :: "failure + agent_snapshot"
  en_base :: "ident option option"
  en_wire_size :: "jsval \<Rightarrow> nat option"
  en_iso :: "instant \<Rightarrow> string"
  en_max_payload_bytes :: "nat option"
  en_webhook_timeout_ms :: int
  en_retain_hours :: "int option"

definition engine_error :: "engine_env \<Rightarrow> failure \<Rightarrow> run_error" where
  "engine_error E f = (case f of StoreThrew t \<Rightarrow> en_error E t | AgentThrew e \<Rightarrow> e)"

type_synonym 'a eng = "engine \<Rightarrow> (failure + 'a) \<times> engine"

definition ereturn :: "'a \<Rightarrow> 'a eng" where "ereturn x e = (Inr x, e)"

definition ethrow :: "failure \<Rightarrow> 'a eng" where "ethrow f e = (Inl f, e)"

definition ebind :: "'a eng \<Rightarrow> ('a \<Rightarrow> 'b eng) \<Rightarrow> 'b eng" where
  "ebind m k e = (case m e of (Inl f, e') \<Rightarrow> (Inl f, e') | (Inr x, e') \<Rightarrow> k x e')"

definition ecatch :: "'a eng \<Rightarrow> (failure \<Rightarrow> 'a eng) \<Rightarrow> 'a eng" where
  "ecatch m h e = (case m e of (Inl f, e') \<Rightarrow> h f e' | (Inr x, e') \<Rightarrow> (Inr x, e'))"

definition elocal :: "(engine \<Rightarrow> engine) \<Rightarrow> unit eng" where "elocal f e = (Inr (), f e)"

definition eget :: "(engine \<Rightarrow> 'a) \<Rightarrow> 'a eng" where "eget f e = (Inr (f e), e)"

text \<open>An awaited operation: it acts at once, then others do.\<close>

definition awaited :: "engine_env \<Rightarrow> (instant \<Rightarrow> run_service \<Rightarrow> (failure + 'a) \<times> run_service) \<Rightarrow> 'a eng" where
  "awaited E op e =
     (let n = eg_awaits e;
          (out, sv) = op (en_now E n) (eg_service e)
      in (out, e\<lparr>eg_service := en_gap E n sv, eg_awaits := Suc n\<rparr>))"

definition on_store ::
  "(instant \<Rightarrow> mem_store \<Rightarrow> (thrown + 'a) \<times> mem_store) \<Rightarrow> instant \<Rightarrow> run_service \<Rightarrow> (failure + 'a) \<times> run_service" where
  "on_store op now sv =
     (case op now (sv_store sv) of
        (Inl t, st) \<Rightarrow> (Inl (StoreThrew t), sv\<lparr>sv_store := st\<rparr>)
      | (Inr x, st) \<Rightarrow> (Inr x, sv\<lparr>sv_store := st\<rparr>))"

definition read_store :: "(mem_store \<Rightarrow> 'a) \<Rightarrow> instant \<Rightarrow> run_service \<Rightarrow> (failure + 'a) \<times> run_service" where
  "read_store f now sv = (Inr (f (sv_store sv)), sv)"

definition await_only :: "engine_env \<Rightarrow> unit eng" where
  "await_only E = awaited E (\<lambda>_ sv. (Inr (), sv))"

section \<open>The abort signal\<close>

definition control_box :: "run_execution \<Rightarrow> engine \<Rightarrow> abort_box" where
  "control_box X e = cr_boxes (sv_control (eg_service e)) ! ex_control X"

definition signal_aborted :: "run_execution \<Rightarrow> engine \<Rightarrow> bool" where
  "signal_aborted X e = ab_aborted (control_box X e)"

definition abort_reason_now :: "run_execution \<Rightarrow> engine \<Rightarrow> abort_reason option" where
  "abort_reason_now X e = ab_reason (control_box X e)"

definition RUN_TIMEOUT_ERROR :: run_error where
  "RUN_TIMEOUT_ERROR = RunError ''TimeoutError'' ''TimeoutError'' ''Run timed out.'' None [] None"

definition aborted_status :: "abort_reason option \<Rightarrow> run_status" where
  "aborted_status reason =
     (if reason = Some ByTimeout then TimedOut
      else if reason = Some ByInterrupt then Interrupted
      else Cancelled)"

definition throw_if_aborted :: "run_execution \<Rightarrow> unit eng" where
  "throw_if_aborted X =
     ebind (eget (signal_aborted X)) (\<lambda>aborted. if aborted then ethrow (StoreThrew Aborted) else ereturn ())"

section \<open>Writing the thread mirror\<close>

text \<open>\<^verbatim>\<open>mirrorThread\<close>: leaving the error state also drops the error an earlier run left in the metadata.\<close>

definition effective_patch :: "thread_update \<Rightarrow> jsval \<Rightarrow> thread_update" where
  "effective_patch patch metadata =
     (case tu_status patch of
        None \<Rightarrow> patch
      | Some st \<Rightarrow>
          if st = ThreadErrored then patch
          else
            let healthy = patch\<lparr>tu_error := Null\<rparr>
            in if tu_metadata patch = None \<and> jm_has (js_entries metadata) ''error''
               then healthy\<lparr>tu_metadata := Some (JObj (jm_delete ''error'' (js_entries metadata)))\<rparr>
               else healthy)"

definition update_thread :: "engine_env \<Rightarrow> ident \<Rightarrow> thread_update \<Rightarrow> unit eng" where
  "update_thread E thread_id patch =
     ebind (awaited E (on_store (thread_update_op thread_id patch))) (\<lambda>_. ereturn ())"

definition mirror_thread :: "engine_env \<Rightarrow> ident \<Rightarrow> thread_update \<Rightarrow> unit eng" where
  "mirror_thread E thread_id patch =
     ebind (awaited E (read_store (thread_get thread_id))) (\<lambda>found.
       case found of
         None \<Rightarrow> ereturn ()
       | Some t \<Rightarrow> update_thread E thread_id (effective_patch patch (t_metadata t)))"

definition mirror_thread_status :: "engine_env \<Rightarrow> ident \<Rightarrow> thread_status \<Rightarrow> unit eng" where
  "mirror_thread_status E thread_id status =
     mirror_thread E thread_id (empty_thread_update\<lparr>tu_status := Some status\<rparr>)"

definition mirror_thread_error :: "engine_env \<Rightarrow> ident \<Rightarrow> string \<Rightarrow> unit eng" where
  "mirror_thread_error E thread_id message =
     ebind (awaited E (read_store (thread_get thread_id))) (\<lambda>found.
       case found of
         None \<Rightarrow> ereturn ()
       | Some t \<Rightarrow>
           update_thread E thread_id
             (empty_thread_update\<lparr>tu_status := Some ThreadErrored,
                tu_metadata := Some (js_spread (t_metadata t) (JObj [(''error'', JStr message)])),
                tu_error := Value message\<rparr>))"

section \<open>Settling\<close>

text \<open>\<^verbatim>\<open>finalizeRun\<close> as an awaited call: its own two awaits.\<close>

definition engine_finalize :: "engine_env \<Rightarrow> ident \<Rightarrow> run_status \<Rightarrow> run_error option \<Rightarrow> run_status eng" where
  "engine_finalize E run_id status err e =
     (let n = eg_awaits e;
          (out, sv) = finalize_run (later n (en_gap E)) (en_now E n) run_id status err (eg_service e);
          e' = e\<lparr>eg_service := en_gap E (Suc n) sv, eg_awaits := n + 2\<rparr>
      in (case out of Inl t \<Rightarrow> (Inl (StoreThrew t), e') | Inr st \<Rightarrow> (Inr st, e')))"

definition empty_values :: run_result where
  "empty_values = \<lparr>rr_values = JObj [], rr_interrupts = None, rr_reply = None, rr_checkpoint = None\<rparr>"

definition settle_payload :: "engine_env \<Rightarrow> run_execution \<Rightarrow> instant \<Rightarrow> instant \<Rightarrow> run_result \<Rightarrow> run_error option \<Rightarrow>
    payload_input" where
  "settle_payload E X started_at ended_at result err =
     \<lparr>pi_run = ex_run X, pi_values = rr_values result,
      pi_run_started_at = en_iso E started_at, pi_run_ended_at = en_iso E ended_at,
      pi_error = map_option re_message err, pi_interrupts = rr_interrupts result,
      pi_reply = rr_reply result, pi_max_payload_bytes = en_max_payload_bytes E\<rparr>"

definition DEFAULT_RETAIN_HOURS :: int where "DEFAULT_RETAIN_HOURS = 24"

definition settle_callback :: "engine_env \<Rightarrow> run_execution \<Rightarrow> string \<Rightarrow> instant \<Rightarrow> built_payload \<Rightarrow> delivery_create" where
  "settle_callback E X url ended_at built =
     \<lparr>dc_delivery_id = None, dc_thread_id = r_thread_id (ex_run X), dc_url = url,
      dc_payload = bp_payload built, dc_payload_truncated = Some (bp_truncated built),
      dc_next_attempt_at = ended_at + delivery_lease_ms 1 (en_webhook_timeout_ms E),
      dc_expires_at = ended_at + or_default (en_retain_hours E) DEFAULT_RETAIN_HOURS * 3600000\<rparr>"

text \<open>
  \<^verbatim>\<open>settleRun\<close> over a store with an outbox: the status and the callback in one write, unless none is
  owed, one was recorded already, or its body cannot be serialized. \<open>started_at\<close> is the clock when the
  execution began.
\<close>

definition record_delivery ::
  "engine_env \<Rightarrow> run_execution \<Rightarrow> run_status \<Rightarrow> run_error option \<Rightarrow> delivery_create \<Rightarrow> run_status eng" where
  "record_delivery E X status err callback =
     ebind (eget eg_awaits) (\<lambda>n.
     ebind (awaited E (\<lambda>now sv.
              let ((_, d), st) = finalize_with_delivery (r_run_id (ex_run X)) status err callback
                                   (en_fresh E n) now (sv_store sv)
              in (Inr d, sv\<lparr>sv_store := st\<rparr>))) (\<lambda>d.
     ebind (elocal (\<lambda>e. e\<lparr>eg_recorded := Some d\<rparr>)) (\<lambda>_.
     ereturn (dl_run_status d))))"

definition settle_run ::
  "engine_env \<Rightarrow> run_execution \<Rightarrow> instant \<Rightarrow> run_status \<Rightarrow> run_result \<Rightarrow> run_error option \<Rightarrow> run_status eng" where
  "settle_run E X started_at status result err e =
     (let plain = engine_finalize E (r_run_id (ex_run X)) status err;
          ended_at = en_now E (eg_awaits e)
      in case kw_webhook (ex_kwargs X) of
           None \<Rightarrow> plain e
         | Some url \<Rightarrow>
             if \<not> eg_started e \<or> eg_recorded e \<noteq> None then plain e
             else
               (case build_delivery_payload (en_wire_size E) (en_iso E)
                       (settle_payload E X started_at ended_at result err) of
                  None \<Rightarrow> plain e
                | Some built \<Rightarrow>
                    record_delivery E X status err (settle_callback E X url ended_at built) e))"

section \<open>Publishing\<close>

definition publish_frame :: "engine_env \<Rightarrow> run_frame \<Rightarrow> unit eng" where
  "publish_frame E f =
     ebind (elocal (\<lambda>e. e\<lparr>eg_frames := eg_frames e @ [f]\<rparr>)) (\<lambda>_. await_only E)"

definition capture_declared_reply :: "jsval \<Rightarrow> unit eng" where
  "capture_declared_reply data =
     (case read_declared_reply data of
        None \<Rightarrow> ereturn ()
      | Some reply \<Rightarrow> elocal (\<lambda>e. e\<lparr>eg_reply := Some reply\<rparr>))"

definition next_seq :: "nat eng" where
  "next_seq = ebind (elocal (\<lambda>e. e\<lparr>eg_seq := Suc (eg_seq e)\<rparr>)) (\<lambda>_. eget eg_seq)"

text \<open>One turn of the loop over the stream; an event that becomes no frame is skipped.\<close>

definition publish_body :: "engine_env \<Rightarrow> frame_body option \<Rightarrow> unit eng" where
  "publish_body E body =
     ebind (await_only E) (\<lambda>_.
       case body of
         None \<Rightarrow> ereturn ()
       | Some b \<Rightarrow>
           ebind next_seq (\<lambda>n.
           ebind (capture_declared_reply (fb_data b)) (\<lambda>_.
           publish_frame E (to_run_frame n b))))"

fun drive :: "engine_env \<Rightarrow> frame_body option list \<Rightarrow> unit eng" where
  "drive E [] = (case en_stream_failure E of None \<Rightarrow> await_only E | Some f \<Rightarrow> ebind (await_only E) (\<lambda>_. ethrow f))"
| "drive E (body # bodies) = ebind (publish_body E body) (\<lambda>_. drive E bodies)"

definition stream_bodies :: "engine_env \<Rightarrow> run_execution \<Rightarrow> frame_body option list" where
  "stream_bodies E X =
     (let kwargs = ex_kwargs X;
          options = to_graph_call_options kwargs (r_thread_id (ex_run X))
      in if wants_events_mode (kw_field kwargs ''stream_mode'')
         then map (\<lambda>event. stream_event_to_frame_body event (r_run_id (ex_run X)) (go_stream_mode options)
                             (go_subgraphs options)) (en_chunks E)
         else map (\<lambda>chunk. Some (chunk_to_frame_body chunk (go_subgraphs options))) (en_chunks E))"

definition stream_run :: "engine_env \<Rightarrow> run_execution \<Rightarrow> unit eng" where
  "stream_run E X =
     ebind (throw_if_aborted X) (\<lambda>_.
       if wants_events_mode (kw_field (ex_kwargs X) ''stream_mode'') \<and> \<not> en_streams_events E
       then ethrow (StoreThrew (Http \<lparr>he_status = 422, he_code = None\<rparr>))
       else drive E (stream_bodies E X))"

section \<open>The execution\<close>

record run_outcome = run_result +
  oc_status :: run_status
  oc_error :: "run_error option"

definition plain_outcome :: "run_status \<Rightarrow> run_error option \<Rightarrow> run_outcome" where
  "plain_outcome status err =
     \<lparr>rr_values = JObj [], rr_interrupts = None, rr_reply = None, rr_checkpoint = None,
      oc_status = status, oc_error = err\<rparr>"

definition result_outcome :: "run_result \<Rightarrow> run_status \<Rightarrow> run_outcome" where
  "result_outcome result status =
     \<lparr>rr_values = rr_values result, rr_interrupts = rr_interrupts result, rr_reply = rr_reply result,
      rr_checkpoint = rr_checkpoint result, oc_status = status, oc_error = None\<rparr>"

definition snapshot_result :: "agent_snapshot \<Rightarrow> jsval option \<Rightarrow> run_result" where
  "snapshot_result snapshot reply =
     \<lparr>rr_values = sn_values snapshot, rr_interrupts = Some (JObj (collect_interrupts snapshot)),
      rr_reply = reply, rr_checkpoint = to_checkpoint (sn_config snapshot)\<rparr>"

text \<open>The agent finished although the run was aborted meanwhile: the abort counts.\<close>

definition finish_aborted :: "engine_env \<Rightarrow> run_execution \<Rightarrow> instant \<Rightarrow> run_outcome eng" where
  "finish_aborted E X started_at =
     ebind (eget (abort_reason_now X)) (\<lambda>reason.
       let status = aborted_status reason;
           timed_out = (if status = TimedOut then Some RUN_TIMEOUT_ERROR else None)
       in ebind (settle_run E X started_at status empty_values timed_out) (\<lambda>final.
          ebind (if final = TimedOut
                 then mirror_thread_error E (r_thread_id (ex_run X)) (re_message RUN_TIMEOUT_ERROR)
                 else mirror_thread_status E (r_thread_id (ex_run X)) Idle) (\<lambda>_.
          ereturn (plain_outcome final timed_out))))"

definition finish_snapshot :: "engine_env \<Rightarrow> run_execution \<Rightarrow> instant \<Rightarrow> agent_snapshot \<Rightarrow> run_outcome eng" where
  "finish_snapshot E X started_at snapshot =
     ebind (eget eg_reply) (\<lambda>reply.
       let computed = run_status_for_snapshot snapshot;
           result = snapshot_result snapshot reply
       in ebind (settle_run E X started_at computed result None) (\<lambda>final.
          ebind (if final = computed
                 then mirror_thread E (r_thread_id (ex_run X)) (snapshot_to_thread_update snapshot final)
                 else mirror_thread_status E (r_thread_id (ex_run X))
                        (if final = Errored then ThreadErrored else Idle)) (\<lambda>_.
          ereturn (result_outcome result final))))"

definition finish_run :: "engine_env \<Rightarrow> run_execution \<Rightarrow> instant \<Rightarrow> run_outcome eng" where
  "finish_run E X started_at =
     ebind (eget (signal_aborted X)) (\<lambda>aborted.
       if aborted then finish_aborted E X started_at
       else
         ebind (await_only E) (\<lambda>_.
           case en_snapshot E of
             Inl f \<Rightarrow> ethrow f
           | Inr snapshot \<Rightarrow> finish_snapshot E X started_at snapshot))"

definition record_base :: "engine_env \<Rightarrow> run_execution \<Rightarrow> unit eng" where
  "record_base E X =
     (case ex_record_base X of
        None \<Rightarrow> ereturn ()
      | Some record_tip \<Rightarrow>
          ebind (await_only E) (\<lambda>_.
            case en_base E of
              None \<Rightarrow> ereturn ()
            | Some tip \<Rightarrow> elocal (\<lambda>e. e\<lparr>eg_service := record_tip tip (eg_service e)\<rparr>)))"

text \<open>From the assistant to the end of the stream.\<close>

definition run_agent :: "engine_env \<Rightarrow> run_execution \<Rightarrow> unit eng" where
  "run_agent E X =
     ebind (awaited E (read_store (\<lambda>s. jm_get (ms_assistants s) (r_assistant_id (ex_run X))))) (\<lambda>found.
       case found of
         None \<Rightarrow> ethrow (StoreThrew not_found)
       | Some assistant \<Rightarrow>
           ebind (await_only E) (\<lambda>_.
             case en_resolve E of
               Some f \<Rightarrow> ethrow f
             | None \<Rightarrow> stream_run E X))"

text \<open>The body of the \<^verbatim>\<open>try\<close>, and what follows once the row is running.\<close>

definition started_run :: "engine_env \<Rightarrow> run_execution \<Rightarrow> instant \<Rightarrow> run_outcome eng" where
  "started_run E X started_at =
     ebind (elocal (\<lambda>e. e\<lparr>eg_started := True\<rparr>)) (\<lambda>_.
     ebind (mirror_thread_status E (r_thread_id (ex_run X)) Busy) (\<lambda>_.
     ebind (record_base E X) (\<lambda>_.
     ebind (run_agent E X) (\<lambda>_.
     finish_run E X started_at))))"

definition terminal_row :: "run option \<Rightarrow> run_status option" where
  "terminal_row found =
     (case found of
        None \<Rightarrow> None
      | Some r \<Rightarrow> if is_terminal_run_status (r_status r) then Some (r_status r) else None)"

definition attempt_run :: "engine_env \<Rightarrow> run_execution \<Rightarrow> instant \<Rightarrow> run_outcome eng" where
  "attempt_run E X started_at =
     ebind (awaited E (read_store (run_get (r_run_id (ex_run X))))) (\<lambda>current.
       case terminal_row current of
         Some status \<Rightarrow> ereturn (plain_outcome status None)
       | None \<Rightarrow>
           ebind (awaited E (on_store (set_status (r_run_id (ex_run X)) Running None))) (\<lambda>running.
             if is_terminal_run_status (r_status running)
             then ereturn (plain_outcome (r_status running) None)
             else started_run E X started_at))"

text \<open>The \<^verbatim>\<open>catch\<close>: a timeout, an abort, or a failure of the agent or the store.\<close>

definition handle_timeout :: "engine_env \<Rightarrow> run_execution \<Rightarrow> instant \<Rightarrow> run_outcome eng" where
  "handle_timeout E X started_at =
     ebind (settle_run E X started_at TimedOut empty_values (Some RUN_TIMEOUT_ERROR)) (\<lambda>final.
     ebind (if final = TimedOut
            then mirror_thread_error E (r_thread_id (ex_run X)) (re_message RUN_TIMEOUT_ERROR)
            else ereturn ()) (\<lambda>_.
     ereturn (plain_outcome final (Some RUN_TIMEOUT_ERROR))))"

definition handle_abort :: "engine_env \<Rightarrow> run_execution \<Rightarrow> instant \<Rightarrow> abort_reason option \<Rightarrow> run_outcome eng" where
  "handle_abort E X started_at reason =
     ebind (settle_run E X started_at (aborted_status reason) empty_values None) (\<lambda>final.
     ebind (mirror_thread_status E (r_thread_id (ex_run X)) Idle) (\<lambda>_.
     ereturn (plain_outcome final None)))"

definition error_frame :: "nat \<Rightarrow> run_error \<Rightarrow> run_frame" where
  "error_frame n err = \<lparr>fr_seq = n, fr_event = ''error'', fr_namespace = None, fr_data = run_error_object err\<rparr>"

definition handle_error :: "engine_env \<Rightarrow> run_execution \<Rightarrow> instant \<Rightarrow> run_error \<Rightarrow> run_outcome eng" where
  "handle_error E X started_at wire_error =
     ebind next_seq (\<lambda>n.
     ebind (publish_frame E (error_frame n wire_error)) (\<lambda>_.
     ebind (settle_run E X started_at Errored empty_values (Some wire_error)) (\<lambda>final.
     ebind (if final = Errored
            then mirror_thread_error E (r_thread_id (ex_run X)) (re_message wire_error)
            else ereturn ()) (\<lambda>_.
     ebind (elocal (\<lambda>e. e\<lparr>eg_message := Some (re_message wire_error)\<rparr>)) (\<lambda>_.
     ereturn (plain_outcome final (Some wire_error)))))))"

definition handle_failure :: "engine_env \<Rightarrow> run_execution \<Rightarrow> instant \<Rightarrow> failure \<Rightarrow> run_outcome eng" where
  "handle_failure E X started_at f =
     ebind (eget (abort_reason_now X)) (\<lambda>reason.
     ebind (eget (signal_aborted X)) (\<lambda>aborted.
       if reason = Some ByTimeout then handle_timeout E X started_at
       else if reason \<in> {Some ByCancel, Some ByInterrupt, Some ByRollback} \<or> aborted
       then handle_abort E X started_at reason
       else handle_error E X started_at (engine_error E f)))"

text \<open>
  The \<^verbatim>\<open>finally\<close>: the bus closes, and the callback is handed to the caller: the attempt of the
  delivery that was recorded, or, when its body could not be serialized, one plain POST.
\<close>

datatype callback = AttemptRecorded delivery | PostOnce string jsobj

definition once_payload :: "engine_env \<Rightarrow> run_execution \<Rightarrow> instant \<Rightarrow> run_outcome \<Rightarrow> engine \<Rightarrow> jsobj" where
  "once_payload E X started_at outcome e =
     (let sent_at = JStr (en_iso E (en_now E (eg_awaits e)));
          interrupts = (case rr_interrupts outcome of
                          None \<Rightarrow> None | Some v \<Rightarrow> if 0 < length (js_entries v) then Some v else None)
      in set_if True ''reply'' (rr_reply outcome)
           (set_if True ''interrupts'' interrupts
             (set_if True ''error'' (map_option JStr (eg_message e))
               (jm_set ''webhook_sent_at'' sent_at
                 (jm_set ''run_ended_at'' sent_at
                   (jm_set ''run_started_at'' (JStr (en_iso E started_at))
                     (jm_set ''values'' (rr_values outcome)
                       (jm_set ''status'' (JStr (run_status_text (oc_status outcome)))
                         (run_object (en_iso E) (ex_run X))))))))))"

definition owed_callback :: "engine_env \<Rightarrow> run_execution \<Rightarrow> instant \<Rightarrow> run_outcome \<Rightarrow> engine \<Rightarrow> callback option" where
  "owed_callback E X started_at outcome e =
     (case eg_recorded e of
        Some d \<Rightarrow> Some (AttemptRecorded d)
      | None \<Rightarrow>
          (case kw_webhook (ex_kwargs X) of
             None \<Rightarrow> None
           | Some url \<Rightarrow>
               if \<not> eg_started e then None
               else Some (PostOnce url (once_payload E X started_at outcome e))))"

definition fresh_engine :: "run_service \<Rightarrow> engine" where
  "fresh_engine sv =
     \<lparr>eg_service = sv, eg_awaits = 0, eg_frames = [], eg_seq = 0, eg_started = False, eg_recorded = None,
      eg_reply = None, eg_message = None\<rparr>"

definition execute_run ::
  "engine_env \<Rightarrow> run_execution \<Rightarrow> run_service \<Rightarrow> ((failure + run_outcome) \<times> callback option) \<times> engine" where
  "execute_run E X sv =
     (let started_at = en_now E 0;
          (out, e) = ecatch (attempt_run E X started_at) (handle_failure E X started_at) (fresh_engine sv);
          outcome = (case out of Inr finished \<Rightarrow> finished | Inl _ \<Rightarrow> plain_outcome Errored None);
          n = eg_awaits e;
          closed = e\<lparr>eg_service := en_gap E n (close_bus (r_run_id (ex_run X)) (eg_service e)), eg_awaits := Suc n\<rparr>
      in ((out, owed_callback E X started_at outcome closed), closed))"

end
