(* ===== verification/RunEngineLaws.thy ===== *)
theory RunEngineLaws
  imports RunEngine
begin

text \<open>
  What an execution of the engine guarantees whatever happens in its awaits: the row of a run it was
  given is over afterwards, the run's bus is closed, and at most one callback was recorded for it. The
  proofs follow the code through a triple with one postcondition for each way a computation can end.
\<close>

section \<open>Triples\<close>

definition ends :: "(engine \<Rightarrow> bool) \<Rightarrow> 'a eng \<Rightarrow> ('a \<Rightarrow> engine \<Rightarrow> bool) \<Rightarrow> (engine \<Rightarrow> bool) \<Rightarrow> bool" where
  "ends P m Q R \<longleftrightarrow> (\<forall>e. P e \<longrightarrow> (case m e of (Inr x, e') \<Rightarrow> Q x e' | (Inl _, e') \<Rightarrow> R e'))"

named_theorems triple \<open>how the engine's computations end\<close>

lemma endsD: "ends P m Q R \<Longrightarrow> P e \<Longrightarrow> (case m e of (Inr x, e') \<Rightarrow> Q x e' | (Inl _, e') \<Rightarrow> R e')"
  by (simp add: ends_def)

lemma ends_weaken:
  "ends P m Q R \<Longrightarrow> (\<And>e. P' e \<Longrightarrow> P e) \<Longrightarrow> (\<And>x e. Q x e \<Longrightarrow> Q' x e) \<Longrightarrow> (\<And>e. R e \<Longrightarrow> R' e) \<Longrightarrow> ends P' m Q' R'"
  unfolding ends_def by (fastforce split: prod.splits sum.splits)

lemma ends_bind: "ends P m Q R \<Longrightarrow> (\<And>x. ends (Q x) (k x) S R) \<Longrightarrow> ends P (ebind m k) S R"
  unfolding ends_def ebind_def by (fastforce split: prod.splits sum.splits)

lemma ends_seq: "ends I m (\<lambda>_. I) I \<Longrightarrow> (\<And>x. ends I (k x) (\<lambda>_. I) I) \<Longrightarrow> ends I (ebind m k) (\<lambda>_. I) I"
  by (rule ends_bind)

lemma ends_catch: "ends P m Q R \<Longrightarrow> (\<And>f. ends R (h f) Q S) \<Longrightarrow> ends P (ecatch m h) Q S"
  unfolding ends_def ecatch_def by (fastforce split: prod.splits sum.splits)

lemma ends_return: "(\<And>e. P e \<Longrightarrow> Q x e) \<Longrightarrow> ends P (ereturn x) Q R"
  by (simp add: ends_def ereturn_def)

lemma ends_throw: "(\<And>e. P e \<Longrightarrow> R e) \<Longrightarrow> ends P (ethrow f) Q R"
  by (simp add: ends_def ethrow_def)

lemma ends_get: "ends (\<lambda>e. Q (f e) e) (eget f) Q R"
  by (simp add: ends_def eget_def)

lemma ends_local: "(\<And>e. P e \<Longrightarrow> Q () (f e)) \<Longrightarrow> ends P (elocal f) Q R"
  by (simp add: ends_def elocal_def)

lemma ends_if: "(b \<Longrightarrow> ends P m Q R) \<Longrightarrow> (\<not> b \<Longrightarrow> ends P m' Q R) \<Longrightarrow> ends P (if b then m else m') Q R"
  by simp

lemma ends_option:
  "(v = None \<Longrightarrow> ends P m Q R) \<Longrightarrow> (\<And>x. v = Some x \<Longrightarrow> ends P (k x) Q R) \<Longrightarrow>
   ends P (case v of None \<Rightarrow> m | Some x \<Rightarrow> k x) Q R"
  by (cases v) simp_all

section \<open>Invariants of an execution\<close>

text \<open>
  \<open>R\<close> bounds what the other requests do in an await. An invariant of the engine is kept by them and by
  the thread mirror; one that is kept by settling needs to survive the status write, and the write of a
  callback together with its note; one that is kept by running survives the local notes and every frame
  an agent can cause.
\<close>

definition relies :: "engine_env \<Rightarrow> (run_service \<Rightarrow> run_service \<Rightarrow> bool) \<Rightarrow> bool" where
  "relies E R \<longleftrightarrow> (\<forall>n sv. R sv (en_gap E n sv))"

abbreviation with_store :: "mem_store \<Rightarrow> engine \<Rightarrow> engine" where
  "with_store st e \<equiv> e\<lparr>eg_service := (eg_service e)\<lparr>sv_store := st\<rparr>\<rparr>"

locale engine_invariant =
  fixes I :: "engine \<Rightarrow> bool" and R :: "run_service \<Rightarrow> run_service \<Rightarrow> bool"
  assumes others: "I e \<Longrightarrow> R (eg_service e) sv \<Longrightarrow> I (e\<lparr>eg_service := sv, eg_awaits := n\<rparr>)"
    and mirrored: "I e \<Longrightarrow> thread_update_op t p now (sv_store (eg_service e)) = (out, st) \<Longrightarrow> I (with_store st e)"

locale settling_invariant = engine_invariant +
  assumes status_written: "I e \<Longrightarrow> set_status i s err now (sv_store (eg_service e)) = (out', st) \<Longrightarrow> I (with_store st e)"
    and recorded: "I e \<Longrightarrow> eg_recorded e = None \<Longrightarrow>
      finalize_with_delivery i s err c uuid now (sv_store (eg_service e)) = ((row, d), st) \<Longrightarrow>
      R ((eg_service e)\<lparr>sv_store := st\<rparr>) sv \<Longrightarrow>
      I (e\<lparr>eg_service := sv, eg_awaits := n, eg_recorded := Some d\<rparr>)"
    and message_noted: "I e \<Longrightarrow> I (e\<lparr>eg_message := m\<rparr>)"

locale running_invariant = settling_invariant +
  assumes started_noted: "I e \<Longrightarrow> I (e\<lparr>eg_started := b\<rparr>)"
    and reply_noted: "I e \<Longrightarrow> I (e\<lparr>eg_reply := v\<rparr>)"
    and published: "I e \<Longrightarrow> safe_body body \<Longrightarrow>
      I (e\<lparr>eg_seq := Suc (eg_seq e), eg_frames := eg_frames e @ [to_run_frame (Suc (eg_seq e)) body]\<rparr>)"

context engine_invariant
begin

lemma awaited_keeps:
  assumes "relies E R"
    and "\<And>e now out sv. I e \<Longrightarrow> op now (eg_service e) = (out, sv) \<Longrightarrow> I (e\<lparr>eg_service := sv\<rparr>)"
  shows "ends I (awaited E op) (\<lambda>_. I) I"
proof -
  have "I (e\<lparr>eg_service := en_gap E n sv, eg_awaits := Suc n\<rparr>)"
    if "I e" "op now (eg_service e) = (out, sv)" for e n now out sv
    using others [OF assms(2) [OF that], of "en_gap E n sv" "Suc n"] assms(1) by (simp add: relies_def)
  then show ?thesis
    by (auto simp: ends_def awaited_def Let_def split: prod.splits sum.splits)
qed

lemma read_keeps: "relies E R \<Longrightarrow> ends I (awaited E (read_store f)) (\<lambda>_. I) I"
  by (rule awaited_keeps) (auto simp: read_store_def)

lemma await_keeps: "relies E R \<Longrightarrow> ends I (await_only E) (\<lambda>_. I) I"
  unfolding await_only_def by (rule awaited_keeps) auto

lemma update_thread_keeps: "relies E R \<Longrightarrow> ends I (update_thread E t p) (\<lambda>_. I) I"
  unfolding update_thread_def
  by (rule ends_bind [OF awaited_keeps])
    (auto simp: on_store_def intro: mirrored ends_return split: prod.splits sum.splits)

lemma mirror_thread_keeps: "relies E R \<Longrightarrow> ends I (mirror_thread E t p) (\<lambda>_. I) I"
  unfolding mirror_thread_def
  by (rule ends_bind [OF read_keeps]) (auto intro: ends_return update_thread_keeps split: option.split)

lemma mirror_status_keeps: "relies E R \<Longrightarrow> ends I (mirror_thread_status E t st) (\<lambda>_. I) I"
  unfolding mirror_thread_status_def by (rule mirror_thread_keeps)

lemma mirror_error_keeps: "relies E R \<Longrightarrow> ends I (mirror_thread_error E t m) (\<lambda>_. I) I"
  unfolding mirror_thread_error_def
  by (rule ends_bind [OF read_keeps]) (auto intro: ends_return update_thread_keeps split: option.split)

end

context settling_invariant
begin

lemma set_status_keeps: "relies E R \<Longrightarrow> ends I (awaited E (on_store (set_status i s err))) (\<lambda>_. I) I"
  by (rule awaited_keeps) (auto simp: on_store_def intro: status_written split: prod.splits sum.splits)

lemma finalize_keeps:
  assumes "relies E R"
  shows "ends I (engine_finalize E i s err) (\<lambda>_. I) I"
proof -
  have step: "I (e\<lparr>eg_service := sv\<rparr>)"
    if "I e" "finalize_run (later n (en_gap E)) now i s err (eg_service e) = (out, sv)" for e n now out sv
  proof -
    let ?e1 = "e\<lparr>eg_service := en_gap E n (eg_service e)\<rparr>"
    have one: "I ?e1"
      using others [OF that(1), of "en_gap E n (eg_service e)" "eg_awaits e"] assms by (simp add: relies_def)
    then show ?thesis
      using that(2) status_written [OF one, of i s err now]
      by (auto simp: finalize_run_def later_def Let_def split: option.splits if_splits prod.splits sum.splits)
  qed
  have "I (e\<lparr>eg_service := en_gap E m sv, eg_awaits := k\<rparr>)"
    if "I e" "finalize_run (later n (en_gap E)) now i s err (eg_service e) = (out, sv)" for e n m k now out sv
    using others [OF step [OF that], of "en_gap E m sv" k] assms by (simp add: relies_def)
  then show ?thesis
    by (auto simp: ends_def engine_finalize_def Let_def split: prod.splits sum.splits)
qed

lemma record_delivery_keeps:
  assumes "relies E R"
  shows "ends (\<lambda>e. I e \<and> eg_recorded e = None) (record_delivery E X s err c) (\<lambda>_. I) I"
  using assms recorded
  by (auto simp: ends_def record_delivery_def ebind_def eget_def awaited_def elocal_def ereturn_def Let_def relies_def
      split: prod.splits)

lemma settle_keeps:
  assumes "relies E R"
  shows "ends I (settle_run E X t s result err) (\<lambda>_. I) I"
proof -
  note plain = finalize_keeps [OF assms, of "r_run_id (ex_run X)" s err]
  note noted = record_delivery_keeps [OF assms, of X s err]
  show ?thesis
    unfolding ends_def
  proof (intro allI impI)
    fix e assume "I e"
    then show "case settle_run E X t s result err e of (Inl _, e') \<Rightarrow> I e' | (Inr x, e') \<Rightarrow> I e'"
      using plain noted unfolding settle_run_def Let_def ends_def
      by (auto split: option.split)
  qed
qed

end

section \<open>The catch keeps what settling keeps\<close>

lemma get_keeps: "ends I (eget f) (\<lambda>_. I) I"
  by (simp add: ends_def eget_def)

lemma return_keeps: "ends I (ereturn x) (\<lambda>_. I) I"
  by (simp add: ends_def ereturn_def)

lemma throw_keeps: "ends I (ethrow f) (\<lambda>_. I) I"
  by (simp add: ends_def ethrow_def)

lemmas plain_keeps = ends_seq ends_if ends_option get_keeps return_keeps throw_keeps

text \<open>What \<^verbatim>\<open>handle_error\<close> does after its frame.\<close>

definition settle_error :: "engine_env \<Rightarrow> run_execution \<Rightarrow> instant \<Rightarrow> run_error \<Rightarrow> run_outcome eng" where
  "settle_error E X t err =
     ebind (settle_run E X t Errored empty_values (Some err)) (\<lambda>final.
     ebind (if final = Errored
            then mirror_thread_error E (r_thread_id (ex_run X)) (re_message err) else ereturn ()) (\<lambda>_.
     ebind (elocal (\<lambda>e. e\<lparr>eg_message := Some (re_message err)\<rparr>)) (\<lambda>_.
     ereturn (plain_outcome final (Some err)))))"

lemma handle_error_eq:
  "handle_error E X t err =
     ebind next_seq (\<lambda>n. ebind (publish_frame E (error_frame n err)) (\<lambda>_. settle_error E X t err))"
  by (simp add: handle_error_def settle_error_def)

context settling_invariant
begin

lemma local_message_keeps: "ends I (elocal (\<lambda>e. e\<lparr>eg_message := m\<rparr>)) (\<lambda>_. I) I"
  by (rule ends_local) (use message_noted in simp)

lemma handle_timeout_keeps: "relies E R \<Longrightarrow> ends I (handle_timeout E X t) (\<lambda>_. I) I"
  unfolding handle_timeout_def by (intro plain_keeps settle_keeps mirror_error_keeps)

lemma handle_abort_keeps: "relies E R \<Longrightarrow> ends I (handle_abort E X t reason) (\<lambda>_. I) I"
  unfolding handle_abort_def by (intro plain_keeps settle_keeps mirror_status_keeps)

lemma settle_error_keeps: "relies E R \<Longrightarrow> ends I (settle_error E X t err) (\<lambda>_. I) I"
  unfolding settle_error_def by (intro plain_keeps settle_keeps mirror_error_keeps local_message_keeps)

lemma finish_keeps:
  assumes "relies E R"
  shows "ends I (finish_run E X t) (\<lambda>_. I) I"
  unfolding finish_run_def finish_aborted_def finish_snapshot_def Let_def
  by (intro plain_keeps settle_keeps mirror_error_keeps mirror_status_keeps mirror_thread_keeps await_keeps assms;
      cases "en_snapshot E";
      simp; intro plain_keeps settle_keeps mirror_error_keeps mirror_status_keeps mirror_thread_keeps await_keeps assms)

end

section \<open>The try keeps what running keeps\<close>

context running_invariant
begin

lemma publish_body_keeps:
  assumes "relies E R" and "\<And>b. body = Some b \<Longrightarrow> safe_body b"
  shows "ends I (publish_body E body) (\<lambda>_. I) I"
proof -
  have pub: "ends I (ebind next_seq (\<lambda>n. ebind (capture_declared_reply (fb_data b)) (\<lambda>_.
      publish_frame E (to_run_frame n b)))) (\<lambda>_. I) I" if "safe_body b" for b
  proof -
    have "I (e\<lparr>eg_seq := Suc (eg_seq e), eg_frames := eg_frames e @ [to_run_frame (Suc (eg_seq e)) b],
               eg_service := en_gap E n (eg_service e), eg_awaits := k\<rparr>)" if "I e" for e n k
      using others [OF published [OF that \<open>safe_body b\<close>], of "en_gap E n (eg_service e)" k] assms(1)
      by (simp add: relies_def)
    moreover have "I (e\<lparr>eg_seq := Suc (eg_seq e), eg_reply := v,
               eg_frames := eg_frames e @ [to_run_frame (Suc (eg_seq e)) b],
               eg_service := en_gap E n (eg_service e), eg_awaits := k\<rparr>)" if "I e" for e n k v
    proof -
      have "e\<lparr>eg_seq := x, eg_reply := v, eg_frames := fs\<rparr> = e\<lparr>eg_seq := x, eg_frames := fs, eg_reply := v\<rparr>" for x fs
        by simp
      then show ?thesis
        using others [OF reply_noted [OF published [OF that \<open>safe_body b\<close>], of v], of "en_gap E n (eg_service e)" k] assms(1)
        by (simp only: relies_def) simp
    qed
    ultimately show ?thesis
      by (auto simp: ends_def ebind_def next_seq_def elocal_def eget_def capture_declared_reply_def ereturn_def
          publish_frame_def await_only_def awaited_def Let_def split: option.split)
  qed
  show ?thesis
    unfolding publish_body_def
    by (intro plain_keeps await_keeps [OF assms(1)] pub assms(2))
qed

lemma drive_keeps:
  "relies E R \<Longrightarrow> \<forall>b. Some b \<in> set bodies \<longrightarrow> safe_body b \<Longrightarrow> ends I (drive E bodies) (\<lambda>_. I) I"
proof (induction E bodies rule: drive.induct)
  case (1 E)
  then show ?case unfolding drive.simps by (intro plain_keeps await_keeps)
next
  case (2 E body bodies)
  then show ?case
    unfolding drive.simps by (intro ends_seq publish_body_keeps) auto
qed

lemma stream_bodies_safe: "Some b \<in> set (stream_bodies E X) \<Longrightarrow> safe_body b"
  by (auto simp: stream_bodies_def Let_def chunk_body_safe split: if_splits dest: event_body_safe [OF sym])

lemma run_agent_keeps:
  assumes "relies E R"
  shows "ends I (run_agent E X) (\<lambda>_. I) I"
proof -
  have "ends I (drive E (stream_bodies E X)) (\<lambda>_. I) I"
    using drive_keeps [OF assms] stream_bodies_safe by blast
  then show ?thesis
    unfolding run_agent_def stream_run_def throw_if_aborted_def
    by (intro plain_keeps read_keeps await_keeps assms)
qed

lemma record_base_keeps:
  assumes "relies E R"
    and "\<And>f tip e. ex_record_base X = Some f \<Longrightarrow> I e \<Longrightarrow> I (e\<lparr>eg_service := f tip (eg_service e)\<rparr>)"
  shows "ends I (record_base E X) (\<lambda>_. I) I"
proof -
  have "ends I (elocal (\<lambda>e. e\<lparr>eg_service := f tip (eg_service e)\<rparr>)) (\<lambda>_. I) I" if "ex_record_base X = Some f" for f tip
    using assms(2) [OF that] by (auto simp: ends_def elocal_def)
  then show ?thesis
    unfolding record_base_def by (intro plain_keeps await_keeps assms(1))
qed

lemma attempt_keeps:
  assumes "relies E R"
    and base: "\<And>f tip e. ex_record_base X = Some f \<Longrightarrow> I e \<Longrightarrow> I (e\<lparr>eg_service := f tip (eg_service e)\<rparr>)"
  shows "ends I (attempt_run E X t) (\<lambda>_. I) I"
proof -
  have noted: "ends I (elocal (\<lambda>e. e\<lparr>eg_started := True\<rparr>)) (\<lambda>_. I) I"
    by (rule ends_local) (use started_noted in simp)
  show ?thesis
    unfolding attempt_run_def started_run_def
    by (intro plain_keeps noted read_keeps set_status_keeps mirror_status_keeps record_base_keeps run_agent_keeps
        finish_keeps assms)
qed

end

section \<open>Whole executions\<close>

text \<open>An invariant that the frames and the closing of a bus do not touch is kept by the whole execution.\<close>

locale unframed_invariant = running_invariant +
  assumes frames_noted: "I e \<Longrightarrow> I (e\<lparr>eg_seq := k, eg_frames := fs\<rparr>)"
    and bus_closed: "I e \<Longrightarrow> I (e\<lparr>eg_service := close_bus i (eg_service e)\<rparr>)"
begin

lemma handle_failure_keeps:
  assumes "relies E R"
  shows "ends I (handle_failure E X t f) (\<lambda>_. I) I"
proof -
  have "I (e\<lparr>eg_seq := k\<rparr>)" if "I e" for e k
    using frames_noted [OF that, where fs = "eg_frames e" and k = k] by simp
  then have seq: "ends I next_seq (\<lambda>_. I) I"
    by (simp add: ends_def next_seq_def ebind_def elocal_def eget_def)
  have "I (e\<lparr>eg_frames := fs\<rparr>)" if "I e" for e fs
    using frames_noted [OF that, where fs = fs and k = "eg_seq e"] by simp
  then have pub: "ends I (publish_frame E g) (\<lambda>_. I) I" for g
    unfolding publish_frame_def by (intro ends_seq await_keeps [OF assms] ends_local) simp
  show ?thesis
    unfolding handle_failure_def handle_error_eq
    by (intro plain_keeps seq pub handle_timeout_keeps handle_abort_keeps settle_error_keeps assms)
qed

lemma execute_keeps:
  assumes "relies E R"
    and base: "\<And>f tip e. ex_record_base X = Some f \<Longrightarrow> I e \<Longrightarrow> I (e\<lparr>eg_service := f tip (eg_service e)\<rparr>)"
    and "I (fresh_engine sv)"
  shows "I (snd (execute_run E X sv))"
proof -
  let ?t = "en_now E 0"
  have "ends I (ecatch (attempt_run E X ?t) (handle_failure E X ?t)) (\<lambda>_. I) I"
    by (rule ends_catch [OF attempt_keeps [OF assms(1)] handle_failure_keeps [OF assms(1)]]) (rule base)
  note ended = endsD [OF this assms(3)]
  then have "I (snd (ecatch (attempt_run E X ?t) (handle_failure E X ?t) (fresh_engine sv)))"
    by (cases "ecatch (attempt_run E X ?t) (handle_failure E X ?t) (fresh_engine sv)")
      (auto split: sum.splits)
  then show ?thesis
    using others [OF bus_closed [where i = "r_run_id (ex_run X)"]] assms(1)
    by (cases "ecatch (attempt_run E X ?t) (handle_failure E X ?t) (fresh_engine sv)")
      (simp add: execute_run_def Let_def relies_def)
qed

end

end
