(* ===== verification/RunEngineEnds.thy ===== *)
theory RunEngineEnds
  imports RunEngineLaws DeliverySignature
begin

text \<open>
  What an execution guarantees whatever happens in its awaits: the run is over afterwards, at most one
  callback was recorded, the frames are numbered without a hole and cannot be forged by the agent, and
  an aborted run is never reported as a success.
\<close>

section \<open>The run is over\<close>

definition over :: "ident \<Rightarrow> run_service \<Rightarrow> bool" where
  "over run_id sv =
     (case run_get run_id (sv_store sv) of None \<Rightarrow> True | Some r \<Rightarrow> is_terminal_run_status (r_status r))"

text \<open>Others may settle or delete the run, and never reopen or recreate it; a closed bus stays closed.\<close>

definition run_stays_over :: "ident \<Rightarrow> run_service \<Rightarrow> run_service \<Rightarrow> bool" where
  "run_stays_over run_id sv sv' \<longleftrightarrow>
     (over run_id sv \<longrightarrow> over run_id sv') \<and> set (sv_closed sv) \<subseteq> set (sv_closed sv')"

lemma thread_update_runs: "thread_update_op t p now s = (out, st) \<Longrightarrow> ms_runs st = ms_runs s"
  by (auto simp: thread_update_op_def Let_def frame_simps split: option.splits if_splits)

interpretation over_kept: engine_invariant "\<lambda>e. over run_id (eg_service e)" "run_stays_over run_id" for run_id
  by unfold_locales (auto simp: run_stays_over_def over_def run_get_def dest!: thread_update_runs)

lemma finalize_run_over:
  assumes "relies E (run_stays_over i)" and "is_terminal_run_status s"
    and "finalize_run (later n (en_gap E)) now i s err sv = (out, sv')"
  shows "over i sv' \<and> (\<forall>st. out = Inr st \<longrightarrow> is_terminal_run_status st)"
proof -
  have gap: "over i sv1 \<Longrightarrow> over i (en_gap E m sv1)" for m sv1
    using assms(1) by (auto simp: relies_def run_stays_over_def)
  show ?thesis
  proof (cases "over i sv")
    case True
    then have "sv' = en_gap E n sv \<and> (\<forall>st. out = Inr st \<longrightarrow> is_terminal_run_status st)"
      using assms(2,3) by (auto simp: finalize_run_def later_def Let_def over_def split: option.splits if_splits)
    with gap [OF True] show ?thesis by simp
  next
    case False
    then show ?thesis
      using assms(2,3)
      by (auto simp: finalize_run_def later_def Let_def over_def run_get_def set_status_def jm_get_set
          split: option.splits if_splits)
  qed
qed

lemma settle_over:
  assumes rely: "relies E (run_stays_over (r_run_id (ex_run X)))" and "is_terminal_run_status s"
  shows "ends (\<lambda>_. True) (settle_run E X t s result err)
           (\<lambda>st e. is_terminal_run_status st \<and> over (r_run_id (ex_run X)) (eg_service e))
           (\<lambda>e. over (r_run_id (ex_run X)) (eg_service e))"
proof -
  let ?i = "r_run_id (ex_run X)"
  have gap: "over ?i sv1 \<Longrightarrow> over ?i (en_gap E m sv1)" for m sv1
    using rely by (auto simp: relies_def run_stays_over_def)
  have plain: "case engine_finalize E ?i s err e of
      (Inl _, e') \<Rightarrow> over ?i (eg_service e')
    | (Inr st, e') \<Rightarrow> is_terminal_run_status st \<and> over ?i (eg_service e')" for e
    using finalize_run_over [OF rely assms(2)] gap
    by (auto simp: engine_finalize_def Let_def split: prod.splits sum.splits)
  have noted: "case record_delivery E X s err c e of
      (Inl _, e') \<Rightarrow> over ?i (eg_service e')
    | (Inr st, e') \<Rightarrow> is_terminal_run_status st \<and> over ?i (eg_service e')" for c e
  proof -
    obtain row d st where fin: "finalize_with_delivery ?i s err c (en_fresh E (eg_awaits e))
        (en_now E (eg_awaits e)) (sv_store (eg_service e)) = ((row, d), st)"
      by (metis prod.exhaust)
    then have "over ?i ((eg_service e)\<lparr>sv_store := st\<rparr>) \<and> is_terminal_run_status (dl_run_status d)"
      using assms(2)
      by (auto simp: finalize_with_delivery_def insert_delivery_def Let_def over_def run_get_def jm_get_set
          split: option.splits if_splits)
    then show ?thesis
      using fin gap
      by (simp add: record_delivery_def ebind_def eget_def awaited_def elocal_def ereturn_def Let_def)
  qed
  show ?thesis
    unfolding ends_def settle_run_def Let_def
    using plain noted by (auto split: option.split)
qed

text \<open>Once settled, mirroring the thread and reporting leave the run over.\<close>

lemma over_after_settling:
  assumes rely: "relies E (run_stays_over (r_run_id (ex_run X)))"
    and "is_terminal_run_status s"
    and "\<And>st. ends (\<lambda>e. over (r_run_id (ex_run X)) (eg_service e)) (k st)
           (\<lambda>_ e. over (r_run_id (ex_run X)) (eg_service e)) (\<lambda>e. over (r_run_id (ex_run X)) (eg_service e))"
    and "\<And>st e. is_terminal_run_status st \<Longrightarrow> (case k st e of (Inr finished, _) \<Rightarrow> is_terminal_run_status (oc_status finished) | _ \<Rightarrow> True)"
  shows "ends (\<lambda>_. True) (ebind (settle_run E X t s result err) k)
           (\<lambda>finished e. is_terminal_run_status (oc_status finished) \<and> over (r_run_id (ex_run X)) (eg_service e))
           (\<lambda>e. over (r_run_id (ex_run X)) (eg_service e))"
proof (rule ends_bind [OF settle_over [OF rely assms(2)]])
  fix st
  show "ends (\<lambda>e. is_terminal_run_status st \<and> over (r_run_id (ex_run X)) (eg_service e)) (k st)
      (\<lambda>finished e. is_terminal_run_status (oc_status finished) \<and> over (r_run_id (ex_run X)) (eg_service e))
      (\<lambda>e. over (r_run_id (ex_run X)) (eg_service e))"
    using assms(3) [of st] assms(4) [of st] unfolding ends_def by (fastforce split: prod.splits sum.splits)
qed

lemma status_kept:
  "is_terminal_run_status (oc_status o') \<Longrightarrow>
   case ebind m (\<lambda>_. ereturn o') e of (Inr finished, _) \<Rightarrow> is_terminal_run_status (oc_status finished) | _ \<Rightarrow> True"
  by (auto simp: ebind_def ereturn_def split: prod.splits sum.splits)

lemma aborted_status_terminal [simp]: "is_terminal_run_status (aborted_status reason)"
  by (simp add: aborted_status_def)

lemma snapshot_status_terminal [simp]: "is_terminal_run_status (run_status_for_snapshot snapshot)"
  by (simp add: run_status_for_snapshot_def)

lemma gap_over: "relies E (run_stays_over i) \<Longrightarrow> over i sv \<Longrightarrow> over i (en_gap E n sv)"
  by (auto simp: relies_def run_stays_over_def)

lemma ends_trivial: "ends (\<lambda>_. True) m (\<lambda>_ _. True) (\<lambda>_. True)"
  by (simp add: ends_def split: prod.split sum.split)

lemma ends_from_get: "(\<And>x. ends (\<lambda>_. True) (k x) Q R) \<Longrightarrow> ends (\<lambda>_. True) (ebind (eget f) k) Q R"
  by (simp add: ends_def ebind_def eget_def)

abbreviation finished_over :: "ident \<Rightarrow> run_outcome \<Rightarrow> engine \<Rightarrow> bool" where
  "finished_over i finished e \<equiv> is_terminal_run_status (oc_status finished) \<and> over i (eg_service e)"

lemma handle_failure_over:
  assumes rely: "relies E (run_stays_over i)" and id: "i = r_run_id (ex_run X)"
  shows "ends (\<lambda>_. True) (handle_failure E X t f) (finished_over i) (\<lambda>e. over i (eg_service e))"
proof -
  note settled = over_after_settling [OF rely [unfolded id], folded id]
  note keep = plain_keeps over_kept.mirror_status_keeps [OF rely] over_kept.mirror_error_keeps [OF rely]
  have one: "ends (\<lambda>_. True) (handle_timeout E X t) (finished_over i) (\<lambda>e. over i (eg_service e))"
    unfolding handle_timeout_def
    by (rule settled, simp, intro keep) (rule status_kept, simp add: plain_outcome_def)
  have two: "ends (\<lambda>_. True) (handle_abort E X t reason) (finished_over i) (\<lambda>e. over i (eg_service e))" for reason
    unfolding handle_abort_def
    by (rule settled, simp, intro keep) (rule status_kept, simp add: plain_outcome_def)
  have settle: "ends (\<lambda>_. True) (settle_error E X t err) (finished_over i) (\<lambda>e. over i (eg_service e))" for err
    unfolding settle_error_def
    by (rule settled, simp, intro keep ends_local, simp)
      (auto simp: ebind_def elocal_def ereturn_def plain_outcome_def split: prod.splits sum.splits)
  have three: "ends (\<lambda>_. True) (handle_error E X t err) (finished_over i) (\<lambda>e. over i (eg_service e))" for err
    unfolding handle_error_eq
    by (rule ends_bind [where Q = "\<lambda>_ _. True"], simp add: ends_def next_seq_def ebind_def elocal_def eget_def,
        rule ends_bind [where Q = "\<lambda>_ _. True"],
        simp add: ends_def publish_frame_def await_only_def awaited_def ebind_def elocal_def Let_def, rule settle)
  show ?thesis
    unfolding handle_failure_def by (intro ends_from_get ends_if one two three)
qed

lemma finish_over:
  assumes rely: "relies E (run_stays_over i)" and id: "i = r_run_id (ex_run X)"
  shows "ends (\<lambda>_. True) (finish_run E X t) (finished_over i) (\<lambda>_. True)"
proof -
  note settled = over_after_settling [OF rely [unfolded id], folded id]
  note keep = plain_keeps over_kept.mirror_thread_keeps [OF rely] over_kept.mirror_status_keeps [OF rely]
    over_kept.mirror_error_keeps [OF rely]
  have ab: "ends (\<lambda>_. True) (finish_aborted E X t) (finished_over i) (\<lambda>e. over i (eg_service e))"
    unfolding finish_aborted_def Let_def
    by (rule ends_from_get, rule settled, simp, intro keep) (rule status_kept, simp add: plain_outcome_def)
  have sn: "ends (\<lambda>_. True) (finish_snapshot E X t snapshot) (finished_over i) (\<lambda>e. over i (eg_service e))" for snapshot
    unfolding finish_snapshot_def Let_def
    by (rule ends_from_get, rule settled, simp, intro keep) (rule status_kept, simp add: result_outcome_def)
  show ?thesis
    unfolding finish_run_def
    by (rule ends_from_get, rule ends_if, rule ends_weaken [OF ab], simp, simp, simp,
        rule ends_bind [OF ends_trivial])
      (cases "en_snapshot E"; simp; (rule ends_throw, simp)?; rule ends_weaken [OF sn]; simp)
qed

lemma attempt_over:
  assumes rely: "relies E (run_stays_over i)" and id: "i = r_run_id (ex_run X)"
  shows "ends (\<lambda>_. True) (attempt_run E X t) (finished_over i) (\<lambda>_. True)"
proof -
  have read: "ends (\<lambda>_. True) (awaited E (read_store (run_get i)))
      (\<lambda>cur e. terminal_row cur \<noteq> None \<longrightarrow> over i (eg_service e)) (\<lambda>_. True)"
  proof (unfold ends_def, intro allI impI)
    fix e :: engine
    have "terminal_row (run_get i (sv_store (eg_service e))) \<noteq> None \<Longrightarrow> over i (eg_service e)"
      by (auto simp: terminal_row_def over_def split: option.splits if_splits)
    then show "case awaited E (read_store (run_get i)) e of (Inl _, e') \<Rightarrow> True
        | (Inr cur, e') \<Rightarrow> terminal_row cur \<noteq> None \<longrightarrow> over i (eg_service e')"
      using gap_over [OF rely] by (auto simp: awaited_def read_store_def Let_def)
  qed
  have start: "ends (\<lambda>_. True) (awaited E (on_store (set_status i Running None)))
      (\<lambda>r e. is_terminal_run_status (r_status r) \<longrightarrow> over i (eg_service e)) (\<lambda>_. True)"
    using gap_over [OF rely]
    by (auto simp: ends_def awaited_def on_store_def set_status_def Let_def over_def run_get_def jm_get_set
        split: option.splits if_splits)
  have "ends (\<lambda>_. True) (started_run E X t) (finished_over i) (\<lambda>_. True)"
    unfolding started_run_def by (intro ends_bind [OF ends_trivial] finish_over [OF rely id])
  then have begun: "ends (\<lambda>e. is_terminal_run_status (r_status r) \<longrightarrow> over i (eg_service e))
      (if is_terminal_run_status (r_status r) then ereturn (plain_outcome (r_status r) None) else started_run E X t)
      (finished_over i) (\<lambda>_. True)" for r
    by (intro ends_if ends_return) (auto simp: plain_outcome_def intro: ends_weaken)
  show ?thesis
    unfolding attempt_run_def id [symmetric]
  proof (rule ends_bind [OF read], rule ends_option)
    fix cur
    show "ends (\<lambda>e. terminal_row cur \<noteq> None \<longrightarrow> over i (eg_service e))
        (ebind (awaited E (on_store (set_status i Running None))) (\<lambda>running.
          if is_terminal_run_status (r_status running) then ereturn (plain_outcome (r_status running) None)
          else started_run E X t))
        (finished_over i) (\<lambda>_. True)"
      by (rule ends_weaken [OF ends_bind [OF start begun]]) auto
    fix status
    assume "terminal_row cur = Some status"
    then show "ends (\<lambda>e. terminal_row cur \<noteq> None \<longrightarrow> over i (eg_service e))
        (ereturn (plain_outcome status None)) (finished_over i) (\<lambda>_. True)"
      by (intro ends_return) (auto simp: plain_outcome_def terminal_row_def split: option.splits if_splits)
  qed
qed

lemma execute_run_parts:
  assumes "ecatch (attempt_run E X (en_now E 0)) (handle_failure E X (en_now E 0)) (fresh_engine sv) = (out, e)"
  shows "fst (fst (execute_run E X sv)) = out"
    and "eg_service (snd (execute_run E X sv)) = en_gap E (eg_awaits e) (close_bus (r_run_id (ex_run X)) (eg_service e))"
    and "eg_frames (snd (execute_run E X sv)) = eg_frames e" and "eg_seq (snd (execute_run E X sv)) = eg_seq e"
    and "eg_recorded (snd (execute_run E X sv)) = eg_recorded e" and "eg_started (snd (execute_run E X sv)) = eg_started e"
  using assms by (simp_all add: execute_run_def Let_def)

text \<open>
  C7. However an execution ends (completion, an error of the agent or the store, a timeout or any other
  abort, a rejection), the run it was given is over in the store or gone from it, its bus is closed, and
  an outcome it returns has a terminal status. The other requests may do anything to it but reopen it.
\<close>

theorem engine_settles_run:
  assumes "relies E (run_stays_over (r_run_id (ex_run X)))"
  shows "over (r_run_id (ex_run X)) (eg_service (snd (execute_run E X sv))) \<and>
         r_run_id (ex_run X) \<in> set (sv_closed (eg_service (snd (execute_run E X sv)))) \<and>
         (\<forall>finished. fst (fst (execute_run E X sv)) = Inr finished \<longrightarrow> is_terminal_run_status (oc_status finished))"
proof -
  let ?i = "r_run_id (ex_run X)" and ?t = "en_now E 0"
  obtain out e where run: "ecatch (attempt_run E X ?t) (handle_failure E X ?t) (fresh_engine sv) = (out, e)"
    by fastforce
  have "ends (\<lambda>_. True) (ecatch (attempt_run E X ?t) (handle_failure E X ?t)) (finished_over ?i)
          (\<lambda>e. over ?i (eg_service e))"
    by (rule ends_catch [OF attempt_over [OF assms refl] handle_failure_over [OF assms refl]])
  then have settled: "over ?i (eg_service e)" "\<forall>finished. out = Inr finished \<longrightarrow> is_terminal_run_status (oc_status finished)"
    using run by (cases out; auto simp: ends_def dest!: spec [of _ "fresh_engine sv"])+
  have "over ?i (en_gap E n (close_bus ?i (eg_service e)))" for n
    using settled(1) by (intro gap_over [OF assms]) (simp add: over_def close_bus_def)
  moreover have "?i \<in> set (sv_closed (en_gap E n (close_bus ?i (eg_service e))))" for n
  proof -
    have "set (sv_closed (close_bus ?i (eg_service e))) \<subseteq> set (sv_closed (en_gap E n (close_bus ?i (eg_service e))))"
      using assms unfolding relies_def run_stays_over_def by blast
    then show ?thesis by (auto simp: close_bus_def)
  qed
  ultimately show ?thesis
    using settled(2) unfolding execute_run_parts(1,2) [OF run] by blast
qed

section \<open>One callback\<close>

text \<open>The ids of the callbacks recorded for a run.\<close>

definition callbacks :: "ident \<Rightarrow> run_service \<Rightarrow> ident set" where
  "callbacks run_id sv =
     {d. case jm_get (ms_deliveries (sv_store sv)) d of None \<Rightarrow> False | Some row \<Rightarrow> dl_run_id row = run_id}"

text \<open>Others record no callback for this run; they may deliver, retry and sweep what is there.\<close>

definition no_new_callbacks :: "ident \<Rightarrow> run_service \<Rightarrow> run_service \<Rightarrow> bool" where
  "no_new_callbacks run_id sv sv' \<longleftrightarrow> callbacks run_id sv' \<subseteq> callbacks run_id sv"

definition noted :: "delivery option \<Rightarrow> ident set" where
  "noted recorded = (case recorded of None \<Rightarrow> {} | Some d \<Rightarrow> {dl_delivery_id d})"

lemma thread_update_deliveries: "thread_update_op t p now s = (out, st) \<Longrightarrow> ms_deliveries st = ms_deliveries s"
  by (auto simp: thread_update_op_def Let_def frame_simps split: option.splits if_splits)

lemma set_status_deliveries: "set_status i s err now st = (out, st') \<Longrightarrow> ms_deliveries st' = ms_deliveries st"
  by (auto simp: set_status_def Let_def split: option.splits if_splits)

lemma finalize_deliveries:
  "finalize_with_delivery i s err c uuid now st = ((row, d), st') \<Longrightarrow>
   ms_deliveries st' = jm_set (dl_delivery_id d) d (ms_deliveries st)"
  by (auto simp: finalize_with_delivery_def insert_delivery_def Let_def split: option.splits if_splits)

lemma callbacks_cong: "ms_deliveries (sv_store sv) = ms_deliveries (sv_store sv') \<Longrightarrow> callbacks i sv = callbacks i sv'"
  by (simp add: callbacks_def)

interpretation one_callback: unframed_invariant
  "\<lambda>e. callbacks run_id (eg_service e) \<subseteq> C \<union> noted (eg_recorded e)" "no_new_callbacks run_id" for run_id C
proof
  fix e i s err c uuid now row d st sv n
  assume I: "callbacks run_id (eg_service e) \<subseteq> C \<union> noted (eg_recorded e)" and "eg_recorded e = None"
    and fin: "finalize_with_delivery i s err c uuid now (sv_store (eg_service e)) = ((row, d), st)"
    and others: "no_new_callbacks run_id ((eg_service e)\<lparr>sv_store := st\<rparr>) sv"
  then have "callbacks run_id (eg_service e) \<subseteq> C" by (simp add: noted_def)
  then have "callbacks run_id ((eg_service e)\<lparr>sv_store := st\<rparr>) \<subseteq> insert (dl_delivery_id d) C"
    using finalize_deliveries [OF fin] by (auto simp: callbacks_def jm_get_set split: if_splits)
  with others show "callbacks run_id (eg_service (e\<lparr>eg_service := sv, eg_awaits := n, eg_recorded := Some d\<rparr>))
      \<subseteq> C \<union> noted (eg_recorded (e\<lparr>eg_service := sv, eg_awaits := n, eg_recorded := Some d\<rparr>))"
    by (auto simp: no_new_callbacks_def noted_def)
qed (auto simp: no_new_callbacks_def callbacks_def dest!: thread_update_deliveries set_status_deliveries)

text \<open>
  C8. An execution records at most one callback for its run, although it may settle the run twice (when
  mirroring the thread fails after the first time); and the callback it recorded is the one it hands
  over to be attempted.
\<close>

theorem engine_single_callback:
  assumes "relies E (no_new_callbacks (r_run_id (ex_run X)))"
    and "\<forall>f tip sv. ex_record_base X = Some f \<longrightarrow> no_new_callbacks (r_run_id (ex_run X)) sv (f tip sv)"
  shows "callbacks (r_run_id (ex_run X)) (eg_service (snd (execute_run E X sv))) \<subseteq>
           callbacks (r_run_id (ex_run X)) sv \<union>
           (case snd (fst (execute_run E X sv)) of Some (AttemptRecorded d) \<Rightarrow> {dl_delivery_id d} | _ \<Rightarrow> {})"
proof -
  let ?i = "r_run_id (ex_run X)"
  have "callbacks ?i (eg_service (snd (execute_run E X sv))) \<subseteq>
      callbacks ?i sv \<union> noted (eg_recorded (snd (execute_run E X sv)))"
    by (rule one_callback.execute_keeps [OF assms(1)])
      (use assms(2) in \<open>fastforce simp: no_new_callbacks_def fresh_engine_def\<close>)+
  moreover have "snd (fst (execute_run E X sv)) = Some (AttemptRecorded d)"
    if "eg_recorded (snd (execute_run E X sv)) = Some d" for d
    using that by (auto simp: execute_run_def owed_callback_def Let_def split: prod.splits)
  ultimately show ?thesis
    by (auto simp: noted_def split: option.splits)
qed

section \<open>The frames\<close>

fun number_from :: "nat \<Rightarrow> frame_body list \<Rightarrow> run_frame list" where
  "number_from n [] = []"
| "number_from n (b # bs) = to_run_frame (Suc n) b # number_from (Suc n) bs"

fun yielded :: "frame_body option list \<Rightarrow> frame_body list" where
  "yielded [] = []"
| "yielded (None # bs) = yielded bs"
| "yielded (Some b # bs) = b # yielded bs"

definition agent_bodies :: "engine_env \<Rightarrow> run_execution \<Rightarrow> frame_body list" where
  "agent_bodies E X = yielded (stream_bodies E X)"

definition declared_reply :: "frame_body list \<Rightarrow> jsval option \<Rightarrow> jsval option" where
  "declared_reply bodies v =
     fold (\<lambda>b v. case read_declared_reply (fb_data b) of None \<Rightarrow> v | Some r \<Rightarrow> Some r) bodies v"

definition at_frames :: "run_frame list \<Rightarrow> nat \<Rightarrow> jsval option \<Rightarrow> engine \<Rightarrow> bool" where
  "at_frames fs n v e \<longleftrightarrow> eg_frames e = fs \<and> eg_seq e = n \<and> eg_reply e = v"

lemma number_from_append: "number_from n (as @ bs) = number_from n as @ number_from (n + length as) bs"
  by (induction as arbitrary: n) simp_all

interpretation frames_fixed: settling_invariant "at_frames fs n v" "\<lambda>_ _. True" for fs n v
  by unfold_locales (auto simp: at_frames_def)

lemma relies_anything: "relies E (\<lambda>_ _. True)"
  by (simp add: relies_def)

lemmas same_frames =
  frames_fixed.read_keeps [OF relies_anything] frames_fixed.await_keeps [OF relies_anything]
  frames_fixed.mirror_thread_keeps [OF relies_anything] frames_fixed.mirror_status_keeps [OF relies_anything]
  frames_fixed.set_status_keeps [OF relies_anything] frames_fixed.finish_keeps [OF relies_anything]
  frames_fixed.handle_timeout_keeps [OF relies_anything] frames_fixed.handle_abort_keeps [OF relies_anything]
  frames_fixed.settle_error_keeps [OF relies_anything]

lemma publish_body_frames:
  "ends (at_frames fs n v) (publish_body E body)
     (\<lambda>_. case body of
        None \<Rightarrow> at_frames fs n v
      | Some b \<Rightarrow> at_frames (fs @ [to_run_frame (Suc n) b]) (Suc n)
                    (case read_declared_reply (fb_data b) of None \<Rightarrow> v | Some r \<Rightarrow> Some r)) (\<lambda>_. False)"
  by (auto simp: at_frames_def ends_def publish_body_def ebind_def await_only_def awaited_def next_seq_def elocal_def eget_def
      capture_declared_reply_def publish_frame_def ereturn_def Let_def split: option.split)

definition streamed :: "run_frame list \<Rightarrow> nat \<Rightarrow> jsval option \<Rightarrow> frame_body list \<Rightarrow> engine \<Rightarrow> bool" where
  "streamed fs n v bs = at_frames (fs @ number_from n bs) (n + length bs) (declared_reply bs v)"

lemma streamed_Nil [simp]: "streamed fs n v [] = at_frames fs n v"
  by (simp add: streamed_def declared_reply_def)

lemma streamed_Cons:
  "streamed (fs @ [to_run_frame (Suc n) b]) (Suc n)
     (case read_declared_reply (fb_data b) of None \<Rightarrow> v | Some r \<Rightarrow> Some r) bs = streamed fs n v (b # bs)"
  by (simp add: streamed_def declared_reply_def)

lemma drive_frames:
  "ends (at_frames fs n v) (drive E bodies) (\<lambda>_. streamed fs n v (yielded bodies)) (streamed fs n v (yielded bodies))"
proof (induction E bodies arbitrary: fs n v rule: drive.induct)
  case (1 E)
  then show ?case
    by (auto intro: same_frames ends_seq throw_keeps split: option.split)
next
  case (2 E body bodies)
  show ?case
  proof (cases body)
    case None
    have "ends (at_frames fs n v) (publish_body E None) (\<lambda>_. at_frames fs n v) (streamed fs n v (yielded bodies))"
      by (rule ends_weaken [OF publish_body_frames]) auto
    then show ?thesis
      unfolding drive.simps None yielded.simps by (rule ends_bind) (rule "2.IH")
  next
    case (Some b)
    have "ends (at_frames fs n v) (publish_body E (Some b))
        (\<lambda>_. at_frames (fs @ [to_run_frame (Suc n) b]) (Suc n)
               (case read_declared_reply (fb_data b) of None \<Rightarrow> v | Some r \<Rightarrow> Some r))
        (streamed fs n v (b # yielded bodies))"
      by (rule ends_weaken [OF publish_body_frames]) auto
    then show ?thesis
      unfolding drive.simps Some yielded.simps
      by (rule ends_bind) (use "2.IH" in \<open>simp add: streamed_Cons [symmetric]\<close>)
  qed
qed

text \<open>Whatever happens, the frames are none, or what the agent yielded; an error of the run adds its frame.\<close>

definition streams :: "frame_body list \<Rightarrow> engine \<Rightarrow> bool" where
  "streams bs e \<longleftrightarrow> at_frames [] 0 None e \<or> streamed [] 0 None bs e"

lemma same_frames_streams:
  assumes "\<And>fs n v. ends (at_frames fs n v) m (\<lambda>_. at_frames fs n v) (at_frames fs n v)"
  shows "ends (streams bs) m (\<lambda>_. streams bs) (streams bs)"
  using assms [of "[]" 0 None] assms [of "number_from 0 bs" "length bs" "declared_reply bs None"]
  unfolding ends_def streams_def streamed_def by (fastforce split: prod.splits sum.splits)

lemma no_frames_bind:
  assumes "\<And>fs n v. ends (at_frames fs n v) m (\<lambda>_. at_frames fs n v) (at_frames fs n v)"
    and "\<And>x. ends (at_frames [] 0 None) (k x) (\<lambda>_. streams bs) (streams bs)"
  shows "ends (at_frames [] 0 None) (ebind m k) (\<lambda>_. streams bs) (streams bs)"
  using ends_weaken [OF assms(1) _ _ , of "at_frames [] 0 None" "[]" 0 None "\<lambda>_. at_frames [] 0 None" "streams bs"]
  by (intro ends_bind [OF _ assms(2)]) (auto simp: streams_def)

lemma no_frames_end:
  "ends (at_frames [] 0 None) (ereturn x) (\<lambda>_. streams bs) (streams bs)"
  "ends (at_frames [] 0 None) (ethrow f) (\<lambda>_. streams bs) (streams bs)"
  by (auto simp: ends_def ereturn_def ethrow_def streams_def)

lemma stream_frames:
  "ends (at_frames [] 0 None) (stream_run E X) (\<lambda>_. streams (agent_bodies E X)) (streams (agent_bodies E X))"
proof -
  have "ends (at_frames [] 0 None) (drive E (stream_bodies E X))
      (\<lambda>_. streams (agent_bodies E X)) (streams (agent_bodies E X))"
    by (rule ends_weaken [OF drive_frames]) (auto simp: streams_def agent_bodies_def)
  moreover have "ends (at_frames fs n v) (throw_if_aborted X) (\<lambda>_. at_frames fs n v) (at_frames fs n v)" for fs n v
    unfolding throw_if_aborted_def by (intro plain_keeps)
  ultimately show ?thesis
    unfolding stream_run_def by (intro no_frames_bind ends_if no_frames_end)
qed

lemma attempt_frames:
  "ends (at_frames [] 0 None) (attempt_run E X t) (\<lambda>_. streams (agent_bodies E X)) (streams (agent_bodies E X))"
proof -
  have agent: "ends (at_frames [] 0 None) (run_agent E X) (\<lambda>_. streams (agent_bodies E X)) (streams (agent_bodies E X))"
    unfolding run_agent_def
    by (intro no_frames_bind same_frames ends_option no_frames_end stream_frames)
  have base: "ends (at_frames fs n v) (record_base E X) (\<lambda>_. at_frames fs n v) (at_frames fs n v)" for fs n v
    unfolding record_base_def
    by (intro plain_keeps same_frames ends_local) (simp add: at_frames_def)
  have "ends (at_frames fs n v) (elocal (\<lambda>e. e\<lparr>eg_started := True\<rparr>)) (\<lambda>_. at_frames fs n v) (at_frames fs n v)" for fs n v
    by (rule ends_local) (simp add: at_frames_def)
  then have "ends (at_frames [] 0 None) (started_run E X t) (\<lambda>_. streams (agent_bodies E X)) (streams (agent_bodies E X))"
    unfolding started_run_def
    by (intro no_frames_bind same_frames base ends_bind [OF agent] same_frames_streams)
  then show ?thesis
    unfolding attempt_run_def
    by (intro no_frames_bind same_frames ends_option ends_if no_frames_end)
qed

text \<open>The frames of a finished execution: what the agent yielded or none, and the frame of an error.\<close>

definition framed :: "frame_body list \<Rightarrow> run_frame list \<Rightarrow> bool" where
  "framed bs fs \<longleftrightarrow>
     (\<exists>shown \<in> {[], bs}. fs = number_from 0 shown \<or>
        (\<exists>err. fs = number_from 0 shown @ [error_frame (Suc (length shown)) err]))"

lemma same_frames_framed:
  assumes "\<And>fs n v. ends (at_frames fs n v) m (\<lambda>_. at_frames fs n v) (at_frames fs n v)"
  shows "ends (\<lambda>e. framed bs (eg_frames e)) m (\<lambda>_ e. framed bs (eg_frames e)) (\<lambda>e. framed bs (eg_frames e))"
  unfolding ends_def
proof (intro allI impI)
  fix e :: engine
  assume "framed bs (eg_frames e)"
  moreover have "at_frames (eg_frames e) (eg_seq e) (eg_reply e) e"
    by (simp add: at_frames_def)
  then have "case m e of
      (Inl _, e') \<Rightarrow> at_frames (eg_frames e) (eg_seq e) (eg_reply e) e'
    | (Inr _, e') \<Rightarrow> at_frames (eg_frames e) (eg_seq e) (eg_reply e) e'"
    by (rule mp [OF spec [OF assms [unfolded ends_def]]])
  ultimately show "case m e of (Inl _, e') \<Rightarrow> framed bs (eg_frames e') | (Inr x, e') \<Rightarrow> framed bs (eg_frames e')"
    by (auto simp: at_frames_def split: prod.splits sum.splits)
qed

lemma streams_framed: "streams bs e \<Longrightarrow> framed bs (eg_frames e)"
  by (auto simp: streams_def streamed_def at_frames_def framed_def)

lemma handle_failure_frames:
  "ends (streams bs) (handle_failure E X t f) (\<lambda>_ e. framed bs (eg_frames e)) (\<lambda>e. framed bs (eg_frames e))"
proof -
  have quiet: "ends (streams bs) m (\<lambda>_ e. framed bs (eg_frames e)) (\<lambda>e. framed bs (eg_frames e))"
    if "\<And>fs n v. ends (at_frames fs n v) m (\<lambda>_. at_frames fs n v) (at_frames fs n v)" for m :: "run_outcome eng"
    by (rule ends_weaken [OF same_frames_framed [OF that]]) (simp_all add: streams_framed)
  have erred: "ends (streams bs) (ebind next_seq (\<lambda>n. publish_frame E (error_frame n err)))
      (\<lambda>_ e. framed bs (eg_frames e)) (\<lambda>e. framed bs (eg_frames e))" for err
    by (auto simp: ends_def ebind_def next_seq_def elocal_def eget_def publish_frame_def await_only_def awaited_def
        Let_def streams_def streamed_def at_frames_def framed_def)
  have "ends (streams bs) (ebind (ebind next_seq (\<lambda>n. publish_frame E (error_frame n err))) (\<lambda>_. settle_error E X t err))
      (\<lambda>_ e. framed bs (eg_frames e)) (\<lambda>e. framed bs (eg_frames e))" for err
    by (rule ends_bind [OF erred]) (intro same_frames_framed same_frames)
  moreover have "ebind (ebind next_seq (\<lambda>n. publish_frame E (error_frame n err))) (\<lambda>_. settle_error E X t err) =
      handle_error E X t err" for err
    by (simp add: handle_error_eq fun_eq_iff ebind_def split: prod.split sum.split)
  ultimately have err: "ends (streams bs) (handle_error E X t err) (\<lambda>_ e. framed bs (eg_frames e))
      (\<lambda>e. framed bs (eg_frames e))" for err
    by simp
  have "ends (streams bs) (ebind (eget g) k) (\<lambda>_ e. framed bs (eg_frames e)) (\<lambda>e. framed bs (eg_frames e))"
    if "\<And>x. ends (streams bs) (k x) (\<lambda>_ e. framed bs (eg_frames e)) (\<lambda>e. framed bs (eg_frames e))"
    for g :: "engine \<Rightarrow> 'x" and k :: "'x \<Rightarrow> run_outcome eng"
    using that by (simp add: ends_def ebind_def eget_def)
  note get = this
  show ?thesis
    unfolding handle_failure_def by (intro get ends_if quiet err same_frames)
qed

lemma split_join:
  "sep \<notin> set x \<Longrightarrow> \<forall>y \<in> set ys. sep \<notin> set y \<Longrightarrow> split_on sep (x @ concat (map (\<lambda>y. sep # y) ys)) = x # ys"
  by (induction ys arbitrary: x) (simp_all add: split_on_none split_on_first)

lemma join_with_concat: "join_with [sep] (x # ys) = x @ concat (map (\<lambda>y. sep # y) ys)"
  by (induction ys arbitrary: x) auto

lemma stream_mode_plain: "m \<in> set STREAM_MODES \<Longrightarrow> c \<in> set m \<Longrightarrow> \<not> unsafe_char c"
  by (auto simp: STREAM_MODES_def unsafe_char_def line_break_def)

text \<open>A client splits the name of a frame's event at the separator and has the mode and the namespace.\<close>

lemma frame_name_splits:
  assumes "safe_body b"
  shows "split_on CHR ''|'' (frame_event_name (to_run_frame n b)) = fb_event b # fb_namespace b"
proof -
  have plain: "\<forall>s \<in> set (fb_event b # fb_namespace b). \<forall>c \<in> set s. \<not> line_break c \<and> c \<noteq> CHR ''|''"
    using assms stream_mode_plain [of "fb_event b"]
    by (auto simp: safe_body_def list_ex_iff unsafe_char_def)
  let ?name = "fb_event b @ concat (map (\<lambda>y. CHR ''|'' # y) (fb_namespace b))"
  have "\<forall>c \<in> set ?name. \<not> line_break c"
    using plain by (auto simp: line_break_def)
  then have kept: "filter (\<lambda>c. \<not> line_break c) ?name = ?name"
    by (simp only: filter_id_conv)
  have "frame_event_name (to_run_frame n b) = filter (\<lambda>c. \<not> line_break c) ?name"
    by (cases "fb_namespace b") (simp_all add: frame_event_name_def to_run_frame_def join_with_concat)
  then show ?thesis
    using plain by (simp only: kept) (rule split_join; auto)
qed

lemma agent_bodies_safe: "b \<in> set (agent_bodies E X) \<Longrightarrow> safe_body b"
proof -
  have "b \<in> set (yielded bs) \<Longrightarrow> Some b \<in> set bs" for bs
    by (induction bs rule: yielded.induct) auto
  then show "b \<in> set (agent_bodies E X) \<Longrightarrow> safe_body b"
    unfolding agent_bodies_def by (blast intro: one_callback.stream_bodies_safe)
qed

text \<open>
  C9. The frames an execution published are, numbered from 1 without a hole, all that the agent yielded
  (or none, when it never got to it), followed by at most one error frame; and whatever the agent
  yields, the name of its frame's event splits back into the mode and the namespace: no chunk can pose
  as another stream's, end a field of the event stream, or pose as the error frame.
\<close>

theorem engine_frames_faithful:
  "framed (agent_bodies E X) (eg_frames (snd (execute_run E X sv))) \<and>
   (\<forall>b \<in> set (agent_bodies E X). \<forall>n.
      fb_event b \<noteq> ''error'' \<and>
      split_on CHR ''|'' (frame_event_name (to_run_frame n b)) = fb_event b # fb_namespace b)"
proof
  let ?t = "en_now E 0"
  obtain out e where run: "ecatch (attempt_run E X ?t) (handle_failure E X ?t) (fresh_engine sv) = (out, e)"
    by fastforce
  have fresh: "at_frames [] 0 None (fresh_engine sv)"
    by (simp add: at_frames_def fresh_engine_def)
  have "ends (at_frames [] 0 None) (ecatch (attempt_run E X ?t) (handle_failure E X ?t))
      (\<lambda>_ e. framed (agent_bodies E X) (eg_frames e)) (\<lambda>e. framed (agent_bodies E X) (eg_frames e))"
    by (rule ends_catch [OF ends_weaken [OF attempt_frames] handle_failure_frames]) (simp_all add: streams_framed)
  then have "framed (agent_bodies E X) (eg_frames e)"
    using run fresh by (cases out) (auto simp: ends_def dest!: spec [of _ "fresh_engine sv"])
  then show "framed (agent_bodies E X) (eg_frames (snd (execute_run E X sv)))"
    by (simp only: execute_run_parts(3) [OF run])
  show "\<forall>b \<in> set (agent_bodies E X). \<forall>n. fb_event b \<noteq> ''error'' \<and>
      split_on CHR ''|'' (frame_event_name (to_run_frame n b)) = fb_event b # fb_namespace b"
    using frame_name_splits agent_bodies_safe by (fastforce simp: safe_body_def STREAM_MODES_def)
qed

end
