(* ===== verification/RunEngineAlone.thy ===== *)
theory RunEngineAlone
  imports RunEngineEnds
begin

text \<open>
  An execution nobody interferes with: what a run that completes leaves behind. \<open>run_world\<close> follows the
  row of the run, the row of its thread, the outbox and the control of the run through the steps.
\<close>

definition run_world ::
  "run_execution \<Rightarrow> (run \<Rightarrow> bool) \<Rightarrow> (thread \<Rightarrow> bool) \<Rightarrow> (ident, delivery) jsmap \<Rightarrow> bool \<Rightarrow> delivery option \<Rightarrow>
   engine \<Rightarrow> bool" where
  "run_world X on_run on_thread ds started recorded e \<longleftrightarrow>
     (let s = sv_store (eg_service e) in
      (case run_get (r_run_id (ex_run X)) s of None \<Rightarrow> False | Some r \<Rightarrow> on_run r) \<and>
      (case jm_get (ms_threads s) (r_thread_id (ex_run X)) of None \<Rightarrow> False | Some t \<Rightarrow> on_thread t) \<and>
      jm_has (ms_assistants s) (r_assistant_id (ex_run X)) \<and>
      ms_deliveries s = ds \<and> eg_started e = started \<and> eg_recorded e = recorded \<and>
      \<not> signal_aborted X e)"

lemma ends_conj:
  "ends P m Q R \<Longrightarrow> ends P' m Q' R' \<Longrightarrow>
   ends (\<lambda>e. P e \<and> P' e) m (\<lambda>x e. Q x e \<and> Q' x e) (\<lambda>e. R e \<and> R' e)"
  unfolding ends_def by (fastforce split: prod.splits sum.splits)

lemma alone_awaited:
  "en_gap E = no_gap \<Longrightarrow>
   awaited E op e = (let (out, sv) = op (en_now E (eg_awaits e)) (eg_service e)
                     in (out, e\<lparr>eg_service := sv, eg_awaits := Suc (eg_awaits e)\<rparr>))"
  by (simp add: awaited_def Let_def split: prod.split)

lemma world_await: "en_gap E = no_gap \<Longrightarrow> ends (run_world X Pr Pt ds b d) (await_only E) (\<lambda>_. run_world X Pr Pt ds b d) (\<lambda>_. False)"
  by (simp add: ends_def await_only_def alone_awaited run_world_def signal_aborted_def control_box_def)

lemma world_read:
  "en_gap E = no_gap \<Longrightarrow>
   ends (run_world X Pr Pt ds b d) (awaited E (read_store f)) (\<lambda>_. run_world X Pr Pt ds b d) (\<lambda>_. False)"
  by (simp add: ends_def read_store_def alone_awaited run_world_def signal_aborted_def control_box_def)

text \<open>Mirroring patches the thread row and touches nothing else of the run's world.\<close>

lemma world_mirror:
  assumes alone: "en_gap E = no_gap"
    and after: "\<And>t now. Pt t \<Longrightarrow> Pt' (patched_thread (effective_patch patch (t_metadata t)) now t)"
  shows "ends (run_world X Pr Pt ds b d) (mirror_thread E (r_thread_id (ex_run X)) patch)
           (\<lambda>_. run_world X Pr Pt' ds b d) (\<lambda>_. False)"
  unfolding ends_def
proof (intro allI impI)
  fix e :: engine
  let ?th = "r_thread_id (ex_run X)" and ?s = "sv_store (eg_service e)"
  assume world: "run_world X Pr Pt ds b d e"
  then obtain t where t: "jm_get (ms_threads ?s) ?th = Some t" "Pt t"
    by (auto simp: run_world_def Let_def split: option.splits)
  let ?p = "effective_patch patch (t_metadata t)" and ?now = "en_now E (Suc (eg_awaits e))"
  obtain v s' where upd: "thread_update_op ?th ?p ?now ?s = (Inr v, s')"
    and rows: "ms_runs s' = ms_runs ?s" "ms_threads s' = jm_set ?th (patched_thread ?p ?now t) (ms_threads ?s)"
    using thread_update_ok [OF t(1)] by blast
  have "ms_deliveries s' = ms_deliveries ?s" "ms_assistants s' = ms_assistants ?s"
    using thread_update_deliveries [OF upd] upd t(1)
    by (auto simp: thread_update_op_def Let_def frame_simps split: if_splits)
  with world rows t after [OF t(2)]
  have "run_world X Pr Pt' ds b d (e\<lparr>eg_service := (eg_service e)\<lparr>sv_store := s'\<rparr>, eg_awaits := n\<rparr>)" for n
    by (auto simp: run_world_def run_get_def Let_def jm_get_set signal_aborted_def control_box_def)
  moreover have "t_metadata (project_thread ?s t) = t_metadata t"
    by (simp add: project_thread_def Let_def thread.defs)
  ultimately show "case mirror_thread E ?th patch e of (Inl _, e') \<Rightarrow> False | (Inr _, e') \<Rightarrow> run_world X Pr Pt' ds b d e'"
    using t upd
    by (simp add: mirror_thread_def ebind_def alone_awaited [OF alone] read_store_def thread_get_def update_thread_def
        on_store_def ereturn_def)
qed

lemma world_start:
  assumes alone: "en_gap E = no_gap" and Pr: "\<And>r. Pr r \<Longrightarrow> \<not> is_terminal_run_status (r_status r)"
  shows "ends (run_world X Pr Pt ds b d) (awaited E (on_store (set_status (r_run_id (ex_run X)) Running None)))
           (\<lambda>r e. \<not> is_terminal_run_status (r_status r) \<and>
              run_world X (\<lambda>r'. \<exists>r now. Pr r \<and> r' = r\<lparr>r_status := Running, r_updated_at := now, r_error := None\<rparr>)
                Pt ds b d e) (\<lambda>_. False)"
  using Pr
  by (fastforce simp: ends_def alone_awaited [OF alone] on_store_def set_status_def run_world_def run_get_def Let_def
      jm_get_set signal_aborted_def control_box_def split: option.splits if_splits)

lemma world_local:
  assumes "\<And>e. eg_service (f e) = eg_service e \<and> eg_started (f e) = g (eg_started e) \<and> eg_recorded (f e) = eg_recorded e"
  shows "ends (run_world X Pr Pt ds b d) (elocal f) (\<lambda>_. run_world X Pr Pt ds (g b) d) (\<lambda>_. False)"
  using assms by (auto simp: ends_def elocal_def run_world_def Let_def signal_aborted_def control_box_def)

text \<open>Noting a base checkpoint touches neither rows nor the control of the run.\<close>

definition notes_base_only :: "(ident option \<Rightarrow> run_service \<Rightarrow> run_service) \<Rightarrow> bool" where
  "notes_base_only f \<longleftrightarrow>
     (\<forall>tip sv. ms_runs (sv_store (f tip sv)) = ms_runs (sv_store sv) \<and>
        ms_threads (sv_store (f tip sv)) = ms_threads (sv_store sv) \<and>
        ms_assistants (sv_store (f tip sv)) = ms_assistants (sv_store sv) \<and>
        ms_deliveries (sv_store (f tip sv)) = ms_deliveries (sv_store sv) \<and>
        sv_control (f tip sv) = sv_control sv)"

lemma world_base:
  assumes "en_gap E = no_gap" and "\<And>f. ex_record_base X = Some f \<Longrightarrow> notes_base_only f"
  shows "ends (run_world X Pr Pt ds b d) (record_base E X) (\<lambda>_. run_world X Pr Pt ds b d) (\<lambda>_. False)"
proof -
  have "ends (run_world X Pr Pt ds b d) (elocal (\<lambda>e. e\<lparr>eg_service := f tip (eg_service e)\<rparr>))
      (\<lambda>_. run_world X Pr Pt ds b d) (\<lambda>_. False)" if "ex_record_base X = Some f" for f tip
    using assms(2) [OF that]
    by (auto simp: notes_base_only_def ends_def elocal_def run_world_def run_get_def Let_def signal_aborted_def
        control_box_def)
  then show ?thesis
    unfolding record_base_def
    by (intro ends_option ends_return ends_bind [OF world_await [OF assms(1)]])
qed

lemma world_publish:
  assumes "en_gap E = no_gap"
  shows "ends (run_world X Pr Pt ds b d) (publish_body E body) (\<lambda>_. run_world X Pr Pt ds b d) (\<lambda>_. False)"
  by (auto simp: ends_def publish_body_def ebind_def await_only_def alone_awaited [OF assms] next_seq_def elocal_def
      eget_def capture_declared_reply_def publish_frame_def ereturn_def Let_def run_world_def signal_aborted_def
      control_box_def split: option.split)

lemma world_drive:
  "en_gap E = no_gap \<Longrightarrow> en_stream_failure E = None \<Longrightarrow>
   ends (run_world X Pr Pt ds b d) (drive E bodies) (\<lambda>_. run_world X Pr Pt ds b d) (\<lambda>_. False)"
proof (induction E bodies rule: drive.induct)
  case (2 E body bodies)
  show ?case
    unfolding drive.simps
    by (rule ends_bind [OF world_publish [OF "2.prems"(1)]], rule "2.IH" [OF "2.prems"])
qed (simp add: world_await)

lemma world_agent:
  assumes alone: "en_gap E = no_gap" and ok: "en_resolve E = None" "en_stream_failure E = None"
    and events: "wants_events_mode (kw_field (ex_kwargs X) ''stream_mode'') \<Longrightarrow> en_streams_events E"
  shows "ends (\<lambda>e. run_world X Pr Pt ds b d e \<and> at_frames [] 0 None e) (run_agent E X)
           (\<lambda>_ e. run_world X Pr Pt ds b d e \<and> streamed [] 0 None (agent_bodies E X) e) (\<lambda>_. False)"
proof -
  have drive: "ends (\<lambda>e. run_world X Pr Pt ds b d e \<and> at_frames [] 0 None e) (drive E (stream_bodies E X))
      (\<lambda>_ e. run_world X Pr Pt ds b d e \<and> streamed [] 0 None (agent_bodies E X) e) (\<lambda>_. False)"
    by (rule ends_weaken [OF ends_conj [OF world_drive [OF alone ok(2)] drive_frames]]) (auto simp: agent_bodies_def)
  have go: "ends (\<lambda>e. run_world X Pr Pt ds b d e \<and> at_frames [] 0 None e) (throw_if_aborted X)
      (\<lambda>_ e. run_world X Pr Pt ds b d e \<and> at_frames [] 0 None e) (\<lambda>_. False)"
    by (auto simp: ends_def throw_if_aborted_def ebind_def eget_def ereturn_def run_world_def Let_def)
  have read: "ends (\<lambda>e. run_world X Pr Pt ds b d e \<and> at_frames [] 0 None e)
      (awaited E (read_store (\<lambda>s. jm_get (ms_assistants s) (r_assistant_id (ex_run X)))))
      (\<lambda>found e. found \<noteq> None \<and> run_world X Pr Pt ds b d e \<and> at_frames [] 0 None e) (\<lambda>_. False)"
    by (auto simp: ends_def read_store_def alone_awaited [OF alone] run_world_def signal_aborted_def control_box_def
        at_frames_def jm_has_iff Let_def)
  have wait: "ends (\<lambda>e. run_world X Pr Pt ds b d e \<and> at_frames [] 0 None e) (await_only E)
      (\<lambda>_ e. run_world X Pr Pt ds b d e \<and> at_frames [] 0 None e) (\<lambda>_. False)"
    by (rule ends_weaken [OF ends_conj [OF world_await [OF alone] same_frames(2)]]) auto
  have stream: "ends (\<lambda>e. run_world X Pr Pt ds b d e \<and> at_frames [] 0 None e) (stream_run E X)
      (\<lambda>_ e. run_world X Pr Pt ds b d e \<and> streamed [] 0 None (agent_bodies E X) e) (\<lambda>_. False)"
    unfolding stream_run_def using events by (intro ends_bind [OF go] ends_if drive) auto
  show ?thesis
    unfolding run_agent_def
  proof (rule ends_bind [OF read], rule ends_option)
    fix found :: "assistant option"
    assume "found = None"
    then show "ends (\<lambda>e. found \<noteq> None \<and> run_world X Pr Pt ds b d e \<and> at_frames [] 0 None e) (ethrow (StoreThrew not_found))
        (\<lambda>_ e. run_world X Pr Pt ds b d e \<and> streamed [] 0 None (agent_bodies E X) e) (\<lambda>_. False)"
      by (intro ends_throw) simp
  next
    fix found :: "assistant option" and a
    show "ends (\<lambda>e. found \<noteq> None \<and> run_world X Pr Pt ds b d e \<and> at_frames [] 0 None e)
        (ebind (await_only E) (\<lambda>_. case en_resolve E of None \<Rightarrow> stream_run E X | Some f \<Rightarrow> ethrow f))
        (\<lambda>_ e. run_world X Pr Pt ds b d e \<and> streamed [] 0 None (agent_bodies E X) e) (\<lambda>_. False)"
      unfolding ok(1) option.case by (rule ends_weaken [OF ends_bind [OF wait stream]]) auto
  qed
qed

section \<open>Settling and mirroring a completed run\<close>

text \<open>
  The outbox after settling: unchanged when no callback is owed or its body cannot be serialized; else
  with one claimed callback more, whose status is the run's and whose body is what was built.
\<close>

definition callback_owed ::
  "engine_env \<Rightarrow> run_execution \<Rightarrow> run_status \<Rightarrow> run_result \<Rightarrow> run_error option \<Rightarrow>
   (ident, delivery) jsmap \<Rightarrow> (ident, delivery) jsmap \<Rightarrow> delivery option \<Rightarrow> bool" where
  "callback_owed E X s result err ds ds' recorded \<longleftrightarrow>
     (case kw_webhook (ex_kwargs X) of
        None \<Rightarrow> ds' = ds \<and> recorded = None
      | Some url \<Rightarrow>
          (\<exists>ended_at.
             case build_delivery_payload (en_wire_size E) (en_iso E)
                    (settle_payload E X (en_now E 0) ended_at result err) of
               None \<Rightarrow> ds' = ds \<and> recorded = None
             | Some built \<Rightarrow>
                 \<exists>d. recorded = Some d \<and> ds' = jm_set (dl_delivery_id d) d ds \<and>
                     dl_run_id d = r_run_id (ex_run X) \<and> dl_run_status d = s \<and> dl_url d = url \<and>
                     dl_payload d = null_if_nullish (bp_payload built) \<and>
                     dl_payload_truncated d = bp_truncated built \<and>
                     dl_status d = Delivering \<and> dl_attempt d = 1))"

definition settled_as :: "run_status \<Rightarrow> run_error option \<Rightarrow> (run \<Rightarrow> bool) \<Rightarrow> run \<Rightarrow> bool" where
  "settled_as s err Pr r' \<longleftrightarrow> (\<exists>r now. Pr r \<and> r' = r\<lparr>r_status := s, r_updated_at := now, r_error := err\<rparr>)"

lemma world_finalize:
  assumes alone: "en_gap E = no_gap" and Pr: "\<And>r. Pr r \<Longrightarrow> \<not> is_terminal_run_status (r_status r)"
    and s: "is_terminal_run_status s"
  shows "ends (run_world X Pr Pt ds b d) (engine_finalize E (r_run_id (ex_run X)) s err)
           (\<lambda>st e. st = s \<and> run_world X (settled_as s err Pr) Pt ds b d e) (\<lambda>_. False)"
  unfolding ends_def
proof (intro allI impI)
  fix e :: engine
  let ?i = "r_run_id (ex_run X)" and ?s = "sv_store (eg_service e)"
  assume world: "run_world X Pr Pt ds b d e"
  then obtain r where r: "jm_get (ms_runs ?s) ?i = Some r" "Pr r"
    by (auto simp: run_world_def run_get_def Let_def split: option.splits)
  have "\<not> is_terminal_run_status (r_status r)" "s \<noteq> Running" using Pr [OF r(2)] s by auto
  with r world show "case engine_finalize E ?i s err e of (Inl _, e') \<Rightarrow> False
      | (Inr st, e') \<Rightarrow> st = s \<and> run_world X (settled_as s err Pr) Pt ds b d e'"
    by (auto simp: engine_finalize_def finalize_run_def alone Let_def run_get_def set_status_def run_world_def
        jm_get_set signal_aborted_def control_box_def settled_as_def)
qed

lemma world_record:
  assumes alone: "en_gap E = no_gap" and Pr: "\<And>r. Pr r \<Longrightarrow> \<not> is_terminal_run_status (r_status r)"
    and s: "is_terminal_run_status s"
  shows "ends (run_world X Pr Pt ds b None) (record_delivery E X s err (settle_callback E X url ended_at built))
           (\<lambda>st e. st = s \<and> (\<exists>d. run_world X (settled_as s err Pr) Pt (jm_set (dl_delivery_id d) d ds) b (Some d) e \<and>
              dl_run_id d = r_run_id (ex_run X) \<and> dl_run_status d = s \<and> dl_url d = url \<and>
              dl_payload d = null_if_nullish (bp_payload built) \<and> dl_payload_truncated d = bp_truncated built \<and>
              dl_status d = Delivering \<and> dl_attempt d = 1)) (\<lambda>_. False)"
  unfolding ends_def
proof (intro allI impI)
  fix e :: engine
  let ?i = "r_run_id (ex_run X)" and ?s = "sv_store (eg_service e)"
  assume world: "run_world X Pr Pt ds b None e"
  then obtain r where r: "jm_get (ms_runs ?s) ?i = Some r" "Pr r"
    by (auto simp: run_world_def run_get_def Let_def split: option.splits)
  have "\<not> is_terminal_run_status (r_status r)" using Pr [OF r(2)] by auto
  with r world show "case record_delivery E X s err (settle_callback E X url ended_at built) e of
      (Inl _, e') \<Rightarrow> False
    | (Inr st, e') \<Rightarrow> st = s \<and> (\<exists>d. run_world X (settled_as s err Pr) Pt (jm_set (dl_delivery_id d) d ds) b (Some d) e' \<and>
        dl_run_id d = ?i \<and> dl_run_status d = s \<and> dl_url d = url \<and>
        dl_payload d = null_if_nullish (bp_payload built) \<and> dl_payload_truncated d = bp_truncated built \<and>
        dl_status d = Delivering \<and> dl_attempt d = 1)"
    by (auto simp: record_delivery_def ebind_def eget_def elocal_def ereturn_def alone_awaited [OF alone] Let_def
        finalize_with_delivery_def insert_delivery_def run_get_def settle_callback_def run_world_def jm_get_set
        signal_aborted_def control_box_def settled_as_def)
qed

lemma world_settle:
  assumes "en_gap E = no_gap" and "\<And>r. Pr r \<Longrightarrow> \<not> is_terminal_run_status (r_status r)"
    and "is_terminal_run_status s"
  shows "ends (run_world X Pr Pt ds True None) (settle_run E X (en_now E 0) s result err)
           (\<lambda>st e. st = s \<and> (\<exists>ds' recorded. callback_owed E X s result err ds ds' recorded \<and>
              run_world X (settled_as s err Pr) Pt ds' True recorded e)) (\<lambda>_. False)"
  unfolding ends_def
proof (intro allI impI)
  fix e :: engine
  assume world: "run_world X Pr Pt ds True None e"
  then have started: "eg_started e" "eg_recorded e = None" by (auto simp: run_world_def Let_def)
  have plain: "case engine_finalize E (r_run_id (ex_run X)) s err e of (Inl _, e') \<Rightarrow> False
      | (Inr st, e') \<Rightarrow> st = s \<and> run_world X (settled_as s err Pr) Pt ds True None e'"
    by (rule endsD [where P = "run_world X Pr Pt ds True None" and R = "\<lambda>_. False"], rule world_finalize)
      (use assms world in auto)
  have noted: "case record_delivery E X s err (settle_callback E X url ended_at built) e of
      (Inl _, e') \<Rightarrow> False
    | (Inr st, e') \<Rightarrow> st = s \<and> (\<exists>d. run_world X (settled_as s err Pr) Pt (jm_set (dl_delivery_id d) d ds) True (Some d) e' \<and>
        dl_run_id d = r_run_id (ex_run X) \<and> dl_run_status d = s \<and> dl_url d = url \<and>
        dl_payload d = null_if_nullish (bp_payload built) \<and> dl_payload_truncated d = bp_truncated built \<and>
        dl_status d = Delivering \<and> dl_attempt d = 1)" for url ended_at built
    by (rule endsD [where P = "run_world X Pr Pt ds True None" and R = "\<lambda>_. False"], rule world_record)
      (use assms world in auto)
  show "case settle_run E X (en_now E 0) s result err e of (Inl _, e') \<Rightarrow> False
      | (Inr st, e') \<Rightarrow> st = s \<and> (\<exists>ds' recorded. callback_owed E X s result err ds ds' recorded \<and>
          run_world X (settled_as s err Pr) Pt ds' True recorded e')"
  proof (cases "kw_webhook (ex_kwargs X)")
    case None
    with plain show ?thesis by (auto simp: settle_run_def callback_owed_def split: prod.splits sum.splits)
  next
    case (Some url)
    let ?built = "build_delivery_payload (en_wire_size E) (en_iso E)
      (settle_payload E X (en_now E 0) (en_now E (eg_awaits e)) result err)"
    show ?thesis
    proof (cases ?built)
      case None
      then have owed: "callback_owed E X s result err ds ds None"
        using Some unfolding callback_owed_def by (auto intro!: exI [of _ "en_now E (eg_awaits e)"])
      have "settle_run E X (en_now E 0) s result err e = engine_finalize E (r_run_id (ex_run X)) s err e"
        using Some None by (simp add: settle_run_def Let_def)
      with plain owed show ?thesis
        by (auto split: prod.splits sum.splits)
    next
      case (Some built)
      have owed: "callback_owed E X s result err ds (jm_set (dl_delivery_id d) d ds) (Some d)"
        if "dl_run_id d = r_run_id (ex_run X)" "dl_run_status d = s" "dl_url d = url"
          "dl_payload d = null_if_nullish (bp_payload built)" "dl_payload_truncated d = bp_truncated built"
          "dl_status d = Delivering" "dl_attempt d = 1" for d
        using that Some \<open>kw_webhook (ex_kwargs X) = Some url\<close> unfolding callback_owed_def
        by (auto intro!: exI [of _ "en_now E (eg_awaits e)"])
      have "settle_run E X (en_now E 0) s result err e =
          record_delivery E X s err (settle_callback E X url (en_now E (eg_awaits e)) built) e"
        using started Some \<open>kw_webhook (ex_kwargs X) = Some url\<close> by (simp add: settle_run_def Let_def)
      with noted [where url = url and ended_at = "en_now E (eg_awaits e)" and built = built] owed show ?thesis
        by (auto split: prod.splits sum.splits)
    qed
  qed
qed

text \<open>The thread row shows the snapshot.\<close>

definition shows_snapshot :: "agent_snapshot \<Rightarrow> thread \<Rightarrow> bool" where
  "shows_snapshot snapshot t \<longleftrightarrow>
     t_values t = sn_values snapshot \<and> t_interrupts t = JObj (collect_interrupts snapshot) \<and>
     t_status t = thread_status_for_run (run_status_for_snapshot snapshot) \<and> t_error t = None \<and>
     \<not> jm_has (js_entries (t_metadata t)) ''error''"

lemma mirrored_snapshot:
  "shows_snapshot snapshot
     (patched_thread (effective_patch (snapshot_to_thread_update snapshot (run_status_for_snapshot snapshot)) (t_metadata t)) now t)"
proof -
  have "thread_status_for_run (run_status_for_snapshot snapshot) \<noteq> ThreadErrored"
    by (simp add: run_status_for_snapshot_def)
  then show ?thesis
    by (auto simp: shows_snapshot_def patched_thread_def effective_patch_def snapshot_to_thread_update_def
        empty_thread_update_def Let_def jm_simps)
qed

section \<open>A completed run\<close>

text \<open>What a completed execution leaves, and what it answers.\<close>

definition completed_outcome :: "engine_env \<Rightarrow> run_execution \<Rightarrow> agent_snapshot \<Rightarrow> run_outcome" where
  "completed_outcome E X snapshot =
     result_outcome (snapshot_result snapshot (declared_reply (agent_bodies E X) None)) (run_status_for_snapshot snapshot)"

lemma world_finish:
  assumes alone: "en_gap E = no_gap" and Pr: "\<And>r. Pr r \<Longrightarrow> \<not> is_terminal_run_status (r_status r)"
    and snap: "en_snapshot E = Inr snapshot"
  shows "ends (\<lambda>e. run_world X Pr Pt ds True None e \<and> at_frames fs n v e) (finish_run E X (en_now E 0))
           (\<lambda>finished e.
              finished = result_outcome (snapshot_result snapshot v) (run_status_for_snapshot snapshot) \<and>
              at_frames fs n v e \<and>
              (\<exists>ds' recorded.
                 callback_owed E X (run_status_for_snapshot snapshot) (snapshot_result snapshot v) None ds ds' recorded \<and>
                 run_world X (settled_as (run_status_for_snapshot snapshot) None Pr) (shows_snapshot snapshot)
                   ds' True recorded e)) (\<lambda>_. False)"
proof -
  let ?s = "run_status_for_snapshot snapshot" and ?result = "snapshot_result snapshot v"
  let ?W = "\<lambda>Pt' e. at_frames fs n v e \<and> (\<exists>ds' recorded. callback_owed E X ?s ?result None ds ds' recorded \<and>
      run_world X (settled_as ?s None Pr) Pt' ds' True recorded e)"
  have settle: "ends (\<lambda>e. run_world X Pr Pt ds True None e \<and> at_frames fs n v e)
      (settle_run E X (en_now E 0) ?s ?result None) (\<lambda>st e. st = ?s \<and> ?W Pt e) (\<lambda>_. False)"
  proof -
    have "ends (run_world X Pr Pt ds True None) (settle_run E X (en_now E 0) ?s ?result None)
        (\<lambda>st e. st = ?s \<and> (\<exists>ds' recorded. callback_owed E X ?s ?result None ds ds' recorded \<and>
           run_world X (settled_as ?s None Pr) Pt ds' True recorded e)) (\<lambda>_. False)"
      by (rule world_settle [OF alone]) (use Pr in auto)
    from ends_conj [OF this frames_fixed.settle_keeps [OF relies_anything, where fs = fs and n = n and v = v]]
    show ?thesis by (rule ends_weaken) auto
  qed
  have mirror: "ends (?W Pt) (mirror_thread E (r_thread_id (ex_run X)) (snapshot_to_thread_update snapshot ?s))
      (\<lambda>_. ?W (shows_snapshot snapshot)) (\<lambda>_. False)"
    unfolding ends_def
  proof (intro allI impI)
    fix e :: engine
    assume W: "?W Pt e"
    then obtain ds' recorded where owed: "callback_owed E X ?s ?result None ds ds' recorded"
      and world: "run_world X (settled_as ?s None Pr) Pt ds' True recorded e" by blast
    have "ends (run_world X (settled_as ?s None Pr) Pt ds' True recorded)
        (mirror_thread E (r_thread_id (ex_run X)) (snapshot_to_thread_update snapshot ?s))
        (\<lambda>_. run_world X (settled_as ?s None Pr) (shows_snapshot snapshot) ds' True recorded) (\<lambda>_. False)"
      by (rule world_mirror [OF alone]) (rule mirrored_snapshot)
    note mirrored = ends_conj [OF this same_frames(3) [of fs n v]]
    have "run_world X (settled_as ?s None Pr) Pt ds' True recorded e \<and> at_frames fs n v e" using W world by blast
    from endsD [OF mirrored this] owed
    show "case mirror_thread E (r_thread_id (ex_run X)) (snapshot_to_thread_update snapshot ?s) e of
        (Inl _, e') \<Rightarrow> False | (Inr _, e') \<Rightarrow> ?W (shows_snapshot snapshot) e'"
      by (auto split: prod.splits sum.splits)
  qed
  have wait: "ends (\<lambda>e. run_world X Pr Pt ds True None e \<and> at_frames fs n v e) (await_only E)
      (\<lambda>_ e. run_world X Pr Pt ds True None e \<and> at_frames fs n v e) (\<lambda>_. False)"
    by (rule ends_weaken [OF ends_conj [OF world_await [OF alone] same_frames(2)]]) auto
  have "ends (\<lambda>e. st = ?s \<and> ?W Pt e)
      (ebind (if st = ?s
              then mirror_thread E (r_thread_id (ex_run X)) (snapshot_to_thread_update snapshot st)
              else mirror_thread_status E (r_thread_id (ex_run X)) (if st = Errored then ThreadErrored else Idle))
         (\<lambda>_. ereturn (result_outcome ?result st)))
      (\<lambda>finished e. finished = result_outcome ?result ?s \<and>
         ?W (shows_snapshot snapshot) e) (\<lambda>_. False)" for st
  proof (cases "st = ?s")
    case True
    show ?thesis
      unfolding True by (simp, rule ends_bind [OF mirror], rule ends_return, simp)
  qed (simp add: ends_def)
  note finish = ends_bind [OF settle this]
  have "ends (\<lambda>e. run_world X Pr Pt ds True None e \<and> at_frames fs n v e) (finish_snapshot E X (en_now E 0) snapshot)
      (\<lambda>finished e. finished = result_outcome ?result ?s \<and>
         ?W (shows_snapshot snapshot) e) (\<lambda>_. False)"
    unfolding ends_def
  proof (intro allI impI)
    fix e :: engine
    assume here: "run_world X Pr Pt ds True None e \<and> at_frames fs n v e"
    then have "eg_reply e = v" by (simp add: at_frames_def)
    then show "case finish_snapshot E X (en_now E 0) snapshot e of (Inl _, e') \<Rightarrow> False
        | (Inr finished, e') \<Rightarrow> finished = result_outcome ?result ?s \<and>
          ?W (shows_snapshot snapshot) e'"
      using endsD [OF finish here]
      by (simp add: finish_snapshot_def ebind_def [of "eget eg_reply"] eget_def Let_def)
  qed
  then have snapped: "ends (\<lambda>e. run_world X Pr Pt ds True None e \<and> at_frames fs n v e)
      (ebind (await_only E) (\<lambda>_. finish_snapshot E X (en_now E 0) snapshot))
      (\<lambda>finished e. finished = result_outcome ?result ?s \<and>
         ?W (shows_snapshot snapshot) e) (\<lambda>_. False)"
    by (rule ends_bind [OF wait])
  show ?thesis
    unfolding ends_def
  proof (intro allI impI)
    fix e :: engine
    assume here: "run_world X Pr Pt ds True None e \<and> at_frames fs n v e"
    then have "\<not> signal_aborted X e" by (simp add: run_world_def Let_def)
    then have "finish_run E X (en_now E 0) e = ebind (await_only E) (\<lambda>_. finish_snapshot E X (en_now E 0) snapshot) e"
      by (simp add: finish_run_def ebind_def [of "eget (signal_aborted X)"] eget_def snap)
    with endsD [OF snapped here]
    show "case finish_run E X (en_now E 0) e of (Inl _, e') \<Rightarrow> False
        | (Inr finished, e') \<Rightarrow>
            finished = result_outcome (snapshot_result snapshot v) ?s \<and>
            ?W (shows_snapshot snapshot) e'"
      by simp
  qed
qed

lemma world_started:
  assumes alone: "en_gap E = no_gap" and Pr: "\<And>r. Pr r \<Longrightarrow> \<not> is_terminal_run_status (r_status r)"
    and base: "\<And>f. ex_record_base X = Some f \<Longrightarrow> notes_base_only f"
    and ok: "en_resolve E = None" "en_stream_failure E = None" "en_snapshot E = Inr snapshot"
    and events: "wants_events_mode (kw_field (ex_kwargs X) ''stream_mode'') \<Longrightarrow> en_streams_events E"
  shows "ends (\<lambda>e. run_world X Pr (\<lambda>_. True) ds False None e \<and> at_frames [] 0 None e) (started_run E X (en_now E 0))
           (\<lambda>finished e. finished = completed_outcome E X snapshot \<and> streamed [] 0 None (agent_bodies E X) e \<and>
              (\<exists>ds' recorded.
                 callback_owed E X (run_status_for_snapshot snapshot)
                   (snapshot_result snapshot (declared_reply (agent_bodies E X) None)) None ds ds' recorded \<and>
                 run_world X (settled_as (run_status_for_snapshot snapshot) None Pr) (shows_snapshot snapshot)
                   ds' True recorded e)) (\<lambda>_. False)"
proof -
  let ?before = "\<lambda>b e. run_world X Pr (\<lambda>_. True) ds b None e \<and> at_frames [] 0 None e"
  have start: "ends (?before False) (elocal (\<lambda>e. e\<lparr>eg_started := True\<rparr>)) (\<lambda>_. ?before True) (\<lambda>_. False)"
    by (auto simp: ends_def elocal_def run_world_def at_frames_def signal_aborted_def control_box_def Let_def)
  have busy: "ends (?before True) (mirror_thread_status E (r_thread_id (ex_run X)) Busy) (\<lambda>_. ?before True) (\<lambda>_. False)"
    unfolding mirror_thread_status_def
    by (rule ends_weaken [OF ends_conj [OF world_mirror [OF alone, where Pt = "\<lambda>_. True" and Pt' = "\<lambda>_. True"] same_frames(3)]])
      auto
  have note_base: "ends (at_frames [] 0 None) (record_base E X) (\<lambda>_. at_frames [] 0 None) (at_frames [] 0 None)"
    unfolding record_base_def
    by (intro plain_keeps same_frames ends_local) (simp add: at_frames_def)
  have based: "ends (?before True) (record_base E X) (\<lambda>_. ?before True) (\<lambda>_. False)"
    by (rule ends_weaken [OF ends_conj [OF world_base [OF alone base] note_base]]) auto
  have finish: "ends (\<lambda>e. run_world X Pr (\<lambda>_. True) ds True None e \<and> streamed [] 0 None (agent_bodies E X) e)
      (finish_run E X (en_now E 0))
      (\<lambda>finished e. finished = completed_outcome E X snapshot \<and> streamed [] 0 None (agent_bodies E X) e \<and>
         (\<exists>ds' recorded.
            callback_owed E X (run_status_for_snapshot snapshot)
              (snapshot_result snapshot (declared_reply (agent_bodies E X) None)) None ds ds' recorded \<and>
            run_world X (settled_as (run_status_for_snapshot snapshot) None Pr) (shows_snapshot snapshot)
              ds' True recorded e)) (\<lambda>_. False)"
    unfolding streamed_def
    by (rule ends_weaken [OF world_finish [OF alone Pr ok(3), where Pt = "\<lambda>_. True"]])
      (simp_all add: completed_outcome_def)
  show ?thesis
    unfolding started_run_def
    by (rule ends_bind [OF start], rule ends_bind [OF busy], rule ends_bind [OF based],
        rule ends_bind [OF world_agent [OF alone ok(1,2) events] finish])
qed

text \<open>
  C10. An execution nobody interferes with, of an agent that ends, does what a run promises: it answers
  with the agent's state and the reply the agent declared last; the row has the status the snapshot
  implies and no error; the thread shows the values and the open questions and no older error; the
  frames are what the agent yielded; and when the run owes a callback, exactly one is recorded in the
  same write, with the run's status and the built body, and handed over to be attempted.
\<close>

theorem engine_completes:
  assumes alone: "en_gap E = no_gap"
    and row: "run_get (r_run_id (ex_run X)) (sv_store sv) = Some r" "\<not> is_terminal_run_status (r_status r)"
    and thread: "jm_has (ms_threads (sv_store sv)) (r_thread_id (ex_run X))"
    and assistant: "jm_has (ms_assistants (sv_store sv)) (r_assistant_id (ex_run X))"
    and running: "\<not> ab_aborted (cr_boxes (sv_control sv) ! ex_control X)"
    and base: "\<forall>f. ex_record_base X = Some f \<longrightarrow> notes_base_only f"
    and ok: "en_resolve E = None" "en_stream_failure E = None" "en_snapshot E = Inr snapshot"
    and events: "wants_events_mode (kw_field (ex_kwargs X) ''stream_mode'') \<longrightarrow> en_streams_events E"
    and run: "execute_run E X sv = ((out, handed), e)"
  shows "out = Inr (completed_outcome E X snapshot) \<and>
    (\<exists>now. run_get (r_run_id (ex_run X)) (sv_store (eg_service e)) =
       Some (r\<lparr>r_status := run_status_for_snapshot snapshot, r_updated_at := now, r_error := None\<rparr>)) \<and>
    (\<exists>t. jm_get (ms_threads (sv_store (eg_service e))) (r_thread_id (ex_run X)) = Some t \<and> shows_snapshot snapshot t) \<and>
    eg_frames e = number_from 0 (agent_bodies E X) \<and>
    callback_owed E X (run_status_for_snapshot snapshot)
      (snapshot_result snapshot (declared_reply (agent_bodies E X) None)) None
      (ms_deliveries (sv_store sv)) (ms_deliveries (sv_store (eg_service e))) (eg_recorded e) \<and>
    (\<forall>d. eg_recorded e = Some d \<longrightarrow> handed = Some (AttemptRecorded d))"
proof -
  let ?s = "run_status_for_snapshot snapshot" and ?ds = "ms_deliveries (sv_store sv)"
  let ?reply = "declared_reply (agent_bodies E X) None"
  let ?e0 = "fresh_engine sv"
  have before: "run_world X (\<lambda>r'. r' = r) (\<lambda>_. True) ?ds False None ?e0 \<and> at_frames [] 0 None ?e0"
    using row thread assistant running
    by (auto simp: run_world_def fresh_engine_def at_frames_def signal_aborted_def control_box_def jm_has_iff Let_def)
  have read: "ends (\<lambda>e. run_world X (\<lambda>r'. r' = r) (\<lambda>_. True) ?ds False None e \<and> at_frames [] 0 None e)
      (awaited E (read_store (run_get (r_run_id (ex_run X)))))
      (\<lambda>cur e. cur = Some r \<and> run_world X (\<lambda>r'. r' = r) (\<lambda>_. True) ?ds False None e \<and> at_frames [] 0 None e)
      (\<lambda>_. False)"
    by (auto simp: ends_def read_store_def alone_awaited [OF alone] run_world_def signal_aborted_def control_box_def
        at_frames_def Let_def split: option.splits)
  let ?Pr = "\<lambda>r'. \<exists>r0 now. r0 = r \<and> r' = r0\<lparr>r_status := Running, r_updated_at := now, r_error := None\<rparr>"
  have start: "ends (\<lambda>e. run_world X (\<lambda>r'. r' = r) (\<lambda>_. True) ?ds False None e \<and> at_frames [] 0 None e)
      (awaited E (on_store (set_status (r_run_id (ex_run X)) Running None)))
      (\<lambda>r' e. \<not> is_terminal_run_status (r_status r') \<and>
         run_world X ?Pr (\<lambda>_. True) ?ds False None e \<and> at_frames [] 0 None e) (\<lambda>_. False)"
    by (rule ends_weaken [OF ends_conj [OF world_start [OF alone] same_frames(5)]]) (use row(2) in auto)
  let ?Done = "\<lambda>finished e. finished = completed_outcome E X snapshot \<and> streamed [] 0 None (agent_bodies E X) e \<and>
      (\<exists>ds' recorded. callback_owed E X ?s (snapshot_result snapshot ?reply) None ?ds ds' recorded \<and>
         run_world X (settled_as ?s None ?Pr) (shows_snapshot snapshot) ds' True recorded e)"
  have started: "ends (\<lambda>e. run_world X ?Pr (\<lambda>_. True) ?ds False None e \<and> at_frames [] 0 None e)
      (started_run E X (en_now E 0)) ?Done (\<lambda>_. False)"
    by (rule world_started [OF alone]) (use base ok events in auto)
  have begun: "ends (\<lambda>e. \<not> is_terminal_run_status (r_status r') \<and>
         run_world X ?Pr (\<lambda>_. True) ?ds False None e \<and> at_frames [] 0 None e)
      (if is_terminal_run_status (r_status r') then ereturn (plain_outcome (r_status r') None)
       else started_run E X (en_now E 0)) ?Done (\<lambda>_. False)" for r'
    by (cases "is_terminal_run_status (r_status r')")
      (simp add: ends_def, simp, rule ends_weaken [OF started], simp_all)
  have "ends (\<lambda>e. run_world X (\<lambda>r'. r' = r) (\<lambda>_. True) ?ds False None e \<and> at_frames [] 0 None e)
      (attempt_run E X (en_now E 0)) ?Done (\<lambda>_. False)"
    unfolding attempt_run_def
  proof (rule ends_bind [OF read])
    fix cur
    show "ends (\<lambda>e. cur = Some r \<and> run_world X (\<lambda>r'. r' = r) (\<lambda>_. True) ?ds False None e \<and> at_frames [] 0 None e)
        (case terminal_row cur of
           None \<Rightarrow> ebind (awaited E (on_store (set_status (r_run_id (ex_run X)) Running None))) (\<lambda>running.
             if is_terminal_run_status (r_status running) then ereturn (plain_outcome (r_status running) None)
             else started_run E X (en_now E 0))
         | Some status \<Rightarrow> ereturn (plain_outcome status None)) ?Done (\<lambda>_. False)"
    proof (cases "cur = Some r")
      case True
      then have "terminal_row cur = None" using row(2) by (simp add: terminal_row_def)
      then show ?thesis
        by simp (rule ends_weaken [OF ends_bind [OF start begun]], simp_all)
    qed (simp add: ends_def)
  qed
  from endsD [OF this before] obtain finished e1 where
    att: "attempt_run E X (en_now E 0) ?e0 = (Inr finished, e1)" and completed: "?Done finished e1"
    by (auto split: prod.splits sum.splits)
  then have "ecatch (attempt_run E X (en_now E 0)) (handle_failure E X (en_now E 0)) ?e0 = (Inr finished, e1)"
    by (simp add: ecatch_def)
  note parts = execute_run_parts [OF this]
  have "out = Inr finished" "eg_frames e = eg_frames e1" "eg_recorded e = eg_recorded e1"
    "sv_store (eg_service e) = sv_store (eg_service e1)"
    using parts run by (auto simp: alone)
  moreover have "\<forall>d. eg_recorded e = Some d \<longrightarrow> handed = Some (AttemptRecorded d)"
    using run by (auto simp: execute_run_def owed_callback_def Let_def split: prod.splits)
  ultimately show ?thesis
    using completed
    by (auto simp: run_world_def streamed_def at_frames_def settled_as_def Let_def split: option.splits)
qed

section \<open>Witnesses\<close>

text \<open>
  A run of the sample thread that owes a callback; its agent streams its state, declares a reply, and
  yields a chunk that tries to pose as an error frame.
\<close>

definition engine_service :: run_service where
  "engine_service = sample_service\<lparr>
     sv_store := sample_store\<lparr>ms_assistants := [(''a1'', \<lparr>a_assistant_id = ''a1'', a_graph_id = ''g'',
       a_config = JObj [], a_context = JObj [], a_created_at = 0, a_updated_at = 0, a_metadata = JObj [],
       a_version = 1, a_name = ''a'', a_description = None\<rparr>)]\<rparr>,
     sv_control := snd (register_run ''r1'' (new_registry True))\<rparr>"

definition sample_execution :: run_execution where
  "sample_execution = \<lparr>ex_run = sample_run ''r1'' Running,
     ex_kwargs = empty_kwargs\<lparr>kw_webhook := Some ''https://hooks.example/run''\<rparr>,
     ex_control = 0, ex_record_base = None\<rparr>"

definition sample_snapshot :: agent_snapshot where
  "sample_snapshot = Snapshot (JObj [(''n'', JBool True)]) [] [] None None None None"

definition sample_env :: engine_env where
  "sample_env = \<lparr>en_gap = no_gap, en_now = int, en_fresh = (\<lambda>_. ''d1''), en_error = (\<lambda>_. RUN_TIMEOUT_ERROR),
     en_resolve = None, en_streams_events = True,
     en_chunks = [JArr [JStr ''values'', JObj [(''n'', JBool True)]], JArr [JStr ''custom'', reply_with (JStr ''ok'')],
       JArr [JStr ''error'', JStr ''boo'']],
     en_stream_failure = None, en_snapshot = Inr sample_snapshot, en_base = None,
     en_wire_size = (\<lambda>_. Some 100), en_iso = (\<lambda>_. ''t''), en_max_payload_bytes = None,
     en_webhook_timeout_ms = 5000, en_retain_hours = None\<rparr>"

definition sample_end :: "((failure + run_outcome) \<times> callback option) \<times> engine" where
  "sample_end = execute_run sample_env sample_execution engine_service"

lemma sample_env_simps [simp]:
  "en_gap sample_env = no_gap" "en_resolve sample_env = None" "en_stream_failure sample_env = None"
  "en_snapshot sample_env = Inr sample_snapshot" "en_streams_events sample_env"
  by (simp_all add: sample_env_def)

lemma sample_bodies:
  "map fb_event (agent_bodies sample_env sample_execution) = [''values'', ''custom'', ''updates'']"
  by code_simp

lemma sample_reply: "declared_reply (agent_bodies sample_env sample_execution) None = Some (JStr ''ok'')"
  by code_simp

lemma sample_rows:
  "run_get (r_run_id (ex_run sample_execution)) (sv_store engine_service) = Some (sample_run ''r1'' Running)"
  "\<not> is_terminal_run_status (r_status (sample_run ''r1'' Running))"
  "jm_has (ms_threads (sv_store engine_service)) (r_thread_id (ex_run sample_execution))"
  "jm_has (ms_assistants (sv_store engine_service)) (r_assistant_id (ex_run sample_execution))"
  "\<not> ab_aborted (cr_boxes (sv_control engine_service) ! ex_control sample_execution)"
  by (simp_all add: sample_execution_def engine_service_def sample_service_def sample_simps run_get_def jm_has_def
      register_run_def new_registry_def Let_def)

lemma sample_callback:
  assumes "callback_owed sample_env sample_execution s result err [] ds recorded"
  shows "\<exists>d. recorded = Some d \<and> ds = [(dl_delivery_id d, d)] \<and> dl_run_status d = s"
proof -
  have "\<exists>built. build_delivery_payload (en_wire_size sample_env) f pin = Some built" for f pin
    by (simp add: build_delivery_payload_def sample_env_def Let_def)
  moreover have "kw_webhook (ex_kwargs sample_execution) \<noteq> None"
    by (simp add: sample_execution_def)
  ultimately show ?thesis
    using assms by (auto simp: callback_owed_def split: option.splits) (metis option.distinct(1))
qed

theorem engine_completes_witness:
  "fst (fst sample_end) = Inr (completed_outcome sample_env sample_execution sample_snapshot) \<and>
   (\<exists>d. ms_deliveries (sv_store (eg_service (snd sample_end))) = [(dl_delivery_id d, d)] \<and>
        dl_run_status d = Success \<and> snd (fst sample_end) = Some (AttemptRecorded d))"
proof -
  have "execute_run sample_env sample_execution engine_service = ((fst (fst sample_end), snd (fst sample_end)), snd sample_end)"
    by (simp add: sample_end_def)
  note completed = engine_completes [OF sample_env_simps(1) sample_rows _ sample_env_simps(2,3,4) _ this]
  have "ms_deliveries (sv_store engine_service) = []" "run_status_for_snapshot sample_snapshot = Success"
    by (simp_all add: engine_service_def sample_simps sample_snapshot_def run_status_for_snapshot_def is_interrupted_snapshot_def)
  then show ?thesis
    using completed sample_callback by (auto simp: sample_execution_def) blast
qed

text \<open>The run is deleted while the agent streams.\<close>

definition deleting_env :: engine_env where
  "deleting_env = sample_env\<lparr>en_gap := (\<lambda>n sv. if n = 7 then sv\<lparr>sv_store := run_delete ''r1'' (sv_store sv)\<rparr> else sv)\<rparr>"

lemma run_delete_over: "over i sv \<Longrightarrow> over i (sv\<lparr>sv_store := run_delete j (sv_store sv)\<rparr>)"
  by (auto simp: over_def run_get_def run_delete_runs jm_get_delete split: option.splits)

theorem engine_settles_run_witness:
  "over ''r1'' (eg_service (snd (execute_run deleting_env sample_execution engine_service))) \<and>
   ''r1'' \<in> set (sv_closed (eg_service (snd (execute_run deleting_env sample_execution engine_service))))"
proof -
  have id: "r_run_id (ex_run sample_execution) = ''r1''" by (simp add: sample_execution_def sample_simps)
  have "relies deleting_env (run_stays_over (r_run_id (ex_run sample_execution)))"
    by (simp add: relies_def deleting_env_def run_stays_over_def run_delete_over)
  from engine_settles_run [OF this, of engine_service] show ?thesis unfolding id by blast
qed

theorem engine_single_callback_witness:
  "callbacks ''r1'' (eg_service (snd sample_end)) \<subseteq>
     (case snd (fst sample_end) of Some (AttemptRecorded d) \<Rightarrow> {dl_delivery_id d} | _ \<Rightarrow> {})"
proof -
  have id: "r_run_id (ex_run sample_execution) = ''r1''" by (simp add: sample_execution_def sample_simps)
  have none: "callbacks ''r1'' engine_service = {}"
    by (simp add: callbacks_def engine_service_def sample_simps)
  have "relies sample_env (no_new_callbacks (r_run_id (ex_run sample_execution)))"
    "\<forall>f tip sv. ex_record_base sample_execution = Some f \<longrightarrow>
       no_new_callbacks (r_run_id (ex_run sample_execution)) sv (f tip sv)"
    by (simp_all add: relies_def no_new_callbacks_def sample_execution_def)
  from engine_single_callback [OF this, of engine_service] show ?thesis
    unfolding id none sample_end_def by simp
qed

theorem engine_frames_faithful_witness:
  "framed (agent_bodies sample_env sample_execution) (eg_frames (snd sample_end)) \<and>
   (\<exists>b \<in> set (agent_bodies sample_env sample_execution).
      fb_event b = ''custom'' \<and> split_on CHR ''|'' (frame_event_name (to_run_frame 2 b)) = ''custom'' # fb_namespace b)"
proof -
  have "''custom'' \<in> set (map fb_event (agent_bodies sample_env sample_execution))"
    unfolding sample_bodies by simp
  then obtain b where "b \<in> set (agent_bodies sample_env sample_execution)" "fb_event b = ''custom''" by auto
  with engine_frames_faithful [of sample_env sample_execution engine_service] show ?thesis
    unfolding sample_end_def by metis
qed

end
