(* ===== verification/RunExecution.thy ===== *)
theory RunExecution
  imports RunEngineAlone
begin

text \<open>
  \<^verbatim>\<open>startRunExecution\<close> of \<^verbatim>\<open>runs/run-execution.ts\<close>, the one way every run mode executes a run: it
  registers the run's control, waits for the thread's execution lock, applies the rollback the run
  carries, runs the engine, delivers the callback after the lock is released, and cleans up. Without a
  thread execution gate; waiting for the lock is an await. The revert of the checkpoints is best effort
  and outside the model, and so is the sweep of checkpoints a cancelled run wrote to a deleted thread.

  The steps around the engine are computations of the engine's monad; \<open>shifted n\<close> is the environment
  from its n-th await on.
\<close>

section \<open>Around the engine\<close>

definition shifted :: "nat \<Rightarrow> engine_env \<Rightarrow> engine_env" where
  "shifted n E = E\<lparr>en_gap := later n (en_gap E), en_now := later n (en_now E), en_fresh := later n (en_fresh E)\<rparr>"

definition on_service :: "(run_service \<Rightarrow> run_service) \<Rightarrow> unit eng" where
  "on_service f = elocal (\<lambda>e. e\<lparr>eg_service := f (eg_service e)\<rparr>)"

text \<open>The rollback: the note of this process, else the run's own kwargs.\<close>

definition carried_plan :: "ident \<Rightarrow> run_kwargs \<Rightarrow> run_service \<Rightarrow> rollback_plan option" where
  "carried_plan run_id kwargs sv =
     (case jm_get (sv_rollback_plans sv) run_id of
        Some p \<Rightarrow> Some p
      | None \<Rightarrow> stored_rollback_plan kwargs)"

text \<open>A displaced run's row goes, unless it is a native one, whose receipt stays.\<close>

definition remove_displaced :: "engine_env \<Rightarrow> ident \<Rightarrow> unit eng" where
  "remove_displaced E run_id =
     ebind (awaited E (read_store (get_kwargs run_id))) (\<lambda>kwargs.
       case (case kwargs of None \<Rightarrow> None | Some k \<Rightarrow> kw_native_origin k) of
         Some _ \<Rightarrow> ereturn ()
       | None \<Rightarrow> awaited E (\<lambda>_ sv. (Inr (), sv\<lparr>sv_store := run_delete run_id (sv_store sv)\<rparr>)))"

fun remove_all_displaced :: "engine_env \<Rightarrow> ident list \<Rightarrow> unit eng" where
  "remove_all_displaced E [] = ereturn ()"
| "remove_all_displaced E (run_id # rest) = ebind (remove_displaced E run_id) (\<lambda>_. remove_all_displaced E rest)"

definition apply_rollback :: "engine_env \<Rightarrow> ident \<Rightarrow> run_kwargs \<Rightarrow> unit eng" where
  "apply_rollback E run_id kwargs =
     ebind (eget (\<lambda>e. carried_plan run_id kwargs (eg_service e))) (\<lambda>plan.
       case plan of
         None \<Rightarrow> ereturn ()
       | Some p \<Rightarrow>
           ebind (on_service (drop_plan run_id)) (\<lambda>_.
           ebind (if rp_revert_to p = NoRevert then ereturn () else await_only E) (\<lambda>_.
           remove_all_displaced E (rp_displaced p))))"

text \<open>Under the lock, before the engine: the status of a run that is over already, or \<open>None\<close> to go on.\<close>

definition enter_execution :: "engine_env \<Rightarrow> run \<Rightarrow> run_kwargs \<Rightarrow> run_status option eng" where
  "enter_execution E r kwargs =
     ebind (await_only E) (\<lambda>_.
     ebind (awaited E (read_store (run_get (r_run_id r)))) (\<lambda>current.
       case current of
         None \<Rightarrow> ebind (on_service (drop_plan (r_run_id r))) (\<lambda>_. ereturn (Some Cancelled))
       | Some row \<Rightarrow>
           if is_terminal_run_status (r_status row)
           then ebind (on_service (drop_plan (r_run_id r))) (\<lambda>_. ereturn (Some (r_status row)))
           else ebind (apply_rollback E (r_run_id r) kwargs) (\<lambda>_. ereturn None)))"

text \<open>What the engine calls with the tip it read: noted in this process and with the run.\<close>

definition note_base :: "ident \<Rightarrow> instant \<Rightarrow> ident option \<Rightarrow> run_service \<Rightarrow> run_service" where
  "note_base run_id now base sv =
     sv\<lparr>sv_base_checkpoints := jm_set run_id base (sv_base_checkpoints sv),
        sv_store := record_base_checkpoint run_id (case base of None \<Rightarrow> Null | Some c \<Rightarrow> Value c) (sv_store sv)\<rparr>"

text \<open>\<^verbatim>\<open>deleteThreadIfRunOwnedIt\<close>, with the deletion of the thread's checkpoints as an await.\<close>

definition delete_thread_if_run_owned_it :: "engine_env \<Rightarrow> run \<Rightarrow> run_kwargs \<Rightarrow> unit eng" where
  "delete_thread_if_run_owned_it E r kwargs =
     (if \<not> kw_delete_thread_on_completion kwargs then ereturn ()
      else
        ebind (awaited E (read_store (run_get (r_run_id r)))) (\<lambda>settled.
          if (case settled of None \<Rightarrow> False | Some row \<Rightarrow> r_status row = Interrupted) then ereturn ()
          else
            ebind (await_only E) (\<lambda>_.
            awaited E (\<lambda>_ sv. (Inr (), sv\<lparr>sv_store := thread_delete (r_thread_id r) (sv_store sv)\<rparr>)))))"

text \<open>
  The deferred callback, after the lock is released: one attempt of a recorded delivery against the store;
  a plain POST changes nothing here.
\<close>

definition deliver_deferred :: "engine_env \<Rightarrow> attempt_deps \<Rightarrow> attempt_world \<Rightarrow> callback option \<Rightarrow> unit eng" where
  "deliver_deferred E deps w owed =
     (case owed of
        Some (AttemptRecorded d) \<Rightarrow>
          awaited E (\<lambda>_ sv. (Inr (), sv\<lparr>sv_store := snd (snd (attempt_delivery deps w d (sv_store sv)))\<rparr>))
      | Some (PostOnce _ _) \<Rightarrow> await_only E
      | None \<Rightarrow> ereturn ())"

definition leave_execution ::
  "engine_env \<Rightarrow> attempt_deps \<Rightarrow> attempt_world \<Rightarrow> run \<Rightarrow> run_kwargs \<Rightarrow> bool \<Rightarrow> callback option \<Rightarrow> unit eng" where
  "leave_execution E deps w r kwargs engine_started owed =
     ebind (deliver_deferred E deps w owed) (\<lambda>_.
     ebind (on_service (\<lambda>sv. sv\<lparr>sv_control := clear_run (r_run_id r) (sv_control sv),
                               sv_base_checkpoints := jm_delete (r_run_id r) (sv_base_checkpoints sv)\<rparr>)) (\<lambda>_.
       if engine_started then delete_thread_if_run_owned_it E r kwargs else ereturn ()))"

definition start_run_execution ::
  "engine_env \<Rightarrow> attempt_deps \<Rightarrow> attempt_world \<Rightarrow> run \<Rightarrow> run_kwargs \<Rightarrow> run_service \<Rightarrow>
   (failure + run_outcome) \<times> run_service" where
  "start_run_execution E deps w r kwargs sv =
     (let (box, R) = register_run (r_run_id r) (sv_control sv);
          (entered, e) = enter_execution E r kwargs (fresh_engine (sv\<lparr>sv_control := R\<rparr>));
          n = eg_awaits e
      in case entered of
           Inl f \<Rightarrow> (Inl f, eg_service (snd (leave_execution (shifted n E) deps w r kwargs False None
                                               (fresh_engine (eg_service e)))))
         | Inr (Some status) \<Rightarrow>
             (Inr (plain_outcome status None),
              eg_service (snd (leave_execution (shifted n E) deps w r kwargs False None (fresh_engine (eg_service e)))))
         | Inr None \<Rightarrow>
             let X = \<lparr>ex_run = r, ex_kwargs = kwargs, ex_control = box,
                      ex_record_base = Some (note_base (r_run_id r) (en_now E n))\<rparr>;
                 ((out, owed), e') = execute_run (shifted n E) X (eg_service e)
             in (out, eg_service (snd (leave_execution (shifted (n + eg_awaits e') E) deps w r kwargs True owed
                                         (fresh_engine (eg_service e'))))))"

end
