(* ===== verification/RunExecutionEnds.thy ===== *)
theory RunExecutionEnds
  imports RunExecution
begin

text \<open>
  What \<^verbatim>\<open>startRunExecution\<close> guarantees around the engine: a run that is over when its turn comes is not
  executed, and the runs a rollback displaces are gone afterwards.
\<close>

section \<open>Triples over the service\<close>

lemma ends_awaited:
  assumes "\<And>sv now. A sv \<Longrightarrow> \<exists>x sv'. op now sv = (Inr x, sv') \<and> B x sv'"
    and "\<And>x sv n. B x sv \<Longrightarrow> B x (en_gap E n sv)"
  shows "ends (\<lambda>e. A (eg_service e)) (awaited E op) (\<lambda>x e. B x (eg_service e)) R"
  unfolding ends_def
proof (intro allI impI)
  fix e :: engine
  assume "A (eg_service e)"
  from assms(1) [OF this, of "en_now E (eg_awaits e)"] obtain x sv'
    where "op (en_now E (eg_awaits e)) (eg_service e) = (Inr x, sv')" "B x sv'" by blast
  with assms(2) show "case awaited E op e of (Inl _, e') \<Rightarrow> R e' | (Inr x, e') \<Rightarrow> B x (eg_service e')"
    by (simp add: awaited_def Let_def)
qed

lemma ends_read:
  assumes "\<And>sv. A sv \<Longrightarrow> B (f (sv_store sv)) sv" and "\<And>x sv n. B x sv \<Longrightarrow> B x (en_gap E n sv)"
  shows "ends (\<lambda>e. A (eg_service e)) (awaited E (read_store f)) (\<lambda>x e. B x (eg_service e)) R"
  by (rule ends_awaited) (use assms in \<open>auto simp: read_store_def\<close>)

lemma ends_await_only:
  assumes "\<And>sv n. A sv \<Longrightarrow> A (en_gap E n sv)"
  shows "ends (\<lambda>e. A (eg_service e)) (await_only E) (\<lambda>_ e. A (eg_service e)) R"
  unfolding await_only_def by (rule ends_awaited) (use assms in auto)

lemma ends_on_service:
  assumes "\<And>sv. A sv \<Longrightarrow> B (f sv)"
  shows "ends (\<lambda>e. A (eg_service e)) (on_service f) (\<lambda>_ e. B (eg_service e)) R"
  unfolding on_service_def by (rule ends_local) (use assms in simp)

lemma ends_Inr: "ends P m Q (\<lambda>_. False) \<Longrightarrow> P e \<Longrightarrow> \<exists>x e'. m e = (Inr x, e') \<and> Q x e'"
  by (drule endsD) (auto split: prod.splits sum.splits)

lemma shifted_simps [simp]:
  "en_gap (shifted n E) k sv = en_gap E (n + k) sv" "en_now (shifted n E) k = en_now E (n + k)"
  by (simp_all add: shifted_def later_def)

lemma fresh_service [simp]: "eg_service (fresh_engine sv) = sv"
  by (simp add: fresh_engine_def)

lemma shifted_relies: "relies E R \<Longrightarrow> relies (shifted n E) R"
  by (simp add: relies_def)

section \<open>A run that is over\<close>

text \<open>What follows the wait for the lock: the row is read again.\<close>

definition enter_turn :: "engine_env \<Rightarrow> run \<Rightarrow> run_kwargs \<Rightarrow> run_status option eng" where
  "enter_turn E r kwargs =
     ebind (awaited E (read_store (run_get (r_run_id r)))) (\<lambda>current.
       case current of
         None \<Rightarrow> ebind (on_service (drop_plan (r_run_id r))) (\<lambda>_. ereturn (Some Cancelled))
       | Some row \<Rightarrow>
           if is_terminal_run_status (r_status row)
           then ebind (on_service (drop_plan (r_run_id r))) (\<lambda>_. ereturn (Some (r_status row)))
           else ebind (apply_rollback E (r_run_id r) kwargs) (\<lambda>_. ereturn None))"

lemma enter_after_lock:
  "enter_execution E r kwargs (fresh_engine sv) =
     enter_turn E r kwargs ((fresh_engine sv)\<lparr>eg_service := en_gap E 0 sv, eg_awaits := 1\<rparr>)"
  by (simp add: enter_execution_def enter_turn_def await_only_def awaited_def ebind_def fresh_engine_def)

lemma turn_when_over:
  assumes gap: "\<And>n sv. over i sv \<and> keeps (sv_store sv) \<Longrightarrow> over i (en_gap E n sv) \<and> keeps (sv_store (en_gap E n sv))"
    and id: "r_run_id r = i"
  shows "ends (\<lambda>e. over i (eg_service e) \<and> keeps (sv_store (eg_service e))) (enter_turn E r kwargs)
           (\<lambda>x e. (\<exists>status. x = Some status \<and> is_terminal_run_status status) \<and> over i (eg_service e) \<and>
                  keeps (sv_store (eg_service e))) (\<lambda>_. False)"
proof -
  let ?A = "\<lambda>sv. over i sv \<and> keeps (sv_store sv)"
  let ?B = "\<lambda>current sv. (case current of None \<Rightarrow> True | Some row \<Rightarrow> is_terminal_run_status (r_status row)) \<and> ?A sv"
  have read: "ends (\<lambda>e. ?A (eg_service e)) (awaited E (read_store (run_get i))) (\<lambda>x e. ?B x (eg_service e)) (\<lambda>_. False)"
    by (rule ends_read) (use gap in \<open>auto simp: over_def\<close>)
  have drop: "ends (\<lambda>e. ?A (eg_service e)) (ebind (on_service (drop_plan i)) (\<lambda>_. ereturn (Some st)))
      (\<lambda>x e. (\<exists>status. x = Some status \<and> is_terminal_run_status status) \<and> ?A (eg_service e)) (\<lambda>_. False)"
    if "is_terminal_run_status st" for st
    by (rule ends_bind [OF ends_on_service [where B = ?A]])
      (use that in \<open>auto simp: drop_plan_def over_def intro: ends_return\<close>)
  show ?thesis
    unfolding enter_turn_def id
  proof (rule ends_bind [OF read])
    fix current
    show "ends (\<lambda>e. ?B current (eg_service e))
        (case current of None \<Rightarrow> ebind (on_service (drop_plan i)) (\<lambda>_. ereturn (Some Cancelled))
         | Some row \<Rightarrow> if is_terminal_run_status (r_status row)
             then ebind (on_service (drop_plan i)) (\<lambda>_. ereturn (Some (r_status row)))
             else ebind (apply_rollback E i kwargs) (\<lambda>_. ereturn None))
        (\<lambda>x e. (\<exists>status. x = Some status \<and> is_terminal_run_status status) \<and> ?A (eg_service e)) (\<lambda>_. False)"
    proof (cases current)
      case None
      then show ?thesis using drop [of Cancelled] by simp
    next
      case (Some row)
      then show ?thesis
        using drop [of "r_status row"] by (cases "is_terminal_run_status (r_status row)") (simp_all add: ends_def)
    qed
  qed
qed

text \<open>The service when the thread's lock is handed over: what the others did of it while this execution waited.\<close>

definition at_turn :: "engine_env \<Rightarrow> ident \<Rightarrow> run_service \<Rightarrow> run_service" where
  "at_turn E run_id sv = en_gap E 0 (sv\<lparr>sv_control := snd (register_run run_id (sv_control sv))\<rparr>)"

text \<open>
  C11. A run whose row is over, or gone, when its turn under the lock comes is not executed, whatever
  the row was when \<^verbatim>\<open>startRunExecution\<close> was called: the caller gets a terminal status, and whatever of
  the store the other requests keep from then on, the execution keeps. So a job that is delivered
  again, or a run cancelled while it waited for the lock, writes nothing. From its turn on the others
  do not reopen the run.
\<close>

theorem execution_skips_settled_run:
  assumes "relies E (run_stays_over (r_run_id r))" and "over (r_run_id r) (at_turn E (r_run_id r) sv)"
    and "\<forall>n sv'. keeps (sv_store sv') \<longrightarrow> keeps (sv_store (en_gap E n sv'))"
    and "keeps (sv_store (at_turn E (r_run_id r) sv))"
  shows "(\<exists>status. is_terminal_run_status status \<and>
            fst (start_run_execution E deps w r kwargs sv) = Inr (plain_outcome status None)) \<and>
         keeps (sv_store (snd (start_run_execution E deps w r kwargs sv)))"
proof -
  let ?i = "r_run_id r"
  obtain box R where reg: "register_run ?i (sv_control sv) = (box, R)" by fastforce
  let ?locked = "(fresh_engine (sv\<lparr>sv_control := R\<rparr>))\<lparr>eg_service := at_turn E ?i sv, eg_awaits := 1\<rparr>"
  have "over ?i sv' \<and> keeps (sv_store sv') \<Longrightarrow> over ?i (en_gap E n sv') \<and> keeps (sv_store (en_gap E n sv'))" for n sv'
    using gap_over [OF assms(1)] assms(3) by blast
  then have gap: "\<And>n sv'. over ?i sv' \<and> keeps (sv_store sv') \<Longrightarrow>
      over ?i (en_gap E n sv') \<and> keeps (sv_store (en_gap E n sv'))" by blast
  have turn: "ends (\<lambda>e. over ?i (eg_service e) \<and> keeps (sv_store (eg_service e))) (enter_turn E r kwargs)
      (\<lambda>x e. (\<exists>status. x = Some status \<and> is_terminal_run_status status) \<and> over ?i (eg_service e) \<and>
             keeps (sv_store (eg_service e))) (\<lambda>_. False)"
    by (rule turn_when_over [OF _ refl]) (rule gap)
  have "over ?i (eg_service ?locked) \<and> keeps (sv_store (eg_service ?locked))"
    using assms(2,4) by simp
  from ends_Inr [OF turn this] obtain status e where
    entered: "enter_turn E r kwargs ?locked = (Inr (Some status), e)"
    and kept: "is_terminal_run_status status" "keeps (sv_store (eg_service e))" by blast
  have "sv_store (eg_service (snd (leave_execution E' deps w r kwargs False None e'))) = sv_store (eg_service e')" for E' e'
    by (simp add: leave_execution_def deliver_deferred_def ebind_def ereturn_def on_service_def elocal_def)
  then show ?thesis
    using kept entered by (auto simp: start_run_execution_def reg enter_after_lock at_turn_def Let_def)
qed

section \<open>The runs a rollback displaces\<close>

text \<open>
  The run's turn comes with a plan: noted in this process, or, after a restart or on another worker,
  stored with its kwargs.
\<close>

definition turn_of :: "ident \<Rightarrow> run_kwargs \<Rightarrow> rollback_plan \<Rightarrow> run_service \<Rightarrow> bool" where
  "turn_of run_id kwargs plan sv \<longleftrightarrow>
     (jm_get (sv_rollback_plans sv) run_id = Some plan \<or>
      jm_get (sv_rollback_plans sv) run_id = None \<and> stored_rollback_plan kwargs = Some plan) \<and>
     \<not> over run_id sv"

text \<open>Only a native run keeps its receipt.\<close>

definition removable :: "ident \<Rightarrow> run_service \<Rightarrow> bool" where
  "removable d sv = (case get_kwargs d (sv_store sv) of None \<Rightarrow> True | Some k \<Rightarrow> kw_native_origin k = None)"

definition removed :: "ident \<Rightarrow> run_service \<Rightarrow> bool" where
  "removed d sv \<longleftrightarrow> run_get d (sv_store sv) = None"

text \<open>Others leave the plan and the waiting run alone, and bring no run back.\<close>

definition leaves_plan :: "ident \<Rightarrow> run_kwargs \<Rightarrow> rollback_plan \<Rightarrow> ident \<Rightarrow> run_service \<Rightarrow> run_service \<Rightarrow> bool" where
  "leaves_plan run_id kwargs plan d sv sv' \<longleftrightarrow>
     (turn_of run_id kwargs plan sv \<longrightarrow> turn_of run_id kwargs plan sv') \<and> (removable d sv \<longrightarrow> removable d sv') \<and>
     (removed d sv \<longrightarrow> removed d sv')"

lemma set_status_removed: "set_status i s err now st = (out, st') \<Longrightarrow> run_get d st = None \<Longrightarrow> run_get d st' = None"
  by (auto simp: set_status_def run_get_def jm_get_set Let_def split: option.splits if_splits)

lemma finalize_removed:
  "finalize_with_delivery i s err c uuid now st = ((row, dl), st') \<Longrightarrow> run_get d st = None \<Longrightarrow> run_get d st' = None"
  by (auto simp: finalize_with_delivery_def insert_delivery_def run_get_def jm_get_set Let_def
      split: option.splits if_splits)

lemma attempt_delivery_runs: "ms_runs (snd (snd (attempt_delivery deps w dl s))) = ms_runs s"
  by (simp add: attempt_delivery_def record_outcome_def record_attempt_def Let_def split: option.split prod.split
      delivery_attempt_result.split)

lemma removed_simps [simp]:
  "removed d (close_bus i sv) = removed d sv" "removed d (sv\<lparr>sv_control := R\<rparr>) = removed d sv"
  "removed d (drop_plan i sv) = removed d sv" "removed d (sv\<lparr>sv_base_checkpoints := B\<rparr>) = removed d sv"
  by (simp_all add: removed_def close_bus_def drop_plan_def)

interpretation removed_kept: unframed_invariant "\<lambda>e. removed d (eg_service e)" "leaves_plan i kwargs plan d" for d i kwargs plan
proof
  fix e j s err c uuid now row dl st sv n
  assume "removed d (eg_service e)"
    and fin: "finalize_with_delivery j s err c uuid now (sv_store (eg_service e)) = ((row, dl), st)"
    and others: "leaves_plan i kwargs plan d ((eg_service e)\<lparr>sv_store := st\<rparr>) sv"
  then show "removed d (eg_service (e\<lparr>eg_service := sv, eg_awaits := n, eg_recorded := Some dl\<rparr>))"
    using finalize_removed [OF fin] by (simp add: leaves_plan_def removed_def)
qed (auto simp: leaves_plan_def removed_def run_get_def dest: thread_update_runs set_status_removed [unfolded run_get_def])


lemma leaves_planD:
  assumes "relies E (leaves_plan i kwargs plan d)"
  shows "turn_of i kwargs plan sv \<Longrightarrow> turn_of i kwargs plan (en_gap E n sv)" "removable d sv \<Longrightarrow> removable d (en_gap E n sv)"
    "removed d sv \<Longrightarrow> removed d (en_gap E n sv)"
  using assms by (auto simp: relies_def leaves_plan_def)

lemma run_delete_removes:
  "removed j (sv\<lparr>sv_store := run_delete j (sv_store sv)\<rparr>)"
  "removed d sv \<Longrightarrow> removed d (sv\<lparr>sv_store := run_delete j (sv_store sv)\<rparr>)"
  "removable d sv \<Longrightarrow> removable d (sv\<lparr>sv_store := run_delete j (sv_store sv)\<rparr>)"
  by (auto simp: removed_def removable_def run_get_def run_delete_runs jm_get_delete get_kwargs_def run_delete_def
      frame_simps split: option.splits)

lemma remove_displaced_removes:
  assumes rely: "relies E (leaves_plan i kwargs plan d)"
  shows "ends (\<lambda>e. removable d (eg_service e) \<and> (gone \<longrightarrow> removed d (eg_service e))) (remove_displaced E j)
           (\<lambda>_ e. removable d (eg_service e) \<and> (gone \<or> j = d \<longrightarrow> removed d (eg_service e))) (\<lambda>_. False)"
proof -
  let ?A = "\<lambda>sv. removable d sv \<and> (gone \<longrightarrow> removed d sv)"
  let ?B = "\<lambda>kwargs sv. ?A sv \<and> (j = d \<longrightarrow> (case kwargs of None \<Rightarrow> None | Some k \<Rightarrow> kw_native_origin k) = None)"
  let ?C = "\<lambda>sv. removable d sv \<and> (gone \<or> j = d \<longrightarrow> removed d sv)"
  have read: "ends (\<lambda>e. ?A (eg_service e)) (awaited E (read_store (get_kwargs j))) (\<lambda>x e. ?B x (eg_service e)) (\<lambda>_. False)"
    by (rule ends_read) (use leaves_planD [OF rely] in \<open>auto simp: removable_def split: option.splits\<close>)
  have del: "ends (\<lambda>e. ?A (eg_service e))
      (awaited E (\<lambda>_ sv. (Inr (), sv\<lparr>sv_store := run_delete j (sv_store sv)\<rparr>))) (\<lambda>_ e. ?C (eg_service e)) (\<lambda>_. False)"
    by (rule ends_awaited) (use leaves_planD [OF rely] run_delete_removes in \<open>auto\<close>)
  show ?thesis
    unfolding remove_displaced_def
  proof (rule ends_bind [OF read])
    fix kwargs
    show "ends (\<lambda>e. ?B kwargs (eg_service e))
        (case (case kwargs of None \<Rightarrow> None | Some k \<Rightarrow> kw_native_origin k) of
           None \<Rightarrow> awaited E (\<lambda>_ sv. (Inr (), sv\<lparr>sv_store := run_delete j (sv_store sv)\<rparr>))
         | Some _ \<Rightarrow> ereturn ()) (\<lambda>_ e. ?C (eg_service e)) (\<lambda>_. False)"
      by (cases "case kwargs of None \<Rightarrow> None | Some k \<Rightarrow> kw_native_origin k")
        (simp_all, rule ends_weaken [OF del], auto intro: ends_return)
  qed
qed

lemma remove_all_removes:
  assumes rely: "relies E (leaves_plan i kwargs plan d)"
  shows "ends (\<lambda>e. removable d (eg_service e) \<and> (gone \<longrightarrow> removed d (eg_service e))) (remove_all_displaced E js)
           (\<lambda>_ e. gone \<or> d \<in> set js \<longrightarrow> removed d (eg_service e)) (\<lambda>_. False)"
proof (induction js arbitrary: gone)
  case Nil
  show ?case by (simp add: ends_def ereturn_def)
next
  case (Cons j js)
  show ?case
    unfolding remove_all_displaced.simps
    by (rule ends_bind [OF remove_displaced_removes [OF rely]]) (rule ends_weaken [OF Cons.IH [of "gone \<or> j = d"]]; auto)
qed

lemma enter_removes:
  assumes rely: "relies E (leaves_plan i kwargs plan d)" and "d \<in> set (rp_displaced plan)" and id: "r_run_id r = i"
  shows "ends (\<lambda>e. turn_of i kwargs plan (eg_service e) \<and> removable d (eg_service e)) (enter_execution E r kwargs)
           (\<lambda>x e. x = None \<and> removed d (eg_service e)) (\<lambda>_. False)"
proof -
  note kept = leaves_planD [OF rely]
  let ?A = "\<lambda>sv. turn_of i kwargs plan sv \<and> removable d sv"
  let ?B = "\<lambda>current sv. (\<exists>row. current = Some row \<and> \<not> is_terminal_run_status (r_status row)) \<and> ?A sv"
  let ?R = "\<lambda>e. removable d (eg_service e)"
  have read: "ends (\<lambda>e. ?A (eg_service e)) (awaited E (read_store (run_get i))) (\<lambda>x e. ?B x (eg_service e)) (\<lambda>_. False)"
    by (rule ends_read) (use kept in \<open>auto simp: turn_of_def over_def split: option.splits\<close>)
  have plan: "ends (\<lambda>e. ?A (eg_service e)) (eget (\<lambda>e. carried_plan i kwargs (eg_service e)))
      (\<lambda>x e. x = Some plan \<and> ?R e) (\<lambda>_. False)"
    by (auto simp: ends_def eget_def carried_plan_def turn_of_def)
  have revert: "ends ?R (if rp_revert_to plan = NoRevert then ereturn () else await_only E) (\<lambda>_. ?R) (\<lambda>_. False)"
    by (rule ends_if) (use kept in \<open>auto intro: ends_return ends_await_only\<close>)
  have drop: "ends ?R (on_service (drop_plan i)) (\<lambda>_. ?R) (\<lambda>_. False)"
    by (rule ends_on_service) (simp add: removable_def drop_plan_def)
  have clear: "ends ?R (remove_all_displaced E (rp_displaced plan)) (\<lambda>_ e. removed d (eg_service e)) (\<lambda>_. False)"
    using remove_all_removes [OF rely, of False "rp_displaced plan"] assms(2) by simp
  have rolled: "ends (\<lambda>e. ?A (eg_service e)) (apply_rollback E i kwargs) (\<lambda>_ e. removed d (eg_service e)) (\<lambda>_. False)"
    unfolding apply_rollback_def
  proof (rule ends_bind [OF plan])
    fix carried
    show "ends (\<lambda>e. carried = Some plan \<and> ?R e)
        (case carried of None \<Rightarrow> ereturn ()
         | Some p \<Rightarrow> ebind (on_service (drop_plan i)) (\<lambda>_.
             ebind (if rp_revert_to p = NoRevert then ereturn () else await_only E) (\<lambda>_.
             remove_all_displaced E (rp_displaced p)))) (\<lambda>_ e. removed d (eg_service e)) (\<lambda>_. False)"
      using ends_bind [OF drop ends_bind [OF revert clear]]
      by (cases "carried = Some plan") (auto simp: ends_def)
  qed
  have go: "ends (\<lambda>e. ?A (eg_service e)) (ebind (apply_rollback E i kwargs) (\<lambda>_. ereturn None))
      (\<lambda>x e. x = None \<and> removed d (eg_service e)) (\<lambda>_. False)"
    by (rule ends_bind [OF rolled]) (rule ends_return, simp)
  show ?thesis
    unfolding enter_execution_def id
  proof (rule ends_bind [OF ends_await_only], use kept in blast, rule ends_bind [OF read])
    fix current
    show "ends (\<lambda>e. ?B current (eg_service e))
        (case current of None \<Rightarrow> ebind (on_service (drop_plan i)) (\<lambda>_. ereturn (Some Cancelled))
         | Some row \<Rightarrow> if is_terminal_run_status (r_status row)
             then ebind (on_service (drop_plan i)) (\<lambda>_. ereturn (Some (r_status row)))
             else ebind (apply_rollback E i kwargs) (\<lambda>_. ereturn None))
        (\<lambda>x e. x = None \<and> removed d (eg_service e)) (\<lambda>_. False)"
    proof (cases "\<exists>row. current = Some row \<and> \<not> is_terminal_run_status (r_status row)")
      case True
      then show ?thesis using go by auto
    next
      case False
      then show ?thesis unfolding ends_def by blast
    qed
  qed
qed


lemma thread_delete_runs: "ms_runs (thread_delete t s) = filter (\<lambda>e. \<not> (\<exists>r. (fst e, r) \<in> set (ms_runs s) \<and> r_thread_id r = t)) (ms_runs s)"
  by (simp add: thread_delete_def Let_def delete_crons_of_facts delete_runs_of_facts)

lemma thread_delete_removed: "removed d sv \<Longrightarrow> removed d (sv\<lparr>sv_store := thread_delete t (sv_store sv)\<rparr>)"
  by (auto simp: removed_def run_get_def thread_delete_runs map_of_eq_None_iff)

lemma attempt_removed:
  "removed d sv \<Longrightarrow> removed d (sv\<lparr>sv_store := snd (snd (attempt_delivery deps w dl (sv_store sv)))\<rparr>)"
  by (simp add: removed_def run_get_def attempt_delivery_runs)

lemma leave_keeps_removed:
  assumes rely: "relies E (leaves_plan i kwargs' plan d)"
  shows "ends (\<lambda>e. removed d (eg_service e)) (leave_execution E deps w r kwargs started owed)
           (\<lambda>_ e. removed d (eg_service e)) (\<lambda>e. removed d (eg_service e))"
proof -
  let ?I = "\<lambda>e. removed d (eg_service e)"
  note keeps = removed_kept.awaited_keeps [OF rely] removed_kept.read_keeps [OF rely] removed_kept.await_keeps [OF rely]
  have post: "ends ?I (awaited E (\<lambda>_ sv. (Inr (), sv\<lparr>sv_store := snd (snd (attempt_delivery deps w dl (sv_store sv)))\<rparr>)))
      (\<lambda>_. ?I) ?I" for dl
    by (rule keeps(1)) (auto dest: attempt_removed)
  have deliver: "ends ?I (deliver_deferred E deps w owed) (\<lambda>_. ?I) ?I"
    unfolding deliver_deferred_def by (auto intro: post keeps return_keeps split: option.split callback.split)
  have thread: "ends ?I (awaited E (\<lambda>_ sv. (Inr (), sv\<lparr>sv_store := thread_delete (r_thread_id r) (sv_store sv)\<rparr>)))
      (\<lambda>_. ?I) ?I"
    by (rule keeps(1)) (auto dest: thread_delete_removed)
  have clean: "ends ?I (on_service f) (\<lambda>_. ?I) ?I" if "\<And>sv. removed d sv \<Longrightarrow> removed d (f sv)" for f
    by (rule ends_on_service) (rule that)
  show ?thesis
    unfolding leave_execution_def delete_thread_if_run_owned_it_def
    by (intro plain_keeps deliver clean thread keeps) simp
qed

lemma ends_snd: "ends I m (\<lambda>_. I) I \<Longrightarrow> I e \<Longrightarrow> I (snd (m e))"
  by (drule endsD, assumption) (cases "m e", auto split: sum.splits)

lemma leave_removed:
  assumes "relies E (leaves_plan i kwargs' plan d)" and "removed d sv"
  shows "removed d (eg_service (snd (leave_execution E deps w r kwargs started owed (fresh_engine sv))))"
  by (rule ends_snd [OF leave_keeps_removed [OF assms(1)]]) (simp add: assms(2))



section \<open>Examples\<close>

text \<open>The run was over when its job is delivered again; and it is cancelled while it waits for the lock.\<close>

definition settled_service :: run_service where
  "settled_service = engine_service\<lparr>sv_store := (sv_store engine_service)\<lparr>ms_runs := [(''r1'', sample_run ''r1'' Cancelled)]\<rparr>\<rparr>"

definition cancelled_meanwhile :: engine_env where
  "cancelled_meanwhile = sample_env\<lparr>en_gap := (\<lambda>n sv. if n = 0
     then sv\<lparr>sv_store := snd (set_status ''r1'' Cancelled None 9 (sv_store sv))\<rparr> else sv)\<rparr>"

definition waiting_service :: run_service where
  "waiting_service = engine_service\<lparr>sv_store := (sv_store engine_service)\<lparr>ms_runs := [(''r1'', sample_run ''r1'' Pending)]\<rparr>\<rparr>"

theorem execution_skips_settled_run_witness:
  "\<forall>deps w. \<exists>status. is_terminal_run_status status \<and>
     fst (start_run_execution cancelled_meanwhile deps w (sample_run ''r1'' Pending) empty_kwargs waiting_service) =
       Inr (plain_outcome status None)"
proof (intro allI)
  fix deps w
  have id: "r_run_id (sample_run ''r1'' Pending) = ''r1''" by (simp add: sample_simps)
  have "relies cancelled_meanwhile (run_stays_over (r_run_id (sample_run ''r1'' Pending)))"
    by (auto simp: id relies_def run_stays_over_def cancelled_meanwhile_def over_def run_get_def set_status_def
        Let_def jm_get_set split: option.splits if_splits)
  moreover have "over (r_run_id (sample_run ''r1'' Pending))
      (at_turn cancelled_meanwhile (r_run_id (sample_run ''r1'' Pending)) waiting_service)"
    by (simp add: id at_turn_def cancelled_meanwhile_def over_def run_get_def waiting_service_def set_status_def
        Let_def sample_simps)
  ultimately show "\<exists>status. is_terminal_run_status status \<and>
       fst (start_run_execution cancelled_meanwhile deps w (sample_run ''r1'' Pending) empty_kwargs waiting_service) =
         Inr (plain_outcome status None)"
    using execution_skips_settled_run [where keeps = "\<lambda>_. True"] by simp
qed

text \<open>The run r1 displaced the run r0.\<close>

definition rollback_service :: run_service where
  "rollback_service = engine_service\<lparr>sv_rollback_plans := [(''r1'', \<lparr>rp_revert_to = NoRevert, rp_displaced = [''r0'']\<rparr>)]\<rparr>"


end
