(* ===== verification/CronSchedule.thy ===== *)
theory CronSchedule
  imports StoreCrons StoreAssistants AuthScopedStore
begin

text \<open>
  When a cron occurs next, \<^verbatim>\<open>crons/cron-schedule.ts\<close>, and the record of a cron,
  \<^verbatim>\<open>crons/cron-service.ts\<close>. The evaluation of cron expressions is the third-party library croner and
  an argument here. A service operation awaits between its steps: \<open>gap n\<close> is what the other requests
  do to the store in its n-th await.
\<close>

section \<open>Occurrences\<close>

text \<open>\<open>cr_evaluates\<close>: evaluating the expression in the zone does not throw; \<open>cr_next\<close> is \<^verbatim>\<open>nextRun\<close>.\<close>

record croner =
  cr_evaluates :: "string \<Rightarrow> string \<Rightarrow> bool"
  cr_next :: "string \<Rightarrow> string \<Rightarrow> instant \<Rightarrow> instant option"

definition CRON_FIELD_COUNT :: nat where "CRON_FIELD_COUNT = 5"

lemma dropped_shorter:
  "dropWhile P s = c # cs \<Longrightarrow> length (dropWhile (\<lambda>d. \<not> P d) (c # cs)) < length s"
proof -
  assume dropped: "dropWhile P s = c # cs"
  then have "\<not> P c" by (metis dropWhile_eq_Cons_conv)
  then have "length (dropWhile (\<lambda>d. \<not> P d) (c # cs)) \<le> length cs"
    by (simp add: length_dropWhile_le)
  moreover have "length (c # cs) \<le> length s" using dropped length_dropWhile_le [of P s] by metis
  ultimately show ?thesis by simp
qed

text \<open>\<^verbatim>\<open>s.trim().split(/\s+/)\<close> of a text that is not blank.\<close>

function white_split :: "string \<Rightarrow> string list" where
  "white_split s =
     (case dropWhile js_space s of
        [] \<Rightarrow> []
      | c # cs \<Rightarrow> takeWhile (\<lambda>d. \<not> js_space d) (c # cs) # white_split (dropWhile (\<lambda>d. \<not> js_space d) (c # cs)))"
  by pat_completeness auto

termination by (relation "measure length") (simp_all only: in_measure wf_measure dropped_shorter)

definition assert_valid_cron_schedule :: "croner \<Rightarrow> string \<Rightarrow> string option \<Rightarrow> thrown option" where
  "assert_valid_cron_schedule C schedule timezone =
     (if length (white_split schedule) \<noteq> CRON_FIELD_COUNT then Some (unprocessable None)
      else if \<not> cr_evaluates C schedule (or_default timezone ''UTC'') then Some (unprocessable None)
      else None)"

definition next_cron_occurrence ::
  "croner \<Rightarrow> string \<Rightarrow> string option \<Rightarrow> instant \<Rightarrow> instant option \<Rightarrow> instant option" where
  "next_cron_occurrence C schedule timezone after end_time =
     (case cr_next C schedule (or_default timezone ''UTC'') after of
        None \<Rightarrow> None
      | Some t \<Rightarrow> (case end_time of Some e \<Rightarrow> if e < t then None else Some t | None \<Rightarrow> Some t))"

definition advance_cron_occurrence ::
  "croner \<Rightarrow> string \<Rightarrow> string option \<Rightarrow> instant option \<Rightarrow> instant \<Rightarrow> instant \<Rightarrow> instant option" where
  "advance_cron_occurrence C schedule timezone end_time from_date now =
     next_cron_occurrence C schedule timezone (max from_date now) end_time"

text \<open>Documented of croner: an occurrence is strictly after the instant it is asked from.\<close>

definition strictly_after :: "croner \<Rightarrow> bool" where
  "strictly_after C \<longleftrightarrow> (\<forall>schedule zone after t. cr_next C schedule zone after = Some t \<longrightarrow> after < t)"

lemma next_cron_occurrence_bounds:
  assumes "strictly_after C" and "next_cron_occurrence C schedule timezone after end_time = Some t"
  shows "after < t" and "end_time = Some e \<Longrightarrow> t \<le> e"
  using assms by (auto simp: next_cron_occurrence_def strictly_after_def split: option.splits if_splits)

lemma advance_bounds:
  assumes "strictly_after C" and "advance_cron_occurrence C schedule timezone end_time from_date now = Some t"
  shows "now < t" and "from_date < t" and "end_time = Some e \<Longrightarrow> t \<le> e"
  using next_cron_occurrence_bounds [OF assms(1) assms(2) [unfolded advance_cron_occurrence_def]] by auto

section \<open>Requests\<close>

text \<open>
  A create and a patch as they arrive, validated. \<open>kr_body\<close> and \<open>pr_body\<close> are all properties of the
  request body; instants are canonical already, so \<^verbatim>\<open>toIsoUtc\<close> is the identity.
\<close>

record cron_request =
  kr_assistant_id :: ident
  kr_schedule :: string
  kr_thread_id :: "ident option"
  kr_timezone :: "string option"
  kr_end_time :: "instant option"
  kr_enabled :: "bool option"
  kr_on_run_completed :: "on_run_completed option"
  kr_metadata :: "jsval option"
  kr_body :: jsobj

record cron_change =
  pr_schedule :: "string option"
  pr_timezone :: "string jsopt"
  pr_end_time :: "instant jsopt"
  pr_enabled :: "bool option"
  pr_on_run_completed :: "on_run_completed option"
  pr_metadata :: "jsval option"
  pr_body :: jsobj

definition CRON_ROW_KEYS :: "string list" where
  "CRON_ROW_KEYS = [''assistant_id'', ''schedule'', ''thread_id'', ''timezone'', ''end_time'', ''enabled'',
     ''on_run_completed'', ''metadata'', ''cron_id'']"

definition to_stored_payload :: "jsobj \<Rightarrow> jsobj" where
  "to_stored_payload input = filter (\<lambda>(key, v). key \<notin> set CRON_ROW_KEYS \<and> v \<noteq> JUndef) input"

text \<open>The caller of the service, and the engine that is asked for its permission on a thread.\<close>

record cron_caller =
  kx_auth_enabled :: bool
  kx_user :: "jsval option"
  kx_scopes :: "string list option"
  kx_authorize :: "jsobj \<Rightarrow> cron_auth \<Rightarrow> thrown + auth_filters option"
  kx_matches :: "jsval option \<Rightarrow> auth_filters \<Rightarrow> bool"

definition user_identity :: "jsval \<Rightarrow> ident option" where
  "user_identity user = (case js_field user ''identity'' of JStr i \<Rightarrow> Some i | _ \<Rightarrow> None)"

section \<open>The service\<close>

definition read_thread_for_caller ::
  "cron_caller \<Rightarrow> ident \<Rightarrow> ident \<Rightarrow> mem_store \<Rightarrow> thrown + thread_view option" where
  "read_thread_for_caller kx thread_id assistant_id s =
     (case thread_get thread_id s of
        None \<Rightarrow> Inr None
      | Some t \<Rightarrow>
          (case (if kx_auth_enabled kx then kx_user kx else None) of
             None \<Rightarrow> Inr (Some t)
           | Some user \<Rightarrow>
               (case kx_authorize kx [(''thread_id'', JStr thread_id), (''assistant_id'', JStr assistant_id)]
                       \<lparr>ca_user = user, ca_scopes = Some (or_default (kx_scopes kx) [])\<rparr> of
                  Inl e \<Rightarrow> Inl e
                | Inr None \<Rightarrow> Inr (Some t)
                | Inr (Some filters) \<Rightarrow>
                    Inr (if kx_matches kx (nullish (t_metadata t)) filters then Some t else None))))"

definition resolve_next_run_date ::
  "croner \<Rightarrow> instant \<Rightarrow> string \<Rightarrow> string option \<Rightarrow> instant option \<Rightarrow> bool \<Rightarrow> instant option" where
  "resolve_next_run_date C now schedule timezone end_time enabled =
     (if enabled then next_cron_occurrence C schedule timezone now end_time else None)"

definition stored_cron :: "croner \<Rightarrow> cron_caller \<Rightarrow> instant \<Rightarrow> cron_request \<Rightarrow> cron_create" where
  "stored_cron C kx now input =
     (let enabled = or_default (kr_enabled input) True
      in \<lparr>cn_cron_id = None, cn_assistant_id = kr_assistant_id input, cn_thread_id = kr_thread_id input,
          cn_schedule = kr_schedule input, cn_timezone = kr_timezone input, cn_end_time = kr_end_time input,
          cn_next_run_date = resolve_next_run_date C now (kr_schedule input) (kr_timezone input)
                               (kr_end_time input) enabled,
          cn_enabled = Some enabled, cn_payload = Some (JObj (to_stored_payload (kr_body input))),
          cn_metadata = Some (or_default (kr_metadata input) (JObj [])),
          cn_user_id = (case kx_user kx of None \<Rightarrow> None | Some user \<Rightarrow> user_identity user),
          cn_on_run_completed =
            (if kr_thread_id input = None then Some (or_default (kr_on_run_completed input) RemoveThread) else None),
          cn_auth = map_option (\<lambda>user. \<lparr>ca_user = user, ca_scopes = kx_scopes kx\<rparr>) (kx_user kx)\<rparr>)"

definition cron_service_create ::
  "croner \<Rightarrow> cron_caller \<Rightarrow> (nat \<Rightarrow> mem_store \<Rightarrow> mem_store) \<Rightarrow> instant \<Rightarrow> ident \<Rightarrow> cron_request \<Rightarrow>
   mem_store \<Rightarrow> cron outcome" where
  "cron_service_create C kx gap now uuid input s =
     (case assert_valid_cron_schedule C (kr_schedule input) (kr_timezone input) of
        Some e \<Rightarrow> (Inl e, s)
      | None \<Rightarrow>
          (case assistant_get (kr_assistant_id input) s of
             None \<Rightarrow> (Inl not_found, gap 0 s)
           | Some a \<Rightarrow>
               let create = cron_create_op (stored_cron C kx now (input\<lparr>kr_assistant_id := a_assistant_id a\<rparr>)) uuid now
               in case kr_thread_id input of
                    None \<Rightarrow> create (gap 0 s)
                  | Some thread_id \<Rightarrow>
                      (case read_thread_for_caller kx thread_id (a_assistant_id a) (gap 0 s) of
                         Inl e \<Rightarrow> (Inl e, gap 1 (gap 0 s))
                       | Inr None \<Rightarrow> (Inl not_found, gap 1 (gap 0 s))
                       | Inr (Some _) \<Rightarrow> create (gap 1 (gap 0 s)))))"

definition moves_next_run :: "cron_change \<Rightarrow> bool" where
  "moves_next_run p \<longleftrightarrow>
     pr_schedule p \<noteq> None \<or> pr_timezone p \<noteq> Undefined \<or> pr_enabled p \<noteq> None \<or> pr_end_time p \<noteq> Undefined"

definition to_jsopt :: "'a option \<Rightarrow> 'a jsopt" where
  "to_jsopt v = (case v of None \<Rightarrow> Null | Some x \<Rightarrow> Value x)"

definition stored_change :: "croner \<Rightarrow> instant \<Rightarrow> cron \<Rightarrow> cron_change \<Rightarrow> cron_patch" where
  "stored_change C now existing p =
     (let schedule = or_default (pr_schedule p) (c_schedule existing);
          timezone = tri_state (pr_timezone p) (c_timezone existing);
          end_time = tri_state (pr_end_time p) (c_end_time existing);
          enabled = or_default (pr_enabled p) (c_enabled existing);
          payload = to_stored_payload (pr_body p)
      in \<lparr>cp_schedule = pr_schedule p, cp_timezone = pr_timezone p,
          cp_end_time = (if pr_end_time p = Undefined then Undefined else to_jsopt end_time),
          cp_next_run_date =
            (if moves_next_run p then to_jsopt (resolve_next_run_date C now schedule timezone end_time enabled)
             else Undefined),
          cp_enabled = pr_enabled p,
          cp_payload = (if 0 < length payload then Some (JObj payload) else None),
          cp_metadata = pr_metadata p, cp_on_run_completed = pr_on_run_completed p\<rparr>)"

definition cron_service_update ::
  "croner \<Rightarrow> (nat \<Rightarrow> mem_store \<Rightarrow> mem_store) \<Rightarrow> instant \<Rightarrow> ident \<Rightarrow> cron_change \<Rightarrow> mem_store \<Rightarrow> cron outcome" where
  "cron_service_update C gap now cron_id p s =
     (case cron_get cron_id s of
        None \<Rightarrow> (Inl not_found, gap 0 s)
      | Some existing \<Rightarrow>
          let invalid =
            (if pr_schedule p = None \<and> pr_timezone p = Undefined then None
             else assert_valid_cron_schedule C (or_default (pr_schedule p) (c_schedule existing))
                    (tri_state (pr_timezone p) (c_timezone existing)))
          in case invalid of
               Some e \<Rightarrow> (Inl e, gap 0 s)
             | None \<Rightarrow> cron_update_op cron_id (stored_change C now existing p) now (gap 0 s))"

definition cron_service_get :: "ident \<Rightarrow> mem_store \<Rightarrow> thrown + cron" where
  "cron_service_get cron_id s = (case cron_get cron_id s of None \<Rightarrow> Inl not_found | Some c \<Rightarrow> Inr c)"

definition cron_service_delete ::
  "(nat \<Rightarrow> mem_store \<Rightarrow> mem_store) \<Rightarrow> ident \<Rightarrow> mem_store \<Rightarrow> unit outcome" where
  "cron_service_delete gap cron_id s =
     (case cron_service_get cron_id s of
        Inl e \<Rightarrow> (Inl e, gap 0 s)
      | Inr _ \<Rightarrow> (Inr (), cron_delete cron_id (gap 0 s)))"

section \<open>Dormant crons\<close>

text \<open>
  A disabled cron has no next occurrence, and none lies past the end of its cron.
\<close>

definition schedule_ok :: "cron \<Rightarrow> bool" where
  "schedule_ok c \<longleftrightarrow>
     (\<not> c_enabled c \<longrightarrow> c_next_run_date c = None) \<and>
     (\<forall>t e. c_next_run_date c = Some t \<longrightarrow> c_end_time c = Some e \<longrightarrow> t \<le> e)"

lemma tri_state_jsopt [simp]: "tri_state (to_jsopt v) old = v"
  by (cases v) (simp_all add: to_jsopt_def)

lemma resolve_ok:
  "resolve_next_run_date C now schedule timezone end_time enabled = Some t \<Longrightarrow>
   enabled \<and> (\<forall>e. end_time = Some e \<longrightarrow> t \<le> e)"
  by (auto simp: resolve_next_run_date_def next_cron_occurrence_def split: option.splits if_splits)

text \<open>What the patched row looks like when nobody touched it in between.\<close>

lemma changed_row:
  fixes C :: croner and now :: instant and existing :: cron and p :: cron_change
  defines "c \<equiv> patched_cron (stored_change C now existing p) now existing"
  shows "c_schedule c = or_default (pr_schedule p) (c_schedule existing)"
    and "c_timezone c = tri_state (pr_timezone p) (c_timezone existing)"
    and "c_end_time c = tri_state (pr_end_time p) (c_end_time existing)"
    and "c_enabled c = or_default (pr_enabled p) (c_enabled existing)"
    and "c_next_run_date c =
           (if moves_next_run p
            then resolve_next_run_date C now (c_schedule c) (c_timezone c) (c_end_time c) (c_enabled c)
            else c_next_run_date existing)"
  by (auto simp: c_def patched_cron_def stored_change_def Let_def split: option.split)

lemma update_quiet:
  assumes "cron_get i s = Some existing" and "cron_get i (gap 0 s) = cron_get i s"
    and "cron_service_update C gap now i p s = (Inr c, s')"
  shows "c = patched_cron (stored_change C now existing p) now existing" and "cron_get i s' = Some c"
    and "j \<noteq> i \<Longrightarrow> cron_get j s' = cron_get j (gap 0 s)"
  using assms
  by (auto simp: cron_service_update_def cron_update_op_def cron_get_def bump_cron_seq_def Let_def jm_get_set
      split: option.splits if_splits)

lemma unmoved:
  assumes "\<not> moves_next_run p"
  shows "pr_schedule p = None" "pr_timezone p = Undefined" "pr_enabled p = None" "pr_end_time p = Undefined"
  using assms by (auto simp: moves_next_run_def)


lemma stored_cron_ok:
  assumes "cron_service_create C kx gap now uuid input s = (Inr c, s')"
  shows "schedule_ok c"
proof -
  have "schedule_ok (new_cron (stored_cron C kx now input') i now)" for input' i
    using resolve_ok [of C now]
    by (auto simp: schedule_ok_def new_cron_def stored_cron_def Let_def) (simp add: resolve_next_run_date_def)
  then show ?thesis
    using assms
    by (auto simp: cron_service_create_def cron_create_op_def Let_def split: option.splits sum.splits if_splits)
qed

text \<open>
  Without it the rule breaks: when one client enables a cron while another changes its schedule, the
  second, which read the cron disabled, writes no next run date over the one the first computed. The
  cron is enabled, has occurrences, and never comes due.
\<close>

lemma concurrent_patches_strand_cron:
  assumes "cron_get i s = Some existing" and "\<not> c_enabled existing"
    and enabling: "pr_schedule p1 = None" "pr_timezone p1 = Undefined" "pr_enabled p1 = Some True"
    and moving: "pr_schedule p2 = Some schedule" "pr_enabled p2 = None"
    and valid: "assert_valid_cron_schedule C schedule (tri_state (pr_timezone p2) (c_timezone existing)) = None"
    and gap: "gap = (\<lambda>n st. if n = 0 then snd (cron_service_update C (\<lambda>_ x. x) now1 i p1 st) else st)"
  shows "\<exists>c s'. cron_service_update C gap now2 i p2 s = (Inr c, s') \<and> cron_get i s' = Some c \<and>
           c_enabled c \<and> c_schedule c = schedule \<and> c_next_run_date c = None"
proof -
  define row1 where "row1 = patched_cron (stored_change C now1 existing p1) now1 existing"
  have on: "c_enabled row1" using changed_row(4) [of C now1 existing p1] enabling(3) by (simp add: row1_def)
  have first: "jm_get (ms_crons (gap 0 s)) i = Some row1"
    using assms(1) enabling(1,2)
    by (simp add: gap cron_service_update_def cron_update_op_def cron_get_def bump_cron_seq_def Let_def jm_get_set row1_def)
  define row2 where "row2 = patched_cron (stored_change C now2 existing p2) now2 row1"
  have "c_enabled row2" "c_schedule row2 = schedule"
    using on moving by (simp_all add: row2_def patched_cron_def stored_change_def Let_def)
  moreover have "c_next_run_date row2 = None"
    using moving assms(2)
    by (simp add: row2_def patched_cron_def stored_change_def Let_def moves_next_run_def resolve_next_run_date_def)
  moreover have "\<exists>s'. cron_service_update C gap now2 i p2 s = (Inr row2, s') \<and> cron_get i s' = Some row2"
    using assms(1) valid moving first
    by (simp add: cron_service_update_def cron_update_op_def cron_get_def bump_cron_seq_def Let_def jm_get_set
        flip: row2_def)
  ultimately show ?thesis by blast
qed

end
