(* ===== verification/CronScheduler.thy ===== *)
theory CronScheduler
  imports CronSchedule RunCreation
begin

text \<open>
  One tick of the cron scheduler, \<^verbatim>\<open>crons/cron-scheduler.ts\<close>: it lists the due crons, fires each of
  them, hands runs that were never enqueued to the queue, and reads how overdue the rest is. Every
  instance runs one; the claim of an occurrence and its run commit together. The timer loop around the
  tick, its timeout and the log are left out.

  \<open>gap n\<close> is what everybody else does in the n-th await, \<open>now n\<close> the clock at the operation before it;
  one cron takes at most eight awaits. The queue is the list of what was handed to it, latest first.
\<close>

section \<open>What a tick depends on\<close>

text \<open>
  \<open>fe_body\<close> reads the stored payload, a request body that was validated when the cron was created, as
  the request type; \<open>fe_enqueue\<close> is what the queue throws for a run, if anything.
\<close>

record fire_env =
  fe_croner :: croner
  fe_auth_enabled :: bool
  fe_authorize :: "jsobj \<Rightarrow> cron_auth \<Rightarrow> thrown + auth_filters option"
  fe_matches :: "jsval option \<Rightarrow> auth_filters \<Rightarrow> bool"
  fe_body :: "jsval \<Rightarrow> create_run_input"
  fe_enqueue :: "ident \<Rightarrow> thrown option"
  fe_locale_compare :: "string \<Rightarrow> string \<Rightarrow> int"

datatype fire_error = FireThrew thrown | PrincipalGone | ThreadGone

record tick_summary =
  ts_scanned :: nat
  ts_fired :: nat
  ts_claims_lost :: nat
  ts_failed :: nat
  ts_exhausted :: nat
  ts_requeued :: nat
  ts_truncated :: bool
  ts_lag_ms :: "int option"

section \<open>Firing one cron\<close>

definition owner_auth :: "cron_auth \<Rightarrow> cron_auth" where
  "owner_auth auth = auth\<lparr>ca_scopes := Some (or_default (ca_scopes auth) [])\<rparr>"

definition optional_text :: "ident option \<Rightarrow> jsval" where
  "optional_text v = (case v of None \<Rightarrow> JUndef | Some t \<Rightarrow> JStr t)"

text \<open>The scope of the store a fire writes its thread through, and the tag of its owner.\<close>

definition store_for_fire :: "fire_env \<Rightarrow> cron \<Rightarrow> cron_auth option \<Rightarrow> thrown + auth_scope option \<times> jsval option" where
  "store_for_fire F c auth =
     (case (if fe_auth_enabled F then auth else None) of
        None \<Rightarrow> Inr (None, None)
      | Some a \<Rightarrow>
          (case fe_authorize F [(''assistant_id'', JStr (c_assistant_id c)),
                                (''thread_id'', optional_text (c_thread_id c))] (owner_auth a) of
             Inl e \<Rightarrow> Inl e
           | Inr filters \<Rightarrow>
               Inr (map_option (\<lambda>fs. \<lparr>as_matches = fe_matches F, as_filters = fs\<rparr>) filters,
                    auth_filters_to_metadata_subset filters)))"

definition cron_thread :: "cron \<Rightarrow> thread_create" where
  "cron_thread c =
     \<lparr>tc_thread_id = None, tc_metadata = Some (JObj [(''cron_id'', JStr (c_cron_id c))]), tc_status = None,
      tc_ttl = Undefined, tc_ttl_strategy = None\<rparr>"

definition fire_thread ::
  "auth_scope option \<Rightarrow> cron \<Rightarrow> ident \<Rightarrow> instant \<Rightarrow> mem_store \<Rightarrow> (fire_error + ident) \<times> mem_store" where
  "fire_thread scope c uuid now s =
     (case c_thread_id c of
        Some t \<Rightarrow> (case thread_get t s of None \<Rightarrow> (Inl ThreadGone, s) | Some v \<Rightarrow> (Inr (t_thread_id v), s))
      | None \<Rightarrow>
          (case (case scope of
                   None \<Rightarrow> thread_create_op (cron_thread c) uuid now s
                 | Some sc \<Rightarrow> scoped_thread_create sc (\<lambda>x. x) (cron_thread c) uuid now s) of
             (Inl e, s1) \<Rightarrow> (Inl (FireThrew e), s1)
           | (Inr v, s1) \<Rightarrow> (Inr (t_thread_id v), s1)))"

definition fire_input :: "fire_env \<Rightarrow> cron \<Rightarrow> create_run_input" where
  "fire_input F c =
     (fe_body F (c_payload c))
       \<lparr>ci_assistant_id := c_assistant_id c, ci_thread_id := c_thread_id c,
        ci_delete_on_completion :=
          (c_thread_id c = None \<and> or_default (c_on_run_completed c) RemoveThread = RemoveThread)\<rparr>"

definition fire_kwargs :: "fire_env \<Rightarrow> cron \<Rightarrow> cron_auth option \<Rightarrow> instant \<Rightarrow> run_kwargs" where
  "fire_kwargs F c auth now =
     (to_kwargs empty_kwargs False (fire_input F c) (c_thread_id c = None) (map_option ca_user auth)
        (case auth of None \<Rightarrow> None | Some a \<Rightarrow> map_option (\<lambda>xs. JArr (map JStr xs)) (ca_scopes a)))
       \<lparr>kw_queue_not_before := Some now\<rparr>"

definition fire_run ::
  "fire_env \<Rightarrow> cron \<Rightarrow> cron_auth option \<Rightarrow> jsval option \<Rightarrow> ident \<Rightarrow> instant \<Rightarrow> run_create" where
  "fire_run F c auth owner thread_id now =
     \<lparr>rc_thread_id = thread_id, rc_assistant_id = c_assistant_id c, rc_run_id = None,
      rc_status = Some Pending,
      rc_metadata = Some (js_spread (or_default owner (JObj [])) (JObj [(''cron_id'', JStr (c_cron_id c))])),
      rc_multitask_strategy =
        (if c_thread_id c = None then None
         else Some (or_default (ci_multitask_strategy (fe_body F (c_payload c))) MEnqueue)),
      rc_kwargs = Some (fire_kwargs F c auth now)\<rparr>"

text \<open>A lost claim takes the thread back that was made for it; a failure to do so is ignored.\<close>

definition take_back :: "auth_scope option \<Rightarrow> gaps \<Rightarrow> cron \<Rightarrow> ident \<Rightarrow> run_service \<Rightarrow> run_service" where
  "take_back scope gap c thread_id sv =
     (if c_thread_id c \<noteq> None then sv
      else
        (case scope of
           None \<Rightarrow> gap 4 (sv\<lparr>sv_store := thread_delete thread_id (sv_store sv)\<rparr>)
         | Some sc \<Rightarrow>
             (case scoped_thread_get sc thread_id (sv_store sv) of
                None \<Rightarrow> gap 4 sv
              | Some _ \<Rightarrow>
                  let sv1 = gap 4 sv
                  in gap 5 (sv1\<lparr>sv_store := thread_delete thread_id (sv_store sv1)\<rparr>))))"

definition fire_claim ::
  "fire_env \<Rightarrow> gaps \<Rightarrow> instant \<Rightarrow> ident \<Rightarrow> cron \<Rightarrow> nat \<Rightarrow> instant option \<Rightarrow> cron_auth option \<Rightarrow>
   auth_scope option \<Rightarrow> jsval option \<Rightarrow> ident \<Rightarrow> run_service \<Rightarrow> (fire_error + ident option) \<times> run_service" where
  "fire_claim F gap now uuid c token next auth scope owner thread_id sv =
     (case claim_and_create_run (c_cron_id c) \<lparr>cc_expected_seq = token, cc_next_run_date = next\<rparr>
             (fire_run F c auth owner thread_id now) uuid now (sv_store sv) of
        (Inl e, st) \<Rightarrow> (Inl (FireThrew e), gap 3 (sv\<lparr>sv_store := st\<rparr>))
      | (Inr None, st) \<Rightarrow> (Inr None, take_back scope gap c thread_id (gap 3 (sv\<lparr>sv_store := st\<rparr>)))
      | (Inr (Some (_, r)), st) \<Rightarrow>
          let sv1 = gap 3 (sv\<lparr>sv_store := st\<rparr>)
          in (case fe_enqueue F (r_run_id r) of
                Some e \<Rightarrow> (Inl (FireThrew e), gap 4 sv1)
              | None \<Rightarrow> (Inr (Some (r_run_id r)),
                         gap 4 (sv1\<lparr>sv_queue := (r_run_id r, r_thread_id r, 0) # sv_queue sv1\<rparr>))))"

text \<open>\<^verbatim>\<open>fireCron\<close>: the run it fired, or \<open>None\<close> when the claim was lost.\<close>

definition fire_cron ::
  "fire_env \<Rightarrow> gaps \<Rightarrow> (nat \<Rightarrow> instant) \<Rightarrow> (nat \<Rightarrow> ident) \<Rightarrow> cron \<Rightarrow> nat \<Rightarrow> instant option \<Rightarrow> run_service \<Rightarrow>
   (fire_error + ident option) \<times> run_service" where
  "fire_cron F gap now fresh c token next sv =
     (let auth = (if fe_auth_enabled F then cron_get_auth (c_cron_id c) (sv_store sv) else None);
          sv1 = (if fe_auth_enabled F then gap 0 sv else sv)
      in if fe_auth_enabled F \<and> c_user_id c \<noteq> None \<and> auth = None then (Inl PrincipalGone, sv1)
         else
           (case store_for_fire F c auth of
              Inl e \<Rightarrow> (Inl (FireThrew e), gap 1 sv1)
            | Inr (scope, owner) \<Rightarrow>
                let (made, st) = fire_thread scope c (fresh 0) (now 1) (sv_store (gap 1 sv1));
                    sv2 = gap 2 ((gap 1 sv1)\<lparr>sv_store := st\<rparr>)
                in (case made of
                      Inl e \<Rightarrow> (Inl e, sv2)
                    | Inr thread_id \<Rightarrow>
                        fire_claim F gap (now 2) (fresh 1) c token next auth scope owner thread_id sv2)))"

section \<open>The tick\<close>

definition cron_next :: "fire_env \<Rightarrow> instant \<Rightarrow> cron \<Rightarrow> instant option" where
  "cron_next F tick_at c =
     advance_cron_occurrence (fe_croner F) (c_schedule c) (c_timezone c) (c_end_time c)
       (or_default (c_next_run_date c) tick_at) tick_at"

text \<open>One cron of the scan: fired, lost, or failed, and then advanced all the same.\<close>

definition fire_due ::
  "fire_env \<Rightarrow> gaps \<Rightarrow> (nat \<Rightarrow> instant) \<Rightarrow> (nat \<Rightarrow> ident) \<Rightarrow> instant \<Rightarrow> cron \<Rightarrow> nat \<Rightarrow>
   tick_summary \<times> ident list \<Rightarrow> run_service \<Rightarrow> (tick_summary \<times> ident list) \<times> run_service" where
  "fire_due F gap now fresh tick_at c token acc sv =
     (let next = cron_next F tick_at c; (summary, enqueued) = acc
      in case fire_cron F gap now fresh c token next sv of
           (Inr (Some run_id), sv1) \<Rightarrow>
             ((summary\<lparr>ts_fired := Suc (ts_fired summary),
                       ts_exhausted := (if next = None then Suc (ts_exhausted summary) else ts_exhausted summary)\<rparr>,
               run_id # enqueued), sv1)
         | (Inr None, sv1) \<Rightarrow> ((summary\<lparr>ts_claims_lost := Suc (ts_claims_lost summary)\<rparr>, enqueued), sv1)
         | (Inl _, sv1) \<Rightarrow>
             ((summary\<lparr>ts_failed := Suc (ts_failed summary)\<rparr>, enqueued),
              gap 7 (sv1\<lparr>sv_store := snd (claim_cron (c_cron_id c)
                                           \<lparr>cc_expected_seq = token, cc_next_run_date = next\<rparr> (now 6) (sv_store sv1))\<rparr>)))"

fun fire_all ::
  "fire_env \<Rightarrow> gaps \<Rightarrow> (nat \<Rightarrow> instant) \<Rightarrow> (nat \<Rightarrow> ident) \<Rightarrow> instant \<Rightarrow> (cron \<times> nat) list \<Rightarrow>
   tick_summary \<times> ident list \<Rightarrow> run_service \<Rightarrow> (tick_summary \<times> ident list) \<times> run_service" where
  "fire_all F gap now fresh tick_at [] acc sv = (acc, sv)"
| "fire_all F gap now fresh tick_at ((c, token) # due) acc sv =
     (let (acc1, sv1) = fire_due F gap now fresh tick_at c token acc sv
      in fire_all F (later 8 gap) (later 8 now) (later 2 fresh) tick_at due acc1 sv1)"

definition DEFAULT_CRON_BATCH_SIZE :: nat where "DEFAULT_CRON_BATCH_SIZE = 100"
definition DEFAULT_UNQUEUED_RUN_GRACE_MS :: int where "DEFAULT_UNQUEUED_RUN_GRACE_MS = 300000"

text \<open>A run only counts as lost if a cron made it, it is pending past the grace, and not of this tick.\<close>

definition lost_run :: "instant \<Rightarrow> ident list \<Rightarrow> run \<Rightarrow> bool" where
  "lost_run stale_before enqueued r \<longleftrightarrow>
     r_status r = Pending \<and> js_field (r_metadata r) ''cron_id'' \<noteq> JUndef \<and>
     r_run_id r \<notin> set enqueued \<and> r_created_at r \<le> stale_before"

fun requeue_lost ::
  "fire_env \<Rightarrow> gaps \<Rightarrow> instant \<Rightarrow> ident list \<Rightarrow> run list \<Rightarrow> nat \<Rightarrow> run_service \<Rightarrow> (thrown + nat) \<times> run_service" where
  "requeue_lost F gap stale_before enqueued [] n sv = (Inr n, sv)"
| "requeue_lost F gap stale_before enqueued (r # rs) n sv =
     (if \<not> lost_run stale_before enqueued r then requeue_lost F gap stale_before enqueued rs n sv
      else
        (case fe_enqueue F (r_run_id r) of
           Some e \<Rightarrow> (Inl e, gap 0 sv)
         | None \<Rightarrow>
             requeue_lost F (later 1 gap) stale_before enqueued rs (Suc n)
               (gap 0 (sv\<lparr>sv_queue := (r_run_id r, r_thread_id r, 0) # sv_queue sv\<rparr>))))"

definition sweep_unqueued_runs ::
  "fire_env \<Rightarrow> gaps \<Rightarrow> int \<Rightarrow> instant \<Rightarrow> ident list \<Rightarrow> run_service \<Rightarrow> (thrown + nat) \<times> run_service" where
  "sweep_unqueued_runs F gap grace_ms tick_at enqueued sv =
     requeue_lost F (later 1 gap) (tick_at - grace_ms) enqueued (list_active_runs None (sv_store sv)) 0 (gap 0 sv)"

definition scan_limit :: "nat \<Rightarrow> run_service \<Rightarrow> nat" where
  "scan_limit batch_size sv = min batch_size (ms_max_page_size (sv_store sv))"

definition due_scan :: "fire_env \<Rightarrow> nat \<Rightarrow> instant \<Rightarrow> run_service \<Rightarrow> (cron \<times> nat) list" where
  "due_scan F batch_size tick_at sv =
     crons_list_due (fe_locale_compare F) tick_at (Some (scan_limit batch_size sv)) (sv_store sv)"

definition first_summary :: "(cron \<times> nat) list \<Rightarrow> nat \<Rightarrow> tick_summary" where
  "first_summary due limit =
     \<lparr>ts_scanned = length due, ts_fired = 0, ts_claims_lost = 0, ts_failed = 0, ts_exhausted = 0,
      ts_requeued = 0, ts_truncated = (limit \<le> length due), ts_lag_ms = None\<rparr>"

definition tick_once ::
  "fire_env \<Rightarrow> nat \<Rightarrow> int \<Rightarrow> gaps \<Rightarrow> (nat \<Rightarrow> instant) \<Rightarrow> (nat \<Rightarrow> ident) \<Rightarrow> run_service \<Rightarrow>
   (thrown + tick_summary) \<times> run_service" where
  "tick_once F batch_size grace_ms gap now fresh sv =
     (let tick_at = now 0;
          due = due_scan F batch_size tick_at sv;
          fires = fire_all F (later 1 gap) (later 1 now) fresh tick_at due
                    (first_summary due (scan_limit batch_size sv), []) (gap 0 sv);
          ((summary, enqueued), sv1) = fires;
          n = 1 + 8 * length due
      in case sweep_unqueued_runs F (later n gap) grace_ms tick_at enqueued sv1 of
           (Inl e, sv2) \<Rightarrow> (Inl e, sv2)
         | (Inr requeued, sv2) \<Rightarrow>
             let m = n + 2 + requeued
             in (Inr (summary\<lparr>ts_requeued := requeued, ts_lag_ms := max_overdue_ms (now m) (sv_store sv2)\<rparr>),
                 gap m sv2))"

end
