(* ===== verification/CronTicks.thy ===== *)
theory CronTicks
  imports CronScheduler
begin

text \<open>
  What a tick of the scheduler guarantees: each occurrence it scanned is over afterwards, whatever
  failed and whatever others did meanwhile, and a cron fires as its owner, onto its thread.
\<close>

section \<open>Occurrences move on\<close>

text \<open>
  What anybody does to the crons of \<open>I\<close>, deleting included, as long as none of them comes back after it
  was deleted: tokens only grow, and enabling a cron takes a patch, which takes the next token.
\<close>

definition crons_move_on :: "ident set \<Rightarrow> mem_store \<Rightarrow> mem_store \<Rightarrow> bool" where
  "crons_move_on I s s' \<longleftrightarrow>
     (\<forall>i \<in> I. \<forall>c'. cron_get i s' = Some c' \<longrightarrow>
        (\<exists>c. cron_get i s = Some c \<and> cron_seq i s \<le> cron_seq i s' \<and>
             (\<not> c_enabled c \<and> c_enabled c' \<longrightarrow> cron_seq i s < cron_seq i s')))"

text \<open>The occurrence at a token is gone: no claim with the token can win any more.\<close>

definition consumed :: "ident \<Rightarrow> nat \<Rightarrow> mem_store \<Rightarrow> bool" where
  "consumed i token s \<longleftrightarrow>
     (\<forall>c. cron_get i s = Some c \<longrightarrow> token < cron_seq i s \<or> (\<not> c_enabled c \<and> token \<le> cron_seq i s))"

definition reached :: "ident \<Rightarrow> nat \<Rightarrow> mem_store \<Rightarrow> bool" where
  "reached i token s \<longleftrightarrow> cron_get i s = None \<or> token \<le> cron_seq i s"

named_theorems moving \<open>steps that move the crons on\<close>

lemma move_on_refl [moving]: "crons_move_on I s s"
  by (simp add: crons_move_on_def)

lemma move_on_trans: "crons_move_on I s1 s2 \<Longrightarrow> crons_move_on I s2 s3 \<Longrightarrow> crons_move_on I s1 s3"
  unfolding crons_move_on_def by (meson dual_order.trans le_less_trans less_le_trans)

lemma consumed_stays: "i \<in> I \<Longrightarrow> consumed i token s \<Longrightarrow> crons_move_on I s s' \<Longrightarrow> consumed i token s'"
  unfolding consumed_def crons_move_on_def by (meson dual_order.trans le_less_trans less_le_trans)

lemma reached_stays: "i \<in> I \<Longrightarrow> reached i token s \<Longrightarrow> crons_move_on I s s' \<Longrightarrow> reached i token s'"
  unfolding reached_def crons_move_on_def by (metis option.distinct(1) option.exhaust order_trans)

lemma consumed_no_claim:
  "consumed i token s \<Longrightarrow> fst (claim_cron i \<lparr>cc_expected_seq = token, cc_next_run_date = next\<rparr> now s) = None"
  by (auto simp: consumed_def claim_cron_def cron_get_def split: option.split)

section \<open>The steps of the scheduler\<close>

lemma same_crons: "ms_crons s' = ms_crons s \<Longrightarrow> ms_cron_seq s' = ms_cron_seq s \<Longrightarrow> crons_move_on I s s'"
  by (simp add: crons_move_on_def cron_get_def cron_seq_def)

lemma claim_moves_on [moving]: "crons_move_on I s (snd (claim_cron i claim now s))"
  by (auto simp: crons_move_on_def claim_cron_def cron_get_def cron_seq_def bump_cron_seq_def jm_get_set Let_def
      split: option.split)

lemma claim_consumes:
  assumes "reached i token s"
  shows "consumed i token (snd (claim_cron i \<lparr>cc_expected_seq = token, cc_next_run_date = next\<rparr> now s))"
  using assms
  by (auto simp: reached_def consumed_def claim_cron_def cron_get_def cron_seq_def bump_cron_seq_def jm_get_set Let_def
      split: option.splits)

lemma create_run_moves_on [moving]: "crons_move_on I s (snd (create_run input uuid now s))"
  by (rule same_crons) (simp_all add: create_run_crons)

lemma claim_and_create_moves_on [moving]: "crons_move_on I s (snd (claim_and_create_run i claim input uuid now s))"
  using claim_and_create_run_store [of i claim input uuid now s]
    move_on_trans [OF claim_moves_on create_run_moves_on] claim_moves_on
  by metis

lemma claim_and_create_consumes:
  assumes "reached i token s"
  shows "consumed i token
           (snd (claim_and_create_run i \<lparr>cc_expected_seq = token, cc_next_run_date = next\<rparr> input uuid now s))"
  using claim_and_create_run_store [of i "\<lparr>cc_expected_seq = token, cc_next_run_date = next\<rparr>" input uuid now s]
    claim_consumes [OF assms] consumed_stays [OF singletonI [of i] claim_consumes [OF assms] create_run_moves_on]
  by metis

lemma thread_create_crons:
  "ms_crons (snd (thread_create_op input uuid now s)) = ms_crons s"
  "ms_cron_seq (snd (thread_create_op input uuid now s)) = ms_cron_seq s"
  "ms_runs (snd (thread_create_op input uuid now s)) = ms_runs s"
  "ms_cron_auth (snd (thread_create_op input uuid now s)) = ms_cron_auth s"
  by (simp_all add: thread_create_op_def Let_def frame_simps)

lemma fire_thread_crons:
  assumes "fire_thread scope c uuid now s = (out, s')"
  shows "ms_crons s' = ms_crons s" "ms_cron_seq s' = ms_cron_seq s" "ms_runs s' = ms_runs s"
    "ms_cron_auth s' = ms_cron_auth s"
proof -
  have made: "\<exists>made. s' = snd made \<and>
      (made = (Inl TypeError, s) \<or> (\<exists>t. made = thread_create_op t uuid now s)) \<or> s' = s"
  proof (cases "c_thread_id c")
    case None
    let ?op = "case scope of None \<Rightarrow> thread_create_op (cron_thread c) uuid now s
        | Some sc \<Rightarrow> scoped_thread_create sc (\<lambda>x. x) (cron_thread c) uuid now s"
    have "s' = snd ?op"
      using assms None by (cases ?op; cases "fst ?op") (auto simp: fire_thread_def)
    moreover have "?op = (Inl TypeError, s) \<or> (\<exists>t. ?op = thread_create_op t uuid now s)"
      by (cases scope)
        (auto simp: scoped_thread_create_def with_stamp_def cron_thread_def Let_def split: option.split)
    ultimately show ?thesis by blast
  next
    case (Some t)
    with assms show ?thesis by (auto simp: fire_thread_def split: option.splits)
  qed
  then have "s' = s \<or> (\<exists>t. s' = snd (thread_create_op t uuid now s))" by (metis snd_conv)
  then show "ms_crons s' = ms_crons s" "ms_cron_seq s' = ms_cron_seq s" "ms_runs s' = ms_runs s"
    "ms_cron_auth s' = ms_cron_auth s"
    by (auto simp: thread_create_crons)
qed

lemma delete_runs_of_seq: "ms_cron_seq (delete_runs_of t rows s) = ms_cron_seq s"
  by (induction t rows s rule: delete_runs_of.induct) (auto simp: run_delete_def frame_simps)

lemma delete_crons_of_seq: "ms_cron_seq (delete_crons_of t rows s) = ms_cron_seq s"
  by (induction t rows s rule: delete_crons_of.induct) auto

lemma map_of_filter_key: "map_of (filter (\<lambda>e. P (fst e)) m) k = (if P k then map_of m k else None)"
  by (induction m) auto

lemma thread_delete_moves_on [moving]: "crons_move_on I s (thread_delete t s)"
proof -
  have "cron_seq i (thread_delete t s) = cron_seq i s" for i
    by (simp add: thread_delete_def Let_def cron_seq_def delete_crons_of_seq delete_runs_of_seq)
  moreover have "cron_get i s = Some c" if "cron_get i (thread_delete t s) = Some c" for i c
    using that
    by (auto simp: thread_delete_def Let_def cron_get_def delete_crons_of_facts delete_runs_of_facts
        map_of_filter_key [where P = "\<lambda>j. \<forall>c. (j, c) \<in> set (ms_crons s) \<longrightarrow> c_thread_id c \<noteq> Some t"]
        split: if_splits)
  ultimately show ?thesis by (auto simp: crons_move_on_def)
qed


section \<open>A tick consumes what it scanned\<close>

definition others_move_on :: "ident set \<Rightarrow> gaps \<Rightarrow> bool" where
  "others_move_on I gap \<longleftrightarrow> (\<forall>n sv. crons_move_on I (sv_store sv) (sv_store (gap n sv)))"

lemma others_later: "others_move_on I gap \<Longrightarrow> others_move_on I (later k gap)"
  by (simp add: others_move_on_def later_def)

lemma after_gap:
  "others_move_on I gap \<Longrightarrow> crons_move_on I s (sv_store sv) \<Longrightarrow> crons_move_on I s (sv_store (gap n sv))"
  using move_on_trans unfolding others_move_on_def by blast

lemma take_back_moves_on:
  assumes "others_move_on I gap"
  shows "crons_move_on I (sv_store sv) (sv_store (take_back scope gap c t sv))"
proof -
  note step = after_gap [OF assms]
  have "crons_move_on I (sv_store sv) (sv_store (gap 5 ((gap 4 sv)\<lparr>sv_store := thread_delete t (sv_store (gap 4 sv))\<rparr>)))"
    by (rule step) (simp add: move_on_trans [OF step [OF move_on_refl] thread_delete_moves_on])
  moreover have "crons_move_on I (sv_store sv) (sv_store (gap 4 (sv\<lparr>sv_store := thread_delete t (sv_store sv)\<rparr>)))"
    by (rule step) (simp add: thread_delete_moves_on)
  ultimately show ?thesis
    using step [OF move_on_refl, of sv 4]
    by (simp add: take_back_def Let_def move_on_refl split: option.split)
qed

lemma fire_claim_moves_on:
  assumes others: "others_move_on I gap"
    and claim: "fire_claim F gap now uuid c token next auth scope owner t sv = (out, sv')"
  shows "crons_move_on I (sv_store sv) (sv_store sv')"
    and "c_cron_id c \<in> I \<Longrightarrow> reached (c_cron_id c) token (sv_store sv) \<Longrightarrow> consumed (c_cron_id c) token (sv_store sv')"
proof -
  note step = after_gap [OF others]
  let ?claim = "\<lparr>cc_expected_seq = token, cc_next_run_date = next\<rparr>"
  obtain res st where claimed: "claim_and_create_run (c_cron_id c) ?claim (fire_run F c auth owner t now) uuid now
      (sv_store sv) = (res, st)" by fastforce
  have moved: "crons_move_on I (sv_store sv) st" using claim_and_create_moves_on claimed by (metis snd_conv)
  have mid: "crons_move_on I st (sv_store (gap 3 (sv\<lparr>sv_store := st\<rparr>)))"
    by (rule step) (simp add: move_on_refl)
  have ends: "crons_move_on I st (sv_store sv')"
  proof (cases res)
    case (Inl e)
    with claim claimed mid show ?thesis by (auto simp: fire_claim_def)
  next
    case (Inr found)
    show ?thesis
    proof (cases found)
      case None
      with claim claimed Inr have "sv' = take_back scope gap c t (gap 3 (sv\<lparr>sv_store := st\<rparr>))"
        by (simp add: fire_claim_def)
      with move_on_trans [OF mid take_back_moves_on [OF others]] show ?thesis by simp
    next
      case (Some pair)
      obtain c' r where "pair = (c', r)" by fastforce
      then show ?thesis
        using claim claimed Inr Some step [OF mid, of 4] step [of st "(gap 3 (sv\<lparr>sv_store := st\<rparr>))\<lparr>sv_queue := q\<rparr>" 4 for q] mid
        by (auto simp: fire_claim_def Let_def split: option.splits)
    qed
  qed
  show "crons_move_on I (sv_store sv) (sv_store sv')" by (rule move_on_trans [OF moved ends])
  show "consumed (c_cron_id c) token (sv_store sv')" if "c_cron_id c \<in> I" "reached (c_cron_id c) token (sv_store sv)"
    using consumed_stays [OF that(1) _ ends] claim_and_create_consumes [OF that(2)] claimed by (metis snd_conv)
qed

lemma fire_cron_moves_on:
  assumes others: "others_move_on I gap"
    and fire: "fire_cron F gap now fresh c token next sv = (out, sv')"
  shows "crons_move_on I (sv_store sv) (sv_store sv')"
    and "c_cron_id c \<in> I \<Longrightarrow> reached (c_cron_id c) token (sv_store sv) \<Longrightarrow> out = Inr x \<Longrightarrow> consumed (c_cron_id c) token (sv_store sv')"
proof -
  note step = after_gap [OF others]
  let ?sv1 = "if fe_auth_enabled F then gap 0 sv else sv"
  let ?auth = "if fe_auth_enabled F then cron_get_auth (c_cron_id c) (sv_store sv) else None"
  have one: "crons_move_on I (sv_store sv) (sv_store ?sv1)" "crons_move_on I (sv_store sv) (sv_store (gap 1 ?sv1))"
    using step [OF move_on_refl, of sv 0] by (auto intro: step simp: move_on_refl)
  have "crons_move_on I (sv_store sv) (sv_store sv') \<and>
      (c_cron_id c \<in> I \<and> reached (c_cron_id c) token (sv_store sv) \<and> out = Inr x \<longrightarrow> consumed (c_cron_id c) token (sv_store sv'))"
  proof (cases "fe_auth_enabled F \<and> c_user_id c \<noteq> None \<and> ?auth = None")
    case True
    with fire one show ?thesis by (auto simp: fire_cron_def Let_def)
  next
    case False
    show ?thesis
    proof (cases "store_for_fire F c ?auth")
      case (Inl e)
      with fire False one show ?thesis by (auto simp: fire_cron_def Let_def split: if_splits)
    next
      case (Inr pair)
      obtain scope owner where pair: "pair = (scope, owner)" by fastforce
      obtain made st where made: "fire_thread scope c (fresh 0) (now 1) (sv_store (gap 1 ?sv1)) = (made, st)" by fastforce
      let ?sv2 = "gap 2 ((gap 1 ?sv1)\<lparr>sv_store := st\<rparr>)"
      have "crons_move_on I (sv_store (gap 1 ?sv1)) st"
        by (rule same_crons) (use fire_thread_crons [OF made] in auto)
      then have two: "crons_move_on I (sv_store sv) (sv_store ?sv2)"
        by (intro step) (simp add: move_on_trans [OF one(2)])
      show ?thesis
      proof (cases made)
        case (Inl e)
        with fire False Inr pair made two show ?thesis
          unfolding fire_cron_def Let_def by (auto split: if_splits)
      next
        case (Inr t)
        then have "fire_claim F gap (now 2) (fresh 1) c token next ?auth scope owner t ?sv2 = (out, sv')"
          using fire False \<open>store_for_fire F c ?auth = Inr pair\<close> pair made
          unfolding fire_cron_def Let_def by (simp split: if_splits)
        note claimed = fire_claim_moves_on [OF others this]
        show ?thesis
          using move_on_trans [OF two claimed(1)] claimed(2) reached_stays [OF _ _ two] by blast
      qed
    qed
  qed
  then show "crons_move_on I (sv_store sv) (sv_store sv')"
    and "c_cron_id c \<in> I \<Longrightarrow> reached (c_cron_id c) token (sv_store sv) \<Longrightarrow> out = Inr x \<Longrightarrow> consumed (c_cron_id c) token (sv_store sv')"
    by blast+
qed

lemma fire_due_moves_on:
  assumes others: "others_move_on I gap"
    and due: "fire_due F gap now fresh tick_at c token acc sv = (acc', sv')"
  shows "crons_move_on I (sv_store sv) (sv_store sv')"
    and "c_cron_id c \<in> I \<Longrightarrow> reached (c_cron_id c) token (sv_store sv) \<Longrightarrow> consumed (c_cron_id c) token (sv_store sv')"
proof -
  obtain out sv1 where fire: "fire_cron F gap now fresh c token (cron_next F tick_at c) sv = (out, sv1)" by fastforce
  note fired = fire_cron_moves_on [OF others fire]
  let ?claim = "\<lparr>cc_expected_seq = token, cc_next_run_date = cron_next F tick_at c\<rparr>"
  let ?sv2 = "sv1\<lparr>sv_store := snd (claim_cron (c_cron_id c) ?claim (now 6) (sv_store sv1))\<rparr>"
  have last: "crons_move_on I (sv_store ?sv2) (sv_store (gap 7 ?sv2))"
    by (rule after_gap [OF others move_on_refl])
  have claimed: "crons_move_on I (sv_store sv) (sv_store ?sv2)"
    using move_on_trans [OF fired(1) claim_moves_on] by simp
  have "(sv' = sv1 \<and> (\<exists>x. out = Inr x)) \<or> sv' = gap 7 ?sv2"
    using due fire unfolding fire_due_def Let_def
    by (cases acc; cases out) (auto split: option.splits)
  then show "crons_move_on I (sv_store sv) (sv_store sv')"
    using fired(1) move_on_trans [OF claimed last] by blast
  show "consumed (c_cron_id c) token (sv_store sv')"
    if "c_cron_id c \<in> I" "reached (c_cron_id c) token (sv_store sv)"
    using \<open>(sv' = sv1 \<and> (\<exists>x. out = Inr x)) \<or> sv' = gap 7 ?sv2\<close>
  proof
    assume "sv' = sv1 \<and> (\<exists>x. out = Inr x)"
    with fired(2) [OF that] show ?thesis by blast
  next
    assume "sv' = gap 7 ?sv2"
    moreover have "consumed (c_cron_id c) token (sv_store ?sv2)"
      using claim_consumes [OF reached_stays [OF that fired(1)]] by simp
    ultimately show ?thesis using consumed_stays [OF that(1)] last by blast
  qed
qed

lemma fire_all_moves_on:
  assumes "others_move_on I gap" and "fire_all F gap now fresh tick_at due acc sv = (acc', sv')"
    and "\<forall>(c, token) \<in> set due. c_cron_id c \<in> I \<and> reached (c_cron_id c) token (sv_store sv)"
  shows "crons_move_on I (sv_store sv) (sv_store sv') \<and>
         (\<forall>(c, token) \<in> set due. consumed (c_cron_id c) token (sv_store sv'))"
  using assms
proof (induction due arbitrary: gap now fresh acc sv)
  case Nil
  then show ?case by (simp add: move_on_refl)
next
  case (Cons entry due)
  obtain c token where entry: "entry = (c, token)" by fastforce
  obtain acc1 sv1 where one: "fire_due F gap now fresh tick_at c token acc sv = (acc1, sv1)" by fastforce
  note first = fire_due_moves_on [OF Cons.prems(1) one]
  have rest: "fire_all F (later 8 gap) (later 8 now) (later 2 fresh) tick_at due acc1 sv1 = (acc', sv')"
    using Cons.prems(2) by (simp add: entry one)
  have "\<forall>(c, token) \<in> set due. c_cron_id c \<in> I \<and> reached (c_cron_id c) token (sv_store sv1)"
    using Cons.prems(3) reached_stays [OF _ _ first(1)] by auto
  note ih = Cons.IH [OF others_later [OF Cons.prems(1)] rest this]
  have "consumed (c_cron_id c) token (sv_store sv')"
    using consumed_stays [of "c_cron_id c" I] first(2) ih Cons.prems(3) by (auto simp: entry)
  with ih move_on_trans [OF first(1)] show ?case by (auto simp: entry)
qed

lemma fire_all_counts:
  assumes "fire_all F gap now fresh tick_at due (summary, enqueued) sv = ((summary', enqueued'), sv')"
  shows "ts_scanned summary' = ts_scanned summary \<and> ts_truncated summary' = ts_truncated summary \<and>
         ts_fired summary' + ts_claims_lost summary' + ts_failed summary' =
           ts_fired summary + ts_claims_lost summary + ts_failed summary + length due"
  using assms
proof (induction due arbitrary: gap now fresh summary enqueued sv)
  case Nil
  then show ?case by simp
next
  case (Cons entry due)
  obtain c token where entry: "entry = (c, token)" by fastforce
  obtain summary1 enqueued1 sv1 where one: "fire_due F gap now fresh tick_at c token (summary, enqueued) sv = ((summary1, enqueued1), sv1)"
    by (metis prod.exhaust)
  then have "ts_scanned summary1 = ts_scanned summary \<and> ts_truncated summary1 = ts_truncated summary \<and>
      ts_fired summary1 + ts_claims_lost summary1 + ts_failed summary1 =
        Suc (ts_fired summary + ts_claims_lost summary + ts_failed summary)"
    by (auto simp: fire_due_def Let_def split: prod.splits sum.splits option.splits)
  moreover have "fire_all F (later 8 gap) (later 8 now) (later 2 fresh) tick_at due (summary1, enqueued1) sv1 =
      ((summary', enqueued'), sv')"
    using Cons.prems by (simp add: entry one)
  ultimately show ?case using Cons.IH by fastforce
qed

lemma requeue_moves_on:
  assumes "others_move_on I gap"
  shows "crons_move_on I (sv_store sv) (sv_store (snd (requeue_lost F gap stale enqueued rs n sv)))"
  using assms
proof (induction rs arbitrary: gap n sv)
  case Nil
  show ?case by (simp add: move_on_refl)
next
  case (Cons r rs)
  note step = after_gap [OF Cons.prems]
  have "crons_move_on I (sv_store sv) (sv_store (gap 0 sv))"
    "crons_move_on I (sv_store sv) (sv_store (gap 0 (sv\<lparr>sv_queue := q\<rparr>)))" for q
    by (rule step, simp add: move_on_refl)+
  note first = this
  have "crons_move_on I (sv_store sv) (sv_store (snd (requeue_lost F (later 1 gap) stale enqueued rs m
      (gap 0 (sv\<lparr>sv_queue := q\<rparr>)))))" for m q
    by (rule move_on_trans [OF first(2) Cons.IH [OF others_later [OF Cons.prems]]])
  with first(1) Cons.IH [OF Cons.prems] show ?case by (simp split: option.split)
qed



section \<open>A fire\<close>

text \<open>What the metadata of a run a cron fired says: who owns it, and which cron made it.\<close>

definition fired_metadata :: "cron \<Rightarrow> jsval option \<Rightarrow> jsval" where
  "fired_metadata c owner = js_spread (or_default owner (JObj [])) (JObj [(''cron_id'', JStr (c_cron_id c))])"

lemma fire_kwargs_auth:
  "jm_get (kw_rest (fire_kwargs F c auth now)) ''auth_user'' = map_option ca_user auth"
  "stored_rollback_plan (fire_kwargs F c auth now) = None"
  using to_kwargs_auth [of empty_kwargs False "fire_input F c" "c_thread_id c = None" "map_option ca_user auth"]
  by (simp_all add: fire_kwargs_def empty_kwargs_def stored_rollback_plan_def)

lemma fire_kwargs_deletion:
  "kw_delete_thread_on_completion (fire_kwargs F c auth now) \<longleftrightarrow>
   c_thread_id c = None \<and> or_default (c_on_run_completed c) RemoveThread = RemoveThread"
  by (auto simp: fire_kwargs_def to_kwargs_def empty_kwargs_def fire_input_def)

text \<open>A cron whose owner's principal is gone, or whose owner may not run any more, produces nothing.\<close>

lemma disowned_cron_fails:
  assumes "fe_auth_enabled F" and "c_user_id c \<noteq> None" and "cron_get_auth (c_cron_id c) (sv_store sv) = None"
  shows "fire_cron F gap now fresh c token next_date sv = (Inl PrincipalGone, gap 0 sv)"
  using assms by (simp add: fire_cron_def Let_def)

lemma denied_cron_fails:
  assumes "fe_auth_enabled F" and "cron_get_auth (c_cron_id c) (sv_store sv) = Some auth"
    and "fe_authorize F [(''assistant_id'', JStr (c_assistant_id c)), (''thread_id'', optional_text (c_thread_id c))]
           (owner_auth auth) = Inl e"
  shows "fire_cron F gap now fresh c token next_date sv = (Inl (FireThrew e), gap 1 (gap 0 sv))"
  using assms by (simp add: fire_cron_def store_for_fire_def Let_def)

lemma fire_cron_parts:
  assumes "fire_cron F no_gap now fresh c token next_date sv = (Inr x, sv')"
  shows "\<exists>auth scope owner t st.
           auth = (if fe_auth_enabled F then cron_get_auth (c_cron_id c) (sv_store sv) else None) \<and>
           (fe_auth_enabled F \<and> c_user_id c \<noteq> None \<longrightarrow> auth \<noteq> None) \<and>
           store_for_fire F c auth = Inr (scope, owner) \<and>
           fire_thread scope c (fresh 0) (now 1) (sv_store sv) = (Inr t, st) \<and>
           fire_claim F no_gap (now 2) (fresh 1) c token next_date auth scope owner t (sv\<lparr>sv_store := st\<rparr>) = (Inr x, sv')"
  using assms
  by (auto simp: fire_cron_def Let_def split: if_splits sum.splits prod.splits)


definition thread_for_fire :: "cron \<Rightarrow> ident \<Rightarrow> ident" where
  "thread_for_fire c uuid = or_default (c_thread_id c) uuid"

lemma projected_id: "t_thread_id (project_thread s t) = t_thread_id t"
  by (simp add: project_thread_def Let_def thread.defs)

lemma fire_thread_id:
  assumes "store_inv s" and "fire_thread scope c uuid now s = (Inr t, s')"
  shows "t = thread_for_fire c uuid"
proof (cases "c_thread_id c")
  case None
  have created: "t_thread_id v = uuid" if "thread_create_op input uuid now s = (Inr v, st)" "tc_thread_id input = None"
    for input v st
    using that by (auto simp: thread_create_op_def Let_def projected_id split: if_splits)
  have "t_thread_id v = uuid" if "scoped_thread_create sc (\<lambda>x. x) (cron_thread c) uuid now s = (Inr v, st)" for sc v st
    using that created
    by (fastforce simp: scoped_thread_create_def with_stamp_def cron_thread_def Let_def split: option.splits)
  with None assms(2) created [of "cron_thread c"] show ?thesis
    by (auto simp: fire_thread_def thread_for_fire_def cron_thread_def split: sum.splits prod.splits option.splits)
next
  case (Some t0)
  have "t_thread_id v = t0" if "thread_get t0 s = Some v" for v
    using that assms(1)
    by (auto simp: thread_get_def projected_id store_inv_def thread_inv_def split: option.splits dest: keyed_by_get)
  with Some assms(2) show ?thesis
    by (auto simp: fire_thread_def thread_for_fire_def split: option.splits)
qed

text \<open>
  C14. A due cron fires once, as its owner: when the tick's fire of it succeeds undisturbed, there is a
  pending run with a fresh id on its own thread, or on a thread made for this run, tagged with the
  owner the permission engine names today and executing as the principal the cron was created by; it
  is queued once; the cron has moved to the given date; no other run changed. With an engine, a cron
  that records an owner never fires without one.
\<close>

theorem cron_fires_as_owner:
  assumes "store_inv (sv_store sv)" and "cron_get (c_cron_id c) (sv_store sv) = Some c" and "c_enabled c"
    and "token = cron_seq (c_cron_id c) (sv_store sv)"
    and fire: "fire_cron F no_gap now fresh c token next_date sv = (Inr x, sv')"
  shows "x = Some (fresh 1) \<and> sv_queue sv' = (fresh 1, thread_for_fire c (fresh 0), 0) # sv_queue sv \<and>
         cron_get (c_cron_id c) (sv_store sv') = Some (c\<lparr>c_next_run_date := next_date, c_updated_at := now 2\<rparr>) \<and>
         (\<forall>j. j \<noteq> fresh 1 \<longrightarrow> run_get j (sv_store sv') = run_get j (sv_store sv)) \<and>
         (\<exists>auth scope owner r k.
            auth = (if fe_auth_enabled F then cron_get_auth (c_cron_id c) (sv_store sv) else None) \<and>
            (fe_auth_enabled F \<and> c_user_id c \<noteq> None \<longrightarrow> auth \<noteq> None) \<and>
            store_for_fire F c auth = Inr (scope, owner) \<and>
            run_get (fresh 1) (sv_store sv') = Some r \<and> get_kwargs (fresh 1) (sv_store sv') = Some k \<and>
            r_thread_id r = thread_for_fire c (fresh 0) \<and> r_status r = Pending \<and>
            r_metadata r = fired_metadata c owner \<and>
            jm_get (kw_rest k) ''auth_user'' = map_option ca_user auth \<and>
            (kw_delete_thread_on_completion k \<longrightarrow> c_thread_id c = None))"
proof -
  obtain auth scope owner t st where parts:
    "auth = (if fe_auth_enabled F then cron_get_auth (c_cron_id c) (sv_store sv) else None)"
    "fe_auth_enabled F \<and> c_user_id c \<noteq> None \<longrightarrow> auth \<noteq> None" "store_for_fire F c auth = Inr (scope, owner)"
    and made: "fire_thread scope c (fresh 0) (now 1) (sv_store sv) = (Inr t, st)"
    and claim: "fire_claim F no_gap (now 2) (fresh 1) c token next_date auth scope owner t (sv\<lparr>sv_store := st\<rparr>) = (Inr x, sv')"
    using fire_cron_parts [OF fire] by blast
  have t: "t = thread_for_fire c (fresh 0)" by (rule fire_thread_id [OF assms(1) made])
  note same = fire_thread_crons [OF made]
  let ?i = "c_cron_id c" and ?input = "fire_run F c auth owner t (now 2)"
  let ?row = "c\<lparr>c_next_run_date := next_date, c_updated_at := now 2\<rparr>"
  let ?s1 = "(bump_cron_seq ?i st)\<lparr>ms_crons := jm_set ?i ?row (ms_crons st)\<rparr>"
  have won: "claim_cron ?i \<lparr>cc_expected_seq = token, cc_next_run_date = next_date\<rparr> (now 2) st = (Some ?row, ?s1)"
    using assms(2-4) same by (simp add: claim_cron_def cron_get_def cron_seq_def bump_cron_seq_def Let_def)
  let ?r = "\<lparr>r_run_id = fresh 1, r_thread_id = t, r_assistant_id = c_assistant_id c, r_created_at = now 2,
    r_updated_at = now 2, r_status = Pending, r_metadata = fired_metadata c owner,
    r_multitask_strategy = rc_multitask_strategy ?input, r_error = None\<rparr>"
  let ?s2 = "?s1\<lparr>ms_runs := jm_set (fresh 1) ?r (ms_runs ?s1),
    ms_run_kwargs := jm_set (fresh 1) (fire_kwargs F c auth (now 2)) (ms_run_kwargs ?s1)\<rparr>"
  have new: "\<not> jm_has (ms_runs st) (fresh 1)" "fe_enqueue F (fresh 1) = None"
    using claim won
    by (auto simp: fire_claim_def claim_and_create_run_def create_run_def fire_run_def bump_cron_seq_def Let_def
        split: option.splits if_splits)
  then have "claim_and_create_run ?i \<lparr>cc_expected_seq = token, cc_next_run_date = next_date\<rparr> ?input (fresh 1) (now 2) st =
      (Inr (Some (?row, ?r)), ?s2)"
    using won by (simp add: claim_and_create_run_def create_run_def fire_run_def fired_metadata_def bump_cron_seq_def Let_def)
  then have "x = Some (fresh 1) \<and> sv' = sv\<lparr>sv_store := ?s2, sv_queue := (fresh 1, t, 0) # sv_queue sv\<rparr>"
    using claim new by (simp add: fire_claim_def Let_def)
  moreover have "cron_get ?i ?s2 = Some ?row" "run_get (fresh 1) ?s2 = Some ?r"
    "get_kwargs (fresh 1) ?s2 = Some (fire_kwargs F c auth (now 2))"
    "j \<noteq> fresh 1 \<Longrightarrow> run_get j ?s2 = run_get j (sv_store sv)" for j
    using same by (simp_all add: cron_get_def run_get_def get_kwargs_def bump_cron_seq_def jm_get_set)
  ultimately show ?thesis
    using parts t fire_kwargs_auth [of F c auth "now 2"] fire_kwargs_deletion [of F c auth "now 2"]
    by (intro conjI exI [of _ auth] exI [of _ scope] exI [of _ owner] exI [of _ ?r]
        exI [of _ "fire_kwargs F c auth (now 2)"]) simp_all
qed


section \<open>Examples\<close>

text \<open>A minutely cron of Ada's, stateless, due at 60; her runs are tagged with her name.\<close>

definition minutely :: croner where
  "minutely = \<lparr>cr_evaluates = (\<lambda>_ _. True), cr_next = (\<lambda>_ _ after. Some (after + 60))\<rparr>"

definition ada :: cron_auth where
  "ada = \<lparr>ca_user = JObj [(''identity'', JStr ''ada'')], ca_scopes = None\<rparr>"

definition ada_store :: mem_store where
  "ada_store = snd (cron_create_op (sample_cron_create\<lparr>cn_user_id := Some ''ada'', cn_auth := Some ada\<rparr>) ''u'' 0 empty_store)"

definition ada_service :: run_service where
  "ada_service = sample_service\<lparr>sv_store := ada_store\<rparr>"

definition ada_cron :: cron where
  "ada_cron = new_cron (sample_cron_create\<lparr>cn_user_id := Some ''ada'', cn_auth := Some ada\<rparr>) ''c1'' 0"

definition sample_fire :: fire_env where
  "sample_fire = \<lparr>fe_croner = minutely, fe_auth_enabled = True,
     fe_authorize = (\<lambda>_ _. Inr (Some [(''owner'', PlainClause (JStr ''ada''))])), fe_matches = (\<lambda>_ _. True),
     fe_body = (\<lambda>_. sample_input MReject), fe_enqueue = (\<lambda>_. None), fe_locale_compare = compare_of\<rparr>"

definition fresh_ids :: "nat \<Rightarrow> ident" where
  "fresh_ids n = (if n = 0 then ''t9'' else ''r9'')"

lemmas ada_simps = ada_store_def ada_cron_def sample_cron_create_def empty_store_def cron_create_op_def new_cron_def
  Let_def jm_has_def

lemma ada_store_inv: "store_inv ada_store"
  unfolding ada_store_def by (intro cron_create_store_inv empty_store_inv)

lemma ada_row: "cron_get (c_cron_id ada_cron) (sv_store ada_service) = Some ada_cron"
  "c_cron_id ada_cron = ''c1''" "c_enabled ada_cron" "cron_seq ''c1'' ada_store = 0"
  by (simp_all add: ada_service_def cron_get_def cron_seq_def ada_simps)

text \<open>Another instance claims the occurrence while this one makes its thread.\<close>

definition rival_gap :: gaps where
  "rival_gap = (\<lambda>n sv. if n = 3 then sv\<lparr>sv_store := snd (claim_cron ''c1''
       \<lparr>cc_expected_seq = 0, cc_next_run_date = Some 120\<rparr> 61 (sv_store sv))\<rparr> else sv)"

lemma rival_moves_on: "others_move_on I rival_gap"
  by (simp add: others_move_on_def rival_gap_def move_on_refl claim_moves_on)

lemma ada_due: "due_scan sample_fire 100 60 ada_service = [(ada_cron, 0)]"
  by code_simp


definition ada_fired :: "(fire_error + ident option) \<times> run_service" where
  "ada_fired = fire_cron sample_fire no_gap (\<lambda>_. 60) fresh_ids ada_cron 0 (Some 120) ada_service"

lemma ada_fires: "fst ada_fired = Inr (Some ''r9'')"
  by code_simp

theorem cron_fires_as_owner_witness:
  "\<exists>r k. run_get ''r9'' (sv_store (snd ada_fired)) = Some r \<and> r_thread_id r = ''t9'' \<and>
     r_metadata r = JObj [(''owner'', JStr ''ada''), (''cron_id'', JStr ''c1'')] \<and>
     get_kwargs ''r9'' (sv_store (snd ada_fired)) = Some k \<and> jm_get (kw_rest k) ''auth_user'' = Some (ca_user ada)"
proof -
  have fire: "fire_cron sample_fire no_gap (\<lambda>_. 60) fresh_ids ada_cron 0 (Some 120) ada_service =
      (Inr (Some ''r9''), snd ada_fired)"
    using ada_fires by (simp add: ada_fired_def prod_eq_iff)
  have inv: "store_inv (sv_store ada_service)" using ada_store_inv by (simp add: ada_service_def)
  have token: "0 = cron_seq (c_cron_id ada_cron) (sv_store ada_service)"
    using ada_row(2,4) by (simp add: ada_service_def)
  have auth: "cron_get_auth (c_cron_id ada_cron) (sv_store ada_service) = Some ada"
    by (simp add: cron_get_auth_def ada_service_def ada_simps)
  have scope: "\<exists>scope. store_for_fire sample_fire ada_cron (Some ada) = Inr (scope, Some (JObj [(''owner'', JStr ''ada'')]))"
    by (simp add: store_for_fire_def sample_fire_def auth_filters_to_metadata_subset_def Let_def)
  have tag: "fired_metadata ada_cron (Some (JObj [(''owner'', JStr ''ada'')])) = JObj [(''owner'', JStr ''ada''), (''cron_id'', JStr ''c1'')]"
    by (simp add: fired_metadata_def ada_row(2) js_spread_def)
  have ids: "thread_for_fire ada_cron (fresh_ids 0) = ''t9''" "fresh_ids 1 = ''r9''"
    by (simp_all add: thread_for_fire_def fresh_ids_def ada_simps)
  from cron_fires_as_owner [OF inv ada_row(1,3) token fire] scope show ?thesis
    by (auto simp: ids auth tag sample_fire_def)
qed

text \<open>Disabling the cron makes it dormant.\<close>

definition disabling :: cron_change where
  "disabling = \<lparr>pr_schedule = None, pr_timezone = Undefined, pr_end_time = Undefined, pr_enabled = Some False,
     pr_on_run_completed = None, pr_metadata = None, pr_body = []\<rparr>"


end
