(* ===== verification/ThreadService.thy ===== *)
theory ThreadService
  imports RunCreation StoreIdempotency CollectPages
begin

text \<open>
  The thread service, \<^verbatim>\<open>threads/thread-service.ts\<close>: creating, patching, deleting, pruning and copying
  threads, and the sweep of expired ones, \<^verbatim>\<open>threads/thread-ttl-sweeper.ts\<close>. The checkpointer is not
  part of the sources: what its operations throw is an argument. Left out are the reads and writes of a
  thread's state through its graph, the seeding of a new thread and the thread bus. \<open>gap n\<close> is what
  everybody else does in the n-th await.
\<close>

section \<open>Creating and patching\<close>

datatype if_exists = RaiseIfExists | DoNothingIfExists

definition thread_service_create ::
  "gaps \<Rightarrow> if_exists \<Rightarrow> thread_create \<Rightarrow> ident \<Rightarrow> instant \<Rightarrow> run_service \<Rightarrow> (thrown + thread_view) \<times> run_service" where
  "thread_service_create gap policy input uuid now sv =
     (case thread_create_op input uuid now (sv_store sv) of
        (Inr t, st) \<Rightarrow> (Inr t, gap 0 (sv\<lparr>sv_store := st\<rparr>))
      | (Inl e, st) \<Rightarrow>
          let sv1 = gap 0 (sv\<lparr>sv_store := st\<rparr>) in
          (case (if policy = DoNothingIfExists \<and> is_conflict e then tc_thread_id input else None) of
             None \<Rightarrow> (Inl e, sv1)
           | Some thread_id \<Rightarrow>
               (case thread_get thread_id (sv_store sv1) of
                  None \<Rightarrow> (Inl e, gap 1 sv1)
                | Some existing \<Rightarrow> (Inr existing, gap 1 sv1))))"

record thread_patch =
  ta_metadata :: "jsval option"
  ta_ttl :: "int jsopt"
  ta_ttl_strategy :: "ttl_strategy option"

definition thread_service_patch ::
  "gaps \<Rightarrow> instant \<Rightarrow> ident \<Rightarrow> thread_patch \<Rightarrow> run_service \<Rightarrow> (thrown + thread_view) \<times> run_service" where
  "thread_service_patch gap now thread_id p sv =
     (case require_thread thread_id sv of
        Inl e \<Rightarrow> (Inl e, gap 0 sv)
      | Inr _ \<Rightarrow>
          let sv1 = gap 0 sv;
              (out, st) = thread_update_op thread_id
                (empty_thread_update\<lparr>tu_metadata := ta_metadata p, tu_ttl := ta_ttl p,
                                     tu_ttl_strategy := ta_ttl_strategy p\<rparr>) now (sv_store sv1)
          in (out, gap 1 (sv1\<lparr>sv_store := st\<rparr>)))"

section \<open>Deleting\<close>

text \<open>Every run that was listed and is not over: its executions are told, and its bus closes.\<close>

fun stop_runs :: "gaps \<Rightarrow> run list \<Rightarrow> run_service \<Rightarrow> run_service" where
  "stop_runs gap [] sv = sv"
| "stop_runs gap (r # rs) sv =
     (if is_terminal_run_status (r_status r) then stop_runs gap rs sv
      else stop_runs (later 1 gap) rs (gap 0 (close_bus (r_run_id r) (control_abort (r_run_id r) ByCancel sv))))"

definition active_among :: "run list \<Rightarrow> run list" where
  "active_among = filter (\<lambda>r. \<not> is_terminal_run_status (r_status r))"

text \<open>\<open>checkpoints\<close> is what \<^verbatim>\<open>checkpointer.deleteThread\<close> throws, if anything.\<close>

definition delete_thread_service ::
  "gaps \<Rightarrow> thrown option \<Rightarrow> ident \<Rightarrow> run_service \<Rightarrow> (thrown + unit) \<times> run_service" where
  "delete_thread_service gap checkpoints thread_id sv =
     (case require_thread thread_id sv of
        Inl e \<Rightarrow> (Inl e, gap 0 sv)
      | Inr _ \<Rightarrow>
          let sv1 = gap 0 sv;
              runs = list_by_thread thread_id None None None (sv_store sv1);
              n = 2 + length (active_among runs);
              sv2 = gap n (stop_runs (later 2 gap) runs (gap 1 sv1))
          in case checkpoints of
               Some e \<Rightarrow> (Inl e, sv2)
             | None \<Rightarrow>
                 let sv3 = gap (n + 1) (sv2\<lparr>sv_store := thread_delete thread_id (sv_store sv2)\<rparr>)
                 in (Inr (), gap (n + 2) (sv3\<lparr>sv_store := snd (idempotency_delete_by_thread thread_id (sv_store sv3))\<rparr>)))"

section \<open>Pruning\<close>

text \<open>
  One id of \<^verbatim>\<open>prune\<close> under \<^verbatim>\<open>keep_latest\<close>: skipped when it is absent or busy, before and under the
  thread's lock. \<open>trimmed\<close> is what \<^verbatim>\<open>pruneThreadCheckpointsToLatest\<close> throws or returns.
\<close>

definition prune_keep_latest ::
  "gaps \<Rightarrow> (thrown + bool) \<Rightarrow> ident \<Rightarrow> run_service \<Rightarrow> (thrown + nat) \<times> run_service" where
  "prune_keep_latest gap trimmed thread_id sv =
     (case thread_get thread_id (sv_store sv) of
        None \<Rightarrow> (Inr 0, gap 0 sv)
      | Some _ \<Rightarrow>
          let sv1 = gap 0 sv; sv2 = gap 1 sv1; sv3 = gap 2 sv2
          in if has_active_run thread_id (sv_store sv1) then (Inr 0, sv2)
             else if has_active_run thread_id (sv_store sv3) then (Inr 0, gap 3 sv3)
             else
               let sv4 = gap 4 (gap 3 sv3)
               in (case trimmed of Inl e \<Rightarrow> (Inl e, sv4) | Inr b \<Rightarrow> (Inr (if b then 1 else 0), sv4)))"

definition prune_delete ::
  "gaps \<Rightarrow> thrown option \<Rightarrow> ident \<Rightarrow> run_service \<Rightarrow> (thrown + nat) \<times> run_service" where
  "prune_delete gap checkpoints thread_id sv =
     (case thread_get thread_id (sv_store sv) of
        None \<Rightarrow> (Inr 0, gap 0 sv)
      | Some _ \<Rightarrow>
          (case delete_thread_service (later 1 gap) checkpoints thread_id (gap 0 sv) of
             (Inl e, sv1) \<Rightarrow> (Inl e, sv1)
           | (Inr _, sv1) \<Rightarrow> (Inr 1, sv1)))"

text \<open>The loop over the distinct ids; \<open>gaps_of\<close>, \<open>checkpoints\<close> and \<open>trimmed\<close> say what happens at each of them.\<close>

fun prune_each ::
  "(ident \<Rightarrow> gaps) \<Rightarrow> (ident \<Rightarrow> thrown option) \<Rightarrow> (ident \<Rightarrow> thrown + bool) \<Rightarrow> ttl_strategy \<Rightarrow> ident list \<Rightarrow> nat \<Rightarrow>
   run_service \<Rightarrow> (thrown + nat) \<times> run_service" where
  "prune_each gaps_of checkpoints trimmed strategy [] n sv = (Inr n, sv)"
| "prune_each gaps_of checkpoints trimmed strategy (i # ids) n sv =
     (case (case strategy of
              DeleteThread \<Rightarrow> prune_delete (gaps_of i) (checkpoints i) i sv
            | KeepLatest \<Rightarrow> prune_keep_latest (gaps_of i) (trimmed i) i sv) of
        (Inl e, sv1) \<Rightarrow> (Inl e, sv1)
      | (Inr k, sv1) \<Rightarrow> prune_each gaps_of checkpoints trimmed strategy ids (n + k) sv1)"

definition prune_threads ::
  "(ident \<Rightarrow> gaps) \<Rightarrow> (ident \<Rightarrow> thrown option) \<Rightarrow> (ident \<Rightarrow> thrown + bool) \<Rightarrow> ttl_strategy option \<Rightarrow> ident list \<Rightarrow>
   run_service \<Rightarrow> (thrown + nat) \<times> run_service" where
  "prune_threads gaps_of checkpoints trimmed strategy ids sv =
     prune_each gaps_of checkpoints trimmed (or_default strategy DeleteThread) (js_unique ids) 0 sv"

section \<open>Copying\<close>

definition without_callback_state :: "run_kwargs \<Rightarrow> run_kwargs" where
  "without_callback_state k =
     (let native = (case kw_native_origin k of None \<Rightarrow> False | Some v \<Rightarrow> js_truthy v);
          outbox = (kw_terminal_delivery k \<noteq> None);
          plain = k\<lparr>kw_native_origin := None, kw_terminal_delivery := None, kw_webhook := None\<rparr>
      in if native \<or> outbox then plain
         else plain\<lparr>kw_webhook := (case kw_webhook k of Some url \<Rightarrow> if url = [] then None else Some url | None \<Rightarrow> None)\<rparr>)"

text \<open>
  \<open>ids\<close> is \<^verbatim>\<open>copiedRunIds\<close>: the new id of every terminal run. \<^verbatim>\<open>readA2aOrigin\<close> is the \<^verbatim>\<open>a2a_origin\<close> of the
  kwargs; the ids an A2A run carries are those of the copies, and its checkpoint is one of the copy.
\<close>

type_synonym id_map = "(ident, ident) jsmap"

definition copied_ids :: "(nat \<Rightarrow> ident) \<Rightarrow> run list \<Rightarrow> id_map" where
  "copied_ids fresh runs =
     (let over = filter (\<lambda>r. is_terminal_run_status (r_status r)) runs
      in map (\<lambda>i. (r_run_id (over ! i), fresh i)) [0..<length over])"

definition remapped :: "id_map \<Rightarrow> jsval \<Rightarrow> jsval" where
  "remapped ids v = (case v of JStr i \<Rightarrow> JStr (or_default (jm_get ids i) i) | _ \<Rightarrow> v)"

definition read_a2a_origin :: "run_kwargs option \<Rightarrow> jsval" where
  "read_a2a_origin kwargs = (case kwargs of None \<Rightarrow> JUndef | Some k \<Rightarrow> or_default (jm_get (kw_rest k) ''a2a_origin'') JUndef)"

definition set_when :: "bool \<Rightarrow> string \<Rightarrow> jsval \<Rightarrow> jsobj \<Rightarrow> jsobj" where
  "set_when b name v ps = (if b then jm_set name v ps else ps)"

definition copied_origin :: "id_map \<Rightarrow> ident \<Rightarrow> jsval \<Rightarrow> jsval" where
  "copied_origin ids copy_id origin =
     (let root = js_field origin ''rootId''; expected = js_field origin ''expectedRunId'';
          checkpoint = js_field origin ''checkpoint''
      in JObj (set_when (js_truthy checkpoint) ''checkpoint''
                 (JObj (jm_set ''thread_id'' (JStr copy_id) (js_entries checkpoint)))
           (set_when (js_truthy expected) ''expectedRunId'' (remapped ids expected)
             (set_when (js_truthy root) ''rootId'' (remapped ids root) (js_entries origin)))))"

definition copied_kwargs :: "id_map \<Rightarrow> ident \<Rightarrow> run_kwargs \<Rightarrow> run_kwargs" where
  "copied_kwargs ids copy_id kwargs =
     (let k = without_callback_state kwargs; origin = read_a2a_origin (Some k)
      in if js_truthy origin then k\<lparr>kw_rest := jm_set ''a2a_origin'' (copied_origin ids copy_id origin) (kw_rest k)\<rparr>
         else k)"

text \<open>\<^verbatim>\<open>typeof v === "object"\<close> of a value that is neither null nor an array.\<close>

fun is_plain_object :: "jsval \<Rightarrow> bool" where
  "is_plain_object (JObj _) = True"
| "is_plain_object _ = False"

definition copied_metadata :: "id_map \<Rightarrow> ident \<Rightarrow> ident \<Rightarrow> jsval \<Rightarrow> jsval \<Rightarrow> jsval" where
  "copied_metadata ids copy_id run_id origin metadata =
     (let ps = js_entries metadata;
          root = or_default (jm_get ps ''skein_a2a_root'') JUndef;
          ps1 = set_when (case root of JStr _ \<Rightarrow> True | _ \<Rightarrow> False) ''skein_a2a_root'' (remapped ids root) ps;
          original = or_default (jm_get ps1 ''skein_a2a_message'') JUndef;
          task = (case or_default (jm_get ps1 ''skein_a2a_root'') JUndef of
                    JUndef \<Rightarrow> or_default (map_option JStr (jm_get ids run_id)) JUndef
                  | JNull \<Rightarrow> or_default (map_option JStr (jm_get ids run_id)) JUndef
                  | v \<Rightarrow> v)
      in JObj (set_when (js_truthy origin \<and> is_plain_object original) ''skein_a2a_message''
                 (JObj (jm_set ''taskId'' task (jm_set ''contextId'' (JStr copy_id) (js_entries original)))) ps1))"

definition copied_run :: "id_map \<Rightarrow> ident \<Rightarrow> run \<Rightarrow> run_kwargs option \<Rightarrow> run_create" where
  "copied_run ids copy_id r kwargs =
     (let copied = map_option (copied_kwargs ids copy_id) kwargs
      in \<lparr>rc_thread_id = copy_id, rc_assistant_id = r_assistant_id r, rc_run_id = jm_get ids (r_run_id r),
          rc_status = Some (r_status r),
          rc_metadata = Some (copied_metadata ids copy_id (r_run_id r) (read_a2a_origin (map_option without_callback_state kwargs))
                                (r_metadata r)),
          rc_multitask_strategy = r_multitask_strategy r, rc_kwargs = copied\<rparr>)"

definition moved_result :: "ident \<Rightarrow> run_result \<Rightarrow> run_result" where
  "moved_result copy_id result =
     result\<lparr>rr_checkpoint := (case rr_checkpoint result of
              Some c \<Rightarrow> Some (JObj (jm_set ''thread_id'' (JStr copy_id) (js_entries c))) | None \<Rightarrow> None)\<rparr>"

text \<open>One terminal run: its kwargs, the row under the copy, and its result when there is one.\<close>

definition copy_run ::
  "gaps \<Rightarrow> instant \<Rightarrow> id_map \<Rightarrow> ident \<Rightarrow> run \<Rightarrow> run_service \<Rightarrow> (thrown + unit) \<times> run_service" where
  "copy_run gap now ids copy_id r sv =
     (let kwargs = get_kwargs (r_run_id r) (sv_store sv);
          sv1 = gap 0 sv
      in case create_run (copied_run ids copy_id r kwargs) [] now (sv_store sv1) of
           (Inl e, st) \<Rightarrow> (Inl e, gap 1 (sv1\<lparr>sv_store := st\<rparr>))
         | (Inr made, st) \<Rightarrow>
             let sv2 = gap 1 (sv1\<lparr>sv_store := st\<rparr>);
                 sv3 = gap 2 sv2
             in (case get_result (r_run_id r) (sv_store sv2) of
                   None \<Rightarrow> (Inr (), sv3)
                 | Some result \<Rightarrow>
                     (case record_result (r_run_id made) (moved_result copy_id result) (sv_store sv3) of
                        (Inl e, st') \<Rightarrow> (Inl e, gap 3 (sv3\<lparr>sv_store := st'\<rparr>))
                      | (Inr _, st') \<Rightarrow> (Inr (), gap 3 (sv3\<lparr>sv_store := st'\<rparr>)))))"

fun copy_runs ::
  "gaps \<Rightarrow> instant \<Rightarrow> id_map \<Rightarrow> ident \<Rightarrow> run list \<Rightarrow> run_service \<Rightarrow> (thrown + unit) \<times> run_service" where
  "copy_runs gap now ids copy_id [] sv = (Inr (), sv)"
| "copy_runs gap now ids copy_id (r # rs) sv =
     (if \<not> is_terminal_run_status (r_status r) then copy_runs gap now ids copy_id rs sv
      else (case copy_run gap now ids copy_id r sv of
              (Inl e, sv1) \<Rightarrow> (Inl e, sv1)
            | (Inr _, sv1) \<Rightarrow> copy_runs (later 4 gap) now ids copy_id rs sv1))"

text \<open>\<open>history\<close> is what copying the checkpoints throws, if anything.\<close>

definition copy_thread_service ::
  "gaps \<Rightarrow> thrown option \<Rightarrow> instant \<Rightarrow> ident \<Rightarrow> (nat \<Rightarrow> ident) \<Rightarrow> ident \<Rightarrow> run_service \<Rightarrow>
   (thrown + thread_view) \<times> run_service" where
  "copy_thread_service gap history now uuid fresh thread_id sv =
     (case require_thread thread_id sv of
        Inl e \<Rightarrow> (Inl e, gap 0 sv)
      | Inr _ \<Rightarrow>
          let sv1 = gap 0 sv
          in case thread_copy thread_id uuid now (sv_store sv1) of
               (Inl e, st) \<Rightarrow> (Inl e, gap 1 (sv1\<lparr>sv_store := st\<rparr>))
             | (Inr copy, st) \<Rightarrow>
                 let sv2 = gap 2 (gap 1 (sv1\<lparr>sv_store := st\<rparr>))
                 in case history of
                      Some e \<Rightarrow> (Inl e, sv2)
                    | None \<Rightarrow>
                        let listed = list_by_thread thread_id None None None (sv_store sv2);
                            runs = js_sort (\<lambda>a b. compare_of (r_created_at a) (r_created_at b)) listed
                        in case copy_runs (later 4 gap) now (copied_ids fresh listed) (t_thread_id copy) runs (gap 3 sv2) of
                             (Inl e, sv3) \<Rightarrow> (Inl e, sv3)
                           | (Inr _, sv3) \<Rightarrow>
                               if t_status copy \<noteq> Busy then (Inr copy, sv3)
                               else
                                 let (out, st') = thread_update_op (t_thread_id copy)
                                       (empty_thread_update\<lparr>tu_status := Some Idle\<rparr>) now (sv_store sv3)
                                 in (out, sv3\<lparr>sv_store := st'\<rparr>))"

section \<open>The sweep of expired threads\<close>

definition SWEEP_BATCH_SIZE :: nat where "SWEEP_BATCH_SIZE = 100"

text \<open>One listed thread: whether it was collected; a failure is logged and skipped.\<close>

definition sweep_thread ::
  "gaps \<Rightarrow> instant \<Rightarrow> thrown option \<Rightarrow> (thrown + bool) \<Rightarrow> ident \<Rightarrow> run_service \<Rightarrow> bool \<times> run_service" where
  "sweep_thread gap now checkpoints trimmed thread_id sv =
     (let policy = threads_get_ttl thread_id (sv_store sv); sv1 = gap 0 sv
      in if tr_strategy policy = KeepLatest
         then
           if has_active_run thread_id (sv_store sv1) then (False, gap 1 sv1)
           else
             (case prune_keep_latest (later 2 gap) trimmed thread_id (gap 1 sv1) of
                (Inl _, sv2) \<Rightarrow> (False, sv2)
              | (Inr _, sv2) \<Rightarrow>
                  let sv3 = gap 7 sv2
                  in if has_active_run thread_id (sv_store sv2) then (False, sv3)
                     else
                       let (out, sv4) = thread_service_patch (later 8 gap) now thread_id
                             \<lparr>ta_metadata = None, ta_ttl = (if tr_ttl policy = Undefined then Null else tr_ttl policy),
                              ta_ttl_strategy = None\<rparr> sv3
                       in (case out of Inl _ \<Rightarrow> False | Inr _ \<Rightarrow> True, sv4))
         else
           (case delete_thread_service (later 1 gap) checkpoints thread_id sv1 of
              (Inl _, sv2) \<Rightarrow> (False, sv2)
            | (Inr _, sv2) \<Rightarrow> (True, sv2)))"

fun sweep_each ::
  "(ident \<Rightarrow> gaps) \<Rightarrow> instant \<Rightarrow> (ident \<Rightarrow> thrown option) \<Rightarrow> (ident \<Rightarrow> thrown + bool) \<Rightarrow> ident list \<Rightarrow> nat \<Rightarrow>
   run_service \<Rightarrow> nat \<times> run_service" where
  "sweep_each gaps_of now checkpoints trimmed [] n sv = (n, sv)"
| "sweep_each gaps_of now checkpoints trimmed (i # ids) n sv =
     (let (collected, sv1) = sweep_thread (gaps_of i) now (checkpoints i) (trimmed i) i sv
      in sweep_each gaps_of now checkpoints trimmed ids (if collected then Suc n else n) sv1)"

definition sweep_batch ::
  "(run_service \<Rightarrow> run_service) \<Rightarrow> (ident \<Rightarrow> gaps) \<Rightarrow> instant \<Rightarrow> (ident \<Rightarrow> thrown option) \<Rightarrow> (ident \<Rightarrow> thrown + bool) \<Rightarrow>
   run_service \<Rightarrow> (nat \<times> nat) \<times> run_service" where
  "sweep_batch first_gap gaps_of now checkpoints trimmed sv =
     (let expired = threads_list_expired now (min SWEEP_BATCH_SIZE (ms_max_page_size (sv_store sv))) (sv_store sv);
          (collected, sv1) = sweep_each gaps_of now checkpoints trimmed expired 0 (first_gap sv)
      in ((length expired, collected), sv1))"

end
