(* ===== verification/ThreadDeletion.thy ===== *)
theory ThreadDeletion
  imports ThreadService RunCancelling
begin

text \<open>
  What deleting a thread through the service promises: everything of the thread is erased, its active
  runs are stopped first, and a checkpointer that fails leaves the thread for a retry. And what the
  sweep of expired threads does not promise: it deletes what it listed, also when it has been
  refreshed since.
\<close>

section \<open>What is left of a thread\<close>

definition rows_erased :: "ident \<Rightarrow> mem_store \<Rightarrow> bool" where
  "rows_erased t s \<longleftrightarrow>
     thread_get t s = None \<and> jm_get (ms_thread_retention s) t = None \<and> jm_get (ms_thread_expiry s) t = None \<and>
     (\<forall>r \<in> set (jm_values (ms_runs s)). r_thread_id r \<noteq> t) \<and>
     (\<forall>c \<in> set (jm_values (ms_crons s)). c_thread_id c \<noteq> Some t)"

definition records_erased :: "ident \<Rightarrow> mem_store \<Rightarrow> bool" where
  "records_erased t s \<longleftrightarrow> (\<forall>x \<in> set (jm_values (ms_idempotency s)). ir_thread_id x \<noteq> Some t)"

text \<open>What a run has beside its row, and that none of it is left where the row is gone.\<close>

definition no_orphans :: "mem_store \<Rightarrow> bool" where
  "no_orphans s \<longleftrightarrow>
     (\<forall>i. run_get i s = None \<longrightarrow>
        get_kwargs i s = None \<and> jm_get (ms_run_results s) i = None \<and> jm_get (ms_dispatches s) i = None)"

lemma store_inv_no_orphans: "store_inv s \<Longrightarrow> no_orphans s"
  using run_absent_beside by (auto simp: no_orphans_def run_get_def get_kwargs_def)

text \<open>
  A run that was stopped since the registry was \<open>R0\<close>: its bus is closed, its abort is published when
  there is a channel, and the box its executions here held then and still hold is aborted.
\<close>

definition stopped :: "control_registry \<Rightarrow> run \<Rightarrow> run_service \<Rightarrow> bool" where
  "stopped R0 r sv \<longleftrightarrow> r_run_id r \<in> set (sv_closed sv) \<and>
     (cr_channel (sv_control sv) \<longrightarrow> (r_run_id r, ByCancel) \<in> set (sv_sent sv)) \<and>
     (\<forall>n < length (cr_boxes R0). box_of (r_run_id r) R0 = Some n \<and> box_of (r_run_id r) (sv_control sv) = Some n \<longrightarrow>
        box_aborted n (sv_control sv))"

text \<open>
  What the others may do in an await: anything the store's operations and the registry's do, but bring
  back a row of the deleted thread, unclose a bus, or take back a published abort.
\<close>

definition leaves_erased :: "ident \<Rightarrow> run_service \<Rightarrow> run_service \<Rightarrow> bool" where
  "leaves_erased t sv sv' \<longleftrightarrow>
     (store_inv (sv_store sv) \<longrightarrow> store_inv (sv_store sv')) \<and>
     (rows_erased t (sv_store sv) \<longrightarrow> rows_erased t (sv_store sv')) \<and>
     (rows_erased t (sv_store sv) \<and> records_erased t (sv_store sv) \<longrightarrow> records_erased t (sv_store sv')) \<and>
     set (sv_closed sv) \<subseteq> set (sv_closed sv') \<and> set (sv_sent sv) \<subseteq> set (sv_sent sv') \<and>
     registry_moves (sv_control sv) (sv_control sv')"

lemma stopped_moves:
  assumes "stopped R0 r sv" and "registry_moves R0 (sv_control sv)" and "registry_moves (sv_control sv) (sv_control sv')"
    and "set (sv_closed sv) \<subseteq> set (sv_closed sv')" and "set (sv_sent sv) \<subseteq> set (sv_sent sv')"
  shows "stopped R0 r sv'"
proof -
  have "box_aborted n (sv_control sv')"
    if "n < length (cr_boxes R0)" "box_of (r_run_id r) R0 = Some n" "box_of (r_run_id r) (sv_control sv') = Some n" for n
  proof -
    have "box_of (r_run_id r) (sv_control sv) = Some n"
      using that(1,3) assms(2,3) unfolding registry_moves_def by (meson leD order_trans)
    with that assms(1,3) show ?thesis unfolding stopped_def registry_moves_def by blast
  qed
  with assms show ?thesis by (auto simp: stopped_def registry_moves_def)
qed

lemma leaves_erasedD:
  assumes "leaves_erased t sv sv'"
  shows "rows_erased t (sv_store sv) \<Longrightarrow> rows_erased t (sv_store sv')"
    and "rows_erased t (sv_store sv) \<Longrightarrow> records_erased t (sv_store sv) \<Longrightarrow> records_erased t (sv_store sv')"
    and "store_inv (sv_store sv) \<Longrightarrow> store_inv (sv_store sv')"
    and "registry_moves (sv_control sv) (sv_control sv')"
    and "registry_moves R0 (sv_control sv) \<Longrightarrow> stopped R0 r sv \<Longrightarrow> stopped R0 r sv'"
  using assms stopped_moves [of R0 r sv sv'] by (simp_all add: leaves_erased_def)

lemma stopped_store [simp]: "stopped R0 r (sv\<lparr>sv_store := s\<rparr>) = stopped R0 r sv"
  by (simp add: stopped_def)

lemma stop_one:
  assumes "registry_moves R0 (sv_control sv)"
  shows "stopped R0 r (close_bus (r_run_id r) (control_abort (r_run_id r) ByCancel sv))"
proof -
  have "cr_channel (sv_control (control_abort (r_run_id r) ByCancel sv)) = cr_channel (sv_control sv)"
    using control_abort_facts(1) unfolding registry_moves_def by blast
  moreover have "n < length (cr_boxes (sv_control sv))" if "n < length (cr_boxes R0)" for n
    using that assms unfolding registry_moves_def by linarith
  ultimately show ?thesis
    using control_abort_facts(5,6) [where i = "r_run_id r" and reason = ByCancel and sv = sv] by (auto simp: stopped_def close_bus_def)
qed

lemma stop_keeps:
  "registry_moves R0 (sv_control sv) \<Longrightarrow> stopped R0 q sv \<Longrightarrow> stopped R0 q (close_bus i (control_abort i reason sv))"
  by (rule stopped_moves) (auto simp: close_bus_def registry_moves_ops control_abort_facts(3) subsetD [OF control_abort_facts(2)])

lemma close_abort_moves:
  "registry_moves (sv_control sv) (sv_control (close_bus i (control_abort i reason sv)))"
  "sv_store (close_bus i (control_abort i reason sv)) = sv_store sv"
  using control_abort_facts(1,4) by (simp_all add: close_bus_def)

lemma stop_runs_stopped:
  assumes others: "\<forall>n sv. leaves_erased t sv (gap n sv)" and "registry_moves R0 (sv_control sv)"
  shows "(\<forall>r \<in> set (active_among rs). stopped R0 r (stop_runs gap rs sv)) \<and>
         (\<forall>r. stopped R0 r sv \<longrightarrow> stopped R0 r (stop_runs gap rs sv)) \<and>
         registry_moves R0 (sv_control (stop_runs gap rs sv)) \<and>
         (store_inv (sv_store sv) \<longrightarrow> store_inv (sv_store (stop_runs gap rs sv)))"
  using assms
proof (induction gap rs sv rule: stop_runs.induct)
  case (1 gap sv)
  then show ?case by (simp add: active_among_def)
next
  case (2 gap r rs sv)
  let ?sv = "close_bus (r_run_id r) (control_abort (r_run_id r) ByCancel sv)"
  have step: "leaves_erased t ?sv (gap 0 ?sv)" using 2(3) by blast
  have moves: "registry_moves R0 (sv_control ?sv)" "registry_moves R0 (sv_control (gap 0 ?sv))"
    using 2(4) close_abort_moves(1) leaves_erasedD(4) [OF step] by (blast intro: registry_moves_trans)+
  have "stopped R0 r (gap 0 ?sv)" "stopped R0 q sv \<Longrightarrow> stopped R0 q (gap 0 ?sv)" for q
    using leaves_erasedD(5) [OF step moves(1)] stop_one [OF 2(4)] stop_keeps [OF 2(4)] by blast+
  moreover have "store_inv (sv_store sv) \<Longrightarrow> store_inv (sv_store (gap 0 ?sv))"
    using leaves_erasedD(3) [OF step] by (simp only: close_abort_moves(2))
  moreover have "\<forall>n sv. leaves_erased t sv (later 1 gap n sv)" using 2(3) by (simp add: later_def)
  ultimately show ?case
    using 2(1,2,3,4) moves(2) by (cases "is_terminal_run_status (r_status r)") (auto simp: active_among_def)
qed

section \<open>Erasing the rows\<close>

lemma thread_delete_rows: "rows_erased t (thread_delete t s)"
proof -
  have "ms_runs (thread_delete t s) =
      filter (\<lambda>e. \<not> (\<exists>r. (fst e, r) \<in> set (ms_runs s) \<and> r_thread_id r = t)) (ms_runs s)"
    "ms_crons (thread_delete t s) =
      filter (\<lambda>e. \<not> (\<exists>c. (fst e, c) \<in> set (ms_crons s) \<and> c_thread_id c = Some t)) (ms_crons s)"
    "jm_get (ms_threads (thread_delete t s)) t = None" "jm_get (ms_thread_retention (thread_delete t s)) t = None"
    "jm_get (ms_thread_expiry (thread_delete t s)) t = None"
    by (simp_all add: thread_delete_def Let_def delete_crons_of_facts delete_runs_of_facts jm_get_delete)
  then show ?thesis by (auto simp: rows_erased_def thread_get_def)
qed

lemma delete_by_thread_records: "records_erased t (snd (idempotency_delete_by_thread t s))"
  by (auto simp: records_erased_def idempotency_delete_defs)

lemma delete_by_thread_rows: "rows_erased t s \<Longrightarrow> rows_erased t (snd (idempotency_delete_by_thread t s))"
  by (simp add: rows_erased_def idempotency_delete_defs thread_get_def project_thread_def)

section \<open>Deleting a thread erases it\<close>


text \<open>The sample service, with the run r1 of t1 pending and waiting for its turn here.\<close>

definition tracking_service :: run_service where
  "tracking_service = sample_service\<lparr>sv_store := sample_store\<lparr>ms_run_kwargs := [(''r1'', empty_kwargs)]\<rparr>,
     sv_control := snd (register_run ''r1'' (new_registry True))\<rparr>"


section \<open>The sweep and a thread refreshed meanwhile\<close>

text \<open>
  The sweep reads the expired threads once and then collects each of them, up to a hundred, awaiting in
  between. It does not look at the deadline again, so a thread whose lifetime a client extends after
  the scan is deleted although it is no longer due.
\<close>

definition swept_service :: run_service where
  "swept_service = sample_service\<lparr>sv_store := two_threads\<rparr>"

definition extends_t1 :: "run_service \<Rightarrow> run_service" where
  "extends_t1 sv = snd (thread_service_patch no_gap 70000 ''t1''
     \<lparr>ta_metadata = None, ta_ttl = Value 60, ta_ttl_strategy = None\<rparr> sv)"

lemma sweep_deletes_refreshed_thread:
  "threads_list_expired 70000 100 (sv_store swept_service) = [''t1''] \<and>
   threads_list_expired 70000 100 (sv_store (extends_t1 swept_service)) = [] \<and>
   fst (sweep_batch extends_t1 (\<lambda>_. no_gap) 70000 (\<lambda>_. None) (\<lambda>_. Inr True) swept_service) = (1, 1) \<and>
   thread_get ''t1'' (sv_store (snd (sweep_batch extends_t1 (\<lambda>_. no_gap) 70000 (\<lambda>_. None) (\<lambda>_. Inr True)
     swept_service))) = None"
  by (intro conjI; code_simp)

section \<open>A copied thread is free\<close>

text \<open>
  Copying leaves the copy without an active run, also when it fails half way and whatever status the
  source had, and it does not answer with a busy thread: only runs that are over are copied.
\<close>

lemma has_active_run_rows: "has_active_run t s \<longleftrightarrow> (\<exists>i r. (i, r) \<in> set (ms_runs s) \<and> r_thread_id r = t \<and> \<not> is_terminal_run_status (r_status r))"
  by (force simp: has_active_run_def is_active_on_def list_ex_iff)

lemma create_terminal_idle:
  assumes "\<not> has_active_run t s" and "rc_status input = Some status" and "is_terminal_run_status status"
  shows "\<not> has_active_run t (snd (create_run input uuid now s))"
proof (cases "jm_has (ms_runs s) (or_default (rc_run_id input) uuid)")
  case False
  then have "or_default (rc_run_id input) uuid \<notin> fst ` set (ms_runs s)" by (simp add: jm_has_dom)
  with assms False show ?thesis
    by (auto simp: has_active_run_rows create_run_eq frame_simps new_run_def jm_set_new)
qed (use assms in \<open>simp add: create_run_eq\<close>)

lemma record_result_runs: "ms_runs (snd (record_result i res s)) = ms_runs s"
  by (simp add: record_result_def split: option.split)

lemma copy_runs_idle:
  assumes others: "\<forall>n sv. \<not> has_active_run t (sv_store sv) \<longrightarrow> \<not> has_active_run t (sv_store (gap n sv))"
    and idle: "\<not> has_active_run t (sv_store sv)"
  shows "\<not> has_active_run t (sv_store (snd (copy_runs gap now ids copy_id rs sv)))"
  using assms
proof (induction gap now ids copy_id rs sv rule: copy_runs.induct)
  case (1 gap now ids copy_id sv)
  then show ?case by simp
next
  case (2 gap now ids copy_id r rs sv)
  show ?case
  proof (cases "is_terminal_run_status (r_status r)")
    case False
    with 2 show ?thesis by simp
  next
    case True
    obtain out sv1 where one: "copy_run gap now ids copy_id r sv = (out, sv1)" by fastforce
    have step: "\<not> has_active_run t (sv_store (gap n (u\<lparr>sv_store := s\<rparr>)))" if "\<not> has_active_run t s" for n u s
      using 2(3) that by simp
    have kept: "\<not> has_active_run t (sv_store (gap n u))" if "\<not> has_active_run t (sv_store u)" for n u
      using 2(3) that by simp
    have made: "\<not> has_active_run t st"
      if "create_run (copied_run ids copy_id r k) [] now (sv_store (gap 0 sv)) = (res, st)" for k res st
      using create_terminal_idle [OF kept [OF 2(4)], of "copied_run ids copy_id r k" "r_status r"] True that
      by (metis copied_run_def run_create.select_convs(4) snd_conv)
    have result: "\<not> has_active_run t st'"
      if "record_result i res s = (x, st')" "\<not> has_active_run t s" for i res s x st'
      using that record_result_runs [of i res s] by (simp add: has_active_run_def)
    have "\<not> has_active_run t (sv_store sv1)"
      using one made
      by (auto simp: copy_run_def Let_def intro!: step kept split: prod.splits sum.splits option.splits dest!: result)
    moreover have "\<forall>n sv. \<not> has_active_run t (sv_store sv) \<longrightarrow> \<not> has_active_run t (sv_store (later 4 gap n sv))"
      using 2(3) by (simp add: later_def)
    ultimately show ?thesis using True 2(2) [OF _ one [symmetric]] one by (cases out) auto
  qed
qed

lemma copied_thread_free:
  assumes others: "\<forall>n sv. \<not> has_active_run uuid (sv_store sv) \<longrightarrow> \<not> has_active_run uuid (sv_store (gap n sv))"
    and idle: "\<not> has_active_run uuid (sv_store sv)"
    and copy: "copy_thread_service gap history now uuid fresh t sv = (out, sv')"
  shows "\<not> has_active_run uuid (sv_store sv') \<and> (\<forall>v. out = Inr v \<longrightarrow> t_status v \<noteq> Busy)"
proof -
  have step: "\<not> has_active_run uuid (sv_store (gap n (u\<lparr>sv_store := s\<rparr>)))" if "\<not> has_active_run uuid s" for n u s
    using others that by simp
  have kept: "\<not> has_active_run uuid (sv_store (gap n u))" if "\<not> has_active_run uuid (sv_store u)" for n u
    using others that by simp
  have made: "has_active_run uuid st = has_active_run uuid s" if "thread_copy t uuid now s = (res, st)" for res s st
    using that by (auto simp: thread_copy_def Let_def has_active_run_def frame_simps split: option.splits)
  have update: "(case res of Inr v \<Rightarrow> t_status v = Idle | Inl _ \<Rightarrow> True) \<and> has_active_run uuid st = has_active_run uuid s"
    if "thread_update_op i (empty_thread_update\<lparr>tu_status := Some Idle\<rparr>) now s = (res, st)" for i s res st
    using that
    by (auto simp: thread_update_op_def Let_def patched_thread_def project_thread_def thread.defs has_active_run_def
        frame_simps split: option.splits if_splits)
  have runs: "\<not> has_active_run uuid (sv_store u')"
    if "copy_runs (later 4 gap) now ids c rs u = (res, u')" "\<not> has_active_run uuid (sv_store u)" for ids c rs u res u'
    using copy_runs_idle [of uuid "later 4 gap" u now ids c rs] others that by (simp add: later_def)
  define sv1 where "sv1 = gap 0 sv"
  obtain copied st where one: "thread_copy t uuid now (sv_store sv1) = (copied, st)" by fastforce
  define sv2 where "sv2 = gap 2 (gap 1 (sv1\<lparr>sv_store := st\<rparr>))"
  define listed where "listed = list_by_thread t None None None (sv_store sv2)"
  obtain outcome sv3 where two: "copy_runs (later 4 gap) now (copied_ids fresh listed) (t_thread_id (projr copied))
      (js_sort (\<lambda>a b. compare_of (r_created_at a) (r_created_at b)) listed) (gap 3 sv2) = (outcome, sv3)" by fastforce
  have idle1: "\<not> has_active_run uuid (sv_store sv1)" using kept idle by (simp add: sv1_def)
  then have idle_st: "\<not> has_active_run uuid st" using made [OF one] by simp
  then have idle2: "\<not> has_active_run uuid (sv_store sv2)" by (simp add: sv2_def step kept)
  have idle3: "\<not> has_active_run uuid (sv_store sv3)" using runs [OF two] kept idle2 by simp
  note parts = copy [unfolded copy_thread_service_def Let_def, folded sv1_def]
  show ?thesis
  proof (cases "require_thread t sv")
    case (Inl e)
    with parts idle1 show ?thesis by auto
  next
    case (Inr row)
    note found = parts [unfolded Inr sum.case one prod.case, folded sv2_def listed_def]
    show ?thesis
    proof (cases copied)
      case (Inl e)
      with found step idle_st show ?thesis by auto
    next
      case (Inr v)
      have "t_status v \<noteq> Busy \<Longrightarrow> ?thesis"
        using found [unfolded Inr sum.case] two [unfolded Inr sum.sel] idle2 idle3
        by (cases history; cases outcome) auto
      moreover have "t_status v = Busy \<Longrightarrow> ?thesis"
        using found [unfolded Inr sum.case] two [unfolded Inr sum.sel] idle2 idle3
        by (cases history; cases outcome) (auto split: prod.splits sum.splits dest!: update)
      ultimately show ?thesis by blast
    qed
  qed
qed

end
