(* ===== verification/Spec2Isabelle.thy ===== *)
theory Spec2Isabelle
  imports AdmissionHistory StoreThreads StoreAssistants StoreCrons StoreItems StoreIdempotency
    StoreSnapshot RunEventHistory ThreadEventHistory RunQueueSystem DeliveryBudget
    ThreadLocks CollectPages StoreSystem SseStream DeliverySignature RunCancellation IdempotentHandlers
    RunCancelling RunCreation TenantIsolation RouteAuthz RunExecutionEnds CronTicks ThreadDeletion
begin

text \<open>
  A model of skein-js, an Agent Protocol server: a client creates threads, runs an agent graph on
  them, follows the run's frames as they are published, and may be told of its end by a callback. The
  model follows the sources under \<^verbatim>\<open>src/packages\<close>; paths below are relative to it.

  \<^bold>\<open>The program.\<close> A request passes authentication and the deployment's authorize handler, which may
  return ownership filters; the store the endpoint then sees is confined by them. Creating a run
  writes a row under the thread's multitask strategy (refuse, enqueue, interrupt, roll back) or
  through one atomic admission under an operation key; background runs are handed to a queue. A
  worker takes a run, waits for the thread's execution lock, and the engine drives the graph,
  publishes frames on the run bus and the thread bus, and settles the row together with the callback
  it owes. The outbox's workers lease callbacks and post them until the receiver answers or the
  budget is spent. Everything rests on the resource store, whose in-memory driver is the reference
  implementation of the contract the other drivers are tested against.

  \<^bold>\<open>The theories, in the order of the code.\<close>

  \<^item> Values and rows. Prelude (JavaScript maps with their iteration order, absent/null/present
    properties, paging, sorting), JsValue (\<^verbatim>\<open>core/src/wire/serialize-wire-json.ts\<close>,
    \<^verbatim>\<open>core/src/store/metadata-match.ts\<close>), JsonText and JsText (key texts and text search),
    Resources (the rows of \<^verbatim>\<open>core/src/store\<close>, \<^verbatim>\<open>core/src/wire\<close>, \<^verbatim>\<open>core/src/errors\<close>), ItemFilter and
    Namespaces (\<^verbatim>\<open>core/src/store/item-filter.ts\<close>, \<^verbatim>\<open>namespace-match.ts\<close>, \<^verbatim>\<open>pagination.ts\<close>).
  \<^item> The store, \<^verbatim>\<open>storage-memory/src/memory-skein-store.ts\<close>. MemoryStore has the state and
    \<open>store_inv\<close>; StoreRuns, StoreAdmission, StoreDeliveries, StoreThreads, StoreAssistants,
    StoreCrons, StoreItems, StoreIdempotency and StoreSnapshot one repository each; StoreWire the
    normalisation of what is persisted; Contracts the two interfaces concurrent clients rely on, a
    compare-and-swap token and a lease, each a locale interpreted on the repositories that provide
    it. AdmissionHistory and StoreSystem speak of every interleaving of operations.
  \<^item> Queue and buses. RunEventBus with RunEventHistory and RunQueue with RunQueueSystem
    (\<^verbatim>\<open>storage-memory/src/memory-queue.ts\<close>, \<^verbatim>\<open>partitioned-run-consumer.ts\<close>), ThreadEventBus with
    ThreadEventHistory (\<^verbatim>\<open>memory-thread-event-bus.ts\<close>): the first theory of a pair has the
    operations, the second the system of them with its subscribers or consumers and the theorems.
  \<^item> Runs, \<^verbatim>\<open>agent-protocol/src/runs\<close>. RunInputs (kwargs, rollback plans, statuses), RunService
    (\<^verbatim>\<open>createPendingRun\<close>), RunCreation (the prologue and the background modes), RunCancelling
    (cancelling, deleting, joining, and the engine's status write), RunCancellation (the registry of
    abort controllers over instances and the abort channel), ThreadLocks (the per-thread lock).
  \<^item> The execution of a run. RunCallOptions (\<^verbatim>\<open>runs/run-input.ts\<close>), GraphFrames
    (\<^verbatim>\<open>sse/run-frame-stream.ts\<close>, \<^verbatim>\<open>runs/declared-reply.ts\<close>), ThreadMirror
    (\<^verbatim>\<open>threads/thread-mirror.ts\<close>) and DeliveryPayload (\<^verbatim>\<open>deliveries/delivery-payload.ts\<close>) are the
    translations the engine uses; RunEngine (\<^verbatim>\<open>runs/run-engine.ts\<close>) is the engine as a computation in
    a state and exception monad, RunExecution (\<^verbatim>\<open>runs/run-execution.ts\<close>) what surrounds it. The laws
    are in RunEngineLaws (triples, and locales for the invariants an execution keeps), RunEngineEnds
    and RunExecutionEnds (whatever happens in the awaits) and RunEngineAlone (undisturbed).
  \<^item> Schedules, \<^verbatim>\<open>agent-protocol/src/crons\<close>. CronSchedule has the next occurrence of a schedule, whose
    parser is a parameter, and the cron service; CronScheduler one tick of the scheduler, from the scan
    to the sweep of runs that never reached the queue; CronTicks what a tick guarantees.
  \<^item> Threads, \<^verbatim>\<open>agent-protocol/src/threads\<close>. ThreadService has creating, patching, deleting, pruning and
    copying a thread (\<^verbatim>\<open>thread-service.ts\<close>) and the sweep of expired ones (\<^verbatim>\<open>thread-ttl-sweeper.ts\<close>);
    ThreadDeletion what a deletion erases, and what the sweep does to a thread refreshed meanwhile.
  \<^item> Callbacks, \<^verbatim>\<open>agent-protocol/src/deliveries\<close> and \<^verbatim>\<open>crypto\<close>: DeliveryAttempts and DeliveryBudget,
    DeliverySignature.
  \<^item> Requests. Fingerprint and IdempotentHandlers (\<^verbatim>\<open>idempotency\<close>), SseStream (\<^verbatim>\<open>sse/sse.ts\<close>),
    CollectPages (\<^verbatim>\<open>store/collect-pages.ts\<close>), AuthFilters, AuthScopedStore, TenantIsolation and
    RouteAuthz (\<^verbatim>\<open>auth\<close>, and the target readers of \<^verbatim>\<open>create-handlers.ts\<close>).

  \<^bold>\<open>How code becomes definitions.\<close> A store operation is a function of its arguments, the ids
  \<^verbatim>\<open>randomUUID\<close> would return, the instant the clock shows, and the store; it gives what it throws or
  returns, and the new store. \<^verbatim>\<open>structuredClone\<close> is the identity. One store operation, one publish,
  one stretch of an asynchronous loop between two suspensions is one atomic step, as it is in a
  single-threaded runtime. A service operation that awaits takes \<open>gap\<close>, what everybody else did at its
  n-th await, as an arbitrary function of the state; a theorem names what it needs of it. Components
  that live through many steps are step relations with a reachability predicate; history variables
  occur only in their system records. Instants and durations are whole milliseconds in \<open>int\<close>, as
  doubles hold them exactly; a sequence number is a \<open>nat\<close>; other numbers are extended rationals. Code
  outside the sources is an argument: the text of \<^verbatim>\<open>JSON.stringify\<close>, the collation of
  \<^verbatim>\<open>localeCompare\<close>, HMAC and SHA-256, the URL parser, the answer of a POST, the deployment's
  authenticate and authorize handlers and its filter engine. Where a theorem relies on documented
  behaviour of one of them, the hypothesis has a name and a witness.

  \<^bold>\<open>What the theorems show.\<close> Of the store: every reachable store is well formed; refused admissions
  leave no trace, accepted ones commit run, dispatch and receipt together, and an operation key
  admits once; no thread gets two active runs; leases and claim tokens exclude; versions are
  immutable; a deletion cascades to exactly what belongs to the row; a snapshot round-trips. Of the
  streams: what a subscriber is given has no hole and no lost wake-up, and what an SSE client decodes
  is what was published. Of the queue: no run is queued or executed twice, and none is left while
  consumers are parked. Of runs: each multitask strategy keeps its promise under any interleaving,
  a cancel stops the run and nothing else, and an abort reaches every holder. Of executions: however
  others interleave, the engine leaves its run over and its bus closed, records one callback at most,
  publishes exactly the agent's chunks under names no chunk can forge, and hands the graph a
  configuration no client can spoof; undisturbed, the row, the thread, the result and the callback
  agree; a run that is over is not executed again, and a rollback removes what it displaced. Of
  schedules: a tick consumes every occurrence it scanned, whatever fails and whoever interferes, a cron
  fires as the principal that created it or not at all, and a patch reschedules by the resulting row.
  Of threads: deleting one stops its active runs and leaves nothing of it, and a copy is free to run. Of
  callbacks: attempts stay within the backoff bounds and the budget, and only the holder of the secret signs. Of
  requests: a create under an idempotency key runs once and is invisible to other callers, every
  route but two is gated, a store request addresses what its handler approved, and a caller's
  operations leave other callers' rows as they were.

  \<^bold>\<open>Bounds and fuel.\<close> Loops over rows are structural. The drain of a paged search is partial
  (\<open>partial_function\<close>) and its end is a theorem, from the row cap. The backoff doubles in \<open>int\<close> and is
  capped at a day. No definition has fuel.

  \<^bold>\<open>Not modelled.\<close> The Postgres and SQLite drivers and the Redis and BullMQ runtimes: their
  behaviour is that of the database and its SQL, which is not under the sources; their contract is the
  repository interface the memory driver implements here. The HTTP adapters, the server kit, the
  command line, the console, the channels, the telemetry sinks, the scaffolding and the examples are
  input and output around the core. In the agent protocol package: the reads and writes of a thread's
  state through its graph and its checkpoints, the thread protocol, the timer loops around the ticks and
  sweeps, the A2A and MCP bridges, native runs, the validation schemas and the generated descriptions.
\<close>

end
